(* ===== verification/ShellQuote.thy ===== *)
theory ShellQuote
  imports Prelude
begin

text \<open>
  POSIX-like word splitting (\<open>utils/shellquote/shellquote.go\<close>), used to parse the configured
  mpv command template. The index loop of \<open>Split\<close> is a recursion on the rest of the input;
  the look-ahead after a backslash is the second byte of that rest.
\<close>

datatype sq_state = stateUnquoted | stateSingleQuoted | stateDoubleQuoted

datatype sq_error =
    ErrUnterminatedSingleQuote
  | ErrUnterminatedDoubleQuote
  | ErrUnterminatedEscape

abbreviation backslash :: char where "backslash \<equiv> CHR 0x5C"
abbreviation squote :: char where "squote \<equiv> CHR 0x27"
abbreviation dquote :: char where "dquote \<equiv> CHR 0x22"
abbreviation newline :: char where "newline \<equiv> CHR 0x0A"
abbreviation tab :: char where "tab \<equiv> CHR 0x09"
abbreviation backtick :: char where "backtick \<equiv> CHR 0x60"

definition is_blank :: "char \<Rightarrow> bool" where
  "is_blank c \<longleftrightarrow> c = CHR '' '' \<or> c = tab \<or> c = newline"

fun split_loop ::
  "sq_state \<Rightarrow> bool \<Rightarrow> string \<Rightarrow> string list \<Rightarrow> string \<Rightarrow> sq_error + string list" where
  "split_loop stateSingleQuoted inWord word words [] = Inl ErrUnterminatedSingleQuote"
| "split_loop stateDoubleQuoted inWord word words [] = Inl ErrUnterminatedDoubleQuote"
| "split_loop stateUnquoted inWord word words [] = Inr (if inWord then words @ [word] else words)"
| "split_loop stateUnquoted inWord word words (ch # rest) =
     (if ch = backslash then
        (case rest of
           [] \<Rightarrow> Inl ErrUnterminatedEscape
         | next # rest' \<Rightarrow>
             if next = newline then split_loop stateUnquoted inWord word words rest'
             else split_loop stateUnquoted True (word @ [next]) words rest')
      else if ch = squote then split_loop stateSingleQuoted True word words rest
      else if ch = dquote then split_loop stateDoubleQuoted True word words rest
      else if is_blank ch then
        (if inWord then split_loop stateUnquoted False [] (words @ [word]) rest
         else split_loop stateUnquoted inWord word words rest)
      else split_loop stateUnquoted True (word @ [ch]) words rest)"
| "split_loop stateSingleQuoted inWord word words (ch # rest) =
     (if ch = squote then split_loop stateUnquoted inWord word words rest
      else split_loop stateSingleQuoted inWord (word @ [ch]) words rest)"
| "split_loop stateDoubleQuoted inWord word words (ch # rest) =
     (if ch = dquote then split_loop stateUnquoted inWord word words rest
      else if ch = backslash then
        (case rest of
           [] \<Rightarrow> Inl ErrUnterminatedEscape
         | next # rest' \<Rightarrow>
             if next \<in> {CHR ''$'', backtick, dquote, newline, backslash} then
               (if next = newline then split_loop stateDoubleQuoted inWord word words rest'
                else split_loop stateDoubleQuoted inWord (word @ [next]) words rest')
             else split_loop stateDoubleQuoted inWord (word @ [ch]) words rest)
      else split_loop stateDoubleQuoted inWord (word @ [ch]) words rest)"

definition Split :: "string \<Rightarrow> sq_error + string list" where
  "Split input = split_loop stateUnquoted False [] [] input"

section \<open>Quoting, the specification of what Split undoes\<close>

text \<open>
  The POSIX way to quote any word: single quotes around it, and a single quote inside it as
  the closing quote, an escaped quote and the opening quote.
\<close>

definition quote_char :: "char \<Rightarrow> string" where
  "quote_char c = (if c = squote then [squote, backslash, squote, squote] else [c])"

definition quote :: "string \<Rightarrow> string" where
  "quote w = [squote] @ concat (map quote_char w) @ [squote]"

fun quote_join :: "string list \<Rightarrow> string" where
  "quote_join [] = []"
| "quote_join [w] = quote w"
| "quote_join (w # ws) = quote w @ [CHR '' ''] @ quote_join ws"

lemma split_quoted_body:
  "split_loop stateSingleQuoted True word words (concat (map quote_char w) @ rest)
     = split_loop stateSingleQuoted True (word @ w) words rest"
  by (induction w arbitrary: word) (auto simp: quote_char_def)

lemma split_quote:
  "split_loop stateUnquoted inWord word words (quote w @ rest)
     = split_loop stateUnquoted True (word @ w) words rest"
  by (simp add: quote_def split_quoted_body)

lemma split_quote_join:
  "ws \<noteq> [] \<Longrightarrow> split_loop stateUnquoted False [] words (quote_join ws) = Inr (words @ ws)"
proof (induction ws arbitrary: words rule: quote_join.induct)
  case (2 w)
  show ?case using split_quote [of False "[]" words w "[]"] by simp
next
  case (3 w v vs)
  then show ?case by (simp add: split_quote is_blank_def)
qed simp

text \<open>A run of ordinary bytes is copied to the word.\<close>

definition plain :: "char \<Rightarrow> bool" where
  "plain c \<longleftrightarrow> c \<noteq> backslash \<and> c \<noteq> squote \<and> c \<noteq> dquote \<and> \<not> is_blank c"

lemma split_plain:
  "list_all plain w \<Longrightarrow> split_loop stateUnquoted inWord word words (w @ rest)
     = split_loop stateUnquoted (inWord \<or> w \<noteq> []) (word @ w) words rest"
  by (induction w arbitrary: word inWord) (auto simp: plain_def)

lemma Split_of_quoted: "Split (quote_join ws) = Inr ws"
  by (cases "ws = []") (simp_all add: Split_def split_quote_join)

section \<open>Properties\<close>

text \<open>
  \<open>Split\<close> is a left inverse of shell quoting: any list of words, empty ones and ones with
  quotes, backslashes and blanks included, comes back from its quoted, blank-separated form.
\<close>

theorem Split_quote_join: "Split (quote_join ws) = Inr ws"
  by (rule Split_of_quoted)

end
