(* ===== verification/Media.thy ===== *)
theory Media
  imports Prelude
begin

text \<open>
  The data of package \<open>model\<close> that the other components share: media files, players,
  transcodings and users, with the fields the modelled code reads. Times are whole
  nanoseconds since the Unix epoch, as in Go's \<open>time.Time\<close> without its monotonic part; the
  zero time (the first of January of year 1) is \<open>zeroTime\<close>. The modelled code reads a
  \<open>float32\<close> duration only through \<open>int64(d * 1000)\<close>, so the field keeps that integer.
\<close>

type_synonym time = int
type_synonym duration = int

definition Second :: duration where "Second = 1000000000"

definition Millisecond :: duration where "Millisecond = 1000000"

definition zeroTime :: time where "zeroTime = - 62135596800 * Second"

text \<open>\<open>Truncate(time.Second)\<close> rounds down to a whole second; \<open>Unix\<close> is the second count.\<close>

definition TruncateSecond :: "time \<Rightarrow> time" where
  "TruncateSecond t = t - t mod Second"

definition UnixSec :: "time \<Rightarrow> int" where
  "UnixSec t = t div Second"

record media_file =
  mf_ID :: string
  mf_LibraryID :: int
  mf_Path :: string
  mf_Title :: string
  mf_Artist :: string
  mf_AlbumID :: string
  mf_AlbumArtistID :: string
  mf_ArtistIDs :: "string list"
  mf_Suffix :: string
  mf_DurationMs :: int
  mf_BitRate :: int
  mf_SampleRate :: int
  mf_BitDepth :: "int option"
  mf_Channels :: int
  mf_Codec :: string
  mf_Size :: int
  mf_ProbeData :: string
  mf_UpdatedAt :: time

record player =
  pl_Name :: string
  pl_MaxBitRate :: int
  pl_ScrobbleEnabled :: bool

record transcoding =
  trc_TargetFormat :: string
  trc_Command :: string
  trc_DefaultBitRate :: int

record user =
  us_ID :: string
  us_UserName :: string
  us_ScrobbleFilter :: string
  us_LibraryAccess :: "int list"
  us_IsAdmin :: bool
  us_TokenEpoch :: int

text \<open>\<open>gg.V\<close>: a pointer's value, or the zero value for nil.\<close>

definition gg_V :: "'a \<Rightarrow> 'a option \<Rightarrow> 'a" where
  "gg_V z p = (case p of None \<Rightarrow> z | Some v \<Rightarrow> v)"

definition inferCodecFromSuffix :: "media_file \<Rightarrow> string" where
  "inferCodecFromSuffix mf =
     (let s = ToLower (mf_Suffix mf) in
      if s \<in> {''mp3'', ''mpga''} then ''mp3''
      else if s = ''mp2'' then ''mp2''
      else if s \<in> {''ogg'', ''oga''} then ''vorbis''
      else if s = ''opus'' then ''opus''
      else if s = ''mpc'' then ''mpc''
      else if s = ''wma'' then ''wma''
      else if s = ''flac'' then ''flac''
      else if s = ''wav'' then ''pcm''
      else if s \<in> {''aif'', ''aiff'', ''aifc''} then ''pcm''
      else if s = ''ape'' then ''ape''
      else if s \<in> {''wv'', ''wvp''} then ''wv''
      else if s = ''tta'' then ''tta''
      else if s = ''tak'' then ''tak''
      else if s = ''shn'' then ''shn''
      else if s \<in> {''dsf'', ''dff''} then ''dsd''
      else if s = ''m4a'' then (if gg_V 0 (mf_BitDepth mf) > 0 then ''alac'' else ''aac'')
      else if s \<in> {''m4b'', ''m4p'', ''m4r''} then ''aac''
      else [])"

definition AudioCodec :: "media_file \<Rightarrow> string" where
  "AudioCodec mf =
     (if mf_Codec mf \<noteq> [] then ToLower (mf_Codec mf) else inferCodecFromSuffix mf)"

text \<open>\<open>User.HasLibraryAccess\<close>: administrators see every library.\<close>

definition HasLibraryAccess :: "user \<Rightarrow> int \<Rightarrow> bool" where
  "HasLibraryAccess u lib \<longleftrightarrow> us_IsAdmin u \<or> lib \<in> set (us_LibraryAccess u)"

lemma TruncateSecond_Unix: "TruncateSecond t = UnixSec t * Second"
  by (simp add: TruncateSecond_def UnixSec_def minus_mod_eq_div_mult)

lemma UnixSec_Truncate [simp]: "UnixSec (TruncateSecond t) = UnixSec t"
  by (simp add: TruncateSecond_Unix) (simp add: UnixSec_def Second_def)

lemma ToLower_inferCodec [simp]: "ToLower (inferCodecFromSuffix mf) = inferCodecFromSuffix mf"
  by (simp add: inferCodecFromSuffix_def Let_def ToLower_def lower_char_def)

lemma ToLower_AudioCodec [simp]: "ToLower (AudioCodec mf) = AudioCodec mf"
  by (simp add: AudioCodec_def)


text \<open>A three-minute file with the given ID, for concrete instances of the theorems.\<close>

definition demo_file :: "string \<Rightarrow> media_file" where
  "demo_file i =
     \<lparr>mf_ID = i, mf_LibraryID = 1, mf_Path = i @ ''.flac'', mf_Title = ''Title'', mf_Artist = ''Artist'',
      mf_AlbumID = ''al'', mf_AlbumArtistID = ''ar'', mf_ArtistIDs = [''ar''], mf_Suffix = ''flac'',
      mf_DurationMs = 180000, mf_BitRate = 1000, mf_SampleRate = 96000, mf_BitDepth = Some 24,
      mf_Channels = 6, mf_Codec = ''FLAC'', mf_Size = 1, mf_ProbeData = [], mf_UpdatedAt = 5 * Second + 7\<rparr>"

lemma demo_file_simps [simp]:
  "mf_ID (demo_file i) = i" "mf_Suffix (demo_file i) = ''flac''" "mf_DurationMs (demo_file i) = 180000"
  "mf_BitRate (demo_file i) = 1000" "mf_SampleRate (demo_file i) = 96000"
  "mf_BitDepth (demo_file i) = Some 24" "mf_Channels (demo_file i) = 6" "mf_Codec (demo_file i) = ''FLAC''"
  "mf_LibraryID (demo_file i) = 1" "mf_Artist (demo_file i) = ''Artist''"
  "mf_ArtistIDs (demo_file i) = [''ar'']" "mf_AlbumID (demo_file i) = ''al''"
  "mf_ProbeData (demo_file i) = []" "mf_UpdatedAt (demo_file i) = 5 * Second + 7"
  "mf_Size (demo_file i) = 1" "mf_Path (demo_file i) = i @ ''.flac''"
  by (simp_all add: demo_file_def)

end
