(* ===== verification/PlaybackQueue.thy ===== *)
theory PlaybackQueue
  imports Media
begin

text \<open>
  The jukebox play queue (\<open>core/playback/queue.go\<close>): a list of media files and the index of
  the current one, \<open>-1\<close> when there is none. Every method is a function from the queue it is
  called on to the queue it leaves. \<open>Remove\<close> panics on an index outside the items, which is
  \<open>None\<close>; \<open>rand.Shuffle\<close> is the Fisher-Yates loop of \<open>math/rand\<close> with its random draws as
  the argument \<open>rnd\<close>.
\<close>

record queue =
  q_Index :: int
  q_Items :: "media_file list"

definition NewQueue :: queue where
  "NewQueue = \<lparr>q_Index = -1, q_Items = []\<rparr>"

fun Queue_files :: "int \<Rightarrow> media_file list \<Rightarrow> string" where
  "Queue_files idx [] = []"
| "Queue_files idx (m # ms) = Itoa idx @ '':'' @ mf_Path m @ '' '' @ Queue_files (idx + 1) ms"

definition Queue_String :: "queue \<Rightarrow> string" where
  "Queue_String q =
     ''#Items: '' @ Itoa (int (length (q_Items q))) @ '', idx: '' @ Itoa (q_Index q)
     @ '', files: '' @ Queue_files 0 (q_Items q)"

definition Queue_Current :: "queue \<Rightarrow> media_file option" where
  "Queue_Current q =
     (if q_Index q = -1 then None
      else if q_Index q \<ge> int (length (q_Items q)) then None
      else Some (q_Items q ! nat (q_Index q)))"

definition Queue_Get :: "queue \<Rightarrow> media_file list" where
  "Queue_Get q = q_Items q"

definition Queue_Size :: "queue \<Rightarrow> int" where
  "Queue_Size q = int (length (q_Items q))"

definition Queue_IsEmpty :: "queue \<Rightarrow> bool" where
  "Queue_IsEmpty q \<longleftrightarrow> length (q_Items q) < 1"

definition Queue_Clear :: "queue \<Rightarrow> queue" where
  "Queue_Clear q = q\<lparr>q_Index := -1, q_Items := []\<rparr>"

definition Queue_Set :: "media_file list \<Rightarrow> queue \<Rightarrow> queue" where
  "Queue_Set items q = (let q' = Queue_Clear q in q'\<lparr>q_Items := q_Items q' @ items\<rparr>)"

definition Queue_Add :: "media_file list \<Rightarrow> queue \<Rightarrow> queue" where
  "Queue_Add items q =
     (let q' = q\<lparr>q_Items := q_Items q @ items\<rparr>
      in if q_Index q' = -1 \<and> length (q_Items q') > 0 then q'\<lparr>q_Index := 0\<rparr> else q')"

fun index_by_id :: "string \<Rightarrow> int \<Rightarrow> media_file list \<Rightarrow> int option" where
  "index_by_id i idx [] = None"
| "index_by_id i idx (m # ms) = (if mf_ID m = i then Some idx else index_by_id i (idx + 1) ms)"

definition getMediaFileIndexByID :: "string \<Rightarrow> queue \<Rightarrow> int \<times> string option" where
  "getMediaFileIndexByID i q =
     (case index_by_id i 0 (q_Items q) of
        Some idx \<Rightarrow> (idx, None)
      | None \<Rightarrow> (-1, Some (''ID not found in playlist: '' @ i)))"

definition Queue_backupID :: "queue \<Rightarrow> string" where
  "Queue_backupID q = (case Queue_Current q of None \<Rightarrow> [] | Some c \<Rightarrow> mf_ID c)"

definition Queue_Remove :: "int \<Rightarrow> queue \<Rightarrow> queue option" where
  "Queue_Remove idx q =
     (if idx < 0 \<or> idx + 1 > int (length (q_Items q)) then None
      else (let backupID = Queue_backupID q;
                q' = q\<lparr>q_Items := take (nat idx) (q_Items q) @ drop (nat (idx + 1)) (q_Items q)\<rparr>
            in case getMediaFileIndexByID backupID q' of
                 (i, None) \<Rightarrow> Some (q'\<lparr>q_Index := i\<rparr>)
               | (i, Some e) \<Rightarrow> Some (q'\<lparr>q_Index := -1\<rparr>)))"

text \<open>
  \<open>rand.Shuffle(n, swap)\<close> calls \<open>swap(i, j)\<close> for \<open>i\<close> from \<open>n-1\<close> down to 1, with \<open>j\<close> a draw
  below \<open>i+1\<close>.
\<close>

definition swap_items :: "nat \<Rightarrow> nat \<Rightarrow> 'a list \<Rightarrow> 'a list" where
  "swap_items i j xs = xs[i := xs ! j, j := xs ! i]"

fun shuffle_from :: "(nat \<Rightarrow> nat) \<Rightarrow> nat \<Rightarrow> 'a list \<Rightarrow> 'a list" where
  "shuffle_from rnd 0 xs = xs"
| "shuffle_from rnd (Suc i) xs = shuffle_from rnd i (swap_items (Suc i) (rnd (Suc i) mod Suc (Suc i)) xs)"

definition rand_Shuffle :: "(nat \<Rightarrow> nat) \<Rightarrow> 'a list \<Rightarrow> 'a list" where
  "rand_Shuffle rnd xs = shuffle_from rnd (length xs - 1) xs"

definition Queue_Shuffle :: "(nat \<Rightarrow> nat) \<Rightarrow> queue \<Rightarrow> queue" where
  "Queue_Shuffle rnd q =
     (let backupID = Queue_backupID q;
          q' = q\<lparr>q_Items := rand_Shuffle rnd (q_Items q)\<rparr>
      in q'\<lparr>q_Index := fst (getMediaFileIndexByID backupID q')\<rparr>)"

definition Queue_SetIndex :: "int \<Rightarrow> queue \<Rightarrow> queue" where
  "Queue_SetIndex idx q = q\<lparr>q_Index := max 0 (min idx (int (length (q_Items q)) - 1))\<rparr>"

definition Queue_IsAtLastElement :: "queue \<Rightarrow> bool" where
  "Queue_IsAtLastElement q \<longleftrightarrow> q_Index q + 1 \<ge> int (length (q_Items q))"

definition Queue_IncreaseIndex :: "queue \<Rightarrow> queue" where
  "Queue_IncreaseIndex q =
     (if \<not> Queue_IsAtLastElement q then Queue_SetIndex (q_Index q + 1) q else q)"

section \<open>Well-formed queues\<close>

text \<open>
  The index is \<open>-1\<close> or points at an item; on an empty queue \<open>SetIndex\<close> can leave 0, which
  \<open>Current\<close> reports as no current track.
\<close>

definition queue_wf :: "queue \<Rightarrow> bool" where
  "queue_wf q \<longleftrightarrow>
     q_Index q = -1 \<or> (0 \<le> q_Index q \<and> q_Index q < int (length (q_Items q)))
     \<or> (q_Items q = [] \<and> q_Index q = 0)"

definition ids_distinct :: "queue \<Rightarrow> bool" where
  "ids_distinct q \<longleftrightarrow> distinct (map mf_ID (q_Items q)) \<and> [] \<notin> mf_ID ` set (q_Items q)"

lemma index_by_id_Some:
  "index_by_id i k ms = Some j \<Longrightarrow>
     k \<le> j \<and> j < k + int (length ms) \<and> mf_ID (ms ! nat (j - k)) = i"
proof (induction ms arbitrary: k)
  case (Cons m ms)
  show ?case
  proof (cases "mf_ID m = i")
    case False
    with Cons have "k + 1 \<le> j \<and> j < k + 1 + int (length ms) \<and> mf_ID (ms ! nat (j - (k + 1))) = i"
      by simp
    moreover from this have "nat (j - k) = Suc (nat (j - (k + 1)))" by arith
    ultimately show ?thesis by simp
  qed (use Cons in auto)
qed simp

lemma index_by_id_None: "index_by_id i k ms = None \<longleftrightarrow> i \<notin> mf_ID ` set ms"
  by (induction ms arbitrary: k) auto

lemma getMediaFileIndexByID_bounds:
  "getMediaFileIndexByID i q = (j, e) \<Longrightarrow>
     (e = None \<and> 0 \<le> j \<and> j < int (length (q_Items q)) \<and> mf_ID (q_Items q ! nat j) = i)
     \<or> (e \<noteq> None \<and> j = -1 \<and> i \<notin> mf_ID ` set (q_Items q))"
  by (auto simp: getMediaFileIndexByID_def index_by_id_None split: option.splits
           dest: index_by_id_Some)

lemma swap_items_length [simp]: "length (swap_items i j xs) = length xs"
  by (simp add: swap_items_def)

lemma mset_swap_items: "i < length xs \<Longrightarrow> j < length xs \<Longrightarrow> mset (swap_items i j xs) = mset xs"
  by (simp add: swap_items_def mset_swap)

lemma mset_shuffle_from: "i < length xs \<Longrightarrow> mset (shuffle_from rnd i xs) = mset xs"
proof (induction i arbitrary: xs)
  case (Suc i)
  have "rnd (Suc i) mod Suc (Suc i) < Suc (Suc i)" by (rule mod_less_divisor) simp
  also have "\<dots> \<le> length xs" using Suc.prems by simp
  finally have "rnd (Suc i) mod Suc (Suc i) < length xs" .
  with Suc show ?case by (simp add: mset_swap_items)
qed simp

lemma mset_rand_Shuffle [simp]: "mset (rand_Shuffle rnd xs) = mset xs"
  by (cases xs) (simp_all add: rand_Shuffle_def mset_shuffle_from)

lemma set_rand_Shuffle [simp]: "set (rand_Shuffle rnd xs) = set xs"
  by (rule mset_eq_setD) simp

lemma length_rand_Shuffle [simp]: "length (rand_Shuffle rnd xs) = length xs"
  by (rule mset_eq_length) simp

lemmas queue_defs =
  NewQueue_def Queue_Clear_def Queue_Set_def Queue_Add_def Queue_Shuffle_def Queue_SetIndex_def
  Queue_IncreaseIndex_def Queue_IsAtLastElement_def Let_def

lemma wf_NewQueue [simp]: "queue_wf NewQueue"
  by (simp add: queue_wf_def queue_defs)

lemma wf_Clear [simp]: "queue_wf (Queue_Clear q)"
  by (simp add: queue_wf_def queue_defs)

lemma wf_Set [simp]: "queue_wf (Queue_Set items q)"
  by (simp add: queue_wf_def queue_defs)

lemma wf_Add: "queue_wf q \<Longrightarrow> queue_wf (Queue_Add items q)"
  by (cases items; cases "q_Items q") (auto simp: queue_wf_def queue_defs)

lemma wf_SetIndex [simp]: "queue_wf (Queue_SetIndex idx q)"
  by (cases "q_Items q") (auto simp: queue_wf_def queue_defs)

lemma wf_IncreaseIndex: "queue_wf q \<Longrightarrow> queue_wf (Queue_IncreaseIndex q)"
  by (simp add: Queue_IncreaseIndex_def)

lemma wf_set_index_by_id: "queue_wf (q\<lparr>q_Index := fst (getMediaFileIndexByID i q)\<rparr>)"
proof -
  obtain j e where "getMediaFileIndexByID i q = (j, e)" by fastforce
  with getMediaFileIndexByID_bounds [OF this] show ?thesis by (auto simp: queue_wf_def)
qed

lemma Queue_Remove_Some:
  assumes "0 \<le> idx" "idx < int (length (q_Items q))"
  shows "Queue_Remove idx q =
    (let q' = q\<lparr>q_Items := take (nat idx) (q_Items q) @ drop (Suc (nat idx)) (q_Items q)\<rparr>
     in Some (q'\<lparr>q_Index := fst (getMediaFileIndexByID (Queue_backupID q) q')\<rparr>))"
proof -
  let ?q = "q\<lparr>q_Items := take (nat idx) (q_Items q) @ drop (Suc (nat idx)) (q_Items q)\<rparr>"
  obtain j e where g: "getMediaFileIndexByID (Queue_backupID q) ?q = (j, e)" by fastforce
  have n: "nat (idx + 1) = Suc (nat idx)" using assms by simp
  from getMediaFileIndexByID_bounds [OF g] g n assms show ?thesis
    by (cases e) (auto simp: Queue_Remove_def Let_def)
qed

lemma wf_Remove: "Queue_Remove idx q = Some q' \<Longrightarrow> queue_wf q'"
  by (cases "0 \<le> idx \<and> idx < int (length (q_Items q))")
    (auto simp: Queue_Remove_Some Let_def wf_set_index_by_id, simp_all add: Queue_Remove_def)

lemma wf_Shuffle [simp]: "queue_wf (Queue_Shuffle rnd q)"
  unfolding Queue_Shuffle_def Let_def by (rule wf_set_index_by_id)

lemmas queue_wf_intros = wf_Add wf_IncreaseIndex wf_Remove

lemma Queue_Current_Some_iff:
  "queue_wf q \<Longrightarrow> Queue_Current q = Some m \<longleftrightarrow>
     0 \<le> q_Index q \<and> q_Index q < int (length (q_Items q)) \<and> q_Items q ! nat (q_Index q) = m"
  by (auto simp: Queue_Current_def queue_wf_def)

lemma index_by_id_distinct:
  assumes "distinct (map mf_ID ms)" "n < length ms"
  shows "index_by_id (mf_ID (ms ! n)) k ms = Some (k + int n)"
  using assms
proof (induction ms arbitrary: k n)
  case (Cons m ms)
  show ?case
  proof (cases n)
    case (Suc n')
    with Cons.prems have "ms ! n' \<in> set ms" by simp
    with Cons.prems have "mf_ID m \<noteq> mf_ID (ms ! n')" by fastforce
    with Cons Suc show ?thesis by simp
  qed simp
qed simp

text \<open>In a queue with distinct IDs, looking a member's ID up makes that member current.\<close>

lemma current_by_id:
  assumes "distinct (map mf_ID (q_Items q))" "m \<in> set (q_Items q)"
  shows "Queue_Current (q\<lparr>q_Index := fst (getMediaFileIndexByID (mf_ID m) q)\<rparr>) = Some m"
proof -
  from assms(2) obtain n where n: "n < length (q_Items q)" "q_Items q ! n = m"
    by (auto simp: in_set_conv_nth)
  with index_by_id_distinct [OF assms(1) n(1), of 0]
  show ?thesis by (simp add: getMediaFileIndexByID_def Queue_Current_def)
qed


section \<open>Runs of queue operations\<close>

text \<open>One step of a client: any exported method that changes the queue.\<close>

inductive queue_step :: "queue \<Rightarrow> queue \<Rightarrow> bool" where
  qs_set: "queue_step q (Queue_Set items q)"
| qs_add: "queue_step q (Queue_Add items q)"
| qs_clear: "queue_step q (Queue_Clear q)"
| qs_remove: "Queue_Remove idx q = Some q' \<Longrightarrow> queue_step q q'"
| qs_shuffle: "queue_step q (Queue_Shuffle rnd q)"
| qs_setindex: "queue_step q (Queue_SetIndex idx q)"
| qs_increase: "queue_step q (Queue_IncreaseIndex q)"

interpretation pq: step_invariant "\<lambda>q. q = NewQueue" queue_step queue_wf
proof unfold_locales
  show "\<And>q. q = NewQueue \<Longrightarrow> queue_wf q" by simp
  show "\<And>q q'. queue_wf q \<Longrightarrow> queue_step q q' \<Longrightarrow> queue_wf q'"
    by (erule queue_step.cases) (auto intro: queue_wf_intros)
qed

lemma remaining_items:
  assumes "n < length xs" "i < length xs" "i \<noteq> n"
  shows "xs ! i \<in> set (take n xs @ drop (Suc n) xs)"
proof (cases "i < n")
  case True
  with assms have "take n xs ! i = xs ! i" "i < length (take n xs)" by simp_all
  then show ?thesis by (metis UnI1 nth_mem set_append)
next
  case False
  with assms have "drop (Suc n) xs ! (i - Suc n) = xs ! i" "i - Suc n < length (drop (Suc n) xs)"
    by simp_all
  then show ?thesis by (metis UnI2 nth_mem set_append)
qed

lemma distinct_remaining: "distinct (map f xs) \<Longrightarrow> distinct (map f (take n xs @ drop (Suc n) xs))"
proof -
  assume d: "distinct (map f xs)"
  have "take n (map f xs) @ drop (Suc n) (map f xs) = map f (take n xs @ drop (Suc n) xs)"
    by (simp add: take_map drop_map)
  moreover have "distinct (take n (map f xs) @ drop (Suc n) (map f xs))"
    using d set_take_disj_set_drop_if_distinct [of "map f xs" n "Suc n"]
    by (simp add: distinct_append)
  ultimately show ?thesis by simp
qed

lemma removed_not_remaining:
  assumes "distinct (map f xs)" "n < length xs"
  shows "f (xs ! n) \<notin> f ` set (take n xs @ drop (Suc n) xs)"
proof -
  have "map f xs = map f (take n xs) @ f (xs ! n) # map f (drop (Suc n) xs)"
    using assms(2) by (metis id_take_nth_drop list.simps(9) map_append)
  with assms(1) show ?thesis by (auto simp: image_Un)
qed

lemma current_absent_id:
  "i \<notin> mf_ID ` set (q_Items q) \<Longrightarrow>
     Queue_Current (q\<lparr>q_Index := fst (getMediaFileIndexByID i q)\<rparr>) = None"
proof -
  assume a: "i \<notin> mf_ID ` set (q_Items q)"
  then have "index_by_id i 0 (q_Items q) = None" by (simp add: index_by_id_None)
  then show ?thesis by (simp add: getMediaFileIndexByID_def Queue_Current_def)
qed

section \<open>Properties\<close>

text \<open>
  Whatever sequence of queue operations a client runs on a new queue, the index is \<open>-1\<close>,
  points at an item, or is 0 on an empty queue, so \<open>Current\<close> never reads out of range and
  returns a track exactly when the index points at one.
\<close>

theorem queue_index_always_valid:
  assumes "reachable (\<lambda>q. q = NewQueue) queue_step q"
  shows "queue_wf q \<and> (Queue_Current q = None \<longleftrightarrow> q_Index q = -1 \<or> q_Items q = [])"
proof -
  from assms have "queue_wf q" by (rule pq.reachable_inv)
  then show ?thesis by (auto simp: Queue_Current_def queue_wf_def)
qed

theorem queue_index_always_valid_witness:
  "queue_wf (Queue_Add [demo_file ''a''] NewQueue)
   \<and> Queue_Current (Queue_Add [demo_file ''a''] NewQueue) \<noteq> None"
proof -
  have "queue_step NewQueue (Queue_Add [demo_file ''a''] NewQueue)" by (rule qs_add)
  then have "reachable (\<lambda>q. q = NewQueue) queue_step (Queue_Add [demo_file ''a''] NewQueue)"
    by (rule reach_step [OF reach_init [of _ NewQueue], rotated]) simp
  from queue_index_always_valid [OF this] show ?thesis by (simp add: queue_defs)
qed

text \<open>
  Removing a track other than the current one leaves the current track current, removing
  the current track leaves none; the other tracks keep their order. This needs the media
  file IDs in the queue to be distinct and non-empty.
\<close>

theorem Queue_Remove_current:
  assumes "queue_wf q" and "ids_distinct q" and "0 \<le> idx" and "idx < int (length (q_Items q))"
  shows "\<exists>q'. Queue_Remove idx q = Some q'
       \<and> q_Items q' = take (nat idx) (q_Items q) @ drop (Suc (nat idx)) (q_Items q)
       \<and> Queue_Current q' = (if idx = q_Index q then None else Queue_Current q)"
proof -
  let ?n = "nat idx"
  let ?rest = "take ?n (q_Items q) @ drop (Suc ?n) (q_Items q)"
  let ?q = "q\<lparr>q_Items := ?rest\<rparr>"
  have n: "?n < length (q_Items q)" using assms by simp
  have d: "distinct (map mf_ID (q_Items ?q))"
    using assms(2) by (simp add: ids_distinct_def distinct_remaining del: map_append)
  have "Queue_Current (?q\<lparr>q_Index := fst (getMediaFileIndexByID (Queue_backupID q) ?q)\<rparr>)
      = (if idx = q_Index q then None else Queue_Current q)"
  proof (cases "Queue_Current q")
    case None
    have "set ?rest \<subseteq> set (q_Items q)"
      by (auto dest: in_set_takeD in_set_dropD)
    with assms(2) have "[] \<notin> mf_ID ` set (q_Items ?q)" by (auto simp: ids_distinct_def)
    with None show ?thesis by (simp add: Queue_backupID_def current_absent_id)
  next
    case (Some m)
    with assms(1) have m: "0 \<le> q_Index q" "nat (q_Index q) < length (q_Items q)"
      "q_Items q ! nat (q_Index q) = m" by (auto simp: Queue_Current_Some_iff)
    show ?thesis
    proof (cases "idx = q_Index q")
      case True
      with m removed_not_remaining [of mf_ID "q_Items q" ?n] assms(2) n
      have "mf_ID m \<notin> mf_ID ` set (q_Items ?q)" by (simp add: ids_distinct_def)
      with True Some show ?thesis by (simp add: Queue_backupID_def current_absent_id)
    next
      case False
      with m n assms(3) have "m \<in> set (q_Items ?q)"
        using remaining_items [of ?n "q_Items q" "nat (q_Index q)"] by simp
      with d have "Queue_Current (?q\<lparr>q_Index := fst (getMediaFileIndexByID (mf_ID m) ?q)\<rparr>) = Some m"
        by (rule current_by_id)
      with False Some show ?thesis by (simp add: Queue_backupID_def)
    qed
  qed
  then show ?thesis using assms(3,4) by (simp add: Queue_Remove_Some Let_def)
qed

theorem Queue_Remove_current_witness:
  "\<exists>q'. Queue_Remove 0 \<lparr>q_Index = 1, q_Items = [demo_file ''a'', demo_file ''b'']\<rparr> = Some q'
     \<and> Queue_Current q' = Some (demo_file ''b'')"
proof -
  let ?q = "\<lparr>q_Index = 1, q_Items = [demo_file ''a'', demo_file ''b'']\<rparr>"
  have "Queue_Current ?q = Some (demo_file ''b'')" by (simp add: Queue_Current_def)
  with Queue_Remove_current [of ?q 0] show ?thesis
    by (auto simp: queue_wf_def ids_distinct_def)
qed

text \<open>
  Shuffling permutes the items and keeps the current track current, whatever the random
  draws.
\<close>

theorem Queue_Shuffle_current:
  assumes "queue_wf q" and "ids_distinct q"
  shows "mset (q_Items (Queue_Shuffle rnd q)) = mset (q_Items q)
       \<and> Queue_Current (Queue_Shuffle rnd q) = Queue_Current q"
proof -
  let ?q = "q\<lparr>q_Items := rand_Shuffle rnd (q_Items q)\<rparr>"
  have "mset (map mf_ID (q_Items ?q)) = mset (map mf_ID (q_Items q))" by simp
  with assms(2) have d: "distinct (map mf_ID (q_Items ?q))"
    unfolding ids_distinct_def by (metis mset_eq_imp_distinct_iff)
  have "Queue_Current (?q\<lparr>q_Index := fst (getMediaFileIndexByID (Queue_backupID q) ?q)\<rparr>)
      = Queue_Current q"
  proof (cases "Queue_Current q")
    case None
    with assms(2) show ?thesis
      by (simp add: Queue_backupID_def ids_distinct_def current_absent_id)
  next
    case (Some m)
    with assms(1) have "m \<in> set (q_Items ?q)" by (auto simp: Queue_Current_Some_iff)
    with d Some current_by_id [of ?q m] show ?thesis by (simp add: Queue_backupID_def)
  qed
  then show ?thesis by (simp add: Queue_Shuffle_def Let_def)
qed

theorem Queue_Shuffle_current_witness:
  "Queue_Current (Queue_Shuffle (\<lambda>i. 0) \<lparr>q_Index = 1, q_Items = [demo_file ''a'', demo_file ''b'']\<rparr>)
     = Some (demo_file ''b'')"
  using Queue_Shuffle_current [of "\<lparr>q_Index = 1, q_Items = [demo_file ''a'', demo_file ''b'']\<rparr>" "\<lambda>i. 0"]
  by (simp add: queue_wf_def ids_distinct_def Queue_Current_def)

end
