(* ===== verification/PlaybackDevice.thy ===== *)
theory PlaybackDevice
  imports PlaybackQueue
begin

text \<open>
  The jukebox device (\<open>core/playback/device.go\<close>) and the playback server that owns the
  devices (\<open>core/playback/playbackserver.go\<close>). A loaded track is an mpv process behind the
  \<open>Track\<close> interface, and media files come from the datastore; both are arguments of the
  operations, in the record \<open>device_env\<close>. An operation returns the device it leaves together
  with the status and error it answers. Besides the fields of the Go struct a device counts
  the tracks it opened and keeps the ones it closed, which are the effects of
  \<open>mpv.NewTrack\<close> and \<open>Track.Close\<close> on the host. The request handlers and the track-switcher
  goroutine are interleaved at whole operations.
\<close>

record 'tr track_ops =
  tr_IsPlaying :: "'tr \<Rightarrow> bool"
  tr_SetVolume :: "rat \<Rightarrow> 'tr \<Rightarrow> 'tr"
  tr_Pause :: "'tr \<Rightarrow> 'tr"
  tr_Unpause :: "'tr \<Rightarrow> 'tr"
  tr_Position :: "'tr \<Rightarrow> int"
  tr_SetPosition :: "int \<Rightarrow> 'tr \<Rightarrow> 'tr \<times> string option"
  tr_Close :: "'tr \<Rightarrow> 'tr"

record 'tr device_env = "'tr track_ops" +
  env_NewTrack :: "string \<Rightarrow> media_file \<Rightarrow> string + 'tr"
  env_GetMediaFile :: "string \<Rightarrow> string + media_file"

record 'tr playback_device =
  dev_Default :: bool
  dev_User :: string
  dev_Name :: string
  dev_DeviceName :: string
  dev_PlaybackQueue :: queue
  dev_Gain :: rat
  dev_ActiveTrack :: "'tr option"
  dev_switcherStarted :: bool
  dev_opened :: nat
  dev_closed :: "'tr list"

record device_status =
  st_CurrentIndex :: int
  st_Playing :: bool
  st_Gain :: rat
  st_Position :: int

type_synonym 'tr device_result = "'tr playback_device \<times> device_status \<times> string option"

definition DefaultGain :: rat where "DefaultGain = 1"

definition zero_status :: device_status where
  "zero_status = \<lparr>st_CurrentIndex = 0, st_Playing = False, st_Gain = 0, st_Position = 0\<rparr>"

definition isPlaying :: "'tr device_env \<Rightarrow> 'tr playback_device \<Rightarrow> bool" where
  "isPlaying env d = (case dev_ActiveTrack d of None \<Rightarrow> False | Some t \<Rightarrow> tr_IsPlaying env t)"

definition getStatus :: "'tr device_env \<Rightarrow> 'tr playback_device \<Rightarrow> device_status" where
  "getStatus env d =
     \<lparr>st_CurrentIndex = q_Index (dev_PlaybackQueue d),
      st_Playing = isPlaying env d,
      st_Gain = dev_Gain d,
      st_Position = (case dev_ActiveTrack d of None \<Rightarrow> 0 | Some t \<Rightarrow> tr_Position env t)\<rparr>"

definition NewPlaybackDevice :: "string \<Rightarrow> string \<Rightarrow> 'tr playback_device" where
  "NewPlaybackDevice name deviceName =
     \<lparr>dev_Default = False, dev_User = [], dev_Name = name, dev_DeviceName = deviceName,
      dev_PlaybackQueue = NewQueue, dev_Gain = DefaultGain, dev_ActiveTrack = None,
      dev_switcherStarted = False, dev_opened = 0, dev_closed = []\<rparr>"

definition upd_queue :: "(queue \<Rightarrow> queue) \<Rightarrow> 'tr playback_device \<Rightarrow> 'tr playback_device" where
  "upd_queue f d = d\<lparr>dev_PlaybackQueue := f (dev_PlaybackQueue d)\<rparr>"

definition upd_track :: "('tr \<Rightarrow> 'tr) \<Rightarrow> 'tr playback_device \<Rightarrow> 'tr playback_device" where
  "upd_track f d = d\<lparr>dev_ActiveTrack := map_option f (dev_ActiveTrack d)\<rparr>"

text \<open>\<open>pd.ActiveTrack.Close(); pd.ActiveTrack = nil\<close>, when there is an active track.\<close>

definition close_active :: "'tr device_env \<Rightarrow> 'tr playback_device \<Rightarrow> 'tr playback_device" where
  "close_active env d =
     (case dev_ActiveTrack d of
        None \<Rightarrow> d
      | Some t \<Rightarrow> d\<lparr>dev_ActiveTrack := None, dev_closed := tr_Close env t # dev_closed d\<rparr>)"

definition switchActiveTrackByIndex ::
  "'tr device_env \<Rightarrow> int \<Rightarrow> 'tr playback_device \<Rightarrow> 'tr playback_device \<times> string option" where
  "switchActiveTrackByIndex env index d =
     (let d' = upd_queue (Queue_SetIndex index) d
      in case Queue_Current (dev_PlaybackQueue d') of
           None \<Rightarrow> (d', Some ''could not get current track'')
         | Some cur \<Rightarrow>
             (case env_NewTrack env (dev_DeviceName d') cur of
                Inl e \<Rightarrow> (d', Some e)
              | Inr track \<Rightarrow>
                  (d'\<lparr>dev_ActiveTrack := Some (tr_SetVolume env (dev_Gain d') track),
                      dev_opened := Suc (dev_opened d')\<rparr>, None)))"

definition dev_Get :: "'tr device_env \<Rightarrow> 'tr playback_device \<Rightarrow> media_file list \<times> device_status" where
  "dev_Get env d = (Queue_Get (dev_PlaybackQueue d), getStatus env d)"

definition dev_Status :: "'tr device_env \<Rightarrow> 'tr playback_device \<Rightarrow> device_status" where
  "dev_Status env d = getStatus env d"

definition dev_Start :: "'tr device_env \<Rightarrow> 'tr playback_device \<Rightarrow> 'tr device_result" where
  "dev_Start env d0 =
     (let d = d0\<lparr>dev_switcherStarted := True\<rparr>
      in case dev_ActiveTrack d of
           Some t \<Rightarrow>
             (let d' = (if isPlaying env d then d else upd_track (tr_Unpause env) d)
              in (d', getStatus env d', None))
         | None \<Rightarrow>
             (if \<not> Queue_IsEmpty (dev_PlaybackQueue d)
              then (case switchActiveTrackByIndex env (q_Index (dev_PlaybackQueue d)) d of
                      (d', Some e) \<Rightarrow> (d', getStatus env d', Some e)
                    | (d', None) \<Rightarrow>
                        (let d'' = upd_track (tr_Unpause env) d' in (d'', getStatus env d'', None)))
              else (d, getStatus env d, None)))"

definition dev_Stop :: "'tr device_env \<Rightarrow> 'tr playback_device \<Rightarrow> 'tr device_result" where
  "dev_Stop env d = (let d' = upd_track (tr_Pause env) d in (d', getStatus env d', None))"

definition dev_SetPosition ::
  "'tr device_env \<Rightarrow> int \<Rightarrow> 'tr playback_device \<Rightarrow> 'tr playback_device \<times> string option" where
  "dev_SetPosition env offset d =
     (case dev_ActiveTrack d of
        None \<Rightarrow> (d, None)
      | Some t \<Rightarrow> (case tr_SetPosition env offset t of (t', e) \<Rightarrow> (d\<lparr>dev_ActiveTrack := Some t'\<rparr>, e)))"

definition dev_Skip :: "'tr device_env \<Rightarrow> int \<Rightarrow> int \<Rightarrow> 'tr playback_device \<Rightarrow> 'tr device_result" where
  "dev_Skip env index offset d =
     (let wasPlaying = isPlaying env d;
          d1 = (if wasPlaying then upd_track (tr_Pause env) d else d);
          d2 = (if index \<noteq> q_Index (dev_PlaybackQueue d1) then close_active env d1 else d1)
      in case (if dev_ActiveTrack d2 = None then switchActiveTrackByIndex env index d2 else (d2, None)) of
           (d3, Some e) \<Rightarrow> (d3, getStatus env d3, Some e)
         | (d3, None) \<Rightarrow>
             (case dev_SetPosition env offset d3 of
                (d4, Some e) \<Rightarrow> (d4, getStatus env d4, Some e)
              | (d4, None) \<Rightarrow>
                  (if wasPlaying
                   then (case dev_Start env d4 of (d5, _, e) \<Rightarrow> (d5, getStatus env d5, e))
                   else (d4, getStatus env d4, None))))"

fun fetch_items :: "'tr device_env \<Rightarrow> string list \<Rightarrow> string + media_file list" where
  "fetch_items env [] = Inr []"
| "fetch_items env (i # ids) =
     (case env_GetMediaFile env i of
        Inl e \<Rightarrow> Inl e
      | Inr mf \<Rightarrow> (case fetch_items env ids of Inl e \<Rightarrow> Inl e | Inr mfs \<Rightarrow> Inr (mf # mfs)))"

definition dev_Add :: "'tr device_env \<Rightarrow> string list \<Rightarrow> 'tr playback_device \<Rightarrow> 'tr device_result" where
  "dev_Add env ids d =
     (if length ids < 1 then (d, getStatus env d, None)
      else (case fetch_items env ids of
              Inl e \<Rightarrow> (d, zero_status, Some e)
            | Inr items \<Rightarrow> (let d' = upd_queue (Queue_Add items) d in (d', getStatus env d', None))))"

definition dev_Clear :: "'tr device_env \<Rightarrow> 'tr playback_device \<Rightarrow> 'tr device_result" where
  "dev_Clear env d =
     (let d1 = close_active env (upd_track (tr_Pause env) d);
          d2 = upd_queue Queue_Clear d1
      in (d2, getStatus env d2, None))"

definition dev_Set :: "'tr device_env \<Rightarrow> string list \<Rightarrow> 'tr playback_device \<Rightarrow> 'tr device_result" where
  "dev_Set env ids d =
     (case dev_Clear env d of
        (d', _, Some e) \<Rightarrow> (d', getStatus env d', Some e)
      | (d', _, None) \<Rightarrow> dev_Add env ids d')"

definition dev_Remove :: "'tr device_env \<Rightarrow> int \<Rightarrow> 'tr playback_device \<Rightarrow> 'tr device_result" where
  "dev_Remove env index d =
     (case (if isPlaying env d \<and> q_Index (dev_PlaybackQueue d) = index
            then dev_Stop env d else (d, getStatus env d, None)) of
        (d1, _, Some e) \<Rightarrow> (d1, getStatus env d1, Some e)
      | (d1, _, None) \<Rightarrow>
          (let d2 = (if index > -1 \<and> index < Queue_Size (dev_PlaybackQueue d1)
                     then (case Queue_Remove index (dev_PlaybackQueue d1) of
                             Some q' \<Rightarrow> d1\<lparr>dev_PlaybackQueue := q'\<rparr>
                           | None \<Rightarrow> d1)
                     else d1)
           in (d2, getStatus env d2, None)))"

definition dev_Shuffle ::
  "'tr device_env \<Rightarrow> (nat \<Rightarrow> nat) \<Rightarrow> 'tr playback_device \<Rightarrow> 'tr device_result" where
  "dev_Shuffle env rnd d =
     (let d' = (if Queue_Size (dev_PlaybackQueue d) > 1 then upd_queue (Queue_Shuffle rnd) d else d)
      in (d', getStatus env d', None))"

definition dev_SetGain :: "'tr device_env \<Rightarrow> rat \<Rightarrow> 'tr playback_device \<Rightarrow> 'tr device_result" where
  "dev_SetGain env gain d =
     (let d' = (upd_track (tr_SetVolume env gain) d)\<lparr>dev_Gain := gain\<rparr>
      in (d', getStatus env d', None))"

text \<open>One message on \<open>PlaybackDone\<close>, as the track-switcher goroutine handles it.\<close>

definition dev_playbackDone :: "'tr device_env \<Rightarrow> 'tr playback_device \<Rightarrow> 'tr playback_device" where
  "dev_playbackDone env d =
     (let d1 = close_active env d
      in if \<not> Queue_IsAtLastElement (dev_PlaybackQueue d1)
         then (let d2 = upd_queue Queue_IncreaseIndex d1
               in case switchActiveTrackByIndex env (q_Index (dev_PlaybackQueue d2)) d2 of
                    (d3, _) \<Rightarrow> upd_track (tr_Unpause env) d3)
         else d1)"

section \<open>The playback server\<close>

text \<open>
  A configured audio device is a list of strings. \<open>initDeviceStatus\<close> fills an array with one
  device per definition; a definition that is not a name and a device is an error.
\<close>

definition init_default :: "string \<Rightarrow> 'tr playback_device \<Rightarrow> 'tr playback_device" where
  "init_default name d = (if dev_Name d = name then d\<lparr>dev_Default := True\<rparr> else d)"

fun init_devices :: "string \<Rightarrow> string list list \<Rightarrow> string + 'tr playback_device list" where
  "init_devices defaultDevice [] = Inr []"
| "init_devices defaultDevice (def # defs) =
     (case def of
        [name, deviceName] \<Rightarrow>
          (case init_devices defaultDevice defs of
             Inl e \<Rightarrow> Inl e
           | Inr ds \<Rightarrow> Inr (init_default defaultDevice (NewPlaybackDevice name deviceName) # ds))
      | _ \<Rightarrow> Inl (''audio device definition ought to contain 2 fields, found: ''
                   @ Itoa (int (length def)) @ '' ''))"

definition initDeviceStatus ::
  "string list list \<Rightarrow> string \<Rightarrow> string + 'tr playback_device list" where
  "initDeviceStatus devices defaultDevice =
     (if defaultDevice = [] then
        (case devices of
           [] \<Rightarrow> Inr [(NewPlaybackDevice ''auto'' ''auto'')\<lparr>dev_Default := True\<rparr>]
         | [[name, deviceName]] \<Rightarrow> Inr [(NewPlaybackDevice name deviceName)\<lparr>dev_Default := True\<rparr>]
         | [def] \<Rightarrow> Inl (''audio device definition ought to contain 2 fields, found: ''
                         @ Itoa (int (length def)) @ '' '')
         | _ \<Rightarrow> Inl (''number of audio device found is '' @ Itoa (int (length devices))
                     @ '', but no default device defined. Set Jukebox.Default''))
      else
        (case init_devices defaultDevice devices of
           Inl e \<Rightarrow> Inl e
         | Inr ds \<Rightarrow>
             (if list_ex dev_Default ds then Inr ds
              else Inl (''default device name not found: '' @ defaultDevice @ '' ''))))"

fun getDefaultDevice :: "'tr playback_device list \<Rightarrow> nat option" where
  "getDefaultDevice [] = None"
| "getDefaultDevice (d # ds) =
     (if dev_Default d then Some 0 else map_option Suc (getDefaultDevice ds))"

definition GetDeviceForUser ::
  "string \<Rightarrow> 'tr playback_device list \<Rightarrow> 'tr playback_device list \<times> (string + nat)" where
  "GetDeviceForUser u ds =
     (case getDefaultDevice ds of
        None \<Rightarrow> (ds, Inl ''no default device found'')
      | Some i \<Rightarrow> (ds[i := (ds ! i)\<lparr>dev_User := u\<rparr>], Inr i))"


lemma getDefaultDevice_found:
  "list_ex dev_Default ds \<Longrightarrow> \<exists>i. getDefaultDevice ds = Some i \<and> i < length ds \<and> dev_Default (ds ! i)
     \<and> GetDeviceForUser u ds = (ds[i := (ds ! i)\<lparr>dev_User := u\<rparr>], Inr i)"
proof -
  assume "list_ex dev_Default ds"
  then have "\<exists>i. getDefaultDevice ds = Some i \<and> i < length ds \<and> dev_Default (ds ! i)"
    by (induction ds) auto
  then show ?thesis by (auto simp: GetDeviceForUser_def)
qed

section \<open>The Track interface and what a device keeps of it\<close>

text \<open>
  What the device relies on in a loaded track: the volume last set stays until the next
  \<open>SetVolume\<close>, a paused track does not play and an unpaused one does, and seeking or setting
  the volume does neither.
\<close>

locale track_device =
  fixes env :: "'tr device_env"
    and vol :: "'tr \<Rightarrow> 'v"
    and level :: "rat \<Rightarrow> 'v"
  assumes vol_SetVolume [simp]: "vol (tr_SetVolume env g t) = level g"
    and vol_Pause [simp]: "vol (tr_Pause env t) = vol t"
    and vol_Unpause [simp]: "vol (tr_Unpause env t) = vol t"
    and vol_SetPosition [simp]: "vol (fst (tr_SetPosition env off t)) = vol t"
    and playing_Pause [simp]: "\<not> tr_IsPlaying env (tr_Pause env t)"
    and playing_Unpause [simp]: "tr_IsPlaying env (tr_Unpause env t)"
    and playing_SetVolume [simp]: "tr_IsPlaying env (tr_SetVolume env g t) = tr_IsPlaying env t"
    and playing_SetPosition [simp]:
      "tr_IsPlaying env (fst (tr_SetPosition env off t)) = tr_IsPlaying env t"
    and position_SetPosition:
      "tr_SetPosition env off t = (t', None) \<Longrightarrow> tr_Position env t' = off"
    and position_Unpause [simp]: "tr_Position env (tr_Unpause env t) = tr_Position env t"

text \<open>
  The invariant: the queue is well formed, the loaded track plays at the device's gain
  (\<open>level\<close> is how a gain shows in a track's volume), and every opened track was closed again
  or is the active one.
\<close>

definition device_inv :: "('tr \<Rightarrow> 'v) \<Rightarrow> (rat \<Rightarrow> 'v) \<Rightarrow> 'tr playback_device \<Rightarrow> bool" where
  "device_inv vol level d \<longleftrightarrow>
     queue_wf (dev_PlaybackQueue d)
     \<and> (\<forall>t. dev_ActiveTrack d = Some t \<longrightarrow> vol t = level (dev_Gain d))
     \<and> dev_opened d = length (dev_closed d) + (if dev_ActiveTrack d = None then 0 else 1)"

lemmas dev_prim_defs = upd_queue_def upd_track_def close_active_def

lemma inv_upd_queue: "device_inv vol level d \<Longrightarrow> (queue_wf (dev_PlaybackQueue d) \<Longrightarrow> queue_wf (f (dev_PlaybackQueue d)))
   \<Longrightarrow> device_inv vol level (upd_queue f d)"
  by (auto simp: device_inv_def dev_prim_defs)

lemma inv_close_active: "device_inv vol level d \<Longrightarrow> device_inv vol level (close_active env d)"
  by (auto simp: device_inv_def dev_prim_defs split: option.splits)

lemma close_active_None [simp]: "dev_ActiveTrack (close_active env d) = None"
  by (auto simp: close_active_def split: option.splits)

lemma dev_active_None_queue [simp]: "dev_ActiveTrack (upd_queue f d) = dev_ActiveTrack d"
  by (simp add: upd_queue_def)

lemma inv_NewPlaybackDevice: "device_inv vol level (NewPlaybackDevice name deviceName)"
  by (simp add: device_inv_def NewPlaybackDevice_def)

context track_device
begin

lemma inv_upd_track:
  "device_inv vol level d \<Longrightarrow> (\<And>t. vol (f t) = vol t) \<Longrightarrow> device_inv vol level (upd_track f d)"
  by (auto simp: device_inv_def dev_prim_defs)

lemma inv_switch:
  assumes "device_inv vol level d" and "dev_ActiveTrack d = None"
    and "switchActiveTrackByIndex env index d = (d', e)"
  shows "device_inv vol level d'"
  using assms
  by (auto simp: switchActiveTrackByIndex_def device_inv_def upd_queue_def Let_def
           split: option.splits sum.splits)

lemma inv_SetPosition:
  assumes "device_inv vol level d" and "dev_SetPosition env off d = (d', e)"
  shows "device_inv vol level d'"
proof (cases "dev_ActiveTrack d")
  case (Some t)
  have "vol (fst (tr_SetPosition env off t)) = vol t" by simp
  with Some assms show ?thesis
    by (cases "tr_SetPosition env off t") (auto simp: dev_SetPosition_def device_inv_def)
qed (use assms in \<open>simp add: dev_SetPosition_def\<close>)

lemma inv_Start:
  assumes inv: "device_inv vol level d" and st: "dev_Start env d = (d', s, e)"
  shows "device_inv vol level d'"
proof -
  let ?d = "d\<lparr>dev_switcherStarted := True\<rparr>"
  have inv': "device_inv vol level ?d" using inv by (simp add: device_inv_def)
  show ?thesis
  proof (cases "dev_ActiveTrack d")
    case None
    obtain d1 e1 where sw: "switchActiveTrackByIndex env (q_Index (dev_PlaybackQueue ?d)) ?d = (d1, e1)"
      by fastforce
    have "device_inv vol level d1" using inv_switch [OF inv' _ sw] None by simp
    with None sw inv' st show ?thesis
      by (auto simp: dev_Start_def Let_def intro!: inv_upd_track split: if_splits option.splits)
  next
    case (Some t)
    with inv' st show ?thesis
      by (auto simp: dev_Start_def Let_def intro!: inv_upd_track split: if_splits)
  qed
qed

lemma inv_Stop: "device_inv vol level d \<Longrightarrow> device_inv vol level (fst (dev_Stop env d))"
  by (simp add: dev_Stop_def Let_def inv_upd_track)

lemma inv_Skip:
  assumes inv: "device_inv vol level d" and sk: "dev_Skip env index off d = (d', s, e)"
  shows "device_inv vol level d'"
proof -
  define d1 where "d1 = (if isPlaying env d then upd_track (tr_Pause env) d else d)"
  define d2 where "d2 = (if index \<noteq> q_Index (dev_PlaybackQueue d1) then close_active env d1 else d1)"
  obtain d3 e3 where d3: "(if dev_ActiveTrack d2 = None then switchActiveTrackByIndex env index d2
      else (d2, None)) = (d3, e3)" by fastforce
  obtain d4 e4 where d4: "dev_SetPosition env off d3 = (d4, e4)" by fastforce
  obtain d5 s5 e5 where d5: "dev_Start env d4 = (d5, s5, e5)" by (cases "dev_Start env d4") auto
  have "device_inv vol level d2"
    using inv by (simp add: d1_def d2_def inv_upd_track inv_close_active)
  then have i3: "device_inv vol level d3" using d3 by (auto split: if_splits intro: inv_switch)
  then have i4: "device_inv vol level d4" using d4 by (rule inv_SetPosition)
  then have "device_inv vol level d5" using d5 by (rule inv_Start)
  moreover have "(case (d3, e3) of (d3, Some e) \<Rightarrow> (d3, getStatus env d3, Some e)
      | (d3, None) \<Rightarrow> (case dev_SetPosition env off d3 of
           (d4, Some e) \<Rightarrow> (d4, getStatus env d4, Some e)
         | (d4, None) \<Rightarrow> (if isPlaying env d
              then (case dev_Start env d4 of (d5, _, e) \<Rightarrow> (d5, getStatus env d5, e))
              else (d4, getStatus env d4, None)))) = (d', s, e)"
    using sk unfolding dev_Skip_def Let_def d1_def [symmetric] d2_def [symmetric] d3 .
  ultimately show ?thesis using i3 i4 d4 d5 by (auto split: option.splits if_splits)
qed

lemma inv_Clear: "device_inv vol level d \<Longrightarrow> device_inv vol level (fst (dev_Clear env d))"
  by (simp add: dev_Clear_def Let_def inv_upd_queue inv_upd_track inv_close_active)

lemma inv_Add: "device_inv vol level d \<Longrightarrow> device_inv vol level (fst (dev_Add env ids d))"
  by (auto simp: dev_Add_def Let_def intro!: inv_upd_queue wf_Add split: sum.splits)

lemma inv_Set: "device_inv vol level d \<Longrightarrow> device_inv vol level (fst (dev_Set env ids d))"
proof -
  assume "device_inv vol level d"
  then have "device_inv vol level (fst (dev_Clear env d))" by (rule inv_Clear)
  then show ?thesis by (simp add: dev_Set_def inv_Add dev_Clear_def Let_def)
qed

lemma inv_Remove: "device_inv vol level d \<Longrightarrow> device_inv vol level (fst (dev_Remove env index d))"
proof -
  assume inv: "device_inv vol level d"
  define d1 where "d1 = (if isPlaying env d \<and> q_Index (dev_PlaybackQueue d) = index
    then upd_track (tr_Pause env) d else d)"
  have "device_inv vol level d1" using inv by (simp add: d1_def inv_upd_track)
  moreover have "fst (dev_Remove env index d) =
     (if index > -1 \<and> index < Queue_Size (dev_PlaybackQueue d1)
      then (case Queue_Remove index (dev_PlaybackQueue d1) of
              Some q' \<Rightarrow> d1\<lparr>dev_PlaybackQueue := q'\<rparr> | None \<Rightarrow> d1) else d1)"
    by (simp add: dev_Remove_def dev_Stop_def Let_def d1_def split: option.splits)
  ultimately show ?thesis
    by (auto simp: device_inv_def dest: wf_Remove split: option.splits)
qed

lemma inv_Shuffle: "device_inv vol level d \<Longrightarrow> device_inv vol level (fst (dev_Shuffle env rnd d))"
  by (simp add: dev_Shuffle_def Let_def inv_upd_queue)

lemma inv_SetGain: "device_inv vol level d \<Longrightarrow> device_inv vol level (fst (dev_SetGain env g d))"
  by (auto simp: dev_SetGain_def Let_def device_inv_def upd_track_def)

lemma inv_playbackDone: "device_inv vol level d \<Longrightarrow> device_inv vol level (dev_playbackDone env d)"
proof -
  assume "device_inv vol level d"
  then have i1: "device_inv vol level (close_active env d)" by (rule inv_close_active)
  define d2 where "d2 = upd_queue Queue_IncreaseIndex (close_active env d)"
  obtain d3 e3 where d3: "switchActiveTrackByIndex env (q_Index (dev_PlaybackQueue d2)) d2 = (d3, e3)"
    by fastforce
  have "device_inv vol level d2" using i1 by (simp add: d2_def inv_upd_queue wf_IncreaseIndex)
  then have "device_inv vol level d3" by (rule inv_switch [OF _ _ d3]) (simp add: d2_def)
  with i1 d3 show ?thesis
    by (simp add: dev_playbackDone_def Let_def d2_def [symmetric] inv_upd_track)
qed

lemma inv_Start_fst: "device_inv vol level d \<Longrightarrow> device_inv vol level (fst (dev_Start env d))"
  by (cases "dev_Start env d") (auto intro: inv_Start)

lemma inv_Skip_fst:
  "device_inv vol level d \<Longrightarrow> device_inv vol level (fst (dev_Skip env index off d))"
  by (cases "dev_Skip env index off d") (auto intro: inv_Skip)

lemmas device_op_invs =
  inv_Start_fst inv_Stop inv_Skip_fst inv_Clear inv_Add inv_Set inv_Remove inv_Shuffle inv_SetGain
  inv_playbackDone

end


section \<open>Runs of a device\<close>

text \<open>
  A run interleaves the jukebox commands and the track switcher's messages. What mpv and the
  datastore answer may differ from one command to the next.
\<close>

datatype dev_cmd =
    CStart | CStop | CSkip int int | CAdd "string list" | CClear | CSet "string list"
  | CRemove int | CShuffle "nat \<Rightarrow> nat" | CSetGain rat | CPlaybackDone

fun dev_exec :: "'tr device_env \<Rightarrow> dev_cmd \<Rightarrow> 'tr playback_device \<Rightarrow> 'tr playback_device" where
  "dev_exec env CStart d = fst (dev_Start env d)"
| "dev_exec env CStop d = fst (dev_Stop env d)"
| "dev_exec env (CSkip i off) d = fst (dev_Skip env i off d)"
| "dev_exec env (CAdd ids) d = fst (dev_Add env ids d)"
| "dev_exec env CClear d = fst (dev_Clear env d)"
| "dev_exec env (CSet ids) d = fst (dev_Set env ids d)"
| "dev_exec env (CRemove i) d = fst (dev_Remove env i d)"
| "dev_exec env (CShuffle rnd) d = fst (dev_Shuffle env rnd d)"
| "dev_exec env (CSetGain g) d = fst (dev_SetGain env g d)"
| "dev_exec env CPlaybackDone d = dev_playbackDone env d"

inductive device_step ::
  "'tr device_env \<Rightarrow> 'tr playback_device \<Rightarrow> 'tr playback_device \<Rightarrow> bool" for env where
  dev_step: "device_step env d
     (dev_exec (env\<lparr>env_NewTrack := newTrack, env_GetMediaFile := getMediaFile\<rparr>) cmd d)"

definition device_init :: "'tr playback_device \<Rightarrow> bool" where
  "device_init d \<longleftrightarrow> (\<exists>name deviceName. d = NewPlaybackDevice name deviceName)"

context track_device
begin

lemma inv_exec: "device_inv vol level d \<Longrightarrow> device_inv vol level (dev_exec env cmd d)"
  by (cases cmd) (simp_all add: device_op_invs)

lemma answers_irrelevant:
  "track_device (env\<lparr>env_NewTrack := newTrack, env_GetMediaFile := getMediaFile\<rparr>) vol level"
  by unfold_locales (simp_all add: position_SetPosition)

lemma inv_device_step: "device_inv vol level d \<Longrightarrow> device_step env d d' \<Longrightarrow> device_inv vol level d'"
  by (auto elim!: device_step.cases intro: track_device.inv_exec [OF answers_irrelevant])

lemma run_inv: "reachable device_init (device_step env) d \<Longrightarrow> device_inv vol level d"
  by (induction rule: reachable.induct)
    (auto simp: device_init_def inv_NewPlaybackDevice intro: inv_device_step)

lemma Start_playing:
  assumes "dev_ActiveTrack d = Some t"
  shows "\<exists>d' s. dev_Start env d = (d', s, None) \<and> st_Playing s
     \<and> st_Position s = tr_Position env t \<and> dev_PlaybackQueue d' = dev_PlaybackQueue d"
  using assms
  by (auto simp: dev_Start_def Let_def getStatus_def isPlaying_def upd_track_def)

lemma Skip_result:
  assumes wf: "queue_wf (dev_PlaybackQueue d)" and ne: "q_Items (dev_PlaybackQueue d) \<noteq> []"
    and index: "0 \<le> index"
    and ok: "dev_Skip env index off d = (d', s, None)"
  shows "st_CurrentIndex s = min index (int (length (q_Items (dev_PlaybackQueue d))) - 1)
     \<and> st_Position s = off \<and> (isPlaying env d \<longrightarrow> st_Playing s)"
proof -
  let ?q = "dev_PlaybackQueue d"
  define d1 where "d1 = (if isPlaying env d then upd_track (tr_Pause env) d else d)"
  define d2 where "d2 = (if index \<noteq> q_Index (dev_PlaybackQueue d1) then close_active env d1 else d1)"
  obtain d3 e3 where d3: "(if dev_ActiveTrack d2 = None then switchActiveTrackByIndex env index d2
      else (d2, None)) = (d3, e3)" by fastforce
  have q1: "dev_PlaybackQueue d1 = ?q" by (simp add: d1_def upd_track_def)
  have q2: "dev_PlaybackQueue d2 = ?q"
    using q1 by (auto simp: d2_def close_active_def split: option.splits)
  have sk: "(case (d3, e3) of (d3, Some e) \<Rightarrow> (d3, getStatus env d3, Some e)
      | (d3, None) \<Rightarrow> (case dev_SetPosition env off d3 of
           (d4, Some e) \<Rightarrow> (d4, getStatus env d4, Some e)
         | (d4, None) \<Rightarrow> (if isPlaying env d
              then (case dev_Start env d4 of (d5, _, e) \<Rightarrow> (d5, getStatus env d5, e))
              else (d4, getStatus env d4, None)))) = (d', s, None)"
    using ok unfolding dev_Skip_def Let_def d1_def [symmetric] d2_def [symmetric] d3 .
  then have e3: "e3 = None" by (auto split: option.splits)
  have "\<exists>t. dev_ActiveTrack d3 = Some t
     \<and> q_Index (dev_PlaybackQueue d3) = min index (int (length (q_Items ?q)) - 1)"
  proof (cases "dev_ActiveTrack d2")
    case None
    with d3 e3 q2 index ne show ?thesis
      by (cases "q_Items ?q")
        (auto simp: switchActiveTrackByIndex_def upd_queue_def Let_def Queue_SetIndex_def
              split: option.splits sum.splits)
  next
    case (Some t)
    then have "index = q_Index ?q" using q1 by (auto simp: d2_def split: if_splits)
    with wf ne index have "index < int (length (q_Items ?q))" by (auto simp: queue_wf_def)
    with Some d3 q2 \<open>index = q_Index ?q\<close> show ?thesis by auto
  qed
  then obtain t where t: "dev_ActiveTrack d3 = Some t"
    and qi: "q_Index (dev_PlaybackQueue d3) = min index (int (length (q_Items ?q)) - 1)" by blast
  obtain t' e4 where t': "tr_SetPosition env off t = (t', e4)" by fastforce
  define d4 where "d4 = d3\<lparr>dev_ActiveTrack := Some t'\<rparr>"
  have d4: "dev_SetPosition env off d3 = (d4, e4)"
    using t t' by (simp add: dev_SetPosition_def d4_def)
  have e4: "e4 = None" using sk e3 d4 by (auto split: option.splits)
  then have pos: "tr_Position env t' = off" using t' position_SetPosition by blast
  obtain d5 s5 where d5: "dev_Start env d4 = (d5, s5, None)" and p5: "st_Playing s5"
      "st_Position s5 = off" "dev_PlaybackQueue d5 = dev_PlaybackQueue d4"
    using Start_playing [of d4 t'] pos by (auto simp: d4_def)
  have s5: "s5 = getStatus env d5"
    using d5 by (auto simp: dev_Start_def Let_def split: option.splits if_splits prod.splits)
  show ?thesis
  proof (cases "isPlaying env d")
    case True
    with sk e3 d4 e4 d5 s5 have "s = s5" by auto
    with p5 qi s5 show ?thesis by (simp add: getStatus_def d4_def)
  next
    case False
    with sk e3 d4 e4 have "s = getStatus env d4" by auto
    with False qi pos show ?thesis by (simp add: getStatus_def d4_def)
  qed
qed

end


section \<open>Playing through the queue\<close>

text \<open>One end-of-track message, when mpv can load every file.\<close>

lemma playbackDone_next:
  assumes load: "\<And>dn m. env_NewTrack env dn m = Inr (tr dn m)"
    and i: "-1 \<le> q_Index (dev_PlaybackQueue d)"
      "q_Index (dev_PlaybackQueue d) + 1 < int (length (q_Items (dev_PlaybackQueue d)))"
  shows "q_Index (dev_PlaybackQueue (dev_playbackDone env d)) = q_Index (dev_PlaybackQueue d) + 1"
    and "q_Items (dev_PlaybackQueue (dev_playbackDone env d)) = q_Items (dev_PlaybackQueue d)"
    and "dev_DeviceName (dev_playbackDone env d) = dev_DeviceName d"
    and "dev_Gain (dev_playbackDone env d) = dev_Gain d"
    and "dev_ActiveTrack (dev_playbackDone env d)
       = Some (tr_Unpause env (tr_SetVolume env (dev_Gain d) (tr (dev_DeviceName d)
           (q_Items (dev_PlaybackQueue d) ! nat (q_Index (dev_PlaybackQueue d) + 1)))))"
  using i
  by (auto simp: dev_playbackDone_def Let_def close_active_def switchActiveTrackByIndex_def
      upd_queue_def upd_track_def Queue_IncreaseIndex_def Queue_IsAtLastElement_def
      Queue_SetIndex_def Queue_Current_def load split: option.splits)

lemma playbackDone_last:
  assumes "int (length (q_Items (dev_PlaybackQueue d))) \<le> q_Index (dev_PlaybackQueue d) + 1"
  shows "dev_ActiveTrack (dev_playbackDone env d) = None
       \<and> dev_PlaybackQueue (dev_playbackDone env d) = dev_PlaybackQueue d"
  using assms
  by (auto simp: dev_playbackDone_def Let_def close_active_def Queue_IsAtLastElement_def
           split: option.splits)

lemma playbackDone_iter:
  assumes load: "\<And>dn m. env_NewTrack env dn m = Inr (tr dn m)"
    and "-1 \<le> q_Index (dev_PlaybackQueue d)"
    and "q_Index (dev_PlaybackQueue d) + int (Suc k) < int (length (q_Items (dev_PlaybackQueue d)))"
  shows "q_Index (dev_PlaybackQueue ((dev_playbackDone env ^^ Suc k) d))
       = q_Index (dev_PlaybackQueue d) + int (Suc k)
     \<and> q_Items (dev_PlaybackQueue ((dev_playbackDone env ^^ Suc k) d)) = q_Items (dev_PlaybackQueue d)
     \<and> dev_DeviceName ((dev_playbackDone env ^^ Suc k) d) = dev_DeviceName d
     \<and> dev_Gain ((dev_playbackDone env ^^ Suc k) d) = dev_Gain d
     \<and> dev_ActiveTrack ((dev_playbackDone env ^^ Suc k) d)
       = Some (tr_Unpause env (tr_SetVolume env (dev_Gain d) (tr (dev_DeviceName d)
           (q_Items (dev_PlaybackQueue d) ! nat (q_Index (dev_PlaybackQueue d) + int (Suc k))))))"
  using assms(3)
proof (induction k)
  case 0
  with assms(2) playbackDone_next [OF load, of d] show ?case by simp
next
  case (Suc k)
  let ?d = "(dev_playbackDone env ^^ Suc k) d"
  from Suc have IH: "q_Index (dev_PlaybackQueue ?d) = q_Index (dev_PlaybackQueue d) + int (Suc k)"
    "q_Items (dev_PlaybackQueue ?d) = q_Items (dev_PlaybackQueue d)"
    "dev_DeviceName ?d = dev_DeviceName d" "dev_Gain ?d = dev_Gain d" by simp_all
  have "(dev_playbackDone env ^^ Suc (Suc k)) d = dev_playbackDone env ?d" by simp
  with playbackDone_next [OF load, of ?d] IH assms(2) Suc.prems show ?case
    by (simp add: algebra_simps del: funpow.simps)
qed

section \<open>Properties of the device and the server\<close>

text \<open>
  End-of-track messages play the queue in order. From index \<open>i\<close>, when mpv loads every
  file, the \<open>k\<close>-th message leaves the device playing item \<open>i + k\<close> at the device's gain, as
  long as there is one, and the message after the last item leaves no active track.
\<close>

theorem playbackDone_plays_queue_in_order:
  assumes "\<forall>dn m. env_NewTrack env dn m = Inr (tr dn m)"
    and "dev_PlaybackQueue d = \<lparr>q_Index = int i, q_Items = items\<rparr>" and "i < length items"
  shows "(\<forall>k. 0 < k \<and> i + k < length items \<longrightarrow>
            q_Index (dev_PlaybackQueue ((dev_playbackDone env ^^ k) d)) = int (i + k)
          \<and> dev_ActiveTrack ((dev_playbackDone env ^^ k) d)
            = Some (tr_Unpause env (tr_SetVolume env (dev_Gain d) (tr (dev_DeviceName d) (items ! (i + k))))))
       \<and> dev_ActiveTrack ((dev_playbackDone env ^^ (length items - i)) d) = None"
proof (intro conjI allI impI)
  fix k assume k: "0 < k \<and> i + k < length items"
  then obtain j where j: "k = Suc j" by (cases k) auto
  with k assms playbackDone_iter [of env tr d j]
  show "q_Index (dev_PlaybackQueue ((dev_playbackDone env ^^ k) d)) = int (i + k)"
    and "dev_ActiveTrack ((dev_playbackDone env ^^ k) d)
      = Some (tr_Unpause env (tr_SetVolume env (dev_Gain d) (tr (dev_DeviceName d) (items ! (i + k)))))"
    by (simp_all add: nat_add_distrib del: funpow.simps)
next
  let ?k = "length items - i"
  let ?d = "(dev_playbackDone env ^^ (?k - 1)) d"
  have k: "?k = Suc (?k - 1)" using assms(3) by simp
  have "int (length (q_Items (dev_PlaybackQueue ?d))) \<le> q_Index (dev_PlaybackQueue ?d) + 1"
  proof (cases "?k - 1")
    case 0
    with assms show ?thesis by simp
  next
    case (Suc j)
    with assms playbackDone_iter [of env tr d j] show ?thesis by (simp del: funpow.simps)
  qed
  then have "dev_ActiveTrack (dev_playbackDone env ?d) = None" by (simp add: playbackDone_last)
  then show "dev_ActiveTrack ((dev_playbackDone env ^^ ?k) d) = None"
    by (subst k) (simp only: funpow.simps comp_apply)
qed

text \<open>
  \<open>Set\<close> replaces the whole queue with the files of the given IDs, in order and with the
  first one current, and closes the track that was playing; the comment on \<open>Set\<close> says it
  does not change the currently playing track.
\<close>

theorem dev_Set_replaces_queue:
  assumes "ids \<noteq> []" and "fetch_items env ids = Inr items"
  shows "\<exists>d' s. dev_Set env ids d = (d', s, None)
       \<and> q_Items (dev_PlaybackQueue d') = items \<and> q_Index (dev_PlaybackQueue d') = 0
       \<and> dev_ActiveTrack d' = None
       \<and> (\<forall>t. dev_ActiveTrack d = Some t \<longrightarrow> tr_Close env (tr_Pause env t) \<in> set (dev_closed d'))"
proof -
  have "length items = length ids"
    using assms(2) by (induction env ids arbitrary: items rule: fetch_items.induct)
      (auto split: sum.splits)
  with assms show ?thesis
    by (auto simp: dev_Set_def dev_Clear_def dev_Add_def Let_def close_active_def upd_track_def
        upd_queue_def queue_defs split: option.splits)
qed

text \<open>
  \<open>Add\<close> is all or nothing: when some ID has no media file, the device is left exactly as it
  was and the first failing lookup's error is returned; otherwise the files are appended in
  order and the current track does not change.
\<close>

theorem dev_Add_all_or_nothing:
  "(\<forall>e. dev_Add env ids d = (d', s, Some e) \<longrightarrow>
       d' = d \<and> s = zero_status
       \<and> (\<exists>pre i post. ids = pre @ i # post \<and> env_GetMediaFile env i = Inl e
            \<and> (\<forall>j\<in>set pre. \<exists>mf. env_GetMediaFile env j = Inr mf)))
   \<and> (dev_Add env ids d = (d', s, None) \<longrightarrow>
       (\<exists>items. map (env_GetMediaFile env) ids = map Inr items
          \<and> q_Items (dev_PlaybackQueue d') = q_Items (dev_PlaybackQueue d) @ items
          \<and> (Queue_Current (dev_PlaybackQueue d) = Some m \<longrightarrow> queue_wf (dev_PlaybackQueue d) \<longrightarrow>
               Queue_Current (dev_PlaybackQueue d') = Some m)))"
proof -
  have err: "fetch_items env ids = Inl e \<Longrightarrow> \<exists>pre i post. ids = pre @ i # post
      \<and> env_GetMediaFile env i = Inl e \<and> (\<forall>j\<in>set pre. \<exists>mf. env_GetMediaFile env j = Inr mf)" for e
  proof (induction ids)
    case (Cons a ids)
    show ?case
    proof (cases "env_GetMediaFile env a")
      case (Inl b)
      with Cons.prems have "a # ids = [] @ a # ids \<and> env_GetMediaFile env a = Inl e" by simp
      then show ?thesis by fastforce
    next
      case (Inr mf)
      with Cons.prems have "fetch_items env ids = Inl e" by (auto split: sum.splits)
      with Cons.IH obtain pre i post where "ids = pre @ i # post" "env_GetMediaFile env i = Inl e"
        "\<forall>j\<in>set pre. \<exists>mf. env_GetMediaFile env j = Inr mf" by blast
      with Inr have "a # ids = (a # pre) @ i # post"
        "\<forall>j\<in>set (a # pre). \<exists>mf. env_GetMediaFile env j = Inr mf" by simp_all
      with \<open>env_GetMediaFile env i = Inl e\<close> show ?thesis by blast
    qed
  qed simp
  have ok: "fetch_items env ids = Inr items \<Longrightarrow> map (env_GetMediaFile env) ids = map Inr items" for items
    by (induction ids arbitrary: items) (auto split: sum.splits)
  show ?thesis
    using err ok
    by (auto simp: dev_Add_def Let_def upd_queue_def Queue_Add_def Queue_Current_def queue_wf_def
        nth_append split: sum.splits if_splits)
qed

end
