(* ===== verification/Mpv.thy ===== *)
theory Mpv
  imports ShellQuote PlaybackDevice
begin

text \<open>
  The mpv side of the jukebox (\<open>core/playback/mpv\<close>): building the command line of an mpv
  process from its configured template, and the \<open>Track\<close> interface over mpv's IPC
  connection. The connection belongs to a third-party package, so its \<open>Get\<close> and \<open>Set\<close> are
  arguments (\<open>conn_ops\<close>), with the process and the socket file behind it; \<open>Get\<close> is told how often the same read was tried before, since mpv
  answers "property unavailable" for a while after a track is loaded. The conversion of a
  \<open>float32\<close> volume to a percentage is the argument \<open>percent\<close>.
\<close>

section \<open>The command line\<close>

text \<open>\<open>strings.ReplaceAll\<close> for a two-byte pattern.\<close>

fun ReplaceAll2 :: "char \<Rightarrow> char \<Rightarrow> string \<Rightarrow> string \<Rightarrow> string" where
  "ReplaceAll2 a b new [] = []"
| "ReplaceAll2 a b new [c] = [c]"
| "ReplaceAll2 a b new (c # d # s) =
     (if c = a \<and> d = b then new @ ReplaceAll2 a b new s else c # ReplaceAll2 a b new (d # s))"

definition mpv_subst :: "string \<Rightarrow> string \<Rightarrow> string \<Rightarrow> string \<Rightarrow> string" where
  "mpv_subst deviceName filename socketName arg =
     (let arg1 = ReplaceAll2 (CHR ''%'') (CHR ''d'') deviceName arg;
          arg2 = ReplaceAll2 (CHR ''%'') (CHR ''f'') filename arg1
      in ReplaceAll2 (CHR ''%'') (CHR ''s'') socketName arg2)"

text \<open>\<open>cmd\<close> is what \<open>mpvCommand\<close> found on the host, \<open>None\<close> for its error.\<close>

definition createMPVCommand ::
  "string \<Rightarrow> string option \<Rightarrow> string \<Rightarrow> string \<Rightarrow> string \<Rightarrow> string list" where
  "createMPVCommand template cmd deviceName filename socketName =
     (case Split template of
        Inl e \<Rightarrow> []
      | Inr templateArgs \<Rightarrow>
          (case map (mpv_subst deviceName filename socketName) templateArgs of
             [] \<Rightarrow> []
           | a0 # as \<Rightarrow>
               (case cmd of
                  Some cmdPath \<Rightarrow>
                    (if a0 = ''mpv'' \<or> a0 = ''mpv.exe'' then cmdPath # as else a0 # as)
                | None \<Rightarrow> a0 # as)))"

section \<open>Tracks\<close>

datatype mpv_value = MBool bool | MNum rat | MOther

record 'c conn_ops =
  conn_Get :: "'c \<Rightarrow> nat \<Rightarrow> string \<Rightarrow> string + mpv_value"
  conn_Set :: "'c \<Rightarrow> string \<Rightarrow> mpv_value \<Rightarrow> 'c \<times> string option"
  conn_Call :: "'c \<Rightarrow> string \<Rightarrow> 'c \<times> string option"
  conn_Cancel :: "'c \<Rightarrow> 'c"
  conn_isSocketFilePresent :: "'c \<Rightarrow> bool"
  conn_removeSocket :: "'c \<Rightarrow> 'c"

record 'c mpv_track =
  mt_MediaFile :: media_file
  mt_Conn :: 'c
  mt_CloseCalled :: bool

text \<open>
  What loading a track needs of the host: the executable, a fresh socket name, starting a
  process, waiting for its socket, and connecting to it.
\<close>

record 'c mpv_host =
  host_mpvCommand :: "string + string"
  host_socketName :: string
  host_start :: "string list \<Rightarrow> string option"
  host_waitForSocket :: "string \<Rightarrow> string option"
  host_Open :: "string \<Rightarrow> string + 'c"
  host_AbsolutePath :: "media_file \<Rightarrow> string"

definition mpv_NewTrack ::
  "'c mpv_host \<Rightarrow> string \<Rightarrow> string \<Rightarrow> media_file \<Rightarrow> string + 'c mpv_track" where
  "mpv_NewTrack h template deviceName mf =
     (case host_mpvCommand h of
        Inl err \<Rightarrow> Inl err
      | Inr cmdPath \<Rightarrow>
          (let args = createMPVCommand template (Some cmdPath) deviceName (host_AbsolutePath h mf)
                        (host_socketName h)
           in if args = [] then Inl ''no mpv command arguments provided''
              else (case host_start h args of
                      Some err \<Rightarrow> Inl err
                    | None \<Rightarrow>
                        (case host_waitForSocket h (host_socketName h) of
                           Some err \<Rightarrow> Inl err
                         | None \<Rightarrow>
                             (case host_Open h (host_socketName h) of
                                Inl err \<Rightarrow> Inl err
                              | Inr conn \<Rightarrow>
                                  Inr \<lparr>mt_MediaFile = mf, mt_Conn = conn, mt_CloseCalled = False\<rparr>)))))"

definition mpv_set :: "'c conn_ops \<Rightarrow> string \<Rightarrow> mpv_value \<Rightarrow> 'c mpv_track \<Rightarrow> 'c mpv_track" where
  "mpv_set ops prop v t = t\<lparr>mt_Conn := fst (conn_Set ops (mt_Conn t) prop v)\<rparr>"

definition MpvTrack_SetVolume :: "'c conn_ops \<Rightarrow> (rat \<Rightarrow> int) \<Rightarrow> rat \<Rightarrow> 'c mpv_track \<Rightarrow> 'c mpv_track" where
  "MpvTrack_SetVolume ops percent v t = mpv_set ops ''volume'' (MNum (of_int (percent v))) t"

definition MpvTrack_Unpause :: "'c conn_ops \<Rightarrow> 'c mpv_track \<Rightarrow> 'c mpv_track" where
  "MpvTrack_Unpause ops t = mpv_set ops ''pause'' (MBool False) t"

definition MpvTrack_Pause :: "'c conn_ops \<Rightarrow> 'c mpv_track \<Rightarrow> 'c mpv_track" where
  "MpvTrack_Pause ops t = mpv_set ops ''pause'' (MBool True) t"

definition MpvTrack_Close :: "'c conn_ops \<Rightarrow> 'c mpv_track \<Rightarrow> 'c mpv_track" where
  "MpvTrack_Close ops t =
     (let c = mt_Conn t;
          c1 = (if conn_isSocketFilePresent ops c
                then (case conn_Call ops c ''quit'' of
                        (c', None) \<Rightarrow> c'
                      | (c', Some err) \<Rightarrow> conn_Cancel ops c')
                else c);
          c2 = (if conn_isSocketFilePresent ops c1 then conn_removeSocket ops c1 else c1)
      in t\<lparr>mt_CloseCalled := True, mt_Conn := c2\<rparr>)"

text \<open>The retry loop of \<open>Position\<close>: at most six reads, \<open>left\<close> of them still to come.\<close>

fun Position_loop :: "(nat \<Rightarrow> string + mpv_value) \<Rightarrow> nat \<Rightarrow> nat \<Rightarrow> int" where
  "Position_loop get retryCount left =
     (case get retryCount of
        Inl err \<Rightarrow>
          (if err = ''mpv error: property unavailable''
           then (case left of
                   0 \<Rightarrow> 0
                 | Suc left' \<Rightarrow> Position_loop get (Suc retryCount) left')
           else 0)
      | Inr (MNum pos) \<Rightarrow> trunc_rat pos
      | Inr _ \<Rightarrow> 0)"

declare Position_loop.simps [simp del]

definition MpvTrack_Position :: "'c conn_ops \<Rightarrow> 'c mpv_track \<Rightarrow> int" where
  "MpvTrack_Position ops t = Position_loop (\<lambda>n. conn_Get ops (mt_Conn t) n ''time-pos'') 0 5"

definition MpvTrack_SetPosition ::
  "'c conn_ops \<Rightarrow> int \<Rightarrow> 'c mpv_track \<Rightarrow> 'c mpv_track \<times> string option" where
  "MpvTrack_SetPosition ops offset t =
     (if MpvTrack_Position ops t = offset then (t, None)
      else (case conn_Set ops (mt_Conn t) ''time-pos'' (MNum (of_int offset)) of
              (c', e) \<Rightarrow> (t\<lparr>mt_Conn := c'\<rparr>, e)))"

definition MpvTrack_IsPlaying :: "'c conn_ops \<Rightarrow> 'c mpv_track \<Rightarrow> bool" where
  "MpvTrack_IsPlaying ops t =
     (case conn_Get ops (mt_Conn t) 0 ''pause'' of
        Inl err \<Rightarrow> False
      | Inr (MBool pause) \<Rightarrow> \<not> pause
      | Inr _ \<Rightarrow> False)"

definition mpv_env ::
  "'c conn_ops \<Rightarrow> (rat \<Rightarrow> int) \<Rightarrow> (string \<Rightarrow> media_file \<Rightarrow> string + 'c mpv_track)
   \<Rightarrow> (string \<Rightarrow> string + media_file) \<Rightarrow> 'c mpv_track device_env" where
  "mpv_env ops percent newTrack getMediaFile =
     \<lparr>tr_IsPlaying = MpvTrack_IsPlaying ops,
      tr_SetVolume = MpvTrack_SetVolume ops percent,
      tr_Pause = MpvTrack_Pause ops,
      tr_Unpause = MpvTrack_Unpause ops,
      tr_Position = MpvTrack_Position ops,
      tr_SetPosition = MpvTrack_SetPosition ops,
      tr_Close = MpvTrack_Close ops,
      env_NewTrack = newTrack,
      env_GetMediaFile = getMediaFile\<rparr>"


section \<open>Substitution in the template\<close>

lemma ReplaceAll2_absent:
  "\<not> sublist [a, b] s \<Longrightarrow> ReplaceAll2 a b new s = s"
proof (induction a b new s rule: ReplaceAll2.induct)
  case (3 a b new c d s)
  then have "\<not> (c = a \<and> d = b)" by (auto simp: sublist_code)
  moreover from 3 have "\<not> sublist [a, b] (d # s)" by (simp add: sublist_code)
  ultimately show ?case using 3 by auto
qed simp_all

section \<open>A connection that keeps its properties\<close>

text \<open>
  mpv's documented behaviour on a healthy connection: a property that was set reads back as
  that value, and setting one property leaves the others alone.
\<close>

locale mpv_conn =
  fixes ops :: "'c conn_ops"
  assumes set_ok: "snd (conn_Set ops c prop v) = None"
    and get_set: "conn_Get ops (fst (conn_Set ops c prop v)) n prop = Inr v"
    and get_other: "prop' \<noteq> prop \<Longrightarrow>
      conn_Get ops (fst (conn_Set ops c prop v)) n prop' = conn_Get ops c n prop'"

definition mpv_vol :: "'c conn_ops \<Rightarrow> 'c mpv_track \<Rightarrow> string + mpv_value" where
  "mpv_vol ops t = conn_Get ops (mt_Conn t) 0 ''volume''"

definition mpv_level :: "(rat \<Rightarrow> int) \<Rightarrow> rat \<Rightarrow> string + mpv_value" where
  "mpv_level percent g = Inr (MNum (of_int (percent g)))"

lemmas mpv_track_defs =
  mpv_env_def mpv_vol_def mpv_level_def mpv_set_def MpvTrack_SetVolume_def MpvTrack_Unpause_def
  MpvTrack_Pause_def MpvTrack_IsPlaying_def MpvTrack_SetPosition_def MpvTrack_Position_def

lemma Position_loop_value:
  "get k = Inr (MNum x) \<Longrightarrow> Position_loop get k left = trunc_rat x"
  by (simp add: Position_loop.simps)

lemma Position_loop_cong: "(\<And>n. get n = get' n) \<Longrightarrow> Position_loop get k left = Position_loop get' k left"
  by (metis ext)

text \<open>Over such a connection the mpv track satisfies the device's \<open>Track\<close> contract.\<close>

sublocale mpv_conn \<subseteq> mpv_dev: track_device "mpv_env ops percent newTrack getMediaFile"
    "mpv_vol ops" "mpv_level percent" for percent newTrack getMediaFile
  by unfold_locales
    (auto simp: mpv_track_defs case_prod_beta get_set get_other Position_loop_value
          split: if_splits)

context mpv_conn
begin

lemmas axioms_track = mpv_dev.track_device_axioms

end

text \<open>The store itself: properties are a map, and an unset one is unavailable.\<close>

definition store_conn :: "(string \<rightharpoonup> mpv_value) conn_ops" where
  "store_conn =
     \<lparr>conn_Get = (\<lambda>c n prop. case c prop of
          None \<Rightarrow> Inl ''mpv error: property unavailable'' | Some v \<Rightarrow> Inr v),
      conn_Set = (\<lambda>c prop v. (c(prop \<mapsto> v), None)),
      conn_Call = (\<lambda>c cmd. (Map.empty, None)),
      conn_Cancel = (\<lambda>c. Map.empty),
      conn_isSocketFilePresent = (\<lambda>c. c \<noteq> Map.empty),
      conn_removeSocket = (\<lambda>c. Map.empty)\<rparr>"

interpretation store: mpv_conn store_conn
  by unfold_locales (simp_all add: store_conn_def)


section \<open>Properties of the jukebox\<close>


text \<open>An environment over the property store, for concrete runs.\<close>

definition demo_env :: "(string \<rightharpoonup> mpv_value) mpv_track device_env" where
  "demo_env = mpv_env store_conn (\<lambda>g. \<lfloor>100 * g\<rfloor>)
     (\<lambda>dn m. Inr \<lparr>mt_MediaFile = m, mt_Conn = Map.empty, mt_CloseCalled = False\<rparr>)
     (\<lambda>i. if i = ''gone'' then Inl ''data not found'' else Inr (demo_file i))"

lemma demo_env_sel [simp]:
  "env_NewTrack demo_env dn m = Inr \<lparr>mt_MediaFile = m, mt_Conn = Map.empty, mt_CloseCalled = False\<rparr>"
  "env_GetMediaFile demo_env i = (if i = ''gone'' then Inl ''data not found'' else Inr (demo_file i))"
  by (simp_all add: demo_env_def mpv_env_def)

lemma demo_exec_reachable:
  "reachable device_init (device_step demo_env) d \<Longrightarrow>
   reachable device_init (device_step demo_env) (dev_exec demo_env cmd d)"
proof -
  assume r: "reachable device_init (device_step demo_env) d"
  have e: "demo_env\<lparr>env_NewTrack := env_NewTrack demo_env, env_GetMediaFile := env_GetMediaFile demo_env\<rparr>
    = demo_env" by simp
  have s: "device_step demo_env d (dev_exec demo_env cmd d)"
    using dev_step [of demo_env d "env_GetMediaFile demo_env" "env_NewTrack demo_env" cmd]
    unfolding e .
  show ?thesis by (rule reach_step [OF r s])
qed

lemma demo_init_reachable:
  "reachable device_init (device_step demo_env) (NewPlaybackDevice ''auto'' ''auto'')"
  by (rule reach_init) (auto simp: device_init_def)


theorem playbackDone_plays_queue_in_order_witness:
  "dev_ActiveTrack ((dev_playbackDone demo_env ^^ 2)
     ((NewPlaybackDevice ''auto'' ''auto'')
        \<lparr>dev_PlaybackQueue := \<lparr>q_Index = 0, q_Items = [demo_file ''a'', demo_file ''b'']\<rparr>\<rparr>)) = None"
  using playbackDone_plays_queue_in_order
    [of demo_env "\<lambda>dn m. \<lparr>mt_MediaFile = m, mt_Conn = Map.empty, mt_CloseCalled = False\<rparr>"
        "(NewPlaybackDevice ''auto'' ''auto'')
           \<lparr>dev_PlaybackQueue := \<lparr>q_Index = 0, q_Items = [demo_file ''a'', demo_file ''b'']\<rparr>\<rparr>"
        0 "[demo_file ''a'', demo_file ''b'']"]
  by (simp add: numeral_2_eq_2 del: funpow.simps)

theorem dev_Set_replaces_queue_witness:
  "\<exists>d' s. dev_Set demo_env [''a'', ''b''] (NewPlaybackDevice ''auto'' ''auto'') = (d', s, None)
     \<and> q_Items (dev_PlaybackQueue d') = [demo_file ''a'', demo_file ''b'']
     \<and> q_Index (dev_PlaybackQueue d') = 0"
  using dev_Set_replaces_queue [of "[''a'', ''b'']" demo_env "[demo_file ''a'', demo_file ''b'']"
      "NewPlaybackDevice ''auto'' ''auto''"]
  by auto

theorem dev_Add_all_or_nothing_witness:
  "\<exists>d'. dev_Add demo_env [''a'', ''gone''] (NewPlaybackDevice ''auto'' ''auto'')
      = (d', zero_status, Some ''data not found'') \<and> d' = NewPlaybackDevice ''auto'' ''auto''"
proof -
  let ?d = "NewPlaybackDevice ''auto'' ''auto'' :: (string \<rightharpoonup> mpv_value) mpv_track playback_device"
  obtain d' s where r: "dev_Add demo_env [''a'', ''gone''] ?d = (d', s, Some ''data not found'')"
    by (simp add: dev_Add_def)
  with dev_Add_all_or_nothing [of demo_env "[''a'', ''gone'']" ?d d' s] show ?thesis by simp
qed

text \<open>
  The file to play reaches mpv as one argument, exactly as its path is, whatever blanks and
  quotes it holds: for any quoted template whose words include \<open>%f\<close>, when neither the path nor
  the device name holds one of the placeholders, each word \<open>%f\<close> becomes the path, the number of
  arguments is that of the template, and the other words do not depend on the path.
\<close>

theorem createMPVCommand_passes_path:
  assumes "ws \<noteq> []" and "0 < i" and "i < length ws"
    and "\<not> sublist ''%s'' filename"
  shows "length (createMPVCommand (quote_join ws) cmd dn filename sn) = length ws
     \<and> (ws ! i = ''%f'' \<longrightarrow> createMPVCommand (quote_join ws) cmd dn filename sn ! i = filename)
     \<and> (\<not> sublist ''%f'' (ws ! i) \<longrightarrow> \<not> sublist ''%f'' dn \<longrightarrow> \<not> sublist ''%d'' (ws ! i) \<longrightarrow>
          createMPVCommand (quote_join ws) cmd dn filename sn ! i
            = createMPVCommand (quote_join ws) cmd dn filename' sn ! i)"
proof -
  obtain w0 wr j where ws: "ws = w0 # wr" "i = Suc j" "j < length wr"
    using assms by (cases ws; cases i) auto
  have nth: "createMPVCommand (quote_join ws) cmd dn fn sn ! i = mpv_subst dn fn sn (ws ! i)"
    and len: "length (createMPVCommand (quote_join ws) cmd dn fn sn) = length ws" for fn
    using ws by (auto simp: createMPVCommand_def Split_of_quoted split: option.splits)
  show ?thesis
    using assms(4) by (auto simp: nth len mpv_subst_def Let_def ReplaceAll2_absent)
qed

theorem createMPVCommand_passes_path_witness:
  "createMPVCommand (quote_join [''mpv'', ''%f'']) None ''auto'' ''/m/it's here.mp3'' ''sock'' ! 1
     = ''/m/it's here.mp3''"
  using createMPVCommand_passes_path [of "[''mpv'', ''%f'']" 1 "''/m/it's here.mp3''" None "''auto''" "''sock''"]
  by (simp add: sublist_code)

text \<open>
  \<open>Skip\<close> lands where it was told to. On a non-empty queue and over healthy connections, a
  \<open>Skip\<close> that reports no error answers a status whose index is the requested one (the last item
  when it lies beyond the end), whose position is the requested offset, and that still plays when
  the device was playing.
\<close>

theorem dev_Skip_lands:
  assumes "mpv_conn ops"
    and "reachable device_init (device_step (mpv_env ops percent newTrack getMediaFile)) d"
    and "q_Items (dev_PlaybackQueue d) \<noteq> []" and "0 \<le> index"
    and "dev_Skip (mpv_env ops percent newTrack getMediaFile) index off d = (d', s, None)"
  shows "st_CurrentIndex s = min index (int (length (q_Items (dev_PlaybackQueue d))) - 1)
     \<and> st_Position s = off
     \<and> (isPlaying (mpv_env ops percent newTrack getMediaFile) d \<longrightarrow> st_Playing s)"
proof -
  have td: "track_device (mpv_env ops percent newTrack getMediaFile) (mpv_vol ops) (mpv_level percent)"
    using assms(1) by (rule mpv_conn.axioms_track)
  then have "device_inv (mpv_vol ops) (mpv_level percent) d"
    using assms(2) by (rule track_device.run_inv)
  then have "queue_wf (dev_PlaybackQueue d)" by (simp add: device_inv_def)
  with td show ?thesis using assms(3-5) by (intro track_device.Skip_result)
qed

theorem dev_Skip_lands_witness:
  "\<exists>s. fst (snd (dev_Skip demo_env 1 10
      (fst (dev_Add demo_env [''a'', ''b''] (NewPlaybackDevice ''auto'' ''auto''))))) = s
     \<and> st_CurrentIndex s = 1 \<and> st_Position s = 10"
proof -
  let ?d = "dev_exec demo_env (CAdd [''a'', ''b'']) (NewPlaybackDevice ''auto'' ''auto'')"
  have r: "reachable device_init (device_step demo_env) ?d"
    by (rule demo_exec_reachable [OF demo_init_reachable])
  have items: "q_Items (dev_PlaybackQueue ?d) = [demo_file ''a'', demo_file ''b'']"
    by (simp add: dev_Add_def Let_def upd_queue_def Queue_Add_def NewPlaybackDevice_def NewQueue_def)
  obtain d' s e where sk: "dev_Skip demo_env 1 10 ?d = (d', s, e)" by (cases "dev_Skip demo_env 1 10 ?d")
  have "snd (snd (dev_Skip demo_env 1 10 ?d)) = None"
    by (simp add: dev_Add_def Let_def upd_queue_def Queue_Add_def NewPlaybackDevice_def NewQueue_def
        dev_Skip_def isPlaying_def close_active_def switchActiveTrackByIndex_def Queue_SetIndex_def
        Queue_Current_def dev_SetPosition_def)
      (simp add: demo_env_def mpv_track_defs store_conn_def Position_loop.simps)
  with sk have e: "dev_Skip demo_env 1 10 ?d = (d', s, None)" by simp
  have "q_Items (dev_PlaybackQueue ?d) \<noteq> []" by (subst items) simp
  with dev_Skip_lands [OF store.mpv_conn_axioms r [unfolded demo_env_def] _ _ e [unfolded demo_env_def]]
  have "st_CurrentIndex s = 1 \<and> st_Position s = 10"
    unfolding demo_env_def [symmetric] items by simp
  with e show ?thesis by simp
qed

text \<open>
  A playback server whose initialisation succeeds has a device for every user: the default
  device is found and handed out, whatever the configuration.
\<close>

theorem initialised_server_has_default_device:
  assumes "initDeviceStatus devices defaultDevice = Inr ds"
  shows "\<exists>i ds'. GetDeviceForUser u ds = (ds', Inr i) \<and> i < length ds \<and> dev_Default (ds ! i)
     \<and> ds' = ds[i := (ds ! i)\<lparr>dev_User := u\<rparr>]"
proof -
  have "list_ex dev_Default ds"
    using assms by (auto simp: initDeviceStatus_def split: if_splits list.splits sum.splits)
  then show ?thesis by (auto dest: getDefaultDevice_found [of _ u])
qed

theorem initialised_server_has_default_device_witness:
  "\<exists>i ds'. GetDeviceForUser ''bob'' [(NewPlaybackDevice ''auto'' ''auto'')\<lparr>dev_Default := True\<rparr>]
     = (ds' :: nat playback_device list, Inr i)"
  using initialised_server_has_default_device [of "[]" "[]"
      "[(NewPlaybackDevice ''auto'' ''auto'')\<lparr>dev_Default := True\<rparr>]" "''bob''"]
  by (auto simp: initDeviceStatus_def)

end
