(* ===== verification/Auth.thy ===== *)
theory Auth
  imports Media
begin

text \<open>
  Session tokens: the typed claims and their checks (\<open>core/auth/claims.go\<close>,
  \<open>core/auth/auth.go\<close>). Signing and verifying a JWT belongs to a third-party package, so
  both are arguments; the locale \<open>jwt_codec\<close> states what the code relies on. Claims are a map
  from names to values; the standard date claims are whole seconds.
\<close>

datatype claim = CStr string | CBool bool | CNum int | CList "string list"

type_synonym claim_map = "string \<rightharpoonup> claim"

text \<open>\<open>token.Get\<close> into a variable of a given type fails on a value of another type.\<close>

definition get_str :: "claim_map \<Rightarrow> string \<Rightarrow> string option" where
  "get_str m k = (case m k of Some (CStr s) \<Rightarrow> Some s | _ \<Rightarrow> None)"

definition get_bool :: "claim_map \<Rightarrow> string \<Rightarrow> bool option" where
  "get_bool m k = (case m k of Some (CBool b) \<Rightarrow> Some b | _ \<Rightarrow> None)"

definition get_num :: "claim_map \<Rightarrow> string \<Rightarrow> int option" where
  "get_num m k = (case m k of Some (CNum n) \<Rightarrow> Some n | _ \<Rightarrow> None)"

definition get_list :: "claim_map \<Rightarrow> string \<Rightarrow> string list option" where
  "get_list m k = (case m k of Some (CList l) \<Rightarrow> Some l | _ \<Rightarrow> None)"

definition intClaim :: "claim_map \<Rightarrow> string \<Rightarrow> int" where
  "intClaim m k = gg_V 0 (get_num m k)"

section \<open>Session claims\<close>

record claims =
  cl_Issuer :: string
  cl_Subject :: string
  cl_Audience :: "string list"
  cl_IssuedAt :: time
  cl_ExpiresAt :: time
  cl_UserID :: string
  cl_IsAdmin :: bool
  cl_ID :: string
  cl_Format :: string
  cl_BitRate :: int
  cl_ShareID :: string
  cl_Epoch :: int

text \<open>\<open>if cond { m[k] = v }\<close>\<close>

definition put_if :: "bool \<Rightarrow> string \<Rightarrow> claim \<Rightarrow> claim_map \<Rightarrow> claim_map" where
  "put_if b k v m = (if b then m(k \<mapsto> v) else m)"

definition ToMap :: "claims \<Rightarrow> claim_map" where
  "ToMap c =
     put_if (cl_Epoch c \<noteq> 0) ''ep'' (CNum (cl_Epoch c))
     (put_if (cl_ShareID c \<noteq> []) ''sid'' (CStr (cl_ShareID c))
     (put_if (cl_BitRate c \<noteq> 0) ''b'' (CNum (cl_BitRate c))
     (put_if (cl_Format c \<noteq> []) ''f'' (CStr (cl_Format c))
     (put_if (cl_ID c \<noteq> []) ''id'' (CStr (cl_ID c))
     (put_if (cl_IsAdmin c) ''adm'' (CBool (cl_IsAdmin c))
     (put_if (cl_UserID c \<noteq> []) ''uid'' (CStr (cl_UserID c))
     (put_if (cl_ExpiresAt c \<noteq> zeroTime) ''exp'' (CNum (UnixSec (cl_ExpiresAt c)))
     (put_if (cl_IssuedAt c \<noteq> zeroTime) ''iat'' (CNum (UnixSec (cl_IssuedAt c)))
     (put_if (cl_Audience c \<noteq> []) ''aud'' (CList (cl_Audience c))
     (put_if (cl_Subject c \<noteq> []) ''sub'' (CStr (cl_Subject c))
     (put_if (cl_Issuer c \<noteq> []) ''iss'' (CStr (cl_Issuer c)) Map.empty)))))))))))"

definition date_claim :: "claim_map \<Rightarrow> string \<Rightarrow> time" where
  "date_claim m k = (case get_num m k of Some n \<Rightarrow> n * Second | None \<Rightarrow> zeroTime)"

definition ClaimsFromToken :: "claim_map \<Rightarrow> claims" where
  "ClaimsFromToken m =
     \<lparr>cl_Issuer = gg_V [] (get_str m ''iss''),
      cl_Subject = gg_V [] (get_str m ''sub''),
      cl_Audience = gg_V [] (get_list m ''aud''),
      cl_IssuedAt = date_claim m ''iat'',
      cl_ExpiresAt = date_claim m ''exp'',
      cl_UserID = gg_V [] (get_str m ''uid''),
      cl_IsAdmin = gg_V False (get_bool m ''adm''),
      cl_ID = gg_V [] (get_str m ''id''),
      cl_Format = gg_V [] (get_str m ''f''),
      cl_BitRate = intClaim m ''b'',
      cl_ShareID = gg_V [] (get_str m ''sid''),
      cl_Epoch = intClaim m ''ep''\<rparr>"

definition WithExpiresAt :: "time \<Rightarrow> claims \<Rightarrow> claims" where
  "WithExpiresAt t c = c\<lparr>cl_ExpiresAt := t\<rparr>"

definition JWTIssuer :: string where "JWTIssuer = ''ND''"

definition userClaims :: "time \<Rightarrow> user \<Rightarrow> string list \<Rightarrow> claims" where
  "userClaims now u audience =
     \<lparr>cl_Issuer = JWTIssuer, cl_Subject = us_UserName u, cl_Audience = audience, cl_IssuedAt = now,
      cl_ExpiresAt = zeroTime, cl_UserID = us_ID u, cl_IsAdmin = us_IsAdmin u, cl_ID = [], cl_Format = [],
      cl_BitRate = 0, cl_ShareID = [], cl_Epoch = us_TokenEpoch u\<rparr>"

type_synonym 'tok encoder = "claim_map \<Rightarrow> string + 'tok"
type_synonym 'tok verifier = "time \<Rightarrow> 'tok \<Rightarrow> string + claim_map"

definition TouchClaims :: "'tok encoder \<Rightarrow> time \<Rightarrow> duration \<Rightarrow> claims \<Rightarrow> string + 'tok" where
  "TouchClaims encode now sessionTimeout c = encode (ToMap (WithExpiresAt (now + sessionTimeout) c))"

definition TouchToken :: "'tok encoder \<Rightarrow> time \<Rightarrow> duration \<Rightarrow> claim_map \<Rightarrow> string + 'tok" where
  "TouchToken encode now sessionTimeout token =
     TouchClaims encode now sessionTimeout (ClaimsFromToken token)"

definition CreateToken :: "'tok encoder \<Rightarrow> time \<Rightarrow> duration \<Rightarrow> user \<Rightarrow> string + 'tok" where
  "CreateToken encode now sessionTimeout u =
     (let m = ToMap (userClaims now u [])
      in case encode m of Inl e \<Rightarrow> Inl e | Inr _ \<Rightarrow> TouchToken encode now sessionTimeout m)"

definition CreateAPIToken :: "'tok encoder \<Rightarrow> time \<Rightarrow> user \<Rightarrow> string \<Rightarrow> string + 'tok" where
  "CreateAPIToken encode now u audience = encode (ToMap (userClaims now u [audience]))"

definition CreatePublicToken :: "'tok encoder \<Rightarrow> claims \<Rightarrow> string + 'tok" where
  "CreatePublicToken encode c = encode (ToMap (c\<lparr>cl_Issuer := JWTIssuer\<rparr>))"

definition CreateExpiringPublicToken :: "'tok encoder \<Rightarrow> time \<Rightarrow> claims \<Rightarrow> string + 'tok" where
  "CreateExpiringPublicToken encode expiry c =
     (let c1 = c\<lparr>cl_Issuer := JWTIssuer\<rparr>;
          c2 = (if expiry \<noteq> zeroTime then c1\<lparr>cl_ExpiresAt := expiry\<rparr> else c1)
      in encode (ToMap c2))"

definition Validate :: "'tok verifier \<Rightarrow> time \<Rightarrow> 'tok \<Rightarrow> string + claims" where
  "Validate verify now tok =
     (case verify now tok of Inl e \<Rightarrow> Inl e | Inr m \<Rightarrow> Inr (ClaimsFromToken m))"

datatype auth_error = ErrTokenRevoked | ErrWrongAudience | ErrWrongUser

definition CheckClaims :: "claims \<Rightarrow> user \<Rightarrow> string \<Rightarrow> auth_error option" where
  "CheckClaims c usr audience =
     (if cl_UserID c \<noteq> [] \<and> cl_UserID c \<noteq> us_ID usr then Some ErrWrongUser
      else if cl_Epoch c \<noteq> us_TokenEpoch usr then Some ErrTokenRevoked
      else if length (cl_Audience c) > 0 \<and> \<not> List.member (cl_Audience c) audience then Some ErrWrongAudience
      else None)"

definition EncodeToken :: "'tok encoder \<Rightarrow> claim_map \<Rightarrow> string + 'tok" where
  "EncodeToken encode m = encode (m(''iss'' \<mapsto> CStr JWTIssuer))"

section \<open>The JWT contract\<close>

text \<open>
  A token that was signed verifies, until it expires, to the claims it was made from, as long as
  its numbers survive JSON (at most \<open>2 ^ 53\<close> in size). Expiry is compared at whole seconds.
\<close>

definition representable :: "claim_map \<Rightarrow> bool" where
  "representable m \<longleftrightarrow> (\<forall>k n. m k = Some (CNum n) \<longrightarrow> \<bar>n\<bar> \<le> 2 ^ 53)"

locale jwt_codec =
  fixes encode :: "'tok encoder"
    and verify :: "'tok verifier"
  assumes verify_encode:
      "encode m = Inr tok \<Longrightarrow> representable m \<Longrightarrow> (\<And>e. m ''exp'' = Some (CNum e) \<Longrightarrow> UnixSec now < e) \<Longrightarrow>
         verify now tok = Inr m"
    and verify_expired:
      "encode m = Inr tok \<Longrightarrow> m ''exp'' = Some (CNum e) \<Longrightarrow> e \<le> UnixSec now \<Longrightarrow> \<exists>err. verify now tok = Inl err"

text \<open>A codec without signatures, whose tokens are the claims themselves.\<close>

definition plain_encode :: "claim_map encoder" where
  "plain_encode m = Inr m"

definition plain_verify :: "claim_map verifier" where
  "plain_verify now m =
     (case m ''exp'' of
        Some (CNum e) \<Rightarrow> if UnixSec now < e then Inr m else Inl ''token is expired''
      | _ \<Rightarrow> Inr m)"

interpretation plain_jwt: jwt_codec plain_encode plain_verify
  by unfold_locales (auto simp: plain_encode_def plain_verify_def split: option.splits claim.splits)

section \<open>Reading claims back\<close>

lemma put_if_get:
  "put_if b k v m k' = (if b \<and> k' = k then Some v else m k')"
  by (simp add: put_if_def)

lemma representable_put:
  "representable m \<Longrightarrow> (b \<Longrightarrow> (\<And>n. v = CNum n \<Longrightarrow> \<bar>n\<bar> \<le> 2 ^ 53)) \<Longrightarrow> representable (put_if b k v m)"
  by (auto simp: representable_def put_if_def)

lemma Truncate_zeroTime [simp]: "TruncateSecond zeroTime = zeroTime"
  by (simp add: TruncateSecond_def zeroTime_def)

lemmas claim_getters = get_str_def get_bool_def get_num_def get_list_def intClaim_def date_claim_def gg_V_def

lemma ToMap_keys:
  "ToMap c ''iss'' = (if cl_Issuer c \<noteq> [] then Some (CStr (cl_Issuer c)) else None)"
  "ToMap c ''sub'' = (if cl_Subject c \<noteq> [] then Some (CStr (cl_Subject c)) else None)"
  "ToMap c ''aud'' = (if cl_Audience c \<noteq> [] then Some (CList (cl_Audience c)) else None)"
  "ToMap c ''iat'' = (if cl_IssuedAt c \<noteq> zeroTime then Some (CNum (UnixSec (cl_IssuedAt c))) else None)"
  "ToMap c ''exp'' = (if cl_ExpiresAt c \<noteq> zeroTime then Some (CNum (UnixSec (cl_ExpiresAt c))) else None)"
  "ToMap c ''uid'' = (if cl_UserID c \<noteq> [] then Some (CStr (cl_UserID c)) else None)"
  "ToMap c ''adm'' = (if cl_IsAdmin c then Some (CBool True) else None)"
  "ToMap c ''id'' = (if cl_ID c \<noteq> [] then Some (CStr (cl_ID c)) else None)"
  "ToMap c ''f'' = (if cl_Format c \<noteq> [] then Some (CStr (cl_Format c)) else None)"
  "ToMap c ''b'' = (if cl_BitRate c \<noteq> 0 then Some (CNum (cl_BitRate c)) else None)"
  "ToMap c ''sid'' = (if cl_ShareID c \<noteq> [] then Some (CStr (cl_ShareID c)) else None)"
  "ToMap c ''ep'' = (if cl_Epoch c \<noteq> 0 then Some (CNum (cl_Epoch c)) else None)"
  by (simp_all add: ToMap_def put_if_get)

lemma ClaimsFromToken_of_ToMap:
  "ClaimsFromToken (ToMap c)
     = c\<lparr>cl_IssuedAt := TruncateSecond (cl_IssuedAt c), cl_ExpiresAt := TruncateSecond (cl_ExpiresAt c)\<rparr>"
  by (rule claims.equality)
    (simp_all add: ClaimsFromToken_def ToMap_keys claim_getters TruncateSecond_Unix [symmetric])

definition small_claims :: "claims \<Rightarrow> bool" where
  "small_claims c \<longleftrightarrow> \<bar>cl_Epoch c\<bar> \<le> 2 ^ 53 \<and> \<bar>cl_BitRate c\<bar> \<le> 2 ^ 53
     \<and> \<bar>UnixSec (cl_IssuedAt c)\<bar> \<le> 2 ^ 53 \<and> \<bar>UnixSec (cl_ExpiresAt c)\<bar> \<le> 2 ^ 53"

lemma representable_ToMap: "small_claims c \<Longrightarrow> representable (ToMap c)"
  unfolding ToMap_def small_claims_def
  by (intro representable_put) (auto simp: representable_def)

context jwt_codec
begin

lemma Validate_created:
  assumes "encode (ToMap c) = Inr tok" "small_claims c"
    and "cl_ExpiresAt c = zeroTime \<or> UnixSec now < UnixSec (cl_ExpiresAt c)"
  shows "Validate verify now tok
     = Inr (c\<lparr>cl_IssuedAt := TruncateSecond (cl_IssuedAt c), cl_ExpiresAt := TruncateSecond (cl_ExpiresAt c)\<rparr>)"
proof -
  have "verify now tok = Inr (ToMap c)"
    using assms by (intro verify_encode) (auto simp: representable_ToMap ToMap_keys(5) split: if_splits)
  then show ?thesis by (simp add: Validate_def ClaimsFromToken_of_ToMap)
qed

lemma Validate_expired:
  assumes "encode (ToMap c) = Inr tok" "cl_ExpiresAt c \<noteq> zeroTime" "UnixSec (cl_ExpiresAt c) \<le> UnixSec now"
  shows "\<exists>err. Validate verify now tok = Inl err"
proof -
  have "\<exists>err. verify now tok = Inl err"
    by (rule verify_expired [OF assms(1) _ assms(3)]) (simp add: ToMap_keys(5) assms(2))
  then show ?thesis by (auto simp: Validate_def)
qed

end

section \<open>Properties\<close>

text \<open>
  Claims survive the trip through a token's map: reading back the map made from any claims gives
  the same claims, with the two dates cut to whole seconds.
\<close>

theorem claims_roundtrip:
  "ClaimsFromToken (ToMap c)
     = c\<lparr>cl_IssuedAt := TruncateSecond (cl_IssuedAt c), cl_ExpiresAt := TruncateSecond (cl_ExpiresAt c)\<rparr>"
  by (rule ClaimsFromToken_of_ToMap)

text \<open>
  An API token admits exactly its user at exactly its API. Whenever it is validated, however
  late, the claims pass the check for a user and an audience exactly when the user has the ID and
  the token epoch the token was made for and the audience is the token's. So a password change
  (which bumps the epoch), a recreated user of the same name (a new ID) and another API are all
  refused.
\<close>

theorem API_token_admits_exactly:
  assumes "jwt_codec encode verify" and "CreateAPIToken encode now u aud = Inr tok"
    and "us_ID u \<noteq> []" and "\<bar>us_TokenEpoch u\<bar> \<le> 2 ^ 53" and "\<bar>UnixSec now\<bar> \<le> 2 ^ 53"
  shows "\<exists>c. Validate verify later tok = Inr c \<and> cl_Subject c = us_UserName u
     \<and> (\<forall>usr a. CheckClaims c usr a = None \<longleftrightarrow>
           us_ID usr = us_ID u \<and> us_TokenEpoch usr = us_TokenEpoch u \<and> a = aud)"
proof -
  have "small_claims (userClaims now u [aud])"
    using assms(4,5) by (simp add: small_claims_def userClaims_def zeroTime_def UnixSec_def Second_def)
  with jwt_codec.Validate_created [OF assms(1), of "userClaims now u [aud]" tok later] assms(2,3)
  show ?thesis
    by (auto simp: CreateAPIToken_def CheckClaims_def userClaims_def)
qed

theorem API_token_admits_exactly_witness:
  "\<exists>c. Validate plain_verify 9 (ToMap (userClaims 5 \<lparr>us_ID = ''u1'', us_UserName = ''bob'', us_ScrobbleFilter = [],
        us_LibraryAccess = [], us_IsAdmin = False, us_TokenEpoch = 3\<rparr> [''jellyfin''])) = Inr c
     \<and> CheckClaims c \<lparr>us_ID = ''u1'', us_UserName = ''bob'', us_ScrobbleFilter = [],
        us_LibraryAccess = [], us_IsAdmin = False, us_TokenEpoch = 4\<rparr> ''jellyfin'' \<noteq> None"
  using API_token_admits_exactly [OF plain_jwt.jwt_codec_axioms, of 5 "\<lparr>us_ID = ''u1'', us_UserName = ''bob'',
      us_ScrobbleFilter = [], us_LibraryAccess = [], us_IsAdmin = False, us_TokenEpoch = 3\<rparr>" "''jellyfin''" _ 9]
  by (auto simp del: not_None_eq simp: CreateAPIToken_def plain_encode_def UnixSec_def Second_def)

text \<open>
  A session token is valid until its session times out, and then never again: it validates to its
  user's claims at every time before the expiry second, for every API, and is refused from that
  second on.
\<close>

theorem session_token_lifetime:
  assumes "jwt_codec encode verify" and "CreateToken encode now timeout u = Inr tok"
    and "\<bar>us_TokenEpoch u\<bar> \<le> 2 ^ 53" and "\<bar>UnixSec now\<bar> \<le> 2 ^ 53" and "\<bar>UnixSec (now + timeout)\<bar> \<le> 2 ^ 53"
    and "now + timeout \<noteq> zeroTime"
  shows "if UnixSec later < UnixSec (now + timeout)
     then \<exists>c. Validate verify later tok = Inr c \<and> cl_Subject c = us_UserName u \<and> cl_IsAdmin c = us_IsAdmin u
            \<and> (\<forall>a. CheckClaims c u a = None)
     else \<exists>err. Validate verify later tok = Inl err"
proof -
  let ?c = "WithExpiresAt (now + timeout) (ClaimsFromToken (ToMap (userClaims now u [])))"
  have c: "?c = (userClaims now u [])\<lparr>cl_IssuedAt := TruncateSecond now, cl_ExpiresAt := now + timeout\<rparr>"
    by (simp add: ClaimsFromToken_of_ToMap WithExpiresAt_def userClaims_def)
  from assms(2) have enc: "encode (ToMap ?c) = Inr tok"
    by (auto simp: CreateToken_def TouchToken_def TouchClaims_def Let_def split: sum.splits)
  have sm: "small_claims ?c"
    using assms(3-5) unfolding c by (simp add: small_claims_def userClaims_def)
  show ?thesis
  proof (cases "UnixSec later < UnixSec (now + timeout)")
    case True
    with jwt_codec.Validate_created [OF assms(1) enc sm, of later] show ?thesis
      unfolding c by (auto simp: userClaims_def CheckClaims_def)
  next
    case False
    with jwt_codec.Validate_expired [OF assms(1) enc, of later] assms(6) show ?thesis
      unfolding c by auto
  qed
qed

theorem session_token_lifetime_witness:
  "\<exists>tok err. CreateToken plain_encode 0 (60 * Second) \<lparr>us_ID = ''u1'', us_UserName = ''bob'', us_ScrobbleFilter = [],
        us_LibraryAccess = [], us_IsAdmin = False, us_TokenEpoch = 3\<rparr> = Inr tok
     \<and> Validate plain_verify (61 * Second) tok = Inl err"
proof -
  let ?u = "\<lparr>us_ID = ''u1'', us_UserName = ''bob'', us_ScrobbleFilter = [],
        us_LibraryAccess = [], us_IsAdmin = False, us_TokenEpoch = 3\<rparr>"
  obtain tok where t: "CreateToken plain_encode 0 (60 * Second) ?u = Inr tok"
    by (auto simp: CreateToken_def plain_encode_def TouchToken_def TouchClaims_def)
  from session_token_lifetime [OF plain_jwt.jwt_codec_axioms t, of "61 * Second"] t show ?thesis
    by (auto simp: UnixSec_def Second_def zeroTime_def)
qed

end
