(* ===== verification/StreamTypes.thy ===== *)
theory StreamTypes
  imports Media
begin

text \<open>
  The data and the pure helpers of package \<open>core/stream\<close>: requests, client capabilities and
  decisions (\<open>types.go\<close>), name aliases (\<open>aliases.go\<close>), facts about codecs (\<open>codec.go\<close>) and
  codec limitations (\<open>limitations.go\<close>). Go's \<open>int\<close> values are unbounded here: the code only
  compares and copies them, and divides a positive one by eight.
\<close>

section \<open>Types\<close>

record stream_request =
  rq_Format :: string
  rq_BitRate :: int
  rq_SampleRate :: int
  rq_BitDepth :: int
  rq_Channels :: int
  rq_Offset :: int

record direct_play_profile =
  dp_Containers :: "string list"
  dp_AudioCodecs :: "string list"
  dp_Protocols :: "string list"
  dp_MaxAudioChannels :: int

record profile =
  pf_Container :: string
  pf_AudioCodec :: string
  pf_Protocol :: string
  pf_MaxAudioChannels :: int

record limitation =
  lim_Name :: string
  lim_Comparison :: string
  lim_Values :: "string list"
  lim_Required :: bool

record codec_profile =
  cp_Type :: string
  cp_Name :: string
  cp_Limitations :: "limitation list"

record client_info =
  ci_Name :: string
  ci_Platform :: string
  ci_MaxAudioBitrate :: int
  ci_MaxTranscodingAudioBitrate :: int
  ci_DirectPlayProfiles :: "direct_play_profile list"
  ci_TranscodingProfiles :: "profile list"
  ci_CodecProfiles :: "codec_profile list"

record details =
  d_Container :: string
  d_Codec :: string
  d_Profile :: string
  d_Bitrate :: int
  d_SampleRate :: int
  d_BitDepth :: int
  d_Channels :: int
  d_Duration :: int
  d_Size :: int
  d_IsLossless :: bool

record transcode_decision =
  td_MediaID :: string
  td_CanDirectPlay :: bool
  td_CanTranscode :: bool
  td_TranscodeReasons :: "string list"
  td_ErrorReason :: string
  td_TargetFormat :: string
  td_TargetBitrate :: int
  td_TargetChannels :: int
  td_TargetSampleRate :: int
  td_TargetBitDepth :: int
  td_SourceStream :: details
  td_SourceUpdatedAt :: time
  td_TranscodeStream :: "details option"

definition ProtocolHTTP :: string where "ProtocolHTTP = ''http''"

definition CodecProfileTypeAudio :: string where "CodecProfileTypeAudio = ''AudioCodec''"

text \<open>\<open>DirectPlayProfile.String\<close>, the way a profile shows in a reason.\<close>

definition DirectPlayProfile_String :: "direct_play_profile \<Rightarrow> string" where
  "DirectPlayProfile_String p =
     (let containers = (let c = Join (dp_Containers p) '','' in if c = [] then ''*'' else c);
          codecs = Join (dp_AudioCodecs p) '',''
      in if codecs = [] then ''['' @ containers @ '']''
         else ''['' @ containers @ ''/'' @ codecs @ '']'')"

text \<open>\<open>CapBitrate\<close> returns the client it leaves and whether anything changed.\<close>

definition CapBitrate :: "int \<Rightarrow> client_info \<Rightarrow> client_info \<times> bool" where
  "CapBitrate maxKbps ci =
     (if maxKbps \<le> 0 then (ci, False)
      else (let capA = (ci_MaxAudioBitrate ci = 0 \<or> maxKbps < ci_MaxAudioBitrate ci);
                ci1 = (if capA then ci\<lparr>ci_MaxAudioBitrate := maxKbps\<rparr> else ci);
                capT = (ci_MaxTranscodingAudioBitrate ci1 = 0 \<or> maxKbps < ci_MaxTranscodingAudioBitrate ci1);
                ci2 = (if capT then ci1\<lparr>ci_MaxTranscodingAudioBitrate := maxKbps\<rparr> else ci1)
            in (ci2, capA \<or> capT)))"

section \<open>Aliases\<close>

definition alias_map :: "string list list \<Rightarrow> (string \<rightharpoonup> string)" where
  "alias_map groups = foldl (\<lambda>m g. foldl (\<lambda>m name. m(name \<mapsto> hd g)) m g) Map.empty groups"

definition containerAliasGroups :: "string \<rightharpoonup> string" where
  "containerAliasGroups = alias_map
     [[''aac'', ''adts'', ''m4a'', ''mp4'', ''m4b'', ''m4p''],
      [''mpeg'', ''mp3'', ''mp2''],
      [''ogg'', ''oga'', ''opus''],
      [''aif'', ''aiff''],
      [''asf'', ''wma''],
      [''mpc'', ''mpp''],
      [''wv'']]"

definition codecAliasGroups :: "string \<rightharpoonup> string" where
  "codecAliasGroups = alias_map
     [[''aac'', ''adts''],
      [''ac3'', ''ac-3''],
      [''eac3'', ''e-ac3'', ''e-ac-3'', ''eac-3''],
      [''mpc7'', ''musepack7''],
      [''mpc8'', ''musepack8''],
      [''wma1'', ''wmav1''],
      [''wma2'', ''wmav2''],
      [''wmalossless'', ''wma9lossless''],
      [''wmapro'', ''wma9pro''],
      [''shn'', ''shorten''],
      [''mp4als'', ''als'']]"

definition matchesWithAliases :: "string \<Rightarrow> string list \<Rightarrow> (string \<rightharpoonup> string) \<Rightarrow> bool" where
  "matchesWithAliases value0 candidates aliases =
     (let v = ToLower value0; canonical = map_get [] aliases v
      in list_ex (\<lambda>c0. let c = ToLower c0
           in c = v \<or> (canonical \<noteq> [] \<and> map_get [] aliases c = canonical)) candidates)"

definition matchesContainer :: "string \<Rightarrow> string list \<Rightarrow> bool" where
  "matchesContainer sfx containers = matchesWithAliases sfx containers containerAliasGroups"

definition matchesCodec :: "string \<Rightarrow> string list \<Rightarrow> bool" where
  "matchesCodec codec codecs = matchesWithAliases codec codecs codecAliasGroups"

definition IsAACCodec :: "string \<Rightarrow> bool" where
  "IsAACCodec name \<longleftrightarrow> matchesCodec name [''aac''] \<or> matchesContainer name [''aac'']"

definition containsIgnoreCase :: "string list \<Rightarrow> string \<Rightarrow> bool" where
  "containsIgnoreCase items s = list_ex (\<lambda>item. EqualFold item s) items"

section \<open>Codecs\<close>

definition normalizeProbeCodec :: "string \<Rightarrow> string" where
  "normalizeProbeCodec codec =
     (let c = ToLower codec
      in if HasPrefix c ''dsd'' then ''dsd''
         else if HasPrefix c ''pcm_'' then ''pcm''
         else c)"

definition isLosslessFormat :: "string \<Rightarrow> bool" where
  "isLosslessFormat format \<longleftrightarrow>
     ToLower format \<in> {''flac'', ''alac'', ''wav'', ''aiff'', ''ape'', ''wv'', ''wavpack'', ''tta'',
                       ''tak'', ''shn'', ''dsd'', ''pcm''}"

definition normalizeSourceSampleRate :: "int \<Rightarrow> string \<Rightarrow> int" where
  "normalizeSourceSampleRate sampleRate codec =
     (if EqualFold codec ''dsd'' \<and> sampleRate > 0 then sampleRate div 8 else sampleRate)"

definition targetBitDepth :: "int \<Rightarrow> string \<Rightarrow> bool \<Rightarrow> int" where
  "targetBitDepth srcBitDepth srcCodec targetIsLossless =
     (if \<not> targetIsLossless then 0
      else if EqualFold srcCodec ''dsd'' \<and> srcBitDepth = 1 then 24
      else srcBitDepth)"

definition codecFixedOutputSampleRate :: "string \<Rightarrow> int" where
  "codecFixedOutputSampleRate codec = (if ToLower codec = ''opus'' then 48000 else 0)"

definition codecMaxSampleRate :: "string \<Rightarrow> int" where
  "codecMaxSampleRate codec =
     (if ToLower codec = ''mp3'' then 48000 else if ToLower codec = ''aac'' then 96000 else 0)"

definition codecMaxChannels :: "string \<Rightarrow> int" where
  "codecMaxChannels codec =
     (if ToLower codec = ''mp3'' then 2 else if ToLower codec = ''opus'' then 8 else 0)"

section \<open>Limitations\<close>

text \<open>
  \<open>applyIntLimitation\<close> calls a setter when it adjusts the value; here the new value is the
  argument of \<open>adjustAdjusted\<close>.
\<close>

datatype adjust_result = adjustNone | adjustAdjusted int | adjustCannotFit

definition parseInt :: "string \<Rightarrow> int option" where
  "parseInt s = (case Atoi s of None \<Rightarrow> None | Some v \<Rightarrow> if v < 0 then None else Some v)"

text \<open>The loop that looks for the closest allowed value below the current one.\<close>

fun closest_below :: "int \<Rightarrow> int option \<Rightarrow> string list \<Rightarrow> int option" where
  "closest_below current closest [] = closest"
| "closest_below current closest (v # vs) =
     (case parseInt v of
        Some limit \<Rightarrow>
          if limit < current \<and> (case closest of None \<Rightarrow> True | Some c \<Rightarrow> limit > c)
          then closest_below current (Some limit) vs
          else closest_below current closest vs
      | None \<Rightarrow> closest_below current closest vs)"

definition applyIntLimitation :: "string \<Rightarrow> string list \<Rightarrow> int \<Rightarrow> adjust_result" where
  "applyIntLimitation comparison vals current =
     (case vals of [] \<Rightarrow> adjustNone
      | v0 # _ \<Rightarrow>
        if comparison = ''LessThanEqual'' then
          (case parseInt v0 of
             None \<Rightarrow> adjustNone
           | Some limit \<Rightarrow> if current \<le> limit then adjustNone else adjustAdjusted limit)
        else if comparison = ''GreaterThanEqual'' then
          (case parseInt v0 of
             None \<Rightarrow> adjustNone
           | Some limit \<Rightarrow> if current \<ge> limit then adjustNone else adjustCannotFit)
        else if comparison = ''Equals'' then
          (if list_ex (\<lambda>v. parseInt v = Some current) vals then adjustNone
           else (case closest_below current None vals of
                   Some closest \<Rightarrow> adjustAdjusted closest
                 | None \<Rightarrow> adjustCannotFit))
        else if comparison = ''NotEquals'' then
          (if list_ex (\<lambda>v. parseInt v = Some current) vals then adjustCannotFit else adjustNone)
        else adjustNone)"

definition checkIntLimitation :: "int \<Rightarrow> string \<Rightarrow> string list \<Rightarrow> bool" where
  "checkIntLimitation v comparison vals \<longleftrightarrow> applyIntLimitation comparison vals v = adjustNone"

definition checkStringLimitation :: "string \<Rightarrow> string \<Rightarrow> string list \<Rightarrow> bool" where
  "checkStringLimitation v comparison vals =
     (if comparison = ''Equals'' then list_ex (EqualFold v) vals
      else if comparison = ''NotEquals'' then \<not> list_ex (EqualFold v) vals
      else True)"

text \<open>One limitation against a source stream: whether it holds, and the reason when not.\<close>

definition checkLimitation :: "details \<Rightarrow> limitation \<Rightarrow> (bool \<times> string) option" where
  "checkLimitation src lm =
     (if lim_Name lm = ''audioChannels'' then
        Some (checkIntLimitation (d_Channels src) (lim_Comparison lm) (lim_Values lm),
              ''audio channels not supported'')
      else if lim_Name lm = ''audioSamplerate'' then
        Some (checkIntLimitation (d_SampleRate src) (lim_Comparison lm) (lim_Values lm),
              ''audio samplerate not supported'')
      else if lim_Name lm = ''audioBitrate'' then
        Some (checkIntLimitation (d_Bitrate src) (lim_Comparison lm) (lim_Values lm),
              ''audio bitrate not supported'')
      else if lim_Name lm = ''audioBitdepth'' then
        Some (checkIntLimitation (d_BitDepth src) (lim_Comparison lm) (lim_Values lm),
              ''audio bitdepth not supported'')
      else if lim_Name lm = ''audioProfile'' then
        Some (checkStringLimitation (d_Profile src) (lim_Comparison lm) (lim_Values lm),
              ''audio profile not supported'')
      else None)"

fun checkLimitations :: "details \<Rightarrow> limitation list \<Rightarrow> string" where
  "checkLimitations src [] = []"
| "checkLimitations src (lm # lims) =
     (case checkLimitation src lm of
        None \<Rightarrow> checkLimitations src lims
      | Some (ok, reason) \<Rightarrow>
          if \<not> ok \<and> lim_Required lm then reason else checkLimitations src lims)"

text \<open>The stream an adjustment leaves, with the setter of the limitation's field.\<close>

definition set_adjusted :: "(int \<Rightarrow> details \<Rightarrow> details) \<Rightarrow> adjust_result \<Rightarrow> details \<Rightarrow> details" where
  "set_adjusted setter r ts = (case r of adjustAdjusted v \<Rightarrow> setter v ts | _ \<Rightarrow> ts)"

definition applyLimitation :: "int \<Rightarrow> limitation \<Rightarrow> details \<Rightarrow> adjust_result \<times> details" where
  "applyLimitation sourceBitrate lm ts =
     (let app = applyIntLimitation (lim_Comparison lm) (lim_Values lm) in
      if lim_Name lm = ''audioChannels'' then
        (let r = app (d_Channels ts) in (r, set_adjusted (\<lambda>v t. t\<lparr>d_Channels := v\<rparr>) r ts))
      else if lim_Name lm = ''audioBitrate'' then
        (let current = (if d_Bitrate ts = 0 then sourceBitrate else d_Bitrate ts); r = app current
         in (r, set_adjusted (\<lambda>v t. t\<lparr>d_Bitrate := v\<rparr>) r ts))
      else if lim_Name lm = ''audioSamplerate'' then
        (let r = app (d_SampleRate ts) in (r, set_adjusted (\<lambda>v t. t\<lparr>d_SampleRate := v\<rparr>) r ts))
      else if lim_Name lm = ''audioBitdepth'' \<and> d_BitDepth ts > 0 then
        (let r = app (d_BitDepth ts) in (r, set_adjusted (\<lambda>v t. t\<lparr>d_BitDepth := v\<rparr>) r ts))
      else (adjustNone, ts))"


section \<open>Lemmas\<close>

lemma parseInt_nonneg: "parseInt s = Some v \<Longrightarrow> 0 \<le> v"
  by (auto simp: parseInt_def split: option.splits if_splits)

lemma closest_below_sound:
  "closest_below current closest vs = Some c \<Longrightarrow>
     closest = Some c \<or> (c < current \<and> (\<exists>v\<in>set vs. parseInt v = Some c))"
  by (induction current closest vs rule: closest_below.induct)
    (fastforce split: option.splits if_splits)+

lemma closest_below_ge:
  "closest_below current closest vs = Some c \<Longrightarrow> closest = Some b \<Longrightarrow> b \<le> c"
proof (induction current closest vs arbitrary: b rule: closest_below.induct)
  case (2 current closest v vs)
  show ?case
  proof (cases "parseInt v")
    case None
    with 2 show ?thesis by simp
  next
    case (Some limit)
    show ?thesis
    proof (cases "limit < current \<and> limit > b")
      case True
      with 2 Some have "closest_below current (Some limit) vs = Some c" by simp
      with 2(2) [OF Some] True 2(5) have "limit \<le> c" by simp
      with True show ?thesis by simp
    next
      case False
      with 2 Some show ?thesis by (auto split: if_splits)
    qed
  qed
qed simp

lemma closest_below_max:
  "closest_below current closest vs = Some c \<Longrightarrow> v \<in> set vs \<Longrightarrow> parseInt v = Some l \<Longrightarrow>
     l < current \<Longrightarrow> l \<le> c"
proof (induction current closest vs rule: closest_below.induct)
  case (2 current closest w vs)
  show ?case
  proof (cases "v = w")
    case True
    show ?thesis
    proof (cases "case closest of None \<Rightarrow> True | Some b \<Rightarrow> l > b")
      case True
      with \<open>v = w\<close> 2 have "closest_below current (Some l) vs = Some c" by simp
      then show ?thesis using closest_below_ge by blast
    next
      case False
      then obtain b where b: "closest = Some b" "l \<le> b" by (auto split: option.splits)
      with 2 have "b \<le> c" using closest_below_ge by blast
      with b show ?thesis by simp
    qed
  next
    case False
    with 2 show ?thesis by (auto split: option.splits if_splits)
  qed
qed simp

lemma closest_below_Some_init: "closest_below current (Some b) vs \<noteq> None"
  by (induction vs arbitrary: b) (auto split: option.splits)

lemma closest_below_None:
  "closest_below current None vs = None \<Longrightarrow> v \<in> set vs \<Longrightarrow> parseInt v = Some l \<Longrightarrow> current \<le> l"
proof (induction vs)
  case (Cons w vs)
  show ?case
  proof (cases "parseInt w")
    case None
    with Cons show ?thesis by auto
  next
    case (Some k)
    with Cons.prems have "\<not> k < current" by (auto simp: closest_below_Some_init split: if_splits)
    with Cons Some show ?thesis by auto
  qed
qed simp

text \<open>An adjustment never raises the value, and the value it chooses passes the limitation.\<close>

lemma applyInt_adjusted:
  "applyIntLimitation cmp vs current = adjustAdjusted v \<Longrightarrow>
     0 \<le> v \<and> v < current \<and> applyIntLimitation cmp vs v = adjustNone"
  by (auto simp: applyIntLimitation_def list_ex_iff parseInt_nonneg split: list.splits option.splits if_splits
      dest!: closest_below_sound)

lemma applyInt_none_lte:
  "applyIntLimitation ''LessThanEqual'' (v0 # vs) current = adjustNone \<Longrightarrow> parseInt v0 = Some limit \<Longrightarrow>
     current \<le> limit"
  by (auto simp: applyIntLimitation_def split: if_splits)

text \<open>The fields of a stream only go down as limitations are applied.\<close>

definition details_le :: "details \<Rightarrow> details \<Rightarrow> bool" where
  "details_le a b \<longleftrightarrow> d_Channels a \<le> d_Channels b \<and> d_SampleRate a \<le> d_SampleRate b
     \<and> d_BitDepth a \<le> d_BitDepth b \<and> d_Codec a = d_Codec b \<and> d_Container a = d_Container b
     \<and> d_IsLossless a = d_IsLossless b"

lemma details_le_refl [simp]: "details_le a a"
  by (simp add: details_le_def)

lemma details_le_trans: "details_le a b \<Longrightarrow> details_le b c \<Longrightarrow> details_le a c"
  by (auto simp: details_le_def)

lemma applyLimitation_le:
  "applyLimitation sb lm ts = (r, ts') \<Longrightarrow> details_le ts' ts"
  by (auto simp: applyLimitation_def Let_def set_adjusted_def details_le_def
      split: if_splits adjust_result.splits dest!: applyInt_adjusted)

lemma applyLimitation_bitrate:
  "applyLimitation sb lm ts = (r, ts') \<Longrightarrow>
     d_Bitrate ts' = d_Bitrate ts
     \<or> (lim_Name lm = ''audioBitrate'' \<and> (\<exists>v. r = adjustAdjusted v \<and> d_Bitrate ts' = v \<and> 0 \<le> v
          \<and> v < (if d_Bitrate ts = 0 then sb else d_Bitrate ts)))"
  by (auto simp: applyLimitation_def Let_def set_adjusted_def
      split: if_splits adjust_result.splits dest!: applyInt_adjusted)

lemma matchesWithAliases_single:
  "matchesWithAliases a [b] m \<longleftrightarrow>
     ToLower a = ToLower b
     \<or> (map_get [] m (ToLower a) \<noteq> [] \<and> map_get [] m (ToLower b) = map_get [] m (ToLower a))"
  by (auto simp: matchesWithAliases_def Let_def)

lemma matchesWithAliases_ex:
  "matchesWithAliases a bs m \<longleftrightarrow> (\<exists>b\<in>set bs. matchesWithAliases a [b] m)"
  by (auto simp: matchesWithAliases_def Let_def list_ex_iff)

lemma matches_equiv:
  "matchesWithAliases a [a] m"
  "matchesWithAliases a [b] m \<longleftrightarrow> matchesWithAliases b [a] m"
  "matchesWithAliases a [b] m \<Longrightarrow> matchesWithAliases b [c] m \<Longrightarrow> matchesWithAliases a [c] m"
  by (auto simp: matchesWithAliases_single)

lemma checkInt_iff:
  "checkIntLimitation current cmp vs \<longleftrightarrow>
      vs = []
      \<or> (cmp = ''LessThanEqual'' \<and> (\<forall>l. parseInt (hd vs) = Some l \<longrightarrow> current \<le> l))
      \<or> (cmp = ''GreaterThanEqual'' \<and> (\<forall>l. parseInt (hd vs) = Some l \<longrightarrow> l \<le> current))
      \<or> (cmp = ''Equals'' \<and> Some current \<in> parseInt ` set vs)
      \<or> (cmp = ''NotEquals'' \<and> Some current \<notin> parseInt ` set vs)
      \<or> cmp \<notin> {''LessThanEqual'', ''GreaterThanEqual'', ''Equals'', ''NotEquals''}"
  by (cases vs) (force simp: checkIntLimitation_def applyIntLimitation_def list_ex_iff image_iff
      split: option.splits)+

lemma applyInt_adjusted_cases:
  assumes "applyIntLimitation cmp vs current = adjustAdjusted v"
  shows "vs \<noteq> [] \<and> ((cmp = ''LessThanEqual'' \<and> parseInt (hd vs) = Some v)
      \<or> (cmp = ''Equals'' \<and> closest_below current None vs = Some v))"
  using assms by (cases vs) (auto simp: applyIntLimitation_def split: option.splits if_splits)

lemma applyInt_cannotFit_cases:
  assumes "applyIntLimitation cmp vs current = adjustCannotFit"
  shows "vs \<noteq> [] \<and> ((cmp = ''GreaterThanEqual'' \<and> (\<exists>l. parseInt (hd vs) = Some l \<and> current < l))
      \<or> (cmp = ''Equals'' \<and> closest_below current None vs = None) \<or> cmp = ''NotEquals'')"
  using assms by (cases vs) (auto simp: applyIntLimitation_def split: option.splits if_splits)

section \<open>Properties\<close>

text \<open>
  An integer limitation is decided correctly on every branch. A value that is adjusted goes
  down, to the largest smaller value that passes the limitation; a value is given up only when it
  does not pass and, except for \<open>NotEquals\<close>, no smaller value would; and a value passes exactly
  when it satisfies the comparison against the values that parse (with no value, or an unreadable
  bound, everything passes).
\<close>

theorem applyIntLimitation_correct:
  "(applyIntLimitation cmp vs current = adjustAdjusted v \<longrightarrow>
        v < current \<and> checkIntLimitation v cmp vs
        \<and> (\<forall>w. v < w \<and> w \<le> current \<longrightarrow> \<not> checkIntLimitation w cmp vs))
   \<and> (applyIntLimitation cmp vs current = adjustCannotFit \<longrightarrow>
        \<not> checkIntLimitation current cmp vs
        \<and> (cmp \<noteq> ''NotEquals'' \<longrightarrow> (\<forall>w<current. \<not> checkIntLimitation w cmp vs)))
   \<and> (checkIntLimitation current cmp vs \<longleftrightarrow>
        vs = []
        \<or> (cmp = ''LessThanEqual'' \<and> (\<forall>l. parseInt (hd vs) = Some l \<longrightarrow> current \<le> l))
        \<or> (cmp = ''GreaterThanEqual'' \<and> (\<forall>l. parseInt (hd vs) = Some l \<longrightarrow> l \<le> current))
        \<or> (cmp = ''Equals'' \<and> Some current \<in> parseInt ` set vs)
        \<or> (cmp = ''NotEquals'' \<and> Some current \<notin> parseInt ` set vs)
        \<or> cmp \<notin> {''LessThanEqual'', ''GreaterThanEqual'', ''Equals'', ''NotEquals''})"
proof (intro conjI impI checkInt_iff)
  assume a: "applyIntLimitation cmp vs current = adjustAdjusted v"
  then show "v < current" and "checkIntLimitation v cmp vs"
    by (auto simp: checkIntLimitation_def dest: applyInt_adjusted)
  from a have "\<not> checkIntLimitation current cmp vs" by (simp add: checkIntLimitation_def)
  moreover from applyInt_adjusted_cases [OF a]
  have "\<not> checkIntLimitation w cmp vs" if w: "v < w" "w < current" for w
  proof (elim conjE disjE)
    assume "vs \<noteq> []" "cmp = ''Equals''" and c: "closest_below current None vs = Some v"
    have "Some w \<notin> parseInt ` set vs"
      using closest_below_max [OF c] w by force
    with \<open>vs \<noteq> []\<close> \<open>cmp = ''Equals''\<close> show ?thesis by (simp add: checkInt_iff)
  qed (use w in \<open>simp add: checkInt_iff\<close>)
  ultimately show "\<forall>w. v < w \<and> w \<le> current \<longrightarrow> \<not> checkIntLimitation w cmp vs"
    by (metis order_le_less)
next
  assume a: "applyIntLimitation cmp vs current = adjustCannotFit"
  then show "\<not> checkIntLimitation current cmp vs" by (simp add: checkIntLimitation_def)
  assume ne: "cmp \<noteq> ''NotEquals''"
  from applyInt_cannotFit_cases [OF a] ne
  have "\<not> checkIntLimitation w cmp vs" if w: "w < current" for w
  proof (elim conjE disjE)
    assume "vs \<noteq> []" "cmp = ''Equals''" and c: "closest_below current None vs = None"
    have "Some w \<notin> parseInt ` set vs" using closest_below_None [OF c] w by (metis image_iff linorder_not_less)
    with \<open>vs \<noteq> []\<close> \<open>cmp = ''Equals''\<close> show ?thesis by (simp add: checkInt_iff)
  qed (use w in \<open>auto simp: checkInt_iff\<close>)
  then show "\<forall>w<current. \<not> checkIntLimitation w cmp vs" by blast
qed

theorem applyIntLimitation_correct_witness:
  "applyIntLimitation ''Equals'' [''44100'', ''48000''] 96000 = adjustAdjusted 48000
   \<and> checkIntLimitation 48000 ''Equals'' [''44100'', ''48000'']"
proof -
  have "applyIntLimitation ''Equals'' [''44100'', ''48000''] 96000 = adjustAdjusted 48000"
    by (simp add: applyIntLimitation_def parseInt_def Atoi_def digits_val_def digit_val_def is_digit_def)
  with applyIntLimitation_correct [of "''Equals''" "[''44100'', ''48000'']" 96000 48000]
  show ?thesis by blast
qed

text \<open>
  Matching a codec or container name up to case and aliases is an equivalence relation on
  names: reflexive, symmetric and transitive, so it does not matter which side of a comparison a
  client's name is on.
\<close>

theorem alias_matching_equivalence:
  "matchesCodec a [a] \<and> matchesContainer a [a]
   \<and> (matchesCodec a [b] \<longleftrightarrow> matchesCodec b [a]) \<and> (matchesContainer a [b] \<longleftrightarrow> matchesContainer b [a])
   \<and> (matchesCodec a [b] \<and> matchesCodec b [c] \<longrightarrow> matchesCodec a [c])
   \<and> (matchesContainer a [b] \<and> matchesContainer b [c] \<longrightarrow> matchesContainer a [c])"
  unfolding matchesCodec_def matchesContainer_def
  using matches_equiv by blast

theorem alias_matching_equivalence_witness:
  "matchesContainer ''M4A'' [''mp4''] \<and> matchesContainer ''mp4'' [''AAC''] \<and> matchesContainer ''M4A'' [''AAC'']"
proof -
  have "matchesContainer ''M4A'' [''mp4''] \<and> matchesContainer ''mp4'' [''AAC'']" by code_simp
  with alias_matching_equivalence [of "''M4A''" "''mp4''" "''AAC''"] show ?thesis by blast
qed

end
