(* ===== verification/StreamDecider.thy ===== *)
theory StreamDecider
  imports StreamTypes
begin

text \<open>
  The transcoding decision (\<open>core/stream/decider.go\<close>) and the legacy stream parameters mapped
  to it (\<open>core/stream/legacy_client.go\<close>). The datastore's \<open>FindByFormat\<close>, ffprobe, the JSON
  coding of probe results and two configuration values are the record \<open>stream_env\<close>; the
  player and the forced transcoding of a request's context are \<open>request_ctx\<close>.
  \<open>MakeDecision\<close> may fill in the file's probe data and persist it: it returns the file it
  leaves and the updates it wrote beside its result.
\<close>

record audio_probe_result =
  pr_Codec :: string
  pr_Profile :: string
  pr_BitRate :: int
  pr_SampleRate :: int
  pr_BitDepth :: int
  pr_Channels :: int

record stream_env =
  se_FindByFormat :: "string \<Rightarrow> string + transcoding"
  se_IsProbeAvailable :: bool
  se_DevEnableMediaFileProbe :: bool
  se_ProbeAudioStream :: "media_file \<Rightarrow> string + audio_probe_result"
  se_Marshal :: "audio_probe_result \<Rightarrow> string + string"
  se_Unmarshal :: "string \<Rightarrow> string + audio_probe_result"
  se_DefaultDownsamplingFormat :: string

record request_ctx =
  rc_Player :: "player option"
  rc_Transcoding :: "transcoding option"

definition fallbackBitrate :: int where "fallbackBitrate = 256"

definition DefaultTranscodings :: "transcoding list" where
  "DefaultTranscodings =
     [\<lparr>trc_TargetFormat = ''mp3'',
       trc_Command = ''ffmpeg -ss %t -i %s -map 0:a:0 -map_metadata 0 -map_metadata 0:s:a:0 -b:a %bk -v 0 -f mp3 -'',
       trc_DefaultBitRate = 192\<rparr>,
      \<lparr>trc_TargetFormat = ''opus'',
       trc_Command = ''ffmpeg -ss %t -i %s -map 0:a:0 -map_metadata 0 -map_metadata 0:s:a:0 -b:a %bk -v 0 -c:a libopus -f opus -'',
       trc_DefaultBitRate = 128\<rparr>,
      \<lparr>trc_TargetFormat = ''aac'',
       trc_Command = ''ffmpeg -ss %t -i %s -map 0:a:0 -map_metadata 0 -map_metadata 0:s:a:0 -b:a %bk -v 0 -c:a aac -f adts -'',
       trc_DefaultBitRate = 256\<rparr>,
      \<lparr>trc_TargetFormat = ''flac'',
       trc_Command = ''ffmpeg -ss %t -i %s -map 0:a:0 -map_metadata 0 -map_metadata 0:s:a:0 -v 0 -c:a flac -f flac -'',
       trc_DefaultBitRate = 0\<rparr>]"

section \<open>Lookups\<close>

definition lookupDefaultBitrate :: "stream_env \<Rightarrow> string \<Rightarrow> int" where
  "lookupDefaultBitrate env format =
     (let builtin = (case find (\<lambda>dt. trc_TargetFormat dt = format \<and> trc_DefaultBitRate dt > 0)
                            DefaultTranscodings of
                       Some dt \<Rightarrow> trc_DefaultBitRate dt | None \<Rightarrow> fallbackBitrate)
      in case se_FindByFormat env format of
           Inr t \<Rightarrow> if trc_DefaultBitRate t > 0 then trc_DefaultBitRate t else builtin
         | Inl e \<Rightarrow> builtin)"

definition LookupTranscodeCommand :: "stream_env \<Rightarrow> string \<Rightarrow> string" where
  "LookupTranscodeCommand env format =
     (let builtin = (case find (\<lambda>dt. trc_TargetFormat dt = format) DefaultTranscodings of
                       Some dt \<Rightarrow> trc_Command dt | None \<Rightarrow> [])
      in case se_FindByFormat env format of
           Inr t \<Rightarrow> if trc_Command t \<noteq> [] then trc_Command t else builtin
         | Inl e \<Rightarrow> builtin)"

definition resolveTargetFormat :: "profile \<Rightarrow> string \<times> string" where
  "resolveTargetFormat p =
     (let responseContainer = ToLower (pf_Container p);
          targetFormat = (if pf_AudioCodec p \<noteq> [] then ToLower (pf_AudioCodec p) else responseContainer)
      in if targetFormat = [] then ([], [])
         else (if responseContainer = [] then targetFormat else responseContainer, targetFormat))"

definition forced_direct_play :: "profile \<Rightarrow> direct_play_profile" where
  "forced_direct_play p =
     (case resolveTargetFormat p of (container, format) \<Rightarrow>
        \<lparr>dp_Containers = [container], dp_AudioCodecs = [format], dp_Protocols = [ProtocolHTTP],
         dp_MaxAudioChannels = pf_MaxAudioChannels p\<rparr>)"

definition ForceFormat :: "string \<Rightarrow> client_info \<Rightarrow> client_info \<times> bool" where
  "ForceFormat targetFormat ci =
     (if targetFormat = [] then (ci, False)
      else (let matched = filter (\<lambda>p. matchesContainer (snd (resolveTargetFormat p)) [targetFormat])
                                 (ci_TranscodingProfiles ci)
            in if length matched = 0 then (ci, False)
               else (ci\<lparr>ci_TranscodingProfiles := matched,
                        ci_DirectPlayProfiles := map forced_direct_play matched\<rparr>, True)))"

section \<open>The source stream\<close>

definition parseProbeData :: "stream_env \<Rightarrow> string \<Rightarrow> string + audio_probe_result option" where
  "parseProbeData env data =
     (if data = [] then Inr None
      else (case se_Unmarshal env data of Inl e \<Rightarrow> Inl e | Inr result \<Rightarrow> Inr (Some result)))"

definition ensureProbed ::
  "stream_env \<Rightarrow> media_file \<Rightarrow> media_file \<times> (string \<times> string) list \<times> (string + audio_probe_result option)" where
  "ensureProbed env mf =
     (if mf_ProbeData mf \<noteq> [] then (mf, [], Inr None)
      else if \<not> se_DevEnableMediaFileProbe env then (mf, [], Inr None)
      else (case se_ProbeAudioStream env mf of
              Inl err \<Rightarrow> (mf, [], Inl (''probing media file '' @ mf_ID mf @ '': '' @ err))
            | Inr result \<Rightarrow>
                (case se_Marshal env result of
                   Inl err \<Rightarrow> (mf, [], Inl (''marshaling probe result for '' @ mf_ID mf @ '': '' @ err))
                 | Inr data \<Rightarrow> (mf\<lparr>mf_ProbeData := data\<rparr>, [(mf_ID mf, data)], Inr (Some result)))))"

definition buildSourceStream :: "stream_env \<Rightarrow> media_file \<Rightarrow> audio_probe_result option \<Rightarrow> details" where
  "buildSourceStream env mf probe0 =
     (let probe = (case probe0 of
                     Some p \<Rightarrow> Some p
                   | None \<Rightarrow> (case parseProbeData env (mf_ProbeData mf) of Inl e \<Rightarrow> None | Inr p \<Rightarrow> p));
          codec = (case probe of Some p \<Rightarrow> normalizeProbeCodec (pr_Codec p) | None \<Rightarrow> AudioCodec mf)
      in \<lparr>d_Container = mf_Suffix mf,
          d_Codec = codec,
          d_Profile = (case probe of Some p \<Rightarrow> pr_Profile p | None \<Rightarrow> []),
          d_Bitrate = (case probe of Some p \<Rightarrow> pr_BitRate p | None \<Rightarrow> mf_BitRate mf),
          d_SampleRate = (case probe of Some p \<Rightarrow> pr_SampleRate p | None \<Rightarrow> mf_SampleRate mf),
          d_BitDepth = (case probe of Some p \<Rightarrow> pr_BitDepth p | None \<Rightarrow> gg_V 0 (mf_BitDepth mf)),
          d_Channels = (case probe of Some p \<Rightarrow> pr_Channels p | None \<Rightarrow> mf_Channels mf),
          d_Duration = mf_DurationMs mf,
          d_Size = mf_Size mf,
          d_IsLossless = isLosslessFormat codec\<rparr>)"

section \<open>Direct play\<close>

definition matchesPCMWAVBridge :: "details \<Rightarrow> direct_play_profile \<Rightarrow> bool" where
  "matchesPCMWAVBridge src p \<longleftrightarrow>
     EqualFold (d_Codec src) ''pcm'' \<and> EqualFold (d_Container src) ''wav''
     \<and> containsIgnoreCase (dp_AudioCodecs p) ''wav''"

fun checkCodecProfiles :: "details \<Rightarrow> codec_profile list \<Rightarrow> string" where
  "checkCodecProfiles src [] = []"
| "checkCodecProfiles src (cp # cps) =
     (if EqualFold (cp_Type cp) CodecProfileTypeAudio \<and> matchesCodec (d_Codec src) [cp_Name cp]
      then (let reason = checkLimitations src (cp_Limitations cp)
            in if reason \<noteq> [] then reason else checkCodecProfiles src cps)
      else checkCodecProfiles src cps)"

definition checkDirectPlayProfile :: "details \<Rightarrow> direct_play_profile \<Rightarrow> client_info \<Rightarrow> string" where
  "checkDirectPlayProfile src p ci =
     (if dp_Protocols p \<noteq> [] \<and> \<not> containsIgnoreCase (dp_Protocols p) ProtocolHTTP
      then ''protocol not supported''
      else if dp_Containers p \<noteq> [] \<and> \<not> matchesContainer (d_Container src) (dp_Containers p)
      then ''container '' @ [CHR 0x27] @ d_Container src @ [CHR 0x27] @ '' not supported by profile '' @ DirectPlayProfile_String p
      else if dp_AudioCodecs p \<noteq> [] \<and> \<not> matchesCodec (d_Codec src) (dp_AudioCodecs p)
              \<and> \<not> matchesPCMWAVBridge src p
      then ''audio codec '' @ [CHR 0x27] @ d_Codec src @ [CHR 0x27] @ '' not supported by profile '' @ DirectPlayProfile_String p
      else if dp_MaxAudioChannels p > 0 \<and> d_Channels src > dp_MaxAudioChannels p
      then ''audio channels '' @ Itoa (d_Channels src) @ '' not supported by profile ''
           @ DirectPlayProfile_String p @ '' (max '' @ Itoa (dp_MaxAudioChannels p) @ '')''
      else checkCodecProfiles src (ci_CodecProfiles ci))"

text \<open>The loop over the direct play profiles: the reasons so far, and whether one matched.\<close>

fun direct_play_loop ::
  "details \<Rightarrow> client_info \<Rightarrow> string list \<Rightarrow> direct_play_profile list \<Rightarrow> bool \<times> string list" where
  "direct_play_loop src ci reasons [] = (False, reasons)"
| "direct_play_loop src ci reasons (p # ps) =
     (let reason = checkDirectPlayProfile src p ci
      in if reason = [] then (True, []) else direct_play_loop src ci (reasons @ [reason]) ps)"

section \<open>Transcoding\<close>

definition computeBitrate ::
  "stream_env \<Rightarrow> details \<Rightarrow> string \<Rightarrow> bool \<Rightarrow> client_info \<Rightarrow> details \<Rightarrow> details option" where
  "computeBitrate env src targetFormat targetIsLossless ci ts =
     (let cap = (\<lambda>t. if ci_MaxAudioBitrate ci > 0 \<and> d_Bitrate t > 0 \<and> d_Bitrate t > ci_MaxAudioBitrate ci
                     then t\<lparr>d_Bitrate := ci_MaxAudioBitrate ci\<rparr> else t)
      in if d_IsLossless src then
           (if \<not> targetIsLossless then
              Some (cap (ts\<lparr>d_Bitrate :=
                (if ci_MaxTranscodingAudioBitrate ci > 0 then ci_MaxTranscodingAudioBitrate ci
                 else if ci_MaxAudioBitrate ci > 0 then ci_MaxAudioBitrate ci
                 else lookupDefaultBitrate env targetFormat)\<rparr>))
            else if ci_MaxAudioBitrate ci > 0 \<and> d_Bitrate src > ci_MaxAudioBitrate ci then None
            else Some (cap ts))
         else Some (cap (ts\<lparr>d_Bitrate := d_Bitrate src\<rparr>)))"

definition is_adjusted :: "adjust_result \<Rightarrow> bool" where
  "is_adjusted r = (case r of adjustAdjusted _ \<Rightarrow> True | _ \<Rightarrow> False)"

fun applyLims :: "int \<Rightarrow> bool \<Rightarrow> limitation list \<Rightarrow> details \<Rightarrow> details option" where
  "applyLims sourceBitrate targetIsLossless [] ts = Some ts"
| "applyLims sourceBitrate targetIsLossless (l # ls) ts =
     (case applyLimitation sourceBitrate l ts of (result, ts') \<Rightarrow>
        if EqualFold (lim_Name l) ''audioBitrate'' \<and> targetIsLossless \<and> is_adjusted result then None
        else if result = adjustCannotFit then None
        else applyLims sourceBitrate targetIsLossless ls ts')"

fun applyCodecLimitations ::
  "int \<Rightarrow> string \<Rightarrow> bool \<Rightarrow> codec_profile list \<Rightarrow> details \<Rightarrow> details option" where
  "applyCodecLimitations sourceBitrate targetCodec targetIsLossless [] ts = Some ts"
| "applyCodecLimitations sourceBitrate targetCodec targetIsLossless (cp # cps) ts =
     (if \<not> EqualFold (cp_Type cp) CodecProfileTypeAudio
      then applyCodecLimitations sourceBitrate targetCodec targetIsLossless cps ts
      else if \<not> matchesCodec targetCodec [cp_Name cp]
      then applyCodecLimitations sourceBitrate targetCodec targetIsLossless cps ts
      else (case applyLims sourceBitrate targetIsLossless (cp_Limitations cp) ts of
              None \<Rightarrow> None
            | Some ts' \<Rightarrow> applyCodecLimitations sourceBitrate targetCodec targetIsLossless cps ts'))"

text \<open>The stream before its bitrate is chosen, within the hard limits of its codec.\<close>

definition initial_stream :: "details \<Rightarrow> profile \<Rightarrow> details" where
  "initial_stream src p =
     (let (responseContainer, targetFormat) = resolveTargetFormat p;
          targetIsLossless = isLosslessFormat targetFormat;
          codec = (let c = ToLower (pf_AudioCodec p) in if c = [] then targetFormat else c);
          ts = \<lparr>d_Container = responseContainer, d_Codec = codec, d_Profile = [], d_Bitrate = 0,
                d_SampleRate = normalizeSourceSampleRate (d_SampleRate src) (d_Codec src),
                d_BitDepth = targetBitDepth (d_BitDepth src) (d_Codec src) targetIsLossless,
                d_Channels = d_Channels src, d_Duration = 0, d_Size = 0, d_IsLossless = targetIsLossless\<rparr>;
          fixedRate = codecFixedOutputSampleRate codec;
          ts1 = (if fixedRate > 0 then ts\<lparr>d_SampleRate := fixedRate\<rparr> else ts);
          maxRate = codecMaxSampleRate codec;
          ts2 = (if maxRate > 0 \<and> d_SampleRate ts1 > maxRate then ts1\<lparr>d_SampleRate := maxRate\<rparr> else ts1);
          maxCh = codecMaxChannels codec
      in if maxCh > 0 \<and> d_Channels ts2 > maxCh then ts2\<lparr>d_Channels := maxCh\<rparr> else ts2)"

definition computeTranscodedStream ::
  "stream_env \<Rightarrow> details \<Rightarrow> profile \<Rightarrow> client_info \<Rightarrow> (details \<times> string) option" where
  "computeTranscodedStream env src p ci =
     (if pf_Protocol p \<noteq> [] \<and> \<not> EqualFold (pf_Protocol p) ProtocolHTTP then None
      else (let (responseContainer, targetFormat) = resolveTargetFormat p;
                targetIsLossless = isLosslessFormat targetFormat
            in if targetFormat = [] then None
               else if LookupTranscodeCommand env targetFormat = [] then None
               else if \<not> d_IsLossless src \<and> targetIsLossless then None
               else (case computeBitrate env src targetFormat targetIsLossless ci (initial_stream src p) of
                       None \<Rightarrow> None
                     | Some ts \<Rightarrow>
                         (let ts' = (if pf_MaxAudioChannels p > 0 \<and> d_Channels ts > pf_MaxAudioChannels p
                                     then ts\<lparr>d_Channels := pf_MaxAudioChannels p\<rparr> else ts)
                          in case applyCodecLimitations (d_Bitrate src) (d_Codec ts') targetIsLossless
                                    (ci_CodecProfiles ci) ts' of
                               None \<Rightarrow> None
                             | Some ts'' \<Rightarrow> Some (ts'', targetFormat)))))"

fun transcode_loop ::
  "stream_env \<Rightarrow> details \<Rightarrow> client_info \<Rightarrow> profile list \<Rightarrow> (details \<times> string) option" where
  "transcode_loop env src ci [] = None"
| "transcode_loop env src ci (p # ps) =
     (case computeTranscodedStream env src p ci of
        Some r \<Rightarrow> Some r
      | None \<Rightarrow> transcode_loop env src ci ps)"

section \<open>MakeDecision\<close>

definition decide :: "stream_env \<Rightarrow> media_file \<Rightarrow> client_info \<Rightarrow> details \<Rightarrow> transcode_decision" where
  "decide env mf ci src =
     (let (canDirectPlay, reasons) =
            (if ci_MaxAudioBitrate ci > 0 \<and> d_Bitrate src > ci_MaxAudioBitrate ci
             then (False, [''audio bitrate not supported''])
             else direct_play_loop src ci [] (ci_DirectPlayProfiles ci));
          decision = \<lparr>td_MediaID = mf_ID mf, td_CanDirectPlay = canDirectPlay, td_CanTranscode = False,
            td_TranscodeReasons = reasons, td_ErrorReason = [], td_TargetFormat = [],
            td_TargetBitrate = 0, td_TargetChannels = 0, td_TargetSampleRate = 0, td_TargetBitDepth = 0,
            td_SourceStream = src, td_SourceUpdatedAt = mf_UpdatedAt mf, td_TranscodeStream = None\<rparr>
      in if canDirectPlay then decision
         else (case transcode_loop env src ci (ci_TranscodingProfiles ci) of
                 Some (ts, transcodeFormat) \<Rightarrow>
                   decision\<lparr>td_CanTranscode := True, td_TargetFormat := transcodeFormat,
                     td_TargetBitrate := d_Bitrate ts, td_TargetChannels := d_Channels ts,
                     td_TargetSampleRate := d_SampleRate ts, td_TargetBitDepth := d_BitDepth ts,
                     td_TranscodeStream := Some ts\<rparr>
               | None \<Rightarrow> decision\<lparr>td_ErrorReason := ''no compatible playback profile found''\<rparr>))"

definition MakeDecision ::
  "stream_env \<Rightarrow> media_file \<Rightarrow> client_info \<Rightarrow> bool
   \<Rightarrow> media_file \<times> (string \<times> string) list \<times> (string + transcode_decision)" where
  "MakeDecision env mf ci skipProbe =
     (case (if \<not> skipProbe \<and> se_IsProbeAvailable env then ensureProbed env mf else (mf, [], Inr None)) of
        (mf', updates, Inl err) \<Rightarrow> (mf', updates, Inl err)
      | (mf', updates, Inr probe) \<Rightarrow>
          (mf', updates, Inr (decide env mf' ci (buildSourceStream env mf' probe))))"

section \<open>Server overrides and legacy requests\<close>

definition applyServerOverride :: "request_ctx \<Rightarrow> client_info \<Rightarrow> transcoding \<Rightarrow> client_info" where
  "applyServerOverride ctx original trc =
     (let maxBitRate = (case rc_Player ctx of
                          Some pl \<Rightarrow> if pl_MaxBitRate pl > 0 then pl_MaxBitRate pl else trc_DefaultBitRate trc
                        | None \<Rightarrow> trc_DefaultBitRate trc)
      in \<lparr>ci_Name = ci_Name original, ci_Platform = ci_Platform original,
          ci_MaxAudioBitrate = maxBitRate, ci_MaxTranscodingAudioBitrate = maxBitRate,
          ci_DirectPlayProfiles =
            [\<lparr>dp_Containers = [trc_TargetFormat trc], dp_AudioCodecs = [trc_TargetFormat trc],
              dp_Protocols = [ProtocolHTTP], dp_MaxAudioChannels = 0\<rparr>],
          ci_TranscodingProfiles =
            [\<lparr>pf_Container = trc_TargetFormat trc, pf_AudioCodec = trc_TargetFormat trc,
              pf_Protocol = ProtocolHTTP, pf_MaxAudioChannels = 0\<rparr>],
          ci_CodecProfiles = []\<rparr>)"

definition legacy_target_format :: "stream_env \<Rightarrow> media_file \<Rightarrow> string \<Rightarrow> int \<Rightarrow> int \<Rightarrow> string" where
  "legacy_target_format env mf reqFormat reqBitRate playerMaxBitRate =
     (if reqFormat \<noteq> [] then reqFormat
      else if reqBitRate > 0 \<and> reqBitRate < mf_BitRate mf \<and> se_DefaultDownsamplingFormat env \<noteq> []
      then se_DefaultDownsamplingFormat env
      else if playerMaxBitRate > 0 \<and> playerMaxBitRate < mf_BitRate mf \<and> se_DefaultDownsamplingFormat env \<noteq> []
      then se_DefaultDownsamplingFormat env
      else [])"

definition buildLegacyClientInfo ::
  "stream_env \<Rightarrow> media_file \<Rightarrow> string \<Rightarrow> int \<Rightarrow> int \<Rightarrow> client_info" where
  "buildLegacyClientInfo env mf reqFormat reqBitRate playerMaxBitRate =
     (let targetFormat = legacy_target_format env mf reqFormat reqBitRate playerMaxBitRate;
          ci = \<lparr>ci_Name = ''legacy'', ci_Platform = [], ci_MaxAudioBitrate = 0,
                ci_MaxTranscodingAudioBitrate = 0, ci_DirectPlayProfiles = [],
                ci_TranscodingProfiles = [], ci_CodecProfiles = []\<rparr>
      in if targetFormat \<noteq> [] then
           (let ci1 = (if reqFormat = [] \<or> EqualFold reqFormat (mf_Suffix mf)
                       then ci\<lparr>ci_DirectPlayProfiles :=
                              [\<lparr>dp_Containers = [mf_Suffix mf], dp_AudioCodecs = [AudioCodec mf],
                                dp_Protocols = [ProtocolHTTP], dp_MaxAudioChannels = 0\<rparr>]\<rparr>
                       else ci);
                ci2 = ci1\<lparr>ci_TranscodingProfiles :=
                        [\<lparr>pf_Container = targetFormat, pf_AudioCodec = targetFormat,
                          pf_Protocol = ProtocolHTTP, pf_MaxAudioChannels = 0\<rparr>]\<rparr>
            in if reqBitRate > 0
               then ci2\<lparr>ci_MaxAudioBitrate := reqBitRate, ci_MaxTranscodingAudioBitrate := reqBitRate\<rparr>
               else ci2)
         else ci\<lparr>ci_DirectPlayProfiles :=
                [\<lparr>dp_Containers = [], dp_AudioCodecs = [], dp_Protocols = [ProtocolHTTP],
                  dp_MaxAudioChannels = 0\<rparr>]\<rparr>)"

definition empty_request :: "int \<Rightarrow> stream_request" where
  "empty_request offset =
     \<lparr>rq_Format = [], rq_BitRate = 0, rq_SampleRate = 0, rq_BitDepth = 0, rq_Channels = 0,
      rq_Offset = offset\<rparr>"

definition raw_request :: "int \<Rightarrow> stream_request" where
  "raw_request offset = (empty_request offset)\<lparr>rq_Format := ''raw''\<rparr>"

text \<open>The client as the server sees it: forced transcoding first, else the player's cap.\<close>

definition overridden_client :: "request_ctx \<Rightarrow> client_info \<Rightarrow> client_info" where
  "overridden_client ctx ci =
     (case rc_Transcoding ctx of
        Some trc \<Rightarrow>
          if trc_TargetFormat trc \<noteq> [] then applyServerOverride ctx ci trc
          else (case rc_Player ctx of Some pl \<Rightarrow> fst (CapBitrate (pl_MaxBitRate pl) ci) | None \<Rightarrow> ci)
      | None \<Rightarrow> (case rc_Player ctx of Some pl \<Rightarrow> fst (CapBitrate (pl_MaxBitRate pl) ci) | None \<Rightarrow> ci))"

definition resolve ::
  "stream_env \<Rightarrow> request_ctx \<Rightarrow> media_file \<Rightarrow> client_info \<Rightarrow> int \<Rightarrow> stream_request \<times> bool" where
  "resolve env ctx mf ci offset =
     (case snd (snd (MakeDecision env mf (overridden_client ctx ci) True)) of
        Inl err \<Rightarrow> (raw_request offset, True)
      | Inr d \<Rightarrow>
          (if td_CanDirectPlay d then (raw_request offset, True)
           else if td_CanTranscode d then
             (\<lparr>rq_Format = td_TargetFormat d, rq_BitRate = td_TargetBitrate d,
               rq_SampleRate = td_TargetSampleRate d, rq_BitDepth = td_TargetBitDepth d,
               rq_Channels = td_TargetChannels d, rq_Offset = offset\<rparr>, True)
           else (empty_request offset, False)))"

definition ResolveClientRequest ::
  "stream_env \<Rightarrow> request_ctx \<Rightarrow> media_file \<Rightarrow> client_info \<Rightarrow> int \<Rightarrow> stream_request" where
  "ResolveClientRequest env ctx mf ci offset =
     (case resolve env ctx mf ci offset of (req, ok) \<Rightarrow> if ok then req else raw_request offset)"

function ResolveRequest ::
  "stream_env \<Rightarrow> request_ctx \<Rightarrow> media_file \<Rightarrow> string \<Rightarrow> int \<Rightarrow> int \<Rightarrow> stream_request" where
  "ResolveRequest env ctx mf reqFormat reqBitRate offset =
     (if reqFormat = ''raw'' then raw_request offset
      else (let playerMaxBitRate = (case rc_Player ctx of Some pl \<Rightarrow> pl_MaxBitRate pl | None \<Rightarrow> 0);
                ci = buildLegacyClientInfo env mf reqFormat reqBitRate playerMaxBitRate
            in case resolve env ctx mf ci offset of
                 (resolved, True) \<Rightarrow> resolved
               | (_, False) \<Rightarrow>
                   (let fallbackFormat = se_DefaultDownsamplingFormat env
                    in if reqFormat \<noteq> [] \<and> fallbackFormat \<noteq> [] \<and> \<not> EqualFold reqFormat fallbackFormat
                       then ResolveRequest env ctx mf fallbackFormat reqBitRate offset
                       else raw_request offset)))"
  by pat_completeness auto

termination ResolveRequest
  by (relation "measure (\<lambda>(env, ctx, mf, f, b, o'). if EqualFold f (se_DefaultDownsamplingFormat env) then 0 else 1)")
    auto

declare ResolveRequest.simps [simp del]

section \<open>What a transcoded stream satisfies\<close>

text \<open>
  Limitations only lower the fields of a stream. For the bitrate this needs that no limitation
  allows the bitrate zero, which stands for "no bitrate chosen": once it is set, the next bitrate
  limitation is compared with the source's bitrate instead.
\<close>

definition nonzero_limitation :: "limitation \<Rightarrow> bool" where
  "nonzero_limitation l \<longleftrightarrow> (lim_Name l = ''audioBitrate'' \<longrightarrow> Some 0 \<notin> parseInt ` set (lim_Values l))"

definition nonzero_limits :: "codec_profile list \<Rightarrow> bool" where
  "nonzero_limits cps \<longleftrightarrow> (\<forall>cp\<in>set cps. \<forall>l\<in>set (cp_Limitations cp). nonzero_limitation l)"

definition steady :: "bool \<Rightarrow> int \<Rightarrow> details \<Rightarrow> bool" where
  "steady ll sb ts \<longleftrightarrow> ll \<or> d_Bitrate ts \<noteq> 0 \<or> sb = 0"

definition lowered :: "details \<Rightarrow> details \<Rightarrow> bool" where
  "lowered ts' ts \<longleftrightarrow> details_le ts' ts \<and> d_Bitrate ts' \<le> d_Bitrate ts"

text \<open>The field a limitation is about; the profile limitation has none.\<close>

definition limited_field :: "string \<Rightarrow> details \<Rightarrow> int" where
  "limited_field name ts =
     (if name = ''audioChannels'' then d_Channels ts
      else if name = ''audioBitrate'' then d_Bitrate ts
      else if name = ''audioSamplerate'' then d_SampleRate ts
      else if name = ''audioBitdepth'' then d_BitDepth ts
      else 0)"

lemma lowered_refl [simp]: "lowered ts ts"
  by (simp add: lowered_def)

lemma lowered_trans: "lowered a b \<Longrightarrow> lowered b c \<Longrightarrow> lowered a c"
  by (auto simp: lowered_def intro: details_le_trans)

lemma lowered_field: "lowered a b \<Longrightarrow> limited_field n a \<le> limited_field n b"
  by (simp add: lowered_def details_le_def limited_field_def)

lemma adjusted_in_values:
  "applyIntLimitation cmp vs current = adjustAdjusted v \<Longrightarrow> Some v \<in> parseInt ` set vs"
  by (metis applyInt_adjusted_cases closest_below_sound hd_in_set image_eqI option.distinct(1))

lemma applyLimitation_adjusted_value:
  assumes "applyLimitation sb l ts = (adjustAdjusted v, ts')"
  shows "Some v \<in> parseInt ` set (lim_Values l)"
  using assms
  by (auto simp: applyLimitation_def Let_def split: if_splits intro: adjusted_in_values)

lemma applyLimitation_lowered:
  assumes ap: "applyLimitation sb l ts = (r, ts')" and st: "steady ll sb ts" and nz: "nonzero_limitation l"
    and rej: "\<not> (EqualFold (lim_Name l) ''audioBitrate'' \<and> ll \<and> is_adjusted r)"
  shows "lowered ts' ts \<and> steady ll sb ts'"
proof -
  have "d_Bitrate ts' \<le> d_Bitrate ts \<and> steady ll sb ts'"
    using applyLimitation_bitrate [OF ap]
  proof (elim disjE conjE exE)
    fix v assume n: "lim_Name l = ''audioBitrate''" and v: "r = adjustAdjusted v" "d_Bitrate ts' = v" "0 \<le> v"
      "v < (if d_Bitrate ts = 0 then sb else d_Bitrate ts)"
    with rej have "\<not> ll" by (auto simp: is_adjusted_def)
    moreover have "v \<noteq> 0"
      using applyLimitation_adjusted_value [of sb l ts v ts'] ap v(1) nz n by (auto simp: nonzero_limitation_def)
    ultimately show ?thesis using v st by (auto simp: steady_def split: if_splits)
  qed (use st in \<open>auto simp: steady_def\<close>)
  then show ?thesis by (auto simp: lowered_def intro: applyLimitation_le [OF ap])
qed

lemma applyLims_lowered:
  "applyLims sb ll ls ts = Some ts' \<Longrightarrow> steady ll sb ts \<Longrightarrow> \<forall>l\<in>set ls. nonzero_limitation l \<Longrightarrow>
     lowered ts' ts \<and> steady ll sb ts'"
proof (induction ls arbitrary: ts)
  case (Cons l ls)
  obtain r t where ap: "applyLimitation sb l ts = (r, t)" by fastforce
  with Cons.prems have rej: "\<not> (EqualFold (lim_Name l) ''audioBitrate'' \<and> ll \<and> is_adjusted r)"
    and rest: "applyLims sb ll ls t = Some ts'" by (auto split: if_splits)
  from applyLimitation_lowered [OF ap Cons.prems(2) _ rej] Cons.prems(3)
  have t: "lowered t ts" "steady ll sb t" by auto
  with Cons.IH [OF rest] Cons.prems(3) show ?case by (auto intro: lowered_trans)
qed simp

lemma applyCodecLimitations_lowered:
  "applyCodecLimitations sb codec ll cps ts = Some ts' \<Longrightarrow> steady ll sb ts \<Longrightarrow> nonzero_limits cps \<Longrightarrow>
     lowered ts' ts \<and> steady ll sb ts'"
proof (induction cps arbitrary: ts)
  case (Cons cp cps)
  have nz: "nonzero_limits cps" "\<forall>l\<in>set (cp_Limitations cp). nonzero_limitation l"
    using Cons.prems(3) by (simp_all add: nonzero_limits_def)
  show ?case
  proof (cases "EqualFold (cp_Type cp) CodecProfileTypeAudio \<and> matchesCodec codec [cp_Name cp]")
    case True
    with Cons.prems obtain t where t: "applyLims sb ll (cp_Limitations cp) ts = Some t"
      "applyCodecLimitations sb codec ll cps t = Some ts'" by (auto split: option.splits)
    with applyLims_lowered [OF t(1) Cons.prems(2) nz(2)] Cons.IH [OF t(2) _ nz(1)]
    show ?thesis by (auto intro: lowered_trans)
  next
    case False
    with Cons nz show ?thesis by (auto split: if_splits)
  qed
qed simp

text \<open>An upper limit holds right after it was applied, and later limitations only lower.\<close>

definition upper_limit :: "limitation \<Rightarrow> int \<Rightarrow> bool" where
  "upper_limit l limit \<longleftrightarrow> lim_Comparison l = ''LessThanEqual'' \<and> lim_Values l \<noteq> []
     \<and> parseInt (hd (lim_Values l)) = Some limit"

lemma upper_limit_apply:
  assumes "upper_limit l limit"
  shows "applyIntLimitation (lim_Comparison l) (lim_Values l) current
       = (if current \<le> limit then adjustNone else adjustAdjusted limit)" and "0 \<le> limit"
  using assms by (auto simp: upper_limit_def applyIntLimitation_def parseInt_nonneg
      split: list.splits option.splits)

lemma applyLimitation_upper:
  assumes "applyLimitation sb l ts = (r, ts')" and "upper_limit l limit" and "steady ll sb ts"
    and "\<not> (EqualFold (lim_Name l) ''audioBitrate'' \<and> ll \<and> is_adjusted r)"
  shows "ll \<and> lim_Name l = ''audioBitrate'' \<and> ts' = ts \<or> limited_field (lim_Name l) ts' \<le> limit"
proof (cases "lim_Name l = ''audioBitrate''")
  case True
  with assms show ?thesis
    by (auto simp: applyLimitation_def upper_limit_apply(1) set_adjusted_def limited_field_def
        steady_def is_adjusted_def Let_def split: if_splits)
next
  case False
  with assms(1,2) upper_limit_apply(2) [OF assms(2)] show ?thesis
    by (auto simp: applyLimitation_def upper_limit_apply(1) set_adjusted_def limited_field_def Let_def
        split: if_splits)
qed

lemma applyLims_upper:
  "applyLims sb ll ls ts = Some ts' \<Longrightarrow> steady ll sb ts \<Longrightarrow> \<forall>l\<in>set ls. nonzero_limitation l \<Longrightarrow>
     l \<in> set ls \<Longrightarrow> upper_limit l limit \<Longrightarrow> \<not> ll \<or> d_Bitrate ts = 0 \<Longrightarrow>
     limited_field (lim_Name l) ts' \<le> limit"
proof (induction ls arbitrary: ts)
  case (Cons k ls)
  obtain r t where ap: "applyLimitation sb k ts = (r, t)" by fastforce
  with Cons.prems have rej: "\<not> (EqualFold (lim_Name k) ''audioBitrate'' \<and> ll \<and> is_adjusted r)"
    and rest: "applyLims sb ll ls t = Some ts'" by (auto split: if_splits)
  have t: "steady ll sb t"
    using applyLimitation_lowered [OF ap Cons.prems(2) _ rej] Cons.prems(3) by auto
  have zero: "\<not> ll \<or> d_Bitrate t = 0"
    using applyLimitation_bitrate [OF ap] Cons.prems(6) rej by (auto simp: is_adjusted_def)
  have low: "lowered ts' t"
    using applyLims_lowered [OF rest t] Cons.prems(3) by auto
  show ?case
  proof (cases "l = k")
    case True
    from applyLimitation_upper [OF ap _ Cons.prems(2) rej] Cons.prems(5) True
    consider "ll" "lim_Name l = ''audioBitrate''" "t = ts" | "limited_field (lim_Name l) t \<le> limit" by auto
    then show ?thesis
    proof cases
      case 1
      with zero upper_limit_apply(2) [OF Cons.prems(5)] have "limited_field (lim_Name l) t \<le> limit"
        by (simp add: limited_field_def)
      with lowered_field [OF low] show ?thesis by (meson order_trans)
    next
      case 2
      with lowered_field [OF low] show ?thesis by (meson order_trans)
    qed
  next
    case False
    with Cons.IH [OF rest t _ _ Cons.prems(5) zero] Cons.prems(3,4) show ?thesis by auto
  qed
qed simp

definition applies_to :: "string \<Rightarrow> codec_profile \<Rightarrow> bool" where
  "applies_to codec cp \<longleftrightarrow> EqualFold (cp_Type cp) CodecProfileTypeAudio \<and> matchesCodec codec [cp_Name cp]"

lemma applyLims_zero:
  "applyLims sb ll ls ts = Some ts' \<Longrightarrow> \<not> ll \<or> d_Bitrate ts = 0 \<Longrightarrow> \<not> ll \<or> d_Bitrate ts' = 0"
proof (induction ls arbitrary: ts)
  case (Cons l ls)
  obtain r t where ap: "applyLimitation sb l ts = (r, t)" by fastforce
  with Cons.prems have rej: "\<not> (EqualFold (lim_Name l) ''audioBitrate'' \<and> ll \<and> is_adjusted r)"
    and rest: "applyLims sb ll ls t = Some ts'" by (auto split: if_splits)
  have "\<not> ll \<or> d_Bitrate t = 0"
    using applyLimitation_bitrate [OF ap] Cons.prems(2) rej by (auto simp: is_adjusted_def)
  with Cons.IH [OF rest] show ?case by blast
qed simp

lemma applyCodecLimitations_upper:
  "applyCodecLimitations sb codec ll cps ts = Some ts' \<Longrightarrow> steady ll sb ts \<Longrightarrow> nonzero_limits cps \<Longrightarrow>
     cp \<in> set cps \<Longrightarrow> applies_to codec cp \<Longrightarrow> l \<in> set (cp_Limitations cp) \<Longrightarrow> upper_limit l limit \<Longrightarrow>
     \<not> ll \<or> d_Bitrate ts = 0 \<Longrightarrow> limited_field (lim_Name l) ts' \<le> limit"
proof (induction cps arbitrary: ts)
  case (Cons c cps)
  have nz: "nonzero_limits cps" "\<forall>l\<in>set (cp_Limitations c). nonzero_limitation l"
    using Cons.prems(3) by (simp_all add: nonzero_limits_def)
  show ?case
  proof (cases "applies_to codec c")
    case True
    with Cons.prems obtain t where t: "applyLims sb ll (cp_Limitations c) ts = Some t"
      "applyCodecLimitations sb codec ll cps t = Some ts'" by (auto simp: applies_to_def split: option.splits)
    have st: "steady ll sb t" using applyLims_lowered [OF t(1) Cons.prems(2) nz(2)] by simp
    show ?thesis
    proof (cases "cp = c")
      case True
      have "limited_field (lim_Name l) t \<le> limit"
        using applyLims_upper [OF t(1) Cons.prems(2) nz(2)] Cons.prems True by blast
      moreover have "lowered ts' t" using applyCodecLimitations_lowered [OF t(2) st nz(1)] by simp
      ultimately show ?thesis using lowered_field by (meson order_trans)
    next
      case False
      with Cons.IH [OF t(2) st nz(1)] Cons.prems applyLims_zero [OF t(1)] show ?thesis by auto
    qed
  next
    case False
    with Cons nz show ?thesis by (auto simp: applies_to_def split: if_splits)
  qed
qed simp

section \<open>Choosing the bitrate and the profile\<close>

lemma lookupDefaultBitrate_pos: "0 < lookupDefaultBitrate env f"
proof -
  have "0 < (case find (\<lambda>dt. trc_TargetFormat dt = f \<and> trc_DefaultBitRate dt > 0) DefaultTranscodings of
      Some dt \<Rightarrow> trc_DefaultBitRate dt | None \<Rightarrow> fallbackBitrate)"
    by (auto simp: fallbackBitrate_def find_Some_iff split: option.splits)
  then show ?thesis by (auto simp: lookupDefaultBitrate_def Let_def split: sum.splits)
qed

lemma initial_stream_facts:
  "d_Channels (initial_stream src p) \<le> d_Channels src"
  "codecMaxChannels (d_Codec (initial_stream src p)) > 0 \<Longrightarrow>
     d_Channels (initial_stream src p) \<le> codecMaxChannels (d_Codec (initial_stream src p))"
  "codecMaxSampleRate (d_Codec (initial_stream src p)) > 0 \<Longrightarrow>
     d_SampleRate (initial_stream src p) \<le> codecMaxSampleRate (d_Codec (initial_stream src p))"
  "d_Bitrate (initial_stream src p) = 0"
  by (auto simp: initial_stream_def Let_def split: prod.splits)

lemma computeBitrate_facts:
  assumes "computeBitrate env src f ll ci ts = Some ts'" and "\<not> d_IsLossless src \<Longrightarrow> \<not> ll" and "d_Bitrate ts = 0"
  shows "details_le ts' ts" and "ci_MaxAudioBitrate ci > 0 \<Longrightarrow> d_Bitrate ts' \<le> ci_MaxAudioBitrate ci"
    and "steady ll (d_Bitrate src) ts'" and "\<not> ll \<or> d_Bitrate ts' = 0"
  using assms lookupDefaultBitrate_pos [of env f]
  by (auto simp: computeBitrate_def Let_def details_le_def steady_def split: if_splits)

lemma computeTranscodedStream_target:
  assumes "computeTranscodedStream env src p ci = Some (ts, f)"
  shows "f = snd (resolveTargetFormat p) \<and> f \<noteq> [] \<and> LookupTranscodeCommand env f \<noteq> []
     \<and> (isLosslessFormat f \<longrightarrow> d_IsLossless src)"
  using assms
  by (auto simp: computeTranscodedStream_def Let_def split: prod.splits if_splits option.splits)

lemma computeTranscodedStream_facts:
  assumes "computeTranscodedStream env src p ci = Some (ts, f)" and nz: "nonzero_limits (ci_CodecProfiles ci)"
  shows "f = snd (resolveTargetFormat p)" "f \<noteq> []" "LookupTranscodeCommand env f \<noteq> []"
    "isLosslessFormat f \<Longrightarrow> d_IsLossless src"
    "ci_MaxAudioBitrate ci > 0 \<Longrightarrow> d_Bitrate ts \<le> ci_MaxAudioBitrate ci"
    "d_Channels ts \<le> d_Channels src"
    "codecMaxChannels (d_Codec ts) > 0 \<Longrightarrow> d_Channels ts \<le> codecMaxChannels (d_Codec ts)"
    "pf_MaxAudioChannels p > 0 \<Longrightarrow> d_Channels ts \<le> pf_MaxAudioChannels p"
    "codecMaxSampleRate (d_Codec ts) > 0 \<Longrightarrow> d_SampleRate ts \<le> codecMaxSampleRate (d_Codec ts)"
    "\<And>cp l limit. cp \<in> set (ci_CodecProfiles ci) \<Longrightarrow> applies_to (d_Codec ts) cp \<Longrightarrow>
       l \<in> set (cp_Limitations cp) \<Longrightarrow> upper_limit l limit \<Longrightarrow> limited_field (lim_Name l) ts \<le> limit"
proof -
  let ?ll = "isLosslessFormat f"
  note target = computeTranscodedStream_target [OF assms(1)]
  then show f: "f = snd (resolveTargetFormat p)" "f \<noteq> []" "LookupTranscodeCommand env f \<noteq> []" by blast+
  from target have ll: "\<not> d_IsLossless src \<Longrightarrow> \<not> ?ll" by blast
  then show "?ll \<Longrightarrow> d_IsLossless src" by blast
  from assms(1) obtain t0 where t0: "computeBitrate env src f ?ll ci (initial_stream src p) = Some t0"
    and t1: "applyCodecLimitations (d_Bitrate src)
        (d_Codec (if pf_MaxAudioChannels p > 0 \<and> d_Channels t0 > pf_MaxAudioChannels p
          then t0\<lparr>d_Channels := pf_MaxAudioChannels p\<rparr> else t0)) ?ll (ci_CodecProfiles ci)
        (if pf_MaxAudioChannels p > 0 \<and> d_Channels t0 > pf_MaxAudioChannels p
          then t0\<lparr>d_Channels := pf_MaxAudioChannels p\<rparr> else t0) = Some ts"
    by (auto simp: computeTranscodedStream_def Let_def split: prod.splits if_splits option.splits)
  define t where "t = (if pf_MaxAudioChannels p > 0 \<and> d_Channels t0 > pf_MaxAudioChannels p
          then t0\<lparr>d_Channels := pf_MaxAudioChannels p\<rparr> else t0)"
  note cb = computeBitrate_facts [OF t0 ll initial_stream_facts(4), rotated]
  have st: "steady ?ll (d_Bitrate src) t" "\<not> ?ll \<or> d_Bitrate t = 0" "d_Bitrate t = d_Bitrate t0"
    using cb by (auto simp: t_def steady_def)
  have le: "details_le t (initial_stream src p)" using cb(1) by (auto simp: t_def details_le_def)
  note t1 = t1 [folded t_def]
  have low: "lowered ts t" using applyCodecLimitations_lowered [OF t1 st(1) nz] by simp
  then have codec: "d_Codec ts = d_Codec t" "d_Codec t = d_Codec (initial_stream src p)"
    using le by (auto simp: lowered_def details_le_def)
  show "ci_MaxAudioBitrate ci > 0 \<Longrightarrow> d_Bitrate ts \<le> ci_MaxAudioBitrate ci"
    using cb(2) st(3) low by (auto simp: lowered_def)
  have ch: "d_Channels ts \<le> d_Channels t" "d_SampleRate ts \<le> d_SampleRate t"
    "d_Channels t \<le> d_Channels (initial_stream src p)" "d_SampleRate t \<le> d_SampleRate (initial_stream src p)"
    using low le by (auto simp: lowered_def details_le_def)
  show "d_Channels ts \<le> d_Channels src" using ch initial_stream_facts(1) [of src p] by linarith
  show "codecMaxChannels (d_Codec ts) > 0 \<Longrightarrow> d_Channels ts \<le> codecMaxChannels (d_Codec ts)"
    using ch codec initial_stream_facts(2) [of src p] by auto
  show "codecMaxSampleRate (d_Codec ts) > 0 \<Longrightarrow> d_SampleRate ts \<le> codecMaxSampleRate (d_Codec ts)"
    using ch codec initial_stream_facts(3) [of src p] by auto
  have "pf_MaxAudioChannels p > 0 \<Longrightarrow> d_Channels t \<le> pf_MaxAudioChannels p" by (auto simp: t_def)
  with ch(1) show "pf_MaxAudioChannels p > 0 \<Longrightarrow> d_Channels ts \<le> pf_MaxAudioChannels p" by linarith
  show "limited_field (lim_Name l) ts \<le> limit"
    if "cp \<in> set (ci_CodecProfiles ci)" "applies_to (d_Codec ts) cp"
       "l \<in> set (cp_Limitations cp)" "upper_limit l limit" for cp l limit
    using applyCodecLimitations_upper [OF t1 st(1) nz that(1) _ that(3,4) st(2)] that(2) codec(1) by simp
qed

lemma transcode_loop_Some:
  "transcode_loop env src ci ps = Some r \<Longrightarrow> \<exists>p\<in>set ps. computeTranscodedStream env src p ci = Some r"
  by (induction ps) (auto split: option.splits)

lemma transcode_loop_None:
  "transcode_loop env src ci ps = None \<longleftrightarrow> (\<forall>p\<in>set ps. computeTranscodedStream env src p ci = None)"
  by (induction ps) (auto split: option.splits)

lemma direct_play_loop_fst:
  "fst (direct_play_loop src ci rs ps) \<longleftrightarrow> (\<exists>p\<in>set ps. checkDirectPlayProfile src p ci = [])"
  by (induction src ci rs ps rule: direct_play_loop.induct) (auto simp: Let_def)

lemma direct_play_loop_snd:
  "snd (direct_play_loop src ci rs ps)
     = (if fst (direct_play_loop src ci rs ps) then []
        else rs @ map (\<lambda>p. checkDirectPlayProfile src p ci) ps)"
  by (induction src ci rs ps rule: direct_play_loop.induct) (auto simp: Let_def)

text \<open>The source stream a decision was taken for.\<close>

lemma MakeDecision_Inr:
  assumes "MakeDecision env mf ci skip = (mf', ups, Inr d)"
  shows "\<exists>src. d = decide env mf' ci src \<and> td_SourceStream d = src"
proof -
  from assms obtain pr where "d = decide env mf' ci (buildSourceStream env mf' pr)"
    by (auto simp: MakeDecision_def split: prod.splits sum.splits)
  moreover have "td_SourceStream (decide env mf' ci s) = s" for s
    by (auto simp: decide_def Let_def split: prod.splits option.splits)
  ultimately show ?thesis by auto
qed

text \<open>A client that plays only small files directly and transcodes to mp3, for instances.\<close>

definition demo_profile :: profile where
  "demo_profile = \<lparr>pf_Container = ''mp3'', pf_AudioCodec = ''mp3'', pf_Protocol = ''http'',
     pf_MaxAudioChannels = 0\<rparr>"

definition demo_client :: client_info where
  "demo_client = \<lparr>ci_Name = ''demo'', ci_Platform = [], ci_MaxAudioBitrate = 320,
     ci_MaxTranscodingAudioBitrate = 0, ci_DirectPlayProfiles = [],
     ci_TranscodingProfiles = [demo_profile], ci_CodecProfiles = []\<rparr>"

definition demo_stream_env :: stream_env where
  "demo_stream_env = \<lparr>se_FindByFormat = (\<lambda>f. Inl ''data not found''), se_IsProbeAvailable = False,
     se_DevEnableMediaFileProbe = False, se_ProbeAudioStream = (\<lambda>mf. Inl ''no ffprobe''),
     se_Marshal = (\<lambda>r. Inl ''unused''), se_Unmarshal = (\<lambda>s. Inl ''unused''),
     se_DefaultDownsamplingFormat = ''opus''\<rparr>"

section \<open>Properties of the decision\<close>

text \<open>
  C2: a decision is exactly one of direct play, transcoding and failure. The file is played
  directly exactly when the client's bitrate limit admits it and some direct play profile accepts
  it, and then there are no reasons against it; otherwise it is transcoded exactly when some
  transcoding profile can produce a stream, and the decision carries that stream's parameters;
  otherwise it names an error, no target format and one reason per direct play profile.
\<close>

theorem MakeDecision_outcome:
  assumes "MakeDecision env mf ci skip = (mf', ups, Inr d)"
  shows "let src = td_SourceStream d;
             over = ci_MaxAudioBitrate ci > 0 \<and> d_Bitrate src > ci_MaxAudioBitrate ci;
             direct = (\<not> over \<and> (\<exists>p\<in>set (ci_DirectPlayProfiles ci). checkDirectPlayProfile src p ci = []));
             trans = (\<exists>p\<in>set (ci_TranscodingProfiles ci). computeTranscodedStream env src p ci \<noteq> None)
         in td_CanDirectPlay d = direct
          \<and> td_CanTranscode d = (\<not> direct \<and> trans)
          \<and> (td_ErrorReason d = [] \<longleftrightarrow> direct \<or> trans)
          \<and> (td_TargetFormat d = [] \<longleftrightarrow> \<not> td_CanTranscode d)
          \<and> td_TranscodeReasons d =
              (if direct then [] else if over then [''audio bitrate not supported'']
               else map (\<lambda>p. checkDirectPlayProfile src p ci) (ci_DirectPlayProfiles ci))
          \<and> (td_CanTranscode d \<longrightarrow> (\<exists>ts. td_TranscodeStream d = Some ts
                \<and> td_TargetBitrate d = d_Bitrate ts \<and> td_TargetChannels d = d_Channels ts
                \<and> td_TargetSampleRate d = d_SampleRate ts \<and> td_TargetBitDepth d = d_BitDepth ts))"
proof -
  from MakeDecision_Inr [OF assms] obtain src where d: "d = decide env mf' ci src"
    and src: "td_SourceStream d = src" by blast
  let ?over = "ci_MaxAudioBitrate ci > 0 \<and> d_Bitrate src > ci_MaxAudioBitrate ci"
  let ?dp = "direct_play_loop src ci [] (ci_DirectPlayProfiles ci)"
  have fmt: "transcode_loop env src ci (ci_TranscodingProfiles ci) = Some (ts, f) \<Longrightarrow> f \<noteq> []" for ts f
    by (auto dest!: transcode_loop_Some computeTranscodedStream_target)
  obtain dp rs where dr: "?dp = (dp, rs)" by fastforce
  have dp: "dp \<longleftrightarrow> (\<exists>p\<in>set (ci_DirectPlayProfiles ci). checkDirectPlayProfile src p ci = [])"
    and rs: "rs = (if dp then [] else map (\<lambda>p. checkDirectPlayProfile src p ci) (ci_DirectPlayProfiles ci))"
    using direct_play_loop_fst [of src ci "[]" "ci_DirectPlayProfiles ci"]
      direct_play_loop_snd [of src ci "[]" "ci_DirectPlayProfiles ci"] dr by simp_all
  have tr: "(\<exists>p\<in>set (ci_TranscodingProfiles ci). computeTranscodedStream env src p ci \<noteq> None)
      \<longleftrightarrow> transcode_loop env src ci (ci_TranscodingProfiles ci) \<noteq> None"
    by (simp add: transcode_loop_None)
  show ?thesis
    unfolding src Let_def dp [symmetric] tr
    using fmt by (cases "transcode_loop env src ci (ci_TranscodingProfiles ci)")
      (auto simp: d decide_def Let_def dr rs)
qed

theorem MakeDecision_outcome_witness:
  "\<exists>mf' ups d. MakeDecision demo_stream_env (demo_file ''a'') demo_client True = (mf', ups, Inr d)
     \<and> td_CanTranscode d \<and> \<not> td_CanDirectPlay d"
proof -
  obtain mf' ups d where r: "MakeDecision demo_stream_env (demo_file ''a'') demo_client True = (mf', ups, Inr d)"
    by (auto simp: MakeDecision_def)
  then have src: "td_SourceStream d = buildSourceStream demo_stream_env (demo_file ''a'') None"
    by (auto simp: MakeDecision_def decide_def Let_def split: prod.splits option.splits)
  have "computeTranscodedStream demo_stream_env (td_SourceStream d) demo_profile demo_client \<noteq> None"
    unfolding src by code_simp
  moreover have "ci_MaxAudioBitrate demo_client > 0 \<and> d_Bitrate (td_SourceStream d) > ci_MaxAudioBitrate demo_client"
    unfolding src by (simp add: demo_client_def buildSourceStream_def parseProbeData_def Let_def)
  ultimately show ?thesis
    using MakeDecision_outcome [OF r] r by (auto simp: Let_def demo_client_def)
qed



section \<open>Resolving requests\<close>

lemma resolve_True:
  assumes "resolve env ctx mf ci off = (req, True)"
  shows "(req = raw_request off
        \<and> \<not> (ci_MaxAudioBitrate (overridden_client ctx ci) > 0
             \<and> d_Bitrate (buildSourceStream env mf None) > ci_MaxAudioBitrate (overridden_client ctx ci)))
    \<or> (\<exists>p\<in>set (ci_TranscodingProfiles (overridden_client ctx ci)). \<exists>ts f.
         computeTranscodedStream env (buildSourceStream env mf None) p (overridden_client ctx ci) = Some (ts, f)
         \<and> req = \<lparr>rq_Format = f, rq_BitRate = d_Bitrate ts, rq_SampleRate = d_SampleRate ts,
               rq_BitDepth = d_BitDepth ts, rq_Channels = d_Channels ts, rq_Offset = off\<rparr>)"
  using assms
  by (auto simp: resolve_def MakeDecision_def decide_def Let_def dest!: transcode_loop_Some
      split: prod.splits option.splits if_splits)

lemma overridden_cap:
  assumes "rc_Player ctx = Some pl" "0 < pl_MaxBitRate pl" "0 \<le> ci_MaxAudioBitrate ci"
  shows "0 < ci_MaxAudioBitrate (overridden_client ctx ci)"
    and "ci_MaxAudioBitrate (overridden_client ctx ci) \<le> pl_MaxBitRate pl"
  using assms
  by (auto simp: overridden_client_def applyServerOverride_def CapBitrate_def Let_def split: option.splits)

lemma overridden_nonzero_limits:
  "nonzero_limits (ci_CodecProfiles ci) \<Longrightarrow> nonzero_limits (ci_CodecProfiles (overridden_client ctx ci))"
  by (auto simp: overridden_client_def applyServerOverride_def CapBitrate_def Let_def nonzero_limits_def
      split: option.splits)

lemma legacy_facts:
  "ci_CodecProfiles (buildLegacyClientInfo env mf f b pm) = []"
  "0 \<le> ci_MaxAudioBitrate (buildLegacyClientInfo env mf f b pm)"
  "p \<in> set (ci_TranscodingProfiles (buildLegacyClientInfo env mf f b pm)) \<Longrightarrow>
     0 < b \<Longrightarrow> ci_MaxAudioBitrate (buildLegacyClientInfo env mf f b pm) = b"
  by (auto simp: buildLegacyClientInfo_def Let_def split: if_splits)

lemma overridden_no_transcoding:
  assumes "rc_Transcoding ctx = None"
  shows "ci_TranscodingProfiles (overridden_client ctx ci) = ci_TranscodingProfiles ci"
    and "0 < ci_MaxAudioBitrate ci \<Longrightarrow> 0 < ci_MaxAudioBitrate (overridden_client ctx ci)
         \<and> ci_MaxAudioBitrate (overridden_client ctx ci) \<le> ci_MaxAudioBitrate ci"
  using assms by (auto simp: overridden_client_def CapBitrate_def Let_def split: option.splits)

text \<open>What every answer of \<open>ResolveRequest\<close> satisfies, whatever format was tried last.\<close>

definition good_request ::
  "stream_env \<Rightarrow> request_ctx \<Rightarrow> int \<Rightarrow> int \<Rightarrow> stream_request \<Rightarrow> bool" where
  "good_request env ctx b off req \<longleftrightarrow>
     rq_Offset req = off
     \<and> (req = raw_request off \<or> LookupTranscodeCommand env (rq_Format req) \<noteq> [])
     \<and> (\<forall>pl. rc_Player ctx = Some pl \<and> 0 < pl_MaxBitRate pl \<longrightarrow> rq_BitRate req \<le> pl_MaxBitRate pl)
     \<and> (rc_Transcoding ctx = None \<and> 0 < b \<longrightarrow> rq_BitRate req \<le> b)"

lemma good_raw [simp]: "good_request env ctx b off (raw_request off)"
  by (simp add: good_request_def raw_request_def empty_request_def)

lemma good_resolved:
  assumes "resolve env ctx mf (buildLegacyClientInfo env mf f b pm) off = (req, True)"
  shows "good_request env ctx b off req"
proof -
  let ?ci = "buildLegacyClientInfo env mf f b pm"
  let ?ov = "overridden_client ctx ?ci"
  have nz: "nonzero_limits (ci_CodecProfiles ?ov)"
    by (rule overridden_nonzero_limits) (simp add: legacy_facts nonzero_limits_def)
  show ?thesis
    using resolve_True [OF assms]
  proof (elim disjE bexE exE conjE)
    fix p ts g
    assume p: "p \<in> set (ci_TranscodingProfiles ?ov)"
      and c: "computeTranscodedStream env (buildSourceStream env mf None) p ?ov = Some (ts, g)"
      and req: "req = \<lparr>rq_Format = g, rq_BitRate = d_Bitrate ts, rq_SampleRate = d_SampleRate ts,
         rq_BitDepth = d_BitDepth ts, rq_Channels = d_Channels ts, rq_Offset = off\<rparr>"
    note facts = computeTranscodedStream_facts [OF c nz]
    have "d_Bitrate ts \<le> pl_MaxBitRate pl" if "rc_Player ctx = Some pl" "0 < pl_MaxBitRate pl" for pl
      using overridden_cap [OF that legacy_facts(2), of env mf f b pm] facts(5) by linarith
    moreover have "d_Bitrate ts \<le> b" if t: "rc_Transcoding ctx = None" "0 < b"
    proof -
      have "ci_MaxAudioBitrate ?ci = b"
        using legacy_facts(3) [OF _ t(2)] p overridden_no_transcoding(1) [OF t(1)] by metis
      with overridden_no_transcoding(2) [OF t(1), of ?ci] t(2) facts(5) show ?thesis by auto
    qed
    ultimately show ?thesis using facts(3) by (auto simp: good_request_def req)
  qed simp
qed

section \<open>Properties of requests\<close>




text \<open>
  A client forced to a format gets that format or the file as it is: after a successful
  \<open>ForceFormat\<close> every transcoding decision targets the forced format, up to container aliases,
  and every direct play is of a file in a container the client declared for it.
\<close>

theorem ForceFormat_decision:
  assumes "ForceFormat tf ci = (ci', True)" and "MakeDecision env mf ci' skip = (mf', ups, Inr d)"
  shows "(td_CanTranscode d \<longrightarrow> matchesContainer (td_TargetFormat d) [tf])
     \<and> (td_CanDirectPlay d \<longrightarrow> (\<exists>p\<in>set (ci_TranscodingProfiles ci).
          matchesContainer (snd (resolveTargetFormat p)) [tf]
          \<and> matchesContainer (d_Container (td_SourceStream d)) [fst (resolveTargetFormat p)]))"
proof -
  from assms(1) have ci': "ci_TranscodingProfiles ci'
      = filter (\<lambda>p. matchesContainer (snd (resolveTargetFormat p)) [tf]) (ci_TranscodingProfiles ci)"
    "ci_DirectPlayProfiles ci' = map forced_direct_play (ci_TranscodingProfiles ci')"
    by (auto simp: ForceFormat_def Let_def split: if_splits)
  from MakeDecision_Inr [OF assms(2)] obtain src where d: "d = decide env mf' ci' src"
    and src: "td_SourceStream d = src" by blast
  have "matchesContainer (td_TargetFormat d) [tf]" if "td_CanTranscode d"
  proof -
    from that d obtain ts where "transcode_loop env src ci' (ci_TranscodingProfiles ci') = Some (ts, td_TargetFormat d)"
      by (auto simp: decide_def Let_def split: prod.splits option.splits if_splits)
    from transcode_loop_Some [OF this] ci'(1) show ?thesis
      by (auto dest!: computeTranscodedStream_target)
  qed
  moreover have "\<exists>p\<in>set (ci_TranscodingProfiles ci). matchesContainer (snd (resolveTargetFormat p)) [tf]
      \<and> matchesContainer (d_Container src) [fst (resolveTargetFormat p)]" if "td_CanDirectPlay d"
  proof -
    from that d have "fst (direct_play_loop src ci' [] (ci_DirectPlayProfiles ci'))"
      by (auto simp: decide_def Let_def split: prod.splits option.splits if_splits)
    then obtain p where p: "p \<in> set (ci_TranscodingProfiles ci')"
      "checkDirectPlayProfile src (forced_direct_play p) ci' = []"
      by (auto simp: direct_play_loop_fst ci'(2))
    from p(2) have "matchesContainer (d_Container src) [fst (resolveTargetFormat p)]"
      by (auto simp: checkDirectPlayProfile_def forced_direct_play_def split: prod.splits if_splits)
    with ci'(1) p(1) show ?thesis by auto
  qed
  ultimately show ?thesis by (simp add: src)
qed

theorem ForceFormat_decision_witness:
  "\<exists>d. snd (snd (MakeDecision demo_stream_env (demo_file ''a'') (fst (ForceFormat ''MP3'' demo_client)) True)) = Inr d
     \<and> matchesContainer (td_TargetFormat d) [''MP3'']"
proof -
  obtain ci' ok where f: "ForceFormat ''MP3'' demo_client = (ci', ok)" by fastforce
  have "snd (ForceFormat ''MP3'' demo_client)" by code_simp
  with f have t: "ForceFormat ''MP3'' demo_client = (ci', True)" by simp
  obtain mf' ups d where r: "MakeDecision demo_stream_env (demo_file ''a'') ci' True = (mf', ups, Inr d)"
    by (auto simp: MakeDecision_def)
  have "case snd (snd (MakeDecision demo_stream_env (demo_file ''a'') (fst (ForceFormat ''MP3'' demo_client)) True)) of
      Inr d \<Rightarrow> td_CanTranscode d | Inl e \<Rightarrow> False" by code_simp
  with r t have "td_CanTranscode d" by simp
  with ForceFormat_decision [OF t r] r t show ?thesis by simp
qed

text \<open>
  A lossy source keeps its own bitrate, capped by the client's \<open>MaxAudioBitrate\<close> only: the client's
  limit for transcoded streams has no effect on it.
\<close>

lemma lossy_source_ignores_transcoding_limit:
  assumes "\<not> d_IsLossless src"
  shows "computeBitrate env src f ll (ci\<lparr>ci_MaxTranscodingAudioBitrate := x\<rparr>) ts
       = computeBitrate env src f ll ci ts"
  using assms by (simp add: computeBitrate_def Let_def)

end
