(* ===== verification/StreamToken.thy ===== *)
theory StreamToken
  imports Auth StreamDecider
begin

text \<open>
  Transcode tokens (\<open>core/stream/token.go\<close>): the parameters of a decision, signed into a token and
  read back when the client asks for the stream.
\<close>

section \<open>Transcode tokens\<close>

definition tokenTTL :: duration where "tokenTTL = 48 * 3600 * Second"

record transcode_params =
  tp_MediaID :: string
  tp_DirectPlay :: bool
  tp_TargetFormat :: string
  tp_TargetBitrate :: int
  tp_TargetChannels :: int
  tp_TargetSampleRate :: int
  tp_TargetBitDepth :: int
  tp_SourceUpdatedAt :: time

definition toClaimsMap :: "time \<Rightarrow> transcode_decision \<Rightarrow> claim_map" where
  "toClaimsMap now d =
     (let m = [''mid'' \<mapsto> CStr (td_MediaID d),
               ''ua'' \<mapsto> CNum (UnixSec (TruncateSecond (td_SourceUpdatedAt d))),
               ''exp'' \<mapsto> CNum (UnixSec (now + tokenTTL))];
          m1 = put_if (td_CanDirectPlay d) ''dp'' (CBool True) m
      in if td_CanTranscode d \<and> td_TargetFormat d \<noteq> []
         then put_if (td_TargetBitDepth d \<noteq> 0) ''bd'' (CNum (td_TargetBitDepth d))
              (put_if (td_TargetSampleRate d \<noteq> 0) ''sr'' (CNum (td_TargetSampleRate d))
              (put_if (td_TargetChannels d \<noteq> 0) ''ch'' (CNum (td_TargetChannels d))
              (put_if (td_TargetBitrate d \<noteq> 0) ''b'' (CNum (td_TargetBitrate d))
              (m1(''f'' \<mapsto> CStr (td_TargetFormat d))))))
         else m1)"

datatype token_error = ErrTokenInvalid string | ErrTokenStale

definition paramsFromToken :: "claim_map \<Rightarrow> token_error + transcode_params" where
  "paramsFromToken token =
     (let mid = gg_V [] (get_str token ''mid'');
          ua = intClaim token ''ua'';
          sourceUpdatedAt = (if ua \<noteq> 0 then ua * Second else zeroTime)
      in if mid = [] then Inl (ErrTokenInvalid ''missing media ID'')
         else if sourceUpdatedAt = zeroTime then Inl (ErrTokenInvalid ''missing source timestamp'')
         else Inr \<lparr>tp_MediaID = mid,
                   tp_DirectPlay = gg_V False (get_bool token ''dp''),
                   tp_TargetFormat = gg_V [] (get_str token ''f''),
                   tp_TargetBitrate = intClaim token ''b'',
                   tp_TargetChannels = intClaim token ''ch'',
                   tp_TargetSampleRate = intClaim token ''sr'',
                   tp_TargetBitDepth = intClaim token ''bd'',
                   tp_SourceUpdatedAt = sourceUpdatedAt\<rparr>)"

definition CreateTranscodeParams :: "'tok encoder \<Rightarrow> time \<Rightarrow> transcode_decision \<Rightarrow> string + 'tok" where
  "CreateTranscodeParams encode now d = EncodeToken encode (toClaimsMap now d)"

definition parseTranscodeParams :: "'tok verifier \<Rightarrow> time \<Rightarrow> 'tok \<Rightarrow> token_error + transcode_params" where
  "parseTranscodeParams verify now tok =
     (case verify now tok of Inl e \<Rightarrow> Inl (ErrTokenInvalid e) | Inr token \<Rightarrow> paramsFromToken token)"

definition ResolveRequestFromToken ::
  "'tok verifier \<Rightarrow> time \<Rightarrow> 'tok \<Rightarrow> media_file \<Rightarrow> int \<Rightarrow> token_error + stream_request" where
  "ResolveRequestFromToken verify now tok mf offset =
     (case parseTranscodeParams verify now tok of
        Inl e \<Rightarrow> Inl e
      | Inr p \<Rightarrow>
          (if tp_MediaID p \<noteq> mf_ID mf
           then Inl (ErrTokenInvalid (''token mediaID '' @ tp_MediaID p @ '' does not match '' @ mf_ID mf))
           else if TruncateSecond (mf_UpdatedAt mf) \<noteq> tp_SourceUpdatedAt p then Inl ErrTokenStale
           else (let req = empty_request offset
                 in if \<not> tp_DirectPlay p \<and> tp_TargetFormat p \<noteq> []
                    then Inr (req\<lparr>rq_Format := tp_TargetFormat p, rq_BitRate := tp_TargetBitrate p,
                                  rq_SampleRate := tp_TargetSampleRate p, rq_BitDepth := tp_TargetBitDepth p,
                                  rq_Channels := tp_TargetChannels p\<rparr>)
                    else Inr req)))"

section \<open>Reading a decision back\<close>

text \<open>The request a decision stands for: the original file has an empty format here.\<close>

definition decision_request :: "transcode_decision \<Rightarrow> int \<Rightarrow> stream_request" where
  "decision_request d offset =
     (if td_CanTranscode d \<and> \<not> td_CanDirectPlay d
      then \<lparr>rq_Format = td_TargetFormat d, rq_BitRate = td_TargetBitrate d,
            rq_SampleRate = td_TargetSampleRate d, rq_BitDepth = td_TargetBitDepth d,
            rq_Channels = td_TargetChannels d, rq_Offset = offset\<rparr>
      else empty_request offset)"

definition small_decision :: "transcode_decision \<Rightarrow> bool" where
  "small_decision d \<longleftrightarrow> \<bar>td_TargetBitrate d\<bar> \<le> 2 ^ 53 \<and> \<bar>td_TargetChannels d\<bar> \<le> 2 ^ 53
     \<and> \<bar>td_TargetSampleRate d\<bar> \<le> 2 ^ 53 \<and> \<bar>td_TargetBitDepth d\<bar> \<le> 2 ^ 53
     \<and> \<bar>UnixSec (td_SourceUpdatedAt d)\<bar> \<le> 2 ^ 53"

definition token_map :: "time \<Rightarrow> transcode_decision \<Rightarrow> claim_map" where
  "token_map now d = (toClaimsMap now d)(''iss'' \<mapsto> CStr JWTIssuer)"

lemma representable_upd:
  "representable m \<Longrightarrow> (\<And>n. v = CNum n \<Longrightarrow> \<bar>n\<bar> \<le> 2 ^ 53) \<Longrightarrow> representable (m(k \<mapsto> v))"
  by (auto simp: representable_def)

lemma representable_empty: "representable Map.empty"
  by (simp add: representable_def)

lemma representable_token_map:
  assumes "small_decision d" "\<bar>UnixSec (now + tokenTTL)\<bar> \<le> 2 ^ 53"
  shows "representable (token_map now d)"
proof -
  have "representable (toClaimsMap now d)"
    using assms unfolding toClaimsMap_def Let_def small_decision_def
    by (cases "td_CanTranscode d \<and> td_TargetFormat d \<noteq> []")
      (auto intro!: representable_put representable_upd representable_empty)
  then show ?thesis by (auto simp: token_map_def intro: representable_upd)
qed

lemma token_map_keys:
  "token_map now d ''mid'' = Some (CStr (td_MediaID d))"
  "token_map now d ''ua'' = Some (CNum (UnixSec (td_SourceUpdatedAt d)))"
  "token_map now d ''exp'' = Some (CNum (UnixSec (now + tokenTTL)))"
  "token_map now d ''dp'' = (if td_CanDirectPlay d then Some (CBool True) else None)"
  by (auto simp: token_map_def toClaimsMap_def Let_def put_if_get)

lemma token_map_target_keys:
  "token_map now d ''f'' = (if td_CanTranscode d \<and> td_TargetFormat d \<noteq> [] then Some (CStr (td_TargetFormat d)) else None)"
  "token_map now d ''b'' = (if td_CanTranscode d \<and> td_TargetFormat d \<noteq> [] \<and> td_TargetBitrate d \<noteq> 0
      then Some (CNum (td_TargetBitrate d)) else None)"
  "token_map now d ''ch'' = (if td_CanTranscode d \<and> td_TargetFormat d \<noteq> [] \<and> td_TargetChannels d \<noteq> 0
      then Some (CNum (td_TargetChannels d)) else None)"
  "token_map now d ''sr'' = (if td_CanTranscode d \<and> td_TargetFormat d \<noteq> [] \<and> td_TargetSampleRate d \<noteq> 0
      then Some (CNum (td_TargetSampleRate d)) else None)"
  "token_map now d ''bd'' = (if td_CanTranscode d \<and> td_TargetFormat d \<noteq> [] \<and> td_TargetBitDepth d \<noteq> 0
      then Some (CNum (td_TargetBitDepth d)) else None)"
  by (simp_all add: token_map_def toClaimsMap_def Let_def put_if_get)

lemma paramsFromToken_token_map:
  assumes "td_MediaID d \<noteq> []" "UnixSec (td_SourceUpdatedAt d) \<noteq> 0"
    and "TruncateSecond (td_SourceUpdatedAt d) \<noteq> zeroTime"
  shows "\<exists>p. paramsFromToken (token_map now d) = Inr p \<and> tp_MediaID p = td_MediaID d
     \<and> tp_SourceUpdatedAt p = TruncateSecond (td_SourceUpdatedAt d) \<and> tp_DirectPlay p = td_CanDirectPlay d
     \<and> (td_CanTranscode d \<and> td_TargetFormat d \<noteq> [] \<longrightarrow> tp_TargetFormat p = td_TargetFormat d
          \<and> tp_TargetBitrate p = td_TargetBitrate d \<and> tp_TargetChannels p = td_TargetChannels d
          \<and> tp_TargetSampleRate p = td_TargetSampleRate d \<and> tp_TargetBitDepth p = td_TargetBitDepth d)
     \<and> (\<not> (td_CanTranscode d \<and> td_TargetFormat d \<noteq> []) \<longrightarrow> tp_TargetFormat p = [])"
  using assms
  by (auto simp: paramsFromToken_def Let_def token_map_keys token_map_target_keys claim_getters
      TruncateSecond_Unix [symmetric])

context jwt_codec
begin

lemma parse_created:
  assumes "CreateTranscodeParams encode now d = Inr tok" "small_decision d"
    and "\<bar>UnixSec (now + tokenTTL)\<bar> \<le> 2 ^ 53" "UnixSec later < UnixSec (now + tokenTTL)"
  shows "parseTranscodeParams verify later tok = paramsFromToken (token_map now d)"
proof -
  have "verify later tok = Inr (token_map now d)"
    using assms by (intro verify_encode)
      (auto simp: CreateTranscodeParams_def EncodeToken_def token_map_def [symmetric]
        token_map_keys representable_token_map)
  then show ?thesis by (simp add: parseTranscodeParams_def)
qed

end

section \<open>Properties\<close>

text \<open>
  C5: a transcode token gives back the decision it was made from, and only for that file. Until it
  expires, a token created from a decision resolves, for the file the decision was about, to
  exactly the decided request; for any other file it is invalid; and once the file was changed in
  another second it is stale.
\<close>

theorem transcode_token_roundtrip:
  assumes "jwt_codec encode verify" and "CreateTranscodeParams encode now d = Inr tok"
    and "small_decision d" and "\<bar>UnixSec (now + tokenTTL)\<bar> \<le> 2 ^ 53"
    and "UnixSec later < UnixSec (now + tokenTTL)"
    and "td_MediaID d \<noteq> []" and "UnixSec (td_SourceUpdatedAt d) \<noteq> 0"
    and "TruncateSecond (td_SourceUpdatedAt d) \<noteq> zeroTime"
    and "td_CanTranscode d \<longrightarrow> td_TargetFormat d \<noteq> []"
  shows "(mf_ID mf = td_MediaID d \<and> UnixSec (mf_UpdatedAt mf) = UnixSec (td_SourceUpdatedAt d) \<longrightarrow>
            ResolveRequestFromToken verify later tok mf off = Inr (decision_request d off))
       \<and> (mf_ID mf \<noteq> td_MediaID d \<longrightarrow>
            (\<exists>e. ResolveRequestFromToken verify later tok mf off = Inl (ErrTokenInvalid e)))
       \<and> (mf_ID mf = td_MediaID d \<and> UnixSec (mf_UpdatedAt mf) \<noteq> UnixSec (td_SourceUpdatedAt d) \<longrightarrow>
            ResolveRequestFromToken verify later tok mf off = Inl ErrTokenStale)"
proof -
  from paramsFromToken_token_map [OF assms(6-8), of now] obtain p where
    p: "paramsFromToken (token_map now d) = Inr p" "tp_MediaID p = td_MediaID d"
      "tp_SourceUpdatedAt p = TruncateSecond (td_SourceUpdatedAt d)" "tp_DirectPlay p = td_CanDirectPlay d"
    and tr: "td_CanTranscode d \<and> td_TargetFormat d \<noteq> [] \<Longrightarrow> tp_TargetFormat p = td_TargetFormat d
          \<and> tp_TargetBitrate p = td_TargetBitrate d \<and> tp_TargetChannels p = td_TargetChannels d
          \<and> tp_TargetSampleRate p = td_TargetSampleRate d \<and> tp_TargetBitDepth p = td_TargetBitDepth d"
    and nt: "\<not> (td_CanTranscode d \<and> td_TargetFormat d \<noteq> []) \<Longrightarrow> tp_TargetFormat p = []" by blast
  have parsed: "parseTranscodeParams verify later tok = Inr p"
    using jwt_codec.parse_created [OF assms(1-5)] p(1) by simp
  have same: "TruncateSecond t = TruncateSecond t' \<longleftrightarrow> UnixSec t = UnixSec t'" for t t'
    by (auto simp: TruncateSecond_Unix Second_def)
  show ?thesis
  proof (cases "td_CanTranscode d")
    case True
    with assms(9) tr have "tp_TargetFormat p = td_TargetFormat d" "td_TargetFormat d \<noteq> []"
      "tp_TargetBitrate p = td_TargetBitrate d" "tp_TargetChannels p = td_TargetChannels d"
      "tp_TargetSampleRate p = td_TargetSampleRate d" "tp_TargetBitDepth p = td_TargetBitDepth d" by simp_all
    with True show ?thesis
      by (auto simp: ResolveRequestFromToken_def parsed p(2-4) same decision_request_def empty_request_def)
  next
    case False
    with nt show ?thesis
      by (auto simp: ResolveRequestFromToken_def parsed p(2-4) same decision_request_def)
  qed
qed

definition demo_decision :: transcode_decision where
  "demo_decision = decide demo_stream_env (demo_file ''a'') demo_client
     (buildSourceStream demo_stream_env (demo_file ''a'') None)"

theorem transcode_token_roundtrip_witness:
  "ResolveRequestFromToken plain_verify 1 (token_map 0 demo_decision) (demo_file ''a'') 7
     = Inr (decision_request demo_decision 7)"
proof -
  have f: "td_MediaID demo_decision = ''a''" "td_SourceUpdatedAt demo_decision = 5 * Second + 7"
    by (auto simp: demo_decision_def decide_def Let_def split: prod.splits option.splits)
  have "td_TargetFormat demo_decision = ''mp3'' \<and> small_decision demo_decision" by code_simp
  with transcode_token_roundtrip [OF plain_jwt.jwt_codec_axioms, of 0 demo_decision
      "token_map 0 demo_decision" 1 "demo_file ''a''" 7]
  show ?thesis
    by (simp add: f CreateTranscodeParams_def EncodeToken_def plain_encode_def token_map_def
        UnixSec_def TruncateSecond_def tokenTTL_def Second_def zeroTime_def)
qed

end
