(* ===== verification/TranscodeLimiter.thy ===== *)
theory TranscodeLimiter
  imports Prelude
begin

text \<open>
  The limiter of concurrent transcodes (\<open>core/stream/limiter.go\<close>). The buffered channel of
  global slots is its capacity and the number of values in it; a nil channel is the capacity
  \<open>None\<close>. Every access to the per-user map happens under the mutex and every channel operation is
  atomic, so an interleaving of callers is a sequence of those pieces: the step relation at the
  end splits \<open>Acquire\<close> and the release function at exactly these points.
\<close>

record limiter =
  lm_maxPerUser :: int
  lm_globalCap :: "nat option"
  lm_globalUsed :: nat
  lm_perUser :: "string \<rightharpoonup> int"

datatype transcode_limiter = noopLimiter | transcodeLimiter limiter

definition NewTranscodeLimiter :: "int \<Rightarrow> int \<Rightarrow> transcode_limiter" where
  "NewTranscodeLimiter maxConcurrent maxPerUser =
     (if maxConcurrent \<le> 0 \<and> maxPerUser \<le> 0 then noopLimiter
      else transcodeLimiter
             \<lparr>lm_maxPerUser = maxPerUser,
              lm_globalCap = (if maxConcurrent > 0 then Some (nat maxConcurrent) else None),
              lm_globalUsed = 0, lm_perUser = Map.empty\<rparr>)"

fun limiter_Enabled :: "transcode_limiter \<Rightarrow> bool" where
  "limiter_Enabled noopLimiter = False"
| "limiter_Enabled (transcodeLimiter l) = True"

definition perUserActive :: "limiter \<Rightarrow> string \<Rightarrow> bool" where
  "perUserActive l user \<longleftrightarrow> lm_maxPerUser l > 0 \<and> user \<noteq> []"

text \<open>The first critical section of \<open>Acquire\<close>; \<open>None\<close> is \<open>ErrTooManyTranscodes\<close>.\<close>

definition reservePerUser :: "string \<Rightarrow> limiter \<Rightarrow> limiter option" where
  "reservePerUser user l =
     (if perUserActive l user
      then (if map_get 0 (lm_perUser l) user \<ge> lm_maxPerUser l then None
            else Some (l\<lparr>lm_perUser := (lm_perUser l)(user \<mapsto> map_get 0 (lm_perUser l) user + 1)\<rparr>))
      else Some l)"

text \<open>The non-blocking send on the channel.\<close>

definition tryGlobal :: "limiter \<Rightarrow> limiter option" where
  "tryGlobal l =
     (case lm_globalCap l of
        None \<Rightarrow> Some l
      | Some c \<Rightarrow> if lm_globalUsed l < c then Some (l\<lparr>lm_globalUsed := Suc (lm_globalUsed l)\<rparr>) else None)"

definition recvGlobal :: "limiter \<Rightarrow> limiter" where
  "recvGlobal l =
     (case lm_globalCap l of None \<Rightarrow> l | Some c \<Rightarrow> l\<lparr>lm_globalUsed := lm_globalUsed l - 1\<rparr>)"

definition releasePerUser :: "string \<Rightarrow> limiter \<Rightarrow> limiter" where
  "releasePerUser user l =
     (let n = map_get 0 (lm_perUser l) user - 1;
          m = (lm_perUser l)(user \<mapsto> n)
      in l\<lparr>lm_perUser := (if n \<le> 0 then m(user := None) else m)\<rparr>)"

definition releaseIfActive :: "string \<Rightarrow> limiter \<Rightarrow> limiter" where
  "releaseIfActive user l = (if perUserActive l user then releasePerUser user l else l)"

text \<open>\<open>Acquire\<close> on its own: the limiter it leaves and whether it returned a release function.\<close>

definition limiter_Acquire :: "string \<Rightarrow> limiter \<Rightarrow> limiter \<times> bool" where
  "limiter_Acquire user l =
     (case reservePerUser user l of
        None \<Rightarrow> (l, False)
      | Some l1 \<Rightarrow>
          (case tryGlobal l1 of
             Some l2 \<Rightarrow> (l2, True)
           | None \<Rightarrow> (releaseIfActive user l1, False)))"

text \<open>The release function and its \<open>released\<close> flag.\<close>

definition limiter_release :: "string \<Rightarrow> bool \<Rightarrow> limiter \<Rightarrow> limiter \<times> bool" where
  "limiter_release user released l =
     (if released then (l, True) else (releaseIfActive user (recvGlobal l), True))"

section \<open>Interleaved callers\<close>

text \<open>
  Where a call is: it holds a per-user reservation and is about to try the global channel, it was
  refused there and is about to give the reservation back, it returned a release function that was
  not called yet, or its release function has freed the global slot and is about to free the
  per-user one.
\<close>

datatype limiter_call = Reserved string | Refused string | Held string | Releasing string

fun call_user :: "limiter_call \<Rightarrow> string" where
  "call_user (Reserved u) = u"
| "call_user (Refused u) = u"
| "call_user (Held u) = u"
| "call_user (Releasing u) = u"

fun is_held :: "limiter_call \<Rightarrow> bool" where
  "is_held (Held u) = True"
| "is_held c = False"

inductive limiter_step ::
  "limiter \<times> limiter_call multiset \<Rightarrow> limiter \<times> limiter_call multiset \<Rightarrow> bool" where
  ls_reserve: "reservePerUser u l = Some l' \<Longrightarrow> limiter_step (l, cs) (l', add_mset (Reserved u) cs)"
| ls_over: "reservePerUser u l = None \<Longrightarrow> limiter_step (l, cs) (l, cs)"
| ls_enter: "tryGlobal l = Some l' \<Longrightarrow>
    limiter_step (l, add_mset (Reserved u) cs) (l', add_mset (Held u) cs)"
| ls_full: "tryGlobal l = None \<Longrightarrow>
    limiter_step (l, add_mset (Reserved u) cs) (l, add_mset (Refused u) cs)"
| ls_refuse: "limiter_step (l, add_mset (Refused u) cs) (releaseIfActive u l, cs)"
| ls_leave: "limiter_step (l, add_mset (Held u) cs) (recvGlobal l, add_mset (Releasing u) cs)"
| ls_release: "limiter_step (l, add_mset (Releasing u) cs) (releaseIfActive u l, cs)"

inductive_cases limiter_stepE: "limiter_step s t"

definition limiter_init :: "int \<Rightarrow> int \<Rightarrow> limiter \<times> limiter_call multiset \<Rightarrow> bool" where
  "limiter_init maxConcurrent maxPerUser s \<longleftrightarrow>
     (\<exists>l. s = (l, {#}) \<and> NewTranscodeLimiter maxConcurrent maxPerUser = transcodeLimiter l)"

definition user_calls :: "string \<Rightarrow> limiter_call multiset \<Rightarrow> nat" where
  "user_calls u cs = size (filter_mset (\<lambda>c. call_user c = u) cs)"

definition held_calls :: "limiter_call multiset \<Rightarrow> nat" where
  "held_calls cs = size (filter_mset is_held cs)"

lemma calls_simps [simp]:
  "user_calls u {#} = 0" "held_calls {#} = 0"
  "user_calls u (add_mset c cs) = (if call_user c = u then 1 else 0) + user_calls u cs"
  "held_calls (add_mset c cs) = (if is_held c then 1 else 0) + held_calls cs"
  by (simp_all add: user_calls_def held_calls_def)

text \<open>
  The counters are exact: the channel holds one value per call that holds a slot, the map counts
  the calls of each user and has no entry for a user without calls, and neither passes its cap.
\<close>

definition count_of :: "nat \<Rightarrow> int option" where
  "count_of n = (if n = 0 then None else Some (int n))"

definition user_ok :: "limiter \<Rightarrow> limiter_call multiset \<Rightarrow> string \<Rightarrow> bool" where
  "user_ok l cs u \<longleftrightarrow>
     (if perUserActive l u
      then lm_perUser l u = count_of (user_calls u cs) \<and> int (user_calls u cs) \<le> lm_maxPerUser l
      else lm_perUser l u = None)"

definition global_ok :: "limiter \<Rightarrow> limiter_call multiset \<Rightarrow> bool" where
  "global_ok l cs \<longleftrightarrow>
     (case lm_globalCap l of
        Some c \<Rightarrow> lm_globalUsed l = held_calls cs \<and> held_calls cs \<le> c
      | None \<Rightarrow> lm_globalUsed l = 0)"

definition limiter_inv :: "int \<Rightarrow> int \<Rightarrow> limiter \<times> limiter_call multiset \<Rightarrow> bool" where
  "limiter_inv maxConcurrent maxPerUser s \<longleftrightarrow>
     (case s of (l, cs) \<Rightarrow>
        lm_maxPerUser l = maxPerUser
        \<and> lm_globalCap l = (if maxConcurrent > 0 then Some (nat maxConcurrent) else None)
        \<and> global_ok l cs \<and> (\<forall>u. user_ok l cs u))"

lemma map_get_count [simp]: "m u = count_of n \<Longrightarrow> map_get 0 m u = int n"
  by (simp add: map_get_def count_of_def split: if_splits)

lemma perUserActive_upd [simp]:
  "perUserActive (l\<lparr>lm_globalUsed := g\<rparr>) u = perUserActive l u"
  "perUserActive (l\<lparr>lm_perUser := p\<rparr>) u = perUserActive l u"
  by (simp_all add: perUserActive_def)

lemma user_ok_upd [simp]: "user_ok (l\<lparr>lm_globalUsed := g\<rparr>) cs u = user_ok l cs u"
  by (simp add: user_ok_def)

lemma user_ok_reserve:
  assumes "user_ok l cs v" "reservePerUser u l = Some l'" "call_user c = u"
  shows "user_ok l' (add_mset c cs) v"
  using assms
  by (cases "v = u"; cases "perUserActive l u")
    (auto simp: user_ok_def reservePerUser_def count_of_def split: if_splits)

lemma user_ok_release:
  assumes "user_ok l (add_mset c cs) v" "call_user c = u"
  shows "user_ok (releaseIfActive u l) cs v"
  using assms
  by (cases "v = u"; cases "perUserActive l u")
    (auto simp: user_ok_def releaseIfActive_def releasePerUser_def Let_def count_of_def map_get_def)

lemma user_ok_recall:
  "user_ok l (add_mset c cs) v \<Longrightarrow> call_user c = call_user c' \<Longrightarrow> user_ok l (add_mset c' cs) v"
  by (cases "perUserActive l v") (auto simp: user_ok_def)

lemma reserve_frame:
  "reservePerUser u l = Some l' \<Longrightarrow> lm_globalUsed l' = lm_globalUsed l \<and> lm_globalCap l' = lm_globalCap l
     \<and> lm_maxPerUser l' = lm_maxPerUser l"
  by (auto simp: reservePerUser_def split: if_splits)

lemma release_frame:
  "lm_globalUsed (releaseIfActive u l) = lm_globalUsed l" "lm_globalCap (releaseIfActive u l) = lm_globalCap l"
  "lm_maxPerUser (releaseIfActive u l) = lm_maxPerUser l"
  by (simp_all add: releaseIfActive_def releasePerUser_def Let_def)

lemma inv_reserve:
  assumes "limiter_inv mc mu (l, cs)" "reservePerUser u l = Some l'" "call_user c = u" "\<not> is_held c"
  shows "limiter_inv mc mu (l', add_mset c cs)"
  using assms reserve_frame [OF assms(2)] user_ok_reserve [OF _ assms(2,3)]
  by (auto simp: limiter_inv_def global_ok_def)

lemma inv_releaseIfActive:
  assumes "limiter_inv mc mu (l, add_mset c cs)" "call_user c = u" "\<not> is_held c"
  shows "limiter_inv mc mu (releaseIfActive u l, cs)"
  using assms user_ok_release [OF _ assms(2)]
  by (auto simp: limiter_inv_def global_ok_def release_frame)

lemma inv_recall:
  assumes "limiter_inv mc mu (l, add_mset c cs)" "call_user c = call_user c'" "is_held c = is_held c'"
  shows "limiter_inv mc mu (l, add_mset c' cs)"
  using assms user_ok_recall [OF _ assms(2)] by (auto simp: limiter_inv_def global_ok_def)

lemma inv_enter:
  assumes "limiter_inv mc mu (l, add_mset (Reserved u) cs)" "tryGlobal l = Some l'"
  shows "limiter_inv mc mu (l', add_mset (Held u) cs)"
  using assms user_ok_recall [of l "Reserved u" cs _ "Held u"]
  by (auto simp: limiter_inv_def global_ok_def tryGlobal_def split: if_splits option.splits)

lemma inv_leave:
  assumes "limiter_inv mc mu (l, add_mset (Held u) cs)"
  shows "limiter_inv mc mu (recvGlobal l, add_mset (Releasing u) cs)"
  using assms user_ok_recall [of l "Held u" cs _ "Releasing u"]
  by (auto simp: limiter_inv_def global_ok_def recvGlobal_def split: if_splits option.splits)

interpretation lim: step_invariant "limiter_init mc mu" limiter_step "limiter_inv mc mu" for mc mu
proof unfold_locales
  show "\<And>s. limiter_init mc mu s \<Longrightarrow> limiter_inv mc mu s"
    by (auto simp: limiter_init_def NewTranscodeLimiter_def limiter_inv_def global_ok_def user_ok_def
        count_of_def perUserActive_def split: if_splits)
  show "\<And>s t. limiter_inv mc mu s \<Longrightarrow> limiter_step s t \<Longrightarrow> limiter_inv mc mu t"
    by (erule limiter_stepE)
      (auto intro: inv_reserve inv_enter inv_leave inv_releaseIfActive elim: inv_recall)
qed

section \<open>Properties\<close>

text \<open>
  C10: however callers interleave, the limiter enforces its caps and leaks nothing. With a positive
  global cap at most that many transcodes run at once, with a positive per-user cap no named user
  has more than that many calls in progress, and when no call is in progress the limiter is back in
  its initial state, with no entry left in the per-user map.
\<close>

theorem limiter_caps_hold:
  assumes "reachable (limiter_init maxConcurrent maxPerUser) limiter_step (l, cs)"
  shows "(maxConcurrent > 0 \<longrightarrow> int (held_calls cs) \<le> maxConcurrent)
     \<and> (maxPerUser > 0 \<longrightarrow> (\<forall>u. u \<noteq> [] \<longrightarrow> int (user_calls u cs) \<le> maxPerUser))
     \<and> (cs = {#} \<longrightarrow> lm_globalUsed l = 0 \<and> lm_perUser l = Map.empty)"
proof -
  have inv: "limiter_inv maxConcurrent maxPerUser (l, cs)" using assms by (rule lim.reachable_inv)
  then have "lm_perUser l u = None" if "cs = {#}" for u
    using that by (cases "perUserActive l u") (auto simp: limiter_inv_def user_ok_def count_of_def)
  moreover have "int (user_calls u cs) \<le> maxPerUser" if "maxPerUser > 0" "u \<noteq> []" for u
    using inv that by (auto simp: limiter_inv_def user_ok_def perUserActive_def split: if_splits)
  ultimately show ?thesis using inv by (auto simp: limiter_inv_def global_ok_def split: if_splits)
qed

theorem limiter_caps_hold_witness:
  "int (held_calls {#Held ''bob''#}) \<le> 1"
proof -
  let ?l = "\<lparr>lm_maxPerUser = 0, lm_globalCap = Some 1, lm_globalUsed = 0, lm_perUser = Map.empty\<rparr>"
  have "limiter_init 1 0 (?l, {#})" by (simp add: limiter_init_def NewTranscodeLimiter_def)
  then have r0: "reachable (limiter_init 1 0) limiter_step (?l, {#})" by (rule reach_init)
  have "limiter_step (?l, {#}) (?l, {#Reserved ''bob''#})"
    by (rule ls_reserve) (simp add: reservePerUser_def perUserActive_def)
  with r0 have r1: "reachable (limiter_init 1 0) limiter_step (?l, {#Reserved ''bob''#})" by (rule reach_step)
  have "limiter_step (?l, {#Reserved ''bob''#}) (?l\<lparr>lm_globalUsed := 1\<rparr>, {#Held ''bob''#})"
    by (rule ls_enter) (simp add: tryGlobal_def)
  with r1 have "reachable (limiter_init 1 0) limiter_step (?l\<lparr>lm_globalUsed := 1\<rparr>, {#Held ''bob''#})"
    by (rule reach_step)
  from limiter_caps_hold [OF this] show ?thesis by simp
qed

text \<open>
  A call of \<open>Acquire\<close> on its own succeeds exactly when neither the user's nor the global cap is
  reached; a refused call leaves the limiter as it was; and after a successful one, calling the
  release function, once or more than once, restores the limiter exactly.
\<close>

theorem limiter_acquire_release:
  assumes "limiter_inv maxConcurrent maxPerUser (l, cs)"
  shows "(snd (limiter_Acquire u l) \<longleftrightarrow>
            (maxPerUser > 0 \<and> u \<noteq> [] \<longrightarrow> int (user_calls u cs) < maxPerUser)
            \<and> (maxConcurrent > 0 \<longrightarrow> int (held_calls cs) < maxConcurrent))
     \<and> (\<not> snd (limiter_Acquire u l) \<longrightarrow> fst (limiter_Acquire u l) = l)
     \<and> (snd (limiter_Acquire u l) \<longrightarrow>
          fst (limiter_release u False (fst (limiter_Acquire u l))) = l
          \<and> fst (limiter_release u True (fst (limiter_release u False (fst (limiter_Acquire u l))))) = l)"
proof -
  have undo: "releaseIfActive u l1 = l" if "reservePerUser u l = Some l1" for l1
  proof (cases "perUserActive l u")
    case True
    with assms have "lm_perUser l u = count_of (user_calls u cs)" by (auto simp: limiter_inv_def user_ok_def)
    with True that show ?thesis
      by (cases l) (auto simp: reservePerUser_def releaseIfActive_def releasePerUser_def Let_def count_of_def
          perUserActive_def map_get_def fun_upd_idem_iff split: if_splits)
  next
    case False
    with that show ?thesis by (simp add: reservePerUser_def releaseIfActive_def)
  qed
  have glob: "recvGlobal l2 = l1" if "tryGlobal l1 = Some l2" for l1 l2
    using that by (cases l1) (auto simp: tryGlobal_def recvGlobal_def split: option.splits if_splits)
  have ok: "snd (limiter_Acquire u l) \<longleftrightarrow>
      (maxPerUser > 0 \<and> u \<noteq> [] \<longrightarrow> int (user_calls u cs) < maxPerUser)
      \<and> (maxConcurrent > 0 \<longrightarrow> int (held_calls cs) < maxConcurrent)"
  proof -
    have "user_ok l cs u" "global_ok l cs" "lm_maxPerUser l = maxPerUser"
      "lm_globalCap l = (if maxConcurrent > 0 then Some (nat maxConcurrent) else None)"
      using assms by (auto simp: limiter_inv_def)
    then show ?thesis
      by (cases "perUserActive l u"; cases "maxConcurrent > 0")
        (auto simp: limiter_Acquire_def reservePerUser_def tryGlobal_def user_ok_def global_ok_def
          perUserActive_def)
  qed
  show ?thesis
    using undo glob ok
    by (auto simp: limiter_Acquire_def limiter_release_def split: option.splits)
qed

theorem limiter_acquire_release_witness:
  "fst (limiter_release ''bob'' False (fst (limiter_Acquire ''bob''
      \<lparr>lm_maxPerUser = 1, lm_globalCap = None, lm_globalUsed = 0, lm_perUser = Map.empty\<rparr>)))
     = \<lparr>lm_maxPerUser = 1, lm_globalCap = None, lm_globalUsed = 0, lm_perUser = Map.empty\<rparr>"
  using limiter_acquire_release [of 0 1 "\<lparr>lm_maxPerUser = 1, lm_globalCap = None, lm_globalUsed = 0,
      lm_perUser = Map.empty\<rparr>" "{#}" "''bob''"]
  by (auto simp: limiter_inv_def global_ok_def user_ok_def count_of_def)

end
