(* ===== verification/SimpleCache.thy ===== *)
theory SimpleCache
  imports Media "HOL-Library.AList"
begin

text \<open>
  The expiring cache of \<open>utils/cache/simple_cache.go\<close>. It wraps the package \<open>ttlcache\<close>, whose
  operations are the record \<open>ttl_ops\<close>, an argument of every definition here; \<open>ttl_laws\<close> states the
  documented behaviour that the proofs use. Time is an argument of each operation. Expiry callbacks
  run on goroutines of their own: an item evicted as expired waits in \<open>sc_expired\<close> until its
  callback runs. \<open>GetWithLoader\<close> is a step relation over any number of concurrent callers, with one
  step per access to shared state.
\<close>

section \<open>The underlying store\<close>

text \<open>
  \<open>tt_Get\<close> is nil for absent and expired items; \<open>tt_Set\<close> also says whether it returned an item;
  \<open>tt_DeleteExpired\<close> lists what it evicted; \<open>tt_Range\<close> lists the items, each with its key, its value
  and whether it is expired.
\<close>

record ('c, 'k, 'v) ttl_ops =
  tt_Get :: "time \<Rightarrow> 'c \<Rightarrow> 'k \<Rightarrow> 'v option"
  tt_Set :: "time \<Rightarrow> 'k \<Rightarrow> 'v \<Rightarrow> duration \<Rightarrow> 'c \<Rightarrow> 'c \<times> bool"
  tt_Delete :: "'k \<Rightarrow> 'c \<Rightarrow> 'c"
  tt_DeleteExpired :: "time \<Rightarrow> 'c \<Rightarrow> 'c \<times> ('k \<times> 'v) list"
  tt_Range :: "time \<Rightarrow> 'c \<Rightarrow> ('k \<times> 'v \<times> bool) list"
  tt_Len :: "time \<Rightarrow> 'c \<Rightarrow> int"

text \<open>
  A read finds exactly the unexpired item of its key; \<open>Set\<close> and \<open>Delete\<close> replace and remove the item
  of their key and touch no other; an item set to live for a while is found until then; and
  \<open>DeleteExpired\<close> drops expired items only, and reports only items that it dropped.
\<close>

definition ttl_laws :: "('c, 'k, 'v) ttl_ops \<Rightarrow> bool" where
  "ttl_laws T \<longleftrightarrow>
     (\<forall>now c k v. tt_Get T now c k = Some v \<longleftrightarrow> (k, v, False) \<in> set (tt_Range T now c))
     \<and> (\<forall>now c. distinct (map fst (tt_Range T now c)))
     \<and> (\<forall>now c t k v d x. x \<in> set (tt_Range T now (fst (tt_Set T t k v d c))) \<longrightarrow>
          (fst x = k \<and> fst (snd x) = v) \<or> (fst x \<noteq> k \<and> x \<in> set (tt_Range T now c)))
     \<and> (\<forall>now c t k v d. t \<le> now \<longrightarrow> now < t + d \<longrightarrow>
          tt_Get T now (fst (tt_Set T t k v d c)) k = Some v)
     \<and> (\<forall>now c k. set (tt_Range T now (tt_Delete T k c)) = {x \<in> set (tt_Range T now c). fst x \<noteq> k})
     \<and> (\<forall>now c t. set (tt_Range T now (fst (tt_DeleteExpired T t c))) \<subseteq> set (tt_Range T now c))
     \<and> (\<forall>c t k v. (k, v) \<in> set (snd (tt_DeleteExpired T t c)) \<longrightarrow> (k, v, True) \<in> set (tt_Range T t c))"

section \<open>The cache\<close>

definition evictionTimeout :: duration where "evictionTimeout = 3600 * Second"

record ('c, 'k, 'v) simple_cache =
  sc_data :: 'c
  sc_evictionDeadline :: "time option"
  sc_expired :: "('k \<times> 'v) list"

definition NewSimpleCache :: "'c \<Rightarrow> ('c, 'k, 'v) simple_cache" where
  "NewSimpleCache store = \<lparr>sc_data = store, sc_evictionDeadline = None, sc_expired = []\<rparr>"

definition cache_deleteExpired ::
  "('c, 'k, 'v) ttl_ops \<Rightarrow> time \<Rightarrow> ('c, 'k, 'v) simple_cache \<Rightarrow> ('c, 'k, 'v) simple_cache" where
  "cache_deleteExpired T now s =
     (case tt_DeleteExpired T now (sc_data s) of
        (c, evicted) \<Rightarrow> s\<lparr>sc_data := c, sc_expired := sc_expired s @ evicted\<rparr>)"

definition evictExpired ::
  "('c, 'k, 'v) ttl_ops \<Rightarrow> time \<Rightarrow> ('c, 'k, 'v) simple_cache \<Rightarrow> ('c, 'k, 'v) simple_cache" where
  "evictExpired T now s =
     (if (case sc_evictionDeadline s of None \<Rightarrow> True | Some d \<Rightarrow> d < now)
      then (cache_deleteExpired T now s)\<lparr>sc_evictionDeadline := Some (now + evictionTimeout)\<rparr>
      else s)"

definition cache_AddWithTTL ::
  "('c, 'k, 'v) ttl_ops \<Rightarrow> time \<Rightarrow> 'k \<Rightarrow> 'v \<Rightarrow> duration \<Rightarrow> ('c, 'k, 'v) simple_cache
   \<Rightarrow> ('c, 'k, 'v) simple_cache \<times> string option" where
  "cache_AddWithTTL T now k v ttl s =
     (let s1 = evictExpired T now s
      in case tt_Set T now k v ttl (sc_data s1) of
           (c, ok) \<Rightarrow> (s1\<lparr>sc_data := c\<rparr>, if ok then None else Some ''failed to add item''))"

text \<open>The constant \<open>ttlcache.DefaultTTL\<close> is 0.\<close>

definition cache_Add ::
  "('c, 'k, 'v) ttl_ops \<Rightarrow> time \<Rightarrow> 'k \<Rightarrow> 'v \<Rightarrow> ('c, 'k, 'v) simple_cache
   \<Rightarrow> ('c, 'k, 'v) simple_cache \<times> string option" where
  "cache_Add T now k v s = cache_AddWithTTL T now k v 0 (evictExpired T now s)"

definition cache_Remove ::
  "('c, 'k, 'v) ttl_ops \<Rightarrow> 'k \<Rightarrow> ('c, 'k, 'v) simple_cache \<Rightarrow> ('c, 'k, 'v) simple_cache" where
  "cache_Remove T k s = s\<lparr>sc_data := tt_Delete T k (sc_data s)\<rparr>"

definition cache_Get ::
  "('c, 'k, 'v) ttl_ops \<Rightarrow> time \<Rightarrow> ('c, 'k, 'v) simple_cache \<Rightarrow> 'k \<Rightarrow> string + 'v" where
  "cache_Get T now s k =
     (case tt_Get T now (sc_data s) k of None \<Rightarrow> Inl ''item not found'' | Some v \<Rightarrow> Inr v)"

definition cache_Keys :: "('c, 'k, 'v) ttl_ops \<Rightarrow> time \<Rightarrow> ('c, 'k, 'v) simple_cache \<Rightarrow> 'k list" where
  "cache_Keys T now s = [k. (k, v, expired) \<leftarrow> tt_Range T now (sc_data s), \<not> expired]"

definition cache_Values :: "('c, 'k, 'v) ttl_ops \<Rightarrow> time \<Rightarrow> ('c, 'k, 'v) simple_cache \<Rightarrow> 'v list" where
  "cache_Values T now s = [v. (k, v, expired) \<leftarrow> tt_Range T now (sc_data s), \<not> expired]"

definition cache_Len :: "('c, 'k, 'v) ttl_ops \<Rightarrow> time \<Rightarrow> ('c, 'k, 'v) simple_cache \<Rightarrow> int" where
  "cache_Len T now s = tt_Len T now (sc_data s)"

text \<open>
  The callback of \<open>OnExpiration\<close> is given one of the items that were evicted as expired; they run in
  any order.
\<close>

definition cache_OnExpiration ::
  "'k \<times> 'v \<Rightarrow> ('c, 'k, 'v) simple_cache \<Rightarrow> ('c, 'k, 'v) simple_cache option" where
  "cache_OnExpiration x s =
     (if x \<in> set (sc_expired s) then Some (s\<lparr>sc_expired := remove1 x (sc_expired s)\<rparr>) else None)"

section \<open>The cache under its laws\<close>

lemma ttl_lawsD:
  assumes "ttl_laws T"
  shows "tt_Get T now c k = Some v \<longleftrightarrow> (k, v, False) \<in> set (tt_Range T now c)"
    "distinct (map fst (tt_Range T now c))"
    "x \<in> set (tt_Range T now (fst (tt_Set T t k v d c))) \<Longrightarrow>
     (fst x = k \<and> fst (snd x) = v) \<or> (fst x \<noteq> k \<and> x \<in> set (tt_Range T now c))"
    "t \<le> now \<Longrightarrow> now < t + d \<Longrightarrow> tt_Get T now (fst (tt_Set T t k v d c)) k = Some v"
    "set (tt_Range T now (tt_Delete T k c)) = {x \<in> set (tt_Range T now c). fst x \<noteq> k}"
    "set (tt_Range T now (fst (tt_DeleteExpired T t c))) \<subseteq> set (tt_Range T now c)"
    "(k, v) \<in> set (snd (tt_DeleteExpired T t c)) \<Longrightarrow> (k, v, True) \<in> set (tt_Range T t c)"
proof -
  note l = iffD1 [OF ttl_laws_def assms]
  note l2 = conjunct2 [OF l] note l3 = conjunct2 [OF l2] note l4 = conjunct2 [OF l3]
  note l5 = conjunct2 [OF l4] note l6 = conjunct2 [OF l5]
  show "tt_Get T now c k = Some v \<longleftrightarrow> (k, v, False) \<in> set (tt_Range T now c)"
    using conjunct1 [OF l] by blast
  show "distinct (map fst (tt_Range T now c))"
    using conjunct1 [OF l2] by blast
  show "(fst x = k \<and> fst (snd x) = v) \<or> (fst x \<noteq> k \<and> x \<in> set (tt_Range T now c))" if "x \<in> set (tt_Range T now (fst (tt_Set T t k v d c)))"
    using that conjunct1 [OF l3] by blast
  show "tt_Get T now (fst (tt_Set T t k v d c)) k = Some v" if "t \<le> now" "now < t + d"
    using that conjunct1 [OF l4] by blast
  show "set (tt_Range T now (tt_Delete T k c)) = {x \<in> set (tt_Range T now c). fst x \<noteq> k}"
    using conjunct1 [OF l5] by blast
  show "set (tt_Range T now (fst (tt_DeleteExpired T t c))) \<subseteq> set (tt_Range T now c)"
    using conjunct1 [OF l6] by blast
  show "(k, v, True) \<in> set (tt_Range T t c)" if "(k, v) \<in> set (snd (tt_DeleteExpired T t c))"
    using that conjunct2 [OF l6] by blast
qed

text \<open>Everything that the cache holds or still has to report.\<close>

definition cache_holds ::
  "('c, 'k, 'v) ttl_ops \<Rightarrow> ('c, 'k, 'v) simple_cache \<Rightarrow> 'k \<Rightarrow> 'v \<Rightarrow> bool" where
  "cache_holds T s k v \<longleftrightarrow>
     (\<exists>now x. (k, v, x) \<in> set (tt_Range T now (sc_data s))) \<or> (k, v) \<in> set (sc_expired s)"

lemma cache_Get_holds: "ttl_laws T \<Longrightarrow> cache_Get T now s k = Inr v \<Longrightarrow> cache_holds T s k v"
  by (auto simp: cache_Get_def cache_holds_def ttl_lawsD(1) split: option.splits)

lemma deleteExpired_holds:
  assumes "ttl_laws T" "cache_holds T (cache_deleteExpired T now s) k v"
  shows "cache_holds T s k v"
proof -
  obtain c ev where e: "tt_DeleteExpired T now (sc_data s) = (c, ev)" by fastforce
  have "set (tt_Range T t c) \<subseteq> set (tt_Range T t (sc_data s))" for t
    using ttl_lawsD(6) [OF assms(1), of t now "sc_data s"] e by simp
  moreover have "(k, v, True) \<in> set (tt_Range T now (sc_data s))" if "(k, v) \<in> set ev"
    using ttl_lawsD(7) [OF assms(1), of k v now "sc_data s"] e that by simp
  ultimately show ?thesis
    using assms(2) e by (auto simp: cache_holds_def cache_deleteExpired_def)
qed

lemma evictExpired_holds:
  "ttl_laws T \<Longrightarrow> cache_holds T (evictExpired T now s) k v \<Longrightarrow> cache_holds T s k v"
  using deleteExpired_holds [of T now s k v]
  by (auto simp: evictExpired_def cache_holds_def split: if_splits option.splits)

lemma AddWithTTL_holds:
  assumes "ttl_laws T" "cache_holds T (fst (cache_AddWithTTL T now k v ttl s)) k' v'"
  shows "(k' = k \<and> v' = v) \<or> cache_holds T s k' v'"
proof -
  let ?s = "evictExpired T now s"
  obtain c ok where e: "tt_Set T now k v ttl (sc_data ?s) = (c, ok)" by fastforce
  have set_law: "(fst x = k \<and> fst (snd x) = v) \<or> (fst x \<noteq> k \<and> x \<in> set (tt_Range T t (sc_data ?s)))"
    if "x \<in> set (tt_Range T t c)" for x t
    using ttl_lawsD(3) [OF assms(1), of x t now k v ttl "sc_data ?s"] e that by simp
  have "(k' = k \<and> v' = v) \<or> cache_holds T ?s k' v'"
    using assms(2) e set_law [of "(k', v', _)"]
    by (auto simp: cache_AddWithTTL_def cache_holds_def Let_def)
  then show ?thesis using evictExpired_holds [OF assms(1)] by blast
qed

lemma Remove_holds: "ttl_laws T \<Longrightarrow> cache_holds T (cache_Remove T k s) k' v \<Longrightarrow> cache_holds T s k' v"
  by (auto simp: cache_holds_def cache_Remove_def ttl_lawsD(5))

lemma OnExpiration_holds:
  "cache_OnExpiration (k, v) s = Some s' \<Longrightarrow>
     cache_holds T s k v \<and> (\<forall>k' v'. cache_holds T s' k' v' \<longrightarrow> cache_holds T s k' v')"
  by (auto simp: cache_OnExpiration_def cache_holds_def split: if_splits dest: notin_set_remove1) blast

lemma Get_AddWithTTL:
  assumes "ttl_laws T" "0 < ttl"
  shows "cache_Get T now (fst (cache_AddWithTTL T now k v ttl s)) k = Inr v"
proof -
  obtain c ok where e: "tt_Set T now k v ttl (sc_data (evictExpired T now s)) = (c, ok)" by fastforce
  have "tt_Get T now c k = Some v"
    using ttl_lawsD(4) [OF assms(1), of now now ttl k v] assms(2) e by (metis fst_conv less_add_same_cancel1 order_refl)
  with e show ?thesis by (simp add: cache_AddWithTTL_def cache_Get_def Let_def)
qed

lemma Get_Remove: "ttl_laws T \<Longrightarrow> cache_Get T now (cache_Remove T k s) k = Inl ''item not found''"
  by (cases "tt_Get T now (tt_Delete T k (sc_data s)) k")
    (simp_all add: cache_Get_def cache_Remove_def ttl_lawsD(1,5))

text \<open>The values of a cache are what its keys read.\<close>

lemma Get_Inr: "ttl_laws T \<Longrightarrow> cache_Get T now s k = Inr v \<longleftrightarrow> (k, v, False) \<in> set (tt_Range T now (sc_data s))"
  using ttl_lawsD(1) [of T now "sc_data s" k v] by (cases "tt_Get T now (sc_data s) k") (auto simp: cache_Get_def)

lemma set_unexpired: "v \<in> set [v. (k, v, expired) \<leftarrow> xs, \<not> expired] \<longleftrightarrow> (\<exists>k. (k, v, False) \<in> set xs)"
  by (induction xs) auto

lemma Values_Get:
  "ttl_laws T \<Longrightarrow> v \<in> set (cache_Values T now s) \<longleftrightarrow> (\<exists>k. cache_Get T now s k = Inr v)"
  by (simp only: cache_Values_def set_unexpired Get_Inr)

text \<open>
  A store that keeps the laws, for concrete instances: an association list with the deadline of each
  item.
\<close>

definition assoc_ttl :: "(('k \<times> 'v \<times> time) list, 'k, 'v) ttl_ops" where
  "assoc_ttl =
     \<lparr>tt_Get = (\<lambda>now c k. case map_of c k of Some (v, d) \<Rightarrow> if now < d then Some v else None | None \<Rightarrow> None),
      tt_Set = (\<lambda>now k v ttl c. ((k, v, now + ttl) # AList.delete k c, True)),
      tt_Delete = (\<lambda>k c. AList.delete k c),
      tt_DeleteExpired = (\<lambda>now c. (filter (\<lambda>x. now < snd (snd x)) (AList.clearjunk c),
         map (\<lambda>x. (fst x, fst (snd x))) (filter (\<lambda>x. \<not> now < snd (snd x)) (AList.clearjunk c)))),
      tt_Range = (\<lambda>now c. map (\<lambda>x. (fst x, fst (snd x), \<not> now < snd (snd x))) (AList.clearjunk c)),
      tt_Len = (\<lambda>now c. int (length (filter (\<lambda>x. now < snd (snd x)) (AList.clearjunk c))))\<rparr>"

lemma in_clearjunk: "(k, v) \<in> set (AList.clearjunk c) \<longleftrightarrow> map_of c k = Some v"
  by (metis distinct_clearjunk map_of_clearjunk map_of_eq_Some_iff)

lemma assoc_Range:
  "(k, v, e) \<in> set (tt_Range assoc_ttl now c) \<longleftrightarrow> (\<exists>d. map_of c k = Some (v, d) \<and> e = (\<not> now < d))"
  by (auto simp: assoc_ttl_def image_iff Bex_def split_paired_Ex in_clearjunk)

lemma assoc_evict:
  "map_of (fst (tt_DeleteExpired assoc_ttl t c)) k = Some (v, d) \<longleftrightarrow> map_of c k = Some (v, d) \<and> t < d"
  "(k, v) \<in> set (snd (tt_DeleteExpired assoc_ttl t c)) \<longleftrightarrow> (\<exists>d. map_of c k = Some (v, d) \<and> \<not> t < d)"
proof -
  have "map_of (filter (\<lambda>x. t < snd (snd x)) (AList.clearjunk c)) k = Some (v, d)
      \<longleftrightarrow> (k, v, d) \<in> set (filter (\<lambda>x. t < snd (snd x)) (AList.clearjunk c))"
    by (rule map_of_eq_Some_iff) (simp add: distinct_map_filter distinct_clearjunk)
  then show "map_of (fst (tt_DeleteExpired assoc_ttl t c)) k = Some (v, d) \<longleftrightarrow> map_of c k = Some (v, d) \<and> t < d"
    by (simp add: assoc_ttl_def in_clearjunk)
  show "(k, v) \<in> set (snd (tt_DeleteExpired assoc_ttl t c)) \<longleftrightarrow> (\<exists>d. map_of c k = Some (v, d) \<and> \<not> t < d)"
    by (auto simp: assoc_ttl_def image_iff Bex_def split_paired_Ex in_clearjunk)
qed

lemma assoc_ops:
  "tt_Get assoc_ttl now c k = Some v \<longleftrightarrow> (\<exists>d. map_of c k = Some (v, d) \<and> now < d)"
  "map_of (fst (tt_Set assoc_ttl t k v d c)) = (map_of c)(k \<mapsto> (v, t + d))"
  "map_of (tt_Delete assoc_ttl k c) = (map_of c)(k := None)"
  by (auto simp: assoc_ttl_def delete_conv fun_eq_iff split: option.splits)

lemma assoc_ttl_laws: "ttl_laws assoc_ttl"
proof -
  have "distinct (map fst (tt_Range assoc_ttl now c))" for now and c :: "('a \<times> 'b \<times> time) list"
    using distinct_clearjunk [of c] by (simp add: assoc_ttl_def comp_def)
  then show ?thesis
    unfolding ttl_laws_def
    by (auto simp: assoc_Range assoc_ops assoc_evict split: if_splits)
qed

section \<open>Shared loads\<close>

text \<open>
  A flight is heap-allocated and shared by its leader and its waiters: whether its channel is closed,
  and its \<open>val\<close> and \<open>err\<close> fields as one result.
\<close>

definition errLoaderPanicked :: string where "errLoaderPanicked = ''loader panicked''"

record 'v flight =
  fl_done :: bool
  fl_val :: "string + 'v"

definition flight_result :: "'v flight \<Rightarrow> string + 'v" where
  "flight_result f =
     (case fl_val f of Inl err \<Rightarrow> Inl (''cache error: loader returned '' @ err) | Inr v \<Rightarrow> Inr v)"

text \<open>
  Where a call of \<open>GetWithLoader\<close> stands: before its first read; before taking the lock; blocked on a
  flight; leading a flight, before the second read, in the loader, before closing the channel, and
  before deregistering (the flag says that the loader panicked); returned, with the flight its result
  comes from, if any; or unwound by the panic.
\<close>

datatype ('k, 'v) load_pc =
    Idle | Reading 'k | Missed 'k | Waiting 'k nat
  | Leading 'k nat | Loading 'k nat | Closing 'k nat bool | Deregistering 'k nat bool
  | Returned 'k "nat option" "string + 'v" | Panicked 'k

text \<open>\<open>ld_loaders\<close> counts the loader calls made for each flight.\<close>

record ('c, 'k, 'v) load_state =
  ld_cache :: "('c, 'k, 'v) simple_cache"
  ld_loads :: "'k \<rightharpoonup> nat"
  ld_flights :: "nat \<Rightarrow> 'v flight"
  ld_free :: nat
  ld_pc :: "nat \<Rightarrow> ('k, 'v) load_pc"
  ld_loaders :: "nat \<Rightarrow> nat"

definition goto :: "nat \<Rightarrow> ('k, 'v) load_pc \<Rightarrow> ('c, 'k, 'v) load_state \<Rightarrow> ('c, 'k, 'v) load_state" where
  "goto t pc s = s\<lparr>ld_pc := (ld_pc s)(t := pc)\<rparr>"

definition set_flight :: "nat \<Rightarrow> 'v flight \<Rightarrow> ('c, 'k, 'v) load_state \<Rightarrow> ('c, 'k, 'v) load_state" where
  "set_flight f fl s = s\<lparr>ld_flights := (ld_flights s)(f := fl)\<rparr>"

text \<open>The steps of one caller \<open>t\<close>, in the order of the code.\<close>

inductive GetWithLoader_step ::
  "('c, 'k, 'v) ttl_ops \<Rightarrow> nat \<Rightarrow> ('c, 'k, 'v) load_state \<Rightarrow> ('c, 'k, 'v) load_state \<Rightarrow> bool"
  for T :: "('c, 'k, 'v) ttl_ops" and t :: nat where
  gl_hit: "ld_pc s t = Reading k \<Longrightarrow> tt_Get T now (sc_data (ld_cache s)) k = Some v \<Longrightarrow>
     GetWithLoader_step T t s (goto t (Returned k None (Inr v)) s)"
| gl_miss: "ld_pc s t = Reading k \<Longrightarrow> tt_Get T now (sc_data (ld_cache s)) k = None \<Longrightarrow>
     GetWithLoader_step T t s (goto t (Missed k) s)"
| gl_join: "ld_pc s t = Missed k \<Longrightarrow> ld_loads s k = Some f \<Longrightarrow>
     GetWithLoader_step T t s (goto t (Waiting k f) s)"
| gl_lead: "ld_pc s t = Missed k \<Longrightarrow> ld_loads s k = None \<Longrightarrow> f = ld_free s \<Longrightarrow>
     GetWithLoader_step T t s
       (goto t (Leading k f)
         (set_flight f \<lparr>fl_done = False, fl_val = Inl errLoaderPanicked\<rparr>
           (s\<lparr>ld_loads := (ld_loads s)(k \<mapsto> f), ld_free := Suc f\<rparr>)))"
| gl_wake: "ld_pc s t = Waiting k f \<Longrightarrow> fl_done (ld_flights s f) \<Longrightarrow>
     GetWithLoader_step T t s (goto t (Returned k (Some f) (flight_result (ld_flights s f))) s)"
| gl_found: "ld_pc s t = Leading k f \<Longrightarrow> tt_Get T now (sc_data (ld_cache s)) k = Some v \<Longrightarrow>
     GetWithLoader_step T t s
       (goto t (Closing k f False) (set_flight f ((ld_flights s f)\<lparr>fl_val := Inr v\<rparr>) s))"
| gl_load: "ld_pc s t = Leading k f \<Longrightarrow> tt_Get T now (sc_data (ld_cache s)) k = None \<Longrightarrow>
     GetWithLoader_step T t s
       (goto t (Loading k f)
         (s\<lparr>ld_cache := evictExpired T now (ld_cache s), ld_loaders := (ld_loaders s)(f := Suc (ld_loaders s f))\<rparr>))"
| gl_loaded: "ld_pc s t = Loading k f \<Longrightarrow>
     GetWithLoader_step T t s
       (goto t (Closing k f False) (set_flight f ((ld_flights s f)\<lparr>fl_val := Inr v\<rparr>)
         (s\<lparr>ld_cache := (ld_cache s)\<lparr>sc_data := fst (tt_Set T now k v ttl (sc_data (ld_cache s)))\<rparr>\<rparr>)))"
| gl_failed: "ld_pc s t = Loading k f \<Longrightarrow>
     GetWithLoader_step T t s
       (goto t (Closing k f False) (set_flight f ((ld_flights s f)\<lparr>fl_val := Inl err\<rparr>) s))"
| gl_panicked: "ld_pc s t = Loading k f \<Longrightarrow> GetWithLoader_step T t s (goto t (Closing k f True) s)"
| gl_close: "ld_pc s t = Closing k f p \<Longrightarrow>
     GetWithLoader_step T t s
       (goto t (Deregistering k f p) (set_flight f ((ld_flights s f)\<lparr>fl_done := True\<rparr>) s))"
| gl_return: "ld_pc s t = Deregistering k f False \<Longrightarrow>
     GetWithLoader_step T t s
       (goto t (Returned k (Some f) (flight_result (ld_flights s f))) (s\<lparr>ld_loads := (ld_loads s)(k := None)\<rparr>))"
| gl_unwind: "ld_pc s t = Deregistering k f True \<Longrightarrow>
     GetWithLoader_step T t s (goto t (Panicked k) (s\<lparr>ld_loads := (ld_loads s)(k := None)\<rparr>))"

inductive_cases GetWithLoader_stepE: "GetWithLoader_step T t s s'"

text \<open>
  A run: callers come, take steps in any order and leave, while other operations change the cache in
  any way.
\<close>

inductive load_step ::
  "('c, 'k, 'v) ttl_ops \<Rightarrow> ('c, 'k, 'v) load_state \<Rightarrow> ('c, 'k, 'v) load_state \<Rightarrow> bool"
  for T :: "('c, 'k, 'v) ttl_ops" where
  ls_call: "ld_pc s t = Idle \<Longrightarrow> load_step T s (goto t (Reading k) s)"
| ls_step: "GetWithLoader_step T t s s' \<Longrightarrow> load_step T s s'"
| ls_leave: "ld_pc s t \<in> {Returned k x r, Panicked k} \<Longrightarrow> load_step T s (goto t Idle s)"
| ls_other: "load_step T s (s\<lparr>ld_cache := c\<rparr>)"

inductive_cases load_stepE: "load_step T s s'"

definition load_init :: "('c, 'k, 'v) load_state \<Rightarrow> bool" where
  "load_init s \<longleftrightarrow> ld_loads s = Map.empty \<and> ld_free s = 0 \<and> (\<forall>t. ld_pc s t = Idle) \<and> (\<forall>f. ld_loaders s f = 0)"

text \<open>The flight that a caller leads, with its key.\<close>

fun leads :: "('k, 'v) load_pc \<Rightarrow> ('k \<times> nat) option" where
  "leads (Leading k f) = Some (k, f)"
| "leads (Loading k f) = Some (k, f)"
| "leads (Closing k f p) = Some (k, f)"
| "leads (Deregistering k f p) = Some (k, f)"
| "leads _ = None"

text \<open>What a caller's place says about its flight.\<close>

fun pc_ok :: "('c, 'k, 'v) load_state \<Rightarrow> ('k, 'v) load_pc \<Rightarrow> bool" where
  "pc_ok s (Leading k f) = (\<not> fl_done (ld_flights s f) \<and> ld_loaders s f = 0)"
| "pc_ok s (Loading k f) = (\<not> fl_done (ld_flights s f) \<and> ld_loaders s f = 1)"
| "pc_ok s (Closing k f p) = (\<not> fl_done (ld_flights s f))"
| "pc_ok s (Deregistering k f p) = fl_done (ld_flights s f)"
| "pc_ok s (Waiting k f) = (f < ld_free s)"
| "pc_ok s (Returned k (Some f) r) = (f < ld_free s \<and> fl_done (ld_flights s f) \<and> r = flight_result (ld_flights s f))"
| "pc_ok s _ = True"

definition load_inv :: "('c, 'k, 'v) load_state \<Rightarrow> bool" where
  "load_inv s \<longleftrightarrow>
     (\<forall>t. pc_ok s (ld_pc s t))
     \<and> (\<forall>k f. ld_loads s k = Some f \<longleftrightarrow> (\<exists>t. leads (ld_pc s t) = Some (k, f)))
     \<and> (\<forall>t u k l f. leads (ld_pc s t) = Some (k, f) \<longrightarrow> leads (ld_pc s u) = Some (l, f) \<longrightarrow> t = u)
     \<and> (\<forall>t k f. leads (ld_pc s t) = Some (k, f) \<longrightarrow> f < ld_free s)
     \<and> (\<forall>f<ld_free s. fl_done (ld_flights s f) \<or> (\<exists>t k. leads (ld_pc s t) = Some (k, f)))
     \<and> (\<forall>f. ld_loaders s f \<le> 1 \<and> (ld_free s \<le> f \<longrightarrow> ld_loaders s f = 0))"

text \<open>A step that neither registers nor deregisters, and writes at most to the flight its caller leads.\<close>

lemma load_inv_local:
  assumes inv: "load_inv s"
    and pc: "ld_pc s' = (ld_pc s)(t := pc')" "leads pc' = leads (ld_pc s t)" "pc_ok s' pc'"
    and same: "ld_loads s' = ld_loads s" "ld_free s' = ld_free s"
    and foreign: "\<And>g. \<forall>k. leads (ld_pc s t) \<noteq> Some (k, g) \<Longrightarrow>
          ld_flights s' g = ld_flights s g \<and> ld_loaders s' g = ld_loaders s g"
    and closed: "\<And>g. fl_done (ld_flights s g) \<Longrightarrow> ld_flights s' g = ld_flights s g"
    and once: "\<And>g. ld_loaders s' g \<le> 1"
  shows "load_inv s'"
proof -
  have lead: "leads (ld_pc s' u) = leads (ld_pc s u)" for u using pc by simp
  have uniq: "u = t" if "leads (ld_pc s u) = Some (l, g)" "leads (ld_pc s t) = Some (k, g)" for u l k g
    using inv that unfolding load_inv_def by blast
  have "pc_ok s' (ld_pc s u)" if "u \<noteq> t" for u
  proof -
    have ok: "pc_ok s (ld_pc s u)" using inv by (simp add: load_inv_def)
    have f: "ld_flights s' g = ld_flights s g" "ld_loaders s' g = ld_loaders s g"
      if "leads (ld_pc s u) = Some (l, g)" for l g
      using foreign [of g] uniq [OF that] \<open>u \<noteq> t\<close> by blast+
    show ?thesis
    proof (cases "leads (ld_pc s u)")
      case None
      then show ?thesis
      proof (cases "ld_pc s u")
        case (Returned k x r)
        with ok closed same(2) show ?thesis by (cases x) auto
      qed (use ok same(2) in auto)
    next
      case (Some x)
      with ok f [of "fst x" "snd x"] show ?thesis by (cases "ld_pc s u") auto
    qed
  qed
  then have ok: "pc_ok s' (ld_pc s' u)" for u using pc by (cases "u = t") auto
  have "fl_done (ld_flights s' g)" if "fl_done (ld_flights s g)" for g using closed that by simp
  then have live: "\<forall>g<ld_free s'. fl_done (ld_flights s' g) \<or> (\<exists>u k. leads (ld_pc s' u) = Some (k, g))"
    using inv unfolding load_inv_def lead same by blast
  have "ld_loaders s' g = 0" if "ld_free s \<le> g" for g
    using that inv foreign [of g] unfolding load_inv_def by (metis leD)
  then show ?thesis
    using inv ok live once unfolding load_inv_def lead same by blast
qed

lemma load_inv_lead:
  assumes inv: "load_inv s" and pc: "ld_pc s t = Missed k" and free: "ld_loads s k = None"
  shows "load_inv (goto t (Leading k (ld_free s))
    (set_flight (ld_free s) \<lparr>fl_done = False, fl_val = Inl errLoaderPanicked\<rparr>
      (s\<lparr>ld_loads := (ld_loads s)(k \<mapsto> ld_free s), ld_free := Suc (ld_free s)\<rparr>)))" (is "load_inv ?s")
proof -
  have old: "g < ld_free s" if "leads (ld_pc s u) = Some (l, g)" for u l g
    using inv that unfolding load_inv_def by blast
  have none: "leads (ld_pc s u) \<noteq> Some (k, g)" for u g
    using inv free unfolding load_inv_def by (metis option.distinct(1))
  have pcs: "ld_pc ?s = (ld_pc s)(t := Leading k (ld_free s))" by (simp add: goto_def set_flight_def)
  have l: "leads (ld_pc ?s u) = (if u = t then Some (k, ld_free s) else leads (ld_pc s u))" for u
    by (simp add: pcs)
  have "pc_ok ?s (ld_pc s u)" if "u \<noteq> t" for u
  proof -
    have ok: "pc_ok s (ld_pc s u)" using inv by (simp add: load_inv_def)
    show ?thesis
    proof (cases "ld_pc s u")
      case (Returned l x r)
      with ok show ?thesis by (cases x) (auto simp: goto_def set_flight_def)
    qed (use ok old [of u] in \<open>auto simp: goto_def set_flight_def\<close>)
  qed
  moreover have "ld_loaders s (ld_free s) = 0" using inv by (simp add: load_inv_def)
  then have "pc_ok ?s (ld_pc ?s t)" by (simp add: goto_def set_flight_def)
  ultimately have ok: "pc_ok ?s (ld_pc ?s u)" for u by (cases "u = t") (simp_all add: pcs)
  have "ld_loads ?s l = Some g \<longleftrightarrow> (\<exists>u. leads (ld_pc ?s u) = Some (l, g))" for l g
  proof (cases "l = k")
    case True
    with none show ?thesis unfolding l by (auto simp: goto_def set_flight_def)
  next
    case False
    have "leads (ld_pc s t) = None" by (simp add: pc)
    then have "(\<exists>u. leads (ld_pc ?s u) = Some (l, g)) \<longleftrightarrow> (\<exists>u. leads (ld_pc s u) = Some (l, g))"
      unfolding l using False by (metis option.distinct(1) option.inject prod.inject)
    with False inv show ?thesis by (simp add: load_inv_def goto_def set_flight_def)
  qed
  moreover have "u = v" if "leads (ld_pc ?s u) = Some (l, g)" "leads (ld_pc ?s v) = Some (m, g)" for u v l m g
    using that old inv unfolding l load_inv_def by (auto split: if_splits) blast+
  moreover have "g < ld_free ?s" if "leads (ld_pc ?s u) = Some (l, g)" for u l g
    using that old unfolding l by (auto simp: goto_def set_flight_def less_Suc_eq split: if_splits)
  moreover have "fl_done (ld_flights ?s g) \<or> (\<exists>u l. leads (ld_pc ?s u) = Some (l, g))" if "g < ld_free ?s" for g
  proof (cases "g = ld_free s")
    case True
    then show ?thesis unfolding l by auto
  next
    case False
    with that have "g < ld_free s" by (simp add: goto_def set_flight_def)
    then consider "fl_done (ld_flights s g)" | u m where "leads (ld_pc s u) = Some (m, g)"
      using inv unfolding load_inv_def by blast
    then show ?thesis
    proof cases
      case 1
      with False show ?thesis by (simp add: goto_def set_flight_def)
    next
      case 2
      with pc have "u \<noteq> t" by auto
      with 2 show ?thesis unfolding l by auto
    qed
  qed
  moreover have "ld_loaders ?s g \<le> 1 \<and> (ld_free ?s \<le> g \<longrightarrow> ld_loaders ?s g = 0)" for g
    using inv by (simp add: load_inv_def goto_def set_flight_def)
  ultimately show ?thesis using ok unfolding load_inv_def by blast
qed

lemma load_inv_deregister:
  assumes inv: "load_inv s" and pc: "ld_pc s t = Deregistering k f p" and pc': "leads pc' = None"
    and ok': "pc' = Panicked k \<or> pc' = Returned k (Some f) (flight_result (ld_flights s f))"
  shows "load_inv (goto t pc' (s\<lparr>ld_loads := (ld_loads s)(k := None)\<rparr>))" (is "load_inv ?s")
proof -
  have t: "leads (ld_pc s t) = Some (k, f)" by (simp add: pc)
  have f: "f < ld_free s" "fl_done (ld_flights s f)" using inv t pc unfolding load_inv_def by (blast, metis pc_ok.simps(4))
  have uniq: "u = t" if "leads (ld_pc s u) = Some (k, g)" for u g
  proof -
    from inv that t have "ld_loads s k = Some g" "ld_loads s k = Some f" unfolding load_inv_def by blast+
    then show ?thesis using inv that t unfolding load_inv_def by (metis option.inject)
  qed
  have l: "leads (ld_pc ?s u) = (if u = t then None else leads (ld_pc s u))" for u
    by (simp add: goto_def pc')
  have "pc_ok ?s (ld_pc s u)" for u
  proof -
    have ok: "pc_ok s (ld_pc s u)" using inv by (simp add: load_inv_def)
    show ?thesis
    proof (cases "ld_pc s u")
      case (Returned l x r)
      with ok show ?thesis by (cases x) (auto simp: goto_def)
    qed (use ok in \<open>auto simp: goto_def\<close>)
  qed
  then have "pc_ok ?s (ld_pc ?s u)" for u
    using ok' f by (cases "u = t") (auto simp: goto_def)
  moreover have "ld_loads ?s l = Some g \<longleftrightarrow> (\<exists>u. leads (ld_pc ?s u) = Some (l, g))" for l g
  proof (cases "l = k")
    case True
    with uniq show ?thesis unfolding l by (auto simp: goto_def)
  next
    case False
    then have "(\<exists>u. leads (ld_pc ?s u) = Some (l, g)) \<longleftrightarrow> (\<exists>u. leads (ld_pc s u) = Some (l, g))"
      unfolding l using t by (metis option.distinct(1) option.inject prod.inject)
    with False inv show ?thesis by (simp add: load_inv_def goto_def)
  qed
  moreover have "u = v" if "leads (ld_pc ?s u) = Some (l, g)" "leads (ld_pc ?s v) = Some (m, g)" for u v l m g
    using that inv unfolding l load_inv_def by (auto split: if_splits)
  moreover have "g < ld_free ?s" if "leads (ld_pc ?s u) = Some (l, g)" for u l g
    using that inv unfolding l load_inv_def by (auto simp: goto_def split: if_splits)
  moreover have "fl_done (ld_flights ?s g) \<or> (\<exists>u l. leads (ld_pc ?s u) = Some (l, g))" if "g < ld_free ?s" for g
  proof -
    from that have "g < ld_free s" by (simp add: goto_def)
    then have "fl_done (ld_flights s g) \<or> (\<exists>u l. leads (ld_pc s u) = Some (l, g))"
      using inv unfolding load_inv_def by blast
    with t f(2) show ?thesis unfolding l by (auto simp: goto_def) (metis option.inject prod.inject)
  qed
  moreover have "ld_loaders ?s g \<le> 1 \<and> (ld_free ?s \<le> g \<longrightarrow> ld_loaders ?s g = 0)" for g
    using inv by (simp add: load_inv_def goto_def)
  ultimately show ?thesis unfolding load_inv_def by blast
qed

lemma load_inv_own:
  assumes "load_inv s" "leads (ld_pc s t) = Some (k, f)" "\<not> fl_done (ld_flights s f)"
    and "leads pc' = Some (k, f)" "fl_done fl = (case pc' of Deregistering _ _ _ \<Rightarrow> True | _ \<Rightarrow> False)"
    and "case pc' of Leading _ _ \<Rightarrow> False | Loading _ _ \<Rightarrow> n = 1 | _ \<Rightarrow> n \<le> 1"
    and "ld_pc s' = (ld_pc s)(t := pc')" "ld_loads s' = ld_loads s" "ld_free s' = ld_free s"
    and "ld_flights s' = (ld_flights s)(f := fl)" "ld_loaders s' = (ld_loaders s)(f := n)"
  shows "load_inv s'"
  by (rule load_inv_local [OF assms(1), of _ t pc'])
    (use assms in \<open>auto simp: load_inv_def split: load_pc.splits\<close>)

lemma load_inv_GetWithLoader:
  assumes inv: "load_inv s" and step: "GetWithLoader_step T t s s'"
  shows "load_inv s'"
proof -
  have ok: "pc_ok s (ld_pc s t)" and once: "ld_loaders s f \<le> 1" for f
    using inv by (simp_all add: load_inv_def)
  note defs = goto_def set_flight_def
  note own = load_inv_own [OF inv, of t]
  have quiet_step: "load_inv (goto t pc' s)" if "leads (ld_pc s t) = None" "leads pc' = None" "pc_ok s pc'" for pc'
  proof (rule load_inv_local [OF inv, of _ t pc'])
    show "pc_ok (goto t pc' s) pc'"
      using that(3) by (cases pc') (auto simp: goto_def split: option.splits elim: pc_ok.elims)
  qed (use that once in \<open>auto simp: goto_def\<close>)
  from step show ?thesis
  proof cases
    case (gl_lead k f)
    with load_inv_lead [OF inv] show ?thesis by simp
  next
    case (gl_wake k f)
    have "f < ld_free s" using ok gl_wake by simp
    with gl_wake show ?thesis by (auto intro: quiet_step)
  next
    case (gl_join k f)
    then have "f < ld_free s" using inv unfolding load_inv_def by blast
    with gl_join show ?thesis by (auto intro: quiet_step)
  next
    case (gl_found k f now v)
    then show ?thesis using ok once [of f]
      by (intro own [of k f "Closing k f False" "(ld_flights s f)\<lparr>fl_val := Inr v\<rparr>" "ld_loaders s f"]) (auto simp: defs)
  next
    case (gl_load k f now)
    then show ?thesis using ok
      by (intro own [of k f "Loading k f" "ld_flights s f" 1]) (auto simp: defs)
  next
    case (gl_loaded k f v)
    then show ?thesis using ok
      by (intro own [of k f "Closing k f False" "(ld_flights s f)\<lparr>fl_val := Inr v\<rparr>" "ld_loaders s f"]) (auto simp: defs)
  next
    case (gl_failed k f err)
    then show ?thesis using ok
      by (intro own [of k f "Closing k f False" "(ld_flights s f)\<lparr>fl_val := Inl err\<rparr>" "ld_loaders s f"]) (auto simp: defs)
  next
    case (gl_panicked k f)
    then show ?thesis using ok
      by (intro own [of k f "Closing k f True" "ld_flights s f" "ld_loaders s f"]) (auto simp: defs)
  next
    case (gl_close k f p)
    then show ?thesis using ok once [of f]
      by (intro own [of k f "Deregistering k f p" "(ld_flights s f)\<lparr>fl_done := True\<rparr>" "ld_loaders s f"]) (auto simp: defs)
  next
    case (gl_return k f)
    show ?thesis unfolding gl_return(1) by (rule load_inv_deregister [OF inv gl_return(2)]) simp_all
  next
    case (gl_unwind k f)
    show ?thesis unfolding gl_unwind(1) by (rule load_inv_deregister [OF inv gl_unwind(2)]) simp_all
  qed (auto intro: quiet_step)
qed

lemma pc_ok_cache [simp]: "pc_ok (s\<lparr>ld_cache := c\<rparr>) pc = pc_ok s pc"
  by (cases pc) (auto split: option.splits elim!: pc_ok.elims)

lemma load_inv_step:
  assumes "load_inv s" "load_step T s s'"
  shows "load_inv s'"
  using assms(2)
proof cases
  case (ls_step t)
  with assms(1) show ?thesis by (simp add: load_inv_GetWithLoader)
next
  case (ls_call t k)
  show ?thesis
    by (rule load_inv_local [OF assms(1), of _ t "Reading k"])
      (use assms(1) ls_call in \<open>auto simp: goto_def load_inv_def\<close>)
next
  case (ls_leave t k x r)
  show ?thesis
    by (rule load_inv_local [OF assms(1), of _ t Idle])
      (use assms(1) ls_leave in \<open>auto simp: goto_def load_inv_def\<close>)
next
  case (ls_other c)
  with assms(1) show ?thesis by (simp add: load_inv_def)
qed

interpretation load_run: step_invariant load_init "load_step T" load_inv for T
proof unfold_locales
  show "\<And>s. load_init s \<Longrightarrow> load_inv s" by (simp add: load_init_def load_inv_def)
qed (rule load_inv_step)

text \<open>How far a caller is from returning.\<close>

fun load_rank :: "('k, 'v) load_pc \<Rightarrow> nat" where
  "load_rank (Reading k) = 6"
| "load_rank (Missed k) = 5"
| "load_rank (Waiting k f) = 1"
| "load_rank (Leading k f) = 4"
| "load_rank (Loading k f) = 3"
| "load_rank (Closing k f p) = 2"
| "load_rank (Deregistering k f p) = 1"
| "load_rank _ = 0"

lemma leader_steps:
  assumes "leads (ld_pc s t) = Some (k, f)"
  shows "\<exists>s'. GetWithLoader_step T t s s'"
proof (cases "ld_pc s t")
  case (Leading l g)
  then show ?thesis
    using gl_found [OF Leading, of T 0] gl_load [OF Leading, of T 0]
    by (cases "tt_Get T 0 (sc_data (ld_cache s)) l") blast+
next
  case (Loading l g)
  show ?thesis by (rule exI, rule gl_panicked [OF Loading])
next
  case (Closing l g p)
  show ?thesis by (rule exI, rule gl_close [OF Closing])
next
  case (Deregistering l g p)
  then show ?thesis using gl_return [of s t l g T] gl_unwind [of s t l g T] by (cases p) auto
qed (use assms in simp_all)

section \<open>Properties\<close>

text \<open>
  C9: concurrent misses of a key share one load. Under every interleaving of callers and of other
  cache operations, no two loaders run for the same key at the same time; each flight calls its loader
  at most once; and every caller that returns from a flight, leader or waiter, returns the result that
  the completed flight holds, so that all of them return the same.
\<close>

theorem single_flight:
  assumes "reachable load_init (load_step T) s"
  shows "(\<forall>t u k f g. ld_pc s t = Loading k f \<longrightarrow> ld_pc s u = Loading k g \<longrightarrow> t = u)
     \<and> (\<forall>f. ld_loaders s f \<le> 1)
     \<and> (\<forall>t k f r. ld_pc s t = Returned k (Some f) r \<longrightarrow>
          fl_done (ld_flights s f) \<and> r = flight_result (ld_flights s f))"
proof -
  have inv: "load_inv s" using assms by (rule load_run.reachable_inv)
  have "t = u" if "ld_pc s t = Loading k f" "ld_pc s u = Loading k g" for t u k f g
  proof -
    from that have l: "leads (ld_pc s t) = Some (k, f)" "leads (ld_pc s u) = Some (k, g)" by simp_all
    with inv have "ld_loads s k = Some f" "ld_loads s k = Some g" unfolding load_inv_def by blast+
    with l inv show ?thesis unfolding load_inv_def by (metis option.inject)
  qed
  moreover have "fl_done (ld_flights s f) \<and> r = flight_result (ld_flights s f)"
    if "ld_pc s t = Returned k (Some f) r" for t k f r
    using inv that unfolding load_inv_def by (metis pc_ok.simps(6))
  ultimately show ?thesis using inv by (simp add: load_inv_def)
qed

text \<open>
  C40: no caller is stuck. A call takes at most six steps of its own. In every reachable state a call
  that has not ended can take its next step, or it waits for a flight that is not complete, and then
  the caller that leads this flight can take its next step. This includes loaders that panic.
\<close>

theorem GetWithLoader_progress:
  assumes "reachable load_init (load_step T) s"
  shows "(GetWithLoader_step T t s s' \<longrightarrow> load_rank (ld_pc s' t) < load_rank (ld_pc s t) \<and> load_rank (ld_pc s t) \<le> 6)
     \<and> (0 < load_rank (ld_pc s t) \<longrightarrow>
          (\<exists>s'. GetWithLoader_step T t s s')
          \<or> (\<exists>k f u l. ld_pc s t = Waiting k f \<and> leads (ld_pc s u) = Some (l, f) \<and> (\<exists>s'. GetWithLoader_step T u s s')))"
proof -
  have inv: "load_inv s" using assms by (rule load_run.reachable_inv)
  have "load_rank (ld_pc s' t) < load_rank (ld_pc s t) \<and> load_rank (ld_pc s t) \<le> 6" if "GetWithLoader_step T t s s'"
    using that by cases (auto simp: goto_def set_flight_def)
  moreover have "(\<exists>s'. GetWithLoader_step T t s s')
      \<or> (\<exists>k f u l. ld_pc s t = Waiting k f \<and> leads (ld_pc s u) = Some (l, f) \<and> (\<exists>s'. GetWithLoader_step T u s s'))"
    if r: "0 < load_rank (ld_pc s t)"
  proof (cases "ld_pc s t")
    case (Reading k)
    then show ?thesis
      by (cases "tt_Get T 0 (sc_data (ld_cache s)) k") (blast intro: gl_hit gl_miss)+
  next
    case (Missed k)
    then show ?thesis by (cases "ld_loads s k") (blast intro: gl_join gl_lead)+
  next
    case (Waiting k f)
    with inv have "f < ld_free s" unfolding load_inv_def by (metis pc_ok.simps(5))
    then consider "fl_done (ld_flights s f)" | u l where "leads (ld_pc s u) = Some (l, f)"
      using inv unfolding load_inv_def by blast
    then show ?thesis using Waiting leader_steps [of s _ _ f T] by cases (blast intro: gl_wake)+
  qed (use r leader_steps [of s t _ _ T] in auto)
  ultimately show ?thesis by blast
qed

text \<open>One caller on an empty cache: it calls, misses and becomes the leader.\<close>

definition demo_load :: "((nat \<times> string \<times> time) list, nat, string) load_state" where
  "demo_load = \<lparr>ld_cache = NewSimpleCache [], ld_loads = Map.empty,
     ld_flights = (\<lambda>_. \<lparr>fl_done = False, fl_val = Inl []\<rparr>), ld_free = 0, ld_pc = (\<lambda>_. Idle), ld_loaders = (\<lambda>_. 0)\<rparr>"

lemma demo_load_run: "reachable load_init (load_step assoc_ttl) (goto 0 (Missed 7) (goto 0 (Reading 7) demo_load))"
proof -
  have "load_init demo_load" by (simp add: load_init_def demo_load_def)
  moreover have "load_step assoc_ttl demo_load (goto 0 (Reading 7) demo_load)"
    by (rule ls_call) (simp add: demo_load_def)
  ultimately have r: "reachable load_init (load_step assoc_ttl) (goto 0 (Reading 7) demo_load)"
    by (blast intro: reach_init reach_step)
  have "load_step assoc_ttl (goto 0 (Reading 7) demo_load) (goto 0 (Missed 7) (goto 0 (Reading 7) demo_load))"
    by (rule ls_step [OF gl_miss [of _ _ _ _ 0]]) (simp_all add: goto_def demo_load_def NewSimpleCache_def assoc_ttl_def)
  with r show ?thesis by (rule reach_step)
qed

theorem single_flight_witness:
  "\<forall>f. ld_loaders (goto 0 (Missed 7) (goto 0 (Reading 7) demo_load)) f \<le> 1"
  using single_flight [OF demo_load_run] by blast

theorem GetWithLoader_progress_witness:
  "\<exists>s'. GetWithLoader_step assoc_ttl 0 (goto 0 (Missed 7) (goto 0 (Reading 7) demo_load)) s'"
  using GetWithLoader_progress [OF demo_load_run, of 0] by (simp add: goto_def)

end
