(* ===== verification/PlayTracker.thy ===== *)
theory PlayTracker
  imports SimpleCache
begin

text \<open>
  The play tracker (\<open>core/scrobbler/play_tracker.go\<close>) with its two background workers
  (\<open>nowplaying_worker.go\<close>, \<open>playbackreport_worker.go\<close>), over the session cache of theory
  \<open>SimpleCache\<close>. What the datastore, the configuration, the plugin loader and the scrobblers answer
  is the record \<open>tracker_env\<close>; the player and the user of a request's context are \<open>tracker_ctx\<close>.
  Besides its Go fields a tracker logs the play counts it wrote, the messages and counts it broadcast,
  the calls it made to external scrobblers and the scrobblers it stopped. Go iterates over maps in any
  order; the lists here fix one. A report runs at one instant \<open>now\<close>; the handler of a \<open>starting\<close>
  report is split at its lock, since another report may run in between.
\<close>

record session =
  ps_MediaFile :: media_file
  ps_Start :: time
  ps_UserId :: string
  ps_Username :: string
  ps_PlayerId :: string
  ps_PlayerName :: string
  ps_State :: string
  ps_PositionMs :: int
  ps_PlaybackRate :: rat
  ps_LastReport :: time
  ps_filtered :: bool

record submission =
  sb_TrackID :: string
  sb_Timestamp :: time

record report_params =
  rp_MediaId :: string
  rp_PositionMs :: int
  rp_State :: string
  rp_PlaybackRate :: rat
  rp_IgnoreScrobble :: bool
  rp_ClientId :: string
  rp_ClientName :: string

datatype play_event =
    IncMediaFile string time | IncAlbum string time | IncArtist string time | RecordScrobble string time

datatype ext_call =
    ExtScrobble string string media_file time
  | ExtNowPlaying string string media_file int
  | ExtPlaybackReport string session

record ('q, 'c) tracker_env =
  te_ttl :: "('c, string, session) ttl_ops"
  te_GetWithParticipants :: "string \<Rightarrow> string + media_file"
  te_Unmarshal :: "string \<Rightarrow> string + 'q"
  te_MatchesCriteria :: "string \<Rightarrow> 'q \<Rightarrow> string + bool"
  te_incError :: "play_event \<Rightarrow> string option"
  te_EnableNowPlaying :: bool
  te_EnableScrobbleHistory :: bool
  te_PluginNames :: "string list option"
  te_IsAuthorized :: "string \<Rightarrow> string \<Rightarrow> bool"

record tracker_ctx =
  tc_Player :: player
  tc_User :: user

text \<open>
  A scrobbler instance is a number; \<open>tk_nextScrobbler\<close> is the next unused one. The plugin names are
  \<open>None\<close> when there is no plugin loader.
\<close>

record 'c tracker =
  tk_playMap :: "('c, string, session) simple_cache"
  tk_builtinScrobblers :: "(string \<times> nat) list"
  tk_pluginScrobblers :: "(string \<times> nat) list"
  tk_nextScrobbler :: nat
  tk_stopped :: "nat list"
  tk_prQueue :: "(session \<times> bool) list"
  tk_npQueue :: "(string \<times> string \<times> media_file \<times> int) list"
  tk_counts :: "play_event list"
  tk_broadcasts :: "int list"
  tk_messages :: "(string \<times> string) list list"
  tk_external :: "ext_call list"

text \<open>The constructors of the builtin scrobblers, with whether each returned one.\<close>

definition newPlayTracker :: "'c \<Rightarrow> (string \<times> bool) list \<Rightarrow> 'c tracker" where
  "newPlayTracker store constructors =
     (let enabled = map fst (filter snd constructors)
      in \<lparr>tk_playMap = NewSimpleCache store, tk_builtinScrobblers = zip enabled [0..<length enabled],
          tk_pluginScrobblers = [], tk_nextScrobbler = length enabled, tk_stopped = [], tk_prQueue = [],
          tk_npQueue = [], tk_counts = [], tk_broadcasts = [], tk_messages = [], tk_external = []\<rparr>)"

section \<open>The active scrobblers\<close>

definition pluginNamesMatchScrobblers :: "string list \<Rightarrow> (string \<times> nat) list \<Rightarrow> bool" where
  "pluginNamesMatchScrobblers pluginNames scrobblers =
     (length pluginNames = length scrobblers
      \<and> list_all (\<lambda>name. map_of scrobblers name \<noteq> None) pluginNames)"

definition add_plugin :: "'c tracker \<Rightarrow> string \<Rightarrow> 'c tracker" where
  "add_plugin s name =
     (if map_of (tk_pluginScrobblers s) name = None
      then s\<lparr>tk_pluginScrobblers := tk_pluginScrobblers s @ [(name, tk_nextScrobbler s)],
             tk_nextScrobbler := Suc (tk_nextScrobbler s)\<rparr>
      else s)"

definition remove_plugins :: "string list \<Rightarrow> 'c tracker \<Rightarrow> 'c tracker" where
  "remove_plugins pluginNames s =
     s\<lparr>tk_stopped := tk_stopped s @ map snd (filter (\<lambda>x. fst x \<notin> set pluginNames) (tk_pluginScrobblers s)),
       tk_pluginScrobblers := filter (\<lambda>x. fst x \<in> set pluginNames) (tk_pluginScrobblers s)\<rparr>"

definition refreshPluginScrobblers :: "('q, 'c) tracker_env \<Rightarrow> 'c tracker \<Rightarrow> 'c tracker" where
  "refreshPluginScrobblers env s =
     (case te_PluginNames env of
        None \<Rightarrow> s
      | Some pluginNames \<Rightarrow>
          if pluginNamesMatchScrobblers pluginNames (tk_pluginScrobblers s) then s
          else remove_plugins pluginNames (foldl add_plugin s pluginNames))"

text \<open>\<open>maps.Copy\<close> replaces a builtin scrobbler by a plugin of the same name.\<close>

definition combined_scrobblers :: "'c tracker \<Rightarrow> (string \<times> nat) list" where
  "combined_scrobblers s =
     filter (\<lambda>x. map_of (tk_pluginScrobblers s) (fst x) = None) (tk_builtinScrobblers s) @ tk_pluginScrobblers s"

definition getActiveScrobblers :: "('q, 'c) tracker_env \<Rightarrow> 'c tracker \<Rightarrow> 'c tracker \<times> (string \<times> nat) list" where
  "getActiveScrobblers env s = (let s1 = refreshPluginScrobblers env s in (s1, combined_scrobblers s1))"

text \<open>Those of them that the user is authorized with.\<close>

definition authorized :: "('q, 'c) tracker_env \<Rightarrow> string \<Rightarrow> (string \<times> nat) list \<Rightarrow> string list" where
  "authorized env userId scrobblers = filter (\<lambda>name. te_IsAuthorized env name userId) (map fst scrobblers)"

section \<open>Helpers\<close>

definition UnknownArtist :: string where "UnknownArtist = ''[Unknown Artist]''"

definition remainingTTL :: "int \<Rightarrow> int \<Rightarrow> rat \<Rightarrow> duration" where
  "remainingTTL durationMs positionMs rate0 =
     (let rate = (if rate0 \<le> 0 then 1 else rate0);
          remainingMs = of_int (durationMs - positionMs) / rate;
          remainingSec = max (trunc_rat (remainingMs / 1000)) 0
      in (remainingSec + 5) * Second)"

definition hasPlayingSession :: "('q, 'c) tracker_env \<Rightarrow> time \<Rightarrow> string \<Rightarrow> string \<Rightarrow> 'c tracker \<Rightarrow> bool" where
  "hasPlayingSession env now clientId mediaId s =
     (case cache_Get (te_ttl env) now (tk_playMap s) clientId of
        Inr cur \<Rightarrow> mf_ID (ps_MediaFile cur) = mediaId \<and> ps_State cur = ''playing''
      | Inl err \<Rightarrow> False)"

definition isFilteredOut :: "('q, 'c) tracker_env \<Rightarrow> tracker_ctx \<Rightarrow> media_file \<Rightarrow> bool" where
  "isFilteredOut env ctx t =
     (let u = tc_User ctx
      in if us_ScrobbleFilter u = [] then False
         else (case te_Unmarshal env (us_ScrobbleFilter u) of
                 Inl err \<Rightarrow> False
               | Inr c \<Rightarrow> (case te_MatchesCriteria env (mf_ID t) c of Inl err \<Rightarrow> False | Inr match \<Rightarrow> match)))"

definition enqueuePlaybackReport :: "session \<Rightarrow> bool \<Rightarrow> 'c tracker \<Rightarrow> 'c tracker" where
  "enqueuePlaybackReport info filtered s = s\<lparr>tk_prQueue := tk_prQueue s @ [(info, filtered)]\<rparr>"

definition enqueueNowPlaying :: "string \<Rightarrow> string \<Rightarrow> media_file \<Rightarrow> int \<Rightarrow> 'c tracker \<Rightarrow> 'c tracker" where
  "enqueueNowPlaying playerId userId track position s =
     s\<lparr>tk_npQueue := (playerId, userId, track, position) # filter (\<lambda>x. fst x \<noteq> playerId) (tk_npQueue s)\<rparr>"

definition add_session ::
  "('q, 'c) tracker_env \<Rightarrow> time \<Rightarrow> string \<Rightarrow> session \<Rightarrow> duration \<Rightarrow> 'c tracker \<Rightarrow> 'c tracker" where
  "add_session env now clientId info ttl s =
     s\<lparr>tk_playMap := fst (cache_AddWithTTL (te_ttl env) now clientId info ttl (tk_playMap s))\<rparr>"

definition remove_session :: "('q, 'c) tracker_env \<Rightarrow> string \<Rightarrow> 'c tracker \<Rightarrow> 'c tracker" where
  "remove_session env clientId s = s\<lparr>tk_playMap := cache_Remove (te_ttl env) clientId (tk_playMap s)\<rparr>"

definition broadcast_count :: "('q, 'c) tracker_env \<Rightarrow> time \<Rightarrow> 'c tracker \<Rightarrow> 'c tracker" where
  "broadcast_count env now s =
     (if te_EnableNowPlaying env
      then s\<lparr>tk_broadcasts := tk_broadcasts s @ [cache_Len (te_ttl env) now (tk_playMap s)]\<rparr> else s)"

definition dispatchScrobble ::
  "('q, 'c) tracker_env \<Rightarrow> tracker_ctx \<Rightarrow> media_file \<Rightarrow> time \<Rightarrow> bool \<Rightarrow> 'c tracker \<Rightarrow> 'c tracker" where
  "dispatchScrobble env ctx t playTime filtered s =
     (if mf_Artist t = UnknownArtist then s
      else if filtered then s
      else (case getActiveScrobblers env s of
              (s1, allScrobblers) \<Rightarrow>
                let uid = us_ID (tc_User ctx)
                in s1\<lparr>tk_external := tk_external s1
                     @ map (\<lambda>name. ExtScrobble name uid t playTime) (authorized env uid allScrobblers)\<rparr>))"

text \<open>
  \<open>incPlay\<close> runs in a transaction: the first operation that fails undoes the earlier ones.
\<close>

definition play_events :: "('q, 'c) tracker_env \<Rightarrow> media_file \<Rightarrow> time \<Rightarrow> play_event list" where
  "play_events env track timestamp =
     [IncMediaFile (mf_ID track) timestamp, IncAlbum (mf_AlbumID track) timestamp]
     @ map (\<lambda>a. IncArtist a timestamp) (mf_ArtistIDs track)
     @ (if te_EnableScrobbleHistory env then [RecordScrobble (mf_ID track) timestamp] else [])"

fun first_error :: "(play_event \<Rightarrow> string option) \<Rightarrow> play_event list \<Rightarrow> string option" where
  "first_error err [] = None"
| "first_error err (e # es) = (case err e of Some x \<Rightarrow> Some x | None \<Rightarrow> first_error err es)"

definition incPlay ::
  "('q, 'c) tracker_env \<Rightarrow> media_file \<Rightarrow> time \<Rightarrow> 'c tracker \<Rightarrow> 'c tracker \<times> string option" where
  "incPlay env track timestamp s =
     (let evs = play_events env track timestamp
      in case first_error (te_incError env) evs of
           Some err \<Rightarrow> (s, Some err)
         | None \<Rightarrow> (s\<lparr>tk_counts := tk_counts s @ evs\<rparr>, None))"

section \<open>Reports\<close>

text \<open>How a branch of \<open>ReportPlayback\<close> ends: with a return, or falling out of the switch.\<close>

datatype 'c report_flow = Return "'c tracker" "string option" | Fall "'c tracker" bool

definition starting_session ::
  "tracker_ctx \<Rightarrow> report_params \<Rightarrow> time \<Rightarrow> media_file \<Rightarrow> bool \<Rightarrow> session" where
  "starting_session ctx p now mf filtered =
     \<lparr>ps_MediaFile = mf, ps_Start = now, ps_UserId = us_ID (tc_User ctx),
      ps_Username = us_UserName (tc_User ctx), ps_PlayerId = rp_ClientId p, ps_PlayerName = rp_ClientName p,
      ps_State = rp_State p, ps_PositionMs = rp_PositionMs p, ps_PlaybackRate = rp_PlaybackRate p,
      ps_LastReport = now, ps_filtered = filtered\<rparr>"

text \<open>From the lock on: the check again, the write, and the report.\<close>

definition starting_commit ::
  "('q, 'c) tracker_env \<Rightarrow> report_params \<Rightarrow> time \<Rightarrow> session \<Rightarrow> 'c tracker \<Rightarrow> 'c report_flow" where
  "starting_commit env p now info s =
     (if hasPlayingSession env now (rp_ClientId p) (rp_MediaId p) s then Return s None
      else (let ttl = remainingTTL (mf_DurationMs (ps_MediaFile info)) (rp_PositionMs p) (rp_PlaybackRate p);
                s1 = add_session env now (rp_ClientId p) info ttl s
            in Fall (enqueuePlaybackReport info (ps_filtered info) s1) (ps_filtered info)))"

definition report_starting ::
  "('q, 'c) tracker_env \<Rightarrow> tracker_ctx \<Rightarrow> report_params \<Rightarrow> time \<Rightarrow> 'c tracker \<Rightarrow> 'c report_flow" where
  "report_starting env ctx p now s =
     (if hasPlayingSession env now (rp_ClientId p) (rp_MediaId p) s then Return s None
      else (case te_GetWithParticipants env (rp_MediaId p) of
              Inl err \<Rightarrow> Return s (Some err)
            | Inr mf \<Rightarrow>
                starting_commit env p now (starting_session ctx p now mf (isFilteredOut env ctx mf)) s))"

text \<open>The session a \<open>playing\<close> or \<open>paused\<close> report continues, or a new one.\<close>

definition current_session ::
  "('q, 'c) tracker_env \<Rightarrow> tracker_ctx \<Rightarrow> report_params \<Rightarrow> time \<Rightarrow> 'c tracker \<Rightarrow> string + session" where
  "current_session env ctx p now s =
     (let fresh = (case te_GetWithParticipants env (rp_MediaId p) of
                     Inl err \<Rightarrow> Inl err
                   | Inr mf \<Rightarrow>
                       Inr ((starting_session ctx p now mf False)
                              \<lparr>ps_Start := now - rp_PositionMs p * Millisecond\<rparr>))
      in case cache_Get (te_ttl env) now (tk_playMap s) (rp_ClientId p) of
           Inl err \<Rightarrow> fresh
         | Inr info \<Rightarrow> if mf_ID (ps_MediaFile info) \<noteq> rp_MediaId p then fresh else Inr info)"

definition report_update ::
  "('q, 'c) tracker_env \<Rightarrow> tracker_ctx \<Rightarrow> report_params \<Rightarrow> time \<Rightarrow> 'c tracker \<Rightarrow> 'c report_flow" where
  "report_update env ctx p now s =
     (case current_session env ctx p now s of
        Inl err \<Rightarrow> Return s (Some err)
      | Inr info0 \<Rightarrow>
          (let filtered = isFilteredOut env ctx (ps_MediaFile info0);
               info = info0\<lparr>ps_State := rp_State p, ps_PositionMs := rp_PositionMs p,
                            ps_PlaybackRate := rp_PlaybackRate p, ps_LastReport := now,
                            ps_filtered := filtered\<rparr>;
               ttl = (if rp_State p = ''playing''
                      then remainingTTL (mf_DurationMs (ps_MediaFile info)) (rp_PositionMs p) (rp_PlaybackRate p)
                      else 30 * 60 * Second);
               s1 = add_session env now (rp_ClientId p) info ttl s
           in Fall (enqueuePlaybackReport info filtered s1) filtered))"

text \<open>
  The scrobble of a \<open>stopped\<close> report: played for half the track or four minutes. It also yields
  the loaded file and the verdict on it.
\<close>

definition scrobble_threshold :: "media_file \<Rightarrow> int" where
  "scrobble_threshold mf = min (trunc_rat (of_int (mf_DurationMs mf * 50) / 100)) 240000"

definition stopped_scrobble ::
  "('q, 'c) tracker_env \<Rightarrow> tracker_ctx \<Rightarrow> report_params \<Rightarrow> time \<Rightarrow> 'c tracker
   \<Rightarrow> string + ('c tracker \<times> (media_file \<times> bool) option)" where
  "stopped_scrobble env ctx p now s =
     (if \<not> rp_IgnoreScrobble p \<and> pl_ScrobbleEnabled (tc_Player ctx)
      then (case te_GetWithParticipants env (rp_MediaId p) of
              Inl err \<Rightarrow> Inl err
            | Inr mf \<Rightarrow>
                (let filtered = isFilteredOut env ctx mf
                 in if rp_PositionMs p \<ge> scrobble_threshold mf
                    then Inr (dispatchScrobble env ctx mf now filtered (fst (incPlay env mf now s)),
                              Some (mf, filtered))
                    else Inr (s, Some (mf, filtered))))
      else Inr (s, None))"

definition stopped_session ::
  "tracker_ctx \<Rightarrow> report_params \<Rightarrow> time \<Rightarrow> media_file \<Rightarrow> time \<Rightarrow> session" where
  "stopped_session ctx p now mf start =
     (starting_session ctx p now mf False)\<lparr>ps_Start := start\<rparr>"

definition report_stopped ::
  "('q, 'c) tracker_env \<Rightarrow> tracker_ctx \<Rightarrow> report_params \<Rightarrow> time \<Rightarrow> 'c tracker \<Rightarrow> 'c report_flow" where
  "report_stopped env ctx p now s =
     (case stopped_scrobble env ctx p now s of
        Inl err \<Rightarrow> Return s (Some err)
      | Inr (s1, loaded) \<Rightarrow>
          (let verdict = (\<lambda>mf. case loaded of Some (_, f) \<Rightarrow> f | None \<Rightarrow> isFilteredOut env ctx mf)
           in case cache_Get (te_ttl env) now (tk_playMap s1) (rp_ClientId p) of
                Inr info \<Rightarrow>
                  (if mf_ID (ps_MediaFile info) \<noteq> rp_MediaId p then Return s1 None
                   else (let s2 = remove_session env (rp_ClientId p) s1;
                             stopped = stopped_session ctx p now (ps_MediaFile info) (ps_Start info);
                             filtered = verdict (ps_MediaFile info)
                         in Fall (enqueuePlaybackReport stopped filtered s2) filtered))
              | Inl err \<Rightarrow>
                  (let s2 = remove_session env (rp_ClientId p) s1
                   in case (case loaded of Some (mf, _) \<Rightarrow> Inr mf
                                         | None \<Rightarrow> te_GetWithParticipants env (rp_MediaId p)) of
                        Inl err \<Rightarrow> Return s2 (Some err)
                      | Inr mf \<Rightarrow>
                          (let stopped = stopped_session ctx p now mf zeroTime; filtered = verdict mf
                           in Fall (enqueuePlaybackReport stopped filtered s2) filtered))))"

text \<open>The end of \<open>ReportPlayback\<close>: the broadcast and the NowPlaying update.\<close>

definition report_finish ::
  "('q, 'c) tracker_env \<Rightarrow> tracker_ctx \<Rightarrow> report_params \<Rightarrow> time \<Rightarrow> bool \<Rightarrow> 'c tracker \<Rightarrow> 'c tracker" where
  "report_finish env ctx p now filtered s =
     (let s1 = broadcast_count env now s
      in if pl_ScrobbleEnabled (tc_Player ctx) \<and> (rp_State p = ''starting'' \<or> rp_State p = ''playing'')
            \<and> \<not> filtered
         then (case cache_Get (te_ttl env) now (tk_playMap s1) (rp_ClientId p) of
                 Inr info \<Rightarrow>
                   enqueueNowPlaying (rp_ClientId p) (us_ID (tc_User ctx)) (ps_MediaFile info)
                     (trunc_rat (of_int (rp_PositionMs p) / 1000)) s1
               | Inl err \<Rightarrow> s1)
         else s1)"

definition ReportPlayback ::
  "('q, 'c) tracker_env \<Rightarrow> tracker_ctx \<Rightarrow> report_params \<Rightarrow> time \<Rightarrow> 'c tracker \<Rightarrow> 'c tracker \<times> string option" where
  "ReportPlayback env ctx p now s =
     (case (if rp_State p = ''starting'' then report_starting env ctx p now s
            else if rp_State p = ''playing'' \<or> rp_State p = ''paused'' then report_update env ctx p now s
            else if rp_State p = ''stopped'' then report_stopped env ctx p now s
            else Fall s False) of
        Return s' err \<Rightarrow> (s', err)
      | Fall s' filtered \<Rightarrow> (report_finish env ctx p now filtered s', None))"

section \<open>Submissions, expiry and workers\<close>

text \<open>One submission; the event collects the resources of the counted ones.\<close>

definition submit_one ::
  "('q, 'c) tracker_env \<Rightarrow> tracker_ctx \<Rightarrow> submission \<Rightarrow> 'c tracker \<times> (string \<times> string) list
   \<Rightarrow> 'c tracker \<times> (string \<times> string) list" where
  "submit_one env ctx sb x =
     (case x of (s, event) \<Rightarrow>
        (case te_GetWithParticipants env (sb_TrackID sb) of
           Inl err \<Rightarrow> (s, event)
         | Inr mf \<Rightarrow>
             (case incPlay env mf (sb_Timestamp sb) s of
                (s1, Some err) \<Rightarrow> (s1, event)
              | (s1, None) \<Rightarrow>
                  (if pl_ScrobbleEnabled (tc_Player ctx)
                   then dispatchScrobble env ctx mf (sb_Timestamp sb) (isFilteredOut env ctx mf) s1
                   else s1,
                   event @ [(''song'', mf_ID mf), (''album'', mf_AlbumID mf), (''artist'', mf_AlbumArtistID mf)]))))"

definition Submit :: "('q, 'c) tracker_env \<Rightarrow> tracker_ctx \<Rightarrow> submission list \<Rightarrow> 'c tracker \<Rightarrow> 'c tracker" where
  "Submit env ctx submissions s =
     (case foldl (\<lambda>x sb. submit_one env ctx sb x) (s, []) submissions of
        (s1, event) \<Rightarrow> if event \<noteq> [] then s1\<lparr>tk_messages := tk_messages s1 @ [event]\<rparr> else s1)"

text \<open>The expiry callback, for a session that the cache evicted as expired.\<close>

definition session_expired ::
  "('q, 'c) tracker_env \<Rightarrow> time \<Rightarrow> string \<times> session \<Rightarrow> 'c tracker \<Rightarrow> 'c tracker option" where
  "session_expired env now x s =
     (case cache_OnExpiration x (tk_playMap s) of
        None \<Rightarrow> None
      | Some m \<Rightarrow>
          (let info = snd x;
               s1 = broadcast_count env now (s\<lparr>tk_playMap := m\<rparr>)
           in Some (if ps_State info \<noteq> ''stopped''
                    then enqueuePlaybackReport (info\<lparr>ps_State := ''expired'', ps_LastReport := now\<rparr>)
                           (ps_filtered info) s1
                    else s1)))"

definition dispatchPlaybackReport ::
  "('q, 'c) tracker_env \<Rightarrow> (string \<times> nat) list \<Rightarrow> session \<times> bool \<Rightarrow> 'c tracker \<Rightarrow> 'c tracker" where
  "dispatchPlaybackReport env allScrobblers entry s =
     (case entry of (info, filtered) \<Rightarrow>
        if filtered then s
        else s\<lparr>tk_external := tk_external s
               @ map (\<lambda>name. ExtPlaybackReport name info) (authorized env (ps_UserId info) allScrobblers)\<rparr>)"

definition playbackReportWorker_round :: "('q, 'c) tracker_env \<Rightarrow> 'c tracker \<Rightarrow> 'c tracker" where
  "playbackReportWorker_round env s =
     (if tk_prQueue s = [] then s
      else (case getActiveScrobblers env (s\<lparr>tk_prQueue := []\<rparr>) of
              (s1, allScrobblers) \<Rightarrow> foldl (\<lambda>st e. dispatchPlaybackReport env allScrobblers e st) s1 (tk_prQueue s)))"

definition dispatchNowPlaying ::
  "('q, 'c) tracker_env \<Rightarrow> string \<times> string \<times> media_file \<times> int \<Rightarrow> 'c tracker \<Rightarrow> 'c tracker" where
  "dispatchNowPlaying env entry s =
     (case entry of (_, userId, t, position) \<Rightarrow>
        if mf_Artist t = UnknownArtist then s
        else (case getActiveScrobblers env s of
                (s1, allScrobblers) \<Rightarrow>
                  s1\<lparr>tk_external := tk_external s1
                     @ map (\<lambda>name. ExtNowPlaying name userId t position) (authorized env userId allScrobblers)\<rparr>))"

definition nowPlayingWorker_round :: "('q, 'c) tracker_env \<Rightarrow> 'c tracker \<Rightarrow> 'c tracker" where
  "nowPlayingWorker_round env s =
     (if tk_npQueue s = [] then s
      else foldl (\<lambda>st e. dispatchNowPlaying env e st) (s\<lparr>tk_npQueue := []\<rparr>) (tk_npQueue s))"

section \<open>GetNowPlaying\<close>

definition estimate_position :: "time \<Rightarrow> session \<Rightarrow> session" where
  "estimate_position now ps =
     (if ps_State ps = ''playing''
      then (let elapsed = trunc_rat (of_int (now - ps_LastReport ps) / of_int Millisecond);
                estimated = ps_PositionMs ps + trunc_rat (of_int elapsed * ps_PlaybackRate ps)
            in ps\<lparr>ps_PositionMs := min estimated (mf_DurationMs (ps_MediaFile ps))\<rparr>)
      else ps)"

definition GetNowPlaying :: "('q, 'c) tracker_env \<Rightarrow> user option \<Rightarrow> time \<Rightarrow> 'c tracker \<Rightarrow> session list" where
  "GetNowPlaying env usr now s =
     (let res = cache_Values (te_ttl env) now (tk_playMap s);
          visible = (case usr of
                       Some u \<Rightarrow> filter (\<lambda>ps. HasLibraryAccess u (mf_LibraryID (ps_MediaFile ps))) res
                     | None \<Rightarrow> res)
      in map (estimate_position now) (sort_key (\<lambda>ps. - ps_Start ps) visible))"

section \<open>Refreshing the scrobblers\<close>

lemma add_plugins_frame:
  "tk_playMap (foldl add_plugin s names) = tk_playMap s" "tk_prQueue (foldl add_plugin s names) = tk_prQueue s"
  "tk_npQueue (foldl add_plugin s names) = tk_npQueue s" "tk_counts (foldl add_plugin s names) = tk_counts s"
  "tk_broadcasts (foldl add_plugin s names) = tk_broadcasts s" "tk_messages (foldl add_plugin s names) = tk_messages s"
  "tk_external (foldl add_plugin s names) = tk_external s" "tk_stopped (foldl add_plugin s names) = tk_stopped s"
  "tk_builtinScrobblers (foldl add_plugin s names) = tk_builtinScrobblers s"
  by (induction names arbitrary: s) (simp_all add: add_plugin_def)

text \<open>Refreshing touches the plugin scrobblers only.\<close>

lemma refresh_frame [simp]:
  "tk_playMap (refreshPluginScrobblers env s) = tk_playMap s" "tk_prQueue (refreshPluginScrobblers env s) = tk_prQueue s"
  "tk_npQueue (refreshPluginScrobblers env s) = tk_npQueue s" "tk_counts (refreshPluginScrobblers env s) = tk_counts s"
  "tk_broadcasts (refreshPluginScrobblers env s) = tk_broadcasts s"
  "tk_messages (refreshPluginScrobblers env s) = tk_messages s"
  "tk_external (refreshPluginScrobblers env s) = tk_external s"
  "tk_builtinScrobblers (refreshPluginScrobblers env s) = tk_builtinScrobblers s"
  by (simp_all add: refreshPluginScrobblers_def remove_plugins_def add_plugins_frame split: option.splits)

text \<open>Each plugin has one instance, all instances have been handed out once, and stopped ones are gone.\<close>

definition scrobblers_ok :: "'c tracker \<Rightarrow> bool" where
  "scrobblers_ok s \<longleftrightarrow>
     distinct (map fst (tk_pluginScrobblers s)) \<and> distinct (map snd (tk_pluginScrobblers s))
     \<and> (\<forall>i\<in>set (map snd (tk_pluginScrobblers s)) \<union> set (tk_stopped s). i < tk_nextScrobbler s)
     \<and> set (map snd (tk_pluginScrobblers s)) \<inter> set (tk_stopped s) = {}"

lemma add_plugin_spec:
  assumes "scrobblers_ok s"
  shows "scrobblers_ok (add_plugin s name)"
    "fst ` set (tk_pluginScrobblers (add_plugin s name)) = insert name (fst ` set (tk_pluginScrobblers s))"
    "map_of (tk_pluginScrobblers s) n = Some i \<Longrightarrow> map_of (tk_pluginScrobblers (add_plugin s name)) n = Some i"
    "tk_nextScrobbler s \<le> tk_nextScrobbler (add_plugin s name)"
    "(n, i) \<in> set (tk_pluginScrobblers (add_plugin s name)) \<Longrightarrow>
       (n, i) \<in> set (tk_pluginScrobblers s) \<or> tk_nextScrobbler s \<le> i"
  using assms
  by (auto simp: add_plugin_def scrobblers_ok_def map_of_eq_None_iff map_add_def insert_absorb less_Suc_eq
      split: option.splits if_splits dest!: not_None_eq [THEN iffD1] map_of_SomeD)

lemma add_plugins_spec:
  assumes "scrobblers_ok s"
  shows "scrobblers_ok (foldl add_plugin s names)
     \<and> fst ` set (tk_pluginScrobblers (foldl add_plugin s names)) = set names \<union> fst ` set (tk_pluginScrobblers s)
     \<and> (\<forall>n i. map_of (tk_pluginScrobblers s) n = Some i \<longrightarrow>
          map_of (tk_pluginScrobblers (foldl add_plugin s names)) n = Some i)
     \<and> (\<forall>n i. (n, i) \<in> set (tk_pluginScrobblers (foldl add_plugin s names)) \<longrightarrow>
          (n, i) \<in> set (tk_pluginScrobblers s) \<or> n \<in> set names)"
  using assms
proof (induction names arbitrary: s)
  case (Cons name names)
  note a = add_plugin_spec [OF Cons.prems, where name = name]
  note ih = Cons.IH [OF a(1)]
  have new: "(n, i) \<in> set (tk_pluginScrobblers s) \<or> n = name" if "(n, i) \<in> set (tk_pluginScrobblers (add_plugin s name))" for n i
    using that by (auto simp: add_plugin_def split: if_splits)
  have "(n, i) \<in> set (tk_pluginScrobblers s) \<or> n \<in> set (name # names)"
    if "(n, i) \<in> set (tk_pluginScrobblers (foldl add_plugin s (name # names)))" for n i
    using that conjunct2 [OF conjunct2 [OF conjunct2 [OF ih]]] new [of n i] by simp blast
  with ih a(2,3) show ?case by simp
qed simp

lemma plugins_match:
  assumes "scrobblers_ok s" "distinct names" "pluginNamesMatchScrobblers names (tk_pluginScrobblers s)"
  shows "fst ` set (tk_pluginScrobblers s) = set names"
proof -
  have "set names \<subseteq> fst ` set (tk_pluginScrobblers s)"
    using assms(3) by (force simp: pluginNamesMatchScrobblers_def list_all_iff map_of_eq_None_iff)
  moreover have "card (fst ` set (tk_pluginScrobblers s)) = card (set names)"
    using assms by (metis distinct_card image_set length_map pluginNamesMatchScrobblers_def scrobblers_ok_def)
  ultimately show ?thesis by (metis card_subset_eq finite_imageI List.finite_set)
qed

lemma map_of_filter_keys: "n \<in> A \<Longrightarrow> map_of (filter (\<lambda>x. fst x \<in> A) xs) n = map_of xs n"
  by (induction xs) auto

lemma remove_plugins_spec:
  assumes "scrobblers_ok s"
  shows "scrobblers_ok (remove_plugins names s)"
    "fst ` set (tk_pluginScrobblers (remove_plugins names s)) = fst ` set (tk_pluginScrobblers s) \<inter> set names"
    "n \<in> set names \<Longrightarrow> map_of (tk_pluginScrobblers (remove_plugins names s)) n = map_of (tk_pluginScrobblers s) n"
    "set (tk_stopped (remove_plugins names s)) = set (tk_stopped s) \<union> {i. \<exists>n. (n, i) \<in> set (tk_pluginScrobblers s) \<and> n \<notin> set names}"
proof -
  have inj: "inj_on snd (set (tk_pluginScrobblers s))" using assms by (simp add: scrobblers_ok_def distinct_map)
  have "snd ` {x \<in> set (tk_pluginScrobblers s). fst x \<in> set names}
      \<inter> snd ` {x \<in> set (tk_pluginScrobblers s). fst x \<notin> set names} = {}"
    using inj unfolding inj_on_def by blast
  then show "scrobblers_ok (remove_plugins names s)"
    using assms by (auto simp: scrobblers_ok_def remove_plugins_def distinct_map_filter)
  show "fst ` set (tk_pluginScrobblers (remove_plugins names s)) = fst ` set (tk_pluginScrobblers s) \<inter> set names"
    by (auto simp: remove_plugins_def)
  show "map_of (tk_pluginScrobblers (remove_plugins names s)) n = map_of (tk_pluginScrobblers s) n" if "n \<in> set names"
    using that by (simp add: remove_plugins_def map_of_filter_keys)
  show "set (tk_stopped (remove_plugins names s)) = set (tk_stopped s) \<union> {i. \<exists>n. (n, i) \<in> set (tk_pluginScrobblers s) \<and> n \<notin> set names}"
    by (force simp: remove_plugins_def)
qed

text \<open>
  The scrobblers follow the loaded plugins. After a refresh there is exactly one scrobbler for each
  plugin the loader names; a plugin that was there before keeps its running instance; exactly the
  instances of plugins that are gone are stopped; and no stopped instance stays in use.
\<close>

theorem refreshPluginScrobblers_correct:
  assumes "scrobblers_ok s" "te_PluginNames env = Some names" "distinct names"
  shows "let s' = refreshPluginScrobblers env s
         in scrobblers_ok s' \<and> fst ` set (tk_pluginScrobblers s') = set names
          \<and> (\<forall>n\<in>set names. map_of (tk_pluginScrobblers s) n \<noteq> None \<longrightarrow>
               map_of (tk_pluginScrobblers s') n = map_of (tk_pluginScrobblers s) n)
          \<and> set (tk_stopped s') = set (tk_stopped s)
               \<union> {i. \<exists>n. (n, i) \<in> set (tk_pluginScrobblers s) \<and> n \<notin> set names}"
proof (cases "pluginNamesMatchScrobblers names (tk_pluginScrobblers s)")
  case True
  note m = plugins_match [OF assms(1,3) True]
  have "n \<in> set names" if "(n, i) \<in> set (tk_pluginScrobblers s)" for n i
    using that m by force
  with True m assms show ?thesis by (auto simp: refreshPluginScrobblers_def)
next
  case False
  let ?s = "foldl add_plugin s names"
  note a = add_plugins_spec [OF assms(1), where names = names]
  note r = remove_plugins_spec [OF conjunct1 [OF a], where names = names]
  have "{i. \<exists>n. (n, i) \<in> set (tk_pluginScrobblers ?s) \<and> n \<notin> set names}
      = {i. \<exists>n. (n, i) \<in> set (tk_pluginScrobblers s) \<and> n \<notin> set names}"
    using a assms(1) by (auto simp: scrobblers_ok_def) (metis map_of_SomeD map_of_is_SomeI)
  moreover have "map_of (tk_pluginScrobblers (remove_plugins names ?s)) n = map_of (tk_pluginScrobblers s) n"
    if "n \<in> set names" "map_of (tk_pluginScrobblers s) n \<noteq> None" for n
    using that a r(3) [OF that(1)] by auto
  ultimately show ?thesis
    using False a r(1,2,4) assms(2) by (auto simp: refreshPluginScrobblers_def add_plugins_frame Let_def)
qed

section \<open>Filtered tracks stay inside\<close>

text \<open>
  Runs in which every report and submission finds the tracks in \<open>bad\<close> filtered out by its user's
  scrobble filter, and the datastore returns the file it is asked for; evictions, expiry callbacks and
  the workers may run at any time. The session cache keeps the laws of its package and starts empty.
\<close>

definition filters_out :: "('q, 'c) tracker_env \<Rightarrow> tracker_ctx \<Rightarrow> (media_file \<Rightarrow> bool) \<Rightarrow> bool" where
  "filters_out env ctx bad \<longleftrightarrow> (\<forall>mf. bad mf \<longrightarrow> isFilteredOut env ctx mf)
     \<and> (\<forall>i mf. te_GetWithParticipants env i = Inr mf \<longrightarrow> mf_ID mf = i)"

inductive tracker_step ::
  "'q itself \<Rightarrow> ('c, string, session) ttl_ops \<Rightarrow> (media_file \<Rightarrow> bool) \<Rightarrow> 'c tracker \<Rightarrow> 'c tracker \<Rightarrow> bool"
  for ty :: "'q itself" and T :: "('c, string, session) ttl_ops" and bad :: "media_file \<Rightarrow> bool" where
  ts_report: "te_ttl env = T \<Longrightarrow> filters_out (env :: ('q, 'c) tracker_env) ctx bad \<Longrightarrow>
     tracker_step ty T bad s (fst (ReportPlayback env ctx p now s))"
| ts_submit: "te_ttl env = T \<Longrightarrow> filters_out (env :: ('q, 'c) tracker_env) ctx bad \<Longrightarrow>
     tracker_step ty T bad s (Submit env ctx sbs s)"
| ts_evict: "tracker_step ty T bad s (s\<lparr>tk_playMap := cache_deleteExpired T now (tk_playMap s)\<rparr>)"
| ts_expire: "session_expired (env :: ('q, 'c) tracker_env) now x s = Some s' \<Longrightarrow> tracker_step ty T bad s s'"
| ts_reports: "tracker_step ty T bad s (playbackReportWorker_round (env :: ('q, 'c) tracker_env) s)"
| ts_nowplaying: "tracker_step ty T bad s (nowPlayingWorker_round (env :: ('q, 'c) tracker_env) s)"

inductive_cases tracker_stepE: "tracker_step ty T bad s t"

definition tracker_init :: "('c, string, session) ttl_ops \<Rightarrow> 'c tracker \<Rightarrow> bool" where
  "tracker_init T s \<longleftrightarrow> ttl_laws T \<and>
     (\<exists>store constructors. (\<forall>now. tt_Range T now store = []) \<and> s = newPlayTracker store constructors)"

fun call_file :: "ext_call \<Rightarrow> media_file" where
  "call_file (ExtScrobble name uid mf t) = mf"
| "call_file (ExtNowPlaying name uid mf pos) = mf"
| "call_file (ExtPlaybackReport name info) = ps_MediaFile info"

definition quiet :: "('c, string, session) ttl_ops \<Rightarrow> (media_file \<Rightarrow> bool) \<Rightarrow> 'c tracker \<Rightarrow> bool" where
  "quiet T bad s \<longleftrightarrow> ttl_laws T
     \<and> (\<forall>k info. cache_holds T (tk_playMap s) k info \<longrightarrow> bad (ps_MediaFile info) \<longrightarrow> ps_filtered info)
     \<and> (\<forall>x\<in>set (tk_prQueue s). bad (ps_MediaFile (fst x)) \<longrightarrow> snd x)
     \<and> (\<forall>x\<in>set (tk_npQueue s). \<not> bad (fst (snd (snd x))))
     \<and> (\<forall>c\<in>set (tk_external s). \<not> bad (call_file c))"

lemma quiet_enqueuePlaybackReport:
  "quiet T bad s \<Longrightarrow> (bad (ps_MediaFile info) \<Longrightarrow> f) \<Longrightarrow> quiet T bad (enqueuePlaybackReport info f s)"
  by (auto simp: quiet_def enqueuePlaybackReport_def)

lemma quiet_frame [simp]:
  "quiet T bad (s\<lparr>tk_messages := m\<rparr>) = quiet T bad s" "quiet T bad (refreshPluginScrobblers env s) = quiet T bad s"
  "quiet T bad (broadcast_count env now s) = quiet T bad s"
  by (simp_all add: quiet_def broadcast_count_def)

lemma broadcast_playMap [simp]: "tk_playMap (broadcast_count env now s) = tk_playMap s"
  by (simp add: broadcast_count_def)

lemma quiet_add_session:
  "quiet T bad s \<Longrightarrow> te_ttl env = T \<Longrightarrow> (bad (ps_MediaFile info) \<Longrightarrow> ps_filtered info) \<Longrightarrow>
     quiet T bad (add_session env now k info ttl s)"
  using AddWithTTL_holds [of T now k info ttl "tk_playMap s"]
  unfolding quiet_def add_session_def by fastforce

lemma quiet_remove_session: "quiet T bad s \<Longrightarrow> te_ttl env = T \<Longrightarrow> quiet T bad (remove_session env k s)"
  using Remove_holds [of T k "tk_playMap s"] unfolding quiet_def remove_session_def by fastforce

lemma quiet_external:
  "quiet T bad s \<Longrightarrow> (\<And>c. c \<in> set cs \<Longrightarrow> \<not> bad (call_file c)) \<Longrightarrow>
     quiet T bad (s\<lparr>tk_external := tk_external s @ cs\<rparr>)"
  by (auto simp: quiet_def)

lemma quiet_dispatchScrobble:
  assumes "quiet T bad s" "bad mf \<Longrightarrow> f"
  shows "quiet T bad (dispatchScrobble env ctx mf t f s)"
proof -
  have "quiet T bad ((refreshPluginScrobblers env s)\<lparr>tk_external := tk_external (refreshPluginScrobblers env s)
      @ map (\<lambda>name. ExtScrobble name uid mf t) ns\<rparr>)" if "\<not> bad mf" for uid ns
    by (rule quiet_external) (use assms(1) that in auto)
  with assms show ?thesis by (auto simp: dispatchScrobble_def getActiveScrobblers_def Let_def)
qed

lemma quiet_incPlay: "quiet T bad s \<Longrightarrow> quiet T bad (fst (incPlay env mf t s))"
  by (auto simp: quiet_def incPlay_def Let_def split: option.splits)

lemma quiet_incPlay_eq: "incPlay env mf t s = (s1, e) \<Longrightarrow> quiet T bad s \<Longrightarrow> quiet T bad s1"
  by (metis fst_conv quiet_incPlay)

lemmas quiet_intros =
  quiet_enqueuePlaybackReport quiet_add_session quiet_remove_session quiet_dispatchScrobble quiet_incPlay

lemma remainingTTL_pos: "0 < remainingTTL d p r"
  by (simp add: remainingTTL_def Let_def Second_def)

lemma enqueue_playMap [simp]: "tk_playMap (enqueuePlaybackReport info f s) = tk_playMap s"
  by (simp add: enqueuePlaybackReport_def)

lemma Get_add_session:
  "ttl_laws (te_ttl env) \<Longrightarrow> 0 < ttl \<Longrightarrow>
     cache_Get (te_ttl env) now (tk_playMap (add_session env now k info ttl s)) k = Inr info"
  by (simp add: add_session_def Get_AddWithTTL)

text \<open>How a report leaves the tracker, and the verdict on the session it wrote.\<close>

definition quiet_flow ::
  "('q, 'c) tracker_env \<Rightarrow> (media_file \<Rightarrow> bool) \<Rightarrow> time \<Rightarrow> report_params \<Rightarrow> 'c report_flow \<Rightarrow> bool" where
  "quiet_flow env bad now p fl =
     (case fl of
        Return s e \<Rightarrow> quiet (te_ttl env) bad s
      | Fall s f \<Rightarrow> quiet (te_ttl env) bad s \<and> (rp_State p = ''starting'' \<or> rp_State p = ''playing'' \<longrightarrow>
          (\<forall>info. cache_Get (te_ttl env) now (tk_playMap s) (rp_ClientId p) = Inr info \<longrightarrow> ps_filtered info = f)))"

lemma quiet_report_starting:
  assumes "filters_out env ctx bad" "quiet (te_ttl env) bad s"
  shows "quiet_flow env bad now p (report_starting env ctx p now s)"
proof -
  have "ttl_laws (te_ttl env)" using assms(2) by (simp add: quiet_def)
  with assms show ?thesis
    by (auto simp: report_starting_def starting_commit_def quiet_flow_def Let_def starting_session_def
        Get_add_session remainingTTL_pos filters_out_def split: sum.splits if_splits intro!: quiet_intros)
qed

lemma quiet_report_update:
  assumes "filters_out env ctx bad" "quiet (te_ttl env) bad s"
  shows "quiet_flow env bad now p (report_update env ctx p now s)"
proof -
  have "ttl_laws (te_ttl env)" using assms(2) by (simp add: quiet_def)
  with assms show ?thesis
    by (auto simp: report_update_def quiet_flow_def Let_def Get_add_session remainingTTL_pos filters_out_def Second_def
        split: sum.splits intro!: quiet_intros)
qed

lemma quiet_stopped_scrobble:
  "filters_out env ctx bad \<Longrightarrow> quiet T bad s \<Longrightarrow> stopped_scrobble env ctx p now s = Inr (s1, loaded) \<Longrightarrow>
     quiet T bad s1 \<and> (\<forall>mf f. loaded = Some (mf, f) \<longrightarrow> te_GetWithParticipants env (rp_MediaId p) = Inr mf
        \<and> f = isFilteredOut env ctx mf)"
  by (auto simp: stopped_scrobble_def Let_def filters_out_def split: sum.splits if_splits intro!: quiet_intros)

lemma isFilteredOut_ID: "mf_ID a = mf_ID b \<Longrightarrow> isFilteredOut env ctx a = isFilteredOut env ctx b"
  by (auto simp: isFilteredOut_def Let_def split: sum.splits)

lemma quiet_report_stopped:
  assumes "filters_out env ctx bad" "quiet (te_ttl env) bad s"
    and st: "rp_State p = ''stopped''"
  shows "quiet_flow env bad now p (report_stopped env ctx p now s)"
proof (cases "stopped_scrobble env ctx p now s")
  case (Inl e)
  with assms(2) show ?thesis by (simp add: report_stopped_def quiet_flow_def)
next
  case (Inr r)
  then obtain s1 loaded where r: "stopped_scrobble env ctx p now s = Inr (s1, loaded)" by (cases r) auto
  note q = quiet_stopped_scrobble [OF assms(1,2) r]
  define verdict where "verdict = (\<lambda>mf. case loaded of Some (_, f) \<Rightarrow> f | None \<Rightarrow> isFilteredOut env ctx mf)"
  have v: "verdict mf" if "bad mf" "mf_ID mf = rp_MediaId p" for mf
    using that q assms(1) isFilteredOut_ID [of mf _ env ctx]
    by (auto simp: verdict_def filters_out_def split: option.splits)
  have got: "mf_ID mf = rp_MediaId p"
    if "(case loaded of Some (mf, _) \<Rightarrow> Inr mf | None \<Rightarrow> te_GetWithParticipants env (rp_MediaId p)) = Inr mf" for mf
    using that q assms(1) by (auto simp: filters_out_def split: option.splits)
  have rem: "quiet (te_ttl env) bad (remove_session env k s1)" for k
    using q by (intro quiet_remove_session) simp_all
  have enq: "quiet (te_ttl env) bad (enqueuePlaybackReport (stopped_session ctx p now mf start) (verdict mf)
      (remove_session env k s1))" if "mf_ID mf = rp_MediaId p" for mf start k
    using rem v that by (intro quiet_enqueuePlaybackReport) (auto simp: stopped_session_def starting_session_def)
  show ?thesis
  proof (cases "cache_Get (te_ttl env) now (tk_playMap s1) (rp_ClientId p)")
    case (Inl e)
    then show ?thesis
      using enq [unfolded verdict_def] rem got st
      by (cases "case loaded of Some (mf, _) \<Rightarrow> Inr mf | None \<Rightarrow> te_GetWithParticipants env (rp_MediaId p)")
        (simp_all add: report_stopped_def r quiet_flow_def Let_def)
  next
    case (Inr info)
    then show ?thesis
      using enq [unfolded verdict_def] q st by (simp add: report_stopped_def r quiet_flow_def Let_def)
  qed
qed

lemma quiet_report_finish:
  assumes "quiet (te_ttl env) bad s" "rp_State p = ''starting'' \<or> rp_State p = ''playing'' \<Longrightarrow>
      \<forall>info. cache_Get (te_ttl env) now (tk_playMap s) (rp_ClientId p) = Inr info \<longrightarrow> ps_filtered info = f"
  shows "quiet (te_ttl env) bad (report_finish env ctx p now f s)"
proof -
  have nb: "\<not> bad (ps_MediaFile info)"
    if "cache_Get (te_ttl env) now (tk_playMap s) (rp_ClientId p) = Inr info" "\<not> ps_filtered info" for info
    using cache_Get_holds [OF _ that(1)] that(2) assms(1) by (auto simp: quiet_def)
  have np: "quiet T bad (enqueueNowPlaying k u mf pos st)" if "quiet T bad st" "\<not> bad mf" for T k u mf pos st
    using that by (auto simp: quiet_def enqueueNowPlaying_def)
  show ?thesis
    using assms nb
    by (auto simp: report_finish_def Let_def split: sum.splits intro!: np)
qed

lemma quiet_ReportPlayback:
  assumes "filters_out env ctx bad" "quiet (te_ttl env) bad s"
  shows "quiet (te_ttl env) bad (fst (ReportPlayback env ctx p now s))"
proof -
  define fl where "fl = (if rp_State p = ''starting'' then report_starting env ctx p now s
            else if rp_State p = ''playing'' \<or> rp_State p = ''paused'' then report_update env ctx p now s
            else if rp_State p = ''stopped'' then report_stopped env ctx p now s
            else Fall s False)"
  have "quiet_flow env bad now p fl"
    unfolding fl_def
    using quiet_report_starting [OF assms, of now p] quiet_report_update [OF assms, of now p]
      quiet_report_stopped [OF assms, of p now] assms(2)
    by (simp add: quiet_flow_def [of _ _ _ _ "Fall s False"])
  then show ?thesis
    unfolding ReportPlayback_def fl_def [symmetric]
    by (cases fl) (auto simp: quiet_flow_def intro: quiet_report_finish)
qed

lemma quiet_submissions:
  "filters_out env ctx bad \<Longrightarrow> quiet T bad (fst x) \<Longrightarrow> quiet T bad (fst (foldl (\<lambda>x sb. submit_one env ctx sb x) x sbs))"
proof (induction sbs arbitrary: x)
  case (Cons sb sbs)
  have "quiet T bad (fst (submit_one env ctx sb x))"
    using Cons.prems
    by (auto simp: submit_one_def filters_out_def split: sum.splits prod.splits option.splits
        intro!: quiet_dispatchScrobble dest: quiet_incPlay_eq)
  with Cons show ?case by simp
qed simp

lemma quiet_Submit: "filters_out env ctx bad \<Longrightarrow> quiet T bad s \<Longrightarrow> quiet T bad (Submit env ctx sbs s)"
  using quiet_submissions [of env ctx bad T "(s, [])" sbs] by (auto simp: Submit_def split: prod.splits)

lemma quiet_session_expired:
  assumes "session_expired env now x s = Some s'" "quiet T bad s"
  shows "quiet T bad s'"
proof -
  obtain k info m where x: "x = (k, info)" and m: "cache_OnExpiration (k, info) (tk_playMap s) = Some m"
    using assms(1) by (cases x) (auto simp: session_expired_def split: option.splits)
  note h = OnExpiration_holds [OF m, of T]
  have "quiet T bad (s\<lparr>tk_playMap := m\<rparr>)" "bad (ps_MediaFile info) \<Longrightarrow> ps_filtered info"
    using h assms(2) by (auto simp: quiet_def)
  then show ?thesis
    using assms(1) x m by (auto simp: session_expired_def Let_def intro!: quiet_enqueuePlaybackReport split: if_splits)
qed

lemma quiet_evict: "quiet T bad s \<Longrightarrow> quiet T bad (s\<lparr>tk_playMap := cache_deleteExpired T now (tk_playMap s)\<rparr>)"
  using deleteExpired_holds [of T now "tk_playMap s"] unfolding quiet_def by fastforce

lemma quiet_dispatches:
  "quiet T bad s \<Longrightarrow> \<forall>x\<in>set es. bad (ps_MediaFile (fst x)) \<longrightarrow> snd x \<Longrightarrow>
     quiet T bad (foldl (\<lambda>st e. dispatchPlaybackReport env a e st) s es)"
proof (induction es arbitrary: s)
  case (Cons e es)
  have "quiet T bad (dispatchPlaybackReport env a e s)"
    using Cons.prems by (auto simp: dispatchPlaybackReport_def split: prod.splits intro!: quiet_external)
  with Cons show ?case by simp
qed simp

lemma quiet_np_dispatches:
  "quiet T bad s \<Longrightarrow> \<forall>x\<in>set es. \<not> bad (fst (snd (snd x))) \<Longrightarrow>
     quiet T bad (foldl (\<lambda>st e. dispatchNowPlaying env e st) s es)"
proof (induction es arbitrary: s)
  case (Cons e es)
  have "quiet T bad ((refreshPluginScrobblers env s)\<lparr>tk_external := tk_external (refreshPluginScrobblers env s)
      @ map (\<lambda>name. ExtNowPlaying name u (fst (snd (snd e))) pos) ns\<rparr>)" for u pos ns
    by (rule quiet_external) (use Cons.prems in auto)
  then have "quiet T bad (dispatchNowPlaying env e s)"
    using Cons.prems(1) by (cases e) (auto simp: dispatchNowPlaying_def getActiveScrobblers_def Let_def)
  with Cons show ?case by simp
qed simp

lemma quiet_workers:
  assumes "quiet T bad s"
  shows "quiet T bad (playbackReportWorker_round env s)" "quiet T bad (nowPlayingWorker_round env s)"
proof -
  have e: "quiet T bad (s\<lparr>tk_prQueue := []\<rparr>)" "quiet T bad (s\<lparr>tk_npQueue := []\<rparr>)"
    using assms by (simp_all add: quiet_def)
  then show "quiet T bad (playbackReportWorker_round env s)"
    using assms quiet_dispatches [of T bad "refreshPluginScrobblers env (s\<lparr>tk_prQueue := []\<rparr>)" "tk_prQueue s" env]
    by (simp add: playbackReportWorker_round_def getActiveScrobblers_def Let_def quiet_def [of T bad s])
  show "quiet T bad (nowPlayingWorker_round env s)"
    using assms e(2) quiet_np_dispatches [of T bad "s\<lparr>tk_npQueue := []\<rparr>" "tk_npQueue s" env]
    by (simp add: nowPlayingWorker_round_def quiet_def [of T bad s])
qed

interpretation tracker_run: step_invariant "tracker_init T" "tracker_step ty T bad" "quiet T bad" for ty T bad
proof unfold_locales
  show "\<And>s. tracker_init T s \<Longrightarrow> quiet T bad s"
    by (auto simp: tracker_init_def quiet_def newPlayTracker_def NewSimpleCache_def cache_holds_def Let_def)
  show "\<And>s t. quiet T bad s \<Longrightarrow> tracker_step ty T bad s t \<Longrightarrow> quiet T bad t"
    by (erule tracker_stepE)
      (auto intro: quiet_ReportPlayback quiet_Submit quiet_session_expired quiet_evict quiet_workers)
qed

section \<open>Properties\<close>


text \<open>A context, an environment and a report, for concrete runs.\<close>

definition demo_ctx :: tracker_ctx where
  "demo_ctx = \<lparr>tc_Player = \<lparr>pl_Name = ''p'', pl_MaxBitRate = 0, pl_ScrobbleEnabled = True\<rparr>,
     tc_User = \<lparr>us_ID = ''u'', us_UserName = ''bob'', us_ScrobbleFilter = ''f'', us_LibraryAccess = [1],
       us_IsAdmin = False, us_TokenEpoch = 0\<rparr>\<rparr>"

definition demo_tracker_env :: "(string, (string \<times> session \<times> time) list) tracker_env" where
  "demo_tracker_env = \<lparr>te_ttl = assoc_ttl, te_GetWithParticipants = (\<lambda>i. Inr (demo_file i)),
     te_Unmarshal = (\<lambda>s. Inr s), te_MatchesCriteria = (\<lambda>i c. Inr (i = ''x'')), te_incError = (\<lambda>e. None),
     te_EnableNowPlaying = True, te_EnableScrobbleHistory = True, te_PluginNames = Some [''p2''],
     te_IsAuthorized = (\<lambda>name u. True)\<rparr>"

definition demo_tracker :: "(string \<times> session \<times> time) list tracker" where
  "demo_tracker = newPlayTracker [] [(''lastfm'', True), (''listenbrainz'', False)]"

definition demo_report :: "string \<Rightarrow> string \<Rightarrow> int \<Rightarrow> report_params" where
  "demo_report st i pos = \<lparr>rp_MediaId = i, rp_PositionMs = pos, rp_State = st, rp_PlaybackRate = 1,
     rp_IgnoreScrobble = False, rp_ClientId = ''c'', rp_ClientName = ''client''\<rparr>"

lemma demo_tracker_init: "tracker_init assoc_ttl demo_tracker"
proof -
  have "\<forall>now. tt_Range (assoc_ttl :: ((string \<times> session \<times> time) list, string, session) ttl_ops) now [] = []"
    by (simp add: assoc_ttl_def)
  then show ?thesis unfolding tracker_init_def demo_tracker_def using assoc_ttl_laws by blast
qed


theorem refreshPluginScrobblers_correct_witness:
  "fst ` set (tk_pluginScrobblers (refreshPluginScrobblers demo_tracker_env demo_tracker)) = {''p2''}"
proof -
  have "scrobblers_ok demo_tracker" by (simp add: scrobblers_ok_def demo_tracker_def newPlayTracker_def)
  from refreshPluginScrobblers_correct [OF this, of demo_tracker_env "[''p2'']"] show ?thesis
    by (simp add: demo_tracker_env_def Let_def)
qed

text \<open>
  Reports that arrive out of order do not disturb the current session. A \<open>starting\<close> report for a
  track the client is already playing changes nothing, also when the \<open>playing\<close> report came in
  while it was loading the track; and a \<open>stopped\<close> report for another track than the current one
  leaves the sessions, both queues and the broadcasts as they are.
\<close>

theorem out_of_order_reports_ignored:
  "(rp_State p = ''starting'' \<and> hasPlayingSession env now (rp_ClientId p) (rp_MediaId p) s \<longrightarrow>
      ReportPlayback env ctx p now s = (s, None) \<and> starting_commit env p now info s = Return s None)
   \<and> (rp_State p = ''stopped'' \<and> cache_Get (te_ttl env) now (tk_playMap s) (rp_ClientId p) = Inr cur
       \<and> mf_ID (ps_MediaFile cur) \<noteq> rp_MediaId p \<longrightarrow>
      (let s' = fst (ReportPlayback env ctx p now s)
       in tk_playMap s' = tk_playMap s \<and> tk_prQueue s' = tk_prQueue s \<and> tk_npQueue s' = tk_npQueue s
          \<and> tk_broadcasts s' = tk_broadcasts s))"
proof -
  have frame: "tk_playMap s1 = tk_playMap s \<and> tk_prQueue s1 = tk_prQueue s \<and> tk_npQueue s1 = tk_npQueue s
      \<and> tk_broadcasts s1 = tk_broadcasts s" if "stopped_scrobble env ctx p now s = Inr (s1, l)" for s1 l
    using that by (auto simp: stopped_scrobble_def dispatchScrobble_def getActiveScrobblers_def incPlay_def Let_def
        split: sum.splits if_splits option.splits)
  show ?thesis
    using frame
    by (cases "stopped_scrobble env ctx p now s")
      (auto simp: ReportPlayback_def report_starting_def starting_commit_def report_stopped_def Let_def)
qed

theorem out_of_order_reports_ignored_witness:
  "let s = fst (ReportPlayback demo_tracker_env demo_ctx (demo_report ''playing'' ''a'' 1000) 0 demo_tracker)
   in ReportPlayback demo_tracker_env demo_ctx (demo_report ''starting'' ''a'' 0) 1 s = (s, None)"
proof -
  let ?s = "fst (ReportPlayback demo_tracker_env demo_ctx (demo_report ''playing'' ''a'' 1000) 0 demo_tracker)"
  have "hasPlayingSession demo_tracker_env 1 ''c'' ''a'' ?s"
    by (simp add: ReportPlayback_def report_update_def current_session_def report_finish_def starting_session_def
        enqueueNowPlaying_def enqueuePlaybackReport_def hasPlayingSession_def cache_Get_def cache_AddWithTTL_def
        add_session_def broadcast_count_def evictExpired_def cache_deleteExpired_def assoc_ttl_def NewSimpleCache_def
        demo_report_def demo_ctx_def demo_tracker_env_def isFilteredOut_def demo_tracker_def newPlayTracker_def Let_def
        remainingTTL_def trunc_rat_def Second_def)
  with out_of_order_reports_ignored [of "demo_report ''starting'' ''a'' 0" demo_tracker_env 1 ?s demo_ctx]
  show ?thesis by (simp add: demo_report_def Let_def)
qed

lemma add_plugins_counts:
  "foldl add_plugin (s\<lparr>tk_counts := c\<rparr>) names = (foldl add_plugin s names)\<lparr>tk_counts := c\<rparr>"
proof (induction names arbitrary: s)
  case (Cons name names)
  have "add_plugin (s\<lparr>tk_counts := c\<rparr>) name = (add_plugin s name)\<lparr>tk_counts := c\<rparr>" by (simp add: add_plugin_def)
  with Cons show ?case by simp
qed simp

lemma refresh_counts:
  "refreshPluginScrobblers env (s\<lparr>tk_counts := c\<rparr>) = (refreshPluginScrobblers env s)\<lparr>tk_counts := c\<rparr>"
  by (simp add: refreshPluginScrobblers_def remove_plugins_def add_plugins_counts split: option.splits)

lemma trunc_half: "0 \<le> d \<Longrightarrow> trunc_rat (of_int (d * 50) / 100) = d div 2"
proof -
  assume "0 \<le> d"
  have "(of_int (d * 50) / 100 :: rat) = of_int d / of_int 2" by simp
  then have "\<lfloor>of_int (d * 50) / 100 :: rat\<rfloor> = d div 2" by (simp only: floor_divide_of_int_eq)
  with \<open>0 \<le> d\<close> show ?thesis by (simp add: trunc_rat_def)
qed

text \<open>
  A stopped track is counted and scrobbled exactly when it was played long enough. For a track the
  datastore knows, when the play counts can be written, a \<open>stopped\<close> report writes exactly one set of
  play counts if scrobbling is on for the player and the report, and the position reached half of the
  track or four minutes, and none otherwise; and each active and authorized service gets exactly one
  scrobble if besides the artist is known and the track is not filtered, and none otherwise.
\<close>

theorem stopped_report_scrobbles_exactly:
  assumes "rp_State p = ''stopped''" and "te_GetWithParticipants env (rp_MediaId p) = Inr mf"
    and "\<forall>e. te_incError env e = None" and "0 \<le> mf_DurationMs mf"
  shows "let s' = fst (ReportPlayback env ctx p now s);
             counted = (\<not> rp_IgnoreScrobble p \<and> pl_ScrobbleEnabled (tc_Player ctx)
                        \<and> min (mf_DurationMs mf div 2) 240000 \<le> rp_PositionMs p);
             uid = us_ID (tc_User ctx)
         in tk_counts s' = tk_counts s @ (if counted then play_events env mf now else [])
          \<and> tk_external s' = tk_external s
              @ (if counted \<and> mf_Artist mf \<noteq> UnknownArtist \<and> \<not> isFilteredOut env ctx mf
                 then map (\<lambda>name. ExtScrobble name uid mf now)
                        (authorized env uid (snd (getActiveScrobblers env s))) else [])"
proof -
  have no_err: "first_error (te_incError env) es = None" for es
    using assms(3) by (induction es) auto
  have thr: "scrobble_threshold mf = min (mf_DurationMs mf div 2) 240000"
    using trunc_half [OF assms(4)] by (simp only: scrobble_threshold_def)
  have "\<exists>s1 l. stopped_scrobble env ctx p now s = Inr (s1, l)"
    using assms(2) by (simp add: stopped_scrobble_def Let_def)
  then obtain s1 l where r: "stopped_scrobble env ctx p now s = Inr (s1, l)" by blast
  let ?counted = "\<not> rp_IgnoreScrobble p \<and> pl_ScrobbleEnabled (tc_Player ctx) \<and> scrobble_threshold mf \<le> rp_PositionMs p"
  have s1: "tk_counts s1 = tk_counts s @ (if ?counted then play_events env mf now else [])"
    "tk_external s1 = tk_external s @ (if ?counted \<and> mf_Artist mf \<noteq> UnknownArtist \<and> \<not> isFilteredOut env ctx mf
       then map (\<lambda>name. ExtScrobble name (us_ID (tc_User ctx)) mf now)
              (authorized env (us_ID (tc_User ctx)) (snd (getActiveScrobblers env s))) else [])"
    using r assms(2) no_err
    by (auto simp: stopped_scrobble_def dispatchScrobble_def getActiveScrobblers_def combined_scrobblers_def incPlay_def
        refresh_counts Let_def split: if_splits)
  have fin: "tk_counts (report_finish env ctx p now f st) = tk_counts st"
    "tk_external (report_finish env ctx p now f st) = tk_external st" for f st
    using assms(1) by (simp_all add: report_finish_def broadcast_count_def Let_def)
  have flow: "tk_counts st = tk_counts s1 \<and> tk_external st = tk_external s1"
    if "report_stopped env ctx p now s = Return st e \<or> report_stopped env ctx p now s = Fall st f" for st e f
    using that
    by (auto simp: report_stopped_def r Let_def enqueuePlaybackReport_def remove_session_def
        split: option.splits if_splits sum.splits)
  have "tk_counts (fst (ReportPlayback env ctx p now s)) = tk_counts s1
      \<and> tk_external (fst (ReportPlayback env ctx p now s)) = tk_external s1"
    using flow assms(1) by (cases "report_stopped env ctx p now s") (simp_all add: ReportPlayback_def fin)
  with s1 thr show ?thesis by (simp add: Let_def)
qed

theorem stopped_report_scrobbles_exactly_witness:
  "tk_external (fst (ReportPlayback demo_tracker_env demo_ctx (demo_report ''stopped'' ''a'' 95000) 7 demo_tracker))
     = [ExtScrobble ''lastfm'' ''u'' (demo_file ''a'') 7, ExtScrobble ''p2'' ''u'' (demo_file ''a'') 7]"
proof -
  have "\<not> isFilteredOut demo_tracker_env demo_ctx (demo_file ''a'')" "mf_Artist (demo_file ''a'') \<noteq> UnknownArtist"
    by (simp_all add: isFilteredOut_def demo_ctx_def demo_tracker_env_def UnknownArtist_def)
  with stopped_report_scrobbles_exactly
    [of "demo_report ''stopped'' ''a'' 95000" demo_tracker_env "demo_file ''a''" demo_ctx 7 demo_tracker]
  show ?thesis
    by (simp add: demo_report_def demo_ctx_def demo_tracker_env_def demo_tracker_def newPlayTracker_def authorized_def
        getActiveScrobblers_def combined_scrobblers_def refreshPluginScrobblers_def pluginNamesMatchScrobblers_def
        add_plugin_def remove_plugins_def Let_def)
qed

text \<open>
  What others see as now playing. \<open>GetNowPlaying\<close> returns exactly the live sessions of libraries
  the user may access, most recently started first, and a playing session's estimated position never
  passes the end of its track.
\<close>

theorem GetNowPlaying_correct:
  assumes "ttl_laws (te_ttl env)"
  shows "(\<forall>ps. ps \<in> set (map (\<lambda>x. x\<lparr>ps_PositionMs := 0\<rparr>) (GetNowPlaying env (Some u) now s)) \<longleftrightarrow>
       (\<exists>k x. cache_Get (te_ttl env) now (tk_playMap s) k = Inr x \<and> ps = x\<lparr>ps_PositionMs := 0\<rparr>
          \<and> HasLibraryAccess u (mf_LibraryID (ps_MediaFile x))))
   \<and> sorted_wrt (\<lambda>a b. ps_Start b \<le> ps_Start a) (GetNowPlaying env (Some u) now s)
   \<and> (\<forall>ps\<in>set (GetNowPlaying env (Some u) now s).
        HasLibraryAccess u (mf_LibraryID (ps_MediaFile ps))
        \<and> (ps_State ps = ''playing'' \<longrightarrow> ps_PositionMs ps \<le> mf_DurationMs (ps_MediaFile ps)))"
proof -
  let ?vis = "filter (\<lambda>ps. HasLibraryAccess u (mf_LibraryID (ps_MediaFile ps))) (cache_Values (te_ttl env) now (tk_playMap s))"
  let ?sorted = "sort_key (\<lambda>ps. - ps_Start ps) ?vis"
  have g: "GetNowPlaying env (Some u) now s = map (estimate_position now) ?sorted"
    by (simp add: GetNowPlaying_def)
  have est: "ps_Start (estimate_position now ps) = ps_Start ps" "ps_MediaFile (estimate_position now ps) = ps_MediaFile ps"
    "(estimate_position now ps)\<lparr>ps_PositionMs := 0\<rparr> = ps\<lparr>ps_PositionMs := 0\<rparr>"
    "ps_State (estimate_position now ps) = ''playing'' \<longrightarrow>
       ps_PositionMs (estimate_position now ps) \<le> mf_DurationMs (ps_MediaFile ps)" for ps
    by (simp_all add: estimate_position_def Let_def)
  have "sorted_wrt (\<lambda>a b. ps_Start b \<le> ps_Start a) ?sorted"
    using sorted_sort_key [of "\<lambda>ps. - ps_Start ps" ?vis] by (simp add: sorted_map)
  then have "sorted_wrt (\<lambda>a b. ps_Start b \<le> ps_Start a) (map (estimate_position now) ?sorted)"
    by (simp add: sorted_wrt_map est)
  moreover have "x \<in> set ?vis \<longleftrightarrow> HasLibraryAccess u (mf_LibraryID (ps_MediaFile x))
      \<and> (\<exists>k. cache_Get (te_ttl env) now (tk_playMap s) k = Inr x)" for x
    using Values_Get [OF assms, of x now "tk_playMap s"] by auto
  then have "ps \<in> set (map (\<lambda>x. x\<lparr>ps_PositionMs := 0\<rparr>) (map (estimate_position now) ?sorted)) \<longleftrightarrow>
       (\<exists>k x. cache_Get (te_ttl env) now (tk_playMap s) k = Inr x \<and> ps = x\<lparr>ps_PositionMs := 0\<rparr>
          \<and> HasLibraryAccess u (mf_LibraryID (ps_MediaFile x)))" for ps
    by (simp only: set_map set_sort image_comp comp_def est image_iff Bex_def) blast
  ultimately show ?thesis
    unfolding g using est(4) by (simp add: est(2))
qed

theorem GetNowPlaying_correct_witness:
  "list_all (\<lambda>ps. HasLibraryAccess (tc_User demo_ctx) (mf_LibraryID (ps_MediaFile ps)))
     (GetNowPlaying demo_tracker_env (Some (tc_User demo_ctx)) 1
       (fst (ReportPlayback demo_tracker_env demo_ctx (demo_report ''playing'' ''a'' 1000) 0 demo_tracker)))"
proof -
  have "ttl_laws (te_ttl demo_tracker_env)" using assoc_ttl_laws by (simp add: demo_tracker_env_def)
  from GetNowPlaying_correct [OF this] show ?thesis by (simp add: list_all_iff)
qed

end
