(* ===== verification/ScrobbleBuffer.thy ===== *)
theory ScrobbleBuffer
  imports Media
begin

text \<open>
  The persistent scrobble buffer (\<open>persistence/scrobble_buffer_repository.go\<close>) and the buffered
  scrobbler that drains it (\<open>core/scrobbler/buffered_scrobbler.go\<close>). The table is the list of its
  rows in rowid order. What the database, the plugin loader and the external service answer in the
  \<open>i\<close>-th round of the drain loop is the argument \<open>env i\<close>. The loop over a user's queue runs on
  fuel, and one more than the number of that user's rows is shown to be enough.
\<close>

section \<open>The repository\<close>

record scrobble_entry =
  en_ID :: string
  en_UserID :: string
  en_Service :: string
  en_MediaFileID :: string
  en_PlayTime :: time
  en_EnqueueTime :: time

type_synonym buffer_table = "scrobble_entry list"

definition of_queue :: "string \<Rightarrow> string \<Rightarrow> scrobble_entry \<Rightarrow> bool" where
  "of_queue service userId e \<longleftrightarrow> en_Service e = service \<and> en_UserID e = userId"

text \<open>
  \<open>GROUP BY user_id ORDER BY count(*)\<close>: users with equally many rows come in some order; the list
  fixes one.
\<close>

definition buf_UserIDs :: "string \<Rightarrow> buffer_table \<Rightarrow> string list" where
  "buf_UserIDs service t =
     (let rows = filter (\<lambda>e. en_Service e = service) t
      in sort_key (\<lambda>u. length (filter (\<lambda>e. en_UserID e = u) rows)) (remdups (map en_UserID rows)))"

definition buf_Enqueue ::
  "string \<Rightarrow> time \<Rightarrow> string \<Rightarrow> string \<Rightarrow> string \<Rightarrow> time \<Rightarrow> buffer_table \<Rightarrow> buffer_table" where
  "buf_Enqueue newID now service userId mediaFileId playTime t =
     t @ [\<lparr>en_ID = newID, en_UserID = userId, en_Service = service, en_MediaFileID = mediaFileId,
           en_PlayTime = playTime, en_EnqueueTime = now\<rparr>]"

text \<open>\<open>ORDER BY play_time, rowid LIMIT 1\<close>: \<open>sort_key\<close> is stable, so ties keep rowid order.\<close>

definition buf_Next :: "string \<Rightarrow> string \<Rightarrow> buffer_table \<Rightarrow> scrobble_entry option" where
  "buf_Next service userId t =
     (case sort_key en_PlayTime (filter (of_queue service userId) t) of [] \<Rightarrow> None | e # _ \<Rightarrow> Some e)"

definition buf_Dequeue :: "scrobble_entry \<Rightarrow> buffer_table \<Rightarrow> buffer_table" where
  "buf_Dequeue e t = filter (\<lambda>x. en_ID x \<noteq> en_ID e) t"

definition buf_Discard :: "string \<Rightarrow> buffer_table \<Rightarrow> buffer_table" where
  "buf_Discard service t = filter (\<lambda>x. en_Service x \<noteq> service) t"

definition buf_Length :: "buffer_table \<Rightarrow> int" where
  "buf_Length t = int (length t)"

section \<open>The drain loop\<close>

datatype send_result = SendOK | SendRetryLater duration | SendFailed string

record 'e drain_env =
  de_readFails :: bool
  de_loaded :: bool
  de_send :: "'e \<Rightarrow> send_result"
  de_dequeueFails :: bool

text \<open>
  \<open>processUserQueue\<close> over any buffer with a \<open>Next\<close> and a \<open>Dequeue\<close>. It returns the buffer it
  leaves, the entries it handed to the service for good (sent, or refused and discarded), whether
  the queue was drained, and when to retry.
\<close>

fun processUserQueue ::
  "('b \<Rightarrow> 'e option) \<Rightarrow> ('e \<Rightarrow> 'b \<Rightarrow> 'b) \<Rightarrow> (nat \<Rightarrow> 'e drain_env) \<Rightarrow> nat \<Rightarrow> nat \<Rightarrow> 'b
   \<Rightarrow> ('b \<times> 'e list \<times> bool \<times> duration) option" where
  "processUserQueue nxt deq env 0 i b = None"
| "processUserQueue nxt deq env (Suc fuel) i b =
     (if de_readFails (env i) then Some (b, [], False, 0)
      else (case nxt b of
              None \<Rightarrow> Some (b, [], True, 0)
            | Some e \<Rightarrow>
                (if \<not> de_loaded (env i) then Some (b, [], False, 0)
                 else (case de_send (env i) e of
                         SendRetryLater d \<Rightarrow> Some (b, [], False, d)
                       | _ \<Rightarrow>
                           (if de_dequeueFails (env i) then Some (b, [e], False, 0)
                            else (case processUserQueue nxt deq env fuel (Suc i) (deq e b) of
                                    None \<Rightarrow> None
                                  | Some (b', sent, r) \<Rightarrow> Some (b', e # sent, r)))))))"

declare processUserQueue.simps [simp del]

text \<open>\<open>processQueue\<close>: every user in turn; \<open>envs u\<close> answers for user \<open>u\<close>.\<close>

fun process_users ::
  "string \<Rightarrow> (string \<Rightarrow> nat \<Rightarrow> scrobble_entry drain_env) \<Rightarrow> string list \<Rightarrow> bool \<times> duration \<Rightarrow> buffer_table
   \<Rightarrow> (buffer_table \<times> scrobble_entry list \<times> bool \<times> duration) option" where
  "process_users service envs [] (result, retryIn) t = Some (t, [], result, retryIn)"
| "process_users service envs (u # us) (result, retryIn) t =
     (case processUserQueue (buf_Next service u) buf_Dequeue (envs u) (Suc (length t)) 0 t of
        None \<Rightarrow> None
      | Some (t', sent, ok, d) \<Rightarrow>
          (case process_users service envs us
                  (if ok then (result, retryIn) else (False, max retryIn d)) t' of
             None \<Rightarrow> None
           | Some (t'', sent', r) \<Rightarrow> Some (t'', sent @ sent', r)))"

text \<open>\<open>userIDs\<close> is \<open>Inl\<close> when the query for the users fails.\<close>

definition processQueue ::
  "string \<Rightarrow> (string \<Rightarrow> nat \<Rightarrow> scrobble_entry drain_env) \<Rightarrow> bool \<Rightarrow> buffer_table
   \<Rightarrow> (buffer_table \<times> scrobble_entry list \<times> bool \<times> duration) option" where
  "processQueue service envs usersFail t =
     (if usersFail then Some (t, [], False, 0)
      else process_users service envs (buf_UserIDs service t) (True, 0) t)"

section \<open>Backing off\<close>

definition minRetryDelay :: duration where "minRetryDelay = 5 * Second"

definition maxRetryDelay :: duration where "maxRetryDelay = 4 * 60 * Second"

definition maxRetryShift :: int where "maxRetryShift = 6"

text \<open>The shift acts on a 64-bit \<open>time.Duration\<close>.\<close>

definition backoffDelay :: "int \<Rightarrow> duration" where
  "backoffDelay failures0 =
     (let failures = (if failures0 < 0 then 0 else failures0)
      in if failures \<ge> maxRetryShift then maxRetryDelay
         else (let d = sint (push_bit (nat failures) (word_of_int minRetryDelay :: 64 word))
               in if d > maxRetryDelay then maxRetryDelay else d))"

text \<open>
  The goroutine \<open>run\<close> as a state machine: its two variables, the armed timer, whether the wake channel
  (of capacity one) holds a signal, whether the context is cancelled, and whether the loop still runs.
  A round drains only when no backoff window is open; then it waits for a wake signal, for the timer
  or for the end of its context.
\<close>

record run_state =
  rs_failures :: int
  rs_backingOff :: bool
  rs_timer :: "duration option"
  rs_wake :: bool
  rs_cancelled :: bool
  rs_running :: bool

definition run_init :: run_state where
  "run_init = \<lparr>rs_failures = 0, rs_backingOff = False, rs_timer = None, rs_wake = False, rs_cancelled = False,
     rs_running = True\<rparr>"

definition run_round :: "bool \<times> duration \<Rightarrow> run_state \<Rightarrow> run_state" where
  "run_round res s =
     (if rs_backingOff s then s
      else (case res of (ok, retryIn) \<Rightarrow>
              if ok then s\<lparr>rs_failures := 0, rs_timer := None\<rparr>
              else s\<lparr>rs_timer := Some (max (backoffDelay (rs_failures s)) retryIn),
                     rs_backingOff := True,
                     rs_failures := (if rs_failures s < maxRetryShift then rs_failures s + 1
                                     else rs_failures s)\<rparr>))"

datatype run_event = WakeSignal | TimerFired | CtxDone

text \<open>A case of the \<open>select\<close> is \<open>None\<close> while its channel is not ready.\<close>

definition run_wait :: "run_event \<Rightarrow> run_state \<Rightarrow> run_state option" where
  "run_wait ev s =
     (case ev of
        WakeSignal \<Rightarrow> if rs_wake s then Some (s\<lparr>rs_wake := False\<rparr>) else None
      | TimerFired \<Rightarrow>
          (case rs_timer s of None \<Rightarrow> None | Some _ \<Rightarrow> Some (s\<lparr>rs_backingOff := False, rs_timer := None\<rparr>))
      | CtxDone \<Rightarrow> if rs_cancelled s then Some (s\<lparr>rs_running := False\<rparr>) else None)"

definition sendWakeSignal :: "run_state \<Rightarrow> run_state" where
  "sendWakeSignal s = s\<lparr>rs_wake := True\<rparr>"

section \<open>The scrobbler interface\<close>

text \<open>
  What the loader finds, if anything: the operations of a scrobbler, over its own type of playback
  reports. \<open>None\<close> as a result is a nil error.
\<close>

record 'r scrobbler_api =
  sa_IsAuthorized :: "string \<Rightarrow> bool"
  sa_NowPlaying :: "string \<Rightarrow> media_file \<Rightarrow> int \<Rightarrow> string option"
  sa_PlaybackReport :: "'r \<Rightarrow> string option"

definition bs_Stop :: "run_state \<Rightarrow> run_state" where
  "bs_Stop s = s\<lparr>rs_cancelled := True\<rparr>"

definition bs_IsAuthorized :: "'r scrobbler_api option \<Rightarrow> string \<Rightarrow> bool" where
  "bs_IsAuthorized loaded userId = (case loaded of None \<Rightarrow> False | Some a \<Rightarrow> sa_IsAuthorized a userId)"

definition bs_NowPlaying :: "'r scrobbler_api option \<Rightarrow> string \<Rightarrow> media_file \<Rightarrow> int \<Rightarrow> string option" where
  "bs_NowPlaying loaded userId track position =
     (case loaded of None \<Rightarrow> Some ''scrobbler not available'' | Some a \<Rightarrow> sa_NowPlaying a userId track position)"

definition bs_PlaybackReport :: "'r scrobbler_api option \<Rightarrow> 'r \<Rightarrow> string option" where
  "bs_PlaybackReport loaded info =
     (case loaded of None \<Rightarrow> Some ''scrobbler not available'' | Some a \<Rightarrow> sa_PlaybackReport a info)"

text \<open>\<open>enqueueErr\<close> is the error of the insert, if it fails.\<close>

definition bs_Scrobble ::
  "string option \<Rightarrow> string \<Rightarrow> time \<Rightarrow> string \<Rightarrow> string \<Rightarrow> media_file \<Rightarrow> time \<Rightarrow> buffer_table \<times> run_state
   \<Rightarrow> (buffer_table \<times> run_state) \<times> string option" where
  "bs_Scrobble enqueueErr newID now service userId mf timeStamp x =
     (case x of (t, r) \<Rightarrow>
        (case enqueueErr of
           Some err \<Rightarrow> ((t, r), Some err)
         | None \<Rightarrow> ((buf_Enqueue newID now service userId (mf_ID mf) timeStamp t, sendWakeSignal r), None)))"

section \<open>What the drain loop relies on\<close>

text \<open>A round in which nothing fails.\<close>

definition healthy :: "'e drain_env \<Rightarrow> bool" where
  "healthy d \<longleftrightarrow> \<not> de_readFails d \<and> de_loaded d \<and> \<not> de_dequeueFails d
     \<and> (\<forall>e t. de_send d e \<noteq> SendRetryLater t)"

text \<open>
  A buffer for one service and user: \<open>pending\<close> is its content in the order it should be sent,
  \<open>nxt\<close> reads the head without removing it, and \<open>deq\<close> removes the head.
\<close>

locale scrobble_buffer =
  fixes nxt :: "'b \<Rightarrow> 'e option"
    and deq :: "'e \<Rightarrow> 'b \<Rightarrow> 'b"
    and pending :: "'b \<Rightarrow> 'e list"
    and valid :: "'b \<Rightarrow> bool"
  assumes nxt_Nil: "valid b \<Longrightarrow> pending b = [] \<Longrightarrow> nxt b = None"
    and nxt_Cons: "valid b \<Longrightarrow> pending b = e # es \<Longrightarrow> nxt b = Some e"
    and deq_head: "valid b \<Longrightarrow> pending b = e # es \<Longrightarrow> pending (deq e b) = es \<and> valid (deq e b)"
begin

lemma drain:
  "valid b \<Longrightarrow> length (pending b) < fuel \<Longrightarrow>
     \<exists>b' sent ok d k. processUserQueue nxt deq env fuel i b = Some (b', sent, ok, d) \<and> valid b'
       \<and> k \<le> length (pending b) \<and> sent = take k (pending b)
       \<and> (pending b' = drop k (pending b) \<or> (\<not> ok \<and> 0 < k \<and> pending b' = drop (k - 1) (pending b)))
       \<and> (ok \<longrightarrow> k = length (pending b))"
proof (induction fuel arbitrary: i b)
  case (Suc fuel)
  show ?case
  proof (cases "pending b")
    case Nil
    with Suc.prems nxt_Nil [of b]
    have "processUserQueue nxt deq env (Suc fuel) i b = Some (b, [], \<not> de_readFails (env i), 0)"
      by (simp add: processUserQueue.simps)
    with Nil Suc.prems(1) show ?thesis by simp
  next
    case (Cons e es)
    note n = nxt_Cons [OF Suc.prems(1) Cons] and d = deq_head [OF Suc.prems(1) Cons]
    consider (stop) r where "processUserQueue nxt deq env (Suc fuel) i b = Some (b, [], False, r)"
      | (stuck) "processUserQueue nxt deq env (Suc fuel) i b = Some (b, [e], False, 0)"
      | (go) "processUserQueue nxt deq env (Suc fuel) i b
          = (case processUserQueue nxt deq env fuel (Suc i) (deq e b) of
               None \<Rightarrow> None | Some (b', sent, r) \<Rightarrow> Some (b', e # sent, r))"
      using n by (cases "de_readFails (env i)"; cases "de_loaded (env i)"; cases "de_send (env i) e";
          cases "de_dequeueFails (env i)") (simp_all add: processUserQueue.simps)
    then show ?thesis
    proof cases
      case stop
      with Suc.prems(1) show ?thesis
        by (intro exI [of _ b] exI [of _ "[]"] exI [of _ False] exI [of _ r] exI [of _ "0::nat"]) simp
    next
      case stuck
      with Suc.prems(1) Cons show ?thesis
        by (intro exI [of _ b] exI [of _ "[e]"] exI [of _ False] exI [of _ "0::int"] exI [of _ "1::nat"]) simp
    next
      case go
      have "valid (deq e b)" "length (pending (deq e b)) < fuel" using d Cons Suc.prems(2) by auto
      from Suc.IH [OF this, of "Suc i"] conjunct1 [OF d] obtain b' sent ok r k where
        IH: "processUserQueue nxt deq env fuel (Suc i) (deq e b) = Some (b', sent, ok, r)" "valid b'"
          "k \<le> length es" "sent = take k es"
          "pending b' = drop k es \<or> (\<not> ok \<and> 0 < k \<and> pending b' = drop (k - 1) es)" "ok \<longrightarrow> k = length es"
        by metis
      then have "pending b' = drop (Suc k) (pending b)
          \<or> (\<not> ok \<and> 0 < Suc k \<and> pending b' = drop (Suc k - 1) (pending b))"
        using Cons by (cases k) auto
      with IH go Cons show ?thesis
        by (intro exI [of _ b'] exI [of _ "e # sent"] exI [of _ ok] exI [of _ r] exI [of _ "Suc k"]) simp
    qed
  qed
qed simp

lemma drain_healthy:
  "valid b \<Longrightarrow> length (pending b) < fuel \<Longrightarrow> (\<And>j. healthy (env j)) \<Longrightarrow>
     \<exists>b'. processUserQueue nxt deq env fuel i b = Some (b', pending b, True, 0)
       \<and> valid b' \<and> pending b' = []"
proof (induction fuel arbitrary: i b)
  case (Suc fuel)
  have h: "healthy (env i)" by (rule Suc.prems(3))
  show ?case
  proof (cases "pending b")
    case Nil
    with Suc.prems nxt_Nil [of b] h show ?thesis by (simp add: healthy_def processUserQueue.simps)
  next
    case (Cons e es)
    note n = nxt_Cons [OF Suc.prems(1) Cons] and d = deq_head [OF Suc.prems(1) Cons]
    have "valid (deq e b)" "length (pending (deq e b)) < fuel" using d Cons Suc.prems(2) by auto
    from Suc.IH [OF this Suc.prems(3), of "Suc i"] d obtain b' where
      "processUserQueue nxt deq env fuel (Suc i) (deq e b) = Some (b', es, True, 0)" "valid b'" "pending b' = []"
      by auto
    with h n Cons show ?thesis by (cases "de_send (env i) e") (auto simp: healthy_def processUserQueue.simps)
  qed
qed simp

end

definition buf_pending :: "string \<Rightarrow> string \<Rightarrow> buffer_table \<Rightarrow> scrobble_entry list" where
  "buf_pending service userId t = sort_key en_PlayTime (filter (of_queue service userId) t)"

definition buf_valid :: "buffer_table \<Rightarrow> bool" where
  "buf_valid t \<longleftrightarrow> distinct (map en_ID t)"

lemma buf_Dequeue_pending:
  assumes "buf_valid t" "buf_pending s u t = e # es"
  shows "buf_pending s u (buf_Dequeue e t) = es"
proof -
  have "distinct (map en_ID (filter (of_queue s u) t))"
    using assms(1) by (simp add: buf_valid_def distinct_map_filter)
  moreover have "mset (map en_ID (buf_pending s u t)) = mset (map en_ID (filter (of_queue s u) t))"
    by (simp add: buf_pending_def)
  ultimately have "distinct (map en_ID (e # es))"
    using assms(2) by (metis mset_eq_imp_distinct_iff)
  then have "filter (\<lambda>x. en_ID x \<noteq> en_ID e) (e # es) = es"
    by (auto simp: filter_id_conv) (metis image_eqI)
  moreover have "buf_pending s u (buf_Dequeue e t) = filter (\<lambda>x. en_ID x \<noteq> en_ID e) (buf_pending s u t)"
    by (simp add: buf_pending_def buf_Dequeue_def filter_sort conj_commute)
  ultimately show ?thesis using assms(2) by simp
qed

interpretation repo: scrobble_buffer "buf_Next s u" buf_Dequeue "buf_pending s u" buf_valid for s u
proof unfold_locales
  fix b e es
  assume "buf_valid b" "buf_pending s u b = e # es"
  then show "buf_pending s u (buf_Dequeue e b) = es \<and> buf_valid (buf_Dequeue e b)"
    by (simp add: buf_Dequeue_pending) (simp add: buf_valid_def buf_Dequeue_def distinct_map_filter)
qed (simp_all add: buf_Next_def buf_pending_def)

section \<open>Properties\<close>

lemma length_buf_pending: "length (buf_pending s u t) \<le> length t"
  by (simp add: buf_pending_def)



lemma backoffDelay_min:
  "backoffDelay n = min (5 * Second * 2 ^ nat n) (240 * Second)"
proof (cases "n < 6")
  case True
  then consider "n \<le> 0" | "n = 1" | "n = 2" | "n = 3" | "n = 4" | "n = 5" by linarith
  then show ?thesis
    by cases (simp_all add: backoffDelay_def maxRetryShift_def minRetryDelay_def maxRetryDelay_def Second_def
        Let_def push_bit_eq_mult)
next
  case False
  then have "(2::int) ^ 6 \<le> 2 ^ nat n" by (intro power_increasing) auto
  with False show ?thesis by (simp add: backoffDelay_def maxRetryShift_def maxRetryDelay_def Second_def)
qed

text \<open>
  The retry delay is five seconds doubled with every earlier failure, at most four minutes: the
  shift of the 64-bit duration never overflows.
\<close>

theorem backoffDelay_exact:
  "backoffDelay n = min (5 * Second * 2 ^ nat n) (240 * Second)"
  by (rule backoffDelay_min)

section \<open>A whole pass over the buffer\<close>

text \<open>Draining one user's queue does not touch the others' rows.\<close>

lemma buf_Next_of_queue: "buf_Next s u t = Some e \<Longrightarrow> e \<in> set t \<and> of_queue s u e"
proof -
  assume "buf_Next s u t = Some e"
  then obtain es where "sort_key en_PlayTime (filter (of_queue s u) t) = e # es"
    by (auto simp: buf_Next_def split: list.splits)
  then have "e \<in> set (sort_key en_PlayTime (filter (of_queue s u) t))" by (simp only: list.set_intros)
  then show ?thesis by simp
qed

lemma Dequeue_frame:
  assumes "buf_valid t" "e \<in> set t" "of_queue s u e"
  shows "filter (\<lambda>x. \<not> of_queue s u x) (buf_Dequeue e t) = filter (\<lambda>x. \<not> of_queue s u x) t"
proof -
  have "en_ID x \<noteq> en_ID e" if "x \<in> set t" "\<not> of_queue s u x" for x
    using assms that by (metis buf_valid_def distinct_map inj_on_def)
  then show ?thesis by (auto simp: buf_Dequeue_def intro: filter_cong)
qed

lemma Dequeue_valid: "buf_valid t \<Longrightarrow> buf_valid (buf_Dequeue e t)"
  by (simp add: buf_valid_def buf_Dequeue_def distinct_map_filter)

lemma processUserQueue_frame:
  "processUserQueue (buf_Next s u) buf_Dequeue env fuel i t = Some (t', r) \<Longrightarrow> buf_valid t \<Longrightarrow>
     filter (\<lambda>x. \<not> of_queue s u x) t' = filter (\<lambda>x. \<not> of_queue s u x) t"
proof (induction fuel arbitrary: i t t' r)
  case (Suc fuel)
  show ?case
  proof (cases "buf_Next s u t")
    case None
    with Suc.prems show ?thesis by (auto simp: processUserQueue.simps split: if_splits)
  next
    case (Some e)
    note e = buf_Next_of_queue [OF Some]
    have "t' = t \<or> (\<exists>r'. processUserQueue (buf_Next s u) buf_Dequeue env fuel (Suc i) (buf_Dequeue e t) = Some (t', r'))"
      using Suc.prems(1) Some by (auto simp: processUserQueue.simps split: if_splits send_result.splits option.splits)
    then show ?thesis
      using Suc.IH Dequeue_frame [OF Suc.prems(2) conjunct1 [OF e] conjunct2 [OF e]] Dequeue_valid [OF Suc.prems(2)]
      by metis
  qed
qed (simp add: processUserQueue.simps)

lemma processUserQueue_healthy:
  assumes "buf_valid t" and "\<And>j. healthy (env j)"
  shows "processUserQueue (buf_Next s u) buf_Dequeue env (Suc (length t)) 0 t
       = Some (filter (\<lambda>x. \<not> of_queue s u x) t, buf_pending s u t, True, 0)"
proof -
  have "length (buf_pending s u t) < Suc (length t)" by (simp add: length_buf_pending le_imp_less_Suc)
  from repo.drain_healthy [OF assms(1) this, of env 0] assms(2) obtain t' where
    t': "processUserQueue (buf_Next s u) buf_Dequeue env (Suc (length t)) 0 t = Some (t', buf_pending s u t, True, 0)"
      "buf_pending s u t' = []" by auto
  from t'(2) have "filter (\<lambda>x. \<not> of_queue s u x) t' = t'"
    by (simp add: buf_pending_def filter_empty_conv filter_id_conv) (metis length_0_conv length_sort filter_empty_conv)
  with processUserQueue_frame [OF t'(1) assms(1)] t'(1) show ?thesis by simp
qed

lemma process_users_healthy:
  assumes "\<And>u j. healthy (envs u j)"
  shows "buf_valid t \<Longrightarrow> distinct us \<Longrightarrow>
     \<exists>sent. process_users s envs us (True, 0) t
         = Some (filter (\<lambda>x. \<not> (en_Service x = s \<and> en_UserID x \<in> set us)) t, sent, True, 0)
       \<and> mset sent = mset (filter (\<lambda>x. en_Service x = s \<and> en_UserID x \<in> set us) t)"
proof (induction us arbitrary: t)
  case (Cons u us)
  let ?t = "filter (\<lambda>x. \<not> of_queue s u x) t"
  have "buf_valid ?t" using Cons.prems(1) by (simp add: buf_valid_def distinct_map_filter)
  from Cons.IH [OF this] Cons.prems(2) obtain sent where
    ih: "process_users s envs us (True, 0) ?t
        = Some (filter (\<lambda>x. \<not> (en_Service x = s \<and> en_UserID x \<in> set us)) ?t, sent, True, 0)"
      "mset sent = mset (filter (\<lambda>x. en_Service x = s \<and> en_UserID x \<in> set us) ?t)" by auto
  have rows: "filter (\<lambda>x. \<not> (en_Service x = s \<and> en_UserID x \<in> set us)) ?t
      = filter (\<lambda>x. \<not> (en_Service x = s \<and> en_UserID x \<in> set (u # us))) t"
    by (auto simp: of_queue_def intro: filter_cong)
  have "filter (\<lambda>x. en_Service x = s \<and> en_UserID x \<in> set us) ?t
      = filter (\<lambda>x. en_Service x = s \<and> en_UserID x \<in> set us \<and> en_UserID x \<noteq> u) t"
    by (auto simp: of_queue_def intro: filter_cong)
  then have m1: "mset sent = filter_mset (\<lambda>x. en_Service x = s \<and> en_UserID x \<in> set us \<and> en_UserID x \<noteq> u) (mset t)"
    using ih(2) by (simp add: mset_filter)
  have "mset (buf_pending s u t @ sent)
      = filter_mset (of_queue s u) (mset t)
        + filter_mset (\<lambda>x. en_Service x = s \<and> en_UserID x \<in> set us \<and> en_UserID x \<noteq> u) (mset t)"
    using m1 by (simp add: buf_pending_def)
  also have "\<dots> = mset (filter (\<lambda>x. en_Service x = s \<and> en_UserID x \<in> set (u # us)) t)"
    by (induction t) (auto simp: of_queue_def)
  finally show ?case
    using processUserQueue_healthy [OF Cons.prems(1), of "envs u" s u] assms ih(1) rows by auto
qed simp

text \<open>
  When the service accepts scrobbles, one pass empties its buffer: every buffered scrobble of
  the service is sent exactly once, none is left, the rows of the other services stay as they are,
  and the pass reports success.
\<close>

theorem processQueue_sends_everything:
  assumes "buf_valid t" and "\<forall>u j. healthy (envs u j)"
  shows "\<exists>sent. processQueue s envs False t = Some (filter (\<lambda>x. en_Service x \<noteq> s) t, sent, True, 0)
       \<and> mset sent = mset (filter (\<lambda>x. en_Service x = s) t)"
proof -
  have us: "distinct (buf_UserIDs s t)" "set (buf_UserIDs s t) = en_UserID ` set (filter (\<lambda>x. en_Service x = s) t)"
    by (simp_all add: buf_UserIDs_def Let_def)
  have "filter (\<lambda>x. \<not> (en_Service x = s \<and> en_UserID x \<in> set (buf_UserIDs s t))) t = filter (\<lambda>x. en_Service x \<noteq> s) t"
    "filter (\<lambda>x. en_Service x = s \<and> en_UserID x \<in> set (buf_UserIDs s t)) t = filter (\<lambda>x. en_Service x = s) t"
    unfolding us(2) by (auto intro: filter_cong)
  with process_users_healthy [of envs t "buf_UserIDs s t" s] assms us(1) show ?thesis
    by (simp add: processQueue_def)
qed

theorem processQueue_sends_everything_witness:
  "\<exists>sent. processQueue ''fm''
      (\<lambda>u i. \<lparr>de_readFails = False, de_loaded = True, de_send = (\<lambda>e. SendOK), de_dequeueFails = False\<rparr>) False
      [\<lparr>en_ID = ''1'', en_UserID = ''u'', en_Service = ''fm'', en_MediaFileID = ''m'', en_PlayTime = 3, en_EnqueueTime = 4\<rparr>]
    = Some ([], sent, True, 0)"
  using processQueue_sends_everything
    [of "[\<lparr>en_ID = ''1'', en_UserID = ''u'', en_Service = ''fm'', en_MediaFileID = ''m'', en_PlayTime = 3, en_EnqueueTime = 4\<rparr>]"
        "\<lambda>u i. \<lparr>de_readFails = False, de_loaded = True, de_send = (\<lambda>e. SendOK), de_dequeueFails = False\<rparr>" "''fm''"]
  by (auto simp: buf_valid_def healthy_def)

section \<open>The retry loop\<close>

text \<open>A turn of the loop, and what other goroutines do to it.\<close>

inductive run_step :: "run_state \<Rightarrow> run_state \<Rightarrow> bool" where
  rn_turn: "rs_running s \<Longrightarrow> run_wait ev (run_round res s) = Some s' \<Longrightarrow> run_step s s'"
| rn_wake: "run_step s (sendWakeSignal s)"
| rn_stop: "run_step s (bs_Stop s)"

definition run_inv :: "run_state \<Rightarrow> bool" where
  "run_inv s \<longleftrightarrow> 0 \<le> rs_failures s \<and> rs_failures s \<le> 6
     \<and> (rs_backingOff s \<longleftrightarrow> rs_timer s \<noteq> None)
     \<and> (\<forall>d. rs_timer s = Some d \<longrightarrow> 1 \<le> rs_failures s \<and> backoffDelay (rs_failures s - 1) \<le> d)"

lemma backoffDelay_mono: "m \<le> n \<Longrightarrow> backoffDelay m \<le> backoffDelay n"
  unfolding backoffDelay_min
  by (intro min.mono mult_left_mono power_increasing nat_mono order_refl) (auto simp: Second_def)

lemma run_inv_turn:
  assumes "run_inv s" "run_wait ev (run_round res s) = Some t"
  shows "run_inv t"
proof -
  have "run_inv (run_round res s)"
    using assms(1) backoffDelay_mono [of 5 6]
    by (cases res) (auto simp: run_inv_def run_round_def maxRetryShift_def)
  with assms(2) show ?thesis
    by (auto simp: run_inv_def run_wait_def split: run_event.splits option.splits if_splits)
qed

lemma run_inv_signals [simp]: "run_inv (sendWakeSignal s) = run_inv s" "run_inv (bs_Stop s) = run_inv s"
  by (simp_all add: run_inv_def sendWakeSignal_def bs_Stop_def)

interpretation rl: step_invariant "\<lambda>s. s = run_init" run_step run_inv
proof unfold_locales
  show "\<And>s. s = run_init \<Longrightarrow> run_inv s" by (simp add: run_inv_def run_init_def)
  show "\<And>s t. run_inv s \<Longrightarrow> run_step s t \<Longrightarrow> run_inv t"
    by (erule run_step.cases) (auto intro: run_inv_turn)
qed

text \<open>
  A failing service is not hammered, and no wake-up is lost. In every state of the retry loop a
  backoff window is open exactly when the timer is armed; the window is at least the exponential delay
  for the number of failures so far; and while it is open a turn leaves the failures and the window as
  they are unless the timer fires, which ends it. A failed pass opens a window of at least the delay for
  its failures; a successful one starts counting afresh; and a scrobble that was buffered while the
  loop was busy makes its next wait return at once.
\<close>

theorem retry_loop_backs_off:
  assumes "reachable (\<lambda>s. s = run_init) run_step s"
  shows "(rs_backingOff s \<longleftrightarrow> rs_timer s \<noteq> None)
     \<and> (\<forall>d. rs_timer s = Some d \<longrightarrow> backoffDelay (rs_failures s - 1) \<le> d)
     \<and> (rs_backingOff s \<and> ev \<noteq> TimerFired \<and> run_wait ev (run_round res s) = Some s' \<longrightarrow>
          rs_backingOff s' \<and> rs_timer s' = rs_timer s \<and> rs_failures s' = rs_failures s)
     \<and> (rs_backingOff s \<longrightarrow> run_wait TimerFired (run_round res s) \<noteq> None)
     \<and> (\<not> rs_backingOff s \<and> run_round (False, r) s = s' \<longrightarrow>
          rs_timer s' = Some (max (backoffDelay (rs_failures s)) r) \<and> rs_failures s' = min 6 (rs_failures s + 1))
     \<and> (\<not> rs_backingOff s \<longrightarrow> rs_failures (run_round (True, d) s) = 0)
     \<and> run_wait WakeSignal (run_round res (sendWakeSignal s)) \<noteq> None"
proof -
  have "run_inv s" using assms by (rule rl.reachable_inv)
  then show ?thesis
    by (cases res) (auto simp: run_inv_def run_round_def run_wait_def sendWakeSignal_def maxRetryShift_def
        split: run_event.splits option.splits if_splits)
qed

theorem retry_loop_backs_off_witness:
  "rs_timer (run_round (False, 0) run_init) = Some (5 * Second)"
proof -
  have "reachable (\<lambda>s. s = run_init) run_step run_init" by (rule reach_init) simp
  from retry_loop_backs_off [OF this, of _ _ "run_round (False, 0) run_init" 0]
  show ?thesis by (simp add: run_init_def backoffDelay_min Second_def)
qed

end
