(* ===== verification/QuickConnect.thy ===== *)
theory QuickConnect
  imports Media
begin

text \<open>
  Quick Connect (\<open>core/quickconnect/quickconnect.go\<close>): a client shows a code, a signed-in user
  approves it, and the client redeems its secret once. The two Go maps index the same heap-allocated
  entries, and \<open>Authorize\<close> changes an entry through one map that \<open>Redeem\<close> then reads through the
  other, so the store has an explicit heap: the maps hold addresses. Every operation runs under the
  mutex and is atomic. The random secret and the random numbers behind a code are arguments; the loop
  that draws codes returns \<open>None\<close> when the given draws are used up before a free code is found.
\<close>

definition qc_timeout :: duration where "qc_timeout = 10 * 60 * Second"

definition maxPending :: nat where "maxPending = 1000"

datatype qc_error = ErrAlreadyAuthorized | ErrTooManyRequests | ErrNotFound

record qc_device =
  qd_ID :: string
  qd_Name :: string
  qd_App :: string
  qd_AppVersion :: string

record qc_request =
  qr_Device :: qc_device
  qr_Secret :: string
  qr_Code :: string
  qr_DateAdded :: time
  qr_UserID :: string

record qc_entry = qc_request +
  qe_expiresAt :: time

definition Authorized :: "'a qc_request_scheme \<Rightarrow> bool" where
  "Authorized r \<longleftrightarrow> qr_UserID r \<noteq> []"

record qc_store =
  qc_heap :: "nat \<Rightarrow> qc_entry"
  qc_free :: nat
  qc_bySecret :: "(string \<times> nat) list"
  qc_byCode :: "(string \<times> nat) list"

definition map_delete :: "'k \<Rightarrow> ('k \<times> 'v) list \<Rightarrow> ('k \<times> 'v) list" where
  "map_delete k m = filter (\<lambda>x. fst x \<noteq> k) m"

definition map_put :: "'k \<Rightarrow> 'v \<Rightarrow> ('k \<times> 'v) list \<Rightarrow> ('k \<times> 'v) list" where
  "map_put k v m = (k, v) # map_delete k m"

definition newStore :: "(nat \<Rightarrow> qc_entry) \<Rightarrow> qc_store" where
  "newStore h = \<lparr>qc_heap = h, qc_free = 0, qc_bySecret = [], qc_byCode = []\<rparr>"

definition qc_remove :: "nat \<Rightarrow> qc_store \<Rightarrow> qc_store" where
  "qc_remove a s =
     s\<lparr>qc_bySecret := map_delete (qr_Secret (qc_heap s a)) (qc_bySecret s),
       qc_byCode := map_delete (qr_Code (qc_heap s a)) (qc_byCode s)\<rparr>"

text \<open>The loop of \<open>expire\<close> over the entries by secret.\<close>

definition expire_one :: "time \<Rightarrow> qc_store \<Rightarrow> string \<times> nat \<Rightarrow> qc_store" where
  "expire_one now s x = (if \<not> now < qe_expiresAt (qc_heap s (snd x)) then qc_remove (snd x) s else s)"

definition qc_expire :: "time \<Rightarrow> qc_store \<Rightarrow> qc_store" where
  "qc_expire now s = foldl (expire_one now) s (qc_bySecret s)"

definition code_of :: "int \<Rightarrow> string" where
  "code_of n = Itoa (n + 100000)"

fun newCode :: "int list \<Rightarrow> (string \<times> nat) list \<Rightarrow> string option" where
  "newCode [] byCode = None"
| "newCode (d # ds) byCode =
     (if map_of byCode (code_of d) = None then Some (code_of d) else newCode ds byCode)"

definition normalizeCode :: "string \<Rightarrow> string" where
  "normalizeCode code = Join (Fields code) []"

definition Initiate ::
  "int list \<Rightarrow> string \<Rightarrow> time \<Rightarrow> qc_device \<Rightarrow> qc_store \<Rightarrow> (qc_store \<times> (qc_error + qc_request)) option" where
  "Initiate draws secret now device s0 =
     (let s = qc_expire now s0
      in if length (qc_bySecret s) \<ge> maxPending then Some (s, Inl ErrTooManyRequests)
         else (case newCode draws (qc_byCode s) of
                 None \<Rightarrow> None
               | Some code \<Rightarrow>
                   (let r = \<lparr>qr_Device = device, qr_Secret = secret, qr_Code = code, qr_DateAdded = now,
                             qr_UserID = []\<rparr>;
                        e = qc_request.extend r \<lparr>qe_expiresAt = now + qc_timeout\<rparr>;
                        a = qc_free s
                    in Some (s\<lparr>qc_heap := (qc_heap s)(a := e), qc_free := Suc a,
                               qc_bySecret := map_put secret a (qc_bySecret s),
                               qc_byCode := map_put code a (qc_byCode s)\<rparr>, Inr r))))"

definition findBySecret :: "time \<Rightarrow> string \<Rightarrow> qc_store \<Rightarrow> qc_store \<times> (qc_error + nat)" where
  "findBySecret now key s0 =
     (let s = qc_expire now s0
      in case map_of (qc_bySecret s) key of None \<Rightarrow> (s, Inl ErrNotFound) | Some a \<Rightarrow> (s, Inr a))"

definition findPending :: "time \<Rightarrow> string \<Rightarrow> qc_store \<Rightarrow> qc_store \<times> (qc_error + nat)" where
  "findPending now code s0 =
     (let s = qc_expire now s0
      in case map_of (qc_byCode s) (normalizeCode code) of
           None \<Rightarrow> (s, Inl ErrNotFound)
         | Some a \<Rightarrow> if Authorized (qc_heap s a) then (s, Inl ErrAlreadyAuthorized) else (s, Inr a))"

definition qc_Status :: "time \<Rightarrow> string \<Rightarrow> qc_store \<Rightarrow> qc_store \<times> (qc_error + qc_request)" where
  "qc_Status now secret s0 =
     (case findBySecret now secret s0 of
        (s, Inl e) \<Rightarrow> (s, Inl e)
      | (s, Inr a) \<Rightarrow> (s, Inr (qc_request.truncate (qc_heap s a))))"

definition qc_Lookup :: "time \<Rightarrow> string \<Rightarrow> qc_store \<Rightarrow> qc_store \<times> (qc_error + qc_request)" where
  "qc_Lookup now code s0 =
     (case findPending now code s0 of
        (s, Inl e) \<Rightarrow> (s, Inl e)
      | (s, Inr a) \<Rightarrow> (s, Inr (qc_request.truncate (qc_heap s a))))"

definition qc_Authorize ::
  "time \<Rightarrow> string \<Rightarrow> string \<Rightarrow> qc_store \<Rightarrow> qc_store \<times> (qc_error + qc_request)" where
  "qc_Authorize now code userID s0 =
     (case findPending now code s0 of
        (s, Inl e) \<Rightarrow> (s, Inl e)
      | (s, Inr a) \<Rightarrow>
          (let e = (qc_heap s a)\<lparr>qr_UserID := userID, qe_expiresAt := now + qc_timeout\<rparr>
           in (s\<lparr>qc_heap := (qc_heap s)(a := e)\<rparr>, Inr (qc_request.truncate e))))"

definition qc_Redeem :: "time \<Rightarrow> string \<Rightarrow> qc_store \<Rightarrow> qc_store \<times> (qc_error + string)" where
  "qc_Redeem now secret s0 =
     (case findBySecret now secret s0 of
        (s, Inl e) \<Rightarrow> (s, Inl ErrNotFound)
      | (s, Inr a) \<Rightarrow>
          (if \<not> Authorized (qc_heap s a) then (s, Inl ErrNotFound)
           else (qc_remove a s, Inr (qr_UserID (qc_heap s a)))))"

section \<open>The abstract store\<close>

text \<open>
  What the two maps and the heap stand for: a map from secrets to entries. The specification of each
  operation works on that map alone.
\<close>

type_synonym qc_spec = "string \<rightharpoonup> qc_entry"

definition qc_abs :: "qc_store \<Rightarrow> qc_spec" where
  "qc_abs s = (\<lambda>k. map_option (qc_heap s) (map_of (qc_bySecret s) k))"

definition spec_expire :: "time \<Rightarrow> qc_spec \<Rightarrow> qc_spec" where
  "spec_expire now m = (\<lambda>k. case m k of
     Some e \<Rightarrow> if now < qe_expiresAt e then Some e else None | None \<Rightarrow> None)"

text \<open>The two maps agree: they index the same entries, by the keys stored in them.\<close>

definition qc_inv :: "qc_store \<Rightarrow> bool" where
  "qc_inv s \<longleftrightarrow>
     distinct (map fst (qc_bySecret s)) \<and> distinct (map fst (qc_byCode s))
     \<and> length (qc_bySecret s) \<le> maxPending
     \<and> (\<forall>(k, a)\<in>set (qc_bySecret s). a < qc_free s \<and> qr_Secret (qc_heap s a) = k
          \<and> (qr_Code (qc_heap s a), a) \<in> set (qc_byCode s))
     \<and> (\<forall>(c, a)\<in>set (qc_byCode s). qr_Code (qc_heap s a) = c
          \<and> (qr_Secret (qc_heap s a), a) \<in> set (qc_bySecret s))"

lemma set_map_delete [simp]: "set (map_delete k m) = {x \<in> set m. fst x \<noteq> k}"
  by (auto simp: map_delete_def)

lemma map_of_delete: "map_of (map_delete k m) k' = (if k' = k then None else map_of m k')"
  by (induction m) (auto simp: map_delete_def)

lemma distinct_delete: "distinct (map fst m) \<Longrightarrow> distinct (map fst (map_delete k m))"
  by (simp add: map_delete_def distinct_map_filter)

lemma length_delete: "length (map_delete k m) \<le> length m"
  by (simp add: map_delete_def)

lemma inv_entry:
  assumes "qc_inv s" "map_of (qc_bySecret s) k = Some a"
  shows "qr_Secret (qc_heap s a) = k" "map_of (qc_byCode s) (qr_Code (qc_heap s a)) = Some a" "a < qc_free s"
  using assms map_of_SomeD [OF assms(2)] by (auto simp: qc_inv_def)

lemma inv_code:
  assumes "qc_inv s" "map_of (qc_byCode s) c = Some a"
  shows "qr_Code (qc_heap s a) = c" "map_of (qc_bySecret s) (qr_Secret (qc_heap s a)) = Some a"
  using assms map_of_SomeD [OF assms(2)] by (auto simp: qc_inv_def)

lemma inv_remove:
  assumes "qc_inv s" "map_of (qc_bySecret s) k = Some a"
  shows "qc_inv (qc_remove a s)" and "qc_abs (qc_remove a s) = (qc_abs s)(k := None)"
proof -
  note e = inv_entry [OF assms]
  have same: "b = a" if "(c, b) \<in> set (qc_byCode s)" "qr_Secret (qc_heap s b) = k" for b c
  proof -
    from that assms(1) have "(k, b) \<in> set (qc_bySecret s)" by (auto simp: qc_inv_def)
    with assms show ?thesis by (auto simp: qc_inv_def dest: map_of_is_SomeI)
  qed
  have same': "b = a" if "(l, b) \<in> set (qc_bySecret s)" "qr_Code (qc_heap s b) = qr_Code (qc_heap s a)" for b l
  proof -
    from that assms(1) have "(qr_Code (qc_heap s a), b) \<in> set (qc_byCode s)" by (auto simp: qc_inv_def)
    with e(2) assms(1) show ?thesis by (auto simp: qc_inv_def dest: map_of_is_SomeI)
  qed
  have "distinct (map fst (map_delete k (qc_bySecret s)))"
    "distinct (map fst (map_delete (qr_Code (qc_heap s a)) (qc_byCode s)))"
    "length (map_delete k (qc_bySecret s)) \<le> maxPending"
    using assms(1) length_delete [of k "qc_bySecret s"] by (auto simp: qc_inv_def distinct_delete)
  moreover have "b < qc_free s \<and> qr_Secret (qc_heap s b) = l \<and> (qr_Code (qc_heap s b), b) \<in> set (qc_byCode s)
      \<and> qr_Code (qc_heap s b) \<noteq> qr_Code (qc_heap s a)" if "(l, b) \<in> set (qc_bySecret s)" "l \<noteq> k" for l b
    using assms(1) that same' [OF that(1)] e(1) by (auto simp: qc_inv_def)
  moreover have "qr_Code (qc_heap s b) = c \<and> (qr_Secret (qc_heap s b), b) \<in> set (qc_bySecret s)
      \<and> qr_Secret (qc_heap s b) \<noteq> k" if "(c, b) \<in> set (qc_byCode s)" "c \<noteq> qr_Code (qc_heap s a)" for c b
    using assms(1) that same [OF that(1)] by (auto simp: qc_inv_def)
  ultimately show "qc_inv (qc_remove a s)"
    unfolding qc_inv_def qc_remove_def by (auto simp: e(1))
  show "qc_abs (qc_remove a s) = (qc_abs s)(k := None)"
    using e(1) by (auto simp: qc_abs_def qc_remove_def map_of_delete)
qed

lemma expire_loop:
  assumes "qc_inv s" "distinct (map fst xs)" "\<forall>(k, a)\<in>set xs. map_of (qc_bySecret s) k = Some a"
  shows "qc_inv (foldl (expire_one now) s xs) \<and> qc_heap (foldl (expire_one now) s xs) = qc_heap s \<and> qc_free (foldl (expire_one now) s xs) = qc_free s
     \<and> qc_abs (foldl (expire_one now) s xs)
       = (\<lambda>k. if k \<in> fst ` set xs then spec_expire now (qc_abs s) k else qc_abs s k)"
  using assms(1-3)
proof (induction xs arbitrary: s)
  case (Cons x xs)
  obtain k a where x: "x = (k, a)" by fastforce
  with Cons.prems have ka: "map_of (qc_bySecret s) k = Some a" by simp
  let ?s = "expire_one now s (k, a)"
  have inv: "qc_inv ?s" "qc_heap ?s = qc_heap s" "qc_free ?s = qc_free s"
    and abs: "qc_abs ?s = (qc_abs s)(k := spec_expire now (qc_abs s) k)"
    using Cons.prems(1) inv_remove [OF Cons.prems(1) ka] ka
    by (auto simp: expire_one_def qc_remove_def qc_abs_def spec_expire_def)
  have "map_of (qc_bySecret ?s) l = Some b" if "(l, b) \<in> set xs" for l b
  proof -
    from that Cons.prems(2) x have "l \<noteq> k" by force
    moreover from that Cons.prems(3) have "map_of (qc_bySecret s) l = Some b" by auto
    ultimately show ?thesis
      using inv_entry(1) [OF Cons.prems(1) ka] by (simp add: expire_one_def qc_remove_def map_of_delete)
  qed
  then have "\<forall>(l, b)\<in>set xs. map_of (qc_bySecret ?s) l = Some b" by auto
  with Cons.IH [OF inv(1)] Cons.prems(2) x inv(2,3) abs show ?case
    by (auto simp: spec_expire_def fun_eq_iff)
qed simp

lemma qc_expire_spec:
  assumes "qc_inv s"
  shows "qc_inv (qc_expire now s)" "qc_heap (qc_expire now s) = qc_heap s" "qc_free (qc_expire now s) = qc_free s"
    "qc_abs (qc_expire now s) = spec_expire now (qc_abs s)"
proof -
  have "distinct (map fst (qc_bySecret s))" using assms by (simp add: qc_inv_def)
  then have "\<forall>(k, a)\<in>set (qc_bySecret s). map_of (qc_bySecret s) k = Some a" by (auto simp: map_of_is_SomeI)
  note l = expire_loop [OF assms \<open>distinct (map fst (qc_bySecret s))\<close> this, of now]
  show "qc_inv (qc_expire now s)" "qc_heap (qc_expire now s) = qc_heap s" "qc_free (qc_expire now s) = qc_free s"
    using l by (simp_all add: qc_expire_def)
  have "qc_abs s k = None" if "k \<notin> fst ` set (qc_bySecret s)" for k
    using that by (simp add: qc_abs_def map_of_eq_None_iff)
  then show "qc_abs (qc_expire now s) = spec_expire now (qc_abs s)"
    using l by (auto simp: qc_expire_def spec_expire_def fun_eq_iff)
qed

lemma newCode_fresh: "newCode ds m = Some c \<Longrightarrow> map_of m c = None"
  by (induction ds) (auto split: if_splits)

text \<open>A new entry keeps the maps in agreement, given a secret that is not in use.\<close>

lemma inv_insert:
  assumes "qc_inv s" "map_of (qc_bySecret s) sec = None" "map_of (qc_byCode s) c = None"
    and "length (qc_bySecret s) < maxPending" "qr_Secret e = sec" "qr_Code e = c"
  defines "s' \<equiv> s\<lparr>qc_heap := (qc_heap s)(qc_free s := e), qc_free := Suc (qc_free s),
      qc_bySecret := map_put sec (qc_free s) (qc_bySecret s), qc_byCode := map_put c (qc_free s) (qc_byCode s)\<rparr>"
  shows "qc_inv s'" and "qc_abs s' = (qc_abs s)(sec \<mapsto> e)"
proof -
  have nk: "sec \<notin> fst ` set (qc_bySecret s)" "c \<notin> fst ` set (qc_byCode s)"
    using assms(2,3) by (simp_all add: map_of_eq_None_iff)
  then have id: "map_delete sec (qc_bySecret s) = qc_bySecret s" "map_delete c (qc_byCode s) = qc_byCode s"
    by (force simp: map_delete_def filter_id_conv)+
  have old: "a < qc_free s" if "(k, a) \<in> set (qc_bySecret s)" for k a
    using that assms(1) by (auto simp: qc_inv_def)
  have old': "a < qc_free s" if "(k, a) \<in> set (qc_byCode s)" for k a
    using that assms(1) old by (auto simp: qc_inv_def)
  show "qc_inv s'"
    using assms(1,4-6) nk old old' unfolding qc_inv_def s'_def map_put_def id
    by (auto dest: old old')
  have "(x, qc_free s) \<notin> set (qc_bySecret s)" for x using old by blast
  then show "qc_abs s' = (qc_abs s)(sec \<mapsto> e)"
    by (auto simp: qc_abs_def s'_def map_put_def id fun_eq_iff dest!: map_of_SomeD
        intro!: option.map_cong split: option.splits)
qed

lemma Initiate_spec:
  assumes "qc_inv s" "Initiate draws secret now dev s = Some (s', Inr r)" "qc_abs s secret = None"
  shows "qc_inv s'" "qr_Secret r = secret"
    "qc_abs s' = (spec_expire now (qc_abs s))(secret \<mapsto> qc_request.extend r \<lparr>qe_expiresAt = now + qc_timeout\<rparr>)"
    "qr_UserID r = []"
proof -
  let ?s = "qc_expire now s"
  note x = qc_expire_spec [OF assms(1), of now]
  from assms(2) obtain code where len: "length (qc_bySecret ?s) < maxPending"
    and code: "newCode draws (qc_byCode ?s) = Some code"
    and r: "r = \<lparr>qr_Device = dev, qr_Secret = secret, qr_Code = code, qr_DateAdded = now, qr_UserID = []\<rparr>"
    and s': "s' = ?s\<lparr>qc_heap := (qc_heap ?s)(qc_free ?s := qc_request.extend r \<lparr>qe_expiresAt = now + qc_timeout\<rparr>),
        qc_free := Suc (qc_free ?s), qc_bySecret := map_put secret (qc_free ?s) (qc_bySecret ?s),
        qc_byCode := map_put code (qc_free ?s) (qc_byCode ?s)\<rparr>"
    by (auto simp: Initiate_def Let_def split: if_splits option.splits)
  have "qc_abs ?s secret = None" using x(4) assms(3) by (simp add: spec_expire_def)
  then have "map_of (qc_bySecret ?s) secret = None" by (simp add: qc_abs_def)
  note ins = inv_insert [OF x(1) this newCode_fresh [OF code] len,
      of "qc_request.extend r \<lparr>qe_expiresAt = now + qc_timeout\<rparr>"]
  show "qc_inv s'" using ins(1) by (simp add: s' r qc_request.defs)
  show "qr_Secret r = secret" by (simp add: r)
  show "qc_abs s' = (spec_expire now (qc_abs s))(secret \<mapsto> qc_request.extend r \<lparr>qe_expiresAt = now + qc_timeout\<rparr>)"
    using ins(2) x(4) by (auto simp: s' r qc_request.defs)
  show "qr_UserID r = []" by (simp add: r)
qed

lemma inv_update:
  assumes "qc_inv s" "map_of (qc_bySecret s) k = Some a" "qr_Secret e = qr_Secret (qc_heap s a)"
    "qr_Code e = qr_Code (qc_heap s a)"
  shows "qc_inv (s\<lparr>qc_heap := (qc_heap s)(a := e)\<rparr>)"
    and "qc_abs (s\<lparr>qc_heap := (qc_heap s)(a := e)\<rparr>) = (qc_abs s)(k \<mapsto> e)"
proof -
  define h where "h = (qc_heap s)(a := e)"
  have keys: "qr_Secret (h b) = qr_Secret (qc_heap s b)" "qr_Code (h b) = qr_Code (qc_heap s b)" for b
    unfolding h_def using assms(3,4) by (cases "b = a", simp_all)+
  have "qc_inv (s\<lparr>qc_heap := h\<rparr>)"
    using assms(1) by (simp add: qc_inv_def keys)
  then show "qc_inv (s\<lparr>qc_heap := (qc_heap s)(a := e)\<rparr>)" by (simp add: h_def)
  have only: "l = k" if "map_of (qc_bySecret s) l = Some a" for l
    using inv_entry(1) [OF assms(1) that] inv_entry(1) [OF assms(1,2)] by simp
  show "qc_abs (s\<lparr>qc_heap := (qc_heap s)(a := e)\<rparr>) = (qc_abs s)(k \<mapsto> e)"
  proof (rule ext)
    fix l
    show "qc_abs (s\<lparr>qc_heap := (qc_heap s)(a := e)\<rparr>) l = ((qc_abs s)(k \<mapsto> e)) l"
    proof (cases "l = k")
      case True
      with assms(2) show ?thesis by (simp add: qc_abs_def)
    next
      case False
      with only have "map_of (qc_bySecret s) l \<noteq> Some a" by blast
      with False show ?thesis by (cases "map_of (qc_bySecret s) l") (simp_all add: qc_abs_def)
    qed
  qed
qed

lemma Authorize_spec:
  assumes "qc_inv s" "qc_Authorize now code u s = (s', Inr r)"
  shows "qc_inv s'"
    "\<exists>e e'. spec_expire now (qc_abs s) (qr_Secret r) = Some e \<and> qr_UserID e = [] \<and> qr_UserID e' = u
       \<and> qc_abs s' = (spec_expire now (qc_abs s))(qr_Secret r \<mapsto> e')"
proof -
  let ?s = "qc_expire now s"
  note x = qc_expire_spec [OF assms(1), of now]
  from assms(2) obtain a where a: "map_of (qc_byCode ?s) (normalizeCode code) = Some a"
    and na: "qr_UserID (qc_heap ?s a) = []"
    and r: "r = qc_request.truncate ((qc_heap ?s a)\<lparr>qr_UserID := u, qe_expiresAt := now + qc_timeout\<rparr>)"
    and s': "s' = ?s\<lparr>qc_heap := (qc_heap ?s)(a := (qc_heap ?s a)\<lparr>qr_UserID := u, qe_expiresAt := now + qc_timeout\<rparr>)\<rparr>"
    by (auto simp: qc_Authorize_def findPending_def Authorized_def Let_def split: option.splits if_splits)
  note b = inv_code(2) [OF x(1) a]
  have rs: "qr_Secret r = qr_Secret (qc_heap ?s a)" by (simp add: r qc_request.defs)
  note up = inv_update [OF x(1) b, of "(qc_heap ?s a)\<lparr>qr_UserID := u, qe_expiresAt := now + qc_timeout\<rparr>"]
  show "qc_inv s'" using up(1) by (simp add: s')
  have "qc_abs ?s (qr_Secret r) = Some (qc_heap ?s a)" using b rs by (simp add: qc_abs_def)
  with up(2) na x(4) rs show "\<exists>e e'. spec_expire now (qc_abs s) (qr_Secret r) = Some e \<and> qr_UserID e = [] \<and> qr_UserID e' = u
       \<and> qc_abs s' = (spec_expire now (qc_abs s))(qr_Secret r \<mapsto> e')"
    by (intro exI [of _ "qc_heap ?s a"] exI conjI) (auto simp: s')
qed

lemma Redeem_spec:
  assumes "qc_inv s" "qc_Redeem now secret s = (s', Inr u)"
  shows "qc_inv s'" "\<exists>e. spec_expire now (qc_abs s) secret = Some e \<and> qr_UserID e = u \<and> u \<noteq> []"
    "qc_abs s' = (spec_expire now (qc_abs s))(secret := None)"
proof -
  let ?s = "qc_expire now s"
  note x = qc_expire_spec [OF assms(1), of now]
  from assms(2) obtain a where a: "map_of (qc_bySecret ?s) secret = Some a"
    and u: "u = qr_UserID (qc_heap ?s a)" "u \<noteq> []" and s': "s' = qc_remove a ?s"
    by (auto simp: qc_Redeem_def findBySecret_def Authorized_def Let_def split: option.splits if_splits)
  note rm = inv_remove [OF x(1) a]
  show "qc_inv s'" "qc_abs s' = (spec_expire now (qc_abs s))(secret := None)" using rm x(4) by (simp_all add: s')
  have "qc_abs ?s secret = Some (qc_heap ?s a)" using a by (simp add: qc_abs_def)
  with x(4) u show "\<exists>e. spec_expire now (qc_abs s) secret = Some e \<and> qr_UserID e = u \<and> u \<noteq> []" by auto
qed

section \<open>Runs\<close>

text \<open>
  A run interleaves the operations and logs what they answered. A new secret is 32 random bytes; runs
  are those in which no secret is drawn twice.
\<close>

datatype qc_event = Issued string | Approved string string | Redeemed string string

inductive qc_step :: "qc_store \<times> qc_event list \<Rightarrow> qc_store \<times> qc_event list \<Rightarrow> bool" where
  qs_initiate: "Initiate draws secret now dev s = Some (s', Inr r) \<Longrightarrow> Issued secret \<notin> set ev \<Longrightarrow>
     qc_step (s, ev) (s', Issued secret # ev)"
| qs_refused: "Initiate draws secret now dev s = Some (s', Inl e) \<Longrightarrow> qc_step (s, ev) (s', ev)"
| qs_authorize: "qc_Authorize now code u s = (s', Inr r) \<Longrightarrow> u \<noteq> [] \<Longrightarrow>
     qc_step (s, ev) (s', Approved (qr_Secret r) u # ev)"
| qs_not_authorized: "qc_Authorize now code u s = (s', Inl e) \<Longrightarrow> qc_step (s, ev) (s', ev)"
| qs_redeem: "qc_Redeem now secret s = (s', Inr u) \<Longrightarrow> qc_step (s, ev) (s', Redeemed secret u # ev)"
| qs_not_redeemed: "qc_Redeem now secret s = (s', Inl e) \<Longrightarrow> qc_step (s, ev) (s', ev)"
| qs_status: "qc_step (s, ev) (fst (qc_Status now secret s), ev)"
| qs_lookup: "qc_step (s, ev) (fst (qc_Lookup now code s), ev)"

inductive_cases qc_stepE: "qc_step x y"

definition qc_init :: "qc_store \<times> qc_event list \<Rightarrow> bool" where
  "qc_init x \<longleftrightarrow> (\<exists>h. x = (newStore h, []))"

definition approvals :: "string \<Rightarrow> qc_event list \<Rightarrow> string list" where
  "approvals k ev = [u. Approved l u \<leftarrow> ev, l = k]"

definition redemptions :: "string \<Rightarrow> qc_event list \<Rightarrow> string list" where
  "redemptions k ev = [u. Redeemed l u \<leftarrow> ev, l = k]"

lemma log_simps [simp]:
  "approvals k [] = []" "redemptions k [] = []"
  "approvals k (Issued l # ev) = approvals k ev" "redemptions k (Issued l # ev) = redemptions k ev"
  "approvals k (Approved l u # ev) = (if l = k then u # approvals k ev else approvals k ev)"
  "redemptions k (Approved l u # ev) = redemptions k ev"
  "approvals k (Redeemed l u # ev) = approvals k ev"
  "redemptions k (Redeemed l u # ev) = (if l = k then u # redemptions k ev else redemptions k ev)"
  by (simp_all add: approvals_def redemptions_def)

text \<open>
  What the log says of a secret, given its entry in the store: none, waiting, approved; and after it is
  gone.
\<close>

definition log_ok :: "qc_event list \<Rightarrow> string \<Rightarrow> qc_entry option \<Rightarrow> bool" where
  "log_ok ev k x \<longleftrightarrow>
     (case x of
        Some e \<Rightarrow> Issued k \<in> set ev \<and> redemptions k ev = []
          \<and> approvals k ev = (if qr_UserID e = [] then [] else [qr_UserID e])
      | None \<Rightarrow> (Issued k \<notin> set ev \<longrightarrow> approvals k ev = [] \<and> redemptions k ev = [])
          \<and> length (approvals k ev) \<le> 1 \<and> (redemptions k ev = [] \<or> redemptions k ev = approvals k ev))"

definition qc_log_inv :: "qc_store \<times> qc_event list \<Rightarrow> bool" where
  "qc_log_inv x \<longleftrightarrow> (case x of (s, ev) \<Rightarrow> qc_inv s \<and> (\<forall>k. log_ok ev k (qc_abs s k)))"

lemma log_ok_expire: "log_ok ev k (m k) \<Longrightarrow> log_ok ev k (spec_expire now m k)"
  by (auto simp: log_ok_def spec_expire_def split: option.splits if_splits)

lemma log_inv_expire:
  "qc_log_inv (s, ev) \<Longrightarrow> qc_log_inv (qc_expire now s, ev)"
  by (simp add: qc_log_inv_def qc_expire_spec log_ok_expire)

lemma failed_ops:
  "Initiate draws secret now dev s = Some (s', Inl e) \<Longrightarrow> s' = qc_expire now s"
  "qc_Authorize now code u s = (s', Inl e) \<Longrightarrow> s' = qc_expire now s"
  "qc_Redeem now secret s = (s', Inl e) \<Longrightarrow> s' = qc_expire now s"
  "fst (qc_Status now secret s) = qc_expire now s" "fst (qc_Lookup now code s) = qc_expire now s"
  by (auto simp: Initiate_def qc_Authorize_def qc_Redeem_def qc_Status_def qc_Lookup_def findBySecret_def
      findPending_def Let_def split: option.splits if_splits)

lemma log_inv_initiate:
  assumes "qc_log_inv (s, ev)" "Initiate draws secret now dev s = Some (s', Inr r)" "Issued secret \<notin> set ev"
  shows "qc_log_inv (s', Issued secret # ev)"
proof -
  have inv: "qc_inv s" and log: "log_ok ev k (qc_abs s k)" for k
    using assms(1) by (auto simp: qc_log_inv_def)
  have none: "qc_abs s secret = None"
    using log [of secret] assms(3) by (auto simp: log_ok_def split: option.splits)
  note i = Initiate_spec [OF inv assms(2) none]
  then obtain e where
    s': "qc_inv s'" "qc_abs s' = (spec_expire now (qc_abs s))(secret \<mapsto> e)" "qr_UserID e = []"
    by (simp add: qc_request.defs)
  have "log_ok (Issued secret # ev) k (qc_abs s' k)" for k
    using log_ok_expire [of ev k "qc_abs s" now, OF log] log [of secret] none assms(3)
    by (cases "k = secret") (auto simp: s' log_ok_def split: option.splits)
  with s'(1) show ?thesis by (simp add: qc_log_inv_def)
qed

lemma log_inv_authorize:
  assumes "qc_log_inv (s, ev)" "qc_Authorize now code u s = (s', Inr r)" "u \<noteq> []"
  shows "qc_log_inv (s', Approved (qr_Secret r) u # ev)"
proof -
  have inv: "qc_inv s" and log: "log_ok ev k (qc_abs s k)" for k
    using assms(1) by (auto simp: qc_log_inv_def)
  from Authorize_spec [OF inv assms(2)] obtain e e' where
    s': "qc_inv s'" "spec_expire now (qc_abs s) (qr_Secret r) = Some e" "qr_UserID e = []" "qr_UserID e' = u"
      "qc_abs s' = (spec_expire now (qc_abs s))(qr_Secret r \<mapsto> e')" by blast
  have "log_ok (Approved (qr_Secret r) u # ev) k (qc_abs s' k)" for k
    using log_ok_expire [of ev k "qc_abs s" now, OF log] s' assms(3)
    by (cases "k = qr_Secret r") (auto simp: log_ok_def split: option.splits)
  with s'(1) show ?thesis by (simp add: qc_log_inv_def)
qed

lemma log_inv_redeem:
  assumes "qc_log_inv (s, ev)" "qc_Redeem now secret s = (s', Inr u)"
  shows "qc_log_inv (s', Redeemed secret u # ev)"
proof -
  have inv: "qc_inv s" and log: "log_ok ev k (qc_abs s k)" for k
    using assms(1) by (auto simp: qc_log_inv_def)
  note rd = Redeem_spec [OF inv assms(2)]
  then obtain e where e: "spec_expire now (qc_abs s) secret = Some e" "qr_UserID e = u" "u \<noteq> []" by blast
  have "log_ok (Redeemed secret u # ev) k (qc_abs s' k)" for k
    using log_ok_expire [of ev k "qc_abs s" now, OF log] e rd(3)
    by (cases "k = secret") (auto simp: log_ok_def split: option.splits)
  with rd(1) show ?thesis by (simp add: qc_log_inv_def)
qed

interpretation qcr: step_invariant qc_init qc_step qc_log_inv
proof unfold_locales
  show "\<And>x. qc_init x \<Longrightarrow> qc_log_inv x"
    by (auto simp: qc_init_def qc_log_inv_def newStore_def qc_inv_def qc_abs_def log_ok_def)
  show "\<And>x y. qc_log_inv x \<Longrightarrow> qc_step x y \<Longrightarrow> qc_log_inv y"
    by (erule qc_stepE)
      (auto simp: failed_ops(4,5) intro: log_inv_initiate log_inv_authorize log_inv_redeem log_inv_expire
        dest!: failed_ops(1-3))
qed

section \<open>Codes\<close>

lemma code_of_inj: "0 \<le> m \<Longrightarrow> 0 \<le> n \<Longrightarrow> code_of m = code_of n \<Longrightarrow> m = n"
proof -
  assume a: "0 \<le> m" "0 \<le> n" "code_of m = code_of n"
  then have "nat_digits (nat (m + 100000)) = nat_digits (nat (n + 100000))" by (simp add: code_of_def Itoa_def)
  then have "nat (m + 100000) = nat (n + 100000)" by (metis digits_val_nat_digits)
  with a show ?thesis by simp
qed

lemma newCode_None: "newCode ds m = None \<longleftrightarrow> (\<forall>d\<in>set ds. map_of m (code_of d) \<noteq> None)"
  by (induction ds) auto

lemma newCode_found:
  assumes "\<forall>d\<in>set ds. 0 \<le> d" "length m < card (set ds)"
  shows "newCode ds m \<noteq> None"
proof
  assume "newCode ds m = None"
  then have "code_of ` set ds \<subseteq> fst ` set m" by (auto simp: newCode_None) (metis map_of_eq_None_iff not_Some_eq)
  then have "card (code_of ` set ds) \<le> card (fst ` set m)" by (intro card_mono) auto
  also have "\<dots> \<le> length m" by (metis card_length length_map list.set_map)
  finally have "card (code_of ` set ds) \<le> length m" .
  moreover have "card (code_of ` set ds) = card (set ds)"
    using assms(1) by (intro card_image inj_onI) (auto intro: code_of_inj)
  ultimately show False using assms(2) by simp
qed

lemma inv_lengths: "qc_inv s \<Longrightarrow> length (qc_byCode s) = length (qc_bySecret s)"
proof -
  assume inv: "qc_inv s"
  have k: "distinct (map fst (qc_bySecret s))" "distinct (map fst (qc_byCode s))"
    using inv by (simp_all add: qc_inv_def)
  have "snd ` set (qc_byCode s) = snd ` set (qc_bySecret s)"
    using inv by (force simp: qc_inv_def)
  moreover have keys: "x \<in> set (qc_byCode s) \<Longrightarrow> fst x = qr_Code (qc_heap s (snd x))"
    "x \<in> set (qc_bySecret s) \<Longrightarrow> fst x = qr_Secret (qc_heap s (snd x))" for x
    using inv by (auto simp: qc_inv_def)
  then have "inj_on snd (set (qc_byCode s))" "inj_on snd (set (qc_bySecret s))"
    by (metis (no_types) inj_onI prod_eqI)+
  moreover have "card (set (qc_byCode s)) = length (qc_byCode s)" "card (set (qc_bySecret s)) = length (qc_bySecret s)"
    using k by (simp_all add: distinct_card distinct_map)
  ultimately show ?thesis by (metis card_image)
qed

section \<open>Properties\<close>

text \<open>
  C7: a secret is redeemed at most once, and only for the one user who approved it. In every run of
  Quick Connect each secret is approved by at most one user and redeemed at most once; what a
  redemption returns is that user; and a secret that still has an entry has not been redeemed.
\<close>

theorem redeemed_once_by_approver:
  assumes "reachable qc_init qc_step (s, ev)"
  shows "length (approvals k ev) \<le> 1 \<and> length (redemptions k ev) \<le> 1
     \<and> (redemptions k ev \<noteq> [] \<longrightarrow> redemptions k ev = approvals k ev)
     \<and> (redemptions k ev \<noteq> [] \<longrightarrow> qc_abs s k = None)"
proof -
  have "log_ok ev k (qc_abs s k)" using qcr.reachable_inv [OF assms] by (simp add: qc_log_inv_def)
  then show ?thesis by (auto simp: log_ok_def split: option.splits if_splits)
qed

text \<open>
  The store stays bounded and consistent. In every run there are at most a thousand requests; the
  two indexes hold the same entries under the keys stored in them, so that codes are unique; and the
  operations act on the store as on one map from secrets to entries: expiry removes exactly the
  entries past their time, and redeeming removes exactly the redeemed secret.
\<close>

theorem store_bounded_and_consistent:
  assumes "reachable qc_init qc_step (s, ev)"
  shows "length (qc_bySecret s) \<le> 1000
     \<and> (\<forall>sec a. map_of (qc_bySecret s) sec = Some a \<longleftrightarrow>
          (\<exists>c. map_of (qc_byCode s) c = Some a \<and> qr_Code (qc_heap s a) = c \<and> qr_Secret (qc_heap s a) = sec))
     \<and> qc_abs (qc_expire now s) = spec_expire now (qc_abs s)
     \<and> (\<forall>u. snd (qc_Redeem now sec s) = Inr u \<longrightarrow>
          qc_abs (fst (qc_Redeem now sec s)) = (spec_expire now (qc_abs s))(sec := None))"
proof -
  have inv: "qc_inv s" using qcr.reachable_inv [OF assms] by (simp add: qc_log_inv_def)
  have "map_of (qc_bySecret s) sec = Some a \<longleftrightarrow>
      (\<exists>c. map_of (qc_byCode s) c = Some a \<and> qr_Code (qc_heap s a) = c \<and> qr_Secret (qc_heap s a) = sec)" for sec a
    using inv_entry [OF inv, of sec a] inv_code [OF inv, of _ a] by metis
  moreover have "qc_abs (fst (qc_Redeem now sec s)) = (spec_expire now (qc_abs s))(sec := None)"
    if "snd (qc_Redeem now sec s) = Inr u" for u
    using Redeem_spec(3) [OF inv, of now sec "fst (qc_Redeem now sec s)" u] that by (metis prod.collapse)
  ultimately show ?thesis
    using inv qc_expire_spec(4) [OF inv] by (simp add: qc_inv_def maxPending_def)
qed

lemma Initiate_entry:
  assumes "qc_inv s" "Initiate draws secret now dev s = Some (s', Inr r)" "qc_abs s secret = None"
  shows "snd (qc_Status now secret s') = Inr r"
proof -
  note i = Initiate_spec [OF assms]
  let ?e = "qc_request.extend r \<lparr>qe_expiresAt = now + qc_timeout\<rparr>"
  note x = qc_expire_spec [OF i(1), of now]
  have "qc_abs (qc_expire now s') secret = Some ?e"
    using x(4) i(3) by (simp add: spec_expire_def qc_request.defs qc_timeout_def Second_def)
  then obtain a where "map_of (qc_bySecret (qc_expire now s')) secret = Some a" "qc_heap (qc_expire now s') a = ?e"
    by (auto simp: qc_abs_def)
  then show ?thesis by (simp add: qc_Status_def findBySecret_def qc_request.defs)
qed

text \<open>
  A request for a code is always answered. In every reachable state, given a secret that was never
  issued and random draws in the range of codes with a thousand different values among them,
  \<open>Initiate\<close> returns; it refuses exactly when a thousand unexpired requests are waiting; and a request
  that it grants is what \<open>Status\<close> then reports for its secret.
\<close>

theorem Initiate_answers:
  assumes "reachable qc_init qc_step (s, ev)" "Issued secret \<notin> set ev"
    and "\<forall>d\<in>set draws. 0 \<le> d \<and> d < 900000" "1000 \<le> card (set draws)"
  shows "\<exists>s' res. Initiate draws secret now dev s = Some (s', res)
     \<and> (res = Inl ErrTooManyRequests \<longleftrightarrow> length (qc_bySecret (qc_expire now s)) = 1000)
     \<and> (res = Inl ErrTooManyRequests \<or> (\<exists>r. res = Inr r \<and> qr_Secret r = secret \<and> snd (qc_Status now secret s') = Inr r))"
proof -
  have inv: "qc_inv s" and log: "log_ok ev secret (qc_abs s secret)"
    using qcr.reachable_inv [OF assms(1)] by (simp_all add: qc_log_inv_def)
  then have new: "qc_abs s secret = None" using assms(2) by (auto simp: log_ok_def split: option.splits)
  let ?s = "qc_expire now s"
  note x = qc_expire_spec(1) [OF inv, of now]
  have le: "length (qc_bySecret ?s) \<le> 1000" using x by (simp add: qc_inv_def maxPending_def)
  show ?thesis
  proof (cases "length (qc_bySecret ?s) = 1000")
    case True
    then show ?thesis by (simp add: Initiate_def maxPending_def Let_def)
  next
    case False
    with le inv_lengths [OF x] assms(4) have "length (qc_byCode ?s) < card (set draws)" by simp
    with newCode_found [of draws "qc_byCode ?s"] assms(3) obtain code where "newCode draws (qc_byCode ?s) = Some code"
      by auto
    with False le obtain s' r where r: "Initiate draws secret now dev s = Some (s', Inr r)"
      by (simp add: Initiate_def maxPending_def Let_def)
    with False Initiate_spec(2) [OF inv r new] Initiate_entry [OF inv r new] show ?thesis by simp
  qed
qed

text \<open>A run: a client initiates, a user approves, the client redeems.\<close>

definition demo_store :: qc_store where
  "demo_store = newStore (\<lambda>_. qc_request.extend
     \<lparr>qr_Device = \<lparr>qd_ID = [], qd_Name = [], qd_App = [], qd_AppVersion = []\<rparr>, qr_Secret = [], qr_Code = [],
      qr_DateAdded = 0, qr_UserID = []\<rparr> \<lparr>qe_expiresAt = 0\<rparr>)"

definition demo_device :: qc_device where
  "demo_device = \<lparr>qd_ID = ''d'', qd_Name = ''tv'', qd_App = ''app'', qd_AppVersion = ''1''\<rparr>"

definition demo_initiated :: qc_store where
  "demo_initiated = (case Initiate [0] ''s1'' 0 demo_device demo_store of Some (s, r) \<Rightarrow> s | None \<Rightarrow> demo_store)"

lemma demo_run: "reachable qc_init qc_step (demo_initiated, [Issued ''s1''])"
proof -
  obtain r where r: "Initiate [0] ''s1'' 0 demo_device demo_store = Some (demo_initiated, Inr r)"
    by (simp add: demo_initiated_def Initiate_def demo_store_def newStore_def qc_expire_def maxPending_def Let_def)
  have "qc_step (demo_store, []) (demo_initiated, [Issued ''s1''])"
    by (rule qs_initiate [OF r]) simp
  moreover have "qc_init (demo_store, [])" by (auto simp: qc_init_def demo_store_def)
  ultimately show ?thesis by (rule reach_one)
qed

lemma demo_code: "code_of 0 = ''100000''"
  by (simp add: code_of_def Itoa_def nat_digits.simps char_of_def bit_Suc_0_iff)

lemma demo_normalized: "normalizeCode ''100 000'' = ''100000''"
  by (simp add: normalizeCode_def Fields_def is_space_def)

lemma demo_initiated_eq:
  "demo_initiated = demo_store\<lparr>qc_heap := (qc_heap demo_store)(0 := qc_request.extend
       \<lparr>qr_Device = demo_device, qr_Secret = ''s1'', qr_Code = ''100000'', qr_DateAdded = 0, qr_UserID = []\<rparr>
       \<lparr>qe_expiresAt = qc_timeout\<rparr>),
     qc_free := 1, qc_bySecret := [(''s1'', 0)], qc_byCode := [(''100000'', 0)]\<rparr>"
  by (simp add: demo_initiated_def Initiate_def demo_store_def newStore_def qc_expire_def maxPending_def Let_def
      demo_code map_put_def map_delete_def)

lemma demo_live: "qc_expire 1 demo_initiated = demo_initiated"
  by (simp add: demo_initiated_eq qc_expire_def expire_one_def qc_timeout_def Second_def qc_request.defs)

definition demo_approved :: qc_store where
  "demo_approved = fst (qc_Authorize 1 ''100 000'' ''bob'' demo_initiated)"

lemma demo_approval:
  "\<exists>r. qc_Authorize 1 ''100 000'' ''bob'' demo_initiated = (demo_approved, Inr r) \<and> qr_Secret r = ''s1''"
  by (simp add: demo_approved_def qc_Authorize_def findPending_def demo_live demo_normalized Let_def)
    (simp add: demo_initiated_eq Authorized_def qc_request.defs)

lemma demo_redemption: "snd (qc_Redeem 2 ''s1'' demo_approved) = Inr ''bob''"
  by (simp add: demo_approved_def qc_Authorize_def findPending_def demo_live demo_normalized Let_def qc_Redeem_def
      findBySecret_def qc_expire_def)
    (simp add: demo_initiated_eq Authorized_def qc_request.defs expire_one_def qc_timeout_def Second_def)

theorem redeemed_once_by_approver_witness:
  "\<exists>s. reachable qc_init qc_step (s, [Redeemed ''s1'' ''bob'', Approved ''s1'' ''bob'', Issued ''s1''])
     \<and> qc_abs s ''s1'' = None"
proof -
  from demo_approval obtain r where r: "qc_Authorize 1 ''100 000'' ''bob'' demo_initiated = (demo_approved, Inr r)"
    "qr_Secret r = ''s1''" by blast
  from qs_authorize [OF r(1), of "[Issued ''s1'']"] r(2)
  have "qc_step (demo_initiated, [Issued ''s1'']) (demo_approved, [Approved ''s1'' ''bob'', Issued ''s1''])" by simp
  then have run: "reachable qc_init qc_step (demo_approved, [Approved ''s1'' ''bob'', Issued ''s1''])"
    by (rule reach_step [OF demo_run])
  define s where "s = fst (qc_Redeem 2 ''s1'' demo_approved)"
  have "qc_Redeem 2 ''s1'' demo_approved = (s, Inr ''bob'')"
    using demo_redemption by (simp add: s_def prod_eq_iff)
  then have "qc_step (demo_approved, [Approved ''s1'' ''bob'', Issued ''s1''])
      (s, [Redeemed ''s1'' ''bob'', Approved ''s1'' ''bob'', Issued ''s1''])" by (rule qs_redeem)
  then have "reachable qc_init qc_step (s, [Redeemed ''s1'' ''bob'', Approved ''s1'' ''bob'', Issued ''s1''])"
    by (rule reach_step [OF run])
  moreover from redeemed_once_by_approver [OF this, of "''s1''"] have "qc_abs s ''s1'' = None" by simp
  ultimately show ?thesis by blast
qed

theorem store_bounded_and_consistent_witness:
  "length (qc_bySecret demo_initiated) \<le> 1000"
  using store_bounded_and_consistent [OF demo_run] by simp

theorem Initiate_answers_witness:
  "\<exists>s' res. Initiate [0..999] ''s2'' 5 demo_device demo_initiated = Some (s', res)"
proof -
  have "card (set [0..999 :: int]) = 1000" by simp
  with Initiate_answers [OF demo_run, of "''s2''" "[0..999]" 5 demo_device] show ?thesis by fastforce
qed

end
