(* ===== verification/TaskQueue.thy ===== *)
theory TaskQueue
  imports Prelude
begin

unbundle bit_operations_syntax

text \<open>
  The task queues of plugins (\<open>plugins/host_taskqueue.go\<close>). The table \<open>tasks\<close> is the list of its
  rows, the times are Unix milliseconds, and every SQL statement is one atomic operation. An argument
  of type \<open>string option\<close> is the error of a statement, if it fails; the ID of a new task, the answer
  of the rate limiter and the result of the plugin's callback are arguments too. \<open>processTask\<close> is one
  function, and its pieces are also steps of their own, since a worker can be interleaved with others,
  with the API and with the shutdown of the service between them.
\<close>

definition defaultConcurrency :: int where "defaultConcurrency = 1"
definition defaultBackoffMs :: int where "defaultBackoffMs = 1000"
definition defaultRetentionMs :: int where "defaultRetentionMs = 3600000"
definition minRetentionMs :: int where "minRetentionMs = 60000"
definition maxRetentionMs :: int where "maxRetentionMs = 604800000"
definition maxQueueNameLength :: nat where "maxQueueNameLength = 128"
definition maxPayloadSize :: nat where "maxPayloadSize = 1048576"
definition maxBackoffMs :: int where "maxBackoffMs = 3600000"

datatype task_status = Pending | Running | Completed | Failed | Cancelled

record queue_config =
  qcf_Concurrency :: int
  qcf_MaxRetries :: int
  qcf_BackoffMs :: int
  qcf_DelayMs :: int
  qcf_RetentionMs :: int

text \<open>The signal is a channel of capacity one.\<close>

record queue_state =
  qst_config :: queue_config
  qst_signal :: bool

record task =
  ta_id :: string
  ta_queue :: string
  ta_payload :: string
  ta_status :: task_status
  ta_attempt :: int
  ta_maxRetries :: int
  ta_nextRunAt :: int
  ta_createdAt :: int
  ta_updatedAt :: int
  ta_message :: string

record task_info =
  ti_Status :: task_status
  ti_Message :: string
  ti_Attempt :: int

datatype tq_error =
    EmptyName | NameTooLong | BudgetExhausted int int | QueueExists string | QueueMissing string
  | PayloadTooBig nat | TaskNotFound string | CannotCancel string task_status | DBError string

text \<open>\<open>tq_rows\<close> is the table \<open>queues\<close>; \<open>tq_done\<close> says that the service's context is cancelled.\<close>

record tq_state =
  tq_maxConcurrency :: int
  tq_queues :: "(string \<times> queue_state) list"
  tq_rows :: "string \<rightharpoonup> queue_config"
  tq_tasks :: "task list"
  tq_done :: bool

fun wake :: "string \<Rightarrow> string \<times> queue_state \<Rightarrow> string \<times> queue_state" where
  "wake name (n, q) = (n, if n = name then q\<lparr>qst_signal := True\<rparr> else q)"

definition notifyWorkers :: "string \<Rightarrow> tq_state \<Rightarrow> tq_state" where
  "notifyWorkers name s = s\<lparr>tq_queues := map (wake name) (tq_queues s)\<rparr>"

text \<open>An \<open>UPDATE\<close> of the rows with a property, and the number of rows it affects.\<close>

definition update_tasks :: "(task \<Rightarrow> bool) \<Rightarrow> (task \<Rightarrow> task) \<Rightarrow> tq_state \<Rightarrow> tq_state" where
  "update_tasks P f s = s\<lparr>tq_tasks := map (\<lambda>t. if P t then f t else t) (tq_tasks s)\<rparr>"

definition rows_affected :: "(task \<Rightarrow> bool) \<Rightarrow> tq_state \<Rightarrow> nat" where
  "rows_affected P s = length (filter P (tq_tasks s))"

definition find_task :: "string \<Rightarrow> tq_state \<Rightarrow> task option" where
  "find_task i s = find (\<lambda>t. ta_id t = i) (tq_tasks s)"

section \<open>Creating queues\<close>

definition applyConfigDefaults :: "queue_config \<Rightarrow> queue_config" where
  "applyConfigDefaults c0 =
     (let c1 = (if qcf_Concurrency c0 \<le> 0 then c0\<lparr>qcf_Concurrency := defaultConcurrency\<rparr> else c0);
          c2 = (if qcf_BackoffMs c1 \<le> 0 then c1\<lparr>qcf_BackoffMs := defaultBackoffMs\<rparr> else c1);
          c3 = (if qcf_RetentionMs c2 \<le> 0 then c2\<lparr>qcf_RetentionMs := defaultRetentionMs\<rparr> else c2);
          c4 = (if qcf_RetentionMs c3 < minRetentionMs then c3\<lparr>qcf_RetentionMs := minRetentionMs\<rparr> else c3)
      in if qcf_RetentionMs c4 > maxRetentionMs then c4\<lparr>qcf_RetentionMs := maxRetentionMs\<rparr> else c4)"

definition allocated_concurrency :: "tq_state \<Rightarrow> int" where
  "allocated_concurrency s = sum_list (map (\<lambda>x. qcf_Concurrency (qst_config (snd x))) (tq_queues s))"

definition clampConcurrency :: "queue_config \<Rightarrow> tq_state \<Rightarrow> tq_error + queue_config" where
  "clampConcurrency c s =
     (let available = tq_maxConcurrency s - allocated_concurrency s
      in if available \<le> 0 then Inl (BudgetExhausted (allocated_concurrency s) (tq_maxConcurrency s))
         else if qcf_Concurrency c > available then Inr (c\<lparr>qcf_Concurrency := available\<rparr>)
         else Inr c)"

definition CreateQueue ::
  "string option \<Rightarrow> string option \<Rightarrow> int \<Rightarrow> string \<Rightarrow> queue_config \<Rightarrow> tq_state \<Rightarrow> tq_state \<times> tq_error option" where
  "CreateQueue upsertErr resetErr now name config s =
     (if name = [] then (s, Some EmptyName)
      else if length name > maxQueueNameLength then (s, Some NameTooLong)
      else (case clampConcurrency (applyConfigDefaults config) s of
              Inl e \<Rightarrow> (s, Some e)
            | Inr c \<Rightarrow>
                (if map_of (tq_queues s) name \<noteq> None then (s, Some (QueueExists name))
                 else (case upsertErr of
                         Some e \<Rightarrow> (s, Some (DBError e))
                       | None \<Rightarrow>
                           (let s1 = s\<lparr>tq_rows := (tq_rows s)(name \<mapsto> c)\<rparr>
                            in case resetErr of
                                 Some e \<Rightarrow> (s1, Some (DBError e))
                               | None \<Rightarrow>
                                   (let s2 = update_tasks (\<lambda>t. ta_queue t = name \<and> ta_status t = Running)
                                               (\<lambda>t. t\<lparr>ta_status := Pending, ta_updatedAt := now\<rparr>) s1
                                    in (s2\<lparr>tq_queues := tq_queues s2 @ [(name, \<lparr>qst_config = c, qst_signal = False\<rparr>)]\<rparr>,
                                        None)))))))"

section \<open>The API\<close>

definition tq_Enqueue ::
  "string option \<Rightarrow> string \<Rightarrow> int \<Rightarrow> string \<Rightarrow> string \<Rightarrow> tq_state \<Rightarrow> tq_state \<times> (tq_error + string)" where
  "tq_Enqueue insertErr taskID now queueName payload s =
     (case map_of (tq_queues s) queueName of
        None \<Rightarrow> (s, Inl (QueueMissing queueName))
      | Some qs \<Rightarrow>
          (if length payload > maxPayloadSize then (s, Inl (PayloadTooBig (length payload)))
           else (case insertErr of
                   Some e \<Rightarrow> (s, Inl (DBError e))
                 | None \<Rightarrow>
                     (notifyWorkers queueName
                        (s\<lparr>tq_tasks := tq_tasks s @
                           [\<lparr>ta_id = taskID, ta_queue = queueName, ta_payload = payload, ta_status = Pending,
                             ta_attempt = 0, ta_maxRetries = qcf_MaxRetries (qst_config qs), ta_nextRunAt = now,
                             ta_createdAt = now, ta_updatedAt = now, ta_message = []\<rparr>]\<rparr>),
                      Inr taskID))))"

definition tq_Get :: "string option \<Rightarrow> string \<Rightarrow> tq_state \<Rightarrow> tq_error + task_info" where
  "tq_Get queryErr taskID s =
     (case queryErr of
        Some e \<Rightarrow> Inl (DBError e)
      | None \<Rightarrow>
          (case find_task taskID s of
             None \<Rightarrow> Inl (TaskNotFound taskID)
           | Some t \<Rightarrow> Inr \<lparr>ti_Status = ta_status t, ti_Message = ta_message t, ti_Attempt = ta_attempt t\<rparr>))"

definition tq_Cancel ::
  "string option \<Rightarrow> string option \<Rightarrow> int \<Rightarrow> string \<Rightarrow> tq_state \<Rightarrow> tq_state \<times> tq_error option" where
  "tq_Cancel updateErr queryErr now taskID s =
     (case updateErr of
        Some e \<Rightarrow> (s, Some (DBError e))
      | None \<Rightarrow>
          (let P = (\<lambda>t. ta_id t = taskID \<and> ta_status t = Pending);
               s1 = update_tasks P (\<lambda>t. t\<lparr>ta_status := Cancelled, ta_updatedAt := now\<rparr>) s
           in if rows_affected P s = 0
              then (case queryErr of
                      Some e \<Rightarrow> (s1, Some (DBError e))
                    | None \<Rightarrow>
                        (case find_task taskID s1 of
                           None \<Rightarrow> (s1, Some (TaskNotFound taskID))
                         | Some t \<Rightarrow> (s1, Some (CannotCancel taskID (ta_status t)))))
              else (s1, None)))"

definition ClearQueue :: "string option \<Rightarrow> int \<Rightarrow> string \<Rightarrow> tq_state \<Rightarrow> tq_state \<times> (tq_error + nat)" where
  "ClearQueue updateErr now queueName s =
     (if map_of (tq_queues s) queueName = None then (s, Inl (QueueMissing queueName))
      else (case updateErr of
              Some e \<Rightarrow> (s, Inl (DBError e))
            | None \<Rightarrow>
                (let P = (\<lambda>t. ta_queue t = queueName \<and> ta_status t = Pending)
                 in (update_tasks P (\<lambda>t. t\<lparr>ta_status := Cancelled, ta_updatedAt := now\<rparr>) s,
                     Inr (rows_affected P s)))))"

section \<open>Workers\<close>

text \<open>
  The subselect of the dequeue: \<open>ORDER BY next_run_at, created_at LIMIT 1\<close>, by two stable sorts; rows
  that agree on both come in some order, here that of the table.
\<close>

definition due_task :: "int \<Rightarrow> string \<Rightarrow> tq_state \<Rightarrow> task option" where
  "due_task now queueName s =
     (case sort_key ta_nextRunAt (sort_key ta_createdAt
             (filter (\<lambda>t. ta_queue t = queueName \<and> ta_status t = Pending \<and> ta_nextRunAt t \<le> now) (tq_tasks s))) of
        [] \<Rightarrow> None
      | t # _ \<Rightarrow> Some t)"

text \<open>The atomic dequeue, with the row that it returns.\<close>

definition dequeueTask :: "int \<Rightarrow> string \<Rightarrow> tq_state \<Rightarrow> (tq_state \<times> task) option" where
  "dequeueTask now queueName s =
     (case due_task now queueName s of
        None \<Rightarrow> None
      | Some t \<Rightarrow>
          (let f = (\<lambda>t. t\<lparr>ta_status := Running, ta_attempt := ta_attempt t + 1, ta_updatedAt := now\<rparr>)
           in Some (update_tasks (\<lambda>r. ta_id r = ta_id t) f s, f t)))"

definition completeTask :: "string option \<Rightarrow> int \<Rightarrow> string \<Rightarrow> string \<Rightarrow> tq_state \<Rightarrow> tq_state" where
  "completeTask updateErr now taskID message s =
     (case updateErr of
        Some e \<Rightarrow> s
      | None \<Rightarrow> update_tasks (\<lambda>t. ta_id t = taskID)
                  (\<lambda>t. t\<lparr>ta_status := Completed, ta_message := message, ta_updatedAt := now\<rparr>) s)"

text \<open>The shift of the 64-bit backoff; shifting out all bits gives 0.\<close>

definition task_backoff :: "int \<Rightarrow> int \<Rightarrow> int" where
  "task_backoff backoffMs attempt =
     (let backoff = sint (push_bit (nat (attempt - 1)) (word_of_int backoffMs :: 64 word))
      in if backoff \<le> 0 \<or> backoff > maxBackoffMs then maxBackoffMs else backoff)"

definition handleTaskFailure ::
  "string option \<Rightarrow> int \<Rightarrow> string \<Rightarrow> int \<Rightarrow> int \<Rightarrow> queue_config \<Rightarrow> string \<Rightarrow> string \<Rightarrow> tq_state \<Rightarrow> tq_state" where
  "handleTaskFailure updateErr now taskID attempt maxRetries config callbackErr message0 s =
     (let message = (if message0 = [] then callbackErr else message0)
      in case updateErr of
           Some e \<Rightarrow> s
         | None \<Rightarrow>
             (if attempt > maxRetries
              then update_tasks (\<lambda>t. ta_id t = taskID)
                     (\<lambda>t. t\<lparr>ta_status := Failed, ta_message := message, ta_updatedAt := now\<rparr>) s
              else update_tasks (\<lambda>t. ta_id t = taskID)
                     (\<lambda>t. t\<lparr>ta_status := Pending, ta_nextRunAt := now + task_backoff (qcf_BackoffMs config) attempt,
                           ta_updatedAt := now\<rparr>) s))"

definition revertTaskToPending :: "string option \<Rightarrow> int \<Rightarrow> string \<Rightarrow> tq_state \<Rightarrow> tq_state" where
  "revertTaskToPending updateErr now taskID s =
     (case updateErr of
        Some e \<Rightarrow> s
      | None \<Rightarrow> update_tasks (\<lambda>t. ta_id t = taskID \<and> ta_status t = Running)
                  (\<lambda>t. t\<lparr>ta_status := Pending, ta_attempt := max (ta_attempt t - 1) 0, ta_updatedAt := now\<rparr>) s)"

text \<open>After the callback: the answer is the error, if any, with the message.\<close>

definition finishTask ::
  "string option \<Rightarrow> int \<Rightarrow> task \<Rightarrow> queue_config \<Rightarrow> string option \<times> string \<Rightarrow> tq_state \<Rightarrow> tq_state" where
  "finishTask updateErr now t config answer s =
     (case answer of
        (None, message) \<Rightarrow> completeTask updateErr now (ta_id t) message s
      | (Some callbackErr, message) \<Rightarrow>
          handleTaskFailure updateErr now (ta_id t) (ta_attempt t) (ta_maxRetries t) config callbackErr message s)"

text \<open>
  One round without interference: \<open>waitErr\<close> is the error of the rate limiter, \<open>stopped\<close> says that the
  context is cancelled when the callback returns, and \<open>call\<close> is the callback.
\<close>

definition processTask ::
  "string option \<Rightarrow> string option \<Rightarrow> bool \<Rightarrow> bool \<Rightarrow> (task \<Rightarrow> string option \<times> string) \<Rightarrow> int \<Rightarrow> int \<Rightarrow> string \<Rightarrow> queue_config
   \<Rightarrow> tq_state \<Rightarrow> tq_state \<times> bool" where
  "processTask dequeueErr updateErr waitErr stopped call now now' queueName config s =
     (case dequeueErr of
        Some e \<Rightarrow> (s, False)
      | None \<Rightarrow>
          (case dequeueTask now queueName s of
             None \<Rightarrow> (s, False)
           | Some (s1, t) \<Rightarrow>
               (if qcf_DelayMs config > 0 \<and> waitErr then (revertTaskToPending updateErr now' (ta_id t) s1, False)
                else (let answer = call t
                      in if stopped then (revertTaskToPending updateErr now' (ta_id t) s1, False)
                         else (finishTask updateErr now' t config answer s1, True)))))"

section \<open>Cleanup and shutdown\<close>

definition terminal :: "task_status \<Rightarrow> bool" where
  "terminal st \<longleftrightarrow> st \<in> {Completed, Failed, Cancelled}"

text \<open>\<open>errs\<close> says for which queues the \<open>DELETE\<close> fails.\<close>

definition runCleanup :: "(string \<Rightarrow> bool) \<Rightarrow> int \<Rightarrow> tq_state \<Rightarrow> tq_state" where
  "runCleanup errs now s =
     foldl (\<lambda>st (name, qs).
        if errs name then st
        else st\<lparr>tq_tasks := filter (\<lambda>t. \<not> (ta_queue t = name \<and> terminal (ta_status t)
                 \<and> ta_updatedAt t + qcf_RetentionMs (qst_config qs) < now)) (tq_tasks st)\<rparr>)
       s (tq_queues s)"

text \<open>\<open>Close\<close>: the cancellation of the context, and what happens after the wait for the workers.\<close>

definition close_cancel :: "tq_state \<Rightarrow> tq_state" where
  "close_cancel s = s\<lparr>tq_done := True\<rparr>"

definition close_reset :: "string option \<Rightarrow> int \<Rightarrow> tq_state \<Rightarrow> tq_state" where
  "close_reset updateErr now s =
     (case updateErr of
        Some e \<Rightarrow> s
      | None \<Rightarrow> update_tasks (\<lambda>t. ta_status t = Running) (\<lambda>t. t\<lparr>ta_status := Pending, ta_updatedAt := now\<rparr>) s)"

text \<open>A service that starts on the tables of an earlier one.\<close>

definition newTaskQueueService :: "int \<Rightarrow> (string \<rightharpoonup> queue_config) \<Rightarrow> task list \<Rightarrow> tq_state" where
  "newTaskQueueService maxConcurrency rows tasks =
     \<lparr>tq_maxConcurrency = maxConcurrency, tq_queues = [], tq_rows = rows, tq_tasks = tasks, tq_done = False\<rparr>"

section \<open>Rows as a map\<close>

text \<open>With unique IDs the table is a map from IDs to rows, and the statements act on it pointwise.\<close>

definition ids_ok :: "tq_state \<Rightarrow> bool" where
  "ids_ok s \<longleftrightarrow> distinct (map ta_id (tq_tasks s))"

lemma find_row_iff:
  "distinct (map ta_id ts) \<Longrightarrow> find (\<lambda>t. ta_id t = i) ts = Some t \<longleftrightarrow> t \<in> set ts \<and> ta_id t = i"
  by (induction ts) (auto simp: image_iff)

lemma find_task_iff: "ids_ok s \<Longrightarrow> find_task i s = Some t \<longleftrightarrow> t \<in> set (tq_tasks s) \<and> ta_id t = i"
  by (simp add: ids_ok_def find_task_def find_row_iff)

lemma find_task_id: "find_task i s = Some t \<Longrightarrow> ta_id t = i"
  by (auto simp: find_task_def find_Some_iff)

lemma update_tasks_fields [simp]:
  "tq_queues (update_tasks P f s) = tq_queues s" "tq_rows (update_tasks P f s) = tq_rows s"
  "tq_done (update_tasks P f s) = tq_done s" "tq_maxConcurrency (update_tasks P f s) = tq_maxConcurrency s"
  by (simp_all add: update_tasks_def)

lemma update_tasks_rows:
  assumes "\<And>t. ta_id (f t) = ta_id t"
  shows "ids_ok (update_tasks P f s) = ids_ok s"
    "find_task i (update_tasks P f s) = map_option (\<lambda>t. if P t then f t else t) (find_task i s)"
proof -
  have m: "map ta_id (map (\<lambda>t. if P t then f t else t) ts) = map ta_id ts" for ts
    by (induction ts) (simp_all add: assms)
  show "ids_ok (update_tasks P f s) = ids_ok s" unfolding ids_ok_def update_tasks_def by (simp add: m del: map_map)
  have "find (\<lambda>t. ta_id t = i) (map (\<lambda>t. if P t then f t else t) ts)
      = map_option (\<lambda>t. if P t then f t else t) (find (\<lambda>t. ta_id t = i) ts)" for ts
    by (induction ts) (auto simp: assms)
  then show "find_task i (update_tasks P f s) = map_option (\<lambda>t. if P t then f t else t) (find_task i s)"
    by (simp add: find_task_def update_tasks_def)
qed

lemma find_task_filter:
  assumes "ids_ok s"
  shows "find_task i (s\<lparr>tq_tasks := filter Q (tq_tasks s)\<rparr>) = Some t \<longleftrightarrow> find_task i s = Some t \<and> Q t"
    "ids_ok (s\<lparr>tq_tasks := filter Q (tq_tasks s)\<rparr>)"
proof -
  show ok: "ids_ok (s\<lparr>tq_tasks := filter Q (tq_tasks s)\<rparr>)"
    using assms by (simp add: ids_ok_def distinct_map_filter)
  show "find_task i (s\<lparr>tq_tasks := filter Q (tq_tasks s)\<rparr>) = Some t \<longleftrightarrow> find_task i s = Some t \<and> Q t"
    using find_task_iff [OF assms] find_task_iff [OF ok] by auto
qed

lemma find_task_fields [simp]:
  "find_task i (s\<lparr>tq_queues := x\<rparr>) = find_task i s" "find_task i (s\<lparr>tq_rows := y\<rparr>) = find_task i s"
  "find_task i (s\<lparr>tq_done := b\<rparr>) = find_task i s" "find_task i (notifyWorkers q s) = find_task i s"
  "ids_ok (s\<lparr>tq_queues := x\<rparr>) = ids_ok s" "ids_ok (s\<lparr>tq_rows := y\<rparr>) = ids_ok s"
  "ids_ok (s\<lparr>tq_done := b\<rparr>) = ids_ok s" "ids_ok (notifyWorkers q s) = ids_ok s"
  by (simp_all add: find_task_def ids_ok_def notifyWorkers_def)

lemma due_task_row:
  assumes "ids_ok s" "due_task now q s = Some t"
  shows "find_task (ta_id t) s = Some t" "ta_queue t = q" "ta_status t = Pending" "ta_nextRunAt t \<le> now"
proof -
  let ?xs = "sort_key ta_nextRunAt (sort_key ta_createdAt
      (filter (\<lambda>t. ta_queue t = q \<and> ta_status t = Pending \<and> ta_nextRunAt t \<le> now) (tq_tasks s)))"
  obtain ys where "?xs = t # ys" using assms(2) by (auto simp: due_task_def split: list.splits)
  then have "t \<in> set ?xs" by (simp only: list.set_intros)
  then show "find_task (ta_id t) s = Some t" "ta_queue t = q" "ta_status t = Pending" "ta_nextRunAt t \<le> now"
    using assms(1) by (simp_all add: find_task_iff)
qed

lemma due_task_first:
  assumes "due_task now q s = Some t" "u \<in> set (tq_tasks s)" "ta_queue u = q" "ta_status u = Pending" "ta_nextRunAt u \<le> now"
  shows "ta_nextRunAt t < ta_nextRunAt u \<or> (ta_nextRunAt t = ta_nextRunAt u \<and> ta_createdAt t \<le> ta_createdAt u)"
proof -
  let ?ys = "sort_key ta_createdAt (filter (\<lambda>t. ta_queue t = q \<and> ta_status t = Pending \<and> ta_nextRunAt t \<le> now) (tq_tasks s))"
  obtain xs where xs: "sort_key ta_nextRunAt ?ys = t # xs" using assms(1) by (auto simp: due_task_def split: list.splits)
  have u: "u \<in> set (t # xs)" unfolding xs [symmetric] using assms by simp
  have "sorted (map ta_nextRunAt (t # xs))" unfolding xs [symmetric] by (rule sorted_sort_key)
  then have le: "ta_nextRunAt t \<le> ta_nextRunAt u" using u by auto
  have "filter (\<lambda>v. ta_nextRunAt v = ta_nextRunAt t) (t # xs) = filter (\<lambda>v. ta_nextRunAt v = ta_nextRunAt t) ?ys"
    unfolding xs [symmetric] by (rule sort_key_stable)
  moreover have "sorted (map ta_createdAt (filter (\<lambda>v. ta_nextRunAt v = ta_nextRunAt t) ?ys))"
    by (rule sorted_filter) (rule sorted_sort_key)
  ultimately have "sorted (map ta_createdAt (filter (\<lambda>v. ta_nextRunAt v = ta_nextRunAt t) (t # xs)))" by simp
  with u le show ?thesis by auto
qed

section \<open>Runs\<close>

text \<open>
  A worker is idle, holds a task and waits for the rate limiter, or has called the plugin for it. The
  last four fields record history: the IDs handed out, and per task how often the callback was called,
  how often a call was undone by a shutdown, and how often a restart found the task running.
\<close>

datatype worker_pc = WIdle | WWait task | WCall task

record tq_run =
  rn_svc :: tq_state
  rn_pc :: "string \<Rightarrow> nat \<Rightarrow> worker_pc"
  rn_used :: "string set"
  rn_calls :: "string \<Rightarrow> nat"
  rn_reverts :: "string \<Rightarrow> nat"
  rn_crashes :: "string \<Rightarrow> nat"

definition set_pc :: "string \<Rightarrow> nat \<Rightarrow> worker_pc \<Rightarrow> tq_run \<Rightarrow> tq_run" where
  "set_pc q i pc r = r\<lparr>rn_pc := (rn_pc r)(q := (rn_pc r q)(i := pc))\<rparr>"

definition is_worker :: "string \<Rightarrow> nat \<Rightarrow> tq_state \<Rightarrow> bool" where
  "is_worker q i s \<longleftrightarrow> (\<exists>qs. map_of (tq_queues s) q = Some qs \<and> int i < qcf_Concurrency (qst_config qs))"

text \<open>
  The API and the cleanup may act at any time, and so may the workers. IDs of new tasks are random;
  runs are those in which no ID is drawn twice. After a shutdown or a crash a new service starts on
  the same tables, with or without the reset of the running tasks having happened.
\<close>

inductive tq_step :: "tq_run \<Rightarrow> tq_run \<Rightarrow> bool" where
  tq_create: "tq_step r (r\<lparr>rn_svc := fst (CreateQueue e1 e2 now name config (rn_svc r))\<rparr>)"
| tq_enqueue: "i \<notin> rn_used r \<Longrightarrow>
     tq_step r (r\<lparr>rn_svc := fst (tq_Enqueue e i now q payload (rn_svc r)), rn_used := insert i (rn_used r)\<rparr>)"
| tq_cancel: "tq_step r (r\<lparr>rn_svc := fst (tq_Cancel e1 e2 now i (rn_svc r))\<rparr>)"
| tq_clear: "tq_step r (r\<lparr>rn_svc := fst (ClearQueue e now q (rn_svc r))\<rparr>)"
| tq_cleanup: "tq_step r (r\<lparr>rn_svc := runCleanup errs now (rn_svc r)\<rparr>)"
| tq_notify: "tq_step r (r\<lparr>rn_svc := notifyWorkers q (rn_svc r)\<rparr>)"
| tq_dequeue: "rn_pc r q i = WIdle \<Longrightarrow> is_worker q i (rn_svc r) \<Longrightarrow> \<not> tq_done (rn_svc r) \<Longrightarrow>
     dequeueTask now q (rn_svc r) = Some (s, t) \<Longrightarrow> tq_step r (set_pc q i (WWait t) (r\<lparr>rn_svc := s\<rparr>))"
| tq_call: "rn_pc r q i = WWait t \<Longrightarrow>
     tq_step r (set_pc q i (WCall t) (r\<lparr>rn_calls := (rn_calls r)(ta_id t := Suc (rn_calls r (ta_id t)))\<rparr>))"
| tq_wait_error: "rn_pc r q i = WWait t \<Longrightarrow> tq_done (rn_svc r) \<Longrightarrow>
     tq_step r (set_pc q i WIdle (r\<lparr>rn_svc := revertTaskToPending e now (ta_id t) (rn_svc r)\<rparr>))"
| tq_interrupt: "rn_pc r q i = WCall t \<Longrightarrow> tq_done (rn_svc r) \<Longrightarrow>
     tq_step r (set_pc q i WIdle (r\<lparr>rn_svc := revertTaskToPending e now (ta_id t) (rn_svc r),
       rn_reverts := (rn_reverts r)(ta_id t := Suc (rn_reverts r (ta_id t)))\<rparr>))"
| tq_finish: "rn_pc r q i = WCall t \<Longrightarrow>
     tq_step r (set_pc q i WIdle (r\<lparr>rn_svc := finishTask e now t config answer (rn_svc r)\<rparr>))"
| tq_close: "tq_step r (r\<lparr>rn_svc := close_cancel (rn_svc r)\<rparr>)"
| tq_restart: "s \<in> {rn_svc r, close_reset e now (rn_svc r)} \<Longrightarrow>
     tq_step r (r\<lparr>rn_svc := newTaskQueueService mc (tq_rows s) (tq_tasks s), rn_pc := (\<lambda>_ _. WIdle),
       rn_crashes := (\<lambda>i. rn_crashes r i + (case find_task i (rn_svc r) of
          Some t \<Rightarrow> if ta_status t = Running then 1 else 0 | None \<Rightarrow> 0))\<rparr>)"

inductive_cases tq_stepE: "tq_step r r'"

definition tq_init :: "tq_run \<Rightarrow> bool" where
  "tq_init r \<longleftrightarrow> (\<exists>mc. rn_svc r = newTaskQueueService mc Map.empty []) \<and> (\<forall>q i. rn_pc r q i = WIdle) \<and> rn_used r = {}
     \<and> (\<forall>i. rn_calls r i = 0 \<and> rn_reverts r i = 0 \<and> rn_crashes r i = 0)"

fun held :: "worker_pc \<Rightarrow> task option" where
  "held WIdle = None"
| "held (WWait t) = Some t"
| "held (WCall t) = Some t"

definition waiting :: "tq_run \<Rightarrow> string \<Rightarrow> nat" where
  "waiting r j = (if \<exists>q i t. rn_pc r q i = WWait t \<and> ta_id t = j then 1 else 0)"

text \<open>What a worker knows about the task it holds.\<close>

definition holder_ok :: "tq_state \<Rightarrow> string \<Rightarrow> nat \<Rightarrow> task \<Rightarrow> bool" where
  "holder_ok s q i t \<longleftrightarrow> is_worker q i s
     \<and> (\<exists>row. find_task (ta_id t) s = Some row \<and> ta_status row = Running \<and> ta_attempt row = ta_attempt t
          \<and> ta_maxRetries row = ta_maxRetries t \<and> ta_queue row = q \<and> 1 \<le> ta_attempt t)"

text \<open>
  How many attempts a row may have had, and how they bound the calls. A row that is running although
  its queue does not exist yet is left over from before a restart.
\<close>

definition slack :: "tq_state \<Rightarrow> task \<Rightarrow> int" where
  "slack s row =
     (if ta_status row = Pending \<or> (ta_status row = Running \<and> map_of (tq_queues s) (ta_queue row) = None)
      then 0 else 1)"

definition row_ok :: "tq_run \<Rightarrow> string \<Rightarrow> task \<Rightarrow> bool" where
  "row_ok r j row \<longleftrightarrow> j \<in> rn_used r \<and> 0 \<le> ta_attempt row
     \<and> ta_attempt row \<le> max 0 (ta_maxRetries row) + int (rn_crashes r j) + slack (rn_svc r) row
     \<and> int (rn_calls r j + waiting r j) \<le> ta_attempt row + int (rn_reverts r j)"

definition queues_ok :: "tq_state \<Rightarrow> bool" where
  "queues_ok s \<longleftrightarrow> distinct (map fst (tq_queues s)) \<and> (\<forall>x\<in>set (tq_queues s). 1 \<le> qcf_Concurrency (qst_config (snd x)))
     \<and> (tq_queues s = [] \<or> allocated_concurrency s \<le> tq_maxConcurrency s)"

definition tq_inv :: "tq_run \<Rightarrow> bool" where
  "tq_inv r \<longleftrightarrow> ids_ok (rn_svc r) \<and> queues_ok (rn_svc r)
     \<and> (\<forall>j row. find_task j (rn_svc r) = Some row \<longrightarrow> row_ok r j row)
     \<and> (\<forall>q i t. held (rn_pc r q i) = Some t \<longrightarrow> holder_ok (rn_svc r) q i t)
     \<and> (\<forall>q i t q' i' t'. held (rn_pc r q i) = Some t \<longrightarrow> held (rn_pc r q' i') = Some t' \<longrightarrow> ta_id t = ta_id t' \<longrightarrow>
          q = q' \<and> i = i')
     \<and> (\<forall>j. j \<notin> rn_used r \<longrightarrow> rn_calls r j = 0 \<and> rn_reverts r j = 0 \<and> rn_crashes r j = 0)"

lemma tq_invD:
  assumes "tq_inv r"
  shows "ids_ok (rn_svc r)" "queues_ok (rn_svc r)" "find_task j (rn_svc r) = Some row \<Longrightarrow> row_ok r j row"
    "held (rn_pc r q i) = Some t \<Longrightarrow> holder_ok (rn_svc r) q i t"
    "held (rn_pc r q i) = Some t \<Longrightarrow> held (rn_pc r q' i') = Some t' \<Longrightarrow> ta_id t = ta_id t' \<Longrightarrow> q = q' \<and> i = i'"
    "j \<notin> rn_used r \<Longrightarrow> rn_calls r j = 0 \<and> rn_reverts r j = 0 \<and> rn_crashes r j = 0"
  using assms unfolding tq_inv_def by blast+

lemma tq_invI:
  assumes "ids_ok (rn_svc r)" "queues_ok (rn_svc r)" "\<And>j row. find_task j (rn_svc r) = Some row \<Longrightarrow> row_ok r j row"
    "\<And>q i t. held (rn_pc r q i) = Some t \<Longrightarrow> holder_ok (rn_svc r) q i t"
    "\<And>q i t q' i' t'. held (rn_pc r q i) = Some t \<Longrightarrow> held (rn_pc r q' i') = Some t' \<Longrightarrow> ta_id t = ta_id t' \<Longrightarrow>
       q = q' \<and> i = i'"
    "\<And>j. j \<notin> rn_used r \<Longrightarrow> rn_calls r j = 0 \<and> rn_reverts r j = 0 \<and> rn_crashes r j = 0"
  shows "tq_inv r"
  unfolding tq_inv_def using assms by blast

lemma waiting_cong: "rn_pc r' = rn_pc r \<Longrightarrow> waiting r' j = waiting r j"
  by (simp add: waiting_def)

lemma row_ok_mono:
  assumes "row_ok r j row" "ta_attempt row' = ta_attempt row" "ta_maxRetries row' = ta_maxRetries row"
    and "slack (rn_svc r) row \<le> slack (rn_svc r') row'" "rn_pc r' = rn_pc r" "rn_used r \<subseteq> rn_used r'"
    and "rn_calls r' j = rn_calls r j" "rn_reverts r' j = rn_reverts r j" "rn_crashes r' j = rn_crashes r j"
  shows "row_ok r' j row'"
  using assms waiting_cong [OF assms(5), of j] by (auto simp: row_ok_def)

text \<open>An operation of the API: no worker moves, and the rows that workers hold stay as they are.\<close>

lemma inv_api:
  assumes inv: "tq_inv r" and ids: "ids_ok s'" and qs: "queues_ok s'"
    and workers: "\<And>q i. is_worker q i (rn_svc r) \<Longrightarrow> is_worker q i s'"
    and rows: "\<And>j row'. find_task j s' = Some row' \<Longrightarrow> row_ok (r\<lparr>rn_svc := s', rn_used := U\<rparr>) j row'"
    and busy: "\<And>j row. find_task j (rn_svc r) = Some row \<Longrightarrow> ta_status row = Running \<Longrightarrow>
      map_of (tq_queues (rn_svc r)) (ta_queue row) \<noteq> None \<Longrightarrow> find_task j s' = Some row"
    and used: "rn_used r \<subseteq> U"
  shows "tq_inv (r\<lparr>rn_svc := s', rn_used := U\<rparr>)" (is "tq_inv ?r")
proof (rule tq_invI)
  fix q i t
  assume "held (rn_pc ?r q i) = Some t"
  then have h: "holder_ok (rn_svc r) q i t" by (simp add: tq_invD(4) [OF inv])
  then obtain row where row: "find_task (ta_id t) (rn_svc r) = Some row" "ta_status row = Running" "ta_queue row = q"
    and w: "is_worker q i (rn_svc r)" by (auto simp: holder_ok_def)
  from w have "map_of (tq_queues (rn_svc r)) q \<noteq> None" by (auto simp: is_worker_def)
  with busy [OF row(1,2)] row(1,3) have "find_task (ta_id t) s' = find_task (ta_id t) (rn_svc r)" by simp
  with h workers show "holder_ok (rn_svc ?r) q i t" by (simp add: holder_ok_def)
next
  fix q i t q' i' t'
  assume "held (rn_pc ?r q i) = Some t" "held (rn_pc ?r q' i') = Some t'" "ta_id t = ta_id t'"
  then show "q = q' \<and> i = i'" using tq_invD(5) [OF inv, of q i t q' i' t'] by simp
next
  fix j
  assume "j \<notin> rn_used ?r"
  with used have "j \<notin> rn_used r" by auto
  then show "rn_calls ?r j = 0 \<and> rn_reverts ?r j = 0 \<and> rn_crashes ?r j = 0" using tq_invD(6) [OF inv] by simp
next
  fix j row
  assume "find_task j (rn_svc ?r) = Some row"
  then show "row_ok ?r j row" using rows by simp
qed (use ids qs in simp_all)

text \<open>A step of the worker \<open>i\<close> of queue \<open>q\<close> that concerns the task \<open>k\<close> only.\<close>

lemma inv_worker:
  assumes inv: "tq_inv r" and pc: "rn_pc r' = (rn_pc r)(q := (rn_pc r q)(i := pc'))"
    and same: "tq_queues (rn_svc r') = tq_queues (rn_svc r)" "tq_maxConcurrency (rn_svc r') = tq_maxConcurrency (rn_svc r)"
      "rn_used r' = rn_used r" "ids_ok (rn_svc r')"
    and others: "\<And>j. j \<noteq> k \<Longrightarrow> find_task j (rn_svc r') = find_task j (rn_svc r) \<and> rn_calls r' j = rn_calls r j
        \<and> rn_reverts r' j = rn_reverts r j \<and> rn_crashes r' j = rn_crashes r j"
    and mine: "\<And>q' i' t'. held (rn_pc r q' i') = Some t' \<Longrightarrow> ta_id t' = k \<Longrightarrow> q' = q \<and> i' = i"
    and old: "\<And>t. held (rn_pc r q i) = Some t \<Longrightarrow> ta_id t = k"
    and new: "\<And>t. held pc' = Some t \<Longrightarrow> ta_id t = k \<and> holder_ok (rn_svc r') q i t"
    and row: "\<And>row. find_task k (rn_svc r') = Some row \<Longrightarrow> row_ok r' k row" and known: "k \<in> rn_used r"
  shows "tq_inv r'"
proof -
  have w: "is_worker q' i' (rn_svc r') = is_worker q' i' (rn_svc r)" for q' i' by (simp add: is_worker_def same)
  have pc_at: "rn_pc r' q' i' = (if q' = q \<and> i' = i then pc' else rn_pc r q' i')" for q' i' by (simp add: pc)
  have "waiting r' j = waiting r j" if "j \<noteq> k" for j
  proof -
    have "(\<exists>q' i' t. rn_pc r' q' i' = WWait t \<and> ta_id t = j) \<longleftrightarrow> (\<exists>q' i' t. rn_pc r q' i' = WWait t \<and> ta_id t = j)"
      using that new old by (metis held.simps(2) pc_at)
    then show ?thesis by (simp add: waiting_def)
  qed
  then have "row_ok r' j row" if "find_task j (rn_svc r') = Some row" for j row
    using that others [of j] row tq_invD(3) [OF inv, of j row]
    by (cases "j = k") (auto simp: row_ok_def slack_def same)
  moreover have "holder_ok (rn_svc r') q' i' t" if "held (rn_pc r' q' i') = Some t" for q' i' t
  proof (cases "q' = q \<and> i' = i")
    case True
    with that new show ?thesis by (simp add: pc_at)
  next
    case False
    with that have h: "held (rn_pc r q' i') = Some t" by (simp only: pc_at if_False)
    with mine False have "ta_id t \<noteq> k" by blast
    with tq_invD(4) [OF inv h] others [of "ta_id t"] show ?thesis by (simp add: holder_ok_def w)
  qed
  moreover have "q1 = q2 \<and> i1 = i2" if "held (rn_pc r' q1 i1) = Some t1" "held (rn_pc r' q2 i2) = Some t2" "ta_id t1 = ta_id t2"
    for q1 i1 t1 q2 i2 t2
  proof -
    have here: "ta_id t = k" if "held (rn_pc r' q i) = Some t" for t using that new [of t] by (simp add: pc_at)
    have there: "held (rn_pc r q' i') = Some t \<and> ta_id t \<noteq> k" if "held (rn_pc r' q' i') = Some t" "\<not> (q' = q \<and> i' = i)" for q' i' t
    proof -
      from that have h: "held (rn_pc r q' i') = Some t" by (simp only: pc_at if_False)
      with mine [OF h] that(2) show ?thesis by blast
    qed
    show ?thesis
    proof (cases "q1 = q \<and> i1 = i")
      case True
      with that(1) here have "ta_id t2 = k" using that(3) by simp
      with there [OF that(2)] True show ?thesis by blast
    next
      case False
      note a = there [OF that(1) False]
      have "\<not> (q2 = q \<and> i2 = i)" using a that(2,3) here by force
      from there [OF that(2) this] a that(3) show ?thesis using tq_invD(5) [OF inv] by blast
    qed
  qed
  moreover have "queues_ok (rn_svc r')" using tq_invD(2) [OF inv] by (simp add: queues_ok_def allocated_concurrency_def same)
  moreover have "rn_calls r' j = 0 \<and> rn_reverts r' j = 0 \<and> rn_crashes r' j = 0" if "j \<notin> rn_used r'" for j
    using that known same(3) others [of j] tq_invD(6) [OF inv, of j] by auto
  ultimately show ?thesis using same(4) unfolding tq_inv_def by blast
qed

section \<open>Every operation keeps the invariant\<close>

text \<open>An \<open>UPDATE\<close> that keeps attempts, and leaves alone the running rows of existing queues.\<close>

lemma tq_inv_update:
  assumes inv: "tq_inv r"
    and id: "\<And>t. ta_id (f t) = ta_id t" and keep: "\<And>t. ta_attempt (f t) = ta_attempt t \<and> ta_maxRetries (f t) = ta_maxRetries t"
    and idle: "\<And>t. P t \<Longrightarrow> ta_status t = Running \<Longrightarrow> map_of (tq_queues (rn_svc r)) (ta_queue t) = None"
    and slack: "\<And>t. P t \<Longrightarrow> slack (rn_svc r) t \<le> slack (rn_svc r) (f t)"
  shows "tq_inv (r\<lparr>rn_svc := update_tasks P f (rn_svc r)\<rparr>)"
proof -
  let ?s = "update_tasks P f (rn_svc r)"
  have up: "find_task j ?s = map_option (\<lambda>t. if P t then f t else t) (find_task j (rn_svc r))" for j
    by (rule update_tasks_rows(2)) (rule id)
  have "tq_inv (r\<lparr>rn_svc := ?s, rn_used := rn_used r\<rparr>)"
  proof (rule inv_api [OF inv])
    show "ids_ok ?s" using tq_invD(1) [OF inv] id by (simp add: update_tasks_rows(1))
    show "queues_ok ?s" using tq_invD(2) [OF inv] by (simp add: queues_ok_def allocated_concurrency_def)
    show "is_worker q i (rn_svc r) \<Longrightarrow> is_worker q i ?s" for q i by (simp add: is_worker_def)
  next
    fix j row'
    assume "find_task j ?s = Some row'"
    then obtain row where row: "find_task j (rn_svc r) = Some row" "row' = (if P row then f row else row)"
      by (auto simp: up)
    have "slack (rn_svc r) row \<le> slack ?s row'"
      using slack [of row] row(2) by (cases "P row") (simp_all add: slack_def)
    then show "row_ok (r\<lparr>rn_svc := ?s, rn_used := rn_used r\<rparr>) j row'"
      by (intro row_ok_mono [OF tq_invD(3) [OF inv row(1)]]) (simp_all add: row(2) keep)
  next
    fix j row
    assume "find_task j (rn_svc r) = Some row" "ta_status row = Running" "map_of (tq_queues (rn_svc r)) (ta_queue row) \<noteq> None"
    with idle [of row] show "find_task j ?s = Some row" by (auto simp: up)
  qed simp
  then show ?thesis by simp
qed

text \<open>An operation that does not touch the tasks.\<close>

lemma inv_no_rows:
  assumes "tq_inv r" "tq_tasks s' = tq_tasks (rn_svc r)" "queues_ok s'"
    and "\<And>q i. is_worker q i (rn_svc r) \<Longrightarrow> is_worker q i s'"
    and "\<And>q. map_of (tq_queues s') q = None \<Longrightarrow> map_of (tq_queues (rn_svc r)) q = None"
  shows "tq_inv (r\<lparr>rn_svc := s'\<rparr>)"
proof -
  have f: "find_task j s' = find_task j (rn_svc r)" for j by (simp add: find_task_def assms(2))
  have "tq_inv (r\<lparr>rn_svc := s', rn_used := rn_used r\<rparr>)"
  proof (rule inv_api [OF assms(1)])
    show "ids_ok s'" using tq_invD(1) [OF assms(1)] by (simp add: ids_ok_def assms(2))
    fix j row
    assume "find_task j s' = Some row"
    then have "find_task j (rn_svc r) = Some row" by (simp add: f)
    moreover have "slack (rn_svc r) row \<le> slack s' row" using assms(5) [of "ta_queue row"] by (auto simp: slack_def)
    ultimately show "row_ok (r\<lparr>rn_svc := s', rn_used := rn_used r\<rparr>) j row"
      by (intro row_ok_mono [OF tq_invD(3) [OF assms(1)]]) simp_all
  qed (use assms f in simp_all)
  then show ?thesis by simp
qed

lemma wake_simps [simp]: "fst (wake q x) = fst x" "fst \<circ> wake q = fst"
  "qst_config (snd (wake q x)) = qst_config (snd x)"
  by (cases x; simp) (auto simp: fun_eq_iff, cases x, simp)

lemma map_of_wake:
  "map_of (map (wake q) qs) n = map_option (\<lambda>x. if n = q then x\<lparr>qst_signal := True\<rparr> else x) (map_of qs n)"
  by (induction qs) auto

lemma notify_queues_ok: "queues_ok (notifyWorkers q s) = queues_ok s"
  by (simp add: queues_ok_def allocated_concurrency_def notifyWorkers_def comp_def)

lemma notify_workers: "is_worker p i (notifyWorkers q s) = is_worker p i s"
  "map_of (tq_queues (notifyWorkers q s)) p = None \<longleftrightarrow> map_of (tq_queues s) p = None"
  by (cases "map_of (tq_queues s) p"; simp add: is_worker_def notifyWorkers_def map_of_wake)+

lemma inv_notify: "tq_inv r \<Longrightarrow> tq_inv (r\<lparr>rn_svc := notifyWorkers q (rn_svc r)\<rparr>)"
  by (rule inv_no_rows) (simp_all add: tq_invD(2) notify_queues_ok notify_workers, simp add: notifyWorkers_def)

lemma config_defaults: "1 \<le> qcf_Concurrency (applyConfigDefaults c)"
  by (auto simp: applyConfigDefaults_def Let_def defaultConcurrency_def)

lemma clamp_bounds:
  assumes "clampConcurrency (applyConfigDefaults c) s = Inr c'"
  shows "1 \<le> qcf_Concurrency c'" "allocated_concurrency s + qcf_Concurrency c' \<le> tq_maxConcurrency s"
  using assms config_defaults [of c] by (auto simp: clampConcurrency_def Let_def split: if_splits)

lemma inv_create: "tq_inv r \<Longrightarrow> tq_inv (r\<lparr>rn_svc := fst (CreateQueue e1 e2 now name config (rn_svc r))\<rparr>)"
proof -
  assume inv: "tq_inv r"
  let ?s = "rn_svc r"
  let ?reset = "update_tasks (\<lambda>t. ta_queue t = name \<and> ta_status t = Running) (\<lambda>t. t\<lparr>ta_status := Pending, ta_updatedAt := now\<rparr>)"
  consider (same) "fst (CreateQueue e1 e2 now name config ?s) = ?s"
    | (row) c where "fst (CreateQueue e1 e2 now name config ?s) = ?s\<lparr>tq_rows := (tq_rows ?s)(name \<mapsto> c)\<rparr>"
    | (new) c where "map_of (tq_queues ?s) name = None" "clampConcurrency (applyConfigDefaults config) ?s = Inr c"
        "fst (CreateQueue e1 e2 now name config ?s) = (let s2 = ?reset (?s\<lparr>tq_rows := (tq_rows ?s)(name \<mapsto> c)\<rparr>)
           in s2\<lparr>tq_queues := tq_queues s2 @ [(name, \<lparr>qst_config = c, qst_signal = False\<rparr>)]\<rparr>)"
    by (fastforce simp: CreateQueue_def Let_def split: if_splits sum.splits option.splits)
  then show ?thesis
  proof cases
    case same
    with inv show ?thesis by simp
  next
    case row
    with inv_no_rows [OF inv, of "?s\<lparr>tq_rows := (tq_rows ?s)(name \<mapsto> c)\<rparr>"] tq_invD(2) [OF inv] show ?thesis
      by (simp add: queues_ok_def allocated_concurrency_def is_worker_def)
  next
    case new
    let ?r1 = "r\<lparr>rn_svc := ?s\<lparr>tq_rows := (tq_rows ?s)(name \<mapsto> c)\<rparr>\<rparr>"
    let ?r2 = "?r1\<lparr>rn_svc := ?reset (rn_svc ?r1)\<rparr>"
    have i1: "tq_inv ?r1"
      by (rule inv_no_rows [OF inv]) (use tq_invD(2) [OF inv] in \<open>simp_all add: queues_ok_def allocated_concurrency_def is_worker_def\<close>)
    have i2: "tq_inv ?r2" by (rule tq_inv_update [OF i1]) (use new(1) in \<open>auto simp: slack_def\<close>)
    let ?s3 = "(rn_svc ?r2)\<lparr>tq_queues := tq_queues ?s @ [(name, \<lparr>qst_config = c, qst_signal = False\<rparr>)]\<rparr>"
    have q: "queues_ok ?s3"
      using tq_invD(2) [OF inv] clamp_bounds [OF new(2)] new(1)
      by (auto simp: queues_ok_def allocated_concurrency_def map_of_eq_None_iff)
    have "tq_inv (?r2\<lparr>rn_svc := ?s3\<rparr>)"
      by (rule inv_no_rows [OF i2]) (use q in \<open>auto simp: is_worker_def map_add_def split: option.splits\<close>)
    then show ?thesis using new(3) by (simp add: Let_def)
  qed
qed

lemma find_task_append:
  "find_task j (s\<lparr>tq_tasks := tq_tasks s @ [t]\<rparr>)
    = (case find_task j s of None \<Rightarrow> if ta_id t = j then Some t else None | Some row \<Rightarrow> Some row)"
proof -
  have "find P (xs @ [t]) = (case find P xs of None \<Rightarrow> if P t then Some t else None | Some x \<Rightarrow> Some x)" for P xs
    by (induction xs) auto
  then show ?thesis by (simp add: find_task_def)
qed

lemma unused_task:
  assumes "tq_inv r" "j \<notin> rn_used r"
  shows "find_task j (rn_svc r) = None" "waiting r j = 0"
proof -
  show f: "find_task j (rn_svc r) = None"
    using assms tq_invD(3) [OF assms(1), of j] by (cases "find_task j (rn_svc r)") (auto simp: row_ok_def)
  show "waiting r j = 0"
  proof (rule ccontr)
    assume "waiting r j \<noteq> 0"
    then obtain q i t where "rn_pc r q i = WWait t" "ta_id t = j" by (auto simp: waiting_def split: if_splits)
    with tq_invD(4) [OF assms(1), of q i t] f show False by (simp add: holder_ok_def)
  qed
qed

lemma tq_inv_insert:
  assumes inv: "tq_inv r" and fresh: "ta_id t \<notin> rn_used r" and new: "ta_status t = Pending" "ta_attempt t = 0"
  shows "tq_inv (r\<lparr>rn_svc := (rn_svc r)\<lparr>tq_tasks := tq_tasks (rn_svc r) @ [t]\<rparr>, rn_used := insert (ta_id t) (rn_used r)\<rparr>)"
    (is "tq_inv (r\<lparr>rn_svc := ?s, rn_used := ?u\<rparr>)")
proof (rule inv_api [OF inv])
  note none = unused_task [OF inv fresh]
  have "ta_id u \<noteq> ta_id t" if "u \<in> set (tq_tasks (rn_svc r))" for u
    using that none(1) by (auto simp: find_task_def find_None_iff)
  then have "ta_id t \<notin> ta_id ` set (tq_tasks (rn_svc r))" by (metis imageE)
  then show "ids_ok ?s" using tq_invD(1) [OF inv] by (simp add: ids_ok_def)
  show "queues_ok ?s" using tq_invD(2) [OF inv] by (simp add: queues_ok_def allocated_concurrency_def)
  show "is_worker q i (rn_svc r) \<Longrightarrow> is_worker q i ?s" for q i by (simp add: is_worker_def)
  show "find_task j (rn_svc r) = Some row \<Longrightarrow> find_task j ?s = Some row" for j row by (simp add: find_task_append)
  fix j row
  assume row: "find_task j ?s = Some row"
  show "row_ok (r\<lparr>rn_svc := ?s, rn_used := ?u\<rparr>) j row"
  proof (cases "find_task j (rn_svc r)")
    case None
    with row have "j = ta_id t" "row = t" by (auto simp: find_task_append split: if_splits)
    then show ?thesis using none(2) tq_invD(6) [OF inv fresh] new by (simp add: row_ok_def waiting_def slack_def)
  next
    case (Some row0)
    with row have "find_task j (rn_svc r) = Some row" by (simp add: find_task_append)
    then show ?thesis by (intro row_ok_mono [OF tq_invD(3) [OF inv]]) (auto simp: slack_def)
  qed
qed auto

lemma inv_enqueue:
  assumes "tq_inv r" "i \<notin> rn_used r"
  shows "tq_inv (r\<lparr>rn_svc := fst (tq_Enqueue e i now q payload (rn_svc r)), rn_used := insert i (rn_used r)\<rparr>)"
proof -
  consider "fst (tq_Enqueue e i now q payload (rn_svc r)) = rn_svc r"
    | t where "ta_id t = i" "ta_status t = Pending" "ta_attempt t = 0"
      "fst (tq_Enqueue e i now q payload (rn_svc r)) = notifyWorkers q ((rn_svc r)\<lparr>tq_tasks := tq_tasks (rn_svc r) @ [t]\<rparr>)"
  proof (cases "fst (tq_Enqueue e i now q payload (rn_svc r)) = rn_svc r")
    case False
    then obtain qs where "map_of (tq_queues (rn_svc r)) q = Some qs" "length payload \<le> maxPayloadSize" "e = None"
      by (auto simp: tq_Enqueue_def split: option.splits if_splits)
    then show thesis by (intro that(2)) (simp_all add: tq_Enqueue_def)
  qed
  then show ?thesis
  proof cases
    case 1
    have "tq_inv (r\<lparr>rn_svc := rn_svc r, rn_used := insert i (rn_used r)\<rparr>)"
    proof (rule inv_api [OF assms(1)])
      fix j row
      assume "find_task j (rn_svc r) = Some row"
      then show "row_ok (r\<lparr>rn_svc := rn_svc r, rn_used := insert i (rn_used r)\<rparr>) j row"
        by (intro row_ok_mono [OF tq_invD(3) [OF assms(1)]]) auto
    qed (use tq_invD [OF assms(1)] in auto)
    with 1 show ?thesis by simp
  next
    case (2 t)
    have swap: "r\<lparr>rn_used := u, rn_svc := x\<rparr> = r\<lparr>rn_svc := x, rn_used := u\<rparr>" for u x by simp
    from inv_notify [OF tq_inv_insert [OF assms(1), of t], of q] 2 assms(2) show ?thesis by (simp add: swap)
  qed
qed

lemma inv_cancel: "tq_inv r \<Longrightarrow> tq_inv (r\<lparr>rn_svc := fst (tq_Cancel e1 e2 now i (rn_svc r))\<rparr>)"
proof -
  assume inv: "tq_inv r"
  let ?s = "update_tasks (\<lambda>t. ta_id t = i \<and> ta_status t = Pending) (\<lambda>t. t\<lparr>ta_status := Cancelled, ta_updatedAt := now\<rparr>) (rn_svc r)"
  have "tq_inv (r\<lparr>rn_svc := ?s\<rparr>)" by (rule tq_inv_update [OF inv]) (simp_all add: slack_def)
  moreover have "fst (tq_Cancel e1 e2 now i (rn_svc r)) \<in> {rn_svc r, ?s}"
    by (simp add: tq_Cancel_def Let_def split: option.splits)
  ultimately show ?thesis using inv by auto
qed

lemma inv_clear: "tq_inv r \<Longrightarrow> tq_inv (r\<lparr>rn_svc := fst (ClearQueue e now q (rn_svc r))\<rparr>)"
proof -
  assume inv: "tq_inv r"
  let ?s = "update_tasks (\<lambda>t. ta_queue t = q \<and> ta_status t = Pending) (\<lambda>t. t\<lparr>ta_status := Cancelled, ta_updatedAt := now\<rparr>) (rn_svc r)"
  have "tq_inv (r\<lparr>rn_svc := ?s\<rparr>)" by (rule tq_inv_update [OF inv]) (simp_all add: slack_def)
  moreover have "fst (ClearQueue e now q (rn_svc r)) \<in> {rn_svc r, ?s}"
    by (simp add: ClearQueue_def Let_def split: option.splits)
  ultimately show ?thesis using inv by auto
qed

lemma inv_delete:
  assumes inv: "tq_inv r" and running: "\<And>t. ta_status t = Running \<Longrightarrow> Q t"
  shows "tq_inv (r\<lparr>rn_svc := (rn_svc r)\<lparr>tq_tasks := filter Q (tq_tasks (rn_svc r))\<rparr>\<rparr>)"
proof -
  let ?s = "(rn_svc r)\<lparr>tq_tasks := filter Q (tq_tasks (rn_svc r))\<rparr>"
  note f = find_task_filter [OF tq_invD(1) [OF inv], where Q = Q]
  have "tq_inv (r\<lparr>rn_svc := ?s, rn_used := rn_used r\<rparr>)"
  proof (rule inv_api [OF inv])
    show "ids_ok ?s" by (rule f(2))
    show "queues_ok ?s" using tq_invD(2) [OF inv] by (simp add: queues_ok_def allocated_concurrency_def)
    show "is_worker q i (rn_svc r) \<Longrightarrow> is_worker q i ?s" for q i by (simp add: is_worker_def)
    show "find_task j (rn_svc r) = Some row \<Longrightarrow> ta_status row = Running \<Longrightarrow> find_task j ?s = Some row" for j row
      using running by (simp add: f(1))
    fix j row
    assume "find_task j ?s = Some row"
    then have "find_task j (rn_svc r) = Some row" by (simp add: f(1))
    then show "row_ok (r\<lparr>rn_svc := ?s, rn_used := rn_used r\<rparr>) j row"
      by (intro row_ok_mono [OF tq_invD(3) [OF inv]]) (auto simp: slack_def)
  qed simp
  then show ?thesis by simp
qed

lemma inv_cleanup: "tq_inv r \<Longrightarrow> tq_inv (r\<lparr>rn_svc := runCleanup errs now (rn_svc r)\<rparr>)"
proof -
  let ?del = "\<lambda>st (name, qs). if errs name then st
        else st\<lparr>tq_tasks := filter (\<lambda>t. \<not> (ta_queue t = name \<and> terminal (ta_status t)
                 \<and> ta_updatedAt t + qcf_RetentionMs (qst_config qs) < now)) (tq_tasks st)\<rparr>"
  have step: "tq_inv (r\<lparr>rn_svc := ?del s x\<rparr>)" if "tq_inv (r\<lparr>rn_svc := s\<rparr>)" for s x
    using that inv_delete [OF that, of "\<lambda>t. \<not> (ta_queue t = fst x \<and> terminal (ta_status t)
                 \<and> ta_updatedAt t + qcf_RetentionMs (qst_config (snd x)) < now)"]
    by (cases x) (simp add: terminal_def)
  have "tq_inv (r\<lparr>rn_svc := s\<rparr>) \<Longrightarrow> tq_inv (r\<lparr>rn_svc := foldl ?del s qs\<rparr>)" for s qs
    by (induction qs arbitrary: s) (simp_all add: step)
  from this [of "rn_svc r" "tq_queues (rn_svc r)"]
  show "tq_inv r \<Longrightarrow> tq_inv (r\<lparr>rn_svc := runCleanup errs now (rn_svc r)\<rparr>)" by (simp add: runCleanup_def)
qed

section \<open>Every worker's step keeps the invariant\<close>

lemma set_pc_simps [simp]:
  "rn_svc (set_pc q i pc r) = rn_svc r" "rn_used (set_pc q i pc r) = rn_used r" "rn_calls (set_pc q i pc r) = rn_calls r"
  "rn_reverts (set_pc q i pc r) = rn_reverts r" "rn_crashes (set_pc q i pc r) = rn_crashes r"
  "rn_pc (set_pc q i pc r) = (rn_pc r)(q := (rn_pc r q)(i := pc))"
  by (simp_all add: set_pc_def)

text \<open>When no other worker holds the task, its only waiter is the worker that moves.\<close>

lemma waiting_moved:
  assumes "\<And>q' i' t'. held (rn_pc r q' i') = Some t' \<Longrightarrow> ta_id t' = k \<Longrightarrow> q' = q \<and> i' = i"
    and "rn_pc r' = (rn_pc r)(q := (rn_pc r q)(i := pc))"
  shows "waiting r' k = (case pc of WWait t \<Rightarrow> if ta_id t = k then 1 else 0 | _ \<Rightarrow> 0)"
proof -
  have "(\<exists>q' i' t. rn_pc r' q' i' = WWait t \<and> ta_id t = k) \<longleftrightarrow> (\<exists>t. pc = WWait t \<and> ta_id t = k)" (is "?l \<longleftrightarrow> ?r")
  proof
    assume ?l
    then obtain q' i' t where t: "rn_pc r' q' i' = WWait t" "ta_id t = k" by blast
    with assms(1) [of q' i' t] assms(2) show ?r by (auto split: if_splits)
  next
    assume ?r
    then obtain t where "pc = WWait t" "ta_id t = k" by blast
    then show ?l by (intro exI [of _ q] exI [of _ i] exI [of _ t]) (simp add: assms(2))
  qed
  then show ?thesis by (auto simp: waiting_def split: worker_pc.splits)
qed

lemma holder_row:
  assumes "tq_inv r" "held (rn_pc r q i) = Some t"
  obtains row where "find_task (ta_id t) (rn_svc r) = Some row" "ta_status row = Running" "ta_attempt row = ta_attempt t"
    "ta_maxRetries row = ta_maxRetries t" "1 \<le> ta_attempt row" "ta_queue row = q" "map_of (tq_queues (rn_svc r)) q \<noteq> None"
    "slack (rn_svc r) row = 1" "row_ok r (ta_id t) row"
proof -
  from tq_invD(4) [OF assms] obtain row where row: "find_task (ta_id t) (rn_svc r) = Some row" "ta_status row = Running"
    "ta_attempt row = ta_attempt t" "ta_maxRetries row = ta_maxRetries t" "1 \<le> ta_attempt row" "ta_queue row = q"
    "map_of (tq_queues (rn_svc r)) q \<noteq> None" by (auto simp: holder_ok_def is_worker_def)
  then have "slack (rn_svc r) row = 1" by (simp add: slack_def)
  with row tq_invD(3) [OF assms(1) row(1)] that show ?thesis by blast
qed

lemma inv_dequeue:
  assumes inv: "tq_inv r" and pc: "rn_pc r q i = WIdle" and w: "is_worker q i (rn_svc r)"
    and d: "dequeueTask now q (rn_svc r) = Some (s, t)"
  shows "tq_inv (set_pc q i (WWait t) (r\<lparr>rn_svc := s\<rparr>))" (is "tq_inv ?r")
proof -
  let ?f = "\<lambda>t. t\<lparr>ta_status := Running, ta_attempt := ta_attempt t + 1, ta_updatedAt := now\<rparr>"
  obtain t0 where due: "due_task now q (rn_svc r) = Some t0" and t: "t = ?f t0"
    and s: "s = update_tasks (\<lambda>u. ta_id u = ta_id t0) ?f (rn_svc r)"
    using d by (auto simp: dequeueTask_def split: option.splits)
  note row = due_task_row [OF tq_invD(1) [OF inv] due]
  have up: "find_task j s = map_option (\<lambda>u. if ta_id u = ta_id t0 then ?f u else u) (find_task j (rn_svc r))" for j
    unfolding s by (rule update_tasks_rows(2)) simp
  have free: "ta_id t' \<noteq> ta_id t0" if h: "held (rn_pc r q' i') = Some t'" for q' i' t'
  proof
    assume eq: "ta_id t' = ta_id t0"
    from holder_row [OF inv h] obtain row' where "find_task (ta_id t') (rn_svc r) = Some row'" "ta_status row' = Running" by blast
    with eq row(1,3) show False by simp
  qed
  have old: "row_ok r (ta_id t0) t0" by (rule tq_invD(3) [OF inv row(1)])
  have w0: "waiting r (ta_id t0) = 0"
  proof -
    have "\<not> (\<exists>q i t. rn_pc r q i = WWait t \<and> ta_id t = ta_id t0)" using free by (metis held.simps(2))
    then show ?thesis by (simp add: waiting_def)
  qed
  have w1: "waiting ?r (ta_id t0) = 1"
    by (subst waiting_moved [where k = "ta_id t0" and q = q and i = i and r = r]) (use free in \<open>auto simp: t\<close>)
  have here: "find_task (ta_id t0) s = Some t" by (simp add: up row(1) t)
  have qs: "tq_queues s = tq_queues (rn_svc r)" by (simp add: s)
  from w have nn: "map_of (tq_queues (rn_svc r)) q \<noteq> None" by (auto simp: is_worker_def)
  show ?thesis
  proof (rule inv_worker [OF inv, where k = "ta_id t0" and q = q and i = i and pc' = "WWait t"])
    show "ids_ok (rn_svc ?r)" using tq_invD(1) [OF inv] by (simp add: s update_tasks_rows(1))
    show "ta_id u = ta_id t0 \<and> holder_ok (rn_svc ?r) q i u" if "held (WWait t) = Some u" for u
      using that old row w nn here by (auto simp: holder_ok_def is_worker_def qs t row_ok_def)
    show "row_ok ?r (ta_id t0) row'" if "find_task (ta_id t0) (rn_svc ?r) = Some row'" for row'
      using that old row(2,3) w0 w1 here nn by (auto simp: row_ok_def slack_def qs t)
    show "ta_id t0 \<in> rn_used r" using old by (simp add: row_ok_def)
    show "q' = q \<and> i' = i" if "held (rn_pc r q' i') = Some t'" "ta_id t' = ta_id t0" for q' i' t'
      using free [OF that(1)] that(2) by simp
    show "find_task j (rn_svc ?r) = find_task j (rn_svc r) \<and> rn_calls ?r j = rn_calls r j
        \<and> rn_reverts ?r j = rn_reverts r j \<and> rn_crashes ?r j = rn_crashes r j" if "j \<noteq> ta_id t0" for j
      using that find_task_id [of j "rn_svc r"] by (auto simp: up option.map_ident intro: option.expand)
  qed (simp_all add: qs s pc)
qed

lemma inv_call:
  assumes inv: "tq_inv r" and pc: "rn_pc r q i = WWait t"
  shows "tq_inv (set_pc q i (WCall t) (r\<lparr>rn_calls := (rn_calls r)(ta_id t := Suc (rn_calls r (ta_id t)))\<rparr>))" (is "tq_inv ?r")
proof -
  have h: "held (rn_pc r q i) = Some t" by (simp add: pc)
  have mine: "q' = q \<and> i' = i" if "held (rn_pc r q' i') = Some t'" "ta_id t' = ta_id t" for q' i' t'
    using tq_invD(5) [OF inv that(1) h that(2)] .
  have w: "waiting r (ta_id t) = 1" using pc by (auto simp: waiting_def)
  have w': "waiting ?r (ta_id t) = 0"
    by (subst waiting_moved [where k = "ta_id t" and q = q and i = i and r = r]) (use mine in auto)
  from holder_row [OF inv h] obtain row where row: "find_task (ta_id t) (rn_svc r) = Some row" "row_ok r (ta_id t) row" by blast
  show ?thesis
  proof (rule inv_worker [OF inv, where k = "ta_id t" and q = q and i = i and pc' = "WCall t"])
    show "row_ok ?r (ta_id t) row'" if "find_task (ta_id t) (rn_svc ?r) = Some row'" for row'
      using that row w w' by (simp add: row_ok_def)
    show "ta_id u = ta_id t \<and> holder_ok (rn_svc ?r) q i u" if "held (WCall t) = Some u" for u
      using that tq_invD(4) [OF inv h] by simp
    show "ta_id t \<in> rn_used r" using row(2) by (simp add: row_ok_def)
    show "q' = q \<and> i' = i" if "held (rn_pc r q' i') = Some t'" "ta_id t' = ta_id t" for q' i' t'
      by (rule mine [OF that])
  qed (use pc tq_invD(1) [OF inv] in simp_all)
qed

text \<open>A worker lets go of its task, with an \<open>UPDATE\<close> of no other row.\<close>

lemma inv_release:
  assumes inv: "tq_inv r" and h: "held (rn_pc r q i) = Some t"
    and f: "\<And>u. ta_id (f u) = ta_id u" and P: "\<And>u. P u \<Longrightarrow> ta_id u = ta_id t"
    and r': "rn_svc r' = update_tasks P f (rn_svc r)" "rn_used r' = rn_used r" "rn_calls r' = rn_calls r"
      "rn_crashes r' = rn_crashes r" "\<And>j. j \<noteq> ta_id t \<Longrightarrow> rn_reverts r' j = rn_reverts r j"
      "rn_pc r' = (rn_pc r)(q := (rn_pc r q)(i := WIdle))"
    and row: "\<And>row. find_task (ta_id t) (rn_svc r) = Some row \<Longrightarrow> ta_status row = Running \<Longrightarrow> ta_attempt row = ta_attempt t \<Longrightarrow>
      ta_maxRetries row = ta_maxRetries t \<Longrightarrow> 1 \<le> ta_attempt row \<Longrightarrow> slack (rn_svc r) row = 1 \<Longrightarrow> row_ok r (ta_id t) row \<Longrightarrow>
      waiting r' (ta_id t) = 0 \<Longrightarrow> row_ok r' (ta_id t) (if P row then f row else row)"
  shows "tq_inv r'"
proof -
  have mine: "q' = q \<and> i' = i" if "held (rn_pc r q' i') = Some t'" "ta_id t' = ta_id t" for q' i' t'
    using tq_invD(5) [OF inv that(1) h that(2)] .
  have w: "waiting r' (ta_id t) = 0"
    by (subst waiting_moved [where k = "ta_id t" and q = q and i = i and r = r]) (use mine r'(6) in auto)
  have up: "find_task j (rn_svc r') = map_option (\<lambda>u. if P u then f u else u) (find_task j (rn_svc r))" for j
    unfolding r'(1) by (rule update_tasks_rows(2)) (rule f)
  from holder_row [OF inv h] obtain row0 where row0: "find_task (ta_id t) (rn_svc r) = Some row0" "ta_status row0 = Running"
    "ta_attempt row0 = ta_attempt t" "ta_maxRetries row0 = ta_maxRetries t" "1 \<le> ta_attempt row0" "slack (rn_svc r) row0 = 1"
    "row_ok r (ta_id t) row0" by blast
  show ?thesis
  proof (rule inv_worker [OF inv, where k = "ta_id t" and q = q and i = i and pc' = WIdle])
    show "ids_ok (rn_svc r')" using tq_invD(1) [OF inv] f by (simp add: r'(1) update_tasks_rows(1))
    show "row_ok r' (ta_id t) row'" if "find_task (ta_id t) (rn_svc r') = Some row'" for row'
      using that row [OF row0 w] row0(1) by (auto simp: up)
    show "ta_id t \<in> rn_used r" using row0(7) by (simp add: row_ok_def)
    show "q' = q \<and> i' = i" if "held (rn_pc r q' i') = Some t'" "ta_id t' = ta_id t" for q' i' t'
      by (rule mine [OF that])
    show "find_task j (rn_svc r') = find_task j (rn_svc r) \<and> rn_calls r' j = rn_calls r j
        \<and> rn_reverts r' j = rn_reverts r j \<and> rn_crashes r' j = rn_crashes r j" if "j \<noteq> ta_id t" for j
      using that P find_task_id [of j "rn_svc r"] r'(2-5) by (cases "find_task j (rn_svc r)") (auto simp: up)
  qed (use r' h in simp_all)
qed

lemma revert_form:
  obtains P f where "revertTaskToPending e now k s = update_tasks P f s" "\<And>u. ta_id (f u) = ta_id u" "\<And>u. P u \<Longrightarrow> ta_id u = k"
    "\<And>u. ta_status (f u) = Pending \<and> ta_maxRetries (f u) = ta_maxRetries u \<and> ta_attempt (f u) = max (ta_attempt u - 1) 0"
proof (cases e)
  case None
  show ?thesis
    by (rule that [of "\<lambda>t. ta_id t = k \<and> ta_status t = Running"
      "\<lambda>t. t\<lparr>ta_status := Pending, ta_attempt := max (ta_attempt t - 1) 0, ta_updatedAt := now\<rparr>"])
      (simp_all add: revertTaskToPending_def None)
next
  case (Some x)
  show ?thesis
    by (rule that [of "\<lambda>t. False" "\<lambda>t. t\<lparr>ta_status := Pending, ta_attempt := max (ta_attempt t - 1) 0\<rparr>"])
      (simp_all add: revertTaskToPending_def Some update_tasks_def)
qed

lemma finish_form:
  obtains P f where "finishTask e now t config answer s = update_tasks P f s" "\<And>u. ta_id (f u) = ta_id u" "\<And>u. P u \<Longrightarrow> ta_id u = ta_id t"
    "\<And>u. ta_maxRetries (f u) = ta_maxRetries u \<and> ta_attempt (f u) = ta_attempt u
       \<and> (terminal (ta_status (f u)) \<or> ta_status (f u) = Pending \<and> ta_attempt t \<le> ta_maxRetries t)"
proof -
  have "finishTask e now t config answer s = update_tasks (\<lambda>u. e = None \<and> ta_id u = ta_id t)
    (\<lambda>u. case answer of
       (None, m) \<Rightarrow> u\<lparr>ta_status := Completed, ta_message := m, ta_updatedAt := now\<rparr>
     | (Some c, m) \<Rightarrow> if ta_attempt t > ta_maxRetries t
         then u\<lparr>ta_status := Failed, ta_message := if m = [] then c else m, ta_updatedAt := now\<rparr>
         else u\<lparr>ta_status := Pending, ta_nextRunAt := now + task_backoff (qcf_BackoffMs config) (ta_attempt t), ta_updatedAt := now\<rparr>) s"
    by (cases e) (auto simp: finishTask_def completeTask_def handleTaskFailure_def update_tasks_def Let_def split: prod.splits option.splits)
  then show ?thesis
    by (rule that) (auto simp: terminal_def split: prod.splits option.splits)
qed

lemma inv_wait_error:
  assumes inv: "tq_inv r" and pc: "rn_pc r q i = WWait t"
  shows "tq_inv (set_pc q i WIdle (r\<lparr>rn_svc := revertTaskToPending e now (ta_id t) (rn_svc r)\<rparr>))"
proof -
  obtain P f where pf: "revertTaskToPending e now (ta_id t) (rn_svc r) = update_tasks P f (rn_svc r)" "\<And>u. ta_id (f u) = ta_id u"
    "\<And>u. P u \<Longrightarrow> ta_id u = ta_id t"
    "\<And>u. ta_status (f u) = Pending \<and> ta_maxRetries (f u) = ta_maxRetries u \<and> ta_attempt (f u) = max (ta_attempt u - 1) 0"
    by (rule revert_form [of e now "ta_id t" "rn_svc r"]) (rule that)
  have w: "waiting r (ta_id t) = 1" using pc by (auto simp: waiting_def)
  show ?thesis
    by (rule inv_release [OF inv, where P = P and f = f and q = q and i = i and t = t])
      (use pc pf w in \<open>auto simp: row_ok_def slack_def\<close>)
qed

lemma inv_interrupt:
  assumes inv: "tq_inv r" and pc: "rn_pc r q i = WCall t"
  shows "tq_inv (set_pc q i WIdle (r\<lparr>rn_svc := revertTaskToPending e now (ta_id t) (rn_svc r),
       rn_reverts := (rn_reverts r)(ta_id t := Suc (rn_reverts r (ta_id t)))\<rparr>))"
proof -
  obtain P f where pf: "revertTaskToPending e now (ta_id t) (rn_svc r) = update_tasks P f (rn_svc r)" "\<And>u. ta_id (f u) = ta_id u"
    "\<And>u. P u \<Longrightarrow> ta_id u = ta_id t"
    "\<And>u. ta_status (f u) = Pending \<and> ta_maxRetries (f u) = ta_maxRetries u \<and> ta_attempt (f u) = max (ta_attempt u - 1) 0"
    by (rule revert_form [of e now "ta_id t" "rn_svc r"]) (rule that)
  show ?thesis
    by (rule inv_release [OF inv, where P = P and f = f and q = q and i = i and t = t])
      (use pc pf in \<open>auto simp: row_ok_def slack_def\<close>)
qed

lemma inv_finish:
  assumes inv: "tq_inv r" and pc: "rn_pc r q i = WCall t"
  shows "tq_inv (set_pc q i WIdle (r\<lparr>rn_svc := finishTask e now t config answer (rn_svc r)\<rparr>))"
proof -
  obtain P f where pf: "finishTask e now t config answer (rn_svc r) = update_tasks P f (rn_svc r)" "\<And>u. ta_id (f u) = ta_id u"
    "\<And>u. P u \<Longrightarrow> ta_id u = ta_id t"
    "\<And>u. ta_maxRetries (f u) = ta_maxRetries u \<and> ta_attempt (f u) = ta_attempt u
       \<and> (terminal (ta_status (f u)) \<or> ta_status (f u) = Pending \<and> ta_attempt t \<le> ta_maxRetries t)"
    by (rule finish_form [of e now t config answer "rn_svc r"]) (rule that)
  have ok: "slack (update_tasks P f (rn_svc r)) (f row) = 1 \<or> ta_attempt t \<le> ta_maxRetries t" for row
    using pf(4) [of row] by (auto simp: slack_def terminal_def)
  have ge: "0 \<le> slack (update_tasks P f (rn_svc r)) row" for row by (simp add: slack_def)
  have same: "slack (update_tasks P f (rn_svc r)) row = slack (rn_svc r) row" for row by (simp add: slack_def)
  show ?thesis
  proof (rule inv_release [OF inv, where P = P and f = f and q = q and i = i and t = t])
    let ?r = "set_pc q i WIdle (r\<lparr>rn_svc := finishTask e now t config answer (rn_svc r)\<rparr>)"
    fix row
    assume "ta_attempt row = ta_attempt t" "ta_maxRetries row = ta_maxRetries t" "slack (rn_svc r) row = 1"
      "row_ok r (ta_id t) row" "waiting ?r (ta_id t) = 0"
    then show "row_ok ?r (ta_id t) (if P row then f row else row)"
      using ok [of row] ge [of "f row"] same [of row] pf(4) [of row] by (auto simp: row_ok_def pf(1))
  qed (use pc pf in simp_all)
qed

lemma inv_close: "tq_inv r \<Longrightarrow> tq_inv (r\<lparr>rn_svc := close_cancel (rn_svc r)\<rparr>)"
  using tq_invD(2) [of r]
  by (intro inv_no_rows) (simp_all add: close_cancel_def queues_ok_def allocated_concurrency_def is_worker_def)

lemma inv_restart:
  assumes inv: "tq_inv r" and s: "s \<in> {rn_svc r, close_reset e now (rn_svc r)}"
  shows "tq_inv (r\<lparr>rn_svc := newTaskQueueService mc (tq_rows s) (tq_tasks s), rn_pc := (\<lambda>_ _. WIdle),
       rn_crashes := (\<lambda>i. rn_crashes r i + (case find_task i (rn_svc r) of
          Some t \<Rightarrow> if ta_status t = Running then 1 else 0 | None \<Rightarrow> 0))\<rparr>)" (is "tq_inv ?r")
proof -
  obtain P where s': "s = update_tasks (\<lambda>u. P \<and> ta_status u = Running) (\<lambda>u. u\<lparr>ta_status := Pending, ta_updatedAt := now\<rparr>) (rn_svc r)"
  proof (cases "s = rn_svc r")
    case True
    then show ?thesis by (intro that [of False]) (simp add: update_tasks_def)
  next
    case False
    with s show ?thesis by (intro that [of True]) (auto simp: close_reset_def split: option.splits)
  qed
  have f: "find_task j (rn_svc ?r)
      = map_option (\<lambda>u. if P \<and> ta_status u = Running then u\<lparr>ta_status := Pending, ta_updatedAt := now\<rparr> else u) (find_task j (rn_svc r))" for j
    using update_tasks_rows(2) [of "\<lambda>u. u\<lparr>ta_status := Pending, ta_updatedAt := now\<rparr>" j "\<lambda>u. P \<and> ta_status u = Running" "rn_svc r"]
    by (simp add: find_task_def newTaskQueueService_def s')
  show ?thesis
  proof (rule tq_invI)
    show "ids_ok (rn_svc ?r)" using tq_invD(1) [OF inv] unfolding newTaskQueueService_def s'
      by (simp add: ids_ok_def update_tasks_def comp_def if_distrib cong: if_cong)
    show "queues_ok (rn_svc ?r)" by (simp add: newTaskQueueService_def queues_ok_def)
  next
    fix j row'
    assume "find_task j (rn_svc ?r) = Some row'"
    then obtain row where row: "find_task j (rn_svc r) = Some row"
      "row' = (if P \<and> ta_status row = Running then row\<lparr>ta_status := Pending, ta_updatedAt := now\<rparr> else row)" unfolding f by auto
    with tq_invD(3) [OF inv row(1)] show "row_ok ?r j row'"
      by (auto simp: row_ok_def slack_def waiting_def newTaskQueueService_def split: if_splits)
  next
    fix j
    assume "j \<notin> rn_used ?r"
    then have j: "j \<notin> rn_used r" by simp
    from tq_invD(6) [OF inv j] unused_task(1) [OF inv j]
    show "rn_calls ?r j = 0 \<and> rn_reverts ?r j = 0 \<and> rn_crashes ?r j = 0" by simp
  qed simp_all
qed

lemma tq_step_inv: "tq_step r r' \<Longrightarrow> tq_inv r \<Longrightarrow> tq_inv r'"
  by (induction rule: tq_step.induct)
    (blast intro: inv_create inv_enqueue inv_cancel inv_clear inv_cleanup inv_notify inv_dequeue inv_call inv_wait_error
      inv_interrupt inv_finish inv_close inv_restart)+

lemma tq_init_inv: "tq_init r \<Longrightarrow> tq_inv r"
  by (rule tq_invI) (auto simp: tq_init_def newTaskQueueService_def ids_ok_def queues_ok_def find_task_def)

interpretation tq: step_invariant tq_init tq_step tq_inv
  by unfold_locales (rule tq_init_inv, assumption, rule tq_step_inv)

section \<open>Backoff\<close>

lemma shifted_value:
  fixes b :: int
  assumes "0 < b" "b < 2 ^ 42"
  shows "task_backoff b (int k + 1) = min (b * 2 ^ k) maxBackoffMs"
proof -
  define x :: int where "x = signed_take_bit 63 (b * 2 ^ k)"
  have s: "sint (push_bit k (word_of_int b :: 64 word)) = x"
  proof -
    have "push_bit k (word_of_int b :: 64 word) = word_of_int (b * 2 ^ k)"
      by (simp only: push_bit_eq_mult of_int_mult of_int_power of_int_numeral)
    then show ?thesis using sint_sbintrunc' [where 'a = 64, of "b * 2 ^ k"] by (simp only: x_def) simp
  qed
  have val: "task_backoff b (int k + 1) = (if x \<le> 0 \<or> x > maxBackoffMs then maxBackoffMs else x)"
    by (simp add: task_backoff_def s)
  show ?thesis
  proof (cases "k \<le> 21")
    case True
    have "b * 2 ^ k < 2 ^ 42 * 2 ^ 21"
      using assms True by (intro mult_less_le_imp_less power_increasing) auto
    then have "x = b * 2 ^ k" unfolding x_def using assms by (intro signed_take_bit_int_eq_self) (auto simp: minus_less_iff intro: order.trans [of _ 0])
    moreover have "0 < b * 2 ^ k" using assms by simp
    ultimately show ?thesis using val by (auto simp: min_def)
  next
    case False
    have "b * 2 ^ k \<ge> 1 * 2 ^ 22" using assms False by (intro mult_mono power_increasing) auto
    then have min: "min (b * 2 ^ k) maxBackoffMs = maxBackoffMs" by (simp add: maxBackoffMs_def)
    have "(2::int) ^ 22 dvd 2 ^ k" using False by (intro le_imp_power_dvd) simp
    then have "(2::int) ^ 22 dvd b * 2 ^ k" by simp
    moreover have "x = b * 2 ^ k - 2 ^ 64 * ((b * 2 ^ k + 2 ^ 63) div 2 ^ 64)"
      unfolding x_def signed_take_bit_eq_take_bit_shift by (simp add: take_bit_eq_mod minus_div_mult_eq_mod [symmetric])
    ultimately have "(2::int) ^ 22 dvd x" by (simp add: dvd_diff)
    then have "x \<le> 0 \<or> 2 ^ 22 \<le> x" using zdvd_imp_le [of "2 ^ 22" x] by linarith
    then have "x \<le> 0 \<or> x > maxBackoffMs" by (auto simp: maxBackoffMs_def)
    with val min show ?thesis by simp
  qed
qed

section \<open>Finished tasks\<close>

definition settled :: "string \<Rightarrow> task \<Rightarrow> tq_state \<Rightarrow> bool" where
  "settled j row s \<longleftrightarrow> find_task j s = None \<or> find_task j s = Some row"

lemma settled_update:
  assumes "settled j row s" "\<And>t. ta_id (f t) = ta_id t" "ta_id row = j \<Longrightarrow> \<not> P row"
  shows "settled j row (update_tasks P f s)"
  using assms(1,3) find_task_id [of j s row] by (auto simp: settled_def update_tasks_rows(2) assms(2))

lemma settled_create:
  assumes "settled j row s" "terminal (ta_status row)"
  shows "settled j row (fst (CreateQueue e1 e2 now name config s))"
proof -
  have "settled j row (update_tasks (\<lambda>t. ta_queue t = name \<and> ta_status t = Running) (\<lambda>t. t\<lparr>ta_status := Pending, ta_updatedAt := now\<rparr>) s')"
    if "settled j row s'" for s'
    by (rule settled_update [OF that]) (use assms(2) in \<open>auto simp: terminal_def\<close>)
  from this [of "s\<lparr>tq_rows := m\<rparr>" for m] assms(1) show ?thesis
    by (auto simp: CreateQueue_def Let_def settled_def split: option.splits sum.splits)
qed

lemma settled_api:
  assumes "settled j row s" "terminal (ta_status row)"
  shows "settled j row (fst (tq_Cancel e1 e2 now i s))" "settled j row (fst (ClearQueue e now q s))"
    "i \<noteq> j \<Longrightarrow> settled j row (fst (tq_Enqueue e i now q payload s))"
proof -
  note up = settled_update [OF assms(1), of "\<lambda>t. t\<lparr>ta_status := Cancelled, ta_updatedAt := now\<rparr>"]
  show "settled j row (fst (tq_Cancel e1 e2 now i s))" "settled j row (fst (ClearQueue e now q s))"
    using assms up [of "\<lambda>t. ta_id t = i \<and> ta_status t = Pending"] up [of "\<lambda>t. ta_queue t = q \<and> ta_status t = Pending"]
    by (auto simp: tq_Cancel_def ClearQueue_def Let_def terminal_def split: option.splits)
  show "i \<noteq> j \<Longrightarrow> settled j row (fst (tq_Enqueue e i now q payload s))"
    using assms(1) by (auto simp: tq_Enqueue_def settled_def find_task_append split: option.splits)
qed

lemma settled_cleanup:
  assumes "ids_ok s" "settled j row s"
  shows "settled j row (runCleanup errs now s)"
proof -
  let ?del = "\<lambda>st (name, qs). if errs name then st
        else st\<lparr>tq_tasks := filter (\<lambda>t. \<not> (ta_queue t = name \<and> terminal (ta_status t)
                 \<and> ta_updatedAt t + qcf_RetentionMs (qst_config qs) < now)) (tq_tasks st)\<rparr>"
  have step: "ids_ok (?del s x) \<and> settled j row (?del s x)" if "ids_ok s" "settled j row s" for s x
  proof -
    obtain n qs where x: "x = (n, qs)" by (cases x)
    let ?Q = "\<lambda>t. \<not> (ta_queue t = n \<and> terminal (ta_status t) \<and> ta_updatedAt t + qcf_RetentionMs (qst_config qs) < now)"
    note f = find_task_filter [OF that(1), where Q = ?Q]
    have "settled j row (s\<lparr>tq_tasks := filter ?Q (tq_tasks s)\<rparr>)"
      using that(2) f(1) [of j] by (cases "find_task j (s\<lparr>tq_tasks := filter ?Q (tq_tasks s)\<rparr>)") (auto simp: settled_def)
    with that f(2) show ?thesis by (simp add: x)
  qed
  have "ids_ok s \<Longrightarrow> settled j row s \<Longrightarrow> settled j row (foldl ?del s qs)" for s qs
  proof (induction qs arbitrary: s)
    case (Cons x xs)
    from step [OF Cons.prems, of x] Cons.IH [of "?del s x"] show ?case by simp
  qed simp
  from this [OF assms] show ?thesis by (simp add: runCleanup_def)
qed

lemma settled_worker:
  assumes "settled j row s" "k \<noteq> j"
  shows "settled j row (revertTaskToPending e now k s)" "ta_id t \<noteq> j \<Longrightarrow> settled j row (finishTask e now t config answer s)"
    "due_task now q s = Some t0 \<Longrightarrow> ta_id t0 \<noteq> j \<Longrightarrow> dequeueTask now q s = Some (s', t') \<Longrightarrow> settled j row s'"
proof -
  obtain P f where "revertTaskToPending e now k s = update_tasks P f s" "\<And>u. ta_id (f u) = ta_id u" "\<And>u. P u \<Longrightarrow> ta_id u = k"
    by (rule revert_form [of e now k s]) (rule that)
  with settled_update [OF assms(1), of f P] assms(2) show "settled j row (revertTaskToPending e now k s)" by auto
  obtain P f where "finishTask e now t config answer s = update_tasks P f s" "\<And>u. ta_id (f u) = ta_id u" "\<And>u. P u \<Longrightarrow> ta_id u = ta_id t"
    by (rule finish_form [of e now t config answer s]) (rule that)
  with settled_update [OF assms(1), of f P] show "ta_id t \<noteq> j \<Longrightarrow> settled j row (finishTask e now t config answer s)" by metis
  show "settled j row s'" if "due_task now q s = Some t0" "ta_id t0 \<noteq> j" "dequeueTask now q s = Some (s', t')"
    using that settled_update [OF assms(1)] by (auto simp: dequeueTask_def)
qed

lemma settled_restart:
  assumes "settled j row s0" "terminal (ta_status row)" "s \<in> {s0, close_reset e now s0}"
  shows "settled j row (newTaskQueueService mc (tq_rows s) (tq_tasks s))"
proof -
  have "settled j row (close_reset e now s0)"
    using assms(1,2) settled_update [OF assms(1), of "\<lambda>t. t\<lparr>ta_status := Pending, ta_updatedAt := now\<rparr>" "\<lambda>t. ta_status t = Running"]
    by (auto simp: close_reset_def terminal_def split: option.splits)
  with assms(1,3) have "settled j row s" by auto
  then show ?thesis by (simp add: settled_def newTaskQueueService_def find_task_def)
qed

lemma settled_step:
  assumes "tq_inv r" "j \<in> rn_used r" "settled j row (rn_svc r)" "terminal (ta_status row)" "tq_step r r'"
  shows "settled j row (rn_svc r') \<and> j \<in> rn_used r' \<and> rn_calls r' j = rn_calls r j"
proof -
  have free: "ta_id t \<noteq> j" if h: "held (rn_pc r q i) = Some t" for q i t
  proof
    assume eq: "ta_id t = j"
    from holder_row [OF assms(1) h] obtain row' where "find_task (ta_id t) (rn_svc r) = Some row'" "ta_status row' = Running" by blast
    with eq assms(3,4) show False by (auto simp: settled_def terminal_def)
  qed
  have due: "ta_id t0 \<noteq> j" if "due_task now q (rn_svc r) = Some t0" for now q t0
    using due_task_row [OF tq_invD(1) [OF assms(1)] that] assms(3,4) by (auto simp: settled_def terminal_def)
  from assms(5) show ?thesis
  proof cases
    case (tq_create e1 e2 now name config)
    then show ?thesis using settled_create [OF assms(3,4)] assms(2) by simp
  next
    case (tq_enqueue i e now q payload)
    from tq_enqueue(2) assms(2) have "i \<noteq> j" by auto
    with tq_enqueue show ?thesis using settled_api(3) [OF assms(3,4)] assms(2) by simp
  next
    case tq_cancel
    then show ?thesis using settled_api(1) [OF assms(3,4)] assms(2) by simp
  next
    case tq_clear
    then show ?thesis using settled_api(2) [OF assms(3,4)] assms(2) by simp
  next
    case tq_cleanup
    then show ?thesis using settled_cleanup [OF tq_invD(1) [OF assms(1)] assms(3)] assms(2) by simp
  next
    case (tq_dequeue q i now s t)
    then obtain t0 where d: "due_task now q (rn_svc r) = Some t0" by (auto simp: dequeueTask_def split: option.splits)
    from settled_worker(3) [OF assms(3), of "j @ [CHR ''x'']", OF _ d due [OF d]] tq_dequeue assms(2) show ?thesis by simp
  next
    case (tq_call q i t)
    with free [of q i t] show ?thesis using assms(2,3) by simp
  next
    case (tq_wait_error q i t e now)
    with free [of q i t] settled_worker(1) [OF assms(3)] show ?thesis using assms(2) by simp
  next
    case (tq_interrupt q i t e now)
    with free [of q i t] settled_worker(1) [OF assms(3)] show ?thesis using assms(2) by simp
  next
    case (tq_finish q i t e now config answer)
    with free [of q i t] settled_worker(2) [OF assms(3), of "ta_id t" t] show ?thesis using assms(2) by simp
  next
    case (tq_restart s e now mc)
    then show ?thesis using settled_restart [OF assms(3,4)] assms(2) by simp
  qed (use assms(2,3) in \<open>simp_all add: settled_def close_cancel_def\<close>)
qed

lemma settled_steps:
  assumes "tq_step\<^sup>*\<^sup>* r r'" "tq_inv r" "j \<in> rn_used r" "settled j row (rn_svc r)" "terminal (ta_status row)"
  shows "settled j row (rn_svc r') \<and> j \<in> rn_used r' \<and> rn_calls r' j = rn_calls r j"
  using assms(1)
proof (induction rule: rtranclp_induct)
  case (step y z)
  have "tq_inv y" by (rule tq.steps_inv [OF step(1) assms(2)])
  with step settled_step [of y j row z] assms(5) show ?case by simp
qed (use assms in simp)

section \<open>The number of busy workers\<close>

lemma workers_bound:
  "finite {(q, i). \<exists>qs. (q, qs) \<in> set xs \<and> int i < qcf_Concurrency (qst_config qs)}
    \<and> ((\<forall>x\<in>set xs. 1 \<le> qcf_Concurrency (qst_config (snd x))) \<longrightarrow>
       int (card {(q, i). \<exists>qs. (q, qs) \<in> set xs \<and> int i < qcf_Concurrency (qst_config qs)})
         \<le> sum_list (map (\<lambda>x. qcf_Concurrency (qst_config (snd x))) xs))"
proof (induction xs)
  case (Cons x xs)
  let ?W = "\<lambda>xs. {(q, i). \<exists>qs. (q, qs) \<in> set xs \<and> int i < qcf_Concurrency (qst_config qs)}"
  let ?c = "qcf_Concurrency (qst_config (snd x))"
  have split: "?W (x # xs) = (\<lambda>i. (fst x, i)) ` {..<nat ?c} \<union> ?W xs" by (cases x) (auto simp: image_iff)
  have "card ((\<lambda>i. (fst x, i)) ` {..<nat ?c}) = nat ?c" by (simp add: card_image inj_on_def)
  with card_Un_le [of "(\<lambda>i. (fst x, i)) ` {..<nat ?c}" "?W xs"] have "card (?W (x # xs)) \<le> nat ?c + card (?W xs)"
    unfolding split by simp
  with Cons show ?case unfolding split by auto
qed simp

lemma busy_workers:
  assumes "tq_inv r"
  shows "finite {(q, i). held (rn_pc r q i) \<noteq> None}"
    "tq_queues (rn_svc r) \<noteq> [] \<Longrightarrow> int (card {(q, i). held (rn_pc r q i) \<noteq> None}) \<le> tq_maxConcurrency (rn_svc r)"
proof -
  let ?W = "{(q, i). \<exists>qs. (q, qs) \<in> set (tq_queues (rn_svc r)) \<and> int i < qcf_Concurrency (qst_config qs)}"
  have sub: "{(q, i). held (rn_pc r q i) \<noteq> None} \<subseteq> ?W"
    using tq_invD(4) [OF assms] by (fastforce simp: holder_ok_def is_worker_def dest: map_of_SomeD)
  note w = workers_bound [of "tq_queues (rn_svc r)"]
  show "finite {(q, i). held (rn_pc r q i) \<noteq> None}" using w sub by (blast intro: finite_subset)
  show "int (card {(q, i). held (rn_pc r q i) \<noteq> None}) \<le> tq_maxConcurrency (rn_svc r)" if "tq_queues (rn_svc r) \<noteq> []"
    using that w card_mono [OF conjunct1 [OF w] sub] tq_invD(2) [OF assms]
    by (simp add: queues_ok_def allocated_concurrency_def)
qed

section \<open>Properties\<close>

text \<open>
  C37: a task is executed by one worker at a time, and not too often. In every interleaving of the API,
  the workers, cleanups, shutdowns, crashes and restarts, two workers never hold the same task, a task
  that a worker holds is marked running, and the plugin's callback is called for a task at most once
  more than its retries, not counting calls that a shutdown or a crash cut short.
\<close>

theorem tasks_exclusive_and_bounded:
  assumes "reachable tq_init tq_step r"
  shows "(\<forall>q i t q' i' t'. held (rn_pc r q i) = Some t \<and> held (rn_pc r q' i') = Some t' \<and> ta_id t = ta_id t' \<longrightarrow> q = q' \<and> i = i')
    \<and> (\<forall>q i t. held (rn_pc r q i) = Some t \<longrightarrow>
         (\<exists>row. find_task (ta_id t) (rn_svc r) = Some row \<and> ta_status row = Running \<and> ta_queue row = q))
    \<and> (\<forall>j row. find_task j (rn_svc r) = Some row \<longrightarrow>
         int (rn_calls r j) \<le> max 0 (ta_maxRetries row) + 1 + int (rn_crashes r j) + int (rn_reverts r j))"
proof (intro conjI allI impI)
  note inv = tq.reachable_inv [OF assms]
  show "\<exists>row. find_task (ta_id t) (rn_svc r) = Some row \<and> ta_status row = Running \<and> ta_queue row = q"
    if "held (rn_pc r q i) = Some t" for q i t
    by (rule holder_row [OF inv that]) blast
  show "int (rn_calls r j) \<le> max 0 (ta_maxRetries row) + 1 + int (rn_crashes r j) + int (rn_reverts r j)"
    if "find_task j (rn_svc r) = Some row" for j row
    using tq_invD(3) [OF inv that] by (auto simp: row_ok_def slack_def split: if_splits)
qed (use tq_invD(5) [OF tq.reachable_inv [OF assms]] in blast)+

text \<open>
  A completed, failed or cancelled task is final. Whatever happens afterwards, its row stays as it
  is or is deleted by a cleanup, and the plugin is never called for it again.
\<close>

theorem terminal_tasks_final:
  assumes "reachable tq_init tq_step r" "find_task j (rn_svc r) = Some row" "terminal (ta_status row)" "tq_step\<^sup>*\<^sup>* r r'"
  shows "(find_task j (rn_svc r') = None \<or> find_task j (rn_svc r') = Some row) \<and> rn_calls r' j = rn_calls r j"
proof -
  note inv = tq.reachable_inv [OF assms(1)]
  from tq_invD(3) [OF inv assms(2)] have "j \<in> rn_used r" by (simp add: row_ok_def)
  with settled_steps [OF assms(4) inv, of j row] assms(2,3) show ?thesis by (simp add: settled_def)
qed

text \<open>
  The concurrency budget of a plugin holds. In every run the workers that are busy at the same
  time, over all queues, are at most the permitted number, and each queue has at least one worker.
\<close>

theorem busy_workers_within_budget:
  assumes "reachable tq_init tq_step r" "tq_queues (rn_svc r) \<noteq> []"
  shows "finite {(q, i). held (rn_pc r q i) \<noteq> None}
    \<and> int (card {(q, i). held (rn_pc r q i) \<noteq> None}) \<le> tq_maxConcurrency (rn_svc r)
    \<and> list_all (\<lambda>x. 1 \<le> qcf_Concurrency (qst_config (snd x))) (tq_queues (rn_svc r))"
  using busy_workers [OF tq.reachable_inv [OF assms(1)]] tq_invD(2) [OF tq.reachable_inv [OF assms(1)]] assms(2)
  by (simp add: queues_ok_def list_all_iff)

text \<open>
  A round of a worker takes the pending task that has been due the longest and settles it. If the
  callback succeeds the task is completed with the callback's message; if it fails and the retries are
  used up the task is failed, with the error as message when the callback gave none; otherwise it is
  pending again, not to be run before the backoff is over. No other task changes.
\<close>

theorem processTask_outcome:
  assumes "ids_ok s" "due_task now q s = Some t"
    and "processTask None None False False call now now' q config s = (s', again)"
  shows "again \<and> ta_status t = Pending \<and> ta_queue t = q \<and> ta_nextRunAt t \<le> now
    \<and> list_all (\<lambda>u. ta_queue u = q \<and> ta_status u = Pending \<and> ta_nextRunAt u \<le> now \<longrightarrow>
         ta_nextRunAt t < ta_nextRunAt u \<or> (ta_nextRunAt t = ta_nextRunAt u \<and> ta_createdAt t \<le> ta_createdAt u)) (tq_tasks s)
    \<and> find_task (ta_id t) s' =
        (let t1 = t\<lparr>ta_status := Running, ta_attempt := ta_attempt t + 1, ta_updatedAt := now\<rparr>
         in case call t1 of
              (None, m) \<Rightarrow> Some (t1\<lparr>ta_status := Completed, ta_message := m, ta_updatedAt := now'\<rparr>)
            | (Some e, m) \<Rightarrow>
                if ta_attempt t + 1 > ta_maxRetries t
                then Some (t1\<lparr>ta_status := Failed, ta_message := if m = [] then e else m, ta_updatedAt := now'\<rparr>)
                else Some (t1\<lparr>ta_status := Pending, ta_updatedAt := now',
                      ta_nextRunAt := now' + task_backoff (qcf_BackoffMs config) (ta_attempt t + 1)\<rparr>))
    \<and> (\<forall>j. j \<noteq> ta_id t \<longrightarrow> find_task j s' = find_task j s)"
proof -
  let ?f = "\<lambda>t. t\<lparr>ta_status := Running, ta_attempt := ta_attempt t + 1, ta_updatedAt := now\<rparr>"
  let ?s1 = "update_tasks (\<lambda>u. ta_id u = ta_id t) ?f s"
  note row = due_task_row [OF assms(1,2)]
  have s': "s' = finishTask None now' (?f t) config (call (?f t)) ?s1" and again: again
    using assms(2,3) by (simp_all add: processTask_def dequeueTask_def)
  have up: "find_task j (update_tasks (\<lambda>u. ta_id u = ta_id t) g s0) = map_option (\<lambda>u. if ta_id u = ta_id t then g u else u) (find_task j s0)"
    if "\<And>u. ta_id (g u) = ta_id u" for g j s0
    using that by (rule update_tasks_rows(2))
  have mine: "find_task (ta_id t) ?s1 = Some (?f t)" using row(1) by (simp add: up)
  have "find_task (ta_id t) s' =
        (let t1 = ?f t
         in case call t1 of
              (None, m) \<Rightarrow> Some (t1\<lparr>ta_status := Completed, ta_message := m, ta_updatedAt := now'\<rparr>)
            | (Some e, m) \<Rightarrow>
                if ta_attempt t + 1 > ta_maxRetries t
                then Some (t1\<lparr>ta_status := Failed, ta_message := if m = [] then e else m, ta_updatedAt := now'\<rparr>)
                else Some (t1\<lparr>ta_status := Pending, ta_updatedAt := now',
                      ta_nextRunAt := now' + task_backoff (qcf_BackoffMs config) (ta_attempt t + 1)\<rparr>))"
  proof (cases "call (?f t)")
    case (Pair eo m)
    then show ?thesis
      by (cases eo) (simp_all add: s' finishTask_def completeTask_def handleTaskFailure_def up mine)
  qed
  moreover have "find_task j s' = find_task j s" if "j \<noteq> ta_id t" for j
  proof -
    obtain P f where pf: "finishTask None now' (?f t) config (call (?f t)) ?s1 = update_tasks P f ?s1"
      "\<And>u. ta_id (f u) = ta_id u" "\<And>u. P u \<Longrightarrow> ta_id u = ta_id (?f t)"
      by (rule finish_form [of None now' "?f t" config "call (?f t)" ?s1]) (rule that)
    have "find_task j ?s1 = find_task j s" using that find_task_id [of j s] by (cases "find_task j s") (auto simp: up)
    then show ?thesis
      using that pf(2,3) find_task_id [of j s] by (cases "find_task j s") (auto simp: s' pf(1) update_tasks_rows(2))
  qed
  moreover have "list_all (\<lambda>u. ta_queue u = q \<and> ta_status u = Pending \<and> ta_nextRunAt u \<le> now \<longrightarrow>
         ta_nextRunAt t < ta_nextRunAt u \<or> (ta_nextRunAt t = ta_nextRunAt u \<and> ta_createdAt t \<le> ta_createdAt u)) (tq_tasks s)"
    unfolding list_all_iff using due_task_first [OF assms(2)] by blast
  ultimately show ?thesis using again row(2-4) by blast
qed

text \<open>
  The backoff of a retry doubles with every attempt up to one hour. For every positive base below
  \<open>2^42\<close> ms the wrapped 64-bit shift of the code is the exact product, cut at the maximum, also for
  attempts that shift bits out of the word.
\<close>

theorem task_backoff_exact:
  assumes "0 < backoffMs" "backoffMs < 2 ^ 42" "1 \<le> attempt"
  shows "task_backoff backoffMs attempt = min (backoffMs * 2 ^ nat (attempt - 1)) maxBackoffMs"
  using shifted_value [OF assms(1,2), of "nat (attempt - 1)"] assms(3) by simp

lemma task_backoff_wraps: "task_backoff (2 ^ 62 + 1) 3 = 4"
  by (simp add: task_backoff_def maxBackoffMs_def push_bit_eq_mult)

section \<open>Witnesses\<close>

definition demo_qconfig :: queue_config where
  "demo_qconfig = \<lparr>qcf_Concurrency = 1, qcf_MaxRetries = 1, qcf_BackoffMs = 1000, qcf_DelayMs = 0, qcf_RetentionMs = 3600000\<rparr>"

definition demo_task :: task where
  "demo_task = \<lparr>ta_id = ''t1'', ta_queue = ''q'', ta_payload = ''p'', ta_status = Pending, ta_attempt = 0,
     ta_maxRetries = 1, ta_nextRunAt = 10, ta_createdAt = 10, ta_updatedAt = 10, ta_message = []\<rparr>"

definition demo_tq :: "bool \<Rightarrow> task list \<Rightarrow> tq_state" where
  "demo_tq sig ts = \<lparr>tq_maxConcurrency = 2, tq_queues = [(''q'', \<lparr>qst_config = demo_qconfig, qst_signal = sig\<rparr>)],
     tq_rows = [''q'' \<mapsto> demo_qconfig], tq_tasks = ts, tq_done = False\<rparr>"

definition demo_start :: tq_run where
  "demo_start = \<lparr>rn_svc = newTaskQueueService 2 Map.empty [], rn_pc = (\<lambda>_ _. WIdle), rn_used = {},
     rn_calls = (\<lambda>_. 0), rn_reverts = (\<lambda>_. 0), rn_crashes = (\<lambda>_. 0)\<rparr>"

abbreviation "demo_running \<equiv> demo_task\<lparr>ta_status := Running, ta_attempt := 1, ta_updatedAt := 11\<rparr>"
abbreviation "demo_completed \<equiv> demo_running\<lparr>ta_status := Completed, ta_message := ''ok'', ta_updatedAt := 12\<rparr>"

definition demo_called :: tq_run where
  "demo_called = demo_start\<lparr>rn_svc := demo_tq True [demo_running], rn_pc := (\<lambda>_ _. WIdle)(''q'' := (\<lambda>_. WIdle)(0 := WCall demo_running)),
     rn_used := {''t1''}, rn_calls := (\<lambda>_. 0)(''t1'' := 1)\<rparr>"

definition demo_finished :: tq_run where
  "demo_finished = set_pc ''q'' 0 WIdle (demo_called\<lparr>rn_svc := demo_tq True [demo_completed]\<rparr>)"

lemma demo_create: "fst (CreateQueue None None 5 ''q'' demo_qconfig (newTaskQueueService 2 Map.empty [])) = demo_tq False []"
  by (simp add: CreateQueue_def newTaskQueueService_def applyConfigDefaults_def clampConcurrency_def allocated_concurrency_def
      demo_qconfig_def demo_tq_def update_tasks_def Let_def maxQueueNameLength_def minRetentionMs_def maxRetentionMs_def)

lemma demo_enqueue: "fst (tq_Enqueue None ''t1'' 10 ''q'' ''p'' (demo_tq False [])) = demo_tq True [demo_task]"
  by (simp add: tq_Enqueue_def demo_tq_def demo_task_def maxPayloadSize_def notifyWorkers_def demo_qconfig_def)

lemma demo_dequeue: "dequeueTask 11 ''q'' (demo_tq True [demo_task]) = Some (demo_tq True [demo_running], demo_running)"
  by (simp add: dequeueTask_def due_task_def demo_tq_def demo_task_def update_tasks_def)

lemma demo_finish: "finishTask None 12 demo_running demo_qconfig (None, ''ok'') (demo_tq True [demo_running]) = demo_tq True [demo_completed]"
  by (simp add: finishTask_def completeTask_def demo_tq_def update_tasks_def demo_task_def)

lemma demo_called_run: "reachable tq_init tq_step demo_called"
proof -
  let ?r1 = "demo_start\<lparr>rn_svc := demo_tq False []\<rparr>"
  let ?r2 = "demo_start\<lparr>rn_svc := demo_tq True [demo_task], rn_used := {''t1''}\<rparr>"
  let ?r3 = "set_pc ''q'' 0 (WWait demo_running) (?r2\<lparr>rn_svc := demo_tq True [demo_running]\<rparr>)"
  have "reachable tq_init tq_step demo_start" by (rule reach_init) (auto simp: tq_init_def demo_start_def)
  moreover have "tq_step demo_start ?r1"
    using tq_create [of demo_start None None 5 "''q''" demo_qconfig] by (simp add: demo_start_def demo_create)
  ultimately have 1: "reachable tq_init tq_step ?r1" by (rule reach_step)
  have "tq_step ?r1 ?r2"
    using tq_enqueue [of "''t1''" ?r1 None 10 "''q''" "''p''"] by (simp add: demo_start_def demo_enqueue)
  then have 2: "reachable tq_init tq_step ?r2" by (rule reach_step [OF 1])
  have "tq_step ?r2 ?r3"
    by (rule tq_dequeue [where now = 11]) (simp_all add: demo_start_def is_worker_def demo_dequeue, simp_all add: demo_tq_def demo_qconfig_def)
  then have 3: "reachable tq_init tq_step ?r3" by (rule reach_step [OF 2])
  have "tq_step ?r3 demo_called"
    using tq_call [of ?r3 "''q''" 0 demo_running]
    by (simp add: demo_called_def demo_start_def set_pc_def) (simp add: demo_task_def)
  then show ?thesis by (rule reach_step [OF 3])
qed

lemma demo_finished_run: "reachable tq_init tq_step demo_finished"
proof (rule reach_step [OF demo_called_run])
  show "tq_step demo_called demo_finished"
    using tq_finish [of demo_called "''q''" 0 demo_running None 12 demo_qconfig "(None, ''ok'')"]
    by (simp add: demo_finished_def demo_called_def demo_finish)
qed

theorem tasks_exclusive_and_bounded_witness:
  "held (rn_pc demo_called ''q'' 0) = Some demo_running
     \<and> int (rn_calls demo_called ''t1'') \<le> max 0 1 + 1 + int (rn_crashes demo_called ''t1'') + int (rn_reverts demo_called ''t1'')"
proof -
  have "find_task ''t1'' (rn_svc demo_called) = Some demo_running"
    by (simp add: demo_called_def demo_tq_def find_task_def demo_task_def)
  with tasks_exclusive_and_bounded [OF demo_called_run] show ?thesis by (auto simp: demo_called_def demo_task_def)
qed

theorem terminal_tasks_final_witness:
  "find_task ''t1'' (rn_svc demo_finished) = Some demo_completed
     \<and> find_task ''t1'' (fst (tq_Cancel None None 20 ''t1'' (rn_svc demo_finished))) \<in> {None, Some demo_completed}"
proof -
  have f: "find_task ''t1'' (rn_svc demo_finished) = Some demo_completed"
    by (simp add: demo_finished_def demo_tq_def find_task_def demo_task_def)
  have "tq_step\<^sup>*\<^sup>* demo_finished (demo_finished\<lparr>rn_svc := fst (tq_Cancel None None 20 ''t1'' (rn_svc demo_finished))\<rparr>)"
    by (rule r_into_rtranclp) (rule tq_cancel)
  from terminal_tasks_final [OF demo_finished_run f _ this] f show ?thesis by (simp add: terminal_def)
qed

theorem busy_workers_within_budget_witness: "int (card {(q, i). held (rn_pc demo_called q i) \<noteq> None}) \<le> 2"
  using busy_workers_within_budget [OF demo_called_run] by (simp add: demo_called_def demo_tq_def)

theorem processTask_outcome_witness:
  "find_task ''t1'' (fst (processTask None None False False (\<lambda>t. (Some ''boom'', [])) 11 12 ''q'' demo_qconfig (demo_tq True [demo_task])))
     = Some (demo_running\<lparr>ta_status := Pending, ta_updatedAt := 12, ta_nextRunAt := 1012\<rparr>)"
proof -
  let ?p = "processTask None None False False (\<lambda>t. (Some ''boom'', [])) 11 12 ''q'' demo_qconfig (demo_tq True [demo_task])"
  have "due_task 11 ''q'' (demo_tq True [demo_task]) = Some demo_task" by (simp add: due_task_def demo_tq_def demo_task_def)
  moreover have "ids_ok (demo_tq True [demo_task])" by (simp add: ids_ok_def demo_tq_def)
  moreover have "task_backoff (qcf_BackoffMs demo_qconfig) 1 = 1000"
    by (simp add: demo_qconfig_def task_backoff_def maxBackoffMs_def)
  ultimately show ?thesis
    using processTask_outcome [of "demo_tq True [demo_task]" 11 "''q''" demo_task "\<lambda>t. (Some ''boom'', [])" 12 demo_qconfig "fst ?p" "snd ?p"]
    by (simp add: demo_task_def)
qed

theorem task_backoff_exact_witness: "task_backoff 1000 4 = 8000 \<and> task_backoff 1000 70 = 3600000"
  using task_backoff_exact [of 1000 4] task_backoff_exact [of 1000 70] by (simp add: maxBackoffMs_def)

end
