(* ===== verification/ArtworkGate.thy ===== *)
theory ArtworkGate
  imports Prelude
begin

text \<open>
  The gate before external artwork providers (\<open>core/artwork/gate.go\<close>): per agent a rate limiter and a
  circuit breaker. Times and durations are nanoseconds. The rate limiter is the third-party package
  \<open>x/time/rate\<close>; here it is its configuration, and the result of waiting for it is an argument. An
  error is what \<open>errors.Is\<close> and \<open>errors.AsType\<close> say about it, since errors may wrap one another.
\<close>

definition breakerThreshold :: int where "breakerThreshold = 5"
definition breakerProbeAfter :: int where "breakerProbeAfter = 60 * 1000000000"
definition breakerRecoveries :: int where "breakerRecoveries = 3"

record ext_error =
  ee_canceled :: bool
  ee_agentNotFound :: bool
  ee_modelNotFound :: bool
  ee_retryIn :: "int option"

definition isTransientExternal :: "ext_error option \<Rightarrow> bool" where
  "isTransientExternal err = (case err of None \<Rightarrow> False | Some e \<Rightarrow> \<not> ee_agentNotFound e \<and> \<not> ee_modelNotFound e)"

record breaker =
  br_failures :: int
  br_openedAt :: int
  br_recoveries :: int
  br_generation :: int
  br_probeAfter :: int

definition newBreaker :: breaker where
  "newBreaker = \<lparr>br_failures = 0, br_openedAt = 0, br_recoveries = 0, br_generation = 0, br_probeAfter = 0\<rparr>"

definition probe_delay :: "breaker \<Rightarrow> int" where
  "probe_delay b = (if br_probeAfter b \<noteq> 0 then br_probeAfter b else breakerProbeAfter)"

definition breaker_allow :: "int \<Rightarrow> breaker \<Rightarrow> breaker \<times> bool \<times> int" where
  "breaker_allow now b =
     (if br_failures b < breakerThreshold then (b, True, 0)
      else if now - br_openedAt b \<ge> probe_delay b then (b\<lparr>br_openedAt := now\<rparr>, True, br_generation b)
      else (b, False, 0))"

text \<open>The part of \<open>record\<close> after the provider's own back-off is ruled out.\<close>

definition record_answer :: "int \<Rightarrow> int \<Rightarrow> ext_error option \<Rightarrow> breaker \<Rightarrow> breaker" where
  "record_answer now gen err b =
     (if isTransientExternal err
      then (let b1 = b\<lparr>br_recoveries := 0, br_failures := br_failures b + 1\<rparr>
            in if br_failures b1 = breakerThreshold
               then b1\<lparr>br_openedAt := now, br_probeAfter := 0, br_generation := br_generation b + 1\<rparr>
               else b1)
      else if br_failures b < breakerThreshold then b\<lparr>br_failures := 0\<rparr>
      else if gen = 0 \<or> gen \<noteq> br_generation b then b
      else (let b1 = b\<lparr>br_recoveries := br_recoveries b + 1\<rparr>
            in if br_recoveries b1 < breakerRecoveries then b1
               else b1\<lparr>br_failures := 0, br_recoveries := 0\<rparr>))"

definition canceled :: "ext_error option \<Rightarrow> bool" where
  "canceled err = (case err of Some e \<Rightarrow> ee_canceled e | None \<Rightarrow> False)"

definition breaker_record :: "int \<Rightarrow> int \<Rightarrow> ext_error option \<Rightarrow> breaker \<Rightarrow> breaker" where
  "breaker_record now gen err b =
     (if canceled err then b
      else (case Option.bind err ee_retryIn of
              Some retry \<Rightarrow>
                (if retry > 0
                 then b\<lparr>br_recoveries := 0, br_failures := breakerThreshold, br_openedAt := now,
                        br_probeAfter := retry, br_generation := br_generation b + 1\<rparr>
                 else record_answer now gen err b)
            | None \<Rightarrow> record_answer now gen err b))"

text \<open>The gates of a worker, created on first use.\<close>

record ext_gate =
  eg_limit :: "int option"
  eg_burst :: int
  eg_breaker :: breaker

type_synonym gates = "string \<rightharpoonup> ext_gate"

definition gateFor :: "int \<Rightarrow> string \<Rightarrow> gates \<Rightarrow> gates \<times> ext_gate" where
  "gateFor rps name gs =
     (case gs name of
        Some g \<Rightarrow> (gs, g)
      | None \<Rightarrow>
          (let g = \<lparr>eg_limit = (if rps > 0 then Some rps else None), eg_burst = max 1 rps, eg_breaker = newBreaker\<rparr>
           in (gs(name \<mapsto> g), g)))"

text \<open>
  A gated call, without interference. \<open>waitErr\<close> is the error of waiting for the limiter, and \<open>f\<close> the
  result of the call: an image or an error. The times are those of the admission and of the answer.
\<close>

datatype 'a gate_result = Fetched 'a | BreakerOpen | WaitFailed | CallFailed ext_error

definition gate :: "int \<Rightarrow> bool \<Rightarrow> int \<Rightarrow> int \<Rightarrow> (ext_error + 'a) \<Rightarrow> string \<Rightarrow> gates \<Rightarrow> gates \<times> 'a gate_result" where
  "gate rps waitErr now now' f name gs =
     (let (gs1, g) = gateFor rps name gs;
          (b1, allowed, gen) = breaker_allow now (eg_breaker g);
          gs2 = gs1(name \<mapsto> g\<lparr>eg_breaker := b1\<rparr>)
      in if \<not> allowed then (gs2, BreakerOpen)
         else if waitErr then (gs2, WaitFailed)
         else (case f of
                 Inl e \<Rightarrow> (gs2(name \<mapsto> g\<lparr>eg_breaker := breaker_record now' gen (Some e) b1\<rparr>), CallFailed e)
               | Inr x \<Rightarrow> (gs2(name \<mapsto> g\<lparr>eg_breaker := breaker_record now' gen None b1\<rparr>), Fetched x)))"

section \<open>Opening\<close>

text \<open>The reference: the longest current streak of transient failures, and whether it ever reached five.\<close>

fun streak_reaches :: "nat \<Rightarrow> nat \<Rightarrow> bool list \<Rightarrow> bool" where
  "streak_reaches n k [] = False"
| "streak_reaches n k (failed # rest) =
     (if failed then Suc k = n \<or> streak_reaches n (Suc k) rest else streak_reaches n 0 rest)"

lemma streak_reaches_iff:
  "k < n \<Longrightarrow> streak_reaches n k bs \<longleftrightarrow> (\<exists>pre post. bs = pre @ replicate n True @ post) \<or> (\<exists>post. bs = replicate (n - k) True @ post)"
proof (induction n k bs rule: streak_reaches.induct)
  case (2 n k failed rest)
  show ?case
  proof (cases failed)
    case True
    show ?thesis
    proof (cases "Suc k = n")
      case True
      with \<open>failed\<close> show ?thesis by (auto intro: exI [of _ rest])
    next
      case False
      with 2 True have ih: "streak_reaches n (Suc k) rest \<longleftrightarrow> (\<exists>pre post. rest = pre @ replicate n True @ post)
          \<or> (\<exists>post. rest = replicate (n - Suc k) True @ post)" by simp
      have r: "replicate (n - k) True = True # replicate (n - Suc k) True" using 2(3) by (simp add: Suc_diff_Suc flip: replicate_Suc)
      have "(\<exists>pre post. True # rest = pre @ replicate n True @ post) \<longleftrightarrow>
          (\<exists>pre post. rest = pre @ replicate n True @ post) \<or> (\<exists>post. rest = replicate (n - 1) True @ post)"
        using 2(3) by (cases n) (auto simp: Cons_eq_append_conv)
      moreover have "(\<exists>post. rest = replicate (n - 1) True @ post) \<Longrightarrow> (\<exists>post. rest = replicate (n - Suc k) True @ post)"
      proof -
        have "n - 1 = (n - Suc k) + k" using 2(3) by simp
        then show "(\<exists>post. rest = replicate (n - 1) True @ post) \<Longrightarrow> (\<exists>post. rest = replicate (n - Suc k) True @ post)"
          by (metis append.assoc replicate_add)
      qed
      ultimately show ?thesis using True False ih r by auto
    qed
  next
    case False
    with 2 have ih: "streak_reaches n 0 rest \<longleftrightarrow> (\<exists>pre post. rest = pre @ replicate n True @ post)" by auto
    have "\<not> (\<exists>post. False # rest = replicate (n - k) True @ post)"
      using 2(3) by (cases "n - k") auto
    moreover have "(\<exists>pre post. False # rest = pre @ replicate n True @ post) \<longleftrightarrow> (\<exists>pre post. rest = pre @ replicate n True @ post)"
      using 2(3) by (cases n) (auto simp: Cons_eq_append_conv)
    ultimately show ?thesis using False ih by simp
  qed
qed simp

definition breaker_open :: "breaker \<Rightarrow> bool" where
  "breaker_open b \<longleftrightarrow> br_failures b \<ge> breakerThreshold"

text \<open>Answers of calls that were admitted while the breaker was closed, in the order they arrive.\<close>

definition record_all :: "(int \<times> ext_error option) list \<Rightarrow> breaker \<Rightarrow> breaker" where
  "record_all answers b = foldl (\<lambda>b (now, err). breaker_record now 0 err b) b answers"

definition asks_backoff :: "ext_error option \<Rightarrow> bool" where
  "asks_backoff err \<longleftrightarrow> (case Option.bind err ee_retryIn of Some retry \<Rightarrow> retry > 0 | None \<Rightarrow> False)"

lemma record_cases:
  "canceled err \<Longrightarrow> breaker_record now gen err b = b"
  "\<not> canceled err \<Longrightarrow> asks_backoff err \<Longrightarrow> breaker_record now gen err b =
     b\<lparr>br_recoveries := 0, br_failures := breakerThreshold, br_openedAt := now,
       br_probeAfter := the (Option.bind err ee_retryIn), br_generation := br_generation b + 1\<rparr>"
  "\<not> canceled err \<Longrightarrow> \<not> asks_backoff err \<Longrightarrow> breaker_record now gen err b = record_answer now gen err b"
  by (auto simp: breaker_record_def asks_backoff_def split: option.splits)

lemma record_open: "breaker_open b \<Longrightarrow> breaker_open (breaker_record now 0 err b)"
  by (cases "canceled err"; cases "asks_backoff err")
    (auto simp: record_cases record_answer_def breaker_open_def Let_def)

lemma record_all_Cons: "record_all ((now, err) # as) b = record_all as (breaker_record now 0 err b)"
  by (simp add: record_all_def)

lemma record_all_open: "breaker_open b \<Longrightarrow> breaker_open (record_all as b)"
proof (induction as arbitrary: b)
  case (Cons a as)
  obtain now err where "a = (now, err)" by (cases a)
  with Cons record_open [of b now err] show ?case by (simp add: record_all_Cons)
qed (simp add: record_all_def)

lemma record_all_closed:
  assumes "0 \<le> br_failures b" "\<not> breaker_open b"
  shows "breaker_open (record_all as b) \<longleftrightarrow> list_ex (\<lambda>a. \<not> canceled (snd a) \<and> asks_backoff (snd a)) as
    \<or> streak_reaches 5 (nat (br_failures b)) (map (\<lambda>a. isTransientExternal (snd a)) (filter (\<lambda>a. \<not> canceled (snd a)) as))"
  using assms
proof (induction as arbitrary: b)
  case Nil
  then show ?case by (simp add: record_all_def)
next
  case (Cons a as)
  obtain now err where a: "a = (now, err)" by (cases a)
  let ?b = "breaker_record now 0 err b"
  consider (cancel) "canceled err" | (backoff) "\<not> canceled err" "asks_backoff err"
    | (fail) "\<not> canceled err" "\<not> asks_backoff err" "isTransientExternal err"
    | (good) "\<not> canceled err" "\<not> asks_backoff err" "\<not> isTransientExternal err" by blast
  then show ?case
  proof cases
    case cancel
    with Cons show ?thesis by (simp add: a record_all_Cons record_cases)
  next
    case backoff
    then have "breaker_open ?b" by (simp add: record_cases breaker_open_def)
    from record_all_open [OF this] backoff show ?thesis by (simp add: a record_all_Cons)
  next
    case fail
    have f: "br_failures ?b = br_failures b + 1" using fail by (simp add: record_cases record_answer_def Let_def)
    have nat: "nat (br_failures b + 1) = Suc (nat (br_failures b))" using Cons.prems(1) by simp
    show ?thesis
    proof (cases "Suc (nat (br_failures b)) = 5")
      case True
      then have "breaker_open ?b" using Cons.prems(1) by (simp add: breaker_open_def f breakerThreshold_def)
      from record_all_open [OF this] True fail show ?thesis by (simp add: a record_all_Cons)
    next
      case False
      then have "\<not> breaker_open ?b" using Cons.prems by (simp add: breaker_open_def f breakerThreshold_def)
      with Cons.IH [of ?b] Cons.prems(1) fail False show ?thesis by (simp add: a record_all_Cons f nat)
    qed
  next
    case good
    then have f: "br_failures ?b = 0" using Cons.prems(2) by (simp add: record_cases record_answer_def breaker_open_def)
    then have "\<not> breaker_open ?b" by (simp add: breaker_open_def breakerThreshold_def)
    with Cons.IH [of ?b] good f show ?thesis by (simp add: a record_all_Cons)
  qed
qed

section \<open>Runs\<close>

text \<open>
  Calls overlap, so a run admits calls, lets them be answered in any order or dropped (when waiting for
  the limiter fails), and lets time pass. \<open>gr_flight\<close> holds the episodes that the calls in flight were
  admitted under; the log is the history, newest first: when an episode opened and with which delay,
  when a probe of it was admitted and when it closed.
\<close>

datatype gate_event = Opened int int int | Probe int int | Closed int int

record gate_run =
  gr_now :: int
  gr_breaker :: breaker
  gr_flight :: "int multiset"
  gr_log :: "gate_event list"

definition opened_event :: "int \<Rightarrow> breaker \<Rightarrow> breaker \<Rightarrow> gate_event list" where
  "opened_event now b b' = (if br_generation b' \<noteq> br_generation b then [Opened (br_generation b') now (probe_delay b')]
     else if breaker_open b \<and> \<not> breaker_open b' then [Closed (br_generation b) now] else [])"

inductive gate_step :: "gate_run \<Rightarrow> gate_run \<Rightarrow> bool" where
  gs_tick: "now \<ge> gr_now r \<Longrightarrow> gate_step r (r\<lparr>gr_now := now\<rparr>)"
| gs_allow: "breaker_allow (gr_now r) (gr_breaker r) = (b, True, gen) \<Longrightarrow>
     gate_step r (r\<lparr>gr_breaker := b, gr_flight := add_mset gen (gr_flight r),
       gr_log := (if gen = 0 then gr_log r else Probe gen (gr_now r) # gr_log r)\<rparr>)"
| gs_refuse: "breaker_allow (gr_now r) (gr_breaker r) = (b, False, gen) \<Longrightarrow> gate_step r (r\<lparr>gr_breaker := b\<rparr>)"
| gs_drop: "gen \<in># gr_flight r \<Longrightarrow> gate_step r (r\<lparr>gr_flight := gr_flight r - {#gen#}\<rparr>)"
| gs_record: "gen \<in># gr_flight r \<Longrightarrow> breaker_record (gr_now r) gen err (gr_breaker r) = b \<Longrightarrow>
     gate_step r (r\<lparr>gr_breaker := b, gr_flight := gr_flight r - {#gen#},
       gr_log := opened_event (gr_now r) (gr_breaker r) b @ gr_log r\<rparr>)"

definition gate_init :: "gate_run \<Rightarrow> bool" where
  "gate_init r \<longleftrightarrow> gr_breaker r = newBreaker \<and> gr_flight r = {#} \<and> gr_log r = []"

fun ev_gen :: "gate_event \<Rightarrow> int" where
  "ev_gen (Opened g t d) = g" | "ev_gen (Probe g t) = g" | "ev_gen (Closed g t) = g"

fun ev_time :: "gate_event \<Rightarrow> int" where
  "ev_time (Opened g t d) = t" | "ev_time (Probe g t) = t" | "ev_time (Closed g t) = t"

definition probes :: "int \<Rightarrow> gate_event list \<Rightarrow> nat" where
  "probes g evs = length (filter (\<lambda>e. case e of Probe g' t \<Rightarrow> g' = g | _ \<Rightarrow> False) evs)"

text \<open>
  A well-formed history: a probe comes at least the delay of its episode after the opening and after
  every earlier probe of the episode; an episode closes after at least three probes, so not before
  three delays have passed.
\<close>

fun gate_log_ok :: "gate_event list \<Rightarrow> bool" where
  "gate_log_ok [] = True"
| "gate_log_ok (Opened g t d # evs) = (gate_log_ok evs \<and> 0 < d \<and> list_all (\<lambda>e. ev_gen e < g) evs)"
| "gate_log_ok (Probe g t # evs) = (gate_log_ok evs
     \<and> list_ex (\<lambda>e. case e of Opened g' t0 d \<Rightarrow> g' = g \<and> list_all (\<lambda>e'. ev_gen e' = g \<longrightarrow> ev_time e' + d \<le> t) evs | _ \<Rightarrow> False) evs)"
| "gate_log_ok (Closed g t # evs) = (gate_log_ok evs \<and> breakerRecoveries \<le> int (probes g evs)
     \<and> list_ex (\<lambda>e. case e of Opened g' t0 d \<Rightarrow> g' = g \<and> t0 + breakerRecoveries * d \<le> t | _ \<Rightarrow> False) evs)"

definition episode_ok :: "gate_run \<Rightarrow> bool" where
  "episode_ok r \<longleftrightarrow>
     (let b = gr_breaker r; g = br_generation b; n = int (probes g (gr_log r))
      in 1 \<le> g \<and> br_openedAt b \<le> gr_now r \<and> br_recoveries b + int (count (gr_flight r) g) \<le> n
         \<and> list_ex (\<lambda>e. case e of Opened g' t0 d \<Rightarrow> g' = g \<and> d = probe_delay b \<and> t0 + n * d \<le> br_openedAt b | _ \<Rightarrow> False) (gr_log r)
         \<and> list_all (\<lambda>e. ev_gen e = g \<longrightarrow> ev_time e \<le> br_openedAt b) (gr_log r))"

definition gate_inv :: "gate_run \<Rightarrow> bool" where
  "gate_inv r \<longleftrightarrow> gate_log_ok (gr_log r) \<and> 0 \<le> br_failures (gr_breaker r) \<and> 0 \<le> br_recoveries (gr_breaker r) \<and> 0 \<le> br_generation (gr_breaker r)
     \<and> 0 \<le> br_probeAfter (gr_breaker r)
     \<and> (\<forall>k. k \<in># gr_flight r \<longrightarrow> k \<le> br_generation (gr_breaker r))
     \<and> list_all (\<lambda>e. ev_gen e \<le> br_generation (gr_breaker r)) (gr_log r)
     \<and> (if breaker_open (gr_breaker r) then episode_ok r else br_recoveries (gr_breaker r) = 0)"

lemma probe_delay_pos: "0 \<le> br_probeAfter b \<Longrightarrow> 0 < probe_delay b"
  by (simp add: probe_delay_def breakerProbeAfter_def)

lemma probes_simps [simp]:
  "probes g [] = 0" "probes g (Opened g' t d # evs) = probes g evs" "probes g (Closed g' t # evs) = probes g evs"
  "probes g (Probe g' t # evs) = (if g' = g then Suc (probes g evs) else probes g evs)"
  by (simp_all add: probes_def)

lemma probes_none: "list_all (\<lambda>e. ev_gen e \<le> g) evs \<Longrightarrow> g < g' \<Longrightarrow> probes g' evs = 0"
  by (induction evs) (auto simp: probes_def split: gate_event.splits)

text \<open>A new episode: whatever was in flight belongs to an older one.\<close>

lemma inv_opened:
  assumes inv: "gate_inv r" and d: "0 \<le> d"
    and b: "b = (gr_breaker r)\<lparr>br_recoveries := 0, br_failures := breakerThreshold, br_openedAt := gr_now r,
      br_probeAfter := d, br_generation := br_generation (gr_breaker r) + 1\<rparr>"
  shows "gate_inv (r\<lparr>gr_breaker := b, gr_flight := gr_flight r - M, gr_log := opened_event (gr_now r) (gr_breaker r) b @ gr_log r\<rparr>)"
proof -
  let ?g = "br_generation (gr_breaker r)"
  have le: "list_all (\<lambda>e. ev_gen e \<le> ?g) (gr_log r)" and fl: "\<And>k. k \<in># gr_flight r \<Longrightarrow> k \<le> ?g" using inv by (auto simp: gate_inv_def)
  have ev: "opened_event (gr_now r) (gr_breaker r) b = [Opened (?g + 1) (gr_now r) (probe_delay b)]"
    by (simp add: opened_event_def b)
  have bf: "br_recoveries b = 0" "br_failures b = 5" "br_openedAt b = gr_now r" "br_probeAfter b = d" "br_generation b = ?g + 1"
    by (simp_all add: b breakerThreshold_def)
  have old: "list_all (\<lambda>e. ev_gen e < ?g + 1) (gr_log r)" using le by (auto simp: list_all_iff)
  have none: "probes (?g + 1) (gr_log r) = 0" using le by (rule probes_none) simp
  have "?g + 1 \<notin># gr_flight r - M" using fl [of "?g + 1"] by (auto dest: in_diffD)
  then have c: "count (gr_flight r - M) (?g + 1) = 0" by (simp add: not_in_iff)
  have fl': "k \<le> ?g + 1" if "k \<in># gr_flight r - M" for k using fl [of k] in_diffD [OF that] by simp
  have "0 < probe_delay b" by (rule probe_delay_pos) (simp add: b d)
  then have log: "gate_log_ok (opened_event (gr_now r) (gr_breaker r) b @ gr_log r)" using inv old by (simp add: ev gate_inv_def)
  have other: "list_all (\<lambda>e. ev_gen e = ?g + 1 \<longrightarrow> ev_time e \<le> gr_now r) (gr_log r)" using le by (auto simp: list_all_iff)
  have "0 \<le> ?g" using inv by (simp add: gate_inv_def)
  moreover have "list_all (\<lambda>e. ev_gen e \<le> ?g + 1) (gr_log r)" using le by (auto simp: list_all_iff)
  ultimately show ?thesis
    using log c fl' other none d unfolding gate_inv_def ev
    by (simp add: bf episode_ok_def Let_def breaker_open_def breakerThreshold_def)
qed

lemma inv_same:
  assumes inv: "gate_inv r"
    and b: "br_generation b = br_generation (gr_breaker r)" "br_probeAfter b = br_probeAfter (gr_breaker r)"
      "br_openedAt b = br_openedAt (gr_breaker r)" "breaker_open b = breaker_open (gr_breaker r)" "0 \<le> br_failures b"
      "0 \<le> br_recoveries b"
    and rec: "\<not> breaker_open b \<Longrightarrow> br_recoveries b = 0"
      "breaker_open b \<Longrightarrow> br_recoveries b + int (count M (br_generation b))
         \<le> br_recoveries (gr_breaker r) + int (count (gr_flight r) (br_generation b))"
    and M: "\<And>k. k \<in># M \<Longrightarrow> k \<in># gr_flight r"
  shows "gate_inv (r\<lparr>gr_breaker := b, gr_flight := M, gr_log := opened_event (gr_now r) (gr_breaker r) b @ gr_log r\<rparr>)"
  using inv b rec M by (auto simp: gate_inv_def opened_event_def episode_ok_def Let_def probe_delay_def)

lemma inv_closed:
  assumes inv: "gate_inv r" and op: "breaker_open (gr_breaker r)" and gen: "br_generation (gr_breaker r) \<in># gr_flight r"
    and three: "breakerRecoveries \<le> br_recoveries (gr_breaker r) + 1"
    and b: "b = (gr_breaker r)\<lparr>br_recoveries := 0, br_failures := 0\<rparr>"
  shows "gate_inv (r\<lparr>gr_breaker := b, gr_flight := gr_flight r - M, gr_log := opened_event (gr_now r) (gr_breaker r) b @ gr_log r\<rparr>)"
proof -
  let ?g = "br_generation (gr_breaker r)" and ?n = "int (probes (br_generation (gr_breaker r)) (gr_log r))"
  from inv op have ep: "br_openedAt (gr_breaker r) \<le> gr_now r" "br_recoveries (gr_breaker r) + int (count (gr_flight r) ?g) \<le> ?n"
    "list_ex (\<lambda>e. case e of Opened g' t0 d \<Rightarrow> g' = ?g \<and> d = probe_delay (gr_breaker r) \<and> t0 + ?n * d \<le> br_openedAt (gr_breaker r) | _ \<Rightarrow> False) (gr_log r)"
    by (simp_all add: gate_inv_def episode_ok_def Let_def)
  from gen have "1 \<le> count (gr_flight r) ?g" by simp
  with ep(2) three have n: "breakerRecoveries \<le> ?n" by linarith
  have "0 \<le> br_probeAfter (gr_breaker r)" using inv by (simp add: gate_inv_def)
  then have "breakerRecoveries * probe_delay (gr_breaker r) \<le> ?n * probe_delay (gr_breaker r)"
    by (intro mult_right_mono n) (simp add: probe_delay_pos less_imp_le)
  with ep(1,3) have closed: "list_ex (\<lambda>e. case e of Opened g' t0 d \<Rightarrow> g' = ?g \<and> t0 + breakerRecoveries * d \<le> gr_now r | _ \<Rightarrow> False) (gr_log r)"
    unfolding list_ex_iff by (fastforce split: gate_event.splits)
  have cl: "\<not> breaker_open b" by (simp add: b breaker_open_def breakerThreshold_def)
  then have ev: "opened_event (gr_now r) (gr_breaker r) b = [Closed ?g (gr_now r)]"
    using op by (simp add: opened_event_def b)
  have "k \<le> ?g" if "k \<in># gr_flight r - M" for k using inv in_diffD [OF that] by (simp add: gate_inv_def)
  moreover have "br_recoveries b = 0" "br_failures b = 0" "br_probeAfter b = br_probeAfter (gr_breaker r)" "br_generation b = ?g"
    by (simp_all add: b)
  ultimately show ?thesis using inv cl closed n unfolding gate_inv_def ev by simp
qed

lemma inv_record:
  assumes inv: "gate_inv r" and gen: "gen \<in># gr_flight r"
  shows "gate_inv (r\<lparr>gr_breaker := breaker_record (gr_now r) gen err (gr_breaker r), gr_flight := gr_flight r - {#gen#},
    gr_log := opened_event (gr_now r) (gr_breaker r) (breaker_record (gr_now r) gen err (gr_breaker r)) @ gr_log r\<rparr>)"
proof -
  let ?old = "gr_breaker r"
  let ?b = "breaker_record (gr_now r) gen err ?old"
  have nn: "0 \<le> br_failures ?old" "0 \<le> br_recoveries ?old" using inv by (simp_all add: gate_inv_def)
  have sub: "\<And>k. k \<in># gr_flight r - {#gen#} \<Longrightarrow> k \<in># gr_flight r" by (rule in_diffD)
  have less: "count (gr_flight r - {#gen#}) k \<le> count (gr_flight r) k" for k by simp
  have recov: "\<not> breaker_open ?old \<Longrightarrow> br_recoveries ?old = 0" using inv by (simp add: gate_inv_def)
  consider (same) "?b = ?old" | (backoff) d where "0 \<le> d" "?b = ?old\<lparr>br_recoveries := 0, br_failures := breakerThreshold,
        br_openedAt := gr_now r, br_probeAfter := d, br_generation := br_generation ?old + 1\<rparr>"
    | (fail) "br_failures ?old + 1 \<noteq> breakerThreshold" "?b = ?old\<lparr>br_recoveries := 0, br_failures := br_failures ?old + 1\<rparr>"
    | (reset) "\<not> breaker_open ?old" "?b = ?old\<lparr>br_failures := 0\<rparr>"
    | (count) "breaker_open ?old" "gen = br_generation ?old" "?b = ?old\<lparr>br_recoveries := br_recoveries ?old + 1\<rparr>"
    | (close) "breaker_open ?old" "gen = br_generation ?old" "breakerRecoveries \<le> br_recoveries ?old + 1"
        "?b = ?old\<lparr>br_recoveries := 0, br_failures := 0\<rparr>"
  proof (cases "canceled err")
    case True
    then show thesis using that(1) by (simp add: record_cases)
  next
    case nc: False
    show thesis
    proof (cases "asks_backoff err")
      case True
      then obtain d where "Option.bind err ee_retryIn = Some d" "0 < d" by (auto simp: asks_backoff_def split: option.splits)
      with nc True show thesis using that(2) [of d] by (simp add: record_cases)
    next
      case False
      then have b: "?b = record_answer (gr_now r) gen err ?old" using nc by (simp add: record_cases)
      consider "isTransientExternal err" "br_failures ?old + 1 = breakerThreshold"
        | "isTransientExternal err" "br_failures ?old + 1 \<noteq> breakerThreshold"
        | "\<not> isTransientExternal err" "\<not> breaker_open ?old"
        | "\<not> isTransientExternal err" "breaker_open ?old" "gen = 0 \<or> gen \<noteq> br_generation ?old"
        | "\<not> isTransientExternal err" "breaker_open ?old" "gen \<noteq> 0" "gen = br_generation ?old"
        by blast
      then show thesis
      proof cases
        case 1
        then show thesis using that(2) [of 0] by (simp add: b record_answer_def)
      next
        case 2
        then show thesis using that(3) by (simp add: b record_answer_def)
      next
        case 3
        then show thesis using that(4) by (simp add: b record_answer_def breaker_open_def)
      next
        case 4
        then show thesis using that(1) by (simp add: b record_answer_def breaker_open_def)
      next
        case 5
        then show thesis using that(5,6)
          unfolding b by (cases "br_recoveries ?old + 1 < breakerRecoveries") (simp_all add: record_answer_def breaker_open_def)
      qed
    qed
  qed
  then show ?thesis
  proof cases
    case same
    show ?thesis unfolding same by (rule inv_same [OF inv]) (use nn recov less sub in auto)
  next
    case backoff
    show ?thesis by (rule inv_opened [OF inv backoff])
  next
    case fail
    have "breaker_open ?b = breaker_open ?old" using fail by (simp add: breaker_open_def) linarith
    moreover have "0 \<le> br_recoveries ?old" using inv by (simp add: gate_inv_def)
    ultimately show ?thesis by (intro inv_same [OF inv]) (use nn fail sub less in auto)
  next
    case reset
    then show ?thesis by (intro inv_same [OF inv]) (use recov sub in \<open>auto simp: breaker_open_def breakerThreshold_def\<close>)
  next
    case count
    then show ?thesis by (intro inv_same [OF inv]) (use nn gen sub in \<open>auto simp: breaker_open_def breakerThreshold_def\<close>)
  next
    case close
    then show ?thesis using gen by (intro inv_closed [OF inv]) auto
  qed
qed

lemma inv_allow:
  assumes inv: "gate_inv r" and a: "breaker_allow (gr_now r) (gr_breaker r) = (b, True, gen)"
  shows "gate_inv (r\<lparr>gr_breaker := b, gr_flight := add_mset gen (gr_flight r),
       gr_log := (if gen = 0 then gr_log r else Probe gen (gr_now r) # gr_log r)\<rparr>)"
proof (cases "breaker_open (gr_breaker r)")
  case False
  then have "b = gr_breaker r" "gen = 0" using a by (auto simp: breaker_allow_def breaker_open_def split: if_splits)
  with inv False show ?thesis by (auto simp: gate_inv_def)
next
  case True
  then have b: "b = (gr_breaker r)\<lparr>br_openedAt := gr_now r\<rparr>" and gen: "gen = br_generation (gr_breaker r)"
    and late: "br_openedAt (gr_breaker r) + probe_delay (gr_breaker r) \<le> gr_now r"
    using a by (auto simp: breaker_allow_def breaker_open_def split: if_splits)
  have d: "probe_delay b = probe_delay (gr_breaker r)" by (simp add: b probe_delay_def)
  from inv True have ep: "1 \<le> gen" "br_recoveries b + int (count (gr_flight r) gen) \<le> int (probes gen (gr_log r))"
    "list_ex (\<lambda>e. case e of Opened g' t0 d \<Rightarrow> g' = gen \<and> d = probe_delay b
        \<and> t0 + int (probes gen (gr_log r)) * d \<le> br_openedAt (gr_breaker r) | _ \<Rightarrow> False) (gr_log r)"
    "list_all (\<lambda>e. ev_gen e = gen \<longrightarrow> ev_time e \<le> br_openedAt (gr_breaker r)) (gr_log r)"
    unfolding gate_inv_def episode_ok_def Let_def d gen by (simp_all add: b)
  have pos: "0 < probe_delay b" using inv by (simp add: d probe_delay_pos gate_inv_def)
  have spaced: "list_all (\<lambda>e. ev_gen e = gen \<longrightarrow> ev_time e + probe_delay b \<le> gr_now r) (gr_log r)"
    using ep(4) late by (auto simp: list_all_iff d)
  have op: "list_ex (\<lambda>e. case e of Opened g' t0 d \<Rightarrow> g' = gen \<and> list_all (\<lambda>e'. ev_gen e' = gen \<longrightarrow> ev_time e' + d \<le> gr_now r) (gr_log r)
      | _ \<Rightarrow> False) (gr_log r)"
    using ep(3) spaced unfolding list_ex_iff by (fastforce split: gate_event.splits)
  have op': "list_ex (\<lambda>e. case e of Opened g' t0 d \<Rightarrow> g' = gen \<and> d = probe_delay b
        \<and> t0 + (1 + int (probes gen (gr_log r))) * d \<le> gr_now r | _ \<Rightarrow> False) (gr_log r)"
    using ep(3) late unfolding list_ex_iff by (fastforce simp: d algebra_simps split: gate_event.splits)
  have recent: "list_all (\<lambda>e. ev_gen e = gen \<longrightarrow> ev_time e \<le> gr_now r) (gr_log r)"
    using spaced pos by (fastforce simp: list_all_iff)
  have fields: "br_failures b = br_failures (gr_breaker r)" "br_recoveries b = br_recoveries (gr_breaker r)"
    "br_probeAfter b = br_probeAfter (gr_breaker r)" "br_generation b = gen" "br_openedAt b = gr_now r"
    "breaker_open b = breaker_open (gr_breaker r)"
    by (simp_all add: b gen breaker_open_def)
  show ?thesis
    using inv True ep(1,2) op op' recent unfolding gate_inv_def episode_ok_def Let_def
    by (auto simp: fields gen [symmetric])
qed

lemma gate_step_inv: "gate_step r r' \<Longrightarrow> gate_inv r \<Longrightarrow> gate_inv r'"
proof (induction rule: gate_step.induct)
  case (gs_tick now r)
  then show ?case by (auto simp: gate_inv_def episode_ok_def Let_def)
next
  case (gs_allow r b gen)
  then show ?case by (intro inv_allow)
next
  case (gs_refuse r b gen)
  then have "b = gr_breaker r" by (auto simp: breaker_allow_def split: if_splits)
  with gs_refuse show ?case by simp
next
  case (gs_drop gen r)
  have "\<And>k. k \<in># gr_flight r - {#gen#} \<Longrightarrow> k \<in># gr_flight r" by (rule in_diffD)
  from inv_same [OF gs_drop(2), of "gr_breaker r" "gr_flight r - {#gen#}", OF _ _ _ _ _ _ _ _ this] gs_drop(2) show ?case
    by (auto simp: gate_inv_def opened_event_def)
next
  case (gs_record gen r err b)
  with inv_record [of r gen err] show ?case by simp
qed

lemma gate_init_inv: "gate_init r \<Longrightarrow> gate_inv r"
  by (simp add: gate_init_def gate_inv_def newBreaker_def breaker_open_def breakerThreshold_def)

interpretation gt: step_invariant gate_init gate_step gate_inv
  by unfold_locales (rule gate_init_inv, assumption, rule gate_step_inv)

lemma list_ex_opened:
  "list_ex (\<lambda>e. case e of Opened g t d \<Rightarrow> Q g t d | _ \<Rightarrow> False) evs \<longleftrightarrow> (\<exists>g t d. Opened g t d \<in> set evs \<and> Q g t d)"
proof (induction evs)
  case (Cons e evs)
  then show ?case by (cases e) auto
qed simp

lemma gate_log_split: "gate_log_ok (pre @ evs) \<Longrightarrow> gate_log_ok evs"
proof (induction pre)
  case (Cons e pre)
  then show ?case by (cases e) auto
qed simp

lemma gate_log_opened: "gate_log_ok evs \<Longrightarrow> Opened g t d \<in> set evs \<Longrightarrow> 0 < d"
proof (induction evs)
  case (Cons e evs)
  then show ?case by (cases e) auto
qed simp

section \<open>Properties\<close>

text \<open>
  C38: the breaker of an agent opens exactly when it should. Starting closed, after any sequence of answers
  it is open if and only if a provider asked to back off or five answers in a row were transient
  failures; cancelled calls do not count, and a not-found is an answer.
\<close>

theorem breaker_opens_iff:
  "breaker_open (record_all answers newBreaker) \<longleftrightarrow>
     list_ex (\<lambda>a. \<not> canceled (snd a) \<and> asks_backoff (snd a)) answers
     \<or> (\<exists>pre post. map (\<lambda>a. isTransientExternal (snd a)) (filter (\<lambda>a. \<not> canceled (snd a)) answers)
          = pre @ replicate 5 True @ post)"
proof -
  have b: "br_failures newBreaker = 0" "\<not> breaker_open newBreaker"
    by (simp_all add: newBreaker_def breaker_open_def breakerThreshold_def)
  have "(\<exists>post. xs = replicate 5 True @ post) \<Longrightarrow> (\<exists>pre post. xs = pre @ replicate 5 True @ post)" for xs
    by (metis append_Nil)
  with record_all_closed [of newBreaker answers] b streak_reaches_iff [of 0 5] show ?thesis by auto
qed

text \<open>
  An open breaker probes slowly and closes late. In every run, whatever calls overlap, while the
  breaker is open a call is admitted only as a probe of the current episode; a probe comes at least the
  delay of its episode after the opening and after every earlier probe of it; and an episode closes only
  after three of its probes, so three delays after its opening at the earliest.
\<close>

theorem open_breaker_probes_slowly:
  assumes "reachable gate_init gate_step r"
  shows "(\<forall>b gen. breaker_open (gr_breaker r) \<and> breaker_allow (gr_now r) (gr_breaker r) = (b, True, gen) \<longrightarrow>
       gen = br_generation (gr_breaker r) \<and> 1 \<le> gen)
    \<and> (\<forall>pre g t evs. gr_log r = pre @ Probe g t # evs \<longrightarrow>
         (\<exists>t0 d. Opened g t0 d \<in> set evs \<and> 0 < d \<and> (\<forall>e\<in>set evs. ev_gen e = g \<longrightarrow> ev_time e + d \<le> t)))
    \<and> (\<forall>pre g t evs. gr_log r = pre @ Closed g t # evs \<longrightarrow>
         3 \<le> probes g evs \<and> (\<exists>t0 d. Opened g t0 d \<in> set evs \<and> 0 < d \<and> t0 + 3 * d \<le> t))"
proof (intro conjI allI impI)
  have inv: "gate_inv r" by (rule gt.reachable_inv [OF assms])
  then have ok: "gate_log_ok (gr_log r)" by (simp add: gate_inv_def)
  {
    fix b gen
    assume "breaker_open (gr_breaker r) \<and> breaker_allow (gr_now r) (gr_breaker r) = (b, True, gen)"
    with inv show "gen = br_generation (gr_breaker r)" "1 \<le> gen"
      by (auto simp: breaker_allow_def breaker_open_def gate_inv_def episode_ok_def Let_def split: if_splits)
  next
    fix pre g t evs
    assume "gr_log r = pre @ Probe g t # evs"
    with ok have "gate_log_ok (Probe g t # evs)" by (metis gate_log_split)
    then obtain t0 d where "Opened g t0 d \<in> set evs" "gate_log_ok evs" "list_all (\<lambda>e'. ev_gen e' = g \<longrightarrow> ev_time e' + d \<le> t) evs"
      by (auto simp: list_ex_opened)
    then show "\<exists>t0 d. Opened g t0 d \<in> set evs \<and> 0 < d \<and> (\<forall>e\<in>set evs. ev_gen e = g \<longrightarrow> ev_time e + d \<le> t)"
      using gate_log_opened [of evs g t0 d] by (auto simp: list_all_iff)
  next
    fix pre g t evs
    assume "gr_log r = pre @ Closed g t # evs"
    with ok have closed: "gate_log_ok (Closed g t # evs)" by (metis gate_log_split)
    then show "3 \<le> probes g evs" by (simp add: breakerRecoveries_def)
    from closed obtain t0 d where "Opened g t0 d \<in> set evs" "gate_log_ok evs" "t0 + 3 * d \<le> t"
      by (auto simp: list_ex_opened breakerRecoveries_def)
    then show "\<exists>t0 d. Opened g t0 d \<in> set evs \<and> 0 < d \<and> t0 + 3 * d \<le> t"
      using gate_log_opened [of evs g t0 d] by blast
  }
qed

text \<open>Agents back off in isolation, and an open breaker answers without calling the provider.\<close>

lemma gate_isolates: "name' \<noteq> name \<Longrightarrow> fst (gate rps w now now' f name gs) name' = gs name'"
  by (auto simp: gate_def gateFor_def Let_def split: option.splits prod.splits sum.splits)

lemma gate_open_skips:
  assumes "gs name = Some g" "breaker_open (eg_breaker g)" "now < br_openedAt (eg_breaker g) + probe_delay (eg_breaker g)"
  shows "gate rps w now now' f name gs = (gs, BreakerOpen)"
  using assms by (auto simp: gate_def gateFor_def breaker_allow_def breaker_open_def Let_def intro!: ext)

section \<open>Witness\<close>

definition demo_retry :: "ext_error option" where
  "demo_retry = Some \<lparr>ee_canceled = False, ee_agentNotFound = False, ee_modelNotFound = False, ee_retryIn = Some 10\<rparr>"

definition demo_gate :: gate_run where
  "demo_gate = \<lparr>gr_now = 10, gr_breaker = \<lparr>br_failures = 5, br_openedAt = 10, br_recoveries = 0, br_generation = 1, br_probeAfter = 10\<rparr>,
     gr_flight = {#1#}, gr_log = [Probe 1 10, Opened 1 0 10]\<rparr>"

lemma demo_gate_run: "reachable gate_init gate_step demo_gate"
proof -
  let ?r0 = "\<lparr>gr_now = 0, gr_breaker = newBreaker, gr_flight = {#}, gr_log = []\<rparr>"
  let ?r1 = "?r0\<lparr>gr_flight := {#0#}\<rparr>"
  let ?open = "\<lparr>br_failures = 5, br_openedAt = 0, br_recoveries = 0, br_generation = 1, br_probeAfter = 10\<rparr>"
  let ?r2 = "?r0\<lparr>gr_breaker := ?open, gr_log := [Opened 1 0 10]\<rparr>"
  have "reachable gate_init gate_step ?r0" by (rule reach_init) (simp add: gate_init_def)
  moreover have "gate_step ?r0 ?r1"
    using gs_allow [of ?r0 newBreaker 0] by (simp add: breaker_allow_def newBreaker_def breakerThreshold_def)
  ultimately have "reachable gate_init gate_step ?r1" by (rule reach_step)
  moreover have "gate_step ?r1 ?r2"
    using gs_record [of 0 ?r1 demo_retry ?open]
    by (simp add: breaker_record_def demo_retry_def canceled_def newBreaker_def breakerThreshold_def opened_event_def probe_delay_def)
  ultimately have "reachable gate_init gate_step ?r2" by (rule reach_step)
  moreover have "gate_step ?r2 (?r2\<lparr>gr_now := 10\<rparr>)" by (rule gs_tick) simp
  ultimately have "reachable gate_init gate_step (?r2\<lparr>gr_now := 10\<rparr>)" by (rule reach_step)
  moreover have "gate_step (?r2\<lparr>gr_now := 10\<rparr>) demo_gate"
    using gs_allow [of "?r2\<lparr>gr_now := 10\<rparr>" "?open\<lparr>br_openedAt := 10\<rparr>" 1]
    by (simp add: breaker_allow_def breakerThreshold_def probe_delay_def demo_gate_def)
  ultimately show ?thesis by (rule reach_step)
qed

theorem open_breaker_probes_slowly_witness:
  "\<exists>t0 d. Opened 1 t0 d \<in> set [Opened 1 0 10] \<and> 0 < d \<and> t0 + d \<le> 10"
proof -
  have "gr_log demo_gate = [] @ Probe 1 10 # [Opened 1 0 10]" by (simp add: demo_gate_def)
  with open_breaker_probes_slowly [OF demo_gate_run] show ?thesis by fastforce
qed

end
