(* ===== verification/Users.thy ===== *)
theory Users
  imports Auth
begin

text \<open>
  User accounts: \<open>model/user.go\<close> and \<open>persistence/user_repository.go\<close> over the tables \<open>user\<close>,
  \<open>user_library\<close> and \<open>library\<close>. Statements are operations on the list of rows; an argument of type
  \<open>string option\<close> is the error of a statement, if it fails for a reason outside the model. The cipher
  of \<open>utils/encrypt.go\<close> is two arguments, \<open>enc\<close> and \<open>dec\<close>, that may fail; a key is a string. The test
  whether a scrobble filter is a valid criterion is an argument as well. SQLite compares user names
  with \<open>NOCASE\<close>, which folds ASCII letters only, as \<^const>\<open>EqualFold\<close> does.
\<close>

record account = user +
  ac_Name :: string
  ac_Email :: string
  ac_CanUpload :: bool
  ac_CanEditTags :: bool
  ac_LastLoginAt :: "time option"
  ac_LastAccessAt :: "time option"
  ac_CreatedAt :: time
  ac_UpdatedAt :: time
  ac_Password :: string
  ac_NewPassword :: string
  ac_CurrentPassword :: string

definition AllowedToUpload :: "account \<Rightarrow> bool" where
  "AllowedToUpload u \<longleftrightarrow> us_IsAdmin u \<or> ac_CanUpload u"

definition AllowedToEditTags :: "account \<Rightarrow> bool" where
  "AllowedToEditTags u \<longleftrightarrow> us_IsAdmin u \<or> ac_CanEditTags u"

text \<open>A row of the table \<open>user\<close>.\<close>

record user_row =
  ur_id :: string
  ur_user_name :: string
  ur_name :: string
  ur_email :: string
  ur_is_admin :: bool
  ur_can_upload :: bool
  ur_can_edit_tags :: bool
  ur_last_login_at :: "time option"
  ur_last_access_at :: "time option"
  ur_created_at :: time
  ur_updated_at :: time
  ur_scrobble_filter :: string
  ur_password :: string
  ur_token_epoch :: int

text \<open>\<open>db_libraries\<close> has the libraries with their flag \<open>default_new_users\<close>.\<close>

record users_db =
  db_users :: "user_row list"
  db_userLibrary :: "(string \<times> int) list"
  db_libraries :: "(int \<times> bool) list"

datatype repo_error =
  PermissionDenied | NotFound | Invalid "(string \<times> string) list" | SQLError string | DecryptFailed

definition PasswordAutogenPrefix :: string where "PasswordAutogenPrefix = ''__NAVIDROME_AUTOGEN__''"

definition invalidUserId :: string where "invalidUserId = ''-1''"

section \<open>Reading\<close>

definition user_libraries :: "users_db \<Rightarrow> string \<Rightarrow> int list" where
  "user_libraries db userID =
     filter (\<lambda>l. List.member (map fst (db_libraries db)) l)
       (map snd (filter (\<lambda>p. fst p = userID) (db_userLibrary db)))"

definition of_row :: "users_db \<Rightarrow> user_row \<Rightarrow> account" where
  "of_row db r =
     \<lparr>us_ID = ur_id r, us_UserName = ur_user_name r, us_ScrobbleFilter = ur_scrobble_filter r,
      us_LibraryAccess = user_libraries db (ur_id r), us_IsAdmin = ur_is_admin r, us_TokenEpoch = ur_token_epoch r,
      ac_Name = ur_name r, ac_Email = ur_email r, ac_CanUpload = ur_can_upload r, ac_CanEditTags = ur_can_edit_tags r,
      ac_LastLoginAt = ur_last_login_at r, ac_LastAccessAt = ur_last_access_at r, ac_CreatedAt = ur_created_at r,
      ac_UpdatedAt = ur_updated_at r, ac_Password = ur_password r, ac_NewPassword = [], ac_CurrentPassword = []\<rparr>"

definition queryOne_row :: "string option \<Rightarrow> (user_row \<Rightarrow> bool) \<Rightarrow> users_db \<Rightarrow> repo_error + account" where
  "queryOne_row err P db =
     (case err of
        Some e \<Rightarrow> Inl (SQLError e)
      | None \<Rightarrow> (case find P (db_users db) of None \<Rightarrow> Inl NotFound | Some r \<Rightarrow> Inr (of_row db r)))"

definition users_Get :: "string option \<Rightarrow> string \<Rightarrow> users_db \<Rightarrow> repo_error + account" where
  "users_Get err i db = queryOne_row err (\<lambda>r. ur_id r = i) db"

definition users_GetAll :: "string option \<Rightarrow> users_db \<Rightarrow> repo_error + account list" where
  "users_GetAll err db = (case err of Some e \<Rightarrow> Inl (SQLError e) | None \<Rightarrow> Inr (map (of_row db) (db_users db)))"

definition users_CountAll :: "string option \<Rightarrow> users_db \<Rightarrow> repo_error + nat" where
  "users_CountAll err db = (case err of Some e \<Rightarrow> Inl (SQLError e) | None \<Rightarrow> Inr (length (db_users db)))"

text \<open>The first admin in the order of \<open>updated_at\<close>.\<close>

definition FindFirstAdmin :: "string option \<Rightarrow> users_db \<Rightarrow> repo_error + account" where
  "FindFirstAdmin err db = queryOne_row err ur_is_admin (db\<lparr>db_users := sort_key ur_updated_at (db_users db)\<rparr>)"

definition FindByUsername :: "string option \<Rightarrow> string \<Rightarrow> users_db \<Rightarrow> repo_error + account" where
  "FindByUsername err username db = queryOne_row err (\<lambda>r. EqualFold (ur_user_name r) username) db"

definition decryptPassword :: "(string \<Rightarrow> string option) \<Rightarrow> account \<Rightarrow> (account \<times> bool)" where
  "decryptPassword dec u =
     (case dec (ac_Password u) of None \<Rightarrow> (u, False) | Some plain \<Rightarrow> (u\<lparr>ac_Password := plain\<rparr>, True))"

definition encryptPassword :: "(string \<Rightarrow> string option) \<Rightarrow> account \<Rightarrow> account" where
  "encryptPassword enc u =
     (case enc (ac_NewPassword u) of None \<Rightarrow> u | Some c \<Rightarrow> u\<lparr>ac_NewPassword := c\<rparr>)"

definition FindByUsernameWithPassword ::
  "(string \<Rightarrow> string option) \<Rightarrow> string option \<Rightarrow> string \<Rightarrow> users_db \<Rightarrow> repo_error + account" where
  "FindByUsernameWithPassword dec err username db =
     (case FindByUsername err username db of
        Inl e \<Rightarrow> Inl e
      | Inr u \<Rightarrow> Inr (fst (decryptPassword dec u)))"

section \<open>Writing\<close>

text \<open>The columns that \<open>toSQLArgs\<close> takes from a user; an empty password is left out.\<close>

definition set_values :: "account \<Rightarrow> user_row \<Rightarrow> user_row" where
  "set_values u r =
     r\<lparr>ur_id := us_ID u, ur_user_name := us_UserName u, ur_name := ac_Name u, ur_email := ac_Email u,
       ur_is_admin := us_IsAdmin u, ur_can_upload := ac_CanUpload u, ur_can_edit_tags := ac_CanEditTags u,
       ur_last_login_at := ac_LastLoginAt u, ur_last_access_at := ac_LastAccessAt u,
       ur_created_at := ac_CreatedAt u, ur_updated_at := ac_UpdatedAt u, ur_scrobble_filter := us_ScrobbleFilter u,
       ur_password := (if ac_NewPassword u \<noteq> [] then ac_NewPassword u else ur_password r)\<rparr>"

definition empty_row :: user_row where
  "empty_row =
     \<lparr>ur_id = [], ur_user_name = [], ur_name = [], ur_email = [], ur_is_admin = False, ur_can_upload = False,
      ur_can_edit_tags = False, ur_last_login_at = None, ur_last_access_at = None, ur_created_at = zeroTime,
      ur_updated_at = zeroTime, ur_scrobble_filter = [], ur_password = [], ur_token_epoch = 0\<rparr>"

text \<open>The constraint \<open>unique\<close> on the (case-sensitive) user name.\<close>

definition name_taken :: "account \<Rightarrow> users_db \<Rightarrow> bool" where
  "name_taken u db \<longleftrightarrow> list_ex (\<lambda>r. ur_user_name r = us_UserName u \<and> ur_id r \<noteq> us_ID u) (db_users db)"

definition update_users :: "(user_row \<Rightarrow> bool) \<Rightarrow> (user_row \<Rightarrow> user_row) \<Rightarrow> users_db \<Rightarrow> users_db" where
  "update_users P f db = db\<lparr>db_users := map (\<lambda>r. if P r then f r else r) (db_users db)\<rparr>"

definition has_user :: "string \<Rightarrow> users_db \<Rightarrow> bool" where
  "has_user i db \<longleftrightarrow> list_ex (\<lambda>r. ur_id r = i) (db_users db)"

text \<open>\<open>INSERT OR IGNORE INTO user_library\<close> of the libraries with a property.\<close>

definition assign_libraries :: "string \<Rightarrow> (int \<times> bool \<Rightarrow> bool) \<Rightarrow> users_db \<Rightarrow> users_db" where
  "assign_libraries userID P db =
     db\<lparr>db_userLibrary := db_userLibrary db @
        filter (\<lambda>p. \<not> List.member (db_userLibrary db) p) (map (\<lambda>l. (userID, fst l)) (filter P (db_libraries db)))\<rparr>"

record put_env =
  pe_newID :: string
  pe_now :: time
  pe_updateErr :: "string option"
  pe_insertErr :: "string option"
  pe_librariesErr :: "string option"

text \<open>
  \<open>Put\<close>: the tables it leaves, and an error or the user as it is stored together with the epoch that
  is reported to the caller's own session, if any.
\<close>

definition users_Put ::
  "(string \<Rightarrow> string option) \<Rightarrow> put_env \<Rightarrow> account option \<Rightarrow> account \<Rightarrow> users_db
   \<Rightarrow> users_db \<times> (repo_error + account \<times> int option)" where
  "users_Put enc env logged u0 db =
     (let u1 = (if us_ID u0 = [] then u0\<lparr>us_ID := pe_newID env\<rparr> else u0);
          u2 = u1\<lparr>ac_UpdatedAt := pe_now env\<rparr>;
          u = (if ac_NewPassword u2 \<noteq> [] then encryptPassword enc u2 else u2);
          isNewUser = (\<not> has_user (us_ID u) db);
          bump = (\<lambda>r. if ac_NewPassword u \<noteq> [] then r\<lparr>ur_token_epoch := ur_token_epoch r + 1\<rparr> else r)
      in case pe_updateErr env of
           Some e \<Rightarrow> (db, Inl (SQLError e))
         | None \<Rightarrow>
             (if name_taken u db then (db, Inl (SQLError ''UNIQUE constraint failed: user.user_name''))
              else if isNewUser \<and> pe_insertErr env \<noteq> None then (db, Inl (SQLError (the (pe_insertErr env))))
              else (let db1 = (if isNewUser
                               then db\<lparr>db_users := db_users db @ [set_values (u\<lparr>ac_CreatedAt := pe_now env\<rparr>) empty_row]\<rparr>
                               else update_users (\<lambda>r. ur_id r = us_ID u) (\<lambda>r. bump (set_values u r)) db)
                    in if (us_IsAdmin u \<or> isNewUser) \<and> pe_librariesErr env \<noteq> None
                       then (db1, Inl (SQLError (the (pe_librariesErr env))))
                       else (let db2 = (if us_IsAdmin u then assign_libraries (us_ID u) (\<lambda>_. True) db1
                                        else if isNewUser then assign_libraries (us_ID u) snd db1
                                        else db1);
                                 own = (case logged of None \<Rightarrow> invalidUserId | Some l \<Rightarrow> us_ID l) = us_ID u;
                                 epoch = map_option ur_token_epoch (find (\<lambda>r. ur_id r = us_ID u) (db_users db2))
                             in (db2, Inr (u, if ac_NewPassword u \<noteq> [] \<and> \<not> isNewUser \<and> own then epoch else None))))))"

definition UpdateLastLoginAt :: "string option \<Rightarrow> time \<Rightarrow> string \<Rightarrow> users_db \<Rightarrow> users_db \<times> repo_error option" where
  "UpdateLastLoginAt err now i db =
     (case err of Some e \<Rightarrow> (db, Some (SQLError e))
      | None \<Rightarrow> (update_users (\<lambda>r. ur_id r = i) (\<lambda>r. r\<lparr>ur_last_login_at := Some now\<rparr>) db, None))"

definition UpdateLastAccessAt :: "string option \<Rightarrow> time \<Rightarrow> string \<Rightarrow> users_db \<Rightarrow> users_db \<times> repo_error option" where
  "UpdateLastAccessAt err now i db =
     (case err of Some e \<Rightarrow> (db, Some (SQLError e))
      | None \<Rightarrow> (update_users (\<lambda>r. ur_id r = i) (\<lambda>r. r\<lparr>ur_last_access_at := Some now\<rparr>) db, None))"

definition SetUserLibraries :: "string option \<Rightarrow> string option \<Rightarrow> string \<Rightarrow> int list \<Rightarrow> users_db \<Rightarrow> users_db \<times> repo_error option" where
  "SetUserLibraries deleteErr insertErr userID libraryIDs db =
     (case deleteErr of
        Some e \<Rightarrow> (db, Some (SQLError e))
      | None \<Rightarrow>
          (let db1 = db\<lparr>db_userLibrary := filter (\<lambda>p. fst p \<noteq> userID) (db_userLibrary db)\<rparr>
           in if length libraryIDs > 0
              then (case insertErr of
                      Some e \<Rightarrow> (db1, Some (SQLError e))
                    | None \<Rightarrow> (db1\<lparr>db_userLibrary := db_userLibrary db1 @ map (Pair userID) libraryIDs\<rparr>, None))
              else (db1, None)))"

section \<open>The REST resource\<close>

text \<open>The user of the request, or one whose ID no user has.\<close>

definition no_user :: account where
  "no_user =
     \<lparr>us_ID = invalidUserId, us_UserName = [], us_ScrobbleFilter = [], us_LibraryAccess = [], us_IsAdmin = False,
      us_TokenEpoch = 0, ac_Name = [], ac_Email = [], ac_CanUpload = False, ac_CanEditTags = False,
      ac_LastLoginAt = None, ac_LastAccessAt = None, ac_CreatedAt = zeroTime, ac_UpdatedAt = zeroTime,
      ac_Password = [], ac_NewPassword = [], ac_CurrentPassword = []\<rparr>"

definition loggedUser :: "account option \<Rightarrow> account" where
  "loggedUser logged = (case logged of None \<Rightarrow> no_user | Some u \<Rightarrow> u)"

definition users_Count :: "string option \<Rightarrow> account option \<Rightarrow> users_db \<Rightarrow> repo_error + nat" where
  "users_Count err logged db =
     (if \<not> us_IsAdmin (loggedUser logged) then Inl PermissionDenied else users_CountAll err db)"

definition users_Read :: "string option \<Rightarrow> account option \<Rightarrow> string \<Rightarrow> users_db \<Rightarrow> repo_error + account" where
  "users_Read err logged i db =
     (if \<not> us_IsAdmin (loggedUser logged) \<and> us_ID (loggedUser logged) \<noteq> i then Inl PermissionDenied
      else users_Get err i db)"

definition users_ReadAll :: "string option \<Rightarrow> account option \<Rightarrow> users_db \<Rightarrow> repo_error + account list" where
  "users_ReadAll err logged db =
     (if \<not> us_IsAdmin (loggedUser logged) then Inl PermissionDenied else users_GetAll err db)"

definition validatePasswordChange :: "account \<Rightarrow> account \<Rightarrow> repo_error option" where
  "validatePasswordChange newUser logged =
     (if us_IsAdmin logged \<and> us_ID newUser \<noteq> us_ID logged then None
      else if ac_NewPassword newUser = [] \<and> ac_CurrentPassword newUser = [] then None
      else (let pw = (if ac_NewPassword newUser = [] then [(''password'', ''ra.validation.required'')] else []);
                current = (if HasPrefix (ac_Password logged) PasswordAutogenPrefix then []
                   else if ac_CurrentPassword newUser \<noteq> ac_Password logged
                        then [(''currentPassword'', ''ra.validation.passwordDoesNotMatch'')]
                   else if ac_CurrentPassword newUser = [] then [(''currentPassword'', ''ra.validation.required'')]
                   else [])
            in if length (pw @ current) > 0 then Some (Invalid (pw @ current)) else None))"

definition validateUsernameUnique :: "string option \<Rightarrow> account \<Rightarrow> users_db \<Rightarrow> repo_error option" where
  "validateUsernameUnique err u db =
     (case FindByUsername err (us_UserName u) db of
        Inl NotFound \<Rightarrow> None
      | Inl e \<Rightarrow> Some e
      | Inr usr \<Rightarrow> if us_ID usr \<noteq> us_ID u then Some (Invalid [(''userName'', ''ra.validation.unique'')]) else None)"

text \<open>The trimmed filter is stored; \<open>valid\<close> says which non-empty filters are criteria without a size.\<close>

definition validateScrobbleFilter :: "(string \<Rightarrow> bool) \<Rightarrow> account \<Rightarrow> account \<times> repo_error option" where
  "validateScrobbleFilter valid u =
     (let f = TrimSpace (us_ScrobbleFilter u); u1 = u\<lparr>us_ScrobbleFilter := f\<rparr>
      in if f = [] then (u1, None)
         else if valid f then (u1, None)
         else (u1, Some (Invalid [(''scrobbleFilter'', ''resources.user.validation.invalidScrobbleFilter'')])))"

definition users_Save ::
  "(string \<Rightarrow> string option) \<Rightarrow> (string \<Rightarrow> bool) \<Rightarrow> string option \<Rightarrow> put_env \<Rightarrow> account option \<Rightarrow> account \<Rightarrow> users_db
   \<Rightarrow> users_db \<times> (repo_error + string)" where
  "users_Save enc valid err env logged u db =
     (if \<not> us_IsAdmin (loggedUser logged) then (db, Inl PermissionDenied)
      else (case validateUsernameUnique err u db of
              Some e \<Rightarrow> (db, Inl e)
            | None \<Rightarrow>
                (case validateScrobbleFilter valid u of
                   (u1, Some e) \<Rightarrow> (db, Inl e)
                 | (u1, None) \<Rightarrow>
                     (case users_Put enc env logged u1 db of
                        (db1, Inl e) \<Rightarrow> (db1, Inl e)
                      | (db1, Inr (u2, _)) \<Rightarrow> (db1, Inr (us_ID u2))))))"

definition users_Update ::
  "(string \<Rightarrow> string option) \<Rightarrow> (string \<Rightarrow> string option) \<Rightarrow> bool \<Rightarrow> (string \<Rightarrow> bool) \<Rightarrow> string option \<Rightarrow> put_env
   \<Rightarrow> account option \<Rightarrow> string \<Rightarrow> account \<Rightarrow> users_db \<Rightarrow> users_db \<times> (repo_error + int option)" where
  "users_Update enc dec enableUserEditing valid err env logged i u0 db =
     (let u1 = u0\<lparr>us_ID := i\<rparr>; usr = loggedUser logged
      in if \<not> us_IsAdmin usr \<and> us_ID usr \<noteq> us_ID u1 then (db, Inl PermissionDenied)
         else if \<not> us_IsAdmin usr \<and> \<not> enableUserEditing then (db, Inl PermissionDenied)
         else (let u = (if us_IsAdmin usr then u1 else u1\<lparr>us_IsAdmin := False, us_UserName := us_UserName usr\<rparr>)
               in case decryptPassword dec usr of
                    (_, False) \<Rightarrow> (db, Inl DecryptFailed)
                  | (usr1, True) \<Rightarrow>
                      (case validatePasswordChange u usr1 of
                         Some e \<Rightarrow> (db, Inl e)
                       | None \<Rightarrow>
                           (case validateUsernameUnique err u db of
                              Some e \<Rightarrow> (db, Inl e)
                            | None \<Rightarrow>
                                (case validateScrobbleFilter valid u of
                                   (u2, Some e) \<Rightarrow> (db, Inl e)
                                 | (u2, None) \<Rightarrow>
                                     (case users_Put enc env logged u2 db of
                                        (db1, Inl e) \<Rightarrow> (db1, Inl e)
                                      | (db1, Inr (_, epoch)) \<Rightarrow> (db1, Inr epoch)))))))"

text \<open>Deleting a user cascades to the libraries of the user.\<close>

definition users_Delete :: "string option \<Rightarrow> account option \<Rightarrow> string \<Rightarrow> users_db \<Rightarrow> users_db \<times> repo_error option" where
  "users_Delete err logged i db =
     (if \<not> us_IsAdmin (loggedUser logged) then (db, Some PermissionDenied)
      else (case err of
              Some e \<Rightarrow> (db, Some (SQLError e))
            | None \<Rightarrow>
                (if \<not> has_user i db then (db, Some NotFound)
                 else (db\<lparr>db_users := filter (\<lambda>r. ur_id r \<noteq> i) (db_users db),
                          db_userLibrary := filter (\<lambda>p. fst p \<noteq> i) (db_userLibrary db)\<rparr>, None))))"

section \<open>The encryption key\<close>

text \<open>
  \<open>initPasswordEncryptionKey\<close>: the configured key (hashed) takes effect if it is the one whose sum is
  stored, or after all passwords were re-encrypted with it. \<open>keySum\<close> is the hash of a key; \<open>saved\<close> the
  stored sum. The result has the rows, the stored sum, the key in force and whether all went well.
\<close>

definition decryptAllPasswords :: "(string \<Rightarrow> string option) \<Rightarrow> user_row list \<Rightarrow> (string \<times> string) list option" where
  "decryptAllPasswords dec rows =
     those (map (\<lambda>r. map_option (Pair (ur_id r)) (dec (ur_password r))) rows)"

definition reencrypt_one :: "(string \<Rightarrow> string option) \<Rightarrow> (string \<Rightarrow> string option) \<Rightarrow> users_db \<Rightarrow> string \<times> string \<Rightarrow> users_db" where
  "reencrypt_one enc updErr db p =
     (case enc (snd p) of
        None \<Rightarrow> db
      | Some c \<Rightarrow> if updErr (fst p) \<noteq> None then db
          else update_users (\<lambda>r. ur_id r = fst p) (\<lambda>r. r\<lparr>ur_password := c\<rparr>) db)"

definition initPasswordEncryptionKey ::
  "(string \<Rightarrow> string \<Rightarrow> string option) \<Rightarrow> (string \<Rightarrow> string \<Rightarrow> string option) \<Rightarrow> (string \<Rightarrow> string) \<Rightarrow> string option
   \<Rightarrow> (string \<Rightarrow> string option) \<Rightarrow> string option \<Rightarrow> string \<Rightarrow> string \<Rightarrow> string option \<Rightarrow> users_db
   \<Rightarrow> users_db \<times> string option \<times> string \<times> bool" where
  "initPasswordEncryptionKey enc dec keySum queryErr updErr propsErr defaultKey key saved db =
     (if key = [] then (db, saved, defaultKey, True)
      else (case saved of
              Some s \<Rightarrow> if s \<noteq> keySum key then (db, saved, defaultKey, False) else (db, saved, key, True)
            | None \<Rightarrow>
                (if queryErr \<noteq> None then (db, saved, defaultKey, False)
                 else (case decryptAllPasswords (dec defaultKey) (db_users db) of
                         None \<Rightarrow> (db, saved, defaultKey, False)
                       | Some ps \<Rightarrow>
                           (let db1 = foldl (reencrypt_one (enc key) updErr) db ps
                            in if propsErr \<noteq> None then (db1, saved, key, False)
                               else (db1, Some (keySum key), key, True))))))"

section \<open>The tables stay well formed\<close>

lemma find_SomeD: "find P xs = Some x \<Longrightarrow> x \<in> set xs \<and> P x"
  by (induction xs) (auto split: if_splits)

definition accounts_ok :: "users_db \<Rightarrow> bool" where
  "accounts_ok db \<longleftrightarrow> distinct (map ur_id (db_users db)) \<and> [] \<notin> ur_id ` set (db_users db)
     \<and> distinct (map (\<lambda>r. ToLower (ur_user_name r)) (db_users db))"

definition name_free :: "account \<Rightarrow> users_db \<Rightarrow> bool" where
  "name_free u db \<longleftrightarrow> (\<forall>r\<in>set (db_users db). EqualFold (ur_user_name r) (us_UserName u) \<longrightarrow> ur_id r = us_ID u)"

lemma set_values_simps [simp]:
  "ur_id (set_values u r) = us_ID u" "ur_user_name (set_values u r) = us_UserName u" "ur_is_admin (set_values u r) = us_IsAdmin u"
  "ur_token_epoch (set_values u r) = ur_token_epoch r"
  "ur_password (set_values u r) = (if ac_NewPassword u \<noteq> [] then ac_NewPassword u else ur_password r)"
  "ur_can_upload (set_values u r) = ac_CanUpload u" "ur_can_edit_tags (set_values u r) = ac_CanEditTags u"
  by (simp_all add: set_values_def)

lemma has_user_iff: "has_user i db \<longleftrightarrow> i \<in> ur_id ` set (db_users db)"
  by (auto simp: has_user_def list_ex_iff image_iff)

lemma encryptPassword_simps [simp]:
  "us_ID (encryptPassword enc u) = us_ID u" "us_UserName (encryptPassword enc u) = us_UserName u"
  "us_IsAdmin (encryptPassword enc u) = us_IsAdmin u" "us_ScrobbleFilter (encryptPassword enc u) = us_ScrobbleFilter u"
  "ac_CanUpload (encryptPassword enc u) = ac_CanUpload u" "ac_CanEditTags (encryptPassword enc u) = ac_CanEditTags u"
  by (simp_all add: encryptPassword_def split: option.splits)

text \<open>The user that \<open>Put\<close> stores.\<close>

definition put_user :: "(string \<Rightarrow> string option) \<Rightarrow> put_env \<Rightarrow> account \<Rightarrow> account" where
  "put_user enc env u0 =
     (let u1 = (if us_ID u0 = [] then u0\<lparr>us_ID := pe_newID env\<rparr> else u0);
          u2 = u1\<lparr>ac_UpdatedAt := pe_now env\<rparr>
      in if ac_NewPassword u2 \<noteq> [] then encryptPassword enc u2 else u2)"

lemma put_user_simps [simp]:
  "us_ID (put_user enc env u) = (if us_ID u = [] then pe_newID env else us_ID u)"
  "us_UserName (put_user enc env u) = us_UserName u" "us_IsAdmin (put_user enc env u) = us_IsAdmin u"
  "ac_CanUpload (put_user enc env u) = ac_CanUpload u" "ac_CanEditTags (put_user enc env u) = ac_CanEditTags u"
  by (simp_all add: put_user_def Let_def)

definition put_row :: "account \<Rightarrow> user_row \<Rightarrow> user_row" where
  "put_row u r = (if ac_NewPassword u \<noteq> [] then (set_values u r)\<lparr>ur_token_epoch := ur_token_epoch r + 1\<rparr> else set_values u r)"

lemma put_row_simps [simp]: "ur_id (put_row u r) = us_ID u" "ur_user_name (put_row u r) = us_UserName u"
  "ur_is_admin (put_row u r) = us_IsAdmin u"
  "ur_can_upload (put_row u r) = ac_CanUpload u" "ur_can_edit_tags (put_row u r) = ac_CanEditTags u"
  "ur_password (put_row u r) = (if ac_NewPassword u \<noteq> [] then ac_NewPassword u else ur_password r)"
  "ur_token_epoch (put_row u r) = (if ac_NewPassword u \<noteq> [] then ur_token_epoch r + 1 else ur_token_epoch r)"
  by (simp_all add: put_row_def)

lemma Put_rows:
  assumes "users_Put enc env logged u0 db = (db', res)"
  defines "u \<equiv> put_user enc env u0"
  shows "db_users db' = db_users db
    \<or> (\<not> has_user (us_ID u) db \<and> \<not> name_taken u db
        \<and> db_users db' = db_users db @ [set_values (u\<lparr>ac_CreatedAt := pe_now env\<rparr>) empty_row])
    \<or> (has_user (us_ID u) db \<and> \<not> name_taken u db
        \<and> db_users db' = map (\<lambda>r. if ur_id r = us_ID u then put_row u r else r) (db_users db))"
proof -
  have u: "u = (let u1 = (if us_ID u0 = [] then u0\<lparr>us_ID := pe_newID env\<rparr> else u0); u2 = u1\<lparr>ac_UpdatedAt := pe_now env\<rparr>
      in if ac_NewPassword u2 \<noteq> [] then encryptPassword enc u2 else u2)" by (simp add: u_def put_user_def)
  have row: "(if ac_NewPassword u \<noteq> [] then (set_values u r)\<lparr>ur_token_epoch := ur_token_epoch (set_values u r) + 1\<rparr>
      else set_values u r) = put_row u r" for r by (simp add: put_row_def)
  show ?thesis
    using assms(1) unfolding users_Put_def Let_def
    unfolding u [unfolded Let_def, symmetric] row
    by (auto simp: assign_libraries_def update_users_def split: if_splits option.splits)
qed

lemma Put_success:
  assumes "users_Put enc env logged u0 db = (db', Inr (u', ep))"
  defines "u \<equiv> put_user enc env u0"
  shows "u' = u"
    "has_user (us_ID u) db \<Longrightarrow> db_users db' = map (\<lambda>r. if ur_id r = us_ID u then put_row u r else r) (db_users db)"
    "\<not> has_user (us_ID u) db \<Longrightarrow> db_users db' = db_users db @ [set_values (u\<lparr>ac_CreatedAt := pe_now env\<rparr>) empty_row]"
    "ep = (if ac_NewPassword u \<noteq> [] \<and> has_user (us_ID u) db \<and> us_ID (loggedUser logged) = us_ID u
       then map_option ur_token_epoch (find (\<lambda>r. ur_id r = us_ID u) (db_users db')) else None)"
    "\<not> us_IsAdmin u \<Longrightarrow> has_user (us_ID u) db \<Longrightarrow> db_userLibrary db' = db_userLibrary db"
    "db_libraries db' = db_libraries db"
proof -
  have u: "u = (let u1 = (if us_ID u0 = [] then u0\<lparr>us_ID := pe_newID env\<rparr> else u0); u2 = u1\<lparr>ac_UpdatedAt := pe_now env\<rparr>
      in if ac_NewPassword u2 \<noteq> [] then encryptPassword enc u2 else u2)" by (simp add: u_def put_user_def)
  have row: "(if ac_NewPassword u \<noteq> [] then (set_values u r)\<lparr>ur_token_epoch := ur_token_epoch (set_values u r) + 1\<rparr>
      else set_values u r) = put_row u r" for r by (simp add: put_row_def)
  have own: "us_ID (loggedUser logged) = (case logged of None \<Rightarrow> invalidUserId | Some l \<Rightarrow> us_ID l)"
    by (simp add: loggedUser_def no_user_def split: option.splits)
  note def = assms(1) [unfolded users_Put_def Let_def, unfolded u [unfolded Let_def, symmetric] row, folded own]
  show "u' = u" using def by (auto split: if_splits option.splits)
  show "db_users db' = map (\<lambda>r. if ur_id r = us_ID u then put_row u r else r) (db_users db)" if "has_user (us_ID u) db"
    using def that by (auto simp: assign_libraries_def update_users_def split: if_splits option.splits)
  show "db_users db' = db_users db @ [set_values (u\<lparr>ac_CreatedAt := pe_now env\<rparr>) empty_row]" if "\<not> has_user (us_ID u) db"
    using def that by (auto simp: assign_libraries_def split: if_splits option.splits)
  show "ep = (if ac_NewPassword u \<noteq> [] \<and> has_user (us_ID u) db \<and> us_ID (loggedUser logged) = us_ID u
       then map_option ur_token_epoch (find (\<lambda>r. ur_id r = us_ID u) (db_users db')) else None)"
    using def by (auto split: if_splits option.splits)
  show "db_userLibrary db' = db_userLibrary db" if "\<not> us_IsAdmin u" "has_user (us_ID u) db"
    using def that by (auto simp: update_users_def split: if_splits option.splits)
  show "db_libraries db' = db_libraries db"
    using def by (auto simp: update_users_def assign_libraries_def split: if_splits option.splits)
qed

lemma distinct_map_update:
  assumes "distinct (map f xs)" "\<And>x y. x \<in> set xs \<Longrightarrow> y \<in> set xs \<Longrightarrow> P x \<Longrightarrow> \<not> P y \<Longrightarrow> f (g x) \<noteq> f y"
    and "\<And>x y. x \<in> set xs \<Longrightarrow> y \<in> set xs \<Longrightarrow> P x \<Longrightarrow> P y \<Longrightarrow> x = y"
  shows "distinct (map f (map (\<lambda>x. if P x then g x else x) xs))"
proof -
  have inj: "inj_on f (set xs)" and d: "distinct xs" using assms(1) by (simp_all add: distinct_map)
  have "inj_on (f \<circ> (\<lambda>x. if P x then g x else x)) (set xs)"
  proof (rule inj_onI)
    fix x y
    assume xy: "x \<in> set xs" "y \<in> set xs" and eq: "(f \<circ> (\<lambda>x. if P x then g x else x)) x = (f \<circ> (\<lambda>x. if P x then g x else x)) y"
    show "x = y"
    proof (cases "P x"; cases "P y")
      assume "\<not> P x" "\<not> P y"
      with eq show ?thesis using inj xy by (simp add: inj_onD)
    next
      assume "\<not> P x" "P y"
      with assms(2) [OF xy(2,1)] eq show ?thesis by simp
    qed (use assms(2,3) xy eq in \<open>auto\<close>)
  qed
  then show ?thesis using d by (simp add: distinct_map comp_def)
qed

lemma accounts_okD:
  assumes "accounts_ok db" "r \<in> set (db_users db)" "r' \<in> set (db_users db)"
  shows "ur_id r = ur_id r' \<Longrightarrow> r = r'" "EqualFold (ur_user_name r) (ur_user_name r') \<Longrightarrow> r = r'"
proof -
  have "inj_on ur_id (set (db_users db))" "inj_on (\<lambda>r. ToLower (ur_user_name r)) (set (db_users db))"
    using assms(1) by (simp_all add: accounts_ok_def distinct_map)
  then show "ur_id r = ur_id r' \<Longrightarrow> r = r'" "EqualFold (ur_user_name r) (ur_user_name r') \<Longrightarrow> r = r'"
    using assms(2,3) by (auto simp: EqualFold_def dest: inj_onD)
qed

lemma Put_accounts_ok:
  assumes ok: "accounts_ok db" and free: "name_free (put_user enc env u0) db" and new: "us_ID (put_user enc env u0) \<noteq> []"
    and put: "users_Put enc env logged u0 db = (db', res)"
  shows "accounts_ok db'"
proof -
  let ?u = "put_user enc env u0"
  note id = new
  from Put_rows [OF put] show ?thesis
  proof (elim disjE conjE)
    assume "db_users db' = db_users db"
    with ok show ?thesis by (simp add: accounts_ok_def)
  next
    assume n: "\<not> has_user (us_ID ?u) db" and rows: "db_users db' = db_users db @ [set_values (?u\<lparr>ac_CreatedAt := pe_now env\<rparr>) empty_row]"
    have "ToLower (us_UserName ?u) \<notin> (\<lambda>r. ToLower (ur_user_name r)) ` set (db_users db)"
      using free n unfolding name_free_def has_user_iff by (force simp: EqualFold_def)
    with ok n id show ?thesis by (auto simp: accounts_ok_def rows has_user_iff)
  next
    assume rows: "db_users db' = map (\<lambda>r. if ur_id r = us_ID ?u then put_row ?u r else r) (db_users db)"
    have one: "x = y" if "x \<in> set (db_users db)" "y \<in> set (db_users db)" "ur_id x = us_ID ?u" "ur_id y = us_ID ?u" for x y
      using accounts_okD(1) [OF ok that(1,2)] that(3,4) by simp
    have "distinct (map ur_id (db_users db'))" unfolding rows
      by (rule distinct_map_update) (use ok one in \<open>auto simp: accounts_ok_def\<close>)
    moreover have "distinct (map (\<lambda>r. ToLower (ur_user_name r)) (db_users db'))" unfolding rows
    proof (rule distinct_map_update)
      show "ToLower (ur_user_name (put_row ?u x)) \<noteq> ToLower (ur_user_name y)"
        if "y \<in> set (db_users db)" "ur_id y \<noteq> us_ID ?u" for x y
        using that free by (auto simp: name_free_def EqualFold_def)
    qed (use ok one in \<open>auto simp: accounts_ok_def\<close>)
    moreover have "[] \<notin> ur_id ` set (db_users db')" using ok id by (auto simp: accounts_ok_def rows)
    ultimately show ?thesis by (simp add: accounts_ok_def)
  qed
qed

lemma validateUsernameUnique_free:
  assumes ok: "accounts_ok db" and v: "validateUsernameUnique None u db = None"
  shows "\<forall>r\<in>set (db_users db). EqualFold (ur_user_name r) (us_UserName u) \<longrightarrow> ur_id r = us_ID u"
proof (intro ballI impI)
  fix r
  assume r: "r \<in> set (db_users db)" and eq: "EqualFold (ur_user_name r) (us_UserName u)"
  show "ur_id r = us_ID u"
  proof (cases "find (\<lambda>r. EqualFold (ur_user_name r) (us_UserName u)) (db_users db)")
    case None
    with r eq show ?thesis by (auto simp: find_None_iff)
  next
    case (Some r')
    then have r': "r' \<in> set (db_users db)" "EqualFold (ur_user_name r') (us_UserName u)" by (auto simp: find_Some_iff)
    with accounts_okD(2) [OF ok r r'(1)] eq have "r = r'" by (simp add: EqualFold_def)
    moreover have "ur_id r' = us_ID u" using v Some
      by (auto simp: validateUsernameUnique_def FindByUsername_def queryOne_row_def of_row_def split: if_splits)
    ultimately show ?thesis by simp
  qed
qed

lemma validated_name_free:
  assumes "accounts_ok db" "validateUsernameUnique None u db = None" "validateScrobbleFilter valid u = (u', x)"
  shows "name_free (put_user enc env u') db"
proof -
  have u': "us_ID u' = us_ID u" "us_UserName u' = us_UserName u"
    using assms(3) by (auto simp: validateScrobbleFilter_def Let_def split: if_splits)
  have "us_ID u = [] \<Longrightarrow> r \<in> set (db_users db) \<Longrightarrow> \<not> EqualFold (ur_user_name r) (us_UserName u)" for r
    using validateUsernameUnique_free [OF assms(1,2)] assms(1) by (force simp: accounts_ok_def)
  with validateUsernameUnique_free [OF assms(1,2)] show ?thesis by (auto simp: name_free_def u')
qed

lemma decrypt_simps: "decryptPassword dec u = (u', True) \<Longrightarrow> \<exists>p. dec (ac_Password u) = Some p \<and> u' = u\<lparr>ac_Password := p\<rparr>"
  by (auto simp: decryptPassword_def split: option.splits)

lemma validateScrobbleFilter_same:
  "validateScrobbleFilter valid u = (u', e) \<Longrightarrow> u' = u\<lparr>us_ScrobbleFilter := TrimSpace (us_ScrobbleFilter u)\<rparr>"
  by (auto simp: validateScrobbleFilter_def Let_def split: if_splits)

text \<open>A successful update, step by step.\<close>

lemma Update_success:
  assumes "users_Update enc dec editing valid err env logged i u0 db = (db', Inr ep)"
  defines "usr \<equiv> loggedUser logged"
  obtains u p u2 where "us_IsAdmin usr \<or> us_ID usr = i \<and> editing"
    "u = (if us_IsAdmin usr then u0\<lparr>us_ID := i\<rparr> else u0\<lparr>us_ID := i, us_IsAdmin := False, us_UserName := us_UserName usr\<rparr>)"
    "dec (ac_Password usr) = Some p" "validatePasswordChange u (usr\<lparr>ac_Password := p\<rparr>) = None"
    "validateUsernameUnique err u db = None" "u2 = u\<lparr>us_ScrobbleFilter := TrimSpace (us_ScrobbleFilter u)\<rparr>"
    "validateScrobbleFilter valid u = (u2, None)" "\<exists>u3. users_Put enc env logged u2 db = (db', Inr (u3, ep))"
proof -
  define u where "u = (if us_IsAdmin usr then u0\<lparr>us_ID := i\<rparr> else u0\<lparr>us_ID := i, us_IsAdmin := False, us_UserName := us_UserName usr\<rparr>)"
  have perm: "us_IsAdmin usr \<or> us_ID usr = i \<and> editing"
    using assms(1) by (auto simp: users_Update_def Let_def usr_def split: if_splits)
  have rest: "(case decryptPassword dec usr of (_, False) \<Rightarrow> (db, Inl DecryptFailed)
      | (usr1, True) \<Rightarrow> (case validatePasswordChange u usr1 of Some e \<Rightarrow> (db, Inl e)
         | None \<Rightarrow> (case validateUsernameUnique err u db of Some e \<Rightarrow> (db, Inl e)
            | None \<Rightarrow> (case validateScrobbleFilter valid u of (u2, Some e) \<Rightarrow> (db, Inl e)
               | (u2, None) \<Rightarrow> (case users_Put enc env logged u2 db of (db1, Inl e) \<Rightarrow> (db1, Inl e)
                  | (db1, Inr (_, epoch)) \<Rightarrow> (db1, Inr epoch)))))) = (db', Inr ep)"
    using assms(1) [unfolded users_Update_def Let_def, folded usr_def, folded u_def] perm by (simp split: if_splits)
  obtain usr1 where d: "decryptPassword dec usr = (usr1, True)" using rest by (auto split: prod.splits bool.splits)
  from decrypt_simps [OF d] obtain p where p: "dec (ac_Password usr) = Some p" "usr1 = usr\<lparr>ac_Password := p\<rparr>" by blast
  obtain u2 where f: "validateScrobbleFilter valid u = (u2, None)" and v: "validatePasswordChange u usr1 = None"
    and n: "validateUsernameUnique err u db = None" and put: "\<exists>u3. users_Put enc env logged u2 db = (db', Inr (u3, ep))"
    using rest by (auto simp: d split: option.splits prod.splits sum.splits)
  show thesis by (rule that [OF perm u_def p(1) _ n validateScrobbleFilter_same [OF f] f put]) (use v p(2) in simp)
qed

lemma Update_cases:
  fixes i u0 logged
  defines "usr \<equiv> loggedUser logged"
  defines "u \<equiv> if us_IsAdmin usr then u0\<lparr>us_ID := i\<rparr> else u0\<lparr>us_ID := i\<rparr>\<lparr>us_IsAdmin := False, us_UserName := us_UserName usr\<rparr>"
  shows "fst (users_Update enc dec editing valid err env logged i u0 db) = db
    \<or> (\<exists>u2. validateUsernameUnique err u db = None \<and> validateScrobbleFilter valid u = (u2, None)
        \<and> fst (users_Update enc dec editing valid err env logged i u0 db) = fst (users_Put enc env logged u2 db))"
  unfolding users_Update_def Let_def usr_def [symmetric] u_def [symmetric]
  by (auto split: prod.splits bool.splits option.splits sum.splits)

lemma Save_cases:
  "fst (users_Save enc valid err env logged u db) = db
    \<or> (\<exists>u2. validateUsernameUnique err u db = None \<and> validateScrobbleFilter valid u = (u2, None)
        \<and> fst (users_Save enc valid err env logged u db) = fst (users_Put enc env logged u2 db))"
  unfolding users_Save_def by (auto split: prod.splits option.splits sum.splits)

lemma regular_update_row:
  assumes ok: "accounts_ok db" and reg: "\<not> us_IsAdmin usr" and known: "row \<in> set (db_users db)" "ur_id row = us_ID usr"
    and enc: "\<And>p. enc p \<noteq> Some []"
    and upd: "users_Update enc dec editing valid err env (Some usr) i u0 db = (db', Inr ep)"
  obtains u p where "i = us_ID usr" "editing" "dec (ac_Password usr) = Some p" "has_user i db" "us_ID u = i"
    "us_UserName u = us_UserName usr" "\<not> us_IsAdmin u" "ac_CanUpload u = ac_CanUpload u0" "ac_CanEditTags u = ac_CanEditTags u0"
    "ac_NewPassword u = [] \<longleftrightarrow> ac_NewPassword u0 = []"
    "db_users db' = map (\<lambda>r. if ur_id r = i then put_row u row else r) (db_users db)" "db_userLibrary db' = db_userLibrary db"
    "ac_NewPassword u0 \<noteq> [] \<Longrightarrow> HasPrefix p PasswordAutogenPrefix \<or> ac_CurrentPassword u0 = p \<and> p \<noteq> []"
proof -
  from upd obtain w p w2 where own: "us_ID usr = i" "editing"
    and w: "w = u0\<lparr>us_ID := i, us_IsAdmin := False, us_UserName := us_UserName usr\<rparr>"
    and p: "dec (ac_Password usr) = Some p" "validatePasswordChange w (usr\<lparr>ac_Password := p\<rparr>) = None"
    and w2: "w2 = w\<lparr>us_ScrobbleFilter := TrimSpace (us_ScrobbleFilter w)\<rparr>"
    and put: "\<exists>u3. users_Put enc env (Some usr) w2 db = (db', Inr (u3, ep))"
    by (elim Update_success) (use reg in \<open>auto simp: loggedUser_def\<close>)
  from put obtain u3 where put: "users_Put enc env (Some usr) w2 db = (db', Inr (u3, ep))" by blast
  have i: "i \<noteq> []" using ok known own by (force simp: accounts_ok_def)
  have id: "us_ID (put_user enc env w2) = i" using i by (simp add: w2 w)
  have h: "has_user i db" using known own by (auto simp: has_user_iff)
  have same: "map (\<lambda>r. if ur_id r = i then put_row (put_user enc env w2) r else r) (db_users db)
      = map (\<lambda>r. if ur_id r = i then put_row (put_user enc env w2) row else r) (db_users db)"
    using accounts_okD(1) [OF ok known(1)] known(2) own by (intro map_cong) auto
  show thesis
  proof (rule that [of p "put_user enc env w2"])
    show "db_users db' = map (\<lambda>r. if ur_id r = i then put_row (put_user enc env w2) row else r) (db_users db)"
      using Put_success(2) [OF put] h unfolding id same by simp
    show "db_userLibrary db' = db_userLibrary db"
      using Put_success(5) [OF put] h unfolding id by (simp add: w2 w)
    show "ac_NewPassword (put_user enc env w2) = [] \<longleftrightarrow> ac_NewPassword u0 = []"
      using enc by (auto simp: put_user_def Let_def encryptPassword_def w2 w split: option.splits)
    show "HasPrefix p PasswordAutogenPrefix \<or> ac_CurrentPassword u0 = p \<and> p \<noteq> []" if "ac_NewPassword u0 \<noteq> []"
      using p(2) that reg by (auto simp: validatePasswordChange_def w Let_def split: if_splits)
  qed (use own p h i in \<open>simp_all add: w2 w\<close>)
qed

section \<open>Properties\<close>

text \<open>
  C31: what a regular user can do to accounts. When the REST resource accepts an update by a user who is
  no admin, editing is enabled and it is the user's own account; the other accounts and all library
  assignments stay as they are; the account stays a regular one under the same name; and the password
  changes only if the current password was given, or the old one was generated, in which case every
  token issued before is invalidated by a higher epoch.
\<close>

theorem regular_update_confined:
  assumes "accounts_ok db" "\<not> us_IsAdmin usr" "row \<in> set (db_users db)" "ur_id row = us_ID usr" "\<And>p. enc p \<noteq> Some []"
    and "users_Update enc dec editing valid err env (Some usr) i u0 db = (db', Inr ep)"
  shows "i = us_ID usr \<and> editing \<and> db_userLibrary db' = db_userLibrary db
    \<and> (\<exists>row'. db_users db' = map (\<lambda>r. if ur_id r = i then row' else r) (db_users db)
         \<and> ur_id row' = i \<and> ur_user_name row' = us_UserName usr \<and> \<not> ur_is_admin row'
         \<and> (if ac_NewPassword u0 = [] then ur_password row' = ur_password row \<and> ur_token_epoch row' = ur_token_epoch row
            else ur_token_epoch row' = ur_token_epoch row + 1
              \<and> (\<exists>p. dec (ac_Password usr) = Some p
                   \<and> (HasPrefix p PasswordAutogenPrefix \<or> ac_CurrentPassword u0 = p \<and> p \<noteq> []))))"
proof (rule regular_update_row [OF assms])
  fix u p
  assume "i = us_ID usr" "editing" "dec (ac_Password usr) = Some p" "us_ID u = i"
    "us_UserName u = us_UserName usr" "\<not> us_IsAdmin u" "ac_NewPassword u = [] \<longleftrightarrow> ac_NewPassword u0 = []"
    "db_users db' = map (\<lambda>r. if ur_id r = i then put_row u row else r) (db_users db)" "db_userLibrary db' = db_userLibrary db"
    "ac_NewPassword u0 \<noteq> [] \<Longrightarrow> HasPrefix p PasswordAutogenPrefix \<or> ac_CurrentPassword u0 = p \<and> p \<noteq> []"
  then show ?thesis by (intro conjI exI [of _ "put_row u row"]) simp_all
qed

text \<open>But the rights to upload and to edit tags are taken from the request, also for a regular user.\<close>

lemma regular_user_grants_itself_rights:
  assumes "accounts_ok db" "\<not> us_IsAdmin usr" "row \<in> set (db_users db)" "ur_id row = us_ID usr" "\<And>p. enc p \<noteq> Some []"
    and "users_Update enc dec editing valid err env (Some usr) i (u0\<lparr>ac_CanUpload := True, ac_CanEditTags := True\<rparr>) db = (db', Inr ep)"
  shows "\<exists>row'\<in>set (db_users db'). ur_id row' = us_ID usr \<and> ur_can_upload row' \<and> ur_can_edit_tags row'"
proof (rule regular_update_row [OF assms])
  fix u p
  assume u: "i = us_ID usr" "us_ID u = i" "ac_CanUpload u = ac_CanUpload (u0\<lparr>ac_CanUpload := True, ac_CanEditTags := True\<rparr>)"
    "ac_CanEditTags u = ac_CanEditTags (u0\<lparr>ac_CanUpload := True, ac_CanEditTags := True\<rparr>)"
    and rows: "db_users db' = map (\<lambda>r. if ur_id r = i then put_row u row else r) (db_users db)"
  have "put_row u row \<in> set (db_users db')" using assms(3,4) u(1) by (force simp: rows)
  with u show ?thesis by (intro bexI [of _ "put_row u row"]) simp_all
qed

section \<open>Changing the encryption key\<close>

lemma decryptAll_Some:
  "decryptAllPasswords dec rows = Some ps \<longleftrightarrow>
     (\<forall>r\<in>set rows. dec (ur_password r) \<noteq> None) \<and> ps = map (\<lambda>r. (ur_id r, the (dec (ur_password r)))) rows"
  unfolding decryptAllPasswords_def
  by (induction rows arbitrary: ps) (auto simp: option.map_sel split: option.splits)

lemma reencrypt_all:
  assumes "distinct (map fst ps)" "\<And>p. enc p \<noteq> None"
  shows "db_users (foldl (reencrypt_one enc (\<lambda>_. None)) db ps)
    = map (\<lambda>r. case map_of ps (ur_id r) of Some p \<Rightarrow> r\<lparr>ur_password := the (enc p)\<rparr> | None \<Rightarrow> r) (db_users db)"
  using assms(1)
proof (induction ps arbitrary: db)
  case (Cons p ps)
  obtain i x where p: "p = (i, x)" by (cases p)
  obtain c where c: "enc x = Some c" using assms(2) [of x] by auto
  have "db_users (reencrypt_one enc (\<lambda>_. None) db p) = map (\<lambda>r. if ur_id r = i then r\<lparr>ur_password := c\<rparr> else r) (db_users db)"
    by (simp add: reencrypt_one_def p c update_users_def)
  moreover have "map_of ps i = None" using Cons.prems by (simp add: p map_of_eq_None_iff)
  ultimately show ?case using Cons by (auto simp: p c)
qed simp

text \<open>
  Configuring an encryption key for the first time keeps all passwords. When every stored password
  can be decrypted with the default key, afterwards the new key is in force, its sum is stored, and each
  user's password decrypts with it to what it was; nothing else in the table changes. When one cannot
  be decrypted, nothing changes at all and the default key stays in force.
\<close>

theorem reencryption_keeps_passwords:
  assumes "\<And>k p c. enc k p = Some c \<Longrightarrow> dec k c = Some p" "\<And>k p. enc k p \<noteq> None" "accounts_ok db" "key \<noteq> []"
    and "initPasswordEncryptionKey enc dec keySum None (\<lambda>_. None) None defaultKey key None db = (db', saved, inForce, good)"
  shows "if list_all (\<lambda>r. dec defaultKey (ur_password r) \<noteq> None) (db_users db)
     then good \<and> inForce = key \<and> saved = Some (keySum key)
       \<and> map (\<lambda>r. dec key (ur_password r)) (db_users db') = map (\<lambda>r. dec defaultKey (ur_password r)) (db_users db)
       \<and> map (\<lambda>r. r\<lparr>ur_password := []\<rparr>) (db_users db') = map (\<lambda>r. r\<lparr>ur_password := []\<rparr>) (db_users db)
     else \<not> good \<and> inForce = defaultKey \<and> saved = None \<and> db' = db"
proof (cases "list_all (\<lambda>r. dec defaultKey (ur_password r) \<noteq> None) (db_users db)")
  case True
  let ?ps = "map (\<lambda>r. (ur_id r, the (dec defaultKey (ur_password r)))) (db_users db)"
  have d: "decryptAllPasswords (dec defaultKey) (db_users db) = Some ?ps"
    using True by (simp add: decryptAll_Some list_all_iff)
  have res: "good" "inForce = key" "saved = Some (keySum key)" "db' = foldl (reencrypt_one (enc key) (\<lambda>_. None)) db ?ps"
    using assms(4,5) d by (auto simp: initPasswordEncryptionKey_def Let_def)
  have dist: "distinct (map fst ?ps)" using assms(3) by (simp add: accounts_ok_def comp_def)
  have rows: "db_users db' = map (\<lambda>r. case map_of ?ps (ur_id r) of Some p \<Rightarrow> r\<lparr>ur_password := the (enc key p)\<rparr> | None \<Rightarrow> r) (db_users db)"
    unfolding res(4) by (rule reencrypt_all [OF dist assms(2)])
  have one: "map_of ?ps (ur_id r) = Some (the (dec defaultKey (ur_password r)))" if "r \<in> set (db_users db)" for r
    using that dist by (intro map_of_is_SomeI) auto
  have pw: "dec key (the (enc key (the (dec defaultKey (ur_password r))))) = dec defaultKey (ur_password r)" if r: "r \<in> set (db_users db)" for r
  proof -
    obtain p where p: "dec defaultKey (ur_password r) = Some p" using True r by (auto simp: list_all_iff)
    obtain c where "enc key p = Some c" using assms(2) [of key p] by auto
    with assms(1) p show ?thesis by simp
  qed
  have "map (\<lambda>r. dec key (ur_password r)) (db_users db') = map (\<lambda>r. dec defaultKey (ur_password r)) (db_users db)"
    unfolding rows by (simp add: one pw)
  moreover have "map (\<lambda>r. r\<lparr>ur_password := []\<rparr>) (db_users db') = map (\<lambda>r. r\<lparr>ur_password := []\<rparr>) (db_users db)"
    unfolding rows by (simp add: one)
  ultimately show ?thesis using True res by simp
next
  case False
  then have "decryptAllPasswords (dec defaultKey) (db_users db) = None"
    by (cases "decryptAllPasswords (dec defaultKey) (db_users db)") (auto simp: decryptAll_Some list_all_iff)
  with assms(4,5) False show ?thesis by (auto simp: initPasswordEncryptionKey_def)
qed

section \<open>Witnesses\<close>

text \<open>A cipher without secrecy: the key in front of the text.\<close>

definition plain_enc :: "string \<Rightarrow> string \<Rightarrow> string option" where
  "plain_enc k p = Some (k @ CHR '':'' # p)"

definition plain_dec :: "string \<Rightarrow> string \<Rightarrow> string option" where
  "plain_dec k c = (if HasPrefix c (k @ '':'') then Some (drop (Suc (length k)) c) else None)"

lemma plain_cipher: "plain_enc k p = Some c \<Longrightarrow> plain_dec k c = Some p" "plain_enc k p \<noteq> None" "plain_enc k p \<noteq> Some []"
  by (auto simp: plain_enc_def plain_dec_def HasPrefix_def)

definition demo_row :: user_row where
  "demo_row = empty_row\<lparr>ur_id := ''u1'', ur_user_name := ''bob'', ur_password := ''k:secret''\<rparr>"

definition demo_db :: users_db where
  "demo_db = \<lparr>db_users = [demo_row], db_userLibrary = [(''u1'', 1)], db_libraries = [(1, True)]\<rparr>"

definition demo_user :: account where
  "demo_user = of_row demo_db demo_row"

definition demo_put_env :: put_env where
  "demo_put_env = \<lparr>pe_newID = ''new'', pe_now = 7, pe_updateErr = None, pe_insertErr = None, pe_librariesErr = None\<rparr>"

definition demo_change :: account where
  "demo_change = demo_user\<lparr>ac_NewPassword := ''better'', ac_CurrentPassword := ''secret''\<rparr>"

lemma demo_accounts_ok: "accounts_ok demo_db"
  by (simp add: accounts_ok_def demo_db_def demo_row_def)

lemma demo_fold: "EqualFold ''bob'' ''bob''" by simp

lemma demo_update:
  "\<exists>db'. users_Update (plain_enc ''k'') (plain_dec ''k'') True (\<lambda>_. True) None demo_put_env (Some demo_user) ''u1'' demo_change demo_db = (db', Inr (Some 1))
     \<and> map ur_user_name (db_users db') = [''bob'']"
  by (simp add: users_Update_def Let_def loggedUser_def demo_user_def of_row_def demo_row_def demo_db_def empty_row_def demo_change_def
      decryptPassword_def plain_dec_def plain_enc_def HasPrefix_def validatePasswordChange_def PasswordAutogenPrefix_def
      validateUsernameUnique_def FindByUsername_def queryOne_row_def validateScrobbleFilter_def TrimSpace_def
      users_Put_def encryptPassword_def has_user_def name_taken_def demo_put_env_def update_users_def set_values_def)

theorem regular_update_confined_witness:
  "\<exists>db' row'. fst (users_Update (plain_enc ''k'') (plain_dec ''k'') True (\<lambda>_. True) None demo_put_env (Some demo_user) ''u1'' demo_change demo_db) = db'
     \<and> db_users db' = [row'] \<and> ur_token_epoch row' = 1 \<and> \<not> ur_is_admin row'"
proof -
  obtain db' where db': "users_Update (plain_enc ''k'') (plain_dec ''k'') True (\<lambda>_. True) None demo_put_env (Some demo_user) ''u1'' demo_change demo_db
      = (db', Inr (Some 1))" using demo_update by blast
  have "\<not> us_IsAdmin demo_user" "demo_row \<in> set (db_users demo_db)" "ur_id demo_row = us_ID demo_user"
    by (simp_all add: demo_user_def of_row_def demo_db_def demo_row_def empty_row_def)
  from regular_update_confined [OF demo_accounts_ok this plain_cipher(3) db'] db' show ?thesis
    by (auto simp: demo_db_def demo_row_def demo_change_def empty_row_def)
qed

theorem reencryption_keeps_passwords_witness:
  "let r = initPasswordEncryptionKey plain_enc plain_dec (\<lambda>k. k) None (\<lambda>_. None) None ''k'' ''new'' None demo_db
   in map (\<lambda>r. plain_dec ''new'' (ur_password r)) (db_users (fst r)) = [Some ''secret'']"
proof -
  obtain db' saved inForce good where r: "initPasswordEncryptionKey plain_enc plain_dec (\<lambda>k. k) None (\<lambda>_. None) None ''k'' ''new'' None demo_db
      = (db', saved, inForce, good)" by (metis prod_cases4)
  have d: "plain_dec ''k'' ''k:secret'' = Some ''secret''" by (simp add: plain_dec_def HasPrefix_def)
  show ?thesis
    using reencryption_keeps_passwords [OF plain_cipher(1,2) demo_accounts_ok _ r] unfolding r
    by (simp add: demo_db_def demo_row_def d)
qed

end
