(* ===== verification/ServerAuth.thy ===== *)
theory ServerAuth
  imports Users
begin

text \<open>
  Logging in to the server and authenticating requests of its native API (\<open>server/auth.go\<close>). A request
  is what the handlers read of it. Third-party code is arguments: the JWT codec, the title casing of
  \<open>x/text\<close>. The IP parsing of package \<open>net\<close> is an argument of three functions too, since only its
  answers matter here.
\<close>

record net_ops =
  no_validIP :: "string \<Rightarrow> bool"
  no_splitHost :: "string \<Rightarrow> string"
  no_contains :: "string \<Rightarrow> string \<Rightarrow> bool option"
  no_cidrOk :: "string \<Rightarrow> bool"

record server_config =
  sc_TrustedSources :: string
  sc_UserHeader :: string
  sc_AutoLogin :: string
  sc_Address :: string
  sc_SessionTimeout :: duration

text \<open>
  \<open>rq_jwt\<close> is the token that the verifier put into the context, if it verified; \<open>rq_body\<close> the decoded
  JSON object, if it could be decoded.
\<close>

record http_request =
  rq_header :: "string \<Rightarrow> string"
  rq_jwt :: "claim_map option"
  rq_proxyIP :: "string option"
  rq_internal :: "string option"
  rq_body :: "(string \<rightharpoonup> string) option"

section \<open>Who sends the request\<close>

definition tokenFromHeader :: "http_request \<Rightarrow> string" where
  "tokenFromHeader r =
     (let bearer = rq_header r ''X-ND-Authorization''
      in if length bearer > 7 \<and> EqualFold (take 6 bearer) ''BEARER'' then drop 7 bearer else [])"

definition UsernameFromToken :: "http_request \<Rightarrow> string" where
  "UsernameFromToken r = (case rq_jwt r of None \<Rightarrow> [] | Some m \<Rightarrow> gg_V [] (get_str m ''sub''))"

text \<open>\<open>no_contains cidr ip\<close> is \<open>None\<close> when the CIDR does not parse.\<close>

definition validateIPAgainstList :: "net_ops \<Rightarrow> string \<Rightarrow> string \<Rightarrow> string \<Rightarrow> bool" where
  "validateIPAgainstList net address ip0 comaSeparatedList =
     (if comaSeparatedList = [] \<or> ip0 = [] then False
      else (let cidrs = Split1 (CHR '','') comaSeparatedList
            in if ip0 = ''@'' \<and> HasPrefix address ''unix:'' then List.member cidrs ''@''
               else (let ip = (if no_validIP net ip0 then ip0 else no_splitHost net ip0)
                     in if ip = [] then False
                        else if \<not> no_cidrOk net (ip @ ''/32'') then False
                        else list_ex (\<lambda>cidr. no_contains net cidr ip = Some True) cidrs)))"

definition UsernameFromExtAuthHeader :: "net_ops \<Rightarrow> server_config \<Rightarrow> http_request \<Rightarrow> string" where
  "UsernameFromExtAuthHeader net cf r =
     (if sc_TrustedSources cf = [] then []
      else (case rq_proxyIP r of
              None \<Rightarrow> []
            | Some ip \<Rightarrow>
                (let username = rq_header r (sc_UserHeader cf)
                 in if username = [] then []
                    else if \<not> validateIPAgainstList net (sc_Address cf) ip (sc_TrustedSources cf) then []
                    else username)))"

definition InternalAuth :: "http_request \<Rightarrow> string" where
  "InternalAuth r = gg_V [] (rq_internal r)"

definition UsernameFromConfig :: "server_config \<Rightarrow> http_request \<Rightarrow> string" where
  "UsernameFromConfig cf r = sc_AutoLogin cf"

fun first_username :: "(http_request \<Rightarrow> string) list \<Rightarrow> http_request \<Rightarrow> string" where
  "first_username [] r = []"
| "first_username (f # fs) r = (if f r \<noteq> [] then f r else first_username fs r)"

datatype auth_failure = ErrUnauthenticated | UserLookup repo_error

definition contextWithUser :: "string option \<Rightarrow> string \<Rightarrow> users_db \<Rightarrow> auth_failure + account" where
  "contextWithUser err username db =
     (case FindByUsername err username db of Inl e \<Rightarrow> Inl (UserLookup e) | Inr u \<Rightarrow> Inr u)"

definition authenticateRequest ::
  "string option \<Rightarrow> (http_request \<Rightarrow> string) list \<Rightarrow> http_request \<Rightarrow> users_db \<Rightarrow> auth_failure + account" where
  "authenticateRequest err fns r db =
     (let username = first_username fns r
      in if username = [] then Inl ErrUnauthenticated else contextWithUser err username db)"

definition AudienceNative :: string where "AudienceNative = ''native''"

definition tokenAllowed :: "http_request \<Rightarrow> account \<Rightarrow> bool" where
  "tokenAllowed r usr =
     (case rq_jwt r of
        None \<Rightarrow> True
      | Some m \<Rightarrow>
          (let c = ClaimsFromToken m
           in if \<not> EqualFold (cl_Subject c) (us_UserName usr) then True
              else CheckClaims c (user.truncate usr) AudienceNative = None))"

text \<open>The user the next handler runs as; \<open>None\<close> is the answer 401.\<close>

definition Authenticator :: "net_ops \<Rightarrow> server_config \<Rightarrow> string option \<Rightarrow> http_request \<Rightarrow> users_db \<Rightarrow> account option" where
  "Authenticator net cf err r db =
     (case authenticateRequest err [UsernameFromConfig cf, UsernameFromToken, UsernameFromExtAuthHeader net cf] r db of
        Inl _ \<Rightarrow> None
      | Inr usr \<Rightarrow> if tokenAllowed r usr then Some usr else None)"

text \<open>The refreshed token that \<open>JWTRefresher\<close> adds to the answer, with the epoch the handler reported.\<close>

definition JWTRefresher :: "'tok encoder \<Rightarrow> time \<Rightarrow> duration \<Rightarrow> http_request \<Rightarrow> int option \<Rightarrow> 'tok option" where
  "JWTRefresher encode now timeout r epoch =
     (case rq_jwt r of
        None \<Rightarrow> None
      | Some m \<Rightarrow>
          (let c = ClaimsFromToken m;
               c1 = (case epoch of Some e \<Rightarrow> if e \<ge> 0 then c\<lparr>cl_Epoch := e\<rparr> else c | None \<Rightarrow> c)
           in case TouchClaims encode now timeout c1 of Inl _ \<Rightarrow> None | Inr tok \<Rightarrow> Some tok))"

section \<open>Logging in\<close>

record login_env =
  le_now :: time
  le_put :: put_env
  le_findErr :: "string option"
  le_countErr :: "string option"
  le_loginAtErr :: "string option"

datatype 'tok login_response =
  Unprocessable | BadRequest string | Forbidden | InternalServerError | Unauthorized | LoggedIn account 'tok

definition getCredentialsFromBody :: "http_request \<Rightarrow> (string \<times> string) option" where
  "getCredentialsFromBody r =
     (case rq_body r of None \<Rightarrow> None | Some m \<Rightarrow> Some (map_get [] m ''username'', map_get [] m ''password''))"

text \<open>\<open>Inr None\<close>: no such user, or a wrong password.\<close>

definition validateLogin ::
  "(string \<Rightarrow> string option) \<Rightarrow> login_env \<Rightarrow> string \<Rightarrow> string \<Rightarrow> users_db \<Rightarrow> users_db \<times> (repo_error + account option)" where
  "validateLogin dec env userName password db =
     (case FindByUsernameWithPassword dec (le_findErr env) userName db of
        Inl NotFound \<Rightarrow> (db, Inr None)
      | Inl e \<Rightarrow> (db, Inl e)
      | Inr u \<Rightarrow>
          (if ac_Password u \<noteq> password then (db, Inr None)
           else (fst (UpdateLastLoginAt (le_loginAtErr env) (le_now env) (us_ID u) db), Inr (Some u))))"

definition doLogin ::
  "'tok encoder \<Rightarrow> (string \<Rightarrow> string option) \<Rightarrow> server_config \<Rightarrow> login_env \<Rightarrow> string \<Rightarrow> string \<Rightarrow> users_db
   \<Rightarrow> users_db \<times> 'tok login_response" where
  "doLogin encode dec cf env username password db =
     (case validateLogin dec env username password db of
        (db1, Inl _) \<Rightarrow> (db1, InternalServerError)
      | (db1, Inr None) \<Rightarrow> (db1, Unauthorized)
      | (db1, Inr (Some u)) \<Rightarrow>
          (case CreateToken encode (le_now env) (sc_SessionTimeout cf) (user.truncate u) of
             Inl _ \<Rightarrow> (db1, InternalServerError)
           | Inr tok \<Rightarrow> (db1, LoggedIn u tok)))"

definition login ::
  "'tok encoder \<Rightarrow> (string \<Rightarrow> string option) \<Rightarrow> server_config \<Rightarrow> login_env \<Rightarrow> http_request \<Rightarrow> users_db
   \<Rightarrow> users_db \<times> 'tok login_response" where
  "login encode dec cf env r db =
     (case getCredentialsFromBody r of
        None \<Rightarrow> (db, Unprocessable)
      | Some (username, password) \<Rightarrow> doLogin encode dec cf env username password db)"

definition new_account :: "string \<Rightarrow> string \<Rightarrow> string \<Rightarrow> string \<Rightarrow> bool \<Rightarrow> bool \<Rightarrow> time option \<Rightarrow> account" where
  "new_account i username name password isAdmin rights lastLogin =
     no_user\<lparr>us_ID := i, us_UserName := username, ac_Name := name, ac_NewPassword := password, us_IsAdmin := isAdmin,
       ac_CanUpload := rights, ac_CanEditTags := rights, ac_LastLoginAt := lastLogin\<rparr>"

definition checkInitialSetup :: "login_env \<Rightarrow> users_db \<Rightarrow> bool" where
  "checkInitialSetup env db = (case users_CountAll (le_countErr env) db of Inl _ \<Rightarrow> False | Inr c \<Rightarrow> c = 0)"

definition registerUserHandler ::
  "'tok encoder \<Rightarrow> (string \<Rightarrow> string option) \<Rightarrow> (string \<Rightarrow> string option) \<Rightarrow> (string \<Rightarrow> string) \<Rightarrow> server_config \<Rightarrow> login_env \<Rightarrow> string
   \<Rightarrow> http_request \<Rightarrow> users_db \<Rightarrow> users_db \<times> 'tok login_response" where
  "registerUserHandler encode enc dec title cf env newID r db =
     (case getCredentialsFromBody r of
        None \<Rightarrow> (db, Unprocessable)
      | Some (username, password) \<Rightarrow>
          (case users_CountAll (le_countErr env) db of
             Inl _ \<Rightarrow> (db, BadRequest ''Please create the initial admin account first'')
           | Inr c \<Rightarrow>
               (if c = 0 then (db, BadRequest ''Please create the initial admin account first'')
                else (case FindByUsername (le_findErr env) username db of
                        Inr _ \<Rightarrow> (db, BadRequest ''Username already exists'')
                      | Inl _ \<Rightarrow>
                          (case users_Put enc (le_put env) None
                                  (new_account newID username (title username) password False True (Some (le_now env))) db of
                             (db1, Inl _) \<Rightarrow> (db1, InternalServerError)
                           | (db1, Inr _) \<Rightarrow> doLogin encode dec cf env username password db1)))))"

definition createAdminUser ::
  "(string \<Rightarrow> string option) \<Rightarrow> (string \<Rightarrow> string) \<Rightarrow> login_env \<Rightarrow> string \<Rightarrow> string \<Rightarrow> string \<Rightarrow> users_db \<Rightarrow> users_db \<times> bool" where
  "createAdminUser enc title env newID username password db =
     (case users_Put enc (le_put env) None
             (new_account newID username (title username) password True True (Some (le_now env))) db of
        (db1, Inl _) \<Rightarrow> (db1, False)
      | (db1, Inr _) \<Rightarrow> (db1, True))"

definition createAdmin ::
  "'tok encoder \<Rightarrow> (string \<Rightarrow> string option) \<Rightarrow> (string \<Rightarrow> string option) \<Rightarrow> (string \<Rightarrow> string) \<Rightarrow> server_config \<Rightarrow> login_env \<Rightarrow> string
   \<Rightarrow> http_request \<Rightarrow> users_db \<Rightarrow> users_db \<times> 'tok login_response" where
  "createAdmin encode enc dec title cf env newID r db =
     (case getCredentialsFromBody r of
        None \<Rightarrow> (db, Unprocessable)
      | Some (username, password) \<Rightarrow>
          (case users_CountAll (le_countErr env) db of
             Inl _ \<Rightarrow> (db, InternalServerError)
           | Inr c \<Rightarrow>
               (if c > 0 then (db, Forbidden)
                else (case createAdminUser enc title env newID username password db of
                        (db1, False) \<Rightarrow> (db1, InternalServerError)
                      | (db1, True) \<Rightarrow> doLogin encode dec cf env username password db1))))"

text \<open>The account behind a trusted header, created on first sight; \<open>None\<close> when there is none.\<close>

definition handleLoginFromHeaders ::
  "(string \<Rightarrow> string option) \<Rightarrow> (string \<Rightarrow> string option) \<Rightarrow> net_ops \<Rightarrow> server_config \<Rightarrow> login_env \<Rightarrow> string \<Rightarrow> string
   \<Rightarrow> http_request \<Rightarrow> users_db \<Rightarrow> users_db \<times> account option" where
  "handleLoginFromHeaders enc dec net cf env newID newPassword r db =
     (let username = (if UsernameFromConfig cf r \<noteq> [] then UsernameFromConfig cf r else UsernameFromExtAuthHeader net cf r)
      in if username = [] then (db, None)
         else (let found = FindByUsernameWithPassword dec (le_findErr env) username db;
                   isFirstUser = (case users_CountAll (le_countErr env) db of Inl _ \<Rightarrow> True | Inr c \<Rightarrow> c = 0);
                   (db1, user) =
                     (case found of
                        Inr u \<Rightarrow> (db, Some u)
                      | Inl _ \<Rightarrow>
                          (case users_Put enc (le_put env) None
                                  (new_account newID username username (PasswordAutogenPrefix @ newPassword) isFirstUser False None) db of
                             (db1, Inl _) \<Rightarrow> (db1, None)
                           | (db1, Inr _) \<Rightarrow>
                               (case FindByUsernameWithPassword dec (le_findErr env) username db1 of
                                  Inl _ \<Rightarrow> (db1, None)
                                | Inr u \<Rightarrow> (db1, Some u))))
               in case user of
                    None \<Rightarrow> (db1, None)
                  | Some u \<Rightarrow>
                      (case UpdateLastLoginAt (le_loginAtErr env) (le_now env) (us_ID u) db1 of
                         (db2, Some _) \<Rightarrow> (db2, None)
                       | (db2, None) \<Rightarrow> (db2, Some u))))"

section \<open>Histories of the accounts\<close>

text \<open>
  Everything that changes accounts. The lookups that guard the uniqueness of names do not fail here,
  and IDs of new accounts are new.
\<close>

inductive users_step :: "users_db \<Rightarrow> users_db \<Rightarrow> bool" where
  us_save: "pe_newID env \<noteq> [] \<Longrightarrow> users_step db (fst (users_Save enc valid None env logged u db))"
| us_update: "pe_newID env \<noteq> [] \<Longrightarrow> i \<noteq> [] \<Longrightarrow> users_step db (fst (users_Update enc dec editing valid None env logged i u db))"
| us_delete: "users_step db (fst (users_Delete err logged i db))"
| us_access: "users_step db (fst (UpdateLastAccessAt err now i db))"
| us_libraries: "users_step db (fst (SetUserLibraries e1 e2 i libs db))"
| us_login: "users_step db (fst (login (encode :: string encoder) dec cf env r db))"
| us_register: "newID \<noteq> [] \<Longrightarrow> newID \<notin> ur_id ` set (db_users db) \<Longrightarrow> le_findErr env = None \<Longrightarrow>
     users_step db (fst (registerUserHandler (encode :: string encoder) enc dec title cf env newID r db))"
| us_createAdmin: "newID \<noteq> [] \<Longrightarrow> users_step db (fst (createAdmin (encode :: string encoder) enc dec title cf env newID r db))"
| us_headers: "newID \<noteq> [] \<Longrightarrow> newID \<notin> ur_id ` set (db_users db) \<Longrightarrow> le_findErr env = None \<Longrightarrow>
     users_step db (fst (handleLoginFromHeaders enc dec net cf env newID pw r db))"

lemma accounts_ok_cong: "db_users db' = db_users db \<Longrightarrow> accounts_ok db' = accounts_ok db"
  by (simp add: accounts_ok_def)

lemma accounts_ok_update:
  "(\<And>r. ur_id (f r) = ur_id r \<and> ur_user_name (f r) = ur_user_name r) \<Longrightarrow> accounts_ok (update_users P f db) = accounts_ok db"
proof -
  assume f: "\<And>r. ur_id (f r) = ur_id r \<and> ur_user_name (f r) = ur_user_name r"
  have "map ur_id (map (\<lambda>r. if P r then f r else r) rows) = map ur_id rows"
    "map (\<lambda>r. ToLower (ur_user_name r)) (map (\<lambda>r. if P r then f r else r) rows) = map (\<lambda>r. ToLower (ur_user_name r)) rows" for rows
    by (induction rows) (simp_all add: f)
  then show ?thesis by (simp add: accounts_ok_def update_users_def del: map_map flip: set_map)
qed

lemma last_login_ok: "accounts_ok (fst (UpdateLastLoginAt err now i db)) = accounts_ok db"
  "accounts_ok (fst (UpdateLastAccessAt err now i db)) = accounts_ok db"
  by (simp_all add: UpdateLastLoginAt_def UpdateLastAccessAt_def accounts_ok_update split: option.splits)

text \<open>At most the time of a last login was recorded.\<close>

definition touched :: "users_db \<Rightarrow> users_db \<Rightarrow> bool" where
  "touched db db' \<longleftrightarrow> db' = db \<or> (\<exists>err now i. db' = fst (UpdateLastLoginAt err now i db))"

lemma touched_same [simp]: "touched db db" "touched db (fst (UpdateLastLoginAt err now i db))"
  by (auto simp: touched_def)

lemma touched_ok: "touched db db' \<Longrightarrow> accounts_ok db' = accounts_ok db"
  by (auto simp: touched_def last_login_ok)

lemma doLogin_touched: "touched db (fst (doLogin encode dec cf env username password db))"
  by (auto simp: doLogin_def validateLogin_def split: prod.splits sum.splits option.splits repo_error.splits if_splits)

lemma login_touched: "touched db (fst (login encode dec cf env r db))"
  by (auto simp: login_def doLogin_touched split: option.splits)

lemma register_cases:
  fixes db encode enc dec title cf env newID r
  defines "res \<equiv> registerUserHandler encode enc dec title cf env newID r db"
  obtains "touched db (fst res)" "\<And>u tok. snd res \<noteq> LoggedIn u tok"
  | n pw e where "db_users db \<noteq> []" "FindByUsername (le_findErr env) n db = Inl e"
      "touched (fst (users_Put enc (le_put env) None (new_account newID n (title n) pw False True (Some (le_now env))) db)) (fst res)"
proof (cases "getCredentialsFromBody r")
  case None
  then show thesis using that(1) by (simp add: res_def registerUserHandler_def)
next
  case (Some x)
  obtain n pw where x: "x = (n, pw)" by (cases x)
  show thesis
  proof (cases "users_CountAll (le_countErr env) db")
    case (Inl e)
    then show thesis using that(1) Some x by (simp add: res_def registerUserHandler_def)
  next
    case (Inr c)
    show thesis
    proof (cases "c = 0")
      case True
      then show thesis using that(1) Some x Inr by (simp add: res_def registerUserHandler_def)
    next
      case c: False
      then have ne: "db_users db \<noteq> []" using Inr by (auto simp: users_CountAll_def split: option.splits)
      show thesis
      proof (cases "FindByUsername (le_findErr env) n db")
        case f: (Inl e)
        obtain db1 y where p: "users_Put enc (le_put env) None (new_account newID n (title n) pw False True (Some (le_now env))) db = (db1, y)"
          by fastforce
        have "touched db1 (fst res)" using Some x Inr c f p doLogin_touched [of db1 encode dec cf env n pw]
          by (cases y) (simp_all add: res_def registerUserHandler_def)
        then show thesis using that(2) [OF ne f, of pw] p by simp
      next
        case (Inr u)
        then show thesis using that(1) Some x c \<open>users_CountAll (le_countErr env) db = Inr c\<close> by (simp add: res_def registerUserHandler_def)
      qed
    qed
  qed
qed

lemma createAdmin_cases:
  fixes db encode enc dec title cf env newID r
  defines "res \<equiv> createAdmin encode enc dec title cf env newID r db"
  obtains "fst res = db" "\<And>u tok. snd res \<noteq> LoggedIn u tok"
  | n pw where "db_users db = []"
      "touched (fst (users_Put enc (le_put env) None (new_account newID n (title n) pw True True (Some (le_now env))) db)) (fst res)"
proof (cases "getCredentialsFromBody r")
  case None
  then show thesis using that(1) by (simp add: res_def createAdmin_def)
next
  case (Some x)
  obtain n pw where x: "x = (n, pw)" by (cases x)
  show thesis
  proof (cases "users_CountAll (le_countErr env) db")
    case (Inl e)
    then show thesis using that(1) Some x by (simp add: res_def createAdmin_def)
  next
    case (Inr c)
    show thesis
    proof (cases "c = 0")
      case False
      then show thesis using that(1) Some x Inr by (simp add: res_def createAdmin_def)
    next
      case c: True
      then have ne: "db_users db = []" using Inr by (auto simp: users_CountAll_def split: option.splits)
      obtain db1 y where p: "users_Put enc (le_put env) None (new_account newID n (title n) pw True True (Some (le_now env))) db = (db1, y)"
        by fastforce
      have "touched db1 (fst res)" using Some x Inr c p doLogin_touched [of db1 encode dec cf env n pw]
        by (cases y) (simp_all add: res_def createAdmin_def createAdminUser_def)
      then show thesis using that(2) [OF ne, of n pw] p by simp
    qed
  qed
qed

lemma headers_cases:
  fixes db enc dec net cf env newID pw r
  defines "res \<equiv> handleLoginFromHeaders enc dec net cf env newID pw r db"
  obtains "touched db (fst res)"
  | n first e where "FindByUsername (le_findErr env) n db = Inl e" "first \<longleftrightarrow> le_countErr env \<noteq> None \<or> db_users db = []"
      "touched (fst (users_Put enc (le_put env) None (new_account newID n n (PasswordAutogenPrefix @ pw) first False None) db)) (fst res)"
proof -
  let ?n = "if UsernameFromConfig cf r \<noteq> [] then UsernameFromConfig cf r else UsernameFromExtAuthHeader net cf r"
  let ?first = "case users_CountAll (le_countErr env) db of Inl _ \<Rightarrow> True | Inr c \<Rightarrow> c = 0"
  have first: "?first \<longleftrightarrow> le_countErr env \<noteq> None \<or> db_users db = []" by (auto simp: users_CountAll_def split: option.splits)
  show thesis
  proof (cases "?n = []")
    case True
    then show thesis using that(1) by (simp add: res_def handleLoginFromHeaders_def Let_def split: if_splits)
  next
    case n: False
    define n where "n = ?n"
    have res: "res = (case (case FindByUsernameWithPassword dec (le_findErr env) n db of
                        Inr u \<Rightarrow> (db, Some u)
                      | Inl _ \<Rightarrow> (case users_Put enc (le_put env) None (new_account newID n n (PasswordAutogenPrefix @ pw) ?first False None) db of
                             (db1, Inl _) \<Rightarrow> (db1, None)
                           | (db1, Inr _) \<Rightarrow> (case FindByUsernameWithPassword dec (le_findErr env) n db1 of
                                  Inl _ \<Rightarrow> (db1, None) | Inr u \<Rightarrow> (db1, Some u))))
               of (db1, user) \<Rightarrow> (case user of None \<Rightarrow> (db1, None)
                  | Some u \<Rightarrow> (case UpdateLastLoginAt (le_loginAtErr env) (le_now env) (us_ID u) db1 of
                         (db2, Some _) \<Rightarrow> (db2, None) | (db2, None) \<Rightarrow> (db2, Some u))))"
      using n unfolding res_def handleLoginFromHeaders_def Let_def n_def by simp
    have upd: "touched db1 (fst (case UpdateLastLoginAt a b c db1 of (db2, Some _) \<Rightarrow> (db2, None) | (db2, None) \<Rightarrow> (db2, Some u)))" for a b c db1 and u :: account
      using touched_same(2) [of db1 a b c] by (cases "UpdateLastLoginAt a b c db1") (simp split: option.splits)
    show thesis
    proof (cases "FindByUsernameWithPassword dec (le_findErr env) n db")
      case (Inr u)
      show thesis by (rule that(1)) (simp add: res Inr upd)
    next
      case (Inl e)
      then have f: "FindByUsername (le_findErr env) n db = Inl e" by (simp add: FindByUsernameWithPassword_def split: sum.splits)
      obtain db1 y where p: "users_Put enc (le_put env) None (new_account newID n n (PasswordAutogenPrefix @ pw) ?first False None) db = (db1, y)"
        by fastforce
      have "touched db1 (fst res)" using Inl p upd by (simp add: res split: sum.splits)
      then show thesis using that(2) [OF f first] p by simp
    qed
  qed
qed

lemma unknown_name_free:
  assumes "FindByUsername None username db = Inl e" "us_UserName u = username"
  shows "name_free u db"
  using assms by (auto simp: FindByUsername_def queryOne_row_def name_free_def find_None_iff split: option.splits)

lemma Put_new_ok:
  assumes "accounts_ok db" "users_Put enc env logged (new_account i n name pw adm rights t) db = (db', res)" "i \<noteq> []"
    and "db_users db = [] \<or> FindByUsername None n db = Inl e"
  shows "accounts_ok db'"
proof -
  let ?u = "new_account i n name pw adm rights t"
  have id: "us_ID ?u = i" "us_UserName ?u = n" by (simp_all add: new_account_def)
  have "name_free (put_user enc env ?u) db"
    using assms(4) unknown_name_free [of n db e "put_user enc env ?u"] id by (auto simp: name_free_def)
  moreover have "us_ID (put_user enc env ?u) \<noteq> []" using assms(3) id by simp
  ultimately show ?thesis using Put_accounts_ok [OF assms(1) _ _ assms(2)] by blast
qed

lemma validated_Put_ok:
  assumes "accounts_ok db" "validateUsernameUnique None u db = None" "validateScrobbleFilter valid u = (u2, None)" "pe_newID env \<noteq> []"
  shows "accounts_ok (fst (users_Put enc env logged u2 db))"
proof -
  obtain db' res where p: "users_Put enc env logged u2 db = (db', res)" by fastforce
  show ?thesis
    using Put_accounts_ok [OF assms(1) validated_name_free [OF assms(1-3)] _ p] assms(4) p by simp
qed

lemma users_step_ok: "users_step db db' \<Longrightarrow> accounts_ok db \<Longrightarrow> accounts_ok db'"
proof (induction rule: users_step.induct)
  case (us_save env db enc valid logged u)
  from Save_cases [of enc valid None env logged u db] us_save show ?case by (auto simp: validated_Put_ok)
next
  case (us_update env i db enc dec editing valid logged u)
  from Update_cases [of enc dec editing valid None env logged i u db] us_update show ?case
    by (auto simp: validated_Put_ok)
next
  case (us_delete db err logged i)
  have "accounts_ok (db\<lparr>db_users := filter (\<lambda>r. ur_id r \<noteq> i) (db_users db), db_userLibrary := x\<rparr>)" for x
    using us_delete by (auto simp: accounts_ok_def distinct_map_filter)
  with us_delete show ?case by (simp add: users_Delete_def split: option.splits)
next
  case (us_access db err now i)
  then show ?case by (simp add: last_login_ok)
next
  case (us_libraries db e1 e2 i libs)
  then show ?case by (auto simp: SetUserLibraries_def Let_def accounts_ok_def split: option.splits)
next
  case (us_login db encode dec cf env r)
  with touched_ok [OF login_touched] show ?case by blast
next
  case (us_register newID db env encode enc dec title cf r)
  show ?case
  proof (rule register_cases [of db encode enc dec title cf env newID r])
    fix n pw e
    let ?p = "users_Put enc (le_put env) None (new_account newID n (title n) pw False True (Some (le_now env))) db"
    assume f: "FindByUsername (le_findErr env) n db = Inl e"
      and t: "touched (fst ?p) (fst (registerUserHandler encode enc dec title cf env newID r db))"
    have "accounts_ok (fst ?p)"
      using f us_register(3) by (intro Put_new_ok [OF us_register(4) surjective_pairing us_register(1), where e = e]) simp
    with touched_ok [OF t] show ?thesis by blast
  qed (use us_register(4) in \<open>simp add: touched_ok\<close>)
next
  case (us_createAdmin newID db encode enc dec title cf env r)
  show ?case
  proof (rule createAdmin_cases [of encode enc dec title cf env newID r db])
    fix n pw
    let ?p = "users_Put enc (le_put env) None (new_account newID n (title n) pw True True (Some (le_now env))) db"
    assume "db_users db = []" and t: "touched (fst ?p) (fst (createAdmin encode enc dec title cf env newID r db))"
    then have "accounts_ok (fst ?p)"
      by (intro Put_new_ok [OF us_createAdmin(2) surjective_pairing us_createAdmin(1)]) simp
    with touched_ok [OF t] show ?thesis by blast
  qed (use us_createAdmin(2) in simp)
next
  case (us_headers newID db env enc dec net cf pw r)
  show ?case
  proof (rule headers_cases [of db enc dec net cf env newID pw r])
    fix n first e
    let ?p = "users_Put enc (le_put env) None (new_account newID n n (PasswordAutogenPrefix @ pw) first False None) db"
    assume f: "FindByUsername (le_findErr env) n db = Inl e"
      and t: "touched (fst ?p) (fst (handleLoginFromHeaders enc dec net cf env newID pw r db))"
    have "accounts_ok (fst ?p)"
      using f us_headers(3) by (intro Put_new_ok [OF us_headers(4) surjective_pairing us_headers(1), where e = e]) simp
    with touched_ok [OF t] show ?thesis by blast
  qed (use us_headers(4) in \<open>simp add: touched_ok\<close>)
qed

definition users_init :: "users_db \<Rightarrow> bool" where
  "users_init db \<longleftrightarrow> db_users db = []"

interpretation accounts: step_invariant users_init users_step accounts_ok
  by unfold_locales (simp add: users_init_def accounts_ok_def, rule users_step_ok)

section \<open>Token epochs\<close>

definition row_of :: "string \<Rightarrow> users_db \<Rightarrow> user_row option" where
  "row_of i db = find (\<lambda>r. ur_id r = i) (db_users db)"

lemma row_of_map:
  assumes "\<And>r. ur_id (g r) = ur_id r" "db_users db' = map g (db_users db)"
  shows "row_of i db' = map_option g (row_of i db)"
proof -
  have "find (\<lambda>r. ur_id r = i) (map g rows) = map_option g (find (\<lambda>r. ur_id r = i) rows)" for rows
    by (induction rows) (simp_all add: assms(1))
  then show ?thesis by (simp add: row_of_def assms(2))
qed

lemma row_of_append: "db_users db' = db_users db @ xs \<Longrightarrow> row_of i db = Some r \<Longrightarrow> row_of i db' = Some r"
proof -
  have "find P ys = Some r \<Longrightarrow> find P (ys @ xs) = Some r" for P ys by (induction ys) auto
  then show "db_users db' = db_users db @ xs \<Longrightarrow> row_of i db = Some r \<Longrightarrow> row_of i db' = Some r" by (simp add: row_of_def)
qed

lemma row_of_iff: "accounts_ok db \<Longrightarrow> row_of i db = Some r \<longleftrightarrow> r \<in> set (db_users db) \<and> ur_id r = i"
proof -
  assume ok: "accounts_ok db"
  have "distinct (map ur_id rows) \<Longrightarrow> find (\<lambda>r. ur_id r = i) rows = Some r \<longleftrightarrow> r \<in> set rows \<and> ur_id r = i" for rows
    by (induction rows) (auto simp: image_iff)
  with ok show ?thesis by (simp add: row_of_def accounts_ok_def)
qed

lemma Put_epoch:
  assumes "users_Put enc env logged u0 db = (db', res)" "row_of i db = Some r"
  shows "\<exists>r'. row_of i db' = Some r' \<and> ur_token_epoch r \<le> ur_token_epoch r'"
  using Put_rows [OF assms(1)]
proof (elim disjE conjE)
  assume rows: "db_users db' = map (\<lambda>r. if ur_id r = us_ID (put_user enc env u0) then put_row (put_user enc env u0) r else r) (db_users db)"
  have "row_of i db' = map_option (\<lambda>r. if ur_id r = us_ID (put_user enc env u0) then put_row (put_user enc env u0) r else r) (row_of i db)"
    by (rule row_of_map [OF _ rows]) simp
  with assms(2) show ?thesis by auto
qed (use assms(2) row_of_append in \<open>fastforce simp: row_of_def\<close>)+

lemma touched_epoch:
  assumes "touched db db'" "row_of i db = Some r"
  shows "\<exists>r'. row_of i db' = Some r' \<and> ur_token_epoch r \<le> ur_token_epoch r'"
  using assms(1) unfolding touched_def
proof (elim disjE exE)
  fix err now k
  assume db': "db' = fst (UpdateLastLoginAt err now k db)"
  show ?thesis
  proof (cases err)
    case None
    have "row_of i db' = map_option (\<lambda>r. if ur_id r = k then r\<lparr>ur_last_login_at := Some now\<rparr> else r) (row_of i db)"
      by (rule row_of_map) (simp_all add: db' UpdateLastLoginAt_def None update_users_def)
    with assms(2) show ?thesis by auto
  qed (use db' assms(2) in \<open>simp add: UpdateLastLoginAt_def\<close>)
qed (use assms(2) in simp)

lemma Put_touched_epoch:
  assumes "touched (fst (users_Put enc env logged u0 db)) db'" "row_of i db = Some r"
  shows "\<exists>r'. row_of i db' = Some r' \<and> ur_token_epoch r \<le> ur_token_epoch r'"
proof -
  obtain db1 res where p: "users_Put enc env logged u0 db = (db1, res)" by fastforce
  from Put_epoch [OF p assms(2)] obtain r1 where "row_of i db1 = Some r1" "ur_token_epoch r \<le> ur_token_epoch r1" by blast
  with touched_epoch [of db1 db' i r1] assms(1) p show ?thesis by fastforce
qed

lemma step_epoch:
  assumes "users_step db db'" "row_of i db = Some r" "has_user i db'"
  shows "\<exists>r'. row_of i db' = Some r' \<and> ur_token_epoch r \<le> ur_token_epoch r'"
  using assms
proof (induction rule: users_step.induct)
  case (us_save env db enc valid logged u)
  then show ?case using Save_cases [of enc valid None env logged u db] Put_touched_epoch [OF touched_same(1)] by auto
next
  case (us_update env k db enc dec editing valid logged u)
  then show ?case using Update_cases [of enc dec editing valid None env logged k u db] Put_touched_epoch [OF touched_same(1)] by auto
next
  case (us_delete db err logged k)
  show ?case
  proof (cases "users_Delete err logged k db = (db, None) \<or> (\<exists>e. users_Delete err logged k db = (db, Some e))")
    case True
    with us_delete show ?thesis by auto
  next
    case False
    then have d: "fst (users_Delete err logged k db)
        = db\<lparr>db_users := filter (\<lambda>r. ur_id r \<noteq> k) (db_users db), db_userLibrary := filter (\<lambda>p. fst p \<noteq> k) (db_userLibrary db)\<rparr>"
      by (auto simp: users_Delete_def split: if_splits option.splits)
    with us_delete(2) have "k \<noteq> i" by (auto simp: has_user_iff)
    then have "find (\<lambda>r. ur_id r = i) (filter (\<lambda>r. ur_id r \<noteq> k) rows) = find (\<lambda>r. ur_id r = i) rows" for rows :: "user_row list"
      by (induction rows) auto
    with us_delete(1) show ?thesis by (simp add: row_of_def d)
  qed
next
  case (us_access db err now k)
  show ?case
  proof (cases err)
    case None
    have "row_of i (fst (UpdateLastAccessAt err now k db)) = map_option (\<lambda>r. if ur_id r = k then r\<lparr>ur_last_access_at := Some now\<rparr> else r) (row_of i db)"
      by (rule row_of_map) (simp_all add: UpdateLastAccessAt_def None update_users_def)
    with us_access show ?thesis by auto
  qed (use us_access in \<open>simp add: UpdateLastAccessAt_def\<close>)
next
  case (us_libraries db e1 e2 k libs)
  then show ?case by (auto simp: SetUserLibraries_def Let_def row_of_def split: option.splits)
next
  case (us_login db encode dec cf env r')
  then show ?case by (intro touched_epoch [OF login_touched])
next
  case (us_register newID db env encode enc dec title cf r')
  show ?case
    by (rule register_cases [of db encode enc dec title cf env newID r'])
      (use us_register(4) touched_epoch Put_touched_epoch in blast)+
next
  case (us_createAdmin newID db encode enc dec title cf env r')
  show ?case
    by (rule createAdmin_cases [of encode enc dec title cf env newID r' db])
      (use us_createAdmin(2) Put_touched_epoch in auto)
next
  case (us_headers newID db env enc dec net cf pw r')
  show ?case
    by (rule headers_cases [of db enc dec net cf env newID pw r'])
      (use us_headers(4) touched_epoch Put_touched_epoch in blast)+
qed

text \<open>Histories in which the account \<open>i\<close> is not deleted.\<close>

abbreviation keeps :: "string \<Rightarrow> users_db \<Rightarrow> users_db \<Rightarrow> bool" where
  "keeps i \<equiv> (\<lambda>a b. users_step a b \<and> has_user i b)\<^sup>*\<^sup>*"

lemma keeps_epoch:
  "keeps i db db' \<Longrightarrow> row_of i db = Some r \<Longrightarrow> accounts_ok db \<Longrightarrow>
     accounts_ok db' \<and> (\<exists>r'. row_of i db' = Some r' \<and> ur_token_epoch r \<le> ur_token_epoch r')"
proof (induction rule: rtranclp_induct)
  case (step y z)
  then obtain r' where "row_of i y = Some r'" "ur_token_epoch r \<le> ur_token_epoch r'" "accounts_ok y" by blast
  with step_epoch [of y z i r'] users_step_ok [of y z] step(2) show ?case by fastforce
qed auto

section \<open>Properties\<close>

text \<open>
  Accounts stay distinguishable. After any sequence of account operations, from an empty table, the
  IDs of the accounts are distinct and so are their names, compared without case; so a lookup by ID or
  by name, in any spelling, finds the one account it is about.
\<close>

theorem accounts_stay_distinct:
  assumes "reachable users_init users_step db"
  shows "distinct (map ur_id (db_users db)) \<and> distinct (map (\<lambda>r. ToLower (ur_user_name r)) (db_users db))
    \<and> list_all (\<lambda>r. users_Get None (ur_id r) db = Inr (of_row db r)) (db_users db)
    \<and> list_all (\<lambda>r. \<forall>n. EqualFold (ur_user_name r) n \<longrightarrow> FindByUsername None n db = Inr (of_row db r)) (db_users db)"
proof -
  have ok: "accounts_ok db" by (rule accounts.reachable_inv [OF assms])
  have id: "find (\<lambda>x. ur_id x = ur_id r) (db_users db) = Some r" if "r \<in> set (db_users db)" for r
    using row_of_iff [OF ok, of "ur_id r" r] that by (simp add: row_of_def)
  have name: "find (\<lambda>x. EqualFold (ur_user_name x) n) (db_users db) = Some r"
    if r: "r \<in> set (db_users db)" "EqualFold (ur_user_name r) n" for r n
  proof -
    obtain r' where f: "find (\<lambda>x. EqualFold (ur_user_name x) n) (db_users db) = Some r'"
      using r by (cases "find (\<lambda>x. EqualFold (ur_user_name x) n) (db_users db)") (auto simp: find_None_iff)
    then have "r' \<in> set (db_users db)" "EqualFold (ur_user_name r') n" by (auto dest: find_SomeD)
    with accounts_okD(2) [OF ok r(1), of r'] r(2) f show ?thesis by (simp add: EqualFold_def)
  qed
  show ?thesis using ok id name
    by (simp add: accounts_ok_def list_all_iff users_Get_def FindByUsername_def queryOne_row_def)
qed

text \<open>
  Once an account was updated with a new password, the claims of every token issued to it before are
  stale for all accounts, whatever happens meanwhile, as long as the account is not deleted.
\<close>

lemma stale_claims:
  assumes ok: "accounts_ok db0" and r0: "row_of i db0 = Some r0" and run: "keeps i db0 db1"
    and change: "users_Update enc dec editing valid None env logged i u0 db1 = (db2, Inr ep)" "ac_NewPassword u0 \<noteq> []"
      "\<And>p. enc p \<noteq> Some []" "pe_newID env \<noteq> []"
    and later: "keeps i db2 db3" and x: "x \<in> set (db_users db3)"
  shows "CheckClaims (ClaimsFromToken (ToMap (userClaims t (user.truncate (of_row db0 r0)) audience)))
    (user.truncate (of_row db3 x)) aud \<noteq> None"
proof -
  let ?c = "userClaims t (user.truncate (of_row db0 r0)) audience"
  from keeps_epoch [OF run r0 ok] obtain r1 where ok1: "accounts_ok db1" and r1: "row_of i db1 = Some r1"
    and e1: "ur_token_epoch r0 \<le> ur_token_epoch r1" by blast
  have i: "i \<noteq> []" using ok1 r1 by (force simp: row_of_iff [OF ok1] accounts_ok_def)
  obtain u u' where put: "users_Put enc env logged u db1 = (db2, Inr (u', ep))" "us_ID u = i" "ac_NewPassword u \<noteq> []"
    by (rule Update_success [OF change(1)]) (use change(2) in \<open>auto split: if_splits\<close>)
  have db2: "accounts_ok db2"
    using users_step_ok [OF us_update [OF change(4) i] ok1] change(1) by (metis fst_conv)
  have id: "us_ID (put_user enc env u) = i" using put(2) i by simp
  have h: "has_user i db1" using r1 row_of_iff [OF ok1] by (auto simp: has_user_iff)
  have pw: "ac_NewPassword (put_user enc env u) \<noteq> []"
    using put(3) change(3) by (auto simp: put_user_def Let_def encryptPassword_def split: option.splits)
  have "row_of i db2 = map_option (\<lambda>r. if ur_id r = i then put_row (put_user enc env u) r else r) (row_of i db1)"
    using Put_success(2) [OF put(1)] h unfolding id by (intro row_of_map) (simp_all add: put(2) i)
  then have r2: "row_of i db2 = Some (put_row (put_user enc env u) r1)"
    using r1 row_of_iff [OF ok1] by auto
  from keeps_epoch [OF later r2 db2] obtain r3 where ok3: "accounts_ok db3" and r3: "row_of i db3 = Some r3"
    and e3: "ur_token_epoch r1 + 1 \<le> ur_token_epoch r3" using pw by auto
  have c: "cl_UserID (ClaimsFromToken (ToMap ?c)) = i" "cl_Epoch (ClaimsFromToken (ToMap ?c)) = ur_token_epoch r0"
    using r0 row_of_iff [OF ok] by (auto simp: ClaimsFromToken_of_ToMap userClaims_def of_row_def user.defs)
  show ?thesis
  proof (cases "ur_id x = i")
    case True
    with x r3 row_of_iff [OF ok3] have "x = r3" by (metis option.inject)
    then show ?thesis using c e1 e3 by (simp add: CheckClaims_def of_row_def user.defs)
  next
    case False
    then show ?thesis using c i by (simp add: CheckClaims_def of_row_def user.defs)
  qed
qed

text \<open>A request that carries just a stale token is not let through.\<close>

lemma stale_token_refused:
  assumes stale: "\<And>x. x \<in> set (db_users db) \<Longrightarrow> CheckClaims (ClaimsFromToken m) (user.truncate (of_row db x)) AudienceNative \<noteq> None"
    and token: "rq_jwt r = Some m" and only: "sc_AutoLogin cf = []" "UsernameFromExtAuthHeader net cf r = []"
  shows "Authenticator net cf err r db = None"
proof -
  have sub: "UsernameFromToken r = cl_Subject (ClaimsFromToken m)"
    by (simp add: UsernameFromToken_def token ClaimsFromToken_def)
  show ?thesis
  proof (cases "authenticateRequest err [UsernameFromConfig cf, UsernameFromToken, UsernameFromExtAuthHeader net cf] r db")
    case (Inl e)
    then show ?thesis by (simp add: Authenticator_def)
  next
    case (Inr usr)
    then have f: "FindByUsername err (cl_Subject (ClaimsFromToken m)) db = Inr usr"
      using only sub by (auto simp: authenticateRequest_def UsernameFromConfig_def contextWithUser_def Let_def split: if_splits sum.splits)
    then obtain x where x: "x \<in> set (db_users db)" "usr = of_row db x" "EqualFold (ur_user_name x) (cl_Subject (ClaimsFromToken m))"
      by (auto simp: FindByUsername_def queryOne_row_def split: option.splits dest: find_SomeD)
    then have "EqualFold (cl_Subject (ClaimsFromToken m)) (us_UserName usr)" by (simp add: of_row_def EqualFold_sym)
    with stale [OF x(1)] x(2) have "\<not> tokenAllowed r usr" by (simp add: tokenAllowed_def token Let_def)
    with Inr show ?thesis by (simp add: Authenticator_def)
  qed
qed

text \<open>
  Whoever changes the own password stays logged in. The refreshed token in the answer carries the new
  epoch, verifies until it times out, and passes the check against the account as it is stored now.
\<close>

theorem refreshed_token_survives_password_change:
  assumes codec: "\<And>m tok now. encode m = Inr tok \<Longrightarrow> representable m \<Longrightarrow> (\<And>e. m ''exp'' = Some (CNum e) \<Longrightarrow> UnixSec now < e) \<Longrightarrow> verify now tok = Inr m"
    and ok: "accounts_ok db" and row: "row_of i db = Some r0" and admitted: "CheckClaims (ClaimsFromToken m) (user.truncate (of_row db r0)) AudienceNative = None"
    and put: "users_Put enc env (Some usr) u db = (db', Inr (u', Some epoch))" "us_ID u = i"
    and rq: "rq_jwt rq = Some m" and tok: "JWTRefresher encode now timeout rq (Some epoch) = Some tok"
    and small: "small_claims ((ClaimsFromToken m)\<lparr>cl_Epoch := epoch, cl_ExpiresAt := now + timeout\<rparr>)"
    and time: "0 \<le> epoch" "now + timeout \<noteq> zeroTime" "UnixSec later < UnixSec (now + timeout)"
  shows "\<exists>c row'. Validate verify later tok = Inr c \<and> row_of i db' = Some row' \<and> cl_Subject c = cl_Subject (ClaimsFromToken m)
    \<and> CheckClaims c (user.truncate (of_row db' row')) AudienceNative = None"
proof -
  let ?c = "(ClaimsFromToken m)\<lparr>cl_Epoch := epoch, cl_ExpiresAt := now + timeout\<rparr>"
  have i: "i \<noteq> []" using ok row by (force simp: row_of_iff [OF ok] accounts_ok_def)
  have id: "us_ID (put_user enc env u) = i" using put(2) i by simp
  have ep: "map_option ur_token_epoch (row_of i db') = Some epoch" "has_user i db"
    using Put_success(4) [OF put(1)] unfolding id row_of_def by (auto split: if_splits)
  have "row_of i db' = map_option (\<lambda>r. if ur_id r = i then put_row (put_user enc env u) r else r) (row_of i db)"
    using Put_success(2) [OF put(1)] ep(2) unfolding id by (intro row_of_map) (simp_all add: put(2) i)
  then obtain row' where row': "row_of i db' = Some row'" "ur_id row' = i" "ur_token_epoch row' = epoch"
    using ep(1) row row_of_iff [OF ok] by (auto simp: put(2) i)
  have enc: "encode (ToMap ?c) = Inr tok"
    using tok rq time(1) by (auto simp: JWTRefresher_def TouchClaims_def WithExpiresAt_def Let_def split: sum.splits)
  have "verify later tok = Inr (ToMap ?c)"
    by (rule codec [OF enc representable_ToMap [OF small]]) (use time in \<open>simp add: ToMap_keys(5) split: if_splits\<close>)
  then have v: "Validate verify later tok
      = Inr (?c\<lparr>cl_IssuedAt := TruncateSecond (cl_IssuedAt ?c), cl_ExpiresAt := TruncateSecond (cl_ExpiresAt ?c)\<rparr>)"
    by (simp add: Validate_def ClaimsFromToken_of_ToMap)
  have "ur_id r0 = i" using row row_of_iff [OF ok] by simp
  with admitted have "cl_UserID ?c = [] \<or> cl_UserID ?c = i"
    "length (cl_Audience ?c) > 0 \<longrightarrow> List.member (cl_Audience ?c) AudienceNative"
    by (auto simp: CheckClaims_def of_row_def user.defs split: if_splits)
  then show ?thesis using v row' by (auto simp: CheckClaims_def of_row_def user.defs)
qed

text \<open>The accounts with admin rights.\<close>

definition admins :: "users_db \<Rightarrow> string list" where
  "admins db = map ur_id (filter ur_is_admin (db_users db))"

lemma touched_admins: "touched db db' \<Longrightarrow> admins db' = admins db"
proof -
  have "map ur_id (filter ur_is_admin (map (\<lambda>r. if ur_id r = i then r\<lparr>ur_last_login_at := t\<rparr> else r) rows))
      = map ur_id (filter ur_is_admin rows)" for i t and rows :: "user_row list"
    by (induction rows) auto
  then show "touched db db' \<Longrightarrow> admins db' = admins db"
    by (auto simp: touched_def UpdateLastLoginAt_def admins_def update_users_def split: option.splits)
qed

lemma Put_regular_admins:
  assumes "i \<notin> ur_id ` set (db_users db)" "i \<noteq> []"
  shows "admins (fst (users_Put enc env logged (new_account i n name pw False rights t) db)) = admins db"
proof -
  let ?u = "new_account i n name pw False rights t"
  obtain db' res where p: "users_Put enc env logged ?u db = (db', res)" by fastforce
  have "us_ID (put_user enc env ?u) = i" "\<not> us_IsAdmin (put_user enc env ?u)" using assms(2) by (simp_all add: new_account_def)
  with Put_rows [OF p] assms(1) p show ?thesis by (auto simp: admins_def has_user_iff)
qed


text \<open>When the number of users cannot be read, the user of a trusted header becomes an admin.\<close>

lemma header_user_admin_on_error:
  "admins (fst (handleLoginFromHeaders (plain_enc ''k'') (plain_dec ''k'') net
     \<lparr>sc_TrustedSources = [], sc_UserHeader = [], sc_AutoLogin = ''eve'', sc_Address = [], sc_SessionTimeout = 0\<rparr>
     \<lparr>le_now = 0, le_put = demo_put_env, le_findErr = None, le_countErr = Some ''database is locked'', le_loginAtErr = None\<rparr>
     ''u2'' ''pw'' r demo_db)) = [''u2'']"
  by (simp add: handleLoginFromHeaders_def Let_def UsernameFromConfig_def FindByUsernameWithPassword_def FindByUsername_def
      queryOne_row_def demo_db_def demo_row_def empty_row_def EqualFold_def ToLower_def lower_char_def users_CountAll_def users_Put_def
      new_account_def no_user_def encryptPassword_def plain_enc_def has_user_def name_taken_def demo_put_env_def assign_libraries_def
      of_row_def decryptPassword_def plain_dec_def HasPrefix_def UpdateLastLoginAt_def update_users_def set_values_def admins_def
      user_libraries_def)

section \<open>Witnesses\<close>

definition demo_config :: server_config where
  "demo_config = \<lparr>sc_TrustedSources = [], sc_UserHeader = [], sc_AutoLogin = [], sc_Address = [], sc_SessionTimeout = 10 * Second\<rparr>"

definition demo_login_env :: login_env where
  "demo_login_env = \<lparr>le_now = 0, le_put = demo_put_env, le_findErr = None, le_countErr = None, le_loginAtErr = None\<rparr>"

definition demo_net :: net_ops where
  "demo_net = \<lparr>no_validIP = (\<lambda>_. True), no_splitHost = (\<lambda>s. s), no_contains = (\<lambda>_ _. None), no_cidrOk = (\<lambda>_. False)\<rparr>"

definition demo_request :: http_request where
  "demo_request = \<lparr>rq_header = (\<lambda>_. []), rq_jwt = Some (ToMap (userClaims Second (user.truncate demo_user) [])),
     rq_proxyIP = None, rq_internal = None, rq_body = Some [''username'' \<mapsto> ''root'', ''password'' \<mapsto> ''pw'']\<rparr>"

definition demo_token :: "string encoder" where
  "demo_token m = Inr ''token''"

definition demo_setup :: users_db where
  "demo_setup = fst (createAdmin demo_token (plain_enc ''k'') (plain_dec ''k'') (\<lambda>s. s) demo_config demo_login_env ''a1'' demo_request
     \<lparr>db_users = [], db_userLibrary = [], db_libraries = [(1, True)]\<rparr>)"

lemma demo_setup_rows: "map ur_user_name (db_users demo_setup) = [''root'']"
  by (simp add: demo_setup_def createAdmin_def getCredentialsFromBody_def demo_request_def map_get_def users_CountAll_def demo_login_env_def
      createAdminUser_def users_Put_def Let_def new_account_def no_user_def encryptPassword_def plain_enc_def has_user_def name_taken_def
      demo_put_env_def assign_libraries_def doLogin_def validateLogin_def FindByUsernameWithPassword_def FindByUsername_def queryOne_row_def
      set_values_def of_row_def decryptPassword_def plain_dec_def HasPrefix_def UpdateLastLoginAt_def update_users_def
      CreateToken_def TouchToken_def TouchClaims_def demo_token_def)

theorem accounts_stay_distinct_witness:
  "map ur_user_name (db_users demo_setup) = [''root''] \<and> distinct (map ur_id (db_users demo_setup))"
proof -
  have "reachable users_init users_step demo_setup" unfolding demo_setup_def
    by (rule reach_one [where step = users_step], rule us_createAdmin) (simp_all add: users_init_def)
  from accounts_stay_distinct [OF this] demo_setup_rows show ?thesis by simp
qed

lemma demo_row_of: "row_of ''u1'' demo_db = Some demo_row"
  by (simp add: row_of_def demo_db_def demo_row_def)

theorem refreshed_token_survives_password_change_witness:
  "\<exists>tok c db' row'. fst (users_Put (plain_enc ''k'') demo_put_env (Some demo_user) demo_change demo_db) = db'
     \<and> JWTRefresher plain_encode 0 (10 * Second) demo_request (Some 1) = Some tok \<and> Validate plain_verify Second tok = Inr c
     \<and> row_of ''u1'' db' = Some row' \<and> CheckClaims c (user.truncate (of_row db' row')) AudienceNative = None"
proof -
  obtain db' u' where p: "users_Put (plain_enc ''k'') demo_put_env (Some demo_user) demo_change demo_db = (db', Inr (u', Some 1))"
    by (simp add: users_Put_def Let_def demo_change_def demo_user_def of_row_def demo_row_def demo_db_def empty_row_def encryptPassword_def
        plain_enc_def has_user_def name_taken_def demo_put_env_def update_users_def set_values_def)
  let ?m = "ToMap (userClaims Second (user.truncate demo_user) [])"
  have ad: "CheckClaims (ClaimsFromToken ?m) (user.truncate (of_row demo_db demo_row)) AudienceNative = None"
    by (simp add: ClaimsFromToken_of_ToMap userClaims_def demo_user_def CheckClaims_def of_row_def user.defs)
  obtain tok where tok: "JWTRefresher plain_encode 0 (10 * Second) demo_request (Some 1) = Some tok"
    by (simp add: JWTRefresher_def demo_request_def TouchClaims_def plain_encode_def)
  have small: "small_claims ((ClaimsFromToken ?m)\<lparr>cl_Epoch := 1, cl_ExpiresAt := 0 + 10 * Second\<rparr>)"
    by (simp add: small_claims_def ClaimsFromToken_of_ToMap userClaims_def UnixSec_def TruncateSecond_def Second_def)
  have "\<exists>c row'. Validate plain_verify Second tok = Inr c \<and> row_of ''u1'' db' = Some row' \<and> cl_Subject c = cl_Subject (ClaimsFromToken ?m)
      \<and> CheckClaims c (user.truncate (of_row db' row')) AudienceNative = None"
    by (rule refreshed_token_survives_password_change [OF plain_jwt.verify_encode demo_accounts_ok demo_row_of ad p _ _ tok small])
      (simp_all add: demo_change_def demo_user_def of_row_def demo_row_def demo_request_def UnixSec_def Second_def zeroTime_def)
  with p tok show ?thesis by auto
qed


end
