(* ===== verification/AuthLimiter.thy ===== *)
theory AuthLimiter
  imports Media
begin

text \<open>
  The limiter of failed Subsonic logins (\<open>server/subsonic/auth_limiter.go\<close>). Entries are shared
  between the map and the calls in flight, and outlive their map entry while a call still refers to
  them, so they live in a heap. The channel \<open>slots\<close> of an entry is the number of values in it; its
  capacity is the limit. The seeded hash of the standard library is a function.
\<close>

definition DefaultAuthWindowLength :: duration where "DefaultAuthWindowLength = 20 * Second"

record attempts =
  at_failures :: int
  at_start :: time
  at_slots :: nat
  at_refs :: int

record auth_limiter =
  al_limit :: int
  al_window :: duration
  al_hash :: "string \<Rightarrow> nat"
  al_keys :: "nat \<rightharpoonup> nat"
  al_heap :: "nat \<Rightarrow> attempts"
  al_next :: nat
  al_lastSweep :: time

definition no_attempts :: "time \<Rightarrow> attempts" where
  "no_attempts now = \<lparr>at_failures = 0, at_start = now, at_slots = 0, at_refs = 0\<rparr>"

definition newAuthLimiter :: "(string \<Rightarrow> nat) \<Rightarrow> int \<Rightarrow> duration \<Rightarrow> auth_limiter option" where
  "newAuthLimiter hash limit window =
     (if limit \<le> 0 then None
      else Some \<lparr>al_limit = limit, al_window = (if window \<noteq> 0 then window else DefaultAuthWindowLength),
             al_hash = hash, al_keys = Map.empty, al_heap = (\<lambda>_. no_attempts zeroTime), al_next = 0,
             al_lastSweep = zeroTime\<rparr>)"

definition upd_entry :: "nat \<Rightarrow> (attempts \<Rightarrow> attempts) \<Rightarrow> auth_limiter \<Rightarrow> auth_limiter" where
  "upd_entry a f l = l\<lparr>al_heap := (al_heap l)(a := f (al_heap l a))\<rparr>"

definition al_sweep :: "time \<Rightarrow> auth_limiter \<Rightarrow> auth_limiter" where
  "al_sweep now l =
     (if now - al_lastSweep l < al_window l then l
      else l\<lparr>al_keys := (\<lambda>h. case al_keys l h of
                 None \<Rightarrow> None
               | Some a \<Rightarrow> if at_refs (al_heap l a) = 0 \<and> now - at_start (al_heap l a) \<ge> al_window l then None else Some a),
             al_lastSweep := now\<rparr>)"

text \<open>The entry that \<open>reserve\<close> works on: a new one, or the old one with its window renewed.\<close>

definition current_entry :: "time \<Rightarrow> string \<Rightarrow> auth_limiter \<Rightarrow> auth_limiter \<times> nat" where
  "current_entry now key l =
     (case al_keys l (al_hash l key) of
        None \<Rightarrow> (l\<lparr>al_keys := (al_keys l)(al_hash l key \<mapsto> al_next l),
                  al_heap := (al_heap l)(al_next l := no_attempts now), al_next := Suc (al_next l)\<rparr>, al_next l)
      | Some a \<Rightarrow>
          (if now - at_start (al_heap l a) \<ge> al_window l
           then (upd_entry a (\<lambda>e. e\<lparr>at_failures := 0, at_start := now\<rparr>) l, a)
           else (l, a)))"

definition al_reserve :: "time \<Rightarrow> string \<Rightarrow> auth_limiter \<Rightarrow> auth_limiter \<times> nat option" where
  "al_reserve now key l =
     (let (l1, a) = current_entry now key (al_sweep now l)
      in if at_failures (al_heap l1 a) \<ge> al_limit l1 then (l1, None)
         else (upd_entry a (\<lambda>e. e\<lparr>at_refs := at_refs e + 1\<rparr>) l1, Some a))"

definition al_unref :: "nat \<Rightarrow> auth_limiter \<Rightarrow> auth_limiter" where
  "al_unref a l = upd_entry a (\<lambda>e. e\<lparr>at_refs := at_refs e - 1\<rparr>) l"

definition send_slot :: "nat \<Rightarrow> auth_limiter \<Rightarrow> auth_limiter option" where
  "send_slot a l =
     (if int (at_slots (al_heap l a)) < al_limit l
      then Some (upd_entry a (\<lambda>e. e\<lparr>at_slots := Suc (at_slots e)\<rparr>) l) else None)"

definition recv_slot :: "nat \<Rightarrow> auth_limiter \<Rightarrow> auth_limiter" where
  "recv_slot a l = upd_entry a (\<lambda>e. e\<lparr>at_slots := at_slots e - 1\<rparr>) l"

text \<open>The critical section of \<open>acquire\<close> after the slot is taken, with whether the call is blocked.\<close>

definition check_blocked :: "nat \<Rightarrow> auth_limiter \<Rightarrow> auth_limiter \<times> bool" where
  "check_blocked a l =
     (if at_failures (al_heap l a) \<ge> al_limit l then (al_unref a l, True) else (l, False))"

text \<open>
  \<open>acquire\<close> without interference; a nil limiter allows everything. When no slot is free and nobody
  else runs, the call waits until its context is cancelled.
\<close>

definition al_acquire :: "time \<Rightarrow> string \<Rightarrow> auth_limiter \<Rightarrow> auth_limiter \<times> nat option" where
  "al_acquire now key l =
     (case al_reserve now key l of
        (l1, None) \<Rightarrow> (l1, None)
      | (l1, Some a) \<Rightarrow>
          (case send_slot a l1 of
             None \<Rightarrow> (al_unref a l1, None)
           | Some l2 \<Rightarrow>
               (case check_blocked a l2 of
                  (l3, True) \<Rightarrow> (recv_slot a l3, None)
                | (l3, False) \<Rightarrow> (l3, Some a))))"

definition slot_release_locked :: "nat \<Rightarrow> bool \<Rightarrow> auth_limiter \<Rightarrow> auth_limiter" where
  "slot_release_locked a failed l =
     upd_entry a (\<lambda>e. e\<lparr>at_failures := (if failed then at_failures e + 1 else at_failures e), at_refs := at_refs e - 1\<rparr>) l"

definition slot_release :: "nat \<Rightarrow> bool \<Rightarrow> auth_limiter \<Rightarrow> auth_limiter" where
  "slot_release a failed l = recv_slot a (slot_release_locked a failed l)"

section \<open>Interleaved logins\<close>

text \<open>
  Where a login is: waiting for a slot of its entry, holding one before the second look at the
  failures, checking credentials (admitted in a window of the entry), refused and about to give the
  slot back, or done and about to give the slot back. \<open>ar_window\<close> numbers the windows of an entry and
  \<open>ar_guesses\<close> counts the checks admitted in the current one that have failed or are not over yet.
\<close>

datatype al_phase = AWaiting | AEntered | AChecking nat | ARefused | ALeaving

record al_run =
  ar_limiter :: auth_limiter
  ar_now :: time
  ar_calls :: "(al_phase \<times> nat) multiset"
  ar_window :: "nat \<Rightarrow> nat"
  ar_guesses :: "nat \<Rightarrow> nat"

definition renewed :: "time \<Rightarrow> string \<Rightarrow> auth_limiter \<Rightarrow> nat option" where
  "renewed now key l =
     (case al_keys (al_sweep now l) (al_hash l key) of
        None \<Rightarrow> Some (al_next l)
      | Some a \<Rightarrow> if now - at_start (al_heap l a) \<ge> al_window l then Some a else None)"

text \<open>A reservation starts a new window of its entry when it creates or renews it.\<close>

definition note_window :: "nat option \<Rightarrow> al_run \<Rightarrow> al_run" where
  "note_window w r =
     (case w of None \<Rightarrow> r
      | Some a \<Rightarrow> r\<lparr>ar_window := (ar_window r)(a := Suc (ar_window r a)), ar_guesses := (ar_guesses r)(a := 0)\<rparr>)"

inductive al_step :: "al_run \<Rightarrow> al_run \<Rightarrow> bool" where
  al_tick: "now \<ge> ar_now r \<Longrightarrow> al_step r (r\<lparr>ar_now := now\<rparr>)"
| al_reserve_ok: "al_reserve (ar_now r) key (ar_limiter r) = (l, Some a) \<Longrightarrow>
     al_step r ((note_window (renewed (ar_now r) key (ar_limiter r)) r)
       \<lparr>ar_limiter := l, ar_calls := add_mset (AWaiting, a) (ar_calls r)\<rparr>)"
| al_reserve_no: "al_reserve (ar_now r) key (ar_limiter r) = (l, None) \<Longrightarrow>
     al_step r ((note_window (renewed (ar_now r) key (ar_limiter r)) r)\<lparr>ar_limiter := l\<rparr>)"
| al_enter: "ar_calls r = add_mset (AWaiting, a) cs \<Longrightarrow> send_slot a (ar_limiter r) = Some l \<Longrightarrow>
     al_step r (r\<lparr>ar_limiter := l, ar_calls := add_mset (AEntered, a) cs\<rparr>)"
| al_cancel: "ar_calls r = add_mset (AWaiting, a) cs \<Longrightarrow>
     al_step r (r\<lparr>ar_limiter := al_unref a (ar_limiter r), ar_calls := cs\<rparr>)"
| al_admit: "ar_calls r = add_mset (AEntered, a) cs \<Longrightarrow> check_blocked a (ar_limiter r) = (l, False) \<Longrightarrow>
     al_step r (r\<lparr>ar_limiter := l, ar_calls := add_mset (AChecking (ar_window r a), a) cs,
       ar_guesses := (ar_guesses r)(a := Suc (ar_guesses r a))\<rparr>)"
| al_refuse: "ar_calls r = add_mset (AEntered, a) cs \<Longrightarrow> check_blocked a (ar_limiter r) = (l, True) \<Longrightarrow>
     al_step r (r\<lparr>ar_limiter := l, ar_calls := add_mset (ARefused, a) cs\<rparr>)"
| al_done: "ar_calls r = add_mset (AChecking w, a) cs \<Longrightarrow>
     al_step r (r\<lparr>ar_limiter := slot_release_locked a failed (ar_limiter r), ar_calls := add_mset (ALeaving, a) cs,
       ar_guesses := (if \<not> failed \<and> w = ar_window r a then (ar_guesses r)(a := ar_guesses r a - 1) else ar_guesses r)\<rparr>)"
| al_leave: "ar_calls r = add_mset (p, a) cs \<Longrightarrow> p \<in> {ARefused, ALeaving} \<Longrightarrow>
     al_step r (r\<lparr>ar_limiter := recv_slot a (ar_limiter r), ar_calls := cs\<rparr>)"

definition al_init :: "al_run \<Rightarrow> bool" where
  "al_init r \<longleftrightarrow> (\<exists>hash limit window. newAuthLimiter hash limit window = Some (ar_limiter r)) \<and> ar_calls r = {#}
     \<and> (\<forall>a. ar_guesses r a = 0)"

fun has_ref :: "al_phase \<Rightarrow> bool" where
  "has_ref AWaiting = True" | "has_ref AEntered = True" | "has_ref (AChecking w) = True"
| "has_ref ARefused = False" | "has_ref ALeaving = False"

fun has_slot :: "al_phase \<Rightarrow> bool" where
  "has_slot AWaiting = False" | "has_slot AEntered = True" | "has_slot (AChecking w) = True"
| "has_slot ARefused = True" | "has_slot ALeaving = True"

fun is_checking :: "al_phase \<Rightarrow> bool" where
  "is_checking (AChecking w) = True" | "is_checking p = False"

definition calls_at :: "(al_phase \<Rightarrow> bool) \<Rightarrow> nat \<Rightarrow> (al_phase \<times> nat) multiset \<Rightarrow> nat" where
  "calls_at P a cs = size (filter_mset (\<lambda>c. P (fst c) \<and> snd c = a) cs)"

lemma calls_at_simps [simp]:
  "calls_at P a {#} = 0"
  "calls_at P a (add_mset (p, b) cs) = (if P p \<and> b = a then Suc (calls_at P a cs) else calls_at P a cs)"
  by (simp_all add: calls_at_def)

definition entry_ok :: "al_run \<Rightarrow> nat \<Rightarrow> bool" where
  "entry_ok r a \<longleftrightarrow>
     (let e = al_heap (ar_limiter r) a; cs = ar_calls r
      in at_slots e = calls_at has_slot a cs \<and> at_refs e = int (calls_at has_ref a cs)
         \<and> int (at_slots e) \<le> al_limit (ar_limiter r) \<and> 0 \<le> at_failures e
         \<and> at_failures e + int (calls_at is_checking a cs) \<le> 2 * al_limit (ar_limiter r) - 1
         \<and> int (ar_guesses r a) \<le> at_failures e + int (calls_at (\<lambda>p. p = AChecking (ar_window r a)) a cs)
         \<and> (\<forall>w. calls_at (\<lambda>p. p = AChecking w) a cs \<noteq> 0 \<longrightarrow> w \<le> ar_window r a))"

definition al_inv :: "al_run \<Rightarrow> bool" where
  "al_inv r \<longleftrightarrow> 0 < al_limit (ar_limiter r)
     \<and> (\<forall>a. entry_ok r a)
     \<and> (\<forall>h a. al_keys (ar_limiter r) h = Some a \<longrightarrow> a < al_next (ar_limiter r))
     \<and> (\<forall>h h' a. al_keys (ar_limiter r) h = Some a \<longrightarrow> al_keys (ar_limiter r) h' = Some a \<longrightarrow> h = h')
     \<and> (\<forall>a. calls_at has_ref a (ar_calls r) \<noteq> 0 \<longrightarrow> (\<exists>h. al_keys (ar_limiter r) h = Some a))
     \<and> (\<forall>a \<ge> al_next (ar_limiter r). calls_at (\<lambda>_. True) a (ar_calls r) = 0 \<and> ar_guesses r a = 0)"

lemma calls_at_mono: "(\<And>p. P p \<Longrightarrow> Q p) \<Longrightarrow> calls_at P a cs \<le> calls_at Q a cs"
  by (induction cs) (auto simp: calls_at_def)

lemma calls_at_zero: "calls_at Q a cs = 0 \<Longrightarrow> (\<And>p. P p \<Longrightarrow> Q p) \<Longrightarrow> calls_at P a cs = 0"
  using calls_at_mono [of P Q a cs] by auto

lemma upd_entry_simps [simp]:
  "al_limit (upd_entry a f l) = al_limit l" "al_window (upd_entry a f l) = al_window l" "al_hash (upd_entry a f l) = al_hash l"
  "al_keys (upd_entry a f l) = al_keys l" "al_next (upd_entry a f l) = al_next l"
  "al_heap (upd_entry a f l) b = (if b = a then f (al_heap l a) else al_heap l b)"
  by (simp_all add: upd_entry_def)

lemma al_invD:
  assumes "al_inv r"
  shows "0 < al_limit (ar_limiter r)" "entry_ok r a" "al_keys (ar_limiter r) h = Some a \<Longrightarrow> a < al_next (ar_limiter r)"
    "al_keys (ar_limiter r) h = Some a \<Longrightarrow> al_keys (ar_limiter r) h' = Some a \<Longrightarrow> h = h'"
    "calls_at has_ref a (ar_calls r) \<noteq> 0 \<Longrightarrow> \<exists>h. al_keys (ar_limiter r) h = Some a"
    "al_next (ar_limiter r) \<le> a \<Longrightarrow> calls_at (\<lambda>_. True) a (ar_calls r) = 0 \<and> ar_guesses r a = 0"
  using assms unfolding al_inv_def by blast+

lemma al_invI:
  assumes "0 < al_limit (ar_limiter r)" "\<And>a. entry_ok r a" "\<And>h a. al_keys (ar_limiter r) h = Some a \<Longrightarrow> a < al_next (ar_limiter r)"
    "\<And>h h' a. al_keys (ar_limiter r) h = Some a \<Longrightarrow> al_keys (ar_limiter r) h' = Some a \<Longrightarrow> h = h'"
    "\<And>a. calls_at has_ref a (ar_calls r) \<noteq> 0 \<Longrightarrow> \<exists>h. al_keys (ar_limiter r) h = Some a"
    "\<And>a. al_next (ar_limiter r) \<le> a \<Longrightarrow> calls_at (\<lambda>_. True) a (ar_calls r) = 0 \<and> ar_guesses r a = 0"
  shows "al_inv r"
  unfolding al_inv_def using assms by blast

text \<open>A step on the entry \<open>a\<close> of a call in flight.\<close>

lemma al_inv_at:
  assumes inv: "al_inv r" and l: "ar_limiter r' = upd_entry a f (ar_limiter r)"
    and old: "ar_calls r = add_mset (p, a) cs" and new: "ar_calls r' = M + cs" "M = {#} \<or> (\<exists>p'. M = {#(p', a)#})"
    and ref: "calls_at has_ref a M \<le> calls_at has_ref a {#(p, a)#}"
    and same: "ar_window r' = ar_window r" "\<And>b. b \<noteq> a \<Longrightarrow> ar_guesses r' b = ar_guesses r b"
    and mine: "entry_ok r' a"
  shows "al_inv r'"
proof (rule al_invI)
  have known: "a < al_next (ar_limiter r)"
    using al_invD(6) [OF inv, of a] by (cases "a < al_next (ar_limiter r)") (auto simp: old not_less)
  have other: "calls_at P b (ar_calls r') = calls_at P b (ar_calls r)" if "b \<noteq> a" for P b
    using that new by (auto simp: old)
  show "entry_ok r' b" for b
  proof (cases "b = a")
    case False
    then show ?thesis using al_invD(2) [OF inv, of b] by (simp add: entry_ok_def Let_def l other same)
  qed (use mine in simp)
  show "\<exists>h. al_keys (ar_limiter r') h = Some b" if "calls_at has_ref b (ar_calls r') \<noteq> 0" for b
  proof -
    have "calls_at has_ref b (ar_calls r') \<le> calls_at has_ref b (ar_calls r)"
    proof (cases "b = a")
      case True
      with ref new show ?thesis by (auto simp: old split: if_splits)
    qed (simp add: other)
    with that al_invD(5) [OF inv, of b] show ?thesis by (simp add: l)
  qed
  show "calls_at (\<lambda>_. True) b (ar_calls r') = 0 \<and> ar_guesses r' b = 0" if "al_next (ar_limiter r') \<le> b" for b
  proof -
    from that known have "b \<noteq> a" by (auto simp: l)
    with al_invD(6) [OF inv, of b] that show ?thesis by (simp add: l other same)
  qed
qed (use al_invD(1,3,4) [OF inv] in \<open>simp_all add: l\<close>)

lemma al_inv_enter:
  assumes "al_inv r" "ar_calls r = add_mset (AWaiting, a) cs" "send_slot a (ar_limiter r) = Some l"
  shows "al_inv (r\<lparr>ar_limiter := l, ar_calls := add_mset (AEntered, a) cs\<rparr>)"
proof -
  from assms(3) have l: "l = upd_entry a (\<lambda>e. e\<lparr>at_slots := Suc (at_slots e)\<rparr>) (ar_limiter r)"
    and free: "int (at_slots (al_heap (ar_limiter r) a)) < al_limit (ar_limiter r)" by (simp_all add: send_slot_def split: if_splits)
  show ?thesis
    by (rule al_inv_at [OF assms(1) _ assms(2), where M = "{#(AEntered, a)#}"])
      (use al_invD(2) [OF assms(1), of a] free assms(2) in \<open>auto simp: l entry_ok_def Let_def\<close>)
qed

lemma al_inv_cancel:
  assumes "al_inv r" "ar_calls r = add_mset (AWaiting, a) cs"
  shows "al_inv (r\<lparr>ar_limiter := al_unref a (ar_limiter r), ar_calls := cs\<rparr>)"
  by (rule al_inv_at [OF assms(1) _ assms(2), where M = "{#}"])
    (use al_invD(2) [OF assms(1), of a] assms(2) in \<open>auto simp: al_unref_def entry_ok_def Let_def\<close>)

lemma al_inv_refuse:
  assumes "al_inv r" "ar_calls r = add_mset (AEntered, a) cs" "check_blocked a (ar_limiter r) = (l, True)"
  shows "al_inv (r\<lparr>ar_limiter := l, ar_calls := add_mset (ARefused, a) cs\<rparr>)"
proof -
  from assms(3) have "l = al_unref a (ar_limiter r)" by (simp add: check_blocked_def split: if_splits)
  then show ?thesis
    by (intro al_inv_at [OF assms(1) _ assms(2), where M = "{#(ARefused, a)#}"])
      (use al_invD(2) [OF assms(1), of a] assms(2) in \<open>auto simp: al_unref_def entry_ok_def Let_def\<close>)
qed

lemma al_inv_leave:
  assumes "al_inv r" "ar_calls r = add_mset (p, a) cs" "p \<in> {ARefused, ALeaving}"
  shows "al_inv (r\<lparr>ar_limiter := recv_slot a (ar_limiter r), ar_calls := cs\<rparr>)"
  by (rule al_inv_at [OF assms(1) _ assms(2), where M = "{#}"])
    (use al_invD(2) [OF assms(1), of a] assms(2,3) in \<open>auto simp: recv_slot_def entry_ok_def Let_def\<close>)

lemma al_inv_admit:
  assumes inv: "al_inv r" and cs: "ar_calls r = add_mset (AEntered, a) cs" and c: "check_blocked a (ar_limiter r) = (l, False)"
  shows "al_inv (r\<lparr>ar_limiter := l, ar_calls := add_mset (AChecking (ar_window r a), a) cs,
       ar_guesses := (ar_guesses r)(a := Suc (ar_guesses r a))\<rparr>)" (is "al_inv ?r")
proof (rule al_inv_at [OF inv _ cs, where M = "{#(AChecking (ar_window r a), a)#}" and f = id])
  from c have l: "l = ar_limiter r" and room: "at_failures (al_heap (ar_limiter r) a) < al_limit (ar_limiter r)"
    by (auto simp: check_blocked_def split: if_splits)
  show "ar_limiter ?r = upd_entry a id (ar_limiter r)" by (simp add: l upd_entry_def)
  note ok = al_invD(2) [OF inv, of a]
  have "calls_at is_checking a cs \<le> calls_at has_slot a cs"
    by (rule calls_at_mono) (auto elim: is_checking.elims)
  then have "at_failures (al_heap (ar_limiter r) a) + int (Suc (calls_at is_checking a cs)) \<le> 2 * al_limit (ar_limiter r) - 1"
    using ok room by (simp add: entry_ok_def Let_def cs)
  then show "entry_ok ?r a" using ok by (auto simp: entry_ok_def Let_def cs l)
qed (auto)

lemma al_inv_done:
  assumes inv: "al_inv r" and cs: "ar_calls r = add_mset (AChecking w, a) cs"
  shows "al_inv (r\<lparr>ar_limiter := slot_release_locked a failed (ar_limiter r), ar_calls := add_mset (ALeaving, a) cs,
       ar_guesses := (if \<not> failed \<and> w = ar_window r a then (ar_guesses r)(a := ar_guesses r a - 1) else ar_guesses r)\<rparr>)"
  (is "al_inv ?r")
proof (rule al_inv_at [OF inv _ cs, where M = "{#(ALeaving, a)#}"])
  show "ar_limiter ?r = upd_entry a (\<lambda>e. e\<lparr>at_failures := (if failed then at_failures e + 1 else at_failures e), at_refs := at_refs e - 1\<rparr>)
      (ar_limiter r)" by (simp add: slot_release_locked_def)
  show "entry_ok ?r a"
    using al_invD(2) [OF inv, of a] by (auto simp: entry_ok_def Let_def cs slot_release_locked_def split: if_splits)
qed auto

lemma sweep_simps [simp]:
  "al_limit (al_sweep now l) = al_limit l" "al_window (al_sweep now l) = al_window l" "al_hash (al_sweep now l) = al_hash l"
  "al_heap (al_sweep now l) = al_heap l" "al_next (al_sweep now l) = al_next l"
  by (simp_all add: al_sweep_def)

lemma sweep_keys:
  "al_keys (al_sweep now l) h = Some a \<Longrightarrow> al_keys l h = Some a"
  "al_keys l h = Some a \<Longrightarrow> at_refs (al_heap l a) \<noteq> 0 \<Longrightarrow> al_keys (al_sweep now l) h = Some a"
  by (auto simp: al_sweep_def split: if_splits option.splits)

lemma entry_ok_limiter:
  "al_heap l = al_heap (ar_limiter r) \<Longrightarrow> al_limit l = al_limit (ar_limiter r) \<Longrightarrow> entry_ok (r\<lparr>ar_limiter := l\<rparr>) a = entry_ok r a"
  by (simp add: entry_ok_def Let_def)

lemma al_inv_sweep:
  assumes "al_inv r"
  shows "al_inv (r\<lparr>ar_limiter := al_sweep now (ar_limiter r)\<rparr>)"
proof (rule al_invI)
  show "\<exists>h. al_keys (ar_limiter (r\<lparr>ar_limiter := al_sweep now (ar_limiter r)\<rparr>)) h = Some a"
    if "calls_at has_ref a (ar_calls (r\<lparr>ar_limiter := al_sweep now (ar_limiter r)\<rparr>)) \<noteq> 0" for a
  proof -
    from that have "calls_at has_ref a (ar_calls r) \<noteq> 0" by simp
    then have "at_refs (al_heap (ar_limiter r) a) \<noteq> 0" using al_invD(2) [OF assms, of a] by (simp add: entry_ok_def Let_def)
    with al_invD(5) [OF assms, of a] \<open>calls_at has_ref a (ar_calls r) \<noteq> 0\<close> show ?thesis
      using sweep_keys(2) [of "ar_limiter r" _ a now] by fastforce
  qed
qed (use al_invD [OF assms] in \<open>auto simp: entry_ok_limiter dest!: sweep_keys(1)\<close>)

lemma al_inv_renew:
  assumes inv: "al_inv r"
  shows "al_inv ((note_window (Some a) r)\<lparr>ar_limiter := upd_entry a (\<lambda>e. e\<lparr>at_failures := 0, at_start := now\<rparr>) (ar_limiter r)\<rparr>)"
    (is "al_inv ?r")
proof (rule al_invI)
  note ok = al_invD(2) [OF inv]
  show "entry_ok ?r b" for b
  proof (cases "b = a")
    case True
    have "calls_at is_checking a (ar_calls r) \<le> calls_at has_slot a (ar_calls r)"
      by (rule calls_at_mono) (auto elim: is_checking.elims)
    then have "int (calls_at is_checking a (ar_calls r)) \<le> 2 * al_limit (ar_limiter r) - 1"
      using ok [of a] al_invD(1) [OF inv] by (simp add: entry_ok_def Let_def)
    moreover have "w \<le> Suc (ar_window r a)" if "calls_at (\<lambda>p. p = AChecking w) a (ar_calls r) \<noteq> 0" for w
    proof -
      have "w \<le> ar_window r a" using ok [of a] that unfolding entry_ok_def Let_def by blast
      then show ?thesis by simp
    qed
    ultimately show ?thesis using ok [of a] True by (auto simp: entry_ok_def Let_def note_window_def)
  qed (use ok [of b] in \<open>simp add: entry_ok_def Let_def note_window_def\<close>)
qed (use al_invD [OF inv] in \<open>auto simp: note_window_def\<close>)

lemma al_inv_create:
  assumes inv: "al_inv r" and none: "al_keys (ar_limiter r) h = None"
  shows "al_inv ((note_window (Some (al_next (ar_limiter r))) r)\<lparr>ar_limiter := (ar_limiter r)\<lparr>al_keys := (al_keys (ar_limiter r))(h \<mapsto> al_next (ar_limiter r)),
    al_heap := (al_heap (ar_limiter r))(al_next (ar_limiter r) := no_attempts now), al_next := Suc (al_next (ar_limiter r))\<rparr>\<rparr>)"
    (is "al_inv ?r")
proof (rule al_invI)
  let ?n = "al_next (ar_limiter r)"
  have fresh: "calls_at P ?n (ar_calls r) = 0" for P
    using al_invD(6) [OF inv, of ?n] by (auto intro: calls_at_zero)
  show "entry_ok ?r b" for b
  proof (cases "b = ?n")
    case True
    then show ?thesis using al_invD(1) [OF inv] by (simp add: entry_ok_def Let_def fresh no_attempts_def note_window_def)
  next
    case False
    then show ?thesis using al_invD(2) [OF inv, of b] by (simp add: entry_ok_def Let_def note_window_def)
  qed
  show "\<exists>k. al_keys (ar_limiter ?r) k = Some a" if "calls_at has_ref a (ar_calls ?r) \<noteq> 0" for a
  proof -
    from that al_invD(5) [OF inv, of a] obtain k where "al_keys (ar_limiter r) k = Some a" by (auto simp: note_window_def)
    with none show ?thesis by (intro exI [of _ k]) auto
  qed
  show "k = k'" if "al_keys (ar_limiter ?r) k = Some a" "al_keys (ar_limiter ?r) k' = Some a" for k k' a
    using that al_invD(3) [OF inv, of _ a] al_invD(4) [OF inv, of k a k'] by (auto split: if_splits)
  show "a < al_next (ar_limiter ?r)" if "al_keys (ar_limiter ?r) k = Some a" for k a
    using that al_invD(3) [OF inv, of k a] by (auto split: if_splits)
qed (use al_invD(1,6) [OF inv] in \<open>auto simp: note_window_def\<close>)

lemma al_inv_entry:
  assumes inv: "al_inv r" and e: "current_entry now key (al_sweep now (ar_limiter r)) = (l, a)"
  shows "al_inv ((note_window (renewed now key (ar_limiter r)) r)\<lparr>ar_limiter := l\<rparr>) \<and> al_keys l (al_hash l key) = Some a"
proof -
  let ?s = "al_sweep now (ar_limiter r)"
  let ?r = "r\<lparr>ar_limiter := ?s\<rparr>"
  note inv' = al_inv_sweep [OF inv, of now]
  have nw: "(note_window w ?r)\<lparr>ar_limiter := l\<rparr> = (note_window w r)\<lparr>ar_limiter := l\<rparr>" for w
    by (cases w) (simp_all add: note_window_def)
  show ?thesis
  proof (cases "al_keys ?s (al_hash (ar_limiter r) key)")
    case None
    from None e have l: "l = ?s\<lparr>al_keys := (al_keys ?s)(al_hash (ar_limiter r) key \<mapsto> al_next (ar_limiter r)),
        al_heap := (al_heap (ar_limiter r))(al_next (ar_limiter r) := no_attempts now), al_next := Suc (al_next (ar_limiter r))\<rparr>"
      "a = al_next (ar_limiter r)" by (auto simp: current_entry_def)
    have "al_inv ((note_window (Some a) ?r)\<lparr>ar_limiter := l\<rparr>)"
      using al_inv_create [OF inv', of "al_hash (ar_limiter r) key" now] None by (simp add: l)
    then have "al_inv ((note_window (Some a) r)\<lparr>ar_limiter := l\<rparr>)" by (simp only: nw)
    moreover have "renewed now key (ar_limiter r) = Some a" using None l(2) by (simp add: renewed_def)
    ultimately show ?thesis using l by simp
  next
    case (Some b)
    show ?thesis
    proof (cases "now - at_start (al_heap (ar_limiter r) b) \<ge> al_window (ar_limiter r)")
      case True
      with Some e have l: "l = upd_entry a (\<lambda>e. e\<lparr>at_failures := 0, at_start := now\<rparr>) ?s" "b = a"
        by (auto simp: current_entry_def)
      have "al_inv ((note_window (Some a) ?r)\<lparr>ar_limiter := l\<rparr>)" using al_inv_renew [OF inv', of a now] by (simp add: l)
      then have "al_inv ((note_window (Some a) r)\<lparr>ar_limiter := l\<rparr>)" by (simp only: nw)
      moreover have "renewed now key (ar_limiter r) = Some a" using Some True l(2) by (simp add: renewed_def)
      ultimately show ?thesis using l Some by simp
    next
      case False
      with Some e have l: "l = ?s" "b = a" by (auto simp: current_entry_def)
      with False Some have "renewed now key (ar_limiter r) = None" by (simp add: renewed_def)
      with inv' Some l show ?thesis by (simp add: note_window_def)
    qed
  qed
qed

lemma al_inv_wait:
  assumes inv: "al_inv r" and k: "al_keys (ar_limiter r) h = Some a"
  shows "al_inv (r\<lparr>ar_limiter := upd_entry a (\<lambda>e. e\<lparr>at_refs := at_refs e + 1\<rparr>) (ar_limiter r), ar_calls := add_mset (AWaiting, a) (ar_calls r)\<rparr>)"
    (is "al_inv ?r")
proof (rule al_invI)
  show "entry_ok ?r b" for b using al_invD(2) [OF inv, of b] by (auto simp: entry_ok_def Let_def)
  show "\<exists>h. al_keys (ar_limiter ?r) h = Some b" if "calls_at has_ref b (ar_calls ?r) \<noteq> 0" for b
    using that k al_invD(5) [OF inv, of b] by (auto split: if_splits)
  show "calls_at (\<lambda>_. True) b (ar_calls ?r) = 0 \<and> ar_guesses ?r b = 0" if "al_next (ar_limiter ?r) \<le> b" for b
    using that al_invD(3) [OF inv k] al_invD(6) [OF inv, of b] by auto
qed (use al_invD(1,3,4) [OF inv] in auto)

lemma al_inv_reserve:
  assumes inv: "al_inv r" and a: "al_reserve (ar_now r) key (ar_limiter r) = (l, x)"
  shows "x = None \<Longrightarrow> al_inv ((note_window (renewed (ar_now r) key (ar_limiter r)) r)\<lparr>ar_limiter := l\<rparr>)"
    "x = Some b \<Longrightarrow> al_inv ((note_window (renewed (ar_now r) key (ar_limiter r)) r)
       \<lparr>ar_limiter := l, ar_calls := add_mset (AWaiting, b) (ar_calls r)\<rparr>)"
proof -
  obtain l1 c where e: "current_entry (ar_now r) key (al_sweep (ar_now r) (ar_limiter r)) = (l1, c)" by fastforce
  note i = al_inv_entry [OF inv e]
  have nc: "ar_calls (note_window w r) = ar_calls r" for w by (cases w) (simp_all add: note_window_def)
  show "al_inv ((note_window (renewed (ar_now r) key (ar_limiter r)) r)\<lparr>ar_limiter := l\<rparr>)" if "x = None"
    using that a e i by (auto simp: al_reserve_def split: if_splits)
  show "al_inv ((note_window (renewed (ar_now r) key (ar_limiter r)) r)
       \<lparr>ar_limiter := l, ar_calls := add_mset (AWaiting, b) (ar_calls r)\<rparr>)" if "x = Some b"
    using that a e i al_inv_wait [OF conjunct1 [OF i], of "al_hash l1 key" c]
    by (auto simp: al_reserve_def nc split: if_splits)
qed

lemma al_step_inv: "al_step r r' \<Longrightarrow> al_inv r \<Longrightarrow> al_inv r'"
proof (induction rule: al_step.induct)
  case (al_tick now r)
  have "entry_ok (r\<lparr>ar_now := now\<rparr>) a = entry_ok r a" for a by (simp add: entry_ok_def)
  with al_tick show ?case by (simp add: al_inv_def)
next
  case (al_reserve_ok r key l a)
  then show ?case by (intro al_inv_reserve(2)) auto
next
  case (al_reserve_no r key l)
  then show ?case by (intro al_inv_reserve(1)) auto
qed (blast intro: al_inv_enter al_inv_cancel al_inv_admit al_inv_refuse al_inv_done al_inv_leave)+

lemma al_init_inv:
  assumes "al_init r"
  shows "al_inv r"
proof -
  from assms obtain hash limit window where l: "newAuthLimiter hash limit window = Some (ar_limiter r)"
    and r: "ar_calls r = {#}" "\<And>a. ar_guesses r a = 0" by (auto simp: al_init_def)
  from l have "0 < al_limit (ar_limiter r)" "al_keys (ar_limiter r) = Map.empty"
    "al_heap (ar_limiter r) = (\<lambda>_. no_attempts zeroTime)"
    by (auto simp: newAuthLimiter_def split: if_splits dest!: sym [of _ "ar_limiter r"])
  with r show ?thesis by (intro al_invI) (auto simp: entry_ok_def Let_def no_attempts_def)
qed

interpretation al: step_invariant al_init al_step al_inv
  by unfold_locales (rule al_init_inv, assumption, rule al_step_inv)

section \<open>Properties\<close>



text \<open>
  A client and user with \<open>limit\<close> failures are locked out until their window is over, and no longer.
  Until then \<open>acquire\<close> refuses and leaves the entry as it is; afterwards, or when the key has no entry,
  it admits the login whenever a slot is free.
\<close>

theorem lockout_until_window_over:
  assumes "al_limit l > 0"
  shows "(al_keys l (al_hash l key) = Some a \<and> at_failures (al_heap l a) \<ge> al_limit l \<and> now - at_start (al_heap l a) < al_window l \<longrightarrow>
       snd (al_acquire now key l) = None \<and> al_heap (fst (al_acquire now key l)) a = al_heap l a)
    \<and> (al_keys l (al_hash l key) = None \<or> (al_keys l (al_hash l key) = Some a \<and> now - at_start (al_heap l a) \<ge> al_window l
         \<and> int (at_slots (al_heap l a)) < al_limit l) \<longrightarrow> snd (al_acquire now key l) \<noteq> None)"
proof (intro conjI)
  show "al_keys l (al_hash l key) = Some a \<and> at_failures (al_heap l a) \<ge> al_limit l \<and> now - at_start (al_heap l a) < al_window l \<longrightarrow>
      snd (al_acquire now key l) = None \<and> al_heap (fst (al_acquire now key l)) a = al_heap l a"
    by (auto simp: al_acquire_def al_reserve_def current_entry_def al_sweep_def)
  show "al_keys l (al_hash l key) = None \<or> (al_keys l (al_hash l key) = Some a \<and> now - at_start (al_heap l a) \<ge> al_window l
        \<and> int (at_slots (al_heap l a)) < al_limit l) \<longrightarrow> snd (al_acquire now key l) \<noteq> None"
    using assms by (auto simp: al_acquire_def al_reserve_def current_entry_def al_sweep_def send_slot_def check_blocked_def no_attempts_def)
qed

section \<open>Witnesses\<close>

definition demo_limiter :: "(nat \<rightharpoonup> nat) \<Rightarrow> (nat \<Rightarrow> attempts) \<Rightarrow> nat \<Rightarrow> auth_limiter" where
  "demo_limiter ks hp n = \<lparr>al_limit = 1, al_window = 10, al_hash = length, al_keys = ks, al_heap = hp, al_next = n, al_lastSweep = zeroTime\<rparr>"

definition demo_logins :: al_run where
  "demo_logins = \<lparr>ar_limiter = demo_limiter Map.empty (\<lambda>_. no_attempts zeroTime) 0, ar_now = zeroTime, ar_calls = {#},
     ar_window = (\<lambda>_. 0), ar_guesses = (\<lambda>_. 0)\<rparr>"

definition demo_entry :: "nat \<Rightarrow> auth_limiter" where
  "demo_entry slots = demo_limiter [2 \<mapsto> 0]
     ((\<lambda>_. no_attempts zeroTime)(0 := \<lparr>at_failures = 0, at_start = zeroTime, at_slots = slots, at_refs = 1\<rparr>)) 1"

definition demo_check :: al_run where
  "demo_check = \<lparr>ar_limiter = demo_entry 1, ar_now = zeroTime, ar_calls = {#(AChecking 1, 0)#},
     ar_window = (\<lambda>_. 0)(0 := 1), ar_guesses = (\<lambda>_. 0)(0 := 1)\<rparr>"

lemma demo_check_run: "reachable al_init al_step demo_check"
proof -
  let ?r1 = "\<lparr>ar_limiter = demo_entry 0, ar_now = zeroTime, ar_calls = {#(AWaiting, 0)#},
     ar_window = (\<lambda>_. 0)(0 := 1), ar_guesses = (\<lambda>_. 0)(0 := 0)\<rparr>"
  let ?r2 = "?r1\<lparr>ar_limiter := demo_entry 1, ar_calls := {#(AEntered, 0)#}\<rparr>"
  have "newAuthLimiter length 1 10 = Some (ar_limiter demo_logins)"
    by (simp add: newAuthLimiter_def demo_logins_def demo_limiter_def)
  then have "al_init demo_logins" unfolding al_init_def by (auto simp: demo_logins_def)
  then have 0: "reachable al_init al_step demo_logins" by (rule reach_init)
  have "al_reserve zeroTime ''ip'' (ar_limiter demo_logins) = (demo_entry 0, Some 0)"
    by (simp add: al_reserve_def al_sweep_def current_entry_def demo_logins_def demo_entry_def demo_limiter_def upd_entry_def no_attempts_def fun_eq_iff)
  moreover have "renewed zeroTime ''ip'' (ar_limiter demo_logins) = Some 0"
    by (simp add: renewed_def al_sweep_def demo_logins_def demo_limiter_def)
  ultimately have "al_step demo_logins ?r1"
    using al_reserve_ok [of demo_logins "''ip''" "demo_entry 0" 0] by (simp add: demo_logins_def note_window_def)
  then have 1: "reachable al_init al_step ?r1" by (rule reach_step [OF 0])
  have "send_slot 0 (demo_entry 0) = Some (demo_entry 1)"
    by (simp add: send_slot_def demo_entry_def demo_limiter_def upd_entry_def fun_eq_iff)
  then have "al_step ?r1 ?r2" using al_enter [of ?r1 0 "{#}" "demo_entry 1"] by simp
  then have 2: "reachable al_init al_step ?r2" by (rule reach_step [OF 1])
  have "check_blocked 0 (demo_entry 1) = (demo_entry 1, False)" by (simp add: check_blocked_def demo_entry_def demo_limiter_def)
  then have "al_step ?r2 demo_check" using al_admit [of ?r2 0 "{#}" "demo_entry 1"] by (simp add: demo_check_def)
  then show ?thesis by (rule reach_step [OF 2])
qed


theorem lockout_until_window_over_witness:
  "snd (al_acquire 5 ''ip'' (demo_limiter [2 \<mapsto> 0] (\<lambda>_. \<lparr>at_failures = 1, at_start = 0, at_slots = 0, at_refs = 0\<rparr>) 1)) = None
     \<and> snd (al_acquire 10 ''ip'' (demo_limiter [2 \<mapsto> 0] (\<lambda>_. \<lparr>at_failures = 1, at_start = 0, at_slots = 0, at_refs = 0\<rparr>) 1)) \<noteq> None"
  using lockout_until_window_over [of "demo_limiter [2 \<mapsto> 0] (\<lambda>_. \<lparr>at_failures = 1, at_start = 0, at_slots = 0, at_refs = 0\<rparr>) 1" "''ip''" 0]
  by (simp add: demo_limiter_def)

end
