(* ===== verification/SubsonicAuth.thy ===== *)
theory SubsonicAuth
  imports ServerAuth AuthLimiter
begin

text \<open>
  Authentication of Subsonic requests (\<open>server/subsonic/middlewares.go\<close>), over the accounts, the token
  checks and the login limiter. The MD5 sum, printed in hexadecimal, is an argument. The error
  \<open>context canceled\<close> of a lookup means that the client went away.
\<close>

record sub_request = http_request +
  sr_query :: "(string \<times> string) list"
  sr_clientIP :: string

text \<open>\<open>req.Params(r).String\<close>: the first value of a parameter, if it is not empty.\<close>

definition param_String :: "sub_request \<Rightarrow> string \<Rightarrow> string option" where
  "param_String r p =
     (case map_of (sr_query r) p of None \<Rightarrow> None | Some v \<Rightarrow> if v = [] then None else Some v)"

definition param_or_empty :: "sub_request \<Rightarrow> string \<Rightarrow> string" where
  "param_or_empty r p = gg_V [] (param_String r p)"

definition fromInternalOrProxyAuth :: "net_ops \<Rightarrow> server_config \<Rightarrow> sub_request \<Rightarrow> string \<times> bool" where
  "fromInternalOrProxyAuth net cf r =
     (let username = InternalAuth (http_request.truncate r)
      in if username \<noteq> [] then (username, True)
         else (UsernameFromExtAuthHeader net cf (http_request.truncate r), False))"

text \<open>The values for the context, or the first required parameter that is missing.\<close>

record sub_context =
  sx_username :: string
  sx_client :: string
  sx_version :: string

definition checkRequiredParameters :: "net_ops \<Rightarrow> server_config \<Rightarrow> sub_request \<Rightarrow> string + sub_context" where
  "checkRequiredParameters net cf r =
     (let username = fst (fromInternalOrProxyAuth net cf r);
          required = (if username \<noteq> [] then [''v'', ''c''] else [''u'', ''v'', ''c''])
      in case find (\<lambda>p. param_String r p = None) required of
           Some p \<Rightarrow> Inl p
         | None \<Rightarrow> Inr \<lparr>sx_username = (if username = [] then param_or_empty r ''u'' else username),
                      sx_client = param_or_empty r ''c'', sx_version = param_or_empty r ''v''\<rparr>)"

section \<open>Credentials\<close>

definition hex_val :: "char \<Rightarrow> nat option" where
  "hex_val c =
     (let n = (of_char c :: nat)
      in if 48 \<le> n \<and> n \<le> 57 then Some (n - 48)
         else if 97 \<le> n \<and> n \<le> 102 then Some (n - 87)
         else if 65 \<le> n \<and> n \<le> 70 then Some (n - 55)
         else None)"

fun hex_DecodeString :: "string \<Rightarrow> string option" where
  "hex_DecodeString [] = Some []"
| "hex_DecodeString [c] = None"
| "hex_DecodeString (c # d # cs) =
     (case (hex_val c, hex_val d, hex_DecodeString cs) of
        (Some a, Some b, Some rest) \<Rightarrow> Some (char_of (16 * a + b) # rest)
      | _ \<Rightarrow> None)"

definition hex_digit :: "nat \<Rightarrow> char" where
  "hex_digit n = (if n < 10 then char_of (48 + n) else char_of (87 + n))"

fun hex_EncodeToString :: "string \<Rightarrow> string" where
  "hex_EncodeToString [] = []"
| "hex_EncodeToString (c # cs) =
     hex_digit ((of_char c :: nat) div 16) # hex_digit ((of_char c :: nat) mod 16) # hex_EncodeToString cs"

definition AudienceSubsonic :: string where "AudienceSubsonic = ''subsonic''"

definition validateCredentials ::
  "string verifier \<Rightarrow> time \<Rightarrow> (string \<Rightarrow> string) \<Rightarrow> account \<Rightarrow> string \<Rightarrow> string \<Rightarrow> string \<Rightarrow> string \<Rightarrow> bool" where
  "validateCredentials verify now md5hex user pass token salt jwt =
     (if jwt \<noteq> []
      then (case Validate verify now jwt of
              Inl _ \<Rightarrow> False
            | Inr c \<Rightarrow> cl_Subject c = us_UserName user \<and> CheckClaims c (user.truncate user) AudienceSubsonic = None)
      else if pass \<noteq> []
      then (let pass1 = (if HasPrefix pass ''enc:''
                         then (case hex_DecodeString (drop 4 pass) of Some d \<Rightarrow> d | None \<Rightarrow> pass) else pass)
            in pass1 = ac_Password user)
      else if token \<noteq> [] then md5hex (ac_Password user @ salt) = token
      else False)"

section \<open>The middleware\<close>

datatype sub_outcome = SubNext account | SubFail | SubDropped

datatype cred_error = Lookup repo_error | ErrInvalidAuth

definition canceledErr :: repo_error where "canceledErr = SQLError ''context canceled''"

definition limit_key :: "sub_request \<Rightarrow> string" where
  "limit_key r = sr_clientIP r @ CHR 0x00 # ToLower (param_or_empty r ''u'')"

text \<open>\<open>acquire\<close> and \<open>release\<close> for a limiter that may be nil.\<close>

definition opt_acquire :: "time \<Rightarrow> string \<Rightarrow> auth_limiter option \<Rightarrow> auth_limiter option \<times> nat option option" where
  "opt_acquire now key lm =
     (case lm of
        None \<Rightarrow> (None, Some None)
      | Some l \<Rightarrow> (case al_acquire now key l of (l1, None) \<Rightarrow> (Some l1, None) | (l1, Some a) \<Rightarrow> (Some l1, Some (Some a))))"

definition opt_release :: "nat option \<Rightarrow> bool \<Rightarrow> auth_limiter option \<Rightarrow> auth_limiter option" where
  "opt_release slot failed lm =
     (case (slot, lm) of (Some a, Some l) \<Rightarrow> Some (slot_release a failed l) | _ \<Rightarrow> lm)"

definition check_login ::
  "string verifier \<Rightarrow> (string \<Rightarrow> string) \<Rightarrow> (string \<Rightarrow> string option) \<Rightarrow> string option \<Rightarrow> time \<Rightarrow> sub_request \<Rightarrow> users_db
   \<Rightarrow> cred_error + account" where
  "check_login verify md5hex dec err now r db =
     (case FindByUsernameWithPassword dec err (param_or_empty r ''u'') db of
        Inl e \<Rightarrow> Inl (Lookup e)
      | Inr usr \<Rightarrow>
          (if validateCredentials verify now md5hex usr (param_or_empty r ''p'') (param_or_empty r ''t'') (param_or_empty r ''s'')
                (param_or_empty r ''jwt'')
           then Inr usr else Inl ErrInvalidAuth))"

definition sub_authenticate ::
  "string verifier \<Rightarrow> (string \<Rightarrow> string) \<Rightarrow> (string \<Rightarrow> string option) \<Rightarrow> net_ops \<Rightarrow> server_config \<Rightarrow> string option \<Rightarrow> bool \<Rightarrow> time
   \<Rightarrow> sub_request \<Rightarrow> auth_limiter option \<Rightarrow> users_db \<Rightarrow> auth_limiter option \<times> sub_outcome" where
  "sub_authenticate verify md5hex dec net cf err ctxDone now r lm db =
     (let username = fst (fromInternalOrProxyAuth net cf r)
      in if username \<noteq> []
         then (lm, case FindByUsername err username db of
                     Inl e \<Rightarrow> if e = canceledErr then SubDropped else SubFail
                   | Inr usr \<Rightarrow> SubNext usr)
         else (case opt_acquire now (limit_key r) lm of
                 (lm1, None) \<Rightarrow> (lm1, if ctxDone then SubDropped else SubFail)
               | (lm1, Some slot) \<Rightarrow>
                   (let res = check_login verify md5hex dec err now r db;
                        invalidLogin = (res = Inl (Lookup NotFound) \<or> res = Inl ErrInvalidAuth);
                        lm2 = opt_release slot invalidLogin lm1
                    in case res of
                         Inr usr \<Rightarrow> (lm2, SubNext usr)
                       | Inl e \<Rightarrow> (lm2, if e = Lookup canceledErr then SubDropped else SubFail))))"

datatype admin_outcome = AdminNext | AdminInternalError | AdminDenied

definition adminOnly :: "account option \<Rightarrow> admin_outcome" where
  "adminOnly logged =
     (case logged of None \<Rightarrow> AdminInternalError | Some u \<Rightarrow> if us_IsAdmin u then AdminNext else AdminDenied)"

text \<open>The cookie that remembers the player of a user.\<close>

definition playerIDCookieName :: "string \<Rightarrow> string" where
  "playerIDCookieName userName = ''nd-player-'' @ hex_EncodeToString userName"

definition playerIDFromCookie :: "(string \<rightharpoonup> string) \<Rightarrow> string \<Rightarrow> string" where
  "playerIDFromCookie cookies userName = gg_V [] (cookies (playerIDCookieName userName))"

section \<open>Encoded passwords\<close>

lemma hex_val_digit: "n < 16 \<Longrightarrow> hex_val (hex_digit n) = Some n"
  by (auto simp: hex_val_def hex_digit_def Let_def)

lemma hex_roundtrip: "hex_DecodeString (hex_EncodeToString s) = Some s"
proof (induction s)
  case (Cons c s)
  have "(of_char c :: nat) < 256" by simp
  then have "(of_char c :: nat) div 16 < 16" "(of_char c :: nat) mod 16 < 16" by (simp_all add: less_mult_imp_div_less)
  then show ?case using Cons by (simp add: hex_val_digit)
qed simp

lemma hex_inj: "hex_EncodeToString s = hex_EncodeToString t \<longleftrightarrow> s = t"
  by (metis hex_roundtrip option.inject)

lemma encoded_password_accepted:
  assumes "ac_Password u \<noteq> []"
  shows "validateCredentials verify now md5hex u (''enc:'' @ hex_EncodeToString (ac_Password u)) token salt []"
  by (simp add: validateCredentials_def HasPrefix_def hex_roundtrip)

section \<open>Logins one after the other\<close>

text \<open>When no login is in flight, entries have no references and no slots in use.\<close>

definition al_idle :: "auth_limiter \<Rightarrow> bool" where
  "al_idle l \<longleftrightarrow> 0 < al_limit l \<and> (\<forall>a. at_slots (al_heap l a) = 0 \<and> at_refs (al_heap l a) = 0)
     \<and> (\<forall>h a. al_keys l h = Some a \<longrightarrow> a < al_next l)
     \<and> (\<forall>h h' a. al_keys l h = Some a \<longrightarrow> al_keys l h' = Some a \<longrightarrow> h = h')"

lemma al_idleI:
  assumes "0 < al_limit l" "\<And>a. at_slots (al_heap l a) = 0" "\<And>a. at_refs (al_heap l a) = 0"
    "\<And>h a. al_keys l h = Some a \<Longrightarrow> a < al_next l" "\<And>h h' a. al_keys l h = Some a \<Longrightarrow> al_keys l h' = Some a \<Longrightarrow> h = h'"
  shows "al_idle l"
  using assms unfolding al_idle_def by blast

lemma al_idleD:
  assumes "al_idle l"
  shows "0 < al_limit l" "at_slots (al_heap l a) = 0" "at_refs (al_heap l a) = 0" "al_keys l h = Some a \<Longrightarrow> a < al_next l"
    "al_keys l h = Some a \<Longrightarrow> al_keys l h' = Some a \<Longrightarrow> h = h'"
  using assms unfolding al_idle_def by blast+

lemma upd_idle:
  "al_idle l \<Longrightarrow> (\<And>e. at_slots (f e) = at_slots e \<and> at_refs (f e) = at_refs e) \<Longrightarrow> al_idle (upd_entry a f l)"
  by (rule al_idleI) (auto dest: al_idleD)

lemma sweep_idle: "al_idle l \<Longrightarrow> al_idle (al_sweep now l)"
  by (rule al_idleI) (auto dest!: sweep_keys(1) dest: al_idleD)

lemma current_entry_idle:
  assumes "al_idle l" "current_entry now key l = (l1, a)"
  shows "al_idle l1 \<and> al_limit l1 = al_limit l \<and> al_window l1 = al_window l \<and> al_hash l1 = al_hash l \<and> al_keys l1 (al_hash l key) = Some a"
proof (cases "al_keys l (al_hash l key)")
  case None
  with assms(2) have l1: "l1 = l\<lparr>al_keys := (al_keys l)(al_hash l key \<mapsto> al_next l), al_heap := (al_heap l)(al_next l := no_attempts now),
      al_next := Suc (al_next l)\<rparr>" and a: "a = al_next l" by (auto simp: current_entry_def)
  have "al_idle l1"
  proof (rule al_idleI)
    show "h = h'" if "al_keys l1 h = Some b" "al_keys l1 h' = Some b" for h h' b
      using that al_idleD(4) [OF assms(1), of h b] al_idleD(4) [OF assms(1), of h' b] al_idleD(5) [OF assms(1), of h b h']
      by (auto simp: l1 split: if_splits)
    show "b < al_next l1" if "al_keys l1 h = Some b" for h b
      using that al_idleD(4) [OF assms(1), of h b] by (auto simp: l1 split: if_splits)
  qed (use al_idleD(1-3) [OF assms(1)] in \<open>simp_all add: l1 no_attempts_def\<close>)
  then show ?thesis by (simp add: l1 a)
next
  case (Some b)
  show ?thesis
  proof (cases "now - at_start (al_heap l b) \<ge> al_window l")
    case True
    with Some assms(2) have "l1 = upd_entry b (\<lambda>e. e\<lparr>at_failures := 0, at_start := now\<rparr>) l" "a = b" by (auto simp: current_entry_def)
    with assms(1) Some show ?thesis by (simp add: upd_idle)
  next
    case False
    with Some assms show ?thesis by (simp add: current_entry_def)
  qed
qed

definition reserved :: "time \<Rightarrow> string \<Rightarrow> auth_limiter \<Rightarrow> auth_limiter \<times> nat" where
  "reserved now key l = current_entry now key (al_sweep now l)"

text \<open>A login that nobody interferes with, and what it leaves behind.\<close>

lemma acquire_idle:
  assumes "al_idle l" "reserved now key l = (l1, a)"
  shows "al_acquire now key l =
    (if at_failures (al_heap l1 a) \<ge> al_limit l then (l1, None)
     else (upd_entry a (\<lambda>e. e\<lparr>at_refs := 1, at_slots := Suc 0\<rparr>) l1, Some a))"
proof -
  have "al_idle l1" "al_limit l1 = al_limit l"
    using current_entry_idle [OF sweep_idle [OF assms(1)] assms(2) [unfolded reserved_def]] by simp_all
  with assms show ?thesis
    by (auto simp: al_acquire_def al_reserve_def reserved_def send_slot_def check_blocked_def al_idle_def upd_entry_def)
qed

lemma release_idle:
  assumes "al_idle l1"
  shows "slot_release a failed (upd_entry a (\<lambda>e. e\<lparr>at_refs := 1, at_slots := Suc 0\<rparr>) l1)
    = upd_entry a (\<lambda>e. e\<lparr>at_failures := (if failed then at_failures e + 1 else at_failures e)\<rparr>) l1"
proof -
  have "at_slots (al_heap l1 a) = 0" "at_refs (al_heap l1 a) = 0" using assms by (simp_all add: al_idle_def)
  then show ?thesis by (simp add: slot_release_def slot_release_locked_def recv_slot_def upd_entry_def fun_eq_iff)
qed

definition attempt :: "time \<Rightarrow> string \<Rightarrow> bool \<Rightarrow> auth_limiter \<Rightarrow> auth_limiter" where
  "attempt now key failed l =
     (case al_acquire now key l of (l1, None) \<Rightarrow> l1 | (l1, Some a) \<Rightarrow> slot_release a failed l1)"

lemma attempt_eq:
  assumes "al_idle l" "reserved now key l = (l1, a)"
  shows "al_idle l1 \<and> attempt now key failed l =
    (if failed \<and> at_failures (al_heap l1 a) < al_limit l then upd_entry a (\<lambda>e. e\<lparr>at_failures := at_failures e + 1\<rparr>) l1 else l1)"
proof -
  have i: "al_idle l1" using current_entry_idle [OF sweep_idle [OF assms(1)] assms(2) [unfolded reserved_def]] by simp
  then show ?thesis by (simp add: attempt_def acquire_idle [OF assms] release_idle [OF i]) (simp add: upd_entry_def)
qed

text \<open>An entry of the key whose window started at \<open>t0\<close> and that has seen \<open>n\<close> failures.\<close>

definition tracked :: "string \<Rightarrow> time \<Rightarrow> int \<Rightarrow> auth_limiter \<Rightarrow> bool" where
  "tracked key t0 n l \<longleftrightarrow> al_idle l
     \<and> (\<exists>a. al_keys l (al_hash l key) = Some a \<and> at_start (al_heap l a) = t0 \<and> n \<le> at_failures (al_heap l a))"

lemma reserved_tracked:
  assumes "tracked key t0 n l" "now < t0 + al_window l" "reserved now key' l = (l1, b)"
  shows "tracked key t0 n l1 \<and> al_limit l1 = al_limit l \<and> al_window l1 = al_window l
    \<and> (key' = key \<longrightarrow> n \<le> at_failures (al_heap l1 b) \<and> at_start (al_heap l1 b) = t0)"
proof -
  let ?s = "al_sweep now l"
  from assms(1) obtain a where idle: "al_idle l" and a: "al_keys l (al_hash l key) = Some a" "at_start (al_heap l a) = t0"
    "n \<le> at_failures (al_heap l a)" by (auto simp: tracked_def)
  then have s: "al_keys ?s (al_hash l key) = Some a" using assms(2) by (simp add: al_sweep_def)
  note i = sweep_idle [OF idle, of now]
  then have known: "a < al_next l" using s unfolding al_idle_def by force
  note c = current_entry_idle [OF i assms(3) [unfolded reserved_def]]
  have "al_keys l1 (al_hash l key) = Some a \<and> al_heap l1 a = al_heap l a"
  proof (cases "al_keys ?s (al_hash l key')")
    case None
    with assms(3) s known show ?thesis by (auto simp: reserved_def current_entry_def)
  next
    case (Some d)
    have "d = a \<Longrightarrow> \<not> now - at_start (al_heap l d) \<ge> al_window l" using assms(2) a(2) by simp
    with Some assms(3) s show ?thesis by (auto simp: reserved_def current_entry_def split: if_splits)
  qed
  with c a show ?thesis by (auto simp: tracked_def)
qed

lemma attempt_tracked:
  assumes "tracked key t0 n l" "now < t0 + al_window l"
  shows "tracked key t0 (if key' = key \<and> failed \<and> n < al_limit l then n + 1 else n) (attempt now key' failed l)
    \<and> al_limit (attempt now key' failed l) = al_limit l \<and> al_window (attempt now key' failed l) = al_window l"
proof -
  obtain l1 b where r: "reserved now key' l = (l1, b)" by fastforce
  have idle: "al_idle l" using assms(1) by (simp add: tracked_def)
  note t = reserved_tracked [OF assms r]
  have k: "al_keys l1 (al_hash l1 key') = Some b"
    using current_entry_idle [OF sweep_idle [OF idle] r [unfolded reserved_def]] by simp
  from t obtain a where a: "al_idle l1" "al_keys l1 (al_hash l1 key) = Some a" "at_start (al_heap l1 a) = t0" "n \<le> at_failures (al_heap l1 a)"
    by (auto simp: tracked_def)
  show ?thesis
  proof (cases "failed \<and> at_failures (al_heap l1 b) < al_limit l")
    case True
    let ?l = "upd_entry b (\<lambda>e. e\<lparr>at_failures := at_failures e + 1\<rparr>) l1"
    have "al_idle ?l" by (rule upd_idle [OF a(1)]) simp
    moreover have "attempt now key' failed l = ?l" using True attempt_eq [OF idle r, of failed] by simp
    ultimately show ?thesis using t a k True by (auto simp: tracked_def)
  next
    case False
    then have "attempt now key' failed l = l1" using attempt_eq [OF idle r, of failed] by auto
    with False t k a show ?thesis by (auto simp: tracked_def)
  qed
qed

lemma first_attempt:
  assumes "newAuthLimiter hash limit window = Some l"
  shows "tracked key t0 (if failed then 1 else 0) (attempt t0 key failed l)
    \<and> al_limit (attempt t0 key failed l) = limit \<and> al_window (attempt t0 key failed l) = al_window l \<and> 0 < limit"
proof -
  from assms have l: "0 < al_limit l" "al_limit l = limit" "al_keys l = Map.empty" "al_heap l = (\<lambda>_. no_attempts zeroTime)"
    by (auto simp: newAuthLimiter_def split: if_splits)
  then have idle: "al_idle l" by (intro al_idleI) (simp_all add: no_attempts_def)
  obtain l1 a where r: "reserved t0 key l = (l1, a)" by fastforce
  note c = current_entry_idle [OF sweep_idle [OF idle] r [unfolded reserved_def]]
  have "al_keys (al_sweep t0 l) = Map.empty" using l(3) by (auto simp: al_sweep_def)
  then have new: "al_heap l1 a = no_attempts t0" using r by (auto simp: reserved_def current_entry_def)
  have "al_idle (upd_entry a (\<lambda>e. e\<lparr>at_failures := at_failures e + 1\<rparr>) l1)" by (rule upd_idle) (use c in simp_all)
  with c new l attempt_eq [OF idle r, of failed] show ?thesis by (auto simp: tracked_def no_attempts_def)
qed

section \<open>Histories of requests\<close>

record sub_call =
  sl_now :: time
  sl_request :: sub_request
  sl_db :: users_db
  sl_err :: "string option"
  sl_ctxDone :: bool

definition sub_serve ::
  "string verifier \<Rightarrow> (string \<Rightarrow> string) \<Rightarrow> (string \<Rightarrow> string option) \<Rightarrow> net_ops \<Rightarrow> server_config \<Rightarrow> sub_call
   \<Rightarrow> auth_limiter option \<Rightarrow> auth_limiter option \<times> sub_outcome" where
  "sub_serve verify md5hex dec net cf c lm =
     sub_authenticate verify md5hex dec net cf (sl_err c) (sl_ctxDone c) (sl_now c) (sl_request c) lm (sl_db c)"

definition sub_history ::
  "string verifier \<Rightarrow> (string \<Rightarrow> string) \<Rightarrow> (string \<Rightarrow> string option) \<Rightarrow> net_ops \<Rightarrow> server_config \<Rightarrow> sub_call list
   \<Rightarrow> auth_limiter option \<Rightarrow> auth_limiter option" where
  "sub_history verify md5hex dec net cf cs lm = foldl (\<lambda>lm c. fst (sub_serve verify md5hex dec net cf c lm)) lm cs"

text \<open>A login with the parameters of the request, and one that failed.\<close>

definition with_params :: "net_ops \<Rightarrow> server_config \<Rightarrow> sub_call \<Rightarrow> bool" where
  "with_params net cf c \<longleftrightarrow> fst (fromInternalOrProxyAuth net cf (sl_request c)) = []"

definition bad_login ::
  "string verifier \<Rightarrow> (string \<Rightarrow> string) \<Rightarrow> (string \<Rightarrow> string option) \<Rightarrow> sub_call \<Rightarrow> bool" where
  "bad_login verify md5hex dec c \<longleftrightarrow>
     check_login verify md5hex dec (sl_err c) (sl_now c) (sl_request c) (sl_db c) \<in> {Inl (Lookup NotFound), Inl ErrInvalidAuth}"

lemma serve_limiter:
  "fst (sub_serve verify md5hex dec net cf c (Some l)) =
     Some (if with_params net cf c then attempt (sl_now c) (limit_key (sl_request c)) (bad_login verify md5hex dec c) l else l)"
  by (cases "al_acquire (sl_now c) (limit_key (sl_request c)) l")
    (auto simp: sub_serve_def sub_authenticate_def Let_def with_params_def attempt_def bad_login_def opt_acquire_def opt_release_def
      split: option.splits sum.splits)

lemma serve_locked:
  assumes "tracked key t0 (al_limit l) l" "sl_now c < t0 + al_window l" "with_params net cf c" "limit_key (sl_request c) = key"
  shows "snd (sub_serve verify md5hex dec net cf c (Some l)) = (if sl_ctxDone c then SubDropped else SubFail)"
proof -
  obtain l1 b where r: "reserved (sl_now c) key l = (l1, b)" by fastforce
  have "al_idle l" using assms(1) by (simp add: tracked_def)
  with reserved_tracked [OF assms(1,2) r] acquire_idle [OF _ r] have "al_acquire (sl_now c) key l = (l1, None)" by simp
  with assms(3,4) show ?thesis by (simp add: sub_serve_def sub_authenticate_def Let_def with_params_def opt_acquire_def)
qed

text \<open>Failed logins with the same address and user name among the requests.\<close>

definition failures_for ::
  "string verifier \<Rightarrow> (string \<Rightarrow> string) \<Rightarrow> (string \<Rightarrow> string option) \<Rightarrow> net_ops \<Rightarrow> server_config \<Rightarrow> string \<Rightarrow> sub_call list \<Rightarrow> nat" where
  "failures_for verify md5hex dec net cf key cs =
     length (filter (\<lambda>c. with_params net cf c \<and> limit_key (sl_request c) = key \<and> bad_login verify md5hex dec c) cs)"

lemma history_tracked:
  assumes "tracked key t0 n l" "\<forall>c \<in> set cs. sl_now c < t0 + al_window l" "n \<le> al_limit l"
  shows "\<exists>l'. sub_history verify md5hex dec net cf cs (Some l) = Some l' \<and> al_limit l' = al_limit l \<and> al_window l' = al_window l
    \<and> tracked key t0 (min (al_limit l) (n + int (failures_for verify md5hex dec net cf key cs))) l'"
  using assms
proof (induction cs arbitrary: n l)
  case Nil
  then show ?case by (simp add: sub_history_def failures_for_def min_def)
next
  case (Cons c cs)
  let ?key = "limit_key (sl_request c)" and ?bad = "bad_login verify md5hex dec c"
  let ?l = "if with_params net cf c then attempt (sl_now c) ?key ?bad l else l"
  let ?n = "if with_params net cf c \<and> ?key = key \<and> ?bad \<and> n < al_limit l then n + 1 else n"
  have t: "tracked key t0 ?n ?l \<and> al_limit ?l = al_limit l \<and> al_window ?l = al_window l"
    using Cons.prems attempt_tracked [of key t0 n l "sl_now c" ?key ?bad] by auto
  have n: "?n \<le> al_limit ?l" using t Cons.prems(3) by auto
  have "\<forall>c \<in> set cs. sl_now c < t0 + al_window ?l" using t Cons.prems(2) by simp
  from Cons.IH [OF conjunct1 [OF t] this n]
  obtain l' where l': "sub_history verify md5hex dec net cf cs (Some ?l) = Some l'" "al_limit l' = al_limit l" "al_window l' = al_window l"
    "tracked key t0 (min (al_limit l) (?n + int (failures_for verify md5hex dec net cf key cs))) l'" using t by auto
  have "sub_history verify md5hex dec net cf (c # cs) (Some l) = Some l'"
    using l'(1) by (simp add: sub_history_def serve_limiter)
  moreover have "min (al_limit l) (?n + int (failures_for verify md5hex dec net cf key cs))
      = min (al_limit l) (n + int (failures_for verify md5hex dec net cf key (c # cs)))"
    using Cons.prems(3) by (auto simp: failures_for_def min_def)
  ultimately show ?case using l'(2-4) by auto
qed

section \<open>Properties\<close>


text \<open>What proves to the server that a request with parameters comes from the user of a row.\<close>

definition proves ::
  "string verifier \<Rightarrow> (string \<Rightarrow> string) \<Rightarrow> time \<Rightarrow> sub_request \<Rightarrow> user_row \<Rightarrow> string \<Rightarrow> bool" where
  "proves verify md5hex now r x pw \<longleftrightarrow>
     (\<exists>m. verify now (param_or_empty r ''jwt'') = Inr m \<and> cl_Subject (ClaimsFromToken m) = ur_user_name x
        \<and> cl_UserID (ClaimsFromToken m) \<in> {[], ur_id x} \<and> cl_Epoch (ClaimsFromToken m) = ur_token_epoch x
        \<and> (cl_Audience (ClaimsFromToken m) = [] \<or> AudienceSubsonic \<in> set (cl_Audience (ClaimsFromToken m))))
     \<or> param_or_empty r ''p'' = pw
     \<or> (HasPrefix (param_or_empty r ''p'') ''enc:'' \<and> hex_DecodeString (drop 4 (param_or_empty r ''p'')) = Some pw)
     \<or> md5hex (pw @ param_or_empty r ''s'') = param_or_empty r ''t''"

lemma credentials_prove:
  assumes "validateCredentials verify now md5hex u (param_or_empty r ''p'') (param_or_empty r ''t'') (param_or_empty r ''s'')
      (param_or_empty r ''jwt'')" "u = (of_row db x)\<lparr>ac_Password := pw\<rparr>"
  shows "proves verify md5hex now r x pw"
proof (cases "param_or_empty r ''jwt'' = []")
  case True
  with assms show ?thesis by (auto simp: validateCredentials_def proves_def Let_def split: if_splits option.splits)
next
  case False
  with assms obtain m where "verify now (param_or_empty r ''jwt'') = Inr m" "cl_Subject (ClaimsFromToken m) = ur_user_name x"
    "CheckClaims (ClaimsFromToken m) (user.truncate (of_row db x)) AudienceSubsonic = None"
    by (auto simp: validateCredentials_def Validate_def of_row_def user.defs split: sum.splits)
  then show ?thesis by (auto simp: proves_def CheckClaims_def of_row_def user.defs List.member_iff split: if_splits)
qed

text \<open>
  C27: nobody gets at the Subsonic API without proof. A request that is let through runs as an account of
  the database. Either its name was vouched for internally or by a trusted proxy; or the request
  names the account and brings a token issued to it for this API since its last password change, its
  password, plain or in hexadecimal, or the salted MD5 sum of it. The password is the stored one,
  decrypted if it can be decrypted.
\<close>

theorem subsonic_access_needs_proof:
  assumes "snd (sub_authenticate verify md5hex dec net cf err ctxDone now r lm db) = SubNext u"
  shows "\<exists>x \<in> set (db_users db). us_ID u = ur_id x \<and> us_IsAdmin u = ur_is_admin x
    \<and> (let name = fst (fromInternalOrProxyAuth net cf r)
       in if name \<noteq> [] then EqualFold (ur_user_name x) name
          else EqualFold (ur_user_name x) (param_or_empty r ''u'')
            \<and> proves verify md5hex now r x (gg_V (ur_password x) (dec (ur_password x))))"
proof (cases "fst (fromInternalOrProxyAuth net cf r) = []")
  case False
  with assms have "FindByUsername err (fst (fromInternalOrProxyAuth net cf r)) db = Inr u"
    by (auto simp: sub_authenticate_def Let_def split: sum.splits if_splits)
  with False show ?thesis
    by (auto simp: FindByUsername_def queryOne_row_def of_row_def split: option.splits dest!: find_SomeD)
next
  case True
  with assms have c: "check_login verify md5hex dec err now r db = Inr u"
    by (auto simp: sub_authenticate_def Let_def split: sum.splits if_splits prod.splits option.splits)
  then obtain v where v: "FindByUsername err (param_or_empty r ''u'') db = Inr v" "u = fst (decryptPassword dec v)"
    "validateCredentials verify now md5hex u (param_or_empty r ''p'') (param_or_empty r ''t'') (param_or_empty r ''s'') (param_or_empty r ''jwt'')"
    by (auto simp: check_login_def FindByUsernameWithPassword_def split: sum.splits if_splits)
  then obtain x where x: "x \<in> set (db_users db)" "EqualFold (ur_user_name x) (param_or_empty r ''u'')" "v = of_row db x"
    by (auto simp: FindByUsername_def queryOne_row_def split: option.splits dest!: find_SomeD)
  then have u: "u = (of_row db x)\<lparr>ac_Password := gg_V (ur_password x) (dec (ur_password x))\<rparr>"
    using v(2) by (auto simp: decryptPassword_def of_row_def gg_V_def split: option.splits)
  have "proves verify md5hex now r x (gg_V (ur_password x) (dec (ur_password x)))" by (rule credentials_prove [OF v(3) u])
  with x True u show ?thesis by (auto simp: of_row_def intro!: bexI [of _ x])
qed

text \<open>
  C29: changing a password ends the sessions of the user. A token issued to an account for its web
  session or for Subsonic requests is refused by both APIs once the password of the account has been
  changed, whatever else happened to the accounts before and after, as long as it was not deleted.
\<close>

theorem password_change_ends_sessions:
  assumes "accounts_ok db0" "row_of i db0 = Some r0" "keeps i db0 db1"
    and "users_Update enc dec editing valid None env logged i u0 db1 = (db2, Inr ep)" "ac_NewPassword u0 \<noteq> []"
      "\<And>p. enc p \<noteq> Some []" "pe_newID env \<noteq> []"
    and "keeps i db2 db3" and "claims = ToMap (userClaims t (user.truncate (of_row db0 r0)) audience)"
    and "rq_jwt rq = Some claims" "sc_AutoLogin cf = []" "UsernameFromExtAuthHeader net cf rq = []"
    and "verify now tok = Inr claims" "tok \<noteq> []" and "FindByUsernameWithPassword dec' err' name db3 = Inr usr"
  shows "Authenticator net cf err rq db3 = None \<and> \<not> validateCredentials verify now md5hex usr pass token salt tok"
proof
  note stale = stale_claims [OF assms(1-8), where t = t and audience = audience, folded assms(9)]
  show "Authenticator net cf err rq db3 = None"
    by (rule stale_token_refused [OF _ assms(10-12)]) (rule stale)
  from assms(15) obtain x where "x \<in> set (db_users db3)" "usr = fst (decryptPassword dec' (of_row db3 x))"
    by (auto simp: FindByUsernameWithPassword_def FindByUsername_def queryOne_row_def split: sum.splits option.splits dest!: find_SomeD)
  moreover from this(2) have "user.truncate usr = user.truncate (of_row db3 x)"
    by (simp add: decryptPassword_def user.defs split: option.splits)
  ultimately have "CheckClaims (ClaimsFromToken claims) (user.truncate usr) AudienceSubsonic \<noteq> None"
    using stale [of x AudienceSubsonic] by simp
  with assms(13,14) show "\<not> validateCredentials verify now md5hex usr pass token salt tok"
    by (simp add: validateCredentials_def Validate_def)
qed

text \<open>A password that cannot be decrypted counts as it is stored.\<close>

lemma ciphertext_accepted:
  assumes "dec (ur_password x) = None" "ur_password x \<noteq> []" "\<not> HasPrefix (ur_password x) ''enc:''"
  shows "validateCredentials verify now md5hex (fst (decryptPassword dec (of_row db x))) (ur_password x) token salt []"
  using assms by (simp add: validateCredentials_def decryptPassword_def of_row_def Let_def)

section \<open>Witnesses\<close>

definition demo_sub :: "string \<Rightarrow> sub_request" where
  "demo_sub pass = http_request.extend demo_request
     \<lparr>sr_query = [(''u'', ''bob''), (''p'', pass), (''v'', ''1.16''), (''c'', ''app'')], sr_clientIP = ''10.0.0.1''\<rparr>"

definition demo_call :: "time \<Rightarrow> string \<Rightarrow> sub_call" where
  "demo_call now pass = \<lparr>sl_now = now, sl_request = demo_sub pass, sl_db = demo_db, sl_err = None, sl_ctxDone = False\<rparr>"

definition demo_refuse :: "string verifier" where "demo_refuse now tok = Inl ''invalid token''"

lemma demo_sub_params:
  "param_or_empty (demo_sub pass) ''u'' = ''bob''" "param_or_empty (demo_sub pass) ''p'' = pass"
  "param_or_empty (demo_sub pass) ''t'' = []" "param_or_empty (demo_sub pass) ''s'' = []" "param_or_empty (demo_sub pass) ''jwt'' = []"
  by (simp_all add: param_or_empty_def param_String_def demo_sub_def http_request.defs gg_V_def)

lemma demo_with_params: "with_params demo_net demo_config (demo_call now pass)"
  by (simp add: with_params_def demo_call_def demo_sub_def fromInternalOrProxyAuth_def http_request.defs InternalAuth_def
      UsernameFromExtAuthHeader_def demo_config_def demo_request_def gg_V_def Let_def)

lemma demo_key: "limit_key (sl_request (demo_call now pass)) = limit_key (demo_sub ''guess'')"
  by (simp add: demo_call_def limit_key_def demo_sub_params) (simp add: demo_sub_def http_request.defs)

lemma demo_check_login:
  "check_login demo_refuse id (plain_dec ''k'') None now (demo_sub pass) demo_db
     = (if pass = ''secret'' then Inr (demo_user\<lparr>ac_Password := ''secret''\<rparr>) else Inl ErrInvalidAuth)"
  if "\<not> HasPrefix pass ''enc:''"
  using that
  by (auto simp: check_login_def demo_sub_params FindByUsernameWithPassword_def FindByUsername_def queryOne_row_def demo_db_def demo_row_def
      EqualFold_def decryptPassword_def of_row_def plain_dec_def HasPrefix_def validateCredentials_def demo_user_def Let_def)


theorem subsonic_access_needs_proof_witness:
  "snd (sub_serve demo_refuse id (plain_dec ''k'') demo_net demo_config (demo_call 5 ''secret'') None)
     = SubNext (demo_user\<lparr>ac_Password := ''secret''\<rparr>)
   \<and> (\<exists>x \<in> set (db_users demo_db). ur_id x = ''u1'' \<and> proves demo_refuse id 5 (demo_sub ''secret'') x ''secret'')"
proof
  have name: "fst (fromInternalOrProxyAuth demo_net demo_config (demo_sub ''secret'')) = []"
    using demo_with_params [of 5 "''secret''"] by (simp add: with_params_def demo_call_def)
  show s: "snd (sub_serve demo_refuse id (plain_dec ''k'') demo_net demo_config (demo_call 5 ''secret'') None)
      = SubNext (demo_user\<lparr>ac_Password := ''secret''\<rparr>)"
    using name demo_check_login [of "''secret''" 5]
    by (simp add: sub_serve_def demo_call_def sub_authenticate_def Let_def opt_acquire_def HasPrefix_def)
  from subsonic_access_needs_proof [OF s [unfolded sub_serve_def]]
  show "\<exists>x \<in> set (db_users demo_db). ur_id x = ''u1'' \<and> proves demo_refuse id 5 (demo_sub ''secret'') x ''secret''"
    by (simp add: demo_call_def name demo_db_def demo_row_def demo_user_def of_row_def plain_dec_def HasPrefix_def gg_V_def)
qed

theorem password_change_ends_sessions_witness:
  "Authenticator demo_net demo_config None demo_request demo_db = Some demo_user
     \<and> Authenticator demo_net demo_config None demo_request
         (fst (users_Update (plain_enc ''k'') (plain_dec ''k'') True (\<lambda>_. True) None demo_put_env (Some demo_user) ''u1'' demo_change demo_db)) = None"
proof
  let ?c = "userClaims Second (user.truncate demo_user) []"
  obtain db' where db': "users_Update (plain_enc ''k'') (plain_dec ''k'') True (\<lambda>_. True) None demo_put_env (Some demo_user) ''u1'' demo_change demo_db
      = (db', Inr (Some 1))" and rows: "map ur_user_name (db_users db') = [''bob'']" using demo_update by (elim exE conjE) (rule that)
  from rows obtain row where row: "db_users db' = [row]" "ur_user_name row = ''bob''" by (auto simp: map_eq_Cons_conv)
  have usr: "FindByUsernameWithPassword Some None ''bob'' db' = Inr (fst (decryptPassword Some (of_row db' row)))"
    by (simp add: FindByUsernameWithPassword_def FindByUsername_def queryOne_row_def row)
  let ?usr = "fst (decryptPassword Some (of_row db' row))"
  have "Authenticator demo_net demo_config None demo_request db' = None
      \<and> \<not> validateCredentials (\<lambda>_ _. Inr (ToMap ?c)) 0 id ?usr [] [] [] ''token''"
    by (rule password_change_ends_sessions [OF demo_accounts_ok demo_row_of rtranclp.rtrancl_refl db' _ plain_cipher(3) _ rtranclp.rtrancl_refl _ _ _ _ _ _ usr])
      (simp_all add: demo_change_def demo_put_env_def demo_request_def demo_user_def demo_config_def UsernameFromExtAuthHeader_def)
  then show "Authenticator demo_net demo_config None demo_request
      (fst (users_Update (plain_enc ''k'') (plain_dec ''k'') True (\<lambda>_. True) None demo_put_env (Some demo_user) ''u1'' demo_change demo_db)) = None"
    by (simp add: db')
  have "get_str (ToMap ?c) ''sub'' = Some ''bob''"
    by (simp add: get_str_def ToMap_keys userClaims_def demo_user_def of_row_def demo_row_def user.defs)
  then show "Authenticator demo_net demo_config None demo_request demo_db = Some demo_user"
    by (simp add: Authenticator_def authenticateRequest_def UsernameFromConfig_def demo_config_def UsernameFromToken_def demo_request_def
        gg_V_def contextWithUser_def FindByUsername_def queryOne_row_def)
      (simp add: demo_db_def demo_row_def demo_user_def tokenAllowed_def ClaimsFromToken_of_ToMap userClaims_def CheckClaims_def of_row_def user.defs)
qed

end
