(* ===== verification/NaturalSort.thy ===== *)
theory NaturalSort
  imports Prelude "HOL-Library.List_Lexorder" "HOL-Library.Product_Lexorder"
begin

text \<open>
  Natural comparison of strings (\<open>utils/natural/natural.go\<close>), the collation of the database. The two
  indexes of the loop are the rests of the two strings. The reference is the lexicographic order of
  keys: the tokens of a string, then its digit runs from the last to the first.
\<close>

definition isDigit :: "char \<Rightarrow> bool" where
  "isDigit c \<longleftrightarrow> 48 \<le> (of_char c :: nat) \<and> (of_char c :: nat) \<le> 57"

definition nat_lower :: "char \<Rightarrow> char" where
  "nat_lower c = (let n = (of_char c :: nat) in if 65 \<le> n \<and> n \<le> 90 then char_of (n + 97 - 65) else c)"

definition stripZeros :: "string \<Rightarrow> string" where
  "stripZeros s =
     (let t = dropWhile (\<lambda>c. c = CHR ''0'') s
      in if t = [] \<and> s \<noteq> [] then [last s] else t)"

fun digit_loop :: "string \<Rightarrow> string \<Rightarrow> int" where
  "digit_loop (x # xs) (y # ys) = (if x \<noteq> y then of_char x - of_char y else digit_loop xs ys)"
| "digit_loop _ _ = 0"

definition compareNumbers :: "string \<Rightarrow> string \<Rightarrow> int" where
  "compareNumbers a b =
     (let sa = stripZeros a; sb = stripZeros b
      in if length sa \<noteq> length sb then int (length sa) - int (length sb) else digit_loop sa sb)"

text \<open>\<open>strings.Compare\<close>.\<close>

fun strings_Compare :: "string \<Rightarrow> string \<Rightarrow> int" where
  "strings_Compare [] [] = 0"
| "strings_Compare [] (y # ys) = -1"
| "strings_Compare (x # xs) [] = 1"
| "strings_Compare (x # xs) (y # ys) =
     (if x = y then strings_Compare xs ys else if (of_char x :: int) < of_char y then -1 else 1)"

function compare_loop :: "bool \<Rightarrow> string \<Rightarrow> string \<Rightarrow> int \<Rightarrow> int" where
  "compare_loop fld (x # xs) (y # ys) padTie =
     (let ca = (if fld then nat_lower x else x); cb = (if fld then nat_lower y else y)
      in if isDigit x \<and> isDigit y
         then (let ra = takeWhile isDigit (x # xs); rb = takeWhile isDigit (y # ys);
                   c = compareNumbers ra rb; t = strings_Compare ra rb
               in if c \<noteq> 0 then c
                  else compare_loop fld (dropWhile isDigit (x # xs)) (dropWhile isDigit (y # ys)) (if t \<noteq> 0 then t else padTie))
         else if isDigit x \<noteq> isDigit y then of_char ca - of_char cb
         else if ca \<noteq> cb then of_char ca - of_char cb
         else compare_loop fld xs ys padTie)"
| "compare_loop fld [] b padTie = (if b \<noteq> [] then - int (length b) else padTie)"
| "compare_loop fld (x # xs) [] padTie = int (length (x # xs))"
  by pat_completeness auto
termination
  by (relation "measure (\<lambda>(_, a, _, _). length a)") (auto simp: length_dropWhile_le le_imp_less_Suc)

definition natural_compare :: "string \<Rightarrow> string \<Rightarrow> bool \<Rightarrow> int" where
  "natural_compare a b fld = compare_loop fld a b 0"

definition Compare :: "string \<Rightarrow> string \<Rightarrow> int" where "Compare a b = natural_compare a b False"

definition CompareFold :: "string \<Rightarrow> string \<Rightarrow> int" where "CompareFold a b = natural_compare a b True"

section \<open>Numbers\<close>

definition codes :: "string \<Rightarrow> nat list" where
  "codes s = map of_char s"

fun number :: "nat list \<Rightarrow> nat" where
  "number [] = 0"
| "number (d # ds) = d * 10 ^ length ds + number ds"

definition run_val :: "string \<Rightarrow> nat" where
  "run_val s = number (map digit_val s)"

lemma number_bound: "list_all (\<lambda>d. d < 10) ds \<Longrightarrow> number ds < 10 ^ length ds"
proof (induction ds)
  case (Cons d ds)
  then have "d * 10 ^ length ds + number ds < (d + 1) * 10 ^ length ds" by simp
  also have "\<dots> \<le> 10 * 10 ^ length ds" using Cons.prems by (intro mult_right_mono) auto
  finally show ?case by simp
qed simp

lemma digit_val_less: "isDigit c \<Longrightarrow> digit_val c < 10"
  by (auto simp: isDigit_def digit_val_def)

lemma digit_val_code: "isDigit c \<Longrightarrow> (of_char c :: nat) = 48 + digit_val c"
  by (auto simp: isDigit_def digit_val_def)

lemma digit_val_inj: "isDigit x \<Longrightarrow> isDigit y \<Longrightarrow> digit_val x = digit_val y \<Longrightarrow> x = y"
  using digit_val_code [of x] digit_val_code [of y] by (simp flip: of_char_eq_iff [where 'a = nat])

lemma run_val_bound: "list_all isDigit s \<Longrightarrow> run_val s < 10 ^ length s"
  unfolding run_val_def using number_bound [of "map digit_val s"] by (simp add: list_all_iff digit_val_less)

lemma run_val_Cons: "run_val (c # s) = digit_val c * 10 ^ length s + run_val s"
  by (simp add: run_val_def)

lemma sgn_digits:
  "list_all isDigit a \<Longrightarrow> list_all isDigit b \<Longrightarrow> length a = length b \<Longrightarrow> sgn (digit_loop a b) = sgn (int (run_val a) - int (run_val b))"
proof (induction a b rule: digit_loop.induct)
  case (1 x xs y ys)
  show ?case
  proof (cases "x = y")
    case True
    with 1 show ?thesis by (simp add: run_val_Cons)
  next
    case False
    then have ne: "digit_val x \<noteq> digit_val y" using 1(2,3) digit_val_inj [of x y] by auto
    have less: "run_val (p # ps) < run_val (q # qs)" if "digit_val p < digit_val q" "list_all isDigit ps" "length ps = length qs" for p q ps qs
    proof -
      have "run_val (p # ps) < (digit_val p + 1) * 10 ^ length ps" using run_val_bound [OF that(2)] by (simp add: run_val_Cons)
      also have "\<dots> \<le> digit_val q * 10 ^ length ps" using that(1) by (intro mult_right_mono) auto
      also have "\<dots> \<le> run_val (q # qs)" using that(3) by (simp add: run_val_Cons)
      finally show ?thesis .
    qed
    have "sgn (int (run_val (x # xs)) - int (run_val (y # ys))) = sgn (int (digit_val x) - int (digit_val y))"
      using ne less [of x y xs ys] less [of y x ys xs] 1(2-4) by (cases "digit_val x < digit_val y") (auto simp: sgn_if)
    moreover have "(of_char x :: int) = 48 + int (digit_val x)" "(of_char y :: int) = 48 + int (digit_val y)"
      using 1(2,3) digit_val_code [of x] digit_val_code [of y] by (auto simp flip: of_nat_of_char [where 'a = int])
    ultimately show ?thesis using False by simp
  qed
qed (auto simp: run_val_def)

lemma stripZeros_props:
  assumes "list_all isDigit s" "s \<noteq> []"
  shows "list_all isDigit (stripZeros s) \<and> run_val (stripZeros s) = run_val s \<and> stripZeros s \<noteq> []
    \<and> (length (stripZeros s) > 1 \<longrightarrow> 10 ^ (length (stripZeros s) - 1) \<le> run_val s)"
  using assms
proof (induction s)
  case (Cons c s)
  show ?case
  proof (cases "c = CHR ''0''")
    case True
    then have c: "digit_val c = 0" "isDigit c" by (simp_all add: digit_val_def isDigit_def)
    show ?thesis
    proof (cases "s = []")
      case True
      then show ?thesis using \<open>c = _\<close> c by (simp add: stripZeros_def)
    next
      case False
      with True have "stripZeros (c # s) = stripZeros s" by (simp add: stripZeros_def Let_def)
      with Cons False c show ?thesis by (simp add: run_val_Cons)
    qed
  next
    case False
    then have nz: "digit_val c \<noteq> 0" using Cons.prems(1) digit_val_inj [of c "CHR ''0''"] by (auto simp: isDigit_def digit_val_def)
    have "stripZeros (c # s) = c # s" using False by (simp add: stripZeros_def)
    moreover from nz have "1 * 10 ^ length s \<le> digit_val c * 10 ^ length s" by (intro mult_right_mono) auto
    ultimately show ?thesis using Cons.prems by (simp add: run_val_Cons trans_le_add1)
  qed
qed simp

lemma sgn_compareNumbers:
  assumes "list_all isDigit a" "a \<noteq> []" "list_all isDigit b" "b \<noteq> []"
  shows "sgn (compareNumbers a b) = sgn (int (run_val a) - int (run_val b))"
proof -
  let ?a = "stripZeros a" and ?b = "stripZeros b"
  note pa = stripZeros_props [OF assms(1,2)] and pb = stripZeros_props [OF assms(3,4)]
  have shorter: "run_val s < run_val t" if "length (stripZeros s) < length (stripZeros t)" "list_all isDigit s" "s \<noteq> []" "list_all isDigit t" "t \<noteq> []" for s t
  proof -
    note ps = stripZeros_props [OF that(2,3)] and pt = stripZeros_props [OF that(4,5)]
    have "run_val s < 10 ^ length (stripZeros s)" using run_val_bound ps by metis
    also have "\<dots> \<le> 10 ^ (length (stripZeros t) - 1)" using that(1) by (intro power_increasing) auto
    also have "\<dots> \<le> run_val t" using pt that(1) ps by (cases "stripZeros s") auto
    finally show ?thesis .
  qed
  consider "length ?a < length ?b" | "length ?b < length ?a" | "length ?a = length ?b" by linarith
  then show ?thesis
  proof cases
    case 3
    with pa pb sgn_digits [of ?a ?b] show ?thesis by (simp add: compareNumbers_def)
  qed (use shorter [of a b] shorter [of b a] assms in \<open>simp_all add: compareNumbers_def Let_def\<close>)
qed

lemma strings_Compare_codes:
  "strings_Compare a b = (if codes a < codes b then -1 else if codes b < codes a then 1 else 0)"
proof -
  have "(of_char x :: int) < of_char y \<longleftrightarrow> (of_char x :: nat) < of_char y" for x y
    by (simp flip: of_nat_of_char [where 'a = int])
  then show ?thesis
    by (induction a b rule: strings_Compare.induct) (auto simp: codes_def)
qed

section \<open>Keys\<close>

text \<open>All numbers sort where digits do, between \<open>/\<close> and \<open>:\<close>, and by value among themselves.\<close>

function tokens :: "bool \<Rightarrow> string \<Rightarrow> (nat \<times> nat) list" where
  "tokens fld [] = []"
| "tokens fld (x # xs) =
     (if isDigit x then (48, run_val (takeWhile isDigit (x # xs))) # tokens fld (dropWhile isDigit (x # xs))
      else (of_char (if fld then nat_lower x else x), 0) # tokens fld xs)"
  by pat_completeness auto
termination
  by (relation "measure (\<lambda>(_, a). length a)") (auto simp: length_dropWhile_le le_imp_less_Suc)

function runs :: "string \<Rightarrow> nat list list" where
  "runs [] = []"
| "runs (x # xs) =
     (if isDigit x then codes (takeWhile isDigit (x # xs)) # runs (dropWhile isDigit (x # xs)) else runs xs)"
  by pat_completeness auto
termination
  by (relation "measure length") (auto simp: length_dropWhile_le le_imp_less_Suc)

definition natural_key :: "bool \<Rightarrow> string \<Rightarrow> (nat \<times> nat) list \<times> nat list list" where
  "natural_key fld s = (tokens fld s, rev (runs s))"

definition cmp :: "'a :: linorder \<Rightarrow> 'a \<Rightarrow> int" where
  "cmp x y = (if x < y then -1 else if y < x then 1 else 0)"

lemma cmp_eq_0: "cmp x y = 0 \<longleftrightarrow> x = y"
  by (auto simp: cmp_def)

lemma cmp_Cons: "cmp (x # xs) (y # ys) = (if x = y then cmp xs ys else cmp x y)"
  by (auto simp: cmp_def)

lemma cmp_Nil: "cmp [] (y # ys) = -1" "cmp (x # xs) [] = 1" "cmp x x = 0"
  by (simp_all add: cmp_def)

lemma cmp_snoc: "length xs = length ys \<Longrightarrow> cmp (xs @ [x]) (ys @ [y]) = (if xs = ys then cmp x y else cmp xs ys)"
  by (induction xs ys rule: list_induct2) (auto simp: cmp_Cons, simp_all add: cmp_def)

lemma cmp_pair: "cmp (a, b) (c, d) = (if a = c then cmp b d else cmp a c)"
  by (auto simp: cmp_def)

lemma runs_length: "tokens fld a = tokens fld b \<Longrightarrow> length (runs a) = length (runs b)"
proof -
  have "length (runs s) = length (filter (\<lambda>t. fst t = 48) (tokens fld s))" for s
  proof (induction s rule: runs.induct)
    case (2 x xs)
    have "\<not> isDigit x \<Longrightarrow> of_char (if fld then nat_lower x else x) \<noteq> (48 :: nat)"
      by (auto simp: isDigit_def nat_lower_def Let_def)
    with 2 show ?case by simp
  qed simp
  then show "tokens fld a = tokens fld b \<Longrightarrow> length (runs a) = length (runs b)" by metis
qed

lemma cmp_key:
  "cmp (natural_key fld a) (natural_key fld b)
     = (if tokens fld a = tokens fld b then cmp (rev (runs a)) (rev (runs b)) else cmp (tokens fld a) (tokens fld b))"
  by (simp add: natural_key_def cmp_pair)

lemma key_number:
  assumes "isDigit x" "isDigit y" "run_val (takeWhile isDigit (x # xs)) = run_val (takeWhile isDigit (y # ys))"
  shows "cmp (natural_key fld (x # xs)) (natural_key fld (y # ys))
    = (let a = dropWhile isDigit (x # xs); b = dropWhile isDigit (y # ys)
       in if natural_key fld a = natural_key fld b then strings_Compare (takeWhile isDigit (x # xs)) (takeWhile isDigit (y # ys))
          else cmp (natural_key fld a) (natural_key fld b))"
proof -
  let ?a = "dropWhile isDigit (x # xs)" and ?b = "dropWhile isDigit (y # ys)"
  let ?ra = "takeWhile isDigit (x # xs)" and ?rb = "takeWhile isDigit (y # ys)"
  have k: "natural_key fld (x # xs) = ((48, run_val ?ra) # tokens fld ?a, rev (runs ?a) @ [codes ?ra])"
    "natural_key fld (y # ys) = ((48, run_val ?rb) # tokens fld ?b, rev (runs ?b) @ [codes ?rb])"
    using assms(1,2) by (simp_all add: natural_key_def)
  have sc: "strings_Compare ?ra ?rb = cmp (codes ?ra) (codes ?rb)" unfolding strings_Compare_codes cmp_def ..
  have n: "natural_key fld s = (tokens fld s, rev (runs s))" for s by (rule natural_key_def)
  show ?thesis
  proof (cases "tokens fld ?a = tokens fld ?b")
    case True
    then have "length (rev (runs ?a)) = length (rev (runs ?b))" unfolding length_rev by (rule runs_length)
    from cmp_snoc [OF this] show ?thesis
      unfolding k sc Let_def cmp_pair n [of ?a] n [of ?b] assms(3) True by (simp del: takeWhile.simps dropWhile.simps)
  next
    case False
    then show ?thesis
      unfolding k Let_def cmp_pair cmp_Cons n [of ?a] n [of ?b] assms(3) by (simp del: takeWhile.simps dropWhile.simps)
  qed
qed

lemma cmp_nat: "cmp m n = sgn (int m - int n)"
  by (simp add: cmp_def sgn_if)

lemma key_number_less:
  assumes "isDigit x" "isDigit y" "run_val (takeWhile isDigit (x # xs)) \<noteq> run_val (takeWhile isDigit (y # ys))"
  shows "cmp (natural_key fld (x # xs)) (natural_key fld (y # ys))
    = sgn (int (run_val (takeWhile isDigit (x # xs))) - int (run_val (takeWhile isDigit (y # ys))))"
  using assms by (simp add: cmp_key cmp_Cons cmp_pair cmp_nat)

lemma sgn_of_char: "sgn ((of_char x :: int) - of_char y) = cmp (of_char x :: nat) (of_char y)"
  by (auto simp: cmp_def sgn_if simp flip: of_nat_of_char [where 'a = int])

lemma fold_char:
  "\<not> isDigit x \<Longrightarrow> (of_char (if fld then nat_lower x else x) :: nat) < 48 \<or> 57 < (of_char (if fld then nat_lower x else x) :: nat)"
  "isDigit x \<Longrightarrow> nat_lower x = x"
  by (auto simp: isDigit_def nat_lower_def Let_def)

lemma key_digit_other:
  assumes "isDigit x \<noteq> isDigit y"
  shows "natural_key fld (x # xs) \<noteq> natural_key fld (y # ys)
    \<and> cmp (natural_key fld (x # xs)) (natural_key fld (y # ys))
      = sgn ((of_char (if fld then nat_lower x else x) :: int) - of_char (if fld then nat_lower y else y))"
proof -
  have digit: "48 \<le> (of_char z :: nat) \<and> (of_char z :: nat) \<le> 57" if "isDigit z" for z using that by (simp add: isDigit_def)
  let ?c = "\<lambda>z. of_char (if fld then nat_lower z else z) :: nat"
  have low: "?c z = of_char z" if "isDigit z" for z using fold_char(2) [OF that] by simp
  have other: "cmp ((48, v) # t) ((k, 0) # t') = cmp d k \<and> cmp ((k, 0) # t') ((48, v) # t) = cmp k d \<and> cmp d k \<noteq> 0 \<and> cmp k d \<noteq> 0"
    if "k < 48 \<or> 57 < k" "48 \<le> d \<and> d \<le> 57" for v k d :: nat and t t' :: "(nat \<times> nat) list"
    using that by (auto simp: cmp_Cons cmp_pair cmp_nat)
  have key: "cmp (natural_key fld (x # xs)) (natural_key fld (y # ys)) = cmp (tokens fld (x # xs)) (tokens fld (y # ys))"
    if "cmp (tokens fld (x # xs)) (tokens fld (y # ys)) \<noteq> 0" using that by (auto simp: cmp_key cmp_eq_0)
  have "cmp (natural_key fld (x # xs)) (natural_key fld (y # ys)) = cmp (?c x) (?c y) \<and> cmp (?c x) (?c y) \<noteq> 0"
  proof (cases "isDigit x")
    case True
    with assms have y: "\<not> isDigit y" by simp
    note o = other [OF fold_char(1) [OF y, of fld] digit [OF True]]
    have "tokens fld (y # ys) = (?c y, 0) # tokens fld ys" using y by simp
    with True o key low [OF True] show ?thesis by (simp only: tokens.simps if_True) metis
  next
    case False
    with assms have y: "isDigit y" by simp
    note o = other [OF fold_char(1) [OF False, of fld] digit [OF y]]
    have "tokens fld (x # xs) = (?c x, 0) # tokens fld xs" using False by simp
    with y o key low [OF y] show ?thesis by (simp only: tokens.simps if_True) metis
  qed
  then show ?thesis unfolding sgn_of_char by (metis cmp_eq_0)
qed

lemma key_other:
  assumes "\<not> isDigit x" "\<not> isDigit y"
  shows "cmp (natural_key fld (x # xs)) (natural_key fld (y # ys))
      = (let ca = (if fld then nat_lower x else x); cb = (if fld then nat_lower y else y)
         in if ca = cb then cmp (natural_key fld xs) (natural_key fld ys) else sgn ((of_char ca :: int) - of_char cb))
    \<and> (natural_key fld (x # xs) = natural_key fld (y # ys) \<longleftrightarrow>
        (if fld then nat_lower x else x) = (if fld then nat_lower y else y) \<and> natural_key fld xs = natural_key fld ys)"
  using assms by (auto simp: cmp_key natural_key_def cmp_Cons cmp_pair sgn_of_char Let_def)

text \<open>The loop compares keys; the tie kept so far decides between strings with the same key.\<close>

lemma sgn_compare_loop:
  "sgn (compare_loop fld a b t) = (if natural_key fld a = natural_key fld b then sgn t else cmp (natural_key fld a) (natural_key fld b))"
proof (induction fld a b t rule: compare_loop.induct)
  case (1 fld x xs y ys t)
  let ?ra = "takeWhile isDigit (x # xs)" and ?rb = "takeWhile isDigit (y # ys)"
  consider (digits) "isDigit x" "isDigit y" | (mixed) "isDigit x \<noteq> isDigit y" | (chars) "\<not> isDigit x" "\<not> isDigit y" by blast
  then show ?case
  proof cases
    case digits
    have n: "sgn (compareNumbers ?ra ?rb) = sgn (int (run_val ?ra) - int (run_val ?rb))"
      by (rule sgn_compareNumbers) (use digits in \<open>auto simp: list_all_iff dest: set_takeWhileD\<close>)
    show ?thesis
    proof (cases "run_val ?ra = run_val ?rb")
      case True
      with n have c: "compareNumbers ?ra ?rb = 0" by (metis diff_self sgn_0 sgn_eq_0_iff)
      have s: "sgn (strings_Compare ?ra ?rb) = strings_Compare ?ra ?rb" by (simp add: strings_Compare_codes)
      note k = key_number [OF digits True, of fld, unfolded Let_def]
      note ih = 1(1) [OF refl refl conjI [OF digits] refl refl refl refl]
      have "sgn (compare_loop fld (x # xs) (y # ys) t)
          = (if natural_key fld (dropWhile isDigit (x # xs)) = natural_key fld (dropWhile isDigit (y # ys))
             then (if strings_Compare ?ra ?rb \<noteq> 0 then strings_Compare ?ra ?rb else sgn t)
             else cmp (natural_key fld (dropWhile isDigit (x # xs))) (natural_key fld (dropWhile isDigit (y # ys))))"
        using digits c ih s by (simp add: Let_def del: takeWhile.simps dropWhile.simps)
      with k cmp_eq_0 [of "natural_key fld (x # xs)" "natural_key fld (y # ys)"]
        cmp_eq_0 [of "natural_key fld (dropWhile isDigit (x # xs))" "natural_key fld (dropWhile isDigit (y # ys))"]
      show ?thesis by (auto simp del: takeWhile.simps dropWhile.simps split: if_splits)
    next
      case False
      with n have c: "compareNumbers ?ra ?rb \<noteq> 0" by (metis eq_iff_diff_eq_0 of_nat_eq_iff sgn_0 sgn_eq_0_iff)
      have "natural_key fld (x # xs) \<noteq> natural_key fld (y # ys)" using digits False by (simp add: natural_key_def)
      with digits c n key_number_less [OF digits False, of fld] show ?thesis
        by (simp add: Let_def del: takeWhile.simps dropWhile.simps)
    qed
  next
    case mixed
    with key_digit_other [OF mixed, of fld xs ys] show ?thesis by (auto simp: Let_def)
  next
    case chars
    with key_other [OF chars, of fld xs ys] 1(2) [OF refl refl] show ?thesis by (auto simp: Let_def)
  qed
next
  case (2 fld b t)
  then show ?case by (cases b) (auto simp: natural_key_def cmp_pair cmp_Nil)
next
  case (3 fld x xs t)
  then show ?case by (auto simp: natural_key_def cmp_pair cmp_Nil)
qed

section \<open>Equal keys\<close>

definition folded :: "bool \<Rightarrow> string \<Rightarrow> string" where
  "folded fld s = map (\<lambda>c. if fld then nat_lower c else c) s"

lemma folded_digit: "isDigit (if fld then nat_lower c else c) = isDigit c"
  by (auto simp: isDigit_def nat_lower_def Let_def)

lemma folded_run: "list_all isDigit r \<Longrightarrow> folded fld r = r"
  using fold_char(2) by (auto simp: folded_def list_all_iff intro!: map_idI)

lemma folded_split:
  "takeWhile isDigit (folded fld s) = takeWhile isDigit s" "dropWhile isDigit (folded fld s) = folded fld (dropWhile isDigit s)"
proof -
  have d: "isDigit \<circ> (\<lambda>c. if fld then nat_lower c else c) = isDigit" by (rule ext) (simp add: folded_digit)
  have "takeWhile isDigit (folded fld s) = folded fld (takeWhile isDigit s)" unfolding folded_def takeWhile_map d ..
  then show "takeWhile isDigit (folded fld s) = takeWhile isDigit s"
    using folded_run [of "takeWhile isDigit s" fld] by (simp add: list_all_iff) (metis set_takeWhileD)
  show "dropWhile isDigit (folded fld s) = folded fld (dropWhile isDigit s)" unfolding folded_def dropWhile_map d ..
qed

lemma key_folded: "tokens False (folded fld s) = tokens fld s \<and> runs (folded fld s) = runs s"
proof (induction s rule: runs.induct)
  case (2 x xs)
  have f: "folded fld (x # xs) = (if fld then nat_lower x else x) # folded fld xs" by (simp add: folded_def)
  show ?case
  proof (cases "isDigit x")
    case True
    have "tokens False (folded fld (x # xs)) = (48, run_val (takeWhile isDigit (folded fld (x # xs)))) # tokens False (dropWhile isDigit (folded fld (x # xs)))
        \<and> runs (folded fld (x # xs)) = codes (takeWhile isDigit (folded fld (x # xs))) # runs (dropWhile isDigit (folded fld (x # xs)))"
      unfolding f using True by (simp add: folded_digit)
    with True 2(1) show ?thesis by (simp only: folded_split tokens.simps runs.simps if_True)
  next
    case False
    with 2(2) show ?thesis unfolding f by (simp add: folded_digit)
  qed
qed (simp add: folded_def)

lemma codes_inj: "codes a = codes b \<longleftrightarrow> a = b"
  unfolding codes_def by (rule inj_map_eq_map) (simp add: inj_on_def)

lemma token_head: "tokens fld (y # ys) = (48, v) # t \<Longrightarrow> isDigit y"
  using fold_char(1) [of y fld] by (auto split: if_splits)

lemma key_inj: "tokens fld a = tokens fld b \<Longrightarrow> runs a = runs b \<Longrightarrow> folded fld a = folded fld b"
proof (induction a arbitrary: b rule: runs.induct)
  case 1
  then show ?case by (cases b) (auto split: if_splits)
next
  case (2 x xs)
  from 2(3) obtain y ys where b: "b = y # ys" by (cases b) (auto split: if_splits)
  show ?case
  proof (cases "isDigit x")
    case True
    with 2(3) have y: "isDigit y" unfolding b using token_head by (metis tokens.simps(2))
    with True 2(3,4) have eq: "takeWhile isDigit (x # xs) = takeWhile isDigit b" "tokens fld (dropWhile isDigit (x # xs)) = tokens fld (dropWhile isDigit b)"
      "runs (dropWhile isDigit (x # xs)) = runs (dropWhile isDigit b)" unfolding b by (simp_all add: codes_inj)
    from 2(1) [OF True eq(2,3)] eq(1) have "folded fld (takeWhile isDigit (x # xs) @ dropWhile isDigit (x # xs))
        = folded fld (takeWhile isDigit b @ dropWhile isDigit b)" by (simp only: folded_def map_append)
    then show ?thesis by (simp only: takeWhile_dropWhile_id)
  next
    case False
    moreover have "\<not> isDigit y" using False 2(3) token_head [of fld x xs] unfolding b by (metis tokens.simps(2))
    ultimately show ?thesis using 2 unfolding b by (simp add: folded_def split: if_splits)
  qed
qed

lemma key_eq_iff: "natural_key fld a = natural_key fld b \<longleftrightarrow> folded fld a = folded fld b"
  using key_inj [of fld a b] key_folded [of fld a] key_folded [of fld b] unfolding natural_key_def by auto

section \<open>Properties\<close>

lemma compare_key: "sgn (natural_compare a b fld) = cmp (natural_key fld a) (natural_key fld b)"
  by (auto simp: natural_compare_def sgn_compare_loop cmp_def)

lemma compare_iff:
  "natural_compare a b fld < 0 \<longleftrightarrow> natural_key fld a < natural_key fld b"
  "natural_compare a b fld = 0 \<longleftrightarrow> natural_key fld a = natural_key fld b"
  "natural_compare a b fld > 0 \<longleftrightarrow> natural_key fld b < natural_key fld a"
  using compare_key [of a b fld] by (auto simp: cmp_def sgn_if split: if_splits)

text \<open>
  C33: natural comparison is a total order, as a collation of the database has to be. It agrees with
  the lexicographic order of keys, in which digit runs count as their numbers and padding decides only
  between strings that are equal otherwise; exchanging the strings flips the sign; and it finds two
  strings equal exactly if they are, for the folding variant up to the case of ASCII letters.
\<close>

theorem natural_order_total:
  "(Compare a b < 0 \<longleftrightarrow> natural_key False a < natural_key False b) \<and> (Compare a b > 0 \<longleftrightarrow> Compare b a < 0) \<and> (Compare a b = 0 \<longleftrightarrow> a = b)
   \<and> (CompareFold a b < 0 \<longleftrightarrow> natural_key True a < natural_key True b) \<and> (CompareFold a b > 0 \<longleftrightarrow> CompareFold b a < 0)
   \<and> (CompareFold a b = 0 \<longleftrightarrow> ToLower a = ToLower b)"
proof -
  have l: "nat_lower = lower_char" by (rule ext) (simp add: nat_lower_def lower_char_def Let_def)
  have f: "folded False s = s" "folded True s = ToLower s" for s by (simp_all add: folded_def ToLower_def l)
  show ?thesis unfolding Compare_def CompareFold_def compare_iff key_eq_iff f by simp
qed

text \<open>It is transitive.\<close>

lemma Compare_trans: "Compare a b \<le> 0 \<Longrightarrow> Compare b c \<le> 0 \<Longrightarrow> Compare a c \<le> 0"
  unfolding Compare_def using compare_iff(3) [of _ _ False] by (meson leD leI order_trans)

text \<open>The examples of the documentation.\<close>

lemma natural_examples:
  "Compare ''file2'' ''file10'' < 0" "Compare ''a01'' ''a1'' < 0" "Compare ''a0'' ''a00'' < 0" "CompareFold ''ABC'' ''abd'' < 0"
  by code_simp+

end
