(* ===== verification/MissingTracks.thy ===== *)
theory MissingTracks
  imports Media NaturalSort
begin

text \<open>
  The second phase of a scan (\<open>scanner/phase_2_missing_tracks.go\<close>): files that are gone are matched with
  files that are new, so that a moved track keeps its ID and with it its annotations. A row has the
  columns of \<open>media_file\<close> that are read here; \<open>mr_hash\<close> is what \<open>MediaFile.Hash\<close> returns for it, which
  does not depend on ID, PID, library, path, album ID, \<open>missing\<close> and the times. A transaction that
  fails leaves the database as it was. Errors of the database are arguments.
\<close>

record media_row =
  mr_id :: string
  mr_pid :: string
  mr_library :: int
  mr_path :: string
  mr_albumID :: string
  mr_missing :: bool
  mr_createdAt :: time
  mr_hash :: string
  mr_mbzReleaseTrackID :: string
  mr_title :: string
  mr_album :: string
  mr_size :: int
  mr_suffix :: string
  mr_discNumber :: int
  mr_trackNumber :: int

text \<open>Annotations of albums have a user, an album and the rest; libraries the start of their last scan.\<close>

record scan_db =
  sd_files :: "media_row list"
  sd_albums :: "string \<rightharpoonup> time"
  sd_annotations :: "(string \<times> string \<times> string) list"
  sd_libraries :: "int \<rightharpoonup> time"

section \<open>Matching\<close>

definition path_Base :: "string \<Rightarrow> string" where
  "path_Base p =
     (if p = [] then ''.''
      else (let q = rev (dropWhile (\<lambda>c. c = CHR ''/'') (rev p))
            in if q = [] then ''/'' else rev (takeWhile (\<lambda>c. c \<noteq> CHR ''/'') (rev q))))"

definition path_Ext :: "string \<Rightarrow> string" where
  "path_Ext p =
     (let r = rev p; e = takeWhile (\<lambda>c. c \<noteq> CHR ''.'' \<and> c \<noteq> CHR ''/'') r
      in case drop (length e) r of c # _ \<Rightarrow> if c = CHR ''.'' then CHR ''.'' # rev e else [] | [] \<Rightarrow> [])"

definition TrimSuffix :: "string \<Rightarrow> string \<Rightarrow> string" where
  "TrimSuffix s t = (if length t \<le> length s \<and> drop (length s - length t) s = t then take (length s - length t) s else s)"

definition BaseName :: "string \<Rightarrow> string" where
  "BaseName filePath = (let p = path_Base filePath in TrimSuffix p (path_Ext p))"

definition mf_Equals :: "media_row \<Rightarrow> media_row \<Rightarrow> bool" where
  "mf_Equals a b \<longleftrightarrow> mr_hash a = mr_hash b"

definition mf_IsEquivalent :: "media_row \<Rightarrow> media_row \<Rightarrow> bool" where
  "mf_IsEquivalent a b \<longleftrightarrow> BaseName (mr_path a) = BaseName (mr_path b)"

section \<open>Queries and statements\<close>

definition GetMissingAndMatching :: "int \<Rightarrow> scan_db \<Rightarrow> media_row list" where
  "GetMissingAndMatching libId db =
     (let pids = map mr_pid (filter (\<lambda>r. mr_missing r \<and> mr_library r = libId) (sd_files db))
      in sort_key (\<lambda>r. codes (mr_pid r))
           (filter (\<lambda>r. List.member pids (mr_pid r)
              \<and> (mr_missing r \<or> (case sd_libraries db (mr_library r) of None \<Rightarrow> False | Some t \<Rightarrow> mr_createdAt r > t))) (sd_files db)))"

definition FindRecentFilesByMBZTrackID :: "media_row \<Rightarrow> time \<Rightarrow> scan_db \<Rightarrow> media_row list" where
  "FindRecentFilesByMBZTrackID missing since db =
     rev (sort_key mr_createdAt (rev (filter (\<lambda>r. mr_library r \<noteq> mr_library missing
        \<and> mr_mbzReleaseTrackID r = mr_mbzReleaseTrackID missing \<and> mr_mbzReleaseTrackID r \<noteq> []
        \<and> mr_suffix r = mr_suffix missing \<and> mr_createdAt r > since \<and> \<not> mr_missing r) (sd_files db))))"

definition FindRecentFilesByProperties :: "media_row \<Rightarrow> time \<Rightarrow> scan_db \<Rightarrow> media_row list" where
  "FindRecentFilesByProperties missing since db =
     rev (sort_key mr_createdAt (rev (filter (\<lambda>r. mr_library r \<noteq> mr_library missing
        \<and> mr_title r = mr_title missing \<and> mr_size r = mr_size missing \<and> mr_suffix r = mr_suffix missing
        \<and> mr_discNumber r = mr_discNumber missing \<and> mr_trackNumber r = mr_trackNumber missing \<and> mr_album r = mr_album missing
        \<and> mr_mbzReleaseTrackID r = [] \<and> mr_createdAt r > since \<and> \<not> mr_missing r) (sd_files db))))"

definition has_file :: "string \<Rightarrow> scan_db \<Rightarrow> bool" where
  "has_file i db \<longleftrightarrow> list_ex (\<lambda>r. mr_id r = i) (sd_files db)"

text \<open>\<open>put\<close>: an update never touches \<open>created_at\<close>; without a row of that ID it is an insert.\<close>

definition sql_put :: "string \<Rightarrow> string \<Rightarrow> media_row \<Rightarrow> scan_db \<Rightarrow> scan_db" where
  "sql_put newID i m db =
     (if i \<noteq> [] \<and> has_file i db
      then db\<lparr>sd_files := map (\<lambda>r. if mr_id r = i then m\<lparr>mr_id := i, mr_createdAt := mr_createdAt r\<rparr> else r) (sd_files db)\<rparr>
      else db\<lparr>sd_files := sd_files db @ [if i = [] then m\<lparr>mr_id := newID\<rparr> else m]\<rparr>)"

definition putByMatch :: "string \<Rightarrow> (media_row \<Rightarrow> bool) \<Rightarrow> string \<Rightarrow> media_row \<Rightarrow> scan_db \<Rightarrow> scan_db" where
  "putByMatch newID P i m db =
     (if i \<noteq> [] then sql_put newID i m db
      else (case find P (sd_files db) of None \<Rightarrow> sql_put newID [] m db | Some r \<Rightarrow> sql_put newID (mr_id r) m db))"

definition media_Put :: "string \<Rightarrow> time \<Rightarrow> media_row \<Rightarrow> scan_db \<Rightarrow> scan_db" where
  "media_Put newID now m db =
     (let m1 = (if mr_createdAt m = zeroTime then m\<lparr>mr_createdAt := now\<rparr> else m)
      in putByMatch newID (\<lambda>r. mr_path r = mr_path m \<and> mr_library r = mr_library m) (mr_id m) m1 db)"

definition media_Delete :: "string \<Rightarrow> scan_db \<Rightarrow> scan_db" where
  "media_Delete i db = db\<lparr>sd_files := filter (\<lambda>r. mr_id r \<noteq> i) (sd_files db)\<rparr>"

definition DeleteAllMissing :: "bool \<Rightarrow> scan_db \<Rightarrow> scan_db \<times> int option" where
  "DeleteAllMissing isAdmin db =
     (if \<not> isAdmin then (db, None)
      else (db\<lparr>sd_files := filter (\<lambda>r. \<not> mr_missing r) (sd_files db)\<rparr>, Some (int (length (filter mr_missing (sd_files db))))))"

definition ReassignAnnotation :: "string \<Rightarrow> string \<Rightarrow> scan_db \<Rightarrow> scan_db" where
  "ReassignAnnotation prevID newID db =
     (if prevID = newID \<or> prevID = [] \<or> newID = [] then db
      else db\<lparr>sd_annotations := map (\<lambda>(u, i, x). if i = prevID \<and> \<not> list_ex (\<lambda>(u', i', _). u' = u \<and> i' = newID) (sd_annotations db)
               then (u, newID, x) else (u, i, x)) (sd_annotations db)\<rparr>)"

text \<open>\<open>CopyAttributes\<close> of \<open>created_at\<close>; without the old album it changes nothing, and neither does a zero time.\<close>

definition CopyCreatedAt :: "string \<Rightarrow> string \<Rightarrow> scan_db \<Rightarrow> scan_db" where
  "CopyCreatedAt fromID toID db =
     (case sd_albums db fromID of
        None \<Rightarrow> db
      | Some t \<Rightarrow> if t = zeroTime \<or> sd_albums db toID = None then db else db\<lparr>sd_albums := (sd_albums db)(toID \<mapsto> t)\<rparr>)"

section \<open>The phase\<close>

record missing_tracks =
  mt_lib :: int
  mt_pid :: string
  mt_missing :: "media_row list"
  mt_matched :: "media_row list"

record phase_state =
  ph_db :: scan_db
  ph_processed :: "string list"
  ph_totalMatched :: "32 word"
  ph_changes :: bool

record move_env =
  me_now :: time
  me_newID :: string
  me_putErr :: "string option"
  me_deleteErr :: "string option"
  me_reassignErr :: "string option"
  me_copyErr :: "string option"
  me_commitErr :: "string option"

text \<open>
  The groups of \<open>produce\<close> for one library, from the rows in order of their PID. The last group is not
  put out when loading the rows failed.
\<close>

definition putIfMatched :: "missing_tracks \<Rightarrow> missing_tracks list" where
  "putIfMatched mt = (if mt_pid mt \<noteq> [] \<and> mt_missing mt \<noteq> [] then [mt] else [])"

fun produce_groups :: "bool \<Rightarrow> missing_tracks \<Rightarrow> media_row list \<Rightarrow> missing_tracks list" where
  "produce_groups failed mt [] = (if failed then [] else putIfMatched mt)"
| "produce_groups failed mt (mf # rest) =
     (let (out, mt1) = (if mt_pid mt \<noteq> mr_pid mf
            then (putIfMatched mt, mt\<lparr>mt_pid := mr_pid mf, mt_missing := [], mt_matched := []\<rparr>) else ([], mt));
          mt2 = (if mr_missing mf then mt1\<lparr>mt_missing := mt_missing mt1 @ [mf]\<rparr> else mt1\<lparr>mt_matched := mt_matched mt1 @ [mf]\<rparr>)
      in out @ produce_groups failed mt2 rest)"

text \<open>\<open>failsAt lib\<close> is the number of rows that could be loaded when loading them fails.\<close>

fun produce :: "(int \<Rightarrow> nat option) \<Rightarrow> int list \<Rightarrow> scan_db \<Rightarrow> missing_tracks list \<times> bool" where
  "produce failsAt [] db = ([], True)"
| "produce failsAt (lib # libs) db =
     (let mt = \<lparr>mt_lib = lib, mt_pid = [], mt_missing = [], mt_matched = []\<rparr>; rows = GetMissingAndMatching lib db
      in case failsAt lib of
           Some n \<Rightarrow> (produce_groups True mt (take n rows), False)
         | None \<Rightarrow> (case produce failsAt libs db of (gs, ok) \<Rightarrow> (produce_groups False mt rows @ gs, ok)))"

text \<open>The part of \<open>moveMatched\<close> about albums, inside the transaction.\<close>

definition move_album :: "move_env \<Rightarrow> string \<Rightarrow> string \<Rightarrow> string list \<Rightarrow> scan_db \<Rightarrow> scan_db \<times> string list" where
  "move_album env oldAlbumID newAlbumID processed db =
     (if oldAlbumID = newAlbumID \<or> List.member processed newAlbumID then (db, processed)
      else (let db1 = (if me_reassignErr env = None then ReassignAnnotation oldAlbumID newAlbumID db else db);
                db2 = (if me_copyErr env = None then CopyCreatedAt oldAlbumID newAlbumID db1 else db1)
            in (db2, newAlbumID # processed)))"

definition moveMatched :: "move_env \<Rightarrow> media_row \<Rightarrow> media_row \<Rightarrow> phase_state \<Rightarrow> phase_state \<times> string option" where
  "moveMatched env target missing ph =
     (let target1 = target\<lparr>mr_createdAt := mr_createdAt missing, mr_id := mr_id missing\<rparr>
      in if me_putErr env \<noteq> None then (ph, me_putErr env)
         else (let db1 = media_Put (me_newID env) (me_now env) target1 (ph_db ph)
               in if me_deleteErr env \<noteq> None then (ph, me_deleteErr env)
                  else (let db2 = media_Delete (mr_id target) db1;
                            (db3, processed) = move_album env (mr_albumID missing) (mr_albumID target) (ph_processed ph) db2;
                            ph1 = ph\<lparr>ph_processed := processed, ph_changes := True\<rparr>
                        in if me_commitErr env \<noteq> None then (ph1, me_commitErr env)
                           else (ph1\<lparr>ph_db := db3\<rparr>, None))))"

text \<open>The search for an exact match, remembering the last equivalent one before it.\<close>

fun search_match :: "string list \<Rightarrow> media_row \<Rightarrow> media_row list \<Rightarrow> media_row option \<Rightarrow> media_row option \<times> media_row option" where
  "search_match used ms [] eqv = (None, eqv)"
| "search_match used ms (mt # rest) eqv =
     (if List.member used (mr_id mt) then search_match used ms rest eqv
      else if mf_Equals ms mt then (Some mt, eqv)
      else search_match used ms rest (if mf_IsEquivalent ms mt then Some mt else eqv))"

definition choose_match :: "string list \<Rightarrow> media_row \<Rightarrow> nat \<Rightarrow> media_row list \<Rightarrow> media_row option" where
  "choose_match used ms nMissing matched =
     (let (exact, eqv) = search_match used ms matched None;
          with_id = (\<lambda>m. case m of Some r \<Rightarrow> if mr_id r \<noteq> [] then m else None | None \<Rightarrow> None)
      in case with_id exact of
           Some m \<Rightarrow> Some m
         | None \<Rightarrow> (case matched of
                     [single] \<Rightarrow> if nMissing = 1 \<and> \<not> List.member used (mr_id single) then Some single else with_id eqv
                   | _ \<Rightarrow> with_id eqv))"

fun process_missing ::
  "(string \<Rightarrow> move_env) \<Rightarrow> nat \<Rightarrow> media_row list \<Rightarrow> media_row list \<Rightarrow> string list \<Rightarrow> bool \<Rightarrow> phase_state
   \<Rightarrow> phase_state \<times> (string + bool)" where
  "process_missing env nMissing matched [] used hasMatches ph = (ph, Inr hasMatches)"
| "process_missing env nMissing matched (ms # rest) used hasMatches ph =
     (case choose_match used ms nMissing matched of
        None \<Rightarrow> process_missing env nMissing matched rest used hasMatches ph
      | Some m \<Rightarrow>
          (case moveMatched (env (mr_id ms)) m ms ph of
             (ph1, Some e) \<Rightarrow> (ph1, Inl e)
           | (ph1, None) \<Rightarrow> process_missing env nMissing matched rest (mr_id m # used) True (ph1\<lparr>ph_totalMatched := ph_totalMatched ph1 + 1\<rparr>)))"

definition processMissingTracks ::
  "(string \<Rightarrow> move_env) \<Rightarrow> missing_tracks \<Rightarrow> phase_state \<Rightarrow> phase_state \<times> (string + missing_tracks option)" where
  "processMissingTracks env inp ph =
     (case process_missing env (length (mt_missing inp)) (mt_matched inp) (mt_missing inp) [] False ph of
        (ph1, Inl e) \<Rightarrow> (ph1, Inl e)
      | (ph1, Inr hasMatches) \<Rightarrow> (ph1, Inr (if hasMatches then None else Some inp)))"

definition exact_or_single :: "media_row \<Rightarrow> media_row list \<Rightarrow> media_row option" where
  "exact_or_single missing matches =
     (case find (mf_Equals missing) matches of
        Some m \<Rightarrow> Some m
      | None \<Rightarrow> (case matches of [m] \<Rightarrow> if mf_IsEquivalent missing m then Some m else None | _ \<Rightarrow> None))"

definition findCrossLibraryMatch ::
  "string option \<Rightarrow> string option \<Rightarrow> media_row \<Rightarrow> scan_db \<Rightarrow> string + media_row option" where
  "findCrossLibraryMatch mbzErr propErr missing db =
     (let first = (if mr_mbzReleaseTrackID missing \<noteq> [] \<and> mbzErr = None
                   then exact_or_single missing (FindRecentFilesByMBZTrackID missing (mr_createdAt missing) db) else None)
      in case first of
           Some m \<Rightarrow> Inr (Some m)
         | None \<Rightarrow> (case propErr of
                     Some e \<Rightarrow> Inl e
                   | None \<Rightarrow> Inr (exact_or_single missing (FindRecentFilesByProperties missing (mr_createdAt missing) db))))"

fun cross_moves ::
  "(string \<Rightarrow> string option) \<Rightarrow> (string \<Rightarrow> string option) \<Rightarrow> (string \<Rightarrow> move_env) \<Rightarrow> media_row list \<Rightarrow> phase_state \<Rightarrow> phase_state" where
  "cross_moves mbzErr propErr env [] ph = ph"
| "cross_moves mbzErr propErr env (ms # rest) ph =
     (case findCrossLibraryMatch (mbzErr (mr_id ms)) (propErr (mr_id ms)) ms (ph_db ph) of
        Inr (Some m) \<Rightarrow>
          (if mr_id m = [] then cross_moves mbzErr propErr env rest ph
           else case moveMatched (env (mr_id ms)) m ms ph of
             (ph1, Some e) \<Rightarrow> cross_moves mbzErr propErr env rest ph1
           | (ph1, None) \<Rightarrow> cross_moves mbzErr propErr env rest (ph1\<lparr>ph_totalMatched := ph_totalMatched ph1 + 1\<rparr>))
      | _ \<Rightarrow> cross_moves mbzErr propErr env rest ph)"

definition processCrossLibraryMoves ::
  "nat \<Rightarrow> (string \<Rightarrow> string option) \<Rightarrow> (string \<Rightarrow> string option) \<Rightarrow> (string \<Rightarrow> move_env) \<Rightarrow> missing_tracks option \<Rightarrow> phase_state \<Rightarrow> phase_state" where
  "processCrossLibraryMoves totalLibraryCount mbzErr propErr env inp ph =
     (case inp of
        None \<Rightarrow> ph
      | Some mt \<Rightarrow> if totalLibraryCount = 1 then ph else cross_moves mbzErr propErr env (mt_missing mt) ph)"

datatype purge_option = PurgeMissingNever | PurgeMissingAlways | PurgeMissingFull

text \<open>\<open>finalize\<close>: an error of the purge is only logged, and returned.\<close>

definition phase2_finalize :: "purge_option \<Rightarrow> bool \<Rightarrow> bool \<Rightarrow> string option \<Rightarrow> phase_state \<Rightarrow> phase_state" where
  "phase2_finalize opt fullScan isAdmin err ph =
     (if err \<noteq> None then ph
      else if opt = PurgeMissingAlways \<or> (opt = PurgeMissingFull \<and> fullScan)
      then (case DeleteAllMissing isAdmin (ph_db ph) of
              (db, None) \<Rightarrow> ph
            | (db, Some n) \<Rightarrow> ph\<lparr>ph_db := db, ph_changes := (n > 0 \<or> ph_changes ph)\<rparr>)
      else ph)"

section \<open>One move\<close>

definition table_ok :: "media_row list \<Rightarrow> bool" where
  "table_ok rows \<longleftrightarrow> distinct (map mr_id rows) \<and> [] \<notin> mr_id ` set rows \<and> distinct (map (\<lambda>r. (mr_library r, mr_path r)) rows)"

text \<open>The table after the row \<open>t\<close> took over the ID of the missing row \<open>m\<close>.\<close>

definition moved :: "media_row \<Rightarrow> media_row \<Rightarrow> media_row list \<Rightarrow> media_row list" where
  "moved t m rows =
     filter (\<lambda>r. mr_id r \<noteq> mr_id t) (map (\<lambda>r. if mr_id r = mr_id m then t\<lparr>mr_id := mr_id m, mr_createdAt := mr_createdAt r\<rparr> else r) rows)"

lemma table_okD:
  assumes "table_ok rows" "r \<in> set rows" "r' \<in> set rows"
  shows "mr_id r = mr_id r' \<longleftrightarrow> r = r'" "mr_library r = mr_library r' \<and> mr_path r = mr_path r' \<longleftrightarrow> r = r'" "mr_id r \<noteq> []"
  using assms by (auto simp: table_ok_def distinct_map inj_on_def image_iff)

lemma set_moved:
  assumes "table_ok rows" "t \<in> set rows" "m \<in> set rows" "mr_id t \<noteq> mr_id m"
  shows "set (moved t m rows) = {r \<in> set rows. mr_id r \<notin> {mr_id t, mr_id m}} \<union> {t\<lparr>mr_id := mr_id m, mr_createdAt := mr_createdAt m\<rparr>}"
  using assms(3,4) table_okD(1) [OF assms(1) _ assms(3)] by (auto simp: moved_def)

lemma distinct_map_filter_map:
  "distinct (map f xs) \<Longrightarrow> (\<And>x. x \<in> set xs \<Longrightarrow> f (g x) = f x) \<Longrightarrow> distinct (map f (filter P (map g xs)))"
  by (induction xs) auto

lemma table_ok_moved:
  assumes "table_ok rows" "t \<in> set rows" "m \<in> set rows" "mr_id t \<noteq> mr_id m"
  shows "table_ok (moved t m rows)"
proof -
  let ?g = "\<lambda>r. if mr_id r = mr_id m then t\<lparr>mr_id := mr_id m, mr_createdAt := mr_createdAt r\<rparr> else r"
  let ?loc = "\<lambda>r. (mr_library r, mr_path r)"
  have ids: "distinct (map mr_id (moved t m rows))"
    unfolding moved_def by (rule distinct_map_filter_map) (use assms(1) in \<open>auto simp: table_ok_def\<close>)
  have "distinct rows" using assms(1) by (simp add: table_ok_def distinct_map)
  have "distinct (moved t m rows)" using ids by (simp add: distinct_map)
  moreover have "inj_on ?loc (set (moved t m rows))"
    unfolding set_moved [OF assms] inj_on_def
    using table_okD(2) [OF assms(1)] table_okD(2) [OF assms(1) assms(2)] assms(2) by auto
  ultimately have "distinct (map ?loc (moved t m rows))" by (simp add: distinct_map)
  with ids show ?thesis using assms table_okD(3) [OF assms(1)] unfolding table_ok_def set_moved [OF assms] by auto
qed

lemma move_album_files: "sd_files (fst (move_album env a b pr db)) = sd_files db"
  by (auto simp: move_album_def Let_def ReassignAnnotation_def CopyCreatedAt_def split: option.splits)

lemma moveMatched_result:
  assumes "has_file (mr_id m) (ph_db ph)" "mr_id m \<noteq> []" "moveMatched env t m ph = (ph', res)"
  shows "if res = None then sd_files (ph_db ph') = moved t m (sd_files (ph_db ph)) else ph_db ph' = ph_db ph"
proof -
  let ?t = "t\<lparr>mr_createdAt := mr_createdAt m, mr_id := mr_id m\<rparr>"
  have put: "sd_files (media_Put (me_newID env) (me_now env) ?t (ph_db ph))
      = map (\<lambda>r. if mr_id r = mr_id m then t\<lparr>mr_id := mr_id m, mr_createdAt := mr_createdAt r\<rparr> else r) (sd_files (ph_db ph))"
    using assms(1,2) by (auto simp: media_Put_def putByMatch_def sql_put_def Let_def)
  show ?thesis
    using assms(3) move_album_files [of env "mr_albumID m" "mr_albumID t" "ph_processed ph" "media_Delete (mr_id t) (media_Put (me_newID env) (me_now env) ?t (ph_db ph))"]
    by (auto simp: moveMatched_def Let_def moved_def media_Delete_def put split: if_splits prod.splits)
qed

section \<open>Matches are used once\<close>

lemma search_match_sound:
  assumes "search_match used ms matched eqv = (ex, eqv')"
  shows "(\<forall>m. ex = Some m \<longrightarrow> m \<in> set matched \<and> mr_id m \<notin> set used \<and> mf_Equals ms m)
    \<and> (\<forall>m. eqv' = Some m \<longrightarrow> eqv = Some m \<or> m \<in> set matched \<and> mr_id m \<notin> set used \<and> mf_IsEquivalent ms m)"
  using assms by (induction used ms matched eqv rule: search_match.induct) (fastforce simp: List.member_iff split: if_splits)+

text \<open>Why a missing track is taken to have moved to a matched one.\<close>

definition same_track :: "media_row list \<Rightarrow> media_row list \<Rightarrow> media_row \<Rightarrow> media_row \<Rightarrow> bool" where
  "same_track missing matched m t \<longleftrightarrow> mf_Equals m t \<or> mf_IsEquivalent m t \<or> (length missing = 1 \<and> matched = [t])"

lemma choose_match_sound:
  assumes "choose_match used ms (length missing) matched = Some m"
  shows "m \<in> set matched \<and> mr_id m \<notin> set used \<and> same_track missing matched ms m"
proof -
  obtain ex eqv where s: "search_match used ms matched None = (ex, eqv)" by fastforce
  note p = search_match_sound [OF s]
  show ?thesis
    using assms p by (auto simp: choose_match_def s same_track_def Let_def List.member_iff split: option.splits if_splits list.splits)
qed

lemma process_missing_keeps:
  assumes "table_ok (sd_files (ph_db ph))" "set ms \<subseteq> set (sd_files (ph_db ph))" "{t \<in> set matched. mr_id t \<notin> set used} \<subseteq> set (sd_files (ph_db ph))"
    and "distinct (map mr_id ms)" "mr_id ` set ms \<inter> mr_id ` set matched = {}"
    and "process_missing env (length missing) matched ms used hm ph = (ph', res)"
  shows "table_ok (sd_files (ph_db ph')) \<and> mr_id ` set (sd_files (ph_db ph')) \<subseteq> mr_id ` set (sd_files (ph_db ph))
    \<and> (\<forall>r \<in> set (sd_files (ph_db ph)). mr_id r \<notin> mr_id ` set ms \<union> mr_id ` set matched \<longrightarrow> r \<in> set (sd_files (ph_db ph')))
    \<and> (\<forall>m \<in> set ms. \<exists>r \<in> set (sd_files (ph_db ph')). r = m
         \<or> (\<exists>t \<in> set matched. same_track missing matched m t \<and> r = t\<lparr>mr_id := mr_id m, mr_createdAt := mr_createdAt m\<rparr>))
    \<and> (\<forall>t \<in> set matched. mr_id t \<notin> set used \<longrightarrow>
         (\<exists>r \<in> set (sd_files (ph_db ph')). r = t \<or> (\<exists>m \<in> set ms. r = t\<lparr>mr_id := mr_id m, mr_createdAt := mr_createdAt m\<rparr>)))"
  using assms
proof (induction ms arbitrary: used hm ph)
  case Nil
  then show ?case by auto
next
  case (Cons x ms)
  let ?rows = "sd_files (ph_db ph)"
  show ?case
  proof (cases "choose_match used x (length missing) matched")
    case None
    with Cons.prems(6) have r: "process_missing env (length missing) matched ms used hm ph = (ph', res)" by simp
    have x: "x \<in> set ?rows" "mr_id x \<notin> mr_id ` set ms" "mr_id x \<notin> mr_id ` set matched" using Cons.prems(2,4,5) by auto
    note ih = Cons.IH [OF Cons.prems(1) _ Cons.prems(3) _ _ r]
    from ih x Cons.prems(2,4,5) show ?thesis by (auto; blast)
  next
    case (Some t)
    note c = choose_match_sound [OF Some]
    have x: "x \<in> set ?rows" "t \<in> set ?rows" "mr_id t \<noteq> mr_id x" "mr_id x \<notin> mr_id ` set ms" "mr_id x \<notin> mr_id ` set matched"
      using Cons.prems(2-5) c by (auto simp: image_iff)
    obtain ph1 e where mv: "moveMatched (env (mr_id x)) t x ph = (ph1, e)" by fastforce
    have "has_file (mr_id x) (ph_db ph)" "mr_id x \<noteq> []" using x(1) table_okD(3) [OF Cons.prems(1)] by (auto simp: has_file_def list_ex_iff)
    note res = moveMatched_result [OF this mv]
    show ?thesis
    proof (cases e)
      case (Some err)
      with res mv \<open>choose_match _ _ _ _ = _\<close> Cons.prems(6) have "ph_db ph' = ph_db ph" by simp
      then show ?thesis using Cons.prems(1-3) by (simp; blast)
    next
      case None
      let ?ph = "ph1\<lparr>ph_totalMatched := ph_totalMatched ph1 + 1\<rparr>" and ?t = "t\<lparr>mr_id := mr_id x, mr_createdAt := mr_createdAt x\<rparr>"
      have rows: "sd_files (ph_db ?ph) = moved t x ?rows" using res None by simp
      note st = set_moved [OF Cons.prems(1) x(2,1,3)]
      have r: "process_missing env (length missing) matched ms (mr_id t # used) True ?ph = (ph', res)"
        using Cons.prems(6) \<open>choose_match _ _ _ _ = _\<close> mv None by simp
      have ok: "table_ok (sd_files (ph_db ?ph))" unfolding rows by (rule table_ok_moved [OF Cons.prems(1) x(2,1,3)])
      have other: "r \<in> set (sd_files (ph_db ?ph))" if "r \<in> set ?rows" "mr_id r \<noteq> mr_id t" "mr_id r \<noteq> mr_id x" for r
        unfolding rows st using that by simp
      have ms: "set ms \<subseteq> set (sd_files (ph_db ?ph))"
        by (rule subsetI, rule other) (use Cons.prems(2,5) x(4) c in \<open>auto simp: image_iff\<close>)
      have un: "{t' \<in> set matched. mr_id t' \<notin> set (mr_id t # used)} \<subseteq> set (sd_files (ph_db ?ph))"
        by (rule subsetI, rule other) (use Cons.prems(3) x(5) in \<open>auto simp: image_iff\<close>)
      have "distinct (map mr_id ms)" "mr_id ` set ms \<inter> mr_id ` set matched = {}" using Cons.prems(4,5) by auto
      note ih = Cons.IH [OF ok ms un this r]
      have "?t \<in> set (sd_files (ph_db ?ph))" unfolding rows st by simp
      with ih x(4,5) have t: "?t \<in> set (sd_files (ph_db ph'))" by auto
      have ids: "mr_id ` set (sd_files (ph_db ?ph)) \<subseteq> mr_id ` set ?rows" unfolding rows st using x(1) by auto
      have keep: "r \<in> set (sd_files (ph_db ph'))" if "r \<in> set ?rows" "mr_id r \<notin> mr_id ` set (x # ms) \<union> mr_id ` set matched" for r
        using ih other [OF that(1)] that(2) c by (auto simp: image_iff)
      have matches: "\<exists>r \<in> set (sd_files (ph_db ph')). r = t' \<or> (\<exists>m \<in> set (x # ms). r = t'\<lparr>mr_id := mr_id m, mr_createdAt := mr_createdAt m\<rparr>)"
        if "t' \<in> set matched" "mr_id t' \<notin> set used" for t'
      proof (cases "mr_id t' = mr_id t")
        case True
        then have "t' = t" using table_okD(1) [OF Cons.prems(1)] x(2) Cons.prems(3) that by blast
        with t show ?thesis by auto
      next
        case False
        with that ih show ?thesis by (metis list.set_intros(2) set_ConsD)
      qed
      have missing: "\<exists>r \<in> set (sd_files (ph_db ph')). r = m
          \<or> (\<exists>t \<in> set matched. same_track missing matched m t \<and> r = t\<lparr>mr_id := mr_id m, mr_createdAt := mr_createdAt m\<rparr>)"
        if "m \<in> set (x # ms)" for m
      proof (cases "m = x")
        case True
        with t c show ?thesis by blast
      next
        case False
        with that have "m \<in> set ms" by simp
        with ih show ?thesis by blast
      qed
      have "table_ok (sd_files (ph_db ph'))" "mr_id ` set (sd_files (ph_db ph')) \<subseteq> mr_id ` set ?rows" using ih ids by (blast+)
      then show ?thesis using keep missing matches by blast
    qed
  qed
qed

section \<open>Groups\<close>

text \<open>What a group is: tracks with the PID of the group, the missing ones apart from the others.\<close>

definition group_ok :: "media_row set \<Rightarrow> missing_tracks \<Rightarrow> bool" where
  "group_ok S g \<longleftrightarrow> set (mt_missing g) \<subseteq> {r \<in> S. mr_missing r \<and> mr_pid r = mt_pid g}
     \<and> set (mt_matched g) \<subseteq> {r \<in> S. \<not> mr_missing r \<and> mr_pid r = mt_pid g}
     \<and> distinct (mt_missing g) \<and> distinct (mt_matched g)"

lemma produce_groups_ok:
  "g \<in> set (produce_groups failed mt rows) \<Longrightarrow> group_ok S mt \<Longrightarrow> set rows \<subseteq> S \<Longrightarrow> distinct rows
     \<Longrightarrow> set rows \<inter> (set (mt_missing mt) \<union> set (mt_matched mt)) = {} \<Longrightarrow> group_ok S g \<and> mt_pid g \<noteq> [] \<and> mt_missing g \<noteq> []"
proof (induction rows arbitrary: mt)
  case Nil
  then show ?case by (auto simp: putIfMatched_def split: if_splits)
next
  case (Cons mf rest)
  let ?mt1 = "if mt_pid mt \<noteq> mr_pid mf then mt\<lparr>mt_pid := mr_pid mf, mt_missing := [], mt_matched := []\<rparr> else mt"
  let ?mt2 = "if mr_missing mf then ?mt1\<lparr>mt_missing := mt_missing ?mt1 @ [mf]\<rparr> else ?mt1\<lparr>mt_matched := mt_matched ?mt1 @ [mf]\<rparr>"
  from Cons.prems(1) consider (old) "g \<in> set (putIfMatched mt)" | (new) "g \<in> set (produce_groups failed ?mt2 rest)"
    by (auto simp: Let_def split: if_splits prod.splits)
  then show ?case
  proof cases
    case old
    with Cons.prems(2) show ?thesis by (auto simp: putIfMatched_def split: if_splits)
  next
    case new
    show ?thesis by (rule Cons.IH [OF new]) (use Cons.prems(2-5) in \<open>auto simp: group_ok_def\<close>)
  qed
qed

lemma GetMissingAndMatching_rows:
  "set (GetMissingAndMatching lib db) \<subseteq> set (sd_files db)" "distinct (sd_files db) \<Longrightarrow> distinct (GetMissingAndMatching lib db)"
  by (auto simp: GetMissingAndMatching_def Let_def)

lemma produce_ok:
  assumes "distinct (sd_files db)"
  shows "g \<in> set (fst (produce failsAt libs db)) \<Longrightarrow> group_ok (set (sd_files db)) g \<and> mt_pid g \<noteq> [] \<and> mt_missing g \<noteq> []"
proof (induction libs)
  case (Cons lib libs)
  let ?mt = "\<lparr>mt_lib = lib, mt_pid = [], mt_missing = [], mt_matched = []\<rparr>"
  have ok: "group_ok (set (sd_files db)) g \<and> mt_pid g \<noteq> [] \<and> mt_missing g \<noteq> []"
    if "g \<in> set (produce_groups failed ?mt rows)" "set rows \<subseteq> set (GetMissingAndMatching lib db)" "distinct rows" for failed rows
    by (rule produce_groups_ok [OF that(1) _ _ that(3)])
      (use that(2) GetMissingAndMatching_rows(1) [of lib db] in \<open>auto simp: group_ok_def\<close>)
  show ?case
  proof (cases "failsAt lib")
    case None
    with Cons.prems have "g \<in> set (produce_groups False ?mt (GetMissingAndMatching lib db)) \<or> g \<in> set (fst (produce failsAt libs db))"
      by (auto simp: Let_def split: prod.splits)
    with ok [of False "GetMissingAndMatching lib db"] GetMissingAndMatching_rows(2) [OF assms] Cons.IH show ?thesis by blast
  next
    case (Some n)
    with Cons.prems have "g \<in> set (produce_groups True ?mt (take n (GetMissingAndMatching lib db)))" by (simp add: Let_def)
    with ok [of True "take n (GetMissingAndMatching lib db)"] GetMissingAndMatching_rows(2) [OF assms] show ?thesis
      by (simp add: set_take_subset distinct_take)
  qed
qed simp

section \<open>Properties\<close>

text \<open>
  C11: moved tracks keep their identity and no track is lost. For a group of tracks with the same PID
  that was found among the rows of the database, and whatever statements and transactions fail while it is processed, IDs and
  locations of the tracks stay unique and tracks outside of the group stay as they are. Every missing track is afterwards
  there with its ID and the time it was added, either unchanged or with everything else from a new track
  that is the same by its content, its file name, or as the only candidate. Every new track is still there,
  under its own ID or under that of a missing track; no two missing tracks got the same one, since
  locations are unique.
\<close>

theorem moved_tracks_keep_identity:
  assumes "table_ok (sd_files db)" "g \<in> set (fst (produce failsAt libs db))"
    and "table_ok (sd_files (ph_db ph))" "set (mt_missing g) \<union> set (mt_matched g) \<subseteq> set (sd_files (ph_db ph))"
    and "processMissingTracks env g ph = (ph', res)"
  shows "table_ok (sd_files (ph_db ph'))
    \<and> (\<forall>r \<in> set (sd_files (ph_db ph)). r \<notin> set (mt_missing g) \<union> set (mt_matched g) \<longrightarrow> r \<in> set (sd_files (ph_db ph')))
    \<and> (\<forall>m \<in> set (mt_missing g). \<exists>r \<in> set (sd_files (ph_db ph')). r = m
         \<or> (\<exists>t \<in> set (mt_matched g). same_track (mt_missing g) (mt_matched g) m t \<and> r = t\<lparr>mr_id := mr_id m, mr_createdAt := mr_createdAt m\<rparr>))
    \<and> (\<forall>t \<in> set (mt_matched g). \<exists>r \<in> set (sd_files (ph_db ph')). r = t
         \<or> (\<exists>m \<in> set (mt_missing g). r = t\<lparr>mr_id := mr_id m, mr_createdAt := mr_createdAt m\<rparr>))"
proof -
  have "distinct (sd_files db)" using assms(1) by (simp add: table_ok_def distinct_map)
  note g = conjunct1 [OF produce_ok [OF this assms(2)], unfolded group_ok_def]
  have inj: "mr_id r = mr_id r' \<longleftrightarrow> r = r'" if "r \<in> set (sd_files (ph_db ph))" "r' \<in> set (sd_files (ph_db ph))" for r r'
    by (rule table_okD(1) [OF assms(3) that])
  have dis: "distinct (map mr_id (mt_missing g))" using g assms(4) inj by (auto simp: distinct_map inj_on_def)
  have disj: "mr_id ` set (mt_missing g) \<inter> mr_id ` set (mt_matched g) = {}" using g assms(4) inj by fastforce
  obtain ph1 res1 where p: "process_missing env (length (mt_missing g)) (mt_matched g) (mt_missing g) [] False ph = (ph1, res1)" by fastforce
  have ph1: "ph' = ph1" using assms(5) p by (auto simp: processMissingTracks_def split: sum.splits)
  have sub: "set (mt_missing g) \<subseteq> set (sd_files (ph_db ph))" "{t \<in> set (mt_matched g). mr_id t \<notin> set []} \<subseteq> set (sd_files (ph_db ph))"
    using assms(4) by auto
  note k = process_missing_keeps [OF assms(3) sub dis disj p]
  have "mr_id r \<notin> mr_id ` set (mt_missing g) \<union> mr_id ` set (mt_matched g)"
    if "r \<in> set (sd_files (ph_db ph))" "r \<notin> set (mt_missing g) \<union> set (mt_matched g)" for r
    using that inj assms(4) by blast
  with k show ?thesis unfolding ph1 by simp
qed

section \<open>Witness\<close>

definition demo_track :: "string \<Rightarrow> int \<Rightarrow> string \<Rightarrow> bool \<Rightarrow> time \<Rightarrow> media_row" where
  "demo_track i lib path missing created = \<lparr>mr_id = i, mr_pid = ''pid'', mr_library = lib, mr_path = path, mr_albumID = ''al'', mr_missing = missing,
     mr_createdAt = created, mr_hash = ''h'', mr_mbzReleaseTrackID = [], mr_title = ''T'', mr_album = ''A'', mr_size = 1, mr_suffix = ''mp3'',
     mr_discNumber = 1, mr_trackNumber = 1\<rparr>"

definition demo_scan :: "media_row list \<Rightarrow> phase_state" where
  "demo_scan rows = \<lparr>ph_db = \<lparr>sd_files = rows, sd_albums = Map.empty, sd_annotations = [], sd_libraries = [1 \<mapsto> 50, 2 \<mapsto> 50]\<rparr>,
     ph_processed = [], ph_totalMatched = 0, ph_changes = False\<rparr>"

definition no_errors :: "string \<Rightarrow> move_env" where
  "no_errors i = \<lparr>me_now = 100, me_newID = ''new'', me_putErr = None, me_deleteErr = None, me_reassignErr = None, me_copyErr = None, me_commitErr = None\<rparr>"

definition demo_rows :: "media_row list" where
  "demo_rows = [demo_track ''old'' 1 ''a/x.mp3'' True 10, demo_track ''fresh'' 1 ''b/x.mp3'' False 60]"

definition demo_group :: missing_tracks where
  "demo_group = \<lparr>mt_lib = 1, mt_pid = ''pid'', mt_missing = [demo_track ''old'' 1 ''a/x.mp3'' True 10],
     mt_matched = [demo_track ''fresh'' 1 ''b/x.mp3'' False 60]\<rparr>"

lemma demo_produce: "produce (\<lambda>_. None) [1] (ph_db (demo_scan demo_rows)) = ([demo_group], True)"
  by (simp add: demo_scan_def demo_rows_def demo_track_def demo_group_def GetMissingAndMatching_def putIfMatched_def codes_def)

theorem moved_tracks_keep_identity_witness:
  "sd_files (ph_db (fst (processMissingTracks no_errors demo_group (demo_scan demo_rows)))) = [demo_track ''old'' 1 ''b/x.mp3'' False 10]
   \<and> table_ok (sd_files (ph_db (fst (processMissingTracks no_errors demo_group (demo_scan demo_rows)))))"
proof
  show "sd_files (ph_db (fst (processMissingTracks no_errors demo_group (demo_scan demo_rows)))) = [demo_track ''old'' 1 ''b/x.mp3'' False 10]"
    by (simp add: processMissingTracks_def demo_group_def choose_match_def mf_Equals_def demo_track_def moveMatched_def no_errors_def
        demo_scan_def demo_rows_def media_Put_def putByMatch_def sql_put_def has_file_def media_Delete_def move_album_def Let_def)
  have ok: "table_ok demo_rows" by (simp add: table_ok_def demo_rows_def demo_track_def)
  have db: "sd_files (ph_db (demo_scan demo_rows)) = demo_rows" by (simp add: demo_scan_def)
  obtain ph' res where p: "processMissingTracks no_errors demo_group (demo_scan demo_rows) = (ph', res)" by fastforce
  have "demo_group \<in> set (fst (produce (\<lambda>_. None) [1] (ph_db (demo_scan demo_rows))))" unfolding demo_produce by simp
  from moved_tracks_keep_identity [OF _ this _ _ p] ok
  show "table_ok (sd_files (ph_db (fst (processMissingTracks no_errors demo_group (demo_scan demo_rows)))))"
    by (simp add: db p) (simp add: demo_group_def demo_rows_def)
qed

text \<open>
  Across libraries nothing remembers the tracks that were matched already: two missing copies are both
  moved to the one new track, and the row of the first is discarded with its ID.
\<close>

lemma cross_library_match_used_twice:
  "map mr_id (sd_files (ph_db (cross_moves (\<lambda>_. None) (\<lambda>_. None) no_errors
     [demo_track ''first'' 1 ''a/x.mp3'' True 20, demo_track ''second'' 1 ''b/x.mp3'' True 10]
     (demo_scan [demo_track ''first'' 1 ''a/x.mp3'' True 20, demo_track ''second'' 1 ''b/x.mp3'' True 10, demo_track ''fresh'' 2 ''c/x.mp3'' False 60]))))
   = [''second'']"
  by code_simp

end
