(* ===== verification/KVStore.thy ===== *)
theory KVStore
  imports NaturalSort
begin

text \<open>
  The key-value store of a plugin (\<open>plugins/host_kvstore.go\<close>), over the table \<open>kvstore\<close> of its own
  database. Times are whole seconds, the resolution of \<open>datetime('now')\<close>. Statements may fail; their
  errors are arguments. \<open>LIKE\<close> is that of SQLite: it ignores the case of ASCII letters.
\<close>

definition defaultMaxKVStoreSize :: int where "defaultMaxKVStoreSize = 1 * 1024 * 1024"
definition maxKeyLength :: nat where "maxKeyLength = 256"

record kv_row =
  kr_key :: string
  kr_value :: string
  kr_size :: int
  kr_created :: int
  kr_updated :: int
  kr_expires :: "int option"

record kvstore =
  kv_rows :: "kv_row list"
  kv_maxSize :: int

datatype kv_error = InvalidMaxSize | EmptyKey | KeyTooLong | LimitExceeded | BadTTL | EmptyPrefix | KVFailed string

text \<open>The limit of a new store; \<open>humanize.ParseBytes\<close> is an argument and answers 64 bits.\<close>

definition newKVStoreService :: "(string \<Rightarrow> 64 word option) \<Rightarrow> string option \<Rightarrow> kv_error + kvstore" where
  "newKVStoreService parseBytes maxSize =
     (case maxSize of
        None \<Rightarrow> Inr \<lparr>kv_rows = [], kv_maxSize = defaultMaxKVStoreSize\<rparr>
      | Some s \<Rightarrow>
          (if s = [] then Inr \<lparr>kv_rows = [], kv_maxSize = defaultMaxKVStoreSize\<rparr>
           else (case parseBytes s of None \<Rightarrow> Inl InvalidMaxSize | Some w \<Rightarrow> Inr \<lparr>kv_rows = [], kv_maxSize = sint w\<rparr>)))"

definition notExpired :: "int \<Rightarrow> kv_row \<Rightarrow> bool" where
  "notExpired now r \<longleftrightarrow> (case kr_expires r of None \<Rightarrow> True | Some e \<Rightarrow> e \<ge> now)"

definition sum_size :: "int \<Rightarrow> kvstore \<Rightarrow> int" where
  "sum_size now s = sum_list (map kr_size (filter (notExpired now) (kv_rows s)))"

definition storageUsed :: "string option \<Rightarrow> int \<Rightarrow> kvstore \<Rightarrow> kv_error + int" where
  "storageUsed err now s = (case err of Some e \<Rightarrow> Inl (KVFailed e) | None \<Rightarrow> Inr (sum_size now s))"

definition checkStorageLimit :: "string option \<Rightarrow> int \<Rightarrow> int \<Rightarrow> kvstore \<Rightarrow> kv_error option" where
  "checkStorageLimit err now delta s =
     (if delta \<le> 0 then None
      else (case storageUsed err now s of
              Inl e \<Rightarrow> Some e
            | Inr used \<Rightarrow> if used + delta > kv_maxSize s then Some LimitExceeded else None))"

text \<open>\<open>datetime('now', '+n seconds')\<close> is NULL after the year 9999.\<close>

definition lastDatetime :: int where "lastDatetime = 253402300799"

definition expires_at :: "int \<Rightarrow> int \<Rightarrow> int option" where
  "expires_at now ttl = (if ttl > 0 \<and> now + ttl \<le> lastDatetime then Some (now + ttl) else None)"

definition find_row :: "string \<Rightarrow> kvstore \<Rightarrow> kv_row option" where
  "find_row key s = find (\<lambda>r. kr_key r = key) (kv_rows s)"

definition old_size :: "int \<Rightarrow> string \<Rightarrow> kvstore \<Rightarrow> int" where
  "old_size now key s =
     (case find_row key s of None \<Rightarrow> 0 | Some r \<Rightarrow> if notExpired now r then kr_size r else 0)"

text \<open>The statement that inserts or overwrites a row.\<close>

definition upsert :: "int \<Rightarrow> string \<Rightarrow> string \<Rightarrow> int \<Rightarrow> kvstore \<Rightarrow> kvstore" where
  "upsert now key val ttl s =
     (if find_row key s = None
      then s\<lparr>kv_rows := kv_rows s @ [\<lparr>kr_key = key, kr_value = val, kr_size = int (length val), kr_created = now, kr_updated = now,
               kr_expires = expires_at now ttl\<rparr>]\<rparr>
      else s\<lparr>kv_rows := map (\<lambda>r. if kr_key r = key
               then r\<lparr>kr_value := val, kr_size := int (length val), kr_updated := now, kr_expires := expires_at now ttl\<rparr> else r)
             (kv_rows s)\<rparr>)"

record kv_fail =
  kf_lookup :: "string option"
  kf_sum :: "string option"
  kf_write :: "string option"

text \<open>Everything before the writing statement of \<open>setValue\<close>.\<close>

definition check_value :: "kv_fail \<Rightarrow> int \<Rightarrow> string \<Rightarrow> string \<Rightarrow> kvstore \<Rightarrow> kv_error option" where
  "check_value f now key val s =
     (if key = [] then Some EmptyKey
      else if length key > maxKeyLength then Some KeyTooLong
      else (case kf_lookup f of
              Some e \<Rightarrow> Some (KVFailed e)
            | None \<Rightarrow> checkStorageLimit (kf_sum f) now (int (length val) - old_size now key s) s))"

definition setValue :: "kv_fail \<Rightarrow> int \<Rightarrow> string \<Rightarrow> string \<Rightarrow> int \<Rightarrow> kvstore \<Rightarrow> kvstore \<times> kv_error option" where
  "setValue f now key val ttl s =
     (case check_value f now key val s of
        Some e \<Rightarrow> (s, Some e)
      | None \<Rightarrow> (case kf_write f of Some e \<Rightarrow> (s, Some (KVFailed e)) | None \<Rightarrow> (upsert now key val ttl s, None)))"

definition kv_Set :: "kv_fail \<Rightarrow> int \<Rightarrow> string \<Rightarrow> string \<Rightarrow> kvstore \<Rightarrow> kvstore \<times> kv_error option" where
  "kv_Set f now key val s = setValue f now key val 0 s"

definition kv_SetWithTTL :: "kv_fail \<Rightarrow> int \<Rightarrow> string \<Rightarrow> string \<Rightarrow> int \<Rightarrow> kvstore \<Rightarrow> kvstore \<times> kv_error option" where
  "kv_SetWithTTL f now key val ttl s = (if ttl \<le> 0 then (s, Some BadTTL) else setValue f now key val ttl s)"

definition live_row :: "int \<Rightarrow> string \<Rightarrow> kvstore \<Rightarrow> kv_row option" where
  "live_row now key s = find (\<lambda>r. kr_key r = key \<and> notExpired now r) (kv_rows s)"

definition kv_Get :: "string option \<Rightarrow> int \<Rightarrow> string \<Rightarrow> kvstore \<Rightarrow> kv_error + string option" where
  "kv_Get err now key s =
     (case err of Some e \<Rightarrow> Inl (KVFailed e) | None \<Rightarrow> Inr (map_option kr_value (live_row now key s)))"

definition kv_Delete :: "string option \<Rightarrow> string \<Rightarrow> kvstore \<Rightarrow> kvstore \<times> kv_error option" where
  "kv_Delete err key s =
     (case err of Some e \<Rightarrow> (s, Some (KVFailed e)) | None \<Rightarrow> (s\<lparr>kv_rows := filter (\<lambda>r. kr_key r \<noteq> key) (kv_rows s)\<rparr>, None))"

definition kv_Has :: "string option \<Rightarrow> int \<Rightarrow> string \<Rightarrow> kvstore \<Rightarrow> kv_error + bool" where
  "kv_Has err now key s =
     (case err of Some e \<Rightarrow> Inl (KVFailed e)
      | None \<Rightarrow> Inr (length (filter (\<lambda>r. kr_key r = key \<and> notExpired now r) (kv_rows s)) > 0))"

text \<open>\<open>LIKE\<close> with the escape character \<open>\\<close>.\<close>

fun sql_like :: "string \<Rightarrow> string \<Rightarrow> bool" where
  "sql_like [] s \<longleftrightarrow> s = []"
| "sql_like (p # ps) s =
     (if p = CHR 0x5C then (case ps of [] \<Rightarrow> False | q # qs \<Rightarrow> (case s of [] \<Rightarrow> False | c # cs \<Rightarrow> lower_char c = lower_char q \<and> sql_like qs cs))
      else if p = CHR ''%'' then list_ex (\<lambda>k. sql_like ps (drop k s)) [0..<Suc (length s)]
      else (case s of [] \<Rightarrow> False | c # cs \<Rightarrow> (p = CHR ''_'' \<or> lower_char c = lower_char p) \<and> sql_like ps cs))"

definition escape_prefix :: "string \<Rightarrow> string" where
  "escape_prefix p =
     concat (map (\<lambda>c. if c = CHR ''_'' then [CHR 0x5C, c] else [c])
       (concat (map (\<lambda>c. if c = CHR ''%'' then [CHR 0x5C, c] else [c]) p)))"

definition has_prefix_like :: "string \<Rightarrow> string \<Rightarrow> bool" where
  "has_prefix_like prefix0 key \<longleftrightarrow> sql_like (escape_prefix prefix0 @ ''%'') key"

definition kv_List :: "string option \<Rightarrow> int \<Rightarrow> string \<Rightarrow> kvstore \<Rightarrow> kv_error + string list" where
  "kv_List err now prefix0 s =
     (case err of
        Some e \<Rightarrow> Inl (KVFailed e)
      | None \<Rightarrow> Inr (sort_key codes (map kr_key (filter (\<lambda>r. (prefix0 = [] \<or> has_prefix_like prefix0 (kr_key r)) \<and> notExpired now r) (kv_rows s)))))"

definition kv_GetStorageUsed :: "string option \<Rightarrow> int \<Rightarrow> kvstore \<Rightarrow> kv_error + int" where
  "kv_GetStorageUsed err now s = storageUsed err now s"

definition kv_DeleteByPrefix :: "string option \<Rightarrow> string \<Rightarrow> kvstore \<Rightarrow> kvstore \<times> (kv_error + int)" where
  "kv_DeleteByPrefix err prefix0 s =
     (if prefix0 = [] then (s, Inl EmptyPrefix)
      else (case err of
              Some e \<Rightarrow> (s, Inl (KVFailed e))
            | None \<Rightarrow> (s\<lparr>kv_rows := filter (\<lambda>r. \<not> has_prefix_like prefix0 (kr_key r)) (kv_rows s)\<rparr>,
                      Inr (int (length (filter (\<lambda>r. has_prefix_like prefix0 (kr_key r)) (kv_rows s)))))))"

text \<open>\<open>slice.CollectChunks\<close> with the chunk that is being filled.\<close>

fun CollectChunks :: "nat \<Rightarrow> 'a list \<Rightarrow> 'a list \<Rightarrow> 'a list list" where
  "CollectChunks n acc [] = (if acc = [] then [] else [acc])"
| "CollectChunks n acc (x # xs) =
     (if length (acc @ [x]) \<ge> n then (acc @ [x]) # CollectChunks n [] xs else CollectChunks n (acc @ [x]) xs)"

definition get_chunk :: "int \<Rightarrow> kvstore \<Rightarrow> string list \<Rightarrow> (string \<rightharpoonup> string) \<Rightarrow> (string \<rightharpoonup> string)" where
  "get_chunk now s chunk result =
     foldl (\<lambda>m r. m(kr_key r \<mapsto> kr_value r)) result (filter (\<lambda>r. List.member chunk (kr_key r) \<and> notExpired now r) (kv_rows s))"

text \<open>\<open>errs\<close> has the errors of the queries, if any, in their order.\<close>

fun get_chunks :: "int \<Rightarrow> kvstore \<Rightarrow> string option list \<Rightarrow> string list list \<Rightarrow> (string \<rightharpoonup> string) \<Rightarrow> kv_error + (string \<rightharpoonup> string)" where
  "get_chunks now s errs [] result = Inr result"
| "get_chunks now s errs (chunk # chunks) result =
     (case errs of
        Some e # _ \<Rightarrow> Inl (KVFailed e)
      | _ \<Rightarrow> get_chunks now s (tl errs) chunks (get_chunk now s chunk result))"

definition kv_GetMany :: "string option list \<Rightarrow> int \<Rightarrow> string list \<Rightarrow> kvstore \<Rightarrow> kv_error + (string \<rightharpoonup> string)" where
  "kv_GetMany errs now keys s =
     (if keys = [] then Inr Map.empty else get_chunks now s errs (CollectChunks 200 [] keys) Map.empty)"

definition cleanupExpired :: "string option \<Rightarrow> int \<Rightarrow> kvstore \<Rightarrow> kvstore" where
  "cleanupExpired err now s = (case err of Some _ \<Rightarrow> s | None \<Rightarrow> s\<lparr>kv_rows := filter (notExpired now) (kv_rows s)\<rparr>)"

section \<open>Well-formed stores\<close>

definition kv_ok :: "kvstore \<Rightarrow> bool" where
  "kv_ok s \<longleftrightarrow> distinct (map kr_key (kv_rows s))
     \<and> (\<forall>r \<in> set (kv_rows s). kr_key r \<noteq> [] \<and> length (kr_key r) \<le> maxKeyLength \<and> kr_size r = int (length (kr_value r)))"

lemma upsert_keys: "map kr_key (kv_rows (upsert now key val ttl s)) = (if find_row key s = None then map kr_key (kv_rows s) @ [key] else map kr_key (kv_rows s))"
  by (auto simp: upsert_def)

lemma find_row_None: "find_row key s = None \<longleftrightarrow> key \<notin> kr_key ` set (kv_rows s)"
  by (auto simp: find_row_def find_None_iff)

lemma upsert_ok: "kv_ok s \<Longrightarrow> key \<noteq> [] \<Longrightarrow> length key \<le> maxKeyLength \<Longrightarrow> kv_ok (upsert now key val ttl s)"
  by (auto simp: kv_ok_def upsert_keys find_row_None) (auto simp: upsert_def split: if_splits)

lemma filter_ok: "kv_ok s \<Longrightarrow> kv_ok (s\<lparr>kv_rows := filter P (kv_rows s)\<rparr>)"
  by (auto simp: kv_ok_def distinct_map_filter)

lemma check_value_key: "check_value f now key val s = None \<Longrightarrow> key \<noteq> [] \<and> length key \<le> maxKeyLength"
  by (auto simp: check_value_def split: if_splits)

lemma setValue_cases:
  obtains (failed) e where "setValue f now key val ttl s = (s, Some e)"
  | (stored) "check_value f now key val s = None" "setValue f now key val ttl s = (upsert now key val ttl s, None)"
  by (cases "check_value f now key val s"; cases "kf_write f") (simp_all add: setValue_def)

section \<open>The storage in use\<close>

definition row_sum :: "int \<Rightarrow> kv_row list \<Rightarrow> int" where
  "row_sum now rs = sum_list (map kr_size (filter (notExpired now) rs))"

lemma row_sum_simps: "row_sum now [] = 0" "row_sum now (r # rs) = (if notExpired now r then kr_size r else 0) + row_sum now rs"
  by (simp_all add: row_sum_def)

lemma row_sum_append: "row_sum now (rs @ rs') = row_sum now rs + row_sum now rs'"
  by (simp add: row_sum_def)

lemma row_sum_update:
  assumes "distinct (map kr_key rs)" "find (\<lambda>r. kr_key r = key) rs = Some r0" "\<And>r. notExpired now (f r)" "\<And>r. kr_size (f r) = n"
  shows "row_sum now (map (\<lambda>r. if kr_key r = key then f r else r) rs) = row_sum now rs - (if notExpired now r0 then kr_size r0 else 0) + n"
  using assms(1,2)
proof (induction rs)
  case (Cons r rs)
  show ?case
  proof (cases "kr_key r = key")
    case True
    with Cons.prems(1) have "\<forall>r \<in> set rs. kr_key r \<noteq> key" by (auto simp: image_iff)
    then have "map (\<lambda>r. if kr_key r = key then f r else r) rs = rs" by (intro map_idI) simp
    with True Cons.prems assms(3,4) show ?thesis by (simp add: row_sum_simps)
  next
    case False
    with Cons show ?thesis by (simp add: row_sum_simps)
  qed
qed simp

lemma expires_later: "expires_at now ttl = Some e \<Longrightarrow> now \<le> e"
  by (auto simp: expires_at_def split: if_splits)

lemma sum_upsert:
  assumes "kv_ok s"
  shows "sum_size now (upsert now key val ttl s) = sum_size now s - old_size now key s + int (length val)"
proof -
  have live: "notExpired now r" if "kr_expires r = expires_at now ttl" for r
    using that expires_later by (auto simp: notExpired_def split: option.splits)
  have s: "sum_size now st = row_sum now (kv_rows st)" for st by (simp add: sum_size_def row_sum_def)
  show ?thesis
  proof (cases "find_row key s")
    case None
    then show ?thesis by (simp add: s upsert_def row_sum_append row_sum_simps live old_size_def)
  next
    case (Some r0)
    with assms row_sum_update [of "kv_rows s" key r0 now
        "\<lambda>r. r\<lparr>kr_value := val, kr_size := int (length val), kr_updated := now, kr_expires := expires_at now ttl\<rparr>" "int (length val)"]
    show ?thesis by (auto simp: s upsert_def live old_size_def find_row_def kv_ok_def)
  qed
qed

lemma row_sum_filter: "(\<And>r. r \<in> set rs \<Longrightarrow> 0 \<le> kr_size r) \<Longrightarrow> row_sum now (filter P rs) \<le> row_sum now rs"
  by (induction rs) (auto simp: row_sum_simps intro: add_increasing)

lemma row_sum_later: "(\<And>r. r \<in> set rs \<Longrightarrow> 0 \<le> kr_size r) \<Longrightarrow> now \<le> t \<Longrightarrow> row_sum t rs \<le> row_sum now rs"
proof (induction rs)
  case (Cons r rs)
  have "notExpired t r \<Longrightarrow> notExpired now r" using Cons.prems(2) by (auto simp: notExpired_def split: option.splits)
  then show ?case using Cons by (auto simp: row_sum_simps intro: add_increasing add_mono)
qed (simp add: row_sum_simps)

lemma kv_sizes: "kv_ok s \<Longrightarrow> r \<in> set (kv_rows s) \<Longrightarrow> 0 \<le> kr_size r"
  by (auto simp: kv_ok_def)

lemma sum_filter: "kv_ok s \<Longrightarrow> sum_size now (s\<lparr>kv_rows := filter P (kv_rows s)\<rparr>) \<le> sum_size now s"
  using row_sum_filter [of "kv_rows s" now P] kv_sizes by (simp add: sum_size_def row_sum_def)

lemma sum_later: "kv_ok s \<Longrightarrow> now \<le> t \<Longrightarrow> sum_size t s \<le> sum_size now s"
  using row_sum_later [of "kv_rows s" now t] kv_sizes by (simp add: sum_size_def row_sum_def)

section \<open>Histories of a store\<close>

inductive kv_step :: "int \<times> kvstore \<Rightarrow> int \<times> kvstore \<Rightarrow> bool" where
  kv_tick: "now \<le> t \<Longrightarrow> kv_step (now, s) (t, s)"
| kv_set: "kv_step (now, s) (now, fst (kv_Set f now key val s))"
| kv_setTTL: "kv_step (now, s) (now, fst (kv_SetWithTTL f now key val ttl s))"
| kv_delete: "kv_step (now, s) (now, fst (kv_Delete err key s))"
| kv_deletePrefix: "kv_step (now, s) (now, fst (kv_DeleteByPrefix err p s))"
| kv_cleanup: "kv_step (now, s) (now, cleanupExpired err now s)"

definition kv_init :: "int \<times> kvstore \<Rightarrow> bool" where
  "kv_init c \<longleftrightarrow> (\<exists>parse sz. newKVStoreService parse sz = Inr (snd c))"

definition kv_inv :: "int \<times> kvstore \<Rightarrow> bool" where
  "kv_inv c \<longleftrightarrow> kv_ok (snd c) \<and> sum_size (fst c) (snd c) \<le> max 0 (kv_maxSize (snd c))"

lemma setValue_inv:
  assumes "kv_inv (now, s)"
  shows "kv_inv (now, fst (setValue f now key val ttl s))"
proof (cases rule: setValue_cases [of f now key val ttl s])
  case stored
  have ok: "kv_ok s" using assms by (simp add: kv_inv_def)
  have m: "kv_maxSize (upsert now key val ttl s) = kv_maxSize s" by (simp add: upsert_def)
  have "int (length val) - old_size now key s \<le> 0 \<or> sum_size now s + (int (length val) - old_size now key s) \<le> kv_maxSize s"
    using stored(1) by (auto simp: check_value_def checkStorageLimit_def storageUsed_def split: if_splits option.splits sum.splits)
  with assms stored sum_upsert [OF ok, of now key val ttl] m upsert_ok [OF ok] check_value_key [OF stored(1)]
  show ?thesis by (auto simp: kv_inv_def)
qed (use assms in simp)

lemma filter_inv: "kv_inv (now, s) \<Longrightarrow> kv_inv (now, s\<lparr>kv_rows := filter P (kv_rows s)\<rparr>)"
  using filter_ok [of s P] sum_filter [of s now P] by (auto simp: kv_inv_def)

lemma kv_step_inv: "kv_step c c' \<Longrightarrow> kv_inv c \<Longrightarrow> kv_inv c'"
proof (induction rule: kv_step.induct)
  case (kv_tick now t s)
  then show ?case using sum_later [of s now t] by (auto simp: kv_inv_def)
next
  case (kv_set now s f key val)
  then show ?case using setValue_inv by (simp add: kv_Set_def)
next
  case (kv_setTTL now s f key val ttl)
  then show ?case using setValue_inv by (simp add: kv_SetWithTTL_def)
qed (auto simp: kv_Delete_def kv_DeleteByPrefix_def cleanupExpired_def intro: filter_inv split: option.splits)

lemma kv_init_inv: "kv_init c \<Longrightarrow> kv_inv c"
proof -
  have "kv_rows s = []" if "newKVStoreService parse sz = Inr s" for parse sz s
    using that by (auto simp: newKVStoreService_def split: option.splits if_splits)
  then show "kv_init c \<Longrightarrow> kv_inv c" by (fastforce simp: kv_init_def kv_inv_def kv_ok_def sum_size_def)
qed

interpretation kv: step_invariant kv_init kv_step kv_inv
  by unfold_locales (rule kv_init_inv, assumption, rule kv_step_inv)

section \<open>The store as a map\<close>

text \<open>What the store holds at a time.\<close>

definition kv_view :: "int \<Rightarrow> kvstore \<Rightarrow> (string \<rightharpoonup> string)" where
  "kv_view t s k = map_option kr_value (live_row t k s)"

lemma find_unique:
  "distinct (map kr_key rs) \<Longrightarrow> find (\<lambda>r. kr_key r = k \<and> P r) rs = Some r \<longleftrightarrow> r \<in> set rs \<and> kr_key r = k \<and> P r"
  by (induction rs) (auto split: if_splits)

lemma view_iff:
  "kv_ok s \<Longrightarrow> kv_view t s k = Some v \<longleftrightarrow> (\<exists>r \<in> set (kv_rows s). kr_key r = k \<and> notExpired t r \<and> kr_value r = v)"
  by (auto simp: kv_view_def live_row_def find_unique kv_ok_def)

lemma map_eqI: "(\<And>k v. m k = Some v \<longleftrightarrow> m' k = Some v) \<Longrightarrow> m = m'"
  by (rule ext) (metis not_None_eq)

lemma view_filter:
  assumes "kv_ok s" "\<And>r. r \<in> set (kv_rows s) \<Longrightarrow> notExpired t r \<Longrightarrow> P r \<longleftrightarrow> Q (kr_key r)"
  shows "kv_view t (s\<lparr>kv_rows := filter P (kv_rows s)\<rparr>) = (\<lambda>k. if Q k then kv_view t s k else None)"
proof (rule map_eqI)
  show "kv_view t (s\<lparr>kv_rows := filter P (kv_rows s)\<rparr>) k = Some v \<longleftrightarrow> (if Q k then kv_view t s k else None) = Some v" for k v
    using assms(2) by (auto simp: view_iff [OF filter_ok [OF assms(1)]] view_iff [OF assms(1)])
qed

text \<open>How long a value stored with a time to live lasts.\<close>

definition lasts :: "int \<Rightarrow> int \<Rightarrow> int \<Rightarrow> bool" where
  "lasts now ttl t \<longleftrightarrow> (ttl > 0 \<and> now + ttl \<le> lastDatetime \<longrightarrow> t \<le> now + ttl)"

lemma view_upsert:
  assumes "kv_ok s" "key \<noteq> []" "length key \<le> maxKeyLength"
  shows "kv_view t (upsert now key val ttl s) = (kv_view t s)(key := if lasts now ttl t then Some val else None)"
proof (rule map_eqI)
  have e: "notExpired t r \<longleftrightarrow> lasts now ttl t" if "kr_expires r = expires_at now ttl" for r
    using that by (auto simp: notExpired_def expires_at_def lasts_def split: option.splits)
  show "kv_view t (upsert now key val ttl s) k = Some v \<longleftrightarrow> ((kv_view t s)(key := if lasts now ttl t then Some val else None)) k = Some v" for k v
  proof (cases "find_row key s")
    case None
    then have "\<forall>r \<in> set (kv_rows s). kr_key r \<noteq> key" by (auto simp: find_row_None)
    with None show ?thesis
      unfolding view_iff [OF upsert_ok [OF assms]] fun_upd_apply by (auto simp: upsert_def e view_iff [OF assms(1)])
  next
    case (Some r0)
    let ?f = "\<lambda>r. r\<lparr>kr_value := val, kr_size := int (length val), kr_updated := now, kr_expires := expires_at now ttl\<rparr>"
    have rows: "set (kv_rows (upsert now key val ttl s)) = (\<lambda>r. if kr_key r = key then ?f r else r) ` set (kv_rows s)"
      using Some by (simp add: upsert_def)
    obtain r where r: "r \<in> set (kv_rows s)" "kr_key r = key" using Some find_row_None [of key s] by auto
    show ?thesis
    proof (cases "k = key")
      case True
      have "?f r \<in> set (kv_rows (upsert now key val ttl s))" unfolding rows using r by force
      then show ?thesis
        unfolding view_iff [OF upsert_ok [OF assms]] fun_upd_apply using True r(2)
        by (auto simp: rows e split: if_splits intro!: bexI [of _ "?f r"])
    next
      case False
      then show ?thesis
        unfolding view_iff [OF upsert_ok [OF assms]] fun_upd_apply by (auto simp: rows view_iff [OF assms(1)] split: if_splits)
    qed
  qed
qed

lemma get_chunk_view:
  assumes "kv_ok s"
  shows "get_chunk now s chunk m = (\<lambda>k. if k \<in> set chunk \<and> kv_view now s k \<noteq> None then kv_view now s k else m k)"
proof -
  have fold: "foldl (\<lambda>m r. m(kr_key r \<mapsto> kr_value r)) m rs k = (case find (\<lambda>r. kr_key r = k) rs of Some r \<Rightarrow> Some (kr_value r) | None \<Rightarrow> m k)"
    if "distinct (map kr_key rs)" for rs k
    using that
  proof (induction rs arbitrary: m)
    case (Cons r rs)
    then have "kr_key r = k \<Longrightarrow> find (\<lambda>r. kr_key r = k) rs = None" by (auto simp: find_None_iff image_iff)
    with Cons show ?case by (auto split: option.splits)
  qed simp
  let ?rs = "filter (\<lambda>r. List.member chunk (kr_key r) \<and> notExpired now r) (kv_rows s)"
  have d: "distinct (map kr_key ?rs)" using assms by (simp add: kv_ok_def distinct_map_filter)
  have f: "find (\<lambda>r. kr_key r = k) ?rs = (if k \<in> set chunk then live_row now k s else None)" for k
  proof -
    have "find (\<lambda>r. kr_key r = k) (filter (\<lambda>r. List.member chunk (kr_key r) \<and> notExpired now r) rs)
        = (if k \<in> set chunk then find (\<lambda>r. kr_key r = k \<and> notExpired now r) rs else None)" for rs :: "kv_row list"
      by (induction rs) (auto simp: List.member_iff)
    then show ?thesis by (simp add: live_row_def)
  qed
  show ?thesis
  proof (rule ext)
    show "get_chunk now s chunk m k = (if k \<in> set chunk \<and> kv_view now s k \<noteq> None then kv_view now s k else m k)" for k
      unfolding get_chunk_def fold [OF d] f kv_view_def by (simp split: option.splits)
  qed
qed

lemma chunks_concat: "concat (CollectChunks n acc xs) = acc @ xs"
  by (induction xs arbitrary: acc) auto

lemma get_chunks_view:
  "kv_ok s \<Longrightarrow> get_chunks now s [] chunks m = Inr (\<lambda>k. if k \<in> set (concat chunks) \<and> kv_view now s k \<noteq> None then kv_view now s k else m k)"
  by (induction chunks arbitrary: m) (auto simp: get_chunk_view)

section \<open>Prefixes\<close>

lemma like_any: "sql_like ''%'' s"
  by (auto simp: list_ex_iff intro!: bexI [of _ "length s"])

lemma escape_Cons:
  "c \<noteq> CHR 0x5C \<Longrightarrow> escape_prefix (c # p) = (if c = CHR ''%'' \<or> c = CHR ''_'' then [CHR 0x5C, c] else [c]) @ escape_prefix p"
  by (simp add: escape_prefix_def)

lemma like_prefix:
  "CHR 0x5C \<notin> set p \<Longrightarrow> has_prefix_like p key \<longleftrightarrow> EqualFold (take (length p) key) p"
proof (induction p arbitrary: key)
  case Nil
  then show ?case using like_any [of key] by (simp add: has_prefix_like_def escape_prefix_def del: sql_like.simps)
next
  case (Cons c p)
  from Cons have ih: "sql_like (escape_prefix p @ ''%'') k \<longleftrightarrow> EqualFold (take (length p) k) p" for k by (simp add: has_prefix_like_def)
  from Cons.prems have "c \<noteq> CHR 0x5C" by auto
  then show ?case
    by (cases key) (auto simp: has_prefix_like_def escape_Cons ih EqualFold_def ToLower_def)
qed

section \<open>Properties\<close>

text \<open>
  C32: the store of a plugin behaves as a map with expiring entries. A value that is stored is found
  under its key, by \<open>Get\<close>, \<open>GetMany\<close> and \<open>Has\<close>, from then on until its time to live is over, and other keys are
  untouched; a failed \<open>Set\<close> and the removal of expired rows change nothing that can be seen;
  \<open>GetMany\<close> finds in its batches what \<open>Get\<close> finds for each key.
\<close>

theorem kv_refines_map:
  assumes "kv_ok s" "now \<le> t"
  shows "kv_Get None t key s = Inr (kv_view t s key)
    \<and> kv_Has None t key s = Inr (kv_view t s key \<noteq> None)
    \<and> kv_GetMany [] t keys s = Inr (\<lambda>k. if k \<in> set keys then kv_view t s k else None)
    \<and> kv_view t (fst (setValue f now key val ttl s))
       = (if snd (setValue f now key val ttl s) = None then (kv_view t s)(key := if lasts now ttl t then Some val else None) else kv_view t s)
    \<and> kv_view t (fst (kv_Delete None key s)) = (kv_view t s)(key := None)
    \<and> kv_view t (cleanupExpired err now s) = kv_view t s"
proof (intro conjI)
  show "kv_Get None t key s = Inr (kv_view t s key)" by (simp add: kv_Get_def kv_view_def)
  have "(filter (\<lambda>r. kr_key r = key \<and> notExpired t r) (kv_rows s) \<noteq> []) = (live_row t key s \<noteq> None)"
    unfolding live_row_def by (auto simp: filter_empty_conv find_None_iff)
  then show "kv_Has None t key s = Inr (kv_view t s key \<noteq> None)" by (simp add: kv_Has_def kv_view_def)
  show "kv_GetMany [] t keys s = Inr (\<lambda>k. if k \<in> set keys then kv_view t s k else None)"
    using get_chunks_view [OF assms(1), of t "CollectChunks 200 [] keys" Map.empty] chunks_concat [of 200 "[]" keys]
    by (auto simp: kv_GetMany_def fun_eq_iff)
  show "kv_view t (fst (setValue f now key val ttl s))
       = (if snd (setValue f now key val ttl s) = None then (kv_view t s)(key := if lasts now ttl t then Some val else None) else kv_view t s)"
    by (cases rule: setValue_cases [of f now key val ttl s]) (use view_upsert [OF assms(1)] check_value_key in auto)
  show "kv_view t (fst (kv_Delete None key s)) = (kv_view t s)(key := None)"
    using view_filter [OF assms(1), of t "\<lambda>r. kr_key r \<noteq> key" "\<lambda>k. k \<noteq> key"] by (auto simp: kv_Delete_def fun_eq_iff)
  have "notExpired t r \<Longrightarrow> notExpired now r" for r using assms(2) by (auto simp: notExpired_def split: option.splits)
  then show "kv_view t (cleanupExpired err now s) = kv_view t s"
    using view_filter [OF assms(1), of t "notExpired now" "\<lambda>_. True"] by (auto simp: cleanupExpired_def fun_eq_iff split: option.splits)
qed

text \<open>
  A plugin cannot store more than it was granted. Through every history of its operations, one
  after the other, and as time passes, the values that have not expired take at most the configured
  number of bytes, the sizes in the table are those of the values, and keys stay short.
\<close>

theorem kv_storage_limited:
  assumes "reachable kv_init kv_step (now, s)"
  shows "sum_list (map (\<lambda>r. int (length (kr_value r))) (filter (notExpired now) (kv_rows s))) \<le> max 0 (kv_maxSize s)
    \<and> distinct (map kr_key (kv_rows s)) \<and> (\<forall>k \<in> kr_key ` set (kv_rows s). 0 < length k \<and> length k \<le> 256)"
proof -
  have i: "kv_ok s" "sum_size now s \<le> max 0 (kv_maxSize s)" using kv.reachable_inv [OF assms] by (simp_all add: kv_inv_def)
  then have "map (\<lambda>r. int (length (kr_value r))) (filter (notExpired now) (kv_rows s)) = map kr_size (filter (notExpired now) (kv_rows s))"
    by (auto simp: kv_ok_def)
  with i(2) have "sum_list (map (\<lambda>r. int (length (kr_value r))) (filter (notExpired now) (kv_rows s))) \<le> max 0 (kv_maxSize s)"
    unfolding sum_size_def by (simp only:)
  with i(1) show ?thesis by (simp add: kv_ok_def maxKeyLength_def)
qed

text \<open>
  \<open>List\<close> and \<open>DeleteByPrefix\<close> act on the keys that start with the prefix, read without regard to the
  case of ASCII letters, and on no other; \<open>%\<close> and \<open>_\<close> in the prefix stand for themselves.
\<close>

theorem kv_prefix_operations:
  assumes "CHR 0x5C \<notin> set p" "p \<noteq> []"
  shows "kv_List None now p s = Inr (sort_key codes (map kr_key (filter (\<lambda>r. EqualFold (take (length p) (kr_key r)) p \<and> notExpired now r) (kv_rows s))))
    \<and> kv_rows (fst (kv_DeleteByPrefix None p s)) = filter (\<lambda>r. \<not> EqualFold (take (length p) (kr_key r)) p) (kv_rows s)"
  using assms by (simp add: kv_List_def kv_DeleteByPrefix_def like_prefix)

text \<open>Keys that differ from the prefix in case are deleted with it, and a prefix that ends in a backslash is not found.\<close>

lemma kv_prefix_ignores_case: "has_prefix_like ''user:'' ''USER:1''"
  by code_simp

lemma kv_prefix_backslash: "\<not> has_prefix_like [CHR ''a'', CHR 0x5C] [CHR ''a'', CHR 0x5C, CHR ''b'']"
  by (simp add: has_prefix_like_def escape_prefix_def)

text \<open>Two calls at the same time can both pass the check of the limit before either of them writes.\<close>

lemma kv_limit_race:
  fixes s :: kvstore
  defines "s \<equiv> \<lparr>kv_rows = [], kv_maxSize = 1\<rparr>" and "f \<equiv> \<lparr>kf_lookup = None, kf_sum = None, kf_write = None\<rparr>"
  shows "check_value f now ''a'' ''x'' s = None" "check_value f now ''b'' ''y'' s = None"
    "sum_size now (upsert now ''b'' ''y'' 0 (upsert now ''a'' ''x'' 0 s)) = 2"
  by (simp_all add: s_def f_def check_value_def maxKeyLength_def checkStorageLimit_def storageUsed_def old_size_def upsert_def find_row_def
      sum_size_def expires_at_def notExpired_def)

section \<open>Witnesses\<close>

definition demo_kv :: kvstore where
  "demo_kv = fst (kv_SetWithTTL \<lparr>kf_lookup = None, kf_sum = None, kf_write = None\<rparr> 100 ''a'' ''xyz'' 10 \<lparr>kv_rows = [], kv_maxSize = 4\<rparr>)"

lemma demo_kv_rows: "demo_kv = \<lparr>kv_rows = [\<lparr>kr_key = ''a'', kr_value = ''xyz'', kr_size = 3, kr_created = 100, kr_updated = 100, kr_expires = Some 110\<rparr>],
    kv_maxSize = 4\<rparr>"
  by (simp add: demo_kv_def kv_SetWithTTL_def setValue_def check_value_def maxKeyLength_def checkStorageLimit_def storageUsed_def sum_size_def
      old_size_def find_row_def upsert_def expires_at_def lastDatetime_def)

theorem kv_refines_map_witness:
  "kv_Get None 110 ''a'' demo_kv = Inr (Some ''xyz'') \<and> kv_Get None 111 ''a'' demo_kv = Inr None"
proof -
  have ok: "kv_ok demo_kv" by (simp add: demo_kv_rows kv_ok_def maxKeyLength_def)
  from kv_refines_map [OF ok, of 110 110 "''a''"] kv_refines_map [OF ok, of 111 111 "''a''"] show ?thesis
    by (simp add: kv_view_def live_row_def demo_kv_rows notExpired_def)
qed

theorem kv_storage_limited_witness: "sum_size 100 demo_kv = 3 \<and> sum_size 100 demo_kv \<le> 4"
proof -
  have "newKVStoreService (\<lambda>_. Some 4) (Some ''4'') = Inr \<lparr>kv_rows = [], kv_maxSize = 4\<rparr>" by (simp add: newKVStoreService_def)
  then have "kv_init (100, \<lparr>kv_rows = [], kv_maxSize = 4\<rparr>)" unfolding kv_init_def snd_conv by blast
  then have "reachable kv_init kv_step (100, demo_kv)" unfolding demo_kv_def
    by (rule reach_one [where step = kv_step, rotated]) (rule kv_setTTL)
  from kv_storage_limited [OF this] show ?thesis by (simp add: demo_kv_rows sum_size_def notExpired_def)
qed

theorem kv_prefix_operations_witness: "kv_List None 100 ''A'' demo_kv = Inr [''a'']"
proof -
  have "EqualFold ''a'' ''A''" by code_simp
  then show ?thesis using kv_prefix_operations [of "''A''" 100 demo_kv] by (simp add: demo_kv_rows notExpired_def)
qed

end
