(* ===== verification/JsonComments.thy ===== *)
theory JsonComments
  imports Prelude
begin

text \<open>
  Removing comments from JSON (\<open>utils/jsoncommentstrip/jsoncommentstrip.go\<close>), used to read smart
  playlists. The reader fills buffers of whatever size its caller brings, and its state survives
  between the calls. What it should do is said on segments: literals, comments and other characters.
\<close>

datatype js_state =
  stateNormal | stateInString | stateInStringEscape | stateMaybeComment | stateLineComment | stateBlockComment | stateMaybeBlockEnd

text \<open>
  \<open>Read\<close> with room for a number of bytes: the bytes written, the new state, the input left, and
  whether the end of the input was met.
\<close>

fun js_Read :: "nat \<Rightarrow> js_state \<Rightarrow> string \<Rightarrow> string \<times> js_state \<times> string \<times> bool" where
  "js_Read 0 st inp = ([], st, inp, False)"
| "js_Read (Suc n) st [] =
     (if st = stateMaybeComment then (''/'', stateNormal, [], True) else ([], st, [], True))"
| "js_Read (Suc n) st (b # bs) =
     (let emit = (\<lambda>st'. case js_Read n st' bs of (out, r) \<Rightarrow> (b # out, r));
          skip = (\<lambda>st'. js_Read (Suc n) st' bs)
      in case st of
           stateNormal \<Rightarrow>
             (if b = CHR 0x22 then emit stateInString else if b = CHR ''/'' then skip stateMaybeComment else emit stateNormal)
         | stateInString \<Rightarrow>
             emit (if b = CHR 0x5C then stateInStringEscape else if b = CHR 0x22 then stateNormal else stateInString)
         | stateInStringEscape \<Rightarrow> emit stateInString
         | stateMaybeComment \<Rightarrow>
             (if b = CHR ''/'' then skip stateLineComment
              else if b = CHR ''*'' then skip stateBlockComment
              else (case n of
                      0 \<Rightarrow> (''/'', stateNormal, b # bs, False)
                    | Suc n' \<Rightarrow> (case js_Read n' stateNormal bs of (out, r) \<Rightarrow> (CHR ''/'' # b # out, r))))
         | stateLineComment \<Rightarrow> (if b = CHR 0x0A \<or> b = CHR 0x0D then emit stateNormal else skip stateLineComment)
         | stateBlockComment \<Rightarrow> skip (if b = CHR ''*'' then stateMaybeBlockEnd else stateBlockComment)
         | stateMaybeBlockEnd \<Rightarrow>
             skip (if b = CHR ''/'' then stateNormal else if b = CHR ''*'' then stateMaybeBlockEnd else stateBlockComment))"

text \<open>A caller that reads with buffers of the given sizes until the end of the input.\<close>

fun read_all :: "nat list \<Rightarrow> js_state \<Rightarrow> string \<Rightarrow> string \<times> bool" where
  "read_all [] st inp = ([], False)"
| "read_all (n # ns) st inp =
     (case js_Read n st inp of
        (out, st', rest, True) \<Rightarrow> (out, True)
      | (out, st', rest, False) \<Rightarrow> (case read_all ns st' rest of (out2, fin) \<Rightarrow> (out @ out2, fin)))"

section \<open>The reader as an automaton\<close>

fun js_next :: "js_state \<Rightarrow> char \<Rightarrow> js_state" where
  "js_next stateNormal b = (if b = CHR 0x22 then stateInString else if b = CHR ''/'' then stateMaybeComment else stateNormal)"
| "js_next stateInString b = (if b = CHR 0x5C then stateInStringEscape else if b = CHR 0x22 then stateNormal else stateInString)"
| "js_next stateInStringEscape b = stateInString"
| "js_next stateMaybeComment b = (if b = CHR ''/'' then stateLineComment else if b = CHR ''*'' then stateBlockComment else stateNormal)"
| "js_next stateLineComment b = (if b = CHR 0x0A \<or> b = CHR 0x0D then stateNormal else stateLineComment)"
| "js_next stateBlockComment b = (if b = CHR ''*'' then stateMaybeBlockEnd else stateBlockComment)"
| "js_next stateMaybeBlockEnd b = (if b = CHR ''/'' then stateNormal else if b = CHR ''*'' then stateMaybeBlockEnd else stateBlockComment)"

fun js_out :: "js_state \<Rightarrow> char \<Rightarrow> string" where
  "js_out stateNormal b = (if b = CHR ''/'' then [] else [b])"
| "js_out stateInString b = [b]"
| "js_out stateInStringEscape b = [b]"
| "js_out stateMaybeComment b = (if b = CHR ''/'' \<or> b = CHR ''*'' then [] else [CHR ''/'', b])"
| "js_out stateLineComment b = (if b = CHR 0x0A \<or> b = CHR 0x0D then [b] else [])"
| "js_out stateBlockComment b = []"
| "js_out stateMaybeBlockEnd b = []"

fun js_strip :: "js_state \<Rightarrow> string \<Rightarrow> string" where
  "js_strip st [] = (if st = stateMaybeComment then ''/'' else [])"
| "js_strip st (b # bs) = js_out st b @ js_strip (js_next st b) bs"

text \<open>A quote never follows a lone slash, as in all JSON with comments.\<close>

fun js_clean :: "js_state \<Rightarrow> string \<Rightarrow> bool" where
  "js_clean st [] = True"
| "js_clean st (b # bs) \<longleftrightarrow> \<not> (st = stateMaybeComment \<and> b = CHR 0x22) \<and> js_clean (js_next st b) bs"

text \<open>One call: what it writes and what is left are together what the automaton writes.\<close>

lemma js_Read_strip:
  "js_Read n st inp = (out, st', rest, eof) \<Longrightarrow> js_clean st inp \<Longrightarrow>
     js_clean st' rest \<and> (eof \<longrightarrow> out = js_strip st inp) \<and> (\<not> eof \<longrightarrow> length out = n \<and> js_strip st inp = out @ js_strip st' rest)"
proof (induction inp arbitrary: n st out)
  case Nil
  then show ?case by (cases n) (auto split: if_splits)
next
  case (Cons b bs)
  show ?case
  proof (cases n)
    case 0
    with Cons.prems show ?thesis by simp
  next
    case (Suc m)
    have emit: ?thesis if "js_Read n st (b # bs) = (case js_Read m s bs of (o', r) \<Rightarrow> (b # o', r))" "js_out st b = [b]" "js_next st b = s" for s
      using that Cons.prems Cons.IH [of m s] Suc by (auto split: prod.splits)
    have skip: ?thesis if "js_Read n st (b # bs) = js_Read n s bs" "js_out st b = []" "js_next st b = s" for s
      using that Cons.prems Cons.IH [of n s out] by auto
    show ?thesis
    proof (cases st)
      case stateMaybeComment
      show ?thesis
      proof (cases "b = CHR ''/'' \<or> b = CHR ''*''")
        case True
        then show ?thesis using stateMaybeComment Suc
          by (intro skip [of "if b = CHR ''/'' then stateLineComment else stateBlockComment"]) auto
      next
        case False
        then show ?thesis
          using stateMaybeComment Cons.prems Suc Cons.IH [of "m - 1" stateNormal] by (cases m) (auto split: prod.splits)
      qed
    next
      case stateNormal
      show ?thesis
      proof (cases "b = CHR ''/''")
        case True
        show ?thesis by (rule skip [of stateMaybeComment]) (use stateNormal True Suc in simp_all)
      next
        case False
        show ?thesis
          by (rule emit [of "if b = CHR 0x22 then stateInString else stateNormal"]) (use stateNormal False Suc in simp_all)
      qed
    next
      case stateLineComment
      show ?thesis
      proof (cases "b = CHR 0x0A \<or> b = CHR 0x0D")
        case True
        show ?thesis by (rule emit [of stateNormal]) (use stateLineComment True Suc in auto)
      next
        case False
        show ?thesis by (rule skip [of stateLineComment]) (use stateLineComment False Suc in auto)
      qed
    next
      case stateInString
      show ?thesis
        by (rule emit [of "if b = CHR 0x5C then stateInStringEscape else if b = CHR 0x22 then stateNormal else stateInString"])
          (use stateInString Suc in simp_all)
    next
      case stateInStringEscape
      show ?thesis by (rule emit [of stateInString]) (use stateInStringEscape Suc in simp_all)
    next
      case stateBlockComment
      show ?thesis
        by (rule skip [of "if b = CHR ''*'' then stateMaybeBlockEnd else stateBlockComment"]) (use stateBlockComment Suc in simp_all)
    next
      case stateMaybeBlockEnd
      show ?thesis
        by (rule skip [of "if b = CHR ''/'' then stateNormal else if b = CHR ''*'' then stateMaybeBlockEnd else stateBlockComment"])
          (use stateMaybeBlockEnd Suc in simp_all)
    qed
  qed
qed

text \<open>Reading with buffers of any sizes.\<close>

lemma read_all_strip:
  "js_clean st inp \<Longrightarrow> read_all ns st inp = (out, fin) \<Longrightarrow>
     (fin \<longrightarrow> out = js_strip st inp) \<and> (\<not> fin \<longrightarrow> length out = sum_list ns \<and> prefix out (js_strip st inp))"
proof (induction ns arbitrary: st inp out fin)
  case (Cons n ns)
  obtain o1 st' rest eof where r: "js_Read n st inp = (o1, st', rest, eof)" by (metis prod_cases4)
  note s = js_Read_strip [OF r Cons.prems(1)]
  show ?case
  proof (cases eof)
    case False
    obtain o2 e where r2: "read_all ns st' rest = (o2, e)" by fastforce
    with Cons.prems(2) r False have "out = o1 @ o2" "fin = e" by auto
    with Cons.IH [OF _ r2] s False show ?thesis by auto
  qed (use Cons.prems(2) r s in auto)
qed simp

lemma js_strip_length: "length (js_strip st inp) \<le> length inp + (if st = stateMaybeComment then 1 else 0)"
proof (induction inp arbitrary: st)
  case (Cons b bs)
  have "length (js_out st b) + (if js_next st b = stateMaybeComment then 1 else 0) \<le> 1 + (if st = stateMaybeComment then 1 else 0)"
    by (cases st) auto
  with Cons [of "js_next st b"] show ?case by simp
qed simp

lemma read_all_complete:
  assumes "js_clean stateNormal inp" "\<forall>n \<in> set ns. 0 < n" "length inp < length ns"
  shows "read_all ns stateNormal inp = (js_strip stateNormal inp, True)"
proof -
  obtain out e where r: "read_all ns stateNormal inp = (out, e)" by fastforce
  have "length ns \<le> sum_list ns" using assms(2) by (induction ns) auto
  moreover have "prefix out (js_strip stateNormal inp) \<Longrightarrow> length out \<le> length inp"
    using js_strip_length [of stateNormal inp] prefix_length_le [of out "js_strip stateNormal inp"] by simp
  ultimately show ?thesis using read_all_strip [OF assms(1) r] assms(3) r by (cases e) auto
qed

section \<open>Segments\<close>

text \<open>
  A document: characters outside of literals and comments, literals (without their quotes), line
  comments with the character that ends them, and block comments.
\<close>

datatype segment = Plain char | Literal string | LineComment string char | BlockComment string

fun literal_ok :: "string \<Rightarrow> bool" where
  "literal_ok [] = True"
| "literal_ok (c # cs) =
     (if c = CHR 0x22 then False
      else if c = CHR 0x5C then (case cs of [] \<Rightarrow> False | d # ds \<Rightarrow> literal_ok ds)
      else literal_ok cs)"

definition is_eol :: "char \<Rightarrow> bool" where
  "is_eol c \<longleftrightarrow> c = CHR 0x0A \<or> c = CHR 0x0D"

fun segment_ok :: "segment \<Rightarrow> bool" where
  "segment_ok (Plain c) \<longleftrightarrow> c \<noteq> CHR 0x22 \<and> c \<noteq> CHR ''/''"
| "segment_ok (Literal s) \<longleftrightarrow> literal_ok s"
| "segment_ok (LineComment s c) \<longleftrightarrow> list_all (\<lambda>d. \<not> is_eol d) s \<and> is_eol c"
| "segment_ok (BlockComment s) \<longleftrightarrow> \<not> sublist ''*/'' s"

fun render :: "segment \<Rightarrow> string" where
  "render (Plain c) = [c]"
| "render (Literal s) = CHR 0x22 # s @ [CHR 0x22]"
| "render (LineComment s c) = ''//'' @ s @ [c]"
| "render (BlockComment s) = ''/*'' @ s @ ''*/''"

fun without_comment :: "segment \<Rightarrow> string" where
  "without_comment (LineComment s c) = [c]"
| "without_comment (BlockComment s) = []"
| "without_comment seg = render seg"

definition step_over :: "js_state \<Rightarrow> string \<Rightarrow> js_state \<Rightarrow> string \<Rightarrow> bool" where
  "step_over st s st' out \<longleftrightarrow>
     (\<forall>t. js_strip st (s @ t) = out @ js_strip st' t \<and> js_clean st (s @ t) = js_clean st' t)"

lemma step_over_Nil: "step_over st [] st []"
  by (simp add: step_over_def)

lemma step_over_append: "step_over st s st' out \<Longrightarrow> step_over st' s' st'' out' \<Longrightarrow> step_over st (s @ s') st'' (out @ out')"
  by (simp add: step_over_def)

lemma step_over_one: "\<not> (st = stateMaybeComment \<and> b = CHR 0x22) \<Longrightarrow> step_over st [b] (js_next st b) (js_out st b)"
  by (simp add: step_over_def)

lemma step_literal: "literal_ok s \<Longrightarrow> step_over stateInString (s @ [CHR 0x22]) stateNormal (s @ [CHR 0x22])"
proof (induction s rule: literal_ok.induct)
  case (2 c cs)
  then show ?case by (auto simp: step_over_def split: if_splits list.splits)
qed (simp add: step_over_def)

lemma step_line: "list_all (\<lambda>d. \<not> is_eol d) s \<Longrightarrow> step_over stateLineComment s stateLineComment []"
  by (induction s) (auto simp: step_over_def is_eol_def)

lemma step_block:
  "(\<not> sublist ''*/'' s \<longrightarrow> step_over stateBlockComment (s @ ''*/'') stateNormal [])
   \<and> (\<not> sublist ''*/'' (CHR ''*'' # s) \<longrightarrow> step_over stateMaybeBlockEnd (s @ ''*/'') stateNormal [])"
proof (induction s)
  case (Cons c s)
  have "sublist ''*/'' (c # s) \<longleftrightarrow> sublist ''*/'' s \<or> c = CHR ''*'' \<and> (\<exists>t. s = CHR ''/'' # t)"
    by (cases s) (auto simp: sublist_Cons_right)
  moreover have "sublist ''*/'' (CHR ''*'' # c # s) \<longleftrightarrow> c = CHR ''/'' \<or> sublist ''*/'' (c # s)"
    by (auto simp: sublist_Cons_right)
  ultimately show ?case using Cons by (auto simp: step_over_def)
qed (auto simp: step_over_def)

lemma step_segment: "segment_ok seg \<Longrightarrow> step_over stateNormal (render seg) stateNormal (without_comment seg)"
proof (cases seg)
  case (LineComment s c)
  assume "segment_ok seg"
  with LineComment have "step_over stateLineComment (s @ [c]) stateNormal ([] @ [c])"
    by (intro step_over_append [OF step_line]) (auto simp: step_over_def is_eol_def)
  with LineComment show ?thesis by (simp add: step_over_def)
next
  case (BlockComment s)
  assume "segment_ok seg"
  with BlockComment step_block [of s] show ?thesis by (simp add: step_over_def)
next
  case (Literal s)
  assume "segment_ok seg"
  with Literal step_literal [of s] show ?thesis by (simp add: step_over_def)
qed (simp add: step_over_def)

lemma step_segments:
  "\<forall>seg \<in> set segs. segment_ok seg \<Longrightarrow> step_over stateNormal (concat (map render segs)) stateNormal (concat (map without_comment segs))"
  by (induction segs) (auto intro: step_over_Nil step_over_append [OF step_segment])

section \<open>Properties\<close>

text \<open>
  C35: comments are removed and nothing else. Whatever sizes of buffers the caller reads with, once there
  were enough of them the reader has met the end of the input and has produced the document without
  its comments: all literals are unchanged, also those that look like comments inside, and the line
  breaks after line comments are kept. An unfinished line comment at the end is dropped.
\<close>

theorem comments_stripped_exactly:
  assumes "\<forall>seg \<in> set segs. segment_ok seg" "\<forall>n \<in> set ns. 0 < n"
    and "trailer = [] \<or> (\<exists>s. trailer = ''//'' @ s \<and> list_all (\<lambda>d. \<not> is_eol d) s)"
    and "length (concat (map render segs) @ trailer) < length ns"
  shows "read_all ns stateNormal (concat (map render segs) @ trailer) = (concat (map without_comment segs), True)"
proof -
  have t: "js_clean stateNormal trailer \<and> js_strip stateNormal trailer = []"
  proof -
    have "js_clean stateLineComment s \<and> js_strip stateLineComment s = []" if "list_all (\<lambda>d. \<not> is_eol d) s" for s
      using step_line [OF that, unfolded step_over_def, rule_format, of "[]"] by simp
    with assms(3) show ?thesis by auto
  qed
  note s = step_segments [OF assms(1), unfolded step_over_def, rule_format, of trailer]
  from read_all_complete [OF _ assms(2,4)] s t show ?thesis by simp
qed

text \<open>
  A quote right after a lone slash, which is not JSON, is not taken for the start of a literal when
  both fit into the buffer, and is when they do not.
\<close>

lemma lone_slash_depends_on_buffer:
  "read_all [10] stateNormal (CHR ''/'' # CHR 0x22 # ''//x'' @ [CHR 0x22]) = (CHR ''/'' # [CHR 0x22], True)"
  "read_all [1, 10] stateNormal (CHR ''/'' # CHR 0x22 # ''//x'' @ [CHR 0x22]) = (CHR ''/'' # CHR 0x22 # ''//x'' @ [CHR 0x22], True)"
  by (simp_all add: numeral_eq_Suc)

theorem comments_stripped_exactly_witness:
  "read_all (replicate 30 2) stateNormal (CHR 0x22 # ''//'' @ [CHR 0x22] @ ''/* no */'' @ ''1'' @ ''// end'') = (CHR 0x22 # ''//'' @ [CHR 0x22] @ ''1'', True)"
  using comments_stripped_exactly [of "[Literal ''//'', BlockComment '' no '', Plain (CHR ''1'')]" "replicate 30 2" "''// end''"]
  by (simp add: is_eol_def sublist_Cons_right)

end
