(* ===== verification/Throttle.thy ===== *)
theory Throttle
  imports Prelude
begin

text \<open>
  The request throttle for artwork (\<open>server/throttle_backlog.go\<close>): at most \<open>limit\<close> requests are worked on
  at a time, some more wait, and responses are buffered so that slow clients hold no capacity.
  The channels of tokens are the numbers of values in them; their capacities are what they were filled
  with. Requests are interleaved channel operation by channel operation.
\<close>

record throttle =
  th_tokens :: nat
  th_backlog :: nat
  th_limit :: nat
  th_backlogCap :: nat

datatype throttle_config = Passthrough | ChiThrottle | Panics | Buffered throttle

definition ThrottleBacklog :: "bool \<Rightarrow> int \<Rightarrow> int \<Rightarrow> throttle_config" where
  "ThrottleBacklog buffered limit backlogLimit =
     (if limit \<le> 0 then Passthrough
      else if \<not> buffered then ChiThrottle
      else if limit + backlogLimit < 0 then Panics
      else Buffered \<lparr>th_tokens = nat limit, th_backlog = nat (limit + backlogLimit), th_limit = nat limit,
             th_backlogCap = nat (limit + backlogLimit)\<rparr>)"

text \<open>A receive takes a value if there is one; a send puts one in if there is room, and blocks otherwise.\<close>

definition recv_token :: "throttle \<Rightarrow> throttle option" where
  "recv_token t = (if th_tokens t > 0 then Some (t\<lparr>th_tokens := th_tokens t - 1\<rparr>) else None)"

definition recv_backlog :: "throttle \<Rightarrow> throttle option" where
  "recv_backlog t = (if th_backlog t > 0 then Some (t\<lparr>th_backlog := th_backlog t - 1\<rparr>) else None)"

definition send_token :: "throttle \<Rightarrow> throttle option" where
  "send_token t = (if th_tokens t < th_limit t then Some (t\<lparr>th_tokens := Suc (th_tokens t)\<rparr>) else None)"

definition send_backlog :: "throttle \<Rightarrow> throttle option" where
  "send_backlog t = (if th_backlog t < th_backlogCap t then Some (t\<lparr>th_backlog := Suc (th_backlog t)\<rparr>) else None)"

section \<open>Buffered responses\<close>

record buffered_writer =
  bw_header :: "string \<rightharpoonup> string list"
  bw_body :: string
  bw_code :: int

definition newBuffer :: buffered_writer where "newBuffer = \<lparr>bw_header = Map.empty, bw_body = [], bw_code = 0\<rparr>"

definition bw_Write :: "string \<Rightarrow> buffered_writer \<Rightarrow> buffered_writer" where
  "bw_Write b w = w\<lparr>bw_body := bw_body w @ b\<rparr>"

definition bw_WriteHeader :: "int \<Rightarrow> buffered_writer \<Rightarrow> buffered_writer" where
  "bw_WriteHeader code w = (if bw_code w \<noteq> 0 then w else w\<lparr>bw_code := code\<rparr>)"

text \<open>
  What the handler does to its writer, and what reaches the client: headers added to those already
  there, a status if one was set, and the body.
\<close>

datatype writer_op = SetHeader string "string list" | WriteBody string | WriteStatus int

fun write_op :: "writer_op \<Rightarrow> buffered_writer \<Rightarrow> buffered_writer" where
  "write_op (SetHeader k v) w = w\<lparr>bw_header := (bw_header w)(k \<mapsto> v)\<rparr>"
| "write_op (WriteBody b) w = bw_Write b w"
| "write_op (WriteStatus c) w = bw_WriteHeader c w"

definition flush_response :: "(string \<rightharpoonup> string list) \<Rightarrow> buffered_writer \<Rightarrow> (string \<rightharpoonup> string list) \<times> int option \<times> string" where
  "flush_response header w = (header ++ bw_header w, if bw_code w > 0 then Some (bw_code w) else None, bw_body w)"

lemma buffered_body: "bw_body (fold write_op ops w) = bw_body w @ concat (map (\<lambda>op. case op of WriteBody b \<Rightarrow> b | _ \<Rightarrow> []) ops)"
proof (induction ops arbitrary: w)
  case (Cons op ops)
  then show ?case by (cases op) (auto simp: bw_Write_def bw_WriteHeader_def)
qed simp

lemma buffered_code:
  "bw_code (fold write_op ops w) = (if bw_code w \<noteq> 0 then bw_code w
     else case filter (\<lambda>c. c \<noteq> 0) (concat (map (\<lambda>op. case op of WriteStatus c \<Rightarrow> [c] | _ \<Rightarrow> []) ops)) of [] \<Rightarrow> 0 | c # _ \<Rightarrow> c)"
proof (induction ops arbitrary: w)
  case (Cons op ops)
  then show ?case by (cases op) (auto simp: bw_Write_def bw_WriteHeader_def)
qed simp

section \<open>Interleaved requests\<close>

text \<open>
  Where a request is: before its first \<open>select\<close>; with a backlog token, before the second; waiting for a
  token; giving the backlog token back after a timeout or a cancellation; in the handler; between the
  two sends of the release; writing the buffered response to the client.
\<close>

datatype th_phase = TStart | TAdmitted | TWaiting | TGivingUp | TServing | TReleasing | TFlushing

datatype th_outcome = Refused | TimedOut | Canceled | Served

record th_run =
  tr_throttle :: throttle
  tr_calls :: "th_phase multiset"
  tr_done :: "th_outcome list"

inductive th_step :: "th_run \<Rightarrow> th_run \<Rightarrow> bool" where
  th_arrive: "th_step r (r\<lparr>tr_calls := add_mset TStart (tr_calls r)\<rparr>)"
| th_canceled: "tr_calls r = add_mset TStart cs \<Longrightarrow> th_step r (r\<lparr>tr_calls := cs, tr_done := Canceled # tr_done r\<rparr>)"
| th_admit: "tr_calls r = add_mset TStart cs \<Longrightarrow> recv_backlog (tr_throttle r) = Some t \<Longrightarrow>
     th_step r (r\<lparr>tr_throttle := t, tr_calls := add_mset TAdmitted cs\<rparr>)"
| th_refuse: "tr_calls r = add_mset TStart cs \<Longrightarrow> recv_backlog (tr_throttle r) = None \<Longrightarrow>
     th_step r (r\<lparr>tr_calls := cs, tr_done := Refused # tr_done r\<rparr>)"
| th_serve: "tr_calls r = add_mset p cs \<Longrightarrow> p \<in> {TAdmitted, TWaiting} \<Longrightarrow> recv_token (tr_throttle r) = Some t \<Longrightarrow>
     th_step r (r\<lparr>tr_throttle := t, tr_calls := add_mset TServing cs\<rparr>)"
| th_wait: "tr_calls r = add_mset TAdmitted cs \<Longrightarrow> recv_token (tr_throttle r) = None \<Longrightarrow>
     th_step r (r\<lparr>tr_calls := add_mset TWaiting cs\<rparr>)"
| th_giveUp: "tr_calls r = add_mset TWaiting cs \<Longrightarrow> th_step r (r\<lparr>tr_calls := add_mset TGivingUp cs\<rparr>)"
| th_gaveUp: "tr_calls r = add_mset TGivingUp cs \<Longrightarrow> send_backlog (tr_throttle r) = Some t \<Longrightarrow> out \<in> {TimedOut, Canceled} \<Longrightarrow>
     th_step r (r\<lparr>tr_throttle := t, tr_calls := cs, tr_done := out # tr_done r\<rparr>)"
| th_release: "tr_calls r = add_mset TServing cs \<Longrightarrow> send_token (tr_throttle r) = Some t \<Longrightarrow>
     th_step r (r\<lparr>tr_throttle := t, tr_calls := add_mset TReleasing cs\<rparr>)"
| th_released: "tr_calls r = add_mset TReleasing cs \<Longrightarrow> send_backlog (tr_throttle r) = Some t \<Longrightarrow>
     th_step r (r\<lparr>tr_throttle := t, tr_calls := add_mset TFlushing cs\<rparr>)"
| th_flushed: "tr_calls r = add_mset TFlushing cs \<Longrightarrow> th_step r (r\<lparr>tr_calls := cs, tr_done := Served # tr_done r\<rparr>)"

definition th_init :: "th_run \<Rightarrow> bool" where
  "th_init r \<longleftrightarrow> (\<exists>limit backlogLimit. ThrottleBacklog True limit backlogLimit = Buffered (tr_throttle r)) \<and> tr_calls r = {#}"

definition holds_backlog :: "th_phase \<Rightarrow> bool" where
  "holds_backlog p \<longleftrightarrow> p \<in> {TAdmitted, TWaiting, TGivingUp, TServing, TReleasing}"

definition in_phase :: "(th_phase \<Rightarrow> bool) \<Rightarrow> th_run \<Rightarrow> nat" where
  "in_phase P r = size (filter_mset P (tr_calls r))"

definition th_inv :: "th_run \<Rightarrow> bool" where
  "th_inv r \<longleftrightarrow> th_tokens (tr_throttle r) + in_phase (\<lambda>p. p = TServing) r = th_limit (tr_throttle r)
     \<and> th_backlog (tr_throttle r) + in_phase holds_backlog r = th_backlogCap (tr_throttle r)"

lemma th_init_inv: "th_init r \<Longrightarrow> th_inv r"
proof -
  have "th_tokens t = th_limit t \<and> th_backlog t = th_backlogCap t" if "ThrottleBacklog True a b = Buffered t" for a b t
    using that by (auto simp: ThrottleBacklog_def split: if_splits)
  then show "th_init r \<Longrightarrow> th_inv r" by (auto simp: th_init_def th_inv_def in_phase_def)
qed

lemma th_step_inv: "th_step r r' \<Longrightarrow> th_inv r \<Longrightarrow> th_inv r'"
  by (induction rule: th_step.induct)
    (auto simp: th_inv_def in_phase_def holds_backlog_def recv_token_def recv_backlog_def send_token_def send_backlog_def split: if_splits)

interpretation th: step_invariant th_init th_step th_inv
  by unfold_locales (rule th_init_inv, assumption, rule th_step_inv)

section \<open>Properties\<close>

text \<open>
  C34: the throttle keeps its limits and loses no capacity. In every interleaving of requests at most \<open>limit\<close>
  handlers run and at most \<open>limit + backlog\<close> requests are admitted. The sends that give tokens back
  never block, so a request that gives up or is served always returns what it took; a request that is
  refused finds the backlog full; and when nobody but slow clients is left, all tokens are back.
\<close>

theorem throttle_keeps_capacity:
  assumes "reachable th_init th_step r"
  shows "in_phase (\<lambda>p. p = TServing) r \<le> th_limit (tr_throttle r) \<and> in_phase holds_backlog r \<le> th_backlogCap (tr_throttle r)
    \<and> (TServing \<in># tr_calls r \<longrightarrow> send_token (tr_throttle r) \<noteq> None)
    \<and> (TGivingUp \<in># tr_calls r \<or> TReleasing \<in># tr_calls r \<longrightarrow> send_backlog (tr_throttle r) \<noteq> None)
    \<and> (recv_backlog (tr_throttle r) = None \<longleftrightarrow> in_phase holds_backlog r = th_backlogCap (tr_throttle r))
    \<and> (in_phase holds_backlog r = 0 \<longrightarrow> th_tokens (tr_throttle r) = th_limit (tr_throttle r) \<and> th_backlog (tr_throttle r) = th_backlogCap (tr_throttle r))"
proof -
  note inv = th.reachable_inv [OF assms, unfolded th_inv_def]
  have some: "in_phase P r > 0" if "p \<in># tr_calls r" "P p" for p P
    using that by (auto simp: in_phase_def nonempty_has_size [symmetric])
  have "in_phase (\<lambda>p. p = TServing) r \<le> in_phase holds_backlog r"
    unfolding in_phase_def by (intro size_mset_mono filter_mset_mono_strong) (auto simp: holds_backlog_def)
  with inv some [of TServing "\<lambda>p. p = TServing"] some [of TGivingUp holds_backlog] some [of TReleasing holds_backlog]
  show ?thesis by (auto simp: send_token_def send_backlog_def recv_backlog_def holds_backlog_def split: if_splits)
qed

section \<open>Witness\<close>

definition demo_throttle :: "nat \<Rightarrow> nat \<Rightarrow> throttle" where
  "demo_throttle n m = \<lparr>th_tokens = n, th_backlog = m, th_limit = 1, th_backlogCap = 2\<rparr>"

definition demo_requests :: "nat \<Rightarrow> nat \<Rightarrow> th_phase multiset \<Rightarrow> th_run" where
  "demo_requests n m cs = \<lparr>tr_throttle = demo_throttle n m, tr_calls = cs, tr_done = []\<rparr>"

lemma demo_serving: "reachable th_init th_step (demo_requests 0 1 {#TServing#})"
proof -
  have "ThrottleBacklog True 1 1 = Buffered (demo_throttle 1 2)" by (simp add: ThrottleBacklog_def demo_throttle_def)
  then have "th_init (demo_requests 1 2 {#})" by (auto simp: th_init_def demo_requests_def)
  moreover have "th_step (demo_requests 1 2 {#}) (demo_requests 1 2 {#TStart#})"
    using th_arrive [of "demo_requests 1 2 {#}"] by (simp add: demo_requests_def)
  moreover have "th_step (demo_requests 1 2 {#TStart#}) (demo_requests 1 1 {#TAdmitted#})"
    using th_admit [of "demo_requests 1 2 {#TStart#}" "{#}" "demo_throttle 1 1"] by (simp add: demo_requests_def recv_backlog_def demo_throttle_def)
  moreover have "th_step (demo_requests 1 1 {#TAdmitted#}) (demo_requests 0 1 {#TServing#})"
    using th_serve [of "demo_requests 1 1 {#TAdmitted#}" TAdmitted "{#}" "demo_throttle 0 1"] by (simp add: demo_requests_def recv_token_def demo_throttle_def)
  ultimately show ?thesis by (blast intro: reachable.intros)
qed

theorem throttle_keeps_capacity_witness:
  "in_phase (\<lambda>p. p = TServing) (demo_requests 0 1 {#TServing#}) = 1 \<and> send_token (tr_throttle (demo_requests 0 1 {#TServing#})) \<noteq> None"
  using throttle_keeps_capacity [OF demo_serving] by (simp add: demo_requests_def in_phase_def)

end
