(* ===== verification/Durations.thy ===== *)
theory Durations
  imports Media
begin

text \<open>
  Durations in configuration and smart playlists (\<open>utils/time.go\<close>): Go's notation with days and weeks.
  \<open>time.Duration.String\<close> and \<open>time.ParseDuration\<close> of the standard library are modelled with it. A
  \<open>float64\<close> is an exact decimal here; a number of days too large for one is an error on either path.
\<close>

section \<open>The standard library\<close>

definition Microsecond :: duration where "Microsecond = 1000"

definition Minute :: duration where "Minute = 60 * Second"

definition Hour :: duration where "Hour = 60 * Minute"

text \<open>\<open>fmtFrac\<close>: the last \<open>prec\<close> digits without trailing zeros, after a point, if any are left.\<close>

fun frac_digits :: "nat \<Rightarrow> nat \<Rightarrow> string" where
  "frac_digits 0 v = []"
| "frac_digits (Suc p) v = frac_digits p (v div 10) @ [char_of (48 + v mod 10)]"

definition strip_zeros :: "string \<Rightarrow> string" where
  "strip_zeros ds = rev (dropWhile (\<lambda>c. c = CHR ''0'') (rev ds))"

definition fmtFrac :: "nat \<Rightarrow> nat \<Rightarrow> string" where
  "fmtFrac prec v = (let ds = strip_zeros (frac_digits prec v) in if ds = [] then [] else CHR ''.'' # ds)"

definition fmt_unit :: "nat \<Rightarrow> string \<Rightarrow> nat \<Rightarrow> string" where
  "fmt_unit prec unit v = nat_digits (v div 10 ^ prec) @ fmtFrac prec v @ unit"

definition Duration_String :: "duration \<Rightarrow> string" where
  "Duration_String d =
     (let u = nat \<bar>d\<bar>;
          body =
            (if u = 0 then ''0s''
             else if u < nat Microsecond then fmt_unit 0 ''ns'' u
             else if u < nat Millisecond then fmt_unit 3 [CHR 0xC2, CHR 0xB5, CHR ''s''] u
             else if u < nat Second then fmt_unit 6 ''ms'' u
             else (let secs = u div 10 ^ 9;
                       s = nat_digits (secs mod 60) @ fmtFrac 9 u @ ''s'';
                       mins = secs div 60
                   in if mins = 0 then s
                      else if mins div 60 = 0 then nat_digits (mins mod 60) @ ''m'' @ s
                      else nat_digits (mins div 60) @ ''h'' @ nat_digits (mins mod 60) @ ''m'' @ s))
      in if d < 0 then CHR ''-'' # body else body)"

text \<open>
  \<open>leadingFraction\<close> stops adding digits where the value would not fit. The result is the value, the
  number of digits in it and the rest.
\<close>

fun leadingFraction :: "nat \<Rightarrow> nat \<Rightarrow> bool \<Rightarrow> string \<Rightarrow> nat \<times> nat \<times> string" where
  "leadingFraction x k overflow [] = (x, k, [])"
| "leadingFraction x k overflow (c # s) =
     (if \<not> is_digit c then (x, k, c # s)
      else if overflow then leadingFraction x k True s
      else if x > (2 ^ 63 - 1) div 10 then leadingFraction x k True s
      else (let y = x * 10 + digit_val c
            in if y > 2 ^ 63 then leadingFraction x k True s else leadingFraction y (Suc k) False s))"

definition unitMap :: "string \<rightharpoonup> nat" where
  "unitMap u =
     (if u = ''ns'' then Some 1
      else if u = ''us'' \<or> u = [CHR 0xC2, CHR 0xB5, CHR ''s''] \<or> u = [CHR 0xCE, CHR 0xBC, CHR ''s''] then Some 1000
      else if u = ''ms'' then Some (10 ^ 6)
      else if u = ''s'' then Some (10 ^ 9)
      else if u = ''m'' then Some (60 * 10 ^ 9)
      else if u = ''h'' then Some (3600 * 10 ^ 9)
      else None)"

definition unit_char :: "char \<Rightarrow> bool" where
  "unit_char c \<longleftrightarrow> c \<noteq> CHR ''.'' \<and> \<not> is_digit c"

text \<open>The fraction of a number: its value, its number of digits and the rest.\<close>

definition fraction_part :: "string \<Rightarrow> nat \<times> nat \<times> string" where
  "fraction_part s1 =
     (if s1 \<noteq> [] \<and> hd s1 = CHR ''.'' then leadingFraction 0 0 False (tl s1) else (0, 0, s1))"

text \<open>One round of the loop: the nanoseconds of the first number and unit, and the rest.\<close>

definition parse_segment :: "string \<Rightarrow> (nat \<times> string) option" where
  "parse_segment s =
     (let ds = takeWhile is_digit s;
          s1 = dropWhile is_digit s;
          v = digits_val ds;
          point = (s1 \<noteq> [] \<and> hd s1 = CHR ''.'');
          (f, k, s2) = fraction_part s1;
          post = (point \<and> length s2 < length (tl s1));
          u = takeWhile unit_char s2;
          rest = dropWhile unit_char s2
      in if v > 2 ^ 63 \<or> (ds = [] \<and> \<not> post) \<or> u = [] then None
         else (case unitMap u of
                 None \<Rightarrow> None
               | Some unit \<Rightarrow>
                   (if v > 2 ^ 63 div unit then None
                    else (let w = v * unit + f * unit div 10 ^ k in if w > 2 ^ 63 then None else Some (w, rest)))))"

lemma leadingFraction_length: "leadingFraction x k b s = (y, l, r) \<Longrightarrow> length r \<le> length s"
  by (induction x k b s rule: leadingFraction.induct) (fastforce simp: Let_def split: if_splits)+

lemma takeWhile_ne_length: "takeWhile P s \<noteq> [] \<Longrightarrow> length (dropWhile P s) < length s"
  by (cases s) (auto split: if_splits intro: le_imp_less_Suc length_dropWhile_le)

lemma fraction_part_length: "fraction_part s = (f, k, r) \<Longrightarrow> length r \<le> length s"
  using leadingFraction_length [of 0 0 False "tl s" f k r] by (auto simp: fraction_part_def split: if_splits)

lemma parse_segment_shorter: "parse_segment s = Some (w, r) \<Longrightarrow> length r < length s"
proof -
  assume a: "parse_segment s = Some (w, r)"
  obtain f k s2 where f: "fraction_part (dropWhile is_digit s) = (f, k, s2)"
    by (cases "fraction_part (dropWhile is_digit s)")
  have le: "length s2 \<le> length s"
    using fraction_part_length [OF f] length_dropWhile_le [of is_digit s] by linarith
  have "takeWhile unit_char s2 \<noteq> []" "r = dropWhile unit_char s2"
    using a f by (auto simp: parse_segment_def Let_def split: if_splits option.splits)
  with takeWhile_ne_length le show ?thesis by fastforce
qed

function parse_loop :: "nat \<Rightarrow> string \<Rightarrow> nat option" where
  "parse_loop d s =
     (if s = [] then Some d
      else (case parse_segment s of
              None \<Rightarrow> None
            | Some (w, r) \<Rightarrow> if d + w > 2 ^ 63 then None else parse_loop (d + w) r))"
  by pat_completeness auto
termination
  by (relation "measure (\<lambda>(d, s). length s)") (auto dest: parse_segment_shorter)

declare parse_loop.simps [simp del]

definition time_ParseDuration :: "string \<Rightarrow> duration option" where
  "time_ParseDuration s0 =
     (let neg = (s0 \<noteq> [] \<and> hd s0 = CHR ''-'');
          s = (if s0 \<noteq> [] \<and> (hd s0 = CHR ''-'' \<or> hd s0 = CHR ''+'') then tl s0 else s0)
      in if s = ''0'' then Some 0
         else if s = [] then None
         else (case parse_loop 0 s of
                 None \<Rightarrow> None
               | Some d \<Rightarrow> if neg then Some (- int d) else if d > 2 ^ 63 - 1 then None else Some (int d)))"

section \<open>Days and weeks\<close>

text \<open>
  \<open>durationDayWeekRe\<close> at the start of a string: sign, integer part, fraction, unit and rest. At every
  position the pattern can match in one way only.
\<close>

definition match_day_week :: "string \<Rightarrow> (bool \<times> string \<times> string \<times> char \<times> string) option" where
  "match_day_week s0 =
     (let neg = (s0 \<noteq> [] \<and> hd s0 = CHR ''-'');
          s = (if neg then tl s0 else s0);
          ip = takeWhile is_digit s;
          s1 = dropWhile is_digit s;
          point = (s1 \<noteq> [] \<and> hd s1 = CHR ''.'' \<and> takeWhile is_digit (tl s1) \<noteq> []);
          fp = (if point then takeWhile is_digit (tl s1) else []);
          s2 = (if point then dropWhile is_digit (tl s1) else s1)
      in if ip = [] then None
         else (case s2 of
                 c # r \<Rightarrow> if c = CHR ''d'' \<or> c = CHR ''w'' then Some (neg, ip, fp, c, r) else None
               | [] \<Rightarrow> None))"

text \<open>The replacement: the number of hours, in decimal.\<close>

definition hours_text :: "bool \<Rightarrow> string \<Rightarrow> string \<Rightarrow> char \<Rightarrow> string" where
  "hours_text neg ip fp c =
     (let n = digits_val (ip @ fp) * (if c = CHR ''w'' then 24 * 7 else 24);
          k = length fp
      in (if neg then ''-'' else []) @ nat_digits (n div 10 ^ k) @ fmtFrac k n @ ''h'')"

lemma match_day_week_shorter: "match_day_week s = Some (neg, ip, fp, c, r) \<Longrightarrow> length r < length s"
proof -
  assume a: "match_day_week s = Some (neg, ip, fp, c, r)"
  define s' where "s' = (if s \<noteq> [] \<and> hd s = CHR ''-'' then tl s else s)"
  define s1 where "s1 = dropWhile is_digit s'"
  have "c # r = s1 \<or> c # r = dropWhile is_digit (tl s1)"
    using a by (auto simp: match_day_week_def Let_def s'_def [symmetric] s1_def [symmetric] split: list.splits if_splits)
  then have "length (c # r) \<le> length s1"
    using length_dropWhile_le [of is_digit "tl s1"] by (metis diff_le_self length_tl order_refl order_trans)
  also have "\<dots> \<le> length s'" by (simp add: s1_def length_dropWhile_le)
  also have "\<dots> \<le> length s" by (simp add: s'_def)
  finally show ?thesis by simp
qed

function expand_day_week :: "string \<Rightarrow> string" where
  "expand_day_week s =
     (if s = [] then []
      else (case match_day_week s of
              None \<Rightarrow> hd s # expand_day_week (tl s)
            | Some (neg, ip, fp, c, r) \<Rightarrow> hours_text neg ip fp c @ expand_day_week r))"
  by pat_completeness auto
termination
  by (relation "measure length") (auto dest: match_day_week_shorter)

declare expand_day_week.simps [simp del]

datatype duration_error = InvalidDuration string | NegativeDuration string

definition ParseDuration :: "string \<Rightarrow> duration_error + duration" where
  "ParseDuration s =
     (case time_ParseDuration (expand_day_week s) of
        None \<Rightarrow> Inl (InvalidDuration s)
      | Some d \<Rightarrow> if d < 0 then Inl (NegativeDuration s) else Inr d)"

definition formatSubDay :: "duration \<Rightarrow> string" where
  "formatSubDay d = (if d \<ge> Hour \<and> d mod Hour = 0 then Itoa (d div Hour) @ ''h'' else Duration_String d)"

definition FormatDuration :: "duration \<Rightarrow> string" where
  "FormatDuration d =
     (if d < 24 * Hour then formatSubDay d
      else (let week = 7 * 24 * Hour;
                day = 24 * Hour;
                w = (if d div week > 0 then Itoa (d div week) @ ''w'' else []);
                d1 = (if d div week > 0 then d mod week else d);
                dd = (if d1 div day > 0 then Itoa (d1 div day) @ ''d'' else []);
                d2 = (if d1 div day > 0 then d1 mod day else d1)
            in w @ dd @ (if d2 > 0 then formatSubDay d2 else [])))"

section \<open>Reading back what was written\<close>

lemma digit_not_unit: "is_digit c \<Longrightarrow> \<not> unit_char c" "unit_char c \<Longrightarrow> \<not> is_digit c" "\<not> unit_char (CHR ''.'')"
  by (simp_all add: unit_char_def)

lemma takeWhile_split:
  assumes "list_all P xs" "ys = [] \<or> \<not> P (hd ys)"
  shows "takeWhile P (xs @ ys) = xs" "dropWhile P (xs @ ys) = ys"
  using assms by (induction xs) (cases ys; simp)+

lemma foldl_digits: "foldl (\<lambda>n c. 10 * n + digit_val c) a ys = a * 10 ^ length ys + digits_val ys"
proof (induction ys rule: rev_induct)
  case (snoc y ys)
  have "digits_val (ys @ [y]) = 10 * digits_val ys + digit_val y" by (simp add: digits_val_def)
  with snoc show ?case by simp
qed (simp add: digits_val_def)

lemma digits_val_append: "digits_val (xs @ ys) = digits_val xs * 10 ^ length ys + digits_val ys"
  using foldl_digits [of "digits_val xs" ys] by (simp add: digits_val_def)

lemma digits_val_zeros [simp]: "digits_val (replicate n (CHR ''0'')) = 0"
  by (induction n) (auto simp: digits_val_def digit_val_def)

lemma frac_digits_val: "digits_val (frac_digits p v) = v mod 10 ^ p"
proof (induction p arbitrary: v)
  case (Suc p)
  have "digit_val (char_of (48 + v mod 10)) = v mod 10" by (simp add: digit_val_def)
  then show ?case
    using Suc [of "v div 10"] by (simp add: digits_val_append digits_val_def mod_mult2_eq)
qed (simp add: digits_val_def)

lemma frac_digits_digits: "list_all is_digit (frac_digits p v)"
  by (induction p arbitrary: v) (auto simp: is_digit_def)

lemma length_frac_digits [simp]: "length (frac_digits p v) = p"
  by (induction p arbitrary: v) auto

lemma strip_zeros_split: "\<exists>j. ds = strip_zeros ds @ replicate j (CHR ''0'')"
proof -
  let ?P = "\<lambda>c. c = CHR ''0''"
  have "rev ds = takeWhile ?P (rev ds) @ dropWhile ?P (rev ds)" by simp
  then have "ds = rev (dropWhile ?P (rev ds)) @ rev (takeWhile ?P (rev ds))"
    by (metis rev_append rev_rev_ident)
  moreover have "takeWhile ?P (rev ds) = replicate (length (takeWhile ?P (rev ds))) (CHR ''0'')"
    by (rule replicate_eqI) (auto dest: set_takeWhileD)
  ultimately show ?thesis by (metis rev_replicate strip_zeros_def)
qed

lemma leadingFraction_digits:
  assumes "list_all is_digit ds" "r = [] \<or> \<not> is_digit (hd r)" "x * 10 ^ length ds + digits_val ds < 10 ^ 18"
  shows "leadingFraction x k False (ds @ r) = (x * 10 ^ length ds + digits_val ds, k + length ds, r)"
  using assms
proof (induction ds arbitrary: x k)
  case Nil
  then show ?case by (cases r) (auto simp: digits_val_def)
next
  case (Cons c ds)
  have v: "x * 10 ^ length (c # ds) + digits_val (c # ds) = (x * 10 + digit_val c) * 10 ^ length ds + digits_val ds"
    using digits_val_append [of "[c]" ds] by (simp add: digits_val_def algebra_simps)
  have "(x * 10 + digit_val c) * 1 \<le> (x * 10 + digit_val c) * 10 ^ length ds"
    by (rule mult_le_mono2) simp
  then have small: "x * 10 + digit_val c < 10 ^ 18"
    using Cons.prems(3) unfolding v by (metis add_lessD1 le_less_trans mult.right_neutral)
  have step: "leadingFraction x k False ((c # ds) @ r) = leadingFraction (x * 10 + digit_val c) (Suc k) False (ds @ r)"
    using Cons.prems(1) small by (simp add: Let_def)
  show ?case
    unfolding v step using Cons.prems Cons.IH [of "x * 10 + digit_val c" "Suc k"] unfolding v by simp
qed

definition unit_text :: "nat \<Rightarrow> string \<Rightarrow> string \<Rightarrow> bool" where
  "unit_text n u r \<longleftrightarrow> unitMap u = Some n \<and> u \<noteq> [] \<and> list_all unit_char u \<and> (r = [] \<or> is_digit (hd r))"

lemma unit_text_splits:
  assumes "unit_text n u r"
  shows "takeWhile unit_char (u @ r) = u" "dropWhile unit_char (u @ r) = r"
    "u @ r \<noteq> []" "hd (u @ r) \<noteq> CHR ''.''" "\<not> is_digit (hd (u @ r))" "u \<noteq> []" "unitMap u = Some n"
  using assms takeWhile_split [of unit_char u r]
  by (auto simp: unit_text_def unit_char_def neq_Nil_conv)

text \<open>A number with its unit, whatever its fraction is.\<close>

lemma parse_segment_number:
  assumes u: "unit_text n u r" and "0 < n" and w: "v * n + f * n div 10 ^ k \<le> 2 ^ 63"
    and fp: "fraction_part (fr @ u @ r) = (f, k, u @ r)" and fr: "fr = [] \<or> hd fr = CHR ''.''"
  shows "parse_segment (nat_digits v @ fr @ u @ r) = Some (v * n + f * n div 10 ^ k, r)"
proof -
  note s = unit_text_splits [OF u]
  have "\<not> is_digit (hd (fr @ u @ r))" using s(5) fr by (cases fr) (auto simp: is_digit_def)
  then have t: "takeWhile is_digit (nat_digits v @ fr @ u @ r) = nat_digits v"
    "dropWhile is_digit (nat_digits v @ fr @ u @ r) = fr @ u @ r"
    using takeWhile_split [OF nat_digits_digits, of "fr @ u @ r" v] by auto
  have "v * n \<le> 2 ^ 63" using w by linarith
  then have "v \<le> 2 ^ 63 div n" using assms(2) by (simp add: less_eq_div_iff_mult_less_eq)
  moreover have "(2 ^ 63 :: nat) div n \<le> 2 ^ 63" by (rule div_le_dividend)
  ultimately have "\<not> v > 2 ^ 63 div n" "\<not> v > 2 ^ 63" by linarith+
  then show ?thesis
    using s(6) w by (simp add: parse_segment_def t fp s(1,2,7) digits_val_nat_digits Let_def)
qed

lemma parse_segment_int:
  assumes u: "unit_text n u r" and "v * n \<le> 2 ^ 63" "0 < n"
  shows "parse_segment (nat_digits v @ u @ r) = Some (v * n, r)"
proof -
  have "fraction_part ([] @ u @ r) = (0, 0, u @ r)"
    using unit_text_splits(4) [OF u] by (simp add: fraction_part_def)
  from parse_segment_number [OF u assms(3) _ this] assms(2) show ?thesis by simp
qed

lemma fraction_part_fmtFrac:
  assumes u: "unit_text (10 ^ p) u r" and p: "p \<le> 9"
  shows "\<exists>f k. fraction_part (fmtFrac p n @ u @ r) = (f, k, u @ r) \<and> f * 10 ^ p div 10 ^ k = n mod 10 ^ p"
proof -
  define ds where "ds = strip_zeros (frac_digits p n)"
  obtain j where j: "frac_digits p n = ds @ replicate j (CHR ''0'')"
    using strip_zeros_split unfolding ds_def by blast
  have len: "p = length ds + j" using arg_cong [OF j, of length] by simp
  have val: "n mod 10 ^ p = digits_val ds * 10 ^ j"
    using arg_cong [OF j, of digits_val] by (simp add: frac_digits_val digits_val_append)
  have dig: "list_all is_digit ds" using frac_digits_digits [of p n] by (simp add: j)
  note s = unit_text_splits [OF u]
  have "digits_val ds * 1 \<le> digits_val ds * 10 ^ j" by (rule mult_le_mono2) simp
  also have "\<dots> < 10 ^ p" unfolding val [symmetric] by simp
  also have "(10 :: nat) ^ p \<le> 10 ^ 18" using p by (intro power_increasing) auto
  finally have lf: "leadingFraction 0 0 False (ds @ u @ r) = (digits_val ds, length ds, u @ r)"
    using leadingFraction_digits [OF dig, of "u @ r" 0 0] s(5) by simp
  have q: "digits_val ds * 10 ^ p div 10 ^ length ds = n mod 10 ^ p"
    unfolding val by (simp add: len power_add)
  show ?thesis
  proof (cases "ds = []")
    case True
    then have "fmtFrac p n = []" by (simp add: fmtFrac_def ds_def [symmetric])
    then show ?thesis using s(3,4) q True by (auto simp: fraction_part_def digits_val_def)
  next
    case False
    then have "fmtFrac p n = CHR ''.'' # ds" by (simp add: fmtFrac_def ds_def [symmetric])
    then show ?thesis using lf q by (simp add: fraction_part_def)
  qed
qed

lemma parse_segment_frac:
  assumes u: "unit_text (10 ^ p) u r" and p: "p \<le> 9" and n: "n \<le> 2 ^ 63"
  shows "parse_segment (fmt_unit p u n @ r) = Some (n, r)"
proof -
  obtain f k where f: "fraction_part (fmtFrac p n @ u @ r) = (f, k, u @ r)" "f * 10 ^ p div 10 ^ k = n mod 10 ^ p"
    using fraction_part_fmtFrac [OF u p] by blast
  have "n div 10 ^ p * 10 ^ p + f * 10 ^ p div 10 ^ k = n"
    unfolding f(2) by (rule div_mult_mod_eq)
  with parse_segment_number [OF u _ _ f(1), of "n div 10 ^ p"] n show ?thesis
    by (auto simp: fmt_unit_def fmtFrac_def Let_def)
qed

lemma parse_loop_Nil [simp]: "parse_loop d [] = Some d"
  by (subst parse_loop.simps) simp

lemma parse_loop_segment:
  assumes "parse_segment s = Some (w, r)" "d + w \<le> 2 ^ 63"
  shows "parse_loop d s = parse_loop (d + w) r"
proof -
  have "s \<noteq> []" using parse_segment_shorter [OF assms(1)] by auto
  then show ?thesis using assms by (subst parse_loop.simps) simp
qed

lemma unit_char_letters [simp]:
  "unit_char (CHR ''h'')" "unit_char (CHR ''m'')" "unit_char (CHR ''s'')" "unit_char (CHR ''n'')"
  "unit_char (CHR 0xC2)" "unit_char (CHR 0xB5)"
  by (simp_all add: unit_char_def is_digit_def)

lemma unit_texts:
  "r = [] \<or> is_digit (hd r) \<Longrightarrow> unit_text (10 ^ 0) ''ns'' r"
  "r = [] \<or> is_digit (hd r) \<Longrightarrow> unit_text (10 ^ 3) [CHR 0xC2, CHR 0xB5, CHR ''s''] r"
  "r = [] \<or> is_digit (hd r) \<Longrightarrow> unit_text (10 ^ 6) ''ms'' r"
  "r = [] \<or> is_digit (hd r) \<Longrightarrow> unit_text (10 ^ 9) ''s'' r"
  "r = [] \<or> is_digit (hd r) \<Longrightarrow> unit_text (60 * 10 ^ 9) ''m'' r"
  "r = [] \<or> is_digit (hd r) \<Longrightarrow> unit_text (3600 * 10 ^ 9) ''h'' r"
  by (simp_all add: unit_text_def unitMap_def)

lemma hd_nat_digits [simp]: "is_digit (hd (nat_digits n))" "hd (nat_digits n @ r) = hd (nat_digits n)"
  using nat_digits_digits [of n] nat_digits_ne [of n] by (cases "nat_digits n"; auto)+

lemma hd_fmt_unit [simp]: "is_digit (hd (fmt_unit p u n))"
  by (simp add: fmt_unit_def)

lemma frac_digits_mod: "frac_digits p (v mod 10 ^ p) = frac_digits p v"
proof (induction p arbitrary: v)
  case (Suc p)
  have m: "v mod 10 ^ Suc p = 10 * (v div 10 mod 10 ^ p) + v mod 10"
    using mod_mult2_eq [of v 10 "10 ^ p"] by simp
  then have "v mod 10 ^ Suc p div 10 = v div 10 mod 10 ^ p" "v mod 10 ^ Suc p mod 10 = v mod 10" by simp_all
  then show ?case using Suc [of "v div 10"] by (simp only: frac_digits.simps)
qed simp

lemma fmtFrac_mod: "fmtFrac p (v mod (m * 10 ^ p)) = fmtFrac p v"
proof -
  have "v mod (m * 10 ^ p) mod 10 ^ p = v mod 10 ^ p" by (rule mod_mod_cancel) simp
  then have "frac_digits p (v mod (m * 10 ^ p)) = frac_digits p v" by (metis frac_digits_mod)
  then show ?thesis by (simp add: fmtFrac_def)
qed

lemma parse_loop_String:
  assumes "0 \<le> d" "a + nat d \<le> 2 ^ 63"
  shows "parse_loop a (Duration_String d) = Some (a + nat d)"
proof -
  define u where "u = nat d"
  note const = Microsecond_def Millisecond_def Second_def
  have fr: "parse_loop a (fmt_unit p t u) = Some (a + u)" if "unit_text (10 ^ p) t []" "p \<le> 9" for p t
    using parse_loop_segment [OF parse_segment_frac [OF that], of u a] assms by (simp add: u_def)
  show ?thesis
  proof (cases "u < nat Second")
    case True
    have "nat_digits 0 = ''0''" by code_simp
    then have zero: "parse_loop a ''0s'' = Some a"
      using parse_loop_segment [OF parse_segment_int [OF unit_texts(4) [of "[]"], of 0], of a] assms by simp
    show ?thesis
      using True fr [OF unit_texts(1)] fr [OF unit_texts(2)] fr [OF unit_texts(3)] zero assms(1)
      by (simp add: Duration_String_def u_def [symmetric] Let_def)
  next
    case False
    let ?h = "3600 * 10 ^ 9 :: nat" and ?m = "60 * 10 ^ 9 :: nat"
    define s where "s = u mod ?m"
    define mm where "mm = u div ?m mod 60"
    define hh where "hh = u div ?h"
    have secs: "nat_digits (u div 10 ^ 9 mod 60) @ fmtFrac 9 u @ ''s'' = fmt_unit 9 ''s'' s"
    proof -
      have "s = 10 ^ 9 * (u div 10 ^ 9 mod 60) + u mod 10 ^ 9"
        using mod_mult2_eq [of u "10 ^ 9" 60] by (simp add: s_def mult.commute)
      then have "u div 10 ^ 9 mod 60 = s div 10 ^ 9" by simp
      then show ?thesis by (simp only: fmt_unit_def s_def fmtFrac_mod)
    qed
    have hh: "u div ?m div 60 = hh" by (simp add: hh_def flip: div_mult2_eq)
    have tot: "u = hh * ?h + (mm * ?m + s)"
      using div_mult_mod_eq [of u ?m] div_mult_mod_eq [of "u div ?m" 60] unfolding hh mm_def [symmetric] s_def [symmetric]
      by simp
    have S: "parse_loop b (fmt_unit 9 ''s'' s) = Some (b + s)" if "b + s \<le> 2 ^ 63" for b
      using parse_loop_segment [OF parse_segment_frac [OF unit_texts(4), of "[]" s], of b] that by simp
    have M: "parse_loop b (nat_digits mm @ ''m'' @ fmt_unit 9 ''s'' s) = Some (b + mm * ?m + s)"
      if "b + mm * ?m + s \<le> 2 ^ 63" for b
      using parse_loop_segment [OF parse_segment_int [OF unit_texts(5)], of "fmt_unit 9 ''s'' s" mm b] S [of "b + mm * ?m"] that
      by simp
    have H: "parse_loop b (nat_digits hh @ ''h'' @ nat_digits mm @ ''m'' @ fmt_unit 9 ''s'' s) = Some (b + hh * ?h + mm * ?m + s)"
      if "b + hh * ?h + mm * ?m + s \<le> 2 ^ 63" for b
      using parse_loop_segment [OF parse_segment_int [OF unit_texts(6)], of "nat_digits mm @ ''m'' @ fmt_unit 9 ''s'' s" hh b]
        M [of "b + hh * ?h"] that by simp
    have str: "Duration_String d =
        (if u div ?m = 0 then fmt_unit 9 ''s'' s
         else if hh = 0 then nat_digits mm @ ''m'' @ fmt_unit 9 ''s'' s
         else nat_digits hh @ ''h'' @ nat_digits mm @ ''m'' @ fmt_unit 9 ''s'' s)"
    proof -
      have "u div 10 ^ 9 div 60 = u div ?m" "u div ?m mod 60 = mm"
        by (simp_all add: mm_def flip: div_mult2_eq)
      moreover note hh
      moreover have "\<not> u < nat Second" "u \<noteq> 0" "\<not> u < nat Millisecond" "\<not> u < nat Microsecond"
        using False by (auto simp: const)
      ultimately show ?thesis
        using assms(1) unfolding Duration_String_def Let_def by (simp only: u_def [symmetric] secs abs_of_nonneg) simp
    qed
    show ?thesis
    proof -
      have "u div ?m = 0 \<Longrightarrow> mm = 0 \<and> hh = 0" by (simp add: mm_def hh_def)
      then show ?thesis
        using S [of a] M [of a] H [of a] tot assms(2) unfolding str by (auto simp: u_def [symmetric] add.assoc)
    qed
  qed
qed

lemma parse_loop_formatSubDay:
  assumes "0 \<le> d" "a + nat d \<le> 2 ^ 63"
  shows "parse_loop a (formatSubDay d) = Some (a + nat d)"
proof (cases "Hour \<le> d \<and> d mod Hour = 0")
  case True
  define k where "k = nat (d div Hour)"
  have "d = int k * Hour"
    using True by (auto simp: k_def Hour_def Minute_def Second_def)
  then have d: "nat d = k * (3600 * 10 ^ 9)" by (simp add: Hour_def Minute_def Second_def nat_mult_distrib)
  have "formatSubDay d = nat_digits k @ ''h'' @ []"
    using True by (simp add: formatSubDay_def Itoa_def k_def Hour_def Minute_def Second_def pos_imp_zdiv_neg_iff)
  then show ?thesis
    using parse_loop_segment [OF parse_segment_int [OF unit_texts(6) [of "[]"], of k], of a] assms unfolding d by simp
next
  case False
  then have "formatSubDay d = Duration_String d" by (auto simp: formatSubDay_def)
  then show ?thesis using parse_loop_String [OF assms] by simp
qed

subsection \<open>Expanding days and weeks\<close>

definition no_day_week :: "string \<Rightarrow> bool" where
  "no_day_week s \<longleftrightarrow> CHR ''d'' \<notin> set s \<and> CHR ''w'' \<notin> set s"

lemma match_day_week_char: "match_day_week s = Some (neg, ip, fp, c, r) \<Longrightarrow> c \<in> set s \<and> (c = CHR ''d'' \<or> c = CHR ''w'')"
proof -
  assume a: "match_day_week s = Some (neg, ip, fp, c, r)"
  define s' where "s' = (if s \<noteq> [] \<and> hd s = CHR ''-'' then tl s else s)"
  have s': "set s' \<subseteq> set s" by (cases s) (auto simp: s'_def)
  have "set (dropWhile is_digit s') \<subseteq> set s'" by (auto dest: set_dropWhileD)
  moreover have "set (dropWhile is_digit (tl (dropWhile is_digit s'))) \<subseteq> set s'"
    by (metis set_dropWhileD subsetI list.set_sel(2) tl_Nil dropWhile.simps(1) empty_iff list.set(1))
  moreover have "c # r = dropWhile is_digit s' \<or> c # r = dropWhile is_digit (tl (dropWhile is_digit s'))"
    "c = CHR ''d'' \<or> c = CHR ''w''"
    using a by (auto simp: match_day_week_def Let_def s'_def [symmetric] split: list.splits if_splits)
  ultimately show ?thesis using s' by (metis list.set_intros(1) subsetD)
qed

lemma expand_plain: "no_day_week s \<Longrightarrow> expand_day_week s = s"
proof (induction s)
  case (Cons c s)
  have "match_day_week (c # s) = None"
    using Cons.prems match_day_week_char [of "c # s"]
    by (cases "match_day_week (c # s)") (auto simp: no_day_week_def)
  with Cons show ?case by (subst expand_day_week.simps) (auto simp: no_day_week_def)
qed (subst expand_day_week.simps, simp)

lemma expand_number:
  assumes "c = CHR ''d'' \<or> c = CHR ''w''"
  shows "expand_day_week (nat_digits n @ c # r) =
         nat_digits (n * (if c = CHR ''w'' then 24 * 7 else 24)) @ ''h'' @ expand_day_week r"
proof -
  have nd: "\<not> is_digit c" "c \<noteq> CHR ''.''" using assms by (auto simp: is_digit_def)
  have "hd (nat_digits n) \<noteq> CHR ''-''" using hd_nat_digits(1) [of n] by (auto simp: is_digit_def)
  then have "match_day_week (nat_digits n @ c # r) = Some (False, nat_digits n, [], c, r)"
    using takeWhile_split [OF nat_digits_digits, of "c # r" n] nd assms
    by (auto simp: match_day_week_def Let_def)
  then show ?thesis
    by (subst expand_day_week.simps) (simp add: hours_text_def fmtFrac_def strip_zeros_def digits_val_nat_digits Let_def)
qed

lemma no_day_week_simps [simp]:
  "no_day_week []" "no_day_week (xs @ ys) \<longleftrightarrow> no_day_week xs \<and> no_day_week ys"
  "no_day_week (c # xs) \<longleftrightarrow> c \<noteq> CHR ''d'' \<and> c \<noteq> CHR ''w'' \<and> no_day_week xs"
  by (auto simp: no_day_week_def)

lemma no_day_week_digits: "list_all is_digit s \<Longrightarrow> no_day_week s"
  by (induction s) (auto simp: is_digit_def)

lemma no_day_week_numbers [simp]: "no_day_week (nat_digits n)" "no_day_week (fmtFrac p n)"
proof -
  show "no_day_week (nat_digits n)" by (rule no_day_week_digits [OF nat_digits_digits])
  have "no_day_week (frac_digits p n)" by (rule no_day_week_digits [OF frac_digits_digits])
  moreover obtain j where "frac_digits p n = strip_zeros (frac_digits p n) @ replicate j (CHR ''0'')"
    using strip_zeros_split by blast
  ultimately have "no_day_week (strip_zeros (frac_digits p n))" by (metis no_day_week_simps(2))
  then show "no_day_week (fmtFrac p n)" by (simp add: fmtFrac_def Let_def)
qed

lemma no_day_week_formatSubDay: "0 \<le> d \<Longrightarrow> no_day_week (formatSubDay d)"
  by (simp add: formatSubDay_def Duration_String_def fmt_unit_def Itoa_def Let_def)

definition digit_head :: "string \<Rightarrow> bool" where
  "digit_head s \<longleftrightarrow> s \<noteq> [] \<and> is_digit (hd s)"

lemma digit_head_simps:
  "digit_head (if b then s else t) = (if b then digit_head s else digit_head t)"
  "digit_head (nat_digits n @ r)" "digit_head ''0s''"
  by (simp_all add: digit_head_def is_digit_def [of "CHR ''0''"])

lemma hd_formatSubDay: "0 \<le> d \<Longrightarrow> digit_head (formatSubDay d)"
proof -
  assume "0 \<le> d"
  then have "\<not> d < 0" "\<not> d div Hour < 0" by (simp_all add: Hour_def Minute_def Second_def pos_imp_zdiv_neg_iff)
  then show ?thesis
    by (simp only: formatSubDay_def Duration_String_def fmt_unit_def Itoa_def Let_def digit_head_simps if_False if_cancel)
qed

text \<open>A duration as hours of weeks, hours of days and the rest, each left out when it is zero.\<close>

definition hours_form :: "nat \<Rightarrow> nat \<Rightarrow> duration \<Rightarrow> string" where
  "hours_form w n d =
     (if w > 0 then nat_digits (w * (24 * 7)) @ ''h'' else []) @ (if n > 0 then nat_digits (n * 24) @ ''h'' else []) @
     (if d > 0 then formatSubDay d else [])"

lemma parse_hours:
  assumes "a + k * (3600 * 10 ^ 9) \<le> 2 ^ 63" "r = [] \<or> is_digit (hd r)"
  shows "parse_loop a (nat_digits k @ ''h'' @ r) = parse_loop (a + k * (3600 * 10 ^ 9)) r"
  using parse_loop_segment [OF parse_segment_int [OF unit_texts(6) [OF assms(2)], of k], of a] assms(1) by simp

lemma hd_hours_form: "w > 0 \<or> n > 0 \<Longrightarrow> digit_head (hours_form w n d)"
  by (auto simp: hours_form_def digit_head_def)

lemma parse_hours_form:
  assumes "0 \<le> d" "w * (24 * 7) * (3600 * 10 ^ 9) + n * 24 * (3600 * 10 ^ 9) + nat d \<le> 2 ^ 63"
  shows "parse_loop 0 (hours_form w n d) = Some (w * (24 * 7) * (3600 * 10 ^ 9) + n * 24 * (3600 * 10 ^ 9) + nat d)"
proof -
  define sub where "sub = (if d > 0 then formatSubDay d else [])"
  define days where "days = (if n > 0 then nat_digits (n * 24) @ ''h'' else []) @ sub"
  have sub: "sub = [] \<or> is_digit (hd sub)" using hd_formatSubDay [OF assms(1)] by (simp add: sub_def digit_head_def)
  have s: "parse_loop b sub = Some (b + nat d)" if "b + nat d \<le> 2 ^ 63" for b
    using parse_loop_formatSubDay [OF assms(1) that] assms(1) by (auto simp: sub_def)
  have days: "days = [] \<or> is_digit (hd days)" using sub by (simp add: days_def)
  have dd: "parse_loop b days = Some (b + n * 24 * (3600 * 10 ^ 9) + nat d)" if "b + n * 24 * (3600 * 10 ^ 9) + nat d \<le> 2 ^ 63" for b
    using parse_hours [of b "n * 24" sub] s [of "b + n * 24 * (3600 * 10 ^ 9)"] s [of b] sub that by (simp add: days_def)
  show ?thesis
    using parse_hours [of 0 "w * (24 * 7)" days] dd [of "w * (24 * 7) * (3600 * 10 ^ 9)"] dd [of 0] days assms(2)
    by (simp add: hours_form_def flip: sub_def days_def)
qed

lemma FormatDuration_hours:
  assumes "24 * Hour \<le> d"
  shows "expand_day_week (FormatDuration d) =
    hours_form (nat (d div (7 * 24 * Hour))) (nat (d mod (7 * 24 * Hour) div (24 * Hour))) (d mod (7 * 24 * Hour) mod (24 * Hour))"
proof -
  define w where "w = d div (7 * 24 * Hour)"
  define n where "n = d mod (7 * 24 * Hour) div (24 * Hour)"
  define r where "r = d mod (7 * 24 * Hour) mod (24 * Hour)"
  have H: "Hour > 0" by (simp add: Hour_def Minute_def Second_def)
  have nn: "0 \<le> w" "0 \<le> n" "0 \<le> r"
    using assms H by (simp_all add: w_def n_def r_def pos_imp_zdiv_nonneg_iff)
  have d1: "(if d div (7 * 24 * Hour) > 0 then d mod (7 * 24 * Hour) else d) = d mod (7 * 24 * Hour)"
  proof (cases "w > 0")
    case False
    then have "d < 7 * 24 * Hour" using nn H by (metis order.antisym not_le pos_imp_zdiv_pos_iff w_def mult_pos_pos zero_less_numeral)
    then show ?thesis using assms H False by (simp add: w_def)
  qed (simp add: w_def)
  have d2: "(if n > 0 then r else d mod (7 * 24 * Hour)) = r"
  proof (cases "n > 0")
    case False
    then have "d mod (7 * 24 * Hour) < 24 * Hour"
      using nn H by (metis not_le pos_imp_zdiv_pos_iff n_def mult_pos_pos zero_less_numeral)
    then show ?thesis using H False by (simp add: r_def)
  qed simp
  have "FormatDuration d = (if w > 0 then nat_digits (nat w) @ ''w'' else []) @ (if n > 0 then nat_digits (nat n) @ ''d'' else []) @
      (if r > 0 then formatSubDay r else [])"
    using assms nn unfolding FormatDuration_def Let_def d1 unfolding w_def [symmetric] n_def [symmetric] r_def [symmetric] d2
    by (simp add: Itoa_def)
  moreover have "expand_day_week (formatSubDay r) = formatSubDay r" "expand_day_week [] = []"
    using expand_plain no_day_week_formatSubDay nn(3) by simp_all
  ultimately show ?thesis
    using nn unfolding w_def [symmetric] n_def [symmetric] r_def [symmetric] by (simp add: hours_form_def expand_number)
qed

lemma ParseDuration_digits:
  assumes e: "expand_day_week s = t" and l: "parse_loop 0 t = Some (nat d)" and t: "digit_head t"
    and d: "0 \<le> d" "d < 2 ^ 63"
  shows "ParseDuration s = Inr d"
proof -
  have "parse_segment ''0'' = None"
    by (simp add: parse_segment_def fraction_part_def is_digit_def digits_val_def digit_val_def Let_def)
  then have "parse_loop 0 ''0'' = None" by (subst parse_loop.simps) simp
  then have "t \<noteq> ''0''" using l by auto
  moreover have "t \<noteq> []" "hd t \<noteq> CHR ''-''" "hd t \<noteq> CHR ''+''" using t by (auto simp: is_digit_def digit_head_def)
  ultimately show ?thesis using l d by (simp add: ParseDuration_def e time_ParseDuration_def Let_def)
qed

lemma FormatDuration_reads_back:
  assumes "0 \<le> d" "d < 2 ^ 63"
  shows "ParseDuration (FormatDuration d) = Inr d"
proof (cases "d < 24 * Hour")
  case True
  then have "expand_day_week (FormatDuration d) = formatSubDay d"
    using expand_plain no_day_week_formatSubDay assms(1) by (simp add: FormatDuration_def)
  moreover have "parse_loop 0 (formatSubDay d) = Some (nat d)"
    using parse_loop_formatSubDay [OF assms(1), of 0] assms(2) by simp
  ultimately show ?thesis
    using ParseDuration_digits hd_formatSubDay assms by blast
next
  case False
  define w where "w = nat (d div (7 * 24 * Hour))"
  define n where "n = nat (d mod (7 * 24 * Hour) div (24 * Hour))"
  define r where "r = d mod (7 * 24 * Hour) mod (24 * Hour)"
  have H: "Hour = 3600 * 10 ^ 9" by (simp add: Hour_def Minute_def Second_def)
  have nn: "0 \<le> d div (7 * 24 * Hour)" "0 \<le> d mod (7 * 24 * Hour) div (24 * Hour)" "0 \<le> r"
    using assms by (simp_all add: H r_def pos_imp_zdiv_nonneg_iff)
  have "d = int w * (7 * 24 * Hour) + (int n * (24 * Hour) + r)"
    using nn div_mult_mod_eq [of d "7 * 24 * Hour"] div_mult_mod_eq [of "d mod (7 * 24 * Hour)" "24 * Hour"]
    by (simp only: w_def n_def r_def int_nat_eq if_True)
  then have sum: "nat d = w * (24 * 7) * (3600 * 10 ^ 9) + n * 24 * (3600 * 10 ^ 9) + nat r"
    using nn(3) unfolding H by (simp add: nat_add_distrib nat_mult_distrib)
  have pos: "w > 0 \<or> n > 0"
  proof (rule ccontr)
    assume "\<not> (w > 0 \<or> n > 0)"
    then have "d = r" using nn \<open>d = _\<close> by simp
    moreover have "r < 24 * Hour" by (simp add: r_def H)
    ultimately show False using False by simp
  qed
  have "parse_loop 0 (hours_form w n r) = Some (nat d)"
    using parse_hours_form [OF nn(3), of w n] assms unfolding sum [symmetric] by simp
  then show ?thesis
    using ParseDuration_digits FormatDuration_hours [of d] hd_hours_form [OF pos] False assms
    unfolding w_def [symmetric] n_def [symmetric] r_def [symmetric] by simp
qed

section \<open>Properties\<close>

text \<open>
  What \<open>FormatDuration\<close> writes, with weeks and days, is read back by \<open>ParseDuration\<close> as the same
  duration, for every duration that is not negative.
\<close>

theorem duration_roundtrip:
  "0 \<le> d \<Longrightarrow> d < 2 ^ 63 \<Longrightarrow> ParseDuration (FormatDuration d) = Inr d"
  by (rule FormatDuration_reads_back)

theorem duration_roundtrip_witness:
  "FormatDuration (36 * Hour) = ''1d12h'' \<and> ParseDuration (FormatDuration (36 * Hour)) = Inr (36 * Hour)"
proof
  show "FormatDuration (36 * Hour) = ''1d12h''"
    by code_simp
  show "ParseDuration (FormatDuration (36 * Hour)) = Inr (36 * Hour)"
    by (rule duration_roundtrip) (simp_all add: Hour_def Minute_def Second_def)
qed

end
