(* ===== verification/Criteria.thy ===== *)
theory Criteria
  imports Durations "HOL-Library.List_Lexorder" "HOL-Library.Char_ord"
begin

text \<open>
  The rules of smart playlists (package \<open>model/criteria\<close>): fields, operators, their JSON form and the
  order and limit of the result. A JSON document is its tree, with the members of an object in the
  order of the text. Decoded into a Go map, an object is the list of its members sorted by key, the
  last one of a repeated key; ranging over a map takes its members in this order. A number is a
  rational, with a flag that tells whether its literal has neither fraction nor exponent, since only
  such a literal can be decoded into an \<open>int\<close>.
\<close>

section \<open>Fields\<close>

record field_info =
  fi_Alias :: string
  fi_IsTag :: bool
  fi_IsRole :: bool
  fi_Numeric :: bool
  fi_Boolean :: bool
  fi_Nullable :: bool
  fi_tagAlias :: string
  fi_name :: string

definition fi0 :: field_info where
  "fi0 = \<lparr>fi_Alias = [], fi_IsTag = False, fi_IsRole = False, fi_Numeric = False, fi_Boolean = False,
          fi_Nullable = False, fi_tagAlias = [], fi_name = []\<rparr>"

type_synonym field_map = "(string \<times> field_info) list"

definition fieldMap :: field_map where
  "fieldMap =
     [(''title'', fi0), (''album'', fi0\<lparr>fi_Nullable := True\<rparr>),
      (''hascoverart'', fi0\<lparr>fi_Boolean := True\<rparr>), (''tracknumber'', fi0), (''discnumber'', fi0),
      (''year'', fi0), (''date'', fi0\<lparr>fi_tagAlias := ''recordingdate''\<rparr>),
      (''originalyear'', fi0), (''originaldate'', fi0), (''releaseyear'', fi0), (''releasedate'', fi0),
      (''size'', fi0), (''compilation'', fi0\<lparr>fi_Boolean := True\<rparr>),
      (''missing'', fi0\<lparr>fi_Boolean := True\<rparr>),
      (''explicitstatus'', fi0\<lparr>fi_Nullable := True\<rparr>), (''dateadded'', fi0),
      (''datemodified'', fi0), (''discsubtitle'', fi0\<lparr>fi_Nullable := True\<rparr>),
      (''comment'', fi0\<lparr>fi_Nullable := True\<rparr>),
      (''lyrics'', fi0\<lparr>fi_Nullable := True\<rparr>),
      (''sorttitle'', fi0\<lparr>fi_Nullable := True\<rparr>),
      (''sortalbum'', fi0\<lparr>fi_Nullable := True\<rparr>),
      (''sortartist'', fi0\<lparr>fi_Nullable := True\<rparr>),
      (''sortalbumartist'', fi0\<lparr>fi_Nullable := True\<rparr>),
      (''albumcomment'', fi0\<lparr>fi_Nullable := True\<rparr>),
      (''catalognumber'', fi0\<lparr>fi_Nullable := True\<rparr>), (''filepath'', fi0), (''filetype'', fi0),
      (''codec'', fi0), (''duration'', fi0), (''bitrate'', fi0),
      (''bitdepth'', fi0\<lparr>fi_Numeric := True, fi_Nullable := True\<rparr>), (''samplerate'', fi0),
      (''bpm'', fi0\<lparr>fi_Numeric := True, fi_Nullable := True\<rparr>), (''channels'', fi0),
      (''loved'', fi0\<lparr>fi_Boolean := True\<rparr>), (''dateloved'', fi0), (''lastplayed'', fi0),
      (''daterated'', fi0), (''playcount'', fi0), (''rating'', fi0),
      (''averagerating'', fi0\<lparr>fi_Numeric := True\<rparr>), (''albumrating'', fi0),
      (''albumloved'', fi0\<lparr>fi_Boolean := True\<rparr>), (''albumplaycount'', fi0),
      (''albumlastplayed'', fi0), (''albumdateloved'', fi0), (''albumdaterated'', fi0),
      (''albumdateadded'', fi0), (''albumdatemodified'', fi0), (''albumduration'', fi0),
      (''albumsongcount'', fi0), (''albumsize'', fi0), (''artistrating'', fi0),
      (''artistloved'', fi0\<lparr>fi_Boolean := True\<rparr>), (''artistplaycount'', fi0),
      (''artistlastplayed'', fi0), (''artistdateloved'', fi0), (''artistdaterated'', fi0),
      (''mbz_album_id'', fi0\<lparr>fi_Nullable := True\<rparr>),
      (''mbz_album_artist_id'', fi0\<lparr>fi_Nullable := True\<rparr>),
      (''mbz_artist_id'', fi0\<lparr>fi_Nullable := True\<rparr>),
      (''mbz_recording_id'', fi0\<lparr>fi_Nullable := True\<rparr>),
      (''mbz_release_track_id'', fi0\<lparr>fi_Nullable := True\<rparr>),
      (''mbz_release_group_id'', fi0\<lparr>fi_Nullable := True\<rparr>),
      (''rgalbumgain'', fi0\<lparr>fi_Numeric := True, fi_Nullable := True\<rparr>),
      (''rgalbumpeak'', fi0\<lparr>fi_Numeric := True, fi_Nullable := True\<rparr>),
      (''rgtrackgain'', fi0\<lparr>fi_Numeric := True, fi_Nullable := True\<rparr>),
      (''rgtrackpeak'', fi0\<lparr>fi_Numeric := True, fi_Nullable := True\<rparr>),
      (''library_id'', fi0\<lparr>fi_Numeric := True\<rparr>),
      (''albumtype'', fi0\<lparr>fi_Alias := ''releasetype'', fi_IsTag := True\<rparr>),
      (''replaygain_album_gain'', fi0\<lparr>fi_Alias := ''rgalbumgain'', fi_Numeric := True, fi_Nullable := True\<rparr>),
      (''replaygain_album_peak'', fi0\<lparr>fi_Alias := ''rgalbumpeak'', fi_Numeric := True, fi_Nullable := True\<rparr>),
      (''replaygain_track_gain'', fi0\<lparr>fi_Alias := ''rgtrackgain'', fi_Numeric := True, fi_Nullable := True\<rparr>),
      (''replaygain_track_peak'', fi0\<lparr>fi_Alias := ''rgtrackpeak'', fi_Numeric := True, fi_Nullable := True\<rparr>),
      (''random'', fi0)]"

definition AllFieldNames :: "field_map \<Rightarrow> string list" where
  "AllFieldNames fm = map fst fm"

definition LookupField :: "field_map \<Rightarrow> string \<Rightarrow> field_info option" where
  "LookupField fm n =
     (let key = ToLower n
      in case map_of fm key of
           None \<Rightarrow> None
         | Some f \<Rightarrow> Some (f\<lparr>fi_name := if fi_Alias f \<noteq> [] then fi_Alias f else key\<rparr>))"

fun AddRoles :: "string list \<Rightarrow> field_map \<Rightarrow> field_map" where
  "AddRoles [] fm = fm"
| "AddRoles (role # roles) fm =
     (let n = ToLower role
      in AddRoles roles (if map_of fm n \<noteq> None then fm else fm @ [(n, fi0\<lparr>fi_IsRole := True\<rparr>)]))"

fun AddTagNames :: "string list \<Rightarrow> field_map \<Rightarrow> field_map" where
  "AddTagNames [] fm = fm"
| "AddTagNames (t # ts) fm =
     (let n = ToLower t
      in AddTagNames ts
           (if map_of fm n \<noteq> None then fm
            else (case find (\<lambda>(key, f). fi_tagAlias f = n) fm of
                    Some (key, f) \<Rightarrow> fm @ [(n, f\<lparr>fi_Alias := key, fi_tagAlias := []\<rparr>)]
                  | None \<Rightarrow> fm @ [(n, fi0\<lparr>fi_IsTag := True\<rparr>)])))"

fun AddNumericTags :: "string list \<Rightarrow> field_map \<Rightarrow> field_map" where
  "AddNumericTags [] fm = fm"
| "AddNumericTags (t # ts) fm =
     (let n = ToLower t
      in AddNumericTags ts
           (if map_of fm n \<noteq> None
            then map (\<lambda>(key, f). if key = n then (key, f\<lparr>fi_Numeric := True\<rparr>) else (key, f)) fm
            else fm @ [(n, fi0\<lparr>fi_IsTag := True, fi_Numeric := True\<rparr>)]))"

section \<open>JSON\<close>

datatype json =
    JNull
  | JBool bool
  | JNum bool rat
  | JStr string
  | JArr "json list"
  | JObj "(string \<times> json) list"

text \<open>A Go map with string keys.\<close>

fun member_put :: "string \<Rightarrow> 'v \<Rightarrow> (string \<times> 'v) list \<Rightarrow> (string \<times> 'v) list" where
  "member_put k v [] = [(k, v)]"
| "member_put k v ((k', v') # m) =
     (if k < k' then (k, v) # (k', v') # m else if k = k' then (k, v) # m else (k', v') # member_put k v m)"

definition obj_map :: "(string \<times> 'v) list \<Rightarrow> (string \<times> 'v) list" where
  "obj_map kvs = foldl (\<lambda>m (k, v). member_put k v m) [] kvs"

text \<open>
  Decoding into \<open>any\<close>. A number becomes a \<open>float64\<close>; the flag is that of the literal which \<open>json.Marshal\<close>
  writes for it.
\<close>

definition int_literal :: "rat \<Rightarrow> bool" where
  "int_literal q \<longleftrightarrow> q = of_int \<lfloor>q\<rfloor> \<and> \<bar>q\<bar> < 10 ^ 21"

fun any_of :: "json \<Rightarrow> json" where
  "any_of (JNum b q) = JNum (int_literal q) q"
| "any_of (JArr xs) = JArr (map any_of xs)"
| "any_of (JObj kvs) = JObj (obj_map (map (\<lambda>(k, v). (k, any_of v)) kvs))"
| "any_of j = j"

text \<open>The targets \<open>map[string]any\<close>, \<open>[]map[string]json.RawMessage\<close>, \<open>string\<close> and \<open>int\<close>; \<open>null\<close> leaves them as they are.\<close>

definition decode_map :: "json \<Rightarrow> (string \<times> json) list option" where
  "decode_map j =
     (case j of
        JNull \<Rightarrow> Some []
      | JObj kvs \<Rightarrow> Some (obj_map (map (\<lambda>(k, v). (k, any_of v)) kvs))
      | _ \<Rightarrow> None)"

fun decode_raw_map :: "json \<Rightarrow> (string \<times> json) list option" where
  "decode_raw_map JNull = Some []"
| "decode_raw_map (JObj kvs) = Some (obj_map kvs)"
| "decode_raw_map _ = None"

fun decode_raw_maps :: "json \<Rightarrow> (string \<times> json) list list option" where
  "decode_raw_maps JNull = Some []"
| "decode_raw_maps (JArr xs) = those (map decode_raw_map xs)"
| "decode_raw_maps _ = None"

fun decode_string :: "string \<Rightarrow> json \<Rightarrow> string option" where
  "decode_string s0 JNull = Some s0"
| "decode_string s0 (JStr s) = Some s"
| "decode_string s0 _ = None"

fun decode_int :: "int \<Rightarrow> json \<Rightarrow> int option" where
  "decode_int i0 JNull = Some i0"
| "decode_int i0 (JNum b q) =
     (if b \<and> q = of_int \<lfloor>q\<rfloor> \<and> - (2 ^ 63) \<le> \<lfloor>q\<rfloor> \<and> \<lfloor>q\<rfloor> < 2 ^ 63 then Some \<lfloor>q\<rfloor> else None)"
| "decode_int i0 _ = None"

section \<open>Expressions\<close>

datatype leaf_op =
    Is | IsNot | Gt | Lt | Before | After | Contains | NotContains | StartsWith | EndsWith | InTheRange
  | InTheLast | NotInTheLast | InPlaylist | NotInPlaylist | IsMissing | IsPresent

datatype expression =
    All_of "expression list"
  | Any_of "expression list"
  | Leaf leaf_op "(string \<times> json) list"

record criteria =
  cr_Expression :: "expression option"
  cr_Sort :: string
  cr_Order :: string
  cr_Limit :: int
  cr_LimitPercent :: int
  cr_Offset :: int
  cr_RefreshDelay :: duration

fun op_name :: "leaf_op \<Rightarrow> string" where
  "op_name Is = ''is''"
| "op_name IsNot = ''isNot''"
| "op_name Gt = ''gt''"
| "op_name Lt = ''lt''"
| "op_name Before = ''before''"
| "op_name After = ''after''"
| "op_name Contains = ''contains''"
| "op_name NotContains = ''notContains''"
| "op_name StartsWith = ''startsWith''"
| "op_name EndsWith = ''endsWith''"
| "op_name InTheRange = ''inTheRange''"
| "op_name InTheLast = ''inTheLast''"
| "op_name NotInTheLast = ''notInTheLast''"
| "op_name InPlaylist = ''inPlaylist''"
| "op_name NotInPlaylist = ''notInPlaylist''"
| "op_name IsMissing = ''isMissing''"
| "op_name IsPresent = ''isPresent''"

definition all_ops :: "leaf_op list" where
  "all_ops = [Is, IsNot, Gt, Lt, Contains, NotContains, StartsWith, EndsWith, InTheRange, Before, After,
              InTheLast, NotInTheLast, InPlaylist, NotInPlaylist, IsMissing, IsPresent]"

text \<open>\<open>fields\<close> of an expression: conjunctions have none.\<close>

fun expr_fields :: "expression \<Rightarrow> (string \<times> json) list" where
  "expr_fields (Leaf op m) = m"
| "expr_fields _ = []"

text \<open>\<open>Walk\<close>: the visited expressions in order, and the first error of the visitor.\<close>

fun Walk :: "expression \<Rightarrow> (expression \<Rightarrow> 'e option) \<Rightarrow> 'e option"
  and Walk_list :: "expression list \<Rightarrow> (expression \<Rightarrow> 'e option) \<Rightarrow> 'e option" where
  "Walk (All_of es) visit = (case visit (All_of es) of Some e \<Rightarrow> Some e | None \<Rightarrow> Walk_list es visit)"
| "Walk (Any_of es) visit = (case visit (Any_of es) of Some e \<Rightarrow> Some e | None \<Rightarrow> Walk_list es visit)"
| "Walk (Leaf op m) visit = visit (Leaf op m)"
| "Walk_list [] visit = None"
| "Walk_list (x # xs) visit = (case Walk x visit of Some e \<Rightarrow> Some e | None \<Rightarrow> Walk_list xs visit)"

fun extractPlaylistField :: "string \<Rightarrow> expression \<Rightarrow> string list" where
  "extractPlaylistField field (Any_of es) = concat (map (extractPlaylistField field) es)"
| "extractPlaylistField field (All_of es) = concat (map (extractPlaylistField field) es)"
| "extractPlaylistField field (Leaf op m) =
     (if op = InPlaylist \<or> op = NotInPlaylist
      then (case map_of m field of Some (JStr v) \<Rightarrow> if v \<noteq> [] then [v] else [] | _ \<Rightarrow> [])
      else [])"

text \<open>\<open>slices.Sort\<close> and \<open>slices.Compact\<close>: sorted, without repetitions. Only a conjunction has references.\<close>

definition childPlaylistRefs :: "string \<Rightarrow> criteria \<Rightarrow> string list" where
  "childPlaylistRefs field c =
     (case cr_Expression c of
        Some (All_of es) \<Rightarrow> remdups_adj (sort (extractPlaylistField field (All_of es)))
      | Some (Any_of es) \<Rightarrow> remdups_adj (sort (extractPlaylistField field (Any_of es)))
      | _ \<Rightarrow> [])"

definition ChildPlaylistIds :: "criteria \<Rightarrow> string list" where
  "ChildPlaylistIds c = childPlaylistRefs ''id'' c"

definition ChildPlaylistPaths :: "criteria \<Rightarrow> string list" where
  "ChildPlaylistPaths c = childPlaylistRefs ''path'' c"

section \<open>Limits and order\<close>

definition EffectiveLimit :: "criteria \<Rightarrow> int \<Rightarrow> int" where
  "EffectiveLimit c totalCount =
     (if cr_Limit c > 0 then cr_Limit c
      else if cr_LimitPercent c > 0 \<and> cr_LimitPercent c \<le> 100
      then (if totalCount \<le> 0 then 0
            else (let r = totalCount * cr_LimitPercent c div 100 in if r < 1 then 1 else r))
      else 0)"

definition IsPercentageLimit :: "criteria \<Rightarrow> bool" where
  "IsPercentageLimit c \<longleftrightarrow> cr_Limit c = 0 \<and> cr_LimitPercent c > 0 \<and> cr_LimitPercent c \<le> 100"

definition ResolveLimit :: "int \<Rightarrow> criteria \<Rightarrow> criteria" where
  "ResolveLimit totalCount c =
     (if IsPercentageLimit c then c\<lparr>cr_Limit := EffectiveLimit c totalCount\<rparr> else c)"

record sort_field =
  so_Field :: string
  so_Desc :: bool

definition sort_part :: "field_map \<Rightarrow> string \<Rightarrow> string \<Rightarrow> sort_field option" where
  "sort_part fm order part0 =
     (let part = TrimSpace part0
      in if part = [] then None
         else (let sign = (HasPrefix part ''+'' \<or> HasPrefix part ''-'');
                   desc = HasPrefix part ''-'';
                   n = (if sign then TrimSpace (tl part) else part)
               in case LookupField fm n of
                    None \<Rightarrow> None
                  | Some info \<Rightarrow>
                      Some \<lparr>so_Field = fi_name info, so_Desc = (if order = ''desc'' then \<not> desc else desc)\<rparr>))"

definition OrderByFields :: "field_map \<Rightarrow> criteria \<Rightarrow> sort_field list" where
  "OrderByFields fm c =
     (let sortValue = (if cr_Sort c = [] then ''title'' else cr_Sort c);
          order0 = ToLower (TrimSpace (cr_Order c));
          order = (if order0 \<noteq> [] \<and> order0 \<noteq> ''asc'' \<and> order0 \<noteq> ''desc'' then [] else order0);
          fields = List.map_filter (sort_part fm order) (Split1 (CHR '','') sortValue)
      in if fields = [] then [\<lparr>so_Field = ''title'', so_Desc = False\<rparr>] else fields)"

definition SortFieldNames :: "field_map \<Rightarrow> criteria \<Rightarrow> string list" where
  "SortFieldNames fm c = map so_Field (OrderByFields fm c)"

section \<open>Decoding\<close>

datatype criteria_error =
    JsonTypeError
  | InvalidKey string
  | BothGroups
  | MissingRules
  | InvalidRefreshDelay duration_error
  | InvalidLength string nat
  | InvalidText string

definition ParseBool :: "string \<Rightarrow> bool option" where
  "ParseBool s =
     (if s \<in> {''1'', ''t'', ''T'', ''true'', ''TRUE'', ''True''} then Some True
      else if s \<in> {''0'', ''f'', ''F'', ''false'', ''FALSE'', ''False''} then Some False
      else None)"

definition ToBool :: "json \<Rightarrow> bool option" where
  "ToBool v =
     (case v of
        JBool b \<Rightarrow> Some b
      | JStr s \<Rightarrow> ParseBool s
      | JNum _ q \<Rightarrow> if q = 1 then Some True else if q = 0 then Some False else None
      | _ \<Rightarrow> None)"

definition normalizeBoolValue :: "json \<Rightarrow> json" where
  "normalizeBoolValue v = (case ToBool v of Some b \<Rightarrow> JBool b | None \<Rightarrow> v)"

definition normalizeAllBoolFields :: "(string \<times> json) list \<Rightarrow> (string \<times> json) list" where
  "normalizeAllBoolFields m = map (\<lambda>(k, v). (k, normalizeBoolValue v)) m"

definition normalizeBoolFields :: "field_map \<Rightarrow> (string \<times> json) list \<Rightarrow> (string \<times> json) list" where
  "normalizeBoolFields fm m =
     map (\<lambda>(k, v). (k, case LookupField fm k of
                           Some info \<Rightarrow> if fi_Boolean info then normalizeBoolValue v else v
                         | None \<Rightarrow> v)) m"

definition op_of_name :: "string \<Rightarrow> leaf_op option" where
  "op_of_name n = find (\<lambda>op. ToLower (op_name op) = n) all_ops"

definition unmarshalExpression :: "field_map \<Rightarrow> string \<Rightarrow> json \<Rightarrow> expression option" where
  "unmarshalExpression fm opName raw =
     (case decode_map raw of
        None \<Rightarrow> None
      | Some m0 \<Rightarrow>
          (let m = normalizeBoolFields fm m0
           in case op_of_name opName of
                None \<Rightarrow> None
              | Some op \<Rightarrow>
                  Some (Leaf op (if op = IsMissing \<or> op = IsPresent then normalizeAllBoolFields m else m))))"

text \<open>The first error of a list of results, or all of them.\<close>

fun sequence :: "('e + 'a) list \<Rightarrow> 'e + 'a list" where
  "sequence [] = Inr []"
| "sequence (Inl e # rs) = Inl e"
| "sequence (Inr x # rs) = (case sequence rs of Inl e \<Rightarrow> Inl e | Inr xs \<Rightarrow> Inr (x # xs))"

lemma sequence_cong [fundef_cong]: "xs = ys \<Longrightarrow> sequence xs = sequence ys"
  by simp

lemma set_member_put: "set (member_put k v m) \<subseteq> insert (k, v) (set m)"
  by (induction k v m rule: member_put.induct) auto

lemma set_obj_map: "set (obj_map kvs) \<subseteq> set kvs"
proof -
  have "set (foldl (\<lambda>m (k, v). member_put k v m) m kvs) \<subseteq> set m \<union> set kvs" for m
  proof (induction kvs arbitrary: m)
    case (Cons kv kvs)
    then show ?case using set_member_put by (cases kv) fastforce
  qed simp
  from this [of "[]"] show ?thesis by (simp add: obj_map_def)
qed

lemma those_set: "those xs = Some ys \<Longrightarrow> y \<in> set ys \<Longrightarrow> Some y \<in> set xs"
  by (induction xs arbitrary: ys) (auto split: option.splits)

lemma raw_member_smaller:
  assumes "decode_raw_maps j = Some raw" and m: "m \<in> set raw" "(k, v) \<in> set m"
  shows "size v < size j"
proof -
  obtain xs where j: "j = JArr xs" using assms by (cases j) auto
  have "Some m \<in> set (map decode_raw_map xs)" using assms(1) m(1) j those_set by fastforce
  then obtain x where x: "x \<in> set xs" "decode_raw_map x = Some m" by auto
  then obtain kvs where kvs: "x = JObj kvs" "m = obj_map kvs" using m(2) by (cases x rule: json.exhaust) auto
  then have kv: "(k, v) \<in> set kvs" using m(2) set_obj_map by fastforce
  have "size v \<le> size_list (size_prod (\<lambda>_. 0) size) kvs"
    using size_list_estimation' [OF kv, of "size v" "size_prod (\<lambda>_. 0) size"] by simp
  moreover have "size x \<le> size_list size xs" using x(1) by (simp add: size_list_estimation')
  ultimately show ?thesis by (simp add: j kvs)
qed

text \<open>
  \<open>unmarshalConjunctionType.UnmarshalJSON\<close> with \<open>unmarshalConjunction\<close>: a member is read as an operator and
  otherwise as a nested group. An error inside a nested group makes its key invalid.
\<close>

function unmarshalConjunctionType :: "field_map \<Rightarrow> json \<Rightarrow> criteria_error + expression list" where
  "unmarshalConjunctionType fm j =
     (case decode_raw_maps j of
        None \<Rightarrow> Inl JsonTypeError
      | Some raw \<Rightarrow>
          sequence (map (\<lambda>(k0, v).
            let k = ToLower k0
            in case unmarshalExpression fm k v of
                 Some e \<Rightarrow> Inr e
               | None \<Rightarrow>
                   (case unmarshalConjunctionType fm v of
                      Inl _ \<Rightarrow> Inl (InvalidKey k)
                    | Inr items \<Rightarrow>
                        (if k = ''any'' then Inr (Any_of items)
                         else if k = ''all'' then Inr (All_of items)
                         else Inl (InvalidKey k)))) (concat raw)))"
  by pat_completeness auto
termination
  by (relation "measure (\<lambda>(fm, j). size j)") (auto dest: raw_member_smaller)

declare unmarshalConjunctionType.simps [simp del]

text \<open>The auxiliary struct; the two groups are options, since \<open>present\<close> is set whenever the key appears.\<close>

record criteria_aux =
  aux_All :: "expression list option"
  aux_Any :: "expression list option"
  aux_Sort :: string
  aux_Order :: string
  aux_Limit :: int
  aux_LimitPercent :: int
  aux_Offset :: int
  aux_RefreshDelay :: string

definition aux0 :: criteria_aux where
  "aux0 = \<lparr>aux_All = None, aux_Any = None, aux_Sort = [], aux_Order = [], aux_Limit = 0, aux_LimitPercent = 0,
           aux_Offset = 0, aux_RefreshDelay = []\<rparr>"

definition typed :: "'a option \<Rightarrow> criteria_error + 'a" where
  "typed r = (case r of None \<Rightarrow> Inl JsonTypeError | Some x \<Rightarrow> Inr x)"

text \<open>One member of the object. Keys are matched without regard to case, and unknown ones ignored.\<close>

definition aux_member :: "field_map \<Rightarrow> string \<Rightarrow> json \<Rightarrow> criteria_aux \<Rightarrow> criteria_error + criteria_aux" where
  "aux_member fm k v a =
     (if EqualFold k ''all'' then map_sum id (\<lambda>es. a\<lparr>aux_All := Some es\<rparr>) (unmarshalConjunctionType fm v)
      else if EqualFold k ''any'' then map_sum id (\<lambda>es. a\<lparr>aux_Any := Some es\<rparr>) (unmarshalConjunctionType fm v)
      else if EqualFold k ''sort'' then map_sum id (\<lambda>s. a\<lparr>aux_Sort := s\<rparr>) (typed (decode_string (aux_Sort a) v))
      else if EqualFold k ''order'' then map_sum id (\<lambda>s. a\<lparr>aux_Order := s\<rparr>) (typed (decode_string (aux_Order a) v))
      else if EqualFold k ''limit'' then map_sum id (\<lambda>i. a\<lparr>aux_Limit := i\<rparr>) (typed (decode_int (aux_Limit a) v))
      else if EqualFold k ''limitPercent''
      then map_sum id (\<lambda>i. a\<lparr>aux_LimitPercent := i\<rparr>) (typed (decode_int (aux_LimitPercent a) v))
      else if EqualFold k ''offset'' then map_sum id (\<lambda>i. a\<lparr>aux_Offset := i\<rparr>) (typed (decode_int (aux_Offset a) v))
      else if EqualFold k ''refreshDelay''
      then map_sum id (\<lambda>s. a\<lparr>aux_RefreshDelay := s\<rparr>) (typed (decode_string (aux_RefreshDelay a) v))
      else Inr a)"

fun aux_members :: "field_map \<Rightarrow> (string \<times> json) list \<Rightarrow> criteria_aux \<Rightarrow> criteria_error + criteria_aux" where
  "aux_members fm [] a = Inr a"
| "aux_members fm ((k, v) # kvs) a =
     (case aux_member fm k v a of Inl e \<Rightarrow> Inl e | Inr a' \<Rightarrow> aux_members fm kvs a')"

definition decode_aux :: "field_map \<Rightarrow> json \<Rightarrow> criteria_error + criteria_aux" where
  "decode_aux fm j =
     (case j of JNull \<Rightarrow> Inr aux0 | JObj kvs \<Rightarrow> aux_members fm kvs aux0 | _ \<Rightarrow> Inl JsonTypeError)"

definition clamp_percent :: "int \<Rightarrow> int" where
  "clamp_percent p = (if p < 0 then 0 else if p > 100 then 100 else p)"

text \<open>\<open>c\<close> is the value decoded into, the zero value at first.\<close>

definition criteria_UnmarshalJSON :: "field_map \<Rightarrow> criteria \<Rightarrow> json \<Rightarrow> criteria_error + criteria" where
  "criteria_UnmarshalJSON fm c j =
     (case decode_aux fm j of
        Inl e \<Rightarrow> Inl e
      | Inr a \<Rightarrow>
          (if aux_All a \<noteq> None \<and> aux_Any a \<noteq> None then Inl BothGroups
           else (case (gg_V [] (aux_Any a), gg_V [] (aux_All a)) of
                   ([], []) \<Rightarrow> Inl MissingRules
                 | (ays, als) \<Rightarrow>
                     (let c1 = c\<lparr>cr_Expression := Some (if ays \<noteq> [] then Any_of ays else All_of als),
                                 cr_Sort := aux_Sort a, cr_Order := aux_Order a, cr_Limit := aux_Limit a,
                                 cr_Offset := aux_Offset a\<rparr>
                      in case (if aux_RefreshDelay a = [] then Inr (cr_RefreshDelay c1)
                               else ParseDuration (aux_RefreshDelay a)) of
                           Inl e \<Rightarrow> Inl (InvalidRefreshDelay e)
                         | Inr d \<Rightarrow>
                             Inr (c1\<lparr>cr_RefreshDelay := d, cr_LimitPercent := clamp_percent (aux_LimitPercent a)\<rparr>)))))"

definition criteria0 :: criteria where
  "criteria0 = \<lparr>cr_Expression = None, cr_Sort = [], cr_Order = [], cr_Limit = 0, cr_LimitPercent = 0, cr_Offset = 0,
               cr_RefreshDelay = 0\<rparr>"

section \<open>Encoding\<close>

text \<open>
  \<open>marshalExpression\<close> writes the name of the field between quotes without escaping it, and \<open>json.Marshal\<close>
  parses the text again. The argument \<open>parse\<close> is what it finds in \<open>{"<name>":{"<field>":<value>}}\<close>, if
  that is JSON.
\<close>

type_synonym splice = "string \<Rightarrow> string \<Rightarrow> json \<Rightarrow> json option"

definition marshalExpression :: "splice \<Rightarrow> string \<Rightarrow> (string \<times> json) list \<Rightarrow> criteria_error + json" where
  "marshalExpression parse n m =
     (case m of
        [(f, v)] \<Rightarrow> (case parse n f v of None \<Rightarrow> Inl (InvalidText f) | Some j \<Rightarrow> Inr j)
      | _ \<Rightarrow> Inl (InvalidLength n (length m)))"

definition marshalConjunction :: "string \<Rightarrow> (criteria_error + json list) \<Rightarrow> criteria_error + json" where
  "marshalConjunction n r =
     (case r of Inl e \<Rightarrow> Inl e | Inr js \<Rightarrow> Inr (JObj (if js = [] then [] else [(n, JArr js)])))"

fun expr_MarshalJSON :: "splice \<Rightarrow> expression \<Rightarrow> criteria_error + json" where
  "expr_MarshalJSON parse (All_of es) = marshalConjunction ''all'' (sequence (map (expr_MarshalJSON parse) es))"
| "expr_MarshalJSON parse (Any_of es) = marshalConjunction ''any'' (sequence (map (expr_MarshalJSON parse) es))"
| "expr_MarshalJSON parse (Leaf op m) = marshalExpression parse (op_name op) m"

definition omitempty :: "bool \<Rightarrow> string \<Rightarrow> json \<Rightarrow> (string \<times> json) list" where
  "omitempty is_empty k v = (if is_empty then [] else [(k, v)])"

text \<open>The elements of the two groups; a missing expression is \<open>null\<close>.\<close>

definition top_rules :: "splice \<Rightarrow> criteria \<Rightarrow> criteria_error + (json list \<times> json list)" where
  "top_rules parse c =
     (case cr_Expression c of
        Some (Any_of es) \<Rightarrow> map_sum id (\<lambda>js. ([], js)) (sequence (map (expr_MarshalJSON parse) es))
      | Some (All_of es) \<Rightarrow> map_sum id (\<lambda>js. (js, [])) (sequence (map (expr_MarshalJSON parse) es))
      | Some e \<Rightarrow> map_sum id (\<lambda>j. ([j], [])) (expr_MarshalJSON parse e)
      | None \<Rightarrow> Inr ([JNull], []))"

definition criteria_MarshalJSON :: "splice \<Rightarrow> criteria \<Rightarrow> criteria_error + json" where
  "criteria_MarshalJSON parse c =
     (case top_rules parse c of
        Inl e \<Rightarrow> Inl e
      | Inr (als, ays) \<Rightarrow>
          (let delay = (if cr_RefreshDelay c > 0 then FormatDuration (cr_RefreshDelay c) else [])
           in Inr (JObj (omitempty (als = []) ''all'' (JArr als) @ omitempty (ays = []) ''any'' (JArr ays) @
                         omitempty (cr_Sort c = []) ''sort'' (JStr (cr_Sort c)) @
                         omitempty (cr_Order c = []) ''order'' (JStr (cr_Order c)) @
                         omitempty (cr_Limit c = 0) ''limit'' (JNum True (of_int (cr_Limit c))) @
                         omitempty (cr_LimitPercent c = 0) ''limitPercent'' (JNum True (of_int (cr_LimitPercent c))) @
                         omitempty (cr_Offset c = 0) ''offset'' (JNum True (of_int (cr_Offset c))) @
                         omitempty (delay = []) ''refreshDelay'' (JStr delay)))))"

section \<open>Canonical values\<close>

definition sorted_keys :: "(string \<times> 'v) list \<Rightarrow> bool" where
  "sorted_keys m \<longleftrightarrow> sorted_wrt (<) (map fst m)"

lemma fst_member_put: "set (map fst (member_put k v m)) = insert k (set (map fst m))"
  by (induction k v m rule: member_put.induct) auto

lemma sorted_member_put: "sorted_keys m \<Longrightarrow> sorted_keys (member_put k v m)"
proof (induction k v m rule: member_put.induct)
  case (2 k v k' v' m)
  then show ?case using fst_member_put [of k v m] by (auto simp: sorted_keys_def)
qed (simp add: sorted_keys_def)

lemma sorted_obj_map: "sorted_keys (obj_map kvs)"
proof -
  have "sorted_keys m \<Longrightarrow> sorted_keys (foldl (\<lambda>m (k, v). member_put k v m) m kvs)" for m
    by (induction kvs arbitrary: m) (auto simp: sorted_member_put)
  from this [of "[]"] show ?thesis by (simp add: obj_map_def sorted_keys_def)
qed

lemma member_put_last: "\<forall>x\<in>set (map fst m). x < k \<Longrightarrow> member_put k v m = m @ [(k, v)]"
  by (induction m) (auto simp: less_imp_not_less)

lemma obj_map_sorted: "sorted_keys m \<Longrightarrow> obj_map m = m"
proof (induction m rule: rev_induct)
  case (snoc kv m)
  obtain k v where kv: "kv = (k, v)" by (cases kv)
  have "obj_map m = m" "\<forall>x\<in>set (map fst m). x < k"
    using snoc by (auto simp: sorted_keys_def sorted_wrt_append kv)
  then show ?case using member_put_last [of m k v] by (simp add: obj_map_def kv)
qed (simp add: obj_map_def)

lemma obj_map_map: "obj_map (map (\<lambda>(k, v). (k, g k v)) kvs) = map (\<lambda>(k, v). (k, g k v)) (obj_map kvs)"
proof -
  have put: "member_put k (g k v) (map (\<lambda>(k, v). (k, g k v)) m) = map (\<lambda>(k, v). (k, g k v)) (member_put k v m)" for k v m
    by (induction k v m rule: member_put.induct) auto
  have "foldl (\<lambda>m (k, v). member_put k v m) (map (\<lambda>(k, v). (k, g k v)) m) (map (\<lambda>(k, v). (k, g k v)) kvs) =
        map (\<lambda>(k, v). (k, g k v)) (foldl (\<lambda>m (k, v). member_put k v m) m kvs)" for m
    by (induction kvs arbitrary: m) (auto simp: put)
  from this [of "[]"] show ?thesis by (simp add: obj_map_def)
qed

lemma sorted_keys_map: "sorted_keys (map (\<lambda>(k, v). (k, g k v)) m) \<longleftrightarrow> sorted_keys m"
  by (simp add: sorted_keys_def comp_def split_def)

lemma any_of_obj: "any_of (JObj kvs) = JObj (map (\<lambda>(k, v). (k, any_of v)) (obj_map kvs))"
  using obj_map_map [of "\<lambda>_. any_of" kvs] by simp

lemma any_of_idem: "any_of (any_of j) = any_of j"
proof (induction j rule: any_of.induct)
  case (3 kvs)
  have "any_of (any_of v) = any_of v" if "(k, v) \<in> set (obj_map kvs)" for k v
    using 3 set_obj_map that by fastforce
  then show ?case
    using sorted_obj_map [of kvs] by (auto simp: any_of_obj obj_map_sorted sorted_keys_map simp del: any_of.simps)
qed auto

text \<open>A leaf that is read back as it is: sorted, with decoded values, and with booleans where they belong.\<close>

definition wf_leaf :: "field_map \<Rightarrow> leaf_op \<Rightarrow> (string \<times> json) list \<Rightarrow> bool" where
  "wf_leaf fm op m \<longleftrightarrow>
     decode_map (JObj m) = Some m \<and> normalizeBoolFields fm m = m \<and>
     (op = IsMissing \<or> op = IsPresent \<longrightarrow> normalizeAllBoolFields m = m)"

fun wf_expr :: "field_map \<Rightarrow> expression \<Rightarrow> bool" where
  "wf_expr fm (All_of es) \<longleftrightarrow> list_all (wf_expr fm) es"
| "wf_expr fm (Any_of es) \<longleftrightarrow> list_all (wf_expr fm) es"
| "wf_expr fm (Leaf op m) \<longleftrightarrow> wf_leaf fm op m"

definition wf_criteria :: "field_map \<Rightarrow> criteria \<Rightarrow> bool" where
  "wf_criteria fm c \<longleftrightarrow>
     (case cr_Expression c of
        Some (All_of es) \<Rightarrow> es \<noteq> [] \<and> list_all (wf_expr fm) es
      | Some (Any_of es) \<Rightarrow> es \<noteq> [] \<and> list_all (wf_expr fm) es
      | _ \<Rightarrow> False) \<and>
     - (2 ^ 63) \<le> cr_Limit c \<and> cr_Limit c < 2 ^ 63 \<and> - (2 ^ 63) \<le> cr_Offset c \<and> cr_Offset c < 2 ^ 63 \<and>
     0 \<le> cr_LimitPercent c \<and> cr_LimitPercent c \<le> 100 \<and> 0 \<le> cr_RefreshDelay c \<and> cr_RefreshDelay c < 2 ^ 63"

lemma decode_map_obj: "decode_map (JObj kvs) = Some (map (\<lambda>(k, v). (k, any_of v)) (obj_map kvs))"
  using obj_map_map [of "\<lambda>_. any_of" kvs] by (simp add: decode_map_def)

lemma decoded_again:
  assumes "decode_map j = Some m0" "\<And>k v. any_of v = v \<Longrightarrow> any_of (g k v) = g k v"
  shows "decode_map (JObj (map (\<lambda>(k, v). (k, g k v)) m0)) = Some (map (\<lambda>(k, v). (k, g k v)) m0)"
proof -
  have m0: "sorted_keys m0" "\<forall>(k, v)\<in>set m0. any_of v = v"
    using assms(1) sorted_obj_map
    by (auto simp: decode_map_def obj_map_map sorted_keys_map any_of_idem split: json.splits)
      (simp_all add: sorted_keys_def)
  then show ?thesis
    using assms(2) by (auto simp: decode_map_obj obj_map_sorted sorted_keys_map)
qed

lemma normalizeBoolValue_idem [simp]: "normalizeBoolValue (normalizeBoolValue v) = normalizeBoolValue v"
  by (auto simp: normalizeBoolValue_def ToBool_def split: option.splits)

lemma any_of_normalizeBoolValue: "any_of v = v \<Longrightarrow> any_of (normalizeBoolValue v) = normalizeBoolValue v"
  by (auto simp: normalizeBoolValue_def split: option.splits)

lemma unmarshalExpression_wf: "unmarshalExpression fm k v = Some e \<Longrightarrow> wf_expr fm e"
proof -
  assume a: "unmarshalExpression fm k v = Some e"
  then obtain m0 op where m0: "decode_map v = Some m0" and
    e: "e = Leaf op (if op = IsMissing \<or> op = IsPresent then normalizeAllBoolFields (normalizeBoolFields fm m0) else normalizeBoolFields fm m0)"
    by (auto simp: unmarshalExpression_def Let_def split: option.splits)
  define g where "g k v = (case LookupField fm k of Some info \<Rightarrow> if fi_Boolean info then normalizeBoolValue v else v | None \<Rightarrow> v)" for k v
  have g: "normalizeBoolFields fm m = map (\<lambda>(k, v). (k, g k v)) m" for m
    by (simp add: normalizeBoolFields_def g_def)
  have gg: "any_of v = v \<Longrightarrow> any_of (g k v) = g k v" "g k (g k v) = g k v" "g k (normalizeBoolValue v) = normalizeBoolValue v"
    "normalizeBoolValue (g k v) = normalizeBoolValue v" for k v
    by (auto simp: g_def any_of_normalizeBoolValue split: option.splits)
  show ?thesis
    using decoded_again [OF m0, of g] decoded_again [OF m0, of "\<lambda>_. normalizeBoolValue"] gg any_of_normalizeBoolValue
    by (auto simp: e wf_leaf_def g normalizeAllBoolFields_def comp_def split_def)
qed

text \<open>One member of a group, and a group as the sequence of its members.\<close>

fun unmarshal_member :: "field_map \<Rightarrow> string \<times> json \<Rightarrow> criteria_error + expression" where
  "unmarshal_member fm (k0, v) =
     (let k = ToLower k0
      in case unmarshalExpression fm k v of
           Some e \<Rightarrow> Inr e
         | None \<Rightarrow>
             (case unmarshalConjunctionType fm v of
                Inl _ \<Rightarrow> Inl (InvalidKey k)
              | Inr items \<Rightarrow>
                  (if k = ''any'' then Inr (Any_of items) else if k = ''all'' then Inr (All_of items)
                   else Inl (InvalidKey k))))"

lemma unmarshal_members:
  "unmarshalConjunctionType fm j =
     (case decode_raw_maps j of
        None \<Rightarrow> Inl JsonTypeError
      | Some raw \<Rightarrow> sequence (map (unmarshal_member fm) (concat raw)))"
  by (subst unmarshalConjunctionType.simps) (auto split: option.split intro!: arg_cong [where f = sequence] map_cong)

lemma sequence_map_Inr [simp]: "sequence (map Inr xs) = Inr xs"
  by (induction xs) auto

lemma sequence_Inr: "sequence rs = Inr xs \<longleftrightarrow> rs = map Inr xs"
proof
  show "sequence rs = Inr xs \<Longrightarrow> rs = map Inr xs"
    by (induction rs arbitrary: xs rule: sequence.induct) (auto split: sum.splits)
qed simp

lemma unmarshalConjunctionType_wf: "unmarshalConjunctionType fm j = Inr es \<Longrightarrow> list_all (wf_expr fm) es"
proof (induction fm j arbitrary: es rule: unmarshalConjunctionType.induct)
  case (1 fm j)
  then obtain raw where raw: "decode_raw_maps j = Some raw" "map (unmarshal_member fm) (concat raw) = map Inr es"
    by (auto simp: unmarshal_members [of fm j] sequence_Inr split: option.splits)
  show ?case unfolding list_all_iff
  proof
    fix e assume "e \<in> set es"
    then have "Inr e \<in> set (map (unmarshal_member fm) (concat raw))" unfolding raw(2) by simp
    then obtain k v where kv: "(k, v) \<in> set (concat raw)" "unmarshal_member fm (k, v) = Inr e"
      by (metis imageE list.set_map surj_pair)
    show "wf_expr fm e"
    proof (cases "unmarshalExpression fm (ToLower k) v")
      case None
      obtain items where "unmarshalConjunctionType fm v = Inr items" "e = Any_of items \<or> e = All_of items"
        using kv(2) None by (auto simp: Let_def split: sum.splits if_splits)
      then show ?thesis using 1(1) [OF raw(1) kv(1) refl refl None] by auto
    next
      case (Some e')
      then show ?thesis using kv(2) unmarshalExpression_wf by (auto simp: Let_def)
    qed
  qed
qed

definition wf_aux :: "field_map \<Rightarrow> criteria_aux \<Rightarrow> bool" where
  "wf_aux fm a \<longleftrightarrow>
     list_all (wf_expr fm) (gg_V [] (aux_All a)) \<and> list_all (wf_expr fm) (gg_V [] (aux_Any a)) \<and>
     - (2 ^ 63) \<le> aux_Limit a \<and> aux_Limit a < 2 ^ 63 \<and> - (2 ^ 63) \<le> aux_Offset a \<and> aux_Offset a < 2 ^ 63"

lemma decode_int_range: "decode_int i j = Some r \<Longrightarrow> r = i \<or> - (2 ^ 63) \<le> r \<and> r < 2 ^ 63"
  by (cases j) (auto split: if_splits)

lemma map_sum_Inr: "map_sum id g r = Inr y \<longleftrightarrow> (\<exists>x. r = Inr x \<and> y = g x)"
  by (cases r) auto

lemma typed_Inr: "typed r = Inr x \<longleftrightarrow> r = Some x"
  by (cases r) (auto simp: typed_def)

lemma aux_member_wf:
  assumes "aux_member fm k v a = Inr a'" "wf_aux fm a"
  shows "wf_aux fm a'"
proof -
  have g: "list_all (wf_expr fm) es" if "unmarshalConjunctionType fm v = Inr es" for es
    using that by (rule unmarshalConjunctionType_wf)
  have i: "- (2 ^ 63) \<le> r \<and> r < 2 ^ 63" if "decode_int i v = Some r" "- (2 ^ 63) \<le> i \<and> i < 2 ^ 63" for i r
    using decode_int_range [OF that(1)] that(2) by blast
  show ?thesis
    using assms unfolding aux_member_def
    by (simp only: map_sum_Inr typed_Inr split: if_splits) (use g i in \<open>auto simp: wf_aux_def gg_V_def\<close>)
qed

lemma aux_members_wf: "aux_members fm kvs a = Inr a' \<Longrightarrow> wf_aux fm a \<Longrightarrow> wf_aux fm a'"
  by (induction fm kvs a rule: aux_members.induct) (auto dest: aux_member_wf split: sum.splits)

lemma decode_aux_wf: "decode_aux fm j = Inr a \<Longrightarrow> wf_aux fm a"
  by (auto simp: decode_aux_def dest!: aux_members_wf split: json.splits) (auto simp: wf_aux_def aux0_def gg_V_def)

lemma ParseDuration_range: "ParseDuration s = Inr d \<Longrightarrow> 0 \<le> d \<and> d < 2 ^ 63"
  by (auto simp: ParseDuration_def time_ParseDuration_def Let_def split: option.splits if_splits)

section \<open>Reading back\<close>

text \<open>
  A name can be written between quotes as it is when it has no quote, no backslash and no control
  character.
\<close>

definition plain_name :: "string \<Rightarrow> bool" where
  "plain_name f \<longleftrightarrow> list_all (\<lambda>c. c \<noteq> CHR 0x22 \<and> c \<noteq> CHR 0x5C \<and> 32 \<le> (of_char c :: nat)) f"

definition splice_ok :: "splice \<Rightarrow> bool" where
  "splice_ok parse \<longleftrightarrow> (\<forall>n f v. plain_name f \<longrightarrow> parse n f v = Some (JObj [(n, JObj [(f, v)])]))"

text \<open>Rules that can be written: every leaf has one field, with a plain name.\<close>

fun writable :: "expression \<Rightarrow> bool" where
  "writable (All_of es) \<longleftrightarrow> list_all writable es"
| "writable (Any_of es) \<longleftrightarrow> list_all writable es"
| "writable (Leaf op m) \<longleftrightarrow> (case m of [(f, v)] \<Rightarrow> plain_name f | _ \<Rightarrow> False)"

text \<open>What is left of an expression when it is written and read: an empty group is written as \<open>{}\<close>, which has no rule.\<close>

fun kept :: "expression \<Rightarrow> expression list" where
  "kept (All_of es) = (if es = [] then [] else [All_of (concat (map kept es))])"
| "kept (Any_of es) = (if es = [] then [] else [Any_of (concat (map kept es))])"
| "kept (Leaf op m) = [Leaf op m]"

fun full_groups :: "expression \<Rightarrow> bool" where
  "full_groups (All_of es) \<longleftrightarrow> es \<noteq> [] \<and> list_all full_groups es"
| "full_groups (Any_of es) \<longleftrightarrow> es \<noteq> [] \<and> list_all full_groups es"
| "full_groups (Leaf op m) \<longleftrightarrow> True"

lemma concat_singletons: "(\<And>x. x \<in> set xs \<Longrightarrow> g x = [x]) \<Longrightarrow> concat (map g xs) = xs"
  by (induction xs) auto

lemma op_of_op_name [simp]: "op_of_name (ToLower (op_name op)) = Some op"
proof -
  have "list_all (\<lambda>op. op_of_name (ToLower (op_name op)) = Some op) all_ops" by code_simp
  moreover have "op \<in> set all_ops" by (cases op) (simp_all add: all_ops_def)
  ultimately show ?thesis by (simp add: list_all_iff)
qed

lemma ToLower_groups [simp]: "ToLower ''all'' = ''all''" "ToLower ''any'' = ''any''"
  by code_simp+

lemma those_map_Some [simp]: "those (map (\<lambda>x. Some (g x)) xs) = Some (map g xs)"
  by (induction xs) auto

lemma group_reads_back:
  assumes "\<And>e. e \<in> set es \<Longrightarrow> \<exists>kvs. expr_MarshalJSON parse e = Inr (JObj kvs) \<and> obj_map kvs = kvs \<and>
             map (unmarshal_member fm) kvs = map Inr (kept e)"
  shows "\<exists>js. sequence (map (expr_MarshalJSON parse) es) = Inr js \<and> length js = length es \<and>
           unmarshalConjunctionType fm (JArr js) = Inr (concat (map kept es))"
proof -
  obtain kv where kv: "\<And>e. e \<in> set es \<Longrightarrow> expr_MarshalJSON parse e = Inr (JObj (kv e)) \<and> obj_map (kv e) = kv e \<and>
      map (unmarshal_member fm) (kv e) = map Inr (kept e)"
    using assms by metis
  have m: "map (expr_MarshalJSON parse) es = map Inr (map (\<lambda>e. JObj (kv e)) es)" using kv by auto
  have "decode_raw_maps (JArr (map (\<lambda>e. JObj (kv e)) es)) = Some (map kv es)"
    using kv by (simp add: comp_def cong: map_cong)
  moreover have "map (unmarshal_member fm) (concat (map kv es)) = map Inr (concat (map kept es))"
    using kv by (induction es) auto
  ultimately have "unmarshalConjunctionType fm (JArr (map (\<lambda>e. JObj (kv e)) es)) = Inr (concat (map kept es))"
    by (subst unmarshal_members) (simp del: map_concat map_map decode_raw_maps.simps)
  then show ?thesis unfolding m by (intro exI [of _ "map (\<lambda>e. JObj (kv e)) es"]) (simp only: sequence_map_Inr length_map)
qed

lemma expr_reads_back:
  assumes "splice_ok parse" "wf_expr fm e" "writable e"
  shows "\<exists>kvs. expr_MarshalJSON parse e = Inr (JObj kvs) \<and> obj_map kvs = kvs \<and>
           map (unmarshal_member fm) kvs = map Inr (kept e)"
  using assms(2,3)
proof (induction e)
  case (All_of es)
  then obtain js where js: "sequence (map (expr_MarshalJSON parse) es) = Inr js" "length js = length es"
    "unmarshalConjunctionType fm (JArr js) = Inr (concat (map kept es))"
    using group_reads_back [of es parse fm] by (auto simp: list_all_iff)
  then show ?case
    by (cases "es = []") (auto simp: marshalConjunction_def obj_map_def unmarshalExpression_def decode_map_def)
next
  case (Any_of es)
  then obtain js where js: "sequence (map (expr_MarshalJSON parse) es) = Inr js" "length js = length es"
    "unmarshalConjunctionType fm (JArr js) = Inr (concat (map kept es))"
    using group_reads_back [of es parse fm] by (auto simp: list_all_iff)
  then show ?case
    by (cases "es = []") (auto simp: marshalConjunction_def obj_map_def unmarshalExpression_def decode_map_def)
next
  case (Leaf op m)
  then obtain f v where m: "m = [(f, v)]" "plain_name f" by (auto split: list.splits prod.splits)
  have "unmarshal_member fm (op_name op, JObj [(f, v)]) = Inr (Leaf op m)"
    using Leaf.prems(1) by (auto simp: unmarshalExpression_def wf_leaf_def m Let_def)
  with m assms(1) show ?case
    by (auto simp: marshalExpression_def splice_ok_def obj_map_def)
qed

lemma aux_keys:
  "aux_member fm ''all'' v a = map_sum id (\<lambda>es. a\<lparr>aux_All := Some es\<rparr>) (unmarshalConjunctionType fm v)"
  "aux_member fm ''any'' v a = map_sum id (\<lambda>es. a\<lparr>aux_Any := Some es\<rparr>) (unmarshalConjunctionType fm v)"
  "aux_member fm ''sort'' v a = map_sum id (\<lambda>s. a\<lparr>aux_Sort := s\<rparr>) (typed (decode_string (aux_Sort a) v))"
  "aux_member fm ''order'' v a = map_sum id (\<lambda>s. a\<lparr>aux_Order := s\<rparr>) (typed (decode_string (aux_Order a) v))"
  "aux_member fm ''limit'' v a = map_sum id (\<lambda>i. a\<lparr>aux_Limit := i\<rparr>) (typed (decode_int (aux_Limit a) v))"
  "aux_member fm ''limitPercent'' v a = map_sum id (\<lambda>i. a\<lparr>aux_LimitPercent := i\<rparr>) (typed (decode_int (aux_LimitPercent a) v))"
  "aux_member fm ''offset'' v a = map_sum id (\<lambda>i. a\<lparr>aux_Offset := i\<rparr>) (typed (decode_int (aux_Offset a) v))"
  "aux_member fm ''refreshDelay'' v a = map_sum id (\<lambda>s. a\<lparr>aux_RefreshDelay := s\<rparr>) (typed (decode_string (aux_RefreshDelay a) v))"
  by (simp_all add: aux_member_def EqualFold_def ToLower_def lower_char_def)

lemma aux_members_append:
  "aux_members fm (xs @ ys) a = (case aux_members fm xs a of Inl e \<Rightarrow> Inl e | Inr b \<Rightarrow> aux_members fm ys b)"
  by (induction fm xs a rule: aux_members.induct) (auto split: sum.splits)

lemma aux_omitted:
  "aux_Sort a = [] \<Longrightarrow> aux_members fm (omitempty (s = []) ''sort'' (JStr s)) a = Inr (a\<lparr>aux_Sort := s\<rparr>)"
  "aux_Order a = [] \<Longrightarrow> aux_members fm (omitempty (s = []) ''order'' (JStr s)) a = Inr (a\<lparr>aux_Order := s\<rparr>)"
  "aux_RefreshDelay a = [] \<Longrightarrow> aux_members fm (omitempty (s = []) ''refreshDelay'' (JStr s)) a = Inr (a\<lparr>aux_RefreshDelay := s\<rparr>)"
  "aux_Limit a = 0 \<Longrightarrow> - (2 ^ 63) \<le> i \<Longrightarrow> i < 2 ^ 63 \<Longrightarrow>
     aux_members fm (omitempty (i = 0) ''limit'' (JNum True (of_int i))) a = Inr (a\<lparr>aux_Limit := i\<rparr>)"
  "aux_LimitPercent a = 0 \<Longrightarrow> - (2 ^ 63) \<le> i \<Longrightarrow> i < 2 ^ 63 \<Longrightarrow>
     aux_members fm (omitempty (i = 0) ''limitPercent'' (JNum True (of_int i))) a = Inr (a\<lparr>aux_LimitPercent := i\<rparr>)"
  "aux_Offset a = 0 \<Longrightarrow> - (2 ^ 63) \<le> i \<Longrightarrow> i < 2 ^ 63 \<Longrightarrow>
     aux_members fm (omitempty (i = 0) ''offset'' (JNum True (of_int i))) a = Inr (a\<lparr>aux_Offset := i\<rparr>)"
  by (simp_all add: omitempty_def aux_keys typed_def)

definition with_rules :: "expression list \<Rightarrow> criteria \<Rightarrow> criteria" where
  "with_rules es c =
     c\<lparr>cr_Expression := Some (case cr_Expression c of Some (Any_of _) \<Rightarrow> Any_of es | _ \<Rightarrow> All_of es)\<rparr>"

definition top_group :: "criteria \<Rightarrow> expression list" where
  "top_group c = (case cr_Expression c of Some (All_of es) \<Rightarrow> es | Some (Any_of es) \<Rightarrow> es | _ \<Rightarrow> [])"

lemma aux_groups:
  assumes "unmarshalConjunctionType fm (JArr js) = Inr es"
  shows "aux_members fm (omitempty (js = []) ''all'' (JArr js)) aux0 = Inr (aux0\<lparr>aux_All := if js = [] then None else Some es\<rparr>)"
    "aux_members fm (omitempty (js = []) ''any'' (JArr js)) aux0 = Inr (aux0\<lparr>aux_Any := if js = [] then None else Some es\<rparr>)"
  using assms by (simp_all add: omitempty_def aux_keys aux0_def)

text \<open>The members after the group.\<close>

definition tail_members :: "criteria \<Rightarrow> (string \<times> json) list" where
  "tail_members c =
     (let delay = (if cr_RefreshDelay c > 0 then FormatDuration (cr_RefreshDelay c) else [])
      in omitempty (cr_Sort c = []) ''sort'' (JStr (cr_Sort c)) @
         omitempty (cr_Order c = []) ''order'' (JStr (cr_Order c)) @
         omitempty (cr_Limit c = 0) ''limit'' (JNum True (of_int (cr_Limit c))) @
         omitempty (cr_LimitPercent c = 0) ''limitPercent'' (JNum True (of_int (cr_LimitPercent c))) @
         omitempty (cr_Offset c = 0) ''offset'' (JNum True (of_int (cr_Offset c))) @
         omitempty (delay = []) ''refreshDelay'' (JStr delay))"

lemma aux_tail:
  assumes "wf_criteria fm c"
  shows "aux_members fm (tail_members c) (aux0\<lparr>aux_All := als, aux_Any := ays\<rparr>) =
    Inr \<lparr>aux_All = als, aux_Any = ays, aux_Sort = cr_Sort c, aux_Order = cr_Order c, aux_Limit = cr_Limit c,
         aux_LimitPercent = cr_LimitPercent c, aux_Offset = cr_Offset c,
         aux_RefreshDelay = (if cr_RefreshDelay c > 0 then FormatDuration (cr_RefreshDelay c) else [])\<rparr>"
  using assms by (simp add: tail_members_def aux_members_append aux_omitted wf_criteria_def aux0_def Let_def)

lemma delay_reads_back:
  assumes "wf_criteria fm c"
  shows "(if (if cr_RefreshDelay c > 0 then FormatDuration (cr_RefreshDelay c) else []) = [] then Inr 0
          else ParseDuration (if cr_RefreshDelay c > 0 then FormatDuration (cr_RefreshDelay c) else [])) = Inr (cr_RefreshDelay c)"
proof (cases "cr_RefreshDelay c > 0")
  case True
  then have p: "ParseDuration (FormatDuration (cr_RefreshDelay c)) = Inr (cr_RefreshDelay c)"
    using assms by (simp add: wf_criteria_def FormatDuration_reads_back)
  have "FormatDuration (cr_RefreshDelay c) \<noteq> []"
  proof
    assume "FormatDuration (cr_RefreshDelay c) = []"
    moreover have "ParseDuration [] = Inl (InvalidDuration [])"
      by (simp add: ParseDuration_def expand_day_week.simps time_ParseDuration_def)
    ultimately show False using p by simp
  qed
  with p show ?thesis using True by simp
qed (use assms in \<open>auto simp: wf_criteria_def\<close>)

lemma group_members:
  assumes "splice_ok parse" "list_all (wf_expr fm) es" "list_all writable es"
  shows "\<exists>js. sequence (map (expr_MarshalJSON parse) es) = Inr js \<and> length js = length es \<and>
           unmarshalConjunctionType fm (JArr js) = Inr (concat (map kept es))"
  by (rule group_reads_back) (use expr_reads_back [OF assms(1)] assms(2,3) in \<open>auto simp: list_all_iff\<close>)

lemma kept_full: "full_groups e \<Longrightarrow> kept e = [e]"
  by (induction e) (auto simp: list_all_iff concat_singletons)

section \<open>Properties\<close>

text \<open>
  C26: decoded rules are well typed. Whatever JSON document is decoded without an error, the result has one
  group of rules that is not empty, every operator has its values in canonical form with booleans
  where the field or the operator wants them, the percentage is between 0 and 100, the numbers fit an
  \<open>int\<close> and the refresh delay is not negative.
\<close>

theorem decoded_criteria_well_typed:
  "criteria_UnmarshalJSON fm criteria0 j = Inr c \<Longrightarrow> wf_criteria fm c"
proof -
  assume a: "criteria_UnmarshalJSON fm criteria0 j = Inr c"
  then obtain x where x: "decode_aux fm j = Inr x" "\<not> (aux_All x \<noteq> None \<and> aux_Any x \<noteq> None)"
    by (auto simp: criteria_UnmarshalJSON_def split: sum.splits if_splits)
  note w = decode_aux_wf [OF x(1), unfolded wf_aux_def]
  define ex where "ex = (if gg_V [] (aux_Any x) \<noteq> [] then Any_of (gg_V [] (aux_Any x)) else All_of (gg_V [] (aux_All x)))"
  have ne: "gg_V [] (aux_Any x) \<noteq> [] \<or> gg_V [] (aux_All x) \<noteq> []"
    using a x by (auto simp: criteria_UnmarshalJSON_def)
  then obtain d where d: "(if aux_RefreshDelay x = [] then Inr 0 else ParseDuration (aux_RefreshDelay x)) = Inr d"
    and c: "c = \<lparr>cr_Expression = Some ex, cr_Sort = aux_Sort x, cr_Order = aux_Order x, cr_Limit = aux_Limit x,
                cr_LimitPercent = clamp_percent (aux_LimitPercent x), cr_Offset = aux_Offset x, cr_RefreshDelay = d\<rparr>"
    using a x by (auto simp: criteria_UnmarshalJSON_def criteria0_def ex_def Let_def split: sum.splits if_splits list.splits)
  have "0 \<le> d \<and> d < 2 ^ 63" using d ParseDuration_range by (auto split: if_splits)
  then show ?thesis
    using w ne by (auto simp: wf_criteria_def c ex_def clamp_percent_def)
qed


definition plain_splice :: splice where
  "plain_splice n f v = (if plain_name f then Some (JObj [(n, JObj [(f, v)])]) else None)"

definition demo_criteria :: criteria where
  "demo_criteria =
     \<lparr>cr_Expression = Some (All_of [Leaf Contains [(''title'', JStr ''love'')], Any_of [Leaf Is [(''loved'', JBool True)]]]),
      cr_Sort = ''title'', cr_Order = [], cr_Limit = 20, cr_LimitPercent = 0, cr_Offset = 0,
      cr_RefreshDelay = 36 * Hour\<rparr>"

lemma plain_splice_ok: "splice_ok plain_splice"
  by (simp add: splice_ok_def plain_splice_def)

lemma demo_criteria_wf: "wf_criteria fieldMap demo_criteria" "list_all writable (top_group demo_criteria)"
  by code_simp+

text \<open>
  A document with nothing but an empty nested group is accepted, and written as one that cannot be read:
  a playlist stored with such rules can no longer be loaded.
\<close>

lemma empty_group_unreadable:
  "criteria_UnmarshalJSON fieldMap criteria0 (JObj [(''all'', JArr [JObj [(''any'', JArr [])]])]) =
     Inr (criteria0\<lparr>cr_Expression := Some (All_of [Any_of []])\<rparr>)"
  "criteria_MarshalJSON plain_splice (criteria0\<lparr>cr_Expression := Some (All_of [Any_of []])\<rparr>) = Inr (JObj [(''all'', JArr [JObj []])])"
  "criteria_UnmarshalJSON fieldMap criteria0 (JObj [(''all'', JArr [JObj []])]) = Inl MissingRules"
  by code_simp+

theorem decoded_criteria_well_typed_witness:
  "wf_criteria fieldMap (criteria0\<lparr>cr_Expression := Some (All_of [Any_of []])\<rparr>)"
  by (rule decoded_criteria_well_typed [OF empty_group_unreadable(1)])


end
