(* ===== verification/CriteriaSql.thy ===== *)
theory CriteriaSql
  imports Criteria
begin

text \<open>
  The SQL condition of a smart playlist (\<open>persistence/criteria_sql.go\<close>). Conditions are the trees that
  the code builds with the package \<open>squirrel\<close>, whose documented meaning is given in the second part; the
  text of the statement is not modelled. Third-party code and formatting are arguments: the verb \<open>%v\<close> of
  \<open>fmt\<close> for values that are not strings, \<open>ParseFloat\<close>, the date format, the Unicode normal forms, and in
  the meaning of conditions the comparison, \<open>LIKE\<close> and \<open>CAST\<close> of SQLite.
\<close>

unbundle bit_operations_syntax

section \<open>Fields and their tables\<close>

type_synonym join_type = int

definition smartPlaylistJoinNone :: join_type where "smartPlaylistJoinNone = 0"

definition smartPlaylistJoinAlbumAnnotation :: join_type where "smartPlaylistJoinAlbumAnnotation = 2"

definition smartPlaylistJoinArtistAnnotation :: join_type where "smartPlaylistJoinArtistAnnotation = 4"

definition smartPlaylistJoinAlbum :: join_type where "smartPlaylistJoinAlbum = 8"

definition join_has :: "join_type \<Rightarrow> join_type \<Rightarrow> bool" where
  "join_has j other \<longleftrightarrow> j AND other \<noteq> 0"

record sp_field =
  sf_expr :: string
  sf_order :: string
  sf_joinType :: join_type
  sf_emptyValues :: "string list"
  sf_coalesceDefault :: "json option"

definition sf0 :: sp_field where
  "sf0 = \<lparr>sf_expr = [], sf_order = [], sf_joinType = smartPlaylistJoinNone, sf_emptyValues = [], sf_coalesceDefault = None\<rparr>"

definition smartPlaylistFields :: "(string \<times> sp_field) list" where
  "smartPlaylistFields =
     [(''title'', sf0\<lparr>sf_expr := ''media_file.title''\<rparr>),
      (''album'', sf0\<lparr>sf_expr := ''media_file.album''\<rparr>),
      (''hascoverart'', sf0\<lparr>sf_expr := ''media_file.has_cover_art''\<rparr>),
      (''tracknumber'', sf0\<lparr>sf_expr := ''media_file.track_number''\<rparr>),
      (''discnumber'', sf0\<lparr>sf_expr := ''media_file.disc_number''\<rparr>),
      (''year'', sf0\<lparr>sf_expr := ''media_file.year''\<rparr>),
      (''date'', sf0\<lparr>sf_expr := ''media_file.date''\<rparr>),
      (''originalyear'', sf0\<lparr>sf_expr := ''media_file.original_year''\<rparr>),
      (''originaldate'', sf0\<lparr>sf_expr := ''media_file.original_date''\<rparr>),
      (''releaseyear'', sf0\<lparr>sf_expr := ''media_file.release_year''\<rparr>),
      (''releasedate'', sf0\<lparr>sf_expr := ''media_file.release_date''\<rparr>),
      (''size'', sf0\<lparr>sf_expr := ''media_file.size''\<rparr>),
      (''compilation'', sf0\<lparr>sf_expr := ''media_file.compilation''\<rparr>),
      (''missing'', sf0\<lparr>sf_expr := ''media_file.missing''\<rparr>),
      (''explicitstatus'', sf0\<lparr>sf_expr := ''media_file.explicit_status''\<rparr>),
      (''dateadded'', sf0\<lparr>sf_expr := ''media_file.created_at''\<rparr>),
      (''datemodified'', sf0\<lparr>sf_expr := ''media_file.updated_at''\<rparr>),
      (''discsubtitle'', sf0\<lparr>sf_expr := ''media_file.disc_subtitle''\<rparr>),
      (''comment'', sf0\<lparr>sf_expr := ''media_file.comment''\<rparr>),
      (''lyrics'', sf0\<lparr>sf_expr := ''media_file.lyrics'', sf_emptyValues := [''[]'']\<rparr>),
      (''sorttitle'', sf0\<lparr>sf_expr := ''media_file.sort_title''\<rparr>),
      (''sortalbum'', sf0\<lparr>sf_expr := ''media_file.sort_album_name''\<rparr>),
      (''sortartist'', sf0\<lparr>sf_expr := ''media_file.sort_artist_name''\<rparr>),
      (''sortalbumartist'', sf0\<lparr>sf_expr := ''media_file.sort_album_artist_name''\<rparr>),
      (''albumcomment'', sf0\<lparr>sf_expr := ''media_file.mbz_album_comment''\<rparr>),
      (''catalognumber'', sf0\<lparr>sf_expr := ''media_file.catalog_num''\<rparr>),
      (''filepath'', sf0\<lparr>sf_expr := ''media_file.path''\<rparr>),
      (''filetype'', sf0\<lparr>sf_expr := ''media_file.suffix''\<rparr>),
      (''codec'', sf0\<lparr>sf_expr := ''media_file.codec''\<rparr>),
      (''duration'', sf0\<lparr>sf_expr := ''media_file.duration''\<rparr>),
      (''bitrate'', sf0\<lparr>sf_expr := ''media_file.bit_rate''\<rparr>),
      (''bitdepth'', sf0\<lparr>sf_expr := ''media_file.bit_depth''\<rparr>),
      (''samplerate'', sf0\<lparr>sf_expr := ''media_file.sample_rate''\<rparr>),
      (''bpm'', sf0\<lparr>sf_expr := ''media_file.bpm''\<rparr>),
      (''channels'', sf0\<lparr>sf_expr := ''media_file.channels''\<rparr>),
      (''loved'', sf0\<lparr>sf_expr := ''annotation.starred'', sf_coalesceDefault := Some (JBool False)\<rparr>),
      (''dateloved'', sf0\<lparr>sf_expr := ''annotation.starred_at''\<rparr>),
      (''lastplayed'', sf0\<lparr>sf_expr := ''annotation.play_date''\<rparr>),
      (''daterated'', sf0\<lparr>sf_expr := ''annotation.rated_at''\<rparr>),
      (''playcount'', sf0\<lparr>sf_expr := ''annotation.play_count'', sf_coalesceDefault := Some (JNum True 0)\<rparr>),
      (''rating'', sf0\<lparr>sf_expr := ''annotation.rating'', sf_coalesceDefault := Some (JNum True 0)\<rparr>),
      (''averagerating'', sf0\<lparr>sf_expr := ''media_file.average_rating''\<rparr>),
      (''albumrating'', sf0\<lparr>sf_expr := ''album_annotation.rating'', sf_coalesceDefault := Some (JNum True 0), sf_joinType := smartPlaylistJoinAlbumAnnotation\<rparr>),
      (''albumloved'', sf0\<lparr>sf_expr := ''album_annotation.starred'', sf_coalesceDefault := Some (JBool False), sf_joinType := smartPlaylistJoinAlbumAnnotation\<rparr>),
      (''albumplaycount'', sf0\<lparr>sf_expr := ''album_annotation.play_count'', sf_coalesceDefault := Some (JNum True 0), sf_joinType := smartPlaylistJoinAlbumAnnotation\<rparr>),
      (''albumlastplayed'', sf0\<lparr>sf_expr := ''album_annotation.play_date'', sf_joinType := smartPlaylistJoinAlbumAnnotation\<rparr>),
      (''albumdateloved'', sf0\<lparr>sf_expr := ''album_annotation.starred_at'', sf_joinType := smartPlaylistJoinAlbumAnnotation\<rparr>),
      (''albumdaterated'', sf0\<lparr>sf_expr := ''album_annotation.rated_at'', sf_joinType := smartPlaylistJoinAlbumAnnotation\<rparr>),
      (''albumdateadded'', sf0\<lparr>sf_expr := ''album.created_at'', sf_joinType := smartPlaylistJoinAlbum\<rparr>),
      (''albumdatemodified'', sf0\<lparr>sf_expr := ''album.updated_at'', sf_joinType := smartPlaylistJoinAlbum\<rparr>),
      (''albumduration'', sf0\<lparr>sf_expr := ''album.duration'', sf_joinType := smartPlaylistJoinAlbum\<rparr>),
      (''albumsongcount'', sf0\<lparr>sf_expr := ''album.song_count'', sf_joinType := smartPlaylistJoinAlbum\<rparr>),
      (''albumsize'', sf0\<lparr>sf_expr := ''album.size'', sf_joinType := smartPlaylistJoinAlbum\<rparr>),
      (''artistrating'', sf0\<lparr>sf_expr := ''artist_annotation.rating'', sf_coalesceDefault := Some (JNum True 0), sf_joinType := smartPlaylistJoinArtistAnnotation\<rparr>),
      (''artistloved'', sf0\<lparr>sf_expr := ''artist_annotation.starred'', sf_coalesceDefault := Some (JBool False), sf_joinType := smartPlaylistJoinArtistAnnotation\<rparr>),
      (''artistplaycount'', sf0\<lparr>sf_expr := ''artist_annotation.play_count'', sf_coalesceDefault := Some (JNum True 0), sf_joinType := smartPlaylistJoinArtistAnnotation\<rparr>),
      (''artistlastplayed'', sf0\<lparr>sf_expr := ''artist_annotation.play_date'', sf_joinType := smartPlaylistJoinArtistAnnotation\<rparr>),
      (''artistdateloved'', sf0\<lparr>sf_expr := ''artist_annotation.starred_at'', sf_joinType := smartPlaylistJoinArtistAnnotation\<rparr>),
      (''artistdaterated'', sf0\<lparr>sf_expr := ''artist_annotation.rated_at'', sf_joinType := smartPlaylistJoinArtistAnnotation\<rparr>),
      (''mbz_album_id'', sf0\<lparr>sf_expr := ''media_file.mbz_album_id''\<rparr>),
      (''mbz_album_artist_id'', sf0\<lparr>sf_expr := ''media_file.mbz_album_artist_id''\<rparr>),
      (''mbz_artist_id'', sf0\<lparr>sf_expr := ''media_file.mbz_artist_id''\<rparr>),
      (''mbz_recording_id'', sf0\<lparr>sf_expr := ''media_file.mbz_recording_id''\<rparr>),
      (''mbz_release_track_id'', sf0\<lparr>sf_expr := ''media_file.mbz_release_track_id''\<rparr>),
      (''mbz_release_group_id'', sf0\<lparr>sf_expr := ''media_file.mbz_release_group_id''\<rparr>),
      (''rgalbumgain'', sf0\<lparr>sf_expr := ''media_file.rg_album_gain''\<rparr>),
      (''rgalbumpeak'', sf0\<lparr>sf_expr := ''media_file.rg_album_peak''\<rparr>),
      (''rgtrackgain'', sf0\<lparr>sf_expr := ''media_file.rg_track_gain''\<rparr>),
      (''rgtrackpeak'', sf0\<lparr>sf_expr := ''media_file.rg_track_peak''\<rparr>),
      (''library_id'', sf0\<lparr>sf_expr := ''media_file.library_id''\<rparr>),
      (''random'', sf0\<lparr>sf_order := ''random()''\<rparr>)]"

section \<open>Conditions\<close>

datatype comparator = cmpEq | cmpNe | cmpGt | cmpGe | cmpLt | cmpLe

fun satisfy :: "comparator \<Rightarrow> rat \<Rightarrow> rat \<Rightarrow> bool" where
  "satisfy cmpEq a b \<longleftrightarrow> a = b"
| "satisfy cmpNe a b \<longleftrightarrow> a \<noteq> b"
| "satisfy cmpGt a b \<longleftrightarrow> a > b"
| "satisfy cmpGe a b \<longleftrightarrow> a \<ge> b"
| "satisfy cmpLt a b \<longleftrightarrow> a < b"
| "satisfy cmpLe a b \<longleftrightarrow> a \<le> b"

definition ordering :: "comparator \<Rightarrow> bool" where
  "ordering c \<longleftrightarrow> c \<noteq> cmpEq \<and> c \<noteq> cmpNe"

text \<open>
  What a comparison reads: a column, a column with a default for \<open>NULL\<close>, or the value at hand inside a
  subquery over tags or roles.
\<close>

datatype operand = Column string | Coalesce string json | Value

text \<open>
  \<open>PlaylistSel\<close> selects by ID or by any of several paths; \<open>InSelect\<close> holds the filter on visibility: no
  filter, public lists, or public lists and those of an owner.
\<close>

datatype playlist_sel = ById string | ByPaths "string list"

datatype visibility = Everything | PublicOnly | PublicOrOwned string

datatype cond =
    CTrue
  | CAnd "cond list"
  | COr "cond list"
  | Compare comparator "(operand \<times> json) list"
  | Like bool "(operand \<times> string) list"
  | InSelect bool playlist_sel visibility
  | tagCond string bool "cond option" bool
  | roleCond string "cond option" bool
  | tagCondGroup string bool "cond list" bool
  | roleCondGroup string "cond list" bool

datatype rule_error =
    InvalidField string
  | TagOrRoleSingle string
  | NotOneField
  | NotBoolean string
  | NotNullable string
  | RangeOnTag string
  | NotAPair string
  | NotANumber
  | NoPlaylist

record rule_env =
  re_fields :: field_map
  re_fmt :: "json \<Rightarrow> string"
  re_ParseFloat :: "string \<Rightarrow> rat option"
  re_now :: time
  re_date :: "time \<Rightarrow> string"
  re_nfc :: "string \<Rightarrow> string"
  re_nfd :: "string \<Rightarrow> string"
  re_owner_id :: string
  re_owner_admin :: bool

definition Sprintf_v :: "rule_env \<Rightarrow> json \<Rightarrow> string" where
  "Sprintf_v env v = (case v of JStr s \<Rightarrow> s | _ \<Rightarrow> re_fmt env v)"

section \<open>Translation of one operator\<close>

definition singleField :: "field_map \<Rightarrow> (string \<times> json) list \<Rightarrow> (string \<times> json \<times> field_info) option" where
  "singleField fm values =
     (case values of
        [(f, v)] \<Rightarrow> (case LookupField fm f of None \<Rightarrow> None | Some info \<Rightarrow> Some (f, v, info))
      | _ \<Rightarrow> None)"

definition fieldExpr :: "string \<Rightarrow> string option" where
  "fieldExpr n = map_option sf_expr (map_of smartPlaylistFields (ToLower n))"

definition sqlField :: "field_map \<Rightarrow> string \<times> json \<Rightarrow> rule_error + (operand \<times> json)" where
  "sqlField fm fv =
     (case LookupField fm (fst fv) of
        None \<Rightarrow> Inl (InvalidField (fst fv))
      | Some info \<Rightarrow>
          (if fi_IsTag info \<or> fi_IsRole info then Inl (TagOrRoleSingle (fst fv))
           else (case fieldExpr (fi_name info) of
                   None \<Rightarrow> Inl (InvalidField (fst fv))
                 | Some e \<Rightarrow> if e = [] then Inl (InvalidField (fst fv)) else Inr (Column e, snd fv))))"

text \<open>The result is a map from columns to values: of two fields with one column the later one counts.\<close>

fun col_put :: "operand \<Rightarrow> json \<Rightarrow> (operand \<times> json) list \<Rightarrow> (operand \<times> json) list" where
  "col_put c v [] = [(c, v)]"
| "col_put c v ((c', v') # m) = (if c = c' then (c, v) # m else (c', v') # col_put c v m)"

definition sqlFields :: "field_map \<Rightarrow> (string \<times> json) list \<Rightarrow> rule_error + (operand \<times> json) list" where
  "sqlFields fm values =
     map_sum id (foldl (\<lambda>m (c, v). col_put c v m) []) (sequence (map (sqlField fm) values))"

definition jsonExpr :: "field_info \<Rightarrow> cond option \<Rightarrow> bool \<Rightarrow> cond" where
  "jsonExpr info c neg =
     (if fi_IsRole info then roleCond (fi_name info) c neg else tagCond (fi_name info) (fi_Numeric info) c neg)"

definition annotationField :: "field_info \<Rightarrow> (string \<times> json) option" where
  "annotationField info =
     (case map_of smartPlaylistFields (fi_name info) of
        None \<Rightarrow> None
      | Some f \<Rightarrow> (case sf_coalesceDefault f of None \<Rightarrow> None | Some d \<Rightarrow> Some (sf_expr f, d)))"

definition boolToFloat :: "bool \<Rightarrow> rat" where
  "boolToFloat b = (if b then 1 else 0)"

definition toFloat :: "rule_env \<Rightarrow> json \<Rightarrow> rat option" where
  "toFloat env v = (case v of JNum _ q \<Rightarrow> Some q | JStr s \<Rightarrow> re_ParseFloat env s | _ \<Rightarrow> None)"

text \<open>\<open>None\<close> is \<open>ok = false\<close>.\<close>

definition bareNullInclusion :: "rule_env \<Rightarrow> json \<Rightarrow> comparator \<Rightarrow> json \<Rightarrow> bool option" where
  "bareNullInclusion env defaultVal c v =
     (case defaultVal of
        JBool b \<Rightarrow>
          (if ordering c then None
           else (case ToBool v of None \<Rightarrow> None | Some x \<Rightarrow> Some (satisfy c (boolToFloat b) (boolToFloat x))))
      | _ \<Rightarrow>
          (case (toFloat env defaultVal, toFloat env v) of
             (Some d, Some x) \<Rightarrow> Some (satisfy c d x)
           | _ \<Rightarrow> None))"

definition annotationCond :: "rule_env \<Rightarrow> string \<times> json \<Rightarrow> comparator \<Rightarrow> json \<Rightarrow> cond" where
  "annotationCond env f c v =
     (case bareNullInclusion env (snd f) c v of
        None \<Rightarrow> Compare c [(Coalesce (fst f) (snd f), v)]
      | Some wrapNull \<Rightarrow>
          (let base = Compare c [(Column (fst f), v)]
           in if wrapNull then COr [base, Compare cmpEq [(Column (fst f), JNull)]] else base))"

definition comparisonExpr :: "rule_env \<Rightarrow> (string \<times> json) list \<Rightarrow> comparator \<Rightarrow> rule_error + cond" where
  "comparisonExpr env values c =
     (let general = map_sum id (Compare c) (sqlFields (re_fields env) values)
      in case singleField (re_fields env) values of
           None \<Rightarrow> general
         | Some (_, v, info) \<Rightarrow>
             (if fi_IsTag info \<or> fi_IsRole info then Inr (jsonExpr info (Some (Compare c [(Value, v)])) False)
              else (case annotationField info of
                      Some f \<Rightarrow> Inr (annotationCond env f c v)
                    | None \<Rightarrow> general)))"

definition isNotExpr :: "rule_env \<Rightarrow> (string \<times> json) list \<Rightarrow> rule_error + cond" where
  "isNotExpr env values =
     (case singleField (re_fields env) values of
        Some (_, v, info) \<Rightarrow>
          (if fi_IsTag info \<or> fi_IsRole info then Inr (jsonExpr info (Some (Compare cmpEq [(Value, v)])) True)
           else comparisonExpr env values cmpNe)
      | None \<Rightarrow> comparisonExpr env values cmpNe)"

definition missingExpr :: "rule_env \<Rightarrow> (string \<times> json) list \<Rightarrow> bool \<Rightarrow> rule_error + cond" where
  "missingExpr env values checkAbsence =
     (case singleField (re_fields env) values of
        None \<Rightarrow> (case values of [(f, _)] \<Rightarrow> Inl (InvalidField f) | _ \<Rightarrow> Inl NotOneField)
      | Some (field, JBool b, info) \<Rightarrow>
          (let neg = (checkAbsence = b)
           in if fi_IsTag info \<or> fi_IsRole info then Inr (jsonExpr info None neg)
              else if fi_Nullable info
              then (case map_of smartPlaylistFields (fi_name info) of
                      None \<Rightarrow> Inl (InvalidField field)
                    | Some f \<Rightarrow>
                        (if sf_expr f = [] then Inl (InvalidField field)
                         else (let empties = (if \<not> fi_Numeric info \<and> \<not> fi_Boolean info then [] # sf_emptyValues f else []);
                                   missing = COr (Compare cmpEq [(Column (sf_expr f), JNull)] #
                                                  map (\<lambda>e. Compare cmpEq [(Column (sf_expr f), JStr e)]) empties);
                                   present = CAnd (Compare cmpNe [(Column (sf_expr f), JNull)] #
                                                   map (\<lambda>e. Compare cmpNe [(Column (sf_expr f), JStr e)]) empties)
                               in Inr (if neg then missing else present))))
              else Inl (NotNullable field))
      | Some (field, _, info) \<Rightarrow> Inl (NotBoolean field))"

datatype like_pattern = Anywhere | AtStart | AtEnd

definition like_text :: "like_pattern \<Rightarrow> string \<Rightarrow> string" where
  "like_text p s = (case p of Anywhere \<Rightarrow> ''%'' @ s @ ''%'' | AtStart \<Rightarrow> s @ ''%'' | AtEnd \<Rightarrow> ''%'' @ s)"

definition likeExpr :: "rule_env \<Rightarrow> (string \<times> json) list \<Rightarrow> like_pattern \<Rightarrow> bool \<Rightarrow> rule_error + cond" where
  "likeExpr env values p neg =
     (let text = (\<lambda>v. like_text p (Sprintf_v env v));
          general = map_sum id (\<lambda>fs. Like neg (map (\<lambda>(c, v). (c, text v)) fs)) (sqlFields (re_fields env) values)
      in case singleField (re_fields env) values of
           None \<Rightarrow> general
         | Some (_, v, info) \<Rightarrow>
             (if fi_IsTag info \<or> fi_IsRole info then Inr (jsonExpr info (Some (Like False [(Value, text v)])) neg)
              else (case annotationField info of
                      Some f \<Rightarrow> Inr (Like neg [(Coalesce (fst f) (snd f), text v)])
                    | None \<Rightarrow> general)))"

definition rangeExpr :: "rule_env \<Rightarrow> (string \<times> json) list \<Rightarrow> rule_error + cond" where
  "rangeExpr env values =
     (case singleField (re_fields env) values of
        None \<Rightarrow> Inl (InvalidField (case values of [(f, _)] \<Rightarrow> f | _ \<Rightarrow> []))
      | Some (field, v, info) \<Rightarrow>
          (if fi_IsTag info \<or> fi_IsRole info then Inl (RangeOnTag field)
           else (case v of
                   JArr [lo, hi] \<Rightarrow>
                     (case comparisonExpr env [(field, lo)] cmpGe of
                        Inl e \<Rightarrow> Inl e
                      | Inr low \<Rightarrow>
                          (case comparisonExpr env [(field, hi)] cmpLe of
                             Inl e \<Rightarrow> Inl e
                           | Inr high \<Rightarrow> Inr (CAnd [low, high])))
                 | _ \<Rightarrow> Inl (NotAPair field))))"

text \<open>\<open>startOfPeriod\<close>: a \<open>time.Duration\<close> has 64 bits, and the product wraps around.\<close>

definition period_start :: "int \<Rightarrow> time \<Rightarrow> time" where
  "period_start numDays from = from + sint ((word_of_int (- 24 * numDays) :: 64 word) * word_of_int Hour)"

definition startOfPeriod :: "rule_env \<Rightarrow> int \<Rightarrow> string" where
  "startOfPeriod env numDays = re_date env (period_start numDays (re_now env))"

definition periodExpr :: "rule_env \<Rightarrow> (string \<times> json) list \<Rightarrow> bool \<Rightarrow> rule_error + cond" where
  "periodExpr env values neg =
     (case sqlFields (re_fields env) values of
        Inl e \<Rightarrow> Inl e
      | Inr cols \<Rightarrow>
          (let (c, v) = (case cols of [] \<Rightarrow> (Column [], JNull) | cv # _ \<Rightarrow> cv)
           in case Atoi (Sprintf_v env v) of
                None \<Rightarrow> Inl NotANumber
              | Some days \<Rightarrow>
                  (let firstDate = JStr (startOfPeriod env days)
                   in Inr (if neg then COr [Compare cmpLt [(c, firstDate)], Compare cmpEq [(c, JNull)]]
                           else Compare cmpGt [(c, firstDate)]))))"

definition pathVariants :: "rule_env \<Rightarrow> string \<Rightarrow> string list" where
  "pathVariants env path =
     [path] @ (if re_nfc env path \<noteq> path then [re_nfc env path] else []) @
     (if re_nfd env path \<noteq> path then [re_nfd env path] else [])"

definition nonempty_string :: "(string \<times> json) list \<Rightarrow> string \<Rightarrow> string option" where
  "nonempty_string values k = (case map_of values k of Some (JStr s) \<Rightarrow> if s \<noteq> [] then Some s else None | _ \<Rightarrow> None)"

definition owner_visibility :: "rule_env \<Rightarrow> visibility" where
  "owner_visibility env =
     (if re_owner_admin env then Everything
      else if re_owner_id env = [] then PublicOnly
      else PublicOrOwned (re_owner_id env))"

definition inList :: "rule_env \<Rightarrow> (string \<times> json) list \<Rightarrow> bool \<Rightarrow> rule_error + cond" where
  "inList env values neg =
     (case nonempty_string values ''id'' of
        Some i \<Rightarrow> Inr (InSelect neg (ById i) (owner_visibility env))
      | None \<Rightarrow>
          (case nonempty_string values ''path'' of
             Some p \<Rightarrow> Inr (InSelect neg (ByPaths (pathVariants env p)) (owner_visibility env))
           | None \<Rightarrow> Inl NoPlaylist))"

section \<open>Merging conditions on tags and roles\<close>

definition jsonCondBatchSize :: nat where "jsonCondBatchSize = 350"

function chunk :: "nat \<Rightarrow> 'a list \<Rightarrow> 'a list list" where
  "chunk n xs = (if xs = [] \<or> n = 0 then [] else take n xs # chunk n (drop n xs))"
  by pat_completeness auto
termination
  by (relation "measure (\<lambda>(n, xs). length xs)") auto

declare chunk.simps [simp del]

text \<open>The key of the group that a condition of the wanted polarity belongs to.\<close>

fun group_key :: "bool \<Rightarrow> cond \<Rightarrow> string option" where
  "group_key negated (roleCond r (Some c) neg) = (if neg = negated then Some (''role:'' @ r) else None)"
| "group_key negated (tagCond t num (Some c) neg) = (if neg = negated then Some (''tag:'' @ t) else None)"
| "group_key negated _ = None"

fun inner_cond :: "cond \<Rightarrow> cond" where
  "inner_cond (roleCond r (Some c) neg) = c"
| "inner_cond (tagCond t num (Some c) neg) = c"
| "inner_cond c = c"

text \<open>The batches of a group. Its kind, and for a tag whether it is numeric, are those of the first condition.\<close>

definition group_conds :: "bool \<Rightarrow> cond list \<Rightarrow> cond list" where
  "group_conds negated entries =
     (let batches = chunk jsonCondBatchSize (map inner_cond entries)
      in case entries of
           roleCond r _ _ # _ \<Rightarrow> map (\<lambda>b. roleCondGroup r b negated) batches
         | tagCond t num _ _ # _ \<Rightarrow> map (\<lambda>b. tagCondGroup t num b negated) batches
         | _ \<Rightarrow> [])"

definition group_of :: "bool \<Rightarrow> cond list \<Rightarrow> string \<Rightarrow> cond list" where
  "group_of negated conds k = filter (\<lambda>c. group_key negated c = Some k) conds"

definition mergeSameFieldConds :: "cond list \<Rightarrow> bool \<Rightarrow> cond list" where
  "mergeSameFieldConds conds negated =
     (let keys = sort (remdups (List.map_filter (group_key negated) conds));
          big = (\<lambda>k. 2 \<le> length (group_of negated conds k));
          rest = filter (\<lambda>c. case group_key negated c of None \<Rightarrow> True | Some k \<Rightarrow> \<not> big k) conds;
          additions = concat (map (\<lambda>k. if big k then group_conds negated (group_of negated conds k) else []) keys)
      in rest @ additions)"

definition mergeJsonConds :: "cond list \<Rightarrow> cond" where
  "mergeJsonConds conds = COr (mergeSameFieldConds conds False)"

definition mergeNegatedJsonConds :: "cond list \<Rightarrow> cond" where
  "mergeNegatedJsonConds conds = CAnd (mergeSameFieldConds conds True)"

section \<open>Translation of rules\<close>

definition leafSQL :: "rule_env \<Rightarrow> leaf_op \<Rightarrow> (string \<times> json) list \<Rightarrow> rule_error + cond" where
  "leafSQL env op m =
     (case op of
        Is \<Rightarrow> comparisonExpr env m cmpEq
      | IsNot \<Rightarrow> isNotExpr env m
      | Gt \<Rightarrow> comparisonExpr env m cmpGt
      | Lt \<Rightarrow> comparisonExpr env m cmpLt
      | Before \<Rightarrow> comparisonExpr env m cmpLt
      | After \<Rightarrow> comparisonExpr env m cmpGt
      | Contains \<Rightarrow> likeExpr env m Anywhere False
      | NotContains \<Rightarrow> likeExpr env m Anywhere True
      | StartsWith \<Rightarrow> likeExpr env m AtStart False
      | EndsWith \<Rightarrow> likeExpr env m AtEnd False
      | InTheRange \<Rightarrow> rangeExpr env m
      | InTheLast \<Rightarrow> periodExpr env m False
      | NotInTheLast \<Rightarrow> periodExpr env m True
      | InPlaylist \<Rightarrow> inList env m False
      | NotInPlaylist \<Rightarrow> inList env m True
      | IsMissing \<Rightarrow> missingExpr env m True
      | IsPresent \<Rightarrow> missingExpr env m False)"

fun exprSQL :: "rule_env \<Rightarrow> expression \<Rightarrow> rule_error + cond" where
  "exprSQL env (All_of es) = map_sum id mergeNegatedJsonConds (sequence (map (exprSQL env) es))"
| "exprSQL env (Any_of es) = map_sum id mergeJsonConds (sequence (map (exprSQL env) es))"
| "exprSQL env (Leaf op m) = leafSQL env op m"

definition criteria_where :: "rule_env \<Rightarrow> criteria \<Rightarrow> rule_error + cond" where
  "criteria_where env c = (case cr_Expression c of None \<Rightarrow> Inr CTrue | Some e \<Rightarrow> exprSQL env e)"

section \<open>Joins and order\<close>

definition fieldJoinType :: "field_map \<Rightarrow> string \<Rightarrow> join_type" where
  "fieldJoinType fm n =
     (case LookupField fm n of
        None \<Rightarrow> smartPlaylistJoinNone
      | Some info \<Rightarrow>
          (case map_of smartPlaylistFields (fi_name info) of
             None \<Rightarrow> smartPlaylistJoinNone
           | Some f \<Rightarrow> sf_joinType f))"

fun leaf_fields :: "expression \<Rightarrow> string list" where
  "leaf_fields (All_of es) = concat (map leaf_fields es)"
| "leaf_fields (Any_of es) = concat (map leaf_fields es)"
| "leaf_fields (Leaf op m) = map fst m"

definition join_union :: "field_map \<Rightarrow> string list \<Rightarrow> join_type" where
  "join_union fm ns = foldl (\<lambda>j n. j OR fieldJoinType fm n) smartPlaylistJoinNone ns"

definition expressionJoins :: "field_map \<Rightarrow> criteria \<Rightarrow> join_type" where
  "expressionJoins fm c = join_union fm (case cr_Expression c of None \<Rightarrow> [] | Some e \<Rightarrow> leaf_fields e)"

definition requiredJoins :: "field_map \<Rightarrow> criteria \<Rightarrow> join_type" where
  "requiredJoins fm c = foldl (\<lambda>j n. j OR fieldJoinType fm n) (expressionJoins fm c) (SortFieldNames fm c)"

text \<open>The tables of the query, by the names that conditions use for them.\<close>

definition applyJoins :: "join_type \<Rightarrow> string list" where
  "applyJoins joins =
     [''media_file'', ''annotation''] @
     (if join_has joins smartPlaylistJoinAlbumAnnotation then [''album_annotation''] else []) @
     (if join_has joins smartPlaylistJoinArtistAnnotation then [''artist_annotation''] else []) @
     (if join_has joins smartPlaylistJoinAlbum then [''album''] else [])"

datatype sort_expr = Random | FirstTag string | FirstRole string | SortOperand operand

record order_item =
  oi_expr :: sort_expr
  oi_real :: bool
  oi_desc :: bool

definition coalesced :: "sp_field \<Rightarrow> operand" where
  "coalesced f = (case sf_coalesceDefault f of None \<Rightarrow> Column (sf_expr f) | Some d \<Rightarrow> Coalesce (sf_expr f) d)"

text \<open>The expression to sort by, and whether it is cast to \<open>REAL\<close>.\<close>

definition sortExpr :: "field_map \<Rightarrow> string \<Rightarrow> (sort_expr \<times> bool) option" where
  "sortExpr fm sortField =
     (case LookupField fm sortField of
        None \<Rightarrow> None
      | Some info \<Rightarrow>
          (case map_of smartPlaylistFields (fi_name info) of
             Some f \<Rightarrow>
               (if sf_order f \<noteq> [] then Some (Random, False)
                else if fi_IsTag info then Some (FirstTag (fi_name info), fi_Numeric info)
                else if fi_IsRole info then Some (FirstRole (fi_name info), fi_Numeric info)
                else if sf_expr f = [] then None
                else Some (SortOperand (coalesced f), fi_Numeric info))
           | None \<Rightarrow>
               (if fi_IsTag info then Some (FirstTag (fi_name info), fi_Numeric info)
                else if fi_IsRole info then Some (FirstRole (fi_name info), fi_Numeric info)
                else None)))"

definition orderBy :: "field_map \<Rightarrow> criteria \<Rightarrow> order_item list" where
  "orderBy fm c =
     List.map_filter (\<lambda>sf. case sortExpr fm (so_Field sf) of
                        None \<Rightarrow> None
                      | Some (e, r) \<Rightarrow> Some \<lparr>oi_expr = e, oi_real = r, oi_desc = so_Desc sf\<rparr>) (OrderByFields fm c)"

section \<open>The meaning of conditions\<close>

text \<open>
  A condition selects a row when SQLite finds it true; neither a false one nor \<open>NULL\<close> does. Since \<open>NOT\<close> is
  applied to \<open>EXISTS\<close> only, being true is determined by the parts being true. A row has the values of its
  columns, the values of its tags, the names of the artists in each role, and the ID of the file.
\<close>

datatype sqlval = SNull | SNum rat | SText string

record sql_row =
  sr_id :: string
  sr_col :: "string \<Rightarrow> sqlval"
  sr_tags :: "string \<Rightarrow> sqlval list"
  sr_roles :: "string \<Rightarrow> sqlval list"

record playlist_entry =
  pe_playlist :: string
  pe_path :: string
  pe_public :: bool
  pe_owner :: string
  pe_file :: string

text \<open>SQLite: comparison, \<open>LIKE\<close> and \<open>CAST(_ AS REAL)\<close>. The operand determines affinity and collation.\<close>

record sqlite =
  sq_compare :: "operand \<Rightarrow> comparator \<Rightarrow> sqlval \<Rightarrow> sqlval \<Rightarrow> bool"
  sq_like :: "sqlval \<Rightarrow> string \<Rightarrow> bool"
  sq_real :: "sqlval \<Rightarrow> sqlval"

definition sqlite_ok :: "sqlite \<Rightarrow> bool" where
  "sqlite_ok q \<longleftrightarrow>
     (\<forall>x c v. \<not> sq_compare q x c SNull v) \<and>
     (\<forall>x a v. a \<noteq> SNull \<longrightarrow> v \<noteq> SNull \<longrightarrow> sq_compare q x cmpNe a v = (\<not> sq_compare q x cmpEq a v)) \<and>
     (\<forall>x c a b. sq_compare q x c (SNum a) (SNum b) \<longleftrightarrow> satisfy c a b)"

fun bind :: "json \<Rightarrow> sqlval" where
  "bind JNull = SNull"
| "bind (JBool b) = SNum (boolToFloat b)"
| "bind (JNum b q) = SNum q"
| "bind (JStr s) = SText s"
| "bind _ = SNull"

definition operand_val :: "sql_row \<Rightarrow> sqlval \<Rightarrow> operand \<Rightarrow> sqlval" where
  "operand_val r cur x =
     (case x of
        Column c \<Rightarrow> sr_col r c
      | Coalesce c d \<Rightarrow> if sr_col r c = SNull then bind d else sr_col r c
      | Value \<Rightarrow> cur)"

text \<open>\<open>squirrel\<close>: equality with \<open>nil\<close> is \<open>IS NULL\<close>, and with a list it is membership.\<close>

definition compare_holds :: "sqlite \<Rightarrow> comparator \<Rightarrow> operand \<Rightarrow> sqlval \<Rightarrow> json \<Rightarrow> bool" where
  "compare_holds q c x a v =
     (case v of
        JNull \<Rightarrow> (c = cmpEq \<and> a = SNull \<or> c = cmpNe \<and> a \<noteq> SNull)
      | JArr vs \<Rightarrow>
          (c = cmpEq \<and> list_ex (\<lambda>w. sq_compare q x cmpEq a (bind w)) vs \<or>
           c = cmpNe \<and> list_all (\<lambda>w. sq_compare q x cmpNe a (bind w)) vs)
      | _ \<Rightarrow> sq_compare q x c a (bind v))"

definition like_holds :: "sqlite \<Rightarrow> bool \<Rightarrow> sqlval \<Rightarrow> string \<Rightarrow> bool" where
  "like_holds q neg a p \<longleftrightarrow> a \<noteq> SNull \<and> sq_like q a p \<noteq> neg"

definition visible :: "visibility \<Rightarrow> playlist_entry \<Rightarrow> bool" where
  "visible vis e =
     (case vis of
        Everything \<Rightarrow> True
      | PublicOnly \<Rightarrow> pe_public e
      | PublicOrOwned u \<Rightarrow> pe_public e \<or> pe_owner e = u)"

definition selected :: "playlist_sel \<Rightarrow> playlist_entry \<Rightarrow> bool" where
  "selected sel e = (case sel of ById i \<Rightarrow> pe_playlist e = i | ByPaths ps \<Rightarrow> pe_path e \<in> set ps)"

definition in_select :: "playlist_entry list \<Rightarrow> playlist_sel \<Rightarrow> visibility \<Rightarrow> string \<Rightarrow> bool" where
  "in_select db sel vis i \<longleftrightarrow> list_ex (\<lambda>e. selected sel e \<and> visible vis e \<and> pe_file e = i) db"

text \<open>A numeric tag is read through \<open>CAST(value AS REAL)\<close>.\<close>

definition tag_values :: "sqlite \<Rightarrow> sql_row \<Rightarrow> string \<Rightarrow> bool \<Rightarrow> sqlval list" where
  "tag_values q r t num = (if num then map (sq_real q) (sr_tags r t) else sr_tags r t)"

fun holds :: "sqlite \<Rightarrow> playlist_entry list \<Rightarrow> sql_row \<Rightarrow> sqlval \<Rightarrow> cond \<Rightarrow> bool" where
  "holds q db r cur CTrue \<longleftrightarrow> True"
| "holds q db r cur (CAnd cs) \<longleftrightarrow> list_all (holds q db r cur) cs"
| "holds q db r cur (COr cs) \<longleftrightarrow> list_ex (holds q db r cur) cs"
| "holds q db r cur (Compare c xs) \<longleftrightarrow> list_all (\<lambda>(x, v). compare_holds q c x (operand_val r cur x) v) xs"
| "holds q db r cur (Like neg xs) \<longleftrightarrow> list_all (\<lambda>(x, p). like_holds q neg (operand_val r cur x) p) xs"
| "holds q db r cur (InSelect neg sel vis) \<longleftrightarrow> in_select db sel vis (sr_id r) \<noteq> neg"
| "holds q db r cur (tagCond t num None neg) \<longleftrightarrow> (sr_tags r t \<noteq> []) \<noteq> neg"
| "holds q db r cur (tagCond t num (Some c) neg) \<longleftrightarrow> list_ex (\<lambda>x. holds q db r x c) (tag_values q r t num) \<noteq> neg"
| "holds q db r cur (roleCond ro None neg) \<longleftrightarrow> (sr_roles r ro \<noteq> []) \<noteq> neg"
| "holds q db r cur (roleCond ro (Some c) neg) \<longleftrightarrow> list_ex (\<lambda>x. holds q db r x c) (sr_roles r ro) \<noteq> neg"
| "holds q db r cur (tagCondGroup t num cs neg) \<longleftrightarrow>
     list_ex (\<lambda>x. list_ex (holds q db r x) cs) (tag_values q r t num) \<noteq> neg"
| "holds q db r cur (roleCondGroup ro cs neg) \<longleftrightarrow>
     list_ex (\<lambda>x. list_ex (holds q db r x) cs) (sr_roles r ro) \<noteq> neg"

section \<open>The meaning of rules\<close>

text \<open>
  What a rule is meant to say, without the shape of the query: a field of the user's own data (play count,
  rating, loved) has its default when there is none yet; tags and roles have several values, of which
  one must match, or none if the operator is negated.
\<close>

definition field_value :: "sql_row \<Rightarrow> field_info \<Rightarrow> sqlval" where
  "field_value r info =
     (case annotationField info of
        Some (c, d) \<Rightarrow> if sr_col r c = SNull then bind d else sr_col r c
      | None \<Rightarrow> (case fieldExpr (fi_name info) of Some c \<Rightarrow> sr_col r c | None \<Rightarrow> SNull))"

definition field_column :: "field_info \<Rightarrow> operand" where
  "field_column info =
     (case annotationField info of
        Some (c, d) \<Rightarrow> Column c
      | None \<Rightarrow> (case fieldExpr (fi_name info) of Some c \<Rightarrow> Column c | None \<Rightarrow> Value))"

definition multi_values :: "sqlite \<Rightarrow> sql_row \<Rightarrow> field_info \<Rightarrow> sqlval list" where
  "multi_values q r info =
     (if fi_IsRole info then sr_roles r (fi_name info) else tag_values q r (fi_name info) (fi_Numeric info))"

definition is_missing :: "sqlite \<Rightarrow> sql_row \<Rightarrow> field_info \<Rightarrow> bool" where
  "is_missing q r info =
     (case map_of smartPlaylistFields (fi_name info) of
        None \<Rightarrow> True
      | Some f \<Rightarrow>
          (let a = sr_col r (sf_expr f)
           in a = SNull \<or>
              \<not> fi_Numeric info \<and> \<not> fi_Boolean info \<and>
              list_ex (\<lambda>e. sq_compare q (Column (sf_expr f)) cmpEq a (SText e)) ([] # sf_emptyValues f)))"

text \<open>The test of an operator that is not negated on one value.\<close>

definition value_matches :: "rule_env \<Rightarrow> sqlite \<Rightarrow> leaf_op \<Rightarrow> operand \<Rightarrow> json \<Rightarrow> sqlval \<Rightarrow> bool" where
  "value_matches env q op x v a =
     (case op of
        Is \<Rightarrow> compare_holds q cmpEq x a v
      | IsNot \<Rightarrow> compare_holds q cmpNe x a v
      | Gt \<Rightarrow> compare_holds q cmpGt x a v
      | After \<Rightarrow> compare_holds q cmpGt x a v
      | Lt \<Rightarrow> compare_holds q cmpLt x a v
      | Before \<Rightarrow> compare_holds q cmpLt x a v
      | Contains \<Rightarrow> like_holds q False a (like_text Anywhere (Sprintf_v env v))
      | NotContains \<Rightarrow> like_holds q True a (like_text Anywhere (Sprintf_v env v))
      | StartsWith \<Rightarrow> like_holds q False a (like_text AtStart (Sprintf_v env v))
      | EndsWith \<Rightarrow> like_holds q False a (like_text AtEnd (Sprintf_v env v))
      | InTheRange \<Rightarrow>
          (case v of JArr [lo, hi] \<Rightarrow> compare_holds q cmpGe x a lo \<and> compare_holds q cmpLe x a hi | _ \<Rightarrow> False)
      | InTheLast \<Rightarrow>
          (case Atoi (Sprintf_v env v) of
             Some n \<Rightarrow> compare_holds q cmpGt x a (JStr (startOfPeriod env n)) | None \<Rightarrow> False)
      | NotInTheLast \<Rightarrow>
          (case Atoi (Sprintf_v env v) of
             Some n \<Rightarrow> a = SNull \<or> compare_holds q cmpLt x a (JStr (startOfPeriod env n)) | None \<Rightarrow> False)
      | _ \<Rightarrow> False)"

definition multi_matches :: "rule_env \<Rightarrow> sqlite \<Rightarrow> leaf_op \<Rightarrow> json \<Rightarrow> sqlval list \<Rightarrow> bool" where
  "multi_matches env q op v as =
     (case op of
        IsNot \<Rightarrow> \<not> list_ex (value_matches env q Is Value v) as
      | NotContains \<Rightarrow> \<not> list_ex (value_matches env q Contains Value v) as
      | IsMissing \<Rightarrow> (as = []) = (v = JBool True)
      | IsPresent \<Rightarrow> (as \<noteq> []) = (v = JBool True)
      | _ \<Rightarrow> list_ex (value_matches env q op Value v) as)"

definition playlist_named :: "rule_env \<Rightarrow> (string \<times> json) list \<Rightarrow> playlist_sel option" where
  "playlist_named env m =
     (case nonempty_string m ''id'' of
        Some i \<Rightarrow> Some (ById i)
      | None \<Rightarrow> map_option (\<lambda>p. ByPaths (pathVariants env p)) (nonempty_string m ''path''))"

definition field_matches :: "rule_env \<Rightarrow> sqlite \<Rightarrow> sql_row \<Rightarrow> leaf_op \<Rightarrow> string \<Rightarrow> json \<Rightarrow> bool" where
  "field_matches env q r op f v =
     (case LookupField (re_fields env) f of
        None \<Rightarrow> False
      | Some info \<Rightarrow>
          (if fi_IsTag info \<or> fi_IsRole info then multi_matches env q op v (multi_values q r info)
           else if op = IsMissing \<or> op = IsPresent
           then is_missing q r info = ((op = IsMissing) = (v = JBool True))
           else value_matches env q op (field_column info) v (field_value r info)))"

definition leaf_matches :: "rule_env \<Rightarrow> sqlite \<Rightarrow> playlist_entry list \<Rightarrow> sql_row \<Rightarrow> leaf_op \<Rightarrow> (string \<times> json) list \<Rightarrow> bool" where
  "leaf_matches env q db r op m =
     (if op = InPlaylist \<or> op = NotInPlaylist
      then (case playlist_named env m of
              None \<Rightarrow> False
            | Some sel \<Rightarrow> in_select db sel (owner_visibility env) (sr_id r) = (op = InPlaylist))
      else (case m of [(f, v)] \<Rightarrow> field_matches env q r op f v | _ \<Rightarrow> False))"

fun rule_matches :: "rule_env \<Rightarrow> sqlite \<Rightarrow> playlist_entry list \<Rightarrow> sql_row \<Rightarrow> expression \<Rightarrow> bool" where
  "rule_matches env q db r (All_of es) \<longleftrightarrow> list_all (rule_matches env q db r) es"
| "rule_matches env q db r (Any_of es) \<longleftrightarrow> list_ex (rule_matches env q db r) es"
| "rule_matches env q db r (Leaf op m) \<longleftrightarrow> leaf_matches env q db r op m"

section \<open>Merging keeps the meaning\<close>

lemma concat_chunk: "0 < n \<Longrightarrow> concat (chunk n xs) = xs"
  by (induction n xs rule: chunk.induct) (subst chunk.simps, auto)

lemma chunk_bounds: "ys \<in> set (chunk n xs) \<Longrightarrow> ys \<noteq> [] \<and> length ys \<le> n"
  by (induction n xs rule: chunk.induct) (subst (asm) (2) chunk.simps, auto split: if_splits)

text \<open>The conditions on one tag agree on whether it is numeric.\<close>

definition same_numeric :: "cond list \<Rightarrow> bool" where
  "same_numeric cs \<longleftrightarrow>
     (\<forall>t n1 o1 b1 n2 o2 b2. tagCond t n1 o1 b1 \<in> set cs \<longrightarrow> tagCond t n2 o2 b2 \<in> set cs \<longrightarrow> n1 = n2)"

lemma same_numericD:
  "same_numeric cs \<Longrightarrow> tagCond t n1 o1 b1 \<in> set cs \<Longrightarrow> tagCond t n2 o2 b2 \<in> set cs \<Longrightarrow> n1 = n2"
  unfolding same_numeric_def by blast

text \<open>The values that a mergeable condition looks at.\<close>

fun cond_values :: "sqlite \<Rightarrow> sql_row \<Rightarrow> cond \<Rightarrow> sqlval list" where
  "cond_values q r (roleCond ro _ _) = sr_roles r ro"
| "cond_values q r (tagCond t num _ _) = tag_values q r t num"
| "cond_values q r _ = []"

lemma mergeable_holds:
  "group_key neg c = Some k \<Longrightarrow> holds q db r cur c \<longleftrightarrow> list_ex (\<lambda>x. holds q db r x (inner_cond c)) (cond_values q r c) \<noteq> neg"
  by (cases "(neg, c)" rule: group_key.cases) (auto split: if_splits)

lemma group_same_values:
  assumes "same_numeric cs" "c \<in> set cs" "d \<in> set cs" "group_key neg c = Some k" "group_key neg d = Some k"
  shows "cond_values q r c = cond_values q r d"
  using assms by (cases "(neg, c)" rule: group_key.cases; cases "(neg, d)" rule: group_key.cases)
    (auto dest: same_numericD split: if_splits)

lemma group_conds_holds:
  assumes es: "es \<noteq> []" "\<forall>c\<in>set es. group_key neg c = Some k \<and> cond_values q r c = vs"
  shows "c \<in> set (group_conds neg es) \<Longrightarrow>
           \<exists>b\<in>set (chunk jsonCondBatchSize (map inner_cond es)). holds q db r cur c \<longleftrightarrow> list_ex (\<lambda>x. list_ex (holds q db r x) b) vs \<noteq> neg"
    "b \<in> set (chunk jsonCondBatchSize (map inner_cond es)) \<Longrightarrow>
           \<exists>c\<in>set (group_conds neg es). holds q db r cur c \<longleftrightarrow> list_ex (\<lambda>x. list_ex (holds q db r x) b) vs \<noteq> neg"
proof -
  obtain e es' where e: "es = e # es'" using es(1) by (cases es) auto
  then have k: "group_key neg e = Some k" "cond_values q r e = vs" using es(2) by auto
  show "c \<in> set (group_conds neg es) \<Longrightarrow>
           \<exists>b\<in>set (chunk jsonCondBatchSize (map inner_cond es)). holds q db r cur c \<longleftrightarrow> list_ex (\<lambda>x. list_ex (holds q db r x) b) vs \<noteq> neg"
    "b \<in> set (chunk jsonCondBatchSize (map inner_cond es)) \<Longrightarrow>
           \<exists>c\<in>set (group_conds neg es). holds q db r cur c \<longleftrightarrow> list_ex (\<lambda>x. list_ex (holds q db r x) b) vs \<noteq> neg"
    using k by (cases "(neg, e)" rule: group_key.cases; auto simp: group_conds_def e Let_def split: if_splits)+
qed

lemma group_of_values:
  assumes "same_numeric cs" "group_of neg cs k \<noteq> []"
  shows "\<exists>vs. \<forall>c\<in>set (group_of neg cs k). group_key neg c = Some k \<and> cond_values q r c = vs"
proof -
  obtain d where d: "d \<in> set (group_of neg cs k)" using assms(2) by (cases "group_of neg cs k") auto
  have m: "c \<in> set cs \<and> group_key neg c = Some k" if "c \<in> set (group_of neg cs k)" for c
    using that by (auto simp: group_of_def)
  have "\<forall>c\<in>set (group_of neg cs k). group_key neg c = Some k \<and> cond_values q r c = cond_values q r d"
    using m d group_same_values [OF assms(1)] by metis
  then show ?thesis by blast
qed

lemma merged_group_or:
  assumes "same_numeric cs" "group_of False cs k \<noteq> []"
  shows "list_ex (holds q db r cur) (group_conds False (group_of False cs k)) \<longleftrightarrow> list_ex (holds q db r cur) (group_of False cs k)"
proof -
  let ?es = "group_of False cs k" and ?H = "\<lambda>x c. holds q db r x c"
  obtain vs where vs: "\<forall>c\<in>set ?es. group_key False c = Some k \<and> cond_values q r c = vs"
    using group_of_values [OF assms] by blast
  note g = group_conds_holds [OF assms(2) vs, where db = db and cur = cur]
  have h: "?H cur c \<longleftrightarrow> (\<exists>x\<in>set vs. ?H x (inner_cond c))" if "c \<in> set ?es" for c
    using vs that mergeable_holds [of False c k q db r cur] by (simp add: list_ex_iff)
  have "list_ex (?H cur) (group_conds False ?es) \<longleftrightarrow>
      (\<exists>b\<in>set (chunk jsonCondBatchSize (map inner_cond ?es)). \<exists>x\<in>set vs. \<exists>c\<in>set b. ?H x c)"
    using g by (fastforce simp: list_ex_iff)
  also have "\<dots> \<longleftrightarrow> (\<exists>x\<in>set vs. \<exists>c\<in>set (concat (chunk jsonCondBatchSize (map inner_cond ?es))). ?H x c)" by auto
  also have "\<dots> \<longleftrightarrow> (\<exists>x\<in>set vs. \<exists>c\<in>set ?es. ?H x (inner_cond c))"
    by (simp add: concat_chunk jsonCondBatchSize_def)
  also have "\<dots> \<longleftrightarrow> list_ex (?H cur) ?es"
    using h by (auto simp: list_ex_iff)
  finally show ?thesis .
qed

lemma merged_group_and:
  assumes "same_numeric cs" "group_of True cs k \<noteq> []"
  shows "list_all (holds q db r cur) (group_conds True (group_of True cs k)) \<longleftrightarrow> list_all (holds q db r cur) (group_of True cs k)"
proof -
  let ?es = "group_of True cs k" and ?H = "\<lambda>x c. holds q db r x c"
  obtain vs where vs: "\<forall>c\<in>set ?es. group_key True c = Some k \<and> cond_values q r c = vs"
    using group_of_values [OF assms] by blast
  note g = group_conds_holds [OF assms(2) vs, where db = db and cur = cur]
  have h: "?H cur c \<longleftrightarrow> \<not> (\<exists>x\<in>set vs. ?H x (inner_cond c))" if "c \<in> set ?es" for c
    using vs that mergeable_holds [of True c k q db r cur] by (simp add: list_ex_iff)
  have "list_all (?H cur) (group_conds True ?es) \<longleftrightarrow>
      \<not> (\<exists>b\<in>set (chunk jsonCondBatchSize (map inner_cond ?es)). \<exists>x\<in>set vs. \<exists>c\<in>set b. ?H x c)"
    using g by (fastforce simp: list_ex_iff list_all_iff)
  also have "\<dots> \<longleftrightarrow> \<not> (\<exists>x\<in>set vs. \<exists>c\<in>set (concat (chunk jsonCondBatchSize (map inner_cond ?es))). ?H x c)" by auto
  also have "\<dots> \<longleftrightarrow> \<not> (\<exists>x\<in>set vs. \<exists>c\<in>set ?es. ?H x (inner_cond c))"
    by (simp add: concat_chunk jsonCondBatchSize_def)
  also have "\<dots> \<longleftrightarrow> list_all (?H cur) ?es"
    using h by (auto simp: list_all_iff)
  finally show ?thesis .
qed

text \<open>Every condition is left alone or in exactly one merged group.\<close>

lemma merge_partition:
  "set (mergeSameFieldConds cs neg) =
     {c \<in> set cs. \<forall>k. group_key neg c = Some k \<longrightarrow> \<not> 2 \<le> length (group_of neg cs k)} \<union>
     (\<Union>k\<in>{k. 2 \<le> length (group_of neg cs k)}. set (group_conds neg (group_of neg cs k)))"
proof -
  have keys: "k \<in> set (List.map_filter (group_key neg) cs)" if "2 \<le> length (group_of neg cs k)" for k
  proof -
    have "group_of neg cs k \<noteq> []" using that by (intro notI) simp
    then obtain c where "c \<in> set (group_of neg cs k)" using hd_in_set by blast
    then show ?thesis by (auto simp: group_of_def map_filter_def intro!: image_eqI [of _ _ c])
  qed
  then show ?thesis
    by (auto simp: mergeSameFieldConds_def Let_def split: option.splits if_splits)
qed

lemma big_group_ne: "2 \<le> length (group_of neg cs k) \<Longrightarrow> group_of neg cs k \<noteq> []"
  by auto

lemma merge_or:
  assumes "same_numeric cs"
  shows "holds q db r cur (mergeJsonConds cs) \<longleftrightarrow> list_ex (holds q db r cur) cs"
proof -
  have "(\<exists>c\<in>set (group_conds False (group_of False cs k)). holds q db r cur c) \<longleftrightarrow> (\<exists>c\<in>set (group_of False cs k). holds q db r cur c)"
    if "2 \<le> length (group_of False cs k)" for k
    using merged_group_or [OF assms big_group_ne [OF that]] by (simp add: list_ex_iff)
  then have "holds q db r cur (mergeJsonConds cs) \<longleftrightarrow>
      (\<exists>c\<in>{c \<in> set cs. \<forall>k. group_key False c = Some k \<longrightarrow> \<not> 2 \<le> length (group_of False cs k)}. holds q db r cur c) \<or>
      (\<exists>k. 2 \<le> length (group_of False cs k) \<and> (\<exists>c\<in>set (group_of False cs k). holds q db r cur c))"
    by (simp add: mergeJsonConds_def list_ex_iff merge_partition) blast
  also have "\<dots> \<longleftrightarrow> (\<exists>c\<in>set cs. holds q db r cur c)" by (auto simp: group_of_def)
  finally show ?thesis by (simp add: list_ex_iff)
qed

lemma merge_and:
  assumes "same_numeric cs"
  shows "holds q db r cur (mergeNegatedJsonConds cs) \<longleftrightarrow> list_all (holds q db r cur) cs"
proof -
  have "(\<forall>c\<in>set (group_conds True (group_of True cs k)). holds q db r cur c) \<longleftrightarrow> (\<forall>c\<in>set (group_of True cs k). holds q db r cur c)"
    if "2 \<le> length (group_of True cs k)" for k
    using merged_group_and [OF assms big_group_ne [OF that]] by (simp add: list_all_iff)
  then have "holds q db r cur (mergeNegatedJsonConds cs) \<longleftrightarrow>
      (\<forall>c\<in>{c \<in> set cs. \<forall>k. group_key True c = Some k \<longrightarrow> \<not> 2 \<le> length (group_of True cs k)}. holds q db r cur c) \<and>
      (\<forall>k. 2 \<le> length (group_of True cs k) \<longrightarrow> (\<forall>c\<in>set (group_of True cs k). holds q db r cur c))"
    by (simp add: mergeNegatedJsonConds_def list_all_iff merge_partition) blast
  also have "\<dots> \<longleftrightarrow> (\<forall>c\<in>set cs. holds q db r cur c)" by (auto simp: group_of_def)
  finally show ?thesis by (simp add: list_all_iff)
qed

section \<open>Operators keep the meaning\<close>

text \<open>
  The rules the translation is about: one field per operator, and numbers or booleans where the user's own
  data is compared. Those columns hold numbers, if anything.
\<close>

fun numeric_scalar :: "json \<Rightarrow> bool" where
  "numeric_scalar (JNum b q) \<longleftrightarrow> True"
| "numeric_scalar (JBool b) \<longleftrightarrow> True"
| "numeric_scalar _ \<longleftrightarrow> False"

definition numeric_value :: "json \<Rightarrow> bool" where
  "numeric_value v = (case v of JNull \<Rightarrow> True | JArr vs \<Rightarrow> list_all numeric_scalar vs | _ \<Rightarrow> numeric_scalar v)"

definition typed_leaf :: "rule_env \<Rightarrow> leaf_op \<Rightarrow> (string \<times> json) list \<Rightarrow> bool" where
  "typed_leaf env op m \<longleftrightarrow>
     op = InPlaylist \<or> op = NotInPlaylist \<or>
     (case m of
        [(f, v)] \<Rightarrow>
          (case LookupField (re_fields env) f of
             None \<Rightarrow> True
           | Some info \<Rightarrow>
               fi_IsTag info \<or> fi_IsRole info \<or> annotationField info = None \<or>
               op \<in> {Contains, NotContains, StartsWith, EndsWith} \<or>
               numeric_value v \<and> op \<notin> {InTheLast, NotInTheLast})
      | _ \<Rightarrow> False)"

fun typed_rule :: "rule_env \<Rightarrow> expression \<Rightarrow> bool" where
  "typed_rule env (All_of es) \<longleftrightarrow> list_all (typed_rule env) es"
| "typed_rule env (Any_of es) \<longleftrightarrow> list_all (typed_rule env) es"
| "typed_rule env (Leaf op m) \<longleftrightarrow> typed_leaf env op m"

definition typed_row :: "sql_row \<Rightarrow> bool" where
  "typed_row r \<longleftrightarrow>
     list_all (\<lambda>(n, f). sf_coalesceDefault f \<noteq> None \<longrightarrow> (case sr_col r (sf_expr f) of SText _ \<Rightarrow> False | _ \<Rightarrow> True))
       smartPlaylistFields"

lemma annotation_defaults:
  "list_all (\<lambda>(n, f). (sf_coalesceDefault f = None \<or> sf_coalesceDefault f = Some (JBool False) \<or>
                     sf_coalesceDefault f = Some (JNum True 0) ) \<and> (sf_expr f \<noteq> [] \<or> n = ''random'')) smartPlaylistFields"
  by code_simp

lemma annotationFieldD:
  assumes "annotationField info = Some (c, d)"
  shows "d = JBool False \<or> d = JNum True 0" "typed_row r \<Longrightarrow> sr_col r c = SNull \<or> (\<exists>a. sr_col r c = SNum a)"
proof -
  obtain f where f: "map_of smartPlaylistFields (fi_name info) = Some f" "sf_coalesceDefault f = Some d" "sf_expr f = c"
    using assms by (auto simp: annotationField_def split: option.splits)
  then have m: "(fi_name info, f) \<in> set smartPlaylistFields" using map_of_SomeD by fast
  show "d = JBool False \<or> d = JNum True 0"
    using annotation_defaults m f(2) unfolding list_all_iff by fastforce
  assume "typed_row r"
  then have "case sr_col r (sf_expr f) of SText _ \<Rightarrow> False | _ \<Rightarrow> True"
    using m f(2) unfolding typed_row_def list_all_iff by fastforce
  then show "sr_col r c = SNull \<or> (\<exists>a. sr_col r c = SNum a)"
    using f(3) by (auto split: sqlval.splits)
qed

lemma compare_num:
  assumes "sqlite_ok q" "numeric_value v"
  shows "compare_holds q c x (SNum a) v = compare_holds q c y (SNum a) v"
proof -
  have n: "sq_compare q x c' (SNum a) (SNum b) = sq_compare q y c' (SNum a) (SNum b)" for c' b
    using assms(1) by (simp add: sqlite_ok_def)
  then have "sq_compare q x c' (SNum a) (bind w) = sq_compare q y c' (SNum a) (bind w)" if "numeric_scalar w" for w c'
    using that by (cases w) auto
  then show ?thesis
    using assms(2) n by (auto simp: compare_holds_def numeric_value_def list_ex_iff list_all_iff split: json.splits)
qed

lemma annotationCond_holds:
  assumes q: "sqlite_ok q" and a: "annotationField info = Some (c, d)" and r: "typed_row r" and v: "numeric_value v"
  shows "holds q db r cur (annotationCond env (c, d) cm v) \<longleftrightarrow>
         compare_holds q cm (Column c) (if sr_col r c = SNull then bind d else sr_col r c) v"
proof (cases "bareNullInclusion env d cm v")
  case None
  obtain b where b: "(if sr_col r c = SNull then bind d else sr_col r c) = SNum b"
    using annotationFieldD(1) [OF a] annotationFieldD(2) [OF a r] by auto
  then show ?thesis
    using None compare_num [OF q v] by (simp add: annotationCond_def operand_val_def)
next
  case (Some w)
  have s: "numeric_scalar v"
    using Some v annotationFieldD(1) [OF a]
    by (cases v) (auto simp: bareNullInclusion_def toFloat_def ToBool_def numeric_value_def split: if_splits option.splits)
  have n: "compare_holds q c' x SNull v \<longleftrightarrow> False" for c' x
    using q s by (cases v) (auto simp: compare_holds_def sqlite_ok_def)
  have d: "compare_holds q cm (Column c) (bind d) v \<longleftrightarrow> w"
    using Some annotationFieldD(1) [OF a] q s
    by (cases v) (auto simp: bareNullInclusion_def toFloat_def ToBool_def compare_holds_def sqlite_ok_def boolToFloat_def
        split: if_splits option.splits)
  show ?thesis
    using Some n d by (auto simp: annotationCond_def operand_val_def compare_holds_def [of _ cmpEq _ _ JNull])
qed

lemma sqlFields_single:
  "sqlFields fm [(f, v)] = map_sum id (\<lambda>x. [x]) (sqlField fm (f, v))"
  by (cases "sqlField fm (f, v)") (auto simp: sqlFields_def)

lemma sqlField_value:
  assumes "sqlField fm (f, v) = Inr x" "LookupField fm f = Some info" "annotationField info = None"
  shows "x = (field_column info, v)" "operand_val r cur (field_column info) = field_value r info"
  using assms by (auto simp: sqlField_def field_column_def field_value_def operand_val_def split: if_splits option.splits)

lemma jsonExpr_holds:
  "fi_IsTag info \<or> fi_IsRole info \<Longrightarrow>
     holds q db r cur (jsonExpr info (Some c) neg) \<longleftrightarrow> list_ex (\<lambda>x. holds q db r x c) (multi_values q r info) \<noteq> neg"
  "fi_IsTag info \<or> fi_IsRole info \<Longrightarrow> holds q db r cur (jsonExpr info None neg) \<longleftrightarrow> (multi_values q r info \<noteq> []) \<noteq> neg"
  by (auto simp: jsonExpr_def multi_values_def tag_values_def)

text \<open>What holds of every operator on one field.\<close>

lemma comparisonExpr_holds:
  assumes "sqlite_ok q" "typed_row r" "LookupField (re_fields env) f = Some info"
    and "comparisonExpr env [(f, v)] c = Inr cd"
    and "fi_IsTag info \<or> fi_IsRole info \<or> annotationField info = None \<or> numeric_value v"
  shows "holds q db r cur cd \<longleftrightarrow>
    (if fi_IsTag info \<or> fi_IsRole info then list_ex (\<lambda>x. compare_holds q c Value x v) (multi_values q r info)
     else compare_holds q c (field_column info) (field_value r info) v)"
proof (cases "fi_IsTag info \<or> fi_IsRole info")
  case True
  then have "cd = jsonExpr info (Some (Compare c [(Value, v)])) False"
    using assms(3,4) by (simp add: comparisonExpr_def singleField_def)
  then show ?thesis using jsonExpr_holds(1) [OF True] True by (simp add: operand_val_def)
next
  case False
  show ?thesis
  proof (cases "annotationField info")
    case None
    then obtain x where x: "sqlField (re_fields env) (f, v) = Inr x" "cd = Compare c [x]"
      using assms(3,4) False by (auto simp: comparisonExpr_def singleField_def sqlFields_single map_sum_Inr)
    then show ?thesis using sqlField_value [OF x(1) assms(3) None] False by simp
  next
    case (Some cdef)
    obtain col d where cdef: "cdef = (col, d)" by (cases cdef)
    have "cd = annotationCond env (col, d) c v"
      using assms(3,4) False Some by (simp add: comparisonExpr_def singleField_def cdef)
    then show ?thesis
      using annotationCond_holds [OF assms(1) Some [unfolded cdef] assms(2)] assms(5) False Some
      by (simp add: cdef field_column_def field_value_def)
  qed
qed

lemma likeExpr_holds:
  assumes "LookupField (re_fields env) f = Some info" "likeExpr env [(f, v)] p neg = Inr cd"
  shows "holds q db r cur cd \<longleftrightarrow>
    (if fi_IsTag info \<or> fi_IsRole info
     then list_ex (\<lambda>x. like_holds q False x (like_text p (Sprintf_v env v))) (multi_values q r info) \<noteq> neg
     else like_holds q neg (field_value r info) (like_text p (Sprintf_v env v)))"
proof (cases "fi_IsTag info \<or> fi_IsRole info")
  case True
  then have "cd = jsonExpr info (Some (Like False [(Value, like_text p (Sprintf_v env v))])) neg"
    using assms by (simp add: likeExpr_def singleField_def)
  then show ?thesis using jsonExpr_holds(1) [OF True] True by (simp add: operand_val_def)
next
  case False
  show ?thesis
  proof (cases "annotationField info")
    case None
    then obtain x where x: "sqlField (re_fields env) (f, v) = Inr x" "cd = Like neg [(fst x, like_text p (Sprintf_v env (snd x)))]"
      using assms False by (auto simp: likeExpr_def singleField_def sqlFields_single map_sum_Inr split_def)
    then show ?thesis using sqlField_value [OF x(1) assms(1) None] False by simp
  next
    case (Some cdef)
    then have "cd = Like neg [(Coalesce (fst cdef) (snd cdef), like_text p (Sprintf_v env v))]"
      using assms False by (simp add: likeExpr_def singleField_def)
    then show ?thesis using Some False by (simp add: operand_val_def field_value_def split_def)
  qed
qed

lemma missingExpr_holds:
  assumes "sqlite_ok q" "LookupField (re_fields env) f = Some info" "missingExpr env [(f, v)] absent = Inr cd"
  shows "holds q db r cur cd \<longleftrightarrow>
    ((if fi_IsTag info \<or> fi_IsRole info then multi_values q r info = [] else is_missing q r info) = (absent = (v = JBool True)))"
proof -
  obtain b where v: "v = JBool b" using assms(2,3) by (cases v) (auto simp: missingExpr_def singleField_def)
  show ?thesis
  proof (cases "fi_IsTag info \<or> fi_IsRole info")
    case True
    then have "cd = jsonExpr info None (absent = b)" using assms(2,3) by (simp add: missingExpr_def singleField_def v Let_def)
    then show ?thesis using jsonExpr_holds(2) [OF True] True v by auto
  next
    case False
    obtain sf where sf: "map_of smartPlaylistFields (fi_name info) = Some sf"
      using assms(2,3) False by (auto simp: missingExpr_def singleField_def v Let_def split: if_splits option.splits)
    define empties where "empties = (if \<not> fi_Numeric info \<and> \<not> fi_Boolean info then [] # sf_emptyValues sf else [])"
    define col where "col = Column (sf_expr sf)"
    define a where "a = sr_col r (sf_expr sf)"
    have cd: "cd = (if absent = b then COr (Compare cmpEq [(col, JNull)] # map (\<lambda>e. Compare cmpEq [(col, JStr e)]) empties)
              else CAnd (Compare cmpNe [(col, JNull)] # map (\<lambda>e. Compare cmpNe [(col, JStr e)]) empties))"
      using assms(2,3) False by (auto simp: missingExpr_def singleField_def v Let_def sf empties_def col_def split: if_splits)
    have ov: "operand_val r cur col = a" by (simp add: operand_val_def col_def a_def)
    have m: "is_missing q r info \<longleftrightarrow> a = SNull \<or> (\<exists>e\<in>set empties. sq_compare q col cmpEq a (SText e))"
      by (auto simp: is_missing_def sf empties_def col_def a_def Let_def list_ex_iff)
    have ne: "a \<noteq> SNull \<Longrightarrow> sq_compare q col cmpNe a (SText e) \<longleftrightarrow> \<not> sq_compare q col cmpEq a (SText e)" for e
      using assms(1) by (simp add: sqlite_ok_def)
    show ?thesis
      using False unfolding cd m v
      by (auto simp: compare_holds_def ov list_ex_iff list_all_iff ne)
  qed
qed

lemma rangeExpr_holds:
  assumes "sqlite_ok q" "typed_row r" "LookupField (re_fields env) f = Some info" "rangeExpr env [(f, v)] = Inr cd"
    and "annotationField info = None \<or> numeric_value v"
  shows "\<not> (fi_IsTag info \<or> fi_IsRole info)"
    "holds q db r cur cd \<longleftrightarrow> value_matches env q InTheRange (field_column info) v (field_value r info)"
proof -
  obtain lo hi where v: "v = JArr [lo, hi]" and nt: "\<not> (fi_IsTag info \<or> fi_IsRole info)"
    using assms(3,4) by (auto simp: rangeExpr_def singleField_def split: json.splits list.splits if_splits)
  then show "\<not> (fi_IsTag info \<or> fi_IsRole info)" by simp
  obtain l h where lh: "comparisonExpr env [(f, lo)] cmpGe = Inr l" "comparisonExpr env [(f, hi)] cmpLe = Inr h" "cd = CAnd [l, h]"
    using assms(3,4) nt v by (auto simp: rangeExpr_def singleField_def split: sum.splits)
  have n: "annotationField info = None \<or> numeric_value lo" "annotationField info = None \<or> numeric_value hi"
    using assms(5) v by (auto simp: numeric_value_def split: json.splits)
  show "holds q db r cur cd \<longleftrightarrow> value_matches env q InTheRange (field_column info) v (field_value r info)"
    using comparisonExpr_holds [OF assms(1-3) lh(1)] comparisonExpr_holds [OF assms(1-3) lh(2)] n nt lh(3)
    by (simp add: value_matches_def v)
qed

lemma periodExpr_holds:
  assumes "LookupField (re_fields env) f = Some info" "periodExpr env [(f, v)] neg = Inr cd" "annotationField info = None"
  shows "\<not> (fi_IsTag info \<or> fi_IsRole info)"
    "holds q db r cur cd \<longleftrightarrow> value_matches env q (if neg then NotInTheLast else InTheLast) (field_column info) v (field_value r info)"
proof -
  obtain x where x: "sqlField (re_fields env) (f, v) = Inr x"
    using assms(2) by (cases "sqlField (re_fields env) (f, v)") (auto simp: periodExpr_def sqlFields_single)
  then show "\<not> (fi_IsTag info \<or> fi_IsRole info)" using assms(1) by (auto simp: sqlField_def)
  note xv = sqlField_value [OF x assms(1,3)]
  show "holds q db r cur cd \<longleftrightarrow> value_matches env q (if neg then NotInTheLast else InTheLast) (field_column info) v (field_value r info)"
    using assms(2) xv
    by (auto simp: periodExpr_def sqlFields_single x value_matches_def compare_holds_def [of _ cmpEq _ _ JNull] Let_def split: option.splits)
qed

lemma leafSQL_known:
  assumes "leafSQL env op [(f, v)] = Inr cd" "op \<noteq> InPlaylist" "op \<noteq> NotInPlaylist"
  shows "\<exists>info. LookupField (re_fields env) f = Some info"
proof (rule ccontr)
  assume "\<nexists>info. LookupField (re_fields env) f = Some info"
  then have n: "LookupField (re_fields env) f = None" by (cases "LookupField (re_fields env) f") auto
  then have s: "sqlFields (re_fields env) [(f, v)] = Inl (InvalidField f)" by (simp add: sqlFields_single sqlField_def)
  show False
    using assms n s
    by (cases op) (simp_all add: leafSQL_def comparisonExpr_def isNotExpr_def likeExpr_def rangeExpr_def periodExpr_def
        missingExpr_def singleField_def)
qed

lemma inList_holds:
  "inList env m neg = Inr cd \<Longrightarrow>
     \<exists>sel. playlist_named env m = Some sel \<and> (holds q db r cur cd \<longleftrightarrow> in_select db sel (owner_visibility env) (sr_id r) \<noteq> neg)"
  by (auto simp: inList_def playlist_named_def split: option.splits)

lemma isNotExpr_holds:
  assumes "sqlite_ok q" "typed_row r" "LookupField (re_fields env) f = Some info" "isNotExpr env [(f, v)] = Inr cd"
    and "fi_IsTag info \<or> fi_IsRole info \<or> annotationField info = None \<or> numeric_value v"
  shows "holds q db r cur cd \<longleftrightarrow>
    (if fi_IsTag info \<or> fi_IsRole info then \<not> list_ex (\<lambda>x. compare_holds q cmpEq Value x v) (multi_values q r info)
     else compare_holds q cmpNe (field_column info) (field_value r info) v)"
proof (cases "fi_IsTag info \<or> fi_IsRole info")
  case True
  then have "cd = jsonExpr info (Some (Compare cmpEq [(Value, v)])) True"
    using assms(3,4) by (simp add: isNotExpr_def singleField_def)
  then show ?thesis using jsonExpr_holds(1) [OF True] True by (simp add: operand_val_def)
next
  case False
  then have "comparisonExpr env [(f, v)] cmpNe = Inr cd" using assms(3,4) by (simp add: isNotExpr_def singleField_def)
  from comparisonExpr_holds [OF assms(1-3) this assms(5)] False show ?thesis by simp
qed

lemma value_matches_ops:
  "value_matches env q Is x v = (\<lambda>a. compare_holds q cmpEq x a v)"
  "value_matches env q IsNot x v = (\<lambda>a. compare_holds q cmpNe x a v)"
  "value_matches env q Gt x v = (\<lambda>a. compare_holds q cmpGt x a v)"
  "value_matches env q Lt x v = (\<lambda>a. compare_holds q cmpLt x a v)"
  "value_matches env q Before x v = (\<lambda>a. compare_holds q cmpLt x a v)"
  "value_matches env q After x v = (\<lambda>a. compare_holds q cmpGt x a v)"
  "value_matches env q Contains x v = (\<lambda>a. like_holds q False a (like_text Anywhere (Sprintf_v env v)))"
  "value_matches env q NotContains x v = (\<lambda>a. like_holds q True a (like_text Anywhere (Sprintf_v env v)))"
  "value_matches env q StartsWith x v = (\<lambda>a. like_holds q False a (like_text AtStart (Sprintf_v env v)))"
  "value_matches env q EndsWith x v = (\<lambda>a. like_holds q False a (like_text AtEnd (Sprintf_v env v)))"
  by (simp_all add: value_matches_def [abs_def])

lemma leafSQL_holds:
  assumes q: "sqlite_ok q" and r: "typed_row r" and t: "typed_leaf env op m" and l: "leafSQL env op m = Inr cd"
  shows "holds q db r cur cd \<longleftrightarrow> leaf_matches env q db r op m"
proof (cases "op = InPlaylist \<or> op = NotInPlaylist")
  case True
  then have "inList env m (op = NotInPlaylist) = Inr cd" using l by (auto simp: leafSQL_def)
  from inList_holds [OF this, of q db r cur] True show ?thesis by (auto simp: leaf_matches_def)
next
  case False
  then obtain f v where m: "m = [(f, v)]" using t by (cases m rule: remdups_adj.cases) (auto simp: typed_leaf_def)
  obtain info where i: "LookupField (re_fields env) f = Some info" using leafSQL_known [OF l [unfolded m]] False by blast
  have t1: "fi_IsTag info \<or> fi_IsRole info \<or> annotationField info = None \<or> numeric_value v"
    if "op \<notin> {Contains, NotContains, StartsWith, EndsWith}"
    using t False that by (auto simp: typed_leaf_def m i)
  have t2: "fi_IsTag info \<or> fi_IsRole info \<or> annotationField info = None" if "op = InTheLast \<or> op = NotInTheLast"
    using t that by (auto simp: typed_leaf_def m i)
  note cmp = comparisonExpr_holds [OF q r i, of v _ cd db cur]
  note like = likeExpr_holds [OF i, of v _ _ cd q db r cur]
  note mm = missingExpr_holds [OF q i, of v _ cd db r cur]
  have lm: "leaf_matches env q db r op [(f, v)] = field_matches env q r op f v" using False by (simp add: leaf_matches_def)
  note defs = m lm [unfolded field_matches_def i] multi_matches_def
  note lsql = l [unfolded m leafSQL_def]
  show ?thesis
  proof (cases op)
    case Is then show ?thesis using cmp lsql t1 unfolding defs by (simp add: value_matches_ops)
  next
    case IsNot then show ?thesis using isNotExpr_holds [OF q r i, of v cd db cur] lsql t1 unfolding defs by (simp add: value_matches_ops)
  next
    case Gt then show ?thesis using cmp lsql t1 unfolding defs by (simp add: value_matches_ops)
  next
    case Lt then show ?thesis using cmp lsql t1 unfolding defs by (simp add: value_matches_ops)
  next
    case Before then show ?thesis using cmp lsql t1 unfolding defs by (simp add: value_matches_ops)
  next
    case After then show ?thesis using cmp lsql t1 unfolding defs by (simp add: value_matches_ops)
  next
    case Contains then show ?thesis using like lsql unfolding defs by (simp add: value_matches_ops)
  next
    case NotContains then show ?thesis using like lsql unfolding defs by (simp add: value_matches_ops)
  next
    case StartsWith then show ?thesis using like lsql unfolding defs by (simp add: value_matches_ops)
  next
    case EndsWith then show ?thesis using like lsql unfolding defs by (simp add: value_matches_ops)
  next
    case InTheRange
    then have p: "rangeExpr env [(f, v)] = Inr cd" using lsql by simp
    then have nt: "\<not> (fi_IsTag info \<or> fi_IsRole info)" by (auto simp: rangeExpr_def singleField_def i split: if_splits)
    then show ?thesis
      using rangeExpr_holds(2) [OF q r i p, of db cur] t1 InTheRange unfolding defs by auto
  next
    case InTheLast
    then have p: "periodExpr env [(f, v)] False = Inr cd" using lsql by simp
    then have "\<not> (fi_IsTag info \<or> fi_IsRole info)" using i by (auto simp: periodExpr_def sqlFields_single sqlField_def)
    then show ?thesis
      using periodExpr_holds(2) [OF i p, of q db r cur] t2 InTheLast unfolding defs by auto
  next
    case NotInTheLast
    then have p: "periodExpr env [(f, v)] True = Inr cd" using lsql by simp
    then have "\<not> (fi_IsTag info \<or> fi_IsRole info)" using i by (auto simp: periodExpr_def sqlFields_single sqlField_def)
    then show ?thesis
      using periodExpr_holds(2) [OF i p, of q db r cur] t2 NotInTheLast unfolding defs by auto
  next
    case IsMissing then show ?thesis using mm lsql unfolding defs by auto
  next
    case IsPresent then show ?thesis using mm lsql unfolding defs by auto
  qed (use False in auto)
qed

text \<open>Fields with one name agree on being numeric, so that the conditions on a tag do.\<close>

definition fields_consistent :: "field_map \<Rightarrow> bool" where
  "fields_consistent fm \<longleftrightarrow>
     (\<forall>n1 i1 n2 i2. LookupField fm n1 = Some i1 \<longrightarrow> LookupField fm n2 = Some i2 \<longrightarrow> fi_name i1 = fi_name i2 \<longrightarrow>
        fi_Numeric i1 = fi_Numeric i2)"

definition from_field :: "field_map \<Rightarrow> cond \<Rightarrow> bool" where
  "from_field fm c \<longleftrightarrow>
     (\<forall>t num o' neg. c = tagCond t num o' neg \<longrightarrow> (\<exists>n info. LookupField fm n = Some info \<and> fi_name info = t \<and> fi_Numeric info = num))"

lemma jsonExpr_from_field: "LookupField fm n = Some info \<Longrightarrow> from_field fm (jsonExpr info c neg)"
  by (auto simp: jsonExpr_def from_field_def)

lemma not_tag_from_field [simp]:
  "from_field fm (Compare c xs)" "from_field fm (Like b ys)" "from_field fm (CAnd cs)" "from_field fm (COr cs)"
  "from_field fm (InSelect b sel vis)"
  by (auto simp: from_field_def)

lemma annotationCond_from_field [simp]: "from_field fm (annotationCond env f c v)"
  by (auto simp: annotationCond_def Let_def split: option.splits)

lemma singleField_lookup: "singleField fm m = Some (f, v, info) \<Longrightarrow> LookupField fm f = Some info"
  by (auto simp: singleField_def split: list.splits option.splits)

lemma comparisonExpr_from_field: "comparisonExpr env m c = Inr cd \<Longrightarrow> from_field (re_fields env) cd"
  by (auto simp: comparisonExpr_def map_sum_Inr Let_def dest!: singleField_lookup intro: jsonExpr_from_field
      split: option.splits if_splits)

lemma leafSQL_from_field:
  assumes "leafSQL env op m = Inr cd"
  shows "from_field (re_fields env) cd"
proof -
  have c: "comparisonExpr env m c = Inr cd \<Longrightarrow> ?thesis" for c by (rule comparisonExpr_from_field)
  have n: "isNotExpr env m = Inr cd \<Longrightarrow> ?thesis"
    by (auto simp: isNotExpr_def dest!: singleField_lookup intro: jsonExpr_from_field comparisonExpr_from_field split: option.splits if_splits)
  have l: "likeExpr env m p neg = Inr cd \<Longrightarrow> ?thesis" for p neg
    by (auto simp: likeExpr_def map_sum_Inr Let_def dest!: singleField_lookup intro: jsonExpr_from_field split: option.splits if_splits)
  have r: "rangeExpr env m = Inr cd \<Longrightarrow> ?thesis"
    by (auto simp: rangeExpr_def split: option.splits if_splits json.splits list.splits sum.splits)
  have p: "periodExpr env m neg = Inr cd \<Longrightarrow> ?thesis" for neg
    by (auto simp: periodExpr_def Let_def split: option.splits if_splits sum.splits list.splits)
  have i: "inList env m neg = Inr cd \<Longrightarrow> ?thesis" for neg
    by (auto simp: inList_def split: option.splits)
  have mi: "missingExpr env m b = Inr cd \<Longrightarrow> ?thesis" for b
    by (auto simp: missingExpr_def Let_def dest!: singleField_lookup intro: jsonExpr_from_field split: option.splits if_splits json.splits list.splits)
  show ?thesis
    using assms c n l r p i mi by (cases op) (simp_all add: leafSQL_def)
qed

lemma exprSQL_from_field: "exprSQL env e = Inr c \<Longrightarrow> from_field (re_fields env) c"
  by (cases e) (auto simp: map_sum_Inr mergeJsonConds_def mergeNegatedJsonConds_def leafSQL_from_field)

lemma from_fields_same_numeric:
  assumes "fields_consistent fm" "\<And>c. c \<in> set cs \<Longrightarrow> from_field fm c"
  shows "same_numeric cs"
  unfolding same_numeric_def
proof (intro allI impI)
  fix t n1 o1 b1 n2 o2 b2
  assume "tagCond t n1 o1 b1 \<in> set cs" "tagCond t n2 o2 b2 \<in> set cs"
  then have "from_field fm (tagCond t n1 o1 b1)" "from_field fm (tagCond t n2 o2 b2)" using assms(2) by auto
  then obtain m1 i1 m2 i2 where "LookupField fm m1 = Some i1" "fi_name i1 = t" "fi_Numeric i1 = n1"
    "LookupField fm m2 = Some i2" "fi_name i2 = t" "fi_Numeric i2 = n2"
    by (auto simp: from_field_def)
  then show "n1 = n2" using assms(1) [unfolded fields_consistent_def, rule_format, of m1 i1 m2 i2] by simp
qed

lemma sequence_nth:
  "sequence (map g es) = Inr cs \<Longrightarrow> length cs = length es \<and> (\<forall>i<length es. g (es ! i) = Inr (cs ! i))"
  unfolding sequence_Inr by (metis length_map nth_map)

lemma exprSQL_holds:
  assumes q: "sqlite_ok q" and r: "typed_row r" and fm: "fields_consistent (re_fields env)"
  shows "typed_rule env e \<Longrightarrow> exprSQL env e = Inr c \<Longrightarrow> holds q db r cur c \<longleftrightarrow> rule_matches env q db r e"
proof (induction e arbitrary: c)
  case (All_of es)
  then obtain cs where cs: "sequence (map (exprSQL env) es) = Inr cs" "c = mergeNegatedJsonConds cs"
    by (auto simp: map_sum_Inr)
  note el = sequence_nth [OF cs(1)]
  have "same_numeric cs"
    using exprSQL_from_field el by (intro from_fields_same_numeric [OF fm]) (metis in_set_conv_nth)
  moreover have "holds q db r cur (cs ! i) \<longleftrightarrow> rule_matches env q db r (es ! i)" if "i < length es" for i
    using All_of.IH [of "es ! i" "cs ! i"] All_of.prems(1) el that by (auto simp: list_all_length)
  ultimately show ?case using merge_and [of cs q db r cur] cs(2) el by (simp add: list_all_length)
next
  case (Any_of es)
  then obtain cs where cs: "sequence (map (exprSQL env) es) = Inr cs" "c = mergeJsonConds cs"
    by (auto simp: map_sum_Inr)
  note el = sequence_nth [OF cs(1)]
  have "same_numeric cs"
    using exprSQL_from_field el by (intro from_fields_same_numeric [OF fm]) (metis in_set_conv_nth)
  moreover have "holds q db r cur (cs ! i) \<longleftrightarrow> rule_matches env q db r (es ! i)" if "i < length es" for i
    using Any_of.IH [of "es ! i" "cs ! i"] Any_of.prems(1) el that by (auto simp: list_all_length)
  ultimately show ?case using merge_or [of cs q db r cur] cs(2) el by (auto simp: list_ex_length)
next
  case (Leaf op m)
  then show ?case using leafSQL_holds [OF q r] by simp
qed

section \<open>Which rules are refused\<close>

text \<open>A field with a column of its own.\<close>

definition plain_field :: "field_map \<Rightarrow> string \<Rightarrow> bool" where
  "plain_field fm f \<longleftrightarrow>
     (case LookupField fm f of
        None \<Rightarrow> False
      | Some info \<Rightarrow>
          \<not> fi_IsTag info \<and> \<not> fi_IsRole info \<and> (case fieldExpr (fi_name info) of None \<Rightarrow> False | Some c \<Rightarrow> c \<noteq> []))"

definition multi_field :: "field_map \<Rightarrow> string \<Rightarrow> bool" where
  "multi_field fm f \<longleftrightarrow> (case LookupField fm f of None \<Rightarrow> False | Some info \<Rightarrow> fi_IsTag info \<or> fi_IsRole info)"

definition nullable_field :: "field_map \<Rightarrow> string \<Rightarrow> bool" where
  "nullable_field fm f \<longleftrightarrow>
     (case LookupField fm f of
        None \<Rightarrow> False
      | Some info \<Rightarrow>
          fi_Nullable info \<and> (case map_of smartPlaylistFields (fi_name info) of None \<Rightarrow> False | Some sf \<Rightarrow> sf_expr sf \<noteq> []))"

definition valid_leaf :: "rule_env \<Rightarrow> leaf_op \<Rightarrow> (string \<times> json) list \<Rightarrow> bool" where
  "valid_leaf env op m \<longleftrightarrow>
     (let fm = re_fields env;
          columns = list_all (\<lambda>(f, v). plain_field fm f) m;
          one_multi = (case m of [(f, v)] \<Rightarrow> multi_field fm f | _ \<Rightarrow> False)
      in if op = InPlaylist \<or> op = NotInPlaylist then playlist_named env m \<noteq> None
         else if op = IsMissing \<or> op = IsPresent
         then (case m of [(f, JBool b)] \<Rightarrow> multi_field fm f \<or> nullable_field fm f | _ \<Rightarrow> False)
         else if op = InTheRange then (case m of [(f, JArr [lo, hi])] \<Rightarrow> plain_field fm f | _ \<Rightarrow> False)
         else if op = InTheLast \<or> op = NotInTheLast
         then columns \<and> Atoi (Sprintf_v env (case sqlFields fm m of Inr (x # _) \<Rightarrow> snd x | _ \<Rightarrow> JNull)) \<noteq> None
         else columns \<or> one_multi)"

fun valid_rule :: "rule_env \<Rightarrow> expression \<Rightarrow> bool" where
  "valid_rule env (All_of es) \<longleftrightarrow> list_all (valid_rule env) es"
| "valid_rule env (Any_of es) \<longleftrightarrow> list_all (valid_rule env) es"
| "valid_rule env (Leaf op m) \<longleftrightarrow> valid_leaf env op m"

lemma field_tables_lower: "list_all (\<lambda>(n, f). ToLower n = n) smartPlaylistFields"
  by code_simp

lemma sqlField_ok: "(\<exists>x. sqlField fm fv = Inr x) \<longleftrightarrow> plain_field fm (fst fv)"
  by (auto simp: sqlField_def plain_field_def split: option.splits)

lemma sequence_ok: "(\<exists>xs. sequence rs = Inr xs) \<longleftrightarrow> (\<forall>r\<in>set rs. \<exists>x. r = Inr x)"
  by (induction rs rule: sequence.induct) (auto split: sum.splits)

lemma sqlFields_ok: "(\<exists>xs. sqlFields fm m = Inr xs) \<longleftrightarrow> list_all (\<lambda>(f, v). plain_field fm f) m"
proof -
  have "(\<exists>xs. sqlFields fm m = Inr xs) \<longleftrightarrow> (\<exists>xs. sequence (map (sqlField fm) m) = Inr xs)"
    by (auto simp: sqlFields_def map_sum_Inr)
  also have "\<dots> \<longleftrightarrow> (\<forall>fv\<in>set m. plain_field fm (fst fv))"
    unfolding sequence_ok by (simp only: set_map ball_simps sqlField_ok)
  finally show ?thesis by (auto simp: list_all_iff)
qed

lemma annotation_plain:
  assumes "LookupField fm f = Some info" "annotationField info = Some x" "\<not> fi_IsTag info" "\<not> fi_IsRole info"
  shows "plain_field fm f"
proof -
  obtain sf where sf: "map_of smartPlaylistFields (fi_name info) = Some sf" "sf_coalesceDefault sf \<noteq> None"
    using assms(2) by (auto simp: annotationField_def split: option.splits)
  then have m: "(fi_name info, sf) \<in> set smartPlaylistFields" using map_of_SomeD by fast
  then have "ToLower (fi_name info) = fi_name info" using field_tables_lower unfolding list_all_iff by fastforce
  moreover have "sf_expr sf \<noteq> []"
  proof -
    have "list_all (\<lambda>(n, f). sf_coalesceDefault f \<noteq> None \<longrightarrow> sf_expr f \<noteq> []) smartPlaylistFields" by code_simp
    with m sf(2) show ?thesis unfolding list_all_iff by fastforce
  qed
  ultimately show ?thesis using assms sf(1) by (simp add: plain_field_def fieldExpr_def)
qed

lemma ok_map_sum: "(\<exists>y. map_sum id g r = Inr y) \<longleftrightarrow> (\<exists>x. r = Inr x)"
  by (cases r) auto

definition one_multi :: "field_map \<Rightarrow> (string \<times> json) list \<Rightarrow> bool" where
  "one_multi fm m \<longleftrightarrow> (case m of [(f, v)] \<Rightarrow> multi_field fm f | _ \<Rightarrow> False)"

lemma singleField_cases:
  "singleField fm m = None \<Longrightarrow> \<not> one_multi fm m"
  "singleField fm m = Some (f, v, info) \<Longrightarrow> m = [(f, v)] \<and> LookupField fm f = Some info \<and> (one_multi fm m \<longleftrightarrow> fi_IsTag info \<or> fi_IsRole info)"
  by (auto simp: singleField_def one_multi_def multi_field_def split: list.splits option.splits)

lemma comparisonExpr_ok:
  "(\<exists>c. comparisonExpr env m cm = Inr c) \<longleftrightarrow> list_all (\<lambda>(f, v). plain_field (re_fields env) f) m \<or> one_multi (re_fields env) m"
proof (cases "singleField (re_fields env) m")
  case None
  then show ?thesis using singleField_cases(1) [OF None] by (simp add: comparisonExpr_def ok_map_sum sqlFields_ok)
next
  case (Some s)
  obtain f v info where s: "s = (f, v, info)" by (cases s)
  note c = singleField_cases(2) [OF Some [unfolded s]]
  then show ?thesis
    using Some annotation_plain [of "re_fields env" f info]
    by (auto simp: s comparisonExpr_def ok_map_sum sqlFields_ok split: option.splits)
qed

lemma likeExpr_ok:
  "(\<exists>c. likeExpr env m p neg = Inr c) \<longleftrightarrow> list_all (\<lambda>(f, v). plain_field (re_fields env) f) m \<or> one_multi (re_fields env) m"
proof (cases "singleField (re_fields env) m")
  case None
  then show ?thesis using singleField_cases(1) [OF None] by (simp add: likeExpr_def ok_map_sum sqlFields_ok)
next
  case (Some s)
  obtain f v info where s: "s = (f, v, info)" by (cases s)
  note c = singleField_cases(2) [OF Some [unfolded s]]
  then show ?thesis
    using Some annotation_plain [of "re_fields env" f info]
    by (auto simp: s likeExpr_def ok_map_sum sqlFields_ok split: option.splits)
qed

lemma isNotExpr_ok:
  "(\<exists>c. isNotExpr env m = Inr c) \<longleftrightarrow> list_all (\<lambda>(f, v). plain_field (re_fields env) f) m \<or> one_multi (re_fields env) m"
proof (cases "one_multi (re_fields env) m")
  case True
  then obtain f v info where s: "singleField (re_fields env) m = Some (f, v, info)"
    using singleField_cases(1) by (cases "singleField (re_fields env) m") auto
  then show ?thesis using singleField_cases(2) [OF s] True by (auto simp: isNotExpr_def)
next
  case False
  then have "isNotExpr env m = comparisonExpr env m cmpNe"
    using singleField_cases(2) by (fastforce simp: isNotExpr_def split: option.splits)
  then show ?thesis using comparisonExpr_ok by simp
qed

lemma rangeExpr_ok:
  "(\<exists>c. rangeExpr env m = Inr c) \<longleftrightarrow> (case m of [(f, JArr [lo, hi])] \<Rightarrow> plain_field (re_fields env) f | _ \<Rightarrow> False)"
proof (cases "singleField (re_fields env) m")
  case None
  then have "\<not> plain_field (re_fields env) f" if "m = [(f, v)]" for f v
    using that by (auto simp: singleField_def plain_field_def split: option.splits)
  then show ?thesis using None by (auto simp: rangeExpr_def split: list.splits json.splits)
next
  case (Some s)
  obtain f v info where s: "s = (f, v, info)" by (cases s)
  note c = singleField_cases(2) [OF Some [unfolded s]]
  have nm: "plain_field (re_fields env) f \<Longrightarrow> \<not> (fi_IsTag info \<or> fi_IsRole info)" using c by (auto simp: plain_field_def)
  have om: "one_multi (re_fields env) [(f, w)] \<longleftrightarrow> fi_IsTag info \<or> fi_IsRole info" for w
    using c by (simp add: one_multi_def multi_field_def)
  show ?thesis
    using c Some nm comparisonExpr_ok [of env "[(f, _)]"]
    by (auto simp: s rangeExpr_def om split: list.splits json.splits sum.splits) (metis sum.distinct(1))+
qed

lemma periodExpr_ok:
  "(\<exists>c. periodExpr env m neg = Inr c) \<longleftrightarrow>
     list_all (\<lambda>(f, v). plain_field (re_fields env) f) m \<and>
     Atoi (Sprintf_v env (case sqlFields (re_fields env) m of Inr (x # _) \<Rightarrow> snd x | _ \<Rightarrow> JNull)) \<noteq> None"
  unfolding sqlFields_ok [symmetric]
  by (auto simp: periodExpr_def Let_def split: sum.splits list.splits option.splits)

lemma inList_ok: "(\<exists>c. inList env m neg = Inr c) \<longleftrightarrow> playlist_named env m \<noteq> None"
  by (auto simp: inList_def playlist_named_def split: option.splits)

lemma missingExpr_ok:
  "(\<exists>c. missingExpr env m b = Inr c) \<longleftrightarrow>
     (case m of [(f, JBool b)] \<Rightarrow> multi_field (re_fields env) f \<or> nullable_field (re_fields env) f | _ \<Rightarrow> False)"
  by (auto simp: missingExpr_def singleField_def multi_field_def nullable_field_def Let_def
      split: list.splits option.splits json.splits if_splits)

lemma leafSQL_ok: "(\<exists>c. leafSQL env op m = Inr c) \<longleftrightarrow> valid_leaf env op m"
  unfolding valid_leaf_def leafSQL_def Let_def one_multi_def [symmetric]
  by (cases op) (simp_all add: comparisonExpr_ok likeExpr_ok isNotExpr_ok rangeExpr_ok periodExpr_ok inList_ok missingExpr_ok)

lemma exprSQL_ok: "(\<exists>c. exprSQL env e = Inr c) \<longleftrightarrow> valid_rule env e"
  by (induction e) (auto simp: ok_map_sum sequence_ok list_all_iff leafSQL_ok)

section \<open>What merging preserves\<close>

lemma group_conds_shape:
  assumes "c \<in> set (group_conds neg es)"
  shows "\<exists>b\<in>set (chunk jsonCondBatchSize (map inner_cond es)).
           (\<exists>ro. c = roleCondGroup ro b neg) \<or> (\<exists>t num. c = tagCondGroup t num b neg)"
proof -
  obtain e es' where "es = e # es'" using assms by (cases es) (auto simp: group_conds_def)
  then show ?thesis using assms by (cases e) (auto simp: group_conds_def Let_def)
qed

lemma merge_preserves:
  assumes "\<forall>c\<in>set cs. P c"
    and "\<And>ro c neg. P (roleCond ro (Some c) neg) \<Longrightarrow> Q c" "\<And>t num c neg. P (tagCond t num (Some c) neg) \<Longrightarrow> Q c"
    and "\<And>ro b neg. \<forall>c\<in>set b. Q c \<Longrightarrow> length b \<le> jsonCondBatchSize \<Longrightarrow> P (roleCondGroup ro b neg)"
    and "\<And>t num b neg. \<forall>c\<in>set b. Q c \<Longrightarrow> length b \<le> jsonCondBatchSize \<Longrightarrow> P (tagCondGroup t num b neg)"
  shows "\<forall>c\<in>set (mergeSameFieldConds cs neg). P c"
proof
  fix c assume "c \<in> set (mergeSameFieldConds cs neg)"
  then consider "c \<in> set cs" | k where "c \<in> set (group_conds neg (group_of neg cs k))" unfolding merge_partition by auto
  then show "P c"
  proof cases
    case 1 then show ?thesis using assms(1) by simp
  next
    case (2 k)
    have Q: "Q (inner_cond d)" if "d \<in> set (group_of neg cs k)" for d
    proof -
      have "P d" "group_key neg d = Some k" using that assms(1) by (auto simp: group_of_def)
      then show ?thesis using assms(2,3) by (cases "(neg, d)" rule: group_key.cases) auto
    qed
    obtain b where b: "b \<in> set (chunk jsonCondBatchSize (map inner_cond (group_of neg cs k)))"
      "(\<exists>ro. c = roleCondGroup ro b neg) \<or> (\<exists>t num. c = tagCondGroup t num b neg)"
      using group_conds_shape [OF 2] by blast
    have "set b \<subseteq> set (map inner_cond (group_of neg cs k))"
      using b(1) concat_chunk [of jsonCondBatchSize "map inner_cond (group_of neg cs k)"]
      by (metis UN_upper jsonCondBatchSize_def set_concat zero_less_numeral)
    then have "\<forall>c\<in>set b. Q c" using Q by auto
    moreover have "length b \<le> jsonCondBatchSize" using chunk_bounds b(1) by blast
    ultimately show ?thesis using b(2) assms(4,5) by auto
  qed
qed

subsection \<open>Batches\<close>

fun batches_small :: "cond \<Rightarrow> bool" where
  "batches_small (CAnd cs) \<longleftrightarrow> list_all batches_small cs"
| "batches_small (COr cs) \<longleftrightarrow> list_all batches_small cs"
| "batches_small (tagCondGroup t num cs neg) \<longleftrightarrow> length cs \<le> 350 \<and> list_all batches_small cs"
| "batches_small (roleCondGroup ro cs neg) \<longleftrightarrow> length cs \<le> 350 \<and> list_all batches_small cs"
| "batches_small (tagCond t num (Some c) neg) \<longleftrightarrow> batches_small c"
| "batches_small (roleCond ro (Some c) neg) \<longleftrightarrow> batches_small c"
| "batches_small _ \<longleftrightarrow> True"

subsection \<open>Visibility\<close>

fun sees_only :: "visibility \<Rightarrow> cond \<Rightarrow> bool" where
  "sees_only vis (CAnd cs) \<longleftrightarrow> list_all (sees_only vis) cs"
| "sees_only vis (COr cs) \<longleftrightarrow> list_all (sees_only vis) cs"
| "sees_only vis (tagCondGroup t num cs neg) \<longleftrightarrow> list_all (sees_only vis) cs"
| "sees_only vis (roleCondGroup ro cs neg) \<longleftrightarrow> list_all (sees_only vis) cs"
| "sees_only vis (tagCond t num (Some c) neg) \<longleftrightarrow> sees_only vis c"
| "sees_only vis (roleCond ro (Some c) neg) \<longleftrightarrow> sees_only vis c"
| "sees_only vis (InSelect neg sel v) \<longleftrightarrow> v = vis"
| "sees_only vis _ \<longleftrightarrow> True"

lemma holds_visible: "sees_only vis c \<Longrightarrow> holds q (filter (visible vis) db) r cur c \<longleftrightarrow> holds q db r cur c"
proof (induction c arbitrary: cur)
  case (InSelect neg sel v)
  then show ?case by (auto simp: in_select_def list_ex_iff)
next
  case (tagCond t num c neg)
  then show ?case by (cases c) (auto simp: list_ex_iff)
next
  case (roleCond ro c neg)
  then show ?case by (cases c) (auto simp: list_ex_iff)
qed (auto simp: list_all_iff list_ex_iff)

subsection \<open>Columns\<close>

fun operand_columns :: "operand \<Rightarrow> string list" where
  "operand_columns (Column c) = [c]"
| "operand_columns (Coalesce c d) = [c]"
| "operand_columns Value = []"

fun columns :: "cond \<Rightarrow> string list" where
  "columns (CAnd cs) = concat (map columns cs)"
| "columns (COr cs) = concat (map columns cs)"
| "columns (Compare c xs) = concat (map (operand_columns \<circ> fst) xs)"
| "columns (Like neg xs) = concat (map (operand_columns \<circ> fst) xs)"
| "columns (tagCondGroup t num cs neg) = concat (map columns cs)"
| "columns (roleCondGroup ro cs neg) = concat (map columns cs)"
| "columns (tagCond t num (Some c) neg) = columns c"
| "columns (roleCond ro (Some c) neg) = columns c"
| "columns _ = []"

lemma merged_conditions:
  "\<forall>c\<in>set cs. batches_small c \<Longrightarrow> \<forall>c\<in>set (mergeSameFieldConds cs neg). batches_small c"
  "\<forall>c\<in>set cs. sees_only vis c \<Longrightarrow> \<forall>c\<in>set (mergeSameFieldConds cs neg). sees_only vis c"
  "\<forall>c\<in>set cs. set (columns c) \<subseteq> S \<Longrightarrow> \<forall>c\<in>set (mergeSameFieldConds cs neg). set (columns c) \<subseteq> S"
proof -
  show "\<forall>c\<in>set cs. batches_small c \<Longrightarrow> \<forall>c\<in>set (mergeSameFieldConds cs neg). batches_small c"
    by (erule merge_preserves [where Q = batches_small]) (auto simp: jsonCondBatchSize_def list_all_iff)
  show "\<forall>c\<in>set cs. sees_only vis c \<Longrightarrow> \<forall>c\<in>set (mergeSameFieldConds cs neg). sees_only vis c"
    by (erule merge_preserves [where Q = "sees_only vis"]) (auto simp: list_all_iff)
  show "\<forall>c\<in>set cs. set (columns c) \<subseteq> S \<Longrightarrow> \<forall>c\<in>set (mergeSameFieldConds cs neg). set (columns c) \<subseteq> S"
    by (erule merge_preserves [where Q = "\<lambda>c. set (columns c) \<subseteq> S"]) auto
qed

text \<open>The columns that a list of fields may use.\<close>

definition aliases_lower :: "field_map \<Rightarrow> bool" where
  "aliases_lower fm \<longleftrightarrow> list_all (\<lambda>(k, f). ToLower (fi_Alias f) = fi_Alias f) fm"

definition field_cols :: "field_map \<Rightarrow> string list \<Rightarrow> string set" where
  "field_cols fm fs =
     {sf_expr sf | f info sf. f \<in> set fs \<and> LookupField fm f = Some info \<and>
        map_of smartPlaylistFields (fi_name info) = Some sf \<and> sf_expr sf \<noteq> []}"

lemma field_colsI:
  "f \<in> set fs \<Longrightarrow> LookupField fm f = Some info \<Longrightarrow> map_of smartPlaylistFields (fi_name info) = Some sf \<Longrightarrow> sf_expr sf \<noteq> [] \<Longrightarrow>
     sf_expr sf \<in> field_cols fm fs"
  unfolding field_cols_def by blast

lemma name_lower: "aliases_lower fm \<Longrightarrow> LookupField fm n = Some info \<Longrightarrow> ToLower (fi_name info) = fi_name info"
  by (auto simp: LookupField_def aliases_lower_def list_all_iff Let_def dest!: map_of_SomeD split: option.splits)

lemma sqlField_cols:
  assumes "aliases_lower fm" "sqlField fm (f, v) = Inr x" "f \<in> set fs"
  shows "set (operand_columns (fst x)) \<subseteq> field_cols fm fs"
  using assms name_lower [of fm f]
  by (auto simp: sqlField_def fieldExpr_def intro!: field_colsI split: option.splits if_splits)

lemma set_col_put: "set (col_put c v m) \<subseteq> insert (c, v) (set m)"
  by (induction c v m rule: col_put.induct) auto

lemma sqlFields_cols:
  assumes "aliases_lower fm" "sqlFields fm m = Inr xs"
  shows "\<forall>x\<in>set xs. set (operand_columns (fst x)) \<subseteq> field_cols fm (map fst m)"
proof -
  obtain ys where ys: "sequence (map (sqlField fm) m) = Inr ys" "xs = foldl (\<lambda>m (c, v). col_put c v m) [] ys"
    using assms(2) by (auto simp: sqlFields_def map_sum_Inr)
  have "set (foldl (\<lambda>m (c, v). col_put c v m) acc ys) \<subseteq> set acc \<union> set ys" for acc
  proof (induction ys arbitrary: acc)
    case (Cons y ys)
    then show ?case using set_col_put by (cases y) fastforce
  qed simp
  then have sub: "set xs \<subseteq> set ys" using ys(2) by (metis list.set(1) sup_bot_left)
  have "set (operand_columns (fst y)) \<subseteq> field_cols fm (map fst m)" if y: "y \<in> set ys" for y
  proof -
    have "Inr y \<in> set (map (sqlField fm) m)" using y ys(1) by (simp add: sequence_Inr)
    then obtain fv where "fv \<in> set m" "sqlField fm fv = Inr y" by (metis imageE list.set_map)
    then show ?thesis using sqlField_cols [OF assms(1), of "fst fv" "snd fv" y "map fst m"] by simp
  qed
  with sub show ?thesis by blast
qed

text \<open>What the condition of a single operator looks like.\<close>

definition leaf_shape :: "rule_env \<Rightarrow> string list \<Rightarrow> cond \<Rightarrow> bool" where
  "leaf_shape env fs c \<longleftrightarrow> batches_small c \<and> sees_only (owner_visibility env) c \<and> set (columns c) \<subseteq> field_cols (re_fields env) fs"

lemma leaf_shape_json [simp]:
  "leaf_shape env fs (jsonExpr info None neg)"
  "leaf_shape env fs (jsonExpr info (Some (Compare c [(Value, v)])) neg)"
  "leaf_shape env fs (jsonExpr info (Some (Like b [(Value, t)])) neg)"
  by (simp_all add: leaf_shape_def jsonExpr_def)

lemma leaf_shape_annotation:
  assumes "LookupField (re_fields env) f = Some info" "annotationField info = Some (col, d)" "f \<in> set fs"
  shows "leaf_shape env fs (annotationCond env (col, d) c v)" "leaf_shape env fs (Like b [(Coalesce col d, t)])"
proof -
  obtain sf where sf: "map_of smartPlaylistFields (fi_name info) = Some sf" "sf_expr sf = col" "sf_coalesceDefault sf \<noteq> None"
    using assms(2) by (auto simp: annotationField_def split: option.splits)
  have "(fi_name info, sf) \<in> set smartPlaylistFields" using sf(1) map_of_SomeD by fast
  moreover have "list_all (\<lambda>(n, f). sf_coalesceDefault f \<noteq> None \<longrightarrow> sf_expr f \<noteq> []) smartPlaylistFields" by code_simp
  ultimately have "sf_expr sf \<noteq> []" using sf(3) unfolding list_all_iff by fastforce
  then have "col \<in> field_cols (re_fields env) fs" using field_colsI [OF assms(3,1) sf(1)] sf(2) by simp
  then show "leaf_shape env fs (annotationCond env (col, d) c v)" "leaf_shape env fs (Like b [(Coalesce col d, t)])"
    by (auto simp: leaf_shape_def annotationCond_def Let_def split: option.splits)
qed

lemma leaf_shape_compare:
  "\<forall>x\<in>set xs. set (operand_columns (fst x)) \<subseteq> field_cols (re_fields env) fs \<Longrightarrow> leaf_shape env fs (Compare c xs)"
  "\<forall>x\<in>set xs. set (operand_columns (fst x)) \<subseteq> field_cols (re_fields env) fs \<Longrightarrow> leaf_shape env fs (Like b (map (\<lambda>(c, v). (c, g v)) xs))"
  by (force simp: leaf_shape_def)+

lemma leaf_shape_groups:
  "leaf_shape env fs (CAnd cs) \<longleftrightarrow> list_all (leaf_shape env fs) cs" "leaf_shape env fs (COr cs) \<longleftrightarrow> list_all (leaf_shape env fs) cs"
  by (auto simp: leaf_shape_def list_all_iff)

lemma comparisonExpr_shape:
  assumes a: "aliases_lower (re_fields env)" and c: "comparisonExpr env m c = Inr cd"
  shows "leaf_shape env (map fst m) cd"
proof -
  have gen: ?thesis if "map_sum id (Compare c) (sqlFields (re_fields env) m) = Inr cd"
    using that sqlFields_cols [OF a] leaf_shape_compare(1) by (auto simp: map_sum_Inr)
  show ?thesis
  proof (cases "singleField (re_fields env) m")
    case None
    then show ?thesis using c gen by (simp add: comparisonExpr_def)
  next
    case (Some s)
    obtain f v info where s: "s = (f, v, info)" by (cases s)
    have f: "m = [(f, v)]" "LookupField (re_fields env) f = Some info" using singleField_cases(2) Some s by auto
    then show ?thesis
      using c gen Some s leaf_shape_annotation(1) [OF f(2), of _ _ "map fst m"]
      by (auto simp: comparisonExpr_def Let_def split: if_splits option.splits)
  qed
qed

lemma likeExpr_shape:
  assumes a: "aliases_lower (re_fields env)" and c: "likeExpr env m p neg = Inr cd"
  shows "leaf_shape env (map fst m) cd"
proof -
  have gen: ?thesis if "map_sum id (\<lambda>fs. Like neg (map (\<lambda>(c, v). (c, like_text p (Sprintf_v env v))) fs)) (sqlFields (re_fields env) m) = Inr cd"
    using that sqlFields_cols [OF a] leaf_shape_compare(2) by (auto simp: map_sum_Inr)
  show ?thesis
  proof (cases "singleField (re_fields env) m")
    case None
    then show ?thesis using c gen by (simp add: likeExpr_def)
  next
    case (Some s)
    obtain f v info where s: "s = (f, v, info)" by (cases s)
    have f: "m = [(f, v)]" "LookupField (re_fields env) f = Some info" using singleField_cases(2) Some s by auto
    then show ?thesis
      using c gen Some s leaf_shape_annotation(2) [OF f(2), of _ _ "map fst m"]
      by (auto simp: likeExpr_def Let_def split: if_splits option.splits)
  qed
qed

lemma leafSQL_shape:
  assumes a: "aliases_lower (re_fields env)" and t: "typed_leaf env op m" and l: "leafSQL env op m = Inr cd"
  shows "leaf_shape env (map fst m) cd"
proof -
  have c: "comparisonExpr env m c = Inr cd \<Longrightarrow> ?thesis" for c by (rule comparisonExpr_shape [OF a])
  have n: "isNotExpr env m = Inr cd \<Longrightarrow> ?thesis"
    using c [of cmpNe] by (auto simp: isNotExpr_def split: option.splits if_splits)
  have k: "likeExpr env m p neg = Inr cd \<Longrightarrow> ?thesis" for p neg by (rule likeExpr_shape [OF a])
  have r: "rangeExpr env m = Inr cd \<Longrightarrow> ?thesis"
    using comparisonExpr_shape [OF a] singleField_cases(2)
    by (fastforce simp: rangeExpr_def leaf_shape_groups split: option.splits if_splits json.splits list.splits sum.splits)
  have i: "inList env m neg = Inr cd \<Longrightarrow> ?thesis" for neg
    by (auto simp: inList_def leaf_shape_def split: option.splits)
  have p: "periodExpr env m neg = Inr cd \<Longrightarrow> ?thesis" if mv: "m = [(f, v)]" for neg f v
  proof -
    assume p: "periodExpr env m neg = Inr cd"
    then obtain xs where xs: "sqlFields (re_fields env) m = Inr xs" by (auto simp: periodExpr_def split: sum.splits)
    then obtain x v where "xs = [(x, v)]" using mv by (auto simp: sqlFields_single map_sum_Inr)
    then show ?thesis
      using p xs sqlFields_cols [OF a xs] leaf_shape_compare(1) [of "[(x, _)]"]
      by (auto simp: periodExpr_def Let_def leaf_shape_groups split: option.splits if_splits)
  qed
  have mi: "missingExpr env m b = Inr cd \<Longrightarrow> ?thesis" for b
  proof -
    assume mi: "missingExpr env m b = Inr cd"
    then obtain f v info where s: "singleField (re_fields env) m = Some (f, v, info)"
      by (auto simp: missingExpr_def split: option.splits list.splits)
    have f: "m = [(f, v)]" "LookupField (re_fields env) f = Some info" using singleField_cases(2) [OF s] by auto
    show ?thesis
    proof (cases "fi_IsTag info \<or> fi_IsRole info")
      case True
      then show ?thesis using mi s by (auto simp: missingExpr_def Let_def split: json.splits)
    next
      case False
      then obtain sf where sf: "map_of smartPlaylistFields (fi_name info) = Some sf" "sf_expr sf \<noteq> []"
        using mi s by (auto simp: missingExpr_def Let_def split: json.splits option.splits if_splits)
      have "sf_expr sf \<in> field_cols (re_fields env) (map fst m)" using field_colsI [OF _ f(2) sf] f(1) by simp
      then have "leaf_shape env (map fst m) (Compare c [(Column (sf_expr sf), w)])" for c w by (simp add: leaf_shape_def)
      then show ?thesis
        using mi s sf False by (auto simp: missingExpr_def Let_def leaf_shape_groups list_all_iff split: json.splits if_splits)
    qed
  qed
  have m: "op = InTheLast \<or> op = NotInTheLast \<Longrightarrow> \<exists>f v. m = [(f, v)]"
    using t by (cases m rule: remdups_adj.cases) (auto simp: typed_leaf_def)
  show ?thesis
    using l c n k r i p mi m by (cases op) (auto simp: leafSQL_def)
qed

lemma field_cols_mono: "set fs \<subseteq> set gs \<Longrightarrow> field_cols fm fs \<subseteq> field_cols fm gs"
  by (auto simp: field_cols_def)

lemma leaf_shape_mono: "leaf_shape env fs c \<Longrightarrow> set fs \<subseteq> set gs \<Longrightarrow> leaf_shape env gs c"
  using field_cols_mono [of fs gs "re_fields env"] by (auto simp: leaf_shape_def)

lemma merged_shape:
  assumes "\<forall>c\<in>set cs. leaf_shape env fs c"
  shows "\<forall>c\<in>set (mergeSameFieldConds cs neg). leaf_shape env fs c"
  using assms merged_conditions(1) [of cs neg] merged_conditions(2) [of cs "owner_visibility env" neg]
    merged_conditions(3) [of cs "field_cols (re_fields env) fs" neg]
  unfolding leaf_shape_def by blast

lemma exprSQL_shape:
  assumes a: "aliases_lower (re_fields env)"
  shows "typed_rule env e \<Longrightarrow> exprSQL env e = Inr c \<Longrightarrow> leaf_shape env (leaf_fields e) c"
proof (induction e arbitrary: c)
  case (All_of es)
  then obtain cs where cs: "sequence (map (exprSQL env) es) = Inr cs" "c = mergeNegatedJsonConds cs"
    by (auto simp: map_sum_Inr)
  note el = sequence_nth [OF cs(1)]
  have "leaf_shape env (leaf_fields (All_of es)) (cs ! i)" if "i < length es" for i
  proof (rule leaf_shape_mono)
    show "leaf_shape env (leaf_fields (es ! i)) (cs ! i)"
      using All_of.IH [of "es ! i" "cs ! i"] All_of.prems(1) el that by (auto simp: list_all_length)
    show "set (leaf_fields (es ! i)) \<subseteq> set (leaf_fields (All_of es))" using nth_mem [OF that] by auto
  qed
  then have "\<forall>d\<in>set cs. leaf_shape env (leaf_fields (All_of es)) d" using el by (metis in_set_conv_nth)
  then show ?case
    using merged_shape by (simp add: cs(2) mergeNegatedJsonConds_def leaf_shape_groups list_all_iff)
next
  case (Any_of es)
  then obtain cs where cs: "sequence (map (exprSQL env) es) = Inr cs" "c = mergeJsonConds cs"
    by (auto simp: map_sum_Inr)
  note el = sequence_nth [OF cs(1)]
  have "leaf_shape env (leaf_fields (Any_of es)) (cs ! i)" if "i < length es" for i
  proof (rule leaf_shape_mono)
    show "leaf_shape env (leaf_fields (es ! i)) (cs ! i)"
      using Any_of.IH [of "es ! i" "cs ! i"] Any_of.prems(1) el that by (auto simp: list_all_length)
    show "set (leaf_fields (es ! i)) \<subseteq> set (leaf_fields (Any_of es))" using nth_mem [OF that] by auto
  qed
  then have "\<forall>d\<in>set cs. leaf_shape env (leaf_fields (Any_of es)) d" using el by (metis in_set_conv_nth)
  then show ?case
    using merged_shape by (simp add: cs(2) mergeJsonConds_def leaf_shape_groups list_all_iff)
next
  case (Leaf op m)
  then show ?case using leafSQL_shape [OF a] by simp
qed

subsection \<open>Joins\<close>

definition table_of :: "string \<Rightarrow> string" where
  "table_of c = takeWhile (\<lambda>x. x \<noteq> CHR ''.'') c"

lemma field_tables_joined:
  "list_all (\<lambda>(n, f). sf_expr f \<noteq> [] \<longrightarrow> table_of (sf_expr f) \<in> set (applyJoins (sf_joinType f))) smartPlaylistFields"
  by code_simp

lemma join_has_or: "join_has (a OR b) x \<longleftrightarrow> join_has a x \<or> join_has b x"
  by (simp add: join_has_def bit.conj_disj_distrib2 or_eq_0_iff)

lemma join_fold: "join_has (foldl (\<lambda>j n. j OR fieldJoinType fm n) j0 ns) x \<longleftrightarrow> join_has j0 x \<or> (\<exists>n\<in>set ns. join_has (fieldJoinType fm n) x)"
  by (induction ns arbitrary: j0) (auto simp: join_has_or)

lemma optional_subset: "(b \<Longrightarrow> c) \<Longrightarrow> set (if b then [x] else []) \<subseteq> set (if c then [x] else [])"
  by (cases b; cases c) simp_all

lemma applyJoins_mono:
  assumes a: "\<And>x. join_has j x \<Longrightarrow> join_has k x"
  shows "set (applyJoins j) \<subseteq> set (applyJoins k)"
  unfolding applyJoins_def set_append by (intro Un_mono subset_refl optional_subset a)

lemma field_cols_joined:
  assumes "c \<in> field_cols fm fs" "\<And>f x. f \<in> set fs \<Longrightarrow> join_has (fieldJoinType fm f) x \<Longrightarrow> join_has j x"
  shows "table_of c \<in> set (applyJoins j)"
proof -
  obtain f info sf where f: "f \<in> set fs" "LookupField fm f = Some info" "map_of smartPlaylistFields (fi_name info) = Some sf"
    "sf_expr sf \<noteq> []" "c = sf_expr sf"
    using assms(1) by (auto simp: field_cols_def)
  have "(fi_name info, sf) \<in> set smartPlaylistFields" using f(3) map_of_SomeD by fast
  then have "table_of c \<in> set (applyJoins (sf_joinType sf))"
    using field_tables_joined f(4,5) unfolding list_all_iff by fastforce
  moreover have "fieldJoinType fm f = sf_joinType sf" using f by (simp add: fieldJoinType_def)
  ultimately show ?thesis using applyJoins_mono [of "fieldJoinType fm f" j] assms(2) [OF f(1)] by auto
qed

definition sort_columns :: "order_item list \<Rightarrow> string list" where
  "sort_columns items = concat (map (\<lambda>i. case oi_expr i of SortOperand x \<Rightarrow> operand_columns x | _ \<Rightarrow> []) items)"

lemma orderBy_columns: "set (sort_columns (orderBy fm c)) \<subseteq> field_cols fm (SortFieldNames fm c)"
proof
  fix col assume "col \<in> set (sort_columns (orderBy fm c))"
  then obtain i where "i \<in> set (orderBy fm c)" "col \<in> set (case oi_expr i of SortOperand x \<Rightarrow> operand_columns x | _ \<Rightarrow> [])"
    unfolding sort_columns_def set_concat set_map by blast
  then obtain x where i: "i \<in> set (orderBy fm c)" "oi_expr i = SortOperand x" "col \<in> set (operand_columns x)"
    by (cases "oi_expr i") auto
  obtain sf where sf: "sf \<in> set (OrderByFields fm c)" "\<exists>b. sortExpr fm (so_Field sf) = Some (SortOperand x, b)"
    using i(1,2) by (auto simp: orderBy_def map_filter_def split: option.splits)
  have "so_Field sf \<in> set (SortFieldNames fm c)" using sf(1) by (simp add: SortFieldNames_def)
  then show "col \<in> field_cols fm (SortFieldNames fm c)"
    using i(3) sf(2)
    by (auto simp: sortExpr_def coalesced_def intro!: field_colsI split: option.splits if_splits)
qed

lemma leafSQL_plain:
  assumes "leafSQL env op m = Inr cd"
  shows "batches_small cd \<and> sees_only (owner_visibility env) cd"
proof -
  have j: "batches_small (jsonExpr info None neg) \<and> sees_only vis (jsonExpr info None neg)"
    "batches_small (jsonExpr info (Some (Compare c xs)) neg) \<and> sees_only vis (jsonExpr info (Some (Compare c xs)) neg)"
    "batches_small (jsonExpr info (Some (Like b ys)) neg) \<and> sees_only vis (jsonExpr info (Some (Like b ys)) neg)"
    for info neg vis c xs b ys
    by (auto simp: jsonExpr_def)
  have a: "batches_small (annotationCond env f c v) \<and> sees_only vis (annotationCond env f c v)" for f c v vis
    by (auto simp: annotationCond_def Let_def split: option.splits)
  have c: "comparisonExpr env m c = Inr cd \<Longrightarrow> batches_small cd \<and> sees_only vis cd" for m c cd vis
    using j a by (auto simp: comparisonExpr_def map_sum_Inr Let_def split: option.splits if_splits)
  have n: "isNotExpr env m = Inr cd \<Longrightarrow> ?thesis"
    using j c [of m cmpNe] by (auto simp: isNotExpr_def split: option.splits if_splits)
  have l: "likeExpr env m p neg = Inr cd \<Longrightarrow> ?thesis" for p neg
    using j by (auto simp: likeExpr_def map_sum_Inr Let_def split: option.splits if_splits)
  have r: "rangeExpr env m = Inr cd \<Longrightarrow> ?thesis"
    using c by (auto simp: rangeExpr_def split: option.splits if_splits json.splits list.splits sum.splits)
  have p: "periodExpr env m neg = Inr cd \<Longrightarrow> ?thesis" for neg
    by (auto simp: periodExpr_def Let_def split: option.splits if_splits sum.splits list.splits)
  have i: "inList env m neg = Inr cd \<Longrightarrow> ?thesis" for neg
    by (auto simp: inList_def split: option.splits)
  have mi: "missingExpr env m b = Inr cd \<Longrightarrow> ?thesis" for b
    using j by (auto simp: missingExpr_def Let_def list_all_iff split: option.splits if_splits json.splits list.splits)
  show ?thesis
    using assms c n l r p i mi by (cases op) (simp_all add: leafSQL_def)
qed

lemma exprSQL_plain: "exprSQL env e = Inr c \<Longrightarrow> batches_small c \<and> sees_only (owner_visibility env) c"
proof (induction e arbitrary: c)
  case (Leaf op m)
  then show ?case using leafSQL_plain by simp
next
  case (All_of es)
  then obtain cs where cs: "map (exprSQL env) es = map Inr cs" "c = mergeNegatedJsonConds cs"
    by (auto simp: map_sum_Inr sequence_Inr)
  have "batches_small d \<and> sees_only (owner_visibility env) d" if "d \<in> set cs" for d
    using All_of.IH cs(1) that by (metis (no_types, lifting) in_set_conv_nth length_map nth_map nth_mem)
  then show ?case
    using merged_conditions(1) [of cs True] merged_conditions(2) [of cs _ True] by (simp add: cs(2) mergeNegatedJsonConds_def list_all_iff)
next
  case (Any_of es)
  then obtain cs where cs: "map (exprSQL env) es = map Inr cs" "c = mergeJsonConds cs"
    by (auto simp: map_sum_Inr sequence_Inr)
  have "batches_small d \<and> sees_only (owner_visibility env) d" if "d \<in> set cs" for d
    using Any_of.IH cs(1) that by (metis (no_types, lifting) in_set_conv_nth length_map nth_map nth_mem)
  then show ?case
    using merged_conditions(1) [of cs False] merged_conditions(2) [of cs _ False] by (simp add: cs(2) mergeJsonConds_def list_all_iff)
qed

text \<open>Fields are consistent when every alias has the kind of the field it stands for.\<close>

definition aliases_agree :: "field_map \<Rightarrow> bool" where
  "aliases_agree fm \<longleftrightarrow>
     list_all (\<lambda>(k, f). fi_Alias f = [] \<or>
       (case map_of fm (fi_Alias f) of None \<Rightarrow> False | Some g \<Rightarrow> fi_Alias g = [] \<and> fi_Numeric g = fi_Numeric f)) fm"

lemma aliases_agree_consistent:
  assumes "aliases_agree fm"
  shows "fields_consistent fm"
proof -
  have target: "\<exists>g. map_of fm (fi_name i) = Some g \<and> fi_Numeric g = fi_Numeric i" if l: "LookupField fm n = Some i" for n i
  proof -
    obtain f where f: "map_of fm (ToLower n) = Some f" "i = f\<lparr>fi_name := if fi_Alias f \<noteq> [] then fi_Alias f else ToLower n\<rparr>"
      using l by (auto simp: LookupField_def Let_def split: option.splits)
    then have "(ToLower n, f) \<in> set fm" using map_of_SomeD by fast
    then have "fi_Alias f = [] \<or> (case map_of fm (fi_Alias f) of None \<Rightarrow> False | Some g \<Rightarrow> fi_Alias g = [] \<and> fi_Numeric g = fi_Numeric f)"
      using assms unfolding aliases_agree_def list_all_iff by fastforce
    then show ?thesis using f by (auto split: option.splits)
  qed
  show ?thesis
    unfolding fields_consistent_def
  proof (intro allI impI)
    fix n1 i1 n2 i2
    assume "LookupField fm n1 = Some i1" "LookupField fm n2 = Some i2" "fi_name i1 = fi_name i2"
    then show "fi_Numeric i1 = fi_Numeric i2" using target [of n1 i1] target [of n2 i2] by auto
  qed
qed

section \<open>Properties\<close>

text \<open>
  C22: the query of a smart playlist selects what its rules say. The condition that is built, with conditions
  on one tag or role merged into batches and with comparisons that can use an index, holds for a row
  exactly when the rules hold for it: a track without plays, rating or love counts with the default, a
  tag or role matches if one of its values does, a negated operator if none does.
\<close>

theorem smart_playlist_sql_correct:
  assumes "sqlite_ok q" "typed_row r" "fields_consistent (re_fields env)" "typed_rule env e" "exprSQL env e = Inr c"
  shows "holds q db r cur c \<longleftrightarrow> rule_matches env q db r e"
  using exprSQL_holds [OF assms] .


text \<open>
  C23: rules do not leak private playlists. Which tracks the rules of a user who is not an administrator select
  depends only on playlists that are public or the user's own, however the rules refer to playlists.
\<close>

theorem rules_respect_privacy:
  assumes "\<not> re_owner_admin env" "exprSQL env e = Inr c"
  shows "holds q db r cur c \<longleftrightarrow>
         holds q (filter (\<lambda>p. pe_public p \<or> re_owner_id env \<noteq> [] \<and> pe_owner p = re_owner_id env) db) r cur c"
proof -
  have "visible (owner_visibility env) = (\<lambda>p. pe_public p \<or> re_owner_id env \<noteq> [] \<and> pe_owner p = re_owner_id env)"
    using assms(1) by (auto simp: visible_def owner_visibility_def)
  with holds_visible [of "owner_visibility env" c q db r cur] exprSQL_plain [OF assms(2)] show ?thesis by simp
qed

text \<open>
  The query is well formed. Every column in the condition belongs to a table that the counting query joins,
  and every column in the condition or in the order belongs to one that the selecting query joins.
\<close>

theorem smart_playlist_columns_joined:
  assumes "aliases_lower (re_fields env)" "cr_Expression cr = Some e" "typed_rule env e" "exprSQL env e = Inr c"
  shows "(\<forall>col\<in>set (columns c). table_of col \<in> set (applyJoins (expressionJoins (re_fields env) cr))) \<and>
         (\<forall>col\<in>set (columns c) \<union> set (sort_columns (orderBy (re_fields env) cr)).
            table_of col \<in> set (applyJoins (requiredJoins (re_fields env) cr)))"
proof -
  let ?fm = "re_fields env"
  have cols: "set (columns c) \<subseteq> field_cols ?fm (leaf_fields e)"
    using exprSQL_shape [OF assms(1,3,4)] by (simp add: leaf_shape_def)
  have ej: "join_has (fieldJoinType ?fm f) x \<Longrightarrow> join_has (expressionJoins ?fm cr) x" if "f \<in> set (leaf_fields e)" for f x
    using that by (auto simp: expressionJoins_def join_union_def join_fold assms(2))
  have rj: "join_has (expressionJoins ?fm cr) x \<Longrightarrow> join_has (requiredJoins ?fm cr) x"
    "f \<in> set (SortFieldNames ?fm cr) \<Longrightarrow> join_has (fieldJoinType ?fm f) x \<Longrightarrow> join_has (requiredJoins ?fm cr) x" for f x
    by (auto simp: requiredJoins_def join_fold)
  have "table_of col \<in> set (applyJoins (expressionJoins ?fm cr))" if "col \<in> set (columns c)" for col
    using field_cols_joined [of col ?fm "leaf_fields e"] cols that ej by blast
  moreover have "table_of col \<in> set (applyJoins (requiredJoins ?fm cr))" if "col \<in> set (columns c)" for col
    using calculation [OF that] applyJoins_mono [of "expressionJoins ?fm cr" "requiredJoins ?fm cr"] rj(1) by blast
  moreover have "table_of col \<in> set (applyJoins (requiredJoins ?fm cr))" if "col \<in> set (sort_columns (orderBy ?fm cr))" for col
    using field_cols_joined [of col ?fm "SortFieldNames ?fm cr"] orderBy_columns that rj(2) by blast
  ultimately show ?thesis by blast
qed

text \<open>
  No subquery on a tag or role has more than 350 conditions in it, so that the depth of the expression
  stays within the limit of SQLite.
\<close>

lemma merged_batches_bounded: "exprSQL env e = Inr c \<Longrightarrow> batches_small c"
  using exprSQL_plain by blast

text \<open>
  A period of more than 106751 days does not fit a duration: its start wraps around into the future.
\<close>

lemma long_period_wraps: "period_start 106751 0 < 0" "period_start 106752 0 > 0"
  by (simp_all add: period_start_def Hour_def Minute_def Second_def)

section \<open>Concrete rules\<close>

text \<open>SQLite without collations: numbers before text, text by its bytes.\<close>

definition plain_sqlite :: sqlite where
  "plain_sqlite =
     \<lparr>sq_compare = (\<lambda>x c a b.
        (case (a, b) of
           (SNum m, SNum n) \<Rightarrow> satisfy c m n
         | (SText s, SText t) \<Rightarrow> (if s = t then satisfy c 0 0 else if s < t then satisfy c 0 1 else satisfy c 1 0)
         | (SNum m, SText t) \<Rightarrow> satisfy c 0 1
         | (SText s, SNum n) \<Rightarrow> satisfy c 1 0
         | _ \<Rightarrow> False)),
      sq_like = (\<lambda>a p. case a of SText s \<Rightarrow> sublist (filter (\<lambda>x. x \<noteq> CHR ''%'') p) s | _ \<Rightarrow> False),
      sq_real = (\<lambda>a. case a of SNum n \<Rightarrow> SNum n | SText _ \<Rightarrow> SNum 0 | SNull \<Rightarrow> SNull)\<rparr>"

lemma plain_sqlite_ok: "sqlite_ok plain_sqlite"
  by (auto simp: sqlite_ok_def plain_sqlite_def split: sqlval.splits)

definition demo_rules_env :: rule_env where
  "demo_rules_env =
     \<lparr>re_fields = AddTagNames [''genre'', ''releasetype''] (AddRoles [''artist''] fieldMap), re_fmt = (\<lambda>_. []), re_ParseFloat = (\<lambda>_. None),
      re_now = 0, re_date = (\<lambda>_. []), re_nfc = (\<lambda>s. s), re_nfd = (\<lambda>s. s), re_owner_id = ''u1'', re_owner_admin = False\<rparr>"

definition demo_track_row :: sql_row where
  "demo_track_row =
     \<lparr>sr_id = ''m1'', sr_col = (\<lambda>_. SNull), sr_tags = (\<lambda>t. if t = ''genre'' then [SText ''Rock''] else []),
      sr_roles = (\<lambda>_. [SText ''U2''])\<rparr>"

text \<open>Unrated tracks of neither of two genres.\<close>

definition demo_rule :: expression where
  "demo_rule =
     All_of [Leaf Lt [(''rating'', JNum True 3)], Leaf IsNot [(''genre'', JStr ''Jazz'')], Leaf IsNot [(''genre'', JStr ''Pop'')]]"

definition demo_cond :: cond where
  "demo_cond =
     CAnd [COr [Compare cmpLt [(Column ''annotation.rating'', JNum True 3)], Compare cmpEq [(Column ''annotation.rating'', JNull)]],
           tagCondGroup ''genre'' False [Compare cmpEq [(Value, JStr ''Jazz'')], Compare cmpEq [(Value, JStr ''Pop'')]] True]"

lemma demo_facts: "exprSQL demo_rules_env demo_rule = Inr demo_cond" "typed_rule demo_rules_env demo_rule" "aliases_lower (re_fields demo_rules_env)"
  by code_simp+

lemma demo_consistent: "fields_consistent (re_fields demo_rules_env)"
proof (rule aliases_agree_consistent)
  show "aliases_agree (re_fields demo_rules_env)" by code_simp
qed

lemma demo_track_row_typed: "typed_row demo_track_row"
  by (simp add: typed_row_def demo_track_row_def list_all_iff split_def)

theorem smart_playlist_sql_correct_witness:
  "holds plain_sqlite [] demo_track_row SNull demo_cond \<and> rule_matches demo_rules_env plain_sqlite [] demo_track_row demo_rule"
proof -
  have "holds plain_sqlite [] demo_track_row SNull demo_cond" by code_simp
  then show ?thesis
    using smart_playlist_sql_correct [OF plain_sqlite_ok demo_track_row_typed demo_consistent demo_facts(2,1), of "[]" SNull] by simp
qed

definition demo_playlist :: playlist_entry where
  "demo_playlist = \<lparr>pe_playlist = ''p1'', pe_path = [], pe_public = False, pe_owner = ''u2'', pe_file = ''m1''\<rparr>"

theorem rules_respect_privacy_witness:
  "\<not> holds plain_sqlite [demo_playlist] demo_track_row SNull (InSelect False (ById ''p1'') (PublicOrOwned ''u1''))"
proof -
  have e: "exprSQL demo_rules_env (Leaf InPlaylist [(''id'', JStr ''p1'')]) = Inr (InSelect False (ById ''p1'') (PublicOrOwned ''u1''))"
    by code_simp
  have "\<not> re_owner_admin demo_rules_env" by (simp add: demo_rules_env_def)
  from rules_respect_privacy [OF this e, of plain_sqlite "[demo_playlist]" demo_track_row SNull] show ?thesis
    by (simp add: demo_rules_env_def demo_playlist_def in_select_def)
qed

definition demo_smart :: criteria where
  "demo_smart = criteria0\<lparr>cr_Expression := Some (Leaf Gt [(''albumrating'', JNum True 3)]), cr_Sort := ''artistplaycount''\<rparr>"

theorem smart_playlist_columns_joined_witness:
  "table_of ''album_annotation.rating'' \<in> set (applyJoins (expressionJoins (re_fields demo_rules_env) demo_smart))"
proof -
  have e: "exprSQL demo_rules_env (Leaf Gt [(''albumrating'', JNum True 3)]) = Inr (Compare cmpGt [(Column ''album_annotation.rating'', JNum True 3)])"
    and t: "typed_rule demo_rules_env (Leaf Gt [(''albumrating'', JNum True 3)])"
    by code_simp+
  have "cr_Expression demo_smart = Some (Leaf Gt [(''albumrating'', JNum True 3)])" by (simp add: demo_smart_def)
  from smart_playlist_columns_joined [OF demo_facts(3) this t e] show ?thesis by simp
qed

end
