(* ===== verification/ArtworkStore.thy ===== *)
theory ArtworkStore
  imports Media
begin

text \<open>
  The artwork tables and the image store: \<open>persistence/artwork_queue_repository.go\<close>,
  \<open>persistence/artwork_repository.go\<close> and \<open>core/artwork/image_store.go\<close>. The tables are lists of rows
  with the primary keys of the schema; a flag or a list of flags says which statements fail. A file
  of the store is its base name without extension, its extension, its time of modification and
  whether it is an unfinished temporary file; the bytes are the ones the name is the hash of.
\<close>

section \<open>Kinds\<close>

datatype art_kind = KindMediaFile | KindArtist | KindAlbum | KindPlaylist | KindDisc | KindRadio

definition kind_Prefix :: "art_kind \<Rightarrow> string" where
  "kind_Prefix k =
     (case k of KindMediaFile \<Rightarrow> ''mf'' | KindArtist \<Rightarrow> ''ar'' | KindAlbum \<Rightarrow> ''al''
              | KindPlaylist \<Rightarrow> ''pl'' | KindDisc \<Rightarrow> ''dc'' | KindRadio \<Rightarrow> ''ra'')"

definition ParseKind :: "string \<Rightarrow> art_kind option" where
  "ParseKind p =
     map_of [(''mf'', KindMediaFile), (''ar'', KindArtist), (''al'', KindAlbum), (''pl'', KindPlaylist),
             (''dc'', KindDisc), (''ra'', KindRadio)] p"

definition ImageTypePrimary :: string where "ImageTypePrimary = ''primary''"
definition ArtworkPriorityRecheck :: int where "ArtworkPriorityRecheck = 0"
definition ArtworkPriorityScan :: int where "ArtworkPriorityScan = 50"
definition ArtworkPriorityBump :: int where "ArtworkPriorityBump = 100"
definition ArtworkSourceFailed :: string where "ArtworkSourceFailed = ''!failed''"

text \<open>\<open>cmp.Or\<close>: the first argument unless it is the zero value.\<close>

definition cmp_Or :: "string \<Rightarrow> string \<Rightarrow> string" where
  "cmp_Or a b = (if a = [] then b else a)"

section \<open>Rows\<close>

record art_item =
  aq_kind :: string
  aq_id :: string
  aq_type :: string
  aq_priority :: int
  aq_attempts :: nat
  aq_retryAt :: time
  aq_enqueuedAt :: time
  aq_trace :: string

record item_artwork =
  ia_kind :: string
  ia_id :: string
  ia_type :: string
  ia_hash :: string
  ia_source :: string
  ia_sourcePath :: string
  ia_refMtime :: int
  ia_trace :: string
  ia_lastFailure :: string
  ia_attemptedAt :: time
  ia_updatedAt :: time

record art_image =
  im_hash :: string
  im_mime :: string
  im_width :: int
  im_height :: int
  im_sizeBytes :: int
  im_blurHash :: string
  im_thumbHash :: string
  im_dominantColor :: string
  im_createdAt :: time

record store_file =
  sf_name :: string
  sf_ext :: string
  sf_temp :: bool
  sf_mtime :: time

text \<open>\<open>db_entities\<close> has the IDs of the tables \<open>album\<close>, \<open>artist\<close>, \<open>playlist\<close>, \<open>radio\<close> and \<open>media_file\<close>.\<close>

record art_db =
  ad_queue :: "art_item list"
  ad_items :: "item_artwork list"
  ad_images :: "art_image list"
  ad_files :: "store_file list"
  ad_entities :: "(art_kind \<times> string) list"

type_synonym art_key = "string \<times> string \<times> string"

definition aq_key :: "art_item \<Rightarrow> art_key" where
  "aq_key q = (aq_kind q, aq_id q, aq_type q)"

definition ia_key :: "item_artwork \<Rightarrow> art_key" where
  "ia_key a = (ia_kind a, ia_id a, ia_type a)"

section \<open>The queue\<close>

definition aq_Get :: "art_key \<Rightarrow> art_db \<Rightarrow> art_item option" where
  "aq_Get k d = find (\<lambda>q. aq_key q = k) (ad_queue d)"

text \<open>\<open>INSERT \<dots> ON CONFLICT \<dots> DO UPDATE\<close>: \<open>f\<close> makes the new row of the old one and the excluded one.\<close>

definition aq_upsert :: "(art_item \<Rightarrow> art_item \<Rightarrow> art_item) \<Rightarrow> art_item list \<Rightarrow> art_item \<Rightarrow> art_item list" where
  "aq_upsert f rows q =
     (if list_ex (\<lambda>r. aq_key r = aq_key q) rows
      then map (\<lambda>r. if aq_key r = aq_key q then f r q else r) rows
      else rows @ [q])"

definition enqueue_row :: "time \<Rightarrow> art_item \<Rightarrow> art_item" where
  "enqueue_row now it =
     it\<lparr>aq_type := cmp_Or (aq_type it) ImageTypePrimary, aq_attempts := 0, aq_retryAt := now, aq_enqueuedAt := now,
        aq_trace := ''[]''\<rparr>"

text \<open>The statements for chunks of 100 items, until one fails; the flag says that one did.\<close>

fun art_chunks :: "nat \<Rightarrow> 'a list \<Rightarrow> 'a list list" where
  "art_chunks n xs = (if n = 0 \<or> xs = [] then [] else take n xs # art_chunks n (drop n xs))"

declare art_chunks.simps [simp del]

lemma concat_art_chunks: "n > 0 \<Longrightarrow> concat (art_chunks n xs) = xs"
  by (induction n xs rule: art_chunks.induct) (subst art_chunks.simps, auto)

fun enqueue_chunks ::
  "(art_item \<Rightarrow> art_item \<Rightarrow> art_item) \<Rightarrow> time \<Rightarrow> bool list \<Rightarrow> art_item list list \<Rightarrow> art_item list \<Rightarrow> art_item list \<times> bool" where
  "enqueue_chunks f now errs [] rows = (rows, False)"
| "enqueue_chunks f now errs (c # cs) rows =
     (if errs \<noteq> [] \<and> hd errs then (rows, True)
      else enqueue_chunks f now (tl errs) cs (foldl (aq_upsert f) rows (map (enqueue_row now) c)))"

definition enqueueChunkSize :: nat where "enqueueChunkSize = 100"

definition aq_enqueue ::
  "(art_item \<Rightarrow> art_item \<Rightarrow> art_item) \<Rightarrow> time \<Rightarrow> bool list \<Rightarrow> art_item list \<Rightarrow> art_db \<Rightarrow> art_db \<times> bool" where
  "aq_enqueue f now errs items d =
     (let (rows, failed) = enqueue_chunks f now errs (art_chunks enqueueChunkSize items) (ad_queue d)
      in (d\<lparr>ad_queue := rows\<rparr>, failed))"

definition fresh_conflict :: "art_item \<Rightarrow> art_item \<Rightarrow> art_item" where
  "fresh_conflict old new =
     old\<lparr>aq_priority := max (aq_priority old) (aq_priority new), aq_retryAt := aq_retryAt new, aq_attempts := 0,
         aq_enqueuedAt := aq_enqueuedAt new, aq_trace := ''[]''\<rparr>"

definition backoff_conflict :: "art_item \<Rightarrow> art_item \<Rightarrow> art_item" where
  "backoff_conflict old new = old\<lparr>aq_priority := max (aq_priority old) (aq_priority new)\<rparr>"

definition aq_Enqueue :: "time \<Rightarrow> bool list \<Rightarrow> art_item list \<Rightarrow> art_db \<Rightarrow> art_db \<times> bool" where
  "aq_Enqueue = aq_enqueue fresh_conflict"

definition EnqueuePreservingBackoff :: "time \<Rightarrow> bool list \<Rightarrow> art_item list \<Rightarrow> art_db \<Rightarrow> art_db \<times> bool" where
  "EnqueuePreservingBackoff = aq_enqueue backoff_conflict"

text \<open>\<open>ON CONFLICT \<dots> DO NOTHING\<close>.\<close>

definition insertIfNotQueued :: "bool \<Rightarrow> art_item list \<Rightarrow> art_db \<Rightarrow> art_db \<times> bool" where
  "insertIfNotQueued err new d =
     (if err then (d, True) else (d\<lparr>ad_queue := foldl (aq_upsert (\<lambda>old _. old)) (ad_queue d) new\<rparr>, False))"

definition artworkOwnerTables :: "art_kind list" where
  "artworkOwnerTables = [KindAlbum, KindArtist, KindPlaylist, KindRadio, KindMediaFile]"

definition new_item :: "time \<Rightarrow> string \<Rightarrow> string \<Rightarrow> string \<Rightarrow> int \<Rightarrow> art_item" where
  "new_item now kind i ty prio =
     \<lparr>aq_kind = kind, aq_id = i, aq_type = ty, aq_priority = prio, aq_attempts = 0, aq_retryAt = now, aq_enqueuedAt = now,
      aq_trace = ''[]''\<rparr>"

definition EnqueueAllMissing :: "time \<Rightarrow> bool \<Rightarrow> art_kind \<Rightarrow> int \<Rightarrow> art_db \<Rightarrow> art_db \<times> bool" where
  "EnqueueAllMissing now err kind prio d =
     (if \<not> List.member artworkOwnerTables kind then (d, True)
      else insertIfNotQueued err
        (map (\<lambda>e. new_item now (kind_Prefix kind) (snd e) ImageTypePrimary prio)
          (filter (\<lambda>e. fst e = kind \<and> \<not> list_ex (\<lambda>a. ia_kind a = kind_Prefix kind \<and> ia_id a = snd e) (ad_items d))
            (ad_entities d))) d)"

fun if_missing_chunks :: "time \<Rightarrow> bool list \<Rightarrow> art_item list list \<Rightarrow> art_db \<Rightarrow> art_db \<times> bool" where
  "if_missing_chunks now errs [] d = (d, False)"
| "if_missing_chunks now errs (c # cs) d =
     (let new = filter (\<lambda>q. \<not> list_ex (\<lambda>a. ia_key a = aq_key q) (ad_items d)) (map (enqueue_row now) c);
          (d1, failed) = insertIfNotQueued (errs \<noteq> [] \<and> hd errs) new d
      in if failed then (d1, True) else if_missing_chunks now (tl errs) cs d1)"

definition EnqueueIfMissing :: "time \<Rightarrow> bool list \<Rightarrow> art_item list \<Rightarrow> art_db \<Rightarrow> art_db \<times> bool" where
  "EnqueueIfMissing now errs items d = if_missing_chunks now errs (art_chunks enqueueChunkSize items) d"

text \<open>No sources select every row of the kind; the pseudo source selects absent states that gave up.\<close>

definition artworkSourceFilter :: "art_kind \<Rightarrow> string list \<Rightarrow> item_artwork \<Rightarrow> bool" where
  "artworkSourceFilter kind sources a \<longleftrightarrow>
     ia_kind a = kind_Prefix kind \<and>
     (sources = [] \<or>
      List.member (filter (\<lambda>s. s \<noteq> ArtworkSourceFailed) sources) (ia_source a) \<or>
      (List.member sources ArtworkSourceFailed \<and> ia_hash a = [] \<and> ia_lastFailure a \<noteq> []))"

definition CountBySource :: "art_kind \<Rightarrow> string list \<Rightarrow> art_db \<Rightarrow> nat" where
  "CountBySource kind sources d = length (filter (artworkSourceFilter kind sources) (ad_items d))"

definition SourcesInUse :: "art_kind \<Rightarrow> art_db \<Rightarrow> string list" where
  "SourcesInUse kind d = remdups (map ia_source (filter (\<lambda>a. ia_kind a = kind_Prefix kind) (ad_items d)))"

definition EnqueueBySource :: "time \<Rightarrow> bool \<Rightarrow> art_kind \<Rightarrow> string list \<Rightarrow> int \<Rightarrow> art_db \<Rightarrow> art_db \<times> bool" where
  "EnqueueBySource now err kind sources prio d =
     insertIfNotQueued err
       (map (\<lambda>a. new_item now (ia_kind a) (ia_id a) (ia_type a) prio) (filter (artworkSourceFilter kind sources) (ad_items d))) d"

text \<open>The due rows in the order of falling priority and then of their time in the queue.\<close>

definition DequeueBatch :: "time \<Rightarrow> nat \<Rightarrow> string list \<Rightarrow> art_db \<Rightarrow> art_item list" where
  "DequeueBatch now n kinds d =
     take n (sort_key (\<lambda>q. - aq_priority q) (sort_key aq_enqueuedAt
       (filter (\<lambda>q. aq_retryAt q \<le> now \<and> (kinds = [] \<or> List.member kinds (aq_kind q))) (ad_queue d))))"

definition MarkFailedIfUnchanged :: "bool \<Rightarrow> art_key \<Rightarrow> time \<Rightarrow> time \<Rightarrow> string \<Rightarrow> art_db \<Rightarrow> art_db" where
  "MarkFailedIfUnchanged err k seenRetryAt retryAt tr d =
     (if err then d
      else d\<lparr>ad_queue := map (\<lambda>q. if aq_key q = k \<and> aq_retryAt q = seenRetryAt
                               then q\<lparr>aq_attempts := aq_attempts q + 1, aq_retryAt := retryAt, aq_trace := tr\<rparr> else q)
                          (ad_queue d)\<rparr>)"

definition DeleteIfUnchanged :: "bool \<Rightarrow> art_key \<Rightarrow> time \<Rightarrow> art_db \<Rightarrow> art_db" where
  "DeleteIfUnchanged err k retryAt d =
     (if err then d else d\<lparr>ad_queue := filter (\<lambda>q. \<not> (aq_key q = k \<and> aq_retryAt q = retryAt)) (ad_queue d)\<rparr>)"

definition artworkQueueFilter :: "art_kind list \<Rightarrow> int list \<Rightarrow> art_item \<Rightarrow> bool" where
  "artworkQueueFilter kinds priorities q \<longleftrightarrow>
     (kinds = [] \<or> List.member (map kind_Prefix kinds) (aq_kind q)) \<and>
     (priorities = [] \<or> List.member priorities (aq_priority q))"

definition CountQueued :: "art_kind list \<Rightarrow> int list \<Rightarrow> art_db \<Rightarrow> (string \<times> int \<times> nat) list" where
  "CountQueued kinds priorities d =
     (let qs = filter (artworkQueueFilter kinds priorities) (ad_queue d) in
      map (\<lambda>(k, p). (k, p, length (filter (\<lambda>q. aq_kind q = k \<and> aq_priority q = p) qs)))
        (remdups (map (\<lambda>q. (aq_kind q, aq_priority q)) qs)))"

definition PurgeQueued :: "bool \<Rightarrow> art_kind list \<Rightarrow> int list \<Rightarrow> art_db \<Rightarrow> art_db" where
  "PurgeQueued err kinds priorities d =
     (if err then d else d\<lparr>ad_queue := filter (\<lambda>q. \<not> artworkQueueFilter kinds priorities q) (ad_queue d)\<rparr>)"

text \<open>\<open>purgeDangling\<close>: one statement per kind, in the order \<open>kinds\<close> in which Go walks its map.\<close>

definition dangling :: "art_db \<Rightarrow> art_kind \<Rightarrow> string \<Rightarrow> string \<Rightarrow> bool" where
  "dangling d kind pre i \<longleftrightarrow> pre = kind_Prefix kind \<and> \<not> List.member (ad_entities d) (kind, i)"

fun purgeDanglingQueue :: "bool list \<Rightarrow> art_kind list \<Rightarrow> art_db \<Rightarrow> art_db \<times> bool" where
  "purgeDanglingQueue errs [] d = (d, False)"
| "purgeDanglingQueue errs (k # ks) d =
     (if errs \<noteq> [] \<and> hd errs then (d, True)
      else purgeDanglingQueue (tl errs) ks
        (d\<lparr>ad_queue := filter (\<lambda>q. \<not> dangling d k (aq_kind q) (aq_id q)) (ad_queue d)\<rparr>))"

fun purgeDanglingItems :: "bool list \<Rightarrow> art_kind list \<Rightarrow> art_db \<Rightarrow> art_db \<times> bool" where
  "purgeDanglingItems errs [] d = (d, False)"
| "purgeDanglingItems errs (k # ks) d =
     (if errs \<noteq> [] \<and> hd errs then (d, True)
      else purgeDanglingItems (tl errs) ks
        (d\<lparr>ad_items := filter (\<lambda>a. \<not> dangling d k (ia_kind a) (ia_id a)) (ad_items d)\<rparr>))"

section \<open>Images and the state of items\<close>

definition GetImage :: "string \<Rightarrow> art_db \<Rightarrow> art_image option" where
  "GetImage h d = find (\<lambda>i. im_hash i = h) (ad_images d)"

definition PutImage :: "time \<Rightarrow> bool \<Rightarrow> art_image \<Rightarrow> art_db \<Rightarrow> art_db \<times> bool" where
  "PutImage now err i d =
     (if err then (d, True)
      else (let i' = i\<lparr>im_createdAt := now\<rparr> in
            (d\<lparr>ad_images := (if list_ex (\<lambda>r. im_hash r = im_hash i) (ad_images d)
                             then map (\<lambda>r. if im_hash r = im_hash i then i' else r) (ad_images d)
                             else ad_images d @ [i'])\<rparr>, False)))"

definition GetMimeByHash :: "art_db \<Rightarrow> (string \<rightharpoonup> string)" where
  "GetMimeByHash d = foldl (\<lambda>m r. m(im_hash r \<mapsto> im_mime r)) Map.empty (ad_images d)"

definition PurgeOrphans :: "bool \<Rightarrow> time \<Rightarrow> art_db \<Rightarrow> art_db \<times> bool" where
  "PurgeOrphans err createdBefore d =
     (if err then (d, True)
      else (d\<lparr>ad_images := filter (\<lambda>i. \<not> (im_createdAt i < createdBefore \<and>
                \<not> list_ex (\<lambda>a. ia_hash a \<noteq> [] \<and> ia_hash a = im_hash i) (ad_items d))) (ad_images d)\<rparr>, False))"

definition GetItemArtwork :: "bool \<Rightarrow> art_key \<Rightarrow> art_db \<Rightarrow> item_artwork option" where
  "GetItemArtwork err k d = (if err then None else find (\<lambda>a. ia_key a = k) (ad_items d))"

definition stamped :: "time \<Rightarrow> item_artwork \<Rightarrow> item_artwork" where
  "stamped now a =
     a\<lparr>ia_type := cmp_Or (ia_type a) ImageTypePrimary, ia_updatedAt := now,
       ia_attemptedAt := (if ia_attemptedAt a = zeroTime then now else ia_attemptedAt a)\<rparr>"

definition PutItemArtwork :: "time \<Rightarrow> bool \<Rightarrow> item_artwork \<Rightarrow> art_db \<Rightarrow> art_db \<times> bool" where
  "PutItemArtwork now err a d =
     (if err then (d, True)
      else (let a' = stamped now a in
            (d\<lparr>ad_items := (if list_ex (\<lambda>r. ia_key r = ia_key a') (ad_items d)
                            then map (\<lambda>r. if ia_key r = ia_key a' then a' else r) (ad_items d)
                            else ad_items d @ [a'])\<rparr>, False)))"

lemma stamped_simps [simp]: "ia_hash (stamped now a) = ia_hash a" "ia_source (stamped now a) = ia_source a"
  by (simp_all add: stamped_def)

lemma stamped_key: "ia_type a \<noteq> [] \<Longrightarrow> ia_key (stamped now a) = ia_key a"
  by (simp add: stamped_def ia_key_def cmp_Or_def)

definition PutLastFailure :: "bool \<Rightarrow> art_key \<Rightarrow> string \<Rightarrow> art_db \<Rightarrow> art_db" where
  "PutLastFailure err k tr d =
     (if err then d
      else d\<lparr>ad_items := map (\<lambda>a. if ia_key a = k then a\<lparr>ia_lastFailure := tr\<rparr> else a) (ad_items d)\<rparr>)"

definition artworkBatchSize :: nat where "artworkBatchSize = 200"

fun delete_items_chunks :: "bool list \<Rightarrow> art_kind \<Rightarrow> string list list \<Rightarrow> art_db \<Rightarrow> art_db \<times> bool" where
  "delete_items_chunks errs kind [] d = (d, False)"
| "delete_items_chunks errs kind (c # cs) d =
     (if errs \<noteq> [] \<and> hd errs then (d, True)
      else delete_items_chunks (tl errs) kind cs
        (d\<lparr>ad_items := filter (\<lambda>a. \<not> (ia_kind a = kind_Prefix kind \<and> List.member c (ia_id a))) (ad_items d)\<rparr>))"

definition DeleteForItems :: "bool list \<Rightarrow> art_kind \<Rightarrow> string list \<Rightarrow> art_db \<Rightarrow> art_db \<times> bool" where
  "DeleteForItems errs kind ids d = delete_items_chunks errs kind (art_chunks artworkBatchSize ids) d"

text \<open>The projection with which lists of items are hydrated: hash, placeholders and size, per item.\<close>

record item_info =
  ii_hash :: string
  ii_blurHash :: string
  ii_thumbHash :: string
  ii_dominantColor :: string
  ii_width :: int
  ii_height :: int

definition item_info_of :: "art_db \<Rightarrow> item_artwork \<Rightarrow> item_info" where
  "item_info_of d a =
     (case GetImage (ia_hash a) d of
        None \<Rightarrow> \<lparr>ii_hash = ia_hash a, ii_blurHash = [], ii_thumbHash = [], ii_dominantColor = [], ii_width = 0, ii_height = 0\<rparr>
      | Some i \<Rightarrow> \<lparr>ii_hash = ia_hash a, ii_blurHash = im_blurHash i, ii_thumbHash = im_thumbHash i,
                   ii_dominantColor = im_dominantColor i, ii_width = im_width i, ii_height = im_height i\<rparr>)"

fun info_chunks :: "bool list \<Rightarrow> art_kind \<Rightarrow> string list list \<Rightarrow> art_db \<Rightarrow> (string \<rightharpoonup> item_info) \<Rightarrow> (string \<rightharpoonup> item_info) option" where
  "info_chunks errs kind [] d res = Some res"
| "info_chunks errs kind (c # cs) d res =
     (if errs \<noteq> [] \<and> hd errs then None
      else info_chunks (tl errs) kind cs d
        (foldl (\<lambda>m a. m(ia_id a \<mapsto> item_info_of d a)) res
          (filter (\<lambda>a. ia_kind a = kind_Prefix kind \<and> ia_type a = ImageTypePrimary \<and> List.member c (ia_id a)) (ad_items d))))"

definition GetInfoForItems :: "bool list \<Rightarrow> art_kind \<Rightarrow> string list \<Rightarrow> art_db \<Rightarrow> (string \<rightharpoonup> item_info) option" where
  "GetInfoForItems errs kind ids d = info_chunks errs kind (art_chunks artworkBatchSize ids) d Map.empty"

section \<open>The image store\<close>

definition extForMime :: "string \<Rightarrow> string" where
  "extForMime m =
     (if m = ''image/jpeg'' then ''.jpg'' else if m = ''image/png'' then ''.png''
      else if m = ''image/gif'' then ''.gif'' else if m = ''image/webp'' then ''.webp'' else ''.img'')"

definition hex_char :: "char \<Rightarrow> bool" where
  "hex_char c \<longleftrightarrow> (of_char c :: nat) \<in> {48..57} \<union> {97..102}"

definition validHash :: "string \<Rightarrow> bool" where
  "validHash h \<longleftrightarrow> length h = 16 \<and> list_all hex_char h"

definition stored :: "string \<Rightarrow> string \<Rightarrow> store_file list \<Rightarrow> bool" where
  "stored h ext fs \<longleftrightarrow> list_ex (\<lambda>f. \<not> sf_temp f \<and> sf_name f = h \<and> sf_ext f = ext) fs"

text \<open>
  \<open>Write\<close> touches the file when it is there (\<open>touch_err\<close>: that fails), else writes a temporary file and
  renames it. \<open>err\<close> says that one of the file operations fails; the temporary file is then removed.
\<close>

definition store_Write :: "time \<Rightarrow> bool \<Rightarrow> bool \<Rightarrow> string \<Rightarrow> string \<Rightarrow> art_db \<Rightarrow> art_db \<times> bool" where
  "store_Write now touch_err err h mime d =
     (let ext = extForMime mime; same = (\<lambda>f. \<not> sf_temp f \<and> sf_name f = h \<and> sf_ext f = ext) in
      if \<not> validHash h then (d, True)
      else if stored h ext (ad_files d) \<and> \<not> touch_err
      then (d\<lparr>ad_files := map (\<lambda>f. if same f then f\<lparr>sf_mtime := now\<rparr> else f) (ad_files d)\<rparr>, False)
      else if err then (d, True)
      else (d\<lparr>ad_files := filter (\<lambda>f. \<not> same f) (ad_files d) @ [\<lparr>sf_name = h, sf_ext = ext, sf_temp = False, sf_mtime = now\<rparr>]\<rparr>, False))"

definition store_Open :: "string \<Rightarrow> string \<Rightarrow> art_db \<Rightarrow> bool" where
  "store_Open h mime d \<longleftrightarrow> validHash h \<and> stored h (extForMime mime) (ad_files d)"

text \<open>
  \<open>Sweep\<close> walks over the files; \<open>stop\<close> says at which file the walk ends with an error, \<open>stuck\<close> which files
  cannot be removed.
\<close>

definition sweep_removes :: "time \<Rightarrow> (string \<Rightarrow> string \<Rightarrow> bool) \<Rightarrow> store_file \<Rightarrow> bool" where
  "sweep_removes cutoff keep f \<longleftrightarrow>
     \<not> sf_mtime f > cutoff \<and> (sf_temp f \<or> \<not> keep (sf_name f) (sf_ext f))"

definition store_Sweep ::
  "nat option \<Rightarrow> (store_file \<Rightarrow> bool) \<Rightarrow> time \<Rightarrow> (string \<Rightarrow> string \<Rightarrow> bool) \<Rightarrow> art_db \<Rightarrow> art_db \<times> bool" where
  "store_Sweep stop stuck cutoff keep d =
     (let n = (case stop of None \<Rightarrow> length (ad_files d) | Some k \<Rightarrow> k) in
      (d\<lparr>ad_files := filter (\<lambda>f. \<not> (sweep_removes cutoff keep f \<and> \<not> stuck f)) (take n (ad_files d)) @ drop n (ad_files d)\<rparr>,
       stop \<noteq> None))"

end
