(* ===== verification/ArtworkWorker.thy ===== *)
theory ArtworkWorker
  imports ArtworkStore ArtworkGate "HOL-Library.AList"
begin

text \<open>
  The artwork worker: \<open>core/artwork/processor.go\<close>, \<open>worker.go\<close>, \<open>prune.go\<close> and parts of
  \<open>housekeeping.go\<close>, over the tables and files of \<open>ArtworkStore\<close>. What the resolver found for an item
  is an argument of type \<open>resolution\<close>; the hash function, the image decoders and the placeholder
  encoders are fields of \<open>art_env\<close>. The encoded trace of an attempt is the argument \<open>tr\<close>, a function
  of the source path. Which calls fail is given by flags.
\<close>

section \<open>Acquiring an image\<close>

datatype outcome = outcomeFound | outcomeFoundStale | outcomeAbsent | outcomeFailed

record resolution =
  rs_reader :: "string option"
  rs_readErr :: bool
  rs_source :: string
  rs_sourcePath :: string
  rs_refMtime :: int
  rs_extErr :: "ext_error option"
  rs_localError :: bool

datatype decode_error = ErrFormat | ErrDecode

text \<open>
  \<open>av_config\<close> is \<open>image.DecodeConfig\<close> with width, height and format, \<open>av_decode\<close> is \<open>image.Decode\<close> with the
  size of the image, \<open>av_placeholders\<close> has the blurhash, the thumbhash and the dominant colour.
\<close>

record art_env =
  av_hash :: "string \<Rightarrow> string"
  av_config :: "string \<Rightarrow> decode_error + int \<times> int \<times> string"
  av_decode :: "string \<Rightarrow> decode_error + int \<times> int"
  av_placeholders :: "string \<Rightarrow> string \<times> string \<times> string"
  av_limit :: nat

record acquire_errs =
  ae_lookup :: bool
  ae_touch :: bool
  ae_write :: bool
  ae_putImage :: bool
  ae_putItem :: bool

definition maxImagePixels :: int where "maxImagePixels = 67108864"

definition readCapped :: "art_env \<Rightarrow> resolution \<Rightarrow> string \<Rightarrow> string option" where
  "readCapped e res data = (if rs_readErr res \<or> length data > av_limit e then None else Some data)"

definition mimeForFormat :: "string \<Rightarrow> string" where
  "mimeForFormat f =
     (if f = ''jpeg'' then ''image/jpeg'' else if f = ''png'' then ''image/png'' else if f = ''gif'' then ''image/gif''
      else if f = ''webp'' then ''image/webp'' else ''application/octet-stream'')"

definition decodeCapped :: "art_env \<Rightarrow> string \<Rightarrow> decode_error + (int \<times> int) \<times> string" where
  "decodeCapped e data =
     (case av_config e data of
        Inl err \<Rightarrow> Inl err
      | Inr (w, h, fmt) \<Rightarrow>
          if w \<le> 0 \<or> h \<le> 0 \<or> w > maxImagePixels div h then Inl ErrDecode
          else (case av_decode e data of Inl err \<Rightarrow> Inl err | Inr b \<Rightarrow> Inr (b, fmt)))"

definition undecodedArtwork :: "string \<Rightarrow> art_image" where
  "undecodedArtwork h =
     \<lparr>im_hash = h, im_mime = mimeForFormat [], im_width = 0, im_height = 0, im_sizeBytes = 0, im_blurHash = [], im_thumbHash = [],
      im_dominantColor = [], im_createdAt = zeroTime\<rparr>"

definition decodeArtwork :: "art_env \<Rightarrow> string \<Rightarrow> string \<Rightarrow> decode_error + art_image" where
  "decodeArtwork e h data =
     (case decodeCapped e data of
        Inl err \<Rightarrow> Inl err
      | Inr (b, fmt) \<Rightarrow>
          (let p = av_placeholders e data in
           Inr \<lparr>im_hash = h, im_mime = mimeForFormat fmt, im_width = fst b, im_height = snd b, im_sizeBytes = 0,
                im_blurHash = fst p, im_thumbHash = fst (snd p), im_dominantColor = snd (snd p), im_createdAt = zeroTime\<rparr>))"

definition isFileBacked :: "string \<Rightarrow> bool" where
  "isFileBacked s \<longleftrightarrow> s = ''folder'' \<or> s = ''upload''"

definition isLocalSource :: "string \<Rightarrow> bool" where
  "isLocalSource s \<longleftrightarrow> isFileBacked s \<or> s = ''embedded''"

text \<open>The image row for bytes that were read: the known one, or a decoded one, or one without a size.\<close>

definition image_row :: "art_env \<Rightarrow> acquire_errs \<Rightarrow> resolution \<Rightarrow> string \<Rightarrow> art_db \<Rightarrow> art_image option" where
  "image_row e errs res data d =
     (let h = av_hash e data in
      if ae_lookup errs then None
      else if (case GetImage h d of Some a \<Rightarrow> im_width a > 0 | None \<Rightarrow> False) then GetImage h d
      else (case decodeArtwork e h data of
              Inr a \<Rightarrow> Some a
            | Inl err \<Rightarrow>
                if err = ErrFormat \<and> data \<noteq> [] \<and> isLocalSource (rs_source res) then Some (undecodedArtwork h) else None))"

text \<open>\<open>persist\<close>, in its three steps: the bytes, the image row, the state of the item.\<close>

definition placeBytes ::
  "time \<Rightarrow> acquire_errs \<Rightarrow> art_image \<Rightarrow> resolution \<Rightarrow> art_db \<Rightarrow> art_db \<times> (string \<times> int) option" where
  "placeBytes now errs a res d =
     (if isFileBacked (rs_source res) then (d, Some (rs_sourcePath res, rs_refMtime res))
      else (let src = (if rs_source res = ''embedded'' then (rs_sourcePath res, rs_refMtime res) else ([], 0));
                (d1, failed) = store_Write now (ae_touch errs) (ae_write errs) (im_hash a) (im_mime a) d
            in (d1, if failed then None else Some src)))"

definition found_state ::
  "time \<Rightarrow> (string \<Rightarrow> string) \<Rightarrow> art_item \<Rightarrow> art_image \<Rightarrow> resolution \<Rightarrow> string \<times> int \<Rightarrow> item_artwork" where
  "found_state now tr it a res src =
     \<lparr>ia_kind = aq_kind it, ia_id = aq_id it, ia_type = aq_type it, ia_hash = im_hash a, ia_source = rs_source res,
      ia_sourcePath = fst src, ia_refMtime = snd src, ia_trace = tr (fst src), ia_lastFailure = [],
      ia_attemptedAt = now, ia_updatedAt = zeroTime\<rparr>"

definition art_persist ::
  "time \<Rightarrow> acquire_errs \<Rightarrow> (string \<Rightarrow> string) \<Rightarrow> art_item \<Rightarrow> art_image \<Rightarrow> resolution \<Rightarrow> art_db \<Rightarrow> art_db \<times> bool" where
  "art_persist now errs tr it a res d =
     (let (d1, src) = placeBytes now errs a res d in
      case src of
        None \<Rightarrow> (d1, True)
      | Some src \<Rightarrow>
          (let (d2, failed) = PutImage now (ae_putImage errs) a d1 in
           if failed then (d2, True)
           else PutItemArtwork now (ae_putItem errs) (found_state now tr it a res src) d2))"

definition absent_state :: "time \<Rightarrow> (string \<Rightarrow> string) \<Rightarrow> art_item \<Rightarrow> item_artwork" where
  "absent_state now tr it =
     \<lparr>ia_kind = aq_kind it, ia_id = aq_id it, ia_type = aq_type it, ia_hash = [], ia_source = [], ia_sourcePath = [],
      ia_refMtime = 0, ia_trace = tr [], ia_lastFailure = [], ia_attemptedAt = now, ia_updatedAt = zeroTime\<rparr>"

definition writeAbsent :: "time \<Rightarrow> bool \<Rightarrow> (string \<Rightarrow> string) \<Rightarrow> art_item \<Rightarrow> art_db \<Rightarrow> art_db \<times> outcome" where
  "writeAbsent now err tr it d =
     (let (d1, failed) = PutItemArtwork now err (absent_state now tr it) d
      in (d1, if failed then outcomeFailed else outcomeAbsent))"

definition retry_hint :: "resolution \<Rightarrow> duration" where
  "retry_hint res =
     (case rs_extErr res of None \<Rightarrow> 0 | Some e \<Rightarrow> (case ee_retryIn e of None \<Rightarrow> 0 | Some t \<Rightarrow> t))"

text \<open>\<open>None\<close> for the resolution is an error of \<open>resolve\<close>.\<close>

definition art_acquire ::
  "art_env \<Rightarrow> time \<Rightarrow> acquire_errs \<Rightarrow> (string \<Rightarrow> string) \<Rightarrow> art_item \<Rightarrow> resolution option \<Rightarrow> art_db \<Rightarrow> art_db \<times> outcome \<times> duration" where
  "art_acquire e now errs tr it resolved d =
     (case resolved of
        None \<Rightarrow> (d, outcomeFailed, 0)
      | Some res \<Rightarrow>
          (case rs_reader res of
             None \<Rightarrow>
               if rs_extErr res \<noteq> None \<or> rs_localError res then (d, outcomeFailed, retry_hint res)
               else (let (d1, out) = writeAbsent now (ae_putItem errs) tr it d in (d1, out, 0))
           | Some r \<Rightarrow>
               (case readCapped e res r of
                  None \<Rightarrow> (d, outcomeFailed, retry_hint res)
                | Some data \<Rightarrow>
                    (case image_row e errs res data d of
                       None \<Rightarrow> (d, outcomeFailed, retry_hint res)
                     | Some a \<Rightarrow>
                         (let (d1, failed) = art_persist now errs tr it (a\<lparr>im_sizeBytes := int (length data)\<rparr>) res d in
                          (d1, if failed then outcomeFailed else if rs_extErr res \<noteq> None then outcomeFoundStale else outcomeFound,
                           retry_hint res))))))"

section \<open>Settling the queue\<close>

definition backoffBase :: duration where "backoffBase = 5 * Second"
definition giveUpAfter :: duration where "giveUpAfter = 43200 * Second"

definition backoffFor :: "nat \<Rightarrow> rat \<Rightarrow> duration" where
  "backoffFor attempts jitter = trunc_rat (of_int (min (backoffBase * 4 ^ attempts) giveUpAfter) * (1 + jitter))"

text \<open>\<open>jitter\<close> is the random number \<open>rand.Float64()*0.8-0.4\<close>.\<close>

definition retryDelay :: "rat \<Rightarrow> nat \<Rightarrow> duration \<Rightarrow> duration" where
  "retryDelay jitter attempts hint = max (backoffFor attempts jitter) hint"

definition KeepsState :: "art_kind \<Rightarrow> bool" where
  "KeepsState k \<longleftrightarrow> k \<noteq> KindDisc"

definition settlesAbsentOnGiveUp :: "string \<Rightarrow> bool" where
  "settlesAbsentOnGiveUp p = (case ParseKind p of None \<Rightarrow> False | Some k \<Rightarrow> KeepsState k \<and> k \<noteq> KindMediaFile)"

definition hasResolvedArtwork :: "bool \<Rightarrow> art_item \<Rightarrow> art_db \<Rightarrow> bool" where
  "hasResolvedArtwork err it d =
     (case ParseKind (aq_kind it) of
        None \<Rightarrow> False
      | Some _ \<Rightarrow> (case GetItemArtwork err (aq_key it) d of None \<Rightarrow> False | Some a \<Rightarrow> ia_hash a \<noteq> []))"

definition recordGiveUp :: "bool \<Rightarrow> art_item \<Rightarrow> string \<Rightarrow> art_db \<Rightarrow> art_db" where
  "recordGiveUp err it tr d =
     (case ParseKind (aq_kind it) of None \<Rightarrow> d | Some _ \<Rightarrow> PutLastFailure err (aq_key it) tr d)"

record settle_errs =
  se_delete :: bool
  se_mark :: bool
  se_get :: bool
  se_absent :: bool
  se_last :: bool

text \<open>The part of \<open>process\<close> after \<open>acquire\<close>.\<close>

definition settle ::
  "time \<Rightarrow> rat \<Rightarrow> settle_errs \<Rightarrow> (string \<Rightarrow> string) \<Rightarrow> art_item \<Rightarrow> outcome \<Rightarrow> duration \<Rightarrow> art_db \<Rightarrow> art_db" where
  "settle now jitter errs tr it out retryIn d =
     (if out = outcomeFound \<or> out = outcomeAbsent
      then DeleteIfUnchanged (se_delete errs) (aq_key it) (aq_retryAt it) d
      else (let retryAt = now + retryDelay jitter (aq_attempts it) retryIn in
            if retryAt < aq_enqueuedAt it + giveUpAfter
            then MarkFailedIfUnchanged (se_mark errs) (aq_key it) (aq_retryAt it) retryAt (tr []) d
            else (let d1 = (if out = outcomeFailed \<and> settlesAbsentOnGiveUp (aq_kind it) \<and> \<not> hasResolvedArtwork (se_get errs) it d
                            then fst (writeAbsent now (se_absent errs) tr it d) else d);
                      d2 = recordGiveUp (se_last errs) it (tr []) d1
                  in DeleteIfUnchanged (se_delete errs) (aq_key it) (aq_retryAt it) d2)))"

definition with_type :: "art_item \<Rightarrow> art_item" where
  "with_type it = it\<lparr>aq_type := cmp_Or (aq_type it) ImageTypePrimary\<rparr>"

definition art_process ::
  "art_env \<Rightarrow> time \<Rightarrow> time \<Rightarrow> rat \<Rightarrow> acquire_errs \<Rightarrow> settle_errs \<Rightarrow> (string \<Rightarrow> string) \<Rightarrow> art_item \<Rightarrow> resolution option \<Rightarrow> art_db \<Rightarrow>
   art_db \<times> outcome" where
  "art_process e now later jitter aerrs serrs tr item resolved d =
     (let it = with_type item;
          (d1, out, retryIn) = art_acquire e now aerrs tr it resolved d
      in (settle later jitter serrs tr it out retryIn d1, out))"

section \<open>Pools and housekeeping\<close>

text \<open>The slots of the local and of the external pool, of \<open>budget\<close> connections.\<close>

definition newDrainPools :: "int \<Rightarrow> int \<Rightarrow> int \<Rightarrow> int \<times> int" where
  "newDrainPools budget workers rps =
     (let loc = min (max 1 workers) (budget - 1) in (loc, min (max 2 (2 * rps)) (budget - loc)))"

definition drain_batch_size :: "int \<Rightarrow> nat" where
  "drain_batch_size slots = nat (max 16 (4 * slots))"

definition externalDrainKinds :: "string list" where
  "externalDrainKinds = [kind_Prefix KindArtist]"

definition localDrainKinds :: "string list" where
  "localDrainKinds = map kind_Prefix [KindAlbum, KindPlaylist, KindRadio, KindMediaFile]"

text \<open>The IDs that \<open>broadcastRefresh\<close> announces, by the resource names of the user interface.\<close>

definition artworkKindToResource :: "art_kind \<Rightarrow> string option" where
  "artworkKindToResource k =
     (case k of KindAlbum \<Rightarrow> Some ''album'' | KindArtist \<Rightarrow> Some ''artist'' | KindPlaylist \<Rightarrow> Some ''playlist''
              | KindRadio \<Rightarrow> Some ''radio'' | KindMediaFile \<Rightarrow> Some ''song'' | KindDisc \<Rightarrow> None)"

definition broadcastRefresh :: "art_item list \<Rightarrow> (string \<times> string list) list" where
  "broadcastRefresh found =
     foldl (\<lambda>m it. case ParseKind (aq_kind it) of
                     None \<Rightarrow> m
                   | Some k \<Rightarrow> (case artworkKindToResource k of
                                 None \<Rightarrow> m
                               | Some r \<Rightarrow> AList.map_default r [aq_id it] (\<lambda>ids. ids @ [aq_id it]) m)) [] found"

definition ReprocessKinds :: "art_kind list" where
  "ReprocessKinds = [KindArtist, KindAlbum, KindPlaylist, KindRadio]"

fun enqueueMissingAll :: "time \<Rightarrow> bool list \<Rightarrow> art_kind list \<Rightarrow> art_db \<Rightarrow> art_db \<times> bool" where
  "enqueueMissingAll now errs [] d = (d, False)"
| "enqueueMissingAll now errs (k # ks) d =
     (let (d1, failed) = EnqueueAllMissing now (errs \<noteq> [] \<and> hd errs) k ArtworkPriorityRecheck d
      in if failed then (d1, True) else enqueueMissingAll now (tl errs) ks d1)"

definition art_Refresh :: "time \<Rightarrow> bool list \<Rightarrow> bool list \<Rightarrow> art_kind \<Rightarrow> string \<Rightarrow> art_db \<Rightarrow> art_db \<times> bool" where
  "art_Refresh now derrs qerrs kind i d =
     (let (d1, failed) = DeleteForItems derrs kind [i] d in
      if failed then (d1, True)
      else aq_Enqueue now qerrs [new_item now (kind_Prefix kind) i ImageTypePrimary ArtworkPriorityBump] d1)"

definition pruneMinAge :: duration where "pruneMinAge = 3600 * Second"

definition prune_keep :: "(string \<rightharpoonup> string) \<Rightarrow> string \<Rightarrow> string \<Rightarrow> bool" where
  "prune_keep mimes h ext = (case mimes h of None \<Rightarrow> False | Some m \<Rightarrow> ext = extForMime m)"

record prune_errs =
  pe_items :: "bool list"
  pe_queue :: "bool list"
  pe_orphans :: bool
  pe_mimes :: bool
  pe_stop :: "nat option"
  pe_stuck :: "store_file \<Rightarrow> bool"

definition art_prune :: "time \<Rightarrow> prune_errs \<Rightarrow> art_kind list \<Rightarrow> art_kind list \<Rightarrow> art_db \<Rightarrow> art_db \<times> bool" where
  "art_prune now errs ks1 ks2 d =
     (let (d1, f1) = purgeDanglingItems (pe_items errs) ks1 d in
      if f1 then (d1, True)
      else (let (d2, f2) = purgeDanglingQueue (pe_queue errs) ks2 d1 in
            if f2 then (d2, True)
            else (let cutoff = now - pruneMinAge; (d3, f3) = PurgeOrphans (pe_orphans errs) cutoff d2 in
                  if f3 \<or> pe_mimes errs then (d3, True)
                  else store_Sweep (pe_stop errs) (pe_stuck errs) cutoff (prune_keep (GetMimeByHash d3)) d3)))"

section \<open>What an attempt leaves of the artwork\<close>

text \<open>The hash that is on record for an item; the empty one says that it has no artwork.\<close>

definition served :: "art_key \<Rightarrow> art_db \<Rightarrow> string option" where
  "served k d = map_option ia_hash (find (\<lambda>a. ia_key a = k) (ad_items d))"

lemma served_cong: "ad_items d' = ad_items d \<Longrightarrow> served k d' = served k d"
  by (simp add: served_def)

lemma find_replace:
  assumes "ia_key b = ia_key a"
  shows "map_option ia_hash (find (\<lambda>r. ia_key r = k)
      (if list_ex (\<lambda>r. ia_key r = ia_key a) rows then map (\<lambda>r. if ia_key r = ia_key a then b else r) rows else rows @ [b])) =
    (if k = ia_key a then Some (ia_hash b) else map_option ia_hash (find (\<lambda>r. ia_key r = k) rows))"
proof -
  have "find (\<lambda>r. ia_key r = k) (map (\<lambda>r. if ia_key r = ia_key a then b else r) rows) =
      (if k = ia_key a then (if list_ex (\<lambda>r. ia_key r = ia_key a) rows then Some b else None) else find (\<lambda>r. ia_key r = k) rows)"
    using assms by (induction rows) auto
  moreover have "find (\<lambda>r. ia_key r = k) (rows @ [b]) =
      (if \<not> list_ex (\<lambda>r. ia_key r = k) rows \<and> k = ia_key a then Some b else find (\<lambda>r. ia_key r = k) rows)"
    using assms by (induction rows) auto
  ultimately show ?thesis by auto
qed

lemma PutItemArtwork_failed [simp]: "snd (PutItemArtwork now err a d) = err"
  by (simp add: PutItemArtwork_def Let_def)

lemma served_put:
  assumes "ia_type a \<noteq> []"
  shows "served k (fst (PutItemArtwork now err a d)) = (if \<not> err \<and> k = ia_key a then Some (ia_hash a) else served k d)"
proof (cases err)
  case False
  let ?b = "stamped now a"
  have items: "ad_items (fst (PutItemArtwork now err a d)) =
    (if list_ex (\<lambda>r. ia_key r = ia_key ?b) (ad_items d) then map (\<lambda>r. if ia_key r = ia_key ?b then ?b else r) (ad_items d)
     else ad_items d @ [?b])" using False by (simp add: PutItemArtwork_def Let_def)
  have "served k (fst (PutItemArtwork now err a d)) =
    (if k = ia_key ?b then Some (ia_hash ?b) else map_option ia_hash (find (\<lambda>r. ia_key r = k) (ad_items d)))"
    unfolding served_def items by (rule find_replace [OF refl])
  then show ?thesis using False by (simp only: stamped_key [OF assms] stamped_simps served_def simp_thms)
qed (simp add: PutItemArtwork_def)

lemma served_absent:
  assumes "aq_type it \<noteq> []"
  shows "served k (fst (writeAbsent now err tr it d)) = (if \<not> err \<and> k = aq_key it then Some [] else served k d)"
proof -
  have a: "ia_type (absent_state now tr it) \<noteq> []" "ia_key (absent_state now tr it) = aq_key it" "ia_hash (absent_state now tr it) = []"
    using assms by (simp_all add: absent_state_def ia_key_def aq_key_def)
  show ?thesis using served_put [OF a(1), of k now err d] by (simp add: writeAbsent_def case_prod_unfold a)
qed

lemma served_last [simp]: "served k (PutLastFailure err k' tr d) = served k d"
proof -
  have "map_option ia_hash (find (\<lambda>a. ia_key a = k) (map (\<lambda>a. if ia_key a = k' then a\<lparr>ia_lastFailure := tr\<rparr> else a) rows)) =
    map_option ia_hash (find (\<lambda>a. ia_key a = k) rows)" for rows
    by (induction rows) (auto simp: ia_key_def)
  then show ?thesis by (simp add: PutLastFailure_def served_def)
qed

lemma served_queue [simp]:
  "served k (DeleteIfUnchanged err k' t d) = served k d" "served k (MarkFailedIfUnchanged err k' t t' tr d) = served k d"
  "served k (recordGiveUp err it tr d) = served k d"
  by (auto simp: DeleteIfUnchanged_def MarkFailedIfUnchanged_def recordGiveUp_def served_def split: option.splits)
    (metis served_def served_last)

lemma hasResolved_served:
  assumes "\<not> hasResolvedArtwork False it d" "settlesAbsentOnGiveUp (aq_kind it)"
  shows "served (aq_key it) d \<in> {None, Some []}"
  using assms by (auto simp: hasResolvedArtwork_def settlesAbsentOnGiveUp_def GetItemArtwork_def served_def split: option.splits)

lemma settle_served:
  assumes "\<not> se_get errs" "aq_type it \<noteq> []"
  shows "served k (settle now jitter errs tr it out retryIn d) = served k d \<or>
    out = outcomeFailed \<and> k = aq_key it \<and> served k d \<in> {None, Some []} \<and> served k (settle now jitter errs tr it out retryIn d) = Some []"
proof (cases "out = outcomeFailed \<and> settlesAbsentOnGiveUp (aq_kind it) \<and> \<not> hasResolvedArtwork (se_get errs) it d")
  case True
  then have "served (aq_key it) d \<in> {None, Some []}" using hasResolved_served assms(1) by simp
  then show ?thesis using True assms by (auto simp: settle_def Let_def served_absent)
next
  case False
  then show ?thesis unfolding settle_def Let_def if_not_P [OF False] by simp
qed

lemma persist_served:
  assumes "aq_type it \<noteq> []"
  shows "served k (fst (art_persist now errs tr it a res d)) =
    (if \<not> snd (art_persist now errs tr it a res d) \<and> k = aq_key it then Some (im_hash a) else served k d)"
proof -
  obtain d1 src where p: "placeBytes now errs a res d = (d1, src)" by fastforce
  then have s1: "served k d1 = served k d"
    by (intro served_cong) (auto simp: placeBytes_def store_Write_def Let_def split: if_splits)
  show ?thesis
  proof (cases src)
    case (Some src')
    obtain d2 f2 where i: "PutImage now (ae_putImage errs) a d1 = (d2, f2)" by fastforce
    then have s2: "served k d2 = served k d1" by (intro served_cong) (auto simp: PutImage_def Let_def split: if_splits)
    have "ia_key (found_state now tr it a res src') = aq_key it" "ia_hash (found_state now tr it a res src') = im_hash a"
      "ia_type (found_state now tr it a res src') \<noteq> []" using assms by (simp_all add: found_state_def ia_key_def aq_key_def)
    then show ?thesis
      using s1 s2 Some served_put [of "found_state now tr it a res src'" k now "ae_putItem errs" d2]
      by (cases "ae_putItem errs"; cases "k = aq_key it") (simp_all add: art_persist_def p i)
  qed (simp add: art_persist_def p s1)
qed

lemma image_row_hash: "image_row e errs res data d = Some a \<Longrightarrow> im_hash a = av_hash e data"
  by (auto simp: image_row_def Let_def GetImage_def find_Some_iff decodeArtwork_def undecodedArtwork_def split: if_splits sum.splits option.splits)

lemma acquire_cases:
  assumes "art_acquire e now errs tr it resolved d = (d', out, retryIn)"
  obtains (same) "d' = d" "out = outcomeFailed"
    | (absent) res where "resolved = Some res" "rs_reader res = None" "rs_extErr res = None" "\<not> rs_localError res"
        "d' = fst (writeAbsent now (ae_putItem errs) tr it d)" "out = (if ae_putItem errs then outcomeFailed else outcomeAbsent)"
    | (found) res data b where "resolved = Some res" "rs_reader res = Some data" "im_hash b = av_hash e data"
        "d' = fst (art_persist now errs tr it b res d)"
        "out = (if snd (art_persist now errs tr it b res d) then outcomeFailed
                else if rs_extErr res \<noteq> None then outcomeFoundStale else outcomeFound)"
proof (cases resolved)
  case None
  then show ?thesis using assms same by (simp add: art_acquire_def)
next
  case res: (Some res)
  show ?thesis
  proof (cases "rs_reader res")
    case None
    then show ?thesis using assms res same absent [of res]
      by (cases "rs_extErr res \<noteq> None \<or> rs_localError res") (auto simp: art_acquire_def case_prod_unfold writeAbsent_def)
  next
    case r: (Some r)
    show ?thesis
    proof (cases "rs_readErr res \<or> length r > av_limit e \<or> image_row e errs res r d = None")
      case True
      have "d' = d \<and> out = outcomeFailed"
      proof (cases "rs_readErr res \<or> length r > av_limit e")
        case True
        then show ?thesis using assms res r by (simp add: art_acquire_def readCapped_def)
      next
        case False
        then show ?thesis using True assms res r by (simp add: art_acquire_def readCapped_def)
      qed
      then show ?thesis using same by simp
    next
      case False
      then obtain a where a: "image_row e errs res r d = Some a" by auto
      let ?b = "a\<lparr>im_sizeBytes := int (length r)\<rparr>"
      have "im_hash ?b = av_hash e r" using image_row_hash [OF a] by simp
      then show ?thesis using assms res r False a
        by (intro found [of res r ?b]) (auto simp: art_acquire_def readCapped_def case_prod_unfold Let_def)
    qed
  qed
qed

lemma acquire_served:
  assumes a: "art_acquire e now errs tr it resolved d = (d', out, retryIn)" and ty: "aq_type it \<noteq> []"
  shows "k \<noteq> aq_key it \<Longrightarrow> served k d' = served k d"
    "out = outcomeFound \<or> out = outcomeFoundStale \<Longrightarrow>
      \<exists>res data. resolved = Some res \<and> rs_reader res = Some data \<and> served (aq_key it) d' = Some (av_hash e data)"
    "out = outcomeAbsent \<Longrightarrow>
      \<exists>res. resolved = Some res \<and> rs_reader res = None \<and> rs_extErr res = None \<and> \<not> rs_localError res \<and> served (aq_key it) d' = Some []"
    "out = outcomeFailed \<Longrightarrow> served (aq_key it) d' = served (aq_key it) d"
proof -
  note c = acquire_cases [OF a]
  show "k \<noteq> aq_key it \<Longrightarrow> served k d' = served k d"
    by (rule c) (simp_all add: served_absent [OF ty] persist_served [OF ty])
  show "out = outcomeFound \<or> out = outcomeFoundStale \<Longrightarrow>
      \<exists>res data. resolved = Some res \<and> rs_reader res = Some data \<and> served (aq_key it) d' = Some (av_hash e data)"
    by (rule c) (simp_all add: persist_served [OF ty] split: if_splits)
  show "out = outcomeAbsent \<Longrightarrow>
      \<exists>res. resolved = Some res \<and> rs_reader res = None \<and> rs_extErr res = None \<and> \<not> rs_localError res \<and> served (aq_key it) d' = Some []"
    by (rule c) (simp_all add: served_absent [OF ty] split: if_splits)
  show "out = outcomeFailed \<Longrightarrow> served (aq_key it) d' = served (aq_key it) d"
    by (rule c) (simp_all add: served_absent [OF ty] persist_served [OF ty] split: if_splits)
qed

lemma with_type_ne [simp]: "aq_type (with_type it) \<noteq> []"
  by (simp add: with_type_def cmp_Or_def ImageTypePrimary_def)


definition demo_served :: art_db where
  "demo_served = \<lparr>ad_queue = [], ad_items = [stamped 1 (found_state 1 (\<lambda>_. []) (new_item 0 ''ar'' ''x'' ''primary'' 50)
     (undecodedArtwork ''0123456789abcdef'') \<lparr>rs_reader = None, rs_readErr = False, rs_source = ''external'', rs_sourcePath = [],
       rs_refMtime = 0, rs_extErr = None, rs_localError = False\<rparr> ([], 0))], ad_images = [], ad_files = [], ad_entities = []\<rparr>"

definition demo_fault :: resolution where
  "demo_fault = \<lparr>rs_reader = None, rs_readErr = False, rs_source = [], rs_sourcePath = [], rs_refMtime = 0, rs_extErr = None,
     rs_localError = True\<rparr>"

definition demo_attempt :: "bool \<Rightarrow> art_db \<times> outcome" where
  "demo_attempt get_err =
     art_process \<lparr>av_hash = id, av_config = (\<lambda>_. Inl ErrFormat), av_decode = (\<lambda>_. Inl ErrFormat), av_placeholders = (\<lambda>_. ([], [], [])), av_limit = 9\<rparr>
       (giveUpAfter + 1) (giveUpAfter + 2) 0
       \<lparr>ae_lookup = False, ae_touch = False, ae_write = False, ae_putImage = False, ae_putItem = False\<rparr>
       \<lparr>se_delete = False, se_mark = False, se_get = get_err, se_absent = False, se_last = False\<rparr>
       (\<lambda>_. ''[]'') (new_item 0 ''ar'' ''x'' ''primary'' 50) (Some demo_fault) demo_served"


text \<open>
  When the lookup of the present state fails, the item counts as one without artwork and the artwork
  that is served is replaced by its absence, although the comment in \<open>process\<close> says it is kept.
\<close>

lemma failed_lookup_drops_artwork:
  "snd (demo_attempt True) = outcomeFailed \<and> served (''ar'', ''x'', ''primary'') demo_served = Some ''0123456789abcdef'' \<and>
   served (''ar'', ''x'', ''primary'') (fst (demo_attempt True)) = Some []"
  by code_simp

text \<open>The pools share the connections: both have a slot, and together they take no more than there are.\<close>

lemma drain_pools_within_budget:
  assumes "budget \<ge> 4" "newDrainPools budget workers rps = (loc, ext)"
  shows "1 \<le> loc \<and> 1 \<le> ext \<and> loc + ext \<le> budget"
  using assms by (auto simp: newDrainPools_def Let_def min_def max_def split: if_splits)

text \<open>Accepted images are within the pixel cap, also where the product of the sizes would not fit an \<open>int64\<close>.\<close>

lemma decoded_within_cap:
  assumes "decodeCapped e data = Inr r" "av_config e data = Inr (w, h, fmt)"
  shows "0 < w \<and> 0 < h \<and> w * h \<le> maxImagePixels"
proof -
  have wh: "0 < w" "0 < h" "w \<le> maxImagePixels div h" using assms by (auto simp: decodeCapped_def split: if_splits)
  then have "w * h \<le> maxImagePixels div h * h" by (intro mult_right_mono) auto
  also have "\<dots> \<le> maxImagePixels" using wh(2) by (simp flip: minus_mod_eq_div_mult)
  finally show ?thesis using wh by simp
qed

end
