(* ===== verification/ArtworkPrune.thy ===== *)
theory ArtworkPrune
  imports ArtworkWorker
begin

text \<open>
  Acquisitions against the pruning of orphans. Acquisitions run concurrently and hold the prune lock
  for reading while they place the bytes and write the two rows; the pruning holds it for writing.
  Every other writer, including the one that deletes the state of an item, runs at any time. A step
  is one statement or one file operation of one of them.
\<close>

section \<open>The system\<close>

datatype job_stage = Looked | Placed "string \<times> int" | Imaged "string \<times> int"

record art_job =
  jb_item :: art_item
  jb_image :: art_image
  jb_res :: resolution
  jb_stage :: job_stage

datatype prune_pc = PruneRows | PruneOrphaned | PruneSweep "string \<rightharpoonup> string"

record art_sys =
  sy_db :: art_db
  sy_jobs :: "art_job list"
  sy_prune :: "prune_pc option"

definition holds_lock :: "art_job \<Rightarrow> bool" where
  "holds_lock j = (case jb_stage j of Looked \<Rightarrow> False | _ \<Rightarrow> True)"

inductive art_step :: "art_env \<Rightarrow> art_sys \<Rightarrow> art_sys \<Rightarrow> bool" for e :: art_env where
  look: "image_row e errs res data (sy_db s) = Some a \<Longrightarrow>
    art_step e s (s\<lparr>sy_jobs := sy_jobs s @
      [\<lparr>jb_item = it, jb_image = a\<lparr>im_sizeBytes := int (length data)\<rparr>, jb_res = res, jb_stage = Looked\<rparr>]\<rparr>)"
| place: "sy_jobs s = js1 @ j # js2 \<Longrightarrow> jb_stage j = Looked \<Longrightarrow> sy_prune s = None \<Longrightarrow>
    placeBytes now errs (jb_image j) (jb_res j) (sy_db s) = (d, Some src) \<Longrightarrow>
    art_step e s (s\<lparr>sy_db := d, sy_jobs := js1 @ j\<lparr>jb_stage := Placed src\<rparr> # js2\<rparr>)"
| place_failed: "sy_jobs s = js1 @ j # js2 \<Longrightarrow> jb_stage j = Looked \<Longrightarrow> sy_prune s = None \<Longrightarrow>
    placeBytes now errs (jb_image j) (jb_res j) (sy_db s) = (d, None) \<Longrightarrow>
    art_step e s (s\<lparr>sy_db := d, sy_jobs := js1 @ js2\<rparr>)"
| put_image: "sy_jobs s = js1 @ j # js2 \<Longrightarrow> jb_stage j = Placed src \<Longrightarrow>
    PutImage now False (jb_image j) (sy_db s) = (d, failed) \<Longrightarrow>
    art_step e s (s\<lparr>sy_db := d, sy_jobs := js1 @ j\<lparr>jb_stage := Imaged src\<rparr> # js2\<rparr>)"
| put_item: "sy_jobs s = js1 @ j # js2 \<Longrightarrow> jb_stage j = Imaged src \<Longrightarrow>
    PutItemArtwork now False (found_state now tr (jb_item j) (jb_image j) (jb_res j) src) (sy_db s) = (d, failed) \<Longrightarrow>
    art_step e s (s\<lparr>sy_db := d, sy_jobs := js1 @ js2\<rparr>)"
| abandon: "sy_jobs s = js1 @ j # js2 \<Longrightarrow> art_step e s (s\<lparr>sy_jobs := js1 @ js2\<rparr>)"
| absent: "art_step e s (s\<lparr>sy_db := fst (writeAbsent now err tr it (sy_db s))\<rparr>)"
| settle_item: "art_step e s (s\<lparr>sy_db := settle now jitter errs tr it out retryIn (sy_db s)\<rparr>)"
| refresh: "art_step e s (s\<lparr>sy_db := fst (art_Refresh now derrs qerrs kind i (sy_db s))\<rparr>)"
| elsewhere: "art_step e s (s\<lparr>sy_db := (sy_db s)\<lparr>ad_queue := q, ad_entities := ents\<rparr>\<rparr>)"
| prune_start: "sy_prune s = None \<Longrightarrow> \<not> list_ex holds_lock (sy_jobs s) \<Longrightarrow> art_step e s (s\<lparr>sy_prune := Some PruneRows\<rparr>)"
| prune_items: "sy_prune s = Some PruneRows \<Longrightarrow>
    art_step e s (s\<lparr>sy_db := fst (purgeDanglingItems errs ks (sy_db s))\<rparr>)"
| prune_queue: "sy_prune s = Some PruneRows \<Longrightarrow>
    art_step e s (s\<lparr>sy_db := fst (purgeDanglingQueue errs ks (sy_db s))\<rparr>)"
| prune_orphans: "sy_prune s = Some PruneRows \<Longrightarrow>
    art_step e s (s\<lparr>sy_db := fst (PurgeOrphans err cutoff (sy_db s)), sy_prune := Some PruneOrphaned\<rparr>)"
| prune_mimes: "sy_prune s = Some PruneOrphaned \<Longrightarrow>
    art_step e s (s\<lparr>sy_prune := Some (PruneSweep (GetMimeByHash (sy_db s)))\<rparr>)"
| prune_sweep: "sy_prune s = Some (PruneSweep m) \<Longrightarrow>
    art_step e s (s\<lparr>sy_db := fst (store_Sweep stop stuck cutoff (prune_keep m) (sy_db s))\<rparr>)"
| prune_end: "art_step e s (s\<lparr>sy_prune := None\<rparr>)"

inductive_cases art_stepE: "art_step e s t"

section \<open>The invariant\<close>

text \<open>The MIME type that bytes get; a hash has a type if some bytes with this hash do.\<close>

definition mime_of :: "art_env \<Rightarrow> string \<Rightarrow> string" where
  "mime_of e data = (case decodeArtwork e (av_hash e data) data of Inr a \<Rightarrow> im_mime a | Inl _ \<Rightarrow> mimeForFormat [])"

definition typed_image :: "art_env \<Rightarrow> art_image \<Rightarrow> bool" where
  "typed_image e a \<longleftrightarrow> (\<exists>data. av_hash e data = im_hash a \<and> mime_of e data = im_mime a)"

definition backed :: "art_db \<Rightarrow> string \<Rightarrow> string \<Rightarrow> bool" where
  "backed d h src \<longleftrightarrow>
     (\<exists>i. GetImage h d = Some i \<and> (isFileBacked src \<or> store_Open h (im_mime i) d))"

definition intact :: "art_db \<Rightarrow> bool" where
  "intact d \<longleftrightarrow> (\<forall>a\<in>set (ad_items d). ia_hash a \<noteq> [] \<longrightarrow> backed d (ia_hash a) (ia_source a))"

definition job_ok :: "art_env \<Rightarrow> art_db \<Rightarrow> art_job \<Rightarrow> bool" where
  "job_ok e d j \<longleftrightarrow>
     typed_image e (jb_image j) \<and>
     (case jb_stage j of
        Looked \<Rightarrow> True
      | Placed src \<Rightarrow> isFileBacked (rs_source (jb_res j)) \<or> store_Open (im_hash (jb_image j)) (im_mime (jb_image j)) d
      | Imaged src \<Rightarrow> backed d (im_hash (jb_image j)) (rs_source (jb_res j)))"

definition prune_ok :: "art_sys \<Rightarrow> bool" where
  "prune_ok s \<longleftrightarrow>
     (case sy_prune s of
        None \<Rightarrow> True
      | Some pc \<Rightarrow>
          \<not> list_ex holds_lock (sy_jobs s) \<and> (case pc of PruneSweep m \<Rightarrow> m = GetMimeByHash (sy_db s) | _ \<Rightarrow> True))"

definition art_inv :: "art_env \<Rightarrow> art_sys \<Rightarrow> bool" where
  "art_inv e s \<longleftrightarrow>
     (\<forall>i\<in>set (ad_images (sy_db s)). typed_image e i) \<and> intact (sy_db s) \<and> (\<forall>j\<in>set (sy_jobs s). job_ok e (sy_db s) j) \<and> prune_ok s"

definition art_start :: "art_env \<Rightarrow> art_sys \<Rightarrow> bool" where
  "art_start e s \<longleftrightarrow> (\<forall>i\<in>set (ad_images (sy_db s)). typed_image e i) \<and> intact (sy_db s) \<and> sy_jobs s = [] \<and> sy_prune s = None"

section \<open>Rows and files\<close>

lemma GetImage_SomeD: "GetImage h d = Some i \<Longrightarrow> i \<in> set (ad_images d) \<and> im_hash i = h"
  by (auto simp: GetImage_def find_Some_iff)

lemma GetImage_ex: "i \<in> set (ad_images d) \<Longrightarrow> \<exists>i'. GetImage (im_hash i) d = Some i'"
  by (cases "GetImage (im_hash i) d") (auto simp: GetImage_def find_None_iff)

definition typed_db :: "art_env \<Rightarrow> art_db \<Rightarrow> bool" where
  "typed_db e d \<longleftrightarrow> (\<forall>i\<in>set (ad_images d). typed_image e i)"

definition one_mime :: "art_env \<Rightarrow> bool" where
  "one_mime e \<longleftrightarrow> (\<forall>x y. av_hash e x = av_hash e y \<longrightarrow> mime_of e x = mime_of e y)"

lemma typed_same: "one_mime e \<Longrightarrow> typed_image e a \<Longrightarrow> typed_image e b \<Longrightarrow> im_hash a = im_hash b \<Longrightarrow> im_mime a = im_mime b"
  unfolding typed_image_def one_mime_def by metis

lemma backedI:
  assumes "one_mime e" "typed_db e d" "i \<in> set (ad_images d)" "typed_image e a" "im_hash a = im_hash i"
    and "isFileBacked src \<or> store_Open (im_hash a) (im_mime a) d"
  shows "backed d (im_hash a) src"
proof -
  obtain i' where i': "GetImage (im_hash a) d = Some i'" using GetImage_ex [OF assms(3)] assms(5) by auto
  then have "im_mime i' = im_mime a"
    using GetImage_SomeD [OF i'] assms(1,2,4) typed_same unfolding typed_db_def by metis
  then show ?thesis using i' assms(6) by (auto simp: backed_def)
qed

lemma backed_mono:
  assumes b: "backed d h src" and "one_mime e" "typed_db e d" "typed_db e d'"
    and img: "h \<in> im_hash ` set (ad_images d) \<Longrightarrow> h \<in> im_hash ` set (ad_images d')"
    and fil: "\<And>ext. \<not> isFileBacked src \<Longrightarrow> stored h ext (ad_files d) \<Longrightarrow> stored h ext (ad_files d')"
  shows "backed d' h src"
proof -
  obtain i where i: "GetImage h d = Some i" "isFileBacked src \<or> store_Open h (im_mime i) d" using b by (auto simp: backed_def)
  then have m: "i \<in> set (ad_images d)" "im_hash i = h" using GetImage_SomeD by blast+
  then have "h \<in> im_hash ` set (ad_images d')" using img by blast
  then obtain i' where "i' \<in> set (ad_images d')" "im_hash i' = h" by blast
  moreover have "isFileBacked src \<or> store_Open (im_hash i) (im_mime i) d'"
    using i(2) m(2) fil by (auto simp: store_Open_def)
  moreover have "typed_image e i" using assms(3) m(1) by (simp add: typed_db_def)
  ultimately show ?thesis using backedI [OF assms(2,4)] m(2) by metis
qed

text \<open>A change that keeps images and files and leaves of the items only known states, or absent ones.\<close>

definition items_shrink :: "art_db \<Rightarrow> art_db \<Rightarrow> bool" where
  "items_shrink d d' \<longleftrightarrow>
     ad_images d' = ad_images d \<and> ad_files d' = ad_files d \<and>
     (\<forall>a'\<in>set (ad_items d'). ia_hash a' = [] \<or> (\<exists>a\<in>set (ad_items d). ia_hash a = ia_hash a' \<and> ia_source a = ia_source a'))"

lemma items_shrink_refl [simp]: "items_shrink d d"
  by (auto simp: items_shrink_def)

lemma items_shrink_trans:
  assumes "items_shrink d1 d2" "items_shrink d2 d3"
  shows "items_shrink d1 d3"
  unfolding items_shrink_def
proof (intro conjI ballI)
  show "ad_images d3 = ad_images d1" "ad_files d3 = ad_files d1" using assms by (simp_all add: items_shrink_def)
  fix c assume "c \<in> set (ad_items d3)"
  with assms(2) consider "ia_hash c = []" | b where "b \<in> set (ad_items d2)" "ia_hash b = ia_hash c" "ia_source b = ia_source c"
    unfolding items_shrink_def by blast
  then show "ia_hash c = [] \<or> (\<exists>a\<in>set (ad_items d1). ia_hash a = ia_hash c \<and> ia_source a = ia_source c)"
  proof cases
    case 2
    with assms(1) show ?thesis unfolding items_shrink_def by fastforce
  qed simp
qed

lemma backed_cong: "ad_images d' = ad_images d \<Longrightarrow> ad_files d' = ad_files d \<Longrightarrow> backed d' h src = backed d h src"
  by (simp add: backed_def GetImage_def store_Open_def)

lemma items_shrink_intact: "items_shrink d d' \<Longrightarrow> intact d \<Longrightarrow> intact d'"
  unfolding items_shrink_def intact_def using backed_cong by metis

lemma items_shrink_filter: "items_shrink d (d\<lparr>ad_items := filter P (ad_items d)\<rparr>)"
  by (auto simp: items_shrink_def)

lemma items_shrink_queue [simp]: "items_shrink d (d\<lparr>ad_queue := q\<rparr>)" "items_shrink d (d\<lparr>ad_queue := q, ad_entities := es\<rparr>)"
  by (auto simp: items_shrink_def)

lemma items_shrink_purge: "items_shrink d (fst (purgeDanglingItems errs ks d))"
proof (induction errs ks d rule: purgeDanglingItems.induct)
  case (2 errs k ks d)
  show ?case
  proof (cases "errs \<noteq> [] \<and> hd errs")
    case False
    from items_shrink_trans [OF items_shrink_filter 2 [OF False]] show ?thesis using False by simp
  qed simp
qed simp

lemma items_shrink_purge_queue: "items_shrink d (fst (purgeDanglingQueue errs ks d))"
proof (induction errs ks d rule: purgeDanglingQueue.induct)
  case (2 errs k ks d)
  show ?case
  proof (cases "errs \<noteq> [] \<and> hd errs")
    case False
    from items_shrink_trans [OF items_shrink_queue(1) 2 [OF False]] show ?thesis using False by simp
  qed simp
qed simp

lemma items_shrink_delete: "items_shrink d (fst (DeleteForItems errs kind ids d))"
proof -
  have "items_shrink d (fst (delete_items_chunks errs kind cs d))" for cs
  proof (induction errs kind cs d rule: delete_items_chunks.induct)
    case (2 errs kind c cs d)
    show ?case
    proof (cases "errs \<noteq> [] \<and> hd errs")
      case False
      from items_shrink_trans [OF items_shrink_filter 2 [OF False]] show ?thesis using False by simp
    qed simp
  qed simp
  then show ?thesis by (simp add: DeleteForItems_def)
qed

lemma items_shrink_absent: "items_shrink d (fst (writeAbsent now err tr it d))"
  by (auto simp: items_shrink_def writeAbsent_def PutItemArtwork_def absent_state_def Let_def split: if_splits)

lemma items_shrink_last: "items_shrink d (PutLastFailure err k tr d)"
  by (auto simp: items_shrink_def PutLastFailure_def)

lemma items_shrink_give_up: "items_shrink d (recordGiveUp err it tr d)"
  by (auto simp: recordGiveUp_def items_shrink_last split: option.splits)

lemma items_shrink_dequeue: "items_shrink d (DeleteIfUnchanged err k t d)" "items_shrink d (MarkFailedIfUnchanged err k t t' tr d)"
  by (auto simp: DeleteIfUnchanged_def MarkFailedIfUnchanged_def)

lemma items_shrink_settle: "items_shrink d (settle now jitter errs tr it out retryIn d)"
proof -
  have "items_shrink d (DeleteIfUnchanged b k t (recordGiveUp b2 it tr2 (if c then fst (writeAbsent now b3 tr it d) else d)))"
    for b k t b2 tr2 c b3
    by (intro items_shrink_trans [OF _ items_shrink_dequeue(1)] items_shrink_trans [OF _ items_shrink_give_up])
      (simp add: items_shrink_absent)
  then show ?thesis unfolding settle_def Let_def using items_shrink_dequeue by (simp only: split: if_splits) simp
qed

lemma items_shrink_enqueue: "items_shrink d (fst (aq_Enqueue now errs items d))"
  by (auto simp: aq_Enqueue_def aq_enqueue_def Let_def split: prod.splits)

lemma items_shrink_refresh: "items_shrink d (fst (art_Refresh now derrs qerrs kind i d))"
proof -
  obtain d1 failed where d1: "DeleteForItems derrs kind [i] d = (d1, failed)" by fastforce
  then have "items_shrink d d1" using items_shrink_delete [of d derrs kind "[i]"] by simp
  then show ?thesis using items_shrink_trans items_shrink_enqueue by (auto simp: art_Refresh_def d1)
qed

section \<open>The steps keep the invariant\<close>

lemma image_row_typed:
  assumes "image_row e errs res data d = Some a" "typed_db e d"
  shows "typed_image e (a\<lparr>im_sizeBytes := n\<rparr>)"
proof -
  have "typed_image e a"
  proof (cases "\<exists>i. GetImage (av_hash e data) d = Some i \<and> im_width i > 0")
    case True
    then have "GetImage (av_hash e data) d = Some a"
      using assms(1) by (auto simp: image_row_def Let_def split: if_splits)
    then show ?thesis using GetImage_SomeD assms(2) by (auto simp: typed_db_def)
  next
    case False
    then have "(case decodeArtwork e (av_hash e data) data of
              Inr a \<Rightarrow> Some a
            | Inl err \<Rightarrow> if err = ErrFormat \<and> data \<noteq> [] \<and> isLocalSource (rs_source res) then Some (undecodedArtwork (av_hash e data)) else None) = Some a"
      using assms(1) unfolding image_row_def Let_def by (auto split: if_splits option.splits)
    then have "im_hash a = av_hash e data \<and> mime_of e data = im_mime a"
      by (auto simp: mime_of_def undecodedArtwork_def decodeArtwork_def Let_def split: sum.splits if_splits)
    then show ?thesis by (auto simp: typed_image_def)
  qed
  then show ?thesis by (simp add: typed_image_def)
qed

lemma stored_touch: "stored h ext (map (\<lambda>f. if P f then f\<lparr>sf_mtime := now\<rparr> else f) fs) = stored h ext fs"
  by (induction fs) (auto simp: stored_def)

lemma store_Write_stored:
  "stored h ext (ad_files d) \<Longrightarrow> stored h ext (ad_files (fst (store_Write now te we h' m d)))"
  unfolding store_Write_def Let_def by (auto simp: stored_touch) (auto simp: stored_def list_ex_iff)

lemma store_Write_ok:
  "store_Write now te we h m d = (d', False) \<Longrightarrow> store_Open h m d'"
  unfolding store_Write_def Let_def
  by (auto simp: stored_touch store_Open_def split: if_splits) (auto simp: stored_def)

lemma store_Write_rows [simp]:
  "ad_images (fst (store_Write now te we h m d)) = ad_images d" "ad_items (fst (store_Write now te we h m d)) = ad_items d"
  by (auto simp: store_Write_def Let_def)

lemma placeBytes_cases:
  assumes "placeBytes now errs a res d = (d', src)"
  obtains "isFileBacked (rs_source res)" "d' = d"
  | f where "store_Write now (ae_touch errs) (ae_write errs) (im_hash a) (im_mime a) d = (d', f)" "src \<noteq> None \<Longrightarrow> \<not> f"
proof (cases "isFileBacked (rs_source res)")
  case True
  then show ?thesis using assms that(1) by (simp add: placeBytes_def)
next
  case False
  obtain d1 f where w: "store_Write now (ae_touch errs) (ae_write errs) (im_hash a) (im_mime a) d = (d1, f)" by fastforce
  show ?thesis using assms False that(2) [of f] w by (cases f) (simp_all add: placeBytes_def Let_def)
qed

lemma placeBytes_rows:
  assumes "placeBytes now errs a res d = (d', src)"
  shows "ad_images d' = ad_images d \<and> ad_items d' = ad_items d"
  using assms by (rule placeBytes_cases) (metis store_Write_rows fst_conv)+

lemma placeBytes_stored:
  assumes "placeBytes now errs a res d = (d', src)" "stored h ext (ad_files d)"
  shows "stored h ext (ad_files d')"
  using assms(1) by (rule placeBytes_cases) (use assms(2) store_Write_stored in \<open>metis fst_conv\<close>)+

lemma placeBytes_open:
  assumes "placeBytes now errs a res d = (d', Some src)"
  shows "isFileBacked (rs_source res) \<or> store_Open (im_hash a) (im_mime a) d'"
  using assms by (rule placeBytes_cases) (use store_Write_ok in auto)

lemma replaced_hashes:
  "im_hash b = im_hash a \<Longrightarrow> im_hash ` set (map (\<lambda>r. if im_hash r = im_hash a then b else r) rows) = im_hash ` set rows"
  by (induction rows) auto

lemma PutImage_rows:
  assumes "PutImage now False a d = (d', failed)"
  shows "ad_items d' = ad_items d" "ad_files d' = ad_files d"
    "set (ad_images d') \<subseteq> insert (a\<lparr>im_createdAt := now\<rparr>) (set (ad_images d))"
  using assms by (auto simp: PutImage_def Let_def split: if_splits)

lemma PutImage_hashes:
  assumes "PutImage now False a d = (d', failed)"
  shows "im_hash ` set (ad_images d') = insert (im_hash a) (im_hash ` set (ad_images d))"
proof (cases "list_ex (\<lambda>r. im_hash r = im_hash a) (ad_images d)")
  case True
  then have d': "ad_images d' = map (\<lambda>r. if im_hash r = im_hash a then a\<lparr>im_createdAt := now\<rparr> else r) (ad_images d)"
    using assms by (auto simp: PutImage_def Let_def)
  from True obtain r where "r \<in> set (ad_images d)" "im_hash a = im_hash r" unfolding list_ex_iff by metis
  then have "im_hash a \<in> im_hash ` set (ad_images d)" by (rule rev_image_eqI)
  then show ?thesis unfolding d' by (subst replaced_hashes) auto
next
  case False
  then show ?thesis using assms by (auto simp: PutImage_def Let_def)
qed

lemma PutItemArtwork_rows:
  assumes "PutItemArtwork now err a d = (d', failed)"
  shows "ad_images d' = ad_images d" "ad_files d' = ad_files d"
    "x \<in> set (ad_items d') \<Longrightarrow> x \<in> set (ad_items d) \<or> ia_hash x = ia_hash a \<and> ia_source x = ia_source a"
  using assms by (auto simp: PutItemArtwork_def Let_def split: if_splits)

lemma job_ok_mono:
  assumes "job_ok e d j" "one_mime e" "typed_db e d" "typed_db e d'"
    and "im_hash ` set (ad_images d) \<subseteq> im_hash ` set (ad_images d')"
    and fil: "\<And>h ext. stored h ext (ad_files d) \<Longrightarrow> stored h ext (ad_files d')"
  shows "job_ok e d' j"
proof (cases "jb_stage j")
  case (Imaged src)
  then have "backed d' (im_hash (jb_image j)) (rs_source (jb_res j))"
    using assms by (intro backed_mono [of d _ _ e d']) (auto simp: job_ok_def)
  then show ?thesis using assms(1) Imaged by (simp add: job_ok_def)
qed (use assms(1) fil in \<open>auto simp: job_ok_def store_Open_def\<close>)

lemma intact_mono:
  assumes "intact d" "one_mime e" "typed_db e d" "typed_db e d'" "ad_items d' = ad_items d"
    and "im_hash ` set (ad_images d) \<subseteq> im_hash ` set (ad_images d')"
    and "\<And>h ext. stored h ext (ad_files d) \<Longrightarrow> stored h ext (ad_files d')"
  shows "intact d'"
  unfolding intact_def
proof (intro ballI impI)
  fix a assume "a \<in> set (ad_items d')" "ia_hash a \<noteq> []"
  then have "backed d (ia_hash a) (ia_source a)" using assms(1,5) by (simp add: intact_def)
  then show "backed d' (ia_hash a) (ia_source a)" by (rule backed_mono [OF _ assms(2-4)]) (use assms(6,7) in auto)
qed

text \<open>The invariant, split into its four parts, after a change that adds images and files only.\<close>

lemma art_inv_iff:
  "art_inv e s \<longleftrightarrow> typed_db e (sy_db s) \<and> intact (sy_db s) \<and> (\<forall>j\<in>set (sy_jobs s). job_ok e (sy_db s) j) \<and> prune_ok s"
  by (simp add: art_inv_def typed_db_def)

lemma art_inv_shrink:
  assumes "art_inv e s" "items_shrink (sy_db s) d"
  shows "art_inv e (s\<lparr>sy_db := d\<rparr>)"
proof -
  have r: "ad_images d = ad_images (sy_db s)" "ad_files d = ad_files (sy_db s)" using assms(2) by (simp_all add: items_shrink_def)
  have "job_ok e d j = job_ok e (sy_db s) j" for j
    using backed_cong [OF r] r by (simp add: job_ok_def store_Open_def split: job_stage.splits)
  moreover have "GetMimeByHash d = GetMimeByHash (sy_db s)" by (simp add: GetMimeByHash_def r)
  ultimately show ?thesis
    using assms items_shrink_intact [OF assms(2)] r unfolding art_inv_iff typed_db_def prune_ok_def
    by (auto split: option.splits prune_pc.splits)
qed

lemma GetMimeByHash_None: "GetMimeByHash d h = None \<Longrightarrow> h \<notin> im_hash ` set (ad_images d)"
proof -
  have "foldl (\<lambda>m r. m(im_hash r \<mapsto> im_mime r)) m0 rows h = None \<Longrightarrow> h \<notin> im_hash ` set rows \<and> m0 h = None" for rows m0
  proof (induction rows arbitrary: m0)
    case (Cons r rows)
    from Cons.IH [of "m0(im_hash r \<mapsto> im_mime r)"] Cons.prems show ?case by (auto split: if_splits)
  qed simp
  then show "GetMimeByHash d h = None \<Longrightarrow> h \<notin> im_hash ` set (ad_images d)" unfolding GetMimeByHash_def by blast
qed

lemma GetMimeByHash_Some:
  "GetMimeByHash d h = Some m \<Longrightarrow> \<exists>i\<in>set (ad_images d). im_hash i = h \<and> im_mime i = m"
proof -
  have "foldl (\<lambda>m r. m(im_hash r \<mapsto> im_mime r)) m0 rows h = Some m \<Longrightarrow>
    m0 h = Some m \<or> (\<exists>i\<in>set rows. im_hash i = h \<and> im_mime i = m)" for rows m0
  proof (induction rows arbitrary: m0)
    case (Cons r rows)
    from Cons.IH [of "m0(im_hash r \<mapsto> im_mime r)"] Cons.prems show ?case by (auto split: if_splits)
  qed simp
  then show "GetMimeByHash d h = Some m \<Longrightarrow> \<exists>i\<in>set (ad_images d). im_hash i = h \<and> im_mime i = m"
    by (fastforce simp: GetMimeByHash_def)
qed

lemma sweep_keeps:
  assumes "stored h ext (ad_files d)" "keep h ext"
  shows "stored h ext (ad_files (fst (store_Sweep stop stuck cutoff keep d)))"
proof -
  let ?n = "case stop of None \<Rightarrow> length (ad_files d) | Some k \<Rightarrow> k"
  obtain f where f: "f \<in> set (ad_files d)" "\<not> sf_temp f" "sf_name f = h" "sf_ext f = ext"
    using assms(1) by (auto simp: stored_def list_ex_iff)
  have "f \<in> set (take ?n (ad_files d)) \<or> f \<in> set (drop ?n (ad_files d))"
    using f(1) append_take_drop_id [of ?n "ad_files d"] by (metis Un_iff set_append)
  moreover have "\<not> sweep_removes cutoff keep f" using f assms(2) by (simp add: sweep_removes_def)
  ultimately show ?thesis using f(2-4) by (auto simp: store_Sweep_def Let_def stored_def list_ex_iff)
qed

lemma prune_sweep_intact:
  assumes "intact d" "typed_db e d" "one_mime e" and d': "d' = fst (store_Sweep stop stuck cutoff (prune_keep (GetMimeByHash d)) d)"
  shows "intact d'"
  unfolding intact_def
proof (intro ballI impI)
  have r: "ad_items d' = ad_items d" "ad_images d' = ad_images d" unfolding d' by (simp_all add: store_Sweep_def Let_def)
  fix a assume a: "a \<in> set (ad_items d')" "ia_hash a \<noteq> []"
  then obtain i where i: "GetImage (ia_hash a) d = Some i" "isFileBacked (ia_source a) \<or> store_Open (ia_hash a) (im_mime i) d"
    using assms(1) r by (auto simp: intact_def backed_def)
  have "store_Open (ia_hash a) (im_mime i) d'" if l: "store_Open (ia_hash a) (im_mime i) d"
  proof -
    note i' = GetImage_SomeD [OF i(1)]
    then have "ia_hash a \<in> im_hash ` set (ad_images d)" by (metis image_eqI)
    then obtain m where m: "GetMimeByHash d (ia_hash a) = Some m" using GetMimeByHash_None by blast
    with GetMimeByHash_Some obtain i2 where "i2 \<in> set (ad_images d)" "im_hash i2 = ia_hash a" "im_mime i2 = m" by metis
    then have "m = im_mime i" using assms(2,3) i' typed_same unfolding typed_db_def by metis
    then have "prune_keep (GetMimeByHash d) (ia_hash a) (extForMime (im_mime i))" using m by (simp add: prune_keep_def)
    then show ?thesis using l sweep_keeps unfolding d' store_Open_def by blast
  qed
  moreover have "GetImage (ia_hash a) d' = Some i" using i(1) r by (simp add: GetImage_def)
  ultimately show "backed d' (ia_hash a) (ia_source a)" using i(2) by (auto simp: backed_def)
qed

lemma prune_orphans_intact:
  assumes "intact d" "typed_db e d" "one_mime e" and d': "d' = fst (PurgeOrphans err cutoff d)"
  shows "intact d'" "typed_db e d'"
proof -
  have r: "ad_items d' = ad_items d" "ad_files d' = ad_files d" unfolding d' by (simp_all add: PurgeOrphans_def)
  show t: "typed_db e d'" using assms(2) unfolding d' by (auto simp: PurgeOrphans_def typed_db_def)
  show "intact d'"
    unfolding intact_def
  proof (intro ballI impI)
    fix a assume a: "a \<in> set (ad_items d')" "ia_hash a \<noteq> []"
    then have "backed d (ia_hash a) (ia_source a)" using assms(1) r by (simp add: intact_def)
    then show "backed d' (ia_hash a) (ia_source a)"
    proof (rule backed_mono [OF _ assms(3,2) t])
      assume "ia_hash a \<in> im_hash ` set (ad_images d)"
      then obtain i where i: "i \<in> set (ad_images d)" "im_hash i = ia_hash a" by auto
      have "list_ex (\<lambda>b. ia_hash b \<noteq> [] \<and> ia_hash b = im_hash i) (ad_items d)" using a r i(2) by (auto simp: list_ex_iff)
      then have "i \<in> set (ad_images d')" using i(1) unfolding d' by (simp add: PurgeOrphans_def)
      then show "ia_hash a \<in> im_hash ` set (ad_images d')" using i(2) by (metis image_eqI)
    qed (simp add: r)
  qed
qed

text \<open>The jobs after a step of one of them.\<close>

lemma locked_no_prune: "prune_ok s \<Longrightarrow> j \<in> set (sy_jobs s) \<Longrightarrow> holds_lock j \<Longrightarrow> sy_prune s = None"
  by (auto simp: prune_ok_def list_ex_iff split: option.splits)

lemma prune_ok_None [simp]: "sy_prune s = None \<Longrightarrow> prune_ok s"
  by (simp add: prune_ok_def)

lemma prune_ok_jobs:
  assumes "prune_ok s" "\<And>j. j \<in> set js \<Longrightarrow> holds_lock j \<Longrightarrow> j \<in> set (sy_jobs s)"
  shows "prune_ok (s\<lparr>sy_jobs := js\<rparr>)"
proof (cases "sy_prune s")
  case (Some pc)
  then have "\<not> list_ex holds_lock js" using assms by (auto simp: prune_ok_def list_ex_iff)
  then show ?thesis using assms(1) Some by (cases pc) (simp_all add: prune_ok_def)
qed simp

lemma job_ok_unlocked: "job_ok e d j \<Longrightarrow> \<not> holds_lock j \<Longrightarrow> job_ok e d' j"
  by (auto simp: job_ok_def holds_lock_def split: job_stage.splits)

lemma step_place:
  assumes inv: "art_inv e s" and one: "one_mime e" and js: "sy_jobs s = js1 @ j # js2" and np: "sy_prune s = None"
    and p: "placeBytes now errs (jb_image j) (jb_res j) (sy_db s) = (d, osrc)"
  shows "art_inv e (s\<lparr>sy_db := d, sy_jobs := js1 @ js2\<rparr>)"
    "osrc = Some src \<Longrightarrow> art_inv e (s\<lparr>sy_db := d, sy_jobs := js1 @ j\<lparr>jb_stage := Placed src\<rparr> # js2\<rparr>)"
proof -
  note rows = placeBytes_rows [OF p]
  have t: "typed_db e (sy_db s)" "typed_db e d" using inv rows by (simp_all add: art_inv_iff typed_db_def)
  have i: "intact d" by (rule intact_mono [OF _ one t]) (use inv rows placeBytes_stored [OF p] in \<open>simp_all add: art_inv_iff\<close>)
  have k: "job_ok e d x" if x: "x \<in> set (sy_jobs s)" for x
    by (rule job_ok_mono [OF _ one t]) (use inv x rows placeBytes_stored [OF p] in \<open>simp_all add: art_inv_iff\<close>)
  show "art_inv e (s\<lparr>sy_db := d, sy_jobs := js1 @ js2\<rparr>)" using t i k js np by (simp add: art_inv_iff)
  assume o: "osrc = Some src"
  have "job_ok e d (j\<lparr>jb_stage := Placed src\<rparr>)"
    using k [of j] js placeBytes_open [OF p [unfolded o]] by (simp add: job_ok_def)
  then show "art_inv e (s\<lparr>sy_db := d, sy_jobs := js1 @ j\<lparr>jb_stage := Placed src\<rparr> # js2\<rparr>)"
    using t i k js np by (simp add: art_inv_iff)
qed

lemma step_put_image:
  assumes inv: "art_inv e s" and one: "one_mime e" and js: "sy_jobs s = js1 @ j # js2" and st: "jb_stage j = Placed src"
    and p: "PutImage now False (jb_image j) (sy_db s) = (d, failed)"
  shows "art_inv e (s\<lparr>sy_db := d, sy_jobs := js1 @ j\<lparr>jb_stage := Imaged src\<rparr> # js2\<rparr>)"
proof -
  note rows = PutImage_rows [OF p] and hashes = PutImage_hashes [OF p]
  have j: "job_ok e (sy_db s) j" using inv js by (simp add: art_inv_iff)
  then have tj: "typed_image e (jb_image j)" by (simp add: job_ok_def)
  then have "typed_image e ((jb_image j)\<lparr>im_createdAt := now\<rparr>)" by (simp add: typed_image_def)
  then have t: "typed_db e (sy_db s)" "typed_db e d" using inv rows(3) by (auto simp: art_inv_iff typed_db_def)
  have i: "intact d" by (rule intact_mono [OF _ one t]) (use inv rows hashes in \<open>auto simp: art_inv_iff\<close>)
  have k: "job_ok e d x" if x: "x \<in> set (sy_jobs s)" for x
    by (rule job_ok_mono [OF _ one t]) (use inv x rows hashes in \<open>auto simp: art_inv_iff\<close>)
  obtain r where r: "r \<in> set (ad_images d)" "im_hash (jb_image j) = im_hash r" using hashes by (metis imageE insertI1)
  have "isFileBacked (rs_source (jb_res j)) \<or> store_Open (im_hash (jb_image j)) (im_mime (jb_image j)) d"
    using k [of j] js st by (simp add: job_ok_def)
  from backedI [OF one t(2) r(1) tj r(2) this]
  have "job_ok e d (j\<lparr>jb_stage := Imaged src\<rparr>)" using tj by (simp add: job_ok_def)
  moreover have "sy_prune s = None"
    using locked_no_prune [of s j] inv js st by (simp add: art_inv_iff holds_lock_def)
  ultimately show ?thesis using t i k js by (simp add: art_inv_iff)
qed

lemma step_put_item:
  assumes inv: "art_inv e s" and js: "sy_jobs s = js1 @ j # js2" and st: "jb_stage j = Imaged src"
    and p: "PutItemArtwork now False (found_state now tr (jb_item j) (jb_image j) (jb_res j) src) (sy_db s) = (d, failed)"
  shows "art_inv e (s\<lparr>sy_db := d, sy_jobs := js1 @ js2\<rparr>)"
proof -
  note rows = PutItemArtwork_rows [OF p]
  note same = backed_cong [OF rows(1,2)]
  have j: "backed (sy_db s) (im_hash (jb_image j)) (rs_source (jb_res j))" using inv js st by (simp add: art_inv_iff job_ok_def)
  have "intact d"
    unfolding intact_def
  proof (intro ballI impI)
    fix a assume a: "a \<in> set (ad_items d)" "ia_hash a \<noteq> []"
    from rows(3) [OF a(1)] show "backed d (ia_hash a) (ia_source a)"
    proof
      assume "a \<in> set (ad_items (sy_db s))"
      then show ?thesis using inv a(2) same by (simp add: art_inv_iff intact_def)
    qed (use j same in \<open>simp add: found_state_def\<close>)
  qed
  moreover have "job_ok e d x = job_ok e (sy_db s) x" for x
    using same rows(2) by (simp add: job_ok_def store_Open_def split: job_stage.splits)
  moreover have "sy_prune s = None"
    using locked_no_prune [of s j] inv js st by (simp add: art_inv_iff holds_lock_def)
  ultimately show ?thesis using inv js rows(1) by (simp add: art_inv_iff typed_db_def)
qed

lemma step_prune_db:
  assumes inv: "art_inv e s" and pc: "sy_prune s = Some pc" and d: "intact d" "typed_db e d"
    and pc': "case pc' of PruneSweep m \<Rightarrow> m = GetMimeByHash d | _ \<Rightarrow> True"
  shows "art_inv e (s\<lparr>sy_db := d, sy_prune := Some pc'\<rparr>)"
proof -
  have "\<not> list_ex holds_lock (sy_jobs s)" using inv pc by (simp add: art_inv_iff prune_ok_def)
  then have "job_ok e d j" if l: "j \<in> set (sy_jobs s)" for j
    using job_ok_unlocked [of e "sy_db s" j d] inv l by (auto simp: art_inv_iff list_ex_iff)
  then show ?thesis using assms \<open>\<not> list_ex holds_lock (sy_jobs s)\<close>
    by (cases pc') (simp_all add: art_inv_iff prune_ok_def)
qed

lemma art_inv_jobs:
  assumes "art_inv e s" "\<And>j. j \<in> set js \<Longrightarrow> j \<in> set (sy_jobs s) \<or> \<not> holds_lock j \<and> job_ok e (sy_db s) j"
  shows "art_inv e (s\<lparr>sy_jobs := js\<rparr>)"
  using assms prune_ok_jobs [of s js] by (auto simp: art_inv_iff)

lemma same_prune: "sy_prune s = Some pc \<Longrightarrow> s\<lparr>sy_db := d, sy_prune := Some pc\<rparr> = s\<lparr>sy_db := d\<rparr>"
  by (cases s) simp

lemma art_step_inv:
  assumes "art_inv e s" "one_mime e" "art_step e s t"
  shows "art_inv e t"
  using assms(3)
proof (cases rule: art_step.cases)
  case (look errs res data a it)
  then have "typed_image e (a\<lparr>im_sizeBytes := int (length data)\<rparr>)" using image_row_typed assms(1) by (auto simp: art_inv_iff)
  then show ?thesis unfolding look(1) by (intro art_inv_jobs [OF assms(1)]) (auto simp: job_ok_def holds_lock_def)
next
  case (place js1 j js2 now errs d src)
  then show ?thesis using step_place(2) [OF assms(1,2)] by simp
next
  case (place_failed js1 j js2 now errs d)
  then show ?thesis using step_place(1) [OF assms(1,2)] by simp
next
  case (put_image js1 j js2 src now d failed)
  then show ?thesis using step_put_image [OF assms(1,2)] by simp
next
  case (put_item js1 j js2 src now tr d failed)
  then show ?thesis using step_put_item [OF assms(1)] by simp
next
  case (abandon js1 j js2)
  then show ?thesis by (auto intro!: art_inv_jobs [OF assms(1)])
next
  case (prune_start)
  then show ?thesis using assms(1) by (simp add: art_inv_iff prune_ok_def)
next
  case (prune_items errs ks)
  then show ?thesis using art_inv_shrink [OF assms(1) items_shrink_purge] by simp
next
  case (prune_queue errs ks)
  then show ?thesis using art_inv_shrink [OF assms(1) items_shrink_purge_queue] by simp
next
  case (prune_orphans err cutoff)
  have "intact (sy_db s)" "typed_db e (sy_db s)" using assms(1) by (simp_all add: art_inv_iff)
  from prune_orphans_intact [OF this assms(2) refl] step_prune_db [OF assms(1) prune_orphans(2)]
  show ?thesis using prune_orphans(1) by simp
next
  case prune_mimes
  then show ?thesis using assms(1) step_prune_db [OF assms(1) prune_mimes(2), of "sy_db s" "PruneSweep (GetMimeByHash (sy_db s))"]
    by (simp add: art_inv_iff)
next
  case (prune_sweep m stop stuck cutoff)
  let ?d = "fst (store_Sweep stop stuck cutoff (prune_keep m) (sy_db s))"
  have m: "m = GetMimeByHash (sy_db s)" using assms(1) prune_sweep(2) by (simp add: art_inv_iff prune_ok_def)
  have i: "intact (sy_db s)" "typed_db e (sy_db s)" using assms(1) by (simp_all add: art_inv_iff)
  have r: "ad_images ?d = ad_images (sy_db s)" by (simp add: store_Sweep_def Let_def)
  then have "typed_db e ?d" "GetMimeByHash ?d = m" using i(2) by (simp_all add: typed_db_def GetMimeByHash_def m)
  then show ?thesis
    using prune_sweep_intact [OF i assms(2) refl, of stop stuck cutoff] step_prune_db [OF assms(1) prune_sweep(2), of ?d "PruneSweep m"]
    by (simp add: prune_sweep(1) m same_prune [OF prune_sweep(2) [unfolded m]])
next
  case prune_end
  then show ?thesis using assms(1) by (simp add: art_inv_iff)
qed (use art_inv_shrink [OF assms(1)] items_shrink_absent items_shrink_settle items_shrink_refresh items_shrink_queue in \<open>simp_all\<close>)

lemma art_start_inv: "art_start e s \<Longrightarrow> art_inv e s"
  by (simp add: art_start_def art_inv_def)

interpretation artwork: step_invariant "art_start e" "art_step e" "\<lambda>s. one_mime e \<longrightarrow> art_inv e s" for e
  by unfold_locales (auto intro: art_start_inv art_step_inv)

text \<open>The whole pruning keeps what is referenced, as one run that nothing interrupts.\<close>

lemma art_prune_intact:
  assumes "intact d" "typed_db e d" "one_mime e"
  shows "intact (fst (art_prune now errs ks1 ks2 d))"
proof -
  obtain d1 f1 where p1: "purgeDanglingItems (pe_items errs) ks1 d = (d1, f1)" by fastforce
  obtain d2 f2 where p2: "purgeDanglingQueue (pe_queue errs) ks2 d1 = (d2, f2)" by fastforce
  obtain d3 f3 where p3: "PurgeOrphans (pe_orphans errs) (now - pruneMinAge) d2 = (d3, f3)" by fastforce
  have s1: "items_shrink d d1" using items_shrink_purge [of d "pe_items errs" ks1] by (simp add: p1)
  have s2: "items_shrink d1 d2" using items_shrink_purge_queue [of d1 "pe_queue errs" ks2] by (simp add: p2)
  have i: "intact d1" "intact d2" using items_shrink_intact s1 s2 assms(1) by blast+
  have t: "typed_db e d2" using assms(2) s1 s2 by (simp add: typed_db_def items_shrink_def)
  have "d3 = fst (PurgeOrphans (pe_orphans errs) (now - pruneMinAge) d2)" by (simp add: p3)
  note o = prune_orphans_intact [OF i(2) t assms(3) this]
  from prune_sweep_intact [OF o assms(3) refl]
  show ?thesis using i o(1) by (simp add: art_prune_def Let_def p1 p2 p3)
qed


text \<open>An embedded cover is acquired; then it is pruned around, and it stays.\<close>

definition demo_art_env :: art_env where
  "demo_art_env = \<lparr>av_hash = (\<lambda>_. ''0123456789abcdef''), av_config = (\<lambda>_. Inl ErrFormat), av_decode = (\<lambda>_. Inl ErrFormat),
     av_placeholders = (\<lambda>_. ([], [], [])), av_limit = 10\<rparr>"

definition demo_no_errs :: acquire_errs where
  "demo_no_errs = \<lparr>ae_lookup = False, ae_touch = False, ae_write = False, ae_putImage = False, ae_putItem = False\<rparr>"

definition demo_cover :: resolution where
  "demo_cover = \<lparr>rs_reader = Some ''x'', rs_readErr = False, rs_source = ''embedded'', rs_sourcePath = ''/a.mp3'', rs_refMtime = 7,
     rs_extErr = None, rs_localError = False\<rparr>"

definition demo_empty_db :: art_db where
  "demo_empty_db = \<lparr>ad_queue = [], ad_items = [], ad_images = [], ad_files = [], ad_entities = []\<rparr>"

definition demo_sys :: "art_job list \<Rightarrow> prune_pc option \<Rightarrow> art_db \<Rightarrow> art_sys" where
  "demo_sys js pc d = \<lparr>sy_db = d, sy_jobs = js, sy_prune = pc\<rparr>"

definition demo_job :: "job_stage \<Rightarrow> art_job" where
  "demo_job st = \<lparr>jb_item = new_item 0 ''al'' ''a1'' ''primary'' 50,
     jb_image = (undecodedArtwork ''0123456789abcdef'')\<lparr>im_sizeBytes := 1\<rparr>, jb_res = demo_cover, jb_stage = st\<rparr>"

definition demo_placed :: art_db where
  "demo_placed = fst (placeBytes 5 demo_no_errs (jb_image (demo_job Looked)) demo_cover demo_empty_db)"

definition demo_imaged :: art_db where
  "demo_imaged = fst (PutImage 5 False (jb_image (demo_job Looked)) demo_placed)"

definition demo_item :: item_artwork where
  "demo_item = found_state 5 (\<lambda>_. ''[]'') (jb_item (demo_job Looked)) (jb_image (demo_job Looked)) demo_cover (''/a.mp3'', 7)"

definition demo_done :: art_db where
  "demo_done = fst (PutItemArtwork 5 False demo_item demo_imaged)"

definition demo_swept :: art_db where
  "demo_swept = fst (store_Sweep None (\<lambda>_. False) (9 * 10 ^ 12) (prune_keep (GetMimeByHash demo_done)) demo_done)"

lemma demo_art_run:
  "reachable (art_start demo_art_env) (art_step demo_art_env) (demo_sys [] (Some (PruneSweep (GetMimeByHash demo_done))) demo_swept)"
proof -
  let ?e = demo_art_env
  have "reachable (art_start ?e) (art_step ?e) (demo_sys [] None demo_empty_db)"
    by (rule reach_init) (simp add: art_start_def demo_sys_def demo_empty_db_def intact_def)
  moreover have "image_row ?e demo_no_errs demo_cover ''x'' demo_empty_db = Some (undecodedArtwork ''0123456789abcdef'')"
    by code_simp
  then have "art_step ?e (demo_sys [] None demo_empty_db) (demo_sys [demo_job Looked] None demo_empty_db)"
    using art_step.look [of ?e demo_no_errs demo_cover "''x''" "demo_sys [] None demo_empty_db" _ "new_item 0 ''al'' ''a1'' ''primary'' 50"]
    by (simp add: demo_sys_def demo_job_def)
  moreover have "placeBytes 5 demo_no_errs (jb_image (demo_job Looked)) demo_cover demo_empty_db = (demo_placed, Some (''/a.mp3'', 7))"
    by code_simp
  then have "art_step ?e (demo_sys [demo_job Looked] None demo_empty_db) (demo_sys [demo_job (Placed (''/a.mp3'', 7))] None demo_placed)"
    using art_step.place [of "demo_sys [demo_job Looked] None demo_empty_db" "[]" "demo_job Looked" "[]" 5 demo_no_errs demo_placed "(''/a.mp3'', 7)" ?e]
    by (simp add: demo_sys_def demo_job_def)
  moreover have "PutImage 5 False (jb_image (demo_job Looked)) demo_placed = (demo_imaged, False)" by code_simp
  then have "art_step ?e (demo_sys [demo_job (Placed (''/a.mp3'', 7))] None demo_placed) (demo_sys [demo_job (Imaged (''/a.mp3'', 7))] None demo_imaged)"
    using art_step.put_image [of "demo_sys [demo_job (Placed (''/a.mp3'', 7))] None demo_placed" "[]" "demo_job (Placed (''/a.mp3'', 7))" "[]" "(''/a.mp3'', 7)" 5 demo_imaged False ?e]
    by (simp add: demo_sys_def demo_job_def)
  moreover have "PutItemArtwork 5 False demo_item demo_imaged = (demo_done, False)" by code_simp
  then have "art_step ?e (demo_sys [demo_job (Imaged (''/a.mp3'', 7))] None demo_imaged) (demo_sys [] None demo_done)"
    using art_step.put_item [of "demo_sys [demo_job (Imaged (''/a.mp3'', 7))] None demo_imaged" "[]" "demo_job (Imaged (''/a.mp3'', 7))" "[]" "(''/a.mp3'', 7)" 5 "\<lambda>_. ''[]''" demo_done False ?e]
    by (simp add: demo_sys_def demo_job_def demo_item_def)
  moreover have "art_step ?e (demo_sys [] None demo_done) (demo_sys [] (Some PruneRows) demo_done)"
    using art_step.prune_start [of "demo_sys [] None demo_done" ?e] by (simp add: demo_sys_def)
  moreover have "fst (PurgeOrphans False (9 * 10 ^ 12) demo_done) = demo_done" by code_simp
  then have "art_step ?e (demo_sys [] (Some PruneRows) demo_done) (demo_sys [] (Some PruneOrphaned) demo_done)"
    using art_step.prune_orphans [of "demo_sys [] (Some PruneRows) demo_done" ?e False "9 * 10 ^ 12"] by (simp add: demo_sys_def)
  moreover have "art_step ?e (demo_sys [] (Some PruneOrphaned) demo_done) (demo_sys [] (Some (PruneSweep (GetMimeByHash demo_done))) demo_done)"
    using art_step.prune_mimes [of "demo_sys [] (Some PruneOrphaned) demo_done" ?e] by (simp add: demo_sys_def)
  moreover have "art_step ?e (demo_sys [] (Some (PruneSweep (GetMimeByHash demo_done))) demo_done)
      (demo_sys [] (Some (PruneSweep (GetMimeByHash demo_done))) demo_swept)"
    using art_step.prune_sweep [of "demo_sys [] (Some (PruneSweep (GetMimeByHash demo_done))) demo_done" "GetMimeByHash demo_done" ?e None "\<lambda>_. False" "9 * 10 ^ 12"]
    by (simp add: demo_sys_def demo_swept_def)
  ultimately show ?thesis by (meson reach_step)
qed


end
