(* ===== verification/ArtworkRetry.thy ===== *)
theory ArtworkRetry
  imports ArtworkWorker
begin

text \<open>
  The artwork queue under concurrent use: scans, requests and housekeeping enqueue items while the
  drain pools take batches, resolve them and settle their rows. Every step happens at a later time
  than the one before. The state has the items in flight, each with a mark that tells whether it was
  enqueued again since it was taken, and the set of keys whose last request is not answered yet;
  both only record the history and no step depends on them.
\<close>

section \<open>The system\<close>

record queue_sys =
  qs_db :: art_db
  qs_now :: time
  qs_flight :: "(art_item \<times> bool) list"
  qs_owed :: "art_key set"

definition queued_keys :: "art_db \<Rightarrow> art_key set" where
  "queued_keys d = aq_key ` set (ad_queue d)"

definition gives_up :: "time \<Rightarrow> rat \<Rightarrow> art_item \<Rightarrow> duration \<Rightarrow> bool" where
  "gives_up now jitter it retryIn \<longleftrightarrow> \<not> now + retryDelay jitter (aq_attempts it) retryIn < aq_enqueuedAt it + giveUpAfter"

definition answers :: "time \<Rightarrow> rat \<Rightarrow> art_item \<Rightarrow> outcome \<Rightarrow> duration \<Rightarrow> bool" where
  "answers now jitter it out retryIn \<longleftrightarrow> out = outcomeFound \<or> out = outcomeAbsent \<or> gives_up now jitter it retryIn"

inductive artq_step :: "queue_sys \<Rightarrow> queue_sys \<Rightarrow> bool" where
  enqueue: "t > qs_now s \<Longrightarrow> aq_Enqueue t errs items (qs_db s) = (d, False) \<Longrightarrow>
    ks = set (map (aq_key \<circ> enqueue_row t) items) \<Longrightarrow>
    artq_step s (s\<lparr>qs_db := d, qs_now := t, qs_flight := map (\<lambda>(it, stale). (it, stale \<or> aq_key it \<in> ks)) (qs_flight s),
      qs_owed := qs_owed s \<union> ks\<rparr>)"
| enqueue_failed: "t > qs_now s \<Longrightarrow> aq_Enqueue t errs items (qs_db s) = (d, True) \<Longrightarrow> artq_step s (s\<lparr>qs_db := d, qs_now := t\<rparr>)"
| preserving: "t > qs_now s \<Longrightarrow> EnqueuePreservingBackoff t errs items (qs_db s) = (d, failed) \<Longrightarrow>
    artq_step s (s\<lparr>qs_db := d, qs_now := t\<rparr>)"
| if_missing: "t > qs_now s \<Longrightarrow> EnqueueIfMissing t errs items (qs_db s) = (d, failed) \<Longrightarrow>
    artq_step s (s\<lparr>qs_db := d, qs_now := t\<rparr>)"
| all_missing: "t > qs_now s \<Longrightarrow> EnqueueAllMissing t err kind prio (qs_db s) = (d, failed) \<Longrightarrow>
    artq_step s (s\<lparr>qs_db := d, qs_now := t\<rparr>)"
| dequeue: "t > qs_now s \<Longrightarrow> kinds \<noteq> [] \<Longrightarrow> \<not> list_ex (\<lambda>(it, stale). List.member kinds (aq_kind it)) (qs_flight s) \<Longrightarrow>
    artq_step s (s\<lparr>qs_now := t, qs_flight := qs_flight s @ map (\<lambda>it. (it, False)) (DequeueBatch t n kinds (qs_db s))\<rparr>)"
| settle_item: "t > qs_now s \<Longrightarrow> qs_flight s = fs1 @ (it, stale) # fs2 \<Longrightarrow> - (2 / 5) \<le> jitter \<Longrightarrow>
    artq_step s (s\<lparr>qs_db := settle t jitter errs tr (with_type it) out retryIn (qs_db s), qs_now := t, qs_flight := fs1 @ fs2,
      qs_owed := (if \<not> stale \<and> answers t jitter it out retryIn then qs_owed s - {aq_key it} else qs_owed s)\<rparr>)"
| cancelled: "t > qs_now s \<Longrightarrow> artq_step s (s\<lparr>qs_db := PurgeQueued err kinds prios (qs_db s), qs_now := t,
      qs_owed := qs_owed s \<inter> queued_keys (PurgeQueued err kinds prios (qs_db s))\<rparr>)"
| entity_gone: "t > qs_now s \<Longrightarrow> purgeDanglingQueue errs kinds (qs_db s) = (d, failed) \<Longrightarrow>
    artq_step s (s\<lparr>qs_db := d, qs_now := t, qs_owed := qs_owed s \<inter> queued_keys d\<rparr>)"
| elsewhere: "artq_step s (s\<lparr>qs_db := (qs_db s)\<lparr>ad_items := its, ad_images := ims, ad_files := fs, ad_entities := ents\<rparr>\<rparr>)"

definition queue_start :: "queue_sys \<Rightarrow> bool" where
  "queue_start s \<longleftrightarrow> ad_queue (qs_db s) = [] \<and> qs_flight s = [] \<and> qs_owed s = {}"

section \<open>The invariant\<close>

text \<open>The least time in seconds that \<open>n\<close> failed attempts take.\<close>

definition spent :: "nat \<Rightarrow> int" where
  "spent n = (if n \<le> 7 then 4 ^ n - 1 else 42303)"

definition art_row_ok :: "time \<Rightarrow> art_item \<Rightarrow> bool" where
  "art_row_ok now q \<longleftrightarrow>
     aq_type q \<noteq> [] \<and> aq_enqueuedAt q \<le> now \<and> aq_attempts q \<le> 8 \<and>
     aq_enqueuedAt q + spent (aq_attempts q) * Second \<le> aq_retryAt q \<and> aq_retryAt q < aq_enqueuedAt q + giveUpAfter"

text \<open>What an item in flight knows of its row: if the row has the retry time that was seen, it is the row that was seen.\<close>

definition flight_ok :: "time \<Rightarrow> art_item list \<Rightarrow> art_item \<times> bool \<Rightarrow> bool" where
  "flight_ok now rows f \<longleftrightarrow>
     aq_type (fst f) \<noteq> [] \<and> aq_retryAt (fst f) \<le> now \<and>
     (\<forall>q\<in>set rows. aq_key q = aq_key (fst f) \<longrightarrow> aq_retryAt q = aq_retryAt (fst f) \<longrightarrow>
       \<not> snd f \<and> aq_attempts q = aq_attempts (fst f) \<and> aq_enqueuedAt q = aq_enqueuedAt (fst f))"

definition queue_inv :: "queue_sys \<Rightarrow> bool" where
  "queue_inv s \<longleftrightarrow>
     distinct (map aq_key (ad_queue (qs_db s))) \<and>
     (\<forall>q\<in>set (ad_queue (qs_db s)). art_row_ok (qs_now s) q) \<and>
     (\<forall>f\<in>set (qs_flight s). flight_ok (qs_now s) (ad_queue (qs_db s)) f) \<and>
     qs_owed s \<subseteq> queued_keys (qs_db s)"

lemma art_row_ok_later: "art_row_ok now q \<Longrightarrow> now \<le> t \<Longrightarrow> art_row_ok t q"
  by (auto simp: art_row_ok_def)

section \<open>Adding rows\<close>

definition plain_conflict :: "(art_item \<Rightarrow> art_item \<Rightarrow> art_item) \<Rightarrow> bool" where
  "plain_conflict f \<longleftrightarrow>
     (\<forall>old new. aq_key (f old new) = aq_key old \<and>
       ((aq_attempts (f old new), aq_retryAt (f old new), aq_enqueuedAt (f old new)) = (aq_attempts old, aq_retryAt old, aq_enqueuedAt old) \<or>
        (aq_attempts (f old new), aq_retryAt (f old new), aq_enqueuedAt (f old new)) = (0, aq_retryAt new, aq_enqueuedAt new)))"

lemma plain_conflicts [simp]: "plain_conflict fresh_conflict" "plain_conflict backoff_conflict" "plain_conflict (\<lambda>old _. old)"
  by (simp_all add: plain_conflict_def fresh_conflict_def backoff_conflict_def aq_key_def)

text \<open>A row that is new at time \<open>t\<close>, and a row that is either one of the old ones or new in all its times.\<close>

definition new_at :: "time \<Rightarrow> art_item \<Rightarrow> bool" where
  "new_at t q \<longleftrightarrow> aq_type q \<noteq> [] \<and> aq_attempts q = 0 \<and> aq_retryAt q = t \<and> aq_enqueuedAt q = t"

definition from_rows :: "time \<Rightarrow> art_item list \<Rightarrow> art_item \<Rightarrow> bool" where
  "from_rows t rows q \<longleftrightarrow>
     new_at t q \<or>
     (\<exists>r\<in>set rows. aq_key r = aq_key q \<and> aq_attempts r = aq_attempts q \<and> aq_retryAt r = aq_retryAt q \<and> aq_enqueuedAt r = aq_enqueuedAt q)"

lemma type_key: "aq_key a = aq_key b \<Longrightarrow> aq_type a = aq_type b"
  by (simp add: aq_key_def)

lemma aq_upsert_keys:
  assumes "plain_conflict f"
  shows "aq_key ` set (aq_upsert f rows q) = insert (aq_key q) (aq_key ` set rows)"
    "distinct (map aq_key rows) \<Longrightarrow> distinct (map aq_key (aq_upsert f rows q))"
proof -
  have m: "map aq_key (map (\<lambda>r. if aq_key r = aq_key q then f r q else r) rows) = map aq_key rows"
    using assms by (simp add: plain_conflict_def)
  have ks: "aq_key ` set (map (\<lambda>r. if aq_key r = aq_key q then f r q else r) rows) = aq_key ` set rows"
    using arg_cong [OF m, of set] by (simp only: set_map)
  have ex: "list_ex (\<lambda>r. aq_key r = aq_key q) rows \<longleftrightarrow> aq_key q \<in> aq_key ` set rows"
    unfolding list_ex_iff image_iff by metis
  show "aq_key ` set (aq_upsert f rows q) = insert (aq_key q) (aq_key ` set rows)"
    unfolding aq_upsert_def ex using ks by auto
  show "distinct (map aq_key (aq_upsert f rows q))" if l: "distinct (map aq_key rows)"
    using l m unfolding aq_upsert_def ex by (simp del: map_map)
qed

lemma upsert_from:
  assumes "plain_conflict f" "\<forall>r\<in>set rows. from_rows t base r" "\<forall>r\<in>set rows. aq_type r \<noteq> []" "new_at t q"
  shows "\<forall>r\<in>set (aq_upsert f rows q). from_rows t base r \<and> aq_type r \<noteq> []"
proof
  fix r assume "r \<in> set (aq_upsert f rows q)"
  then consider "r \<in> set rows" | "r = q" | w where "w \<in> set rows" "aq_key w = aq_key q" "r = f w q"
    by (auto simp: aq_upsert_def split: if_splits)
  then show "from_rows t base r \<and> aq_type r \<noteq> []"
  proof cases
    case 3
    have key: "aq_key r = aq_key w" using assms(1) 3(3) by (simp add: plain_conflict_def)
    have ty: "aq_type r \<noteq> []" using type_key [OF key] assms(3) 3(1) by simp
    from assms(1) consider "aq_attempts r = aq_attempts w" "aq_retryAt r = aq_retryAt w" "aq_enqueuedAt r = aq_enqueuedAt w"
      | "aq_attempts r = 0" "aq_retryAt r = aq_retryAt q" "aq_enqueuedAt r = aq_enqueuedAt q"
      unfolding plain_conflict_def 3(3) by (metis prod.inject)
    then show ?thesis
    proof cases
      case 1
      then show ?thesis using assms(2) 3(1) key ty unfolding from_rows_def new_at_def by metis
    next
      case 2
      then show ?thesis using assms(4) ty by (simp add: from_rows_def new_at_def)
    qed
  qed (use assms in \<open>auto simp: from_rows_def new_at_def\<close>)
qed

lemma fold_upsert:
  assumes "plain_conflict f" "\<forall>q\<in>set ns. new_at t q"
  shows "aq_key ` set (foldl (aq_upsert f) rows ns) = aq_key ` set rows \<union> aq_key ` set ns"
    "distinct (map aq_key rows) \<Longrightarrow> distinct (map aq_key (foldl (aq_upsert f) rows ns))"
    "\<forall>r\<in>set rows. from_rows t base r \<and> aq_type r \<noteq> [] \<Longrightarrow> \<forall>r\<in>set (foldl (aq_upsert f) rows ns). from_rows t base r \<and> aq_type r \<noteq> []"
proof -
  show "aq_key ` set (foldl (aq_upsert f) rows ns) = aq_key ` set rows \<union> aq_key ` set ns"
    using assms(2) by (induction ns arbitrary: rows) (simp_all add: aq_upsert_keys(1) [OF assms(1)])
  show "distinct (map aq_key rows) \<Longrightarrow> distinct (map aq_key (foldl (aq_upsert f) rows ns))"
    using assms(2) by (induction ns arbitrary: rows) (simp_all add: aq_upsert_keys(2) [OF assms(1)])
  show "\<forall>r\<in>set rows. from_rows t base r \<and> aq_type r \<noteq> [] \<Longrightarrow> \<forall>r\<in>set (foldl (aq_upsert f) rows ns). from_rows t base r \<and> aq_type r \<noteq> []"
    using assms(2)
  proof (induction ns arbitrary: rows)
    case (Cons q ns)
    have "\<forall>r\<in>set (aq_upsert f rows q). from_rows t base r \<and> aq_type r \<noteq> []"
      by (rule upsert_from [OF assms(1)]) (use Cons.prems in auto)
    from Cons.IH [OF this] Cons.prems(2) show ?case by simp
  qed simp
qed

text \<open>All the ways to enqueue are such additions.\<close>

lemma enqueue_row_new [simp]: "new_at t (enqueue_row t it)"
  by (simp add: new_at_def enqueue_row_def cmp_Or_def ImageTypePrimary_def)

lemma enqueue_chunks_fold:
  obtains ns where "fst (enqueue_chunks f t errs cs rows) = foldl (aq_upsert f) rows ns" "\<forall>q\<in>set ns. new_at t q"
    "\<not> snd (enqueue_chunks f t errs cs rows) \<Longrightarrow> ns = map (enqueue_row t) (concat cs)"
proof (induction f t errs cs rows arbitrary: thesis rule: enqueue_chunks.induct)
  case (1 f t errs rows)
  then show ?case by (intro 1 [of "[]"]) simp_all
next
  case (2 f t errs c cs rows)
  show ?case
  proof (cases "errs \<noteq> [] \<and> hd errs")
    case True
    then show ?thesis by (intro 2(2) [of "[]"]) simp_all
  next
    case False
    from 2(1) [OF False] obtain ns where
      "fst (enqueue_chunks f t (tl errs) cs (foldl (aq_upsert f) rows (map (enqueue_row t) c))) =
        foldl (aq_upsert f) (foldl (aq_upsert f) rows (map (enqueue_row t) c)) ns" "\<forall>q\<in>set ns. new_at t q"
      "\<not> snd (enqueue_chunks f t (tl errs) cs (foldl (aq_upsert f) rows (map (enqueue_row t) c))) \<Longrightarrow> ns = map (enqueue_row t) (concat cs)"
      by blast
    then show ?thesis using False by (intro 2(2) [of "map (enqueue_row t) c @ ns"]) auto
  qed
qed

definition added :: "time \<Rightarrow> art_db \<Rightarrow> art_db \<Rightarrow> bool" where
  "added t d d' \<longleftrightarrow>
     (\<exists>f ns. plain_conflict f \<and> (\<forall>q\<in>set ns. new_at t q) \<and> ad_queue d' = foldl (aq_upsert f) (ad_queue d) ns)"

lemma added_queue: "plain_conflict f \<Longrightarrow> \<forall>q\<in>set ns. new_at t q \<Longrightarrow> ad_queue d' = foldl (aq_upsert f) (ad_queue d) ns \<Longrightarrow> added t d d'"
  by (auto simp: added_def)

lemma aq_enqueue_added:
  assumes "plain_conflict f" "aq_enqueue f t errs items d = (d', failed)"
  shows "added t d d'"
proof -
  obtain ns where "fst (enqueue_chunks f t errs (art_chunks enqueueChunkSize items) (ad_queue d)) = foldl (aq_upsert f) (ad_queue d) ns"
    "\<forall>q\<in>set ns. new_at t q" using enqueue_chunks_fold by metis
  then show ?thesis using assms by (intro added_queue [of f ns]) (auto simp: aq_enqueue_def split: prod.splits)
qed

lemma insertIfNotQueued_added:
  "insertIfNotQueued err ns d = (d', failed) \<Longrightarrow> \<forall>q\<in>set ns. new_at t q \<Longrightarrow> added t d d'"
  by (intro added_queue [of "\<lambda>old _. old" "if err then [] else ns"]) (auto simp: insertIfNotQueued_def split: if_splits)

lemma EnqueueAllMissing_added: "EnqueueAllMissing t err kind prio d = (d', failed) \<Longrightarrow> added t d d'"
proof (cases "List.member artworkOwnerTables kind")
  case True
  assume "EnqueueAllMissing t err kind prio d = (d', failed)"
  then show ?thesis unfolding EnqueueAllMissing_def using True
    by (auto intro!: insertIfNotQueued_added simp: new_at_def new_item_def ImageTypePrimary_def)
next
  case False
  assume "EnqueueAllMissing t err kind prio d = (d', failed)"
  then show ?thesis using False by (intro added_queue [of "\<lambda>old _. old" "[]"]) (auto simp: EnqueueAllMissing_def)
qed

lemma EnqueueIfMissing_added:
  assumes "EnqueueIfMissing t errs items d = (d', failed)"
  shows "added t d d'"
proof -
  have "\<exists>ns. (\<forall>q\<in>set ns. new_at t q) \<and> ad_queue (fst (if_missing_chunks t errs cs d)) = foldl (aq_upsert (\<lambda>old _. old)) (ad_queue d) ns" for cs
  proof (induction t errs cs d rule: if_missing_chunks.induct)
    case (1 t errs d)
    show ?case by (intro exI [of _ "[]"]) simp
  next
    case (2 t errs c cs d)
    let ?new = "filter (\<lambda>q. \<not> list_ex (\<lambda>a. ia_key a = aq_key q) (ad_items d)) (map (enqueue_row t) c)"
    obtain d1 failed where d1: "insertIfNotQueued (errs \<noteq> [] \<and> hd errs) ?new d = (d1, failed)" by fastforce
    show ?case
    proof (cases failed)
      case True
      then have "d1 = d" using d1 by (auto simp: insertIfNotQueued_def split: if_splits)
      then show ?thesis using d1 True by (intro exI [of _ "[]"]) simp
    next
      case False
      from 2 [OF refl d1 [symmetric] refl False] obtain ns where ns: "\<forall>q\<in>set ns. new_at t q"
        "ad_queue (fst (if_missing_chunks t (tl errs) cs d1)) = foldl (aq_upsert (\<lambda>old _. old)) (ad_queue d1) ns" by blast
      have "ad_queue d1 = foldl (aq_upsert (\<lambda>old _. old)) (ad_queue d) ?new"
        using d1 False by (auto simp: insertIfNotQueued_def split: if_splits)
      moreover have "\<forall>q\<in>set ?new. new_at t q" by auto
      ultimately show ?thesis using ns d1 False by (intro exI [of _ "?new @ ns"]) auto
    qed
  qed
  then show ?thesis using assms added_queue [OF plain_conflicts(3)] unfolding EnqueueIfMissing_def by (metis fst_conv)
qed

section \<open>Additions keep the invariant\<close>

lemma spent_0 [simp]: "spent 0 = 0"
  by (simp add: spent_def)

lemma new_at_ok: "new_at t q \<Longrightarrow> art_row_ok t q"
  by (simp add: new_at_def art_row_ok_def giveUpAfter_def Second_def)

lemma from_rows_ok: "from_rows t rows q \<Longrightarrow> \<forall>r\<in>set rows. art_row_ok t r \<Longrightarrow> art_row_ok t q"
proof (cases "new_at t q")
  case False
  assume "from_rows t rows q" "\<forall>r\<in>set rows. art_row_ok t r"
  with False obtain r where r: "art_row_ok t r" "aq_key r = aq_key q" "aq_attempts r = aq_attempts q" "aq_retryAt r = aq_retryAt q"
    "aq_enqueuedAt r = aq_enqueuedAt q" unfolding from_rows_def by blast
  then show ?thesis using type_key [OF r(2)] by (simp add: art_row_ok_def)
qed (simp add: new_at_ok)

lemma from_rows_flight:
  assumes "\<forall>r\<in>set rows'. from_rows t rows r" "flight_ok now rows f" "t > now"
  shows "flight_ok t rows' f"
  unfolding flight_ok_def
proof (intro conjI ballI impI)
  show "aq_type (fst f) \<noteq> []" "aq_retryAt (fst f) \<le> t" using assms(2,3) by (auto simp: flight_ok_def)
  fix q assume q: "q \<in> set rows'" "aq_key q = aq_key (fst f)" "aq_retryAt q = aq_retryAt (fst f)"
  have "aq_retryAt q \<noteq> t" using q(3) assms(2,3) by (auto simp: flight_ok_def)
  then obtain r where r: "r \<in> set rows" "aq_key r = aq_key q" "aq_attempts r = aq_attempts q" "aq_retryAt r = aq_retryAt q"
    "aq_enqueuedAt r = aq_enqueuedAt q"
    using assms(1) q(1) unfolding from_rows_def new_at_def by blast
  then show "\<not> snd f" "aq_attempts q = aq_attempts (fst f)" "aq_enqueuedAt q = aq_enqueuedAt (fst f)"
    using assms(2) q(2,3) unfolding flight_ok_def by metis+
qed

lemma added_inv:
  assumes inv: "queue_inv s" and t: "t > qs_now s" and a: "added t (qs_db s) d"
  shows "queue_inv (s\<lparr>qs_db := d, qs_now := t\<rparr>)"
proof -
  let ?rows = "ad_queue (qs_db s)"
  obtain f ns where f: "plain_conflict f" "\<forall>q\<in>set ns. new_at t q" "ad_queue d = foldl (aq_upsert f) ?rows ns"
    using a by (auto simp: added_def)
  note u = fold_upsert [OF f(1,2)]
  have "\<forall>r\<in>set ?rows. from_rows t ?rows r \<and> aq_type r \<noteq> []" using inv by (auto simp: queue_inv_def art_row_ok_def from_rows_def)
  from u(3) [OF this] have from_r: "\<forall>r\<in>set (ad_queue d). from_rows t ?rows r" by (simp add: f(3))
  have "\<forall>r\<in>set ?rows. art_row_ok t r" using inv t art_row_ok_later [of "qs_now s" _ t] by (auto simp: queue_inv_def)
  then have "\<forall>q\<in>set (ad_queue d). art_row_ok t q" using from_r from_rows_ok by blast
  moreover have "\<forall>x\<in>set (qs_flight s). flight_ok t (ad_queue d) x"
    using from_rows_flight [OF from_r _ t] inv by (auto simp: queue_inv_def)
  moreover have "distinct (map aq_key (ad_queue d))" using u(2) inv by (simp add: f(3) queue_inv_def)
  moreover have "qs_owed s \<subseteq> queued_keys d" using u(1) [of ?rows] inv by (auto simp: f(3) queue_inv_def queued_keys_def)
  ultimately show ?thesis by (simp add: queue_inv_def)
qed

text \<open>A fresh request: its rows have the time of the request.\<close>

lemma upsert_fresh:
  assumes "\<forall>r\<in>set rows. aq_key r \<in> K \<longrightarrow> aq_retryAt r = t" "new_at t q"
  shows "\<forall>r\<in>set (aq_upsert fresh_conflict rows q). aq_key r \<in> insert (aq_key q) K \<longrightarrow> aq_retryAt r = t"
proof
  fix r assume "r \<in> set (aq_upsert fresh_conflict rows q)"
  then consider "r = q" | "r \<in> set rows" "aq_key r \<noteq> aq_key q" | w where "r = fresh_conflict w q"
    by (auto simp: aq_upsert_def list_ex_iff split: if_splits)
  then show "aq_key r \<in> insert (aq_key q) K \<longrightarrow> aq_retryAt r = t"
    by cases (use assms in \<open>auto simp: new_at_def fresh_conflict_def\<close>)
qed

lemma fold_fresh:
  assumes "\<forall>q\<in>set ns. new_at t q" "\<forall>r\<in>set rows. aq_key r \<in> K \<longrightarrow> aq_retryAt r = t"
  shows "\<forall>r\<in>set (foldl (aq_upsert fresh_conflict) rows ns). aq_key r \<in> K \<union> aq_key ` set ns \<longrightarrow> aq_retryAt r = t"
  using assms
proof (induction ns arbitrary: rows K)
  case (Cons q ns)
  from Cons.prems have "new_at t q" "\<forall>q\<in>set ns. new_at t q" by auto
  from Cons.IH [OF this(2) upsert_fresh [OF Cons.prems(2) this(1)]] show ?case by simp
qed simp

lemma enqueue_inv:
  assumes inv: "queue_inv s" and t: "t > qs_now s" and en: "aq_Enqueue t errs items (qs_db s) = (d, False)"
    and ks: "ks = set (map (aq_key \<circ> enqueue_row t) items)"
  shows "queue_inv (s\<lparr>qs_db := d, qs_now := t, qs_flight := map (\<lambda>(it, stale). (it, stale \<or> aq_key it \<in> ks)) (qs_flight s),
      qs_owed := qs_owed s \<union> ks\<rparr>)"
proof -
  let ?rows = "ad_queue (qs_db s)"
  obtain ns where ns: "fst (enqueue_chunks fresh_conflict t errs (art_chunks enqueueChunkSize items) ?rows) = foldl (aq_upsert fresh_conflict) ?rows ns"
    "\<forall>q\<in>set ns. new_at t q"
    "\<not> snd (enqueue_chunks fresh_conflict t errs (art_chunks enqueueChunkSize items) ?rows) \<Longrightarrow> ns = map (enqueue_row t) items"
    using enqueue_chunks_fold [of fresh_conflict t errs "art_chunks enqueueChunkSize items" ?rows]
      concat_art_chunks [of enqueueChunkSize items] by (auto simp: enqueueChunkSize_def)
  have d: "ad_queue d = foldl (aq_upsert fresh_conflict) ?rows ns" "ns = map (enqueue_row t) items"
    using en ns(1,3) by (auto simp: aq_Enqueue_def aq_enqueue_def split: prod.splits)
  have kns: "aq_key ` set ns = ks" unfolding d(2) ks by (simp add: image_comp)
  have base: "queue_inv (s\<lparr>qs_db := d, qs_now := t\<rparr>)"
    by (rule added_inv [OF inv t added_queue [OF plain_conflicts(1) ns(2) d(1)]])
  have fresh: "\<forall>r\<in>set (ad_queue d). aq_key r \<in> ks \<longrightarrow> aq_retryAt r = t"
    using fold_fresh [OF ns(2), of ?rows "{}"] by (simp add: d(1) kns)
  have flight: "flight_ok t (ad_queue d) (it, stale \<or> aq_key it \<in> ks)" if f: "(it, stale) \<in> set (qs_flight s)" for it stale
  proof -
    have ok: "flight_ok t (ad_queue d) (it, stale)" using base f by (simp add: queue_inv_def)
    have "aq_retryAt it \<le> qs_now s" using inv f by (force simp: queue_inv_def flight_ok_def)
    then have "aq_retryAt q \<noteq> aq_retryAt it" if l: "aq_key it \<in> ks" "q \<in> set (ad_queue d)" "aq_key q = aq_key it" for q
      using fresh l t by auto
    then show ?thesis using ok by (auto simp: flight_ok_def)
  qed
  have "ks \<subseteq> queued_keys d"
    using fold_upsert(1) [OF plain_conflicts(1) ns(2), of ?rows] kns by (auto simp: queued_keys_def d(1))
  then show ?thesis using base flight by (auto simp: queue_inv_def)
qed

section \<open>Settling keeps the invariant\<close>

lemma trunc_rat_ge: "0 \<le> n \<Longrightarrow> of_int n \<le> x \<Longrightarrow> n \<le> trunc_rat x"
  by (auto simp: trunc_rat_def le_floor_iff)

lemma retryDelay_ge:
  assumes "- (2 / 5) \<le> jitter"
  shows "min (3 * 4 ^ n) 25920 * Second \<le> retryDelay jitter n hint"
proof -
  let ?c = "min (backoffBase * 4 ^ n) giveUpAfter"
  have c: "3 * ?c = 5 * (min (3 * 4 ^ n) 25920 * Second)"
    by (simp add: backoffBase_def giveUpAfter_def Second_def min_def)
  have "(of_int (5 * (min (3 * 4 ^ n) 25920 * Second)) :: rat) = of_int (3 * ?c)" by (simp only: c)
  then have "(of_int (min (3 * 4 ^ n) 25920 * Second) :: rat) = of_int ?c * (3 / 5)" by simp
  also have "\<dots> \<le> of_int ?c * (1 + jitter)"
  proof (rule mult_left_mono)
    show "3 / 5 \<le> 1 + jitter" using assms by linarith
    have "0 \<le> ?c" by (simp add: backoffBase_def giveUpAfter_def Second_def)
    then show "(0 :: rat) \<le> of_int ?c" by (rule of_int_nonneg)
  qed
  finally have "min (3 * 4 ^ n) 25920 * Second \<le> backoffFor n jitter"
    unfolding backoffFor_def by (intro trunc_rat_ge) (simp_all add: Second_def)
  then show ?thesis by (simp add: retryDelay_def)
qed

lemma spent_step:
  assumes "n \<le> 8" "spent n + min (3 * 4 ^ n) 25920 < 43200"
  shows "n < 8" "spent (Suc n) \<le> spent n + min (3 * 4 ^ n) 25920"
proof -
  have "n \<in> {0, 1, 2, 3, 4, 5, 6, 7, 8}" using assms(1) by auto
  then show "n < 8" "spent (Suc n) \<le> spent n + min (3 * 4 ^ n) 25920"
    using assms(2) by (auto simp: spent_def)
qed

lemma marked_ok:
  assumes ok: "art_row_ok now q" and t: "aq_retryAt q \<le> now" "now < t" and j: "- (2 / 5) \<le> jitter"
    and retry: "retryAt = t + retryDelay jitter (aq_attempts q) hint" "retryAt < aq_enqueuedAt q + giveUpAfter"
  shows "art_row_ok t (q\<lparr>aq_attempts := aq_attempts q + 1, aq_retryAt := retryAt, aq_trace := tr\<rparr>)"
proof -
  let ?n = "aq_attempts q"
  have "aq_enqueuedAt q + spent ?n * Second + min (3 * 4 ^ ?n) 25920 * Second \<le> retryAt"
    using ok t retryDelay_ge [OF j, of ?n hint] unfolding retry(1) art_row_ok_def by linarith
  then have le: "aq_enqueuedAt q + (spent ?n + min (3 * 4 ^ ?n) 25920) * Second \<le> retryAt" by (simp add: distrib_right)
  then have "(spent ?n + min (3 * 4 ^ ?n) 25920) * Second < 43200 * Second"
    using retry(2) unfolding giveUpAfter_def by linarith
  then have "spent ?n + min (3 * 4 ^ ?n) 25920 < 43200" by (simp add: Second_def)
  from spent_step [OF _ this] ok have s: "?n < 8" "spent (Suc ?n) \<le> spent ?n + min (3 * 4 ^ ?n) 25920" by (simp_all add: art_row_ok_def)
  have "spent (Suc ?n) * Second \<le> (spent ?n + min (3 * 4 ^ ?n) 25920) * Second"
    using s(2) by (intro mult_right_mono) (simp_all add: Second_def)
  then show ?thesis using ok t le s(1) retry(2) by (simp add: art_row_ok_def)
qed

text \<open>What settling does to the queue: it deletes the row that was seen, or marks it, or an error leaves it.\<close>

lemma queue_unchanged [simp]:
  "ad_queue (fst (writeAbsent now err tr it d)) = ad_queue d" "ad_queue (recordGiveUp err it tr' d) = ad_queue d"
  by (auto simp: writeAbsent_def PutItemArtwork_def recordGiveUp_def PutLastFailure_def Let_def split: option.splits)

lemma with_type_id: "aq_type it \<noteq> [] \<Longrightarrow> with_type it = it"
  by (simp add: with_type_def cmp_Or_def)

lemma settle_cases:
  assumes "d' = settle t jitter errs tr it out retryIn d"
  obtains "ad_queue d' = ad_queue d"
  | "answers t jitter it out retryIn"
    "ad_queue d' = filter (\<lambda>q. \<not> (aq_key q = aq_key it \<and> aq_retryAt q = aq_retryAt it)) (ad_queue d)"
  | retryAt where "\<not> answers t jitter it out retryIn" "retryAt = t + retryDelay jitter (aq_attempts it) retryIn"
    "retryAt < aq_enqueuedAt it + giveUpAfter"
    "ad_queue d' = map (\<lambda>q. if aq_key q = aq_key it \<and> aq_retryAt q = aq_retryAt it
       then q\<lparr>aq_attempts := aq_attempts q + 1, aq_retryAt := retryAt, aq_trace := tr []\<rparr> else q) (ad_queue d)"
proof (cases "answers t jitter it out retryIn")
  case True
  then obtain d2 where "d' = DeleteIfUnchanged (se_delete errs) (aq_key it) (aq_retryAt it) d2" "ad_queue d2 = ad_queue d"
    using assms unfolding settle_def answers_def gives_up_def Let_def
    by (cases "out = outcomeFound \<or> out = outcomeAbsent") (auto intro: that(1))
  then show ?thesis using True that(1,2) by (cases "se_delete errs") (simp_all add: DeleteIfUnchanged_def)
next
  case False
  then have "d' = MarkFailedIfUnchanged (se_mark errs) (aq_key it) (aq_retryAt it) (t + retryDelay jitter (aq_attempts it) retryIn) (tr []) d"
    using assms unfolding settle_def answers_def gives_up_def Let_def by simp
  then show ?thesis using False that(1) that(3) [OF False refl]
    by (cases "se_mark errs") (simp_all add: MarkFailedIfUnchanged_def answers_def gives_up_def)
qed

lemma flight_ok_subset:
  assumes "flight_ok now rows f" "set rows' \<subseteq> set rows" "now \<le> t"
  shows "flight_ok t rows' f"
  using assms by (auto simp: flight_ok_def)

lemma flights_distinct_keep:
  assumes "flight_ok now rows f" "now < t" "retryAt > t"
    "rows' = map (\<lambda>q. if aq_key q = k \<and> aq_retryAt q = r then q\<lparr>aq_attempts := aq_attempts q + 1, aq_retryAt := retryAt, aq_trace := x\<rparr> else q) rows"
  shows "flight_ok t rows' f"
  unfolding flight_ok_def
proof (intro conjI ballI impI)
  show "aq_type (fst f) \<noteq> []" "aq_retryAt (fst f) \<le> t" using assms(1,2) by (auto simp: flight_ok_def)
  fix q assume q: "q \<in> set rows'" "aq_key q = aq_key (fst f)" "aq_retryAt q = aq_retryAt (fst f)"
  have "aq_retryAt q \<noteq> retryAt" using q(3) assms(1-3) by (auto simp: flight_ok_def)
  then have "q \<in> set rows" using q(1) unfolding assms(4) by (auto split: if_splits)
  then show "\<not> snd f" "aq_attempts q = aq_attempts (fst f)" "aq_enqueuedAt q = aq_enqueuedAt (fst f)"
    using assms(1) q(2,3) unfolding flight_ok_def by metis+
qed

lemma Second_pos: "min (3 * 4 ^ n) 25920 * Second > 0"
  by (simp add: Second_def)

lemma settle_inv:
  assumes inv: "queue_inv s" and t: "t > qs_now s" and fl: "qs_flight s = fs1 @ (it, stale) # fs2" and j: "- (2 / 5) \<le> jitter"
  shows "queue_inv (s\<lparr>qs_db := settle t jitter errs tr (with_type it) out retryIn (qs_db s), qs_now := t, qs_flight := fs1 @ fs2,
      qs_owed := (if \<not> stale \<and> answers t jitter it out retryIn then qs_owed s - {aq_key it} else qs_owed s)\<rparr>)"
proof -
  let ?rows = "ad_queue (qs_db s)"
  have ok: "flight_ok (qs_now s) ?rows (it, stale)" using inv fl by (simp add: queue_inv_def)
  then have it: "with_type it = it" "aq_retryAt it \<le> qs_now s" by (simp_all add: flight_ok_def with_type_id)
  define d where "d = settle t jitter errs tr it out retryIn (qs_db s)"
  define owed where "owed = (if \<not> stale \<and> answers t jitter it out retryIn then qs_owed s - {aq_key it} else qs_owed s)"
  have rows: "\<forall>q\<in>set ?rows. art_row_ok t q" using inv t art_row_ok_later [of "qs_now s" _ t] by (auto simp: queue_inv_def)
  have flights: "\<forall>f\<in>set (fs1 @ fs2). flight_ok (qs_now s) ?rows f" using inv fl by (auto simp: queue_inv_def)
  have own: "owed \<subseteq> qs_owed s" by (auto simp: owed_def)
  have "queue_inv (s\<lparr>qs_db := d, qs_now := t, qs_flight := fs1 @ fs2, qs_owed := owed\<rparr>)"
  proof (rule settle_cases [OF d_def])
    assume e: "ad_queue d = ?rows"
    have "\<forall>f\<in>set (fs1 @ fs2). flight_ok t ?rows f" using flights flight_ok_subset [OF _ subset_refl] t by (meson less_imp_le)
    then show ?thesis using inv rows own e by (auto simp: queue_inv_def queued_keys_def)
  next
    assume a: "answers t jitter it out retryIn"
      and e: "ad_queue d = filter (\<lambda>q. \<not> (aq_key q = aq_key it \<and> aq_retryAt q = aq_retryAt it)) ?rows"
    have "\<forall>f\<in>set (fs1 @ fs2). flight_ok t (ad_queue d) f"
      using flights flight_ok_subset [of "qs_now s" ?rows _ "ad_queue d" t] t by (auto simp: e)
    moreover have "owed \<subseteq> queued_keys d"
    proof
      fix k assume k: "k \<in> owed"
      then obtain q where q: "q \<in> set ?rows" "aq_key q = k" using own inv by (auto simp: queue_inv_def queued_keys_def)
      have "\<not> (aq_key q = aq_key it \<and> aq_retryAt q = aq_retryAt it)"
      proof
        assume s: "aq_key q = aq_key it \<and> aq_retryAt q = aq_retryAt it"
        then have "\<not> stale" using ok q(1) by (auto simp: flight_ok_def)
        then have "k \<noteq> aq_key it" using k a by (auto simp: owed_def)
        then show False using s q(2) by simp
      qed
      then show "k \<in> queued_keys d" using q by (auto simp: e queued_keys_def)
    qed
    moreover have "distinct (map aq_key (ad_queue d))" using inv by (simp add: e queue_inv_def distinct_map_filter)
    ultimately show ?thesis using rows by (simp add: queue_inv_def e)
  next
    fix retryAt
    assume r: "retryAt = t + retryDelay jitter (aq_attempts it) retryIn" "retryAt < aq_enqueuedAt it + giveUpAfter"
      and e: "ad_queue d = map (\<lambda>q. if aq_key q = aq_key it \<and> aq_retryAt q = aq_retryAt it
       then q\<lparr>aq_attempts := aq_attempts q + 1, aq_retryAt := retryAt, aq_trace := tr []\<rparr> else q) ?rows"
    have later: "retryAt > t" using r(1) retryDelay_ge [OF j, of "aq_attempts it" retryIn] Second_pos [of "aq_attempts it"] by linarith
    have keys: "map aq_key (ad_queue d) = map aq_key ?rows" by (simp add: e aq_key_def)
    have "art_row_ok t q" if q: "q \<in> set (ad_queue d)" for q
    proof -
      from q obtain p where p: "p \<in> set ?rows"
        "q = (if aq_key p = aq_key it \<and> aq_retryAt p = aq_retryAt it
              then p\<lparr>aq_attempts := aq_attempts p + 1, aq_retryAt := retryAt, aq_trace := tr []\<rparr> else p)" by (auto simp: e)
      show ?thesis
      proof (cases "aq_key p = aq_key it \<and> aq_retryAt p = aq_retryAt it")
        case True
        then have same: "aq_attempts p = aq_attempts it" "aq_enqueuedAt p = aq_enqueuedAt it" using ok p(1) by (auto simp: flight_ok_def)
        have "art_row_ok (qs_now s) p" using inv p(1) by (simp add: queue_inv_def)
        from marked_ok [OF this _ t j, of retryAt retryIn "tr []"] show ?thesis
          using p(2) True same r it(2) by simp
      qed (use p rows in auto)
    qed
    moreover have "\<forall>f\<in>set (fs1 @ fs2). flight_ok t (ad_queue d) f"
      using flights flights_distinct_keep [OF _ t later e] by blast
    moreover have "queued_keys d = queued_keys (qs_db s)"
      using arg_cong [OF keys, of set] by (simp add: queued_keys_def)
    ultimately show ?thesis using inv own keys by (auto simp: queue_inv_def)
  qed
  then show ?thesis by (simp add: d_def owed_def it(1))
qed

lemma dequeue_inv:
  assumes inv: "queue_inv s" and t: "t > qs_now s"
  shows "queue_inv (s\<lparr>qs_now := t, qs_flight := qs_flight s @ map (\<lambda>it. (it, False)) (DequeueBatch t n kinds (qs_db s))\<rparr>)"
proof -
  let ?rows = "ad_queue (qs_db s)"
  have rows: "\<forall>q\<in>set ?rows. art_row_ok t q" using inv t art_row_ok_later [of "qs_now s" _ t] by (auto simp: queue_inv_def)
  have old: "\<forall>f\<in>set (qs_flight s). flight_ok t ?rows f"
    using inv flight_ok_subset [OF _ subset_refl, of "qs_now s" ?rows _ t] t by (auto simp: queue_inv_def)
  have "flight_ok t ?rows (it, False)" if l: "it \<in> set (DequeueBatch t n kinds (qs_db s))" for it
  proof -
    have it: "it \<in> set ?rows" "aq_retryAt it \<le> t"
      using l by (auto simp: DequeueBatch_def dest!: in_set_takeD)
    have "q = it" if q: "q \<in> set ?rows" "aq_key q = aq_key it" for q
      using q it(1) inv by (auto simp: queue_inv_def distinct_map inj_on_def)
    then show ?thesis using it rows by (auto simp: flight_ok_def art_row_ok_def)
  qed
  then show ?thesis using inv rows old by (auto simp: queue_inv_def)
qed

lemma removed_inv:
  assumes inv: "queue_inv s" and t: "t > qs_now s" and d: "ad_queue d = filter P (ad_queue (qs_db s))"
  shows "queue_inv (s\<lparr>qs_db := d, qs_now := t, qs_owed := qs_owed s \<inter> queued_keys d\<rparr>)"
proof -
  have "\<forall>f\<in>set (qs_flight s). flight_ok t (ad_queue d) f"
    using inv flight_ok_subset [of "qs_now s" "ad_queue (qs_db s)" _ "ad_queue d" t] t by (auto simp: queue_inv_def d)
  then show ?thesis using inv t art_row_ok_later [of "qs_now s" _ t] by (auto simp: queue_inv_def d distinct_map_filter)
qed

lemma PurgeQueued_filter: "\<exists>P. ad_queue (PurgeQueued err kinds prios d) = filter P (ad_queue d)"
proof (cases err)
  case True
  then show ?thesis by (intro exI [of _ "\<lambda>_. True"]) (simp add: PurgeQueued_def)
qed (auto simp: PurgeQueued_def)

lemma purgeDanglingQueue_filter: "\<exists>P. ad_queue (fst (purgeDanglingQueue errs ks d)) = filter P (ad_queue d)"
proof (induction errs ks d rule: purgeDanglingQueue.induct)
  case (1 errs d)
  show ?case by (intro exI [of _ "\<lambda>_. True"]) simp
next
  case (2 errs k ks d)
  show ?case
  proof (cases "errs \<noteq> [] \<and> hd errs")
    case True
    then show ?thesis by (intro exI [of _ "\<lambda>_. True"]) simp
  next
    case False
    from 2 [OF False] show ?thesis using False by auto
  qed
qed

lemma artq_step_inv: "queue_inv s \<Longrightarrow> artq_step s s' \<Longrightarrow> queue_inv s'"
proof (erule artq_step.cases, goal_cases)
  case (1 t s errs items d ks)
  then show ?case using enqueue_inv by simp
next
  case (2 t s errs items d)
  then show ?case using added_inv aq_enqueue_added [OF plain_conflicts(1)] by (simp add: aq_Enqueue_def)
next
  case (3 t s errs items d failed)
  then show ?case using added_inv aq_enqueue_added [OF plain_conflicts(2)] by (simp add: EnqueuePreservingBackoff_def)
next
  case (4 t s errs items d failed)
  then show ?case using added_inv EnqueueIfMissing_added by simp
next
  case (5 t s err kind prio d failed)
  then show ?case using added_inv EnqueueAllMissing_added by simp
next
  case (6 t s kinds n)
  then show ?case using dequeue_inv by simp
next
  case (7 t s fs1 it stale fs2 jitter errs tr out retryIn)
  then show ?case using settle_inv by simp
next
  case (8 t s err kinds prios)
  then show ?case using removed_inv PurgeQueued_filter by metis
next
  case (9 t s errs kinds d failed)
  then show ?case using removed_inv purgeDanglingQueue_filter by (metis fst_conv)
next
  case (10 s its ims fs ents)
  then show ?case by (simp add: queue_inv_def queued_keys_def)
qed

lemma queue_start_inv: "queue_start s \<Longrightarrow> queue_inv s"
  by (simp add: queue_start_def queue_inv_def)

interpretation artwork_queue: step_invariant queue_start artq_step queue_inv
  by unfold_locales (fact queue_start_inv, fact artq_step_inv)

section \<open>Properties\<close>

text \<open>
  C20: No request for artwork is lost. Whatever is enqueued, taken, resolved, retried or given up in between, a
  key that was requested stays in the queue until an attempt that started after the last request has
  been answered or given up, or the row is purged by an administrator or with its entity.
\<close>

theorem artwork_requests_not_lost:
  assumes "reachable queue_start artq_step s"
  shows "qs_owed s \<subseteq> queued_keys (qs_db s)"
  using artwork_queue.reachable_inv [OF assms] by (simp add: queue_inv_def)


text \<open>A request comes in while the item is being resolved; the answer leaves the row. Then an attempt fails.\<close>

definition demo_art_request :: "time \<Rightarrow> art_item" where
  "demo_art_request t = new_item t ''al'' ''a1'' ''primary'' 50"

definition demo_queue :: "art_item list \<Rightarrow> art_db" where
  "demo_queue q = \<lparr>ad_queue = q, ad_items = [], ad_images = [], ad_files = [], ad_entities = []\<rparr>"

definition demo_settle_errs :: settle_errs where
  "demo_settle_errs = \<lparr>se_delete = False, se_mark = False, se_get = False, se_absent = False, se_last = False\<rparr>"

definition demo_qs :: "time \<Rightarrow> art_item list \<Rightarrow> (art_item \<times> bool) list \<Rightarrow> queue_sys" where
  "demo_qs t q fl = \<lparr>qs_db = demo_queue q, qs_now = t, qs_flight = fl, qs_owed = {(''al'', ''a1'', ''primary'')}\<rparr>"

definition demo_failed :: art_item where
  "demo_failed = (demo_art_request 3)\<lparr>aq_attempts := 1, aq_retryAt := 6 + 5000000000\<rparr>"

lemma demo_requested: "aq_Enqueue t [] [demo_art_request 0] (demo_queue []) = (demo_queue [demo_art_request t], False)"
  by (simp add: aq_Enqueue_def aq_enqueue_def enqueueChunkSize_def art_chunks.simps demo_queue_def demo_art_request_def new_item_def
      aq_upsert_def enqueue_row_def cmp_Or_def)

lemma demo_queue_run:
  "reachable queue_start artq_step (demo_qs 4 [demo_art_request 3] [])"
  "reachable queue_start artq_step (demo_qs 6 [demo_failed] [])"
proof -
  let ?k = "(''al'', ''a1'', ''primary'')"
  let ?s0 = "\<lparr>qs_db = demo_queue [], qs_now = 0, qs_flight = [], qs_owed = {}\<rparr>"
  have "reachable queue_start artq_step ?s0" by (rule reach_init) (simp add: queue_start_def demo_queue_def)
  moreover have "artq_step ?s0 (demo_qs 1 [demo_art_request 1] [])"
    using artq_step.enqueue [of ?s0 1 "[]" "[demo_art_request 0]" "demo_queue [demo_art_request 1]" "{?k}"]
    by (simp add: demo_requested demo_qs_def) (simp add: demo_art_request_def new_item_def enqueue_row_def aq_key_def cmp_Or_def)
  moreover have "DequeueBatch 2 16 [''al''] (demo_queue [demo_art_request 1]) = [demo_art_request 1]" by code_simp
  then have "artq_step (demo_qs 1 [demo_art_request 1] []) (demo_qs 2 [demo_art_request 1] [(demo_art_request 1, False)])"
    using artq_step.dequeue [of "demo_qs 1 [demo_art_request 1] []" 2 "[''al'']" 16] by (simp add: demo_qs_def)
  moreover have "aq_Enqueue 3 [] [demo_art_request 0] (demo_queue [demo_art_request 1]) = (demo_queue [demo_art_request 3], False)"
    by code_simp
  then have "artq_step (demo_qs 2 [demo_art_request 1] [(demo_art_request 1, False)]) (demo_qs 3 [demo_art_request 3] [(demo_art_request 1, True)])"
    using artq_step.enqueue [of "demo_qs 2 [demo_art_request 1] [(demo_art_request 1, False)]" 3 "[]" "[demo_art_request 0]" "demo_queue [demo_art_request 3]" "{?k}"]
    by (simp add: demo_qs_def) (simp add: demo_art_request_def new_item_def enqueue_row_def aq_key_def cmp_Or_def)
  moreover have "settle 4 0 demo_settle_errs (\<lambda>_. ''[]'') (with_type (demo_art_request 1)) outcomeFound 0 (demo_queue [demo_art_request 3]) = demo_queue [demo_art_request 3]"
    by code_simp
  then have "artq_step (demo_qs 3 [demo_art_request 3] [(demo_art_request 1, True)]) (demo_qs 4 [demo_art_request 3] [])"
    using artq_step.settle_item [of "demo_qs 3 [demo_art_request 3] [(demo_art_request 1, True)]" 4 "[]" "demo_art_request 1" True "[]" 0 outcomeFound 0 demo_settle_errs "\<lambda>_. ''[]''"]
    by (simp add: demo_qs_def)
  ultimately show r4: "reachable queue_start artq_step (demo_qs 4 [demo_art_request 3] [])" by (meson reach_step)
  have "DequeueBatch 5 16 [''al''] (demo_queue [demo_art_request 3]) = [demo_art_request 3]" by code_simp
  then have "artq_step (demo_qs 4 [demo_art_request 3] []) (demo_qs 5 [demo_art_request 3] [(demo_art_request 3, False)])"
    using artq_step.dequeue [of "demo_qs 4 [demo_art_request 3] []" 5 "[''al'']" 16] by (simp add: demo_qs_def)
  moreover have "settle 6 0 demo_settle_errs (\<lambda>_. ''[]'') (with_type (demo_art_request 3)) outcomeFailed 0 (demo_queue [demo_art_request 3]) = demo_queue [demo_failed]"
    "\<not> answers 6 0 (demo_art_request 3) outcomeFailed 0"
    by code_simp+
  then have "artq_step (demo_qs 5 [demo_art_request 3] [(demo_art_request 3, False)]) (demo_qs 6 [demo_failed] [])"
    using artq_step.settle_item [of "demo_qs 5 [demo_art_request 3] [(demo_art_request 3, False)]" 6 "[]" "demo_art_request 3" False "[]" 0 outcomeFailed 0 demo_settle_errs "\<lambda>_. ''[]''"]
    by (simp add: demo_qs_def)
  ultimately show "reachable queue_start artq_step (demo_qs 6 [demo_failed] [])" using r4 by (meson reach_step)
qed

theorem artwork_requests_not_lost_witness: "(''al'', ''a1'', ''primary'') \<in> queued_keys (demo_queue [demo_art_request 3])"
  using artwork_requests_not_lost [OF demo_queue_run(1)] by (simp add: demo_qs_def)


end
