(* ===== verification/PlaylistTracks.thy ===== *)
theory PlaylistTracks
  imports Media
begin

text \<open>
  The table \<open>playlist_tracks\<close> (\<open>persistence/playlist_track_repository.go\<close> and the statements on it in
  \<open>persistence/playlist_repository.go\<close>). A row has a playlist, a media file and a position, called \<open>id\<close>, and
  the pair of playlist and position is unique. An update changes its rows one after the other, in
  the order of the table, and fails as soon as a row would get the position of another.
\<close>

record track_row =
  tk_playlist :: string
  tk_file :: string
  tk_pos :: int

section \<open>Statements\<close>

definition taken :: "track_row list \<Rightarrow> string \<Rightarrow> int \<Rightarrow> bool" where
  "taken rows pid p \<longleftrightarrow> list_ex (\<lambda>t. tk_playlist t = pid \<and> tk_pos t = p) rows"

fun update_rows :: "(track_row \<Rightarrow> bool) \<Rightarrow> (track_row \<Rightarrow> int) \<Rightarrow> track_row list \<Rightarrow> track_row list \<Rightarrow> track_row list option" where
  "update_rows P g before [] = Some before"
| "update_rows P g before (t # ts) =
     (if P t
      then (if taken (before @ ts) (tk_playlist t) (g t) then None
            else update_rows P g (before @ [t\<lparr>tk_pos := g t\<rparr>]) ts)
      else update_rows P g (before @ [t]) ts)"

definition sql_update :: "string \<Rightarrow> (int \<Rightarrow> bool) \<Rightarrow> (int \<Rightarrow> int) \<Rightarrow> track_row list \<Rightarrow> track_row list option" where
  "sql_update pid P g rows = update_rows (\<lambda>t. tk_playlist t = pid \<and> P (tk_pos t)) (\<lambda>t. g (tk_pos t)) [] rows"

definition affected :: "string \<Rightarrow> (int \<Rightarrow> bool) \<Rightarrow> track_row list \<Rightarrow> nat" where
  "affected pid P rows = length (filter (\<lambda>t. tk_playlist t = pid \<and> P (tk_pos t)) rows)"

fun sql_insert :: "string \<Rightarrow> int \<Rightarrow> string list \<Rightarrow> track_row list \<Rightarrow> track_row list option" where
  "sql_insert pid pos [] rows = Some rows"
| "sql_insert pid pos (f # fs) rows =
     (if taken rows pid pos then None
      else sql_insert pid (pos + 1) fs (rows @ [\<lparr>tk_playlist = pid, tk_file = f, tk_pos = pos\<rparr>]))"

definition sql_delete :: "string \<Rightarrow> (int \<Rightarrow> bool) \<Rightarrow> track_row list \<Rightarrow> track_row list" where
  "sql_delete pid P rows = filter (\<lambda>t. \<not> (tk_playlist t = pid \<and> P (tk_pos t))) rows"

text \<open>\<open>max(id)\<close> of a playlist; \<open>NULL\<close> is read as 0.\<close>

definition positions :: "string \<Rightarrow> track_row list \<Rightarrow> int list" where
  "positions pid rows = map tk_pos (filter (\<lambda>t. tk_playlist t = pid) rows)"

definition max_pos :: "string \<Rightarrow> track_row list \<Rightarrow> int" where
  "max_pos pid rows = (if positions pid rows = [] then 0 else Max (set (positions pid rows)))"

section \<open>Operations\<close>

text \<open>\<open>ROW_NUMBER() OVER (ORDER BY id DESC)\<close> within the playlist.\<close>

definition row_number :: "string \<Rightarrow> track_row list \<Rightarrow> int \<Rightarrow> int" where
  "row_number pid rows p = 1 + int (length (filter (\<lambda>q. q > p) (positions pid rows)))"

definition renumber :: "string \<Rightarrow> track_row list \<Rightarrow> track_row list option" where
  "renumber pid rows =
     (case sql_update pid (\<lambda>p. p > 0) (\<lambda>p. - p) rows of
        None \<Rightarrow> None
      | Some r1 \<Rightarrow> sql_update pid (\<lambda>p. True) (row_number pid r1) r1)"

definition Insert_shift :: "string \<Rightarrow> nat \<Rightarrow> int \<Rightarrow> track_row list \<Rightarrow> track_row list option" where
  "Insert_shift pid n pos rows = sql_update pid (\<lambda>p. p \<ge> pos) (\<lambda>p. - (p + int n)) rows"

definition Insert_flip :: "string \<Rightarrow> track_row list \<Rightarrow> track_row list option" where
  "Insert_flip pid rows = sql_update pid (\<lambda>p. p < 0) (\<lambda>p. - p) rows"

definition sentinel :: int where "sentinel = - 999999"

text \<open>The four steps of \<open>Reorder\<close>, for a position and a new position inside the playlist.\<close>

definition Reorder_steps :: "string \<Rightarrow> int \<Rightarrow> int \<Rightarrow> track_row list \<Rightarrow> track_row list option" where
  "Reorder_steps pid pos newPos rows =
     (case sql_update pid (\<lambda>p. p = pos) (\<lambda>_. sentinel) rows of
        None \<Rightarrow> None
      | Some r1 \<Rightarrow>
          (case (if pos < newPos then sql_update pid (\<lambda>p. p > pos \<and> p \<le> newPos) (\<lambda>p. - (p - 1)) r1
                 else sql_update pid (\<lambda>p. p \<ge> newPos \<and> p < pos) (\<lambda>p. - (p + 1)) r1) of
             None \<Rightarrow> None
           | Some r2 \<Rightarrow>
               (case sql_update pid (\<lambda>p. p < 0 \<and> p \<noteq> sentinel) (\<lambda>p. - p) r2 of
                  None \<Rightarrow> None
                | Some r3 \<Rightarrow> sql_update pid (\<lambda>p. p = sentinel) (\<lambda>_. newPos) r3)))"

section \<open>Updates without collisions\<close>

text \<open>
  The positions of a playlist and its cells, pairs of a position and a file. An update that sends the
  positions it selects to free ones, no two to the same, changes each row by \<open>moved_row\<close>.
\<close>

lemma taken_iff: "taken rows pid p \<longleftrightarrow> p \<in> set (positions pid rows)"
  by (auto simp: taken_def positions_def list_ex_iff)

lemma positions_append [simp]: "positions pid (xs @ ys) = positions pid xs @ positions pid ys"
  by (simp add: positions_def)

lemma positions_Nil [simp]: "positions pid [] = []"
  by (simp add: positions_def)

lemma positions_Cons: "positions pid (t # ts) = (if tk_playlist t = pid then [tk_pos t] else []) @ positions pid ts"
  by (simp add: positions_def)

definition moved_row :: "string \<Rightarrow> (int \<Rightarrow> bool) \<Rightarrow> (int \<Rightarrow> int) \<Rightarrow> track_row \<Rightarrow> track_row" where
  "moved_row pid P g t = (if tk_playlist t = pid \<and> P (tk_pos t) then t\<lparr>tk_pos := g (tk_pos t)\<rparr> else t)"

lemma moved_row_playlist [simp]: "tk_playlist (moved_row pid P g t) = tk_playlist t"
  by (simp add: moved_row_def)

lemma update_rows_disjoint:
  assumes "distinct (positions pid rows)" "inj_on g {p \<in> set (positions pid rows). P p}"
    "\<And>p. p \<in> set (positions pid rows) \<Longrightarrow> P p \<Longrightarrow> g p \<notin> set (positions pid rows) \<union> set (positions pid before)"
  shows "update_rows (\<lambda>t. tk_playlist t = pid \<and> P (tk_pos t)) (\<lambda>t. g (tk_pos t)) before rows =
    Some (before @ map (moved_row pid P g) rows)"
  using assms
proof (induction rows arbitrary: before)
  case (Cons t ts)
  let ?t = "moved_row pid P g t"
  have inj: "inj_on g {p \<in> set (positions pid ts). P p}"
    by (rule inj_on_subset [OF Cons.prems(2)]) (auto simp: positions_Cons)
  have free: "g p \<notin> set (positions pid ts) \<union> set (positions pid (before @ [?t]))"
    if p: "p \<in> set (positions pid ts)" "P p" for p
  proof -
    have "p \<in> set (positions pid (t # ts))" using p(1) by (simp add: positions_Cons)
    from Cons.prems(3) [OF this p(2)] have away: "g p \<notin> set (positions pid (t # ts)) \<union> set (positions pid before)" .
    have "g p \<noteq> tk_pos ?t" if l: "tk_playlist t = pid"
    proof (cases "P (tk_pos t)")
      case True
      have "p \<noteq> tk_pos t" using Cons.prems(1) p(1) l by (auto simp: positions_Cons)
      then have "g p \<noteq> g (tk_pos t)"
        using inj_onD [OF Cons.prems(2), of p "tk_pos t"] p True l by (auto simp: positions_Cons)
      then show ?thesis using l True by (simp add: moved_row_def)
    next
      case False
      then show ?thesis using away l by (simp add: moved_row_def positions_Cons)
    qed
    then have "g p \<notin> set (positions pid [?t])" by (cases "tk_playlist t = pid") (simp_all add: positions_Cons)
    moreover have "g p \<notin> set (positions pid ts)" using away by (simp add: positions_Cons)
    ultimately show ?thesis using away by simp
  qed
  have "distinct (positions pid ts)" using Cons.prems(1) by (simp add: positions_Cons)
  from Cons.IH [OF this inj free]
  have step: "update_rows (\<lambda>t. tk_playlist t = pid \<and> P (tk_pos t)) (\<lambda>t. g (tk_pos t)) (before @ [?t]) ts =
    Some ((before @ [?t]) @ map (moved_row pid P g) ts)" by simp
  show ?case
  proof (cases "tk_playlist t = pid \<and> P (tk_pos t)")
    case True
    have "\<not> taken (before @ ts) (tk_playlist t) (g (tk_pos t))"
      using Cons.prems(3) [of "tk_pos t"] True by (simp add: taken_iff positions_Cons)
    then show ?thesis using step True by (simp add: moved_row_def)
  next
    case False
    then have "?t = t" unfolding moved_row_def by (rule if_not_P)
    then show ?thesis using step unfolding update_rows.simps if_not_P [OF False] by simp
  qed
qed simp

lemma sql_update_disjoint:
  assumes "distinct (positions pid rows)" "inj_on g {p \<in> set (positions pid rows). P p}"
    "\<And>p. p \<in> set (positions pid rows) \<Longrightarrow> P p \<Longrightarrow> g p \<notin> set (positions pid rows)"
  shows "sql_update pid P g rows = Some (map (moved_row pid P g) rows)"
  using update_rows_disjoint [of pid rows g P "[]"] assms by (simp add: sql_update_def)

definition cells :: "string \<Rightarrow> track_row list \<Rightarrow> (int \<times> string) list" where
  "cells pid rows = map (\<lambda>t. (tk_pos t, tk_file t)) (filter (\<lambda>t. tk_playlist t = pid) rows)"

definition others :: "string \<Rightarrow> track_row list \<Rightarrow> track_row list" where
  "others pid rows = filter (\<lambda>t. tk_playlist t \<noteq> pid) rows"

lemma positions_cells: "positions pid rows = map fst (cells pid rows)"
  by (simp add: positions_def cells_def)

lemma cells_moved:
  "cells pid (map (moved_row pid P g) rows) = map (apfst (\<lambda>p. if P p then g p else p)) (cells pid rows)"
  by (induction rows) (auto simp: cells_def moved_row_def)

lemma others_moved [simp]: "others pid (map (moved_row pid P g) rows) = others pid rows"
  by (induction rows) (auto simp: others_def moved_row_def)

text \<open>
  The files \<open>xs\<close> of a playlist stand at the positions \<open>ps\<close>; the table represents \<open>xs\<close> when these are 1, 2, 3
  and so on.
\<close>

definition arranged :: "track_row list \<Rightarrow> string \<Rightarrow> int list \<Rightarrow> string list \<Rightarrow> bool" where
  "arranged rows pid ps xs \<longleftrightarrow>
     distinct ps \<and> length ps = length xs \<and> mset (cells pid rows) = mset (zip ps xs)"

definition represents :: "track_row list \<Rightarrow> string \<Rightarrow> string list \<Rightarrow> bool" where
  "represents rows pid xs \<longleftrightarrow> arranged rows pid [1..int (length xs)] xs"

lemma arranged_positions:
  assumes "arranged rows pid ps xs"
  shows "mset (positions pid rows) = mset ps" "set (positions pid rows) = set ps" "distinct (positions pid rows)"
proof -
  have l: "length ps = length xs" using assms by (simp add: arranged_def)
  have "mset (map fst (cells pid rows)) = mset (map fst (zip ps xs))"
    using assms by (simp only: arranged_def mset_map)
  then show m: "mset (positions pid rows) = mset ps" using l by (simp add: positions_cells)
  then show "set (positions pid rows) = set ps" by (rule mset_eq_setD)
  show "distinct (positions pid rows)" using mset_eq_imp_distinct_iff [OF m] assms by (simp add: arranged_def)
qed

lemma arranged_perm:
  assumes "arranged rows pid ps xs" "mset (zip ps xs) = mset (zip qs ys)" "length qs = length ys"
  shows "arranged rows pid qs ys"
proof -
  have "mset (map fst (zip ps xs)) = mset (map fst (zip qs ys))" using assms(2) by (simp only: mset_map)
  moreover have "length ps = length xs" using assms(1) by (simp add: arranged_def)
  ultimately have "mset ps = mset qs" using assms(3) by (simp only: map_fst_zip)
  then have "distinct qs" using assms(1) mset_eq_imp_distinct_iff by (auto simp: arranged_def)
  then show ?thesis using assms by (simp add: arranged_def)
qed

lemma update_step:
  assumes a: "arranged rows pid ps xs"
    and inj: "inj_on (\<lambda>p. if P p then g p else p) (set ps)"
    and free: "\<And>p. p \<in> set ps \<Longrightarrow> P p \<Longrightarrow> g p \<notin> set ps"
  obtains r where "sql_update pid P g rows = Some r" "arranged r pid (map (\<lambda>p. if P p then g p else p) ps) xs"
    "others pid r = others pid rows"
proof
  let ?h = "\<lambda>p. if P p then g p else p" and ?r = "map (moved_row pid P g) rows"
  note ps = arranged_positions [OF a]
  have "inj_on g {p \<in> set (positions pid rows). P p}" using inj unfolding ps(2) by (auto simp: inj_on_def)
  from sql_update_disjoint [OF ps(3) this] free show "sql_update pid P g rows = Some ?r" by (simp add: ps(2))
  have "mset (cells pid ?r) = mset (map (apfst ?h) (zip ps xs))"
    using a by (simp only: cells_moved arranged_def mset_map)
  also have "map (apfst ?h) (zip ps xs) = zip (map ?h ps) xs" by (simp add: zip_map1 apfst_def map_prod_def case_prod_unfold)
  finally show "arranged ?r pid (map ?h ps) xs" using a inj by (simp add: arranged_def distinct_map)
qed simp

lemma sql_insert_free:
  assumes "arranged rows pid ps xs" "set ps \<inter> {pos..<pos + int (length ys)} = {}"
  obtains r where "sql_insert pid pos ys rows = Some r" "arranged r pid (ps @ [pos..pos + int (length ys) - 1]) (xs @ ys)"
    "others pid r = others pid rows"
  using assms
proof (induction ys arbitrary: rows ps xs pos thesis)
  case (Cons y ys)
  let ?t = "\<lparr>tk_playlist = pid, tk_file = y, tk_pos = pos\<rparr>"
  have new: "pos \<notin> set ps" using Cons.prems(3) by auto
  then have n: "\<not> taken rows pid pos" using arranged_positions(2) [OF Cons.prems(2)] by (simp add: taken_iff)
  have l: "length ps = length xs" using Cons.prems(2) by (simp add: arranged_def)
  then have "zip (ps @ [pos]) (xs @ [y]) = zip ps xs @ [(pos, y)]" by simp
  then have a: "arranged (rows @ [?t]) pid (ps @ [pos]) (xs @ [y])"
    using Cons.prems(2) new by (simp add: arranged_def cells_def)
  have "set (ps @ [pos]) \<inter> {pos + 1..<pos + 1 + int (length ys)} = {}" using Cons.prems(3) by auto
  from Cons.IH [OF _ a this] obtain r where r: "sql_insert pid (pos + 1) ys (rows @ [?t]) = Some r"
    "arranged r pid ((ps @ [pos]) @ [pos + 1..pos + 1 + int (length ys) - 1]) ((xs @ [y]) @ ys)"
    "others pid r = others pid (rows @ [?t])" by blast
  have "[pos..pos + int (length (y # ys)) - 1] = pos # [pos + 1..pos + 1 + int (length ys) - 1]"
    by (simp add: upto_rec1 algebra_simps)
  with r show ?case by (intro Cons.prems(1) [of r]) (simp_all add: n others_def)
next
  case Nil
  then show ?case by (intro Nil.prems(1) [of rows]) simp_all
qed

section \<open>The operations on lists\<close>

lemma length_filter_less_nth:
  fixes ps :: "int list"
  assumes "sorted_wrt (<) ps" "i < length ps"
  shows "length (filter (\<lambda>q. q < ps ! i) ps) = i"
proof -
  have "filter (\<lambda>q. q < ps ! i) (take i ps) = take i ps"
    using assms by (auto simp: filter_id_conv in_set_conv_nth sorted_wrt_nth_less)
  moreover have "filter (\<lambda>q. q < ps ! i) (drop i ps) = []"
  proof (rule filter_False, rule ballI)
    fix q assume "q \<in> set (drop i ps)"
    then obtain j where j: "j < length ps - i" "q = ps ! (i + j)" by (auto simp: in_set_conv_nth)
    show "\<not> q < ps ! i"
    proof (cases j)
      case (Suc k)
      then have "ps ! i < ps ! (i + j)" using j(1) by (intro sorted_wrt_nth_less [OF assms(1)]) auto
      then show ?thesis using j(2) by simp
    qed (use j(2) in simp)
  qed
  ultimately have "filter (\<lambda>q. q < ps ! i) (take i ps @ drop i ps) = take i ps" by (simp only: filter_append append_Nil2)
  then show ?thesis using assms(2) by simp
qed

lemma row_number_negated:
  assumes "arranged rows pid (map uminus ps) xs" "sorted_wrt (<) ps"
  shows "map (row_number pid rows) (map uminus ps) = [1..int (length xs)]"
proof (rule nth_equalityI)
  have l: "length ps = length xs" using assms(1) by (simp add: arranged_def)
  then show "length (map (row_number pid rows) (map uminus ps)) = length [1..int (length xs)]" by simp
  fix i assume "i < length (map (row_number pid rows) (map uminus ps))"
  then have i: "i < length ps" by simp
  have "length (filter (\<lambda>q. q > - (ps ! i)) (positions pid rows)) =
      size (filter_mset (\<lambda>q. q > - (ps ! i)) (mset (map uminus ps)))"
    unfolding arranged_positions(1) [OF assms(1), symmetric] by (simp flip: size_mset)
  also have "\<dots> = length (filter (\<lambda>q. q > - (ps ! i)) (map uminus ps))" by (simp only: mset_filter [symmetric] size_mset)
  also have "\<dots> = length (filter (\<lambda>q. q < ps ! i) ps)" by (simp add: filter_map o_def)
  also have "\<dots> = i" using assms(2) i by (rule length_filter_less_nth)
  finally show "map (row_number pid rows) (map uminus ps) ! i = [1..int (length xs)] ! i"
    using i l by (simp add: row_number_def nth_upto)
qed

lemma renumber_represents:
  assumes a: "arranged rows pid ps xs" and s: "sorted_wrt (<) ps" and pos: "\<And>p. p \<in> set ps \<Longrightarrow> p > 0"
  obtains r where "renumber pid rows = Some r" "represents r pid xs" "others pid r = others pid rows"
proof -
  let ?h = "\<lambda>p::int. if p > 0 then - p else p"
  have map_h: "map ?h ps = map uminus ps" using pos by simp
  have "inj_on ?h (set ps)" using pos by (auto simp: inj_on_def)
  from update_step [OF a this] obtain r1 where r1: "sql_update pid (\<lambda>p. p > 0) (\<lambda>p. - p) rows = Some r1"
    "arranged r1 pid (map uminus ps) xs" "others pid r1 = others pid rows"
    using pos unfolding map_h by (metis neg_0_less_iff_less order_less_asym)
  have rn: "map (row_number pid r1) (map uminus ps) = [1..int (length xs)]" by (rule row_number_negated [OF r1(2) s])
  then have "distinct (map (row_number pid r1) (map uminus ps))" by simp
  then have inj: "inj_on (row_number pid r1) (set (map uminus ps))"
    by (rule distinct_map [THEN iffD1, THEN conjunct2])
  have "row_number pid r1 q \<notin> set (map uminus ps)" for q
  proof
    assume "row_number pid r1 q \<in> set (map uminus ps)"
    then obtain p where "p \<in> set ps" "row_number pid r1 q = - p" by auto
    with pos [of p] show False by (simp add: row_number_def)
  qed
  with update_step [OF r1(2), of "\<lambda>p. True" "row_number pid r1"] inj obtain r where
    "sql_update pid (\<lambda>p. True) (row_number pid r1) r1 = Some r"
    "arranged r pid (map (row_number pid r1) (map uminus ps)) xs" "others pid r = others pid r1" by auto
  with r1 rn show thesis by (intro that [of r]) (simp_all add: renumber_def represents_def)
qed

text \<open>A list with its items numbered from \<open>a\<close> on.\<close>

definition num :: "int \<Rightarrow> string list \<Rightarrow> (int \<times> string) list" where
  "num a xs = zip [a..a + int (length xs) - 1] xs"

lemma num_Nil [simp]: "num a [] = []"
  by (simp add: num_def)

lemma num_Cons [simp]: "num a (x # xs) = (a, x) # num (a + 1) xs"
  by (simp add: num_def upto_rec1 algebra_simps)

lemma num_append [simp]: "num a (xs @ ys) = num a xs @ num (a + int (length xs)) ys"
  by (induction xs arbitrary: a) (simp_all add: algebra_simps)

lemma map_num:
  "(\<And>p. a \<le> p \<Longrightarrow> p < a + int (length xs) \<Longrightarrow> h p = p + c) \<Longrightarrow> map (apfst h) (num a xs) = num (a + c) xs"
  by (induction xs arbitrary: a) (simp_all add: algebra_simps)

lemma map_num_id:
  "(\<And>p. a \<le> p \<Longrightarrow> p < a + int (length xs) \<Longrightarrow> h p = p) \<Longrightarrow> map (apfst h) (num a xs) = num a xs"
  using map_num [of a xs h 0] by simp

lemma zip_map_num: "zip (map h [1..int (length xs)]) xs = map (apfst h) (num 1 xs)"
  by (simp add: num_def zip_map1 apfst_def map_prod_def case_prod_unfold)

lemma represents_mset: "represents rows pid xs \<longleftrightarrow> mset (cells pid rows) = mset (num 1 xs)"
  by (simp add: represents_def arranged_def num_def)

lemma represents_max: "represents rows pid xs \<Longrightarrow> max_pos pid rows = int (length xs)"
proof -
  assume "represents rows pid xs"
  then have s: "set (positions pid rows) = {1..int (length xs)}"
    using arranged_positions(2) by (auto simp: represents_def)
  show ?thesis
  proof (cases "xs = []")
    case True
    with s show ?thesis by (simp add: max_pos_def)
  next
    case False
    then have ne: "1 \<le> int (length xs)" by (cases xs) simp_all
    with s have "positions pid rows \<noteq> []" by force
    moreover have "Max {1..int (length xs)} = int (length xs)" using ne by (intro Max_eqI) auto
    ultimately show ?thesis using s by (simp add: max_pos_def)
  qed
qed

lemma append_represents:
  assumes "represents rows pid xs"
  obtains r where "sql_insert pid (int (length xs) + 1) ys rows = Some r" "represents r pid (xs @ ys)"
    "others pid r = others pid rows"
proof -
  have a: "arranged rows pid [1..int (length xs)] xs" using assms by (simp add: represents_def)
  have "set [1..int (length xs)] \<inter> {int (length xs) + 1..<int (length xs) + 1 + int (length ys)} = {}" by auto
  from sql_insert_free [OF a this] obtain r where r: "sql_insert pid (int (length xs) + 1) ys rows = Some r"
    "arranged r pid ([1..int (length xs)] @ [int (length xs) + 1..int (length xs) + 1 + int (length ys) - 1]) (xs @ ys)"
    "others pid r = others pid rows" by blast
  have "zip ([1..int (length xs)] @ [int (length xs) + 1..int (length xs) + 1 + int (length ys) - 1]) (xs @ ys) =
    num 1 (xs @ ys)" unfolding num_append by (simp add: num_def add.commute)
  with r(2) have "represents r pid (xs @ ys)" by (simp only: represents_mset arranged_def)
  with r(1,3) show thesis by (intro that [of r]) simp_all
qed

text \<open>Making room for \<open>n\<close> files before position \<open>pos\<close>.\<close>

lemma room_represents:
  assumes rep: "represents rows pid xs" and "pos \<ge> 1" and "n \<ge> 1"
  obtains r1 r2 where "Insert_shift pid n pos rows = Some r1" "Insert_flip pid r1 = Some r2"
    "arranged r2 pid (map (\<lambda>p. if p \<ge> pos then p + int n else p) [1..int (length xs)]) xs"
    "affected pid (\<lambda>p. p < 0) r1 = 0 \<longleftrightarrow> pos > int (length xs)" "others pid r2 = others pid rows"
proof -
  have a: "arranged rows pid [1..int (length xs)] xs" using rep by (simp add: represents_def)
  let ?h1 = "\<lambda>p::int. if p \<ge> pos then - (p + int n) else p"
  let ?ps1 = "map ?h1 [1..int (length xs)]"
  have "inj_on ?h1 (set [1..int (length xs)])" using assms(2,3) by (auto simp: inj_on_def split: if_splits)
  from update_step [OF a this] obtain r1 where r1: "Insert_shift pid n pos rows = Some r1"
    "arranged r1 pid ?ps1 xs" "others pid r1 = others pid rows"
    unfolding Insert_shift_def using assms(2,3) by (auto simp: Ball_def)
  let ?h2 = "\<lambda>p::int. if p < 0 then - p else p"
  have inj: "inj_on ?h2 (set ?ps1)" using assms(2,3) by (auto simp: inj_on_def split: if_splits)
  have "- p \<notin> set ?ps1" if l: "p \<in> set ?ps1" "p < 0" for p using l assms(2,3) by (auto split: if_splits)
  with update_step [OF r1(2) inj] obtain r2 where r2: "Insert_flip pid r1 = Some r2"
    "arranged r2 pid (map ?h2 ?ps1) xs" "others pid r2 = others pid r1"
    unfolding Insert_flip_def by blast
  have "map ?h2 ?ps1 = map (\<lambda>p. if p \<ge> pos then p + int n else p) [1..int (length xs)]"
    using assms(2,3) by auto
  with r2(2) have a2: "arranged r2 pid (map (\<lambda>p. if p \<ge> pos then p + int n else p) [1..int (length xs)]) xs" by (simp only:)
  have "affected pid (\<lambda>p. p < 0) r1 = 0 \<longleftrightarrow> (\<forall>p\<in>set (positions pid r1). \<not> p < 0)"
    by (auto simp: affected_def positions_def filter_empty_conv)
  moreover have "(\<forall>p\<in>set ?ps1. \<not> p < 0) \<longleftrightarrow> pos > int (length xs)"
  proof
    assume "\<forall>p\<in>set ?ps1. \<not> p < 0"
    then have "\<not> ?h1 pos < 0" if l: "pos \<le> int (length xs)" using l assms(2) unfolding set_map by fastforce
    then show "pos > int (length xs)" using assms(2) by fastforce
  qed (use assms(2,3) in auto)
  ultimately have "affected pid (\<lambda>p. p < 0) r1 = 0 \<longleftrightarrow> pos > int (length xs)"
    unfolding arranged_positions(2) [OF r1(2)] by (simp only:)
  with r1(1) r2(1) a2 show thesis using r1(3) r2(3) by (intro that [of r1 r2]) simp_all
qed

lemma gap_numbered:
  assumes "k \<le> length xs" "pos = int k + 1"
  shows "mset (zip (map (\<lambda>p. if p \<ge> pos then p + int n else p) [1..int (length xs)] @ [pos..pos + int (length ys) - 1]) (xs @ ys)) =
    mset (num 1 (take k xs) @ num pos ys @ num (pos + int n) (drop k xs))"
proof -
  let ?h = "\<lambda>p. if p \<ge> pos then p + int n else p"
  have l: "int (length (take k xs)) = int k" using assms(1) by simp
  have "zip (map ?h [1..int (length xs)]) xs = map (apfst ?h) (num 1 (take k xs @ drop k xs))" by (simp add: zip_map_num)
  also have "\<dots> = map (apfst ?h) (num 1 (take k xs)) @ map (apfst ?h) (num pos (drop k xs))"
    unfolding num_append l assms(2) by (simp add: add.commute)
  also have "map (apfst ?h) (num 1 (take k xs)) = num 1 (take k xs)" using assms by (intro map_num_id) simp
  also have "map (apfst ?h) (num pos (drop k xs)) = num (pos + int n) (drop k xs)" by (intro map_num) simp
  finally show ?thesis by (simp add: num_def)
qed

lemma map_fst_num: "map fst (num a xs) = [a..a + int (length xs) - 1]"
  by (simp add: num_def)

lemma map_snd_num [simp]: "map snd (num a xs) = xs"
  by (simp add: num_def)

lemma fst_snd_arranged:
  "mset (cells pid rows) = mset zs \<Longrightarrow> distinct (map fst zs) \<Longrightarrow> arranged rows pid (map fst zs) (map snd zs)"
  by (simp add: arranged_def zip_map_fst_snd)

lemma insert_represents:
  assumes a: "arranged rows pid (map (\<lambda>p. if p \<ge> pos then p + int n else p) [1..int (length xs)]) xs"
    and k: "k \<le> length xs" "pos = int k + 1" and m: "length ys \<le> n"
  obtains r where "sql_insert pid pos ys rows = Some r" "others pid r = others pid rows"
    "length ys = n \<Longrightarrow> represents r pid (take k xs @ ys @ drop k xs)"
    "\<exists>r2. renumber pid r = Some r2 \<and> represents r2 pid (take k xs @ ys @ drop k xs) \<and> others pid r2 = others pid rows"
proof -
  let ?ps = "map (\<lambda>p. if p \<ge> pos then p + int n else p) [1..int (length xs)]"
  let ?zs = "num 1 (take k xs) @ num pos ys @ num (pos + int n) (drop k xs)"
  have l: "int (length (take k xs)) = int k" using k by simp
  have "set ?ps \<inter> {pos..<pos + int (length ys)} = {}" using m by auto
  from sql_insert_free [OF a this] obtain r where r: "sql_insert pid pos ys rows = Some r"
    "arranged r pid (?ps @ [pos..pos + int (length ys) - 1]) (xs @ ys)" "others pid r = others pid rows" by blast
  from r(2) have c: "mset (cells pid r) = mset ?zs" unfolding arranged_def gap_numbered [OF k] by blast
  have fst: "map fst ?zs = [1..int k] @ [pos..pos + int (length ys) - 1] @ [pos + int n..int n + int (length xs)]"
    using k by (simp add: map_fst_num)
  have snd: "map snd ?zs = take k xs @ ys @ drop k xs" by simp
  have sorted: "sorted_wrt (<) (map fst ?zs)"
    unfolding fst using k m by (auto simp: sorted_wrt_append sorted_wrt_upto)
  then have "distinct (map fst ?zs)" by (simp only: strict_sorted_iff)
  from fst_snd_arranged [OF c this] have ar: "arranged r pid (map fst ?zs) (take k xs @ ys @ drop k xs)" unfolding snd .
  have "p > 0" if p: "p \<in> set (map fst ?zs)" for p using p k unfolding fst by auto
  from renumber_represents [OF ar sorted this] obtain r2 where
    "renumber pid r = Some r2" "represents r2 pid (take k xs @ ys @ drop k xs)" "others pid r2 = others pid r" by blast
  moreover have "represents r pid (take k xs @ ys @ drop k xs)" if n: "length ys = n"
    using c k unfolding represents_mset num_append l by (simp add: n add.commute)
  ultimately show thesis using r by (intro that [of r]) auto
qed

text \<open>Deleting positions.\<close>

lemma cells_delete: "cells pid (sql_delete pid P rows) = filter (\<lambda>c. \<not> P (fst c)) (cells pid rows)"
  by (induction rows) (auto simp: cells_def sql_delete_def)

lemma others_delete [simp]: "others pid (sql_delete pid P rows) = others pid rows"
  by (induction rows) (auto simp: others_def sql_delete_def)

lemma filter_num: "map snd (filter (\<lambda>c. \<not> P (fst c)) (num a xs)) = nths xs {i. \<not> P (a + int i)}"
proof (induction xs arbitrary: a)
  case (Cons x xs)
  have "{i. \<not> P (a + (1 + int i))} = {i. \<not> P (a + 1 + int i)}" by (simp add: add.assoc)
  with Cons [of "a + 1"] show ?case by (simp add: nths_Cons)
qed simp

lemma delete_represents:
  assumes "represents rows pid xs"
  obtains r where "renumber pid (sql_delete pid P rows) = Some r"
    "represents r pid (nths xs {i. \<not> P (1 + int i)})" "others pid r = others pid rows"
proof -
  let ?zs = "filter (\<lambda>c. \<not> P (fst c)) (num 1 xs)"
  have c: "mset (cells pid (sql_delete pid P rows)) = mset ?zs"
    using assms by (simp add: cells_delete represents_mset)
  have fst: "map fst ?zs = filter (\<lambda>p. \<not> P p) [1..int (length xs)]"
    by (simp add: filter_map o_def flip: map_fst_num [of 1 xs, simplified])
  have sorted: "sorted_wrt (<) (map fst ?zs)" unfolding fst by (intro sorted_wrt_filter sorted_wrt_upto)
  then have "distinct (map fst ?zs)" by (simp only: strict_sorted_iff)
  from fst_snd_arranged [OF c this]
  have a: "arranged (sql_delete pid P rows) pid (map fst ?zs) (nths xs {i. \<not> P (1 + int i)})" unfolding filter_num .
  have "p > 0" if p: "p \<in> set (map fst ?zs)" for p using p unfolding fst by auto
  from renumber_represents [OF a sorted this] show thesis using that by (metis others_delete)
qed

text \<open>Moving an item of a list.\<close>

definition move_item :: "nat \<Rightarrow> nat \<Rightarrow> 'a list \<Rightarrow> 'a list" where
  "move_item i j xs = (let ys = take i xs @ drop (Suc i) xs in take j ys @ [xs ! i] @ drop j ys)"

lemma move_item_split:
  assumes "i < length xs" "j < length xs" "i < j"
  obtains A x B C where "xs = A @ x # B @ C" "length A = i" "length B = j - i" "move_item i j xs = A @ B @ x # C"
proof -
  let ?A = "take i xs" and ?B = "take (j - i) (drop (Suc i) xs)" and ?C = "drop (j - i) (drop (Suc i) xs)"
  have "xs = ?A @ xs ! i # ?B @ ?C" using assms(1) by (metis append_take_drop_id id_take_nth_drop)
  moreover have "move_item i j xs = ?A @ ?B @ xs ! i # ?C"
    using assms by (simp add: move_item_def Let_def min_def)
  ultimately show thesis using assms by (intro that [of ?A "xs ! i" ?B ?C]) simp_all
qed

lemma move_item_split_back:
  assumes "i < length xs" "j < i"
  obtains A x B C where "xs = A @ B @ x # C" "length A = j" "length B = i - j" "move_item i j xs = A @ x # B @ C"
proof -
  let ?A = "take j xs" and ?B = "take (i - j) (drop j xs)" and ?C = "drop (Suc i) xs"
  have t: "take i xs = ?A @ ?B" using assms(2) by (metis less_imp_le le_add_diff_inverse take_add)
  have "xs = take i xs @ xs ! i # ?C" using assms(1) by (rule id_take_nth_drop)
  then have "xs = ?A @ ?B @ xs ! i # ?C" unfolding t by simp
  moreover have "move_item i j xs = ?A @ xs ! i # ?B @ ?C"
    using assms unfolding move_item_def Let_def t by (simp add: min_def)
  ultimately show thesis using assms by (intro that [of ?A ?B "xs ! i" ?C]) (simp_all add: min_def)
qed

text \<open>Where \<open>Reorder\<close> sends the positions.\<close>

definition reorder_pos :: "int \<Rightarrow> int \<Rightarrow> int \<Rightarrow> int" where
  "reorder_pos pos newPos p =
     (if p = pos then newPos
      else if pos < p \<and> p \<le> newPos then p - 1
      else if newPos \<le> p \<and> p < pos then p + 1
      else p)"

lemma reorder_numbered:
  assumes "i < length xs" "j < length xs" "i \<noteq> j"
  shows "mset (map (apfst (reorder_pos (int i + 1) (int j + 1))) (num 1 xs)) = mset (num 1 (move_item i j xs))"
proof (cases "i < j")
  case True
  obtain A x B C where s: "xs = A @ x # B @ C" "length A = i" "length B = j - i" "move_item i j xs = A @ B @ x # C"
    using move_item_split [OF assms(1,2) True] .
  let ?h = "reorder_pos (int i + 1) (int j + 1)"
  have l: "int i + int (length B) = int j" using s(3) True by simp
  have "map (apfst ?h) (num 1 A) = num 1 A" using s(2) True by (intro map_num_id) (simp add: reorder_pos_def)
  moreover have "map (apfst ?h) (num (int i + 2) B) = num (int i + 1) B"
    using l map_num [of "int i + 2" B ?h "- 1"] by (simp add: reorder_pos_def add.commute)
  moreover have "map (apfst ?h) (num (int j + 2) C) = num (int j + 2) C"
    using True by (intro map_num_id) (simp add: reorder_pos_def)
  moreover have "?h (int i + 1) = int j + 1" by (simp add: reorder_pos_def)
  moreover have "num 1 xs = num 1 A @ (int i + 1, x) # num (int i + 2) B @ num (int j + 2) C"
    unfolding s(1) by (simp add: s(2) l [symmetric] algebra_simps)
  moreover have "num 1 (move_item i j xs) = num 1 A @ num (int i + 1) B @ (int j + 1, x) # num (int j + 2) C"
    unfolding s(4) by (simp add: s(2) l [symmetric] algebra_simps)
  ultimately show ?thesis by simp
next
  case False
  with assms have ji: "j < i" by simp
  with assms(1) obtain A x B C where s: "xs = A @ B @ x # C" "length A = j" "length B = i - j" "move_item i j xs = A @ x # B @ C"
    by (rule move_item_split_back)
  let ?h = "reorder_pos (int i + 1) (int j + 1)"
  have l: "int j + int (length B) = int i" using s(3) ji by simp
  have "map (apfst ?h) (num 1 A) = num 1 A" using s(2) ji by (intro map_num_id) (simp add: reorder_pos_def)
  moreover have "map (apfst ?h) (num (int j + 1) B) = num (int j + 1 + 1) B"
    using l by (intro map_num) (simp add: reorder_pos_def)
  moreover have "map (apfst ?h) (num (int i + 2) C) = num (int i + 2) C"
    using ji by (intro map_num_id) (simp add: reorder_pos_def)
  moreover have "?h (int i + 1) = int j + 1" by (simp add: reorder_pos_def)
  moreover have "num 1 xs = num 1 A @ num (int j + 1) B @ (int i + 1, x) # num (int i + 2) C"
    unfolding s(1) by (simp add: s(2) l [symmetric] algebra_simps)
  moreover have "num 1 (move_item i j xs) = num 1 A @ (int j + 1, x) # num (int j + 1 + 1) B @ num (int i + 2) C"
    unfolding s(4) by (simp add: s(2) l [symmetric] algebra_simps)
  ultimately show ?thesis by simp
qed

lemma reorder_pos_inj:
  assumes "1 \<le> pos" "pos \<le> n" "1 \<le> newPos" "newPos \<le> n"
  shows "inj_on (reorder_pos pos newPos) {1..n}" "reorder_pos pos newPos ` {1..n} \<subseteq> {1..n}"
  using assms by (auto simp: inj_on_def reorder_pos_def split: if_splits)

text \<open>The positions after the first, the second and the third step of \<open>Reorder\<close>.\<close>

definition reorder_out :: "int \<Rightarrow> int \<Rightarrow> int" where
  "reorder_out pos p = (if p = pos then sentinel else p)"

definition reorder_mid :: "int \<Rightarrow> int \<Rightarrow> int \<Rightarrow> int" where
  "reorder_mid pos newPos p =
     (if p = pos then sentinel
      else if pos < p \<and> p \<le> newPos then - (p - 1)
      else if newPos \<le> p \<and> p < pos then - (p + 1)
      else p)"

definition reorder_late :: "int \<Rightarrow> int \<Rightarrow> int \<Rightarrow> int" where
  "reorder_late pos newPos p = (if p = pos then sentinel else reorder_pos pos newPos p)"

lemma reorder_pos_positive:
  assumes "1 \<le> pos" "pos \<le> n" "1 \<le> newPos" "newPos \<le> n" "p \<in> {1..n}"
  shows "reorder_pos pos newPos p > 0"
  using reorder_pos_inj(2) [OF assms(1-4)] assms(5) by force

lemma reorder_late_inj:
  assumes "1 \<le> pos" "pos \<le> n" "1 \<le> newPos" "newPos \<le> n"
  shows "inj_on (reorder_late pos newPos) {1..n}"
proof (rule inj_onI)
  fix p q assume pq: "p \<in> {1..n}" "q \<in> {1..n}" "reorder_late pos newPos p = reorder_late pos newPos q"
  have "reorder_pos pos newPos r \<noteq> sentinel" if l: "r \<in> {1..n}" for r
    using reorder_pos_positive [OF assms l] by (simp add: sentinel_def)
  with pq show "p = q" using inj_onD [OF reorder_pos_inj(1) [OF assms], of p q]
    unfolding reorder_late_def by (metis (full_types))
qed

lemma reorder_mid_late:
  assumes "1 \<le> pos" "pos \<le> n" "1 \<le> newPos" "newPos \<le> n" "n < 999999" "p \<in> {1..n}"
  shows "(if reorder_mid pos newPos p < 0 \<and> reorder_mid pos newPos p \<noteq> sentinel
          then - reorder_mid pos newPos p else reorder_mid pos newPos p) = reorder_late pos newPos p"
  using assms unfolding reorder_mid_def reorder_late_def reorder_pos_def by (simp add: sentinel_def)

lemma reorder_mid_inj:
  assumes "1 \<le> pos" "pos \<le> n" "1 \<le> newPos" "newPos \<le> n" "n < 999999"
  shows "inj_on (reorder_mid pos newPos) {1..n}"
proof (rule inj_onI)
  fix p q assume pq: "p \<in> {1..n}" "q \<in> {1..n}" "reorder_mid pos newPos p = reorder_mid pos newPos q"
  then have "reorder_late pos newPos p = reorder_late pos newPos q"
    unfolding reorder_mid_late [OF assms pq(1), symmetric] reorder_mid_late [OF assms pq(2), symmetric] by simp
  then show "p = q" using inj_onD [OF reorder_late_inj [OF assms(1-4)]] pq(1,2) by blast
qed

lemma reorder_mid_free:
  assumes "1 \<le> pos" "pos \<le> n" "1 \<le> newPos" "newPos \<le> n" "n < 999999" "p \<in> {1..n}" "q \<in> {1..n}"
    and neg: "reorder_mid pos newPos p < 0 \<and> reorder_mid pos newPos p \<noteq> sentinel"
  shows "- reorder_mid pos newPos p \<noteq> reorder_mid pos newPos q"
proof
  assume eq: "- reorder_mid pos newPos p = reorder_mid pos newPos q"
  have "reorder_late pos newPos p = - reorder_mid pos newPos p" using reorder_mid_late [OF assms(1-6)] neg by simp
  moreover have "reorder_late pos newPos q = reorder_mid pos newPos q"
    using reorder_mid_late [OF assms(1-5) assms(7)] eq neg by simp
  ultimately have "p = q" using inj_onD [OF reorder_late_inj [OF assms(1-4)], of p q] assms(6,7) eq by simp
  then show False using eq neg by simp
qed

lemma update_step_map:
  assumes a: "arranged rows pid (map f [1..n]) xs"
    and f': "\<And>p. p \<in> {1..n} \<Longrightarrow> (if P (f p) then g (f p) else f p) = f' p" and inj: "inj_on f' {1..n}"
    and free: "\<And>p q. p \<in> {1..n} \<Longrightarrow> q \<in> {1..n} \<Longrightarrow> P (f p) \<Longrightarrow> g (f p) \<noteq> f q"
  obtains r where "sql_update pid P g rows = Some r" "arranged r pid (map f' [1..n]) xs" "others pid r = others pid rows"
proof -
  let ?h = "\<lambda>p. if P p then g p else p"
  have "inj_on (?h \<circ> f) {1..n}" using inj f' by (simp add: inj_on_def)
  then have inj': "inj_on ?h (set (map f [1..n]))" unfolding set_map set_upto by (rule inj_on_imageI)
  have m: "map ?h (map f [1..n]) = map f' [1..n]" using f' unfolding map_map by (intro map_cong) simp_all
  show thesis
    using update_step [OF a inj'] that free unfolding m set_map set_upto by (metis imageE)
qed

lemma reorder_represents:
  assumes rep: "represents rows pid xs" and pos: "1 \<le> pos" "pos \<le> int (length xs)"
    and new: "1 \<le> newPos" "newPos \<le> int (length xs)" and ne: "pos \<noteq> newPos" and small: "length xs < 999999"
  obtains r where "Reorder_steps pid pos newPos rows = Some r"
    "represents r pid (move_item (nat (pos - 1)) (nat (newPos - 1)) xs)" "others pid r = others pid rows"
proof -
  let ?n = "int (length xs)"
  have n: "?n < 999999" using small by linarith
  have "arranged rows pid (map id [1..?n]) xs" using rep by (simp add: represents_def)
  then obtain r1 where r1: "sql_update pid (\<lambda>p. p = pos) (\<lambda>_. sentinel) rows = Some r1"
    "arranged r1 pid (map (reorder_out pos) [1..?n]) xs" "others pid r1 = others pid rows"
    by (rule update_step_map [where P = "\<lambda>p. p = pos" and g = "\<lambda>_. sentinel" and f' = "reorder_out pos"]) (auto simp: reorder_out_def inj_on_def sentinel_def)
  define P2 where "P2 = (\<lambda>p::int. if pos < newPos then p > pos \<and> p \<le> newPos else p \<ge> newPos \<and> p < pos)"
  define g2 where "g2 = (\<lambda>p::int. if pos < newPos then - (p - 1) else - (p + 1))"
  from r1(2) obtain r2 where r2: "sql_update pid P2 g2 r1 = Some r2"
    "arranged r2 pid (map (reorder_mid pos newPos) [1..?n]) xs" "others pid r2 = others pid r1"
  proof (rule update_step_map [where P = P2 and g = g2 and f' = "reorder_mid pos newPos"])
    show "inj_on (reorder_mid pos newPos) {1..?n}" by (rule reorder_mid_inj [OF pos new n])
  qed (use pos new n in \<open>auto simp: P2_def g2_def reorder_out_def reorder_mid_def sentinel_def split: if_splits\<close>)
  from r2(2) obtain r3 where r3: "sql_update pid (\<lambda>p. p < 0 \<and> p \<noteq> sentinel) (\<lambda>p. - p) r2 = Some r3"
    "arranged r3 pid (map (reorder_late pos newPos) [1..?n]) xs" "others pid r3 = others pid r2"
    by (rule update_step_map [OF _ reorder_mid_late [OF pos new n] reorder_late_inj [OF pos new] reorder_mid_free [OF pos new n]])
  from r3(2) obtain r where r: "sql_update pid (\<lambda>p. p = sentinel) (\<lambda>_. newPos) r3 = Some r"
    "arranged r pid (map (reorder_pos pos newPos) [1..?n]) xs" "others pid r = others pid r3"
  proof (rule update_step_map [where P = "\<lambda>p. p = sentinel" and g = "\<lambda>_. newPos" and f' = "reorder_pos pos newPos"])
    show "inj_on (reorder_pos pos newPos) {1..?n}" by (rule reorder_pos_inj(1) [OF pos new])
    fix p assume p: "p \<in> {1..?n}"
    have "reorder_pos pos newPos p \<noteq> sentinel" using reorder_pos_positive [OF pos new p] by (simp add: sentinel_def)
    then show "(if reorder_late pos newPos p = sentinel then newPos else reorder_late pos newPos p) = reorder_pos pos newPos p"
      by (cases "p = pos") (simp_all add: reorder_late_def reorder_pos_def [of pos newPos pos])
    fix q assume q: "q \<in> {1..?n}"
    show "newPos \<noteq> reorder_late pos newPos q"
      using new ne unfolding reorder_late_def reorder_pos_def sentinel_def by (auto split: if_splits)
  qed
  let ?i = "nat (pos - 1)" and ?j = "nat (newPos - 1)"
  have ij: "pos = int ?i + 1" "newPos = int ?j + 1" "?i < length xs" "?j < length xs" "?i \<noteq> ?j" using pos new ne by auto
  have "mset (cells pid r) = mset (map (apfst (reorder_pos pos newPos)) (num 1 xs))"
    using r(2) by (simp only: arranged_def zip_map_num)
  also have "\<dots> = mset (num 1 (move_item ?i ?j xs))" using reorder_numbered [OF ij(3-5)] ij(1,2) by simp
  finally have "represents r pid (move_item ?i ?j xs)" by (simp add: represents_mset)
  moreover have "Reorder_steps pid pos newPos rows = Some r"
    using r1(1) r2(1) r3(1) r(1) by (cases "pos < newPos") (simp_all add: Reorder_steps_def P2_def g2_def)
  ultimately show thesis using r1(3) r2(3) r3(3) r(3) by (intro that [of r]) simp_all
qed

end
