(* ===== verification/PlaylistRepo.thy ===== *)
theory PlaylistRepo
  imports PlaylistTracks Criteria ArtworkStore
begin

text \<open>
  The playlist repository: \<open>model/playlist.go\<close>, \<open>persistence/playlist_repository.go\<close>,
  \<open>playlist_track_repository.go\<close> and what they use of \<open>sql_base_repository.go\<close> and \<open>persistence.go\<close>. An
  operation is an action on the database that may fail. The database carries the outcomes of the coming
  statements, so that any of them can fail; a failed statement changes nothing, and a transaction
  that fails is rolled back. Rules are stored as JSON and decoded on every read. Media files are
  listed in the order of album artist, album, release date, disc and track.

  Arguments from outside the model are the fields of \<open>pl_env\<close>: the user of the request, the time, the next
  random ID, SQLite's sum of durations as it is read back, and its conversion of text to an integer
  key. Sums of sizes and counts go through a \<open>float32\<close>.
\<close>

section \<open>Data\<close>

record playlist =
  pls_ID :: string
  pls_Name :: string
  pls_Comment :: string
  pls_Duration :: int
  pls_Size :: int
  pls_SongCount :: int
  pls_OwnerID :: string
  pls_Public :: bool
  pls_Tracks :: "string list"
  pls_Path :: string
  pls_Sync :: bool
  pls_UploadedImage :: string
  pls_ExternalImageURL :: string
  pls_CreatedAt :: time
  pls_UpdatedAt :: time
  pls_ImportedHash :: string
  pls_Rules :: "criteria option"
  pls_EvaluatedAt :: "time option"

definition IsSmartPlaylist :: "playlist \<Rightarrow> bool" where
  "IsSmartPlaylist p = (case pls_Rules p of None \<Rightarrow> False | Some c \<Rightarrow> cr_Expression c \<noteq> None)"

definition TracksEditable :: "playlist \<Rightarrow> bool" where
  "TracksEditable p \<longleftrightarrow> \<not> IsSmartPlaylist p \<and> \<not> pls_Sync p"

definition pls_RefreshDelay :: "duration \<Rightarrow> playlist \<Rightarrow> duration" where
  "pls_RefreshDelay dflt p =
     (case pls_Rules p of
        Some c \<Rightarrow> if IsSmartPlaylist p \<and> cr_RefreshDelay c > 0 then cr_RefreshDelay c else dflt
      | None \<Rightarrow> dflt)"

text \<open>A row of the table \<open>playlist\<close>; no rules are \<open>NULL\<close>.\<close>

record playlist_row =
  pr_id :: string
  pr_name :: string
  pr_comment :: string
  pr_duration :: int
  pr_size :: int
  pr_song_count :: int
  pr_owner_id :: string
  pr_public :: bool
  pr_path :: string
  pr_sync :: bool
  pr_uploaded_image :: string
  pr_external_image_url :: string
  pr_created_at :: time
  pr_updated_at :: time
  pr_imported_hash :: string
  pr_rules :: "json option"
  pr_evaluated_at :: "time option"

record file_row =
  fr_id :: string
  fr_library :: int
  fr_size :: nat
  fr_duration :: int
  fr_missing :: bool
  fr_album :: string
  fr_albumArtist :: string
  fr_releaseDate :: string
  fr_disc :: int

record pl_db =
  pd_playlists :: "playlist_row list"
  pd_tracks :: "track_row list"
  pd_files :: "file_row list"
  pd_art :: art_db
  pd_libraries :: "int list"
  pd_userLibrary :: "(string \<times> int) list"
  pd_users :: "string list"
  pd_faults :: "bool list"

datatype pl_error =
  ErrNotFound | ErrNotAuthorized | ErrPlaylistNotEditable | ErrPermissionDenied | ErrSQL | ErrRules | ErrIDRequired | NilDereference

record pl_env =
  le_user :: "user option"
  le_now :: time
  le_newID :: string
  le_fsum :: "int list \<Rightarrow> int"
  le_affinity :: "string \<Rightarrow> int option"
  le_fields :: field_map
  le_splice :: splice

section \<open>Actions\<close>

type_synonym 'a pl_action = "pl_db \<Rightarrow> pl_db \<times> (pl_error + 'a)"

definition pl_ret :: "'a \<Rightarrow> 'a pl_action" where
  "pl_ret a d = (d, Inr a)"

definition pl_fail :: "pl_error \<Rightarrow> 'a pl_action" where
  "pl_fail e d = (d, Inl e)"

definition pl_bind :: "'a pl_action \<Rightarrow> ('a \<Rightarrow> 'b pl_action) \<Rightarrow> 'b pl_action" where
  "pl_bind m f d = (case m d of (d1, Inl e) \<Rightarrow> (d1, Inl e) | (d1, Inr a) \<Rightarrow> f a d1)"

definition next_fault :: "pl_db \<Rightarrow> bool" where
  "next_fault d \<longleftrightarrow> pd_faults d \<noteq> [] \<and> hd (pd_faults d)"

definition pop_fault :: "pl_db \<Rightarrow> pl_db" where
  "pop_fault d = d\<lparr>pd_faults := tl (pd_faults d)\<rparr>"

definition pl_stmt :: "'a pl_action \<Rightarrow> 'a pl_action" where
  "pl_stmt f d = (if next_fault d then (pop_fault d, Inl ErrSQL) else f (pop_fault d))"

definition pl_query :: "(pl_db \<Rightarrow> 'a) \<Rightarrow> 'a pl_action" where
  "pl_query h = pl_stmt (\<lambda>d. (d, Inr (h d)))"

text \<open>The result of an action whose error the caller looks at.\<close>

definition pl_try :: "'a pl_action \<Rightarrow> (pl_error + 'a) pl_action" where
  "pl_try m d = (case m d of (d1, r) \<Rightarrow> (d1, Inr r))"

definition exec_tracks :: "(track_row list \<Rightarrow> track_row list option) \<Rightarrow> unit pl_action" where
  "exec_tracks g =
     pl_stmt (\<lambda>d. case g (pd_tracks d) of None \<Rightarrow> (d, Inl ErrSQL) | Some r \<Rightarrow> (d\<lparr>pd_tracks := r\<rparr>, Inr ()))"

text \<open>\<open>WithTx\<close>: an error of the block, of the begin or of the commit leaves the database as it was.\<close>

definition WithTx :: "'a pl_action \<Rightarrow> 'a pl_action" where
  "WithTx m d =
     (if next_fault d then (pop_fault d, Inl ErrSQL)
      else (case m (pop_fault d) of
              (d2, Inl e) \<Rightarrow> (d\<lparr>pd_faults := pd_faults d2\<rparr>, Inl e)
            | (d2, Inr a) \<Rightarrow>
                if next_fault d2 then (d\<lparr>pd_faults := pd_faults (pop_fault d2)\<rparr>, Inl ErrSQL)
                else (pop_fault d2, Inr a)))"

text \<open>
  \<open>WithTxImmediate\<close> writes a property first and deletes it last, to take the write lock at once; their
  errors are ignored, and the property does not outlive the transaction.
\<close>

definition WithTxImmediate :: "'a pl_action \<Rightarrow> 'a pl_action" where
  "WithTxImmediate m = WithTx (\<lambda>d. case m (pop_fault d) of (d1, r) \<Rightarrow> (pop_fault d1, r))"

section \<open>Reading\<close>

definition logged_user :: "pl_env \<Rightarrow> user" where
  "logged_user e =
     (case le_user e of
        Some u \<Rightarrow> u
      | None \<Rightarrow> \<lparr>us_ID = ''-1'', us_UserName = [], us_ScrobbleFilter = [], us_LibraryAccess = [], us_IsAdmin = False, us_TokenEpoch = 0\<rparr>)"

text \<open>\<open>request.UserFrom\<close> with its flag dropped: the zero user when there is none.\<close>

definition request_user :: "pl_env \<Rightarrow> string \<times> bool" where
  "request_user e = (case le_user e of Some u \<Rightarrow> (us_ID u, us_IsAdmin u) | None \<Rightarrow> ([], False))"

definition userFilter :: "pl_env \<Rightarrow> playlist_row \<Rightarrow> bool" where
  "userFilter e r \<longleftrightarrow> us_IsAdmin (logged_user e) \<or> pr_public r \<or> pr_owner_id r = us_ID (logged_user e)"

definition of_playlist_row :: "pl_env \<Rightarrow> playlist_row \<Rightarrow> pl_error + playlist" where
  "of_playlist_row e r =
     (let mk = (\<lambda>rules. \<lparr>pls_ID = pr_id r, pls_Name = pr_name r, pls_Comment = pr_comment r, pls_Duration = pr_duration r,
            pls_Size = pr_size r, pls_SongCount = pr_song_count r, pls_OwnerID = pr_owner_id r, pls_Public = pr_public r,
            pls_Tracks = [], pls_Path = pr_path r, pls_Sync = pr_sync r, pls_UploadedImage = pr_uploaded_image r,
            pls_ExternalImageURL = pr_external_image_url r, pls_CreatedAt = pr_created_at r, pls_UpdatedAt = pr_updated_at r,
            pls_ImportedHash = pr_imported_hash r, pls_Rules = rules, pls_EvaluatedAt = pr_evaluated_at r\<rparr>)
      in case pr_rules r of
           None \<Rightarrow> Inr (mk None)
         | Some j \<Rightarrow> (case criteria_UnmarshalJSON (le_fields e) criteria0 j of Inl _ \<Rightarrow> Inl ErrRules | Inr c \<Rightarrow> Inr (mk (Some c))))"

text \<open>Every selected row is decoded before the first one is taken. Playlists are joined with their owners.\<close>

fun decode_rows :: "pl_env \<Rightarrow> playlist_row list \<Rightarrow> pl_error + playlist list" where
  "decode_rows e [] = Inr []"
| "decode_rows e (r # rs) =
     (case of_playlist_row e r of
        Inl err \<Rightarrow> Inl err
      | Inr p \<Rightarrow> (case decode_rows e rs of Inl err \<Rightarrow> Inl err | Inr ps \<Rightarrow> Inr (p # ps)))"

definition select_playlists :: "(playlist_row \<Rightarrow> bool) \<Rightarrow> pl_db \<Rightarrow> playlist_row list" where
  "select_playlists P d = filter (\<lambda>r. P r \<and> List.member (pd_users d) (pr_owner_id r)) (pd_playlists d)"

definition findBy :: "pl_env \<Rightarrow> (playlist_row \<Rightarrow> bool) \<Rightarrow> playlist pl_action" where
  "findBy e P =
     pl_bind (pl_query (select_playlists P)) (\<lambda>rs.
       case decode_rows e rs of
         Inl err \<Rightarrow> pl_fail err
       | Inr [] \<Rightarrow> pl_fail ErrNotFound
       | Inr (p # _) \<Rightarrow> pl_ret p)"

definition pls_Get :: "pl_env \<Rightarrow> string \<Rightarrow> playlist pl_action" where
  "pls_Get e i = findBy e (\<lambda>r. pr_id r = i \<and> userFilter e r)"

definition FindByPath :: "pl_env \<Rightarrow> string \<Rightarrow> playlist pl_action" where
  "FindByPath e path = findBy e (\<lambda>r. pr_path r = path)"

definition pls_Exists :: "pl_env \<Rightarrow> string \<Rightarrow> bool pl_action" where
  "pls_Exists e i = pl_query (\<lambda>d. list_ex (\<lambda>r. pr_id r = i \<and> userFilter e r) (pd_playlists d))"

definition pls_GetAll :: "pl_env \<Rightarrow> (playlist_row \<Rightarrow> bool) \<Rightarrow> playlist list pl_action" where
  "pls_GetAll e P =
     pl_bind (pl_query (select_playlists (\<lambda>r. P r \<and> userFilter e r))) (\<lambda>rs.
       case decode_rows e rs of Inl err \<Rightarrow> pl_fail err | Inr ps \<Rightarrow> pl_ret ps)"

text \<open>Deleting a playlist deletes its tracks with it (\<open>on delete cascade\<close>).\<close>

definition pls_Delete :: "pl_env \<Rightarrow> string \<Rightarrow> unit pl_action" where
  "pls_Delete e i =
     pl_stmt (\<lambda>d. let gone = map pr_id (filter (\<lambda>r. pr_id r = i \<and> userFilter e r) (pd_playlists d)) in
       (d\<lparr>pd_playlists := filter (\<lambda>r. \<not> (pr_id r = i \<and> userFilter e r)) (pd_playlists d),
          pd_tracks := filter (\<lambda>t. \<not> List.member gone (tk_playlist t)) (pd_tracks d)\<rparr>, Inr ()))"

section \<open>Counters\<close>

text \<open>An integer read into a \<open>float32\<close>: 24 significant bits, ties to even.\<close>

fun f32_shift :: "nat \<Rightarrow> nat" where
  "f32_shift n = (if n < 2 ^ 24 then 0 else Suc (f32_shift (n div 2)))"

declare f32_shift.simps [simp del]

definition float32_of :: "nat \<Rightarrow> nat" where
  "float32_of n =
     (let k = f32_shift n; q = n div 2 ^ k; r = n mod 2 ^ k in
      (q + (if 2 * r > 2 ^ k \<or> 2 * r = 2 ^ k \<and> odd q then 1 else 0)) * 2 ^ k)"

text \<open>The rows of a playlist joined with the files they name.\<close>

definition joined_files :: "string \<Rightarrow> pl_db \<Rightarrow> file_row list" where
  "joined_files pid d =
     concat (map (\<lambda>t. filter (\<lambda>f. fr_id f = tk_file t) (pd_files d)) (filter (\<lambda>t. tk_playlist t = pid) (pd_tracks d)))"

definition pl_stats :: "pl_env \<Rightarrow> string \<Rightarrow> pl_db \<Rightarrow> int \<times> nat \<times> nat" where
  "pl_stats e pid d =
     (let fs = joined_files pid d in
      (le_fsum e (map fr_duration fs), float32_of (sum_list (map fr_size fs)), float32_of (length fs)))"

definition refreshCounters :: "pl_env \<Rightarrow> string \<Rightarrow> unit pl_action" where
  "refreshCounters e pid =
     pl_bind (pl_query (pl_stats e pid)) (\<lambda>(dur, size, n).
       pl_stmt (\<lambda>d. (d\<lparr>pd_playlists := map (\<lambda>r. if pr_id r = pid
            then r\<lparr>pr_duration := dur, pr_size := int size, pr_song_count := int n, pr_updated_at := le_now e\<rparr> else r)
            (pd_playlists d)\<rparr>, Inr ())))"

text \<open>The artwork of a playlist is enqueued; an error is only logged.\<close>

definition enqueueCoverRebuild :: "pl_env \<Rightarrow> string \<Rightarrow> unit pl_action" where
  "enqueueCoverRebuild e pid d =
     (let d1 = pop_fault d in
      (d1\<lparr>pd_art := fst (aq_Enqueue (le_now e) [next_fault d]
            [new_item (le_now e) (kind_Prefix KindPlaylist) pid ImageTypePrimary ArtworkPriorityScan] (pd_art d1))\<rparr>, Inr ()))"

section \<open>Libraries\<close>

definition sees_everything :: "pl_env \<Rightarrow> bool" where
  "sees_everything e \<longleftrightarrow> us_IsAdmin (logged_user e) \<or> us_ID (logged_user e) = ''-1''"

definition visibleLibraryIDs :: "pl_env \<Rightarrow> int list pl_action" where
  "visibleLibraryIDs e =
     (if sees_everything e then pl_query pd_libraries else pl_ret (us_LibraryAccess (logged_user e)))"

definition userSeesAllLibraries :: "pl_env \<Rightarrow> int list \<Rightarrow> bool pl_action" where
  "userSeesAllLibraries e visible =
     (if sees_everything e then pl_ret True
      else pl_bind (pl_try (pl_query (\<lambda>d. length (pd_libraries d)))) (\<lambda>r.
        case r of Inl _ \<Rightarrow> pl_ret False | Inr cnt \<Rightarrow> pl_ret (cnt \<noteq> 0 \<and> length visible = cnt)))"

text \<open>\<open>err == nil && r.userSeesAllLibraries(visible)\<close>.\<close>

definition sees_all :: "pl_env \<Rightarrow> bool pl_action" where
  "sees_all e =
     pl_bind (pl_try (visibleLibraryIDs e)) (\<lambda>r.
       case r of Inl _ \<Rightarrow> pl_ret False | Inr visible \<Rightarrow> userSeesAllLibraries e visible)"

definition granted :: "pl_env \<Rightarrow> pl_db \<Rightarrow> file_row \<Rightarrow> bool" where
  "granted e d f \<longleftrightarrow> List.member (pd_userLibrary d) (us_ID (logged_user e), fr_library f)"

definition applyLibraryFilter :: "pl_env \<Rightarrow> (pl_db \<Rightarrow> file_row \<Rightarrow> bool) pl_action" where
  "applyLibraryFilter e =
     (if sees_everything e then pl_ret (\<lambda>_ _. True)
      else pl_bind (sees_all e) (\<lambda>b. pl_ret (if b then (\<lambda>_ _. True) else granted e)))"

fun accessible_chunks :: "pl_env \<Rightarrow> string list list \<Rightarrow> string list \<Rightarrow> string list pl_action" where
  "accessible_chunks e [] acc = pl_ret acc"
| "accessible_chunks e (c # cs) acc =
     pl_bind (applyLibraryFilter e) (\<lambda>P.
       pl_bind (pl_query (\<lambda>d. map fr_id (filter (\<lambda>f. List.member c (fr_id f) \<and> P d f) (pd_files d)))) (\<lambda>found.
         accessible_chunks e cs (acc @ found)))"

definition keepAccessible :: "pl_env \<Rightarrow> string list \<Rightarrow> string list pl_action" where
  "keepAccessible e ids =
     pl_bind (sees_all e) (\<lambda>b.
       if b then pl_ret ids
       else pl_bind (accessible_chunks e (art_chunks 200 (remdups ids)) []) (\<lambda>acc.
         pl_ret (filter (\<lambda>i. List.member acc i) ids)))"

section \<open>Writing tracks\<close>

text \<open>An \<open>INSERT\<close> into \<open>playlist_tracks\<close>, whose playlist has to exist.\<close>

definition insert_stmt :: "string \<Rightarrow> int \<Rightarrow> string list \<Rightarrow> unit pl_action" where
  "insert_stmt pid pos ids =
     pl_stmt (\<lambda>d. if \<not> list_ex (\<lambda>r. pr_id r = pid) (pd_playlists d) then (d, Inl ErrSQL)
       else (case sql_insert pid pos ids (pd_tracks d) of None \<Rightarrow> (d, Inl ErrSQL) | Some r \<Rightarrow> (d\<lparr>pd_tracks := r\<rparr>, Inr ())))"

fun insert_chunks :: "string \<Rightarrow> int \<Rightarrow> string list list \<Rightarrow> unit pl_action" where
  "insert_chunks pid pos [] = pl_ret ()"
| "insert_chunks pid pos (c # cs) =
     pl_bind (insert_stmt pid pos c) (\<lambda>_. insert_chunks pid (pos + int (length c)) cs)"

definition addTracks :: "pl_env \<Rightarrow> string \<Rightarrow> int \<Rightarrow> string list \<Rightarrow> nat pl_action" where
  "addTracks e pid pos ids =
     pl_bind (keepAccessible e ids) (\<lambda>kept.
       pl_bind (insert_chunks pid pos (art_chunks 200 kept)) (\<lambda>_.
         pl_bind (enqueueCoverRebuild e pid) (\<lambda>_.
           pl_bind (refreshCounters e pid) (\<lambda>_. pl_ret (length kept)))))"

definition delete_stmt :: "string \<Rightarrow> (int \<Rightarrow> bool) \<Rightarrow> unit pl_action" where
  "delete_stmt pid P = exec_tracks (\<lambda>rows. Some (sql_delete pid P rows))"

definition updatePlaylist :: "pl_env \<Rightarrow> string \<Rightarrow> string list \<Rightarrow> unit pl_action" where
  "updatePlaylist e pid ids =
     pl_bind (delete_stmt pid (\<lambda>_. True)) (\<lambda>_. pl_bind (addTracks e pid 1 ids) (\<lambda>_. pl_ret ()))"

text \<open>The two statements of \<open>renumber\<close>, and what follows them.\<close>

definition pls_renumber :: "pl_env \<Rightarrow> string \<Rightarrow> unit pl_action" where
  "pls_renumber e pid =
     pl_bind (exec_tracks (sql_update pid (\<lambda>p. p > 0) (\<lambda>p. - p))) (\<lambda>_.
       pl_bind (exec_tracks (\<lambda>rows. sql_update pid (\<lambda>p. True) (row_number pid rows) rows)) (\<lambda>_.
         pl_bind (enqueueCoverRebuild e pid) (\<lambda>_. refreshCounters e pid)))"

text \<open>\<open>sql.NullInt32\<close>: a larger maximum is an error; the sum wraps at 32 bits.\<close>

definition maxInt32 :: int where "maxInt32 = 2147483647"

definition query_max :: "string \<Rightarrow> int pl_action" where
  "query_max pid =
     pl_bind (pl_query (\<lambda>d. max_pos pid (pd_tracks d))) (\<lambda>m. if m > maxInt32 then pl_fail ErrSQL else pl_ret m)"

definition int32_plus1 :: "int \<Rightarrow> int" where
  "int32_plus1 m = (if m = maxInt32 then - maxInt32 - 1 else m + 1)"

definition trk_Add :: "pl_env \<Rightarrow> string \<Rightarrow> string list \<Rightarrow> nat pl_action" where
  "trk_Add e pid ids =
     (if ids = [] then pl_ret 0
      else pl_bind (query_max pid) (\<lambda>m. addTracks e pid (int32_plus1 m) ids))"

definition trk_Insert :: "pl_env \<Rightarrow> string \<Rightarrow> string list \<Rightarrow> int \<Rightarrow> nat pl_action" where
  "trk_Insert e pid ids pos0 =
     (if ids = [] then pl_ret 0
      else (let pos = max pos0 1; n = length ids in
        pl_bind (exec_tracks (Insert_shift pid n pos)) (\<lambda>_.
          pl_bind (pl_stmt (\<lambda>d. case Insert_flip pid (pd_tracks d) of
                    None \<Rightarrow> (d, Inl ErrSQL)
                  | Some r \<Rightarrow> (d\<lparr>pd_tracks := r\<rparr>, Inr (affected pid (\<lambda>p. p < 0) (pd_tracks d))))) (\<lambda>res.
            if res = 0 then trk_Add e pid ids
            else pl_bind (addTracks e pid pos ids) (\<lambda>inserted.
              if inserted = n then pl_ret inserted
              else pl_bind (pls_renumber e pid) (\<lambda>_. pl_ret inserted))))))"

definition deleteChunkSize :: nat where "deleteChunkSize = 200"

fun delete_chunks :: "pl_env \<Rightarrow> string \<Rightarrow> string list list \<Rightarrow> unit pl_action" where
  "delete_chunks e pid [] = pl_ret ()"
| "delete_chunks e pid (c # cs) =
     pl_bind (delete_stmt pid (\<lambda>p. list_ex (\<lambda>s. le_affinity e s = Some p) c)) (\<lambda>_. delete_chunks e pid cs)"

definition trk_Delete :: "pl_env \<Rightarrow> string \<Rightarrow> string list \<Rightarrow> unit pl_action" where
  "trk_Delete e pid ids =
     pl_bind (delete_chunks e pid (art_chunks deleteChunkSize ids)) (\<lambda>_. pls_renumber e pid)"

definition trk_DeleteAll :: "pl_env \<Rightarrow> string \<Rightarrow> unit pl_action" where
  "trk_DeleteAll e pid = pl_bind (delete_stmt pid (\<lambda>_. True)) (\<lambda>_. pls_renumber e pid)"

definition trk_Reorder :: "string \<Rightarrow> int \<Rightarrow> int \<Rightarrow> unit pl_action" where
  "trk_Reorder pid pos newPos0 =
     pl_bind (query_max pid) (\<lambda>last.
       if pos < 1 \<or> pos > last then pl_fail ErrNotFound
       else (let newPos = min (max newPos0 1) last in
         if pos = newPos then pl_ret ()
         else pl_bind (exec_tracks (sql_update pid (\<lambda>p. p = pos) (\<lambda>_. sentinel))) (\<lambda>_.
           pl_bind (if pos < newPos
                    then exec_tracks (sql_update pid (\<lambda>p. p > pos \<and> p \<le> newPos) (\<lambda>p. - (p - 1)))
                    else exec_tracks (sql_update pid (\<lambda>p. p \<ge> newPos \<and> p < pos) (\<lambda>p. - (p + 1)))) (\<lambda>_.
             pl_bind (exec_tracks (sql_update pid (\<lambda>p. p < 0 \<and> p \<noteq> sentinel) (\<lambda>p. - p))) (\<lambda>_.
               exec_tracks (sql_update pid (\<lambda>p. p = sentinel) (\<lambda>_. newPos)))))))"

text \<open>\<open>AddAlbums\<close>, \<open>AddArtists\<close> and \<open>AddDiscs\<close> add the files that meet a condition.\<close>

definition addMediaFileIds :: "pl_env \<Rightarrow> string \<Rightarrow> (file_row \<Rightarrow> bool) \<Rightarrow> nat pl_action" where
  "addMediaFileIds e pid P =
     pl_bind (pl_query (\<lambda>d. map fr_id (filter P (pd_files d)))) (trk_Add e pid)"

definition trk_AddAlbums :: "pl_env \<Rightarrow> string \<Rightarrow> string list \<Rightarrow> nat pl_action" where
  "trk_AddAlbums e pid ids = addMediaFileIds e pid (\<lambda>f. List.member ids (fr_album f))"

definition trk_AddArtists :: "pl_env \<Rightarrow> string \<Rightarrow> string list \<Rightarrow> nat pl_action" where
  "trk_AddArtists e pid ids = addMediaFileIds e pid (\<lambda>f. List.member ids (fr_albumArtist f))"

definition trk_AddDiscs :: "pl_env \<Rightarrow> string \<Rightarrow> (string \<times> string \<times> int) list \<Rightarrow> nat pl_action" where
  "trk_AddDiscs e pid discs =
     (if discs = [] then pl_ret 0
      else addMediaFileIds e pid (\<lambda>f. List.member discs (fr_album f, fr_releaseDate f, fr_disc f)))"

section \<open>Writing playlists\<close>

text \<open>\<open>PostMapArgs\<close>: the rules of a smart playlist as JSON; the counters are then left to the evaluation.\<close>

definition marshal_rules :: "pl_env \<Rightarrow> playlist \<Rightarrow> pl_error + json option" where
  "marshal_rules e p =
     (if IsSmartPlaylist p
      then (case criteria_MarshalJSON (le_splice e) (the (pls_Rules p)) of Inl _ \<Rightarrow> Inl ErrRules | Inr j \<Rightarrow> Inr (Some j))
      else Inr None)"

definition update_row :: "playlist \<Rightarrow> json option \<Rightarrow> playlist_row \<Rightarrow> playlist_row" where
  "update_row p rules r =
     (let r1 = r\<lparr>pr_name := pls_Name p, pr_comment := pls_Comment p, pr_owner_id := pls_OwnerID p, pr_public := pls_Public p,
          pr_path := pls_Path p, pr_sync := pls_Sync p, pr_uploaded_image := pls_UploadedImage p,
          pr_external_image_url := pls_ExternalImageURL p, pr_updated_at := pls_UpdatedAt p,
          pr_imported_hash := pls_ImportedHash p, pr_evaluated_at := pls_EvaluatedAt p\<rparr>
      in case rules of
           Some j \<Rightarrow> r1\<lparr>pr_rules := Some j\<rparr>
         | None \<Rightarrow> r1\<lparr>pr_duration := pls_Duration p, pr_size := pls_Size p, pr_song_count := pls_SongCount p\<rparr>)"

definition insert_row :: "string \<Rightarrow> playlist \<Rightarrow> json option \<Rightarrow> playlist_row" where
  "insert_row i p rules =
     update_row p rules
       \<lparr>pr_id = i, pr_name = [], pr_comment = [], pr_duration = 0, pr_size = 0, pr_song_count = 0, pr_owner_id = [],
        pr_public = False, pr_path = [], pr_sync = False, pr_uploaded_image = [], pr_external_image_url = [],
        pr_created_at = pls_CreatedAt p, pr_updated_at = 0, pr_imported_hash = [], pr_rules = None, pr_evaluated_at = None\<rparr>"

text \<open>\<open>put\<close>: update the row with the ID, or insert one. The owner has to be a user.\<close>

definition sql_put_playlist :: "pl_env \<Rightarrow> playlist \<Rightarrow> string pl_action" where
  "sql_put_playlist e p =
     (case marshal_rules e p of
        Inl err \<Rightarrow> pl_fail err
      | Inr rules \<Rightarrow>
          (let i = pls_ID p; new = (if i = [] then le_newID e else i);
               owned = (\<lambda>d. List.member (pd_users d) (pls_OwnerID p));
               upd = pl_stmt (\<lambda>d. if list_ex (\<lambda>r. pr_id r = i) (pd_playlists d) \<and> \<not> owned d then (d, Inl ErrSQL)
                       else (d\<lparr>pd_playlists := map (\<lambda>r. if pr_id r = i then update_row p rules r else r) (pd_playlists d)\<rparr>,
                             Inr (list_ex (\<lambda>r. pr_id r = i) (pd_playlists d))));
               ins = pl_stmt (\<lambda>d. if \<not> owned d \<or> list_ex (\<lambda>r. pr_id r = new) (pd_playlists d) then (d, Inl ErrSQL)
                       else (d\<lparr>pd_playlists := pd_playlists d @ [insert_row new p rules]\<rparr>, Inr new))
           in if i = [] then ins else pl_bind upd (\<lambda>hit. if hit then pl_ret i else ins)))"

text \<open>\<open>Put\<close> with columns, as it is called: \<open>sync\<close> and \<open>public\<close>. A row that is missing is inserted.\<close>

definition sql_put_flags :: "pl_env \<Rightarrow> playlist \<Rightarrow> bool \<Rightarrow> bool \<Rightarrow> unit pl_action" where
  "sql_put_flags e p sync pub =
     (if pls_ID p = [] then pl_fail ErrIDRequired
      else case marshal_rules e p of
        Inl err \<Rightarrow> pl_fail err
      | Inr rules \<Rightarrow>
          pl_bind (pl_stmt (\<lambda>d. (d\<lparr>pd_playlists := map (\<lambda>r. if pr_id r = pls_ID p
                      then r\<lparr>pr_sync := (if sync then pls_Sync p else pr_sync r), pr_public := (if pub then pls_Public p else pr_public r)\<rparr>
                      else r) (pd_playlists d)\<rparr>, Inr (list_ex (\<lambda>r. pr_id r = pls_ID p) (pd_playlists d))))) (\<lambda>hit.
            if hit then pl_ret ()
            else pl_stmt (\<lambda>d. if \<not> List.member (pd_users d) (pls_OwnerID p) \<or> list_ex (\<lambda>r. pr_id r = pls_ID p) (pd_playlists d)
                   then (d, Inl ErrSQL)
                   else (d\<lparr>pd_playlists := pd_playlists d @ [insert_row (pls_ID p) p rules]\<rparr>, Inr ()))))"

definition pls_Put :: "pl_env \<Rightarrow> playlist \<Rightarrow> string pl_action" where
  "pls_Put e p =
     (let isNew = (pls_ID p = []);
          p1 = p\<lparr>pls_CreatedAt := (if isNew then le_now e else pls_CreatedAt p), pls_UpdatedAt := le_now e\<rparr>
      in pl_bind (sql_put_playlist e p1) (\<lambda>i.
           if IsSmartPlaylist p then pl_ret i
           else if pls_Tracks p \<noteq> [] then pl_bind (updatePlaylist e i (pls_Tracks p)) (\<lambda>_. pl_ret i)
           else pl_bind (if isNew then enqueueCoverRebuild e i else pl_ret ()) (\<lambda>_.
             pl_bind (refreshCounters e i) (\<lambda>_. pl_ret i))))"

end
