(* ===== verification/Playlists.thy ===== *)
theory Playlists
  imports PlaylistRepo ArtworkWorker
begin

text \<open>
  The playlist service: \<open>core/playlists/playlists.go\<close> and \<open>rest_adapter.go\<close> over the repository of
  \<open>PlaylistRepo\<close>. Calling a method of the track repository that \<open>Tracks\<close> did not return panics; the
  transaction around it is rolled back.
\<close>

section \<open>Permissions\<close>

definition checkWritable :: "pl_env \<Rightarrow> string \<Rightarrow> playlist pl_action" where
  "checkWritable e i =
     pl_bind (pls_Get e i) (\<lambda>p. if pls_OwnerID p \<noteq> fst (request_user e) then pl_fail ErrNotAuthorized else pl_ret p)"

definition checkTracksEditable :: "pl_env \<Rightarrow> string \<Rightarrow> playlist pl_action" where
  "checkTracksEditable e i =
     pl_bind (checkWritable e i) (\<lambda>p. if \<not> TracksEditable p then pl_fail ErrPlaylistNotEditable else pl_ret p)"

text \<open>\<open>Tracks(id, false)\<close> and a call on what it returns.\<close>

definition on_tracks :: "pl_env \<Rightarrow> string \<Rightarrow> 'a pl_action \<Rightarrow> 'a pl_action" where
  "on_tracks e i m d = (case pls_Get e i d of (d1, Inl _) \<Rightarrow> (d1, Inl NilDereference) | (d1, Inr _) \<Rightarrow> m d1)"

section \<open>Mutations\<close>

definition new_playlist :: "string \<Rightarrow> string \<Rightarrow> playlist" where
  "new_playlist name owner =
     \<lparr>pls_ID = [], pls_Name = name, pls_Comment = [], pls_Duration = 0, pls_Size = 0, pls_SongCount = 0, pls_OwnerID = owner,
      pls_Public = False, pls_Tracks = [], pls_Path = [], pls_Sync = False, pls_UploadedImage = [], pls_ExternalImageURL = [],
      pls_CreatedAt = zeroTime, pls_UpdatedAt = zeroTime, pls_ImportedHash = [], pls_Rules = None, pls_EvaluatedAt = None\<rparr>"

text \<open>The files that are added by ID have no size or duration yet, so the counters are zero except the number.\<close>

definition AddMediaFilesByID :: "playlist \<Rightarrow> string list \<Rightarrow> playlist" where
  "AddMediaFilesByID p ids =
     p\<lparr>pls_Tracks := pls_Tracks p @ ids, pls_SongCount := int (length (pls_Tracks p @ ids)), pls_Duration := 0, pls_Size := 0\<rparr>"

definition svc_Create :: "pl_env \<Rightarrow> string \<Rightarrow> string \<Rightarrow> string list \<Rightarrow> string pl_action" where
  "svc_Create e i name ids =
     WithTxImmediate
       (pl_bind (if i \<noteq> []
                 then pl_bind (pls_Get e i) (\<lambda>p.
                   if pls_OwnerID p \<noteq> fst (request_user e) then pl_fail ErrNotAuthorized
                   else if \<not> TracksEditable p then pl_fail ErrPlaylistNotEditable else pl_ret p)
                 else pl_ret (new_playlist name (fst (request_user e))))
         (\<lambda>p. pls_Put e (AddMediaFilesByID (p\<lparr>pls_Tracks := []\<rparr>) ids)))"

definition svc_Delete :: "pl_env \<Rightarrow> string \<Rightarrow> unit pl_action" where
  "svc_Delete e i = pl_bind (checkWritable e i) (\<lambda>p. pls_Delete e i)"

definition updateMetadata :: "pl_env \<Rightarrow> playlist \<Rightarrow> string option \<Rightarrow> string option \<Rightarrow> bool option \<Rightarrow> unit pl_action" where
  "updateMetadata e p name comment pub =
     pl_bind (pls_Put e (p\<lparr>pls_Name := (case name of Some n \<Rightarrow> n | None \<Rightarrow> pls_Name p),
                          pls_Comment := (case comment of Some c \<Rightarrow> c | None \<Rightarrow> pls_Comment p),
                          pls_Public := (case pub of Some b \<Rightarrow> b | None \<Rightarrow> pls_Public p)\<rparr>)) (\<lambda>_. pl_ret ())"

definition svc_Update ::
  "pl_env \<Rightarrow> string \<Rightarrow> string option \<Rightarrow> string option \<Rightarrow> bool option \<Rightarrow> string list \<Rightarrow> int list \<Rightarrow> unit pl_action" where
  "svc_Update e i name comment pub idsToAdd idxToRemove =
     pl_bind (if idsToAdd \<noteq> [] \<or> idxToRemove \<noteq> [] then checkTracksEditable e i else checkWritable e i) (\<lambda>p.
       WithTxImmediate
         (if idxToRemove \<noteq> []
          then pl_bind (on_tracks e i (pl_bind (trk_Delete e i (map (\<lambda>idx. Itoa (idx + 1)) idxToRemove)) (\<lambda>_.
                 if idsToAdd \<noteq> [] then pl_bind (trk_Add e i idsToAdd) (\<lambda>_. pl_ret ()) else pl_ret ()))) (\<lambda>_.
               updateMetadata e p name comment pub)
          else pl_bind (if idsToAdd \<noteq> [] then pl_bind (on_tracks e i (trk_Add e i idsToAdd)) (\<lambda>_. pl_ret ()) else pl_ret ()) (\<lambda>_.
               if name = None \<and> comment = None \<and> pub = None then pl_ret ()
               else updateMetadata e p name comment pub)))"

definition svc_AddTracks :: "pl_env \<Rightarrow> string \<Rightarrow> string list \<Rightarrow> nat pl_action" where
  "svc_AddTracks e i ids = pl_bind (checkTracksEditable e i) (\<lambda>_. on_tracks e i (trk_Add e i ids))"

definition svc_InsertTracks :: "pl_env \<Rightarrow> string \<Rightarrow> string list \<Rightarrow> int \<Rightarrow> nat pl_action" where
  "svc_InsertTracks e i ids pos =
     pl_bind (checkTracksEditable e i) (\<lambda>_. WithTxImmediate (on_tracks e i (trk_Insert e i ids pos)))"

definition svc_AddAlbums :: "pl_env \<Rightarrow> string \<Rightarrow> string list \<Rightarrow> nat pl_action" where
  "svc_AddAlbums e i ids = pl_bind (checkTracksEditable e i) (\<lambda>_. on_tracks e i (trk_AddAlbums e i ids))"

definition svc_AddArtists :: "pl_env \<Rightarrow> string \<Rightarrow> string list \<Rightarrow> nat pl_action" where
  "svc_AddArtists e i ids = pl_bind (checkTracksEditable e i) (\<lambda>_. on_tracks e i (trk_AddArtists e i ids))"

definition svc_AddDiscs :: "pl_env \<Rightarrow> string \<Rightarrow> (string \<times> string \<times> int) list \<Rightarrow> nat pl_action" where
  "svc_AddDiscs e i discs = pl_bind (checkTracksEditable e i) (\<lambda>_. on_tracks e i (trk_AddDiscs e i discs))"

definition svc_RemoveTracks :: "pl_env \<Rightarrow> string \<Rightarrow> string list \<Rightarrow> unit pl_action" where
  "svc_RemoveTracks e i ids =
     pl_bind (checkTracksEditable e i) (\<lambda>_. WithTx (on_tracks e i (trk_Delete e i ids)))"

definition svc_ReorderTrack :: "pl_env \<Rightarrow> string \<Rightarrow> int \<Rightarrow> int \<Rightarrow> unit pl_action" where
  "svc_ReorderTrack e i pos newPos =
     pl_bind (checkTracksEditable e i) (\<lambda>_. WithTxImmediate (on_tracks e i (trk_Reorder i pos newPos)))"

text \<open>\<open>up\<close> is what the upload of the image returns; the artwork is refreshed afterwards, errors are only logged.\<close>

definition refreshArtwork :: "pl_env \<Rightarrow> string \<Rightarrow> unit pl_action" where
  "refreshArtwork e i d =
     (let d1 = pop_fault d; d2 = (if next_fault d then d1 else pop_fault d1) in
      (d2\<lparr>pd_art := fst (art_Refresh (le_now e) [next_fault d] [next_fault d1] KindPlaylist i (pd_art d))\<rparr>, Inr ()))"

definition svc_SetImage :: "pl_env \<Rightarrow> pl_error + string \<Rightarrow> string \<Rightarrow> unit pl_action" where
  "svc_SetImage e up i =
     pl_bind (checkWritable e i) (\<lambda>p.
       case up of
         Inl err \<Rightarrow> pl_fail err
       | Inr filename \<Rightarrow> pl_bind (pls_Put e (p\<lparr>pls_UploadedImage := filename\<rparr>)) (\<lambda>_. refreshArtwork e (pls_ID p)))"

definition svc_RemoveImage :: "pl_env \<Rightarrow> pl_error + unit \<Rightarrow> string \<Rightarrow> unit pl_action" where
  "svc_RemoveImage e removed i =
     pl_bind (checkWritable e i) (\<lambda>p.
       case removed of
         Inl err \<Rightarrow> pl_fail err
       | Inr _ \<Rightarrow> pl_bind (pls_Put e (p\<lparr>pls_UploadedImage := []\<rparr>)) (\<lambda>_. refreshArtwork e (pls_ID p)))"

section \<open>The REST adapter\<close>

definition savePlaylist :: "pl_env \<Rightarrow> playlist \<Rightarrow> string pl_action" where
  "savePlaylist e p =
     pls_Put e (p\<lparr>pls_OwnerID := fst (request_user e), pls_ID := [], pls_Path := [], pls_Sync := False, pls_UploadedImage := [],
       pls_ExternalImageURL := [], pls_EvaluatedAt := None\<rparr>)"

definition sentFields :: "string list \<Rightarrow> string \<Rightarrow> bool" where
  "sentFields cols field \<longleftrightarrow> cols = [] \<or> List.member (map ToLower cols) (ToLower field)"

text \<open>\<open>reflect.DeepEqual\<close>; the maps of a leaf are compared without an order.\<close>

fun expr_equal :: "expression \<Rightarrow> expression \<Rightarrow> bool" where
  "expr_equal (All_of xs) (All_of ys) = list_all2 expr_equal xs ys"
| "expr_equal (Any_of xs) (Any_of ys) = list_all2 expr_equal xs ys"
| "expr_equal (Leaf c m) (Leaf c' m') = (c = c' \<and> set m = set m')"
| "expr_equal _ _ = False"

definition rulesEqual :: "criteria option \<Rightarrow> criteria option \<Rightarrow> bool" where
  "rulesEqual a b =
     (case (a, b) of
        (None, None) \<Rightarrow> True
      | (Some x, Some y) \<Rightarrow>
          rel_option expr_equal (cr_Expression x) (cr_Expression y) \<and> x\<lparr>cr_Expression := None\<rparr> = y\<lparr>cr_Expression := None\<rparr>
      | _ \<Rightarrow> False)"

definition applyContentUpdate ::
  "pl_env \<Rightarrow> playlist \<Rightarrow> playlist \<Rightarrow> string list \<Rightarrow> bool \<Rightarrow> bool \<Rightarrow> bool \<Rightarrow> bool \<Rightarrow> unit pl_action" where
  "applyContentUpdate e current entity cols nameChanged commentChanged ownerChanged rulesChanged =
     (let c1 = (if ownerChanged then current\<lparr>pls_OwnerID := pls_OwnerID entity\<rparr> else current);
          c2 = (if rulesChanged then c1\<lparr>pls_Rules := pls_Rules entity, pls_EvaluatedAt := None, pls_ImportedHash := []\<rparr> else c1);
          c3 = (if sentFields cols ''sync'' \<and> pls_Path c2 \<noteq> [] \<and> pls_Sync c2 \<noteq> pls_Sync entity
                then c2\<lparr>pls_Sync := pls_Sync entity\<rparr> else c2)
      in updateMetadata e c3 (if nameChanged then Some (pls_Name entity) else None)
           (if commentChanged then Some (pls_Comment entity) else None)
           (if sentFields cols ''public'' then Some (pls_Public entity) else None))"

definition applyFlagsOnly :: "pl_env \<Rightarrow> playlist \<Rightarrow> playlist \<Rightarrow> string list \<Rightarrow> unit pl_action" where
  "applyFlagsOnly e current entity cols =
     (let sync = sentFields cols ''sync'' \<and> pls_Path current \<noteq> [] \<and> pls_Sync current \<noteq> pls_Sync entity;
          c1 = (if sync then current\<lparr>pls_Sync := pls_Sync entity\<rparr> else current);
          pub = sentFields cols ''public'' \<and> pls_Public current \<noteq> pls_Public entity;
          c2 = (if pub then c1\<lparr>pls_Public := pls_Public entity\<rparr> else c1)
      in if \<not> sync \<and> \<not> pub then pl_ret () else sql_put_flags e c2 sync pub)"

definition updatePlaylistEntity :: "pl_env \<Rightarrow> string \<Rightarrow> playlist \<Rightarrow> string list \<Rightarrow> unit pl_action" where
  "updatePlaylistEntity e i entity cols =
     pl_bind (checkWritable e i) (\<lambda>current.
       let ownerChanged = sentFields cols ''ownerId'' \<and> pls_OwnerID entity \<noteq> [] \<and> pls_OwnerID entity \<noteq> pls_OwnerID current;
           nameChanged = sentFields cols ''name'' \<and> pls_Name entity \<noteq> pls_Name current;
           commentChanged = sentFields cols ''comment'' \<and> pls_Comment entity \<noteq> pls_Comment current;
           rulesChanged = sentFields cols ''rules'' \<and> \<not> rulesEqual (pls_Rules current) (pls_Rules entity)
       in if \<not> snd (request_user e) \<and> ownerChanged then pl_fail ErrPermissionDenied
          else if nameChanged \<or> commentChanged \<or> ownerChanged \<or> rulesChanged
          then applyContentUpdate e current entity cols nameChanged commentChanged ownerChanged rulesChanged
          else applyFlagsOnly e current entity cols)"

text \<open>The calls of the service that change playlists.\<close>

datatype pl_call =
  Call_Create string string "string list"
  | Call_Delete string
  | Call_Update string "string option" "string option" "bool option" "string list" "int list"
  | Call_AddTracks string "string list"
  | Call_InsertTracks string "string list" int
  | Call_AddAlbums string "string list"
  | Call_AddArtists string "string list"
  | Call_AddDiscs string "(string \<times> string \<times> int) list"
  | Call_RemoveTracks string "string list"
  | Call_ReorderTrack string int int
  | Call_SetImage "pl_error + string" string
  | Call_RemoveImage "pl_error + unit" string
  | Call_Save playlist
  | Call_UpdateEntity string playlist "string list"

definition discard :: "'a pl_action \<Rightarrow> unit pl_action" where
  "discard m = pl_bind m (\<lambda>_. pl_ret ())"

fun pl_run :: "pl_env \<Rightarrow> pl_call \<Rightarrow> unit pl_action" where
  "pl_run e (Call_Create i name ids) = discard (svc_Create e i name ids)"
| "pl_run e (Call_Delete i) = svc_Delete e i"
| "pl_run e (Call_Update i name comment pub add rm) = svc_Update e i name comment pub add rm"
| "pl_run e (Call_AddTracks i ids) = discard (svc_AddTracks e i ids)"
| "pl_run e (Call_InsertTracks i ids pos) = discard (svc_InsertTracks e i ids pos)"
| "pl_run e (Call_AddAlbums i ids) = discard (svc_AddAlbums e i ids)"
| "pl_run e (Call_AddArtists i ids) = discard (svc_AddArtists e i ids)"
| "pl_run e (Call_AddDiscs i discs) = discard (svc_AddDiscs e i discs)"
| "pl_run e (Call_RemoveTracks i ids) = svc_RemoveTracks e i ids"
| "pl_run e (Call_ReorderTrack i pos newPos) = svc_ReorderTrack e i pos newPos"
| "pl_run e (Call_SetImage up i) = svc_SetImage e up i"
| "pl_run e (Call_RemoveImage rm i) = svc_RemoveImage e rm i"
| "pl_run e (Call_Save p) = discard (savePlaylist e p)"
| "pl_run e (Call_UpdateEntity i p cols) = updatePlaylistEntity e i p cols"

end
