(* ===== verification/PlaylistLogic.thy ===== *)
theory PlaylistLogic
  imports Playlists
begin

text \<open>
  A logic for the actions of \<open>PlaylistRepo\<close>: triples with one postcondition for results and one for
  errors, their rules, and the triples of the operations on tracks. The flag \<open>c\<close> of a triple says that
  no statement fails by itself; then there is a result.
\<close>

section \<open>Triples\<close>

definition pl_valid :: "(pl_db \<Rightarrow> bool) \<Rightarrow> 'a pl_action \<Rightarrow> ('a \<Rightarrow> pl_db \<Rightarrow> bool) \<Rightarrow> (pl_db \<Rightarrow> bool) \<Rightarrow> bool" where
  "pl_valid P m Q E \<longleftrightarrow> (\<forall>d. P d \<longrightarrow> (case m d of (d', Inl _) \<Rightarrow> E d' | (d', Inr a) \<Rightarrow> Q a d'))"

lemma pl_validI: "(\<And>d. P d \<Longrightarrow> case m d of (d', Inl _) \<Rightarrow> E d' | (d', Inr a) \<Rightarrow> Q a d') \<Longrightarrow> pl_valid P m Q E"
  by (simp add: pl_valid_def)

lemma pl_validD:
  assumes "pl_valid P m Q E" "P d"
  shows "m d = (d', Inr a) \<Longrightarrow> Q a d'" "m d = (d', Inl x) \<Longrightarrow> E d'"
  using assms by (auto simp: pl_valid_def)

lemma valid_conseq:
  "pl_valid P m Q E \<Longrightarrow> (\<And>d. P' d \<Longrightarrow> P d) \<Longrightarrow> (\<And>a d. Q a d \<Longrightarrow> Q' a d) \<Longrightarrow> (\<And>d. E d \<Longrightarrow> E' d) \<Longrightarrow> pl_valid P' m Q' E'"
  by (fastforce simp: pl_valid_def split: prod.splits sum.splits)

lemma valid_ret: "(\<And>d. P d \<Longrightarrow> Q a d) \<Longrightarrow> pl_valid P (pl_ret a) Q E"
  by (simp add: pl_valid_def pl_ret_def)

lemma valid_fail: "(\<And>d. P d \<Longrightarrow> E d) \<Longrightarrow> pl_valid P (pl_fail x) Q E"
  by (simp add: pl_valid_def pl_fail_def)

lemma valid_bind: "pl_valid P m R E \<Longrightarrow> (\<And>a. pl_valid (R a) (f a) Q E) \<Longrightarrow> pl_valid P (pl_bind m f) Q E"
  by (fastforce simp: pl_valid_def pl_bind_def split: prod.splits sum.splits)

lemma valid_try:
  "pl_valid P m (\<lambda>a. Q (Inr a)) (\<lambda>d. \<forall>x. Q (Inl x) d) \<Longrightarrow> pl_valid P (pl_try m) Q E"
  by (simp add: pl_valid_def pl_try_def split: prod.splits sum.splits) (metis old.sum.exhaust)

lemma valid_stmt:
  assumes "\<And>d. P d \<Longrightarrow> next_fault d \<Longrightarrow> E (pop_fault d)" "pl_valid P' f Q E" "\<And>d. P d \<Longrightarrow> P' (pop_fault d)"
  shows "pl_valid P (pl_stmt f) Q E"
  using assms by (simp add: pl_valid_def pl_stmt_def)

section \<open>What operations on tracks leave\<close>

definition fits :: "bool \<Rightarrow> pl_db \<Rightarrow> bool" where
  "fits c d \<longleftrightarrow> (c \<longrightarrow> pd_faults d = [])"

text \<open>The libraries, the files, the users and the IDs of the playlists.\<close>

definition around :: "bool \<Rightarrow> pl_db \<Rightarrow> pl_db \<Rightarrow> bool" where
  "around c d0 d \<longleftrightarrow>
     fits c d \<and> pd_files d = pd_files d0 \<and> pd_libraries d = pd_libraries d0 \<and> pd_userLibrary d = pd_userLibrary d0 \<and>
     pd_users d = pd_users d0 \<and> map pr_id (pd_playlists d) = map pr_id (pd_playlists d0)"

lemma next_fault_fits: "fits c d \<Longrightarrow> next_fault d \<Longrightarrow> \<not> c"
  by (auto simp: fits_def next_fault_def)

lemma fits_pop: "fits c d \<Longrightarrow> fits c (pop_fault d)"
  by (auto simp: fits_def pop_fault_def)

lemma pop_fault_simps [simp]:
  "pd_playlists (pop_fault d) = pd_playlists d" "pd_tracks (pop_fault d) = pd_tracks d" "pd_files (pop_fault d) = pd_files d"
  "pd_art (pop_fault d) = pd_art d" "pd_libraries (pop_fault d) = pd_libraries d"
  "pd_userLibrary (pop_fault d) = pd_userLibrary d" "pd_users (pop_fault d) = pd_users d"
  by (simp_all add: pop_fault_def)

lemma around_pop: "around c d0 d \<Longrightarrow> around c d0 (pop_fault d)"
  by (simp add: around_def fits_pop)

lemma around_fault: "around c d0 d \<Longrightarrow> next_fault d \<Longrightarrow> \<not> c"
  by (auto simp: around_def dest: next_fault_fits)

lemma around_tracks [simp]: "around c d0 (d\<lparr>pd_tracks := r\<rparr>) = around c d0 d"
  by (simp add: around_def fits_def)

lemma around_art [simp]: "around c d0 (d\<lparr>pd_art := a\<rparr>) = around c d0 d"
  by (simp add: around_def fits_def)

lemma around_playlists:
  "map pr_id (f (pd_playlists d)) = map pr_id (pd_playlists d) \<Longrightarrow> around c d0 (d\<lparr>pd_playlists := f (pd_playlists d)\<rparr>) = around c d0 d"
  by (simp add: around_def fits_def)

abbreviation with_tracks :: "bool \<Rightarrow> pl_db \<Rightarrow> (track_row list \<Rightarrow> bool) \<Rightarrow> pl_db \<Rightarrow> bool" where
  "with_tracks c d0 A d \<equiv> around c d0 d \<and> A (pd_tracks d)"

lemma valid_each:
  "(\<And>t. A t \<Longrightarrow> pl_valid (with_tracks c d0 (\<lambda>x. x = t)) m Q E) \<Longrightarrow> pl_valid (with_tracks c d0 A) m Q E"
  unfolding pl_valid_def by (metis (no_types, lifting))

lemma valid_query:
  "pl_valid (with_tracks c d0 A) (pl_query h) (\<lambda>a d. with_tracks c d0 A d \<and> (\<exists>d1. with_tracks c d0 A d1 \<and> pd_tracks d1 = pd_tracks d \<and> a = h d1))
     (\<lambda>d. \<not> c \<and> with_tracks c d0 A d)"
  unfolding pl_query_def
  by (rule valid_stmt [where P' = "with_tracks c d0 A"]) (auto simp: around_pop pl_valid_def dest: around_fault)

lemma valid_exec:
  assumes "\<And>rows. A rows \<Longrightarrow> \<exists>r. g rows = Some r \<and> B r"
  shows "pl_valid (with_tracks c d0 A) (exec_tracks g) (\<lambda>_. with_tracks c d0 B) (\<lambda>d. \<not> c \<and> with_tracks c d0 A d)"
  unfolding exec_tracks_def
  by (rule valid_stmt [where P' = "with_tracks c d0 A"])
    (use assms in \<open>fastforce simp: around_pop pl_valid_def dest: around_fault\<close>)+

lemma valid_exec_eq:
  "g a = Some b \<Longrightarrow> pl_valid (with_tracks c d0 (\<lambda>t. t = a)) (exec_tracks g) (\<lambda>_. with_tracks c d0 (\<lambda>t. t = b)) (\<lambda>d. \<not> c)"
  by (rule valid_conseq [OF valid_exec [of "\<lambda>t. t = a" g "\<lambda>t. t = b" c d0]]) auto

lemma valid_exec_then:
  "g a = Some b \<Longrightarrow> pl_valid (with_tracks c d0 (\<lambda>t. t = b)) m Q (\<lambda>d. \<not> c) \<Longrightarrow>
   pl_valid (with_tracks c d0 (\<lambda>t. t = a)) (pl_bind (exec_tracks g) (\<lambda>_. m)) Q (\<lambda>d. \<not> c)"
  by (rule valid_bind [OF valid_exec_eq])

lemma valid_cover: "pl_valid (with_tracks c d0 A) (enqueueCoverRebuild e pid) (\<lambda>_. with_tracks c d0 A) E"
  by (rule pl_validI) (simp add: enqueueCoverRebuild_def Let_def around_pop)

lemma valid_counters:
  "pl_valid (with_tracks c d0 A) (refreshCounters e pid) (\<lambda>_. with_tracks c d0 A) (\<lambda>d. \<not> c \<and> with_tracks c d0 A d)"
  unfolding refreshCounters_def
proof (rule valid_bind [OF valid_query], clarify)
  fix dur size n
  show "pl_valid (\<lambda>d. with_tracks c d0 A d \<and> (\<exists>d1. with_tracks c d0 A d1 \<and> pd_tracks d1 = pd_tracks d \<and> (dur, size, n) = pl_stats e pid d1))
     (pl_stmt (\<lambda>d. (d\<lparr>pd_playlists := map (\<lambda>r. if pr_id r = pid
            then r\<lparr>pr_duration := dur, pr_size := int size, pr_song_count := int n, pr_updated_at := le_now e\<rparr> else r)
            (pd_playlists d)\<rparr>, Inr ()))) (\<lambda>_. with_tracks c d0 A) (\<lambda>d. \<not> c \<and> with_tracks c d0 A d)"
    by (rule valid_stmt [where P' = "with_tracks c d0 A"])
      (auto simp: around_pop pl_valid_def around_playlists dest: around_fault)
qed

section \<open>The files a user may add\<close>

definition all_visible :: "pl_env \<Rightarrow> pl_db \<Rightarrow> bool" where
  "all_visible e d \<longleftrightarrow>
     sees_everything e \<or> pd_libraries d \<noteq> [] \<and> length (us_LibraryAccess (logged_user e)) = length (pd_libraries d)"

definition has_granted :: "pl_env \<Rightarrow> pl_db \<Rightarrow> string \<Rightarrow> bool" where
  "has_granted e d x \<longleftrightarrow> list_ex (\<lambda>f. fr_id f = x \<and> granted e d f) (pd_files d)"

definition readable :: "pl_env \<Rightarrow> pl_db \<Rightarrow> string \<Rightarrow> bool" where
  "readable e d x \<longleftrightarrow> all_visible e d \<or> has_granted e d x"

lemma valid_visible:
  "pl_valid (with_tracks c d0 A) (visibleLibraryIDs e)
     (\<lambda>v d. with_tracks c d0 A d \<and> (\<not> sees_everything e \<longrightarrow> v = us_LibraryAccess (logged_user e))) (\<lambda>d. \<not> c \<and> with_tracks c d0 A d)"
proof (cases "sees_everything e")
  case True
  then show ?thesis unfolding visibleLibraryIDs_def by (auto intro: valid_conseq [OF valid_query])
next
  case False
  then show ?thesis unfolding visibleLibraryIDs_def by (auto intro: valid_ret)
qed

lemma valid_sees_all:
  "pl_valid (with_tracks c d0 A) (sees_all e)
     (\<lambda>b d. with_tracks c d0 A d \<and> (b \<longrightarrow> all_visible e d0) \<and> (c \<longrightarrow> b = all_visible e d0)) E"
  unfolding sees_all_def
proof (rule valid_bind [OF valid_try [where Q = "\<lambda>r d. with_tracks c d0 A d \<and>
      (case r of Inl _ \<Rightarrow> \<not> c | Inr v \<Rightarrow> \<not> sees_everything e \<longrightarrow> v = us_LibraryAccess (logged_user e))"]])
  show "pl_valid (with_tracks c d0 A) (visibleLibraryIDs e)
     (\<lambda>v d. with_tracks c d0 A d \<and> (case Inr v of Inl _ \<Rightarrow> \<not> c | Inr v \<Rightarrow> \<not> sees_everything e \<longrightarrow> v = us_LibraryAccess (logged_user e)))
     (\<lambda>d. \<forall>x. with_tracks c d0 A d \<and> (case Inl x of Inl _ \<Rightarrow> \<not> c | Inr v \<Rightarrow> \<not> sees_everything e \<longrightarrow> v = us_LibraryAccess (logged_user e)))"
    by (rule valid_conseq [OF valid_visible]) auto
  let ?Q = "\<lambda>b d. with_tracks c d0 A d \<and> (b \<longrightarrow> all_visible e d0) \<and> (c \<longrightarrow> b = all_visible e d0)"
  have count: "pl_valid (with_tracks c d0 A) (pl_try (pl_query (\<lambda>d. length (pd_libraries d))))
     (\<lambda>r d. with_tracks c d0 A d \<and> (case r of Inl _ \<Rightarrow> \<not> c | Inr n \<Rightarrow> n = length (pd_libraries d0))) E"
    by (rule valid_try, rule valid_conseq [OF valid_query]) (auto simp: around_def)
  fix r :: "pl_error + int list"
  show "pl_valid (\<lambda>d. with_tracks c d0 A d \<and> (case r of Inl _ \<Rightarrow> \<not> c | Inr v \<Rightarrow> \<not> sees_everything e \<longrightarrow> v = us_LibraryAccess (logged_user e)))
     (case r of Inl _ \<Rightarrow> pl_ret False | Inr visible \<Rightarrow> userSeesAllLibraries e visible) ?Q E"
  proof (cases "\<exists>v. r = Inr v \<and> (sees_everything e \<or> v = us_LibraryAccess (logged_user e))")
    case False
    then show ?thesis by (cases r) (auto intro: valid_ret simp: pl_valid_def pl_ret_def)
  next
    case True
    then obtain v where v: "r = Inr v" "sees_everything e \<or> v = us_LibraryAccess (logged_user e)" by blast
    have "pl_valid (with_tracks c d0 A) (userSeesAllLibraries e v) ?Q E"
    proof (cases "sees_everything e")
      case True
      then show ?thesis by (auto simp: userSeesAllLibraries_def all_visible_def intro!: valid_ret)
    next
      case n: False
      show ?thesis unfolding userSeesAllLibraries_def if_not_P [OF n]
        by (rule valid_bind [OF count]) (use v n in \<open>auto split: sum.splits intro!: valid_ret simp: all_visible_def\<close>)
    qed
    then show ?thesis unfolding v(1) sum.case by (rule valid_conseq) simp_all
  qed
qed

text \<open>What \<open>applyLibraryFilter\<close> selects.\<close>

definition selects :: "pl_env \<Rightarrow> pl_db \<Rightarrow> (pl_db \<Rightarrow> file_row \<Rightarrow> bool) \<Rightarrow> bool" where
  "selects e d0 P \<longleftrightarrow> P = granted e \<or> P = (\<lambda>_ _. True) \<and> all_visible e d0"

lemma valid_library_filter:
  "pl_valid (with_tracks c d0 A) (applyLibraryFilter e) (\<lambda>P d. with_tracks c d0 A d \<and> selects e d0 P) E"
proof (cases "sees_everything e")
  case True
  then show ?thesis by (auto simp: applyLibraryFilter_def selects_def all_visible_def intro!: valid_ret)
next
  case False
  show ?thesis unfolding applyLibraryFilter_def if_not_P [OF False]
    by (rule valid_bind [OF valid_sees_all]) (auto simp: selects_def intro!: valid_ret)
qed

lemma granted_around: "around c d0 d \<Longrightarrow> granted e d = granted e d0"
  by (simp add: granted_def around_def fun_eq_iff)

definition found_so_far :: "pl_env \<Rightarrow> pl_db \<Rightarrow> string list \<Rightarrow> string list \<Rightarrow> bool" where
  "found_so_far e d0 ids acc \<longleftrightarrow>
     (\<forall>x \<in> set acc. readable e d0 x) \<and> (\<not> all_visible e d0 \<longrightarrow> set acc = {x \<in> set ids. has_granted e d0 x})"

lemma found_chunk:
  assumes "found_so_far e d0 ids acc" "selects e d0 P" "around c d0 d"
  shows "found_so_far e d0 (ids @ chunk) (acc @ map fr_id (filter (\<lambda>f. List.member chunk (fr_id f) \<and> P d f) (pd_files d)))"
proof -
  have "pd_files d = pd_files d0" using assms(3) by (simp add: around_def)
  then show ?thesis using assms granted_around [OF assms(3), of e]
    unfolding found_so_far_def selects_def readable_def has_granted_def list_ex_iff by fastforce
qed

lemma valid_accessible:
  "pl_valid (\<lambda>d. with_tracks c d0 A d \<and> found_so_far e d0 ids acc) (accessible_chunks e cs acc)
     (\<lambda>acc' d. with_tracks c d0 A d \<and> found_so_far e d0 (ids @ concat cs) acc') (\<lambda>d. \<not> c \<and> with_tracks c d0 A d)"
proof (induction cs arbitrary: acc ids)
  case Nil
  then show ?case by (auto intro: valid_ret)
next
  case (Cons chunk cs)
  show ?case
  proof (cases "found_so_far e d0 ids acc")
    case False
    then show ?thesis by (simp add: pl_valid_def)
  next
    case found: True
    show ?thesis unfolding accessible_chunks.simps
    proof (rule valid_bind)
      show "pl_valid (\<lambda>d. with_tracks c d0 A d \<and> found_so_far e d0 ids acc) (applyLibraryFilter e)
        (\<lambda>P d. with_tracks c d0 A d \<and> selects e d0 P) (\<lambda>d. \<not> c \<and> with_tracks c d0 A d)"
        by (rule valid_conseq [OF valid_library_filter]) auto
      fix P
      show "pl_valid (\<lambda>d. with_tracks c d0 A d \<and> selects e d0 P)
        (pl_bind (pl_query (\<lambda>d. map fr_id (filter (\<lambda>f. List.member chunk (fr_id f) \<and> P d f) (pd_files d))))
          (\<lambda>found. accessible_chunks e cs (acc @ found)))
        (\<lambda>acc' d. with_tracks c d0 A d \<and> found_so_far e d0 (ids @ concat (chunk # cs)) acc') (\<lambda>d. \<not> c \<and> with_tracks c d0 A d)"
      proof (cases "selects e d0 P")
        case False
        then show ?thesis by (simp add: pl_valid_def)
      next
        case sel: True
        show ?thesis
          by (rule valid_bind [where R = "\<lambda>found d. with_tracks c d0 A d \<and> found_so_far e d0 (ids @ chunk) (acc @ found)"],
              rule valid_conseq [OF valid_query])
            (use found_chunk [OF found sel] Cons.IH [of "ids @ chunk"] in \<open>auto\<close>)
      qed
    qed
  qed
qed

declare concat_art_chunks [simp]

lemma valid_keep:
  "pl_valid (with_tracks c d0 A) (keepAccessible e ids)
     (\<lambda>kept d. with_tracks c d0 A d \<and> (\<forall>x \<in> set kept. readable e d0 x) \<and> length kept \<le> length ids \<and> set kept \<subseteq> set ids \<and>
        (c \<longrightarrow> kept = filter (readable e d0) ids))
     (\<lambda>d. \<not> c \<and> with_tracks c d0 A d)"
  unfolding keepAccessible_def
proof (rule valid_bind [OF valid_sees_all])
  fix b
  let ?Q = "\<lambda>kept d. with_tracks c d0 A d \<and> (\<forall>x \<in> set kept. readable e d0 x) \<and> length kept \<le> length ids \<and> set kept \<subseteq> set ids \<and>
        (c \<longrightarrow> kept = filter (readable e d0) ids)"
  let ?rest = "pl_bind (accessible_chunks e (art_chunks 200 (remdups ids)) []) (\<lambda>acc. pl_ret (filter (\<lambda>i. List.member acc i) ids))"
  have keep: "filter (\<lambda>i. List.member acc i) ids = filter (readable e d0) ids"
    if f: "found_so_far e d0 ids acc" and n: "\<not> all_visible e d0" for acc
  proof (rule filter_cong [OF refl])
    fix x assume "x \<in> set ids"
    moreover have "set acc = {x \<in> set ids. has_granted e d0 x}" using f n by (simp add: found_so_far_def)
    ultimately show "List.member acc x = readable e d0 x" using n by (simp add: readable_def)
  qed
  have fc: "found_so_far e d0 (remdups ids) acc = found_so_far e d0 ids acc" for acc by (simp add: found_so_far_def)
  have rest: "pl_valid (\<lambda>d. with_tracks c d0 A d \<and> (c \<longrightarrow> \<not> all_visible e d0)) ?rest ?Q (\<lambda>d. \<not> c \<and> with_tracks c d0 A d)"
  proof (cases "c \<longrightarrow> \<not> all_visible e d0")
    case True
    show ?thesis
    proof (rule valid_bind)
      show "pl_valid (\<lambda>d. with_tracks c d0 A d \<and> (c \<longrightarrow> \<not> all_visible e d0)) (accessible_chunks e (art_chunks 200 (remdups ids)) [])
        (\<lambda>acc d. with_tracks c d0 A d \<and> found_so_far e d0 ids acc) (\<lambda>d. \<not> c \<and> with_tracks c d0 A d)"
        by (rule valid_conseq [OF valid_accessible [where ids = "[]"]]) (simp_all add: fc found_so_far_def [of e d0 "[]"])
      fix acc
      have "found_so_far e d0 ids acc \<Longrightarrow> \<forall>x \<in> set (filter (List.member acc) ids). readable e d0 x" by (simp add: found_so_far_def)
      with True keep [of acc] show "pl_valid (\<lambda>d. with_tracks c d0 A d \<and> found_so_far e d0 ids acc)
        (pl_ret (filter (\<lambda>i. List.member acc i) ids)) ?Q (\<lambda>d. \<not> c \<and> with_tracks c d0 A d)"
        by (intro valid_ret) simp
    qed
  qed (simp add: pl_valid_def)
  show "pl_valid (\<lambda>d. with_tracks c d0 A d \<and> (b \<longrightarrow> all_visible e d0) \<and> (c \<longrightarrow> b = all_visible e d0))
     (if b then pl_ret ids else ?rest) ?Q (\<lambda>d. \<not> c \<and> with_tracks c d0 A d)"
  proof (cases b)
    case True
    then show ?thesis by (auto intro!: valid_ret simp: readable_def)
  next
    case False
    show ?thesis unfolding if_not_P [OF False] by (rule valid_conseq [OF rest]) (use False in blast)+
  qed
qed

section \<open>Inserting\<close>

lemma sql_insert_append:
  "sql_insert pid pos (xs @ ys) rows =
     (case sql_insert pid pos xs rows of None \<Rightarrow> None | Some r \<Rightarrow> sql_insert pid (pos + int (length xs)) ys r)"
  by (induction xs arbitrary: pos rows) (simp_all add: add.assoc cong: option.case_cong)

lemma insert_prefix:
  assumes "sql_insert pid pos (xs @ ys) rows = Some r"
  obtains r1 where "sql_insert pid pos xs rows = Some r1" "sql_insert pid (pos + int (length xs)) ys r1 = Some r"
  using assms by (auto simp: sql_insert_append split: option.splits)

definition has_playlist :: "string \<Rightarrow> pl_db \<Rightarrow> bool" where
  "has_playlist pid d \<longleftrightarrow> pid \<in> set (map pr_id (pd_playlists d))"

lemma has_playlist_around: "around c d0 d \<Longrightarrow> has_playlist pid d0 \<Longrightarrow> list_ex (\<lambda>r. pr_id r = pid) (pd_playlists d)"
proof -
  assume "around c d0 d" "has_playlist pid d0"
  then have "pid \<in> set (map pr_id (pd_playlists d))" by (simp only: around_def has_playlist_def)
  then show ?thesis by (auto simp: list_ex_iff)
qed

lemma valid_insert_stmt:
  assumes "has_playlist pid d0" "\<And>rows. A rows \<Longrightarrow> \<exists>r. sql_insert pid pos ids rows = Some r \<and> B r"
  shows "pl_valid (with_tracks c d0 A) (insert_stmt pid pos ids) (\<lambda>_. with_tracks c d0 B) (\<lambda>d. \<not> c \<and> with_tracks c d0 A d)"
  unfolding insert_stmt_def
proof (rule valid_stmt [where P' = "with_tracks c d0 A"])
  let ?ins = "\<lambda>d. if \<not> list_ex (\<lambda>r. pr_id r = pid) (pd_playlists d) then (d, Inl ErrSQL)
       else (case sql_insert pid pos ids (pd_tracks d) of None \<Rightarrow> (d, Inl ErrSQL) | Some r \<Rightarrow> (d\<lparr>pd_tracks := r\<rparr>, Inr ()))"
  show "pl_valid (with_tracks c d0 A) ?ins (\<lambda>_. with_tracks c d0 B) (\<lambda>d. \<not> c \<and> with_tracks c d0 A d)"
  proof (rule pl_validI)
    fix d assume d: "with_tracks c d0 A d"
    then obtain r where "sql_insert pid pos ids (pd_tracks d) = Some r" "B r" using assms(2) by blast
    with d has_playlist_around [OF _ assms(1), of c d]
    show "case ?ins d of (d', Inl _) \<Rightarrow> \<not> c \<and> with_tracks c d0 A d' | (d', Inr _) \<Rightarrow> with_tracks c d0 B d'" by simp
  qed
qed (auto simp: around_pop dest: around_fault)

text \<open>When a chunk fails, the chunks before it are in the table.\<close>

definition partly :: "string \<Rightarrow> int \<Rightarrow> string list \<Rightarrow> track_row list \<Rightarrow> track_row list \<Rightarrow> bool" where
  "partly pid pos ids rows r \<longleftrightarrow> (\<exists>k. sql_insert pid pos (take k ids) rows = Some r)"

lemma partly_start: "partly pid pos ids r r"
  by (auto simp: partly_def intro: exI [of _ 0])

lemma partly_whole: "sql_insert pid pos ids rows = Some r \<Longrightarrow> partly pid pos ids rows r"
  by (auto simp: partly_def intro: exI [of _ "length ids"])

lemma partly_trans:
  assumes "sql_insert pid pos xs rows = Some r1" "partly pid (pos + int (length xs)) ys r1 r"
  shows "partly pid pos (xs @ ys) rows r"
proof -
  from assms(2) obtain k where "sql_insert pid (pos + int (length xs)) (take k ys) r1 = Some r" by (auto simp: partly_def)
  with assms(1) have "sql_insert pid pos (take (length xs + k) (xs @ ys)) rows = Some r" by (simp add: sql_insert_append)
  then show ?thesis unfolding partly_def by blast
qed

lemma valid_insert_chunks:
  assumes "has_playlist pid d0" "sql_insert pid pos (concat cs) rows = Some r"
  shows "pl_valid (with_tracks c d0 (\<lambda>t. t = rows)) (insert_chunks pid pos cs) (\<lambda>_. with_tracks c d0 (\<lambda>t. t = r))
     (\<lambda>d. \<not> c \<and> with_tracks c d0 (partly pid pos (concat cs) rows) d)"
  using assms(2)
proof (induction cs arbitrary: pos rows)
  case Nil
  then show ?case by (auto intro: valid_ret)
next
  case (Cons chunk cs)
  then obtain r1 where r1: "sql_insert pid pos chunk rows = Some r1"
    "sql_insert pid (pos + int (length chunk)) (concat cs) r1 = Some r" by (auto elim: insert_prefix)
  have 1: "pl_valid (with_tracks c d0 (\<lambda>t. t = rows)) (insert_stmt pid pos chunk) (\<lambda>_. with_tracks c d0 (\<lambda>t. t = r1))
     (\<lambda>d. \<not> c \<and> with_tracks c d0 (partly pid pos (concat (chunk # cs)) rows) d)"
    by (rule valid_conseq [OF valid_insert_stmt [OF assms(1), where A = "\<lambda>t. t = rows" and B = "\<lambda>t. t = r1"]])
      (auto simp: r1 partly_start)
  have 2: "pl_valid (with_tracks c d0 (\<lambda>t. t = r1)) (insert_chunks pid (pos + int (length chunk)) cs)
     (\<lambda>_. with_tracks c d0 (\<lambda>t. t = r)) (\<lambda>d. \<not> c \<and> with_tracks c d0 (partly pid pos (concat (chunk # cs)) rows) d)"
    by (rule valid_conseq [OF Cons.IH [OF r1(2)]]) (auto dest: partly_trans [OF r1(1)])
  show ?case unfolding insert_chunks.simps using 1 2 by (rule valid_bind)
qed

text \<open>Adding tracks: the files that are kept are inserted.\<close>

definition keeps_files :: "pl_env \<Rightarrow> bool \<Rightarrow> pl_db \<Rightarrow> string list \<Rightarrow> string list \<Rightarrow> bool" where
  "keeps_files e c d0 ids ks \<longleftrightarrow>
     (\<forall>x \<in> set ks. readable e d0 x) \<and> length ks \<le> length ids \<and> set ks \<subseteq> set ids \<and> (c \<longrightarrow> ks = filter (readable e d0) ids)"

lemma valid_addTracks:
  assumes "has_playlist pid d0" and ins: "\<And>ks. keeps_files e c d0 ids ks \<Longrightarrow> \<exists>r. sql_insert pid pos ks rows = Some r"
  shows "pl_valid (with_tracks c d0 (\<lambda>t. t = rows)) (addTracks e pid pos ids)
     (\<lambda>n. with_tracks c d0 (\<lambda>t. \<exists>ks. keeps_files e c d0 ids ks \<and> n = length ks \<and> sql_insert pid pos ks rows = Some t))
     (\<lambda>d. \<not> c \<and> with_tracks c d0 (\<lambda>t. \<exists>ks. keeps_files e c d0 ids ks \<and> partly pid pos ks rows t) d)"
    (is "pl_valid _ _ ?Q ?E")
  unfolding addTracks_def
proof (rule valid_bind)
  show "pl_valid (with_tracks c d0 (\<lambda>t. t = rows)) (keepAccessible e ids)
    (\<lambda>ks d. with_tracks c d0 (\<lambda>t. t = rows) d \<and> keeps_files e c d0 ids ks) ?E"
  proof (rule valid_conseq [OF valid_keep])
    fix d assume d: "\<not> c \<and> with_tracks c d0 (\<lambda>t. t = rows) d"
    then have "keeps_files e c d0 ids []" by (simp add: keeps_files_def)
    with d partly_start [of pid pos "[]" rows] show "?E d" by blast
  qed (unfold keeps_files_def, assumption, blast)
  fix ks
  show "pl_valid (\<lambda>d. with_tracks c d0 (\<lambda>t. t = rows) d \<and> keeps_files e c d0 ids ks)
    (pl_bind (insert_chunks pid pos (art_chunks 200 ks)) (\<lambda>_. pl_bind (enqueueCoverRebuild e pid) (\<lambda>_.
       pl_bind (refreshCounters e pid) (\<lambda>_. pl_ret (length ks))))) ?Q ?E"
  proof (cases "keeps_files e c d0 ids ks")
    case True
    then obtain r where r: "sql_insert pid pos ks rows = Some r" using ins by blast
    show ?thesis
    proof (rule valid_bind)
      show "pl_valid (\<lambda>d. with_tracks c d0 (\<lambda>t. t = rows) d \<and> keeps_files e c d0 ids ks) (insert_chunks pid pos (art_chunks 200 ks))
        (\<lambda>_. with_tracks c d0 (\<lambda>t. t = r)) ?E"
        by (rule valid_conseq [OF valid_insert_chunks [OF assms(1), of pos "art_chunks 200 ks" rows r]]) (use True r in auto)
      show "pl_valid (with_tracks c d0 (\<lambda>t. t = r))
        (pl_bind (enqueueCoverRebuild e pid) (\<lambda>_. pl_bind (refreshCounters e pid) (\<lambda>_. pl_ret (length ks)))) ?Q ?E"
      proof (rule valid_bind [OF valid_cover], rule valid_bind)
        show "pl_valid (with_tracks c d0 (\<lambda>t. t = r)) (refreshCounters e pid) (\<lambda>_. with_tracks c d0 (\<lambda>t. t = r)) ?E"
          by (rule valid_conseq [OF valid_counters [where A = "\<lambda>t. t = r"]]) (use True partly_whole [OF r] in auto)
      qed (use True r in \<open>auto intro!: valid_ret\<close>)
    qed
  qed (simp add: pl_valid_def)
qed

lemma valid_query_max:
  assumes "\<And>t. A t \<Longrightarrow> max_pos pid t = m" "m \<le> maxInt32"
  shows "pl_valid (with_tracks c d0 A) (query_max pid) (\<lambda>a d. a = m \<and> with_tracks c d0 A d) (\<lambda>d. \<not> c \<and> with_tracks c d0 A d)"
  unfolding query_max_def
proof (rule valid_bind)
  show "pl_valid (with_tracks c d0 A) (pl_query (\<lambda>d. max_pos pid (pd_tracks d))) (\<lambda>a d. a = m \<and> with_tracks c d0 A d)
    (\<lambda>d. \<not> c \<and> with_tracks c d0 A d)"
    by (rule valid_conseq [OF valid_query]) (use assms(1) in auto)
  fix a
  show "pl_valid (\<lambda>d. a = m \<and> with_tracks c d0 A d) (if a > maxInt32 then pl_fail ErrSQL else pl_ret a)
    (\<lambda>a d. a = m \<and> with_tracks c d0 A d) (\<lambda>d. \<not> c \<and> with_tracks c d0 A d)"
    using assms(2) by (cases "a = m") (simp_all add: pl_valid_def pl_ret_def)
qed

text \<open>What a playlist represents after the files \<open>ids\<close> were added at its end, and when that failed on the way.\<close>

definition appended :: "pl_env \<Rightarrow> bool \<Rightarrow> pl_db \<Rightarrow> string \<Rightarrow> string list \<Rightarrow> string list \<Rightarrow> track_row list \<Rightarrow> bool" where
  "appended e c d0 pid xs ids t \<longleftrightarrow> (\<exists>ks. keeps_files e c d0 ids ks \<and> represents t pid (xs @ ks))"

lemma append_any:
  assumes "represents rows pid xs" "sql_insert pid (int (length xs) + 1) ks rows = Some t"
  shows "represents t pid (xs @ ks)" "others pid t = others pid rows"
  using append_represents [OF assms(1), of ks] assms(2) by auto

lemma keeps_take: "keeps_files e False d0 ids ks \<Longrightarrow> keeps_files e False d0 ids (take k ks)"
  unfolding keeps_files_def by (auto dest: in_set_takeD)

lemma valid_Add:
  assumes "has_playlist pid d0" "represents rows pid xs" "int (length xs) < maxInt32"
  shows "pl_valid (with_tracks c d0 (\<lambda>t. t = rows)) (trk_Add e pid ids)
     (\<lambda>_. with_tracks c d0 (appended e c d0 pid xs ids)) (\<lambda>d. \<not> c \<and> with_tracks c d0 (appended e c d0 pid xs ids) d)"
    (is "pl_valid _ _ ?Q ?E")
proof (cases "ids = []")
  case True
  then have "keeps_files e c d0 ids []" by (simp add: keeps_files_def)
  with assms(2) have "appended e c d0 pid xs ids rows" unfolding appended_def by fastforce
  then show ?thesis using True by (auto simp: trk_Add_def intro!: valid_ret)
next
  case False
  have pos: "int32_plus1 (int (length xs)) = int (length xs) + 1" using assms(3) by (simp add: int32_plus1_def)
  have start: "appended e False d0 pid xs ids rows" using assms(2) by (auto simp: appended_def keeps_files_def intro: exI [of _ "[]"])
  show ?thesis unfolding trk_Add_def if_not_P [OF False]
  proof (rule valid_bind)
    show "pl_valid (with_tracks c d0 (\<lambda>t. t = rows)) (query_max pid)
      (\<lambda>a d. a = int (length xs) \<and> with_tracks c d0 (\<lambda>t. t = rows) d) ?E"
      by (rule valid_conseq [OF valid_query_max [where A = "\<lambda>t. t = rows" and m = "int (length xs)"]])
        (use assms(3) represents_max [OF assms(2)] start in auto)
    fix m
    have "pl_valid (with_tracks c d0 (\<lambda>t. t = rows)) (addTracks e pid (int (length xs) + 1) ids) ?Q ?E"
    proof (rule valid_conseq [OF valid_addTracks [OF assms(1), of e c ids "int (length xs) + 1" rows]])
      show "\<exists>r. sql_insert pid (int (length xs) + 1) ks rows = Some r" for ks
        using append_represents [OF assms(2), of ks] by blast
      show "?Q n d" if q: "with_tracks c d0 (\<lambda>t. \<exists>ks. keeps_files e c d0 ids ks \<and> n = length ks \<and>
          sql_insert pid (int (length xs) + 1) ks rows = Some t) d" for n d
        using q append_any [OF assms(2)] unfolding appended_def by blast
      show "?E d" if q: "\<not> c \<and> with_tracks c d0 (\<lambda>t. \<exists>ks. keeps_files e c d0 ids ks \<and> partly pid (int (length xs) + 1) ks rows t) d" for d
      proof -
        from q obtain ks k where "\<not> c" "around c d0 d" "keeps_files e False d0 ids ks"
          "sql_insert pid (int (length xs) + 1) (take k ks) rows = Some (pd_tracks d)" unfolding partly_def by auto
        then show ?thesis using append_any(1) [OF assms(2)] keeps_take unfolding appended_def by (metis (full_types))
      qed
    qed simp
    then show "pl_valid (\<lambda>d. m = int (length xs) \<and> with_tracks c d0 (\<lambda>t. t = rows) d) (addTracks e pid (int32_plus1 m) ids) ?Q ?E"
      by (cases "m = int (length xs)") (simp_all add: pos pl_valid_def)
  qed
qed

section \<open>Inserting before a position\<close>

definition insert_at :: "nat \<Rightarrow> 'a list \<Rightarrow> 'a list \<Rightarrow> 'a list" where
  "insert_at k ys xs = take k xs @ ys @ drop k xs"

definition inserted :: "pl_env \<Rightarrow> bool \<Rightarrow> pl_db \<Rightarrow> string \<Rightarrow> nat \<Rightarrow> string list \<Rightarrow> string list \<Rightarrow> track_row list \<Rightarrow> bool" where
  "inserted e c d0 pid k xs ids t \<longleftrightarrow> (\<exists>ks. keeps_files e c d0 ids ks \<and> represents t pid (insert_at k ks xs))"

text \<open>\<open>renumber\<close> as two statements.\<close>

lemma valid_renumber:
  assumes "renumber pid rows = Some r"
  shows "pl_valid (with_tracks c d0 (\<lambda>t. t = rows)) (pls_renumber e pid) (\<lambda>_. with_tracks c d0 (\<lambda>t. t = r)) (\<lambda>d. \<not> c)"
proof -
  from assms obtain r1 where r1: "sql_update pid (\<lambda>p. p > 0) (\<lambda>p. - p) rows = Some r1"
    "sql_update pid (\<lambda>p. True) (row_number pid r1) r1 = Some r" by (auto simp: renumber_def split: option.splits)
  show ?thesis unfolding pls_renumber_def
  proof (rule valid_exec_then [where b = r1], rule r1(1), rule valid_exec_then [where b = r], rule r1(2))
    show "pl_valid (with_tracks c d0 (\<lambda>t. t = r)) (pl_bind (enqueueCoverRebuild e pid) (\<lambda>_. refreshCounters e pid))
        (\<lambda>_. with_tracks c d0 (\<lambda>t. t = r)) (\<lambda>d. \<not> c)"
      by (rule valid_bind [OF valid_cover], rule valid_conseq [OF valid_counters [of c d0 "\<lambda>t. t = r"]]) simp_all
  qed
qed

text \<open>\<open>Insert\<close>: the gap is as wide as the files that were asked for; if fewer are kept, it is closed.\<close>

lemma valid_Insert:
  fixes pos :: int
  assumes pl: "has_playlist pid d0" and rep: "represents rows pid xs" and small: "int (length xs) < maxInt32"
  defines "k \<equiv> min (nat (max pos 1 - 1)) (length xs)"
  shows "pl_valid (with_tracks c d0 (\<lambda>t. t = rows)) (trk_Insert e pid ids pos)
     (\<lambda>_. with_tracks c d0 (inserted e c d0 pid k xs ids)) (\<lambda>d. \<not> c)" (is "pl_valid _ _ ?Q ?E")
proof (cases "ids = []")
  case True
  then have "keeps_files e c d0 ids []" by (simp add: keeps_files_def)
  with rep have "inserted e c d0 pid k xs ids rows" unfolding inserted_def insert_at_def by (fastforce intro: exI [of _ "[]"])
  then show ?thesis using True by (auto simp: trk_Insert_def intro!: valid_ret)
next
  case False
  let ?p = "max pos 1" and ?n = "length ids"
  have n: "?n \<ge> 1" using False by (simp add: Suc_leI)
  obtain r1 r2 where r1: "Insert_shift pid ?n ?p rows = Some r1" and r2: "Insert_flip pid r1 = Some r2"
    and arr: "arranged r2 pid (map (\<lambda>p. if p \<ge> ?p then p + int ?n else p) [1..int (length xs)]) xs"
    and aff: "affected pid (\<lambda>p. p < 0) r1 = 0 \<longleftrightarrow> ?p > int (length xs)"
    by (rule room_represents [OF rep max.cobounded2 n, of pos])
  have flip: "pl_valid (with_tracks c d0 (\<lambda>t. t = r1))
     (pl_stmt (\<lambda>d. case Insert_flip pid (pd_tracks d) of None \<Rightarrow> (d, Inl ErrSQL)
        | Some r \<Rightarrow> (d\<lparr>pd_tracks := r\<rparr>, Inr (affected pid (\<lambda>p. p < 0) (pd_tracks d)))))
     (\<lambda>m d. with_tracks c d0 (\<lambda>t. t = r2) d \<and> (m = 0 \<longleftrightarrow> ?p > int (length xs))) ?E"
    by (rule valid_stmt [where P' = "with_tracks c d0 (\<lambda>t. t = r1)"]) (use r2 aff in \<open>auto simp: pl_valid_def around_pop dest: around_fault\<close>)
  have tail: "pl_valid (with_tracks c d0 (\<lambda>t. t = r2)) (trk_Add e pid ids) ?Q ?E" if past: "?p > int (length xs)"
  proof -
    have "map (\<lambda>p. if p \<ge> ?p then p + int ?n else p) [1..int (length xs)] = [1..int (length xs)]" using past by (intro map_idI) auto
    with arr have "represents r2 pid xs" by (simp add: represents_def)
    moreover have "k = length xs" using past by (simp add: k_def)
    ultimately have "represents r2 pid xs" and a: "inserted e c d0 pid k xs ids = appended e c d0 pid xs ids"
      by (simp_all add: appended_def inserted_def insert_at_def fun_eq_iff)
    then show ?thesis unfolding a by (intro valid_conseq [OF valid_Add [OF pl _ small, of r2 c e ids]]) simp_all
  qed
  have mid: "pl_valid (with_tracks c d0 (\<lambda>t. t = r2))
      (pl_bind (addTracks e pid ?p ids) (\<lambda>m. if m = ?n then pl_ret m else pl_bind (pls_renumber e pid) (\<lambda>_. pl_ret m))) ?Q ?E"
    if inside: "\<not> ?p > int (length xs)"
  proof -
    have k: "k \<le> length xs" "?p = int k + 1" using inside by (auto simp: k_def)
    have ins: "\<exists>r. sql_insert pid ?p ks r2 = Some r" if ks: "keeps_files e c d0 ids ks" for ks
    proof -
      have "length ks \<le> ?n" using ks unfolding keeps_files_def by blast
      then show ?thesis using insert_represents [OF arr k, of ks] by blast
    qed
    show ?thesis
    proof (rule valid_bind)
      show "pl_valid (with_tracks c d0 (\<lambda>t. t = r2)) (addTracks e pid ?p ids)
        (\<lambda>n. with_tracks c d0 (\<lambda>t. \<exists>ks. keeps_files e c d0 ids ks \<and> n = length ks \<and> sql_insert pid ?p ks r2 = Some t)) ?E"
        by (rule valid_conseq [OF valid_addTracks [OF pl ins]]) blast+
      fix m
      show "pl_valid (with_tracks c d0 (\<lambda>t. \<exists>ks. keeps_files e c d0 ids ks \<and> m = length ks \<and> sql_insert pid ?p ks r2 = Some t))
        (if m = ?n then pl_ret m else pl_bind (pls_renumber e pid) (\<lambda>_. pl_ret m)) ?Q ?E"
      proof (rule valid_each)
        fix t assume "\<exists>ks. keeps_files e c d0 ids ks \<and> m = length ks \<and> sql_insert pid ?p ks r2 = Some t"
        then obtain ks where ks: "keeps_files e c d0 ids ks" "m = length ks" "sql_insert pid ?p ks r2 = Some t" by blast
        have le: "length ks \<le> ?n" using ks(1) unfolding keeps_files_def by blast
        obtain r3 where full: "length ks = ?n \<Longrightarrow> represents t pid (insert_at k ks xs)"
          and r3: "renumber pid t = Some r3" "represents r3 pid (insert_at k ks xs)"
          using insert_represents [OF arr k le] ks(3) unfolding insert_at_def by (metis option.inject)
        show "pl_valid (with_tracks c d0 (\<lambda>x. x = t)) (if m = ?n then pl_ret m else pl_bind (pls_renumber e pid) (\<lambda>_. pl_ret m)) ?Q ?E"
        proof (cases "m = ?n")
          case True
          then show ?thesis using full ks by (auto simp: inserted_def intro!: valid_ret)
        next
          case False
          have "inserted e c d0 pid k xs ids r3" using r3 ks(1) by (auto simp: inserted_def)
          then show ?thesis unfolding if_not_P [OF False] by (intro valid_bind [OF valid_renumber [OF r3(1)] valid_ret]) simp
        qed
      qed
    qed
  qed
  have rest: "pl_valid (\<lambda>d. with_tracks c d0 (\<lambda>t. t = r2) d \<and> (m = 0 \<longleftrightarrow> ?p > int (length xs)))
     (if m = 0 then trk_Add e pid ids
      else pl_bind (addTracks e pid ?p ids) (\<lambda>i. if i = ?n then pl_ret i else pl_bind (pls_renumber e pid) (\<lambda>_. pl_ret i))) ?Q ?E" for m
    using tail mid by (cases "m = 0 \<longleftrightarrow> ?p > int (length xs)") (auto simp: pl_valid_def)
  show ?thesis unfolding trk_Insert_def if_not_P [OF False] Let_def
    by (rule valid_bind [OF valid_conseq [OF valid_exec [where A = "\<lambda>t. t = rows" and B = "\<lambda>t. t = r1"]] valid_bind [OF flip rest]])
      (use r1 in auto)
qed

section \<open>Deleting and moving\<close>

lemma sql_delete_or: "sql_delete pid Q (sql_delete pid P rows) = sql_delete pid (\<lambda>p. P p \<or> Q p) rows"
  by (auto simp: sql_delete_def intro!: filter_cong)

lemma sql_delete_none [simp]: "sql_delete pid (\<lambda>_. False) rows = rows"
  by (simp add: sql_delete_def)

lemma valid_delete_stmt:
  "pl_valid (with_tracks c d0 (\<lambda>t. t = rows)) (delete_stmt pid P) (\<lambda>_. with_tracks c d0 (\<lambda>t. t = sql_delete pid P rows))
     (\<lambda>d. \<not> c \<and> with_tracks c d0 (\<lambda>t. t = rows) d)"
  unfolding delete_stmt_def by (rule valid_exec) simp

definition named_pos :: "pl_env \<Rightarrow> string list \<Rightarrow> int \<Rightarrow> bool" where
  "named_pos e ids p \<longleftrightarrow> list_ex (\<lambda>s. le_affinity e s = Some p) ids"

lemma valid_delete_chunks:
  "pl_valid (with_tracks c d0 (\<lambda>t. t = rows)) (delete_chunks e pid cs)
     (\<lambda>_. with_tracks c d0 (\<lambda>t. t = sql_delete pid (named_pos e (concat cs)) rows)) (\<lambda>d. \<not> c)"
proof (induction cs arbitrary: rows)
  case Nil
  have "named_pos e [] = (\<lambda>_. False)" by (simp add: named_pos_def fun_eq_iff)
  then show ?case by (auto intro: valid_ret)
next
  case (Cons chunk cs)
  have "named_pos e (concat (chunk # cs)) = (\<lambda>p. named_pos e chunk p \<or> named_pos e (concat cs) p)"
    by (simp add: named_pos_def fun_eq_iff)
  then have d: "sql_delete pid (named_pos e (concat (chunk # cs))) rows =
      sql_delete pid (named_pos e (concat cs)) (sql_delete pid (named_pos e chunk) rows)" by (simp only: sql_delete_or)
  have one: "(\<lambda>p. list_ex (\<lambda>s. le_affinity e s = Some p) chunk) = named_pos e chunk" by (simp add: named_pos_def fun_eq_iff)
  show ?case unfolding delete_chunks.simps d one
    by (rule valid_bind [OF valid_conseq [OF valid_delete_stmt [of c d0 rows]] Cons.IH]) simp_all
qed

lemma valid_Delete:
  assumes "represents rows pid xs"
  shows "pl_valid (with_tracks c d0 (\<lambda>t. t = rows)) (trk_Delete e pid ids)
     (\<lambda>_. with_tracks c d0 (\<lambda>t. represents t pid (nths xs {j. \<not> named_pos e ids (1 + int j)}))) (\<lambda>d. \<not> c)"
proof -
  obtain r where r: "renumber pid (sql_delete pid (named_pos e ids) rows) = Some r"
    "represents r pid (nths xs {j. \<not> named_pos e ids (1 + int j)})" using delete_represents [OF assms] by blast
  have del: "pl_valid (with_tracks c d0 (\<lambda>t. t = rows)) (delete_chunks e pid (art_chunks deleteChunkSize ids))
     (\<lambda>_. with_tracks c d0 (\<lambda>t. t = sql_delete pid (named_pos e ids) rows)) (\<lambda>d. \<not> c)"
    using valid_delete_chunks [of c d0 rows e pid "art_chunks deleteChunkSize ids"] by (simp add: deleteChunkSize_def)
  show ?thesis unfolding trk_Delete_def
    by (rule valid_bind [OF del valid_conseq [OF valid_renumber [OF r(1), of c d0]]]) (use r(2) in simp_all)
qed

lemma valid_Reorder:
  fixes newPos :: int
  assumes rep: "represents rows pid xs" and small: "length xs < 999999" and pos: "1 \<le> pos" "pos \<le> int (length xs)"
  defines "j \<equiv> min (max newPos 1) (int (length xs))"
  shows "pl_valid (with_tracks c d0 (\<lambda>t. t = rows)) (trk_Reorder pid pos newPos)
     (\<lambda>_. with_tracks c d0 (\<lambda>t. represents t pid (move_item (nat (pos - 1)) (nat (j - 1)) xs))) (\<lambda>d. \<not> c)" (is "pl_valid _ _ ?Q ?E")
proof -
  have max: "pl_valid (with_tracks c d0 (\<lambda>t. t = rows)) (query_max pid) (\<lambda>a d. a = int (length xs) \<and> with_tracks c d0 (\<lambda>t. t = rows) d) ?E"
    by (rule valid_conseq [OF valid_query_max [where A = "\<lambda>t. t = rows" and m = "int (length xs)"]])
      (use represents_max [OF rep] small in \<open>auto simp: maxInt32_def\<close>)
  have steps: "pl_valid (with_tracks c d0 (\<lambda>t. t = rows))
     (pl_bind (exec_tracks (sql_update pid (\<lambda>p. p = pos) (\<lambda>_. sentinel))) (\<lambda>_.
           pl_bind (if pos < j
                    then exec_tracks (sql_update pid (\<lambda>p. p > pos \<and> p \<le> j) (\<lambda>p. - (p - 1)))
                    else exec_tracks (sql_update pid (\<lambda>p. p \<ge> j \<and> p < pos) (\<lambda>p. - (p + 1)))) (\<lambda>_.
             pl_bind (exec_tracks (sql_update pid (\<lambda>p. p < 0 \<and> p \<noteq> sentinel) (\<lambda>p. - p))) (\<lambda>_.
               exec_tracks (sql_update pid (\<lambda>p. p = sentinel) (\<lambda>_. j)))))) ?Q ?E" if ne: "pos \<noteq> j"
  proof -
    have j: "1 \<le> j" "j \<le> int (length xs)" using pos by (auto simp: j_def)
    obtain r where r: "Reorder_steps pid pos j rows = Some r" "represents r pid (move_item (nat (pos - 1)) (nat (j - 1)) xs)"
      using reorder_represents [OF rep pos j ne small] by blast
    from r(1) obtain r1 r2 r3 where s: "sql_update pid (\<lambda>p. p = pos) (\<lambda>_. sentinel) rows = Some r1"
      "(if pos < j then sql_update pid (\<lambda>p. p > pos \<and> p \<le> j) (\<lambda>p. - (p - 1)) r1
        else sql_update pid (\<lambda>p. p \<ge> j \<and> p < pos) (\<lambda>p. - (p + 1)) r1) = Some r2"
      "sql_update pid (\<lambda>p. p < 0 \<and> p \<noteq> sentinel) (\<lambda>p. - p) r2 = Some r3"
      "sql_update pid (\<lambda>p. p = sentinel) (\<lambda>_. j) r3 = Some r" unfolding Reorder_steps_def by (auto split: option.splits)
    have two: "pl_valid (with_tracks c d0 (\<lambda>t. t = r1)) (if pos < j
                    then exec_tracks (sql_update pid (\<lambda>p. p > pos \<and> p \<le> j) (\<lambda>p. - (p - 1)))
                    else exec_tracks (sql_update pid (\<lambda>p. p \<ge> j \<and> p < pos) (\<lambda>p. - (p + 1)))) (\<lambda>_. with_tracks c d0 (\<lambda>t. t = r2)) ?E"
      using s(2) by (cases "pos < j") (simp_all add: valid_exec_eq)
    show ?thesis
    proof (rule valid_exec_then [where b = r1], rule s(1), rule valid_bind [OF two], rule valid_exec_then [where b = r3], rule s(3))
      show "pl_valid (with_tracks c d0 (\<lambda>t. t = r3)) (exec_tracks (sql_update pid (\<lambda>p. p = sentinel) (\<lambda>_. j))) ?Q ?E"
        by (rule valid_conseq [OF valid_exec_eq [of _ r3 r c d0]]) (use s(4) r(2) in simp_all)
    qed
  qed
  have stay: "represents rows pid (move_item (nat (pos - 1)) (nat (pos - 1)) xs)"
  proof -
    have i: "nat (pos - 1) < length xs" using pos by linarith
    then have "move_item (nat (pos - 1)) (nat (pos - 1)) xs = xs"
      unfolding move_item_def Let_def by (simp add: id_take_nth_drop [symmetric])
    then show ?thesis using rep by simp
  qed
  show ?thesis unfolding trk_Reorder_def
  proof (rule valid_bind [OF max])
    fix last
    show "pl_valid (\<lambda>d. last = int (length xs) \<and> with_tracks c d0 (\<lambda>t. t = rows) d)
      (if pos < 1 \<or> pos > last then pl_fail ErrNotFound
       else (let newPos = min (max newPos 1) last in
         if pos = newPos then pl_ret ()
         else pl_bind (exec_tracks (sql_update pid (\<lambda>p. p = pos) (\<lambda>_. sentinel))) (\<lambda>_.
           pl_bind (if pos < newPos
                    then exec_tracks (sql_update pid (\<lambda>p. p > pos \<and> p \<le> newPos) (\<lambda>p. - (p - 1)))
                    else exec_tracks (sql_update pid (\<lambda>p. p \<ge> newPos \<and> p < pos) (\<lambda>p. - (p + 1)))) (\<lambda>_.
             pl_bind (exec_tracks (sql_update pid (\<lambda>p. p < 0 \<and> p \<noteq> sentinel) (\<lambda>p. - p))) (\<lambda>_.
               exec_tracks (sql_update pid (\<lambda>p. p = sentinel) (\<lambda>_. newPos))))))) ?Q ?E"
    proof (cases "last = int (length xs)")
      case True
      have range: "\<not> (pos < 1 \<or> pos > last)" using pos True by simp
      have jl: "min (max newPos 1) last = j" by (simp add: j_def True)
      show ?thesis unfolding if_not_P [OF range] jl Let_def
        using stay steps by (cases "pos = j") (auto intro!: valid_ret elim!: valid_conseq)
    qed (simp add: pl_valid_def)
  qed
qed

end
