(* ===== verification/PlaylistFrame.thy ===== *)
theory PlaylistFrame
  imports PlaylistLogic
begin

text \<open>
  Who may change a playlist. An action on the playlist \<open>i\<close> leaves the rows and the tracks of the others
  alone, whatever fails on the way, and the service acts on a playlist only for its owner.
\<close>

section \<open>Frames\<close>

definition only_of :: "string \<Rightarrow> pl_db \<Rightarrow> pl_db \<Rightarrow> bool" where
  "only_of i d d' \<longleftrightarrow>
     others i (pd_tracks d') = others i (pd_tracks d) \<and>
     filter (\<lambda>r. pr_id r \<noteq> i) (pd_playlists d') = filter (\<lambda>r. pr_id r \<noteq> i) (pd_playlists d) \<and>
     (distinct (map pr_id (pd_playlists d)) \<longrightarrow> distinct (map pr_id (pd_playlists d')))"

definition touches :: "string \<Rightarrow> 'a pl_action \<Rightarrow> bool" where
  "touches i m \<longleftrightarrow> (\<forall>d. only_of i d (fst (m d)))"

named_theorems touch_rules

lemma only_refl [simp]: "only_of i d d"
  by (simp add: only_of_def)

lemma only_trans: "only_of i d d1 \<Longrightarrow> only_of i d1 d2 \<Longrightarrow> only_of i d d2"
  by (simp add: only_of_def)

lemma only_faults [simp]: "only_of i d (d1\<lparr>pd_faults := f\<rparr>) = only_of i d d1" "only_of i (d\<lparr>pd_faults := f\<rparr>) d1 = only_of i d d1"
  by (simp_all add: only_of_def)

lemma only_pop [simp]: "only_of i d (pop_fault d1) = only_of i d d1" "only_of i (pop_fault d) d1 = only_of i d d1"
  by (simp_all add: pop_fault_def)

lemma only_art [simp]: "only_of i d (d1\<lparr>pd_art := a\<rparr>) = only_of i d d1"
  by (simp add: only_of_def)

lemma touches_ret [touch_rules]: "touches i (pl_ret a)"
  by (simp add: touches_def pl_ret_def)

lemma touches_fail [touch_rules]: "touches i (pl_fail x)"
  by (simp add: touches_def pl_fail_def)

lemma touches_bind [touch_rules]: "touches i m \<Longrightarrow> (\<And>a. touches i (f a)) \<Longrightarrow> touches i (pl_bind m f)"
  unfolding touches_def pl_bind_def by (auto split: prod.splits sum.splits) (metis fst_conv only_trans)+

lemma touches_try [touch_rules]: "touches i m \<Longrightarrow> touches i (pl_try m)"
  unfolding touches_def pl_try_def by (auto split: prod.splits) (metis fst_conv)

lemma touches_stmt: "(\<And>d. only_of i d (fst (f d))) \<Longrightarrow> touches i (pl_stmt f)"
  unfolding touches_def pl_stmt_def by (metis (full_types) fst_conv only_pop only_refl)

lemma touches_query [touch_rules]: "touches i (pl_query h)"
  unfolding pl_query_def by (rule touches_stmt) simp

lemma touches_if [touch_rules]: "touches i m \<Longrightarrow> touches i m' \<Longrightarrow> touches i (if b then m else m')"
  by simp

lemma touches_prod [touch_rules]: "(\<And>a b. touches i (f a b)) \<Longrightarrow> touches i (case p of (a, b) \<Rightarrow> f a b)"
  by (simp split: prod.splits)

lemma touches_sum [touch_rules]: "(\<And>a. touches i (f a)) \<Longrightarrow> (\<And>b. touches i (g b)) \<Longrightarrow> touches i (case s of Inl a \<Rightarrow> f a | Inr b \<Rightarrow> g b)"
  by (simp split: sum.splits)

lemma touches_list [touch_rules]: "touches i m \<Longrightarrow> (\<And>x xs. touches i (f x xs)) \<Longrightarrow> touches i (case l of [] \<Rightarrow> m | x # xs \<Rightarrow> f x xs)"
  by (simp split: list.splits)

lemma touches_let [touch_rules]: "touches i (f a) \<Longrightarrow> touches i (Let a f)"
  by (simp add: Let_def)

lemma touches_WithTx [touch_rules]: "touches i m \<Longrightarrow> touches i (WithTx m)"
proof -
  assume m: "touches i m"
  have "only_of i d d2" if "m (pop_fault d) = (d2, r)" for d d2 r
    using m that unfolding touches_def by (metis fst_conv only_pop(2))
  then show ?thesis unfolding touches_def WithTx_def by (auto split: prod.splits sum.splits)
qed

lemma touches_WithTxImmediate [touch_rules]: "touches i m \<Longrightarrow> touches i (WithTxImmediate m)"
  unfolding WithTxImmediate_def
  by (rule touches_WithTx) (simp add: touches_def split: prod.splits, metis fst_conv only_pop)

section \<open>Statements\<close>

lemma others_append [simp]: "others i (xs @ ys) = others i xs @ others i ys"
  by (simp add: others_def)

lemma others_update_rows:
  "update_rows P g before rows = Some r \<Longrightarrow> (\<And>t. P t \<Longrightarrow> tk_playlist t = i) \<Longrightarrow> others i r = others i (before @ rows)"
  by (induction P g before rows rule: update_rows.induct) (auto simp: others_def split: if_splits)

lemma others_update: "sql_update i P g rows = Some r \<Longrightarrow> others i r = others i rows"
  unfolding sql_update_def by (drule others_update_rows) auto

lemma others_insert: "sql_insert i pos ids rows = Some r \<Longrightarrow> others i r = others i rows"
  by (induction ids arbitrary: pos rows) (fastforce simp: others_def split: if_splits)+

lemma touches_exec: "(\<And>rows r. g rows = Some r \<Longrightarrow> others i r = others i rows) \<Longrightarrow> touches i (exec_tracks g)"
  unfolding exec_tracks_def by (rule touches_stmt) (auto simp: only_of_def split: option.splits)

lemma touches_update [touch_rules]: "touches i (exec_tracks (sql_update i P g))"
  by (rule touches_exec) (rule others_update)

lemma touches_row_number [touch_rules]: "touches i (exec_tracks (\<lambda>rows. sql_update i (P rows) (g rows) rows))"
  by (rule touches_exec) (rule others_update)

lemma touches_shift [touch_rules]: "touches i (exec_tracks (Insert_shift i n pos))"
  by (rule touches_exec) (simp add: Insert_shift_def others_update)

lemma touches_flip [touch_rules]:
  "touches i (pl_stmt (\<lambda>d. case Insert_flip i (pd_tracks d) of None \<Rightarrow> (d, Inl ErrSQL) | Some r \<Rightarrow> (d\<lparr>pd_tracks := r\<rparr>, Inr (h d))))"
  by (rule touches_stmt) (auto simp: only_of_def Insert_flip_def others_update split: option.splits)

lemma touches_delete [touch_rules]: "touches i (delete_stmt i P)"
  unfolding delete_stmt_def by (rule touches_exec) auto

lemma touches_insert [touch_rules]: "touches i (insert_stmt i pos ids)"
  unfolding insert_stmt_def by (rule touches_stmt) (auto simp: only_of_def others_insert split: option.splits)

lemma touches_cover [touch_rules]: "touches i (enqueueCoverRebuild e pid)"
  by (simp add: touches_def enqueueCoverRebuild_def Let_def)

lemma filter_map_others: "(\<And>r. pr_id (g r) = pr_id r) \<Longrightarrow>
    filter (\<lambda>r. pr_id r \<noteq> i) (map (\<lambda>r. if pr_id r = i then g r else r) rs) = filter (\<lambda>r. pr_id r \<noteq> i) rs"
  by (induction rs) auto

lemma ids_map: "(\<And>r. pr_id (g r) = pr_id r) \<Longrightarrow> map pr_id (map (\<lambda>r. if pr_id r = i then g r else r) rs) = map pr_id rs"
  by simp

lemma only_rows:
  "(\<And>r. pr_id (g r) = pr_id r) \<Longrightarrow> only_of i d (d\<lparr>pd_playlists := map (\<lambda>r. if pr_id r = i then g r else r) (pd_playlists d)\<rparr>)"
  by (simp add: only_of_def filter_map_others ids_map del: map_map)

lemma only_new:
  "pr_id r = i \<Longrightarrow> \<not> list_ex (\<lambda>r. pr_id r = i) (pd_playlists d) \<Longrightarrow> only_of i d (d\<lparr>pd_playlists := pd_playlists d @ [r]\<rparr>)"
  by (auto simp: only_of_def list_ex_iff)

lemma touches_counters [touch_rules]: "touches i (refreshCounters e i)"
  unfolding refreshCounters_def by (intro touch_rules touches_stmt) (simp add: only_rows)

section \<open>Operations\<close>

lemma touches_accessible [touch_rules]: "touches i (accessible_chunks e cs acc)"
  by (induction cs arbitrary: acc) (auto simp: applyLibraryFilter_def sees_all_def visibleLibraryIDs_def userSeesAllLibraries_def intro!: touch_rules)

lemma touches_keep [touch_rules]: "touches i (keepAccessible e ids)"
  unfolding keepAccessible_def sees_all_def visibleLibraryIDs_def userSeesAllLibraries_def by (intro touch_rules)

lemma touches_insert_chunks [touch_rules]: "touches i (insert_chunks i pos cs)"
  by (induction cs arbitrary: pos) (auto intro!: touch_rules)

lemma touches_delete_chunks [touch_rules]: "touches i (delete_chunks e i cs)"
  by (induction cs) (auto intro!: touch_rules)

lemma touches_addTracks [touch_rules]: "touches i (addTracks e i pos ids)"
  unfolding addTracks_def by (intro touch_rules)

lemma touches_renumber [touch_rules]: "touches i (pls_renumber e i)"
  unfolding pls_renumber_def by (intro touch_rules)

lemma touches_max [touch_rules]: "touches i (query_max pid)"
  unfolding query_max_def by (intro touch_rules)

lemma touches_Add [touch_rules]: "touches i (trk_Add e i ids)"
  unfolding trk_Add_def by (intro touch_rules)

lemma touches_Insert [touch_rules]: "touches i (trk_Insert e i ids pos)"
  unfolding trk_Insert_def by (intro touch_rules)

lemma touches_Delete [touch_rules]: "touches i (trk_Delete e i ids)"
  unfolding trk_Delete_def by (intro touch_rules)

lemma touches_Reorder [touch_rules]: "touches i (trk_Reorder i pos newPos)"
  unfolding trk_Reorder_def by (intro touch_rules)

lemma touches_by_filter [touch_rules]:
  "touches i (trk_AddAlbums e i ids)" "touches i (trk_AddArtists e i ids)" "touches i (trk_AddDiscs e i discs)"
  unfolding trk_AddAlbums_def trk_AddArtists_def trk_AddDiscs_def addMediaFileIds_def by (intro touch_rules)+

lemma touches_pls_Delete [touch_rules]: "touches i (pls_Delete e i)"
  unfolding pls_Delete_def
proof (rule touches_stmt)
  fix d :: pl_db
  let ?gone = "map pr_id (filter (\<lambda>r. pr_id r = i \<and> userFilter e r) (pd_playlists d))"
  have "others i (filter (\<lambda>t. \<not> List.member ?gone (tk_playlist t)) (pd_tracks d)) = others i (pd_tracks d)"
    unfolding others_def filter_filter by (rule filter_cong) auto
  moreover have "filter (\<lambda>r. pr_id r \<noteq> i) (filter (\<lambda>r. \<not> (pr_id r = i \<and> userFilter e r)) (pd_playlists d)) =
      filter (\<lambda>r. pr_id r \<noteq> i) (pd_playlists d)"
    unfolding filter_filter by (rule filter_cong) auto
  ultimately show "only_of i d (fst (let gone = ?gone in
       (d\<lparr>pd_playlists := filter (\<lambda>r. \<not> (pr_id r = i \<and> userFilter e r)) (pd_playlists d),
          pd_tracks := filter (\<lambda>t. \<not> List.member gone (tk_playlist t)) (pd_tracks d)\<rparr>, Inr ())))"
    unfolding only_of_def by (simp add: distinct_map_filter)
qed

text \<open>\<open>Put\<close> touches the playlist with the ID, or with the new ID when it has none.\<close>

lemma pr_id_update [simp]: "pr_id (update_row p rules r) = pr_id r"
  by (simp add: update_row_def Let_def split: option.splits)

lemma pr_id_insert [simp]: "pr_id (insert_row i p rules) = i"
  by (simp add: insert_row_def)

definition put_id :: "pl_env \<Rightarrow> playlist \<Rightarrow> string" where
  "put_id e p = (if pls_ID p = [] then le_newID e else pls_ID p)"

lemma touches_put: "touches (put_id e p) (sql_put_playlist e p)"
proof -
  have ins: "touches n (pl_stmt (\<lambda>d. if \<not> List.member (pd_users d) w \<or> list_ex (\<lambda>r. pr_id r = n) (pd_playlists d) then (d, Inl ErrSQL)
       else (d\<lparr>pd_playlists := pd_playlists d @ [insert_row n p rules]\<rparr>, Inr n)))" for n w rules
    by (rule touches_stmt) (simp add: only_new)
  have upd: "touches n (pl_stmt (\<lambda>d. if list_ex (\<lambda>r. pr_id r = n) (pd_playlists d) \<and> \<not> List.member (pd_users d) w then (d, Inl ErrSQL)
       else (d\<lparr>pd_playlists := map (\<lambda>r. if pr_id r = n then update_row p rules r else r) (pd_playlists d)\<rparr>,
             Inr (list_ex (\<lambda>r. pr_id r = n) (pd_playlists d)))))" for n w rules
    by (rule touches_stmt) (simp add: only_rows)
  show ?thesis
  proof (cases "pls_ID p = []")
    case True
    then show ?thesis unfolding sql_put_playlist_def put_id_def Let_def if_P [OF True] by (intro touch_rules ins)
  next
    case False
    show ?thesis unfolding sql_put_playlist_def put_id_def Let_def if_not_P [OF False] by (intro touch_rules ins upd)
  qed
qed

text \<open>The ID that \<open>put\<close> returns.\<close>

lemma put_returns: "sql_put_playlist e p d = (d', Inr i) \<Longrightarrow> i = put_id e p"
  unfolding sql_put_playlist_def Let_def pl_bind_def pl_stmt_def pl_ret_def pl_fail_def put_id_def
  by (auto split: if_splits sum.splits prod.splits)

lemma touches_bind_result:
  "touches i m \<Longrightarrow> (\<And>d d' a. m d = (d', Inr a) \<Longrightarrow> touches i (f a)) \<Longrightarrow> touches i (pl_bind m f)"
  unfolding touches_def pl_bind_def by (auto split: prod.splits sum.splits) (metis fst_conv only_trans)+

lemma touches_Put [touch_rules]: "put_id e p = i \<Longrightarrow> touches i (pls_Put e p)"
proof -
  assume i: "put_id e p = i"
  have k: "touches i (updatePlaylist e i (pls_Tracks p))" unfolding updatePlaylist_def by (intro touch_rules)
  show ?thesis unfolding pls_Put_def Let_def
  proof (rule touches_bind_result)
    let ?q = "p\<lparr>pls_CreatedAt := (if pls_ID p = [] then le_now e else pls_CreatedAt p), pls_UpdatedAt := le_now e\<rparr>"
    have q: "put_id e ?q = i" unfolding i [symmetric] by (simp add: put_id_def)
    show "touches i (sql_put_playlist e ?q)" using touches_put [of e ?q] by (simp only: q)
    fix d d' a
    assume "sql_put_playlist e ?q d = (d', Inr a)"
    then have "a = i" using put_returns q by blast
    then show "touches i (if IsSmartPlaylist p then pl_ret a
           else if pls_Tracks p \<noteq> [] then pl_bind (updatePlaylist e a (pls_Tracks p)) (\<lambda>_. pl_ret a)
           else pl_bind (if pls_ID p = [] then enqueueCoverRebuild e a else pl_ret ()) (\<lambda>_.
             pl_bind (refreshCounters e a) (\<lambda>_. pl_ret a)))"
      using k by (auto intro!: touch_rules)
  qed
qed

lemma touches_flags [touch_rules]: "pls_ID p = i \<Longrightarrow> touches i (sql_put_flags e p sync pub)"
  unfolding sql_put_flags_def
  by (intro touch_rules touches_stmt) (simp_all add: only_rows only_new)

section \<open>Looking a playlist up\<close>

definition pl_lookup :: "pl_env \<Rightarrow> string \<Rightarrow> pl_db \<Rightarrow> pl_error + playlist" where
  "pl_lookup e i d =
     (case decode_rows e (select_playlists (\<lambda>r. pr_id r = i \<and> userFilter e r) d) of
        Inl err \<Rightarrow> Inl err
      | Inr [] \<Rightarrow> Inl ErrNotFound
      | Inr (p # _) \<Rightarrow> Inr p)"

lemma pls_Get_eq: "pls_Get e i d = (pop_fault d, if next_fault d then Inl ErrSQL else pl_lookup e i d)"
  by (simp add: pls_Get_def findBy_def pl_bind_def pl_query_def pl_stmt_def pl_lookup_def select_playlists_def pl_fail_def pl_ret_def
      split: sum.splits list.splits)

lemma checkWritable_eq:
  "checkWritable e i d = (pop_fault d, if next_fault d then Inl ErrSQL
     else (case pl_lookup e i d of Inl x \<Rightarrow> Inl x
           | Inr p \<Rightarrow> if pls_OwnerID p \<noteq> fst (request_user e) then Inl ErrNotAuthorized else Inr p))"
  by (simp add: checkWritable_def pl_bind_def pls_Get_eq pl_fail_def pl_ret_def split: sum.splits)

lemma checkTracksEditable_eq:
  "checkTracksEditable e i d = (pop_fault d, if next_fault d then Inl ErrSQL
     else (case pl_lookup e i d of Inl x \<Rightarrow> Inl x
           | Inr p \<Rightarrow> if pls_OwnerID p \<noteq> fst (request_user e) then Inl ErrNotAuthorized
                     else if \<not> TracksEditable p then Inl ErrPlaylistNotEditable else Inr p))"
  by (cases "pl_lookup e i d") (simp_all add: checkTracksEditable_def pl_bind_def checkWritable_eq pl_fail_def pl_ret_def)

lemma decoded_row:
  "of_playlist_row e r = Inr p \<Longrightarrow> pls_ID p = pr_id r \<and> pls_OwnerID p = pr_owner_id r \<and> pls_Tracks p = []"
  by (auto simp: of_playlist_row_def Let_def split: option.splits sum.splits)

lemma lookup_row:
  assumes "pl_lookup e i d = Inr p"
  obtains r where "r \<in> set (pd_playlists d)" "pr_id r = i" "pls_ID p = i" "pls_OwnerID p = pr_owner_id r" "pls_Tracks p = []"
    "pr_owner_id r \<in> set (pd_users d)"
proof -
  let ?rs = "select_playlists (\<lambda>r. pr_id r = i \<and> userFilter e r) d"
  from assms obtain ps where "decode_rows e ?rs = Inr (p # ps)" by (auto simp: pl_lookup_def split: sum.splits list.splits)
  then obtain r rs where r: "?rs = r # rs" "of_playlist_row e r = Inr p" by (cases ?rs) (auto split: sum.splits)
  then have "r \<in> set ?rs" by simp
  then have "r \<in> set (pd_playlists d) \<and> pr_id r = i \<and> pr_owner_id r \<in> set (pd_users d)" by (simp add: select_playlists_def)
  with decoded_row [OF r(2)] show thesis by (intro that [of r]) auto
qed

lemma checked_ID:
  "pls_Get e i d = (d', Inr p) \<Longrightarrow> pls_ID p = i" "checkWritable e i d = (d', Inr p) \<Longrightarrow> pls_ID p = i"
  "checkTracksEditable e i d = (d', Inr p) \<Longrightarrow> pls_ID p = i"
  by (auto simp: pls_Get_eq checkWritable_eq checkTracksEditable_eq split: if_splits sum.splits elim: lookup_row)

lemma touches_Get [touch_rules]: "touches i (pls_Get e j)"
  by (simp add: touches_def pls_Get_eq)

lemma touches_check [touch_rules]: "touches i (checkWritable e j)" "touches i (checkTracksEditable e j)"
  by (simp_all add: touches_def checkWritable_eq checkTracksEditable_eq)

lemma touches_on_tracks [touch_rules]: "touches i m \<Longrightarrow> touches i (on_tracks e j m)"
  unfolding touches_def on_tracks_def pls_Get_eq by (auto split: sum.splits) (metis only_pop(2))

section \<open>The service\<close>

fun call_target :: "pl_env \<Rightarrow> pl_call \<Rightarrow> string" where
  "call_target e (Call_Create i _ _) = (if i = [] then le_newID e else i)"
| "call_target e (Call_Delete i) = i"
| "call_target e (Call_Update i _ _ _ _ _) = i"
| "call_target e (Call_AddTracks i _) = i"
| "call_target e (Call_InsertTracks i _ _) = i"
| "call_target e (Call_AddAlbums i _) = i"
| "call_target e (Call_AddArtists i _) = i"
| "call_target e (Call_AddDiscs i _) = i"
| "call_target e (Call_RemoveTracks i _) = i"
| "call_target e (Call_ReorderTrack i _ _) = i"
| "call_target e (Call_SetImage _ i) = i"
| "call_target e (Call_RemoveImage _ i) = i"
| "call_target e (Call_Save _) = le_newID e"
| "call_target e (Call_UpdateEntity i _ _) = i"

text \<open>Calls that make a playlist rather than change one.\<close>

fun makes_playlist :: "pl_call \<Rightarrow> bool" where
  "makes_playlist (Call_Create i _ _) \<longleftrightarrow> i = []"
| "makes_playlist (Call_Save _) \<longleftrightarrow> True"
| "makes_playlist _ \<longleftrightarrow> False"

lemma touches_discard [touch_rules]: "touches i m \<Longrightarrow> touches i (discard m)"
  unfolding discard_def by (intro touch_rules)

lemma put_id_ID: "pls_ID p = i \<Longrightarrow> i \<noteq> [] \<Longrightarrow> put_id e p = i"
  by (simp add: put_id_def)

lemma touches_metadata: "pls_ID p = i \<Longrightarrow> i \<noteq> [] \<Longrightarrow> touches i (updateMetadata e p name comment pub)"
  unfolding updateMetadata_def by (intro touch_rules put_id_ID) simp_all

lemma touches_refreshArtwork [touch_rules]: "touches i (refreshArtwork e j)"
  by (simp add: touches_def refreshArtwork_def Let_def)

lemma touches_Create: "i \<noteq> [] \<Longrightarrow> touches i (svc_Create e i name ids)"
  unfolding svc_Create_def
  by (intro touch_rules touches_bind_result [of i "if i \<noteq> [] then _ else _"])
    (auto intro!: touch_rules put_id_ID simp: AddMediaFilesByID_def pl_bind_def pl_ret_def pl_fail_def
      split: if_splits prod.splits sum.splits dest: checked_ID)

lemma touches_create_new: "touches (le_newID e) (svc_Create e [] name ids)"
proof -
  have "touches (le_newID e) (pl_bind (pl_ret p) (\<lambda>p. pls_Put e (AddMediaFilesByID (p\<lparr>pls_Tracks := []\<rparr>) ids)))"
    if "pls_ID p = []" for p
    by (rule touches_bind_result) (use that in \<open>auto intro!: touch_rules simp: AddMediaFilesByID_def put_id_def pl_ret_def\<close>)
  then show ?thesis unfolding svc_Create_def by (simp add: new_playlist_def touches_WithTxImmediate)
qed

lemma touches_checked:
  "(\<And>p. pls_ID p = i \<Longrightarrow> touches k (f p)) \<Longrightarrow> touches k (pl_bind (checkWritable e i) f)"
  "(\<And>p. pls_ID p = i \<Longrightarrow> touches k (f p)) \<Longrightarrow> touches k (pl_bind (checkTracksEditable e i) f)"
  by (rule touches_bind_result; auto intro: touches_check dest: checked_ID)+

lemma touches_Update: "i \<noteq> [] \<Longrightarrow> touches i (svc_Update e i name comment pub add rm)"
proof -
  assume i: "i \<noteq> []"
  have body: "touches i (WithTxImmediate
         (if rm \<noteq> []
          then pl_bind (on_tracks e i (pl_bind (trk_Delete e i (map (\<lambda>idx. Itoa (idx + 1)) rm)) (\<lambda>_.
                 if add \<noteq> [] then pl_bind (trk_Add e i add) (\<lambda>_. pl_ret ()) else pl_ret ()))) (\<lambda>_.
               updateMetadata e p name comment pub)
          else pl_bind (if add \<noteq> [] then pl_bind (on_tracks e i (trk_Add e i add)) (\<lambda>_. pl_ret ()) else pl_ret ()) (\<lambda>_.
               if name = None \<and> comment = None \<and> pub = None then pl_ret ()
               else updateMetadata e p name comment pub)))" if "pls_ID p = i" for p
    by (intro touch_rules touches_metadata that i)
  show ?thesis unfolding svc_Update_def by (cases "add \<noteq> [] \<or> rm \<noteq> []") (simp_all only: if_P if_not_P if_False touches_checked body)
qed

lemma touches_image: "i \<noteq> [] \<Longrightarrow> touches i (svc_SetImage e up i)" "i \<noteq> [] \<Longrightarrow> touches i (svc_RemoveImage e rm i)"
  unfolding svc_SetImage_def svc_RemoveImage_def by (intro touches_checked touch_rules put_id_ID; simp)+

lemma touches_entity: "i \<noteq> [] \<Longrightarrow> touches i (updatePlaylistEntity e i p cols)"
  unfolding updatePlaylistEntity_def applyContentUpdate_def applyFlagsOnly_def Let_def
  by (intro touches_checked touch_rules touches_metadata) simp_all

lemma touches_save: "touches (le_newID e) (savePlaylist e p)"
  unfolding savePlaylist_def by (rule touches_Put) (simp add: put_id_def)

lemma touches_tracks_call [touch_rules]:
  "touches i (svc_Delete e i)" "touches i (svc_AddTracks e i ids)" "touches i (svc_InsertTracks e i ids pos)"
  "touches i (svc_AddAlbums e i ids)" "touches i (svc_AddArtists e i ids)" "touches i (svc_AddDiscs e i discs)"
  "touches i (svc_RemoveTracks e i ids)" "touches i (svc_ReorderTrack e i pos newPos)"
  unfolding svc_Delete_def svc_AddTracks_def svc_InsertTracks_def svc_AddAlbums_def svc_AddArtists_def svc_AddDiscs_def
    svc_RemoveTracks_def svc_ReorderTrack_def by (intro touch_rules)+

lemma touches_run:
  assumes "call_target e call = i" "makes_playlist call \<or> i \<noteq> []"
  shows "touches i (pl_run e call)"
  using assms by (cases call)
    (auto intro!: touches_discard touches_Create touches_create_new touches_Update touches_image touches_entity touches_save touches_tracks_call
      split: if_splits)

text \<open>A call on a playlist of somebody else only consumes statements.\<close>

definition same_data :: "pl_db \<Rightarrow> pl_db \<Rightarrow> bool" where
  "same_data d d' \<longleftrightarrow> d'\<lparr>pd_faults := []\<rparr> = d\<lparr>pd_faults := []\<rparr>"

lemma same_data_refl [simp]: "same_data d d"
  by (simp add: same_data_def)

lemma same_data_pop [simp]: "same_data d (pop_fault d)" "same_data d (d\<lparr>pd_faults := f\<rparr>)"
  "same_data d (pop_fault d1) = same_data d d1"
  by (simp_all add: same_data_def pop_fault_def)

lemma same_data_trans: "same_data d d1 \<Longrightarrow> same_data d1 d2 \<Longrightarrow> same_data d d2"
  by (simp add: same_data_def)

lemma same_data_fields:
  "same_data d d' \<Longrightarrow> pd_playlists d' = pd_playlists d \<and> pd_tracks d' = pd_tracks d \<and> pd_users d' = pd_users d"
  unfolding same_data_def by (metis pl_db.select_convs pl_db.surjective pl_db.update_convs(8))

definition denied :: "pl_env \<Rightarrow> string \<Rightarrow> pl_db \<Rightarrow> bool" where
  "denied e i d \<longleftrightarrow> (\<forall>p. pl_lookup e i d = Inr p \<longrightarrow> pls_OwnerID p \<noteq> fst (request_user e))"

lemma denied_check:
  assumes "denied e i d"
  obtains x y where "checkWritable e i d = (pop_fault d, Inl x)" "checkTracksEditable e i d = (pop_fault d, Inl y)"
proof (cases "next_fault d")
  case True
  then show thesis by (intro that) (simp_all add: checkWritable_eq checkTracksEditable_eq)
next
  case False
  with assms show thesis
    by (cases "pl_lookup e i d") (auto simp: checkWritable_eq checkTracksEditable_eq denied_def intro!: that)
qed

lemma bind_error: "m d = (d', Inl x) \<Longrightarrow> pl_bind m f d = (d', Inl x)"
  by (simp add: pl_bind_def)

lemma rollback_fails: "\<exists>x. snd (m (pop_fault d)) = Inl x \<Longrightarrow> same_data d (fst (WithTx m d))"
  by (auto simp: WithTx_def split: prod.splits)

lemma rollback_immediate: "(\<And>d1. same_data d d1 \<Longrightarrow> \<exists>x. snd (m d1) = Inl x) \<Longrightarrow> same_data d (fst (WithTxImmediate m d))"
  unfolding WithTxImmediate_def by (rule rollback_fails) (simp split: prod.splits, metis snd_conv same_data_pop(1,3))

lemma lookup_same: "same_data d d1 \<Longrightarrow> pl_lookup e i d1 = pl_lookup e i d"
  using same_data_fields [of d d1] by (simp add: pl_lookup_def select_playlists_def)

lemma denied_create:
  assumes "denied e i d" "i \<noteq> []"
  shows "same_data d (fst (svc_Create e i name ids d))"
  unfolding svc_Create_def if_P [OF assms(2)]
proof (rule rollback_immediate)
  fix d1 assume "same_data d d1"
  then have d: "denied e i d1" using assms(1) by (simp add: denied_def lookup_same)
  show "\<exists>x. snd (pl_bind (pl_bind (pls_Get e i) (\<lambda>p. if pls_OwnerID p \<noteq> fst (request_user e) then pl_fail ErrNotAuthorized
            else if \<not> TracksEditable p then pl_fail ErrPlaylistNotEditable else pl_ret p))
        (\<lambda>p. pls_Put e (AddMediaFilesByID (p\<lparr>pls_Tracks := []\<rparr>) ids)) d1) = Inl x"
    by (cases "pl_lookup e i d1") (use d in \<open>auto simp: pl_bind_def pls_Get_eq pl_fail_def denied_def\<close>)
qed

lemma denied_run:
  assumes "denied e (call_target e call) d" "\<not> makes_playlist call"
  shows "same_data d (fst (pl_run e call d))"
proof -
  obtain x y where w: "checkWritable e (call_target e call) d = (pop_fault d, Inl x)"
    "checkTracksEditable e (call_target e call) d = (pop_fault d, Inl y)" using assms(1) by (rule denied_check)
  show ?thesis
  proof (cases call)
    case (Call_Create i name ids)
    then show ?thesis using assms denied_create [of e i d name ids]
      by (auto simp: discard_def pl_bind_def pl_ret_def split: prod.splits sum.splits)
  next
    case (Call_Update i name comment pub add rm)
    then show ?thesis using w by (simp add: svc_Update_def bind_error)
  qed (use w assms(2) in \<open>simp_all add: discard_def svc_Delete_def svc_AddTracks_def svc_InsertTracks_def svc_AddAlbums_def svc_AddArtists_def
      svc_AddDiscs_def svc_RemoveTracks_def svc_ReorderTrack_def svc_SetImage_def svc_RemoveImage_def updatePlaylistEntity_def bind_error\<close>)
qed

text \<open>A new playlist does not take the ID of another.\<close>

lemma put_clash:
  assumes "pls_ID p = []" "list_ex (\<lambda>r. pr_id r = le_newID e) (pd_playlists d)"
  shows "\<exists>d1 x. sql_put_playlist e p d = (d1, Inl x) \<and> same_data d d1"
  using assms by (cases "marshal_rules e p") (auto simp: sql_put_playlist_def pl_stmt_def pl_fail_def Let_def)

lemma Put_clash:
  assumes "pls_ID p = []" "list_ex (\<lambda>r. pr_id r = le_newID e) (pd_playlists d)"
  shows "\<exists>d1 x. pls_Put e p d = (d1, Inl x) \<and> same_data d d1"
proof -
  let ?q = "p\<lparr>pls_CreatedAt := (if pls_ID p = [] then le_now e else pls_CreatedAt p), pls_UpdatedAt := le_now e\<rparr>"
  obtain d1 x where "sql_put_playlist e ?q d = (d1, Inl x)" "same_data d d1" using put_clash [of ?q e d] assms by auto
  then show ?thesis by (auto simp: pls_Put_def Let_def bind_error)
qed

lemma clash_run:
  assumes "makes_playlist call" "list_ex (\<lambda>r. pr_id r = le_newID e) (pd_playlists d)"
  shows "same_data d (fst (pl_run e call d))"
  using assms(1)
proof (cases call rule: makes_playlist.cases)
  case (1 i name ids)
  have "same_data d (fst (svc_Create e [] name ids d))" unfolding svc_Create_def
  proof (rule rollback_immediate)
    fix d1 assume "same_data d d1"
    then have "list_ex (\<lambda>r. pr_id r = le_newID e) (pd_playlists d1)" using assms(2) same_data_fields by simp
    then obtain d2 x where
      "pls_Put e (AddMediaFilesByID ((new_playlist name (fst (request_user e)))\<lparr>pls_Tracks := []\<rparr>) ids) d1 = (d2, Inl x)"
      using Put_clash [of "AddMediaFilesByID ((new_playlist name (fst (request_user e)))\<lparr>pls_Tracks := []\<rparr>) ids" e d1]
      by (auto simp: AddMediaFilesByID_def new_playlist_def)
    then show "\<exists>x. snd (pl_bind (if [] \<noteq> [] then pl_bind (pls_Get e []) (\<lambda>p.
                   if pls_OwnerID p \<noteq> fst (request_user e) then pl_fail ErrNotAuthorized
                   else if \<not> TracksEditable p then pl_fail ErrPlaylistNotEditable else pl_ret p)
                 else pl_ret (new_playlist name (fst (request_user e))))
         (\<lambda>p. pls_Put e (AddMediaFilesByID (p\<lparr>pls_Tracks := []\<rparr>) ids)) d1) = Inl x"
      by (simp add: pl_bind_def pl_ret_def)
  qed
  then show ?thesis using 1 assms(1) by (auto simp: discard_def pl_bind_def pl_ret_def split: prod.splits sum.splits)
next
  case (2 p)
  obtain d1 x where "savePlaylist e p d = (d1, Inl x)" "same_data d d1"
    using Put_clash [of "p\<lparr>pls_OwnerID := fst (request_user e), pls_ID := [], pls_Path := [], pls_Sync := False, pls_UploadedImage := [],
       pls_ExternalImageURL := [], pls_EvaluatedAt := None\<rparr>" e d] assms(2) unfolding savePlaylist_def by auto
  then show ?thesis using 2 by (simp add: discard_def bind_error)
qed simp_all

section \<open>Only its owner changes a playlist\<close>

definition playlist_ids_ok :: "pl_db \<Rightarrow> bool" where
  "playlist_ids_ok d \<longleftrightarrow> distinct (map pr_id (pd_playlists d)) \<and> [] \<notin> set (map pr_id (pd_playlists d))"

lemma only_member: "only_of i d d' \<Longrightarrow> pr_id r \<noteq> i \<Longrightarrow> r \<in> set (pd_playlists d') \<longleftrightarrow> r \<in> set (pd_playlists d)"
proof -
  assume "only_of i d d'" "pr_id r \<noteq> i"
  moreover have "r \<in> set (filter (\<lambda>r. pr_id r \<noteq> i) rs) \<longleftrightarrow> r \<in> set rs" if "pr_id r \<noteq> i" for rs using that by simp
  ultimately show ?thesis unfolding only_of_def by metis
qed

lemma only_tracks:
  assumes "only_of i d d'" "pid \<noteq> i"
  shows "filter (\<lambda>t. tk_playlist t = pid) (pd_tracks d') = filter (\<lambda>t. tk_playlist t = pid) (pd_tracks d)"
proof -
  have "filter (\<lambda>t. tk_playlist t = pid) rows = filter (\<lambda>t. tk_playlist t = pid) (others i rows)" for rows
    unfolding others_def filter_filter using assms(2) by (intro filter_cong) auto
  then show ?thesis using assms(1) unfolding only_of_def by metis
qed

lemma only_ids_ok:
  assumes "only_of i d d'" "i \<noteq> []" "playlist_ids_ok d"
  shows "playlist_ids_ok d'"
proof -
  have "pr_id r \<noteq> []" if r: "r \<in> set (pd_playlists d')" for r
    using only_member [OF assms(1), of r] assms(2,3) r by (cases "pr_id r = i") (force simp: playlist_ids_ok_def)+
  then have "[] \<notin> set (map pr_id (pd_playlists d'))" by force
  then show ?thesis using assms(1,3) unfolding only_of_def playlist_ids_ok_def by blast
qed

lemma lookup_owner:
  assumes "playlist_ids_ok d" "r \<in> set (pd_playlists d)" "pl_lookup e (pr_id r) d = Inr p"
  shows "pls_OwnerID p = pr_owner_id r"
proof -
  obtain r' where "r' \<in> set (pd_playlists d)" "pr_id r' = pr_id r" "pls_OwnerID p = pr_owner_id r'" using assms(3) by (rule lookup_row)
  moreover have "inj_on pr_id (set (pd_playlists d))" using assms(1) by (simp add: playlist_ids_ok_def distinct_map)
  ultimately show ?thesis using assms(2) by (metis inj_onD)
qed

lemma not_denied: "\<not> denied e i d \<Longrightarrow> playlist_ids_ok d \<Longrightarrow> i \<noteq> []"
  unfolding denied_def playlist_ids_ok_def by (metis (no_types, lifting) image_eqI list.set_map lookup_row)

text \<open>The playlist and its tracks as they were.\<close>

definition untouched :: "playlist_row \<Rightarrow> pl_db \<Rightarrow> pl_db \<Rightarrow> bool" where
  "untouched r d d' \<longleftrightarrow>
     playlist_ids_ok d' \<and> r \<in> set (pd_playlists d') \<and>
     filter (\<lambda>t. tk_playlist t = pr_id r) (pd_tracks d') = filter (\<lambda>t. tk_playlist t = pr_id r) (pd_tracks d)"

lemma run_untouched:
  assumes ok: "playlist_ids_ok d" and r: "r \<in> set (pd_playlists d)" and owner: "pr_owner_id r \<noteq> fst (request_user e)" and new: "le_newID e \<noteq> []"
  shows "untouched r d (fst (pl_run e call d))"
proof (cases "if makes_playlist call then call_target e call = pr_id r else denied e (call_target e call) d")
  case True
  have "same_data d (fst (pl_run e call d))"
  proof (cases "makes_playlist call")
    case m: True
    then have "call_target e call = le_newID e" by (cases call rule: makes_playlist.cases) auto
    then have "list_ex (\<lambda>r. pr_id r = le_newID e) (pd_playlists d)" using True m r by (auto simp: list_ex_iff)
    with m show ?thesis by (rule clash_run)
  qed (use True denied_run in simp)
  then show ?thesis using same_data_fields ok r unfolding untouched_def playlist_ids_ok_def by simp
next
  case False
  have i: "call_target e call \<noteq> []" "call_target e call \<noteq> pr_id r"
  proof -
    have "call_target e call = le_newID e" if "makes_playlist call" using that by (cases call rule: makes_playlist.cases) auto
    then show "call_target e call \<noteq> []" using False not_denied ok new by (cases "makes_playlist call") auto
    show "call_target e call \<noteq> pr_id r"
      using False lookup_owner [OF ok r] owner by (cases "makes_playlist call") (auto simp: denied_def)
  qed
  then have "only_of (call_target e call) d (fst (pl_run e call d))" using touches_run unfolding touches_def by blast
  then show ?thesis using only_member only_tracks only_ids_ok i ok r unfolding untouched_def by metis
qed

definition pl_history :: "(pl_env \<times> pl_call) list \<Rightarrow> pl_db \<Rightarrow> pl_db" where
  "pl_history h d = foldl (\<lambda>d (e, call). fst (pl_run e call d)) d h"

lemma history_untouched:
  assumes "playlist_ids_ok d" "r \<in> set (pd_playlists d)" "\<And>e call. (e, call) \<in> set h \<Longrightarrow> fst (request_user e) \<noteq> pr_owner_id r \<and> le_newID e \<noteq> []"
  shows "untouched r d (pl_history h d)"
  using assms
proof (induction h arbitrary: d)
  case Nil
  then show ?case by (simp add: pl_history_def untouched_def)
next
  case (Cons a h)
  obtain e call where a: "a = (e, call)" by force
  let ?d = "fst (pl_run e call d)"
  have step: "untouched r d ?d"
    using Cons.prems(1,2) Cons.prems(3) [of e call] a by (intro run_untouched) auto
  then have "playlist_ids_ok ?d" "r \<in> set (pd_playlists ?d)" by (simp_all add: untouched_def)
  then have "untouched r ?d (pl_history h ?d)" by (rule Cons.IH) (meson Cons.prems(3) list.set_intros(2))
  then show ?case using step by (simp add: untouched_def pl_history_def a)
qed

text \<open>A database and its users, for the witnesses.\<close>

definition ex_user :: "string \<Rightarrow> user" where
  "ex_user u = \<lparr>us_ID = u, us_UserName = u, us_ScrobbleFilter = [], us_LibraryAccess = [1], us_IsAdmin = False, us_TokenEpoch = 0\<rparr>"

definition ex_env :: "string \<Rightarrow> string \<Rightarrow> pl_env" where
  "ex_env u new = \<lparr>le_user = Some (ex_user u), le_now = 5, le_newID = new, le_fsum = sum_list,
     le_affinity = (\<lambda>s. if s = ''1'' then Some 1 else if s = ''2'' then Some 2 else if s = ''3'' then Some 3 else None),
     le_fields = [], le_splice = (\<lambda>_ _ _. None)\<rparr>"

definition ex_row :: "string \<Rightarrow> string \<Rightarrow> playlist_row" where
  "ex_row i owner =
     \<lparr>pr_id = i, pr_name = ''mix'', pr_comment = [], pr_duration = 0, pr_size = 0, pr_song_count = 0, pr_owner_id = owner,
      pr_public = True, pr_path = [], pr_sync = False, pr_uploaded_image = [], pr_external_image_url = [],
      pr_created_at = 0, pr_updated_at = 0, pr_imported_hash = [], pr_rules = None, pr_evaluated_at = None\<rparr>"

definition ex_file :: "string \<Rightarrow> int \<Rightarrow> file_row" where
  "ex_file f l = \<lparr>fr_id = f, fr_library = l, fr_size = 10, fr_duration = 60, fr_missing = False, fr_album = ''A'',
     fr_albumArtist = ''AA'', fr_releaseDate = [], fr_disc = 1\<rparr>"

definition ex_db :: pl_db where
  "ex_db = \<lparr>pd_playlists = [ex_row ''p'' ''u'', ex_row ''q'' ''v''],
     pd_tracks = [\<lparr>tk_playlist = ''p'', tk_file = ''a'', tk_pos = 1\<rparr>, \<lparr>tk_playlist = ''q'', tk_file = ''a'', tk_pos = 1\<rparr>,
       \<lparr>tk_playlist = ''p'', tk_file = ''b'', tk_pos = 2\<rparr>],
     pd_files = [ex_file ''a'' 1, ex_file ''b'' 1, ex_file ''c'' 2], pd_art = \<lparr>ad_queue = [], ad_items = [], ad_images = [], ad_files = [], ad_entities = []\<rparr>,
     pd_libraries = [1, 2], pd_userLibrary = [(''u'', 1), (''v'', 1)], pd_users = [''u'', ''v''], pd_faults = []\<rparr>"

text \<open>
  C13: Whatever calls other users make, and whatever statements fail on the way, a playlist keeps its row
  (name, visibility, owner, rules, counters) and its tracks; no playlist is made under an ID that is
  taken, and none under the empty ID. Playlists have distinct IDs that are not empty, and new IDs are
  not empty.
\<close>

theorem playlist_changed_by_owner_only:
  assumes "playlist_ids_ok d" "r \<in> set (pd_playlists d)"
    "\<forall>(e, call) \<in> set h. fst (request_user e) \<noteq> pr_owner_id r \<and> le_newID e \<noteq> []"
  shows "untouched r d (pl_history h d)"
  using assms by (intro history_untouched) auto

theorem playlist_changed_by_owner_only_witness:
  "untouched (ex_row ''p'' ''u'') ex_db
     (pl_history [(ex_env ''v'' ''n'', Call_Delete ''p''), (ex_env ''v'' ''n'', Call_AddTracks ''p'' [''a'']),
        (ex_env ''v'' ''p'', Call_Create [] ''mine'' [''a'', ''b'']), (ex_env ''v'' ''n'', Call_RemoveTracks ''q'' [''1''])] ex_db)"
  by (rule playlist_changed_by_owner_only)
    (simp_all add: playlist_ids_ok_def ex_db_def ex_row_def ex_env_def ex_user_def request_user_def)

end
