(* ===== verification/PlaylistEdits.thy ===== *)
theory PlaylistEdits
  imports PlaylistFrame
begin

text \<open>
  What the service does to the tracks of a playlist. A playlist is the list of files that its rows
  represent at the positions 1, 2, 3 and so on; every call is an operation on that list, and the
  positions stay 1, 2, 3 when statements fail. The calls that run in a transaction change nothing when
  they fail.
\<close>

section \<open>Transactions\<close>

fun transactional :: "pl_call \<Rightarrow> bool" where
  "transactional (Call_Create _ _ _) \<longleftrightarrow> True"
| "transactional (Call_Update _ _ _ _ _ _) \<longleftrightarrow> True"
| "transactional (Call_InsertTracks _ _ _) \<longleftrightarrow> True"
| "transactional (Call_RemoveTracks _ _) \<longleftrightarrow> True"
| "transactional (Call_ReorderTrack _ _ _) \<longleftrightarrow> True"
| "transactional _ \<longleftrightarrow> False"

lemma WithTx_error: "WithTx m d = (d', Inl x) \<Longrightarrow> same_data d d'"
  by (auto simp: WithTx_def split: if_splits prod.splits sum.splits)

lemma check_then_tx:
  "pl_bind (checkTracksEditable e i) (\<lambda>p. WithTx (f p)) d = (d', Inl x) \<Longrightarrow> same_data d d'"
  "pl_bind (checkWritable e i) (\<lambda>p. WithTx (f p)) d = (d', Inl x) \<Longrightarrow> same_data d d'"
  by (auto simp: pl_bind_def checkTracksEditable_eq checkWritable_eq split: if_splits sum.splits
      dest!: WithTx_error intro: same_data_trans [of _ "pop_fault d"])

lemma check_if_then_tx:
  "pl_bind (if b then checkTracksEditable e i else checkWritable e i) (\<lambda>p. WithTx (f p)) d = (d', Inl x) \<Longrightarrow> same_data d d'"
  by (cases b) (simp_all add: check_then_tx)

lemma discard_error: "discard m d = (d', Inl x) \<longleftrightarrow> m d = (d', Inl x)"
  by (auto simp: discard_def pl_bind_def pl_ret_def split: prod.splits sum.splits)

text \<open>
  A call that creates a playlist, updates it, or inserts, removes or moves tracks, and returns an
  error, whichever statement of it failed, leaves every table of the database as it was.
\<close>

theorem playlist_edits_atomic:
  assumes "transactional call" "pl_run e call d = (d', Inl x)"
  shows "d' = d\<lparr>pd_faults := pd_faults d'\<rparr>"
proof -
  have "same_data d d'"
  proof (cases call)
    case (Call_Update i name comment pub add rm)
    with assms(2) show ?thesis
      unfolding Call_Update pl_run.simps svc_Update_def WithTxImmediate_def by - (rule check_if_then_tx)
  qed (use assms check_then_tx WithTx_error in \<open>auto simp: discard_error svc_Create_def svc_InsertTracks_def svc_RemoveTracks_def
      svc_ReorderTrack_def WithTxImmediate_def\<close>)
  then show ?thesis unfolding same_data_def by (metis pl_db.surjective pl_db.update_convs(8) pl_db.select_convs(8))
qed

definition ex_faulty :: pl_db where
  "ex_faulty = ex_db\<lparr>pd_faults := replicate 6 False @ [True]\<rparr>"

text \<open>The second of the four updates of a move fails.\<close>

theorem playlist_edits_atomic_witness:
  "fst (pl_run (ex_env ''u'' ''n'') (Call_ReorderTrack ''p'' 1 2) ex_faulty) =
     ex_faulty\<lparr>pd_faults := pd_faults (fst (pl_run (ex_env ''u'' ''n'') (Call_ReorderTrack ''p'' 1 2) ex_faulty))\<rparr>"
proof -
  have "snd (pl_run (ex_env ''u'' ''n'') (Call_ReorderTrack ''p'' 1 2) ex_faulty) = Inl ErrSQL" by code_simp
  then have "pl_run (ex_env ''u'' ''n'') (Call_ReorderTrack ''p'' 1 2) ex_faulty =
    (fst (pl_run (ex_env ''u'' ''n'') (Call_ReorderTrack ''p'' 1 2) ex_faulty), Inl ErrSQL)" by (simp only: prod_eq_iff fst_conv snd_conv)
  then show ?thesis by (rule playlist_edits_atomic [rotated]) simp
qed

text \<open>The tracks of a smart or synced playlist are not edited.\<close>

fun edits_tracks :: "pl_call \<Rightarrow> bool" where
  "edits_tracks (Call_Create i _ _) \<longleftrightarrow> i \<noteq> []"
| "edits_tracks (Call_Update _ _ _ _ add rm) \<longleftrightarrow> add \<noteq> [] \<or> rm \<noteq> []"
| "edits_tracks (Call_Delete _) \<longleftrightarrow> False"
| "edits_tracks (Call_SetImage _ _) \<longleftrightarrow> False"
| "edits_tracks (Call_RemoveImage _ _) \<longleftrightarrow> False"
| "edits_tracks (Call_Save _) \<longleftrightarrow> False"
| "edits_tracks (Call_UpdateEntity _ _ _) \<longleftrightarrow> False"
| "edits_tracks _ \<longleftrightarrow> True"

lemma readonly_tracks_refused:
  assumes "edits_tracks call" "pl_lookup e (call_target e call) d = Inr p" "pls_OwnerID p = fst (request_user e)"
    "\<not> TracksEditable p" "pd_faults d = []"
  shows "pl_run e call d = (d, Inl ErrPlaylistNotEditable)"
proof -
  have f: "\<not> next_fault d" "pop_fault d = d" using assms(5) by (simp_all add: next_fault_def pop_fault_def)
  have c: "checkTracksEditable e (call_target e call) d = (d, Inl ErrPlaylistNotEditable)"
    using assms(2-4) f by (simp add: checkTracksEditable_eq)
  show ?thesis
  proof (cases call)
    case (Call_Create i name ids)
    then show ?thesis using assms f
      by (simp add: discard_def svc_Create_def WithTxImmediate_def WithTx_def pl_bind_def pls_Get_eq pl_fail_def)
  next
    case (Call_Update i name comment pub add rm)
    then have a: "add \<noteq> [] \<or> rm \<noteq> []" using assms(1) by simp
    then show ?thesis using c unfolding Call_Update pl_run.simps svc_Update_def if_P [OF a] by (simp add: bind_error)
  qed (use c assms(1) in \<open>simp_all add: discard_def svc_AddTracks_def svc_InsertTracks_def svc_AddAlbums_def svc_AddArtists_def
      svc_AddDiscs_def svc_RemoveTracks_def svc_ReorderTrack_def bind_error\<close>)
qed

section \<open>Triples of the service\<close>

definition same_as :: "bool \<Rightarrow> pl_db \<Rightarrow> pl_db \<Rightarrow> bool" where
  "same_as c d0 d \<longleftrightarrow> fits c d \<and> same_data d0 d"

lemma same_as_pop: "same_as c d0 d \<Longrightarrow> same_as c d0 (pop_fault d)"
  by (simp add: same_as_def fits_pop)

lemma same_as_around: "same_as c d0 d \<Longrightarrow> with_tracks c d0 (\<lambda>t. t = pd_tracks d0) d"
proof -
  assume a: "same_as c d0 d"
  then have e: "d\<lparr>pd_faults := []\<rparr> = d0\<lparr>pd_faults := []\<rparr>" by (simp add: same_as_def same_data_def)
  have "pd_files d = pd_files d0" "pd_libraries d = pd_libraries d0" "pd_userLibrary d = pd_userLibrary d0"
    using arg_cong [OF e, of pd_files] arg_cong [OF e, of pd_libraries] arg_cong [OF e, of pd_userLibrary] by simp_all
  then show ?thesis using a same_data_fields [of d0 d] by (simp add: around_def same_as_def)
qed

lemma valid_checked:
  assumes "pl_lookup e i d0 = Inr p" "pls_OwnerID p = fst (request_user e)" "TracksEditable p"
  shows "pl_valid (same_as c d0) (pls_Get e i) (\<lambda>q d. q = p \<and> same_as c d0 d) (\<lambda>d. \<not> c \<and> same_as c d0 d)"
    "pl_valid (same_as c d0) (checkTracksEditable e i) (\<lambda>q d. q = p \<and> same_as c d0 d) (\<lambda>d. \<not> c \<and> same_as c d0 d)"
    "pl_valid (same_as c d0) (checkWritable e i) (\<lambda>q d. q = p \<and> same_as c d0 d) (\<lambda>d. \<not> c \<and> same_as c d0 d)"
proof -
  have l: "pl_lookup e i d = Inr p" if "same_as c d0 d" for d
    using that assms(1) lookup_same [of d0 d e i] by (simp add: same_as_def)
  have f: "\<not> c" if "same_as c d0 d" "next_fault d" for d using that next_fault_fits by (auto simp: same_as_def)
  show "pl_valid (same_as c d0) (pls_Get e i) (\<lambda>q d. q = p \<and> same_as c d0 d) (\<lambda>d. \<not> c \<and> same_as c d0 d)"
    "pl_valid (same_as c d0) (checkTracksEditable e i) (\<lambda>q d. q = p \<and> same_as c d0 d) (\<lambda>d. \<not> c \<and> same_as c d0 d)"
    "pl_valid (same_as c d0) (checkWritable e i) (\<lambda>q d. q = p \<and> same_as c d0 d) (\<lambda>d. \<not> c \<and> same_as c d0 d)"
    using l f assms(2,3) by (auto simp: pl_valid_def pls_Get_eq checkTracksEditable_eq checkWritable_eq same_as_pop split: if_splits)
qed

lemma valid_on_tracks:
  assumes "pl_lookup e i d0 = Inr p" "pl_valid (with_tracks c d0 (\<lambda>t. t = pd_tracks d0)) m Q E"
    "\<And>d. \<not> c \<Longrightarrow> with_tracks c d0 (\<lambda>t. t = pd_tracks d0) d \<Longrightarrow> E d"
  shows "pl_valid (same_as c d0) (on_tracks e i m) Q E"
proof (rule pl_validI)
  fix d assume d: "same_as c d0 d"
  then have w: "with_tracks c d0 (\<lambda>t. t = pd_tracks d0) (pop_fault d)" using same_as_around same_as_pop by blast
  have "pl_lookup e i d = Inr p" using d assms(1) lookup_same [of d0 d e i] by (simp add: same_as_def)
  moreover have "\<not> c" if "next_fault d" using d that next_fault_fits by (auto simp: same_as_def)
  ultimately show "case on_tracks e i m d of (d', Inl _) \<Rightarrow> E d' | (d', Inr a) \<Rightarrow> Q a d'"
    using assms(2,3) w unfolding on_tracks_def pls_Get_eq by (cases "next_fault d") (simp_all add: pl_valid_def)
qed

lemma valid_tx:
  assumes "pl_valid (same_as c d0) m (\<lambda>a. with_tracks c d0 (A a)) (\<lambda>d. \<not> c)"
  shows "pl_valid (same_as c d0) (WithTx m) (\<lambda>a. with_tracks c d0 (A a)) (\<lambda>d. \<not> c \<and> same_as c d0 d)"
proof (rule pl_validI)
  fix d assume d: "same_as c d0 d"
  then have p: "same_as c d0 (pop_fault d)" by (rule same_as_pop)
  have f: "\<not> c" if "next_fault d" using d that next_fault_fits by (auto simp: same_as_def)
  have undone: "same_as c d0 (d\<lparr>pd_faults := fs\<rparr>)" if "\<not> c" for fs using d that by (simp add: same_as_def same_data_def fits_def)
  show "case WithTx m d of (d', Inl _) \<Rightarrow> \<not> c \<and> same_as c d0 d' | (d', Inr a) \<Rightarrow> with_tracks c d0 (A a) d'"
  proof (cases "next_fault d")
    case True
    then show ?thesis using f p by (simp add: WithTx_def)
  next
    case n: False
    obtain d2 r where m: "m (pop_fault d) = (d2, r)" by force
    show ?thesis
    proof (cases r)
      case (Inl x)
      then show ?thesis using pl_validD(2) [OF assms p] m n undone by (simp add: WithTx_def)
    next
      case (Inr a)
      then have "with_tracks c d0 (A a) d2" using pl_validD(1) [OF assms p] m by simp
      then show ?thesis using m n Inr undone around_fault [of c d0 d2] around_pop [of c d0 d2] by (cases "next_fault d2") (simp_all add: WithTx_def)
    qed
  qed
qed

lemma valid_immediate:
  assumes "pl_valid (same_as c d0) m (\<lambda>a. with_tracks c d0 (A a)) (\<lambda>d. \<not> c)"
  shows "pl_valid (same_as c d0) (WithTxImmediate m) (\<lambda>a. with_tracks c d0 (A a)) (\<lambda>d. \<not> c \<and> same_as c d0 d)"
  unfolding WithTxImmediate_def
proof (rule valid_tx, rule pl_validI)
  fix d assume "same_as c d0 d"
  then have p: "same_as c d0 (pop_fault d)" by (rule same_as_pop)
  show "case case m (pop_fault d) of (d1, r) \<Rightarrow> (pop_fault d1, r) of (d', Inl _) \<Rightarrow> \<not> c | (d', Inr a) \<Rightarrow> with_tracks c d0 (A a) d'"
    using pl_validD [OF assms p] around_pop by (simp split: prod.splits sum.splits)
qed

section \<open>Saving a playlist\<close>

lemma not_smart: "TracksEditable p \<Longrightarrow> \<not> IsSmartPlaylist p"
  by (simp add: TracksEditable_def)

lemma valid_put_row:
  assumes "pls_ID q = i" "i \<noteq> []" "\<not> IsSmartPlaylist q" "has_playlist i d0" "pls_OwnerID q \<in> set (pd_users d0)"
  shows "pl_valid (with_tracks c d0 A) (sql_put_playlist e q) (\<lambda>a d. a = i \<and> with_tracks c d0 A d) (\<lambda>d. \<not> c \<and> with_tracks c d0 A d)"
proof (rule pl_validI)
  fix d assume d: "with_tracks c d0 A d"
  have m: "marshal_rules e q = Inr None" using assms(3) by (simp add: marshal_rules_def)
  have h: "list_ex (\<lambda>r. pr_id r = i) (pd_playlists d)" using d has_playlist_around assms(4) by blast
  have u: "pls_OwnerID q \<in> set (pd_users d)" using d assms(5) by (simp add: around_def)
  let ?ps = "map (\<lambda>r. if pr_id r = i then update_row q None r else r)"
  have s: "sql_put_playlist e q d =
    (if next_fault d then (pop_fault d, Inl ErrSQL) else ((pop_fault d)\<lparr>pd_playlists := ?ps (pd_playlists (pop_fault d))\<rparr>, Inr i))"
    using assms(1,2) h u m by (simp add: sql_put_playlist_def Let_def pl_bind_def pl_stmt_def pl_ret_def)
  have "around c d0 ((pop_fault d)\<lparr>pd_playlists := ?ps (pd_playlists (pop_fault d))\<rparr>)"
    using d around_pop [of c d0 d] by (subst around_playlists) (simp_all add: ids_map del: map_map)
  then show "case sql_put_playlist e q d of (d', Inl _) \<Rightarrow> \<not> c \<and> with_tracks c d0 A d' | (d', Inr a) \<Rightarrow> a = i \<and> with_tracks c d0 A d'"
    using d s around_fault [of c d0 d] around_pop [of c d0 d] by (cases "next_fault d") simp_all
qed

lemma valid_bind_val: "pl_valid P m (\<lambda>a d. a = v \<and> R d) E \<Longrightarrow> pl_valid R (f v) Q E \<Longrightarrow> pl_valid P (pl_bind m f) Q E"
  by (rule valid_bind) (auto simp: pl_valid_def)

lemma valid_Put:
  assumes "pls_ID q = i" "i \<noteq> []" "\<not> IsSmartPlaylist q" "has_playlist i d0" "pls_OwnerID q \<in> set (pd_users d0)" "pls_Tracks q = []"
  shows "pl_valid (with_tracks c d0 A) (pls_Put e q) (\<lambda>_. with_tracks c d0 A) (\<lambda>d. \<not> c \<and> with_tracks c d0 A d)"
proof -
  let ?q = "q\<lparr>pls_CreatedAt := (if pls_ID q = [] then le_now e else pls_CreatedAt q), pls_UpdatedAt := le_now e\<rparr>"
  have s: "\<not> IsSmartPlaylist ?q" using assms(3) by (simp add: IsSmartPlaylist_def)
  have n: "pls_ID q \<noteq> []" using assms(1,2) by simp
  show ?thesis unfolding pls_Put_def Let_def
  proof (rule valid_bind_val [OF valid_put_row [where i = i]])
    show "pl_valid (with_tracks c d0 A) (if IsSmartPlaylist q then pl_ret i
           else if pls_Tracks q \<noteq> [] then pl_bind (updatePlaylist e i (pls_Tracks q)) (\<lambda>_. pl_ret i)
           else pl_bind (if pls_ID q = [] then enqueueCoverRebuild e i else pl_ret ()) (\<lambda>_.
             pl_bind (refreshCounters e i) (\<lambda>_. pl_ret i))) (\<lambda>_. with_tracks c d0 A) (\<lambda>d. \<not> c \<and> with_tracks c d0 A d)"
      using assms(3,6) n valid_bind [OF valid_ret valid_bind [OF valid_counters valid_ret]]
      by simp
  qed (use assms s in simp_all)
qed

text \<open>What a playlist represents: the list \<open>ys\<close>, or some list when statements may fail.\<close>

definition represented :: "string \<Rightarrow> bool \<Rightarrow> string list \<Rightarrow> track_row list \<Rightarrow> bool" where
  "represented i c ys t \<longleftrightarrow> (\<exists>xs. (c \<longrightarrow> xs = ys) \<and> represents t i xs)"

lemma keeps_all: "keeps_files e c d0 ids ks \<Longrightarrow> c \<longrightarrow> ks = filter (readable e d0) ids"
  unfolding keeps_files_def by blast

lemma represented_appended: "appended e c d0 i xs ids t \<Longrightarrow> represented i c (xs @ filter (readable e d0) ids) t"
  unfolding appended_def represented_def by (metis (no_types) keeps_all)

lemma represented_inserted: "inserted e c d0 i k xs ids t \<Longrightarrow> represented i c (insert_at k (filter (readable e d0) ids) xs) t"
  unfolding inserted_def represented_def by (metis (no_types) keeps_all)

lemma valid_Put_tracks:
  assumes "pls_ID q = i" "i \<noteq> []" "\<not> IsSmartPlaylist q" "has_playlist i d0" "pls_OwnerID q \<in> set (pd_users d0)" "pls_Tracks q \<noteq> []"
    and rep: "represents rows i xs"
  shows "pl_valid (with_tracks c d0 (\<lambda>t. t = rows)) (pls_Put e q)
     (\<lambda>_. with_tracks c d0 (represented i c (filter (readable e d0) (pls_Tracks q)))) (\<lambda>d. \<not> c)" (is "pl_valid _ _ (\<lambda>_. ?B) ?E")
proof -
  let ?q = "q\<lparr>pls_CreatedAt := (if pls_ID q = [] then le_now e else pls_CreatedAt q), pls_UpdatedAt := le_now e\<rparr>"
  have s: "\<not> IsSmartPlaylist ?q" using assms(3) by (simp add: IsSmartPlaylist_def)
  let ?gone = "sql_delete i (\<lambda>_. True) rows"
  have empty: "represents ?gone i []" by (simp add: represents_mset cells_delete)
  have add: "pl_valid (with_tracks c d0 (\<lambda>t. t = ?gone)) (addTracks e i 1 (pls_Tracks q)) (\<lambda>_. ?B) ?E"
  proof (rule valid_conseq [OF valid_addTracks [OF assms(4)]])
    show "\<exists>r. sql_insert i 1 ks ?gone = Some r" for ks using append_represents [OF empty, of ks] by auto
    show "?B d" if q: "with_tracks c d0 (\<lambda>t. \<exists>ks. keeps_files e c d0 (pls_Tracks q) ks \<and> n = length ks \<and> sql_insert i 1 ks ?gone = Some t) d" for n d
    proof -
      from q obtain ks where "keeps_files e c d0 (pls_Tracks q) ks" "sql_insert i 1 ks ?gone = Some (pd_tracks d)" by blast
      then have "appended e c d0 i [] (pls_Tracks q) (pd_tracks d)" using append_any(1) [OF empty, of ks] by (auto simp: appended_def)
      then show ?thesis using q represented_appended by fastforce
    qed
  qed blast+
  have upd: "pl_valid (with_tracks c d0 (\<lambda>t. t = rows)) (pl_bind (updatePlaylist e i (pls_Tracks q)) (\<lambda>_. pl_ret i)) (\<lambda>_. ?B) ?E"
    unfolding updatePlaylist_def
  proof (rule valid_bind [where R = "\<lambda>_. ?B"], rule valid_bind)
    show "pl_valid (with_tracks c d0 (\<lambda>t. t = rows)) (delete_stmt i (\<lambda>_. True)) (\<lambda>_. with_tracks c d0 (\<lambda>t. t = ?gone)) ?E"
      by (rule valid_conseq [OF valid_delete_stmt [of c d0 rows]]) blast+
    show "pl_valid (with_tracks c d0 (\<lambda>t. t = ?gone)) (pl_bind (addTracks e i 1 (pls_Tracks q)) (\<lambda>_. pl_ret ())) (\<lambda>_. ?B) ?E"
      by (rule valid_bind [OF add valid_ret])
  qed (rule valid_ret)
  show ?thesis unfolding pls_Put_def Let_def
  proof (rule valid_bind_val)
    show "pl_valid (with_tracks c d0 (\<lambda>t. t = rows)) (sql_put_playlist e ?q) (\<lambda>a d. a = i \<and> with_tracks c d0 (\<lambda>t. t = rows) d) ?E"
      by (rule valid_conseq [OF valid_put_row [of ?q i d0 c "\<lambda>t. t = rows"]]) (use assms s in simp_all)
    show "pl_valid (with_tracks c d0 (\<lambda>t. t = rows)) (if IsSmartPlaylist q then pl_ret i
           else if pls_Tracks q \<noteq> [] then pl_bind (updatePlaylist e i (pls_Tracks q)) (\<lambda>_. pl_ret i)
           else pl_bind (if pls_ID q = [] then enqueueCoverRebuild e i else pl_ret ()) (\<lambda>_.
             pl_bind (refreshCounters e i) (\<lambda>_. pl_ret i))) (\<lambda>_. ?B) ?E"
      unfolding if_not_P [OF assms(3)] if_P [OF assms(6)] by (rule upd)
  qed
qed

section \<open>Calls as operations on lists\<close>

text \<open>What a call does to the list of files; files that the user cannot read are left out.\<close>

fun list_edit :: "pl_env \<Rightarrow> pl_db \<Rightarrow> pl_call \<Rightarrow> string list \<Rightarrow> string list" where
  "list_edit e d (Call_Create i _ ids) xs = (if ids = [] then xs else filter (readable e d) ids)"
| "list_edit e d (Call_Update i _ _ _ add rm) xs = nths xs {j. int j \<notin> set rm} @ filter (readable e d) add"
| "list_edit e d (Call_AddTracks i ids) xs = xs @ filter (readable e d) ids"
| "list_edit e d (Call_InsertTracks i ids pos) xs = insert_at (min (nat (max pos 1 - 1)) (length xs)) (filter (readable e d) ids) xs"
| "list_edit e d (Call_AddAlbums i ids) xs = xs @ filter (readable e d) (map fr_id (filter (\<lambda>f. fr_album f \<in> set ids) (pd_files d)))"
| "list_edit e d (Call_AddArtists i ids) xs = xs @ filter (readable e d) (map fr_id (filter (\<lambda>f. fr_albumArtist f \<in> set ids) (pd_files d)))"
| "list_edit e d (Call_AddDiscs i discs) xs =
     xs @ filter (readable e d) (map fr_id (filter (\<lambda>f. (fr_album f, fr_releaseDate f, fr_disc f) \<in> set discs) (pd_files d)))"
| "list_edit e d (Call_RemoveTracks i ids) xs = nths xs {j. \<not> named_pos e ids (1 + int j)}"
| "list_edit e d (Call_ReorderTrack i pos newPos) xs =
     move_item (nat (pos - 1)) (nat (min (max newPos 1) (int (length xs)) - 1)) xs"
| "list_edit e d _ xs = xs"

text \<open>The arguments that a call is made with: positions inside the playlist, and an index that SQLite reads as itself.\<close>

fun in_range :: "pl_env \<Rightarrow> pl_call \<Rightarrow> string list \<Rightarrow> bool" where
  "in_range e (Call_ReorderTrack i pos _) xs \<longleftrightarrow> 1 \<le> pos \<and> pos \<le> int (length xs)"
| "in_range e (Call_Update i _ _ _ _ rm) xs \<longleftrightarrow> list_all (\<lambda>idx. le_affinity e (Itoa (idx + 1)) = Some (idx + 1)) rm"
| "in_range e _ xs \<longleftrightarrow> True"

text \<open>A triple for a call on the playlist \<open>i\<close>, from the database \<open>d0\<close> on.\<close>

abbreviation simulates :: "bool \<Rightarrow> pl_db \<Rightarrow> string \<Rightarrow> 'a pl_action \<Rightarrow> string list \<Rightarrow> bool" where
  "simulates c d0 i m ys \<equiv>
     pl_valid (same_as c d0) m (\<lambda>_. with_tracks c d0 (represented i c ys)) (\<lambda>d. \<not> c \<and> with_tracks c d0 (represented i c ys) d)"

lemma represented_start: "represents t i xs \<Longrightarrow> \<not> c \<Longrightarrow> represented i c ys t"
  by (auto simp: represented_def)

lemma simulates_discard: "simulates c d0 i m ys \<Longrightarrow> simulates c d0 i (discard m) ys"
  unfolding discard_def by (rule valid_bind) (auto intro: valid_ret)

text \<open>A playlist that the user owns and may edit.\<close>

definition editable :: "pl_env \<Rightarrow> string \<Rightarrow> pl_db \<Rightarrow> playlist \<Rightarrow> bool" where
  "editable e i d p \<longleftrightarrow> i \<noteq> [] \<and> pl_lookup e i d = Inr p \<and> pls_OwnerID p = fst (request_user e) \<and> TracksEditable p"

lemma editable_row:
  assumes "editable e i d p"
  shows "has_playlist i d" "pls_ID p = i" "i \<noteq> []" "\<not> IsSmartPlaylist p" "pls_OwnerID p \<in> set (pd_users d)" "pls_Tracks p = []"
proof -
  from assms have "pl_lookup e i d = Inr p" by (simp add: editable_def)
  from this obtain r where "r \<in> set (pd_playlists d)" "pr_id r = i" "pls_ID p = i" "pls_OwnerID p = pr_owner_id r" "pls_Tracks p = []"
    "pr_owner_id r \<in> set (pd_users d)" by (rule lookup_row)
  then show "has_playlist i d" "pls_ID p = i" "pls_OwnerID p \<in> set (pd_users d)" "pls_Tracks p = []" by (auto simp: has_playlist_def)
  show "i \<noteq> []" "\<not> IsSmartPlaylist p" using assms not_smart by (auto simp: editable_def)
qed

lemma simulates_checked:
  assumes ed: "editable e i d0 p" and rep: "represents (pd_tracks d0) i xs"
    and m: "pl_valid (same_as c d0) (f p) (\<lambda>_. with_tracks c d0 (represented i c ys)) (\<lambda>d. \<not> c \<and> with_tracks c d0 (represented i c ys) d)"
  shows "simulates c d0 i (pl_bind (checkTracksEditable e i) f) ys" "simulates c d0 i (pl_bind (checkWritable e i) f) ys"
proof -
  let ?E = "\<lambda>d. \<not> c \<and> with_tracks c d0 (represented i c ys) d"
  have E: "?E d" if "\<not> c \<and> same_as c d0 d" for d using that same_as_around [of c d0 d] represented_start [OF rep] by auto
  have "pl_valid (same_as c d0) (checkTracksEditable e i) (\<lambda>q d. q = p \<and> same_as c d0 d) ?E"
    "pl_valid (same_as c d0) (checkWritable e i) (\<lambda>q d. q = p \<and> same_as c d0 d) ?E"
    using ed E by (auto simp: editable_def intro: valid_conseq [OF valid_checked(2)] valid_conseq [OF valid_checked(3)])
  then show "simulates c d0 i (pl_bind (checkTracksEditable e i) f) ys" "simulates c d0 i (pl_bind (checkWritable e i) f) ys"
    using m by (auto intro: valid_bind_val)
qed

text \<open>Inside a transaction, an error says nothing about the tracks.\<close>

lemma simulates_tx:
  assumes rep: "represents (pd_tracks d0) i xs"
    and m: "pl_valid (same_as c d0) m (\<lambda>_. with_tracks c d0 (represented i c ys)) (\<lambda>d. \<not> c)"
  shows "simulates c d0 i (WithTx m) ys" "simulates c d0 i (WithTxImmediate m) ys"
  using valid_tx [OF m] valid_immediate [OF m] represented_start [OF rep] same_as_around
  by (auto elim!: valid_conseq)

lemma simulates_on_tracks:
  assumes ed: "editable e i d0 p" and m: "pl_valid (with_tracks c d0 (\<lambda>t. t = pd_tracks d0)) m Q (\<lambda>d. \<not> c)"
  shows "pl_valid (same_as c d0) (on_tracks e i m) Q (\<lambda>d. \<not> c)"
  using ed m by (intro valid_on_tracks [where p = p]) (auto simp: editable_def)

section \<open>Every call\<close>

lemma small_max: "length xs < 999999 \<Longrightarrow> int (length xs) < maxInt32"
  by (simp add: maxInt32_def)

text \<open>Adding at the end, outside a transaction.\<close>

lemma add_represented:
  assumes "editable e i d0 p" "represents t0 i xs" "length xs < 999999"
  shows "pl_valid (with_tracks c d0 (\<lambda>t. t = t0)) (trk_Add e i ids)
     (\<lambda>_. with_tracks c d0 (represented i c (xs @ filter (readable e d0) ids)))
     (\<lambda>d. \<not> c \<and> with_tracks c d0 (represented i c (xs @ filter (readable e d0) ids)) d)"
  by (rule valid_conseq [OF valid_Add [OF editable_row(1) [OF assms(1)] assms(2) small_max [OF assms(3)], of c e ids]])
    (use represented_appended in blast)+

lemma add_service:
  assumes ed: "editable e i d0 p" and rep: "represents (pd_tracks d0) i xs"
    and m: "pl_valid (with_tracks c d0 (\<lambda>t. t = pd_tracks d0)) m (\<lambda>_. with_tracks c d0 (represented i c ys))
        (\<lambda>d. \<not> c \<and> with_tracks c d0 (represented i c ys) d)"
  shows "simulates c d0 i (discard (pl_bind (checkTracksEditable e i) (\<lambda>_. on_tracks e i m))) ys"
proof (rule simulates_discard, rule simulates_checked(1) [OF ed rep])
  show "simulates c d0 i (on_tracks e i m) ys"
  proof (rule valid_on_tracks [OF _ m])
    show "pl_lookup e i d0 = Inr p" using ed by (simp add: editable_def)
  qed (use represented_start [OF rep] in auto)
qed

lemma add_media_represented:
  assumes "editable e i d0 p" "represents (pd_tracks d0) i xs" "length xs < 999999"
  shows "pl_valid (with_tracks c d0 (\<lambda>t. t = pd_tracks d0)) (addMediaFileIds e i P)
     (\<lambda>_. with_tracks c d0 (represented i c (xs @ filter (readable e d0) (map fr_id (filter P (pd_files d0))))))
     (\<lambda>d. \<not> c \<and> with_tracks c d0 (represented i c (xs @ filter (readable e d0) (map fr_id (filter P (pd_files d0))))) d)"
    (is "pl_valid _ _ _ ?E")
  unfolding addMediaFileIds_def
proof (rule valid_bind_val)
  show "pl_valid (with_tracks c d0 (\<lambda>t. t = pd_tracks d0)) (pl_query (\<lambda>d. map fr_id (filter P (pd_files d))))
     (\<lambda>a d. a = map fr_id (filter P (pd_files d0)) \<and> with_tracks c d0 (\<lambda>t. t = pd_tracks d0) d) ?E"
  proof (rule valid_conseq [OF valid_query [of c d0 "\<lambda>t. t = pd_tracks d0"]])
    fix a d
    assume "with_tracks c d0 (\<lambda>t. t = pd_tracks d0) d \<and>
      (\<exists>d1. with_tracks c d0 (\<lambda>t. t = pd_tracks d0) d1 \<and> pd_tracks d1 = pd_tracks d \<and> a = map fr_id (filter P (pd_files d1)))"
    then show "a = map fr_id (filter P (pd_files d0)) \<and> with_tracks c d0 (\<lambda>t. t = pd_tracks d0) d" by (auto simp: around_def)
  next
    fix d assume "\<not> c \<and> with_tracks c d0 (\<lambda>t. t = pd_tracks d0) d"
    then show "?E d" using represented_start [OF assms(2)] by auto
  qed
qed (rule add_represented [OF assms])

lemma simulates_Insert:
  assumes "editable e i d0 p" "represents (pd_tracks d0) i xs" "length xs < 999999"
  shows "simulates c d0 i (pl_run e (Call_InsertTracks i ids pos)) (list_edit e d0 (Call_InsertTracks i ids pos) xs)"
  unfolding pl_run.simps svc_InsertTracks_def list_edit.simps
  by (rule simulates_discard, rule simulates_checked(1) [OF assms(1,2)], rule simulates_tx(2) [OF assms(2)],
      rule simulates_on_tracks [OF assms(1)],
      rule valid_conseq [OF valid_Insert [OF editable_row(1) [OF assms(1)] assms(2) small_max [OF assms(3)], of c e ids pos]])
    (use represented_inserted in blast)+

lemma represented_exact: "represents t i ys \<Longrightarrow> represented i c ys t"
  by (auto simp: represented_def)

lemma simulates_Remove:
  assumes "editable e i d0 p" "represents (pd_tracks d0) i xs"
  shows "simulates c d0 i (pl_run e (Call_RemoveTracks i ids)) (list_edit e d0 (Call_RemoveTracks i ids) xs)"
  unfolding pl_run.simps svc_RemoveTracks_def list_edit.simps
  by (rule simulates_checked(1) [OF assms(1,2)], rule simulates_tx(1) [OF assms(2)], rule simulates_on_tracks [OF assms(1)],
      rule valid_conseq [OF valid_Delete [OF assms(2), of c d0 e ids]]) (use represented_exact in blast)+

lemma simulates_Reorder:
  assumes "editable e i d0 p" "represents (pd_tracks d0) i xs" "length xs < 999999" "1 \<le> pos" "pos \<le> int (length xs)"
  shows "simulates c d0 i (pl_run e (Call_ReorderTrack i pos newPos)) (list_edit e d0 (Call_ReorderTrack i pos newPos) xs)"
  unfolding pl_run.simps svc_ReorderTrack_def list_edit.simps
  by (rule simulates_checked(1) [OF assms(1,2)], rule simulates_tx(2) [OF assms(2)], rule simulates_on_tracks [OF assms(1)],
      rule valid_conseq [OF valid_Reorder [OF assms(2-5), of c d0 newPos]]) (use represented_exact in blast)+

text \<open>\<open>Create\<close> on a playlist that exists.\<close>

lemma simulates_Create:
  assumes "editable e i d0 p" "represents (pd_tracks d0) i xs"
  shows "simulates c d0 i (pl_run e (Call_Create i name ids)) (list_edit e d0 (Call_Create i name ids) xs)"
proof -
  note r = editable_row [OF assms(1)]
  let ?q = "AddMediaFilesByID (p\<lparr>pls_Tracks := []\<rparr>) ids"
  have q: "pls_ID ?q = i" "\<not> IsSmartPlaylist ?q" "pls_OwnerID ?q \<in> set (pd_users d0)" "pls_Tracks ?q = ids"
    using r by (simp_all add: AddMediaFilesByID_def IsSmartPlaylist_def)
  have put: "pl_valid (same_as c d0) (pls_Put e ?q)
      (\<lambda>_. with_tracks c d0 (represented i c (list_edit e d0 (Call_Create i name ids) xs))) (\<lambda>d. \<not> c)"
  proof (cases "ids = []")
    case True
    then show ?thesis
      by (intro valid_conseq [OF valid_Put [OF q(1) r(3) q(2) r(1) q(3), of c "\<lambda>t. t = pd_tracks d0" e]])
        (use q same_as_around represented_exact [OF assms(2)] in auto)
  next
    case False
    then show ?thesis
      by (intro valid_conseq [OF valid_Put_tracks [OF q(1) r(3) q(2) r(1) q(3) _ assms(2), of c e]])
        (use q same_as_around in auto)
  qed
  have get: "pl_valid (same_as c d0) (if i \<noteq> []
                 then pl_bind (pls_Get e i) (\<lambda>p.
                   if pls_OwnerID p \<noteq> fst (request_user e) then pl_fail ErrNotAuthorized
                   else if \<not> TracksEditable p then pl_fail ErrPlaylistNotEditable else pl_ret p)
                 else pl_ret (new_playlist name (fst (request_user e)))) (\<lambda>a d. a = p \<and> same_as c d0 d) (\<lambda>d. \<not> c)"
    unfolding if_P [OF r(3)]
  proof (rule valid_bind_val)
    show "pl_valid (same_as c d0) (pls_Get e i) (\<lambda>q d. q = p \<and> same_as c d0 d) (\<lambda>d. \<not> c)"
      using assms(1) by (intro valid_conseq [OF valid_checked(1)]) (auto simp: editable_def)
  qed (use assms(1) in \<open>auto simp: editable_def intro!: valid_ret\<close>)
  show ?thesis unfolding pl_run.simps svc_Create_def
    by (rule simulates_discard, rule simulates_tx(2) [OF assms(2)], rule valid_bind_val, rule get, rule put)
qed

text \<open>\<open>Update\<close>: tracks are removed, then added, then the metadata is saved.\<close>

lemma metadata_represented:
  assumes "editable e i d0 p"
  shows "pl_valid (with_tracks c d0 A) (updateMetadata e p name comment pub) (\<lambda>_. with_tracks c d0 A) (\<lambda>d. \<not> c)"
  unfolding updateMetadata_def
proof (rule valid_bind)
  note r = editable_row [OF assms]
  let ?q = "p\<lparr>pls_Name := (case name of Some n \<Rightarrow> n | None \<Rightarrow> pls_Name p), pls_Comment := (case comment of Some c \<Rightarrow> c | None \<Rightarrow> pls_Comment p),
      pls_Public := (case pub of Some b \<Rightarrow> b | None \<Rightarrow> pls_Public p)\<rparr>"
  have q: "pls_ID ?q = i" "\<not> IsSmartPlaylist ?q" "pls_OwnerID ?q \<in> set (pd_users d0)" "pls_Tracks ?q = []"
    using r by (simp_all add: IsSmartPlaylist_def)
  show "pl_valid (with_tracks c d0 A) (pls_Put e ?q) (\<lambda>_. with_tracks c d0 A) (\<lambda>d. \<not> c)"
    by (rule valid_conseq [OF valid_Put [OF q(1) r(3) q(2) r(1) q(3,4), of c A e]]) blast+
qed (rule valid_ret)

lemma removed_indices:
  assumes "list_all (\<lambda>idx. le_affinity e (Itoa (idx + 1)) = Some (idx + 1)) rm"
  shows "named_pos e (map (\<lambda>idx. Itoa (idx + 1)) rm) (1 + int j) \<longleftrightarrow> int j \<in> set rm"
  using assms by (induction rm) (auto simp: named_pos_def)

lemma length_nths_le: "length (nths xs S) \<le> length xs"
  by (simp add: length_nths card_mono [of "{i. i < length xs}", simplified] Collect_conj_eq)

lemma valid_exact: "pl_valid (with_tracks c d0 (\<lambda>t. represents t i ys)) m Q E"
  if "\<And>t. represents t i ys \<Longrightarrow> pl_valid (with_tracks c d0 (\<lambda>x. x = t)) m Q E"
  using that by (rule valid_each)

lemma simulates_Update:
  assumes ed: "editable e i d0 p" and rep: "represents (pd_tracks d0) i xs" and small: "length xs < 999999"
  shows "simulates c d0 i (pl_run e (Call_Update i name comment pub add rm))
     (nths xs {j. \<not> named_pos e (map (\<lambda>idx. Itoa (idx + 1)) rm) (1 + int j)} @ filter (readable e d0) add)"
proof -
  let ?pos = "map (\<lambda>idx. Itoa (idx + 1)) rm"
  let ?left = "nths xs {j. \<not> named_pos e ?pos (1 + int j)}"
  let ?ys = "?left @ filter (readable e d0) add"
  let ?B = "with_tracks c d0 (represented i c ?ys)" and ?E = "\<lambda>d::pl_db. \<not> c"
  have add: "pl_valid (with_tracks c d0 (\<lambda>t. represents t i ?left))
      (if add \<noteq> [] then pl_bind (trk_Add e i add) (\<lambda>_. pl_ret ()) else pl_ret ()) (\<lambda>_. ?B) ?E"
  proof (rule valid_exact)
    fix t assume t: "represents t i ?left"
    have "length ?left < 999999" using length_nths_le [of xs] small by (rule le_less_trans)
    from add_represented [OF ed t this, of c add]
    have "pl_valid (with_tracks c d0 (\<lambda>x. x = t)) (trk_Add e i add) (\<lambda>_. ?B) ?E" by (rule valid_conseq) blast+
    then show "pl_valid (with_tracks c d0 (\<lambda>x. x = t)) (if add \<noteq> [] then pl_bind (trk_Add e i add) (\<lambda>_. pl_ret ()) else pl_ret ()) (\<lambda>_. ?B) ?E"
      using represented_exact [OF t, of c] by (cases "add = []") (auto intro!: valid_ret valid_bind)
  qed
  have meta: "pl_valid ?B (updateMetadata e p name comment pub) (\<lambda>_. ?B) ?E" by (rule metadata_represented [OF ed])
  have body: "pl_valid (same_as c d0)
     (if rm \<noteq> []
      then pl_bind (on_tracks e i (pl_bind (trk_Delete e i ?pos) (\<lambda>_.
             if add \<noteq> [] then pl_bind (trk_Add e i add) (\<lambda>_. pl_ret ()) else pl_ret ()))) (\<lambda>_. updateMetadata e p name comment pub)
      else pl_bind (if add \<noteq> [] then pl_bind (on_tracks e i (trk_Add e i add)) (\<lambda>_. pl_ret ()) else pl_ret ()) (\<lambda>_.
           if name = None \<and> comment = None \<and> pub = None then pl_ret () else updateMetadata e p name comment pub)) (\<lambda>_. ?B) ?E"
  proof (cases "rm = []")
    case False
    have del: "pl_valid (with_tracks c d0 (\<lambda>t. t = pd_tracks d0)) (trk_Delete e i ?pos) (\<lambda>_. with_tracks c d0 (\<lambda>t. represents t i ?left)) ?E"
      by (rule valid_Delete [OF rep])
    have "pl_valid (same_as c d0) (on_tracks e i (pl_bind (trk_Delete e i ?pos) (\<lambda>_.
             if add \<noteq> [] then pl_bind (trk_Add e i add) (\<lambda>_. pl_ret ()) else pl_ret ()))) (\<lambda>_. ?B) ?E"
      by (rule simulates_on_tracks [OF ed], rule valid_bind, rule del, rule add)
    from valid_bind [OF this meta] False show ?thesis by simp
  next
    case True
    then have l: "?left = xs" by (simp add: nths_all named_pos_def)
    have "pl_valid (same_as c d0) (if add \<noteq> [] then pl_bind (on_tracks e i (trk_Add e i add)) (\<lambda>_. pl_ret ()) else pl_ret ()) (\<lambda>_. ?B) ?E"
    proof (cases "add = []")
      case True
      then show ?thesis using l same_as_around represented_exact [OF rep, of c] by (auto intro!: valid_ret)
    next
      case False
      have "pl_valid (with_tracks c d0 (\<lambda>t. t = pd_tracks d0)) (trk_Add e i add) (\<lambda>_. ?B) ?E"
        unfolding l by (rule valid_conseq [OF add_represented [OF ed rep small, of c add]]) blast+
      from simulates_on_tracks [OF ed this] False show ?thesis by (auto intro!: valid_bind valid_ret)
    qed
    moreover have "pl_valid ?B (if name = None \<and> comment = None \<and> pub = None then pl_ret () else updateMetadata e p name comment pub) (\<lambda>_. ?B) ?E"
      using meta by (auto intro: valid_ret)
    moreover have n: "\<not> rm \<noteq> []" using True by simp
    ultimately show ?thesis unfolding if_not_P [OF n] by - (rule valid_bind)
  qed
  from simulates_tx(2) [OF rep body]
  show ?thesis unfolding pl_run.simps svc_Update_def
    using simulates_checked [OF ed rep] by (cases "add \<noteq> [] \<or> rm \<noteq> []") (simp_all only: if_P if_not_P if_False)
qed

lemma simulates_run:
  assumes call: "edits_tracks call" "call_target e call = i" and ed: "editable e i d0 p" and rep: "represents (pd_tracks d0) i xs"
    and small: "length xs < 999999" and rng: "in_range e call xs"
  shows "simulates c d0 i (pl_run e call) (list_edit e d0 call xs)"
  using call(1)
proof (cases call)
  case (Call_Create j name ids)
  then have "j = i" using call by auto
  then show ?thesis using simulates_Create [OF ed rep] Call_Create by simp
next
  case (Call_Update j name comment pub add rm)
  then have j: "j = i" using call by auto
  have "nths xs {j. \<not> named_pos e (map (\<lambda>idx. Itoa (idx + 1)) rm) (1 + int j)} = nths xs {j. int j \<notin> set rm}"
    using removed_indices rng Call_Update by simp
  then show ?thesis using simulates_Update [OF ed rep small, of c name comment pub add rm] Call_Update j by simp
next
  case (Call_AddTracks j ids)
  then have "j = i" using call by auto
  then show ?thesis using add_service [OF ed rep add_represented [OF ed rep small, of c ids]] Call_AddTracks by (simp add: svc_AddTracks_def)
next
  case (Call_InsertTracks j ids pos)
  then have "j = i" using call by auto
  then show ?thesis using simulates_Insert [OF ed rep small, of c ids pos] Call_InsertTracks by simp
next
  case (Call_AddAlbums j ids)
  then have "j = i" using call by auto
  then show ?thesis using add_service [OF ed rep add_media_represented [OF ed rep small, of c "\<lambda>f. fr_album f \<in> set ids"]] Call_AddAlbums
    by (simp add: svc_AddAlbums_def trk_AddAlbums_def)
next
  case (Call_AddArtists j ids)
  then have "j = i" using call by auto
  then show ?thesis using add_service [OF ed rep add_media_represented [OF ed rep small, of c "\<lambda>f. fr_albumArtist f \<in> set ids"]] Call_AddArtists
    by (simp add: svc_AddArtists_def trk_AddArtists_def)
next
  case (Call_AddDiscs j discs)
  then have j: "j = i" using call by auto
  have "pl_valid (with_tracks c d0 (\<lambda>t. t = pd_tracks d0)) (trk_AddDiscs e i discs)
      (\<lambda>_. with_tracks c d0 (represented i c (list_edit e d0 call xs))) (\<lambda>d. \<not> c \<and> with_tracks c d0 (represented i c (list_edit e d0 call xs)) d)"
    using add_media_represented [OF ed rep small, of c "\<lambda>f. (fr_album f, fr_releaseDate f, fr_disc f) \<in> set discs"]
      represented_exact [OF rep, of c] Call_AddDiscs by (cases "discs = []") (auto simp: trk_AddDiscs_def intro!: valid_ret)
  from add_service [OF ed rep this] Call_AddDiscs j show ?thesis by (simp add: svc_AddDiscs_def)
next
  case (Call_RemoveTracks j ids)
  then have "j = i" using call by auto
  then show ?thesis using simulates_Remove [OF ed rep, of c ids] Call_RemoveTracks by simp
next
  case (Call_ReorderTrack j pos newPos)
  then have "j = i" using call by auto
  then show ?thesis using simulates_Reorder [OF ed rep small, of pos c newPos] rng Call_ReorderTrack by simp
qed simp_all

text \<open>
  C12: On a playlist of the user whose tracks may be edited and stand for the list \<open>xs\<close>, a call that edits
  tracks succeeds when no statement fails, and afterwards the tracks stand for what the operation on lists
  gives: adding appends the files that the user can read, inserting puts them before the position (or at the
  end), removing keeps the order of the rest, moving takes one track out and puts it back at the
  position, nearest in the list, that was asked for. The tracks of other playlists are the same. The
  playlist has fewer than 999999 tracks, a track that is moved is in the playlist, and SQLite compares a number
  with the text that \<open>strconv.Itoa\<close> makes of it as equal.
\<close>

theorem playlist_edits_refine_lists:
  assumes "edits_tracks call" "editable e (call_target e call) d p" "represents (pd_tracks d) (call_target e call) xs"
    "length xs < 999999" "in_range e call xs" "pd_faults d = []"
  shows "\<exists>d'. pl_run e call d = (d', Inr ()) \<and> represents (pd_tracks d') (call_target e call) (list_edit e d call xs) \<and>
     others (call_target e call) (pd_tracks d') = others (call_target e call) (pd_tracks d)"
proof -
  have "same_as True d d" using assms(6) by (simp add: same_as_def fits_def)
  note sim = pl_validD [OF simulates_run [OF assms(1) refl assms(2-5), of True] this]
  obtain d' res where run: "pl_run e call d = (d', res)" by force
  have "\<exists>a. res = Inr a"
  proof (cases res)
    case (Inl x)
    then show ?thesis using sim(2) [of d' x] run by simp
  qed simp
  then obtain a where "res = Inr a" ..
  moreover have "touches (call_target e call) (pl_run e call)"
    using assms(2) unfolding editable_def by (intro touches_run) blast+
  then have "only_of (call_target e call) d d'" using run unfolding touches_def by (metis fst_conv)
  ultimately show ?thesis using run sim(1) [of d' a] by (auto simp: represented_def only_of_def)
qed

definition ex_playlist :: playlist where
  "ex_playlist = (case of_playlist_row (ex_env ''u'' ''n'') (ex_row ''p'' ''u'') of Inr p \<Rightarrow> p)"

lemma ex_editable: "editable (ex_env ''u'' ''n'') ''p'' ex_db ex_playlist"
  by (simp add: editable_def pl_lookup_def select_playlists_def ex_db_def ex_row_def ex_env_def ex_user_def ex_playlist_def userFilter_def
      logged_user_def of_playlist_row_def request_user_def TracksEditable_def IsSmartPlaylist_def)

lemma ex_represents: "represents (pd_tracks ex_db) ''p'' [''a'', ''b'']"
  by (simp add: represents_mset ex_db_def cells_def)

theorem playlist_edits_refine_lists_witness:
  "\<exists>d'. pl_run (ex_env ''u'' ''n'') (Call_InsertTracks ''p'' [''b'', ''c'', ''b''] 2) ex_db = (d', Inr ()) \<and>
     represents (pd_tracks d') ''p'' (list_edit (ex_env ''u'' ''n'') ex_db (Call_InsertTracks ''p'' [''b'', ''c'', ''b''] 2) [''a'', ''b'']) \<and>
     others ''p'' (pd_tracks d') = others ''p'' (pd_tracks ex_db)"
  using playlist_edits_refine_lists [of "Call_InsertTracks ''p'' [''b'', ''c'', ''b''] 2" "ex_env ''u'' ''n''" ex_db ex_playlist "[''a'', ''b'']"]
    ex_editable ex_represents by (simp add: ex_db_def)

section \<open>Positions\<close>

definition listed :: "string \<Rightarrow> pl_db \<Rightarrow> bool" where
  "listed i d \<longleftrightarrow> (\<exists>xs. represents (pd_tracks d) i xs)"

definition numbered :: "pl_db \<Rightarrow> bool" where
  "numbered d \<longleftrightarrow> (\<forall>i. listed i d)"

lemma listed_tracks: "filter (\<lambda>t. tk_playlist t = i) (pd_tracks d') = filter (\<lambda>t. tk_playlist t = i) (pd_tracks d) \<Longrightarrow> listed i d' = listed i d"
  unfolding listed_def represents_mset cells_def by simp

lemma listed_same: "same_data d d' \<Longrightarrow> listed i d' = listed i d"
  using same_data_fields [of d d'] by (simp add: listed_def)

text \<open>\<open>Put\<close> replaces the tracks of its playlist or leaves them.\<close>

lemma list_ex_updated: "list_ex (\<lambda>r. pr_id r = i) (map (\<lambda>r. if pr_id r = i then update_row q x r else r) rs) = list_ex (\<lambda>r. pr_id r = i) rs"
  by (induction rs) auto

lemma has_playlist_ex: "has_playlist i d \<longleftrightarrow> list_ex (\<lambda>r. pr_id r = i) (pd_playlists d)"
  by (auto simp: has_playlist_def list_ex_iff)

lemma put_result:
  assumes "sql_put_playlist e q d = (d1, res)"
  shows "pd_tracks d1 = pd_tracks d" "res = Inr i \<Longrightarrow> has_playlist i d1 \<and> i = put_id e q"
  using assms unfolding sql_put_playlist_def Let_def pl_bind_def pl_stmt_def pl_ret_def pl_fail_def put_id_def has_playlist_ex
  by (auto split: if_splits sum.splits prod.splits simp: list_ex_updated)

lemma around_self: "around False d d"
  by (simp add: around_def fits_def)

lemma listed_represented: "represented i False ys (pd_tracks d) \<Longrightarrow> listed i d"
  by (auto simp: represented_def listed_def)

text \<open>\<open>updatePlaylist\<close>, when statements may fail.\<close>

lemma updatePlaylist_listed:
  assumes "has_playlist i d" "listed i d"
  shows "listed i (fst (updatePlaylist e i ids d))"
proof -
  let ?gone = "sql_delete i (\<lambda>_. True) (pd_tracks d)"
  let ?L = "with_tracks False d (\<lambda>t. \<exists>xs. represents t i xs)"
  have empty: "represents ?gone i []" by (simp add: represents_mset cells_delete)
  have ins: "\<exists>r. sql_insert i 1 ks ?gone = Some r" for ks using append_represents [OF empty, of ks] by auto
  have add: "pl_valid (with_tracks False d (\<lambda>t. t = ?gone)) (addTracks e i 1 ids) (\<lambda>_. ?L) ?L"
    by (rule valid_conseq [OF valid_addTracks [OF assms(1) ins]]) (use append_any(1) [OF empty] in \<open>auto simp: partly_def\<close>)
  have "pl_valid (with_tracks False d (\<lambda>t. t = pd_tracks d)) (updatePlaylist e i ids) (\<lambda>_. ?L) ?L"
    unfolding updatePlaylist_def
  proof (rule valid_bind)
    show "pl_valid (with_tracks False d (\<lambda>t. t = pd_tracks d)) (delete_stmt i (\<lambda>_. True)) (\<lambda>_. with_tracks False d (\<lambda>t. t = ?gone)) ?L"
      by (rule valid_conseq [OF valid_delete_stmt [of False d "pd_tracks d"]]) (use assms(2) in \<open>auto simp: listed_def\<close>)
    show "pl_valid (with_tracks False d (\<lambda>t. t = ?gone)) (pl_bind (addTracks e i 1 ids) (\<lambda>_. pl_ret ())) (\<lambda>_. ?L) ?L"
      by (rule valid_bind [OF add valid_ret])
  qed
  from pl_validD [OF this, of d] around_self [of d] show ?thesis
    by (cases "updatePlaylist e i ids d", cases "snd (updatePlaylist e i ids d)") (auto simp: listed_def)
qed

text \<open>An action keeps the tracks of a playlist a list.\<close>

definition keeps_listed :: "string \<Rightarrow> 'a pl_action \<Rightarrow> bool" where
  "keeps_listed i m \<longleftrightarrow> (\<forall>d. listed i d \<longrightarrow> listed i (fst (m d)))"

lemma keeps_listed_bind: "keeps_listed i m \<Longrightarrow> (\<And>a. keeps_listed i (f a)) \<Longrightarrow> keeps_listed i (pl_bind m f)"
  unfolding keeps_listed_def pl_bind_def by (force split: prod.splits sum.splits)

lemma keeps_listed_tracks: "(\<And>d. pd_tracks (fst (m d)) = pd_tracks d) \<Longrightarrow> keeps_listed i m"
  by (simp add: keeps_listed_def listed_def)

lemma tracks_stmt: "(\<And>d. pd_tracks (fst (f d)) = pd_tracks d) \<Longrightarrow> pd_tracks (fst (pl_stmt f d)) = pd_tracks d"
  by (simp add: pl_stmt_def)

lemma keeps_listed_simple:
  "keeps_listed i (pl_ret a)" "keeps_listed i (pl_fail x)" "keeps_listed i (refreshCounters e j)" "keeps_listed i (enqueueCoverRebuild e j)"
  "keeps_listed i (refreshArtwork e j)" "keeps_listed i (sql_put_flags e p sync pub)"
  by (rule keeps_listed_tracks; simp add: pl_ret_def pl_fail_def refreshCounters_def enqueueCoverRebuild_def refreshArtwork_def Let_def
      sql_put_flags_def pl_bind_def pl_query_def pl_stmt_def split: sum.splits prod.splits)+

lemma listed_Put: "listed i d \<Longrightarrow> i = put_id e q \<Longrightarrow> listed i (fst (pls_Put e q d))"
proof -
  assume l: "listed i d" and i: "i = put_id e q"
  let ?q = "q\<lparr>pls_CreatedAt := (if pls_ID q = [] then le_now e else pls_CreatedAt q), pls_UpdatedAt := le_now e\<rparr>"
  have pq: "put_id e ?q = i" unfolding i by (simp add: put_id_def)
  obtain d1 res where s: "sql_put_playlist e ?q d = (d1, res)" by force
  have l1: "listed i d1" using l put_result(1) [OF s] by (simp add: listed_def)
  show ?thesis
  proof (cases res)
    case (Inl x)
    then show ?thesis using s l1 by (simp add: pls_Put_def Let_def pl_bind_def)
  next
    case (Inr a)
    then have a: "a = i" "has_playlist i d1" using put_result(2) [OF s, of a] pq by auto
    have k: "keeps_listed i (pl_bind (if pls_ID q = [] then enqueueCoverRebuild e i else pl_ret ()) (\<lambda>_. pl_bind (refreshCounters e i) (\<lambda>_. pl_ret i)))"
      by (auto intro!: keeps_listed_bind keeps_listed_simple)
    have u: "listed i (fst (pl_bind (updatePlaylist e i (pls_Tracks q)) (\<lambda>_. pl_ret i) d1))"
      using updatePlaylist_listed [OF a(2) l1, of e "pls_Tracks q"] by (auto simp: pl_bind_def pl_ret_def split: prod.splits sum.splits)
    show ?thesis using s Inr a l1 u k unfolding pls_Put_def Let_def keeps_listed_def
      by (simp add: pl_bind_def [of "sql_put_playlist e ?q"]) (simp add: pl_ret_def)
  qed
qed

lemma keeps_listed_Put: "put_id e q = i \<Longrightarrow> keeps_listed i (pls_Put e q)"
  using listed_Put by (auto simp: keeps_listed_def)

lemma keeps_listed_checked:
  assumes "\<And>p. pls_ID p = i \<Longrightarrow> keeps_listed i (f p)"
  shows "keeps_listed i (pl_bind (checkWritable e i) f)"
  unfolding keeps_listed_def
proof (intro allI impI)
  fix d assume l: "listed i d"
  show "listed i (fst (pl_bind (checkWritable e i) f d))"
  proof (cases "snd (checkWritable e i d)")
    case (Inl x)
    then have "checkWritable e i d = (pop_fault d, Inl x)" by (simp add: prod_eq_iff) (simp add: checkWritable_eq)
    then show ?thesis using l by (simp add: pl_bind_def listed_def)
  next
    case (Inr p)
    then have c: "checkWritable e i d = (pop_fault d, Inr p)" by (simp add: prod_eq_iff) (simp add: checkWritable_eq)
    then have "pls_ID p = i" by (rule checked_ID(2))
    then show ?thesis using assms l c by (simp add: pl_bind_def keeps_listed_def listed_def)
  qed
qed

lemma keeps_listed_tx: "keeps_listed i m \<Longrightarrow> keeps_listed i (WithTx m)" "keeps_listed i m \<Longrightarrow> keeps_listed i (WithTxImmediate m)"
proof -
  have pop: "listed i (pop_fault d) = listed i d" "listed i (d\<lparr>pd_faults := f\<rparr>) = listed i d" for d f by (simp_all add: listed_def)
  have tx: "keeps_listed i (WithTx m)" if m: "keeps_listed i m" for m :: "'a pl_action"
  proof -
    have "listed i d2" if "m (pop_fault d) = (d2, r)" "listed i d" for d d2 r
      using m that pop unfolding keeps_listed_def by (metis fst_conv)
    then show ?thesis unfolding keeps_listed_def WithTx_def by (auto simp: pop split: prod.splits sum.splits)
  qed
  show "keeps_listed i m \<Longrightarrow> keeps_listed i (WithTx m)" by (rule tx)
  assume m: "keeps_listed i m"
  show "keeps_listed i (WithTxImmediate m)" unfolding WithTxImmediate_def
    by (rule tx) (use m pop in \<open>simp add: keeps_listed_def split: prod.splits, metis fst_conv\<close>)
qed

lemma keeps_listed_delete: "keeps_listed i (pls_Delete e i)"
proof -
  have "listed i (fst (pls_Delete e i d))" if l: "listed i d" for d
  proof (cases "next_fault d \<or> \<not> (\<exists>r \<in> set (pd_playlists d). pr_id r = i \<and> userFilter e r)")
    case True
    then have "next_fault d \<or> filter (\<lambda>r. pr_id r = i \<and> userFilter e r) (pd_playlists d) = []" by (auto simp: filter_empty_conv)
    then show ?thesis using l unfolding pls_Delete_def pl_stmt_def Let_def listed_def pop_fault_simps
      by (elim disjE) (simp_all only: list.map List.member_code if_True simp_thms filter_True fst_conv pop_fault_simps, auto)
  next
    case False
    then have "represents (pd_tracks (fst (pls_Delete e i d))) i []"
      by (auto simp: pls_Delete_def pl_stmt_def Let_def represents_mset cells_def)
    then show ?thesis by (auto simp: listed_def)
  qed
  then show ?thesis by (simp add: keeps_listed_def)
qed

text \<open>Calls that do not edit tracks.\<close>

lemma keeps_listed_if: "keeps_listed i m \<Longrightarrow> keeps_listed i m' \<Longrightarrow> keeps_listed i (if b then m else m')"
  by simp

lemma keeps_listed_entity: "j \<noteq> [] \<Longrightarrow> keeps_listed j (updatePlaylistEntity e j q cols)"
  unfolding updatePlaylistEntity_def applyContentUpdate_def applyFlagsOnly_def updateMetadata_def Let_def
  by (intro keeps_listed_checked keeps_listed_if keeps_listed_bind keeps_listed_simple keeps_listed_Put put_id_ID) simp_all

lemma bind_ret: "pl_bind (pl_ret a) f = f a"
  by (simp add: fun_eq_iff pl_bind_def pl_ret_def)

lemma keeps_listed_run:
  assumes "\<not> edits_tracks call" "call_target e call = i" "makes_playlist call \<or> i \<noteq> []"
  shows "keeps_listed i (pl_run e call)"
  using assms
proof (cases call)
  case (Call_Create j name ids)
  then show ?thesis using assms
    by (auto simp: discard_def svc_Create_def AddMediaFilesByID_def new_playlist_def put_id_def bind_ret
        intro!: keeps_listed_bind keeps_listed_simple keeps_listed_tx keeps_listed_Put)
next
  case (Call_Update j name comment pub add rm)
  then show ?thesis using assms unfolding Call_Update pl_run.simps svc_Update_def updateMetadata_def
    by (auto intro!: keeps_listed_checked keeps_listed_tx keeps_listed_bind keeps_listed_simple keeps_listed_Put put_id_ID)
next
  case (Call_Delete j)
  then show ?thesis using assms by (auto simp: svc_Delete_def intro!: keeps_listed_checked keeps_listed_delete)
next
  case (Call_SetImage up j)
  then show ?thesis using assms
    by (cases up) (auto simp: svc_SetImage_def intro!: keeps_listed_checked keeps_listed_bind keeps_listed_simple keeps_listed_Put put_id_ID)
next
  case (Call_RemoveImage rm j)
  then show ?thesis using assms
    by (cases rm) (auto simp: svc_RemoveImage_def intro!: keeps_listed_checked keeps_listed_bind keeps_listed_simple keeps_listed_Put put_id_ID)
next
  case (Call_Save q)
  then show ?thesis using assms
    by (auto simp: discard_def savePlaylist_def put_id_def intro!: keeps_listed_bind keeps_listed_simple keeps_listed_Put)
next
  case (Call_UpdateEntity j q cols)
  then show ?thesis using assms keeps_listed_entity by auto
qed simp_all

text \<open>Calls that edit tracks, on a playlist that cannot be edited.\<close>

lemma uneditable_run:
  assumes "edits_tracks call" "\<not> editable e (call_target e call) d p" "pl_lookup e (call_target e call) d = Inr p"
    "pls_OwnerID p = fst (request_user e)" "call_target e call \<noteq> []"
  shows "same_data d (fst (pl_run e call d))"
proof -
  have r: "\<not> TracksEditable p" using assms by (auto simp: editable_def)
  obtain x where c: "checkTracksEditable e (call_target e call) d = (pop_fault d, Inl x)"
    using r assms(3,4) by (cases "next_fault d") (auto simp: checkTracksEditable_eq)
  show ?thesis
  proof (cases call)
    case (Call_Create i name ids)
    then have i: "i \<noteq> []" "call_target e call = i" using assms(1) by auto
    have "same_data d (fst (svc_Create e i name ids d))" unfolding svc_Create_def if_P [OF i(1)]
    proof (rule rollback_immediate)
      fix d1 assume "same_data d d1"
      then have "pl_lookup e i d1 = Inr p" using assms(3) i lookup_same by metis
      then show "\<exists>x. snd (pl_bind (pl_bind (pls_Get e i) (\<lambda>p. if pls_OwnerID p \<noteq> fst (request_user e) then pl_fail ErrNotAuthorized
            else if \<not> TracksEditable p then pl_fail ErrPlaylistNotEditable else pl_ret p))
        (\<lambda>p. pls_Put e (AddMediaFilesByID (p\<lparr>pls_Tracks := []\<rparr>) ids)) d1) = Inl x"
        using r by (simp add: pl_bind_def pls_Get_eq pl_fail_def)
    qed
    then show ?thesis using Call_Create by (auto simp: discard_def pl_bind_def pl_ret_def split: prod.splits sum.splits)
  next
    case (Call_Update i name comment pub add rm)
    then have a: "add \<noteq> [] \<or> rm \<noteq> []" using assms(1) by simp
    then show ?thesis using c unfolding Call_Update pl_run.simps svc_Update_def if_P [OF a] by (simp add: bind_error)
  qed (use c assms(1) in \<open>simp_all add: discard_def svc_AddTracks_def svc_InsertTracks_def svc_AddAlbums_def svc_AddArtists_def
      svc_AddDiscs_def svc_RemoveTracks_def svc_ReorderTrack_def bind_error\<close>)
qed

text \<open>Calls that edit tracks, when statements may fail.\<close>

lemma reorder_out_of_range:
  assumes "represents rows i xs" "length xs < 999999" "\<not> (1 \<le> pos \<and> pos \<le> int (length xs))"
  shows "pl_valid (with_tracks c d0 (\<lambda>t. t = rows)) (trk_Reorder i pos newPos) (\<lambda>_ _. False) (\<lambda>_. True)"
  unfolding trk_Reorder_def
proof (rule valid_bind_val)
  show "pl_valid (with_tracks c d0 (\<lambda>t. t = rows)) (query_max i) (\<lambda>a d. a = int (length xs) \<and> with_tracks c d0 (\<lambda>t. t = rows) d) (\<lambda>_. True)"
    by (rule valid_conseq [OF valid_query_max [of "\<lambda>t. t = rows" i "int (length xs)"]])
      (use represents_max [OF assms(1)] assms(2) in \<open>auto simp: maxInt32_def\<close>)
qed (use assms(3) in \<open>auto intro!: valid_fail\<close>)

lemma simulates_some:
  assumes call: "edits_tracks call" "call_target e call = i" and ed: "editable e i d p" and rep: "represents (pd_tracks d) i xs"
    and small: "length xs < 999999"
  shows "\<exists>ys. simulates False d i (pl_run e call) ys"
proof (cases "in_range e call xs")
  case True
  then show ?thesis using simulates_run [OF call ed rep small] by blast
next
  case False
  then consider name comment pub add rm where "call = Call_Update i name comment pub add rm"
    | pos newPos where "call = Call_ReorderTrack i pos newPos" "\<not> (1 \<le> pos \<and> pos \<le> int (length xs))"
    using call(2) by (cases call) auto
  then show ?thesis
  proof cases
    case 1
    show ?thesis unfolding 1 by (rule exI) (rule simulates_Update [OF ed rep small])
  next
    case 2
    have "pl_valid (with_tracks False d (\<lambda>t. t = pd_tracks d)) (trk_Reorder i pos newPos)
        (\<lambda>_. with_tracks False d (represented i False xs)) (\<lambda>d. \<not> False)"
      by (rule valid_conseq [OF reorder_out_of_range [OF rep small 2(2), of False d newPos]]) simp_all
    from simulates_checked(1) [OF ed rep simulates_tx(2) [OF rep simulates_on_tracks [OF ed this]]]
    show ?thesis unfolding 2 pl_run.simps svc_ReorderTrack_def by blast
  qed
qed

lemma simulates_listed: "simulates False d i m ys \<Longrightarrow> listed i (fst (m d))"
proof -
  assume v: "simulates False d i m ys"
  have "same_as False d d" by (simp add: same_as_def fits_def)
  note D = pl_validD [OF v this]
  obtain d' r where m: "m d = (d', r)" by force
  show ?thesis
  proof (cases r)
    case (Inl x)
    then show ?thesis using D(2) [of d' x] m listed_represented [of i ys d'] by simp
  next
    case (Inr a)
    then show ?thesis using D(1) [of d' a] m listed_represented [of i ys d'] by simp
  qed
qed

lemma represents_length: "represents (pd_tracks d) i xs \<Longrightarrow> length xs \<le> length (pd_tracks d)"
proof -
  assume "represents (pd_tracks d) i xs"
  then have "length (cells i (pd_tracks d)) = length (num 1 xs)" unfolding represents_mset by (metis size_mset)
  then have "length (filter (\<lambda>t. tk_playlist t = i) (pd_tracks d)) = length xs" by (simp add: cells_def num_def)
  then show ?thesis by (metis length_filter_le)
qed

lemma target_listed:
  assumes "listed (call_target e call) d" "length (pd_tracks d) < 999999" "makes_playlist call \<or> \<not> denied e (call_target e call) d"
    "call_target e call \<noteq> []"
  shows "listed (call_target e call) (fst (pl_run e call d))"
proof (cases "edits_tracks call")
  case False
  then show ?thesis using keeps_listed_run [OF False refl] assms(1,4) by (simp add: keeps_listed_def)
next
  case True
  then have "\<not> makes_playlist call" by (cases call) auto
  then obtain p where p: "pl_lookup e (call_target e call) d = Inr p" "pls_OwnerID p = fst (request_user e)"
    using assms(3) by (auto simp: denied_def)
  obtain xs where xs: "represents (pd_tracks d) (call_target e call) xs" using assms(1) by (auto simp: listed_def)
  have small: "length xs < 999999" using represents_length [OF xs] assms(2) by simp
  show ?thesis
  proof (cases "editable e (call_target e call) d p")
    case ed: True
    then show ?thesis using simulates_some [OF True refl ed xs small] simulates_listed by blast
  next
    case False
    then show ?thesis using uneditable_run [OF True False p assms(4)] listed_same assms(1) by blast
  qed
qed

text \<open>
  C14: If the tracks of every playlist stand at the positions 1, 2, 3 and so on, they do so after any call
  of the service, whichever of its statements fail. The table has fewer than 999999 tracks; playlists have
  distinct IDs that are not empty, and so is the new one.
\<close>

theorem playlist_positions_contiguous:
  assumes "numbered d" "playlist_ids_ok d" "length (pd_tracks d) < 999999" "le_newID e \<noteq> []"
  shows "numbered (fst (pl_run e call d))"
proof (cases "\<not> makes_playlist call \<and> denied e (call_target e call) d")
  case True
  then have "same_data d (fst (pl_run e call d))" using denied_run by blast
  then show ?thesis using assms(1) by (simp add: numbered_def listed_same)
next
  case False
  have "call_target e call = le_newID e" if "makes_playlist call" using that by (cases call rule: makes_playlist.cases) auto
  then have i: "call_target e call \<noteq> []" using False not_denied assms(2,4) by (cases "makes_playlist call") auto
  then have only: "only_of (call_target e call) d (fst (pl_run e call d))" using touches_run unfolding touches_def by blast
  have "listed pid (fst (pl_run e call d))" for pid
  proof (cases "pid = call_target e call")
    case True
    then show ?thesis using target_listed [of e call d] assms(1,3) False i by (auto simp: numbered_def)
  next
    case ne: False
    then show ?thesis using listed_tracks [OF only_tracks [OF only]] assms(1) by (simp add: numbered_def)
  qed
  then show ?thesis by (simp add: numbered_def)
qed

lemma ex_numbered: "numbered ex_db"
proof -
  have "listed i ex_db" for i
  proof -
    consider "i = ''p''" | "i = ''q''" | "i \<noteq> ''p''" "i \<noteq> ''q''" by blast
    then show ?thesis
    proof cases
      case 1
      then show ?thesis using ex_represents by (auto simp: listed_def)
    next
      case 2
      then have "represents (pd_tracks ex_db) i [''a'']" by (simp add: represents_mset ex_db_def cells_def)
      then show ?thesis by (auto simp: listed_def)
    next
      case 3
      then have "represents (pd_tracks ex_db) i []" by (simp add: represents_mset ex_db_def cells_def)
      then show ?thesis by (auto simp: listed_def)
    qed
  qed
  then show ?thesis by (simp add: numbered_def)
qed

theorem playlist_positions_contiguous_witness:
  "numbered (fst (pl_run (ex_env ''u'' ''n'') (Call_InsertTracks ''p'' [''b'', ''c''] 1) ex_db))"
  by (rule playlist_positions_contiguous [OF ex_numbered]) (simp_all add: playlist_ids_ok_def ex_db_def ex_row_def ex_env_def)

section \<open>Observations\<close>

text \<open>A playlist that is saved without rules keeps those of its row: rules cannot be taken away.\<close>

lemma cleared_rules_kept:
  "\<not> IsSmartPlaylist q \<Longrightarrow> marshal_rules e q = Inr None \<and> pr_rules (update_row q None r) = pr_rules r"
  by (simp add: marshal_rules_def update_row_def)

text \<open>Sizes of more than 16 MiB are not exact.\<close>

lemma size_rounded: "float32_of 16777217 = 16777216"
  by (simp add: float32_of_def f32_shift.simps)

text \<open>When the playlist cannot be read, a method of a repository that is \<open>nil\<close> is called.\<close>

lemma failed_lookup_panics: "next_fault d \<Longrightarrow> on_tracks e i m d = (pop_fault d, Inl NilDereference)"
  by (simp add: on_tracks_def pls_Get_eq)

end
