(* ===== verification/PlaylistRefresh.thy ===== *)
theory PlaylistRefresh
  imports PlaylistFrame CriteriaSql
begin

text \<open>
  Evaluating smart playlists (\<open>persistence/smart_playlist_repository.go\<close>) and removing tracks whose files are
  gone (\<open>playlist_repository.go\<close>). The rules of a playlist may refer to other playlists, which are evaluated
  first; a set of visited playlists stops cycles. The recursion has fuel, and enough of it is shown to
  give a result. What SQLite selects for a condition and an order is an argument; the filter on libraries,
  the numbering, the limit and the offset are part of the model. Paths are those of Unix.
\<close>

section \<open>Paths in rules\<close>

definition slash :: char where "slash = CHR ''/''"

text \<open>\<open>filepath.Clean\<close>, \<open>filepath.Dir\<close> and \<open>filepath.Join\<close> of two elements.\<close>

fun path_split :: "string \<Rightarrow> string list" where
  "path_split [] = [[]]"
| "path_split (c # cs) = (if c = slash then [] # path_split cs else (c # hd (path_split cs)) # tl (path_split cs))"

definition clean_step :: "bool \<Rightarrow> string list \<Rightarrow> string \<Rightarrow> string list" where
  "clean_step rooted out s =
     (if s = [] \<or> s = ''.'' then out
      else if s = ''..'' then
        (if out \<noteq> [] \<and> last out \<noteq> ''..'' then butlast out else if rooted then out else out @ [s])
      else out @ [s])"

fun path_join :: "string list \<Rightarrow> string" where
  "path_join [] = []"
| "path_join [s] = s"
| "path_join (s # ss) = s @ slash # path_join ss"

definition path_Clean :: "string \<Rightarrow> string" where
  "path_Clean p =
     (let rooted = (p \<noteq> [] \<and> hd p = slash);
          out = (if rooted then [slash] else []) @ path_join (foldl (clean_step rooted) [] (path_split p))
      in if out = [] then ''.'' else out)"

definition path_Dir :: "string \<Rightarrow> string" where
  "path_Dir p = path_Clean (rev (dropWhile (\<lambda>c. c \<noteq> slash) (rev p)))"

definition path_Join :: "string \<Rightarrow> string \<Rightarrow> string" where
  "path_Join a b =
     (if a = [] \<and> b = [] then [] else if a = [] then path_Clean b else if b = [] then path_Clean a
      else path_Clean (a @ slash # b))"

definition normalizeChildPathRule :: "(string \<times> json) list \<Rightarrow> string \<Rightarrow> (string \<times> json) list" where
  "normalizeChildPathRule rule ref =
     (case map_of rule ''path'' of
        Some (JStr path) \<Rightarrow>
          (if path = [] then rule
           else (let p = (if hd path = slash then path_Clean path
                          else if ref \<noteq> [] then path_Join (path_Dir ref) path else path)
                 in map (\<lambda>(k, v). if k = ''path'' then (k, JStr p) else (k, v)) rule))
      | _ \<Rightarrow> rule)"

fun normalizePlaylistPaths :: "expression \<Rightarrow> string \<Rightarrow> expression" where
  "normalizePlaylistPaths (Any_of es) ref = Any_of (map (\<lambda>x. normalizePlaylistPaths x ref) es)"
| "normalizePlaylistPaths (All_of es) ref = All_of (map (\<lambda>x. normalizePlaylistPaths x ref) es)"
| "normalizePlaylistPaths (Leaf op m) ref =
     (if op = InPlaylist \<or> op = NotInPlaylist then Leaf op (normalizeChildPathRule m ref) else Leaf op m)"

definition NormalizedRules :: "playlist \<Rightarrow> criteria option" where
  "NormalizedRules p =
     (case pls_Rules p of
        None \<Rightarrow> None
      | Some c \<Rightarrow> (case cr_Expression c of
           None \<Rightarrow> Some c
         | Some ex \<Rightarrow> Some (c\<lparr>cr_Expression := Some (normalizePlaylistPaths ex (pls_Path p))\<rparr>)))"

section \<open>Evaluation\<close>

record refresh_env =
  rf_env :: pl_env
  rf_rules :: rule_env
  rf_delay :: duration
  rf_select :: "cond \<Rightarrow> order_item list \<Rightarrow> string \<Rightarrow> pl_db \<Rightarrow> file_row list"

abbreviation rf_user :: "refresh_env \<Rightarrow> user" where
  "rf_user rf \<equiv> logged_user (rf_env rf)"

text \<open>The rules of a playlist are evaluated for the user of the request.\<close>

definition withSmartPlaylistOwner :: "refresh_env \<Rightarrow> rule_env" where
  "withSmartPlaylistOwner rf =
     (rf_rules rf)\<lparr>re_now := le_now (rf_env rf), re_owner_id := us_ID (rf_user rf), re_owner_admin := us_IsAdmin (rf_user rf)\<rparr>"

definition shouldRefreshSmartPlaylist :: "refresh_env \<Rightarrow> playlist \<Rightarrow> bool" where
  "shouldRefreshSmartPlaylist rf p \<longleftrightarrow>
     IsSmartPlaylist p \<and>
     \<not> (case pls_EvaluatedAt p of None \<Rightarrow> False | Some t \<Rightarrow> le_now (rf_env rf) - t < pls_RefreshDelay (rf_delay rf) p) \<and>
     pls_OwnerID p = us_ID (rf_user rf)"

definition smart_where :: "refresh_env \<Rightarrow> criteria \<Rightarrow> cond pl_action" where
  "smart_where rf c =
     (case criteria_where (withSmartPlaylistOwner rf) c of Inl _ \<Rightarrow> pl_fail ErrRules | Inr cond \<Rightarrow> pl_ret cond)"

definition resolvePercentageLimit :: "refresh_env \<Rightarrow> criteria \<Rightarrow> criteria pl_action" where
  "resolvePercentageLimit rf c =
     (if \<not> IsPercentageLimit c then pl_ret c
      else pl_bind (applyLibraryFilter (rf_env rf)) (\<lambda>P.
        pl_bind (smart_where rf c) (\<lambda>cond.
          pl_bind (pl_query (\<lambda>d. length (filter (P d) (rf_select rf cond [] (us_ID (rf_user rf)) d)))) (\<lambda>n.
            pl_ret (ResolveLimit (int n) c)))))"

text \<open>
  The rows are numbered in the order of the rules before the limit and the offset cut them. An
  empty order is a syntax error, and a negative offset becomes a number too large for one.
\<close>

definition insert_selected :: "refresh_env \<Rightarrow> string \<Rightarrow> criteria \<Rightarrow> cond \<Rightarrow> (pl_db \<Rightarrow> file_row \<Rightarrow> bool) \<Rightarrow> unit pl_action" where
  "insert_selected rf pid c cond P =
     pl_stmt (\<lambda>d.
       let order = orderBy (re_fields (rf_rules rf)) c;
           ids = map fr_id (filter (P d) (rf_select rf cond order (us_ID (rf_user rf)) d));
           skip = (if cr_Limit c > 0 then nat (cr_Offset c) else 0);
           cut = (if cr_Limit c > 0 then take (nat (cr_Limit c)) (drop skip ids) else ids)
       in if order = [] \<or> (cr_Limit c > 0 \<and> cr_Offset c < 0) \<or> \<not> list_ex (\<lambda>r. pr_id r = pid) (pd_playlists d) then (d, Inl ErrSQL)
          else (case sql_insert pid (int skip + 1) cut (pd_tracks d) of
                  None \<Rightarrow> (d, Inl ErrSQL)
                | Some r \<Rightarrow> (d\<lparr>pd_tracks := r\<rparr>, Inr ())))"

definition stamp_evaluated :: "refresh_env \<Rightarrow> string \<Rightarrow> unit pl_action" where
  "stamp_evaluated rf pid =
     pl_stmt (\<lambda>d. (d\<lparr>pd_playlists := map (\<lambda>r. if pr_id r = pid then r\<lparr>pr_evaluated_at := Some (le_now (rf_env rf))\<rparr> else r)
                    (pd_playlists d)\<rparr>, Inr ()))"

text \<open>What follows the evaluation of the playlists that the rules refer to.\<close>

definition fill_playlist :: "refresh_env \<Rightarrow> string \<Rightarrow> criteria \<Rightarrow> unit pl_action" where
  "fill_playlist rf pid c0 =
     pl_bind (resolvePercentageLimit rf c0) (\<lambda>c.
       pl_bind (applyLibraryFilter (rf_env rf)) (\<lambda>P.
         pl_bind (smart_where rf c) (\<lambda>cond.
           pl_bind (insert_selected rf pid c cond P) (\<lambda>_.
             pl_bind (refreshCounters (rf_env rf) pid) (\<lambda>_. stamp_evaluated rf pid)))))"

definition child_condition :: "refresh_env \<Rightarrow> criteria \<Rightarrow> playlist_row \<Rightarrow> bool" where
  "child_condition rf c r \<longleftrightarrow>
     List.member (ChildPlaylistIds c) (pr_id r) \<or>
     List.member (concat (map (pathVariants (rf_rules rf)) (ChildPlaylistPaths c))) (pr_path r)"

fun each_child ::
  "(playlist \<Rightarrow> string list \<Rightarrow> pl_db \<Rightarrow> (pl_db \<times> string list \<times> bool) option) \<Rightarrow> playlist list \<Rightarrow> string list \<Rightarrow> pl_db \<Rightarrow>
   (pl_db \<times> string list) option" where
  "each_child f [] visited d = Some (d, visited)"
| "each_child f (p # ps) visited d =
     (case f p visited d of None \<Rightarrow> None | Some (d1, visited1, _) \<Rightarrow> each_child f ps visited1 d1)"

definition refreshChildPlaylists ::
  "(playlist \<Rightarrow> string list \<Rightarrow> pl_db \<Rightarrow> (pl_db \<times> string list \<times> bool) option) \<Rightarrow> refresh_env \<Rightarrow> criteria \<Rightarrow> string list \<Rightarrow> pl_db \<Rightarrow>
   (pl_db \<times> string list \<times> bool) option" where
  "refreshChildPlaylists f rf c visited d =
     (if ChildPlaylistIds c = [] \<and> ChildPlaylistPaths c = [] then Some (d, visited, True)
      else (case pls_GetAll (rf_env rf) (child_condition rf c) d of
              (d1, Inl _) \<Rightarrow> Some (d1, visited, False)
            | (d1, Inr ps) \<Rightarrow> (case each_child f ps visited d1 of None \<Rightarrow> None | Some (d2, visited2) \<Rightarrow> Some (d2, visited2, True))))"

primrec refreshSmartPlaylistTree ::
  "nat \<Rightarrow> refresh_env \<Rightarrow> playlist \<Rightarrow> string list \<Rightarrow> pl_db \<Rightarrow> (pl_db \<times> string list \<times> bool) option" where
  "refreshSmartPlaylistTree 0 rf p visited d = None"
| "refreshSmartPlaylistTree (Suc n) rf p visited d =
     (if List.member visited (pls_ID p) then Some (d, visited, False)
      else let visited1 = pls_ID p # visited in
        if \<not> shouldRefreshSmartPlaylist rf p then Some (d, visited1, False)
        else (case delete_stmt (pls_ID p) (\<lambda>_. True) d of
                (d1, Inl _) \<Rightarrow> Some (d1, visited1, False)
              | (d1, Inr _) \<Rightarrow>
                  let rules = the (NormalizedRules p) in
                  (case refreshChildPlaylists (refreshSmartPlaylistTree n rf) rf rules visited1 d1 of
                     None \<Rightarrow> None
                   | Some (d2, visited2, ok) \<Rightarrow>
                       if \<not> ok then Some (d2, visited2, False)
                       else (case fill_playlist rf (pls_ID p) rules d2 of
                               (d3, Inl _) \<Rightarrow> Some (d3, visited2, False)
                             | (d3, Inr _) \<Rightarrow> Some (d3, visited2, True)))))"

text \<open>Fuel for every playlist and the one asked for.\<close>

definition refreshSmartPlaylist :: "refresh_env \<Rightarrow> playlist \<Rightarrow> pl_db \<Rightarrow> (pl_db \<times> string list \<times> bool) option" where
  "refreshSmartPlaylist rf p d = refreshSmartPlaylistTree (length (pd_playlists d) + 2) rf p [] d"

section \<open>Removing orphans\<close>

definition orphan_delete :: "pl_db \<Rightarrow> string \<Rightarrow> track_row list" where
  "orphan_delete d pid =
     filter (\<lambda>t. \<not> (tk_playlist t = pid \<and> \<not> list_ex (\<lambda>f. fr_id f = tk_file t) (pd_files d))) (pd_tracks d)"

definition with_orphans :: "pl_db \<Rightarrow> string list" where
  "with_orphans d =
     remdups (map tk_playlist (filter (\<lambda>t. \<not> list_ex (\<lambda>f. fr_id f = tk_file t) (pd_files d) \<and>
        list_ex (\<lambda>r. pr_id r = tk_playlist t) (pd_playlists d)) (pd_tracks d)))"

fun orphan_loop :: "pl_env \<Rightarrow> string list \<Rightarrow> unit pl_action" where
  "orphan_loop e [] = pl_ret ()"
| "orphan_loop e (i # is) =
     pl_bind (pl_stmt (\<lambda>d. (d\<lparr>pd_tracks := orphan_delete d i\<rparr>, Inr (length (pd_tracks d) - length (orphan_delete d i))))) (\<lambda>n.
       if n = 0 then pl_fail ErrSQL else pl_bind (pls_renumber e i) (\<lambda>_. orphan_loop e is))"

definition removeOrphans :: "pl_env \<Rightarrow> unit pl_action" where
  "removeOrphans e = pl_bind (pl_query with_orphans) (orphan_loop e)"

section \<open>What a refresh keeps\<close>

definition row_key :: "playlist_row \<Rightarrow> string \<times> string \<times> json option" where
  "row_key r = (pr_id r, pr_owner_id r, pr_rules r)"

definition keys_of :: "pl_db \<Rightarrow> (string \<times> string \<times> json option) list" where
  "keys_of d = map row_key (pd_playlists d)"

definition keeps_keys :: "'a pl_action \<Rightarrow> bool" where
  "keeps_keys m \<longleftrightarrow> (\<forall>d. keys_of (fst (m d)) = keys_of d)"

lemma keys_pop [simp]: "keys_of (pop_fault d) = keys_of d"
  by (simp add: keys_of_def)

lemma keys_bind: "keeps_keys m \<Longrightarrow> (\<And>a. keeps_keys (f a)) \<Longrightarrow> keeps_keys (pl_bind m f)"
  unfolding keeps_keys_def pl_bind_def by (auto split: prod.splits sum.splits) (metis fst_conv)+

lemma keys_stmt: "(\<And>d. keys_of (fst (f d)) = keys_of d) \<Longrightarrow> keeps_keys (pl_stmt f)"
  by (simp add: keeps_keys_def pl_stmt_def)

lemma keys_simple: "keeps_keys (pl_ret a)" "keeps_keys (pl_fail x)" "keeps_keys (pl_query h)"
  by (simp_all add: keeps_keys_def pl_ret_def pl_fail_def pl_query_def pl_stmt_def)

lemma keys_try: "keeps_keys m \<Longrightarrow> keeps_keys (pl_try m)"
  unfolding keeps_keys_def pl_try_def by (metis (mono_tags, lifting) case_prod_beta fst_conv)

lemma keys_rows: "(\<And>r. row_key (g r) = row_key r) \<Longrightarrow>
    keys_of (d\<lparr>pd_playlists := map (\<lambda>r. if pr_id r = i then g r else r) (pd_playlists d)\<rparr>) = keys_of d"
  by (simp add: keys_of_def)

lemma keys_filter: "keeps_keys (applyLibraryFilter e)"
  unfolding applyLibraryFilter_def sees_all_def visibleLibraryIDs_def userSeesAllLibraries_def
  by (auto intro!: keys_bind keys_simple keys_try split: sum.splits)

lemma keys_delete: "keeps_keys (delete_stmt i P)"
  unfolding delete_stmt_def exec_tracks_def by (rule keys_stmt) (simp add: keys_of_def)

lemma keys_counters: "keeps_keys (refreshCounters e i)"
  unfolding refreshCounters_def
  by (auto intro!: keys_bind keys_simple keys_stmt keys_rows split: prod.splits simp: row_key_def)

lemma keys_where: "keeps_keys (smart_where rf c)"
  unfolding smart_where_def by (simp add: keys_simple split: sum.splits)

lemma keys_percentage: "keeps_keys (resolvePercentageLimit rf c)"
  unfolding resolvePercentageLimit_def by (simp add: keys_bind keys_simple keys_filter keys_where)

lemma keys_insert: "keeps_keys (insert_selected rf i c cond P)"
  unfolding insert_selected_def by (rule keys_stmt) (simp add: keys_of_def Let_def split: option.splits)

lemma keys_stamp: "keeps_keys (stamp_evaluated rf i)"
  unfolding stamp_evaluated_def by (rule keys_stmt) (simp add: keys_rows row_key_def)

lemma keys_fill: "keeps_keys (fill_playlist rf i c)"
  unfolding fill_playlist_def
  by (intro keys_bind keys_percentage keys_filter keys_where keys_insert keys_counters keys_stamp)

lemma touches_smart_where [touch_rules]: "touches i (smart_where rf c)"
  unfolding smart_where_def by (intro touch_rules)

lemma touches_library_filter [touch_rules]: "touches i (applyLibraryFilter e)"
  unfolding applyLibraryFilter_def sees_all_def visibleLibraryIDs_def userSeesAllLibraries_def by (intro touch_rules)

lemma touches_percentage [touch_rules]: "touches i (resolvePercentageLimit rf c)"
  unfolding resolvePercentageLimit_def by (intro touch_rules)

lemma touches_insert_selected [touch_rules]: "touches i (insert_selected rf i c cond P)"
  unfolding insert_selected_def
  by (rule touches_stmt) (auto simp: Let_def only_of_def others_insert split: option.splits)

lemma touches_stamp [touch_rules]: "touches i (stamp_evaluated rf i)"
  unfolding stamp_evaluated_def by (rule touches_stmt) (simp add: only_rows)

lemma touches_fill [touch_rules]: "touches i (fill_playlist rf i c)"
  unfolding fill_playlist_def by (intro touch_rules)

text \<open>A smart playlist of the user.\<close>

definition own_smart :: "refresh_env \<Rightarrow> pl_db \<Rightarrow> string \<Rightarrow> bool" where
  "own_smart rf d pid \<longleftrightarrow> (\<exists>j. (pid, us_ID (rf_user rf), Some j) \<in> set (keys_of d))"

text \<open>
  What a refresh may do that spares the playlists \<open>S\<close>, in the course of which the visited playlists \<open>v\<close> became
  \<open>v'\<close>.
\<close>

definition refreshed :: "refresh_env \<Rightarrow> string set \<Rightarrow> pl_db \<Rightarrow> string list \<Rightarrow> pl_db \<Rightarrow> string list \<Rightarrow> bool" where
  "refreshed rf S d v d' v' \<longleftrightarrow>
     keys_of d' = keys_of d \<and> set v \<subseteq> set v' \<and> (distinct v \<longrightarrow> distinct v') \<and>
     (\<forall>pid. pid \<in> S \<or> \<not> own_smart rf d pid \<longrightarrow>
        (\<forall>r. pr_id r = pid \<longrightarrow> (r \<in> set (pd_playlists d') \<longleftrightarrow> r \<in> set (pd_playlists d))) \<and>
        filter (\<lambda>t. tk_playlist t = pid) (pd_tracks d') = filter (\<lambda>t. tk_playlist t = pid) (pd_tracks d))"

lemma refreshed_refl [simp]: "refreshed rf S d v d v"
  by (simp add: refreshed_def)

lemma refreshed_trans:
  assumes "refreshed rf S d v d1 v1" "refreshed rf S d1 v1 d2 v2"
  shows "refreshed rf S d v d2 v2"
proof -
  have "own_smart rf d1 pid = own_smart rf d pid" for pid using assms(1) by (simp add: refreshed_def own_smart_def)
  moreover have "set v \<subseteq> set v2" using assms unfolding refreshed_def by blast
  ultimately show ?thesis using assms unfolding refreshed_def by simp
qed

lemma refreshed_less: "refreshed rf S d v d' v' \<Longrightarrow> T \<subseteq> S \<Longrightarrow> refreshed rf T d v d' v'"
  unfolding refreshed_def by blast

lemma refreshed_action:
  assumes "touches i m" "keeps_keys m" "own_smart rf d i" "i \<notin> S" "m d = (d', x)"
  shows "refreshed rf S d v d' v"
proof -
  have o: "only_of i d d'" using assms(1,5) unfolding touches_def by (metis fst_conv)
  have k: "keys_of d' = keys_of d" using assms(2,5) unfolding keeps_keys_def by (metis fst_conv)
  have "pid \<noteq> i" if "pid \<in> S \<or> \<not> own_smart rf d pid" for pid using that assms(3,4) by blast
  then show ?thesis using k only_member [OF o] only_tracks [OF o] unfolding refreshed_def by blast
qed

lemma refreshed_visit: "x \<notin> set v \<Longrightarrow> refreshed rf S d v d (x # v)"
  by (auto simp: refreshed_def)

lemma refreshed_same: "same_data d d' \<Longrightarrow> refreshed rf S d v d' v"
  using same_data_fields [of d d'] by (simp add: refreshed_def keys_of_def)

text \<open>A playlist that was read.\<close>

definition from_row :: "pl_db \<Rightarrow> playlist \<Rightarrow> bool" where
  "from_row d p \<longleftrightarrow> (\<exists>j. (pls_ID p, pls_OwnerID p, j) \<in> set (keys_of d) \<and> (IsSmartPlaylist p \<longrightarrow> j \<noteq> None))"

lemma of_row_key:
  "of_playlist_row e r = Inr p \<Longrightarrow> r \<in> set (pd_playlists d) \<Longrightarrow> from_row d p"
  unfolding from_row_def keys_of_def row_key_def
  by (rule exI [of _ "pr_rules r"]) (auto simp: of_playlist_row_def Let_def IsSmartPlaylist_def split: option.splits sum.splits)

lemma decode_rows_from: "decode_rows e rs = Inr ps \<Longrightarrow> set rs \<subseteq> set (pd_playlists d) \<Longrightarrow> p \<in> set ps \<Longrightarrow> from_row d p"
  by (induction rs arbitrary: ps) (auto split: sum.splits dest: of_row_key)

lemma from_row_keys: "keys_of d' = keys_of d \<Longrightarrow> from_row d' p = from_row d p"
  by (simp add: from_row_def)

lemma from_row_smart: "from_row d p \<Longrightarrow> shouldRefreshSmartPlaylist rf p \<Longrightarrow> own_smart rf d (pls_ID p)"
  unfolding from_row_def own_smart_def shouldRefreshSmartPlaylist_def by fastforce

lemma GetAll_from:
  assumes "pls_GetAll e P d = (d1, res)"
  shows "same_data d d1" "res = Inr ps \<Longrightarrow> p \<in> set ps \<Longrightarrow> from_row d1 p"
proof -
  show "same_data d d1" using assms
    by (auto simp: pls_GetAll_def pl_bind_def pl_query_def pl_stmt_def pl_fail_def pl_ret_def split: if_splits sum.splits)
  have "set (select_playlists Q d) \<subseteq> set (pd_playlists d1)" for Q
    using same_data_fields [OF \<open>same_data d d1\<close>] by (auto simp: select_playlists_def)
  moreover assume "res = Inr ps" "p \<in> set ps"
  ultimately show "from_row d1 p" using assms decode_rows_from [where d = d1]
    by (auto simp: pls_GetAll_def pl_bind_def pl_query_def pl_stmt_def pl_fail_def pl_ret_def select_playlists_def split: if_splits sum.splits)
qed

section \<open>The recursion\<close>

lemma from_row_refreshed: "refreshed rf S d v d1 v1 \<Longrightarrow> \<forall>q \<in> Q. from_row d q \<Longrightarrow> \<forall>q \<in> Q. from_row d1 q"
  using from_row_keys [of d1 d] by (simp add: refreshed_def)

lemma each_child_refreshed:
  assumes f: "\<forall>p v d d' v' b. from_row d p \<longrightarrow> f p v d = Some (d', v', b) \<longrightarrow> refreshed rf (set v) d v d' v'"
  shows "\<forall>p \<in> set ps. from_row d p \<Longrightarrow> each_child f ps v d = Some (d', v') \<Longrightarrow> refreshed rf (set v) d v d' v'"
proof (induction ps arbitrary: v d)
  case (Cons p ps)
  from Cons.prems(2) obtain d1 v1 b where s: "f p v d = Some (d1, v1, b)" "each_child f ps v1 d1 = Some (d', v')"
    by (auto split: option.splits prod.splits)
  have r: "refreshed rf (set v) d v d1 v1" using f s(1) Cons.prems(1) by (meson list.set_intros(1))
  have "\<forall>q \<in> set ps. from_row d1 q" using Cons.prems(1) by (intro from_row_refreshed [OF r]) simp
  then have "refreshed rf (set v1) d1 v1 d' v'" using s(2) by (rule Cons.IH)
  then have "refreshed rf (set v) d1 v1 d' v'" by (rule refreshed_less) (use r in \<open>simp add: refreshed_def\<close>)
  with r show ?case by (rule refreshed_trans)
qed simp

lemma children_refreshed:
  assumes f: "\<forall>p v d d' v' b. from_row d p \<longrightarrow> f p v d = Some (d', v', b) \<longrightarrow> refreshed rf (set v) d v d' v'"
    and "refreshChildPlaylists f rf c v d = Some (d', v', b)"
  shows "refreshed rf (set v) d v d' v'"
proof (cases "ChildPlaylistIds c = [] \<and> ChildPlaylistPaths c = []")
  case True
  then show ?thesis using assms(2) by (simp add: refreshChildPlaylists_def)
next
  case False
  obtain d1 res where g: "pls_GetAll (rf_env rf) (child_condition rf c) d = (d1, res)" by force
  have r: "refreshed rf (set v) d v d1 v" using GetAll_from(1) [OF g] by (rule refreshed_same)
  show ?thesis
  proof (cases res)
    case (Inl x)
    then show ?thesis using assms(2) g r False by (auto simp: refreshChildPlaylists_def)
  next
    case (Inr ps)
    then have e: "each_child f ps v d1 = Some (d', v')"
      using assms(2) g False by (auto simp: refreshChildPlaylists_def split: option.splits)
    have "refreshed rf (set v) d1 v d' v'"
      by (rule each_child_refreshed [OF f _ e]) (use GetAll_from(2) [OF g Inr] in blast)
    with r show ?thesis by (rule refreshed_trans)
  qed
qed

lemma tree_refreshed:
  "from_row d p \<Longrightarrow> refreshSmartPlaylistTree n rf p v d = Some (d', v', b) \<Longrightarrow> refreshed rf (set v) d v d' v'"
proof (induction n arbitrary: p v d d' v' b)
  case (Suc n)
  let ?i = "pls_ID p" and ?rules = "the (NormalizedRules p)"
  show ?case
  proof (cases "List.member v ?i \<or> \<not> shouldRefreshSmartPlaylist rf p")
    case True
    then show ?thesis using Suc.prems(2) refreshed_visit [of ?i v rf "set v" d] by (auto simp: Let_def split: if_splits)
  next
    case False
    have i: "?i \<notin> set v" using False by simp
    have v: "refreshed rf (set v) d v d (?i # v)" using False by (intro refreshed_visit) simp
    have own: "own_smart rf d ?i" using from_row_smart Suc.prems(1) False by blast
    obtain d1 x where del: "delete_stmt ?i (\<lambda>_. True) d = (d1, x)" by force
    have r1: "refreshed rf (set v) d (?i # v) d1 (?i # v)" by (rule refreshed_action [OF touches_delete keys_delete own i del])
    show ?thesis
    proof (cases x)
      case (Inl err)
      then show ?thesis using Suc.prems(2) del False refreshed_trans [OF v r1] by (simp add: Let_def)
    next
      case (Inr u)
      then obtain d2 v2 ok where c: "refreshChildPlaylists (refreshSmartPlaylistTree n rf) rf ?rules (?i # v) d1 = Some (d2, v2, ok)"
        using Suc.prems(2) del False by (auto simp: Let_def split: option.splits)
      have "refreshed rf (set (?i # v)) d1 (?i # v) d2 v2" by (rule children_refreshed [OF _ c]) (use Suc.IH in blast)
      then have r2: "refreshed rf (set v) d1 (?i # v) d2 v2" by (rule refreshed_less) auto
      have r: "refreshed rf (set v) d v d2 v2" using refreshed_trans [OF refreshed_trans [OF v r1] r2] .
      show ?thesis
      proof (cases ok)
        case f: False
        then show ?thesis using Suc.prems(2) del False Inr c r by (simp add: Let_def)
      next
        case True
        obtain d3 y where fill: "fill_playlist rf ?i ?rules d2 = (d3, y)" by force
        have "own_smart rf d2 ?i" using own r by (simp add: own_smart_def refreshed_def)
        from refreshed_action [OF touches_fill keys_fill this i fill] have "refreshed rf (set v) d2 v2 d3 v2" .
        with r have "refreshed rf (set v) d v d3 v2" by (rule refreshed_trans)
        then show ?thesis using Suc.prems(2) del False Inr c True fill by (auto simp: Let_def split: sum.splits)
      qed
    qed
  qed
qed simp

text \<open>Playlists that were not visited are fuel enough.\<close>

definition unvisited :: "pl_db \<Rightarrow> string list \<Rightarrow> nat" where
  "unvisited d v = card (fst ` set (keys_of d) - set v)"

lemma unvisited_refreshed: "refreshed rf S d v d' v' \<Longrightarrow> unvisited d' v' \<le> unvisited d v"
  unfolding unvisited_def refreshed_def by (auto intro!: card_mono)

lemma unvisited_visit:
  assumes "from_row d p" "pls_ID p \<notin> set v"
  shows "unvisited d (pls_ID p # v) < unvisited d v"
proof -
  have "pls_ID p \<in> fst ` set (keys_of d)" using assms(1) by (force simp: from_row_def)
  then show ?thesis unfolding unvisited_def by (intro psubset_card_mono) (use assms(2) in auto)
qed

lemma each_child_returns:
  assumes f: "\<forall>p v d. from_row d p \<longrightarrow> unvisited d v < n \<longrightarrow> f p v d \<noteq> None"
    and g: "\<forall>p v d d' v' b. from_row d p \<longrightarrow> f p v d = Some (d', v', b) \<longrightarrow> refreshed rf (set v) d v d' v'"
  shows "\<forall>p \<in> set ps. from_row d p \<Longrightarrow> unvisited d v < n \<Longrightarrow> each_child f ps v d \<noteq> None"
proof (induction ps arbitrary: v d)
  case (Cons p ps)
  have p: "from_row d p" using Cons.prems(1) by simp
  obtain d1 v1 b where s: "f p v d = Some (d1, v1, b)" using f p Cons.prems(2) by (metis not_None_eq prod_cases3)
  have r: "refreshed rf (set v) d v d1 v1" using g p s by blast
  have "\<forall>q \<in> set ps. from_row d1 q" using Cons.prems(1) by (intro from_row_refreshed [OF r]) simp
  moreover have "unvisited d1 v1 < n" using unvisited_refreshed [OF r] Cons.prems(2) by simp
  ultimately have "each_child f ps v1 d1 \<noteq> None" by (rule Cons.IH)
  then show ?case using s by simp
qed simp

lemma children_return:
  assumes f: "\<forall>p v d. from_row d p \<longrightarrow> unvisited d v < n \<longrightarrow> refreshSmartPlaylistTree n rf p v d \<noteq> None"
    and "unvisited d v < n"
  shows "refreshChildPlaylists (refreshSmartPlaylistTree n rf) rf c v d \<noteq> None"
proof (cases "ChildPlaylistIds c = [] \<and> ChildPlaylistPaths c = []")
  case False
  obtain d1 res where g: "pls_GetAll (rf_env rf) (child_condition rf c) d = (d1, res)" by force
  show ?thesis
  proof (cases res)
    case (Inr ps)
    have "keys_of d1 = keys_of d" using same_data_fields [OF GetAll_from(1) [OF g]] by (simp add: keys_of_def)
    then have "unvisited d1 v < n" using assms(2) by (simp add: unvisited_def)
    moreover have "\<forall>p \<in> set ps. from_row d1 p" using GetAll_from(2) [OF g Inr] by blast
    ultimately obtain r where "each_child (refreshSmartPlaylistTree n rf) ps v d1 = Some r"
      using each_child_returns [OF f, of rf ps d1 v] tree_refreshed by (metis not_None_eq)
    then show ?thesis using g Inr False by (cases r) (auto simp: refreshChildPlaylists_def)
  qed (use g False in \<open>auto simp: refreshChildPlaylists_def\<close>)
qed (simp add: refreshChildPlaylists_def)

lemma tree_body_returns:
  assumes "\<And>d1. keys_of d1 = keys_of d \<Longrightarrow> refreshChildPlaylists (refreshSmartPlaylistTree n rf) rf (the (NormalizedRules p)) (pls_ID p # v) d1 \<noteq> None"
  shows "refreshSmartPlaylistTree (Suc n) rf p v d \<noteq> None"
proof -
  obtain d1 x where del: "delete_stmt (pls_ID p) (\<lambda>_. True) d = (d1, x)" by force
  have "keys_of d1 = keys_of d" using keys_delete del unfolding keeps_keys_def by (metis fst_conv)
  then obtain d2 v2 ok where c: "refreshChildPlaylists (refreshSmartPlaylistTree n rf) rf (the (NormalizedRules p)) (pls_ID p # v) d1 = Some (d2, v2, ok)"
    using assms by (metis not_None_eq prod_cases3)
  obtain d3 y where fill: "fill_playlist rf (pls_ID p) (the (NormalizedRules p)) d2 = (d3, y)" by force
  show ?thesis using del c fill by (cases x; cases y) (auto simp: Let_def)
qed

lemma tree_returns: "from_row d p \<Longrightarrow> unvisited d v < n \<Longrightarrow> refreshSmartPlaylistTree n rf p v d \<noteq> None"
proof (induction n arbitrary: p v d)
  case (Suc n)
  show ?case
  proof (cases "List.member v (pls_ID p)")
    case False
    show ?thesis
    proof (rule tree_body_returns)
      fix d1 assume k: "keys_of d1 = keys_of d"
      have "unvisited d (pls_ID p # v) < unvisited d v" using Suc.prems(1) False by (intro unvisited_visit) simp_all
      then have "unvisited d1 (pls_ID p # v) < n" using Suc.prems(2) k by (simp add: unvisited_def)
      moreover have "\<forall>p v d. from_row d p \<longrightarrow> unvisited d v < n \<longrightarrow> refreshSmartPlaylistTree n rf p v d \<noteq> None"
        using Suc.IH by blast
      ultimately show "refreshChildPlaylists (refreshSmartPlaylistTree n rf) rf (the (NormalizedRules p)) (pls_ID p # v) d1 \<noteq> None"
        by (intro children_return)
    qed
  qed simp
qed simp

text \<open>More fuel does not change the result.\<close>

lemma each_child_more:
  assumes "\<And>p v d r. f p v d = Some r \<Longrightarrow> g p v d = Some r" "each_child f ps v d = Some r"
  shows "each_child g ps v d = Some r"
  using assms(2)
proof (induction ps arbitrary: v d)
  case (Cons p ps)
  then obtain d1 v1 b where "f p v d = Some (d1, v1, b)" "each_child f ps v1 d1 = Some r" by (auto split: option.splits)
  then show ?case using assms(1) Cons.IH by simp
qed simp

lemma children_more:
  assumes "\<And>p v d r. f p v d = Some r \<Longrightarrow> g p v d = Some r" "refreshChildPlaylists f rf c v d = Some r"
  shows "refreshChildPlaylists g rf c v d = Some r"
proof (cases "ChildPlaylistIds c = [] \<and> ChildPlaylistPaths c = []")
  case False
  obtain d1 res where q: "pls_GetAll (rf_env rf) (child_condition rf c) d = (d1, res)" by force
  show ?thesis
  proof (cases res)
    case (Inr ps)
    then obtain r1 where "each_child f ps v d1 = Some r1" using assms(2) q False
      by (auto simp: refreshChildPlaylists_def split: option.splits)
    moreover from this have "each_child g ps v d1 = Some r1" by (rule each_child_more [rotated]) (rule assms(1))
    ultimately show ?thesis using assms(2) q Inr unfolding refreshChildPlaylists_def if_not_P [OF False] by simp
  qed (use assms(2) q False in \<open>auto simp: refreshChildPlaylists_def\<close>)
qed (use assms(2) in \<open>simp add: refreshChildPlaylists_def\<close>)

lemma tree_more_one: "refreshSmartPlaylistTree n rf p v d = Some r \<Longrightarrow> refreshSmartPlaylistTree (Suc n) rf p v d = Some r"
proof (induction n arbitrary: p v d r)
  case (Suc n)
  let ?i = "pls_ID p" and ?rules = "the (NormalizedRules p)"
  obtain d1 x where del: "delete_stmt ?i (\<lambda>_. True) d = (d1, x)" by force
  show ?case
  proof (cases "List.member v ?i \<or> \<not> shouldRefreshSmartPlaylist rf p \<or> isl x")
    case True
    then show ?thesis using Suc.prems del by (cases x) (auto simp: Let_def)
  next
    case False
    then obtain c where c: "refreshChildPlaylists (refreshSmartPlaylistTree n rf) rf ?rules (?i # v) d1 = Some c"
      using Suc.prems del by (cases x) (auto simp: Let_def split: option.splits)
    have "refreshChildPlaylists (refreshSmartPlaylistTree (Suc n) rf) rf ?rules (?i # v) d1 = Some c"
      by (rule children_more [OF Suc.IH c])
    then show ?thesis using Suc.prems del c
      unfolding refreshSmartPlaylistTree.simps(2) [of "Suc n"] refreshSmartPlaylistTree.simps(2) [of n]
      by (simp only: Let_def prod.case option.case)
  qed
qed simp

lemma tree_more: "refreshSmartPlaylistTree n rf p v d = Some r \<Longrightarrow> refreshSmartPlaylistTree (n + k) rf p v d = Some r"
  by (induction k) (use tree_more_one in auto)

lemma unvisited_bound: "unvisited d v \<le> length (pd_playlists d)"
proof -
  have "unvisited d v \<le> card (fst ` set (keys_of d))" unfolding unvisited_def by (intro card_mono) auto
  also have "\<dots> \<le> length (keys_of d)" using card_image_le [of "set (keys_of d)" fst] card_length [of "keys_of d"] by simp
  finally show ?thesis by (simp add: keys_of_def)
qed

lemma root_returns: "refreshSmartPlaylist rf p d \<noteq> None"
  unfolding refreshSmartPlaylist_def add_2_eq_Suc'
proof (rule tree_body_returns)
  fix d1 assume "keys_of d1 = keys_of d"
  then have "length (pd_playlists d1) = length (pd_playlists d)" unfolding keys_of_def by (metis length_map)
  then have "unvisited d1 [pls_ID p] < Suc (length (pd_playlists d))" using unvisited_bound [of d1 "[pls_ID p]"] by simp
  then show "refreshChildPlaylists (refreshSmartPlaylistTree (Suc (length (pd_playlists d))) rf) rf (the (NormalizedRules p)) [pls_ID p] d1 \<noteq> None"
    by (intro children_return) (use tree_returns in blast)
qed

lemma root_distinct:
  assumes "refreshSmartPlaylistTree (Suc n) rf p [] d = Some (d', v, b)"
  shows "distinct v"
proof -
  obtain d1 x where del: "delete_stmt (pls_ID p) (\<lambda>_. True) d = (d1, x)" by force
  have "distinct v1" if "refreshChildPlaylists (refreshSmartPlaylistTree n rf) rf c [pls_ID p] d1 = Some (d2, v1, ok)" for c d2 v1 ok
    using children_refreshed [OF _ that] tree_refreshed [of _ _ n rf] by (simp add: refreshed_def) blast
  then show ?thesis using assms del
    by (cases x) (auto simp: Let_def split: if_splits option.splits sum.splits prod.splits)
qed

lemma lookup_from: "pl_lookup e i d = Inr p \<Longrightarrow> from_row d p"
  using decode_rows_from [of e "select_playlists (\<lambda>r. pr_id r = i \<and> userFilter e r) d" _ d p]
  by (auto simp: pl_lookup_def select_playlists_def split: sum.splits list.splits)

lemma not_own_smart:
  assumes "playlist_ids_ok d" "r \<in> set (pd_playlists d)" "pr_owner_id r \<noteq> us_ID (rf_user rf) \<or> pr_rules r = None"
  shows "\<not> own_smart rf d (pr_id r)"
proof
  assume "own_smart rf d (pr_id r)"
  then obtain q where "q \<in> set (pd_playlists d)" "pr_id q = pr_id r" "pr_owner_id q = us_ID (rf_user rf)" "pr_rules q \<noteq> None"
    by (auto simp: own_smart_def keys_of_def row_key_def) metis
  moreover have "inj_on pr_id (set (pd_playlists d))" using assms(1) by (simp add: playlist_ids_ok_def distinct_map)
  ultimately show False using assms(2,3) by (metis inj_onD)
qed

lemma playlist_ids_ok_keys: "keys_of d' = keys_of d \<Longrightarrow> playlist_ids_ok d \<Longrightarrow> playlist_ids_ok d'"
proof -
  assume k: "keys_of d' = keys_of d" "playlist_ids_ok d"
  have "map pr_id (pd_playlists x) = map fst (keys_of x)" for x by (simp add: keys_of_def row_key_def)
  with k show ?thesis by (simp add: playlist_ids_ok_def)
qed

section \<open>What a refreshed playlist holds\<close>

text \<open>The files that a user may see: all of them, or those of the libraries granted to the user.\<close>

definition library_filter :: "pl_env \<Rightarrow> (pl_db \<Rightarrow> file_row \<Rightarrow> bool) \<Rightarrow> bool" where
  "library_filter e P \<longleftrightarrow> P = (\<lambda>_ _. True) \<or> (\<not> sees_everything e \<and> P = granted e)"

text \<open>The rules whose percentage was turned into a limit, by counting what they select.\<close>

definition resolved :: "refresh_env \<Rightarrow> pl_db \<Rightarrow> criteria \<Rightarrow> criteria \<Rightarrow> bool" where
  "resolved rf d c c' \<longleftrightarrow>
     (if IsPercentageLimit c
      then \<exists>d0 P cond. same_data d d0 \<and> library_filter (rf_env rf) P \<and> criteria_where (withSmartPlaylistOwner rf) c = Inr cond \<and>
        c' = ResolveLimit (int (length (filter (P d0) (rf_select rf cond [] (us_ID (rf_user rf)) d0)))) c
      else c' = c)"

text \<open>The page of a list that the limit and the offset leave, as rows of the playlist.\<close>

definition page_start :: "criteria \<Rightarrow> nat" where
  "page_start c = (if cr_Limit c > 0 then nat (cr_Offset c) else 0)"

definition page :: "criteria \<Rightarrow> string list \<Rightarrow> string list" where
  "page c ids = (if cr_Limit c > 0 then take (nat (cr_Limit c)) (drop (page_start c) ids) else ids)"

definition page_rows :: "string \<Rightarrow> criteria \<Rightarrow> string list \<Rightarrow> track_row list" where
  "page_rows pid c ids = map (\<lambda>(pos, f). \<lparr>tk_playlist = pid, tk_file = f, tk_pos = pos\<rparr>) (num (int (page_start c) + 1) (page c ids))"

definition filled :: "refresh_env \<Rightarrow> string \<Rightarrow> criteria \<Rightarrow> pl_db \<Rightarrow> pl_db \<Rightarrow> bool" where
  "filled rf pid c d d' \<longleftrightarrow>
     pd_files d' = pd_files d \<and> pd_userLibrary d' = pd_userLibrary d \<and>
     (\<exists>d1 c' P cond. same_data d d1 \<and> resolved rf d c c' \<and> library_filter (rf_env rf) P \<and>
        criteria_where (withSmartPlaylistOwner rf) c' = Inr cond \<and>
        pd_tracks d' = pd_tracks d @ page_rows pid c'
          (map fr_id (filter (P d1) (rf_select rf cond (orderBy (re_fields (rf_rules rf)) c') (us_ID (rf_user rf)) d1))))"

lemma sql_insert_rows:
  "sql_insert pid pos ids rows = Some r \<Longrightarrow> r = rows @ map (\<lambda>(pos, f). \<lparr>tk_playlist = pid, tk_file = f, tk_pos = pos\<rparr>) (num pos ids)"
  by (induction ids arbitrary: pos rows) (simp, fastforce split: if_splits)

lemma valid_query_same: "pl_valid (same_data d0) (pl_query h) (\<lambda>a d. same_data d0 d \<and> a = h d) (same_data d0)"
  unfolding pl_valid_def pl_query_def pl_stmt_def using same_data_trans same_data_pop(1) by (auto split: if_splits)

lemma valid_filter:
  "pl_valid (same_data d0) (applyLibraryFilter e) (\<lambda>P d. same_data d0 d \<and> library_filter e P) (same_data d0)"
proof -
  have count: "pl_valid (same_data d0) (pl_try (pl_query h)) (\<lambda>_. same_data d0) (same_data d0)" for h :: "pl_db \<Rightarrow> 'a"
    by (rule valid_try, rule valid_conseq [OF valid_query_same]) auto
  have "pl_valid (same_data d0) (userSeesAllLibraries e l) (\<lambda>_. same_data d0) (same_data d0)" for l
    unfolding userSeesAllLibraries_def
    by (auto intro!: valid_ret valid_bind [OF count] split: sum.splits)
  moreover have "pl_valid (same_data d0) (pl_try (visibleLibraryIDs e)) (\<lambda>_. same_data d0) (same_data d0)"
    unfolding visibleLibraryIDs_def using count [of pd_libraries] by (auto intro!: valid_try valid_ret)
  ultimately have "pl_valid (same_data d0) (sees_all e) (\<lambda>_. same_data d0) (same_data d0)"
    unfolding sees_all_def by (intro valid_bind) (auto intro!: valid_ret split: sum.splits)
  then show ?thesis unfolding applyLibraryFilter_def library_filter_def
    by (auto intro!: valid_ret valid_bind)
qed

lemma valid_where:
  "pl_valid (same_data d0) (smart_where rf c) (\<lambda>cond d. same_data d0 d \<and> criteria_where (withSmartPlaylistOwner rf) c = Inr cond) (same_data d0)"
  unfolding smart_where_def by (auto intro!: valid_ret valid_fail split: sum.splits)

lemma valid_resolve:
  "pl_valid (same_data d0) (resolvePercentageLimit rf c) (\<lambda>c' d. same_data d0 d \<and> resolved rf d0 c c') (\<lambda>_. True)"
proof (cases "IsPercentageLimit c")
  case True
  have q: "pl_valid (\<lambda>d. same_data d0 d \<and> criteria_where (withSmartPlaylistOwner rf) c = Inr cond)
       (pl_bind (pl_query (\<lambda>d. length (filter (P d) (rf_select rf cond [] (us_ID (rf_user rf)) d)))) (\<lambda>n. pl_ret (ResolveLimit (int n) c)))
       (\<lambda>c' d. same_data d0 d \<and> resolved rf d0 c c') (\<lambda>_. True)" if "library_filter (rf_env rf) P" for P cond
  proof (rule valid_bind [where R = "\<lambda>n d. same_data d0 d \<and> resolved rf d0 c (ResolveLimit (int n) c)"], goal_cases)
    case 1
    show ?case
    proof (cases "criteria_where (withSmartPlaylistOwner rf) c = Inr cond")
      case e: True
      show ?thesis by (rule valid_conseq [OF valid_query_same [of d0]]) (use e that True in \<open>auto simp: resolved_def\<close>)
    qed (simp add: pl_valid_def)
  qed (auto intro!: valid_ret)
  have w: "pl_valid (\<lambda>d. same_data d0 d \<and> library_filter (rf_env rf) P)
       (pl_bind (smart_where rf c) (\<lambda>cond. pl_bind (pl_query (\<lambda>d. length (filter (P d) (rf_select rf cond [] (us_ID (rf_user rf)) d))))
         (\<lambda>n. pl_ret (ResolveLimit (int n) c)))) (\<lambda>c' d. same_data d0 d \<and> resolved rf d0 c c') (\<lambda>_. True)" for P
  proof (cases "library_filter (rf_env rf) P")
    case p: True
    show ?thesis by (rule valid_bind [OF valid_conseq [OF valid_where [of d0]] q [OF p]]) auto
  qed (simp add: pl_valid_def)
  show ?thesis unfolding resolvePercentageLimit_def using True
    by simp (rule valid_bind [OF valid_conseq [OF valid_filter [of d0]] w], auto)
qed (auto simp: resolvePercentageLimit_def resolved_def intro!: valid_ret)

lemma valid_insert_selected:
  assumes "resolved rf d0 c c'" "library_filter (rf_env rf) P" "criteria_where (withSmartPlaylistOwner rf) c' = Inr cond"
  shows "pl_valid (same_data d0) (insert_selected rf pid c' cond P) (\<lambda>_. filled rf pid c d0) (\<lambda>_. True)"
  unfolding insert_selected_def
proof (rule valid_stmt [where P' = "same_data d0"])
  have s: "same_data d0 d \<Longrightarrow> pd_tracks d = pd_tracks d0 \<and> pd_files d = pd_files d0 \<and> pd_userLibrary d = pd_userLibrary d0" for d
    unfolding same_data_def by (metis pl_db.select_convs pl_db.surjective pl_db.update_convs(8))
  let ?o = "orderBy (re_fields (rf_rules rf)) c'"
  show "pl_valid (same_data d0) (\<lambda>d.
       let order = ?o;
           ids = map fr_id (filter (P d) (rf_select rf cond order (us_ID (rf_user rf)) d));
           skip = (if cr_Limit c' > 0 then nat (cr_Offset c') else 0);
           cut = (if cr_Limit c' > 0 then take (nat (cr_Limit c')) (drop skip ids) else ids)
       in if order = [] \<or> (cr_Limit c' > 0 \<and> cr_Offset c' < 0) \<or> \<not> list_ex (\<lambda>r. pr_id r = pid) (pd_playlists d) then (d, Inl ErrSQL)
          else (case sql_insert pid (int skip + 1) cut (pd_tracks d) of
                  None \<Rightarrow> (d, Inl ErrSQL)
                | Some r \<Rightarrow> (d\<lparr>pd_tracks := r\<rparr>, Inr ()))) (\<lambda>_. filled rf pid c d0) (\<lambda>_. True)"
  proof (rule pl_validI, goal_cases)
    case (1 d)
    let ?ids = "map fr_id (filter (P d) (rf_select rf cond ?o (us_ID (rf_user rf)) d))"
    have "filled rf pid c d0 (d\<lparr>pd_tracks := r\<rparr>)" if "sql_insert pid (int (page_start c') + 1) (page c' ?ids) (pd_tracks d) = Some r" for r
      unfolding filled_def using sql_insert_rows [OF that] s [OF 1] 1 assms by (auto simp: page_rows_def)
    then show ?case unfolding Let_def page_start_def [symmetric] page_def [symmetric] by (auto split: option.splits)
  qed
qed (auto intro: same_data_trans)

lemma valid_filled_counters: "pl_valid (filled rf pid c d0) (refreshCounters e pid) (\<lambda>_. filled rf pid c d0) (\<lambda>_. True)"
  unfolding refreshCounters_def pl_valid_def
  by (auto simp: pl_bind_def pl_query_def pl_stmt_def filled_def split: prod.splits sum.splits if_splits)

lemma valid_filled_stamp: "pl_valid (filled rf pid c d0) (stamp_evaluated rf pid) (\<lambda>_. filled rf pid c d0) (\<lambda>_. True)"
  unfolding stamp_evaluated_def pl_valid_def by (auto simp: pl_stmt_def filled_def)

lemma valid_fill: "pl_valid (same_data d0) (fill_playlist rf pid c) (\<lambda>_. filled rf pid c d0) (\<lambda>_. True)"
proof -
  let ?rest = "\<lambda>c' P cond. pl_bind (insert_selected rf pid c' cond P) (\<lambda>_. pl_bind (refreshCounters (rf_env rf) pid) (\<lambda>_. stamp_evaluated rf pid))"
  have i: "pl_valid (\<lambda>d. same_data d0 d \<and> criteria_where (withSmartPlaylistOwner rf) c' = Inr cond) (?rest c' P cond) (\<lambda>_. filled rf pid c d0) (\<lambda>_. True)"
    if "resolved rf d0 c c'" "library_filter (rf_env rf) P" for c' P cond
  proof (cases "criteria_where (withSmartPlaylistOwner rf) c' = Inr cond")
    case True
    show ?thesis
      by (rule valid_conseq [OF valid_bind [OF valid_insert_selected [OF that True] valid_bind [OF valid_filled_counters valid_filled_stamp]]]) auto
  qed (simp add: pl_valid_def)
  have w: "pl_valid (\<lambda>d. same_data d0 d \<and> library_filter (rf_env rf) P) (pl_bind (smart_where rf c') (?rest c' P)) (\<lambda>_. filled rf pid c d0) (\<lambda>_. True)"
    if "resolved rf d0 c c'" for c' P
  proof (cases "library_filter (rf_env rf) P")
    case p: True
    show ?thesis by (rule valid_bind [OF valid_conseq [OF valid_where [of d0]] i [OF that p]]) auto
  qed (simp add: pl_valid_def)
  have "pl_valid (\<lambda>d. same_data d0 d \<and> resolved rf d0 c c')
       (pl_bind (applyLibraryFilter (rf_env rf)) (\<lambda>P. pl_bind (smart_where rf c') (?rest c' P))) (\<lambda>_. filled rf pid c d0) (\<lambda>_. True)" for c'
  proof (cases "resolved rf d0 c c'")
    case r: True
    show ?thesis by (rule valid_bind [OF valid_conseq [OF valid_filter [of d0]] w [OF r]]) auto
  qed (simp add: pl_valid_def)
  then show ?thesis unfolding fill_playlist_def by (rule valid_bind [OF valid_resolve])
qed

text \<open>
  C16: Refreshing a smart playlist ends, whichever playlists its rules refer to and however they refer to
  each other: with fuel for every playlist and two more calls there is a result, any more fuel gives the
  same one, and no playlist is visited twice.
\<close>

theorem smart_refresh_ends:
  "\<exists>d' visited ok. distinct visited \<and> refreshSmartPlaylist rf p d = Some (d', visited, ok) \<and>
     (\<forall>k. refreshSmartPlaylistTree (length (pd_playlists d) + 2 + k) rf p [] d = Some (d', visited, ok))"
proof -
  obtain d' v b where r: "refreshSmartPlaylist rf p d = Some (d', v, b)" using root_returns [of rf p d] by (metis not_None_eq prod_cases3)
  then have t: "refreshSmartPlaylistTree (length (pd_playlists d) + 2) rf p [] d = Some (d', v, b)" by (simp only: refreshSmartPlaylist_def)
  then have "distinct v" using root_distinct [of "Suc (length (pd_playlists d))" rf p d] by (simp only: add_2_eq_Suc')
  with r tree_more [OF t] show ?thesis by blast
qed

text \<open>
  C17: Refreshing a smart playlist that the user can read, and in its course those that its rules refer to,
  changes only smart playlists of that user: every other playlist keeps its row and its tracks, whatever
  statements fail on the way.
\<close>

theorem smart_refresh_keeps_others:
  assumes "playlist_ids_ok d" "pl_lookup (rf_env rf) i d = Inr p" "refreshSmartPlaylist rf p d = Some (d', visited, ok)"
    "r \<in> set (pd_playlists d)" "pr_owner_id r \<noteq> us_ID (rf_user rf) \<or> pr_rules r = None"
  shows "untouched r d d'"
proof -
  have "refreshed rf (set []) d [] d' visited"
    using tree_refreshed [OF lookup_from [OF assms(2)]] assms(3) unfolding refreshSmartPlaylist_def by blast
  then show ?thesis using not_own_smart [OF assms(1,4,5)] assms(4) playlist_ids_ok_keys [OF _ assms(1), of d']
    unfolding refreshed_def untouched_def by blast
qed

lemma valid_last:
  assumes "\<And>a. pl_valid (\<lambda>_. True) (f a) Q (\<lambda>_. True)"
  shows "pl_valid (\<lambda>_. True) (pl_bind m f) Q (\<lambda>_. True)"
proof (rule valid_bind [OF _ assms])
  show "pl_valid (\<lambda>_. True) m (\<lambda>_ _. True) (\<lambda>_. True)" by (simp add: pl_valid_def split: prod.splits sum.splits)
qed

lemma valid_stamp:
  "pl_valid (\<lambda>_. True) (stamp_evaluated rf pid)
     (\<lambda>_ d. \<forall>r \<in> set (pd_playlists d). pr_id r = pid \<longrightarrow> pr_evaluated_at r = Some (le_now (rf_env rf))) (\<lambda>_. True)"
proof -
  let ?f = "\<lambda>r. if pr_id r = pid then r\<lparr>pr_evaluated_at := Some (le_now (rf_env rf))\<rparr> else r"
  have k: "pr_evaluated_at r = Some (le_now (rf_env rf))" if "r \<in> set (map ?f rs)" "pr_id r = pid" for r rs
  proof -
    from that(1) obtain q where q: "r = ?f q" unfolding set_map by blast
    then have "pr_id q = pid" using that(2) by (cases "pr_id q = pid") simp_all
    with q show ?thesis by simp
  qed
  show ?thesis unfolding pl_valid_def stamp_evaluated_def pl_stmt_def by (simp del: set_map) (use k in blast)
qed

lemma valid_fill_stamp:
  "pl_valid (\<lambda>_. True) (fill_playlist rf pid c)
     (\<lambda>_ d. \<forall>r \<in> set (pd_playlists d). pr_id r = pid \<longrightarrow> pr_evaluated_at r = Some (le_now (rf_env rf))) (\<lambda>_. True)"
  unfolding fill_playlist_def by (intro valid_last valid_stamp)

lemma tree_filled:
  assumes "refreshSmartPlaylistTree (Suc n) rf p v d = Some (d', v', True)"
  obtains d1 d2 v2 where "delete_stmt (pls_ID p) (\<lambda>_. True) d = (d1, Inr ())"
    "refreshChildPlaylists (refreshSmartPlaylistTree n rf) rf (the (NormalizedRules p)) (pls_ID p # v) d1 = Some (d2, v2, True)"
    "fill_playlist rf (pls_ID p) (the (NormalizedRules p)) d2 = (d', Inr ())"
  using assms by (auto simp: Let_def split: if_splits option.splits sum.splits prod.splits intro!: that)

lemma deleted_tracks: "delete_stmt i (\<lambda>_. True) d = (d1, Inr u) \<Longrightarrow> filter (\<lambda>t. tk_playlist t = i) (pd_tracks d1) = []"
  by (auto simp: delete_stmt_def exec_tracks_def pl_stmt_def sql_delete_def filter_empty_conv split: if_splits)


text \<open>
  Removing the orphans of a playlist keeps the order of the tracks whose files exist, at the positions 1, 2, 3
  and so on, and the tracks of the other playlists.
\<close>

lemma orphans_removed:
  assumes "represents (pd_tracks d) pid xs"
  obtains r where "renumber pid (orphan_delete d pid) = Some r"
    "represents r pid (filter (\<lambda>x. list_ex (\<lambda>f. fr_id f = x) (pd_files d)) xs)" "others pid r = others pid (pd_tracks d)"
proof -
  let ?ok = "\<lambda>x. list_ex (\<lambda>f. fr_id f = x) (pd_files d)"
  let ?zs = "filter (\<lambda>c. ?ok (snd c)) (num 1 xs)"
  have "cells pid (orphan_delete d pid) = filter (\<lambda>c. ?ok (snd c)) (cells pid (pd_tracks d))"
    unfolding orphan_delete_def cells_def by (auto simp: filter_map o_def intro!: arg_cong [where f = "map _"] filter_cong)
  then have c: "mset (cells pid (orphan_delete d pid)) = mset ?zs" using assms by (simp add: represents_mset)
  have n: "map fst (num 1 xs) = [1..int (length xs)]" "map snd (num 1 xs) = xs" by (simp_all add: num_def)
  have "sorted_wrt (<) (map fst (num 1 xs))" unfolding n(1) by (rule sorted_wrt_upto)
  then have sorted: "sorted_wrt (<) (map fst ?zs)" unfolding sorted_wrt_map by (rule sorted_wrt_filter)
  then have "distinct (map fst ?zs)" by (simp only: strict_sorted_iff)
  moreover have "map snd ?zs = filter ?ok (map snd (num 1 xs))" by (simp only: filter_map o_def)
  ultimately have a: "arranged (orphan_delete d pid) pid (map fst ?zs) (filter ?ok xs)"
    using fst_snd_arranged [OF c] unfolding n(2) by simp
  have "set (map fst ?zs) \<subseteq> set (map fst (num 1 xs))" by auto
  then have "p > 0" if "p \<in> set (map fst ?zs)" for p using that unfolding n(1) by auto
  from renumber_represents [OF a sorted this] obtain r where "renumber pid (orphan_delete d pid) = Some r"
    "represents r pid (filter ?ok xs)" "others pid r = others pid (orphan_delete d pid)" .
  moreover have "others pid (orphan_delete d pid) = others pid (pd_tracks d)"
    unfolding others_def orphan_delete_def by (auto intro: filter_cong simp: filter_filter)
  ultimately show thesis using that by simp
qed

text \<open>Two smart playlists of two users that refer to each other.\<close>

definition ex_rules :: "string \<Rightarrow> json" where
  "ex_rules i = JObj [(''all'', JArr [JObj [(''inPlaylist'', JObj [(''id'', JStr i)])]])]"

definition ex_smart_db :: pl_db where
  "ex_smart_db = ex_db\<lparr>pd_playlists := [(ex_row ''p'' ''u'')\<lparr>pr_rules := Some (ex_rules ''q'')\<rparr>, (ex_row ''q'' ''v'')\<lparr>pr_rules := Some (ex_rules ''p'')\<rparr>]\<rparr>"

definition ex_refresh :: refresh_env where
  "ex_refresh = \<lparr>rf_env = ex_env ''u'' ''n'', rf_rules = demo_rules_env, rf_delay = 0, rf_select = (\<lambda>_ _ _ d. pd_files d)\<rparr>"

definition ex_smart :: playlist where
  "ex_smart = (case pl_lookup (rf_env ex_refresh) ''p'' ex_smart_db of Inr p \<Rightarrow> p)"

theorem smart_refresh_keeps_others_witness:
  "shouldRefreshSmartPlaylist ex_refresh ex_smart \<and> ChildPlaylistIds (the (NormalizedRules ex_smart)) = [''q''] \<and>
   (\<exists>d' visited ok. refreshSmartPlaylist ex_refresh ex_smart ex_smart_db = Some (d', visited, ok) \<and>
      untouched ((ex_row ''q'' ''v'')\<lparr>pr_rules := Some (ex_rules ''p'')\<rparr>) ex_smart_db d')"
proof -
  have s: "shouldRefreshSmartPlaylist ex_refresh ex_smart \<and> ChildPlaylistIds (the (NormalizedRules ex_smart)) = [''q'']" by code_simp
  have "\<not> isl (pl_lookup (rf_env ex_refresh) ''p'' ex_smart_db)" by code_simp
  then have l: "pl_lookup (rf_env ex_refresh) ''p'' ex_smart_db = Inr ex_smart" by (auto simp: ex_smart_def split: sum.splits)
  obtain d' v b where r: "refreshSmartPlaylist ex_refresh ex_smart ex_smart_db = Some (d', v, b)"
    using root_returns by (metis not_None_eq prod_cases3)
  have "untouched ((ex_row ''q'' ''v'')\<lparr>pr_rules := Some (ex_rules ''p'')\<rparr>) ex_smart_db d'"
    by (rule smart_refresh_keeps_others [OF _ l r])
      (simp_all add: playlist_ids_ok_def ex_smart_db_def ex_row_def ex_refresh_def ex_env_def ex_user_def logged_user_def)
  with s r show ?thesis by blast
qed

text \<open>A smart playlist that takes the tracks of another one, two of them from the second.\<close>

lemma f32_shift_code [code]: "f32_shift n = (if int n < 16777216 then 0 else Suc (f32_shift (n div 2)))"
  by (subst f32_shift.simps) auto

definition ex_fill_db :: pl_db where
  "ex_fill_db = ex_db\<lparr>pd_playlists := [(ex_row ''p'' ''u'')\<lparr>pr_rules := Some (JObj [(''all'', JArr [JObj [(''inPlaylist'', JObj [(''id'', JStr ''q'')])]]),
     (''limit'', JNum True 2), (''offset'', JNum True 1)])\<rparr>, ex_row ''q'' ''v'']\<rparr>"

lemma ex_fill: "(case pl_lookup (rf_env ex_refresh) ''p'' ex_fill_db of
     Inl _ \<Rightarrow> False
   | Inr p \<Rightarrow> (case refreshSmartPlaylist ex_refresh p ex_fill_db of
        None \<Rightarrow> False
      | Some (d', v, ok) \<Rightarrow> ok \<and> filter (\<lambda>t. tk_playlist t = ''p'') (pd_tracks d') = [\<lparr>tk_playlist = ''p'', tk_file = ''b'', tk_pos = 2\<rparr>]))"
  by code_simp


end
