(* ===== verification/Spec2Isabelle.thy ===== *)
theory Spec2Isabelle
  imports Mpv StreamToken TranscodeLimiter PlayTracker ScrobbleBuffer QuickConnect TaskQueue ArtworkGate SubsonicAuth
    MissingTracks KVStore JsonComments Throttle CriteriaSql ArtworkPrune ArtworkRetry PlaylistEdits PlaylistRefresh
begin

text \<open>
  A verification development of the Navidrome music server: a shallow embedding of the parts of the
  server that decide what a client may do and what it hears, and that keep state between requests.
  File names below are relative to \<open>src/\<close>.

  \<^bold>\<open>The program.\<close> A request reaches the server through the native API (\<open>server/auth.go\<close>) or the Subsonic
  API (\<open>server/subsonic\<close>), which authenticate it against the accounts (\<open>persistence/user_repository.go\<close>)
  with signed tokens (\<open>core/auth\<close>), passwords, or a trusted proxy. A stream request is answered by the
  transcoding decision (\<open>core/stream\<close>), whose result may travel through the client as a signed token and
  whose transcodes are limited per user and in all. The play tracker (\<open>core/scrobbler\<close>) follows what
  clients report, counts plays and hands scrobbles to the buffered scrobblers. The jukebox
  (\<open>core/playback\<close>) plays on the server itself, with one mpv process per track. The scanner
  (\<open>scanner\<close>) keeps the database in step with the files. Plugins (\<open>plugins\<close>) get task queues and a
  key-value store. Playlists (\<open>core/playlists\<close> over \<open>persistence\<close>) are lists of tracks that their owner edits,
  or are filled by rules (\<open>model/criteria\<close>). Artwork is looked for by a worker with a queue of requests
  (\<open>core/artwork\<close>), through a circuit breaker per external provider; requests for it pass a throttle.

  \<^bold>\<open>Conventions.\<close> Structs are records with prefixed fields, enumerations datatypes, and each function or
  method one definition under its own name, prefixed where a name of HOL would clash. Go strings are
  lists of bytes. A pair of value and error is a sum with the error on the left, or a pair where the
  code returns both; a pointer that may be nil is an option. Times are nanoseconds as \<open>int\<close>, in
  \<open>TaskQueue\<close> Unix milliseconds and in \<open>KVStore\<close> Unix seconds, as in the tables; floating-point gains and
  positions are rationals. Integers are words where the width matters: the back-off of tasks shifts a
  64-bit integer, the counter of matched tracks has 32 bits. A table is the list of its rows, a
  statement one operation on it; the error of a statement, the clock, random values, and the answers of
  code outside the repository are arguments. Contracts of such code that properties rest on are
  locales (below) or premises of the statement, with a witness that satisfies them.

  \<^bold>\<open>Shared.\<close> \<open>Prelude\<close> has the strings, results and maps of Go and the locale \<open>step_invariant\<close>: reachable
  states of a step relation, invariants, and bounded progress, which every interleaving below uses.
  \<open>Media\<close> has the data of package \<open>model\<close> that several components share.

  \<^bold>\<open>Streaming.\<close> \<open>StreamTypes\<close> (\<open>core/stream/types.go\<close>, \<open>aliases.go\<close>, \<open>codec.go\<close>, \<open>limitations.go\<close>) and
  \<open>StreamDecider\<close> (\<open>decider.go\<close>, \<open>legacy_client.go\<close>): the decision is exactly one of direct play,
  transcoding and failure; a transcode keeps within the limits of client, profile, codec, source and
  player; every request resolves to one that can be served. \<open>StreamToken\<close> (\<open>token.go\<close>): a token resolves to
  the decided request for its file only and is stale once the file changes. \<open>TranscodeLimiter\<close>
  (\<open>limiter.go\<close>): the caps hold in every interleaving of acquiring and releasing, and no slot leaks.

  \<^bold>\<open>Jukebox.\<close> \<open>PlaybackQueue\<close> (\<open>core/playback/queue.go\<close>), \<open>PlaybackDevice\<close> (\<open>device.go\<close>,
  \<open>playbackserver.go\<close>), \<open>Mpv\<close> (\<open>mpv/\<close>), \<open>ShellQuote\<close> (\<open>utils/shellquote\<close>): the queue stays well formed through
  every run of commands and end-of-track messages, the queue is played in order at the gain of the
  device, and splitting undoes quoting. The device sees a track through the locale \<open>track_device\<close>, and
  the mpv track its connection through \<open>mpv_conn\<close>; the model of mpv tracks interprets both.

  \<^bold>\<open>Scrobbling.\<close> \<open>SimpleCache\<close> (\<open>utils/cache/simple_cache.go\<close>): concurrent misses of a key share one load,
  and each caller ends after a bounded number of its own steps. \<open>PlayTracker\<close>
  (\<open>core/scrobbler/play_tracker.go\<close> and its two workers): reports out of order are ignored, a stopped
  track is scrobbled exactly when it was played long enough, filtered tracks never leave the server.
  \<open>ScrobbleBuffer\<close> (\<open>buffered_scrobbler.go\<close>, \<open>persistence/scrobble_buffer_repository.go\<close>): queues are
  drained in order without loss, and the retry loop backs off exponentially. The scrobbler sees the
  table through the locale \<open>scrobble_buffer\<close>.

  \<^bold>\<open>Accounts and authentication.\<close> \<open>Auth\<close> (\<open>core/auth\<close>) with the JWT library as the locale \<open>jwt_codec\<close>; \<open>Users\<close>
  (\<open>persistence/user_repository.go\<close>, \<open>model/user.go\<close>); \<open>ServerAuth\<close> (\<open>server/auth.go\<close>); \<open>AuthLimiter\<close> and
  \<open>SubsonicAuth\<close> (\<open>server/subsonic/auth_limiter.go\<close>, \<open>middlewares.go\<close>); \<open>QuickConnect\<close>
  (\<open>core/quickconnect\<close>): accounts stay distinct, only admins make admins once there is an account,
  regular users change only their own account, a password change ends all earlier sessions except
  the one that is refreshed, guesses of passwords are limited, a Subsonic request needs a proof of
  identity, and a Quick Connect secret is redeemed once, for the user who approved it.

  \<^bold>\<open>Scanner.\<close> \<open>NaturalSort\<close> (\<open>utils/natural\<close>): comparison is a total order of keys. \<open>MissingTracks\<close>
  (\<open>scanner/phase_2_missing_tracks.go\<close>): moved tracks keep their ID, and no track is lost when
  statements fail on the way. \<open>JsonComments\<close> (\<open>utils/jsoncommentstrip\<close>): comments of a playlist file are
  removed and nothing else, however the reader is called.

  \<^bold>\<open>Plugins.\<close> \<open>TaskQueue\<close> (\<open>plugins/host_taskqueue.go\<close>): a task has one worker at a time and bounded
  attempts, and a finished task stays finished, in every interleaving of workers, API calls, shutdowns
  and crashes. \<open>KVStore\<close> (\<open>plugins/host_kvstore.go\<close>): the store refines a map with expiring entries and
  keeps within its size.

  \<^bold>\<open>Rules of smart playlists.\<close> \<open>Durations\<close> (\<open>utils/time.go\<close>), \<open>Criteria\<close> (\<open>model/criteria\<close>) and \<open>CriteriaSql\<close>
  (\<open>persistence/criteria_sql.go\<close>): rules survive being stored as JSON, what is decoded is well typed, the
  SQL condition made of them selects exactly the rows that the rules describe, exactly the rules that make no
  sense are refused, and playlists of others are consulted only if public.

  \<^bold>\<open>Playlists.\<close> \<open>PlaylistTracks\<close> has the table of tracks and the statements that renumber it; \<open>PlaylistRepo\<close>
  (\<open>persistence/playlist_repository.go\<close>, \<open>playlist_track_repository.go\<close>, the filters of
  \<open>sql_base_repository.go\<close> and transactions of \<open>persistence.go\<close>) the repositories, as actions on the database
  that may fail at every statement; \<open>Playlists\<close> (\<open>core/playlists/playlists.go\<close>, \<open>rest_adapter.go\<close>) the service.
  \<open>PlaylistLogic\<close> has triples for these actions, \<open>PlaylistFrame\<close> what they leave alone: only its owner
  changes a playlist. \<open>PlaylistEdits\<close>: editing tracks refines operations on lists, positions stay
  contiguous, and a failed call in a transaction changes nothing. \<open>PlaylistRefresh\<close>
  (\<open>persistence/smart_playlist_repository.go\<close>): evaluating a smart playlist ends although playlists may refer
  to each other, leaves other playlists alone, and fills the playlist with what its rules select.

  \<^bold>\<open>Artwork.\<close> \<open>ArtworkStore\<close> (\<open>persistence/artwork_queue_repository.go\<close>, \<open>artwork_repository.go\<close>,
  \<open>core/artwork/image_store.go\<close>) has the tables and the image files, \<open>ArtworkWorker\<close>
  (\<open>core/artwork/processor.go\<close>, \<open>worker.go\<close>, \<open>housekeeping.go\<close>) the processing of one item: a failed
  attempt keeps what is served. \<open>ArtworkPrune\<close> (\<open>prune.go\<close>): files and rows stay consistent while items are
  acquired and pruned at the same time. \<open>ArtworkRetry\<close>: no request is lost, and retries are bounded.
  \<open>ArtworkGate\<close> (\<open>core/artwork/gate.go\<close>) and \<open>Throttle\<close> (\<open>server/throttle_backlog.go\<close>): the breaker
  opens exactly after five transient failures in a row or on request, probes slowly and closes after
  three answers to its own probes; the throttle keeps its capacity in every interleaving.

  \<^bold>\<open>Loops and bounds.\<close> Loops over data are structural recursion or have a termination proof by a
  measure. Loops that wait for other goroutines are step relations, one step per atomic action (a
  critical section, a channel operation, a statement); that they end is proved as a bound on the
  number of steps of one caller. The loop that drains a scrobble queue takes fuel, and the number
  of buffered rows plus one is shown to be enough. So does the evaluation of smart playlists: every
  nested call visits another playlist, so the number of playlists plus two is enough, for any playlist to
  start from. No property holds only if a loop happens to end.

  \<^bold>\<open>Not modelled.\<close> The HTTP routing and response encoding of the three APIs, SQL generation for
  browsing and search, migrations, configuration and logging, the scanner's walk of the file system and
  tag mapping, the import of playlist files, the resolver of artwork and image decoding (arguments of the
  worker), listings of playlists with sorting and paging, the broker of server-sent events, the clients of external services, the WebAssembly runtime of the
  plugins, and the command line: their behaviour is that of the libraries they glue together.
\<close>

end
